(* ===== verification/KumPrelude.thy ===== *)
theory KumPrelude
  imports Main "HOL-Library.Word" "HOL-Library.Monad_Syntax"
begin

text \<open>
  The prelude of the KumOS development: the machine types of the C sources, the
  treatment of undefined behaviour, C buffers, and the generic facts that the
  component theories share.

  \<^item> \<open>u8\<close>, \<open>u16\<close>, \<open>u32\<close> are \<^verbatim>\<open>uint8_t\<close>, \<^verbatim>\<open>uint16_t\<close>, \<^verbatim>\<open>uint32_t\<close>.
    A C \<^verbatim>\<open>int\<close> that the code only compares, returns as a status or uses as an
    index is an \<open>int\<close>.
  \<^item> A computation that may run into undefined behaviour (an access outside the object a
    pointer points into, a division by zero) has an \<open>option\<close> result, and \<open>None\<close> is the
    undefined behaviour; it is never an error code. Error codes are values.
  \<^item> A pointer into a character buffer is the list of the bytes from the pointer to the
    end of the object; \<open>p + 1\<close> is the tail of the list, and reading \<open>[]\<close> is
    outside the object.
  \<^item> A static array of C is a function on indices; the operations that index it carry the
    bound checks of the code.
\<close>

unbundle bit_operations_syntax

type_synonym u8 = "8 word"
type_synonym u16 = "16 word"
type_synonym u32 = "32 word"
type_synonym bytes = "u8 list"

named_theorems kum_simps \<open>rewrite rules for the shared buffer operations\<close>
named_theorems kstr_simps \<open>the string routines, in terms of their abstract strings\<close>

section \<open>Machine words\<close>

lemma unat_u8_lt: "unat (w :: u8) < 256"
  using unsigned_less [of w, where 'a = nat] by simp

lemma unat_u16_lt: "unat (w :: u16) < 65536"
  using unsigned_less [of w, where 'a = nat] by simp

lemma unat_u32_lt: "unat (w :: u32) < 2 ^ 32"
  using unsigned_less [of w, where 'a = nat] by simp

lemma uint_inj [simp]: "uint (a :: 'a::len word) = uint b \<longleftrightarrow> a = b"
  by (auto simp: word_uint_eq_iff)

text \<open>The masks that the sources cut fields with.\<close>

lemma and_masks:
  "(w :: 'a::len word) AND 0xF = take_bit 4 w" "w AND 0x1F = take_bit 5 w"
  "w AND 0xFF = take_bit 8 w" "w AND 0xFFF = take_bit 12 w" "w AND 0xFFFF = take_bit 16 w"
  by (simp_all add: take_bit_eq_mask mask_eq_exp_minus_1)

lemma and_F0: "(w :: u8) AND 0xF0 = push_bit 4 (drop_bit 4 w)"
proof -
  have "(0xF0 :: u8) = push_bit 4 (mask 4)" by (simp add: mask_eq_exp_minus_1)
  show ?thesis unfolding \<open>0xF0 = _\<close>
    by (intro bit_word_eqI) (auto simp: bit_simps)
qed

text \<open>The conversion of a \<^verbatim>\<open>uint32_t\<close> count to the \<^verbatim>\<open>int\<close> that a function returns.\<close>

definition c_int :: "nat \<Rightarrow> int" where
  "c_int n = sint (of_nat n :: u32)"

lemma c_int_small: "n < 2 ^ 31 \<Longrightarrow> c_int n = int n"
  unfolding c_int_def by (simp add: signed_of_nat signed_take_bit_int_eq_self)

section \<open>Buffers\<close>

definition lit :: "string \<Rightarrow> bytes" where
  "lit s = map of_char s @ [0]"

definition cstr :: "bytes \<Rightarrow> bytes" where
  "cstr b = takeWhile (\<lambda>c. c \<noteq> 0) b"

definition terminated :: "bytes \<Rightarrow> bool" where
  "terminated b \<longleftrightarrow> 0 \<in> set b"

definition blit :: "'a list \<Rightarrow> nat \<Rightarrow> 'a list \<Rightarrow> 'a list option" where
  "blit buf off xs =
     (if off + length xs \<le> length buf
      then Some (take off buf @ xs @ drop (off + length xs) buf) else None)"

definition slice :: "'a list \<Rightarrow> nat \<Rightarrow> nat \<Rightarrow> 'a list option" where
  "slice buf off n = (if off + n \<le> length buf then Some (take n (drop off buf)) else None)"

lemma cstr_simps [simp]:
  "cstr [] = []" "cstr (c # cs) = (if c = 0 then [] else c # cstr cs)"
  by (simp_all add: cstr_def)

lemma terminated_simps [simp]:
  "\<not> terminated []" "terminated (c # cs) \<longleftrightarrow> c = 0 \<or> terminated cs"
  by (auto simp: terminated_def)

lemma terminated_append [simp]: "terminated (xs @ ys) \<longleftrightarrow> terminated xs \<or> terminated ys"
  by (auto simp: terminated_def)

lemma cstr_nonzero: "0 \<notin> set (cstr b)"
  by (induction b) auto

lemma cstr_length_le: "length (cstr b) \<le> length b"
  by (induction b) auto

lemma terminated_iff_length: "terminated b \<longleftrightarrow> length (cstr b) < length b"
  by (induction b) auto

lemma cstr_append_zero [simp]: "0 \<notin> set s \<Longrightarrow> cstr (s @ 0 # r) = s"
  by (induction s) auto

lemma cstr_id: "0 \<notin> set s \<Longrightarrow> cstr s = s"
  by (induction s) auto

lemma terminated_split: "terminated b \<Longrightarrow> b = cstr b @ 0 # drop (Suc (length (cstr b))) b"
  by (induction b) auto

lemma cstr_take: "length (cstr b) \<le> n \<Longrightarrow> cstr (take n b) = cstr b"
  by (induction b arbitrary: n) (auto simp: take_Cons' split: if_splits)


lemma blit_Some:
  "blit buf off xs = Some b \<Longrightarrow>
     length b = length buf \<and> take (length xs) (drop off b) = xs \<and> take off b = take off buf
     \<and> drop (off + length xs) b = drop (off + length xs) buf"
  by (auto simp: blit_def split: if_splits)

lemma slice_blit: "blit buf off xs = Some b \<Longrightarrow> slice b off (length xs) = Some xs"
  by (auto simp: blit_def slice_def split: if_splits)

section \<open>Scanning loops over a static array\<close>

text \<open>
  The loop \<^verbatim>\<open>for (int i = k; i < n; i++) if (P(i)) return i;\<close> that most of the
  kernel's tables are searched with: the first index with the property, if there is one.
\<close>

definition first_idx :: "(nat \<Rightarrow> bool) \<Rightarrow> nat \<Rightarrow> nat \<Rightarrow> nat option" where
  "first_idx P k n = find P [k..<n]"

lemma first_idx_rec:
  "first_idx P k n = (if k < n then if P k then Some k else first_idx P (Suc k) n else None)"
  by (auto simp: first_idx_def upt_rec [of k n])

lemma first_idx_SomeD:
  assumes "first_idx P k n = Some i"
  shows "k \<le> i" "i < n" "P i" "\<And>j. k \<le> j \<Longrightarrow> j < i \<Longrightarrow> \<not> P j"
proof -
  from assms obtain m where m: "m < n - k" "P (k + m)" "i = k + m" "\<forall>j<m. \<not> P (k + j)"
    by (auto simp: first_idx_def find_Some_iff)
  then show "k \<le> i" "i < n" "P i" by auto
  fix j assume "k \<le> j" "j < i"
  then have "j - k < m" using m by auto
  with m(4) \<open>k \<le> j\<close> show "\<not> P j" by (metis le_add_diff_inverse)
qed

lemma first_idx_None_iff: "first_idx P k n = None \<longleftrightarrow> (\<forall>i. k \<le> i \<longrightarrow> i < n \<longrightarrow> \<not> P i)"
  by (auto simp: first_idx_def find_None_iff)

lemma first_idx_ex: "k \<le> i \<Longrightarrow> i < n \<Longrightarrow> P i \<Longrightarrow> \<exists>j. first_idx P k n = Some j \<and> j \<le> i"
  by (metis first_idx_None_iff first_idx_SomeD(4) not_le option.exhaust)

lemma first_idx_cong:
  "(\<And>i. k \<le> i \<Longrightarrow> i < n \<Longrightarrow> P i = Q i) \<Longrightarrow> first_idx P k n = first_idx Q k n"
  unfolding first_idx_def by (rule find_cong) auto

lemma first_idx_eqI:
  assumes "k \<le> i" "i < n" "P i" "\<And>j. k \<le> j \<Longrightarrow> j < i \<Longrightarrow> \<not> P j"
  shows "first_idx P k n = Some i"
proof -
  from assms(1-3) obtain j where j: "first_idx P k n = Some j" "j \<le> i"
    using first_idx_ex by blast
  with assms(4) first_idx_SomeD [OF j(1)] show ?thesis by (metis le_neq_implies_less)
qed

text \<open>The same loop when the test itself reads memory and may be undefined.\<close>

fun scan_list :: "(nat \<Rightarrow> bool option) \<Rightarrow> nat list \<Rightarrow> nat option option" where
  "scan_list P [] = Some None"
| "scan_list P (i # is) = do { b \<leftarrow> P i; if b then Some (Some i) else scan_list P is }"

definition scan :: "(nat \<Rightarrow> bool option) \<Rightarrow> nat \<Rightarrow> nat \<Rightarrow> nat option option" where
  "scan P k n = scan_list P [k..<n]"

lemma scan_list_defined:
  "(\<And>i. i \<in> set is \<Longrightarrow> P i = Some (Q i)) \<Longrightarrow> scan_list P is = Some (find Q is)"
  by (induction "is") auto

lemma scan_defined:
  "(\<And>i. k \<le> i \<Longrightarrow> i < n \<Longrightarrow> P i = Some (Q i)) \<Longrightarrow> scan P k n = Some (first_idx Q k n)"
  unfolding scan_def first_idx_def by (rule scan_list_defined) auto

text \<open>Text literals of several lines, as the sources concatenate them.\<close>

definition lit_lines :: "string list \<Rightarrow> bytes" where
  "lit_lines ls = concat (map (\<lambda>l. map of_char l @ [10]) ls) @ [0]"

lemma length_blit: "blit buf off xs = Some b \<Longrightarrow> length b = length buf"
  by (auto simp: blit_def split: if_splits)

lemma cstr_lit: "list_all (\<lambda>c. of_char c \<noteq> (0::u8)) s \<Longrightarrow> cstr (lit s) = map of_char s"
  unfolding lit_def by (subst cstr_append_zero) (auto simp: list_all_iff)

lemma terminated_lit [simp]: "terminated (lit s)"
  by (simp add: lit_def)

lemma terminated_lit_lines [simp]: "terminated (lit_lines s)"
  by (simp add: lit_lines_def)

end
