(* ===== verification/KString.thy ===== *)
theory KString
  imports KumPrelude
begin

text \<open>
  The string library, \<^verbatim>\<open>src/kstring.c\<close>. Every routine is translated on buffers with
  the bounds of the objects explicit: a read or a write outside the object is \<open>None\<close>.
  The lemmas give each routine its meaning on the abstract string \<open>cstr b\<close>, and under
  which bounds it stays inside its buffers.
\<close>

section \<open>The routines\<close>

fun kstrlen :: "bytes \<Rightarrow> nat option" where
  "kstrlen [] = None"
| "kstrlen (c # s) = (if c = 0 then Some 0 else map_option Suc (kstrlen s))"

fun kstrcmp :: "bytes \<Rightarrow> bytes \<Rightarrow> int option" where
  "kstrcmp (a # as) (b # bs) =
     (if a \<noteq> 0 \<and> a = b then kstrcmp as bs else Some (uint a - uint b))"
| "kstrcmp [] _ = None"
| "kstrcmp _ [] = None"

fun kstrncmp :: "bytes \<Rightarrow> bytes \<Rightarrow> nat \<Rightarrow> int option" where
  "kstrncmp _ _ 0 = Some 0"
| "kstrncmp (a # as) (b # bs) (Suc n) =
     (if a \<noteq> 0 \<and> a = b then kstrncmp as bs n else Some (uint a - uint b))"
| "kstrncmp [] _ (Suc n) = None"
| "kstrncmp _ [] (Suc n) = None"

fun kstrcpy :: "bytes \<Rightarrow> bytes \<Rightarrow> bytes option" where
  "kstrcpy (d # ds) (c # cs) =
     (if c = 0 then Some (0 # ds) else map_option ((#) c) (kstrcpy ds cs))"
| "kstrcpy [] _ = None"
| "kstrcpy _ [] = None"

fun kmemset :: "bytes \<Rightarrow> u8 \<Rightarrow> nat \<Rightarrow> bytes option" where
  "kmemset ds c 0 = Some ds"
| "kmemset (d # ds) c (Suc n) = map_option ((#) c) (kmemset ds c n)"
| "kmemset [] c (Suc n) = None"

fun kstrncpy :: "bytes \<Rightarrow> bytes \<Rightarrow> nat \<Rightarrow> bytes option" where
  "kstrncpy ds cs 0 = Some ds"
| "kstrncpy (d # ds) (c # cs) (Suc n) =
     (if c \<noteq> 0 then map_option ((#) c) (kstrncpy ds cs n)
      else kmemset (d # ds) 0 (Suc n))"
| "kstrncpy [] _ (Suc n) = None"
| "kstrncpy _ [] (Suc n) = None"

fun kstrcat :: "bytes \<Rightarrow> bytes \<Rightarrow> bytes option" where
  "kstrcat [] src = None"
| "kstrcat (d # ds) src =
     (if d \<noteq> 0 then map_option ((#) d) (kstrcat ds src) else kstrcpy (d # ds) src)"

fun kmemcpy :: "bytes \<Rightarrow> bytes \<Rightarrow> nat \<Rightarrow> bytes option" where
  "kmemcpy ds cs 0 = Some ds"
| "kmemcpy (d # ds) (c # cs) (Suc n) = map_option ((#) c) (kmemcpy ds cs n)"
| "kmemcpy [] _ (Suc n) = None"
| "kmemcpy _ [] (Suc n) = None"

fun kstartswith :: "bytes \<Rightarrow> bytes \<Rightarrow> int option" where
  "kstartswith s [] = None"
| "kstartswith s (p # ps) =
     (if p = 0 then Some 1
      else case s of [] \<Rightarrow> None
           | c # cs \<Rightarrow> if c \<noteq> p then Some 0 else kstartswith cs ps)"

text \<open>
  \<^verbatim>\<open>kitoa\<close>: the digits go to \<^verbatim>\<open>tmp[33]\<close>, least significant first (the first
  argument of \<open>kitoa_tmp\<close> is the room left in \<^verbatim>\<open>tmp\<close>), and are copied to the
  caller's buffer in reverse. \<^verbatim>\<open>digits\<close> is a string literal of 16 characters and its
  terminator; indexing it further is outside the object.
\<close>

definition kitoa_digits :: bytes where
  "kitoa_digits = lit ''0123456789ABCDEF''"

fun kitoa_tmp :: "nat \<Rightarrow> u32 \<Rightarrow> u32 \<Rightarrow> bytes option" where
  "kitoa_tmp room val base =
     (if val = 0 then Some []
      else case room of
        0 \<Rightarrow> None
      | Suc room' \<Rightarrow>
          if base = 0 \<or> length kitoa_digits \<le> unat (val mod base) then None
          else map_option ((#) (kitoa_digits ! unat (val mod base)))
                 (kitoa_tmp room' (val div base) base))"

declare kitoa_tmp.simps [simp del]

definition kitoa :: "u32 \<Rightarrow> bytes \<Rightarrow> u32 \<Rightarrow> bytes option" where
  "kitoa val buf base =
     (if val = 0 then blit buf 0 [of_char CHR ''0'', 0]
      else do { tmp \<leftarrow> kitoa_tmp 33 val base; blit buf 0 (rev tmp @ [0]) })"

text \<open>A returned pointer is the offset from the argument; the null pointer is \<open>None\<close> inside.\<close>

fun kstrchr :: "bytes \<Rightarrow> u8 \<Rightarrow> nat option option" where
  "kstrchr [] c = None"
| "kstrchr (a # s) c =
     (if a = 0 then Some (if c = 0 then Some 0 else None)
      else if a = c then Some (Some 0)
      else map_option (map_option Suc) (kstrchr s c))"

fun kstrrchr_loop :: "bytes \<Rightarrow> u8 \<Rightarrow> nat \<Rightarrow> nat option \<Rightarrow> nat option option" where
  "kstrrchr_loop [] c i l = None"
| "kstrrchr_loop (a # s) c i l =
     (if a = 0 then Some l
      else kstrrchr_loop s c (Suc i) (if a = c then Some i else l))"

definition kstrrchr :: "bytes \<Rightarrow> u8 \<Rightarrow> nat option option" where
  "kstrrchr s c = kstrrchr_loop s c 0 None"

text \<open>\<^verbatim>\<open>n - 1\<close> is computed in \<^verbatim>\<open>size_t\<close>: it wraps for \<^verbatim>\<open>n = 0\<close>.\<close>

fun kstrncpy_safe_loop :: "bytes \<Rightarrow> bytes \<Rightarrow> nat \<Rightarrow> (bytes \<times> int) option" where
  "kstrncpy_safe_loop [] src room = None"
| "kstrncpy_safe_loop (d # ds) src room =
     (if room = 0 then Some (0 # ds, 0)
      else case src of [] \<Rightarrow> None
           | c # cs \<Rightarrow>
               if c = 0 then Some (0 # ds, 0)
               else map_option (\<lambda>(b, i). (c # b, i + 1)) (kstrncpy_safe_loop ds cs (room - 1)))"

definition kstrncpy_safe :: "bytes \<Rightarrow> bytes \<Rightarrow> u32 \<Rightarrow> (bytes \<times> int) option" where
  "kstrncpy_safe dst src n = kstrncpy_safe_loop dst src (unat (n - 1))"

section \<open>Comparison and search\<close>

lemma kstrlen_eq [kstr_simps]:
  "kstrlen s = (if terminated s then Some (length (cstr s)) else None)"
  by (induction s) auto

lemma kstrcmp_defined: "terminated a \<Longrightarrow> terminated b \<Longrightarrow> kstrcmp a b \<noteq> None"
  by (induction a b rule: kstrcmp.induct) (auto split: if_splits)

lemma kstrcmp_zero: "kstrcmp a b = Some 0 \<Longrightarrow> cstr a = cstr b"
  by (induction a b rule: kstrcmp.induct) (auto split: if_splits simp: uint_0_iff)

lemma kstrcmp_nonzero: "kstrcmp a b = Some r \<Longrightarrow> r \<noteq> 0 \<Longrightarrow> cstr a \<noteq> cstr b"
  by (induction a b rule: kstrcmp.induct) (auto split: if_splits)

lemma kstrcmp_eq_iff [kstr_simps]:
  "terminated a \<Longrightarrow> terminated b \<Longrightarrow> kstrcmp a b = Some 0 \<longleftrightarrow> cstr a = cstr b"
  using kstrcmp_defined kstrcmp_zero kstrcmp_nonzero by (metis not_None_eq)

lemma kstrncmp_zero_iff:
  assumes "terminated a" "terminated b"
  shows "\<exists>r. kstrncmp a b n = Some r \<and> (r = 0 \<longleftrightarrow> take n (cstr a) = take n (cstr b))"
  using assms
  by (induction a b n rule: kstrncmp.induct) (auto simp: uint_0_iff)

lemma kstrncmp_prefix:
  assumes "terminated a" "terminated b" "n = length (cstr b)"
  shows "\<exists>r. kstrncmp a b n = Some r \<and> (r = 0 \<longleftrightarrow> take n (cstr a) = cstr b)"
  using kstrncmp_zero_iff [OF assms(1,2), of n] assms(3) by simp

lemma kstartswith_eq [kstr_simps]:
  "terminated s \<Longrightarrow> terminated p \<Longrightarrow>
     kstartswith s p = Some (if take (length (cstr p)) (cstr s) = cstr p then 1 else 0)"
  by (induction s p rule: kstartswith.induct) (auto split: list.splits)

lemma kstrchr_spec:
  "terminated s \<Longrightarrow> c \<noteq> 0 \<Longrightarrow>
     kstrchr s c = Some (if c \<in> set (cstr s) then Some (length (takeWhile ((\<noteq>) c) (cstr s)))
                         else None)"
  by (induction s) auto

lemma kstrrchr_loop_spec:
  "terminated s \<Longrightarrow>
     kstrrchr_loop s c i l =
       Some (if c \<in> set (cstr s)
             then Some (i + length (cstr s) - 1 - length (takeWhile ((\<noteq>) c) (rev (cstr s))))
             else l)"
proof (induction s arbitrary: i l)
  case Nil
  then show ?case by simp
next
  case (Cons a s)
  show ?case
  proof (cases "a = 0")
    case False
    then have IH: "kstrrchr_loop s c (Suc i) l' =
       Some (if c \<in> set (cstr s)
             then Some (Suc i + length (cstr s) - 1 - length (takeWhile ((\<noteq>) c) (rev (cstr s))))
             else l')" for l'
      using Cons by simp
    show ?thesis
    proof (cases "c \<in> set (cstr s)")
      case True
      then have "takeWhile ((\<noteq>) c) (rev (cstr s) @ [a]) = takeWhile ((\<noteq>) c) (rev (cstr s))"
        by (intro takeWhile_append1 [of c]) auto
      with True False show ?thesis by (simp add: IH)
    next
      case c: False
      then have tw: "takeWhile ((\<noteq>) c) (rev (cstr s) @ [a]) =
          rev (cstr s) @ takeWhile ((\<noteq>) c) [a]"
        by (intro takeWhile_append2) auto
      show ?thesis using c False tw by (auto simp: IH simp del: takeWhile_append)
    qed
  qed simp
qed

section \<open>Copying\<close>

lemma kstrcpy_eq [kstr_simps]:
  "kstrcpy d s =
     (if terminated s \<and> length (cstr s) < length d
      then Some (cstr s @ 0 # drop (Suc (length (cstr s))) d) else None)"
  by (induction d s rule: kstrcpy.induct) auto

lemma kmemset_eq [kstr_simps]:
  "kmemset d c n = (if n \<le> length d then Some (replicate n c @ drop n d) else None)"
  by (induction d c n rule: kmemset.induct) auto

lemma kmemcpy_eq [kstr_simps]:
  "kmemcpy d s n =
     (if n \<le> length d \<and> n \<le> length s then Some (take n s @ drop n d) else None)"
  by (induction d s n rule: kmemcpy.induct) auto

lemma kstrcat_eq [kstr_simps]:
  "kstrcat d s =
     (if terminated d \<and> terminated s \<and> length (cstr d) + length (cstr s) < length d
      then Some (cstr d @ cstr s @ 0 # drop (Suc (length (cstr d) + length (cstr s))) d)
      else None)"
  by (induction d) (auto simp: kstrcpy_eq)

lemma kstrncpy_eq [kstr_simps]:
  assumes "terminated s"
  shows "kstrncpy d s n =
    (if n \<le> length d
     then Some (take n (cstr s) @ replicate (n - length (cstr s)) 0 @ drop n d) else None)"
  using assms
  by (induction d s n rule: kstrncpy.induct) (auto simp: kmemset_eq)

lemma kstrcpy_cstr:
  "kstrcpy d s = Some b \<Longrightarrow> cstr b = cstr s \<and> length b = length d \<and> terminated b"
  by (auto simp: kstrcpy_eq cstr_nonzero split: if_splits)

lemma kstrcpy_defined:
  "terminated s \<Longrightarrow> length (cstr s) < length d \<Longrightarrow> \<exists>b. kstrcpy d s = Some b"
  by (simp add: kstrcpy_eq)

lemma kstrcpy_into:
  "terminated s \<Longrightarrow> length (cstr s) < length d \<Longrightarrow>
     \<exists>b. kstrcpy d s = Some b \<and> cstr b = cstr s \<and> length b = length d \<and> terminated b"
  using kstrcpy_defined kstrcpy_cstr by blast

lemma kstrcat_cstr:
  "kstrcat d s = Some b \<Longrightarrow> cstr b = cstr d @ cstr s \<and> length b = length d \<and> terminated b"
proof -
  assume "kstrcat d s = Some b"
  then have b: "b = (cstr d @ cstr s) @ 0 # drop (Suc (length (cstr d) + length (cstr s))) d"
    and len: "length (cstr d) + length (cstr s) < length d"
    by (auto simp: kstrcat_eq split: if_splits)
  show ?thesis unfolding b using len by (subst cstr_append_zero) (auto simp: cstr_nonzero)
qed

lemma kstrncpy_safe_loop_eq:
  "terminated s \<Longrightarrow> min room (length (cstr s)) < length d \<Longrightarrow>
     kstrncpy_safe_loop d s room =
       Some (take room (cstr s) @ 0 # drop (Suc (min room (length (cstr s)))) d,
             int (min room (length (cstr s))))"
proof (induction d s room rule: kstrncpy_safe_loop.induct)
  case (2 d ds src room)
  then show ?case by (cases src; cases room) auto
qed simp

section \<open>Number formatting\<close>

text \<open>The value of a digit string, most significant digit first.\<close>

definition digit_val :: "u8 \<Rightarrow> nat" where
  "digit_val c = (if c < 65 then unat c - 48 else unat c - 55)"

definition digits_val :: "nat \<Rightarrow> bytes \<Rightarrow> nat" where
  "digits_val base ds = foldl (\<lambda>v c. v * base + digit_val c) 0 ds"

lemma length_kitoa_digits [simp]: "length kitoa_digits = 17"
  by (simp add: kitoa_digits_def lit_def)

lemma kitoa_digits_all:
  "list_all (\<lambda>n. digit_val (kitoa_digits ! n) = n \<and> kitoa_digits ! n \<noteq> 0) [0..<16]"
  by code_simp

lemma kitoa_digits_val: "n < 16 \<Longrightarrow> digit_val (kitoa_digits ! n) = n \<and> kitoa_digits ! n \<noteq> 0"
  using kitoa_digits_all by (simp add: list_all_iff)

lemma digits_val_append: "digits_val base (xs @ [c]) = digits_val base xs * base + digit_val c"
  by (simp add: digits_val_def)

text \<open>Enough room in \<^verbatim>\<open>tmp\<close>: \<open>room\<close> digits hold every value below \<open>2 ^ room\<close>.\<close>

lemma kitoa_tmp_ok:
  assumes "2 \<le> base" "base \<le> 16" "unat val < 2 ^ room"
  shows "\<exists>t. kitoa_tmp room val base = Some t \<and> digits_val (unat base) (rev t) = unat val
           \<and> 0 \<notin> set t \<and> length t \<le> room"
  using assms(3)
proof (induction room arbitrary: val)
  case 0
  then have "val = 0" by (simp add: unat_eq_zero)
  then show ?case by (simp add: kitoa_tmp.simps digits_val_def)
next
  case (Suc room)
  have b: "2 \<le> unat base" "unat base \<le> 16"
    using assms by (simp_all add: word_le_nat_alt)
  have base0: "base \<noteq> 0" using b by auto
  have "unat val div unat base \<le> unat val div 2"
    using b(1) by (simp add: div_le_mono2)
  then have lt: "unat (val div base) < 2 ^ room"
    using Suc.prems by (simp add: unat_div)
  have "unat (val mod base) < unat base"
    using b by (simp add: unat_mod)
  then have m: "unat (val mod base) < 16" using b by simp
  from Suc.IH [OF lt] obtain t where t: "kitoa_tmp room (val div base) base = Some t"
    "digits_val (unat base) (rev t) = unat (val div base)" "0 \<notin> set t" "length t \<le> room"
    by blast
  show ?case
  proof (cases "val = 0")
    case True
    then show ?thesis by (simp add: kitoa_tmp.simps digits_val_def)
  next
    case False
    with t m base0 have "kitoa_tmp (Suc room) val base =
        Some (kitoa_digits ! unat (val mod base) # t)"
      by (subst kitoa_tmp.simps) simp
    moreover have "unat (val div base) * unat base + unat (val mod base) = unat val"
      by (simp add: unat_div unat_mod)
    ultimately show ?thesis
      using t kitoa_digits_val [OF m] by (simp add: digits_val_append)
  qed
qed

lemma kitoa_tmp_mono: "kitoa_tmp room val base = Some t \<Longrightarrow> kitoa_tmp (Suc room) val base = Some t"
proof (induction room arbitrary: val t)
  case 0
  then show ?case by (simp add: kitoa_tmp.simps split: if_splits)
next
  case (Suc room)
  from Suc.prems show ?case
    by (subst kitoa_tmp.simps, subst (asm) kitoa_tmp.simps) (auto split: if_splits dest: Suc.IH)
qed

lemma kitoa_tmp_nonempty: "val \<noteq> 0 \<Longrightarrow> kitoa_tmp room val base = Some t \<Longrightarrow> t \<noteq> []"
  by (subst (asm) kitoa_tmp.simps) (auto split: nat.splits if_splits)

lemma kitoa_spec:
  assumes "2 \<le> base" "base \<le> 16" "33 \<le> length buf"
  shows "\<exists>b. kitoa val buf base = Some b \<and> length b = length buf
           \<and> digits_val (unat base) (cstr b) = unat val \<and> cstr b \<noteq> [] \<and> terminated b"
proof (cases "val = 0")
  case True
  with assms show ?thesis
    by (simp add: kitoa_def blit_def digits_val_def digit_val_def)
next
  case False
  have "unat val < 2 ^ 32" using unat_u32_lt [of val] .
  from kitoa_tmp_ok [OF assms(1,2) this] obtain t where
    t: "kitoa_tmp 32 val base = Some t" "digits_val (unat base) (rev t) = unat val"
       "0 \<notin> set t" "length t \<le> 32" by blast
  have "kitoa_tmp 33 val base = Some t"
    using kitoa_tmp_mono [OF t(1)] by simp
  moreover have "t \<noteq> []" using kitoa_tmp_nonempty [OF False t(1)] .
  ultimately show ?thesis
    using False t assms(3) by (auto simp: kitoa_def blit_def)
qed

section \<open>Properties\<close>

text \<open>
  \<^verbatim>\<open>kitoa\<close> in a base from 2 to 16 with a buffer of 33 bytes or more: it stays inside
  the buffer and its scratch array, and leaves a NUL-terminated numeral that reads back as the
  number.
\<close>

theorem kitoa_round_trip:
  assumes "2 \<le> base" "base \<le> 16" "33 \<le> length buf"
  shows "\<exists>b. kitoa val buf base = Some b \<and> length b = length buf
           \<and> digits_val (unat base) (cstr b) = unat val \<and> cstr b \<noteq> [] \<and> terminated b"
  using assms by (rule kitoa_spec)

lemma kitoa_round_trip_witness:
  "\<exists>b. kitoa 0xCAFE (replicate 40 7) 16 = Some b \<and> digits_val 16 (cstr b) = 0xCAFE"
  using kitoa_round_trip [of 16 "replicate 40 7" "0xCAFE"] by auto

text \<open>
  \<^verbatim>\<open>kstrcpy\<close> and \<^verbatim>\<open>kstrcat\<close> are defined exactly when the result with its NUL
  fits in the destination, and then the destination holds the copied, respectively the
  concatenated, string and nothing past the NUL is touched.
\<close>

theorem kstrcpy_kstrcat_fit:
  "kstrcpy d s =
     (if terminated s \<and> length (cstr s) < length d
      then Some (cstr s @ 0 # drop (Suc (length (cstr s))) d) else None)
   \<and> kstrcat d s =
     (if terminated d \<and> terminated s \<and> length (cstr d) + length (cstr s) < length d
      then Some (cstr d @ cstr s @ 0 # drop (Suc (length (cstr d) + length (cstr s))) d)
      else None)"
  by (simp only: kstrcpy_eq kstrcat_eq)

end
