(* ===== verification/Ring.thy ===== *)
theory Ring
  imports KumPrelude
begin

text \<open>
  Ring buffers. The kernel keeps four of them (the pipe buffer, the keyboard queue, the
  receive buffer of a TCP socket, the queue of received UDP frames), all with a head and a
  tail index, empty when they are equal and full when one more element would make them
  equal. \<open>ring_list\<close> is the sequence a ring stands for. The locale \<open>fifo\<close> is the
  contract its users rely on; each component interprets it on its own operations.
\<close>

definition ring_list :: "nat \<Rightarrow> (nat \<Rightarrow> 'a) \<Rightarrow> nat \<Rightarrow> nat \<Rightarrow> 'a list" where
  "ring_list cap buf hd_i tl_i =
     map (\<lambda>i. buf ((tl_i + i) mod cap)) [0..<(hd_i + cap - tl_i) mod cap]"

fun get_n :: "('q \<Rightarrow> 'a \<times> 'q) \<Rightarrow> nat \<Rightarrow> 'q \<Rightarrow> 'a list \<times> 'q" where
  "get_n get 0 q = ([], q)"
| "get_n get (Suc n) q =
     (let (a, q') = get q; (as, q'') = get_n get n q' in (a # as, q''))"

section \<open>Index arithmetic\<close>

lemma ring_used_lt: "0 < cap \<Longrightarrow> (h + cap - t) mod cap < (cap :: nat)"
  by simp

lemma ring_used_cases:
  "h < cap \<Longrightarrow> t < cap \<Longrightarrow>
     (h + cap - t) mod cap = (if t \<le> h then h - t else h + cap - t)" for h t cap :: nat
proof -
  assume h: "h < cap" and t: "t < cap"
  show ?thesis
  proof (cases "t \<le> h")
    case True
    then have "h + cap - t = (h - t) + cap" by simp
    then have "(h + cap - t) mod cap = (h - t) mod cap" by (simp only: mod_add_self2)
    with h True show ?thesis by simp
  next
    case False
    then have "h + cap - t < cap" using t by linarith
    with False show ?thesis by simp
  qed
qed

lemma ring_succ_cases: "h < cap \<Longrightarrow> Suc h mod cap = (if Suc h = cap then 0 else Suc h)"
  for h cap :: nat
  by auto

lemma ring_used_succ:
  fixes h t cap :: nat
  assumes "h < cap" "t < cap" "(h + 1) mod cap \<noteq> t"
  shows "((h + 1) mod cap + cap - t) mod cap = Suc ((h + cap - t) mod cap)"
proof -
  have s: "(h + 1) mod cap < cap" using assms by simp
  show ?thesis
    using assms unfolding ring_used_cases [OF assms(1,2)] ring_used_cases [OF s assms(2)]
    by (auto simp: ring_succ_cases [OF assms(1)] split: if_splits)
qed

lemma ring_used_tail:
  fixes h t cap :: nat
  assumes "h < cap" "t < cap" "h \<noteq> t"
  shows "(h + cap - t) mod cap = Suc ((h + cap - (t + 1) mod cap) mod cap)"
proof -
  have s: "(t + 1) mod cap < cap" using assms by simp
  show ?thesis
    using assms unfolding ring_used_cases [OF assms(1,2)] ring_used_cases [OF assms(1) s]
    by (auto simp: ring_succ_cases [OF assms(2)] split: if_splits)
qed

lemma ring_head_pos:
  fixes h t cap :: nat
  assumes "h < cap" "t < cap"
  shows "(t + (h + cap - t) mod cap) mod cap = h"
  using assms by (auto simp: ring_used_cases)

lemma ring_used_unique:
  fixes t cap d :: nat
  assumes "t < cap" "d < cap"
  shows "((t + d) mod cap + cap - t) mod cap = d"
proof (cases "t + d < cap")
  case True
  then show ?thesis using assms by simp
next
  case False
  then have "(t + d) mod cap = t + d - cap" using assms by (simp add: le_mod_geq)
  then show ?thesis using False assms by simp
qed

lemma ring_head_fresh:
  fixes h t cap :: nat
  assumes "h < cap" "t < cap" "i < (h + cap - t) mod cap"
  shows "(t + i) mod cap \<noteq> h"
proof (cases "t + i < cap")
  case True
  with assms show ?thesis by (auto simp: ring_used_cases split: if_splits)
next
  case False
  have "i < cap" using assms(1,3) ring_used_lt [of cap h t] by linarith
  then have "t + i - cap < cap" using assms(2) by simp
  then have m: "(t + i) mod cap = t + i - cap"
    using False by (simp add: le_mod_geq)
  have "i < (if t \<le> h then h - t else h + cap - t)"
    using assms by (simp only: ring_used_cases)
  then show ?thesis unfolding m using False assms(1,2) by (simp split: if_splits)
qed

section \<open>Rings as lists\<close>

lemma length_ring_list [simp]: "length (ring_list cap buf h t) = (h + cap - t) mod cap"
  by (simp add: ring_list_def)

lemma ring_list_empty: "t < cap \<Longrightarrow> ring_list cap buf t t = []"
  by (simp add: ring_list_def)

lemma ring_list_Nil_iff: "h < cap \<Longrightarrow> t < cap \<Longrightarrow> ring_list cap buf h t = [] \<longleftrightarrow> h = t"
  by (auto simp: ring_list_def ring_used_cases split: if_splits)

lemma ring_list_store:
  "h < cap \<Longrightarrow> t < cap \<Longrightarrow> ring_list cap (buf(h := a)) h t = ring_list cap buf h t"
  by (simp add: ring_list_def ring_head_fresh)

lemma ring_list_put:
  assumes "h < cap" "t < cap" "(h + 1) mod cap \<noteq> t"
  shows "ring_list cap buf ((h + 1) mod cap) t = ring_list cap buf h t @ [buf h]"
  unfolding ring_list_def ring_used_succ [OF assms]
  by (simp add: ring_head_pos [OF assms(1,2)])

lemma ring_list_get:
  assumes "h < cap" "t < cap" "h \<noteq> t"
  shows "ring_list cap buf h t = buf t # ring_list cap buf h ((t + 1) mod cap)"
proof -
  let ?n = "(h + cap - (t + 1) mod cap) mod cap"
  have "map (\<lambda>i. buf ((t + i) mod cap)) [0..<Suc ?n] =
      buf (t mod cap) # map (\<lambda>i. buf ((t + Suc i) mod cap)) [0..<?n]"
    by (simp only: upt_conv_Cons zero_less_Suc list.map map_Suc_upt [symmetric] map_map o_def
        add_0_right)
  moreover have "(t + Suc i) mod cap = ((t + 1) mod cap + i) mod cap" for i
    by (simp add: mod_add_left_eq)
  ultimately show ?thesis
    using assms(2) unfolding ring_list_def ring_used_tail [OF assms] by simp
qed

section \<open>The contract of a bounded queue\<close>

locale fifo =
  fixes contents :: "'q \<Rightarrow> 'a list"
    and inv :: "'q \<Rightarrow> bool"
    and cap :: nat
    and is_empty :: "'q \<Rightarrow> bool"
    and is_full :: "'q \<Rightarrow> bool"
    and put :: "'a \<Rightarrow> 'q \<Rightarrow> 'q"
    and get :: "'q \<Rightarrow> 'a \<times> 'q"
  assumes empty_iff: "inv q \<Longrightarrow> is_empty q \<longleftrightarrow> contents q = []"
    and full_iff: "inv q \<Longrightarrow> is_full q \<longleftrightarrow> length (contents q) = cap"
    and bounded: "inv q \<Longrightarrow> length (contents q) \<le> cap"
    and put_contents: "inv q \<Longrightarrow> \<not> is_full q \<Longrightarrow> contents (put a q) = contents q @ [a]"
    and put_inv: "inv q \<Longrightarrow> \<not> is_full q \<Longrightarrow> inv (put a q)"
    and get_contents: "inv q \<Longrightarrow> \<not> is_empty q \<Longrightarrow>
          contents q = fst (get q) # contents (snd (get q))"
    and get_inv: "inv q \<Longrightarrow> \<not> is_empty q \<Longrightarrow> inv (snd (get q))"
begin

lemma put_many:
  assumes "inv q" "length (contents q) + length xs \<le> cap"
  shows "contents (fold put xs q) = contents q @ xs \<and> inv (fold put xs q)"
  using assms
proof (induction xs arbitrary: q)
  case (Cons x xs)
  then have nf: "\<not> is_full q" using full_iff by auto
  with Cons.prems have "inv (put x q)" "contents (put x q) = contents q @ [x]"
    by (simp_all add: put_inv put_contents)
  with Cons.IH [of "put x q"] Cons.prems show ?case by simp
qed simp

lemma get_many:
  assumes "inv q" "n \<le> length (contents q)"
  shows "fst (get_n get n q) = take n (contents q)
       \<and> contents (snd (get_n get n q)) = drop n (contents q) \<and> inv (snd (get_n get n q))"
  using assms
proof (induction n arbitrary: q)
  case (Suc n)
  then have ne: "\<not> is_empty q" using empty_iff by auto
  obtain a q' where g: "get q = (a, q')" by fastforce
  with Suc.prems ne have q': "inv q'" "contents q = a # contents q'"
    using get_inv [of q] get_contents [of q] by auto
  with Suc.IH [of q'] Suc.prems g show ?case
    by (cases "get_n get n q'") simp
qed simp

lemma round_trip:
  assumes "inv q" "contents q = []" "length xs \<le> cap"
  shows "fst (get_n get (length xs) (fold put xs q)) = xs
       \<and> contents (snd (get_n get (length xs) (fold put xs q))) = []"
  using put_many [of q xs] get_many [of "fold put xs q" "length xs"] assms by simp

lemma not_empty_and_full: "inv q \<Longrightarrow> 0 < cap \<Longrightarrow> \<not> (is_empty q \<and> is_full q)"
  using empty_iff full_iff by fastforce

end

end
