(* ===== verification/HandleTable.thy ===== *)
theory HandleTable
  imports KumPrelude
begin

text \<open>
  Handle tables. The pipes, the open files of a mount, the file descriptors, the swap slots
  and the TCP sockets are fixed arrays with a \<^verbatim>\<open>used\<close> flag per slot: an allocation
  scans for the first free slot and returns its index or -1, a release clears the flag.
  The locale states the contract their clients rely on.
\<close>

fun alloc_n :: "('t \<Rightarrow> int \<times> 't) \<Rightarrow> nat \<Rightarrow> 't \<Rightarrow> int list \<times> 't" where
  "alloc_n alloc 0 t = ([], t)"
| "alloc_n alloc (Suc k) t =
     (let (h, t') = alloc t; (hs, t'') = alloc_n alloc k t' in (h # hs, t''))"

locale handle_table =
  fixes tinv :: "'t \<Rightarrow> bool"
    and live :: "'t \<Rightarrow> nat set"
    and size :: nat
    and alloc :: "'t \<Rightarrow> int \<times> 't"
    and release :: "nat \<Rightarrow> 't \<Rightarrow> 't"
  assumes live_sub: "live t \<subseteq> {..<size}"
    and alloc_free: "tinv t \<Longrightarrow> live t \<noteq> {..<size} \<Longrightarrow>
          \<exists>i. fst (alloc t) = int i \<and> i < size \<and> i \<notin> live t
            \<and> live (snd (alloc t)) = insert i (live t)"
    and alloc_full: "tinv t \<Longrightarrow> live t = {..<size} \<Longrightarrow> alloc t = (-1, t)"
    and alloc_inv: "tinv t \<Longrightarrow> tinv (snd (alloc t))"
    and release_live: "tinv t \<Longrightarrow> i \<in> live t \<Longrightarrow> live (release i t) = live t - {i}"
    and release_inv: "tinv t \<Longrightarrow> i \<in> live t \<Longrightarrow> tinv (release i t)"
begin

lemma card_live: "card (live t) \<le> size"
  using card_mono [OF _ live_sub] by fastforce

lemma full_iff_card: "live t = {..<size} \<longleftrightarrow> card (live t) = size"
  by (metis card_lessThan card_subset_eq finite_lessThan live_sub)

lemma alloc_succeeds_iff: "tinv t \<Longrightarrow> fst (alloc t) \<noteq> -1 \<longleftrightarrow> card (live t) < size"
  using alloc_free [of t] alloc_full [of t] full_iff_card card_live [of t]
  by (cases "live t = {..<size}") auto

lemma alloc_n_distinct:
  assumes "tinv t" "card (live t) + k \<le> size"
  shows "distinct (fst (alloc_n alloc k t))
       \<and> set (fst (alloc_n alloc k t)) \<inter> int ` live t = {}
       \<and> live (snd (alloc_n alloc k t)) = live t \<union> nat ` set (fst (alloc_n alloc k t))
       \<and> (\<forall>h \<in> set (fst (alloc_n alloc k t)). 0 \<le> h \<and> h < int size)"
  using assms
proof (induction k arbitrary: t)
  case (Suc k)
  then have "live t \<noteq> {..<size}" using full_iff_card by auto
  then obtain i where i: "fst (alloc t) = int i" "i < size" "i \<notin> live t"
    "live (snd (alloc t)) = insert i (live t)" using alloc_free [OF Suc.prems(1)] by blast
  obtain h t' where a: "alloc t = (h, t')" by fastforce
  have fin: "finite (live t)" using live_sub finite_subset by blast
  have "tinv t'" "card (live t') + k \<le> size"
    using Suc.prems i fin a alloc_inv [OF Suc.prems(1)] by simp_all
  from Suc.IH [OF this] i a show ?case
    by (cases "alloc_n alloc k t'") auto
qed simp

lemma release_then_alloc: "tinv t \<Longrightarrow> i \<in> live t \<Longrightarrow> fst (alloc (release i t)) \<noteq> -1"
proof -
  assume t: "tinv t" and i: "i \<in> live t"
  have "card (live (release i t)) < size"
    using release_live [OF t i] i live_sub [of t] card_live [of t]
    by (metis card_Diff1_less finite_lessThan finite_subset less_le_trans)
  then show ?thesis using release_inv [OF t i] by (simp add: alloc_succeeds_iff)
qed

end

text \<open>Slots of a function-shaped table, and the scan for the first free one.\<close>

definition live_slots :: "('e \<Rightarrow> bool) \<Rightarrow> nat \<Rightarrow> (nat \<Rightarrow> 'e) \<Rightarrow> nat set" where
  "live_slots used n t = {i. i < n \<and> used (t i)}"

lemma live_slots_sub: "live_slots used n t \<subseteq> {..<n}"
  by (auto simp: live_slots_def)

lemma live_slots_upd:
  "i < n \<Longrightarrow> live_slots used n (t(i := e)) =
     (if used e then insert i (live_slots used n t) else live_slots used n t - {i})"
  by (auto simp: live_slots_def)

lemma live_slots_full_iff:
  "live_slots used n t = {..<n} \<longleftrightarrow> first_idx (\<lambda>i. \<not> used (t i)) 0 n = None"
  by (auto simp: live_slots_def first_idx_None_iff)

lemma live_slots_first:
  "live_slots used n t \<noteq> {..<n} \<Longrightarrow>
     \<exists>i. first_idx (\<lambda>i. \<not> used (t i)) 0 n = Some i \<and> i < n \<and> i \<notin> live_slots used n t"
  using live_slots_full_iff first_idx_SomeD
  by (metis (mono_tags, lifting) live_slots_def mem_Collect_eq option.exhaust)

end
