(* ===== verification/Pipe.thy ===== *)
theory Pipe
  imports Ring HandleTable
begin

text \<open>
  The pipe subsystem, \<^verbatim>\<open>src/pipe.c\<close> and \<^verbatim>\<open>src/pipe.h\<close>. A pipe is a ring of
  4096 bytes with reference counts for its two ends. \<^verbatim>\<open>pipe_write\<close> and
  \<^verbatim>\<open>pipe_read\<close> block by calling \<^verbatim>\<open>sched_yield\<close> in a loop; while a caller is
  descheduled other tasks change the pipe. \<open>pipe_write_run\<close> and \<open>pipe_read_run\<close> are
  the loops up to the next return or yield. Theory
  \<open>PipeConc\<close> has the machine of one writer and one reader that interleave at every
  statement of the two loops, together with tasks that close the ends.
\<close>

section \<open>State and operations\<close>

definition PIPE_BUF_SIZE :: nat where "PIPE_BUF_SIZE = 4096"
definition PIPE_MAX :: nat where "PIPE_MAX = 16"

record pipe_t =
  p_buf :: "nat \<Rightarrow> u8"
  p_head :: u32
  p_tail :: u32
  p_writers :: int
  p_readers :: int
  p_used :: bool

type_synonym pipes = "nat \<Rightarrow> pipe_t"

definition pipe_zero :: pipe_t where
  "pipe_zero = \<lparr>p_buf = (\<lambda>_. 0), p_head = 0, p_tail = 0, p_writers = 0, p_readers = 0,
     p_used = False\<rparr>"

definition pipe_init :: pipes where
  "pipe_init = (\<lambda>_. pipe_zero)"

definition pipe_create :: "pipes \<Rightarrow> int \<times> pipes" where
  "pipe_create ps =
     (case first_idx (\<lambda>i. \<not> p_used (ps i)) 0 PIPE_MAX of
        None \<Rightarrow> (-1, ps)
      | Some i \<Rightarrow>
          (int i, ps(i := pipe_zero\<lparr>p_used := True, p_writers := 1, p_readers := 1,
                                   p_head := 0, p_tail := 0\<rparr>)))"

definition pipe_get :: "pipes \<Rightarrow> int \<Rightarrow> nat option" where
  "pipe_get ps pid =
     (if pid < 0 \<or> pid \<ge> int PIPE_MAX \<or> \<not> p_used (ps (nat pid)) then None
      else Some (nat pid))"

definition close_read_end :: "pipe_t \<Rightarrow> pipe_t" where
  "close_read_end p =
     (let p1 = (if p_readers p > 0 then p\<lparr>p_readers := p_readers p - 1\<rparr> else p)
      in if p_readers p1 = 0 \<and> p_writers p1 = 0 then p1\<lparr>p_used := False\<rparr> else p1)"

definition pipe_close_read :: "int \<Rightarrow> pipes \<Rightarrow> pipes" where
  "pipe_close_read pid ps =
     (if pid < 0 \<or> pid \<ge> int PIPE_MAX then ps
      else ps(nat pid := close_read_end (ps (nat pid))))"

definition close_write_end :: "pipe_t \<Rightarrow> pipe_t" where
  "close_write_end p =
     (let p1 = (if p_writers p > 0 then p\<lparr>p_writers := p_writers p - 1\<rparr> else p)
      in if p_readers p1 = 0 \<and> p_writers p1 = 0 then p1\<lparr>p_used := False\<rparr> else p1)"

definition pipe_close_write :: "int \<Rightarrow> pipes \<Rightarrow> pipes" where
  "pipe_close_write pid ps =
     (if pid < 0 \<or> pid \<ge> int PIPE_MAX then ps
      else ps(nat pid := close_write_end (ps (nat pid))))"

definition pipe_has_data :: "pipes \<Rightarrow> int \<Rightarrow> bool" where
  "pipe_has_data ps pid =
     (if pid < 0 \<or> pid \<ge> int PIPE_MAX \<or> \<not> p_used (ps (nat pid)) then False
      else p_head (ps (nat pid)) \<noteq> p_tail (ps (nat pid)))"

text \<open>Both counts are computed in \<^verbatim>\<open>uint32_t\<close>, where \<^verbatim>\<open>head - tail\<close> may wrap.\<close>

definition pipe_avail :: "pipe_t \<Rightarrow> u32" where
  "pipe_avail p = (p_head p - p_tail p + 4096) mod 4096"

definition pipe_free :: "pipe_t \<Rightarrow> u32" where
  "pipe_free p = 4096 - 1 - pipe_avail p"

text \<open>One iteration's store and index update, on either side of the pipe.\<close>

definition pipe_put :: "u8 \<Rightarrow> pipe_t \<Rightarrow> pipe_t" where
  "pipe_put c p = p\<lparr>p_buf := (p_buf p)(unat (p_head p) := c),
                    p_head := (p_head p + 1) mod 4096\<rparr>"

definition pipe_take :: "pipe_t \<Rightarrow> u8 \<times> pipe_t" where
  "pipe_take p = (p_buf p (unat (p_tail p)), p\<lparr>p_tail := (p_tail p + 1) mod 4096\<rparr>)"

text \<open>
  \<open>WRet r\<close> is the return of the value \<open>r\<close>; \<open>WYield rest w\<close> is the call of
  \<^verbatim>\<open>sched_yield\<close> with the bytes still to write and the count written: the loop goes
  on from there with whatever the pipe is when the task runs again.
\<close>

datatype wresult = WRet int | WYield bytes nat
datatype rresult = RRet int bytes | RYield nat bytes

fun pipe_write_run :: "pipe_t \<Rightarrow> bytes \<Rightarrow> nat \<Rightarrow> pipe_t \<times> wresult" where
  "pipe_write_run p [] w = (p, WRet (c_int w))"
| "pipe_write_run p (c # cs) w =
     (if pipe_free p = 0
      then if p_readers p = 0 then (p, WRet (c_int w)) else (p, WYield (c # cs) w)
      else pipe_write_run (pipe_put c p) cs (w + 1))"

definition pipe_write :: "pipes \<Rightarrow> int \<Rightarrow> bytes \<Rightarrow> pipes \<times> wresult" where
  "pipe_write ps pid src =
     (case pipe_get ps pid of
        None \<Rightarrow> (ps, WRet (-1))
      | Some i \<Rightarrow>
          if p_readers (ps i) = 0 then (ps, WRet (-1))
          else (let (p', r) = pipe_write_run (ps i) src 0 in (ps(i := p'), r)))"

fun pipe_read_run :: "pipe_t \<Rightarrow> nat \<Rightarrow> bytes \<Rightarrow> pipe_t \<times> rresult" where
  "pipe_read_run p 0 dst = (p, RRet (c_int (length dst)) dst)"
| "pipe_read_run p (Suc n) dst =
     (if p_head p = p_tail p
      then if p_writers p = 0 then (p, RRet (c_int (length dst)) dst)
           else (p, RYield (Suc n) dst)
      else (let (c, p') = pipe_take p in pipe_read_run p' n (dst @ [c])))"

definition pipe_read :: "pipes \<Rightarrow> int \<Rightarrow> nat \<Rightarrow> pipes \<times> rresult" where
  "pipe_read ps pid len =
     (case pipe_get ps pid of
        None \<Rightarrow> (ps, RRet (-1) [])
      | Some i \<Rightarrow> (let (p', r) = pipe_read_run (ps i) len [] in (ps(i := p'), r)))"

section \<open>The pipe as a bounded queue\<close>

definition pipe_inv :: "pipe_t \<Rightarrow> bool" where
  "pipe_inv p \<longleftrightarrow> unat (p_head p) < 4096 \<and> unat (p_tail p) < 4096"

definition pipe_list :: "pipe_t \<Rightarrow> bytes" where
  "pipe_list p = ring_list 4096 (p_buf p) (unat (p_head p)) (unat (p_tail p))"

lemma unat_mod_4096: "unat (w mod 4096 :: u32) = unat w mod 4096"
  by (simp add: unat_mod)

lemma unat_succ_mod_4096:
  "unat (w :: u32) < 4096 \<Longrightarrow> unat ((w + 1) mod 4096) = (unat w + 1) mod 4096"
  by (simp add: unat_mod_4096 unat_word_ariths)

lemma unat_pipe_avail:
  assumes "pipe_inv p"
  shows "unat (pipe_avail p) = (unat (p_head p) + 4096 - unat (p_tail p)) mod 4096"
proof (cases "p_tail p \<le> p_head p")
  case True
  then have "unat (p_head p - p_tail p) = unat (p_head p) - unat (p_tail p)"
    by (rule unat_sub)
  moreover have "unat (p_head p) < 4096" using assms by (simp add: pipe_inv_def)
  ultimately show ?thesis
    using True assms unfolding pipe_avail_def unat_mod_4096
    by (simp add: unat_word_ariths word_le_nat_alt pipe_inv_def)
next
  case False
  then have lt: "unat (p_head p) < unat (p_tail p)" by (simp add: word_le_nat_alt)
  have eq: "p_head p - p_tail p + 4096 = (p_head p + 4096) - p_tail p" by simp
  have un: "unat (p_head p + 4096) = unat (p_head p) + 4096"
    using assms by (simp add: unat_word_ariths pipe_inv_def)
  have "p_tail p \<le> p_head p + 4096"
    using assms un by (simp add: word_le_nat_alt pipe_inv_def)
  then show ?thesis
    unfolding pipe_avail_def eq unat_mod_4096 by (simp only: unat_sub un)
qed

lemma length_pipe_list: "pipe_inv p \<Longrightarrow> length (pipe_list p) = unat (pipe_avail p)"
  by (simp add: pipe_list_def unat_pipe_avail)

lemma unat_pipe_avail_lt: "pipe_inv p \<Longrightarrow> unat (pipe_avail p) < 4096"
  by (simp add: unat_pipe_avail)

lemma unat_pipe_free:
  assumes "pipe_inv p"
  shows "unat (pipe_free p) = 4095 - length (pipe_list p)"
proof -
  have "pipe_avail p \<le> 4095"
    using unat_pipe_avail_lt [OF assms] by (simp add: word_le_nat_alt)
  then show ?thesis
    using assms by (simp add: pipe_free_def unat_sub length_pipe_list)
qed

lemma pipe_free_zero_iff: "pipe_inv p \<Longrightarrow> pipe_free p = 0 \<longleftrightarrow> length (pipe_list p) = 4095"
  using unat_pipe_free [of p] unat_pipe_avail_lt [of p]
  by (auto simp: length_pipe_list unat_eq_zero [symmetric])

lemma pipe_full_next:
  "pipe_inv p \<Longrightarrow> pipe_free p = 0 \<longleftrightarrow> (unat (p_head p) + 1) mod 4096 = unat (p_tail p)"
  by (auto simp: pipe_free_zero_iff length_pipe_list unat_pipe_avail ring_used_cases
      ring_succ_cases pipe_inv_def split: if_splits)

lemma pipe_put_list:
  assumes "pipe_inv p" "pipe_free p \<noteq> 0"
  shows "pipe_list (pipe_put c p) = pipe_list p @ [c]" "pipe_inv (pipe_put c p)"
proof -
  have b: "unat (p_head p) < 4096" "unat (p_tail p) < 4096"
    using assms(1) by (auto simp: pipe_inv_def)
  have n: "(unat (p_head p) + 1) mod 4096 \<noteq> unat (p_tail p)"
    using assms pipe_full_next by blast
  show "pipe_list (pipe_put c p) = pipe_list p @ [c]"
    unfolding pipe_list_def pipe_put_def
    using ring_list_put [OF b n, of "(p_buf p)(unat (p_head p) := c)"] b
    by (simp add: unat_succ_mod_4096 ring_list_store)
  show "pipe_inv (pipe_put c p)"
    using b by (simp add: pipe_inv_def pipe_put_def unat_succ_mod_4096)
qed

lemma pipe_take_list:
  assumes "pipe_inv p" "p_head p \<noteq> p_tail p"
  shows "pipe_list p = fst (pipe_take p) # pipe_list (snd (pipe_take p))"
    "pipe_inv (snd (pipe_take p))"
proof -
  have b: "unat (p_head p) < 4096" "unat (p_tail p) < 4096"
    using assms(1) by (auto simp: pipe_inv_def)
  have n: "unat (p_head p) \<noteq> unat (p_tail p)" using assms(2) by (simp add: word_unat_eq_iff)
  show "pipe_list p = fst (pipe_take p) # pipe_list (snd (pipe_take p))"
    unfolding pipe_list_def pipe_take_def
    using ring_list_get [OF b n, of "p_buf p"] b by (simp add: unat_succ_mod_4096)
  show "pipe_inv (snd (pipe_take p))"
    using b by (simp add: pipe_inv_def pipe_take_def unat_succ_mod_4096)
qed

lemma pipe_list_Nil_iff: "pipe_inv p \<Longrightarrow> pipe_list p = [] \<longleftrightarrow> p_head p = p_tail p"
  by (simp add: pipe_list_def pipe_inv_def ring_list_Nil_iff word_unat_eq_iff)

interpretation pipe_fifo: fifo pipe_list pipe_inv 4095
  "\<lambda>p. p_head p = p_tail p" "\<lambda>p. pipe_free p = 0" pipe_put pipe_take
proof unfold_locales
  fix q assume q: "pipe_inv q"
  show "(p_head q = p_tail q) = (pipe_list q = [])" using q by (simp add: pipe_list_Nil_iff)
  show "(pipe_free q = 0) = (length (pipe_list q) = 4095)"
    using q by (rule pipe_free_zero_iff)
  show "length (pipe_list q) \<le> 4095"
    using q unat_pipe_avail_lt [of q] by (simp add: length_pipe_list)
  show "pipe_list q = fst (pipe_take q) # pipe_list (snd (pipe_take q))"
    if "p_head q \<noteq> p_tail q" using q that by (rule pipe_take_list)
  show "pipe_inv (snd (pipe_take q))" if "p_head q \<noteq> p_tail q"
    using q that by (rule pipe_take_list)
  fix a :: u8
  show "pipe_list (pipe_put a q) = pipe_list q @ [a]" if "pipe_free q \<noteq> 0"
    using q that by (rule pipe_put_list)
  show "pipe_inv (pipe_put a q)" if "pipe_free q \<noteq> 0" using q that by (rule pipe_put_list)
qed

section \<open>Writing and reading up to the next yield\<close>

lemma pipe_put_fields [simp]:
  "p_readers (pipe_put c p) = p_readers p" "p_writers (pipe_put c p) = p_writers p"
  "p_used (pipe_put c p) = p_used p" "p_tail (pipe_put c p) = p_tail p"
  by (simp_all add: pipe_put_def)

lemma pipe_take_fields [simp]:
  "p_readers (snd (pipe_take p)) = p_readers p" "p_writers (snd (pipe_take p)) = p_writers p"
  "p_used (snd (pipe_take p)) = p_used p" "p_head (snd (pipe_take p)) = p_head p"
  by (simp_all add: pipe_take_def)

lemma pipe_list_le: "pipe_inv p \<Longrightarrow> length (pipe_list p) \<le> 4095"
  by (rule pipe_fifo.bounded)

lemma pipe_write_run_spec:
  assumes "pipe_inv p" and "k = min (length src) (4095 - length (pipe_list p))"
  shows "snd (pipe_write_run p src w) =
           (if k = length src \<or> p_readers p = 0 then WRet (c_int (w + k))
            else WYield (drop k src) (w + k))
         \<and> pipe_inv (fst (pipe_write_run p src w))
         \<and> pipe_list (fst (pipe_write_run p src w)) = pipe_list p @ take k src
         \<and> p_readers (fst (pipe_write_run p src w)) = p_readers p
         \<and> p_writers (fst (pipe_write_run p src w)) = p_writers p
         \<and> p_used (fst (pipe_write_run p src w)) = p_used p"
  using assms(1) unfolding assms(2)
proof (induction p src w rule: pipe_write_run.induct)
  case (1 p w)
  then show ?case by simp
next
  case (2 p c cs w)
  show ?case
  proof (cases "pipe_free p = 0")
    case True
    with 2(2) have "length (pipe_list p) = 4095" by (simp add: pipe_free_zero_iff)
    with True 2(2) show ?thesis by simp
  next
    case False
    have p': "pipe_inv (pipe_put c p)" "pipe_list (pipe_put c p) = pipe_list p @ [c]"
      using pipe_put_list [OF 2(2) False] by auto
    have "length (pipe_list p) < 4095"
      using False 2(2) pipe_list_le [OF 2(2)] by (simp add: pipe_free_zero_iff)
    then have m: "min (length (c # cs)) (4095 - length (pipe_list p)) =
        Suc (min (length cs) (4095 - length (pipe_list (pipe_put c p))))"
      using p'(2) by auto
    from 2(1) [OF False p'(1)] show ?thesis
      using False unfolding m by (simp add: p'(2))
  qed
qed

lemma pipe_read_run_spec:
  assumes "pipe_inv p" and "k = min n (length (pipe_list p))"
  shows "snd (pipe_read_run p n dst) =
           (if k = n \<or> p_writers p = 0
            then RRet (c_int (length dst + k)) (dst @ take k (pipe_list p))
            else RYield (n - k) (dst @ take k (pipe_list p)))
         \<and> pipe_inv (fst (pipe_read_run p n dst))
         \<and> pipe_list (fst (pipe_read_run p n dst)) = drop k (pipe_list p)
         \<and> p_readers (fst (pipe_read_run p n dst)) = p_readers p
         \<and> p_writers (fst (pipe_read_run p n dst)) = p_writers p
         \<and> p_used (fst (pipe_read_run p n dst)) = p_used p"
  using assms(1) unfolding assms(2)
proof (induction p n dst rule: pipe_read_run.induct)
  case (1 p dst)
  then show ?case by simp
next
  case (2 p n dst)
  show ?case
  proof (cases "p_head p = p_tail p")
    case True
    with 2(2) have "pipe_list p = []" by (simp add: pipe_list_Nil_iff)
    with True 2(2) show ?thesis by simp
  next
    case False
    obtain c p' where t: "pipe_take p = (c, p')" by fastforce
    have p': "pipe_inv p'" "pipe_list p = c # pipe_list p'"
      using pipe_take_list [OF 2(2) False] t by auto
    have "p_readers p' = p_readers p" "p_writers p' = p_writers p" "p_used p' = p_used p"
      using pipe_take_fields [of p] t by auto
    with 2(1) [OF False t [symmetric] refl p'(1)] show ?thesis
      using False t by (simp add: p'(2))
  qed
qed

section \<open>The table of pipes\<close>

definition pipes_inv :: "pipes \<Rightarrow> bool" where
  "pipes_inv ps \<longleftrightarrow> (\<forall>i < PIPE_MAX. pipe_inv (ps i) \<and> p_readers (ps i) \<in> {0, 1}
     \<and> p_writers (ps i) \<in> {0, 1} \<and> (p_used (ps i) \<longleftrightarrow> p_readers (ps i) + p_writers (ps i) > 0))"

definition pipe_close_both :: "nat \<Rightarrow> pipes \<Rightarrow> pipes" where
  "pipe_close_both i ps = pipe_close_write (int i) (pipe_close_read (int i) ps)"

lemma pipe_inv_close [simp]:
  "pipe_inv (close_read_end p) = pipe_inv p" "pipe_inv (close_write_end p) = pipe_inv p"
  by (simp_all add: close_read_end_def close_write_end_def pipe_inv_def Let_def)

lemma pipe_list_close [simp]:
  "pipe_list (close_read_end p) = pipe_list p" "pipe_list (close_write_end p) = pipe_list p"
  by (simp_all add: close_read_end_def close_write_end_def pipe_list_def Let_def)

lemma pipes_inv_init: "pipes_inv pipe_init"
  by (simp add: pipes_inv_def pipe_init_def pipe_zero_def pipe_inv_def)

lemma pipes_inv_close_read: "pipes_inv ps \<Longrightarrow> pipes_inv (pipe_close_read pid ps)"
  unfolding pipes_inv_def pipe_close_read_def
  by (auto simp: close_read_end_def pipe_inv_def Let_def)

lemma pipes_inv_close_write: "pipes_inv ps \<Longrightarrow> pipes_inv (pipe_close_write pid ps)"
  unfolding pipes_inv_def pipe_close_write_def
  by (auto simp: close_write_end_def pipe_inv_def Let_def)

lemma pipes_inv_create: "pipes_inv ps \<Longrightarrow> pipes_inv (snd (pipe_create ps))"
  unfolding pipes_inv_def pipe_create_def
  by (auto simp: pipe_zero_def pipe_inv_def split: option.splits)

lemma close_both_unused:
  "p_readers p \<in> {0, 1} \<Longrightarrow> p_writers p \<in> {0, 1} \<Longrightarrow>
     \<not> p_used (close_write_end (close_read_end p))"
  by (auto simp: close_read_end_def close_write_end_def Let_def)

interpretation pipe_table: handle_table pipes_inv "live_slots p_used PIPE_MAX" PIPE_MAX
  pipe_create pipe_close_both
proof unfold_locales
  fix t :: pipes and i :: nat
  show "live_slots p_used PIPE_MAX t \<subseteq> {..<PIPE_MAX}" by (rule live_slots_sub)
  assume t: "pipes_inv t"
  show "pipes_inv (snd (pipe_create t))" using t by (rule pipes_inv_create)
  show "\<exists>i. fst (pipe_create t) = int i \<and> i < PIPE_MAX \<and> i \<notin> live_slots p_used PIPE_MAX t
      \<and> live_slots p_used PIPE_MAX (snd (pipe_create t)) = insert i (live_slots p_used PIPE_MAX t)"
    if "live_slots p_used PIPE_MAX t \<noteq> {..<PIPE_MAX}"
    using live_slots_first [OF that] by (auto simp: pipe_create_def live_slots_upd)
  show "pipe_create t = (-1, t)" if "live_slots p_used PIPE_MAX t = {..<PIPE_MAX}"
    using that by (simp add: live_slots_full_iff pipe_create_def)
  assume i: "i \<in> live_slots p_used PIPE_MAX t"
  then have lt: "i < PIPE_MAX" by (simp add: live_slots_def)
  show "pipes_inv (pipe_close_both i t)"
    using t by (simp add: pipe_close_both_def pipes_inv_close_read pipes_inv_close_write)
  have "\<not> p_used (close_write_end (close_read_end (t i)))"
    using t lt by (intro close_both_unused) (simp_all add: pipes_inv_def)
  then show "live_slots p_used PIPE_MAX (pipe_close_both i t) = live_slots p_used PIPE_MAX t - {i}"
    using lt by (simp add: pipe_close_both_def pipe_close_read_def pipe_close_write_def
        live_slots_upd)
qed

section \<open>Properties\<close>

text \<open>
  \<^verbatim>\<open>pipe_write\<close> up to its next return or yield: on a bad id or with no reader left it
  returns -1 and changes nothing; otherwise it appends the longest prefix of the data that
  fits in the 4095 usable bytes, returns the whole count if everything fitted, and yields with
  the rest if not.
\<close>

theorem pipe_write_spec:
  assumes "pipes_inv ps"
  shows "case pipe_get ps pid of
      None \<Rightarrow> pipe_write ps pid src = (ps, WRet (-1))
    | Some i \<Rightarrow>
        if p_readers (ps i) = 0 then pipe_write ps pid src = (ps, WRet (-1))
        else let k = min (length src) (4095 - length (pipe_list (ps i)))
             in \<exists>p'. pipe_write ps pid src =
                    (ps(i := p'), if k = length src then WRet (c_int k) else WYield (drop k src) k)
                  \<and> pipe_list p' = pipe_list (ps i) @ take k src
                  \<and> p_readers p' = p_readers (ps i) \<and> p_writers p' = p_writers (ps i)"
proof (cases "pipe_get ps pid")
  case None
  then show ?thesis by (simp add: pipe_write_def)
next
  case (Some i)
  then have "pipe_inv (ps i)"
    using assms by (auto simp: pipes_inv_def pipe_get_def split: if_splits)
  note w = pipe_write_run_spec [OF this refl, of src 0]
  obtain p' r where r: "pipe_write_run (ps i) src 0 = (p', r)" by fastforce
  show ?thesis
  proof (cases "p_readers (ps i) = 0")
    case True
    then show ?thesis by (simp add: Some pipe_write_def)
  next
    case False
    then have "pipe_write ps pid src = (ps(i := p'), r)" by (simp add: Some pipe_write_def r)
    then show ?thesis using w False
      unfolding r Some Let_def option.case fst_conv snd_conv by (auto intro!: exI [of _ p'])
  qed
qed

definition one_pipe :: pipes where
  "one_pipe = snd (pipe_create pipe_init)"

lemma one_pipe_inv: "pipes_inv one_pipe"
  unfolding one_pipe_def by (rule pipes_inv_create [OF pipes_inv_init])

lemma one_pipe_0: "p_used (one_pipe 0)" "p_readers (one_pipe 0) = 1" "p_writers (one_pipe 0) = 1"
  "pipe_list (one_pipe 0) = []"
  by (simp_all add: one_pipe_def pipe_create_def pipe_init_def pipe_zero_def PIPE_MAX_def
      first_idx_rec [of _ 0] pipe_list_def ring_list_def)

lemma pipe_write_spec_witness:
  "pipe_list (fst (pipe_write one_pipe 0 [1, 2, 3]) 0) = [1, 2, 3]"
  using pipe_write_spec [OF one_pipe_inv, of 0 "[1, 2, 3]"] one_pipe_0
  by (auto simp: pipe_get_def PIPE_MAX_def Let_def)

text \<open>
  A full table of 16 pipes makes \<^verbatim>\<open>pipe_create\<close> return -1 and change nothing;
  otherwise it returns a free slot, and that slot is the only one that becomes used.
\<close>

theorem pipe_create_spec:
  "(if live_slots p_used PIPE_MAX ps = {..<PIPE_MAX} then pipe_create ps = (-1, ps)
    else \<exists>i < PIPE_MAX. fst (pipe_create ps) = int i \<and> \<not> p_used (ps i)
       \<and> snd (pipe_create ps) = ps(i := snd (pipe_create ps) i)
       \<and> pipe_list (snd (pipe_create ps) i) = [] \<and> p_used (snd (pipe_create ps) i))"
proof (cases "live_slots p_used PIPE_MAX ps = {..<PIPE_MAX}")
  case True
  then show ?thesis by (simp add: pipe_create_def live_slots_full_iff)
next
  case False
  then obtain i where i: "first_idx (\<lambda>i. \<not> p_used (ps i)) 0 PIPE_MAX = Some i"
    "i < PIPE_MAX" "\<not> p_used (ps i)"
    using live_slots_first [of p_used PIPE_MAX ps] by (auto simp: live_slots_def)
  have "pipe_list (snd (pipe_create ps) i) = []"
    by (simp add: pipe_create_def i(1) pipe_list_def pipe_zero_def ring_list_def)
  with False i show ?thesis
    by (intro iffD2 [OF if_not_P]) (auto simp: pipe_create_def)
qed

end
