(* ===== verification/PipeConc.thy ===== *)
theory PipeConc
  imports Pipe
begin

text \<open>
  One task in \<^verbatim>\<open>pipe_write\<close> and one task in \<^verbatim>\<open>pipe_read\<close> on the same pipe,
  with every statement of the two loops of \<^verbatim>\<open>src/pipe.c\<close> a step of its own and the
  scheduler free to pick either task at every step, so the result covers both the
  cooperative switches at \<^verbatim>\<open>sched_yield\<close> and preemption. Other tasks may close either
  end at any time. What the reader has received is always a prefix of what was in the pipe
  followed by what the writer was given, in order, with nothing lost or duplicated.
\<close>

section \<open>The step relation\<close>

text \<open>
  The program counters. Writer: the test \<^verbatim>\<open>written < len\<close> (\<open>WLoop\<close>), the inner
  \<^verbatim>\<open>while (pipe_free(p) == 0)\<close> (\<open>WSpace\<close>), the store with \<^verbatim>\<open>written++\<close>
  (\<open>WStore\<close>), the index update (\<open>WAdvance\<close>). Reader: likewise.
\<close>

datatype wpc = WLoop | WSpace | WStore | WAdvance | WDone int
datatype rpc = RLoop | RData | RLoad | RAdvance | RDone int

record psys =
  s_pipe :: pipe_t
  s_wpc :: wpc
  s_src :: bytes
  s_written :: nat
  s_rpc :: rpc
  s_len :: nat
  s_dst :: bytes

definition writer_step :: "psys \<Rightarrow> psys" where
  "writer_step s = (let p = s_pipe s in
     case s_wpc s of
       WLoop \<Rightarrow> if s_written s < length (s_src s) then s\<lparr>s_wpc := WSpace\<rparr>
                else s\<lparr>s_wpc := WDone (c_int (s_written s))\<rparr>
     | WSpace \<Rightarrow> if pipe_free p = 0
                 then if p_readers p = 0 then s\<lparr>s_wpc := WDone (c_int (s_written s))\<rparr> else s
                 else s\<lparr>s_wpc := WStore\<rparr>
     | WStore \<Rightarrow> s\<lparr>s_pipe := p\<lparr>p_buf := (p_buf p)(unat (p_head p) := s_src s ! s_written s)\<rparr>,
                   s_written := s_written s + 1, s_wpc := WAdvance\<rparr>
     | WAdvance \<Rightarrow> s\<lparr>s_pipe := p\<lparr>p_head := (p_head p + 1) mod 4096\<rparr>, s_wpc := WLoop\<rparr>
     | WDone r \<Rightarrow> s)"

definition reader_step :: "psys \<Rightarrow> psys" where
  "reader_step s = (let p = s_pipe s in
     case s_rpc s of
       RLoop \<Rightarrow> if length (s_dst s) < s_len s then s\<lparr>s_rpc := RData\<rparr>
                else s\<lparr>s_rpc := RDone (c_int (length (s_dst s)))\<rparr>
     | RData \<Rightarrow> if p_head p = p_tail p
                then if p_writers p = 0 then s\<lparr>s_rpc := RDone (c_int (length (s_dst s)))\<rparr> else s
                else s\<lparr>s_rpc := RLoad\<rparr>
     | RLoad \<Rightarrow> s\<lparr>s_dst := s_dst s @ [p_buf p (unat (p_tail p))], s_rpc := RAdvance\<rparr>
     | RAdvance \<Rightarrow> s\<lparr>s_pipe := p\<lparr>p_tail := (p_tail p + 1) mod 4096\<rparr>, s_rpc := RLoop\<rparr>
     | RDone r \<Rightarrow> s)"

inductive pipe_step :: "psys \<Rightarrow> psys \<Rightarrow> bool" where
  step_writer: "pipe_step s (writer_step s)"
| step_reader: "pipe_step s (reader_step s)"
| step_close_read: "pipe_step s (s\<lparr>s_pipe := close_read_end (s_pipe s)\<rparr>)"
| step_close_write: "pipe_step s (s\<lparr>s_pipe := close_write_end (s_pipe s)\<rparr>)"

definition pipe_start :: "pipe_t \<Rightarrow> bytes \<Rightarrow> nat \<Rightarrow> psys" where
  "pipe_start p src len =
     \<lparr>s_pipe = p, s_wpc = WLoop, s_src = src, s_written = 0, s_rpc = RLoop, s_len = len,
      s_dst = []\<rparr>"

inductive pipe_reach :: "psys \<Rightarrow> psys \<Rightarrow> bool" for s0 :: psys where
  reach_refl: "pipe_reach s0 s0"
| reach_step: "pipe_reach s0 s \<Longrightarrow> pipe_step s t \<Longrightarrow> pipe_reach s0 t"

inductive_cases pipe_stepE: "pipe_step s t"

section \<open>The invariant\<close>

text \<open>What the writer has published, and what the reader has taken off the ring.\<close>

definition published :: "psys \<Rightarrow> bytes" where
  "published s = take (if s_wpc s = WAdvance then s_written s - 1 else s_written s) (s_src s)"

definition taken :: "psys \<Rightarrow> bytes" where
  "taken s = (if s_rpc s = RAdvance then butlast (s_dst s) else s_dst s)"

definition psys_inv :: "bytes \<Rightarrow> bytes \<Rightarrow> psys \<Rightarrow> bool" where
  "psys_inv c0 src s \<longleftrightarrow>
     pipe_inv (s_pipe s) \<and> s_src s = src \<and> s_written s \<le> length src
     \<and> c0 @ published s = taken s @ pipe_list (s_pipe s)
     \<and> (s_wpc s \<in> {WStore, WAdvance} \<longrightarrow> pipe_free (s_pipe s) \<noteq> 0)
     \<and> (s_wpc s \<in> {WSpace, WStore} \<longrightarrow> s_written s < length src)
     \<and> (s_wpc s = WAdvance \<longrightarrow> 0 < s_written s
          \<and> p_buf (s_pipe s) (unat (p_head (s_pipe s))) = src ! (s_written s - 1))
     \<and> (s_rpc s \<in> {RLoad, RAdvance} \<longrightarrow> p_head (s_pipe s) \<noteq> p_tail (s_pipe s))
     \<and> (s_rpc s = RAdvance \<longrightarrow> s_dst s \<noteq> []
          \<and> last (s_dst s) = p_buf (s_pipe s) (unat (p_tail (s_pipe s))))"

lemmas psys_defs = psys_inv_def published_def taken_def

lemma psys_inv_start:
  "pipe_inv p \<Longrightarrow> psys_inv (pipe_list p) src (pipe_start p src len)"
  by (simp add: psys_defs pipe_start_def)

lemma pipe_store_list:
  "pipe_inv p \<Longrightarrow> pipe_list (p\<lparr>p_buf := (p_buf p)(unat (p_head p) := c)\<rparr>) = pipe_list p"
  by (simp add: pipe_list_def pipe_inv_def ring_list_store)

lemma pipe_free_store [simp]: "pipe_free (p\<lparr>p_buf := b\<rparr>) = pipe_free p"
  by (simp add: pipe_free_def pipe_avail_def)

lemma pipe_inv_store [simp]: "pipe_inv (p\<lparr>p_buf := b\<rparr>) = pipe_inv p"
  by (simp add: pipe_inv_def)

text \<open>Advancing the head publishes the byte that is stored there.\<close>

lemma pipe_advance_head:
  assumes "pipe_inv p" "pipe_free p \<noteq> 0"
  shows "pipe_list (p\<lparr>p_head := (p_head p + 1) mod 4096\<rparr>) =
           pipe_list p @ [p_buf p (unat (p_head p))]"
    "pipe_inv (p\<lparr>p_head := (p_head p + 1) mod 4096\<rparr>)"
    "(p_head p + 1) mod 4096 \<noteq> p_tail p"
proof -
  have eq: "pipe_put (p_buf p (unat (p_head p))) p = p\<lparr>p_head := (p_head p + 1) mod 4096\<rparr>"
    by (simp add: pipe_put_def)
  show "pipe_list (p\<lparr>p_head := (p_head p + 1) mod 4096\<rparr>) =
      pipe_list p @ [p_buf p (unat (p_head p))]"
    and i: "pipe_inv (p\<lparr>p_head := (p_head p + 1) mod 4096\<rparr>)"
    using pipe_put_list [OF assms, of "p_buf p (unat (p_head p))"] unfolding eq by auto
  then have "pipe_list (p\<lparr>p_head := (p_head p + 1) mod 4096\<rparr>) \<noteq> []" by simp
  with pipe_list_Nil_iff [OF i] show "(p_head p + 1) mod 4096 \<noteq> p_tail p" by simp
qed

lemma pipe_advance_tail:
  assumes "pipe_inv p" "p_head p \<noteq> p_tail p"
  shows "pipe_list p = p_buf p (unat (p_tail p)) # pipe_list (p\<lparr>p_tail := (p_tail p + 1) mod 4096\<rparr>)"
    "pipe_inv (p\<lparr>p_tail := (p_tail p + 1) mod 4096\<rparr>)"
    "pipe_free (p\<lparr>p_tail := (p_tail p + 1) mod 4096\<rparr>) \<noteq> 0"
proof -
  have eq: "snd (pipe_take p) = p\<lparr>p_tail := (p_tail p + 1) mod 4096\<rparr>"
    "fst (pipe_take p) = p_buf p (unat (p_tail p))"
    by (simp_all add: pipe_take_def)
  show l: "pipe_list p = p_buf p (unat (p_tail p)) # pipe_list (p\<lparr>p_tail := (p_tail p + 1) mod 4096\<rparr>)"
    and i: "pipe_inv (p\<lparr>p_tail := (p_tail p + 1) mod 4096\<rparr>)"
    using pipe_take_list [OF assms] unfolding eq by auto
  have "length (pipe_list (p\<lparr>p_tail := (p_tail p + 1) mod 4096\<rparr>)) < 4095"
    using pipe_list_le [OF assms(1)] l by simp
  then show "pipe_free (p\<lparr>p_tail := (p_tail p + 1) mod 4096\<rparr>) \<noteq> 0"
    using i by (simp add: pipe_free_zero_iff)
qed

text \<open>A store at the head leaves the byte at the tail alone while the ring is not empty.\<close>

lemma pipe_store_tail:
  "p_head p \<noteq> p_tail p \<Longrightarrow> ((p_buf p)(unat (p_head p) := c)) (unat (p_tail p)) = p_buf p (unat (p_tail p))"
  by (simp add: word_unat_eq_iff)

lemma close_end_fields [simp]:
  "p_buf (close_read_end p) = p_buf p" "p_head (close_read_end p) = p_head p"
  "p_tail (close_read_end p) = p_tail p" "pipe_free (close_read_end p) = pipe_free p"
  "p_buf (close_write_end p) = p_buf p" "p_head (close_write_end p) = p_head p"
  "p_tail (close_write_end p) = p_tail p" "pipe_free (close_write_end p) = pipe_free p"
  by (simp_all add: close_read_end_def close_write_end_def pipe_free_def pipe_avail_def Let_def)

lemma published_frame [simp]:
  "published (s\<lparr>s_pipe := p\<rparr>) = published s" "published (s\<lparr>s_rpc := r\<rparr>) = published s"
  "published (s\<lparr>s_dst := d\<rparr>) = published s"
  by (simp_all add: published_def)

lemma taken_frame [simp]:
  "taken (s\<lparr>s_pipe := p\<rparr>) = taken s" "taken (s\<lparr>s_wpc := w\<rparr>) = taken s"
  "taken (s\<lparr>s_written := n\<rparr>) = taken s"
  by (simp_all add: taken_def)

lemma writer_step_inv:
  assumes "psys_inv c0 src s"
  shows "psys_inv c0 src (writer_step s)"
proof (cases "s_wpc s")
  case WStore
  let ?p = "s_pipe s"
  have p: "pipe_inv ?p" "pipe_free ?p \<noteq> 0" "s_written s < length src" "s_src s = src"
    using assms WStore by (auto simp: psys_inv_def)
  let ?p' = "?p\<lparr>p_buf := (p_buf ?p)(unat (p_head ?p) := s_src s ! s_written s)\<rparr>"
  have st: "writer_step s = s\<lparr>s_pipe := ?p', s_written := s_written s + 1, s_wpc := WAdvance\<rparr>"
    by (simp add: writer_step_def WStore Let_def)
  have pub: "published (writer_step s) = published s"
    using WStore by (simp add: st published_def)
  have "pipe_list ?p' = pipe_list ?p" using p(1) by (rule pipe_store_list)
  with assms p pub pipe_store_tail [of ?p "s_src s ! s_written s"] show ?thesis
    unfolding psys_inv_def st by (simp split del: if_split)
next
  case WAdvance
  let ?p = "s_pipe s"
  have p: "pipe_inv ?p" "pipe_free ?p \<noteq> 0" "0 < s_written s" "s_written s \<le> length src"
    and b: "p_buf ?p (unat (p_head ?p)) = src ! (s_written s - 1)"
    using assms WAdvance by (auto simp: psys_defs)
  have src: "s_src s = src" using assms by (simp add: psys_inv_def)
  have st: "writer_step s = s\<lparr>s_pipe := ?p\<lparr>p_head := (p_head ?p + 1) mod 4096\<rparr>, s_wpc := WLoop\<rparr>"
    by (simp add: writer_step_def WAdvance Let_def)
  have "take (s_written s) src = take (s_written s - 1) src @ [src ! (s_written s - 1)]"
    using p by (metis Suc_diff_1 Suc_le_lessD take_Suc_conv_app_nth)
  then have "published (writer_step s) = published s @ [p_buf ?p (unat (p_head ?p))]"
    using WAdvance src b by (simp only: published_def st) simp
  moreover have "taken (writer_step s) = taken s" by (simp add: st taken_def)
  moreover have "c0 @ published s = taken s @ pipe_list ?p" using assms by (simp add: psys_inv_def)
  ultimately have "c0 @ published (writer_step s) =
      taken (writer_step s) @ pipe_list (s_pipe (writer_step s))"
    using pipe_advance_head [OF p(1,2)] by (simp add: st)
  with assms pipe_advance_head(2,3) [OF p(1,2)] show ?thesis
    unfolding psys_inv_def st by simp
qed (use assms in \<open>auto simp: psys_defs writer_step_def Let_def\<close>)

lemma reader_step_inv:
  assumes "psys_inv c0 src s"
  shows "psys_inv c0 src (reader_step s)"
proof (cases "s_rpc s")
  case RAdvance
  let ?p = "s_pipe s"
  have p: "pipe_inv ?p" "p_head ?p \<noteq> p_tail ?p" "s_dst s \<noteq> []"
    "last (s_dst s) = p_buf ?p (unat (p_tail ?p))"
    using assms RAdvance by (auto simp: psys_defs)
  then have d: "butlast (s_dst s) @ [p_buf ?p (unat (p_tail ?p))] = s_dst s"
    by (metis append_butlast_last_id)
  have st: "reader_step s = s\<lparr>s_pipe := ?p\<lparr>p_tail := (p_tail ?p + 1) mod 4096\<rparr>, s_rpc := RLoop\<rparr>"
    by (simp add: reader_step_def RAdvance Let_def)
  have "taken (reader_step s) @ pipe_list (s_pipe (reader_step s)) = taken s @ pipe_list ?p"
  proof -
    have "s_dst s @ xs = butlast (s_dst s) @ p_buf ?p (unat (p_tail ?p)) # xs" for xs
      using d by (metis append.assoc append_Cons append_Nil)
    then show ?thesis
      using pipe_advance_tail(1) [OF p(1,2)] RAdvance by (simp only: st taken_def) simp
  qed
  moreover have "published (reader_step s) = published s" by (simp add: st published_def)
  moreover have "c0 @ published s = taken s @ pipe_list ?p" using assms by (simp add: psys_inv_def)
  ultimately have "c0 @ published (reader_step s) =
      taken (reader_step s) @ pipe_list (s_pipe (reader_step s))" by simp
  with assms pipe_advance_tail(2,3) [OF p(1,2)] show ?thesis
    unfolding psys_inv_def st by simp
qed (use assms in \<open>auto simp: psys_defs reader_step_def Let_def\<close>)

lemma close_step_inv:
  assumes "psys_inv c0 src s"
  shows "psys_inv c0 src (s\<lparr>s_pipe := close_read_end (s_pipe s)\<rparr>)"
    "psys_inv c0 src (s\<lparr>s_pipe := close_write_end (s_pipe s)\<rparr>)"
  using assms unfolding psys_inv_def by simp_all

lemma pipe_step_inv: "pipe_step s t \<Longrightarrow> psys_inv c0 src s \<Longrightarrow> psys_inv c0 src t"
  by (erule pipe_stepE) (simp_all add: writer_step_inv reader_step_inv close_step_inv)

lemma pipe_reach_inv:
  assumes "pipe_reach (pipe_start p src len) s" "pipe_inv p"
  shows "psys_inv (pipe_list p) src s"
  using assms(1)
proof (induction rule: pipe_reach.induct)
  case reach_refl
  show ?case using assms(2) by (rule psys_inv_start)
next
  case (reach_step s t)
  then show ?case by (blast intro: pipe_step_inv)
qed

text \<open>The two tasks never wait for each other: a ring is not full and empty at once.\<close>

lemma pipe_not_both_blocked:
  assumes "pipe_reach (pipe_start p src len) s" "pipe_inv p"
  shows "\<not> (pipe_free (s_pipe s) = 0 \<and> p_head (s_pipe s) = p_tail (s_pipe s))"
  using pipe_reach_inv [OF assms] pipe_fifo.not_empty_and_full [of "s_pipe s"]
  by (auto simp: psys_inv_def)

lemma reach_dst_len:
  assumes "pipe_reach (pipe_start p src len) s"
  shows "s_len s = len" "length (s_dst s) \<le> s_len s"
    "s_rpc s \<in> {RData, RLoad} \<Longrightarrow> length (s_dst s) < s_len s"
proof -
  have "s_len s = len \<and> length (s_dst s) \<le> s_len s
      \<and> (s_rpc s \<in> {RData, RLoad} \<longrightarrow> length (s_dst s) < s_len s)"
    using assms
  proof (induction rule: pipe_reach.induct)
    case reach_refl
    show ?case by (simp add: pipe_start_def)
  next
    case (reach_step s t)
    from reach_step.hyps(2) reach_step.IH show ?case
      by (cases rule: pipe_step.cases)
        (auto simp: writer_step_def reader_step_def Let_def split: wpc.splits rpc.splits)
  qed
  then show "s_len s = len" "length (s_dst s) \<le> s_len s"
    "s_rpc s \<in> {RData, RLoad} \<Longrightarrow> length (s_dst s) < s_len s" by auto
qed

section \<open>Properties\<close>

lemma psys_inv_prefix:
  assumes "psys_inv c0 src s"
  shows "\<exists>rest. c0 @ take (s_written s) src = s_dst s @ rest"
proof -
  have eq: "c0 @ published s = taken s @ pipe_list (s_pipe s)"
    and src: "s_src s = src" "pipe_inv (s_pipe s)" using assms by (auto simp: psys_inv_def)
  obtain more where m: "take (s_written s) src = published s @ more"
  proof
    show "take (s_written s) src = published s @
        drop (length (published s)) (take (s_written s) src)"
      by (auto simp: published_def src(1) min_def take_drop [symmetric])
        (metis append_take_drop_id diff_le_self min_def take_take)
  qed
  show ?thesis
  proof (cases "s_rpc s = RAdvance")
    case False
    then have "c0 @ take (s_written s) src = s_dst s @ pipe_list (s_pipe s) @ more"
      using eq m by (simp add: taken_def)
    then show ?thesis by blast
  next
    case True
    then have d: "s_dst s \<noteq> []" "last (s_dst s) = p_buf (s_pipe s) (unat (p_tail (s_pipe s)))"
      and ne: "p_head (s_pipe s) \<noteq> p_tail (s_pipe s)"
      using assms by (auto simp: psys_inv_def)
    obtain xs where "pipe_list (s_pipe s) = last (s_dst s) # xs"
      using pipe_advance_tail [OF src(2) ne] d(2) by auto
    then have "taken s @ pipe_list (s_pipe s) = s_dst s @ xs"
      using d(1) True by (simp add: taken_def)
    then have "c0 @ take (s_written s) src = s_dst s @ xs @ more" using eq m by simp
    then show ?thesis by blast
  qed
qed

text \<open>
  C4. Under every interleaving of the statements of one \<^verbatim>\<open>pipe_write\<close> and one
  \<^verbatim>\<open>pipe_read\<close>, with either end closed at any point, what the reader holds is a prefix of
  the bytes that were in the pipe followed by the bytes the writer has written: nothing is
  lost, duplicated, reordered or invented, the reader never gets more than it asked for, and
  reader and writer are never both blocked.
\<close>

theorem pipe_transfer_fifo:
  assumes "pipe_reach (pipe_start p src len) s" "pipe_inv p"
  shows "(\<exists>rest. pipe_list p @ take (s_written s) src = s_dst s @ rest)
     \<and> length (s_dst s) \<le> len
     \<and> \<not> (pipe_free (s_pipe s) = 0 \<and> p_head (s_pipe s) = p_tail (s_pipe s))"
  using psys_inv_prefix [OF pipe_reach_inv [OF assms]] reach_dst_len [OF assms(1)]
    pipe_not_both_blocked [OF assms] by auto

lemma pipe_transfer_fifo_witness:
  "\<exists>rest. take (s_written (writer_step (pipe_start pipe_zero [1, 2] 2))) [1, 2]
     = s_dst (writer_step (pipe_start pipe_zero [1, 2] 2)) @ rest"
  using pipe_transfer_fifo [of pipe_zero "[1, 2]" 2 "writer_step (pipe_start pipe_zero [1, 2] 2)"]
  by (simp add: pipe_reach.intros pipe_step.intros reach_step [OF reach_refl step_writer]
      pipe_inv_def pipe_zero_def pipe_list_def ring_list_def)

end
