(* ===== verification/KMalloc.thy ===== *)
theory KMalloc
  imports KumPrelude
begin

text \<open>
  The kernel heap, \<^verbatim>\<open>src/kmalloc.c\<close>: a first-fit allocator with block headers in the
  heap, a doubly linked free list through the headers, splitting on allocation and
  coalescing with the following block on release.

  Addresses and sizes are \<open>nat\<close> with the \<^verbatim>\<open>uint32_t\<close> wrap-around written out
  (\<open>w32\<close>). \<open>h_mem a\<close> is the 16-byte header at address \<open>a\<close>; the payload bytes are not
  part of the model, and the clients are taken to stay inside the blocks they were given.
  A pointer is an address, the null pointer is 0.
\<close>

section \<open>State and operations\<close>

definition w32 :: "nat \<Rightarrow> nat" where
  "w32 n = n mod 2 ^ 32"

definition sub32 :: "nat \<Rightarrow> nat \<Rightarrow> nat" where
  "sub32 a b = w32 (a + 2 ^ 32 - b)"

definition MAGIC_FREE :: u32 where "MAGIC_FREE = 0xDEADBEEF"
definition MAGIC_USED :: u32 where "MAGIC_USED = 0xCAFEBABE"
definition MIN_SPLIT :: nat where "MIN_SPLIT = 16"

record block_t =
  b_magic :: u32
  b_size :: nat
  b_prev :: nat
  b_next :: nat

definition SIZEOF_BLOCK :: nat where "SIZEOF_BLOCK = 16"

record kheap =
  h_mem :: "nat \<Rightarrow> block_t"
  h_free_list :: nat
  h_start :: nat
  h_end :: nat
  h_cap :: nat

definition upd_block :: "nat \<Rightarrow> (block_t \<Rightarrow> block_t) \<Rightarrow> kheap \<Rightarrow> kheap" where
  "upd_block a f h = h\<lparr>h_mem := (h_mem h)(a := f (h_mem h a))\<rparr>"

definition kmalloc_init :: "nat \<Rightarrow> nat \<Rightarrow> kheap \<Rightarrow> kheap" where
  "kmalloc_init start sz h =
     h\<lparr>h_start := start, h_end := start, h_cap := w32 (start + sz), h_free_list := 0\<rparr>"

definition push_free :: "nat \<Rightarrow> kheap \<Rightarrow> kheap" where
  "push_free b h =
     (let h1 = upd_block b (\<lambda>x. x\<lparr>b_prev := 0, b_next := h_free_list h\<rparr>) h;
          h2 = (if h_free_list h1 \<noteq> 0 then upd_block (h_free_list h1) (\<lambda>x. x\<lparr>b_prev := b\<rparr>) h1
                else h1)
      in h2\<lparr>h_free_list := b\<rparr>)"

definition extend_heap :: "nat \<Rightarrow> kheap \<Rightarrow> nat \<times> kheap" where
  "extend_heap need h =
     (let total = w32 (SIZEOF_BLOCK + need) in
      if w32 (h_end h + total) > h_cap h then (0, h)
      else
        (let b = h_end h;
             h1 = upd_block b (\<lambda>x. x\<lparr>b_magic := MAGIC_FREE, b_size := need\<rparr>) h;
             h2 = push_free b h1
         in (b, h2\<lparr>h_end := w32 (h_end h2 + total)\<rparr>)))"

text \<open>
  The two statements that take a block out of the free list:
  \<^verbatim>\<open>if (b->prev) b->prev->next = b->next; else free_list = b->next;\<close> and
  \<^verbatim>\<open>if (b->next) b->next->prev = b->prev;\<close>.
\<close>

definition unlink_block :: "nat \<Rightarrow> kheap \<Rightarrow> kheap" where
  "unlink_block b h =
     (let h1 = (if b_prev (h_mem h b) \<noteq> 0
                then upd_block (b_prev (h_mem h b)) (\<lambda>x. x\<lparr>b_next := b_next (h_mem h b)\<rparr>) h
                else h\<lparr>h_free_list := b_next (h_mem h b)\<rparr>)
      in if b_next (h_mem h1 b) \<noteq> 0
         then upd_block (b_next (h_mem h1 b)) (\<lambda>x. x\<lparr>b_prev := b_prev (h_mem h1 b)\<rparr>) h1
         else h1)"

definition coalesce :: "nat \<Rightarrow> kheap \<Rightarrow> kheap" where
  "coalesce b h =
     (let nx = w32 (b + SIZEOF_BLOCK + b_size (h_mem h b)) in
      if nx < h_end h \<and> b_magic (h_mem h nx) = MAGIC_FREE
      then unlink_block nx
             (upd_block b (\<lambda>x. x\<lparr>b_size := w32 (b_size x + (SIZEOF_BLOCK + b_size (h_mem h nx)))\<rparr>) h)
      else h)"

text \<open>The walk along the free list to the first block that is large enough.\<close>

partial_function (option) kmalloc_fit :: "kheap \<Rightarrow> nat \<Rightarrow> nat \<Rightarrow> nat option" where
  "kmalloc_fit h sz b =
     (if b = 0 then Some 0
      else if sz \<le> b_size (h_mem h b) then Some b
      else kmalloc_fit h sz (b_next (h_mem h b)))"

definition split_block :: "nat \<Rightarrow> nat \<Rightarrow> kheap \<Rightarrow> kheap" where
  "split_block b sz h =
     (let s = w32 (b + SIZEOF_BLOCK + sz);
          h1 = upd_block s (\<lambda>x. x\<lparr>b_magic := MAGIC_FREE,
                 b_size := sub32 (sub32 (b_size (h_mem h b)) sz) SIZEOF_BLOCK,
                 b_prev := b_prev (h_mem h b), b_next := b_next (h_mem h b)\<rparr>) h;
          h2 = (if b_prev (h_mem h1 b) \<noteq> 0
                then upd_block (b_prev (h_mem h1 b)) (\<lambda>x. x\<lparr>b_next := s\<rparr>) h1
                else h1\<lparr>h_free_list := s\<rparr>);
          h3 = (if b_next (h_mem h2 b) \<noteq> 0
                then upd_block (b_next (h_mem h2 b)) (\<lambda>x. x\<lparr>b_prev := s\<rparr>) h2 else h2)
      in upd_block b (\<lambda>x. x\<lparr>b_size := sz\<rparr>) h3)"

definition mark_used :: "nat \<Rightarrow> kheap \<Rightarrow> kheap" where
  "mark_used b h = upd_block b (\<lambda>x. x\<lparr>b_magic := MAGIC_USED, b_prev := 0, b_next := 0\<rparr>) h"

definition kmalloc :: "nat \<Rightarrow> kheap \<Rightarrow> (nat \<times> kheap) option" where
  "kmalloc size0 h =
     (if size0 = 0 then Some (0, h)
      else
        (let sz = w32 (size0 + 7) div 8 * 8 in
         do {
           b \<leftarrow> kmalloc_fit h sz (h_free_list h);
           if b \<noteq> 0
           then let h1 = (if b_size (h_mem h b) \<ge> w32 (sz + SIZEOF_BLOCK + MIN_SPLIT)
                          then split_block b sz h else unlink_block b h)
                in Some (w32 (b + SIZEOF_BLOCK), mark_used b h1)
           else let (e, h1) = extend_heap sz h
                in if e = 0 then Some (0, h1)
                   else Some (w32 (e + SIZEOF_BLOCK), mark_used e (unlink_block e h1))
         }))"

definition kfree :: "nat \<Rightarrow> kheap \<Rightarrow> kheap" where
  "kfree ptr h =
     (if ptr = 0 then h
      else
        (let b = sub32 ptr SIZEOF_BLOCK in
         if b_magic (h_mem h b) \<noteq> MAGIC_USED then h
         else coalesce b (push_free b (upd_block b (\<lambda>x. x\<lparr>b_magic := MAGIC_FREE\<rparr>) h))))"

partial_function (option) kmalloc_used_from :: "kheap \<Rightarrow> nat \<Rightarrow> nat \<Rightarrow> nat option" where
  "kmalloc_used_from h pos used =
     (if pos < h_end h
      then kmalloc_used_from h (w32 (pos + (SIZEOF_BLOCK + b_size (h_mem h pos))))
             (if b_magic (h_mem h pos) = MAGIC_USED then w32 (used + b_size (h_mem h pos)) else used)
      else Some used)"

definition kmalloc_used :: "kheap \<Rightarrow> nat option" where
  "kmalloc_used h = kmalloc_used_from h (h_start h) 0"

partial_function (option) kmalloc_free_from :: "kheap \<Rightarrow> nat \<Rightarrow> nat \<Rightarrow> nat option" where
  "kmalloc_free_from h b fr =
     (if b \<noteq> 0 then kmalloc_free_from h (b_next (h_mem h b)) (w32 (fr + b_size (h_mem h b)))
      else Some fr)"

definition kmalloc_free :: "kheap \<Rightarrow> nat option" where
  "kmalloc_free h = kmalloc_free_from h (h_free_list h) 0"

section \<open>Doubly linked lists in the headers\<close>

definition hd_or :: "nat \<Rightarrow> nat list \<Rightarrow> nat" where
  "hd_or e xs = (case xs of [] \<Rightarrow> e | x # _ \<Rightarrow> x)"

definition last_or :: "nat \<Rightarrow> nat list \<Rightarrow> nat" where
  "last_or p xs = (if xs = [] then p else last xs)"

text \<open>\<open>linked m p xs e\<close>: the blocks \<open>xs\<close> are linked in order, from \<open>p\<close> to \<open>e\<close>.\<close>

fun linked :: "(nat \<Rightarrow> block_t) \<Rightarrow> nat \<Rightarrow> nat list \<Rightarrow> nat \<Rightarrow> bool" where
  "linked m p [] e = True"
| "linked m p (x # xs) e = (b_prev (m x) = p \<and> b_next (m x) = hd_or e xs \<and> linked m x xs e)"

lemma hd_or_simps [simp]: "hd_or e [] = e" "hd_or e (x # xs) = x"
  by (simp_all add: hd_or_def)

lemma last_or_simps [simp]: "last_or p [] = p" "last_or p (x # xs) = last_or x xs"
  "last_or p (xs @ [y]) = y"
  by (simp_all add: last_or_def)

lemma hd_or_append [simp]: "hd_or e (xs @ ys) = hd_or (hd_or e ys) xs"
  by (cases xs) auto

lemma hd_or_in: "xs \<noteq> [] \<Longrightarrow> hd_or e xs \<in> set xs"
  by (cases xs) auto

lemma last_or_in: "xs \<noteq> [] \<Longrightarrow> last_or p xs \<in> set xs"
  by (simp add: last_or_def)

lemma linked_append:
  "linked m p (xs @ ys) e \<longleftrightarrow> linked m p xs (hd_or e ys) \<and> linked m (last_or p xs) ys e"
  by (induction xs arbitrary: p) auto

lemma linked_cong:
  "(\<And>x. x \<in> set xs \<Longrightarrow> b_prev (m x) = b_prev (m' x) \<and> b_next (m x) = b_next (m' x)) \<Longrightarrow>
     linked m p xs e = linked m' p xs e"
  by (induction xs arbitrary: p) auto

lemma linked_frame: "a \<notin> set xs \<Longrightarrow> linked (m(a := v)) p xs e = linked m p xs e"
  by (rule linked_cong) auto

text \<open>Redirecting the two ends of a segment.\<close>

lemma linked_set_next:
  assumes "linked m p xs e" "distinct xs" "xs \<noteq> []"
  shows "linked (m(last xs := (m (last xs))\<lparr>b_next := e'\<rparr>)) p xs e'"
  using assms
proof (induction xs arbitrary: p)
  case (Cons x xs)
  show ?case
  proof (cases "xs = []")
    case True
    with Cons show ?thesis by simp
  next
    case False
    then have x: "x \<noteq> last xs" using Cons.prems(2) by auto
    have "hd_or e xs = hd_or e' xs" using False by (cases xs) auto
    with Cons False x show ?thesis by simp
  qed
qed simp

lemma linked_set_prev:
  assumes "linked m p (x # xs) e" "x \<notin> set xs"
  shows "linked (m(x := (m x)\<lparr>b_prev := p'\<rparr>)) p' (x # xs) e"
  using assms by (simp add: linked_frame)

text \<open>What the list operations leave alone.\<close>

lemma upd_block_simps [simp]:
  "h_mem (upd_block a f h) = (h_mem h)(a := f (h_mem h a))"
  "h_free_list (upd_block a f h) = h_free_list h" "h_start (upd_block a f h) = h_start h"
  "h_end (upd_block a f h) = h_end h" "h_cap (upd_block a f h) = h_cap h"
  by (simp_all add: upd_block_def)

lemma unlink_frame [simp]:
  "b_magic (h_mem (unlink_block b h) a) = b_magic (h_mem h a)"
  "b_size (h_mem (unlink_block b h) a) = b_size (h_mem h a)"
  "h_start (unlink_block b h) = h_start h" "h_end (unlink_block b h) = h_end h"
  "h_cap (unlink_block b h) = h_cap h"
  by (simp_all add: unlink_block_def Let_def)

lemma push_free_frame [simp]:
  "b_magic (h_mem (push_free b h) a) = b_magic (h_mem h a)"
  "b_size (h_mem (push_free b h) a) = b_size (h_mem h a)"
  "h_start (push_free b h) = h_start h" "h_end (push_free b h) = h_end h"
  "h_cap (push_free b h) = h_cap h" "h_free_list (push_free b h) = b"
  by (simp_all add: push_free_def Let_def)

lemma push_free_links:
  assumes "linked (h_mem h) 0 fl 0" "h_free_list h = hd_or 0 fl" "distinct fl" "0 \<notin> set fl"
    "b \<notin> set fl"
  shows "linked (h_mem (push_free b h)) 0 (b # fl) 0"
proof (cases fl)
  case Nil
  with assms show ?thesis by (simp add: push_free_def Let_def)
next
  case (Cons x xs)
  with assms show ?thesis by (auto simp: push_free_def Let_def linked_frame)
qed

text \<open>Joining the segment before a block and the segment after it through new ends.\<close>

lemma last_or_zero: "0 \<notin> set xs \<Longrightarrow> last_or 0 xs \<noteq> 0 \<longleftrightarrow> xs \<noteq> []"
  by (metis last_or_in last_or_simps(1))

lemma hd_or_zero: "0 \<notin> set xs \<Longrightarrow> hd_or 0 xs \<noteq> 0 \<longleftrightarrow> xs \<noteq> []"
  by (metis hd_or_in hd_or_simps(1))

lemma relink:
  assumes lx: "linked m 0 xs e" and ly: "linked m p ys 0"
    and d: "distinct (xs @ ys)" and z: "0 \<notin> set (xs @ ys)"
    and m1: "m1 = (if last_or 0 xs \<noteq> 0 then m(last_or 0 xs := (m (last_or 0 xs))\<lparr>b_next := v\<rparr>) else m)"
    and m2: "m2 = (if hd_or 0 ys \<noteq> 0 then m1(hd_or 0 ys := (m1 (hd_or 0 ys))\<lparr>b_prev := u\<rparr>) else m1)"
  shows "linked m2 0 xs v" "linked m2 u ys 0"
    "\<And>a. a \<notin> set (xs @ ys) \<Longrightarrow> m1 a = m a \<and> m2 a = m a"
proof -
  have lo: "last_or 0 xs \<noteq> 0 \<longleftrightarrow> xs \<noteq> []" and ho: "hd_or 0 ys \<noteq> 0 \<longleftrightarrow> ys \<noteq> []"
    using z last_or_zero hd_or_zero by auto
  have m1x: "linked m1 0 xs v"
    using linked_set_next [OF lx] d lo unfolding m1 by (auto simp: last_or_def)
  have "\<And>y. y \<in> set ys \<Longrightarrow> m1 y = m y"
    using d last_or_in [of xs 0] lo unfolding m1 by auto
  then have m1y: "linked m1 p ys 0" using ly linked_cong [of ys m1 m p 0] by simp
  show "linked m2 0 xs v"
  proof (cases ys)
    case Nil
    with m1x show ?thesis by (simp add: m2)
  next
    case (Cons y ys')
    then have "y \<notin> set xs" using d by auto
    with m1x Cons show ?thesis by (simp add: m2 linked_frame)
  qed
  show "linked m2 u ys 0"
  proof (cases ys)
    case (Cons y ys')
    then have "y \<notin> set ys'" "y \<noteq> 0" using d z by auto
    with m1y Cons linked_set_prev [of m1 p y ys' 0 u] show ?thesis by (simp add: m2)
  qed simp
  show "m1 a = m a \<and> m2 a = m a" if "a \<notin> set (xs @ ys)" for a
  proof -
    have "a \<noteq> last_or 0 xs \<or> xs = []" "a \<noteq> hd_or 0 ys \<or> ys = []"
      using that last_or_in [of xs 0] hd_or_in [of ys 0] by auto
    then show ?thesis using lo ho unfolding m1 m2 by auto
  qed
qed

lemma unlink_links:
  assumes l: "linked (h_mem h) 0 (xs @ b # ys) 0" and f: "h_free_list h = hd_or 0 (xs @ b # ys)"
    and d: "distinct (xs @ b # ys)" and z: "0 \<notin> set (xs @ b # ys)"
  shows "linked (h_mem (unlink_block b h)) 0 (xs @ ys) 0"
    "h_free_list (unlink_block b h) = hd_or 0 (xs @ ys)"
proof -
  let ?m = "h_mem h"
  have b: "b_prev (?m b) = last_or 0 xs" "b_next (?m b) = hd_or 0 ys"
    and lx: "linked ?m 0 xs b" and ly: "linked ?m b ys 0"
    using l by (simp_all add: linked_append)
  define h1 where "h1 = (if last_or 0 xs \<noteq> 0
      then upd_block (last_or 0 xs) (\<lambda>x. x\<lparr>b_next := hd_or 0 ys\<rparr>) h
      else h\<lparr>h_free_list := hd_or 0 ys\<rparr>)"
  have d': "distinct (xs @ ys)" "0 \<notin> set (xs @ ys)" "b \<notin> set (xs @ ys)" using d z by auto
  have m1: "h_mem h1 = (if last_or 0 xs \<noteq> 0
      then ?m(last_or 0 xs := (?m (last_or 0 xs))\<lparr>b_next := hd_or 0 ys\<rparr>) else ?m)"
    by (simp add: h1_def)
  note r = relink [OF lx ly d'(1,2) m1 refl]
  have h1b: "h_mem h1 b = ?m b" using r(3) [OF d'(3)] by simp
  have h1f: "h_free_list h1 = hd_or 0 (xs @ ys)"
    using f last_or_zero [of xs] d'(2) unfolding h1_def by (cases xs) auto
  have u: "unlink_block b h = (if hd_or 0 ys \<noteq> 0
      then upd_block (hd_or 0 ys) (\<lambda>x. x\<lparr>b_prev := last_or 0 xs\<rparr>) h1 else h1)"
    by (simp only: unlink_block_def Let_def b h1_def [symmetric] h1b)
  have um: "h_mem (unlink_block b h) = (if hd_or 0 ys \<noteq> 0
      then (h_mem h1)(hd_or 0 ys := (h_mem h1 (hd_or 0 ys))\<lparr>b_prev := last_or 0 xs\<rparr>)
      else h_mem h1)"
    by (simp add: u)
  show "h_free_list (unlink_block b h) = hd_or 0 (xs @ ys)"
    by (simp add: u h1f)
  show "linked (h_mem (unlink_block b h)) 0 (xs @ ys) 0"
    unfolding um linked_append using r(1,2) by blast
qed

lemma split_links:
  assumes l: "linked (h_mem h) 0 (xs @ b # ys) 0" and f: "h_free_list h = hd_or 0 (xs @ b # ys)"
    and d: "distinct (xs @ b # ys)" and z: "0 \<notin> set (xs @ b # ys)"
    and s: "s = w32 (b + SIZEOF_BLOCK + sz)" "s \<notin> set (xs @ b # ys)" "s \<noteq> 0"
  shows "linked (h_mem (split_block b sz h)) 0 (xs @ s # ys) 0"
    "h_free_list (split_block b sz h) = hd_or 0 (xs @ s # ys)"
proof -
  let ?h0 = "upd_block s (\<lambda>x. x\<lparr>b_magic := MAGIC_FREE,
                 b_size := sub32 (sub32 (b_size (h_mem h b)) sz) SIZEOF_BLOCK,
                 b_prev := b_prev (h_mem h b), b_next := b_next (h_mem h b)\<rparr>) h"
  let ?m = "h_mem ?h0"
  have l0: "linked ?m 0 (xs @ b # ys) 0"
    using l s(2) by (simp only: upd_block_simps linked_frame not_False_eq_True)
  have b: "b_prev (?m b) = last_or 0 xs" "b_next (?m b) = hd_or 0 ys"
    and lx: "linked ?m 0 xs b" and ly: "linked ?m b ys 0"
    using l0 by (simp_all only: linked_append linked.simps hd_or_simps)
  have bs: "b_prev (?m s) = last_or 0 xs" "b_next (?m s) = hd_or 0 ys"
    using l by (simp_all add: linked_append)
  have d': "distinct (xs @ ys)" "0 \<notin> set (xs @ ys)" "b \<notin> set (xs @ ys)" "s \<notin> set (xs @ ys)"
    using d z s by auto
  define h1 where "h1 = (if last_or 0 xs \<noteq> 0
      then upd_block (last_or 0 xs) (\<lambda>x. x\<lparr>b_next := s\<rparr>) ?h0 else ?h0\<lparr>h_free_list := s\<rparr>)"
  have m1: "h_mem h1 = (if last_or 0 xs \<noteq> 0
      then ?m(last_or 0 xs := (?m (last_or 0 xs))\<lparr>b_next := s\<rparr>) else ?m)"
    by (simp add: h1_def)
  define h2 where "h2 = (if hd_or 0 ys \<noteq> 0
      then upd_block (hd_or 0 ys) (\<lambda>x. x\<lparr>b_prev := s\<rparr>) h1 else h1)"
  have m2: "h_mem h2 = (if hd_or 0 ys \<noteq> 0
      then (h_mem h1)(hd_or 0 ys := (h_mem h1 (hd_or 0 ys))\<lparr>b_prev := s\<rparr>) else h_mem h1)"
    by (simp add: h2_def)
  note r = relink [OF lx ly d'(1,2) m1 m2]
  have h1b: "h_mem h1 b = ?m b" using r(3) [OF d'(3)] by simp
  have u: "split_block b sz h = upd_block b (\<lambda>x. x\<lparr>b_size := sz\<rparr>) h2"
    by (simp only: split_block_def Let_def s(1) [symmetric] b h1_def [symmetric] h1b
        h2_def [symmetric])
  have "linked (h_mem h2) 0 (xs @ s # ys) 0"
    using r(1,2) r(3) [OF d'(4)] bs by (simp add: linked_append)
  then show "linked (h_mem (split_block b sz h)) 0 (xs @ s # ys) 0"
    using d'(3) s(2) by (simp add: u linked_frame)
  have "h_free_list h1 = hd_or 0 (xs @ s # ys)"
    using f last_or_zero [of xs] d'(2) unfolding h1_def by (cases xs) auto
  then show "h_free_list (split_block b sz h) = hd_or 0 (xs @ s # ys)"
    by (simp add: u h2_def)
qed

lemma split_frame:
  assumes "s = w32 (b + SIZEOF_BLOCK + sz)" "s \<noteq> b"
  shows "b_magic (h_mem (split_block b sz h) a) = (if a = s then MAGIC_FREE else b_magic (h_mem h a))"
    "b_size (h_mem (split_block b sz h) a) =
       (if a = b then sz else if a = s then sub32 (sub32 (b_size (h_mem h b)) sz) SIZEOF_BLOCK
        else b_size (h_mem h a))"
    "h_start (split_block b sz h) = h_start h" "h_end (split_block b sz h) = h_end h"
    "h_cap (split_block b sz h) = h_cap h"
proof -
  define h1 where "h1 = upd_block s (\<lambda>x. x\<lparr>b_magic := MAGIC_FREE,
      b_size := sub32 (sub32 (b_size (h_mem h b)) sz) SIZEOF_BLOCK,
      b_prev := b_prev (h_mem h b), b_next := b_next (h_mem h b)\<rparr>) h"
  define h2 where "h2 = (if b_prev (h_mem h1 b) \<noteq> 0
      then upd_block (b_prev (h_mem h1 b)) (\<lambda>x. x\<lparr>b_next := s\<rparr>) h1 else h1\<lparr>h_free_list := s\<rparr>)"
  define h3 where "h3 = (if b_next (h_mem h2 b) \<noteq> 0
      then upd_block (b_next (h_mem h2 b)) (\<lambda>x. x\<lparr>b_prev := s\<rparr>) h2 else h2)"
  have u: "split_block b sz h = upd_block b (\<lambda>x. x\<lparr>b_size := sz\<rparr>) h3"
    unfolding split_block_def Let_def h3_def h2_def h1_def assms(1) ..
  have f2: "b_magic (h_mem h2 a) = b_magic (h_mem h1 a)" "b_size (h_mem h2 a) = b_size (h_mem h1 a)"
    "h_start h2 = h_start h1" "h_end h2 = h_end h1" "h_cap h2 = h_cap h1" for a
    by (simp_all add: h2_def)
  have f3: "b_magic (h_mem h3 a) = b_magic (h_mem h2 a)" "b_size (h_mem h3 a) = b_size (h_mem h2 a)"
    "h_start h3 = h_start h2" "h_end h3 = h_end h2" "h_cap h3 = h_cap h2" for a
    by (simp_all add: h3_def)
  show "b_magic (h_mem (split_block b sz h) a) = (if a = s then MAGIC_FREE else b_magic (h_mem h a))"
    "b_size (h_mem (split_block b sz h) a) =
       (if a = b then sz else if a = s then sub32 (sub32 (b_size (h_mem h b)) sz) SIZEOF_BLOCK
        else b_size (h_mem h a))"
    "h_start (split_block b sz h) = h_start h" "h_end (split_block b sz h) = h_end h"
    "h_cap (split_block b sz h) = h_cap h"
    using assms(2) by (simp_all add: u f2 f3 h1_def)
qed

section \<open>The blocks of the heap\<close>

function walk :: "kheap \<Rightarrow> nat \<Rightarrow> nat list" where
  "walk h pos = (if pos < h_end h then pos # walk h (pos + 16 + b_size (h_mem h pos)) else [])"
  by pat_completeness auto
termination
  by (relation "measure (\<lambda>(h, pos). h_end h - pos)") auto

declare walk.simps [simp del]

definition heap_blocks :: "kheap \<Rightarrow> nat list" where
  "heap_blocks h = walk h (h_start h)"

fun tiles :: "(nat \<Rightarrow> block_t) \<Rightarrow> nat \<Rightarrow> nat list \<Rightarrow> nat \<Rightarrow> bool" where
  "tiles m a [] e = (a = e)"
| "tiles m a (x # xs) e = (x = a \<and> tiles m (a + 16 + b_size (m a)) xs e)"

lemma tiles_append: "tiles m a (xs @ ys) e \<longleftrightarrow> (\<exists>c. tiles m a xs c \<and> tiles m c ys e)"
  by (induction xs arbitrary: a) auto

lemma tiles_le: "tiles m a xs e \<Longrightarrow> a \<le> e"
  by (induction xs arbitrary: a) fastforce+

lemma tiles_bounds:
  "tiles m a xs e \<Longrightarrow> x \<in> set xs \<Longrightarrow> a \<le> x \<and> x + 16 + b_size (m x) \<le> e"
proof (induction xs arbitrary: a)
  case (Cons y ys)
  then have "tiles m (a + 16 + b_size (m a)) ys e" "y = a" by auto
  with Cons tiles_le [of m "a + 16 + b_size (m a)" ys e] show ?case by fastforce
qed simp

lemma tiles_distinct: "tiles m a xs e \<Longrightarrow> distinct xs"
proof (induction xs arbitrary: a)
  case (Cons y ys)
  then have "tiles m (a + 16 + b_size (m a)) ys e" "y = a" by auto
  with Cons show ?case using tiles_bounds by fastforce
qed simp

lemma tiles_disjoint:
  "tiles m a xs e \<Longrightarrow> x \<in> set xs \<Longrightarrow> y \<in> set xs \<Longrightarrow> x < y \<Longrightarrow> x + 16 + b_size (m x) \<le> y"
proof (induction xs arbitrary: a)
  case (Cons z zs)
  then have t: "tiles m (a + 16 + b_size (m a)) zs e" "z = a" by auto
  with Cons show ?case using tiles_bounds [OF t(1)] by fastforce
qed simp

lemma tiles_cong:
  "(\<And>x. x \<in> set xs \<Longrightarrow> b_size (m x) = b_size (m' x)) \<Longrightarrow> tiles m a xs e = tiles m' a xs e"
  by (induction xs arbitrary: a) auto

lemma tiles_walk: "tiles (h_mem h) a xs (h_end h) \<Longrightarrow> walk h a = xs"
proof (induction xs arbitrary: a)
  case Nil
  then show ?case by (simp add: walk.simps)
next
  case (Cons x xs)
  then have t: "tiles (h_mem h) (a + 16 + b_size (h_mem h a)) xs (h_end h)" "x = a" by auto
  then have "a < h_end h" using tiles_le [OF t(1)] by simp
  with Cons.IH [OF t(1)] t show ?case by (simp add: walk.simps [of h a])
qed

lemma tiles_aligned:
  "tiles m a xs e \<Longrightarrow> a mod 8 = 0 \<Longrightarrow> (\<And>x. x \<in> set xs \<Longrightarrow> b_size (m x) mod 8 = 0) \<Longrightarrow>
     x \<in> set xs \<Longrightarrow> x mod 8 = 0"
proof (induction xs arbitrary: a)
  case (Cons y ys)
  then have t: "tiles m (a + 16 + b_size (m a)) ys e" "y = a" "b_size (m a) mod 8 = 0" by auto
  then have "(a + 16 + b_size (m a)) mod 8 = 0" using Cons.prems(2) by presburger
  with Cons t show ?case by auto
qed simp

end
