(* ===== verification/KHeap.thy ===== *)
theory KHeap
  imports KMalloc
begin

text \<open>
  The correctness of the heap of theory \<open>KMalloc\<close>: an invariant (the blocks tile the
  heap, the free list holds exactly the free blocks) that every operation keeps, and the
  abstract allocator that \<^verbatim>\<open>kmalloc\<close> and \<^verbatim>\<open>kfree\<close> implement, a map from the
  pointers handed out to the sizes of their blocks.
\<close>

section \<open>The invariant and the abstraction\<close>

definition block_ok :: "block_t \<Rightarrow> bool" where
  "block_ok x \<longleftrightarrow> b_magic x \<in> {MAGIC_FREE, MAGIC_USED} \<and> b_size x mod 8 = 0"

definition free_ok :: "kheap \<Rightarrow> nat list \<Rightarrow> nat list \<Rightarrow> bool" where
  "free_ok h bs fl \<longleftrightarrow> distinct fl \<and> set fl = {b \<in> set bs. b_magic (h_mem h b) = MAGIC_FREE}
     \<and> h_free_list h = hd_or 0 fl \<and> linked (h_mem h) 0 fl 0"

definition heap_bounds :: "kheap \<Rightarrow> bool" where
  "heap_bounds h \<longleftrightarrow> 0 < h_start h \<and> h_start h mod 8 = 0 \<and> h_end h \<le> h_cap h \<and> h_cap h \<le> 2 ^ 31"

definition heap_wf :: "kheap \<Rightarrow> nat list \<Rightarrow> nat list \<Rightarrow> bool" where
  "heap_wf h bs fl \<longleftrightarrow> heap_bounds h \<and> tiles (h_mem h) (h_start h) bs (h_end h)
     \<and> (\<forall>b \<in> set bs. block_ok (h_mem h b)) \<and> free_ok h bs fl"

definition heap_ok :: "kheap \<Rightarrow> bool" where
  "heap_ok h \<longleftrightarrow> (\<exists>fl. heap_wf h (heap_blocks h) fl)"

definition allocs :: "kheap \<Rightarrow> (nat \<rightharpoonup> nat)" where
  "allocs h = (\<lambda>p. if 16 \<le> p \<and> p - 16 \<in> set (heap_blocks h) \<and> b_magic (h_mem h (p - 16)) = MAGIC_USED
                   then Some (b_size (h_mem h (p - 16))) else None)"

lemma magic_neq [simp]: "MAGIC_FREE \<noteq> MAGIC_USED" "MAGIC_USED \<noteq> MAGIC_FREE"
  by (simp_all add: MAGIC_FREE_def MAGIC_USED_def)

lemma w32_id: "n < 2 ^ 32 \<Longrightarrow> w32 n = n"
  by (simp add: w32_def)

lemma sub32_id:
  assumes "b \<le> a" "a < 2 ^ 32"
  shows "sub32 a b = a - b"
proof -
  have "a + 2 ^ 32 - b = (a - b) + 2 ^ 32" using assms by simp
  then have "sub32 a b = (a - b) mod 2 ^ 32" by (simp only: sub32_def w32_def mod_add_self2)
  with assms show ?thesis by simp
qed

lemma heap_wf_blocks: "heap_wf h bs fl \<Longrightarrow> heap_blocks h = bs"
  by (simp add: heap_wf_def heap_blocks_def tiles_walk)

lemma heap_wf_ok: "heap_wf h bs fl \<Longrightarrow> heap_ok h"
  using heap_wf_blocks by (auto simp: heap_ok_def)

lemma allocs_eq:
  "heap_wf h bs fl \<Longrightarrow>
     allocs h p = (if 16 \<le> p \<and> p - 16 \<in> set bs \<and> b_magic (h_mem h (p - 16)) = MAGIC_USED
                   then Some (b_size (h_mem h (p - 16))) else None)"
  by (simp add: allocs_def heap_wf_blocks)

lemma heap_wf_facts:
  assumes "heap_wf h bs fl"
  shows "distinct bs" "distinct fl" "set fl \<subseteq> set bs" "0 \<notin> set bs" "0 \<notin> set fl"
    and "b \<in> set bs \<Longrightarrow> b + 16 + b_size (h_mem h b) \<le> h_end h"
    and "b \<in> set bs \<Longrightarrow> h_start h \<le> b" and "h_end h \<le> 2 ^ 31"
    and "b \<in> set bs \<Longrightarrow> b mod 8 = 0"
proof -
  have t: "tiles (h_mem h) (h_start h) bs (h_end h)" and hb: "heap_bounds h"
    and ok: "\<And>b. b \<in> set bs \<Longrightarrow> block_ok (h_mem h b)" and fr: "free_ok h bs fl"
    using assms by (auto simp: heap_wf_def)
  show "distinct bs" using tiles_distinct [OF t] .
  show "distinct fl" using fr by (simp add: free_ok_def)
  show "set fl \<subseteq> set bs" using fr by (auto simp: free_ok_def)
  show z: "0 \<notin> set bs" using tiles_bounds [OF t] hb by (force simp: heap_bounds_def)
  show "0 \<notin> set fl" using fr z by (auto simp: free_ok_def)
  show "b \<in> set bs \<Longrightarrow> b + 16 + b_size (h_mem h b) \<le> h_end h" using tiles_bounds [OF t] by blast
  show "b \<in> set bs \<Longrightarrow> h_start h \<le> b" using tiles_bounds [OF t] by blast
  show "h_end h \<le> 2 ^ 31" using hb by (simp add: heap_bounds_def)
  show "b \<in> set bs \<Longrightarrow> b mod 8 = 0"
    using tiles_aligned [OF t] hb ok by (simp add: heap_bounds_def block_ok_def)
qed

section \<open>Taking a block out of the free list\<close>

lemma mark_used_simps [simp]:
  "b_size (h_mem (mark_used b h) a) = b_size (h_mem h a)"
  "b_magic (h_mem (mark_used b h) a) = (if a = b then MAGIC_USED else b_magic (h_mem h a))"
  "h_free_list (mark_used b h) = h_free_list h" "h_start (mark_used b h) = h_start h"
  "h_end (mark_used b h) = h_end h" "h_cap (mark_used b h) = h_cap h"
  by (simp_all add: mark_used_def)

lemma linked_mark_used: "b \<notin> set xs \<Longrightarrow> linked (h_mem (mark_used b h)) p xs e = linked (h_mem h) p xs e"
  by (simp add: mark_used_def linked_frame)

lemma take_whole_wf:
  assumes wf: "heap_wf h bs (xs @ b # ys)"
  shows "heap_wf (mark_used b (unlink_block b h)) bs (xs @ ys)"
    "allocs (mark_used b (unlink_block b h)) = (allocs h)(b + 16 \<mapsto> b_size (h_mem h b))"
proof -
  let ?h' = "mark_used b (unlink_block b h)"
  have fr: "free_ok h bs (xs @ b # ys)" using wf by (simp add: heap_wf_def)
  have d: "distinct (xs @ b # ys)" "0 \<notin> set (xs @ b # ys)" and b: "b \<in> set bs"
    using heap_wf_facts [OF wf] by auto
  have l: "linked (h_mem h) 0 (xs @ b # ys) 0" "h_free_list h = hd_or 0 (xs @ b # ys)"
    using fr by (simp_all add: free_ok_def)
  note u = unlink_links [OF l d]
  have "set (xs @ ys) = set (xs @ b # ys) - {b}" using d by auto
  also have "\<dots> = {x \<in> set bs. b_magic (h_mem ?h' x) = MAGIC_FREE}"
    using fr by (auto simp: free_ok_def)
  finally have "free_ok ?h' bs (xs @ ys)"
    using u d by (simp add: free_ok_def linked_mark_used)
  moreover have "tiles (h_mem ?h') (h_start ?h') bs (h_end ?h')"
    using wf tiles_cong [of bs "h_mem ?h'" "h_mem h"] by (simp add: heap_wf_def)
  ultimately show wf': "heap_wf ?h' bs (xs @ ys)"
    using wf by (auto simp: heap_wf_def heap_bounds_def block_ok_def)
  show "allocs ?h' = (allocs h)(b + 16 \<mapsto> b_size (h_mem h b))"
    using b by (auto simp: allocs_eq [OF wf] allocs_eq [OF wf'] fun_eq_iff)
qed

lemma fit_result:
  assumes "linked (h_mem h) p fl 0" "0 \<notin> set fl"
  shows "kmalloc_fit h sz (hd_or 0 fl) =
           Some (case find (\<lambda>b. sz \<le> b_size (h_mem h b)) fl of None \<Rightarrow> 0 | Some b \<Rightarrow> b)"
  using assms
proof (induction fl arbitrary: p)
  case Nil
  show ?case by (simp add: kmalloc_fit.simps)
next
  case (Cons x xs)
  have "kmalloc_fit h sz (hd_or 0 xs) =
      Some (case find (\<lambda>b. sz \<le> b_size (h_mem h b)) xs of None \<Rightarrow> 0 | Some b \<Rightarrow> b)"
    using Cons by auto
  with Cons.prems show ?case by (subst kmalloc_fit.simps) simp
qed

section \<open>Splitting\<close>

lemma split_rest_aligned: "(n :: nat) mod 8 = 0 \<Longrightarrow> m mod 8 = 0 \<Longrightarrow> (n - m - 16) mod 8 = 0"
  by presburger

lemma split_used_wf:
  assumes wf: "heap_wf h bs (xs @ b # ys)"
    and sz: "sz + 32 \<le> b_size (h_mem h b)" "sz mod 8 = 0"
  shows "\<exists>bs'. heap_wf (mark_used b (split_block b sz h)) bs' (xs @ (b + 16 + sz) # ys)"
    "allocs (mark_used b (split_block b sz h)) = (allocs h)(b + 16 \<mapsto> sz)"
proof -
  let ?s = "b + 16 + sz" and ?h' = "mark_used b (split_block b sz h)"
  have t: "tiles (h_mem h) (h_start h) bs (h_end h)" and fr: "free_ok h bs (xs @ b # ys)"
    and ok: "\<And>x. x \<in> set bs \<Longrightarrow> block_ok (h_mem h x)"
    using wf by (auto simp: heap_wf_def)
  have d: "distinct (xs @ b # ys)" "0 \<notin> set (xs @ b # ys)" and b: "b \<in> set bs"
    and e: "b + 16 + b_size (h_mem h b) \<le> h_end h" "h_end h \<le> 2 ^ 31"
    using heap_wf_facts [OF wf] by auto
  have s_w: "w32 (b + SIZEOF_BLOCK + sz) = ?s"
    using e sz by (simp add: w32_id SIZEOF_BLOCK_def)
  have s_new: "?s \<notin> set bs"
  proof
    assume "?s \<in> set bs"
    with tiles_disjoint [OF t b, of ?s] sz show False by simp
  qed
  then have s: "?s = w32 (b + SIZEOF_BLOCK + sz)" "?s \<notin> set (xs @ b # ys)" "?s \<noteq> 0" "?s \<noteq> b"
    using s_w b fr by (auto simp: free_ok_def)
  have l: "linked (h_mem h) 0 (xs @ b # ys) 0" "h_free_list h = hd_or 0 (xs @ b # ys)"
    using fr by (simp_all add: free_ok_def)
  note u = split_links [OF l d s(1,2,3)] and f = split_frame [OF s(1,4), of h]
  have rest: "sub32 (sub32 (b_size (h_mem h b)) sz) SIZEOF_BLOCK = b_size (h_mem h b) - sz - 16"
    using e sz by (simp add: sub32_id SIZEOF_BLOCK_def)
  obtain us vs where bs: "bs = us @ b # vs" using b by (meson split_list)
  have tu: "tiles (h_mem h) (h_start h) us b"
    and tv: "tiles (h_mem h) (b + 16 + b_size (h_mem h b)) vs (h_end h)"
    using t unfolding bs by (auto simp: tiles_append)
  let ?bs = "us @ b # ?s # vs"
  have nin: "b \<notin> set us" "b \<notin> set vs" "?s \<notin> set us" "?s \<notin> set vs"
    using heap_wf_facts(1) [OF wf] s_new bs by auto
  have tu': "tiles (h_mem ?h') (h_start h) us b"
    using tu nin tiles_cong [of us "h_mem ?h'" "h_mem h"] by (metis f(2) mark_used_simps(1))
  have "tiles (h_mem ?h') (b + 16 + b_size (h_mem h b)) vs (h_end h)"
    using tv nin tiles_cong [of vs "h_mem ?h'" "h_mem h"] by (metis f(2) mark_used_simps(1))
  moreover have "b_size (h_mem ?h' b) = sz" "b_size (h_mem ?h' ?s) = b_size (h_mem h b) - sz - 16"
    using s(4) by (simp_all add: f rest)
  moreover have "?s + 16 + (b_size (h_mem h b) - sz - 16) = b + 16 + b_size (h_mem h b)"
    using sz(1) by simp
  ultimately have "tiles (h_mem ?h') b (b # ?s # vs) (h_end h)"
    by (simp only: tiles.simps)
  then have t': "tiles (h_mem ?h') (h_start ?h') ?bs (h_end ?h')"
    using tu' by (simp only: tiles_append f mark_used_simps) blast
  have "set (xs @ ?s # ys) = insert ?s (set (xs @ b # ys) - {b})" using d by auto
  also have "\<dots> = {x \<in> set ?bs. b_magic (h_mem ?h' x) = MAGIC_FREE}"
    using fr s(4) nin unfolding free_ok_def bs by (auto simp: f)
  finally have "free_ok ?h' ?bs (xs @ ?s # ys)"
    using u d s by (simp add: free_ok_def linked_mark_used)
  moreover have "block_ok (h_mem ?h' x)" if "x \<in> set ?bs" for x
  proof -
    have "(b_size (h_mem h b) - sz - 16) mod 8 = 0"
      using ok [OF b] sz by (intro split_rest_aligned) (simp_all add: block_ok_def)
    then show ?thesis
      using that sz(2) ok unfolding bs block_ok_def by (auto simp: f rest)
  qed
  ultimately have wf': "heap_wf ?h' ?bs (xs @ ?s # ys)"
    using wf t' by (auto simp: heap_wf_def heap_bounds_def f)
  then show "\<exists>bs'. heap_wf ?h' bs' (xs @ ?s # ys)" by blast
  show "allocs ?h' = (allocs h)(b + 16 \<mapsto> sz)"
    using b s_new s(4) nin unfolding allocs_eq [OF wf] allocs_eq [OF wf'] fun_eq_iff bs
    by (auto simp: f)
qed

section \<open>Growing the heap\<close>

lemma extend_wf:
  assumes wf: "heap_wf h bs fl" and need: "need mod 8 = 0" "need \<le> 2 ^ 30 + 8"
  shows "if h_end h + 16 + need \<le> h_cap h
         then fst (extend_heap need h) = h_end h
            \<and> heap_wf (snd (extend_heap need h)) (bs @ [h_end h]) (h_end h # fl)
            \<and> b_size (h_mem (snd (extend_heap need h)) (h_end h)) = need
            \<and> allocs (snd (extend_heap need h)) = allocs h
         else extend_heap need h = (0, h)"
proof -
  let ?b = "h_end h" and ?h' = "snd (extend_heap need h)"
  have e: "h_end h \<le> 2 ^ 31" "h_end h \<le> h_cap h" "h_cap h \<le> 2 ^ 31"
    using wf by (auto simp: heap_wf_def heap_bounds_def)
  have w: "w32 (SIZEOF_BLOCK + need) = 16 + need" "w32 (h_end h + (16 + need)) = h_end h + 16 + need"
    using e need by (simp_all add: w32_id SIZEOF_BLOCK_def)
  show ?thesis
  proof (cases "h_end h + 16 + need \<le> h_cap h")
    case False
    then show ?thesis by (simp add: extend_heap_def Let_def w)
  next
    case True
    define h1 where "h1 = upd_block ?b (\<lambda>x. x\<lparr>b_magic := MAGIC_FREE, b_size := need\<rparr>) h"
    have t: "tiles (h_mem h) (h_start h) bs ?b" and fr: "free_ok h bs fl"
      using wf by (auto simp: heap_wf_def)
    have x: "extend_heap need h = (?b, (push_free ?b h1)\<lparr>h_end := ?b + 16 + need\<rparr>)"
      using True by (simp add: extend_heap_def Let_def w h1_def)
    have new: "?b \<notin> set bs"
      using tiles_bounds [OF t, of ?b] by auto
    then have fl: "?b \<notin> set fl" "distinct fl" "0 \<notin> set fl"
      using heap_wf_facts [OF wf] by auto
    have sz: "b_size (h_mem ?h' a) = (if a = ?b then need else b_size (h_mem h a))"
      and mg: "b_magic (h_mem ?h' a) = (if a = ?b then MAGIC_FREE else b_magic (h_mem h a))" for a
      by (simp_all add: x h1_def)
    have "tiles (h_mem ?h') (h_start h) bs ?b"
      using t new tiles_cong [of bs "h_mem ?h'" "h_mem h"] sz by metis
    moreover have "h_end ?h' = ?b + 16 + need" "h_start ?h' = h_start h"
      by (simp_all add: x h1_def)
    ultimately have t': "tiles (h_mem ?h') (h_start ?h') (bs @ [?b]) (h_end ?h')"
      by (auto simp: tiles_append sz)
    have "linked (h_mem h1) 0 fl 0" "h_free_list h1 = hd_or 0 fl"
      using fr fl by (simp_all add: free_ok_def h1_def linked_frame)
    note lk = push_free_links [OF this fl(2,3,1)]
    have "set (?b # fl) = {a \<in> set (bs @ [?b]). b_magic (h_mem ?h' a) = MAGIC_FREE}"
      using fr new unfolding mg by (auto simp: free_ok_def)
    with lk fl have "free_ok ?h' (bs @ [?b]) (?b # fl)" by (simp add: free_ok_def x)
    moreover have "\<forall>a \<in> set (bs @ [?b]). block_ok (h_mem ?h' a)"
      using wf need by (auto simp: heap_wf_def block_ok_def sz mg)
    moreover have "heap_bounds ?h'"
      using wf True by (simp add: heap_wf_def heap_bounds_def x h1_def)
    ultimately have wf': "heap_wf ?h' (bs @ [?b]) (?b # fl)"
      using t' by (simp add: heap_wf_def)
    have "allocs ?h' = allocs h"
      using new by (auto simp: fun_eq_iff allocs_eq [OF wf] allocs_eq [OF wf'] sz mg)
    with wf' True x sz show ?thesis by simp
  qed
qed

section \<open>Allocation\<close>

definition round8 :: "nat \<Rightarrow> nat" where
  "round8 n = (n + 7) div 8 * 8"

lemma round8_props: "n \<le> round8 n" "round8 n mod 8 = 0" "round8 n < n + 8"
  unfolding round8_def by presburger+

lemma find_split: "find P xs = Some x \<Longrightarrow> \<exists>us vs. xs = us @ x # vs \<and> P x"
  by (metis find_Some_iff nth_mem split_list)

text \<open>
  What \<^verbatim>\<open>kmalloc\<close> does on a well-formed heap: it always returns; it returns null and
  changes no allocation, or a fresh 8-aligned block inside the heap.
\<close>

lemma kmalloc_correct:
  assumes "heap_ok h" "0 < n" "n < 2 ^ 30"
  shows "\<exists>p h'. kmalloc n h = Some (p, h') \<and> heap_ok h' \<and>
     (if p = 0 then allocs h' = allocs h
      else \<exists>k. n \<le> k \<and> allocs h p = None \<and> allocs h' = (allocs h)(p \<mapsto> k))"
proof -
  obtain bs fl where wf: "heap_wf h bs fl" using assms(1) by (auto simp: heap_ok_def)
  let ?sz = "round8 n"
  have w: "w32 (n + 7) div 8 * 8 = ?sz" "w32 (?sz + SIZEOF_BLOCK + MIN_SPLIT) = ?sz + 32"
    using assms(3) round8_props [of n]
    by (simp_all add: w32_id round8_def SIZEOF_BLOCK_def MIN_SPLIT_def)
  have fr: "linked (h_mem h) 0 fl 0" "h_free_list h = hd_or 0 fl" "0 \<notin> set fl"
    using wf heap_wf_facts(5) [OF wf] by (auto simp: heap_wf_def free_ok_def)
  note fit = fit_result [OF fr(1,3), of ?sz]
  show ?thesis
  proof (cases "find (\<lambda>b. ?sz \<le> b_size (h_mem h b)) fl")
    case (Some b)
    then obtain xs ys where fl: "fl = xs @ b # ys" and big: "?sz \<le> b_size (h_mem h b)"
      using find_split by force
    have b: "b \<in> set bs" "b \<noteq> 0" "b + 16 < 2 ^ 32" "b_magic (h_mem h b) = MAGIC_FREE"
    proof -
      show "b \<in> set bs" "b_magic (h_mem h b) = MAGIC_FREE"
        using wf fl by (auto simp: heap_wf_def free_ok_def)
      then show "b \<noteq> 0" "b + 16 < 2 ^ 32"
        using heap_wf_facts(4,8) [OF wf] heap_wf_facts(6) [OF wf, of b]
        by (metis, simp)
    qed
    have p: "w32 (b + SIZEOF_BLOCK) = b + 16" using b by (simp add: w32_id SIZEOF_BLOCK_def)
    have fresh: "allocs h (b + 16) = None" using b by (simp add: allocs_eq [OF wf])
    show ?thesis
    proof (cases "?sz + 32 \<le> b_size (h_mem h b)")
      case True
      note sp = split_used_wf [OF wf [unfolded fl] True round8_props(2)]
      have "kmalloc n h = Some (b + 16, mark_used b (split_block b ?sz h))"
        using assms(2) b True by (simp add: kmalloc_def w fr fit Some p)
      then show ?thesis
        using sp fresh round8_props(1) [of n] heap_wf_ok by auto
    next
      case False
      note tw = take_whole_wf [OF wf [unfolded fl]]
      have "kmalloc n h = Some (b + 16, mark_used b (unlink_block b h))"
        using assms(2) b False by (simp add: kmalloc_def w fr fit Some p)
      then show ?thesis
        using tw fresh big round8_props(1) [of n] heap_wf_ok
        by (auto intro!: exI [of _ "b_size (h_mem h b)"])
    qed
  next
    case None
    have "?sz \<le> 2 ^ 30 + 8" using assms(3) round8_props(3) [of n] by simp
    note x = extend_wf [OF wf round8_props(2) this]
    show ?thesis
    proof (cases "h_end h + 16 + ?sz \<le> h_cap h")
      case False
      with x have "kmalloc n h = Some (0, h)"
        using assms(2) by (simp add: kmalloc_def w fr fit None)
      with assms(1) show ?thesis by simp
    next
      case True
      obtain h1 where h1: "extend_heap ?sz h = (h_end h, h1)"
        "heap_wf h1 (bs @ [h_end h]) (h_end h # fl)" "allocs h1 = allocs h"
        "b_size (h_mem h1 (h_end h)) = ?sz"
        using x True by (cases "extend_heap ?sz h") auto
      have e: "h_end h \<noteq> 0" "h_end h + 16 < 2 ^ 32"
        using wf tiles_le [of "h_mem h" "h_start h" bs "h_end h"]
        by (auto simp: heap_wf_def heap_bounds_def)
      note tw = take_whole_wf [of h1 _ "[]", simplified, OF h1(2)]
      have "kmalloc n h = Some (h_end h + 16, mark_used (h_end h) (unlink_block (h_end h) h1))"
        using assms(2) e by (simp add: kmalloc_def w fr fit None h1 w32_id SIZEOF_BLOCK_def)
      moreover have "allocs h (h_end h + 16) = None"
        using heap_wf_facts(6) [OF wf, of "h_end h"] by (auto simp: allocs_eq [OF wf])
      ultimately show ?thesis
        using tw h1 round8_props(1) [of n] heap_wf_ok by auto
    qed
  qed
qed

section \<open>Release\<close>

text \<open>Marking a used block free and pushing it on the free list.\<close>

lemma release_wf:
  assumes wf: "heap_wf h bs fl" and b: "b \<in> set bs" "b_magic (h_mem h b) = MAGIC_USED"
  defines "h' \<equiv> push_free b (upd_block b (\<lambda>x. x\<lparr>b_magic := MAGIC_FREE\<rparr>) h)"
  shows "heap_wf h' bs (b # fl)" "allocs h' = (allocs h)(b + 16 := None)"
proof -
  let ?h1 = "upd_block b (\<lambda>x. x\<lparr>b_magic := MAGIC_FREE\<rparr>) h"
  have fr: "free_ok h bs fl" and t: "tiles (h_mem h) (h_start h) bs (h_end h)"
    using wf by (simp_all add: heap_wf_def)
  have fl: "b \<notin> set fl" "distinct fl" "0 \<notin> set fl"
    using heap_wf_facts [OF wf] fr b by (auto simp: free_ok_def)
  have sz: "b_size (h_mem h' a) = b_size (h_mem h a)"
    and mg: "b_magic (h_mem h' a) = (if a = b then MAGIC_FREE else b_magic (h_mem h a))" for a
    by (simp_all add: h'_def)
  have "linked (h_mem ?h1) 0 fl 0" "h_free_list ?h1 = hd_or 0 fl"
    using fr fl by (simp_all add: free_ok_def linked_frame)
  note lk = push_free_links [OF this fl(2,3,1)]
  have "set (b # fl) = {a \<in> set bs. b_magic (h_mem h' a) = MAGIC_FREE}"
    using fr b unfolding mg by (auto simp: free_ok_def)
  with lk fl have "free_ok h' bs (b # fl)" by (simp add: free_ok_def h'_def)
  moreover have "tiles (h_mem h') (h_start h') bs (h_end h')"
    using t tiles_cong [of bs "h_mem h'" "h_mem h"] sz by (simp add: h'_def)
  moreover have "\<forall>a \<in> set bs. block_ok (h_mem h' a)"
    using wf by (auto simp: heap_wf_def block_ok_def sz mg)
  moreover have "heap_bounds h'" using wf by (simp add: heap_wf_def heap_bounds_def h'_def)
  ultimately show wf': "heap_wf h' bs (b # fl)" by (simp add: heap_wf_def)
  show "allocs h' = (allocs h)(b + 16 := None)"
    using b by (auto simp: fun_eq_iff allocs_eq [OF wf] allocs_eq [OF wf'] sz mg)
qed

text \<open>Merging a free block with the free block that follows it.\<close>

lemma coalesce_merge_wf:
  assumes wf: "heap_wf h (us @ b # n # vs) (b # xs @ n # ys)"
  defines "h' \<equiv> unlink_block n (upd_block b (\<lambda>x. x\<lparr>b_size := b_size x + (16 + b_size (h_mem h n))\<rparr>) h)"
  shows "heap_wf h' (us @ b # vs) (b # xs @ ys)" "allocs h' = allocs h"
proof -
  let ?h1 = "upd_block b (\<lambda>x. x\<lparr>b_size := b_size x + (16 + b_size (h_mem h n))\<rparr>) h"
  have d: "distinct (us @ b # n # vs)" "distinct ((b # xs) @ n # ys)" "0 \<notin> set ((b # xs) @ n # ys)"
    using heap_wf_facts [OF wf] by auto
  have fr: "free_ok h (us @ b # n # vs) ((b # xs) @ n # ys)"
    and t: "tiles (h_mem h) (h_start h) (us @ b # n # vs) (h_end h)"
    using wf by (simp_all add: heap_wf_def)
  have sz: "b_size (h_mem h' a) = (if a = b then b_size (h_mem h b) + (16 + b_size (h_mem h n))
                                   else b_size (h_mem h a))"
    and mg: "b_magic (h_mem h' a) = b_magic (h_mem h a)" for a
    by (simp_all add: h'_def)
  have "linked (h_mem ?h1) 0 ((b # xs) @ n # ys) 0"
    using fr unfolding free_ok_def
    by (subst linked_cong [of _ "h_mem ?h1" "h_mem h"]) auto
  moreover have "h_free_list ?h1 = hd_or 0 ((b # xs) @ n # ys)" using fr by (simp add: free_ok_def)
  ultimately have lk: "linked (h_mem h') 0 ((b # xs) @ ys) 0" "h_free_list h' = hd_or 0 ((b # xs) @ ys)"
    using unlink_links [OF _ _ d(2,3), of ?h1] by (simp_all only: h'_def)
  have "set (b # xs @ ys) = set ((b # xs) @ n # ys) - {n}" using d by auto
  also have "\<dots> = {a \<in> set (us @ b # vs). b_magic (h_mem h' a) = MAGIC_FREE}"
    using fr d(1) unfolding free_ok_def mg by auto
  finally have "free_ok h' (us @ b # vs) (b # xs @ ys)"
    using lk d by (simp add: free_ok_def)
  moreover have "tiles (h_mem h') (h_start h') (us @ b # vs) (h_end h')"
  proof -
    obtain c where c: "tiles (h_mem h) (h_start h) us c" "b = c"
      "tiles (h_mem h) (c + 16 + b_size (h_mem h c) + 16 + b_size (h_mem h n)) vs (h_end h)"
      using t by (auto simp: tiles_append)
    have "tiles (h_mem h') (h_start h) us c"
      using c(1) d(1) by (subst tiles_cong [of _ _ "h_mem h"]) (auto simp: sz)
    moreover have "tiles (h_mem h') (c + 16 + b_size (h_mem h c) + 16 + b_size (h_mem h n)) vs (h_end h)"
      using c(3) d(1) by (subst tiles_cong [of _ _ "h_mem h"]) (auto simp: sz)
    ultimately show ?thesis using c(2) by (auto simp: tiles_append sz algebra_simps h'_def)
  qed
  moreover have "\<forall>a \<in> set (us @ b # vs). block_ok (h_mem h' a)"
    using wf by (auto simp: heap_wf_def block_ok_def sz mg)
  moreover have "heap_bounds h'" using wf by (simp add: heap_wf_def heap_bounds_def h'_def)
  ultimately show wf': "heap_wf h' (us @ b # vs) (b # xs @ ys)" by (simp add: heap_wf_def)
  have "b_magic (h_mem h b) = MAGIC_FREE" "b_magic (h_mem h n) = MAGIC_FREE"
    using fr by (auto simp: free_ok_def)
  then show "allocs h' = allocs h"
    by (auto simp: fun_eq_iff allocs_eq [OF wf] allocs_eq [OF wf'] sz mg)
qed

lemma coalesce_wf:
  assumes wf: "heap_wf h bs (b # fl)"
  shows "heap_ok (coalesce b h)" "allocs (coalesce b h) = allocs h"
proof -
  let ?n = "b + 16 + b_size (h_mem h b)"
  have b: "b \<in> set bs" using wf by (auto simp: heap_wf_def free_ok_def)
  note fb = heap_wf_facts [OF wf]
  have e: "?n \<le> h_end h" "h_end h \<le> 2 ^ 31" using fb(6) [OF b] fb(8) by simp_all
  then have w: "w32 (b + SIZEOF_BLOCK + b_size (h_mem h b)) = ?n"
    by (simp add: w32_id SIZEOF_BLOCK_def)
  have "heap_ok (coalesce b h) \<and> allocs (coalesce b h) = allocs h"
  proof (cases "?n < h_end h \<and> b_magic (h_mem h ?n) = MAGIC_FREE")
    case False
    then show ?thesis using heap_wf_ok [OF wf] by (auto simp: coalesce_def w Let_def)
  next
    case True
    obtain us ws where "bs = us @ b # ws" using split_list [OF b] by blast
    moreover have "tiles (h_mem h) ?n ws (h_end h)"
      using wf calculation by (auto simp: heap_wf_def tiles_append)
    ultimately obtain vs where bs: "bs = us @ b # ?n # vs" using True by (cases ws) auto
    have "set (b # fl) = {a \<in> set bs. b_magic (h_mem h a) = MAGIC_FREE}"
      using wf by (simp only: heap_wf_def free_ok_def)
    moreover have "?n \<in> {a \<in> set bs. b_magic (h_mem h a) = MAGIC_FREE}" using True bs by simp
    ultimately have "?n \<in> set (b # fl)" by (simp only:)
    then have "?n \<in> set fl" by simp
    then obtain xs ys where fl: "fl = xs @ ?n # ys" by (meson split_list)
    have "w32 (b_size (h_mem h b) + (SIZEOF_BLOCK + b_size (h_mem h ?n)))
          = b_size (h_mem h b) + (16 + b_size (h_mem h ?n))"
      using fb(6) [of ?n] fb(8) bs by (simp add: SIZEOF_BLOCK_def w32_id)
    then have "coalesce b h = unlink_block ?n
        (upd_block b (\<lambda>x. x\<lparr>b_size := b_size x + (16 + b_size (h_mem h ?n))\<rparr>) h)"
      using True by (simp only: coalesce_def w Let_def upd_block_def) simp
    then show ?thesis
      using coalesce_merge_wf [OF wf [unfolded bs fl]] heap_wf_ok by metis
  qed
  then show "heap_ok (coalesce b h)" "allocs (coalesce b h) = allocs h" by simp_all
qed

lemma kfree_live:
  assumes "heap_ok h" "allocs h p \<noteq> None"
  shows "heap_ok (kfree p h)" "allocs (kfree p h) = (allocs h)(p := None)"
proof -
  obtain bs fl where wf: "heap_wf h bs fl" using assms(1) by (auto simp: heap_ok_def)
  let ?b = "p - 16"
  have b: "16 \<le> p" "?b \<in> set bs" "b_magic (h_mem h ?b) = MAGIC_USED"
    using assms(2) by (auto simp: allocs_eq [OF wf] split: if_splits)
  have "p < 2 ^ 32" using heap_wf_facts(6) [OF wf b(2)] heap_wf_facts(8) [OF wf] b(1) by simp
  then have s: "sub32 p SIZEOF_BLOCK = ?b" using b(1) by (simp add: sub32_id SIZEOF_BLOCK_def)
  note r = release_wf [OF wf b(2,3)]
  show "heap_ok (kfree p h)" "allocs (kfree p h) = (allocs h)(p := None)"
    using b coalesce_wf [OF r(1)] r(2) by (simp_all add: kfree_def s Let_def)
qed

text \<open>A pointer to a block that is not in use (a second \<^verbatim>\<open>kfree\<close>) is ignored.\<close>

lemma kfree_dead:
  assumes "heap_ok h" "p \<in> (\<lambda>b. b + 16) ` set (heap_blocks h)" "allocs h p = None"
  shows "kfree p h = h"
proof -
  obtain fl b where wf: "heap_wf h (heap_blocks h) fl" and b: "b \<in> set (heap_blocks h)" "p = b + 16"
    using assms(1,2) by (auto simp: heap_ok_def)
  have "b + 16 < 2 ^ 32" using heap_wf_facts(6) [OF wf b(1)] heap_wf_facts(8) [OF wf] by simp
  then have "sub32 p SIZEOF_BLOCK = b" by (simp add: b sub32_id SIZEOF_BLOCK_def)
  with assms(3) b show ?thesis by (auto simp: kfree_def allocs_def split: if_splits)
qed

section \<open>Set-up and accounting\<close>

lemma kmalloc_init_ok:
  assumes "0 < start" "start mod 8 = 0" "start + sz \<le> 2 ^ 31"
  shows "heap_ok (kmalloc_init start sz h)" "allocs (kmalloc_init start sz h) = Map.empty"
proof -
  have wf: "heap_wf (kmalloc_init start sz h) [] []"
    using assms by (simp add: heap_wf_def heap_bounds_def free_ok_def kmalloc_init_def w32_id)
  then show "heap_ok (kmalloc_init start sz h)" by (rule heap_wf_ok)
  show "allocs (kmalloc_init start sz h) = Map.empty"
    by (rule ext) (simp add: allocs_eq [OF wf])
qed

definition sizes_sum :: "kheap \<Rightarrow> nat list \<Rightarrow> nat" where
  "sizes_sum h bs = sum_list (map (\<lambda>b. b_size (h_mem h b)) bs)"

lemma sizes_sum_simps [simp]:
  "sizes_sum h [] = 0" "sizes_sum h (b # bs) = b_size (h_mem h b) + sizes_sum h bs"
  by (simp_all add: sizes_sum_def)

lemma tiles_sum: "tiles (h_mem h) a bs e \<Longrightarrow> a + 16 * length bs + sizes_sum h bs = e"
  by (induction bs arbitrary: a) fastforce+

lemma sizes_sum_filter: "sizes_sum h (filter P bs) \<le> sizes_sum h bs"
  by (induction bs) auto

lemma kmalloc_used_from_eq:
  assumes "tiles (h_mem h) a bs (h_end h)" "h_end h \<le> 2 ^ 31" "u + sizes_sum h bs < 2 ^ 32"
  shows "kmalloc_used_from h a u
       = Some (u + sizes_sum h (filter (\<lambda>b. b_magic (h_mem h b) = MAGIC_USED) bs))"
  using assms
proof (induction bs arbitrary: a u)
  case Nil
  then show ?case by (simp add: kmalloc_used_from.simps)
next
  case (Cons b bs)
  then have t: "tiles (h_mem h) (a + 16 + b_size (h_mem h a)) bs (h_end h)" "b = a" by auto
  then have lt: "a < h_end h" and w: "w32 (a + (SIZEOF_BLOCK + b_size (h_mem h a))) = a + 16 + b_size (h_mem h a)"
    using tiles_le [OF t(1)] Cons.prems(2) by (simp_all add: w32_id SIZEOF_BLOCK_def)
  have "w32 (u + b_size (h_mem h a)) = u + b_size (h_mem h a)"
    using Cons.prems(3) t(2) by (simp add: w32_id)
  with lt w Cons.IH [OF t(1) Cons.prems(2)] Cons.prems(3) t(2) show ?case
    by (simp add: kmalloc_used_from.simps [of h a])
qed

lemma kmalloc_free_from_eq:
  assumes "linked (h_mem h) p fl 0" "0 \<notin> set fl" "u + sizes_sum h fl < 2 ^ 32"
  shows "kmalloc_free_from h (hd_or 0 fl) u = Some (u + sizes_sum h fl)"
  using assms
proof (induction fl arbitrary: p u)
  case Nil
  then show ?case by (simp add: kmalloc_free_from.simps)
next
  case (Cons b fl)
  then have "w32 (u + b_size (h_mem h b)) = u + b_size (h_mem h b)" by (simp add: w32_id)
  moreover have "kmalloc_free_from h (hd_or 0 fl) (u + b_size (h_mem h b))
      = Some (u + b_size (h_mem h b) + sizes_sum h fl)"
    using Cons.prems by (intro Cons.IH [of b]) simp_all
  ultimately show ?case using Cons.prems by (simp add: kmalloc_free_from.simps [of h b])
qed

text \<open>The two statistics count every block once and together fill the heap.\<close>

lemma kmalloc_stats:
  assumes "heap_ok h"
  shows "\<exists>u f. kmalloc_used h = Some u \<and> kmalloc_free h = Some f \<and>
           u + f + 16 * length (heap_blocks h) = h_end h - h_start h"
proof -
  obtain fl where wf: "heap_wf h (heap_blocks h) fl" using assms by (auto simp: heap_ok_def)
  let ?bs = "heap_blocks h" and ?U = "\<lambda>b. b_magic (h_mem h b) = MAGIC_USED"
  have t: "tiles (h_mem h) (h_start h) ?bs (h_end h)" and fr: "free_ok h ?bs fl"
    using wf by (simp_all add: heap_wf_def)
  note fs = heap_wf_facts [OF wf] and ts = tiles_sum [OF t]
  have lt: "sizes_sum h ?bs < 2 ^ 32" using ts fs(8) by simp
  have "kmalloc_used h = Some (sizes_sum h (filter ?U ?bs))"
    using kmalloc_used_from_eq [OF t fs(8), of 0] lt by (simp add: kmalloc_used_def)
  moreover have "set fl = set (filter (\<lambda>b. \<not> ?U b) ?bs)"
  proof -
    have "\<And>b. b \<in> set ?bs \<Longrightarrow> b_magic (h_mem h b) = MAGIC_FREE \<longleftrightarrow> \<not> ?U b"
      using wf by (fastforce simp: heap_wf_def block_ok_def)
    then show ?thesis using fr by (auto simp: free_ok_def)
  qed
  then have eq: "sizes_sum h fl = sizes_sum h (filter (\<lambda>b. \<not> ?U b) ?bs)"
    using fs(1,2) by (simp add: sizes_sum_def sum_list_distinct_conv_sum_set distinct_filter)
  have "kmalloc_free h = Some (sizes_sum h fl)"
    using kmalloc_free_from_eq [of h 0 fl 0] fr fs(5) eq lt
      sizes_sum_filter [of h "\<lambda>b. \<not> ?U b" ?bs] by (simp add: kmalloc_free_def free_ok_def)
  moreover have "sizes_sum h (filter ?U bs) + sizes_sum h (filter (\<lambda>b. \<not> ?U b) bs) = sizes_sum h bs"
    for bs by (induction bs) auto
  ultimately show ?thesis using ts eq by auto
qed

section \<open>The allocator contract\<close>

text \<open>
  What a client of an allocator relies on: the live blocks are aligned, lie inside the
  managed area and never overlap; an allocation adds one block, a release removes it.
\<close>

locale allocator =
  fixes inv :: "'h \<Rightarrow> bool"
    and live :: "'h \<Rightarrow> (nat \<rightharpoonup> nat)"
    and alloc :: "nat \<Rightarrow> 'h \<Rightarrow> (nat \<times> 'h) option"
    and free :: "nat \<Rightarrow> 'h \<Rightarrow> 'h"
    and limit :: nat
  assumes alloc_law: "inv h \<Longrightarrow> 0 < n \<Longrightarrow> n < limit \<Longrightarrow> \<exists>p h'. alloc n h = Some (p, h') \<and> inv h' \<and>
     (if p = 0 then live h' = live h
      else \<exists>k. n \<le> k \<and> live h p = None \<and> live h' = (live h)(p \<mapsto> k))"
    and free_law: "inv h \<Longrightarrow> live h p \<noteq> None \<Longrightarrow> inv (free p h) \<and> live (free p h) = (live h)(p := None)"
    and live_disjoint: "inv h \<Longrightarrow> live h p = Some k \<Longrightarrow> live h q = Some l \<Longrightarrow> p < q \<Longrightarrow> p + k \<le> q"
begin

lemma alloc_fresh_region:
  assumes "inv h" "0 < n" "n < limit" "alloc n h = Some (p, h')" "p \<noteq> 0" "live h q = Some l"
  shows "inv h' \<and> live h' q = Some l \<and> (p + n \<le> q \<or> q + l \<le> p)"
proof -
  obtain k where k: "inv h'" "n \<le> k" "live h p = None" "live h' = (live h)(p \<mapsto> k)"
    using alloc_law [OF assms(1-3)] assms(4,5) by auto
  then have "p \<noteq> q" "live h' p = Some k" "live h' q = Some l" using assms(6) by auto
  with k(1,2) show ?thesis
    using live_disjoint [of h' p k q l] live_disjoint [of h' q l p k] by (cases "p < q") auto
qed

lemma alloc_free_restores:
  assumes "inv h" "0 < n" "n < limit" "alloc n h = Some (p, h')" "p \<noteq> 0"
  shows "inv (free p h') \<and> live (free p h') = live h"
proof -
  obtain k where "inv h'" "live h p = None" "live h' = (live h)(p \<mapsto> k)"
    using alloc_law [OF assms(1-3)] assms(4,5) by auto
  with free_law [of h' p] show ?thesis by auto
qed

end

lemma allocs_disjoint:
  assumes "heap_ok h" "allocs h p = Some k" "allocs h q = Some l" "p < q"
  shows "p + k + 16 \<le> q"
proof -
  obtain fl where wf: "heap_wf h (heap_blocks h) fl" using assms(1) by (auto simp: heap_ok_def)
  then have t: "tiles (h_mem h) (h_start h) (heap_blocks h) (h_end h)" by (simp add: heap_wf_def)
  have p: "16 \<le> p" "p - 16 \<in> set (heap_blocks h)" "q - 16 \<in> set (heap_blocks h)"
    "b_size (h_mem h (p - 16)) = k"
    using assms(2,3) by (simp_all add: allocs_def split: if_splits)
  then have "p - 16 < q - 16" using assms(4) by arith
  with tiles_disjoint [OF t p(2,3)] p show ?thesis by arith
qed

lemma allocs_inside:
  assumes "heap_ok h" "allocs h p = Some k"
  shows "h_start h + 16 \<le> p" "p + k \<le> h_end h" "h_end h \<le> h_cap h" "p mod 8 = 0"
proof -
  obtain fl where wf: "heap_wf h (heap_blocks h) fl" using assms(1) by (auto simp: heap_ok_def)
  have p: "16 \<le> p" "p - 16 \<in> set (heap_blocks h)" "k = b_size (h_mem h (p - 16))"
    using assms(2) by (auto simp: allocs_def split: if_splits)
  note f = heap_wf_facts(6,7,9) [OF wf p(2)]
  show "h_start h + 16 \<le> p" "p + k \<le> h_end h" using f p by auto
  show "p mod 8 = 0" using f(3) p(1) by presburger
  show "h_end h \<le> h_cap h" using wf by (simp add: heap_wf_def heap_bounds_def)
qed

interpretation kernel_heap: allocator heap_ok allocs kmalloc kfree "2 ^ 30"
proof unfold_locales
  fix h and n :: nat assume a: "heap_ok h" "0 < n" "n < 2 ^ 30"
  show "\<exists>p h'. kmalloc n h = Some (p, h') \<and> heap_ok h' \<and>
     (if p = 0 then allocs h' = allocs h
      else \<exists>k. n \<le> k \<and> allocs h p = None \<and> allocs h' = (allocs h)(p \<mapsto> k))"
    using kmalloc_correct [OF a] .
next
  fix h p assume "heap_ok h" "allocs h p \<noteq> None"
  then show "heap_ok (kfree p h) \<and> allocs (kfree p h) = (allocs h)(p := None)"
    using kfree_live by blast
next
  fix h p q k l assume "heap_ok h" "allocs h p = Some k" "allocs h q = Some l" "p < q"
  then show "p + k \<le> q" using allocs_disjoint by fastforce
qed

section \<open>Properties\<close>

text \<open>
  C1. \<^verbatim>\<open>kmalloc\<close> on a well-formed heap, for every request below 1 GB: the first-fit walk
  ends, the heap stays well formed, and either null is returned and nothing changes for the
  clients, or the returned pointer is a fresh 8-aligned block inside the heap, of at least the
  requested size, that overlaps no live block; every other live block keeps its place and size.
\<close>

theorem kmalloc_safe:
  assumes "heap_ok h" "0 < n" "n < 2 ^ 30"
  shows "\<exists>p h'. kmalloc n h = Some (p, h') \<and> heap_ok h' \<and>
     (p = 0 \<and> allocs h' = allocs h \<or>
      p \<noteq> 0 \<and> (\<exists>k \<ge> n. allocs h p = None \<and> allocs h' = (allocs h)(p \<mapsto> k) \<and> p mod 8 = 0
          \<and> h_start h' + 16 \<le> p \<and> p + k \<le> h_cap h'
          \<and> (\<forall>q l. allocs h q = Some l \<longrightarrow> q + l \<le> p \<or> p + k \<le> q)))"
proof -
  obtain p h' where m: "kmalloc n h = Some (p, h')" "heap_ok h'"
    and c: "if p = 0 then allocs h' = allocs h
            else \<exists>k. n \<le> k \<and> allocs h p = None \<and> allocs h' = (allocs h)(p \<mapsto> k)"
    using kmalloc_correct [OF assms] by blast
  show ?thesis
  proof (cases "p = 0")
    case True
    with m c show ?thesis by auto
  next
    case False
    then obtain k where k: "n \<le> k" "allocs h p = None" "allocs h' = (allocs h)(p \<mapsto> k)"
      using c by auto
    then have p: "allocs h' p = Some k" by simp
    have "q + l \<le> p \<or> p + k \<le> q" if "allocs h q = Some l" for q l
    proof -
      from that k have "q \<noteq> p" "allocs h' q = Some l" by auto
      then show ?thesis
        using kernel_heap.live_disjoint [OF m(2) p, of q l]
          kernel_heap.live_disjoint [OF m(2) _ p, of q l] by (meson linorder_neqE_nat)
    qed
    with k allocs_inside [OF m(2) p] have "k \<ge> n \<and> allocs h p = None \<and> allocs h' = (allocs h)(p \<mapsto> k)
        \<and> p mod 8 = 0 \<and> h_start h' + 16 \<le> p \<and> p + k \<le> h_cap h'
        \<and> (\<forall>q l. allocs h q = Some l \<longrightarrow> q + l \<le> p \<or> p + k \<le> q)"
      by auto
    then have "p \<noteq> 0 \<and> (\<exists>k \<ge> n. allocs h p = None \<and> allocs h' = (allocs h)(p \<mapsto> k)
        \<and> p mod 8 = 0 \<and> h_start h' + 16 \<le> p \<and> p + k \<le> h_cap h'
        \<and> (\<forall>q l. allocs h q = Some l \<longrightarrow> q + l \<le> p \<or> p + k \<le> q))"
      using False by (intro conjI exI [of _ k]) blast+
    with m(1,2) show ?thesis by metis
  qed
qed

definition heap0 :: kheap where
  "heap0 = kmalloc_init 0x200000 0x80000
     \<lparr>h_mem = (\<lambda>_. \<lparr>b_magic = 0, b_size = 0, b_prev = 0, b_next = 0\<rparr>), h_free_list = 0,
      h_start = 0, h_end = 0, h_cap = 0\<rparr>"

lemma heap0_ok: "heap_ok heap0" "allocs heap0 = Map.empty"
  unfolding heap0_def by (rule kmalloc_init_ok; simp)+

lemma kmalloc_safe_witness:
  "\<exists>p h'. kmalloc 100 heap0 = Some (p, h') \<and> heap_ok h' \<and>
     (p = 0 \<or> p \<noteq> 0 \<and> (\<exists>k \<ge> 100. allocs h' p = Some k))"
  using kmalloc_safe [OF heap0_ok(1), of 100] by force

text \<open>
  C9. Freeing what \<^verbatim>\<open>kmalloc\<close> returned: the heap stays well formed, the released block
  is no longer live and every other allocation is exactly what it was before the
  \<^verbatim>\<open>kmalloc\<close>, whatever splitting and coalescing happened in between.
\<close>

theorem kmalloc_kfree_restores:
  assumes "heap_ok h" "0 < n" "n < 2 ^ 30" "kmalloc n h = Some (p, h')" "p \<noteq> 0"
  shows "heap_ok (kfree p h') \<and> allocs (kfree p h') = allocs h"
  using assms by (rule kernel_heap.alloc_free_restores)

lemma kmalloc_heap0: "\<exists>h'. kmalloc 100 heap0 = Some (0x200010, h')"
  by (simp add: kmalloc_def heap0_def kmalloc_init_def kmalloc_fit.simps w32_def extend_heap_def
      SIZEOF_BLOCK_def)

lemma kmalloc_kfree_restores_witness:
  "\<exists>h'. kmalloc 100 heap0 = Some (0x200010, h') \<and> allocs (kfree 0x200010 h') = Map.empty"
  using kmalloc_heap0 kmalloc_kfree_restores [OF heap0_ok(1), of 100 "0x200010"] heap0_ok(2) by fastforce

text \<open>
  \<^verbatim>\<open>kfree\<close> of a live pointer removes exactly that allocation and keeps the heap
  well formed; a second \<^verbatim>\<open>kfree\<close> of a pointer to a block that is still there leaves
  the heap unchanged.
\<close>

theorem kfree_spec:
  assumes "heap_ok h" "p \<in> (\<lambda>b. b + 16) ` set (heap_blocks h)"
  shows "heap_ok (kfree p h) \<and> allocs (kfree p h) = (allocs h)(p := None)
     \<and> (allocs h p = None \<longrightarrow> kfree p h = h)"
proof (cases "allocs h p")
  case None
  then have "kfree p h = h" using assms kfree_dead by blast
  then show ?thesis using assms(1) None by (simp add: fun_upd_idem)
next
  case (Some k)
  then show ?thesis using kfree_live [OF assms(1), of p] by simp
qed

lemma kfree_spec_witness: "heap_ok (kfree 0x200010 (snd (the (kmalloc 100 heap0))))"
proof -
  obtain h' where h': "kmalloc 100 heap0 = Some (0x200010, h')" using kmalloc_heap0 by blast
  obtain k where "heap_ok h'" "allocs h' = (allocs heap0)(0x200010 \<mapsto> k)"
    using kmalloc_correct [OF heap0_ok(1), of 100] h' by auto
  moreover from this have "allocs h' 0x200010 \<noteq> None" by simp
  then have "0x200010 - 16 \<in> set (heap_blocks h')" by (simp only: allocs_def split: if_splits) simp
  then have "0x200010 \<in> (\<lambda>b. b + 16) ` set (heap_blocks h')" by (rule rev_image_eqI) simp
  ultimately have "heap_ok h'" "0x200010 \<in> (\<lambda>b. b + 16) ` set (heap_blocks h')" by blast+
  from kfree_spec [OF this] show ?thesis using h' by simp
qed

text \<open>
  The statistics of the heap, \<^verbatim>\<open>kmalloc_used\<close> and \<^verbatim>\<open>kmalloc_free\<close>: both
  walks end on a well-formed heap, and the bytes in use, the bytes on the free list and the
  16-byte headers add up to the part of the heap handed out so far.
\<close>

theorem kmalloc_accounting:
  assumes "heap_ok h"
  shows "\<exists>u f. kmalloc_used h = Some u \<and> kmalloc_free h = Some f \<and>
           u + f + 16 * length (heap_blocks h) = h_end h - h_start h"
  using assms by (rule kmalloc_stats)

lemma kmalloc_accounting_witness:
  "\<exists>u f. kmalloc_used heap0 = Some u \<and> kmalloc_free heap0 = Some f"
  using kmalloc_accounting [OF heap0_ok(1)] by blast

end
