(* ===== verification/Digits.thy ===== *)
theory Digits
  imports KString
begin

text \<open>
  The loops \<^verbatim>\<open>while (v) { t[i--] = '0' + v % 10; v /= 10; }\<close> and
  \<^verbatim>\<open>while (u) { t[i--] = hex[u & 0xF]; u >>= 4; }\<close> that the kernel repeats in its
  print routines. \<open>put_digits dig base room v\<close> is such a loop over an array with
  \<open>room\<close> elements below the starting index: the digits it leaves, most significant first,
  and \<open>None\<close> when it runs below the array.
\<close>

section \<open>Digit loops\<close>

fun put_digits :: "(u32 \<Rightarrow> u8) \<Rightarrow> u32 \<Rightarrow> nat \<Rightarrow> u32 \<Rightarrow> bytes option" where
  "put_digits dig base room v =
     (if v = 0 then Some []
      else case room of
        0 \<Rightarrow> None
      | Suc r \<Rightarrow> map_option (\<lambda>ds. ds @ [dig (v mod base)]) (put_digits dig base r (v div base)))"

declare put_digits.simps [simp del]

definition dec_dig :: "u32 \<Rightarrow> u8" where
  "dec_dig r = 48 + ucast r"

definition hexu_dig :: "u32 \<Rightarrow> u8" where
  "hexu_dig r = lit ''0123456789ABCDEF'' ! unat (r AND 0xF)"

definition hexl_dig :: "u32 \<Rightarrow> u8" where
  "hexl_dig r = lit ''0123456789abcdef'' ! unat (r AND 0xF)"

text \<open>The decimal print with the special case of zero that all the printers have.\<close>

definition put_dec :: "nat \<Rightarrow> u32 \<Rightarrow> bytes option" where
  "put_dec room v = (if v = 0 then Some [48] else put_digits dec_dig 10 room v)"

definition dec_value :: "bytes \<Rightarrow> nat" where
  "dec_value ds = foldl (\<lambda>n d. n * 10 + (unat d - 48)) 0 ds"

section \<open>What they compute\<close>

lemma dec_value_snoc: "dec_value (ds @ [d]) = dec_value ds * 10 + (unat d - 48)"
  by (simp add: dec_value_def)

lemma unat_dec_dig: "unat r < 10 \<Longrightarrow> unat (dec_dig r) = 48 + unat r"
  by (simp add: dec_dig_def unat_word_ariths unsigned_ucast_eq take_bit_eq_mod)

lemma put_digits_dec:
  assumes "unat v < 10 ^ room"
  shows "\<exists>ds. put_digits dec_dig 10 room v = Some ds \<and> dec_value ds = unat v \<and> length ds \<le> room
          \<and> list_all (\<lambda>d. 48 \<le> unat d \<and> unat d \<le> 57) ds \<and> (v \<noteq> 0 \<longrightarrow> ds \<noteq> [])"
  using assms
proof (induction room arbitrary: v)
  case 0
  then have "v = 0" by (simp add: unat_eq_zero)
  then show ?case by (simp add: put_digits.simps dec_value_def)
next
  case (Suc room)
  show ?case
  proof (cases "v = 0")
    case True
    then show ?thesis by (simp add: put_digits.simps dec_value_def)
  next
    case False
    have "unat (v div 10) < 10 ^ room"
      using Suc.prems by (simp add: unat_div less_mult_imp_div_less)
    from Suc.IH [OF this] obtain ds where
      ds: "put_digits dec_dig 10 room (v div 10) = Some ds" "dec_value ds = unat v div 10"
        "length ds \<le> room" "list_all (\<lambda>d. 48 \<le> unat d \<and> unat d \<le> 57) ds"
      by (auto simp: unat_div)
    have m: "unat (v mod 10) = unat v mod 10" by (simp add: unat_mod)
    then have "unat (v mod 10) < 10" by simp
    note d = unat_dec_dig [OF this]
    then have "unat (dec_dig (v mod 10)) \<le> 57" using m by simp
    with False ds d m show ?thesis
      by (simp add: put_digits.simps [of _ _ "Suc room"] dec_value_snoc)
  qed
qed

lemma put_dec_spec:
  assumes "unat v < 10 ^ room" "0 < room"
  shows "\<exists>ds. put_dec room v = Some ds \<and> dec_value ds = unat v \<and> ds \<noteq> [] \<and> length ds \<le> room
          \<and> list_all (\<lambda>d. 48 \<le> unat d \<and> unat d \<le> 57) ds"
  using put_digits_dec [OF assms(1)] assms(2)
  by (cases "v = 0") (auto simp: put_dec_def dec_value_def Suc_le_eq)

lemma put_dec_u32:
  "10 \<le> room \<Longrightarrow> \<exists>ds. put_dec room v = Some ds \<and> dec_value ds = unat v \<and> ds \<noteq> [] \<and> length ds \<le> room
          \<and> list_all (\<lambda>d. 48 \<le> unat d \<and> unat d \<le> 57) ds"
proof (rule put_dec_spec)
  assume r: "10 \<le> room"
  then have "(10::nat) ^ 10 \<le> 10 ^ room" by (rule power_increasing) simp
  then show "unat v < 10 ^ room" using unat_u32_lt [of v] by simp
qed simp

text \<open>The number of digits: none is wasted, however much room there is.\<close>

lemma put_digits_room:
  "put_digits dig base room v = Some ds \<Longrightarrow> room \<le> room' \<Longrightarrow> put_digits dig base room' v = Some ds"
proof (induction room arbitrary: v ds room')
  case 0
  then have "v = 0" "ds = []" by (simp_all add: put_digits.simps [of _ _ 0] split: if_splits)
  then show ?case by (simp add: put_digits.simps [of _ _ room'])
next
  case (Suc room)
  from Suc.prems(2) obtain r where r: "room' = Suc r" "room \<le> r" by (cases room') auto
  show ?case
  proof (cases "v = 0")
    case True
    with Suc.prems(1) show ?thesis by (simp add: put_digits.simps [of _ _ "Suc room"] put_digits.simps [of _ _ room'])
  next
    case False
    with Suc.prems(1) obtain ds' where "put_digits dig base room (v div base) = Some ds'" "ds = ds' @ [dig (v mod base)]"
      by (auto simp: put_digits.simps [of _ _ "Suc room"])
    with Suc.IH [OF _ r(2)] False r(1) show ?thesis by (simp add: put_digits.simps [of _ _ "Suc r"])
  qed
qed

lemma dec_value_less:
  "list_all (\<lambda>d. 48 \<le> unat d \<and> unat d \<le> 57) (ds :: bytes) \<Longrightarrow> dec_value ds < 10 ^ length ds"
proof (induction ds rule: rev_induct)
  case (snoc d ds)
  then have "dec_value ds + 1 \<le> 10 ^ length ds" "unat d - 48 \<le> 9" by auto
  then show ?case by (simp add: dec_value_snoc)
qed (simp add: dec_value_def)

lemma put_dec_exact:
  assumes "unat v < 10 ^ n" "n = Suc 0 \<or> 10 ^ (n - 1) \<le> unat v" "0 < n" "n \<le> room"
  shows "\<exists>ds. put_dec room v = Some ds \<and> dec_value ds = unat v \<and> length ds = n
          \<and> list_all (\<lambda>d. 48 \<le> unat d \<and> unat d \<le> 57) ds"
proof (cases "v = 0")
  case True
  with assms have "n = 1" by auto
  with True show ?thesis by (simp add: put_dec_def dec_value_def)
next
  case False
  from put_digits_dec [OF assms(1)] obtain ds where
    ds: "put_digits dec_dig 10 n v = Some ds" "dec_value ds = unat v" "length ds \<le> n"
      "list_all (\<lambda>d. 48 \<le> unat d \<and> unat d \<le> 57) ds" "ds \<noteq> []" using False by auto
  have "n \<le> length ds"
  proof (rule ccontr)
    assume "\<not> n \<le> length ds"
    then have l: "length ds \<le> n - 1" by simp
    from dec_value_less [OF ds(4)] ds(2) have "unat v < 10 ^ length ds" by simp
    also have "\<dots> \<le> 10 ^ (n - 1)" using l by (rule power_increasing) simp
    finally show False using assms(2) l ds(5) by auto
  qed
  with ds put_digits_room [OF ds(1) assms(4)] False show ?thesis by (auto simp: put_dec_def)
qed

end
