(* ===== verification/Vga.thy ===== *)
theory Vga
  imports Digits
begin

text \<open>
  The text console, \<^verbatim>\<open>src/vga.c\<close>. The state holds the text memory at
  \<^verbatim>\<open>0xB8000\<close> (\<open>v_mem\<close>, by cell index), the terminal position and colour, and the
  bytes written to the I/O ports (\<open>v_ports\<close>, oldest first), which is how the code moves the
  hardware cursor.
\<close>

section \<open>State and operations\<close>

datatype vga_color =
    VGA_BLACK | VGA_BLUE | VGA_GREEN | VGA_CYAN | VGA_RED | VGA_MAGENTA | VGA_BROWN
  | VGA_LIGHT_GREY | VGA_DARK_GREY | VGA_LIGHT_BLUE | VGA_LIGHT_GREEN | VGA_LIGHT_CYAN
  | VGA_LIGHT_RED | VGA_LIGHT_MAGENTA | VGA_YELLOW | VGA_WHITE

primrec color_val :: "vga_color \<Rightarrow> u8" where
  "color_val VGA_BLACK = 0"
| "color_val VGA_BLUE = 1"
| "color_val VGA_GREEN = 2"
| "color_val VGA_CYAN = 3"
| "color_val VGA_RED = 4"
| "color_val VGA_MAGENTA = 5"
| "color_val VGA_BROWN = 6"
| "color_val VGA_LIGHT_GREY = 7"
| "color_val VGA_DARK_GREY = 8"
| "color_val VGA_LIGHT_BLUE = 9"
| "color_val VGA_LIGHT_GREEN = 10"
| "color_val VGA_LIGHT_CYAN = 11"
| "color_val VGA_LIGHT_RED = 12"
| "color_val VGA_LIGHT_MAGENTA = 13"
| "color_val VGA_YELLOW = 14"
| "color_val VGA_WHITE = 15"

definition VGA_WIDTH :: int where "VGA_WIDTH = 80"
definition VGA_HEIGHT :: int where "VGA_HEIGHT = 25"

record vga =
  v_mem :: "int \<Rightarrow> u16"
  v_row :: int
  v_col :: int
  v_color :: u8
  v_ports :: "(u16 \<times> u8) list"

text \<open>\<^verbatim>\<open>(uint16_t)c\<close> sign-extends the \<^verbatim>\<open>char\<close>.\<close>

definition vga_entry :: "u8 \<Rightarrow> u8 \<Rightarrow> u16" where
  "vga_entry c color = (scast c :: u16) OR push_bit 8 (ucast color)"

definition vga_color_make :: "vga_color \<Rightarrow> vga_color \<Rightarrow> u8" where
  "vga_color_make fg bg = color_val fg OR push_bit 4 (color_val bg)"

definition vga_outb :: "u16 \<Rightarrow> u8 \<Rightarrow> vga \<Rightarrow> vga" where
  "vga_outb port b v = v\<lparr>v_ports := v_ports v @ [(port, b)]\<rparr>"

definition poke :: "int \<Rightarrow> u16 \<Rightarrow> vga \<Rightarrow> vga" where
  "poke i e v = v\<lparr>v_mem := (v_mem v)(i := e)\<rparr>"

definition vga_set_cursor :: "int \<Rightarrow> int \<Rightarrow> vga \<Rightarrow> vga" where
  "vga_set_cursor x y v =
     (let pos = (of_int (y * VGA_WIDTH + x) :: u16) in
      vga_outb 0x3D5 (ucast (drop_bit 8 pos AND 0xFF))
        (vga_outb 0x3D4 0x0E
          (vga_outb 0x3D5 (ucast (pos AND 0xFF)) (vga_outb 0x3D4 0x0F v))))"

definition vga_clear :: "vga \<Rightarrow> vga" where
  "vga_clear v =
     (let v1 = v\<lparr>v_mem := (\<lambda>i. if 0 \<le> i \<and> i < VGA_HEIGHT * VGA_WIDTH
                              then vga_entry (of_char CHR '' '') (v_color v) else v_mem v i)\<rparr>
      in vga_set_cursor 0 0 (v1\<lparr>v_row := 0, v_col := 0\<rparr>))"

definition vga_init :: "vga \<Rightarrow> vga" where
  "vga_init v = vga_clear (v\<lparr>v_row := 0, v_col := 0,
                             v_color := vga_color_make VGA_LIGHT_GREY VGA_BLACK\<rparr>)"

definition vga_set_color :: "vga_color \<Rightarrow> vga_color \<Rightarrow> vga \<Rightarrow> vga" where
  "vga_set_color fg bg v = v\<lparr>v_color := vga_color_make fg bg\<rparr>"

definition vga_scroll :: "vga \<Rightarrow> vga" where
  "vga_scroll v = v\<lparr>
     v_mem := (\<lambda>i. if 0 \<le> i \<and> i < (VGA_HEIGHT - 1) * VGA_WIDTH then v_mem v (i + VGA_WIDTH)
                   else if (VGA_HEIGHT - 1) * VGA_WIDTH \<le> i \<and> i < VGA_HEIGHT * VGA_WIDTH
                   then vga_entry (of_char CHR '' '') (v_color v) else v_mem v i),
     v_row := VGA_HEIGHT - 1\<rparr>"

definition next_row :: "vga \<Rightarrow> vga" where
  "next_row v = (let v1 = v\<lparr>v_row := v_row v + 1\<rparr>
                 in if v_row v1 \<ge> VGA_HEIGHT then vga_scroll v1 else v1)"

text \<open>Every branch of \<^verbatim>\<open>vga_putchar\<close> but the tab.\<close>

definition putchar_plain :: "u8 \<Rightarrow> vga \<Rightarrow> vga" where
  "putchar_plain c v =
     (let v' =
        (if c = 10 then next_row (v\<lparr>v_col := 0\<rparr>)
         else if c = 13 then v\<lparr>v_col := 0\<rparr>
         else if c = 8 then
           (if v_col v > 0
            then (let v1 = v\<lparr>v_col := v_col v - 1\<rparr>
                  in poke (v_row v1 * VGA_WIDTH + v_col v1) (vga_entry (of_char CHR '' '') (v_color v1)) v1)
            else v)
         else
           (let v1 = poke (v_row v * VGA_WIDTH + v_col v) (vga_entry c (v_color v)) v;
                v2 = v1\<lparr>v_col := v_col v1 + 1\<rparr>
            in if v_col v2 \<ge> VGA_WIDTH then next_row (v2\<lparr>v_col := 0\<rparr>) else v2))
      in vga_set_cursor (v_col v') (v_row v') v')"

definition vga_putchar :: "u8 \<Rightarrow> vga \<Rightarrow> vga" where
  "vga_putchar c v =
     (if c = 9 then (putchar_plain (of_char CHR '' '') ^^ nat (4 - v_col v mod 4)) v
      else putchar_plain c v)"

fun vga_puts :: "bytes \<Rightarrow> vga \<Rightarrow> vga option" where
  "vga_puts [] v = None"
| "vga_puts (c # cs) v = (if c = 0 then Some v else vga_puts cs (vga_putchar c v))"

fun puts_at_loop :: "bytes \<Rightarrow> int \<Rightarrow> int \<Rightarrow> u8 \<Rightarrow> vga \<Rightarrow> vga option" where
  "puts_at_loop [] cx y color v = None"
| "puts_at_loop (c # cs) cx y color v =
     (if c \<noteq> 0 \<and> cx < VGA_WIDTH
      then puts_at_loop cs (cx + 1) y color (poke (y * VGA_WIDTH + cx) (vga_entry c color) v)
      else Some v)"

definition vga_puts_at :: "bytes \<Rightarrow> int \<Rightarrow> int \<Rightarrow> vga_color \<Rightarrow> vga_color \<Rightarrow> vga \<Rightarrow> vga option" where
  "vga_puts_at str x y fg bg v = puts_at_loop str x y (vga_color_make fg bg) v"

definition vga_draw_box ::
  "int \<Rightarrow> int \<Rightarrow> int \<Rightarrow> int \<Rightarrow> vga_color \<Rightarrow> vga_color \<Rightarrow> vga \<Rightarrow> vga" where
  "vga_draw_box x y w h fg bg v =
     (let color = vga_color_make fg bg;
          e = (\<lambda>ch. vga_entry (of_char ch) color);
          v1 = poke (y * VGA_WIDTH + x) (e CHR ''+'') v;
          v2 = poke (y * VGA_WIDTH + x + w - 1) (e CHR ''+'') v1;
          v3 = poke ((y + h - 1) * VGA_WIDTH + x) (e CHR ''+'') v2;
          v4 = poke ((y + h - 1) * VGA_WIDTH + x + w - 1) (e CHR ''+'') v3;
          v5 = fold (\<lambda>i u. poke ((y + h - 1) * VGA_WIDTH + x + i) (e CHR ''-'')
                              (poke (y * VGA_WIDTH + x + i) (e CHR ''-'') u)) [1..w - 2] v4
      in fold (\<lambda>i u. poke ((y + i) * VGA_WIDTH + x + w - 1) (e CHR ''|'')
                        (poke ((y + i) * VGA_WIDTH + x) (e CHR ''|'') u)) [1..h - 2] v5)"

definition vga_fill_rect ::
  "int \<Rightarrow> int \<Rightarrow> int \<Rightarrow> int \<Rightarrow> u8 \<Rightarrow> vga_color \<Rightarrow> vga_color \<Rightarrow> vga \<Rightarrow> vga" where
  "vga_fill_rect x y w h ch fg bg v =
     (let color = vga_color_make fg bg in
      fold (\<lambda>row u. fold (\<lambda>col. poke (row * VGA_WIDTH + col) (vga_entry ch color))
                      [x..min (x + w) VGA_WIDTH - 1] u)
        [y..min (y + h) VGA_HEIGHT - 1] v)"

definition vga_get_col :: "vga \<Rightarrow> int" where "vga_get_col v = v_col v"
definition vga_get_row :: "vga \<Rightarrow> int" where "vga_get_row v = v_row v"

text \<open>\<^verbatim>\<open>buf[9]\<close> down to \<^verbatim>\<open>buf[2]\<close> take the eight hexadecimal digits.\<close>

definition vga_put_hex :: "u32 \<Rightarrow> vga \<Rightarrow> vga option" where
  "vga_put_hex val v =
     vga_puts ([of_char CHR ''0'', of_char CHR ''x''] @
               map (\<lambda>k. hexu_dig (drop_bit (4 * (7 - k)) val)) [0..<8] @ [0]) v"

definition vga_put_dec :: "u32 \<Rightarrow> vga \<Rightarrow> vga option" where
  "vga_put_dec val v =
     (if val = 0 then Some (vga_putchar (of_char CHR ''0'') v)
      else do { ds \<leftarrow> put_digits dec_dig 10 11 val; vga_puts (ds @ [0]) v })"

section \<open>The terminal invariant\<close>

definition vga_inv :: "vga \<Rightarrow> bool" where
  "vga_inv v \<longleftrightarrow> 0 \<le> v_row v \<and> v_row v < VGA_HEIGHT \<and> 0 \<le> v_col v \<and> v_col v < VGA_WIDTH"

text \<open>Only the 2000 cells of the screen change.\<close>

definition vga_frame :: "vga \<Rightarrow> vga \<Rightarrow> bool" where
  "vga_frame v v' \<longleftrightarrow> (\<forall>i. i < 0 \<or> 2000 \<le> i \<longrightarrow> v_mem v' i = v_mem v i)"

lemmas vga_dims = VGA_WIDTH_def VGA_HEIGHT_def

lemma vga_frame_refl [simp]: "vga_frame v v"
  by (simp add: vga_frame_def)

lemma vga_frame_trans: "vga_frame u v \<Longrightarrow> vga_frame v w \<Longrightarrow> vga_frame u w"
  by (simp add: vga_frame_def)

lemma set_cursor_fields [simp]:
  "v_mem (vga_set_cursor x y v) = v_mem v" "v_row (vga_set_cursor x y v) = v_row v"
  "v_col (vga_set_cursor x y v) = v_col v" "v_color (vga_set_cursor x y v) = v_color v"
  by (simp_all add: vga_set_cursor_def vga_outb_def Let_def)

lemma poke_fields [simp]:
  "v_mem (poke i e v) = (v_mem v)(i := e)" "v_row (poke i e v) = v_row v"
  "v_col (poke i e v) = v_col v" "v_color (poke i e v) = v_color v"
  by (simp_all add: poke_def)

lemma next_row_inv:
  assumes "0 \<le> v_row v" "v_row v < VGA_HEIGHT" "0 \<le> v_col v" "v_col v < VGA_WIDTH"
  shows "vga_inv (next_row v)" "vga_frame v (next_row v)" "v_color (next_row v) = v_color v"
  using assms
  by (auto simp: next_row_def vga_scroll_def vga_inv_def vga_frame_def vga_dims Let_def)

lemma cell_range: "vga_inv v \<Longrightarrow> 0 \<le> v_row v * 80 + v_col v \<and> v_row v * 80 + v_col v < 2000"
  by (auto simp: vga_inv_def vga_dims)

lemma putchar_plain_inv:
  assumes "vga_inv v"
  shows "vga_inv (putchar_plain c v) \<and> vga_frame v (putchar_plain c v)
     \<and> v_color (putchar_plain c v) = v_color v"
proof -
  have c: "0 \<le> v_row v * 80 + v_col v" "v_row v * 80 + v_col v < 2000"
    using cell_range [OF assms] by auto
  have r: "0 \<le> v_row v" "v_row v < VGA_HEIGHT" "0 \<le> v_col v" "v_col v < VGA_WIDTH"
    using assms by (auto simp: vga_inv_def)
  have sc: "vga_inv (vga_set_cursor x y u) = vga_inv u" "vga_frame v (vga_set_cursor x y u) = vga_frame v u"
    for x y u by (simp_all add: vga_inv_def vga_frame_def)
  consider "c = 10" | "c = 13" | "c = 8" | "c \<notin> {10, 13, 8}" by blast
  then show ?thesis
  proof cases
    case 1
    then show ?thesis using next_row_inv [of "v\<lparr>v_col := 0\<rparr>"] r
      by (auto simp: putchar_plain_def sc vga_frame_def vga_dims Let_def)
  next
    case 2
    then show ?thesis using r by (auto simp: putchar_plain_def sc vga_frame_def vga_inv_def vga_dims Let_def)
  next
    case 3
    then show ?thesis using r c
      by (auto simp: putchar_plain_def sc vga_frame_def vga_inv_def vga_dims Let_def)
  next
    case 4
    let ?v = "poke (v_row v * VGA_WIDTH + v_col v) (vga_entry c (v_color v)) v"
    have "vga_frame v (?v\<lparr>v_col := k\<rparr>)" for k using c by (auto simp: vga_frame_def vga_dims)
    then show ?thesis using 4 r next_row_inv [of "?v\<lparr>v_col := 0\<rparr>"] vga_frame_trans
      by (auto simp: putchar_plain_def sc Let_def vga_inv_def vga_dims)
  qed
qed

lemma putchar_plain_pow_inv:
  "vga_inv v \<Longrightarrow> vga_inv ((putchar_plain c ^^ n) v) \<and> vga_frame v ((putchar_plain c ^^ n) v)
     \<and> v_color ((putchar_plain c ^^ n) v) = v_color v"
  by (induction n) (auto dest: putchar_plain_inv intro: vga_frame_trans)

lemma vga_putchar_inv:
  "vga_inv v \<Longrightarrow> vga_inv (vga_putchar c v) \<and> vga_frame v (vga_putchar c v)
     \<and> v_color (vga_putchar c v) = v_color v"
  by (simp add: vga_putchar_def putchar_plain_inv putchar_plain_pow_inv)

lemma vga_puts_inv:
  "vga_inv v \<Longrightarrow> terminated s \<Longrightarrow>
     \<exists>v'. vga_puts s v = Some v' \<and> vga_inv v' \<and> vga_frame v v' \<and> v_color v' = v_color v"
proof (induction s v rule: vga_puts.induct)
  case (2 c cs v)
  show ?case
  proof (cases "c = 0")
    case True
    with 2 show ?thesis by simp
  next
    case False
    with 2 vga_putchar_inv [of v c] show ?thesis by (auto intro: vga_frame_trans)
  qed
qed simp

section \<open>What is shown\<close>

definition printable :: "u8 \<Rightarrow> bool" where
  "printable c \<longleftrightarrow> c \<notin> {0, 8, 9, 10, 13}"

text \<open>A string that fits on the rest of the line appears there, and nothing else changes.\<close>

lemma putchar_printable:
  assumes "printable c" "v_col v + 1 < VGA_WIDTH"
  shows "v_mem (vga_putchar c v) = (v_mem v)(v_row v * 80 + v_col v := vga_entry c (v_color v))"
    "v_row (vga_putchar c v) = v_row v" "v_col (vga_putchar c v) = v_col v + 1"
    "v_color (vga_putchar c v) = v_color v"
  using assms by (auto simp: printable_def vga_putchar_def putchar_plain_def Let_def vga_dims)

lemma vga_puts_shows:
  assumes "list_all printable s" "v_col v + int (length s) < VGA_WIDTH"
  shows "\<exists>v'. vga_puts (s @ [0]) v = Some v' \<and> v_row v' = v_row v \<and> v_col v' = v_col v + int (length s)
     \<and> (\<forall>i. v_mem v' i = (if v_row v * 80 + v_col v \<le> i \<and> i < v_row v * 80 + v_col v + int (length s)
                           then vga_entry (s ! nat (i - (v_row v * 80 + v_col v))) (v_color v)
                           else v_mem v i))"
  using assms
proof (induction s arbitrary: v)
  case Nil
  then show ?case by auto
next
  case (Cons c s)
  have c: "printable c" "v_col v + 1 < VGA_WIDTH" "c \<noteq> 0"
    using Cons.prems by (auto simp: printable_def)
  note p = putchar_printable [OF c(1,2)]
  have "v_col (vga_putchar c v) + int (length s) < VGA_WIDTH" using Cons.prems(2) p by simp
  with Cons.IH [of "vga_putchar c v"] Cons.prems(1) obtain v' where
    v': "vga_puts (s @ [0]) (vga_putchar c v) = Some v'" "v_row v' = v_row v"
    "v_col v' = v_col v + 1 + int (length s)"
    "\<And>i. v_mem v' i =
       (if v_row v * 80 + v_col v + 1 \<le> i \<and> i < v_row v * 80 + v_col v + 1 + int (length s)
        then vga_entry (s ! nat (i - (v_row v * 80 + v_col v + 1))) (v_color v)
        else if i = v_row v * 80 + v_col v then vga_entry c (v_color v) else v_mem v i)"
    by (auto simp: p algebra_simps)
  have "(c # s) ! nat (i - a) = s ! nat (i - (a + 1))" if "a + 1 \<le> i" for i a :: int
  proof -
    have "nat (i - a) = Suc (nat (i - (a + 1)))" using that by simp
    then show ?thesis by (simp only: nth_Cons_Suc)
  qed
  with v' c(3) show ?case by (auto simp: algebra_simps)
qed

section \<open>Properties\<close>

text \<open>
  Printing any NUL-terminated string (control characters, wrapping and scrolling included)
  keeps the terminal position on the 80 by 25 screen and writes no cell of memory outside it.
\<close>

theorem vga_puts_stays_on_screen:
  assumes "vga_inv v" "terminated s"
  shows "\<exists>v'. vga_puts s v = Some v' \<and> vga_inv v' \<and> vga_frame v v' \<and> v_color v' = v_color v"
  using assms by (rule vga_puts_inv)

definition vga0 :: vga where
  "vga0 = vga_init \<lparr>v_mem = (\<lambda>_. 0), v_row = 0, v_col = 0, v_color = 0, v_ports = []\<rparr>"

lemma vga0_inv: "vga_inv vga0"
  by (simp add: vga0_def vga_init_def vga_clear_def vga_inv_def vga_dims Let_def)

lemma vga_puts_stays_on_screen_witness:
  "\<exists>v'. vga_puts (lit ''hello'') vga0 = Some v' \<and> vga_inv v'"
  using vga_puts_stays_on_screen [OF vga0_inv, of "lit ''hello''"] by (auto simp: lit_def)

text \<open>
  A string of printable characters that fits on the rest of the line appears in the cells
  from the cursor on, in the current colour; every other cell keeps its contents and the cursor
  ends behind the last character.
\<close>

theorem vga_puts_displays:
  assumes "list_all printable s" "v_col v + int (length s) < VGA_WIDTH"
  shows "\<exists>v'. vga_puts (s @ [0]) v = Some v' \<and> v_row v' = v_row v \<and> v_col v' = v_col v + int (length s)
     \<and> (\<forall>i. v_mem v' i = (if v_row v * 80 + v_col v \<le> i \<and> i < v_row v * 80 + v_col v + int (length s)
                           then vga_entry (s ! nat (i - (v_row v * 80 + v_col v))) (v_color v)
                           else v_mem v i))"
  using assms by (rule vga_puts_shows)

lemma vga_puts_displays_witness:
  "\<exists>v'. vga_puts ([75, 117, 109] @ [0]) vga0 = Some v' \<and> v_col v' = v_col vga0 + 3"
proof -
  have "v_col vga0 = 0"
    by (simp add: vga0_def vga_init_def vga_clear_def Let_def)
  then show ?thesis
    using vga_puts_displays [of "[75, 117, 109]" vga0] by (auto simp: printable_def vga_dims)
qed

end
