(* ===== verification/RamFs.thy ===== *)
theory RamFs
  imports Vga
begin

text \<open>
  The RAM file system, \<^verbatim>\<open>src/fs.c\<close>: a table of 32 files with names of at most 63 and
  contents of at most 4095 characters. Its contract is the locale \<open>file_store\<close>: a finite map
  from names to contents.
\<close>

section \<open>State and operations\<close>

definition FS_MAX_FILES :: nat where "FS_MAX_FILES = 32"
definition FS_MAX_NAME :: nat where "FS_MAX_NAME = 64"
definition FS_MAX_DATA :: nat where "FS_MAX_DATA = 4096"

record fs_file_t =
  f_name :: bytes
  f_data :: bytes
  f_size :: nat
  f_used :: bool
  f_exec :: int

record ramfs =
  files :: "nat \<Rightarrow> fs_file_t"
  file_count :: int

definition fs_file_zero :: fs_file_t where
  "fs_file_zero = \<lparr>f_name = replicate FS_MAX_NAME 0, f_data = replicate FS_MAX_DATA 0, f_size = 0,
     f_used = False, f_exec = 0\<rparr>"

text \<open>A file pointer is the index of the file; the inner \<open>None\<close> is the null pointer.\<close>

definition fs_find :: "ramfs \<Rightarrow> bytes \<Rightarrow> nat option option" where
  "fs_find fs name =
     scan (\<lambda>i. if f_used (files fs i)
               then map_option (\<lambda>r. r = 0) (kstrcmp (f_name (files fs i)) name)
               else Some False) 0 FS_MAX_FILES"

text \<open>The statements that store the data, the same in \<^verbatim>\<open>fs_create\<close> and \<^verbatim>\<open>fs_write\<close>.\<close>

definition fs_store :: "bytes \<Rightarrow> fs_file_t \<Rightarrow> fs_file_t option" where
  "fs_store data f = do {
     n \<leftarrow> kstrlen data;
     let len = (if n \<ge> FS_MAX_DATA then FS_MAX_DATA - 1 else n);
     d \<leftarrow> kmemcpy (f_data f) data len;
     d' \<leftarrow> blit d len [0];
     Some (f\<lparr>f_data := d', f_size := len\<rparr>) }"

definition fs_create :: "bytes \<Rightarrow> bytes \<Rightarrow> int \<Rightarrow> ramfs \<Rightarrow> (int \<times> ramfs) option" where
  "fs_create name data exec fs = do {
     f \<leftarrow> fs_find fs name;
     if f \<noteq> None then Some (-1, fs)
     else case first_idx (\<lambda>i. \<not> f_used (files fs i)) 0 FS_MAX_FILES of
       None \<Rightarrow> Some (-1, fs)
     | Some i \<Rightarrow> do {
         nm \<leftarrow> kstrcpy (f_name (files fs i)) name;
         f' \<leftarrow> fs_store data ((files fs i)\<lparr>f_name := nm\<rparr>);
         Some (0, fs\<lparr>files := (files fs)(i := f'\<lparr>f_used := True, f_exec := exec\<rparr>),
                     file_count := file_count fs + 1\<rparr>) } }"

definition fs_write :: "bytes \<Rightarrow> bytes \<Rightarrow> ramfs \<Rightarrow> (int \<times> ramfs) option" where
  "fs_write name data fs = do {
     f \<leftarrow> fs_find fs name;
     case f of
       None \<Rightarrow> fs_create name data 0 fs
     | Some i \<Rightarrow> do {
         f' \<leftarrow> fs_store data (files fs i);
         Some (0, fs\<lparr>files := (files fs)(i := f')\<rparr>) } }"

definition fs_delete :: "bytes \<Rightarrow> ramfs \<Rightarrow> (int \<times> ramfs) option" where
  "fs_delete name fs = do {
     f \<leftarrow> fs_find fs name;
     case f of
       None \<Rightarrow> Some (-1, fs)
     | Some i \<Rightarrow> Some (0, fs\<lparr>files := (files fs)(i := (files fs i)\<lparr>f_used := False\<rparr>),
                            file_count := file_count fs - 1\<rparr>) }"

definition fs_file_count :: "ramfs \<Rightarrow> int" where
  "fs_file_count fs = file_count fs"

definition readme_txt :: bytes where
  "readme_txt = lit_lines [''Welcome to KumOS!'', ''A minimal C-based operating system.'',
     ''Type '' @ [CHR 0x27] @ ''help'' @ [CHR 0x27] @ '' for available commands.'',
     ''Use '' @ [CHR 0x27] @ ''kum <cmd>'' @ [CHR 0x27] @ '' for privileged operations.'']"

text \<open>The banner, with \<open>!\<close> standing for the backslash of the C string.\<close>

definition motd_txt :: bytes where
  "motd_txt = map (\<lambda>c. if c = of_char CHR ''!'' then of_char CHR 0x5C else c) (lit_lines
     [''  ____  __.               ________    _________'',
      '' |    |/ _|__ __  _____  !_____  !  /   _____/'',
      '' |      < |  |  !/     !  /   |   ! !_____  !'',
      '' |    |  !|  |  /  Y Y  !/    |    !/        !'',
      '' |____|__ !____/|__|_|  /!_______  /_______  /'',
      ''          !/          !/         !/        !/ ''])"

definition hello_sh :: bytes where
  "hello_sh = lit_lines [''echo Hello from KumOS shell script!'', ''echo This is a demo script.'']"

definition fs_init :: "ramfs option" where
  "fs_init = do {
     let fs0 = \<lparr>files = (\<lambda>_. fs_file_zero), file_count = 0\<rparr>;
     (_, fs1) \<leftarrow> fs_create (lit ''readme.txt'') readme_txt 0 fs0;
     (_, fs2) \<leftarrow> fs_create (lit ''motd.txt'') motd_txt 0 fs1;
     (_, fs3) \<leftarrow> fs_create (lit ''hello.sh'') hello_sh 1 fs2;
     Some fs3 }"

definition fs_list_entry :: "fs_file_t \<Rightarrow> vga \<Rightarrow> vga option" where
  "fs_list_entry f v =
     (if \<not> f_used f then Some v
      else do {
        v1 \<leftarrow> vga_puts (lit ''  '') v;
        v2 \<leftarrow> vga_puts (f_name f) v1;
        n \<leftarrow> kstrlen (f_name f);
        let v3 = (vga_putchar (of_char CHR '' '') ^^ nat (32 - int n)) v2;
        v4 \<leftarrow> vga_put_dec (of_nat (f_size f)) v3;
        v5 \<leftarrow> vga_puts (lit ''B   '') v4;
        v6 \<leftarrow> vga_puts (if f_exec f \<noteq> 0 then lit ''[exe]'' else lit ''[txt]'') v5;
        Some (vga_putchar 10 v6) })"

fun fs_list_loop :: "ramfs \<Rightarrow> nat list \<Rightarrow> vga \<Rightarrow> vga option" where
  "fs_list_loop fs [] v = Some v"
| "fs_list_loop fs (i # is) v = do { v' \<leftarrow> fs_list_entry (files fs i) v; fs_list_loop fs is v' }"

definition fs_list :: "ramfs \<Rightarrow> vga \<Rightarrow> vga option" where
  "fs_list fs v = do {
     v1 \<leftarrow> vga_puts (lit_lines [''  NAME                           SIZE  TYPE'']) (vga_set_color VGA_YELLOW VGA_BLACK v);
     v2 \<leftarrow> vga_puts (lit_lines [''  ----                           ----  ----'']) v1;
     fs_list_loop fs [0..<FS_MAX_FILES] (vga_set_color VGA_WHITE VGA_BLACK v2) }"

section \<open>Invariant and abstraction\<close>

definition file_ok :: "fs_file_t \<Rightarrow> bool" where
  "file_ok f \<longleftrightarrow> length (f_name f) = 64 \<and> length (f_data f) = 4096
     \<and> (f_used f \<longrightarrow> terminated (f_name f) \<and> f_size f < 4096 \<and> f_data f ! f_size f = 0)"

definition used_files :: "ramfs \<Rightarrow> nat set" where
  "used_files fs = {i. i < FS_MAX_FILES \<and> f_used (files fs i)}"

definition fname :: "ramfs \<Rightarrow> nat \<Rightarrow> bytes" where
  "fname fs i = cstr (f_name (files fs i))"

definition fs_ok :: "ramfs \<Rightarrow> bool" where
  "fs_ok fs \<longleftrightarrow> (\<forall>i < FS_MAX_FILES. file_ok (files fs i)) \<and> inj_on (fname fs) (used_files fs)
     \<and> file_count fs = int (card (used_files fs))"

definition fs_view :: "ramfs \<Rightarrow> (bytes \<rightharpoonup> bytes)" where
  "fs_view fs n = map_option (\<lambda>i. take (f_size (files fs i)) (f_data (files fs i)))
     (first_idx (\<lambda>i. f_used (files fs i) \<and> fname fs i = n) 0 FS_MAX_FILES)"

lemma finite_used_files [simp]: "finite (used_files fs)"
  by (rule finite_subset [of _ "{..<FS_MAX_FILES}"]) (auto simp: used_files_def)

lemma fs_find_eq:
  assumes "fs_ok fs" "terminated name"
  shows "fs_find fs name = Some (first_idx (\<lambda>i. f_used (files fs i) \<and> fname fs i = cstr name) 0 FS_MAX_FILES)"
  unfolding fs_find_def
proof (rule scan_defined)
  fix i assume "i < FS_MAX_FILES"
  then have "file_ok (files fs i)" using assms(1) by (simp add: fs_ok_def)
  then show "(if f_used (files fs i) then map_option (\<lambda>r. r = 0) (kstrcmp (f_name (files fs i)) name)
        else Some False) = Some (f_used (files fs i) \<and> fname fs i = cstr name)"
    using kstrcmp_defined [of "f_name (files fs i)" name] kstrcmp_eq_iff [of "f_name (files fs i)" name]
      assms(2) by (auto simp: file_ok_def fname_def)
qed

lemma fs_view_used:
  assumes "fs_ok fs" "i \<in> used_files fs"
  shows "fs_view fs (fname fs i) = Some (take (f_size (files fs i)) (f_data (files fs i)))"
proof -
  have "first_idx (\<lambda>j. f_used (files fs j) \<and> fname fs j = fname fs i) 0 FS_MAX_FILES = Some i"
  proof (rule first_idx_eqI)
    fix j assume j: "j < i"
    then have "j < FS_MAX_FILES" using assms(2) by (simp add: used_files_def)
    moreover have "inj_on (fname fs) (used_files fs)" using assms(1) by (simp add: fs_ok_def)
    ultimately show "\<not> (f_used (files fs j) \<and> fname fs j = fname fs i)"
      using j assms(2) inj_onD [of "fname fs" "used_files fs" j i] by (auto simp: used_files_def)
  qed (use assms in \<open>auto simp: used_files_def\<close>)
  then show ?thesis by (simp add: fs_view_def)
qed

lemma fs_view_None: "fs_view fs n = None \<longleftrightarrow> n \<notin> fname fs ` used_files fs"
  by (auto simp: fs_view_def first_idx_None_iff used_files_def)

lemma fs_view_Some_iff:
  assumes "fs_ok fs"
  shows "fs_view fs n = Some x \<longleftrightarrow>
    (\<exists>i \<in> used_files fs. fname fs i = n \<and> x = take (f_size (files fs i)) (f_data (files fs i)))"
  using fs_view_used [OF assms] fs_view_None [of fs n]
  by (metis image_iff option.distinct(1) option.inject)

text \<open>One slot gets a file, with its own old name or a name that no file has.\<close>

lemma fs_set_slot:
  assumes ok: "fs_ok fs" and i: "i < FS_MAX_FILES" and f: "file_ok f" "f_used f"
    and nm: "if i \<in> used_files fs then cstr (f_name f) = fname fs i
             else cstr (f_name f) \<notin> fname fs ` used_files fs"
  defines "fs' \<equiv> fs\<lparr>files := (files fs)(i := f),
     file_count := file_count fs + (if i \<in> used_files fs then 0 else 1)\<rparr>"
  shows "fs_ok fs'" "fs_view fs' = (fs_view fs)(cstr (f_name f) \<mapsto> take (f_size f) (f_data f))"
proof -
  have u: "used_files fs' = insert i (used_files fs)"
    using i f(2) by (auto simp: used_files_def fs'_def)
  have n: "fname fs' j = (if j = i then cstr (f_name f) else fname fs j)" for j
    by (simp add: fname_def fs'_def)
  have g: "files fs' j = (if j = i then f else files fs j)" for j by (simp add: fs'_def)
  have inj: "inj_on (fname fs) (used_files fs)" using ok by (simp add: fs_ok_def)
  have "inj_on (fname fs') (used_files fs')"
    unfolding u inj_on_def n using inj nm
    by (auto simp: inj_on_def image_iff split: if_splits)
  then show ok': "fs_ok fs'"
    using ok f(1) u i by (auto simp: fs_ok_def fs'_def insert_absorb)
  show "fs_view fs' = (fs_view fs)(cstr (f_name f) \<mapsto> take (f_size f) (f_data f))"
  proof
    fix m
    show "fs_view fs' m = ((fs_view fs)(cstr (f_name f) \<mapsto> take (f_size f) (f_data f))) m"
    proof (cases "m = cstr (f_name f)")
      case True
      then show ?thesis using fs_view_used [OF ok', of i] u n g by simp
    next
      case False
      have "fs_view fs' m = Some x \<longleftrightarrow> fs_view fs m = Some x" for x
        unfolding fs_view_Some_iff [OF ok'] fs_view_Some_iff [OF ok] u
        using False nm by (auto simp: n g split: if_splits)
      with False show ?thesis by (metis fun_upd_other not_None_eq)
    qed
  qed
qed

lemma fs_clear_slot:
  assumes ok: "fs_ok fs" and i: "i \<in> used_files fs"
  defines "fs' \<equiv> fs\<lparr>files := (files fs)(i := (files fs i)\<lparr>f_used := False\<rparr>),
     file_count := file_count fs - 1\<rparr>"
  shows "fs_ok fs'" "fs_view fs' = (fs_view fs)(fname fs i := None)"
proof -
  have u: "used_files fs' = used_files fs - {i}" by (auto simp: used_files_def fs'_def)
  have n: "fname fs' j = fname fs j" for j by (simp add: fname_def fs'_def)
  have g: "f_data (files fs' j) = f_data (files fs j)" "f_size (files fs' j) = f_size (files fs j)" for j
    by (simp_all add: fs'_def)
  have "0 < card (used_files fs)" using i by (auto simp: card_gt_0_iff)
  then show ok': "fs_ok fs'"
    using ok i u by (auto simp: fs_ok_def n inj_on_def file_ok_def) (auto simp: fs'_def)
  have inj: "inj_on (fname fs) (used_files fs)" using ok by (simp add: fs_ok_def)
  show "fs_view fs' = (fs_view fs)(fname fs i := None)"
  proof
    fix m
    have "fs_view fs' m = Some x \<longleftrightarrow> ((fs_view fs)(fname fs i := None)) m = Some x" for x
      unfolding fs_view_Some_iff [OF ok'] u
      using inj i fs_view_Some_iff [OF ok, of m x]
      by (auto simp: n g inj_on_def split: if_splits)
    then show "fs_view fs' m = ((fs_view fs)(fname fs i := None)) m" by (metis not_None_eq)
  qed
qed

section \<open>The operations on the abstract store\<close>

lemma fs_store_eq:
  assumes "file_ok f" "terminated data"
  defines "len \<equiv> min (length (cstr data)) 4095"
  shows "\<exists>f'. fs_store data f = Some f' \<and> length (f_data f') = 4096 \<and> f_data f' ! len = 0
     \<and> f_size f' = len \<and> take len (f_data f') = take 4095 (cstr data)
     \<and> f_name f' = f_name f \<and> f_used f' = f_used f \<and> f_exec f' = f_exec f"
proof -
  have l: "(if length (cstr data) \<ge> FS_MAX_DATA then FS_MAX_DATA - 1 else length (cstr data)) = len"
    by (auto simp: FS_MAX_DATA_def len_def)
  have le: "len \<le> length (cstr data)" "len \<le> 4095" "length (f_data f) = 4096"
    using assms(1) by (auto simp: len_def file_ok_def)
  have eq: "take 4095 (cstr data) = take len (cstr data)" by (simp add: len_def min_def)
  have tk: "take len data = take len (cstr data)"
    using le(1) by (subst terminated_split [OF assms(2)]) simp
  have "len \<le> length data" using le(1) cstr_length_le [of data] by simp
  then have "fs_store data f = Some (f\<lparr>f_data := take len (cstr data) @ 0 # drop (Suc len) (f_data f), f_size := len\<rparr>)"
    using assms(2) le by (simp add: fs_store_def kstrlen_eq l kmemcpy_eq tk blit_def)
  then show ?thesis using le by (simp add: nth_append eq)
qed

text \<open>What one \<^verbatim>\<open>fs_create\<close> does.\<close>

definition full :: "ramfs \<Rightarrow> bool" where
  "full fs \<longleftrightarrow> card (used_files fs) = FS_MAX_FILES"

lemma full_iff: "full fs \<longleftrightarrow> (\<forall>i < FS_MAX_FILES. f_used (files fs i))"
proof -
  have "used_files fs \<subseteq> {..<FS_MAX_FILES}" by (auto simp: used_files_def)
  then have "card (used_files fs) = FS_MAX_FILES \<longleftrightarrow> used_files fs = {..<FS_MAX_FILES}"
    by (metis card_lessThan card_subset_eq finite_lessThan)
  then show ?thesis by (auto simp: full_def used_files_def)
qed

lemma fs_create_correct:
  assumes ok: "fs_ok fs" and nm: "terminated name" "length (cstr name) < 64" and d: "terminated data"
  shows "\<exists>r fs'. fs_create name data exec fs = Some (r, fs') \<and> fs_ok fs' \<and>
     (if fs_view fs (cstr name) \<noteq> None \<or> full fs then r = -1 \<and> fs' = fs
      else r = 0 \<and> fs_view fs' = (fs_view fs)(cstr name \<mapsto> take 4095 (cstr data)))"
proof (cases "first_idx (\<lambda>i. f_used (files fs i) \<and> fname fs i = cstr name) 0 FS_MAX_FILES")
  case (Some j)
  then have "fs_view fs (cstr name) \<noteq> None" by (simp add: fs_view_def)
  moreover have "fs_create name data exec fs = Some (-1, fs)"
    by (simp add: fs_create_def fs_find_eq [OF ok nm(1)] Some)
  ultimately show ?thesis using ok by simp
next
  case None
  then have v: "fs_view fs (cstr name) = None" by (simp add: fs_view_def)
  show ?thesis
  proof (cases "first_idx (\<lambda>i. \<not> f_used (files fs i)) 0 FS_MAX_FILES")
    case None' : None
    then have "full fs" by (simp add: first_idx_None_iff full_iff)
    moreover have "fs_create name data exec fs = Some (-1, fs)"
      by (simp add: fs_create_def fs_find_eq [OF ok nm(1)] None None')
    ultimately show ?thesis using ok by simp
  next
    case (Some i)
    then have i: "i < FS_MAX_FILES" "\<not> f_used (files fs i)" using first_idx_SomeD by blast+
    then have fok: "file_ok (files fs i)" and nf: "\<not> full fs" and iu: "i \<notin> used_files fs"
      using ok by (auto simp: fs_ok_def full_iff used_files_def)
    then obtain b where b: "kstrcpy (f_name (files fs i)) name = Some b" "cstr b = cstr name"
      "length b = 64" "terminated b"
      using kstrcpy_defined [OF nm(1), of "f_name (files fs i)"] nm(2) kstrcpy_cstr
      by (fastforce simp: file_ok_def)
    let ?f = "(files fs i)\<lparr>f_name := b\<rparr>"
    have "file_ok ?f" using fok b i(2) by (simp add: file_ok_def)
    from fs_store_eq [OF this d] obtain f' where
      f': "fs_store data ?f = Some f'" "length (f_data f') = 4096" "f_size f' < 4096"
        "f_data f' ! f_size f' = 0" "f_name f' = b"
        "take (f_size f') (f_data f') = take 4095 (cstr data)" by auto
    let ?g = "f'\<lparr>f_used := True, f_exec := exec\<rparr>"
    have "file_ok ?g" using f' b by (simp add: file_ok_def)
    moreover have "cstr (f_name ?g) \<notin> fname fs ` used_files fs"
      using v b(2) f'(5) fs_view_None by auto
    ultimately have s: "fs_ok (fs\<lparr>files := (files fs)(i := ?g), file_count := file_count fs + 1\<rparr>)"
      "fs_view (fs\<lparr>files := (files fs)(i := ?g), file_count := file_count fs + 1\<rparr>)
         = (fs_view fs)(cstr name \<mapsto> take 4095 (cstr data))"
      using fs_set_slot [OF ok i(1), of ?g] iu b(2) f'(5,6) by simp_all
    moreover have "fs_create name data exec fs
        = Some (0, fs\<lparr>files := (files fs)(i := ?g), file_count := file_count fs + 1\<rparr>)"
      by (simp add: fs_create_def fs_find_eq [OF ok nm(1)] None Some b(1) f'(1))
    ultimately show ?thesis using v nf by simp
  qed
qed

lemma fs_write_correct:
  assumes ok: "fs_ok fs" and nm: "terminated name" "length (cstr name) < 64" and d: "terminated data"
  shows "\<exists>r fs'. fs_write name data fs = Some (r, fs') \<and> fs_ok fs' \<and>
     (if fs_view fs (cstr name) = None \<and> full fs then r = -1 \<and> fs' = fs
      else r = 0 \<and> fs_view fs' = (fs_view fs)(cstr name \<mapsto> take 4095 (cstr data)))"
proof (cases "first_idx (\<lambda>i. f_used (files fs i) \<and> fname fs i = cstr name) 0 FS_MAX_FILES")
  case None
  then have "fs_view fs (cstr name) = None" by (simp add: fs_view_def)
  with fs_create_correct [OF assms, of 0] show ?thesis
    by (simp add: fs_write_def fs_find_eq [OF ok nm(1)] None)
next
  case (Some i)
  note F = first_idx_SomeD [OF Some]
  then have iu: "i \<in> used_files fs" and fok: "file_ok (files fs i)" and v: "fs_view fs (cstr name) \<noteq> None"
    using ok Some by (auto simp: used_files_def fs_ok_def fs_view_def)
  from fs_store_eq [OF fok d] obtain f' where
    f': "fs_store data (files fs i) = Some f'" "length (f_data f') = 4096" "f_size f' < 4096"
      "f_data f' ! f_size f' = 0" "f_name f' = f_name (files fs i)" "f_used f'"
      "take (f_size f') (f_data f') = take 4095 (cstr data)" using F by auto
  have "file_ok f'" using f' fok F by (auto simp: file_ok_def)
  note s = fs_set_slot [OF ok F(2) this f'(6)]
  have "fs_ok (fs\<lparr>files := (files fs)(i := f')\<rparr>)"
    "fs_view (fs\<lparr>files := (files fs)(i := f')\<rparr>) = (fs_view fs)(cstr name \<mapsto> take 4095 (cstr data))"
    using s iu f'(5,7) F by (simp_all add: fname_def)
  moreover have "fs_write name data fs = Some (0, fs\<lparr>files := (files fs)(i := f')\<rparr>)"
    by (simp add: fs_write_def fs_find_eq [OF ok nm(1)] Some f'(1))
  ultimately show ?thesis using v by simp
qed

lemma fs_delete_correct:
  assumes ok: "fs_ok fs" and nm: "terminated name"
  shows "\<exists>r fs'. fs_delete name fs = Some (r, fs') \<and> fs_ok fs'
     \<and> fs_view fs' = (fs_view fs)(cstr name := None)
     \<and> r = (if fs_view fs (cstr name) = None then -1 else 0)"
proof (cases "first_idx (\<lambda>i. f_used (files fs i) \<and> fname fs i = cstr name) 0 FS_MAX_FILES")
  case None
  then have "fs_view fs (cstr name) = None" by (simp add: fs_view_def)
  then show ?thesis using ok
    by (simp add: fs_delete_def fs_find_eq [OF assms] None fun_upd_idem)
next
  case (Some i)
  note F = first_idx_SomeD [OF Some]
  then have iu: "i \<in> used_files fs" and v: "fs_view fs (cstr name) \<noteq> None"
    using Some by (auto simp: used_files_def fs_view_def)
  show ?thesis using fs_clear_slot [OF ok iu] F v
    by (simp add: fs_delete_def fs_find_eq [OF assms] Some)
qed

section \<open>The contract of a file store\<close>

text \<open>
  What a client of a store of named files relies on: a successful write makes the (truncated)
  data readable under its name, a removal makes the name unbound, and neither touches any
  other file.
\<close>

locale file_store =
  fixes ok :: "'s \<Rightarrow> bool"
    and view :: "'s \<Rightarrow> (bytes \<rightharpoonup> bytes)"
    and room :: "'s \<Rightarrow> bool"
    and name_ok :: "bytes \<Rightarrow> bool"
    and data_ok :: "bytes \<Rightarrow> bool"
    and trunc :: "bytes \<Rightarrow> bytes"
    and put :: "bytes \<Rightarrow> bytes \<Rightarrow> 's \<Rightarrow> (int \<times> 's) option"
    and remove :: "bytes \<Rightarrow> 's \<Rightarrow> (int \<times> 's) option"
  assumes put_law: "ok s \<Longrightarrow> name_ok n \<Longrightarrow> data_ok d \<Longrightarrow>
      \<exists>r s'. put n d s = Some (r, s') \<and> ok s' \<and>
        (if view s n = None \<and> \<not> room s then r = -1 \<and> s' = s
         else r = 0 \<and> view s' = (view s)(n \<mapsto> trunc d))"
    and remove_law: "ok s \<Longrightarrow> name_ok n \<Longrightarrow>
      \<exists>r s'. remove n s = Some (r, s') \<and> ok s' \<and> view s' = (view s)(n := None)
        \<and> r = (if view s n = None then -1 else 0)"
begin

lemma overwrite:
  assumes "ok s" "name_ok n" "data_ok d" "data_ok e" "put n d s = Some (0, s1)"
  shows "\<exists>s2. put n e s1 = Some (0, s2) \<and> ok s2 \<and> view s2 = (view s)(n \<mapsto> trunc e)"
proof -
  have s1: "ok s1" "view s1 = (view s)(n \<mapsto> trunc d)"
    using put_law [OF assms(1-3)] assms(5) by (auto split: if_splits)
  from put_law [OF s1(1) assms(2,4)] s1(2) show ?thesis by auto
qed

lemma put_remove:
  assumes "ok s" "name_ok n" "data_ok d" "put n d s = Some (0, s1)"
  shows "\<exists>s2. remove n s1 = Some (0, s2) \<and> ok s2 \<and> view s2 = (view s)(n := None)"
proof -
  have s1: "ok s1" "view s1 = (view s)(n \<mapsto> trunc d)"
    using put_law [OF assms(1-3)] assms(4) by (auto split: if_splits)
  from remove_law [OF s1(1) assms(2)] s1(2) show ?thesis by auto
qed

end

definition ram_name_ok :: "bytes \<Rightarrow> bool" where
  "ram_name_ok n \<longleftrightarrow> 0 \<notin> set n \<and> length n < 64"

interpretation ram: file_store fs_ok fs_view "\<lambda>fs. \<not> full fs" ram_name_ok "\<lambda>d. 0 \<notin> set d"
  "take 4095" "\<lambda>n d. fs_write (n @ [0]) (d @ [0])" "\<lambda>n. fs_delete (n @ [0])"
proof unfold_locales
  fix s and n d :: bytes assume a: "fs_ok s" "ram_name_ok n" "0 \<notin> set d"
  then have c: "cstr (n @ [0]) = n" "cstr (d @ [0]) = d" by (simp_all add: ram_name_ok_def)
  show "\<exists>r s'. fs_write (n @ [0]) (d @ [0]) s = Some (r, s') \<and> fs_ok s' \<and>
      (if fs_view s n = None \<and> \<not> \<not> full s then r = - 1 \<and> s' = s
       else r = 0 \<and> fs_view s' = (fs_view s)(n \<mapsto> take 4095 d))"
    unfolding not_not
    by (rule fs_write_correct [of s "n @ [0]" "d @ [0]", unfolded c])
      (use a in \<open>simp_all add: ram_name_ok_def\<close>)
next
  fix s n assume "fs_ok s" "ram_name_ok n"
  then show "\<exists>r s'. fs_delete (n @ [0]) s = Some (r, s') \<and> fs_ok s'
      \<and> fs_view s' = (fs_view s)(n := None) \<and> r = (if fs_view s n = None then - 1 else 0)"
    using fs_delete_correct [of s "n @ [0]"] by (simp add: ram_name_ok_def)
qed

section \<open>Properties\<close>

lemma fs_empty_ok: "fs_ok \<lparr>files = (\<lambda>_. fs_file_zero), file_count = 0\<rparr>"
  "fs_view \<lparr>files = (\<lambda>_. fs_file_zero), file_count = 0\<rparr> = Map.empty"
proof -
  have u: "used_files \<lparr>files = (\<lambda>_. fs_file_zero), file_count = 0\<rparr> = {}"
    by (simp add: used_files_def fs_file_zero_def)
  show "fs_ok \<lparr>files = (\<lambda>_. fs_file_zero), file_count = 0\<rparr>"
    unfolding fs_ok_def u by (simp add: file_ok_def fs_file_zero_def FS_MAX_NAME_def FS_MAX_DATA_def)
  show "fs_view \<lparr>files = (\<lambda>_. fs_file_zero), file_count = 0\<rparr> = Map.empty"
    by (rule ext) (simp add: fs_view_None u)
qed



text \<open>
  \<^verbatim>\<open>fs_init\<close> stays inside its buffers, and afterwards the store holds exactly the
  three built-in files.
\<close>

theorem fs_init_files:
  "\<exists>fs. fs_init = Some fs \<and> fs_ok fs \<and> dom (fs_view fs) =
     {map of_char ''readme.txt'', map of_char ''motd.txt'', map of_char ''hello.sh''}
     \<and> file_count fs = 3"
proof -
  let ?n1 = "lit ''readme.txt''" and ?n2 = "lit ''motd.txt''" and ?n3 = "lit ''hello.sh''"
  let ?fs0 = "\<lparr>files = (\<lambda>_. fs_file_zero), file_count = 0\<rparr>"
  have t: "terminated readme_txt" "terminated motd_txt" "terminated hello_sh"
    by (simp_all add: readme_txt_def motd_txt_def hello_sh_def lit_lines_def)
  have l: "length (cstr ?n1) < 64" "length (cstr ?n2) < 64" "length (cstr ?n3) < 64"
    and ne: "cstr ?n1 \<noteq> cstr ?n2" "cstr ?n1 \<noteq> cstr ?n3" "cstr ?n2 \<noteq> cstr ?n3"
    by (simp_all add: lit_def)
  have cnt: "full fs \<longleftrightarrow> file_count fs = 32" if "fs_ok fs" for fs
    using that by (simp add: full_def fs_ok_def FS_MAX_FILES_def)
  have cd: "file_count fs = int (card (dom (fs_view fs)))" if ok: "fs_ok fs" for fs
  proof -
    have "dom (fs_view fs) = fname fs ` used_files fs" unfolding dom_def fs_view_None by auto
    then show ?thesis using ok by (simp add: fs_ok_def card_image)
  qed
  obtain fs1 where 1: "fs_create ?n1 readme_txt 0 ?fs0 = Some (0, fs1)" "fs_ok fs1"
    "dom (fs_view fs1) = {cstr ?n1}"
    using fs_create_correct [OF fs_empty_ok(1) terminated_lit l(1) t(1), of 0]
    by (auto simp: fs_empty_ok cnt [OF fs_empty_ok(1)])
  then have "cstr ?n2 \<notin> dom (fs_view fs1)" "\<not> full fs1" using ne by (auto simp: cnt cd)
  then have "fs_view fs1 (cstr ?n2) = None" "\<not> full fs1" by blast+
  then obtain fs2 where 2: "fs_create ?n2 motd_txt 0 fs1 = Some (0, fs2)" "fs_ok fs2"
    "dom (fs_view fs2) = {cstr ?n2, cstr ?n1}"
    using fs_create_correct [OF 1(2) terminated_lit l(2) t(2), of 0] 1(3) by auto
  then have "cstr ?n3 \<notin> dom (fs_view fs2)" "\<not> full fs2" using ne by (auto simp: cnt cd)
  then have "fs_view fs2 (cstr ?n3) = None" "\<not> full fs2" by blast+
  then obtain fs3 where 3: "fs_create ?n3 hello_sh 1 fs2 = Some (0, fs3)" "fs_ok fs3"
    "dom (fs_view fs3) = {cstr ?n3, cstr ?n2, cstr ?n1}"
    using fs_create_correct [OF 2(2) terminated_lit l(3) t(3), of 1] 2(3) by auto
  have "file_count fs3 = 3" using cd [OF 3(2)] 3(3) ne by simp
  moreover have "fs_init = Some fs3" by (simp add: fs_init_def 1(1) 2(1) 3(1))
  moreover have "cstr ?n1 = map of_char ''readme.txt''" "cstr ?n2 = map of_char ''motd.txt''"
    "cstr ?n3 = map of_char ''hello.sh''" by (simp_all add: lit_def)
  ultimately show ?thesis using 3(2,3) by auto
qed

end
