(* ===== verification/Users.thy ===== *)
theory Users
  imports Vga
begin

text \<open>
  User accounts, \<^verbatim>\<open>src/users.c\<close>: a table of at most eight users with hashed passwords,
  and the id of the current user.
\<close>

section \<open>State and operations\<close>

definition USER_MAX :: int where "USER_MAX = 8"
definition USER_NAME_LEN :: nat where "USER_NAME_LEN = 16"
definition USER_PASS_LEN :: nat where "USER_PASS_LEN = 32"
definition USER_HOME_LEN :: nat where "USER_HOME_LEN = 32"

record user_t =
  u_name :: bytes
  u_pass_hash :: bytes
  u_uid :: u32
  u_home :: bytes
  u_is_root :: int
  u_active :: int

record users =
  us_users :: "nat \<Rightarrow> user_t"
  us_current_uid :: int
  us_num :: int

definition user_zero :: user_t where
  "user_zero = \<lparr>u_name = replicate USER_NAME_LEN 0, u_pass_hash = replicate USER_PASS_LEN 0, u_uid = 0,
     u_home = replicate USER_HOME_LEN 0, u_is_root = 0, u_active = 0\<rparr>"

text \<open>\<^verbatim>\<open>(uint32_t)*s\<close> sign-extends the \<^verbatim>\<open>char\<close>.\<close>

fun simple_hash_loop :: "bytes \<Rightarrow> u32 \<Rightarrow> u32 option" where
  "simple_hash_loop [] h = None"
| "simple_hash_loop (c # cs) h =
     (if c = 0 then Some h else simple_hash_loop cs ((push_bit 5 h + h) XOR scast c))"

definition simple_hash :: "bytes \<Rightarrow> u32 option" where
  "simple_hash s = simple_hash_loop s 5381"

text \<open>The eight digits from \<^verbatim>\<open>out[7]\<close> down to \<^verbatim>\<open>out[0]\<close>, and the NUL.\<close>

definition hash_digits :: "u32 \<Rightarrow> bytes" where
  "hash_digits h = map (\<lambda>k. hexl_dig (drop_bit (4 * (7 - k)) h)) [0..<8] @ [0]"

definition hash_to_str :: "u32 \<Rightarrow> bytes \<Rightarrow> bytes option" where
  "hash_to_str h out = blit out 0 (hash_digits h)"

definition users_add :: "bytes \<Rightarrow> bytes \<Rightarrow> int \<Rightarrow> users \<Rightarrow> (int \<times> users) option" where
  "users_add name pass is_root us =
     (if us_num us \<ge> USER_MAX then Some (-1, us)
      else do {
        let i = nat (us_num us);
        let u = us_users us i;
        nm \<leftarrow> kstrncpy (u_name u) name (USER_NAME_LEN - 1);
        h \<leftarrow> simple_hash pass;
        ph \<leftarrow> hash_to_str h (u_pass_hash u);
        hm \<leftarrow> kstrcpy (u_home u) (lit ''/disk'');
        let u' = u\<lparr>u_name := nm, u_pass_hash := ph, u_uid := of_int (us_num us),
                  u_is_root := is_root, u_active := 1, u_home := hm\<rparr>;
        Some (sint (u_uid u'), us\<lparr>us_users := (us_users us)(i := u'), us_num := us_num us + 1\<rparr>) })"

definition users_init :: "users \<Rightarrow> users option" where
  "users_init us = do {
     let us0 = us\<lparr>us_users := (\<lambda>_. user_zero), us_num := 0, us_current_uid := 0\<rparr>;
     (_, us1) \<leftarrow> users_add (lit ''root'') (lit ''kumos'') 1 us0;
     (_, us2) \<leftarrow> users_add (lit ''user'') (lit ''user'') 0 us1;
     (_, us3) \<leftarrow> users_add (lit ''guest'') (lit '''') 0 us2;
     Some us3 }"

text \<open>The first active user with the name decides.\<close>

definition users_check_pass :: "bytes \<Rightarrow> bytes \<Rightarrow> users \<Rightarrow> int option" where
  "users_check_pass name pass us = do {
     f \<leftarrow> scan (\<lambda>i. if u_active (us_users us i) = 0 then Some False
                    else map_option (\<lambda>r. r = 0) (kstrcmp (u_name (us_users us i)) name))
            0 (nat (us_num us));
     case f of
       None \<Rightarrow> Some (-1)
     | Some i \<Rightarrow> do {
         h \<leftarrow> simple_hash pass;
         hs \<leftarrow> hash_to_str h (replicate 9 0);
         c \<leftarrow> kstrcmp hs (u_pass_hash (us_users us i));
         Some (if c = 0 then sint (u_uid (us_users us i)) else -1) } }"

definition users_login :: "bytes \<Rightarrow> bytes \<Rightarrow> users \<Rightarrow> (int \<times> users) option" where
  "users_login name pass us = do {
     uid \<leftarrow> users_check_pass name pass us;
     Some (uid, if uid \<ge> 0 then us\<lparr>us_current_uid := uid\<rparr> else us) }"

definition users_get_current :: "users \<Rightarrow> nat" where
  "users_get_current us =
     (case first_idx (\<lambda>i. u_active (us_users us i) \<noteq> 0
              \<and> sint (u_uid (us_users us i)) = us_current_uid us) 0 (nat (us_num us)) of
        None \<Rightarrow> 0 | Some i \<Rightarrow> i)"

definition users_set_current :: "int \<Rightarrow> users \<Rightarrow> users" where
  "users_set_current uid us = us\<lparr>us_current_uid := uid\<rparr>"

definition users_list_entry :: "user_t \<Rightarrow> vga \<Rightarrow> vga option" where
  "users_list_entry u v =
     (if u_active u = 0 then Some v
      else do {
        v1 \<leftarrow> vga_put_dec (u_uid u) v;
        v2 \<leftarrow> vga_puts (lit ''    '') v1;
        v3 \<leftarrow> vga_puts (u_name u) v2;
        n \<leftarrow> kstrlen (u_name u);
        let v4 = (vga_putchar (of_char CHR '' '') ^^ nat (10 - int n)) v3;
        v5 \<leftarrow> vga_puts (if u_is_root u \<noteq> 0 then lit ''yes   '' else lit ''no    '') v4;
        v6 \<leftarrow> vga_puts (u_home u) v5;
        Some (vga_putchar 10 v6) })"

fun users_list_loop :: "users \<Rightarrow> nat list \<Rightarrow> vga \<Rightarrow> vga option" where
  "users_list_loop us [] v = Some v"
| "users_list_loop us (i # is) v = do { v' \<leftarrow> users_list_entry (us_users us i) v; users_list_loop us is v' }"

definition users_list :: "users \<Rightarrow> vga \<Rightarrow> vga option" where
  "users_list us v = do {
     v1 \<leftarrow> vga_puts (lit_lines ['''', ''  UID  NAME      ROOT  HOME'', ''''])
             (vga_set_color VGA_YELLOW VGA_BLACK v);
     v2 \<leftarrow> users_list_loop us [0..<nat (us_num us)] (vga_set_color VGA_WHITE VGA_BLACK v1);
     Some (vga_putchar 10 v2) }"

section \<open>The password hash as text\<close>

lemma nibble_and: "unat ((w :: u32) AND 0xF) = unat w mod 16"
proof -
  have "w AND 0xF = take_bit 4 w" by (simp add: take_bit_eq_mask mask_eq_exp_minus_1)
  then show ?thesis by (simp add: take_bit_eq_mod unat_mod)
qed

lemma hexl_all: "list_all (\<lambda>(i, j). lit ''0123456789abcdef'' ! i = lit ''0123456789abcdef'' ! j \<longrightarrow> i = j)
    (List.product [0..<16] [0..<16])"
  by code_simp

lemma hexl_nonzero: "list_all (\<lambda>i. lit ''0123456789abcdef'' ! i \<noteq> 0) [0..<16]"
  by code_simp

lemma hexl_dig_inj: "hexl_dig a = hexl_dig b \<longleftrightarrow> unat a mod 16 = unat b mod 16"
proof -
  have "i = j" if "lit ''0123456789abcdef'' ! i = lit ''0123456789abcdef'' ! j" "i < 16" "j < 16" for i j
    using hexl_all that by (auto simp: list_all_iff)
  then show ?thesis by (auto simp: hexl_dig_def nibble_and)
qed

lemma hexl_dig_nz: "hexl_dig a \<noteq> 0"
  using hexl_nonzero by (simp add: hexl_dig_def nibble_and list_all_iff)

lemma nibbles_eq:
  assumes "\<And>k. k < 8 \<Longrightarrow> (a div 16 ^ k) mod 16 = (b div 16 ^ k) mod (16 :: nat)" "a < 16 ^ 8" "b < 16 ^ 8"
  shows "a = b"
proof -
  have "n \<le> 8 \<Longrightarrow> a mod 16 ^ n = b mod 16 ^ n" for n
  proof (induction n)
    case (Suc n)
    have "x mod 16 ^ Suc n = 16 ^ n * (x div 16 ^ n mod 16) + x mod 16 ^ n" for x :: nat
      by (simp only: power_Suc2 mod_mult2_eq)
    with Suc assms(1) [of n] show ?case by simp
  qed simp
  from this [of 8] assms(2,3) show ?thesis by simp
qed

lemma hash_digits_inj: "hash_digits a = hash_digits b \<longleftrightarrow> a = b"
proof
  assume "hash_digits a = hash_digits b"
  then have m: "hexl_dig (drop_bit (4 * (7 - k)) a) = hexl_dig (drop_bit (4 * (7 - k)) b)" if "k < 8" for k
    using that by (auto simp: hash_digits_def)
  have "(unat a div 16 ^ k) mod 16 = (unat b div 16 ^ k) mod 16" if "k < 8" for k
  proof -
    have "7 - (7 - k) = k" using that by simp
    then have "hexl_dig (drop_bit (4 * k) a) = hexl_dig (drop_bit (4 * k) b)" using m [of "7 - k"] by simp
    moreover have "unat (drop_bit (4 * k) w) = unat w div 16 ^ k" for w :: u32
      by (subst unat_drop_bit_eq) (simp add: drop_bit_eq_div power_mult)
    ultimately show ?thesis by (simp only: hexl_dig_inj)
  qed
  then show "a = b"
    using nibbles_eq [of "unat a" "unat b"] unat_u32_lt [of a] unat_u32_lt [of b]
    by (simp add: word_unat_eq_iff)
qed simp

lemma hash_digits_cstr: "length (hash_digits h) = 9" "cstr (hash_digits h @ r) = butlast (hash_digits h)"
  "terminated (hash_digits h @ r)"
proof -
  define ds where "ds = map (\<lambda>k. hexl_dig (drop_bit (4 * (7 - k)) h)) [0..<8]"
  have "0 \<notin> set ds"
    unfolding ds_def using hexl_dig_nz by (metis (no_types, lifting) imageE set_map)
  then show "cstr (hash_digits h @ r) = butlast (hash_digits h)"
    unfolding hash_digits_def ds_def [symmetric] by simp
qed (simp_all add: hash_digits_def)

lemma simple_hash_loop_eq:
  "terminated s \<Longrightarrow> simple_hash_loop s h = Some (foldl (\<lambda>h c. (push_bit 5 h + h) XOR scast c) h (cstr s))"
  by (induction s h rule: simple_hash_loop.induct) auto

definition pass_hash :: "bytes \<Rightarrow> u32" where
  "pass_hash p = foldl (\<lambda>h c. (push_bit 5 h + h) XOR scast c) 5381 p"

lemma simple_hash_eq: "terminated s \<Longrightarrow> simple_hash s = Some (pass_hash (cstr s))"
  by (simp add: simple_hash_def simple_hash_loop_eq pass_hash_def)

section \<open>Accounts\<close>

text \<open>
  An account as the login sees it: name, password hash, id. The invariant says that every slot
  has its buffers, and that the slots in use are active, have a NUL in the name and hold the
  text of some hash.
\<close>

definition slot_ok :: "user_t \<Rightarrow> bool" where
  "slot_ok u \<longleftrightarrow> length (u_name u) = 16 \<and> u_name u ! 15 = 0 \<and> length (u_pass_hash u) = 32
     \<and> length (u_home u) = 32"

definition holds_hash :: "user_t \<Rightarrow> u32 \<Rightarrow> bool" where
  "holds_hash u h \<longleftrightarrow> (\<exists>r. u_pass_hash u = hash_digits h @ r)"

definition users_ok :: "users \<Rightarrow> bool" where
  "users_ok us \<longleftrightarrow> 0 \<le> us_num us \<and> us_num us \<le> USER_MAX \<and> (\<forall>i < 8. slot_ok (us_users us i))
     \<and> (\<forall>i < nat (us_num us). u_active (us_users us i) = 1 \<and> u_uid (us_users us i) = of_nat i
          \<and> (\<exists>h. holds_hash (us_users us i) h))"

definition find_user :: "users \<Rightarrow> bytes \<Rightarrow> nat option" where
  "find_user us n = first_idx (\<lambda>i. cstr (u_name (us_users us i)) = n) 0 (nat (us_num us))"

lemma slot_ok_terminated: "slot_ok u \<Longrightarrow> terminated (u_name u)"
  using nth_mem [of 15 "u_name u"] by (simp add: slot_ok_def terminated_def)

lemma holds_hash_cmp:
  assumes "holds_hash u g"
  shows "\<exists>c. kstrcmp (hash_digits h) (u_pass_hash u) = Some c \<and> (c = 0 \<longleftrightarrow> holds_hash u h)"
proof -
  obtain r where r: "u_pass_hash u = hash_digits g @ r" using assms by (auto simp: holds_hash_def)
  have t: "terminated (hash_digits h)" "cstr (hash_digits h) = butlast (hash_digits h)" for h
    using hash_digits_cstr(2,3) [of h "[]"] by simp_all
  have "butlast (hash_digits h) = butlast (hash_digits g) \<longleftrightarrow> h = g"
    using hash_digits_inj [of h g] by (simp add: hash_digits_def)
  moreover have "holds_hash u h \<longleftrightarrow> h = g"
    using hash_digits_inj [of h g] hash_digits_cstr(1) by (auto simp: holds_hash_def r append_eq_append_conv)
  ultimately show ?thesis
    using kstrcmp_defined [of "hash_digits h" "u_pass_hash u"]
      kstrcmp_eq_iff [of "hash_digits h" "u_pass_hash u"] t hash_digits_cstr(2,3) [of g r] r by auto
qed

lemma users_check_pass_eq:
  assumes ok: "users_ok us" and t: "terminated name" "terminated pass"
  shows "users_check_pass name pass us = Some (case find_user us (cstr name) of
     None \<Rightarrow> -1
   | Some i \<Rightarrow> if holds_hash (us_users us i) (pass_hash (cstr pass)) then int i else -1)"
proof -
  have sl: "slot_ok (us_users us i)" "u_active (us_users us i) = 1" "u_uid (us_users us i) = of_nat i"
    "\<exists>h. holds_hash (us_users us i) h" if "i < nat (us_num us)" for i
    using ok that by (auto simp: users_ok_def USER_MAX_def)
  have sc: "scan (\<lambda>i. if u_active (us_users us i) = 0 then Some False
        else map_option (\<lambda>r. r = 0) (kstrcmp (u_name (us_users us i)) name)) 0 (nat (us_num us))
      = Some (find_user us (cstr name))"
    unfolding find_user_def
  proof (rule scan_defined)
    fix i assume "i < nat (us_num us)"
    with sl have "terminated (u_name (us_users us i))" "u_active (us_users us i) = 1"
      using slot_ok_terminated by auto
    then show "(if u_active (us_users us i) = 0 then Some False
        else map_option (\<lambda>r. r = 0) (kstrcmp (u_name (us_users us i)) name))
        = Some (cstr (u_name (us_users us i)) = cstr name)"
      using kstrcmp_defined [of "u_name (us_users us i)" name] kstrcmp_eq_iff [of "u_name (us_users us i)" name] t
      by auto
  qed
  have hs: "hash_to_str h (replicate 9 0) = Some (hash_digits h)" for h
    by (simp add: hash_to_str_def blit_def hash_digits_cstr)
  show ?thesis
  proof (cases "find_user us (cstr name)")
    case None
    then show ?thesis by (simp add: users_check_pass_def sc)
  next
    case (Some i)
    then have i: "i < nat (us_num us)" using first_idx_SomeD(2) by (fastforce simp: find_user_def)
    moreover from i ok have "i < 8" by (auto simp: users_ok_def USER_MAX_def)
    then have "sint (of_nat i :: u32) = int i" using c_int_small [of i] by (simp add: c_int_def)
    moreover obtain c where "kstrcmp (hash_digits (pass_hash (cstr pass))) (u_pass_hash (us_users us i)) = Some c"
      "c = 0 \<longleftrightarrow> holds_hash (us_users us i) (pass_hash (cstr pass))"
      using sl(4) [OF i] holds_hash_cmp by blast
    ultimately show ?thesis
      using Some sl(3) [OF i] by (simp add: users_check_pass_def sc simple_hash_eq [OF t(2)] hs)
  qed
qed

text \<open>A new account: the name cut to 15 characters, the id of the next slot.\<close>

lemma users_add_correct:
  assumes ok: "users_ok us" and t: "terminated name" "terminated pass"
  shows "\<exists>r us'. users_add name pass is_root us = Some (r, us') \<and> users_ok us' \<and>
     (if us_num us = 8 then r = -1 \<and> us' = us
      else r = us_num us \<and> us_num us' = us_num us + 1
         \<and> cstr (u_name (us_users us' (nat r))) = take 15 (cstr name)
         \<and> holds_hash (us_users us' (nat r)) (pass_hash (cstr pass))
         \<and> (\<forall>j. j \<noteq> nat r \<longrightarrow> us_users us' j = us_users us j))"
proof (cases "us_num us = 8")
  case True
  then show ?thesis using ok by (simp add: users_add_def USER_MAX_def)
next
  case False
  let ?i = "nat (us_num us)" and ?u = "us_users us (nat (us_num us))"
  have n: "0 \<le> us_num us" "us_num us < 8" "?i < 8" using ok False by (auto simp: users_ok_def USER_MAX_def)
  then have sl: "slot_ok ?u" using ok by (simp add: users_ok_def)
  let ?nm = "take 15 (cstr name) @ replicate (15 - length (cstr name)) 0 @ drop 15 (u_name ?u)"
  have nm: "kstrncpy (u_name ?u) name (USER_NAME_LEN - Suc 0) = Some ?nm"
    using sl by (simp add: kstrncpy_eq [OF t(1)] USER_NAME_LEN_def slot_ok_def)
  have d: "drop 15 (u_name ?u) = [0]"
    using sl by (intro nth_equalityI) (auto simp: slot_ok_def)
  have nmc: "length ?nm = 16" "?nm ! 15 = 0" "cstr ?nm = take 15 (cstr name)"
  proof -
    show "length ?nm = 16" "?nm ! 15 = 0" using d by (auto simp: nth_append)
    obtain z where z: "replicate (15 - length (cstr name)) (0::u8) @ drop 15 (u_name ?u) = 0 # z"
      using d by (cases "15 - length (cstr name)") auto
    have "0 \<notin> set (take 15 (cstr name))" using cstr_nonzero in_set_takeD by fastforce
    then show "cstr ?nm = take 15 (cstr name)" unfolding z by simp
  qed
  let ?ph = "hash_digits (pass_hash (cstr pass)) @ drop 9 (u_pass_hash ?u)"
  have ph: "hash_to_str (pass_hash (cstr pass)) (u_pass_hash ?u) = Some ?ph" "length ?ph = 32"
    using sl by (auto simp: hash_to_str_def blit_def hash_digits_cstr slot_ok_def)
  obtain hm where hm: "kstrcpy (u_home ?u) (lit ''/disk'') = Some hm" "length hm = 32"
    using sl by (auto simp: kstrcpy_eq lit_def slot_ok_def)
  define nm' ph' where d': "nm' = ?nm" "ph' = ?ph"
  let ?u' = "?u\<lparr>u_name := nm', u_pass_hash := ph', u_uid := of_int (us_num us),
      u_is_root := is_root, u_active := 1, u_home := hm\<rparr>"
  let ?us' = "us\<lparr>us_users := (us_users us)(?i := ?u'), us_num := us_num us + 1\<rparr>"
  have uid: "(of_int (us_num us) :: u32) = of_nat ?i" using n(1) by (metis of_int_of_nat_eq int_nat_eq)
  have "sint (of_nat ?i :: u32) = us_num us" using c_int_small [of ?i] n by (simp add: c_int_def)
  then have si: "sint (of_int (us_num us) :: u32) = us_num us" by (simp only: uid)
  have hh: "holds_hash ?u' (pass_hash (cstr pass))" by (simp add: holds_hash_def d')
  moreover have "slot_ok ?u'"
    using nmc(1,2) ph(2) hm(2) unfolding d' [symmetric] by (simp add: slot_ok_def)
  moreover have old: "u_active (us_users us j) = 1 \<and> u_uid (us_users us j) = of_nat j
      \<and> (\<exists>h. holds_hash (us_users us j) h)" if "j < ?i" for j
    using ok that by (simp add: users_ok_def)
  have "nat (us_num us + 1) = Suc ?i" using n(1) by simp
  then have "users_ok ?us'"
    using ok n(1,2) uid old calculation unfolding users_ok_def
    by (simp add: USER_MAX_def less_Suc_eq) blast
  moreover have "users_add name pass is_root us = Some (us_num us, ?us')"
    using n(1,2) by (simp add: users_add_def USER_MAX_def Let_def nm simple_hash_eq [OF t(2)] ph(1) hm(1) si d')
  ultimately show ?thesis using nmc(3) False hh unfolding d' [symmetric] by simp
qed

section \<open>Properties\<close>

text \<open>
  A login succeeds exactly when the first account with that name holds the hash of the
  password: then it returns the id of that account, which becomes the current user; otherwise
  it returns -1 and the current user stays. A user that \<^verbatim>\<open>users_add\<close> has just created
  under a new name of at most 15 characters can log in with the password given.
\<close>

theorem users_login_spec:
  assumes "users_ok us" "terminated name" "terminated pass"
  shows "users_login name pass us = Some (case find_user us (cstr name) of
      None \<Rightarrow> (-1, us)
    | Some i \<Rightarrow> if holds_hash (us_users us i) (pass_hash (cstr pass))
                then (int i, us\<lparr>us_current_uid := int i\<rparr>) else (-1, us))"
  using users_check_pass_eq [OF assms] by (auto simp: users_login_def split: option.splits)

definition users_empty :: users where
  "users_empty = \<lparr>us_users = (\<lambda>_. user_zero), us_current_uid = 0, us_num = 0\<rparr>"

lemma users_empty_ok: "users_ok users_empty"
  by (simp add: users_empty_def users_ok_def user_zero_def slot_ok_def USER_MAX_def USER_NAME_LEN_def
      USER_PASS_LEN_def USER_HOME_LEN_def)

lemma users_login_spec_witness:
  "users_login (lit ''root'') (lit ''kumos'') users_empty = Some (-1, users_empty)"
  using users_login_spec [OF users_empty_ok, of "lit ''root''" "lit ''kumos''"]
  by (simp add: find_user_def users_empty_def first_idx_def)

text \<open>
  An account that \<^verbatim>\<open>users_add\<close> has just created under a new name of at most 15
  characters can log in with the password it was given, and becomes the current user.
\<close>

theorem users_add_then_login:
  assumes "users_ok us" "terminated name" "terminated pass"
    and "us_num us < 8" "find_user us (cstr name) = None" "length (cstr name) \<le> 15"
  shows "\<exists>us'. users_add name pass is_root us = Some (us_num us, us') \<and> users_ok us'
     \<and> users_login name pass us' = Some (us_num us, us'\<lparr>us_current_uid := us_num us\<rparr>)"
proof -
  obtain us' where us': "users_add name pass is_root us = Some (us_num us, us')" "users_ok us'"
    "us_num us' = us_num us + 1" "cstr (u_name (us_users us' (nat (us_num us)))) = cstr name"
    "holds_hash (us_users us' (nat (us_num us))) (pass_hash (cstr pass))"
    "\<And>j. j \<noteq> nat (us_num us) \<Longrightarrow> us_users us' j = us_users us j"
    using users_add_correct [OF assms(1-3), of is_root] assms(4,6) by auto
  have p: "0 \<le> us_num us" using assms(1) by (simp add: users_ok_def)
  have "find_user us' (cstr name) = Some (nat (us_num us))"
    unfolding find_user_def
  proof (rule first_idx_eqI)
    fix j assume "j < nat (us_num us)"
    then show "cstr (u_name (us_users us' j)) \<noteq> cstr name"
      using assms(5) us'(6) [of j] by (simp add: find_user_def first_idx_None_iff)
  qed (use us' p in auto)
  with users_check_pass_eq [OF us'(2) assms(2,3)] us' p show ?thesis by (simp add: users_login_def)
qed

lemma users_add_then_login_witness:
  "\<exists>us'. users_add (lit ''ann'') (lit ''pw'') 0 users_empty = Some (0, us')
     \<and> users_login (lit ''ann'') (lit ''pw'') us' = Some (0, us'\<lparr>us_current_uid := 0\<rparr>)"
  using users_add_then_login [OF users_empty_ok, of "lit ''ann''" "lit ''pw''" 0]
  by (auto simp: users_empty_def find_user_def first_idx_def lit_def)

text \<open>
  After \<^verbatim>\<open>users_init\<close> the three built-in accounts exist with the passwords of the
  source: root, user and guest log in as ids 0, 1 and 2, and nobody else does.
\<close>

theorem users_init_accounts:
  "\<exists>us'. users_init us = Some us' \<and> users_ok us' \<and> us_num us' = 3
     \<and> users_check_pass (lit ''root'') (lit ''kumos'') us' = Some 0
     \<and> users_check_pass (lit ''user'') (lit ''user'') us' = Some 1
     \<and> users_check_pass (lit ''guest'') (lit '''') us' = Some 2
     \<and> find_user us' = (\<lambda>n. if n = map of_char ''root'' then Some 0 else if n = map of_char ''user'' then Some 1
          else if n = map of_char ''guest'' then Some 2 else None)"
proof -
  let ?us0 = "us\<lparr>us_users := (\<lambda>_. user_zero), us_num := 0, us_current_uid := 0\<rparr>"
  have ok0: "users_ok ?us0"
    by (simp add: users_ok_def user_zero_def slot_ok_def USER_MAX_def USER_NAME_LEN_def
        USER_PASS_LEN_def USER_HOME_LEN_def)
  obtain us1 where 1: "users_add (lit ''root'') (lit ''kumos'') 1 ?us0 = Some (0, us1)" "users_ok us1"
    "us_num us1 = 1" "cstr (u_name (us_users us1 0)) = take 15 (cstr (lit ''root''))"
    "holds_hash (us_users us1 0) (pass_hash (cstr (lit ''kumos'')))"
    using users_add_correct [OF ok0, of "lit ''root''" "lit ''kumos''" 1] by auto
  obtain us2 where 2: "users_add (lit ''user'') (lit ''user'') 0 us1 = Some (1, us2)" "users_ok us2"
    "us_num us2 = 2" "cstr (u_name (us_users us2 1)) = take 15 (cstr (lit ''user''))"
    "holds_hash (us_users us2 1) (pass_hash (cstr (lit ''user'')))"
    "us_users us2 0 = us_users us1 0"
    using users_add_correct [OF 1(2), of "lit ''user''" "lit ''user''" 0] 1(3) by auto
  obtain us3 where 3: "users_add (lit ''guest'') (lit '''') 0 us2 = Some (2, us3)" "users_ok us3"
    "us_num us3 = 3" "cstr (u_name (us_users us3 2)) = take 15 (cstr (lit ''guest''))"
    "holds_hash (us_users us3 2) (pass_hash (cstr (lit '''')))"
    "us_users us3 0 = us_users us2 0" "us_users us3 1 = us_users us2 1"
    using users_add_correct [OF 2(2), of "lit ''guest''" "lit ''''" 0] 2(3) by auto
  have nm: "cstr (u_name (us_users us3 0)) = map of_char ''root''"
    "cstr (u_name (us_users us3 (Suc 0))) = map of_char ''user''"
    "cstr (u_name (us_users us3 2)) = map of_char ''guest''"
    using 1(4) 2(4,6) 3(4,6,7) by (simp_all add: lit_def)
  have f: "find_user us3 n = (if n = map of_char ''root'' then Some 0 else if n = map of_char ''user'' then Some 1
      else if n = map of_char ''guest'' then Some 2 else None)" for n
  proof -
    have "[0..<3] = [0, 1, 2]" by code_simp
    then show ?thesis using nm 3(3) by (auto simp: find_user_def first_idx_def)
  qed
  have "users_init us = Some us3" by (simp add: users_init_def 1(1) 2(1) 3(1))
  moreover have "holds_hash (us_users us3 0) (pass_hash (cstr (lit ''kumos'')))"
    "holds_hash (us_users us3 1) (pass_hash (cstr (lit ''user'')))"
    using 1(5) 2(5,6) 3(6,7) by simp_all
  moreover have "cstr (lit ''root'') = map of_char ''root''" "cstr (lit ''user'') = map of_char ''user''"
    "cstr (lit ''guest'') = map of_char ''guest''" by (simp_all add: lit_def)
  ultimately show ?thesis using 3(2,3,5) by (simp add: users_check_pass_eq f fun_eq_iff)
qed

end
