(* ===== verification/Ports.thy ===== *)
theory Ports
  imports KumPrelude
begin

text \<open>
  The I/O ports. The devices are not part of the kernel's sources: the routines that talk to
  them take the two port instructions as a parameter, over a state \<open>'w\<close> of the outside
  world. \<open>io_hlt\<close> is the \<^verbatim>\<open>hlt\<close> instruction with interrupts enabled: it gives the
  number of the interrupt that ended it.
\<close>

record 'w ports =
  io_in :: "u16 \<Rightarrow> 'w \<Rightarrow> u8 \<times> 'w"
  io_out :: "u16 \<Rightarrow> u8 \<Rightarrow> 'w \<Rightarrow> 'w"
  io_hlt :: "'w \<Rightarrow> nat \<times> 'w"

definition inb :: "'w ports \<Rightarrow> u16 \<Rightarrow> 'w \<Rightarrow> u8 \<times> 'w" where
  "inb io p w = io_in io p w"

definition outb :: "'w ports \<Rightarrow> u16 \<Rightarrow> u8 \<Rightarrow> 'w \<Rightarrow> 'w" where
  "outb io p v w = io_out io p v w"

text \<open>Several writes in a row.\<close>

fun outs :: "'w ports \<Rightarrow> (u16 \<times> u8) list \<Rightarrow> 'w \<Rightarrow> 'w" where
  "outs io [] w = w"
| "outs io ((p, v) # ps) w = outs io ps (outb io p v w)"

text \<open>A bit test \<^verbatim>\<open>x & m\<close> used as a condition.\<close>

definition tst :: "'a::len word \<Rightarrow> 'a word \<Rightarrow> bool" where
  "tst x m \<longleftrightarrow> x AND m \<noteq> 0"

end
