(* ===== verification/Rtc.thy ===== *)
theory Rtc
  imports Ports Vga
begin

text \<open>
  The real-time clock, \<^verbatim>\<open>src/rtc.c\<close>: reading the CMOS registers, decoding them, printing
  the time and computing a time stamp. The CMOS chip is a parameter; \<open>cmos\<close> states what the
  code relies on: after its index port is written, its data port gives that register.
\<close>

section \<open>Operations\<close>

definition CMOS_ADDR :: u16 where "CMOS_ADDR = 0x70"
definition CMOS_DATA :: u16 where "CMOS_DATA = 0x71"

record rtc_time_t =
  t_second :: u8
  t_minute :: u8
  t_hour :: u8
  t_day :: u8
  t_month :: u8
  t_year :: u16

partial_function (option) rtc_wait :: "'w ports \<Rightarrow> 'w \<Rightarrow> 'w option" where
  "rtc_wait io w =
     (let (v, w') = inb io CMOS_DATA (outb io CMOS_ADDR 0x0A w)
      in if tst v 0x80 then rtc_wait io w' else Some w')"

definition cmos_read :: "'w ports \<Rightarrow> u8 \<Rightarrow> 'w \<Rightarrow> u8 \<times> 'w" where
  "cmos_read io reg w = inb io CMOS_DATA (outb io CMOS_ADDR reg w)"

definition bcd_to_bin :: "u8 \<Rightarrow> u8" where
  "bcd_to_bin bcd = (bcd AND 0x0F) + (drop_bit 4 bcd * 10)"

text \<open>The decoding of the registers; \<^verbatim>\<open>(hour & 0x7F) + 12\<close> is computed in \<^verbatim>\<open>int\<close>.\<close>

definition rtc_decode :: "u8 \<Rightarrow> u8 \<Rightarrow> u8 \<Rightarrow> u8 \<Rightarrow> u8 \<Rightarrow> u8 \<Rightarrow> u8 \<Rightarrow> rtc_time_t" where
  "rtc_decode sec min0 hour day month year regb =
     (let bcd = \<not> tst regb 0x04;
          sec' = (if bcd then bcd_to_bin sec else sec);
          min' = (if bcd then bcd_to_bin min0 else min0);
          hour' = (if bcd then bcd_to_bin (hour AND 0x7F) OR (hour AND 0x80) else hour);
          day' = (if bcd then bcd_to_bin day else day);
          month' = (if bcd then bcd_to_bin month else month);
          year' = (if bcd then bcd_to_bin year else year);
          hour'' = (if \<not> tst regb 0x02 \<and> tst hour' 0x80
                    then of_nat ((unat (hour' AND 0x7F) + 12) mod 24) else hour')
      in \<lparr>t_second = sec', t_minute = min', t_hour = hour'', t_day = day', t_month = month',
          t_year = 2000 + ucast year'\<rparr>)"

definition rtc_read :: "'w ports \<Rightarrow> 'w \<Rightarrow> (rtc_time_t \<times> 'w) option" where
  "rtc_read io w = do {
     w0 \<leftarrow> rtc_wait io w;
     let (sec, w1) = cmos_read io 0x00 w0;
     let (min0, w2) = cmos_read io 0x02 w1;
     let (hour, w3) = cmos_read io 0x04 w2;
     let (day, w4) = cmos_read io 0x07 w3;
     let (month, w5) = cmos_read io 0x08 w4;
     let (year, w6) = cmos_read io 0x09 w5;
     let (regb, w7) = cmos_read io 0x0B w6;
     Some (rtc_decode sec min0 hour day month year regb, w7) }"

definition print2 :: "u8 \<Rightarrow> vga \<Rightarrow> vga" where
  "print2 n v = vga_putchar (48 + n mod 10) (vga_putchar (48 + n div 10) v)"

definition rtc_print :: "'w ports \<Rightarrow> 'w \<Rightarrow> vga \<Rightarrow> (vga \<times> 'w) option" where
  "rtc_print io w v = do {
     (t, w') \<leftarrow> rtc_read io w;
     v1 \<leftarrow> vga_put_dec (ucast (t_year t)) v;
     let v2 = vga_putchar (of_char CHR ''-'') v1;
     let v3 = vga_putchar (of_char CHR ''-'') (print2 (t_month t) v2);
     v4 \<leftarrow> vga_puts (lit ''  '') (print2 (t_day t) v3);
     let v5 = vga_putchar (of_char CHR '':'') (print2 (t_hour t) v4);
     let v6 = vga_putchar (of_char CHR '':'') (print2 (t_minute t) v5);
     Some (print2 (t_second t) v6, w') }"

text \<open>\<^verbatim>\<open>t.month - 1\<close> is an \<^verbatim>\<open>int\<close> that is converted to \<^verbatim>\<open>uint32_t\<close>.\<close>

definition timestamp_of :: "rtc_time_t \<Rightarrow> u32" where
  "timestamp_of t =
     (let days = (ucast (t_year t) - 2000) * 365 + (ucast (t_month t) - 1) * 30 + ucast (t_day t)
      in days * 86400 + ucast (t_hour t) * 3600 + ucast (t_minute t) * 60 + ucast (t_second t))"

definition rtc_timestamp :: "'w ports \<Rightarrow> 'w \<Rightarrow> (u32 \<times> 'w) option" where
  "rtc_timestamp io w = map_option (\<lambda>(t, w'). (timestamp_of t, w')) (rtc_read io w)"

section \<open>Decoding\<close>

text \<open>The encoding the chip uses in BCD mode.\<close>

definition bcd :: "nat \<Rightarrow> u8" where
  "bcd n = of_nat (n div 10 * 16 + n mod 10)"

lemma bcd_all: "list_all (\<lambda>n. bcd_to_bin (bcd n) = of_nat n \<and> (n < 80 \<longrightarrow> bcd n AND 0x7F = bcd n \<and> bcd n AND 0x80 = 0)
   \<and> of_nat n AND (0x80 :: u8) = 0) [0..<100]"
  by code_simp

lemma bcd_to_bin_bcd: "n < 100 \<Longrightarrow> bcd_to_bin (bcd n) = of_nat n"
  and bcd_small: "n < 80 \<Longrightarrow> bcd n AND 0x7F = bcd n \<and> bcd n AND 0x80 = 0"
  and small_and: "n < 100 \<Longrightarrow> of_nat n AND (0x80 :: u8) = 0"
  using bcd_all by (auto simp: list_all_iff)

section \<open>The clock chip\<close>

text \<open>
  \<open>cmos io idx regs ok\<close>: in every state where \<open>ok\<close> holds, writing the index port
  selects the register and reading the data port gives its contents, the update flag of
  register A is down, and both keep the register contents.
\<close>

locale cmos =
  fixes io :: "'w ports" and idx :: "'w \<Rightarrow> u8" and regs :: "u8 \<Rightarrow> u8" and ok :: "'w \<Rightarrow> bool"
  assumes out_index: "ok w \<Longrightarrow> ok (outb io 0x70 r w) \<and> idx (outb io 0x70 r w) = r"
    and in_data: "ok w \<Longrightarrow> fst (inb io 0x71 w) = regs (idx w) \<and> ok (snd (inb io 0x71 w))"
    and no_update: "\<not> tst (regs 0x0A) 0x80"
begin

lemma cmos_read_reg: "ok w \<Longrightarrow> \<exists>w'. cmos_read io r w = (regs r, w') \<and> ok w'"
  using out_index [of w r] in_data [of "outb io 0x70 r w"]
  by (auto simp: cmos_read_def CMOS_ADDR_def CMOS_DATA_def prod_eq_iff)

lemma rtc_wait_ends: "ok w \<Longrightarrow> \<exists>w'. rtc_wait io w = Some w' \<and> ok w'"
  using cmos_read_reg [of w "0x0A"] no_update
  by (auto simp: rtc_wait.simps [of io w] cmos_read_def)

lemma rtc_read_decodes:
  assumes "ok w"
  shows "\<exists>w'. rtc_read io w =
      Some (rtc_decode (regs 0) (regs 2) (regs 4) (regs 7) (regs 8) (regs 9) (regs 0x0B), w') \<and> ok w'"
proof -
  obtain w0 where w0: "rtc_wait io w = Some w0" "ok w0" using rtc_wait_ends [OF assms] by blast
  obtain w1 where w1: "cmos_read io 0 w0 = (regs 0, w1)" "ok w1" using cmos_read_reg [OF w0(2)] by blast
  obtain w2 where w2: "cmos_read io 2 w1 = (regs 2, w2)" "ok w2" using cmos_read_reg [OF w1(2)] by blast
  obtain w3 where w3: "cmos_read io 4 w2 = (regs 4, w3)" "ok w3" using cmos_read_reg [OF w2(2)] by blast
  obtain w4 where w4: "cmos_read io 7 w3 = (regs 7, w4)" "ok w4" using cmos_read_reg [OF w3(2)] by blast
  obtain w5 where w5: "cmos_read io 8 w4 = (regs 8, w5)" "ok w5" using cmos_read_reg [OF w4(2)] by blast
  obtain w6 where w6: "cmos_read io 9 w5 = (regs 9, w6)" "ok w6" using cmos_read_reg [OF w5(2)] by blast
  obtain w7 where w7: "cmos_read io 0x0B w6 = (regs 0x0B, w7)" "ok w7" using cmos_read_reg [OF w6(2)] by blast
  show ?thesis
    using w0 w1 w2 w3 w4 w5 w6 w7 by (simp add: rtc_read_def)
qed

end

text \<open>The chip that answers every access: an index register and a table of registers.\<close>

definition cmos_chip :: "(u8 \<Rightarrow> u8) \<Rightarrow> u8 ports" where
  "cmos_chip rs = \<lparr>io_in = (\<lambda>p i. (if p = 0x71 then rs i else 0xFF, i)),
     io_out = (\<lambda>p v i. if p = 0x70 then v else i), io_hlt = (\<lambda>i. (0, i))\<rparr>"

definition cmos_chip_ok :: "(u8 \<Rightarrow> u8) \<Rightarrow> bool" where
  "cmos_chip_ok rs \<longleftrightarrow> \<not> tst (rs 0x0A) 0x80"

definition idle_regs :: "u8 \<Rightarrow> u8" where
  "idle_regs r = (if r = 0 then 0x59 else if r = 2 then 0x30 else if r = 4 then 0x23
     else if r = 7 then 0x31 else if r = 8 then 0x12 else if r = 9 then 0x24
     else if r = 0x0B then 0x02 else 0)"

interpretation chip: cmos "cmos_chip idle_regs" "\<lambda>i. i" idle_regs "\<lambda>_. True"
  by unfold_locales (simp_all add: cmos_chip_def inb_def outb_def idle_regs_def tst_def)

section \<open>Properties\<close>

lemma rtc_decode_bcd:
  assumes "s < 60" "m < 60" "h < 24" "d < 32" "mo < 13" "y < 100" "\<not> tst regb 0x04" "tst regb 0x02"
  shows "rtc_decode (bcd s) (bcd m) (bcd h) (bcd d) (bcd mo) (bcd y) regb =
    \<lparr>t_second = of_nat s, t_minute = of_nat m, t_hour = of_nat h, t_day = of_nat d, t_month = of_nat mo,
     t_year = of_nat (2000 + y)\<rparr>"
proof -
  have u: "(2000 + ucast (of_nat y :: u8) :: u16) = of_nat (2000 + y)"
    using assms(6) by (simp add: unsigned_of_nat take_bit_nat_eq_self)
  show ?thesis using assms
    by (simp add: rtc_decode_def Let_def bcd_to_bin_bcd bcd_small u)
qed

text \<open>
  In the chip's usual mode (BCD registers, 24-hour clock) \<^verbatim>\<open>rtc_read\<close> ends and returns
  exactly the time that the registers hold.
\<close>

theorem rtc_read_bcd:
  assumes "cmos io idx regs ok" "ok w"
    and "regs 0 = bcd s" "regs 2 = bcd m" "regs 4 = bcd h" "regs 7 = bcd d" "regs 8 = bcd mo" "regs 9 = bcd y"
    and "s < 60" "m < 60" "h < 24" "d < 32" "mo < 13" "y < 100"
    and "\<not> tst (regs 0x0B) 0x04" "tst (regs 0x0B) 0x02"
  shows "\<exists>w'. rtc_read io w = Some (\<lparr>t_second = of_nat s, t_minute = of_nat m, t_hour = of_nat h,
     t_day = of_nat d, t_month = of_nat mo, t_year = of_nat (2000 + y)\<rparr>, w') \<and> ok w'"
  using cmos.rtc_read_decodes [OF assms(1,2)] rtc_decode_bcd [OF assms(9-16)] assms(3-8) by simp

lemma rtc_read_bcd_witness:
  "\<exists>w'. rtc_read (cmos_chip idle_regs) 0 = Some (\<lparr>t_second = 59, t_minute = 30, t_hour = 23,
     t_day = 31, t_month = 12, t_year = 2024\<rparr>, w')"
  using rtc_read_bcd [OF chip.cmos_axioms TrueI, where w = 0 and s = 59 and m = 30 and h = 23 and d = 31 and mo = 12 and y = 24]
  by (simp add: idle_regs_def bcd_def tst_def)

text \<open>
  In the 12-hour mode, with the PM bit set, hours 1 to 11 become 13 to 23, but noon (12 PM)
  is reported as hour 0.
\<close>

theorem rtc_noon_is_zero:
  assumes "1 \<le> h" "h \<le> 12"
  shows "t_hour (rtc_decode s m (bcd h OR 0x80) d mo y 0) = of_nat (if h = 12 then 0 else h + 12)"
proof -
  have "list_all (\<lambda>h. bcd_to_bin ((bcd h OR 0x80) AND 0x7F) OR ((bcd h OR 0x80) AND 0x80) = of_nat h OR 0x80
      \<and> unat ((of_nat h OR 0x80 :: u8) AND 0x7F) = h \<and> (of_nat h OR 0x80 :: u8) AND 0x80 \<noteq> 0) [1..<13]"
    by code_simp
  with assms have "t_hour (rtc_decode s m (bcd h OR 0x80) d mo y 0) = of_nat ((h + 12) mod 24)"
    by (auto simp: list_all_iff rtc_decode_def Let_def tst_def)
  with assms show ?thesis by auto
qed

lemma rtc_noon_is_zero_witness: "t_hour (rtc_decode 0 0 (bcd 12 OR 0x80) 1 1 1 0) = 0"
  using rtc_noon_is_zero [of 12 0 0 1 1 1] by simp

end
