(* ===== verification/Keyboard.thy ===== *)
theory Keyboard
  imports Ports Ring Vga
begin

text \<open>
  The PS/2 keyboard, \<^verbatim>\<open>src/keyboard.c\<close>: decoding of scan codes with the modifier keys, the
  queue of 255 characters between the interrupt and the readers, polling, the set-up of the
  controller, and line input with echo. The controller is the parameter \<open>io\<close>.
\<close>

section \<open>State and controller access\<close>

definition KB_DATA :: u16 where "KB_DATA = 0x60"
definition KB_STATUS :: u16 where "KB_STATUS = 0x64"
definition KB_CMD :: u16 where "KB_CMD = 0x64"
definition PIC1_DATA :: u16 where "PIC1_DATA = 0x21"
definition KB_OBF :: u8 where "KB_OBF = 0x01"
definition KB_IBF :: u8 where "KB_IBF = 0x02"
definition KB_BUF :: nat where "KB_BUF = 256"

record kb =
  k_buf :: "nat \<Rightarrow> u8"
  k_head :: nat
  k_tail :: nat
  k_shift :: bool
  k_caps :: bool
  k_ctrl :: bool
  k_ext :: bool

definition io_wait :: "'w ports \<Rightarrow> 'w \<Rightarrow> 'w" where
  "io_wait io w = outb io 0x80 0 (outb io 0x80 0 w)"

fun wait_obf_loop :: "'w ports \<Rightarrow> nat \<Rightarrow> 'w \<Rightarrow> bool \<times> 'w" where
  "wait_obf_loop io 0 w = (False, w)"
| "wait_obf_loop io (Suc n) w =
     (let (s, w1) = inb io KB_STATUS w
      in if tst s KB_OBF then (True, w1) else wait_obf_loop io n (io_wait io w1))"

definition wait_obf :: "'w ports \<Rightarrow> 'w \<Rightarrow> bool \<times> 'w" where
  "wait_obf io w = wait_obf_loop io 100000 w"

fun wait_ibf_clear_loop :: "'w ports \<Rightarrow> nat \<Rightarrow> 'w \<Rightarrow> bool \<times> 'w" where
  "wait_ibf_clear_loop io 0 w = (False, w)"
| "wait_ibf_clear_loop io (Suc n) w =
     (let (s, w1) = inb io KB_STATUS w
      in if \<not> tst s KB_IBF then (True, w1) else wait_ibf_clear_loop io n (io_wait io w1))"

definition wait_ibf_clear :: "'w ports \<Rightarrow> 'w \<Rightarrow> bool \<times> 'w" where
  "wait_ibf_clear io w = wait_ibf_clear_loop io 100000 w"

fun flush_loop :: "'w ports \<Rightarrow> nat \<Rightarrow> 'w \<Rightarrow> 'w" where
  "flush_loop io 0 w = w"
| "flush_loop io (Suc n) w =
     (let (s, w1) = inb io KB_STATUS w
      in if tst s KB_OBF then flush_loop io n (snd (inb io KB_DATA w1)) else w1)"

definition kb_flush :: "'w ports \<Rightarrow> 'w \<Rightarrow> 'w" where
  "kb_flush io w = flush_loop io 16 w"

definition kb_cmd :: "'w ports \<Rightarrow> u8 \<Rightarrow> 'w \<Rightarrow> 'w" where
  "kb_cmd io c w = io_wait io (outb io KB_CMD c (snd (wait_ibf_clear io w)))"

definition kb_dat :: "'w ports \<Rightarrow> u8 \<Rightarrow> 'w \<Rightarrow> 'w" where
  "kb_dat io d w = io_wait io (outb io KB_DATA d (snd (wait_ibf_clear io w)))"

definition kb_resp :: "'w ports \<Rightarrow> 'w \<Rightarrow> u8 \<times> 'w" where
  "kb_resp io w = (let (r, w1) = wait_obf io w in if r then inb io KB_DATA w1 else (0xFF, w1))"

section \<open>Scan codes\<close>

definition sc_lo :: bytes where
  "sc_lo = [0, 27] @ map of_char ''1234567890-='' @ [8, 9] @ map of_char ''qwertyuiop[]'' @ [10, 0]
     @ map of_char ''asdfghjkl;'' @ [39, 96, 0, 92] @ map of_char ''zxcvbnm,./'' @ [0, 42, 0, 32]
     @ replicate 70 0"

definition sc_hi :: bytes where
  "sc_hi = [0, 27] @ map of_char ''!@#$%^&*()_+'' @ [8, 9] @ map of_char ''QWERTYUIOP{}'' @ [10, 0]
     @ map of_char ''ASDFGHJKL:'' @ [34, 126, 0, 124] @ map of_char ''ZXCVBNM<>?'' @ [0, 42, 0, 32]
     @ replicate 70 0"

text \<open>The character of a key that is not a modifier, with the modifiers applied.\<close>

definition key_char :: "kb \<Rightarrow> u8 \<Rightarrow> u8" where
  "key_char k sc =
     (let c = (if k_shift k then sc_hi ! unat sc else sc_lo ! unat sc) in
      if c = 0 then 0
      else
        (let c1 = (if k_caps k
                   then if 97 \<le> c \<and> c \<le> 122 then c - 32 else if 65 \<le> c \<and> c \<le> 90 then c + 32 else c
                   else c);
             c2 = (if k_ctrl k \<and> 97 \<le> c1 \<and> c1 \<le> 122 then c1 - 96 else c1)
         in if k_ctrl k \<and> 65 \<le> c2 \<and> c2 \<le> 90 then c2 - 64 else c2))"

definition kb_full :: "kb \<Rightarrow> bool" where
  "kb_full k \<longleftrightarrow> (k_head k + 1) mod KB_BUF = k_tail k"

definition kb_put :: "u8 \<Rightarrow> kb \<Rightarrow> kb" where
  "kb_put c k = k\<lparr>k_buf := (k_buf k)(k_head k := c), k_head := (k_head k + 1) mod KB_BUF\<rparr>"

definition kb_take :: "kb \<Rightarrow> u8 \<times> kb" where
  "kb_take k = (k_buf k (k_tail k), k\<lparr>k_tail := (k_tail k + 1) mod KB_BUF\<rparr>)"

definition process_scancode :: "u8 \<Rightarrow> kb \<Rightarrow> kb" where
  "process_scancode sc k =
     (if sc = 0xE0 \<or> sc = 0xE1 then k\<lparr>k_ext := True\<rparr>
      else if tst sc 0x80 then
        (let sc' = sc AND 0x7F;
             k1 = (if \<not> k_ext k
                   then (let k' = (if sc' = 0x2A \<or> sc' = 0x36 then k\<lparr>k_shift := False\<rparr> else k)
                         in if sc' = 0x1D then k'\<lparr>k_ctrl := False\<rparr> else k')
                   else k)
         in k1\<lparr>k_ext := False\<rparr>)
      else if k_ext k then
        (let k1 = k\<lparr>k_ext := False\<rparr> in if sc = 0x1D then k1\<lparr>k_ctrl := True\<rparr> else k1)
      else if sc = 0x2A \<or> sc = 0x36 then k\<lparr>k_shift := True\<rparr>
      else if sc = 0x3A then k\<lparr>k_caps := \<not> k_caps k\<rparr>
      else if sc = 0x1D then k\<lparr>k_ctrl := True\<rparr>
      else if sc = 0x38 then k
      else if sc \<ge> 128 then k
      else (let c = key_char k sc in if c = 0 then k else if kb_full k then k else kb_put c k))"

definition kb_irq :: "'w ports \<Rightarrow> kb \<times> 'w \<Rightarrow> kb \<times> 'w" where
  "kb_irq io = (\<lambda>(k, w).
     (let (s, w1) = inb io KB_STATUS w
      in if \<not> tst s KB_OBF then (k, w1)
         else (let (sc, w2) = inb io KB_DATA w1 in (process_scancode sc k, w2))))"

definition poll_once :: "'w ports \<Rightarrow> kb \<times> 'w \<Rightarrow> u8 \<times> kb \<times> 'w" where
  "poll_once io = (\<lambda>(k, w).
     (let (s, w1) = inb io KB_STATUS w
      in if \<not> tst s KB_OBF then (0, k, w1)
         else (let (sc, w2) = inb io KB_DATA w1 in
               if tst sc 0x80 then
                 (let sc' = sc AND 0x7F;
                      k1 = (if sc' = 0x2A \<or> sc' = 0x36 then k\<lparr>k_shift := False\<rparr> else k);
                      k2 = (if sc' = 0x1D then k1\<lparr>k_ctrl := False\<rparr> else k1)
                  in (0, k2, w2))
               else
                 (let k1 = process_scancode sc k
                  in if k_head k1 \<noteq> k_tail k1 then (let (c, k2) = kb_take k1 in (c, k2, w2))
                     else (0, k1, w2)))))"

definition keyboard_init :: "'w ports \<Rightarrow> kb \<times> 'w \<Rightarrow> kb \<times> 'w" where
  "keyboard_init io = (\<lambda>(k, w).
     (let k' = k\<lparr>k_head := 0, k_tail := 0, k_shift := False, k_caps := False, k_ctrl := False,
                k_ext := False\<rparr>;
          w1 = kb_flush io (kb_cmd io 0xA7 (kb_cmd io 0xAD w));
          (cfg, w2) = kb_resp io (kb_cmd io 0x20 w1);
          cfg' = (cfg OR 0x01) AND NOT 0x40;
          w3 = kb_dat io cfg' (kb_cmd io 0x60 w2);
          w4 = kb_dat io 0xFF (kb_flush io (io_wait io (kb_cmd io 0xAE w3)));
          (ack, w5) = kb_resp io w4;
          w6 = (if ack = 0xFA \<or> ack = 0xAA then snd (kb_resp io w5) else w5);
          w7 = snd (kb_resp io (kb_dat io 0xF0 (kb_flush io w6)));
          w8 = snd (kb_resp io (kb_dat io 0x01 w7));
          w9 = kb_flush io (snd (kb_resp io (kb_dat io 0xF4 w8)));
          (mask, w10) = inb io PIC1_DATA w9
      in (k', io_wait io (outb io PIC1_DATA (mask AND NOT 0x03) w10))))"

section \<open>Reading\<close>

definition keyboard_getchar :: "'w ports \<Rightarrow> kb \<times> 'w \<Rightarrow> u8 \<times> kb \<times> 'w" where
  "keyboard_getchar io = (\<lambda>(k, w).
     (if k_head k \<noteq> k_tail k then (let (c, k') = kb_take k in (c, k', w)) else poll_once io (k, w)))"

text \<open>
  The wait \<^verbatim>\<open>sti; hlt; cli\<close> ends with an interrupt; interrupt 1 is the keyboard's, the
  others leave the keyboard's state alone.
\<close>

definition kb_idle :: "'w ports \<Rightarrow> kb \<times> 'w \<Rightarrow> kb \<times> 'w" where
  "kb_idle io = (\<lambda>(k, w). (let (irq, w') = io_hlt io w in if irq = 1 then kb_irq io (k, w') else (k, w')))"

partial_function (option) keyboard_getchar_blocking :: "'w ports \<Rightarrow> kb \<times> 'w \<Rightarrow> (u8 \<times> kb \<times> 'w) option" where
  "keyboard_getchar_blocking io s =
     (if k_head (fst s) \<noteq> k_tail (fst s)
      then (let (c, k') = kb_take (fst s) in Some (c, k', snd s))
      else (let (c, s') = poll_once io s
            in if c \<noteq> 0 then Some (c, s') else keyboard_getchar_blocking io (kb_idle io s')))"

partial_function (option) getline_loop ::
  "'w ports \<Rightarrow> bytes \<Rightarrow> int \<Rightarrow> nat \<Rightarrow> vga \<Rightarrow> kb \<times> 'w \<Rightarrow> (int \<times> bytes \<times> vga \<times> kb \<times> 'w) option" where
  "getline_loop io out maxlen i v s =
     Option.bind (keyboard_getchar_blocking io s) (\<lambda>(c, s').
       if c = 0 then getline_loop io out maxlen i v s'
       else if c = 10 then
         Option.bind (blit out i [0]) (\<lambda>out'. Some (int i, out', vga_putchar 10 v, s'))
       else if c = 8 then
         (if i > 0 then getline_loop io out maxlen (i - 1) (vga_putchar 8 v) s'
          else getline_loop io out maxlen i v s')
       else if int i < maxlen - 1 then
         Option.bind (blit out i [c]) (\<lambda>out'. getline_loop io out' maxlen (i + 1) (vga_putchar c v) s')
       else getline_loop io out maxlen i v s')"

definition keyboard_getline ::
  "'w ports \<Rightarrow> bytes \<Rightarrow> int \<Rightarrow> vga \<Rightarrow> kb \<times> 'w \<Rightarrow> (int \<times> bytes \<times> vga \<times> kb \<times> 'w) option" where
  "keyboard_getline io out maxlen v s = getline_loop io out maxlen 0 v s"

definition keyboard_ctrl_held :: "kb \<Rightarrow> bool" where "keyboard_ctrl_held k = k_ctrl k"
definition keyboard_alt_held :: "kb \<Rightarrow> bool" where "keyboard_alt_held k = False"
definition keyboard_has_input :: "kb \<Rightarrow> bool" where "keyboard_has_input k \<longleftrightarrow> k_head k \<noteq> k_tail k"

section \<open>The character queue\<close>

definition kb_inv :: "kb \<Rightarrow> bool" where
  "kb_inv k \<longleftrightarrow> k_head k < KB_BUF \<and> k_tail k < KB_BUF"

definition kb_list :: "kb \<Rightarrow> bytes" where
  "kb_list k = ring_list KB_BUF (k_buf k) (k_head k) (k_tail k)"

interpretation kb_fifo: fifo kb_list kb_inv 255 "\<lambda>k. k_head k = k_tail k" kb_full kb_put kb_take
proof unfold_locales
  fix q assume q: "kb_inv q"
  then have b: "k_head q < 256" "k_tail q < 256" by (auto simp: kb_inv_def KB_BUF_def)
  show "(k_head q = k_tail q) = (kb_list q = [])"
    using b by (simp add: kb_list_def KB_BUF_def ring_list_Nil_iff)
  show "kb_full q = (length (kb_list q) = 255)"
    using b by (auto simp: kb_full_def kb_list_def KB_BUF_def ring_used_cases ring_succ_cases)
  have "length (kb_list q) < 256" by (simp add: kb_list_def KB_BUF_def)
  then show "length (kb_list q) \<le> 255" by simp
  show "kb_list q = fst (kb_take q) # kb_list (snd (kb_take q))" if "k_head q \<noteq> k_tail q"
    using ring_list_get [OF b that, of "k_buf q"] by (simp add: kb_list_def kb_take_def KB_BUF_def)
  show "kb_inv (snd (kb_take q))" if "k_head q \<noteq> k_tail q"
    using b by (simp add: kb_inv_def kb_take_def KB_BUF_def)
  fix a :: u8
  show "kb_list (kb_put a q) = kb_list q @ [a]" if "\<not> kb_full q"
    using that ring_list_put [OF b, of "(k_buf q)(k_head q := a)"] b
    by (simp add: kb_full_def kb_list_def kb_put_def KB_BUF_def ring_list_store)
  show "kb_inv (kb_put a q)" if "\<not> kb_full q" using b by (simp add: kb_inv_def kb_put_def KB_BUF_def)
qed

lemma kb_frame [simp]:
  "kb_list (k\<lparr>k_ext := e\<rparr>) = kb_list k" "kb_list (k\<lparr>k_shift := e\<rparr>) = kb_list k"
  "kb_list (k\<lparr>k_ctrl := e\<rparr>) = kb_list k" "kb_list (k\<lparr>k_caps := e\<rparr>) = kb_list k"
  "kb_inv (k\<lparr>k_ext := e\<rparr>) = kb_inv k" "kb_inv (k\<lparr>k_shift := e\<rparr>) = kb_inv k"
  "kb_inv (k\<lparr>k_ctrl := e\<rparr>) = kb_inv k" "kb_inv (k\<lparr>k_caps := e\<rparr>) = kb_inv k"
  by (simp_all add: kb_list_def kb_inv_def)

text \<open>A scan code queues at most one character, never more than fit, and never a NUL.\<close>

lemma process_scancode_queue:
  assumes "kb_inv k"
  shows "kb_inv (process_scancode sc k)"
    and "kb_list (process_scancode sc k) = kb_list k \<or>
         (\<exists>c. c \<noteq> 0 \<and> length (kb_list k) < 255 \<and> kb_list (process_scancode sc k) = kb_list k @ [c])"
proof -
  have lt: "\<not> kb_full k \<Longrightarrow> length (kb_list k) < 255"
    using kb_fifo.full_iff [OF assms] kb_fifo.bounded [OF assms] by simp
  show "kb_inv (process_scancode sc k)"
    using assms kb_fifo.put_inv [OF assms] by (simp add: process_scancode_def Let_def)
  show "kb_list (process_scancode sc k) = kb_list k \<or>
         (\<exists>c. c \<noteq> 0 \<and> length (kb_list k) < 255 \<and> kb_list (process_scancode sc k) = kb_list k @ [c])"
    using kb_fifo.put_contents [OF assms] lt by (simp add: process_scancode_def Let_def)
qed

section \<open>Line input\<close>

text \<open>What a line editor with backspace and a limit makes of the characters typed.\<close>

fun line_edit :: "int \<Rightarrow> bytes \<Rightarrow> bytes \<Rightarrow> bytes" where
  "line_edit maxlen acc [] = acc"
| "line_edit maxlen acc (c # cs) =
     line_edit maxlen
       (if c = 8 then butlast acc else if int (length acc) < maxlen - 1 then acc @ [c] else acc) cs"

lemma getchar_queued:
  assumes "kb_inv k" "kb_list k = c # cs"
  shows "\<exists>k'. keyboard_getchar_blocking io (k, w) = Some (c, k', w) \<and> kb_inv k' \<and> kb_list k' = cs"
proof -
  have ne: "k_head k \<noteq> k_tail k" using kb_fifo.empty_iff [OF assms(1)] assms(2) by auto
  obtain a k' where t: "kb_take k = (a, k')" by fastforce
  have "a = c" "kb_inv k'" "kb_list k' = cs"
    using kb_fifo.get_contents [OF assms(1) ne] kb_fifo.get_inv [OF assms(1) ne] assms(2) t by auto
  with ne t show ?thesis by (simp add: keyboard_getchar_blocking.simps [of io "(k, w)"])
qed

lemma getline_loop_queued:
  assumes "kb_inv k" "kb_list k = cs @ 10 # rest" "0 \<notin> set cs" "10 \<notin> set cs"
    and "take i out = acc" "length acc = i" "int i < maxlen" "maxlen \<le> int (length out)"
  shows "\<exists>out' v' k'. getline_loop io out maxlen i v (k, w) =
      Some (int (length (line_edit maxlen acc cs)), out', v', k', w)
    \<and> take (length (line_edit maxlen acc cs)) out' = line_edit maxlen acc cs
    \<and> length (line_edit maxlen acc cs) < length out' \<and> out' ! length (line_edit maxlen acc cs) = 0
    \<and> length out' = length out \<and> kb_inv k' \<and> kb_list k' = rest"
  using assms
proof (induction cs arbitrary: k i out acc v)
  case Nil
  obtain k' where k': "keyboard_getchar_blocking io (k, w) = Some (10, k', w)" "kb_inv k'" "kb_list k' = rest"
    using getchar_queued [of k 10 rest io w] Nil.prems by auto
  have "i < length out" using Nil.prems by simp
  then have b: "blit out i [0] = Some (take i out @ 0 # drop (Suc i) out)" by (simp add: blit_def)
  show ?case
    using k' b \<open>i < length out\<close> Nil.prems
    by (simp add: getline_loop.simps [of io out maxlen i v "(k, w)"] nth_append) linarith
next
  case (Cons c cs)
  obtain k' where k': "keyboard_getchar_blocking io (k, w) = Some (c, k', w)" "kb_inv k'"
    "kb_list k' = cs @ 10 # rest"
    using getchar_queued [of k c "cs @ 10 # rest" io w] Cons.prems by auto
  have c: "c \<noteq> 0" "c \<noteq> 10" "0 \<notin> set cs" "10 \<notin> set cs" using Cons.prems by auto
  note step = getline_loop.simps [of io out maxlen i v "(k, w)"]
  consider (bs) "c = 8" "0 < i" | (bs0) "c = 8" "i = 0" | (add) "c \<noteq> 8" "int i < maxlen - 1"
    | (drop) "c \<noteq> 8" "\<not> int i < maxlen - 1" by auto
  then show ?case
  proof cases
    case bs
    have "take (i - 1) out = butlast acc"
      using Cons.prems(5,6) by (metis butlast_take diff_le_self length_take min.absorb2 nat_le_linear take_all)
    with Cons.IH [OF k'(2,3) c(3,4), of "i - 1" out "butlast acc" "vga_putchar 8 v"] Cons.prems(6-8)
    show ?thesis using bs k'(1) by (simp add: step)
  next
    case bs0
    with Cons.IH [OF k'(2,3) c(3,4), of 0 out "[]" v] Cons.prems show ?thesis
      using k'(1) by (simp add: getline_loop.simps [of io out maxlen 0 v "(k, w)"])
  next
    case add
    have il: "i < length out" using add Cons.prems(8) by simp
    let ?out = "take i out @ c # drop (Suc i) out"
    have b: "blit out i [c] = Some ?out" using il by (simp add: blit_def)
    have "take (i + 1) ?out = acc @ [c]" "length ?out = length out"
      using il by (simp_all add: Cons.prems(5) [symmetric])
    with Cons.IH [OF k'(2,3) c(3,4), of "i + 1" ?out "acc @ [c]" "vga_putchar c v"] Cons.prems(6,8) add
    show ?thesis using k'(1) c b by (simp add: step)
  next
    case drop
    with Cons.IH [OF k'(2,3) c(3,4) Cons.prems(5-8), of v] Cons.prems(6) show ?thesis
      using k'(1) c by (simp add: step)
  qed
qed

section \<open>Properties\<close>

text \<open>
  \<^verbatim>\<open>keyboard_getline\<close> with a line in the queue, for a buffer of at least
  \<^verbatim>\<open>maxlen\<close> bytes: it returns, stays inside the buffer, and leaves there the
  NUL-terminated line that the typed characters amount to (backspaces applied, cut at
  \<^verbatim>\<open>maxlen - 1\<close> characters), with its length as result; the queue keeps what follows.
\<close>

theorem keyboard_getline_edits:
  assumes "kb_inv k" "kb_list k = cs @ 10 # rest" "0 \<notin> set cs" "10 \<notin> set cs"
    and "0 < maxlen" "maxlen \<le> int (length out)"
  shows "\<exists>out' v' k'. keyboard_getline io out maxlen v (k, w) =
      Some (int (length (line_edit maxlen [] cs)), out', v', k', w)
    \<and> take (length (line_edit maxlen [] cs)) out' = line_edit maxlen [] cs
    \<and> length (line_edit maxlen [] cs) < length out' \<and> out' ! length (line_edit maxlen [] cs) = 0
    \<and> length out' = length out \<and> kb_inv k' \<and> kb_list k' = rest"
  unfolding keyboard_getline_def using assms by (intro getline_loop_queued) simp_all

definition kb_demo :: kb where
  "kb_demo = \<lparr>k_buf = (\<lambda>i. [104, 106, 8, 105, 10] ! i), k_head = 5, k_tail = 0, k_shift = False,
     k_caps = False, k_ctrl = False, k_ext = False\<rparr>"

lemma kb_demo_list: "kb_inv kb_demo" "kb_list kb_demo = [104, 106, 8, 105, 10]"
proof -
  have "[0..<5] = [0, 1, 2, 3, 4]" by code_simp
  then show "kb_list kb_demo = [104, 106, 8, 105, 10]"
    by (simp add: kb_list_def kb_demo_def ring_list_def KB_BUF_def)
qed (simp add: kb_inv_def kb_demo_def KB_BUF_def)

definition silent :: "unit ports" where
  "silent = \<lparr>io_in = (\<lambda>_ w. (0, w)), io_out = (\<lambda>_ _ w. w), io_hlt = (\<lambda>w. (0, w))\<rparr>"

lemma kb_demo_edit: "line_edit 8 [] [104, 106, 8, 105] = [104, 105]"
  by simp

lemma keyboard_getline_edits_witness:
  "\<exists>out' v' k'. keyboard_getline silent (replicate 8 0) 8 vga0 (kb_demo, ()) = Some (2, out', v', k', ()) \<and> take 2 out' = [104, 105]"
  by (insert keyboard_getline_edits [of kb_demo "[104, 106, 8, 105]" "[]" 8 "replicate 8 0"
        silent vga0 "()", unfolded kb_demo_edit], auto simp: kb_demo_list) (simp add: numeral_2_eq_2)

text \<open>
  Scan codes and the character queue: whatever scan code arrives, the queue keeps its
  characters in order and gains at most one at its end, which is never NUL; a full queue of 255
  drops the new character. The release of the shift key undoes its press.
\<close>

theorem process_scancode_spec:
  assumes "kb_inv k"
  shows "kb_inv (process_scancode sc k)
    \<and> (kb_list (process_scancode sc k) = kb_list k \<or>
       (\<exists>c. c \<noteq> 0 \<and> length (kb_list k) < 255 \<and> kb_list (process_scancode sc k) = kb_list k @ [c]))
    \<and> (\<not> k_ext k \<longrightarrow> process_scancode 0xAA (process_scancode 0x2A k) = k\<lparr>k_shift := False\<rparr>)"
proof -
  have "process_scancode 0xAA (process_scancode 0x2A k) = k\<lparr>k_shift := False\<rparr>" if "\<not> k_ext k"
    using that by (simp add: process_scancode_def tst_def Let_def)
  with process_scancode_queue [OF assms, of sc] show ?thesis by blast
qed

lemma process_scancode_spec_witness: "kb_inv (process_scancode 0x1E kb_demo)"
  using process_scancode_spec [OF kb_demo_list(1), of "0x1E"] by blast

end
