(* ===== verification/Gdt.thy ===== *)
theory Gdt
  imports KumPrelude
begin

text \<open>
  Segmentation, \<^verbatim>\<open>src/gdt.c\<close>: the descriptor table of six entries and the task state
  segment. The addresses of the static objects are parameters; \<^verbatim>\<open>gdt_flush\<close> and
  \<^verbatim>\<open>tss_flush\<close> (assembly) load the registers from the values recorded here.
\<close>

section \<open>State and operations\<close>

record gdt_entry_t =
  g_limit_low :: u16
  g_base_low :: u16
  g_base_mid :: u8
  g_access :: u8
  g_granularity :: u8
  g_base_high :: u8

record tss_entry_t =
  tss_esp0 :: u32
  tss_ss0 :: u32
  tss_iomap_base :: u16
  tss_rest :: "u32 list"

record gdt_state =
  gs_gdt :: "nat \<Rightarrow> gdt_entry_t"
  gs_ptr_limit :: u16
  gs_ptr_base :: u32
  gs_tss :: tss_entry_t

definition SIZEOF_TSS :: nat where "SIZEOF_TSS = 104"
definition GDT_ENTRIES :: nat where "GDT_ENTRIES = 6"
definition GDT_KERNEL_DATA :: u32 where "GDT_KERNEL_DATA = 0x10"

definition gdt_set :: "nat \<Rightarrow> u32 \<Rightarrow> u32 \<Rightarrow> u8 \<Rightarrow> u8 \<Rightarrow> gdt_state \<Rightarrow> gdt_state" where
  "gdt_set idx base limit access flags s = s\<lparr>gs_gdt := (gs_gdt s)(idx :=
     \<lparr>g_limit_low = ucast (limit AND 0xFFFF), g_base_low = ucast (base AND 0xFFFF),
      g_base_mid = ucast (drop_bit 16 base AND 0xFF), g_access = access,
      g_granularity = ucast (drop_bit 16 limit AND 0x0F) OR (flags AND 0xF0),
      g_base_high = ucast (drop_bit 24 base AND 0xFF)\<rparr>)\<rparr>"

text \<open>\<open>stack_addr\<close>, \<open>tss_addr\<close>, \<open>gdt_addr\<close>: the addresses of the static objects.\<close>

definition gdt_init :: "u32 \<Rightarrow> u32 \<Rightarrow> u32 \<Rightarrow> gdt_state \<Rightarrow> gdt_state" where
  "gdt_init stack_addr tss_addr gdt_addr s0 =
     (let s1 = gdt_set 0 0 0 0 0 s0;
          s2 = gdt_set 1 0 0xFFFFFFFF 0x9A 0xCF s1;
          s3 = gdt_set 2 0 0xFFFFFFFF 0x92 0xCF s2;
          s4 = gdt_set 3 0 0xFFFFFFFF 0xFA 0xCF s3;
          s5 = gdt_set 4 0 0xFFFFFFFF 0xF2 0xCF s4;
          s6 = s5\<lparr>gs_tss := \<lparr>tss_esp0 = stack_addr + 8192, tss_ss0 = GDT_KERNEL_DATA,
                   tss_iomap_base = of_nat SIZEOF_TSS, tss_rest = replicate 23 0\<rparr>\<rparr>;
          s7 = gdt_set 5 tss_addr (of_nat SIZEOF_TSS - 1) 0x89 0x40 s6
      in s7\<lparr>gs_ptr_limit := of_nat (8 * GDT_ENTRIES) - 1, gs_ptr_base := gdt_addr\<rparr>)"

definition tss_set_kernel_stack :: "u32 \<Rightarrow> tss_entry_t \<Rightarrow> tss_entry_t" where
  "tss_set_kernel_stack stack t = t\<lparr>tss_esp0 := stack\<rparr>"

section \<open>Descriptors as the processor reads them\<close>

definition desc_base :: "gdt_entry_t \<Rightarrow> u32" where
  "desc_base e = ucast (g_base_low e) OR push_bit 16 (ucast (g_base_mid e)) OR push_bit 24 (ucast (g_base_high e))"

definition desc_limit :: "gdt_entry_t \<Rightarrow> u32" where
  "desc_limit e = ucast (g_limit_low e) OR push_bit 16 (ucast (g_granularity e AND 0x0F))"

definition desc_dpl :: "gdt_entry_t \<Rightarrow> nat" where
  "desc_dpl e = unat (drop_bit 5 (g_access e) AND 3)"

definition desc_present :: "gdt_entry_t \<Rightarrow> bool" where
  "desc_present e \<longleftrightarrow> bit (g_access e) 7"

lemma desc_base_set: "desc_base (gs_gdt (gdt_set i b l a f s) i) = b"
proof (intro bit_word_eqI)
  fix n assume "n < LENGTH(32)"
  then consider "n < 16" | "16 \<le> n" "n < 24" | "24 \<le> n" "n < 32"
    by (cases "n < 16"; cases "n < 24") auto
  then show "bit (desc_base (gs_gdt (gdt_set i b l a f s) i)) n = bit b n"
    unfolding desc_base_def gdt_set_def and_masks by cases (simp_all add: bit_simps less_diff_conv2)
qed

lemma desc_limit_set: "desc_limit (gs_gdt (gdt_set i b l a f s) i) = take_bit 20 l"
  unfolding desc_limit_def gdt_set_def and_masks and_F0
  by (intro bit_word_eqI) (auto simp: bit_simps not_le not_less)

section \<open>Properties\<close>

text \<open>
  A descriptor that \<^verbatim>\<open>gdt_set\<close> packs gives back the base address, the low 20 bits of
  the limit and the access byte when it is decoded the way the processor does, and no other
  descriptor changes.
\<close>

theorem gdt_set_round_trip:
  "desc_base (gs_gdt (gdt_set i b l a f s) i) = b
   \<and> desc_limit (gs_gdt (gdt_set i b l a f s) i) = take_bit 20 l
   \<and> g_access (gs_gdt (gdt_set i b l a f s) i) = a
   \<and> gs_gdt (gdt_set i b l a f s) = (gs_gdt s)(i := gs_gdt (gdt_set i b l a f s) i)"
  by (simp add: desc_base_set desc_limit_set) (simp add: gdt_set_def)

text \<open>
  After \<^verbatim>\<open>gdt_init\<close> the kernel segments are present with privilege level 0, the user
  segments with level 3, all four start at address 0 with the full limit, and the sixth
  descriptor is the task state segment whose kernel stack is the top of the static stack.
\<close>

theorem gdt_init_segments:
  "let s = gdt_init stack_addr tss_addr gdt_addr s0; g = gs_gdt s in
     map (\<lambda>i. desc_dpl (g i)) [1, 2, 3, 4] = [0, 0, 3, 3]
   \<and> map (\<lambda>i. desc_present (g i)) [0, 1, 2, 3, 4, 5] = [False, True, True, True, True, True]
   \<and> map (\<lambda>i. (desc_base (g i), desc_limit (g i))) [1, 2, 3, 4] = [(0, 0xFFFFF), (0, 0xFFFFF), (0, 0xFFFFF), (0, 0xFFFFF)]
   \<and> desc_base (g 5) = tss_addr \<and> desc_limit (g 5) = 103
   \<and> tss_esp0 (gs_tss s) = stack_addr + 8192 \<and> tss_ss0 (gs_tss s) = 0x10
   \<and> gs_ptr_limit s = 47 \<and> gs_ptr_base s = gdt_addr"
proof -
  have t: "gs_tss (gdt_set i b l a f s) = gs_tss s" for i b l a f s by (simp add: gdt_set_def)
  have o: "gs_gdt (gdt_set i b l a f s) j = gs_gdt s j" if "j \<noteq> i" for i j b l a f s
    using that by (simp add: gdt_set_def)
  have acc: "g_access (gs_gdt (gdt_set i b l a f s) i) = a" for i b l a f s by (simp add: gdt_set_def)
  show ?thesis
    by (simp add: gdt_init_def Let_def desc_base_set desc_limit_set t o acc desc_dpl_def desc_present_def
        SIZEOF_TSS_def GDT_ENTRIES_def GDT_KERNEL_DATA_def)
qed

end
