(* ===== verification/Idt.thy ===== *)
theory Idt
  imports Ports Vga
begin

text \<open>
  Interrupts, \<^verbatim>\<open>src/idt.c\<close>: the interrupt descriptor table, the interrupt controllers,
  the dispatch of exceptions and IRQs to registered handlers, and the panic screen. Handlers
  are names (\<open>'h\<close>), the entry stubs \<^verbatim>\<open>isr0 \<dots> irq15\<close> of the assembly files are
  given by their addresses.
\<close>

section \<open>Registers and table\<close>

record registers_t =
  r_ds :: u32
  r_edi :: u32
  r_esi :: u32
  r_ebp :: u32
  r_esp_dummy :: u32
  r_ebx :: u32
  r_edx :: u32
  r_ecx :: u32
  r_eax :: u32
  r_int_no :: u32
  r_err_code :: u32
  r_eip :: u32
  r_cs :: u32
  r_eflags :: u32
  r_esp :: u32
  r_ss :: u32

record idt_entry_t =
  i_base_low :: u16
  i_selector :: u16
  i_zero :: u8
  i_flags :: u8
  i_base_high :: u16

record 'h idt_state =
  is_idt :: "nat \<Rightarrow> idt_entry_t"
  is_ptr_limit :: u16
  is_ptr_base :: u32
  is_irq_handlers :: "nat \<Rightarrow> 'h option"
  is_exc_handlers :: "nat \<Rightarrow> 'h option"

definition pic_remap :: "'w ports \<Rightarrow> 'w \<Rightarrow> 'w" where
  "pic_remap io w = outs io
     [(0x20, 0x11), (0x80, 0), (0xA0, 0x11), (0x80, 0), (0x21, 0x20), (0x80, 0), (0xA1, 0x28), (0x80, 0),
      (0x21, 0x04), (0x80, 0), (0xA1, 0x02), (0x80, 0), (0x21, 0x01), (0x80, 0), (0xA1, 0x01), (0x80, 0),
      (0x21, 0xFC), (0xA1, 0xFF), (0x80, 0)] w"

definition pic_eoi :: "'w ports \<Rightarrow> u8 \<Rightarrow> 'w \<Rightarrow> 'w" where
  "pic_eoi io irq w = outb io 0x20 0x20 (if irq \<ge> 8 then outb io 0xA0 0x20 w else w)"

definition idt_set :: "nat \<Rightarrow> u32 \<Rightarrow> u16 \<Rightarrow> u8 \<Rightarrow> 'h idt_state \<Rightarrow> 'h idt_state" where
  "idt_set n base sel flags s = s\<lparr>is_idt := (is_idt s)(n :=
     \<lparr>i_base_low = ucast (base AND 0xFFFF), i_selector = sel, i_zero = 0, i_flags = flags,
      i_base_high = ucast (drop_bit 16 base AND 0xFFFF)\<rparr>)\<rparr>"

definition idt_set_raw :: "nat \<Rightarrow> u32 \<Rightarrow> u16 \<Rightarrow> u8 \<Rightarrow> 'h idt_state \<Rightarrow> 'h idt_state" where
  "idt_set_raw n base sel flags s = idt_set n base sel flags s"

definition exc_register :: "int \<Rightarrow> 'h option \<Rightarrow> 'h idt_state \<Rightarrow> 'h idt_state" where
  "exc_register n h s =
     (if n \<ge> 0 \<and> n < 32 then s\<lparr>is_exc_handlers := (is_exc_handlers s)(nat n := h)\<rparr> else s)"

definition irq_register :: "int \<Rightarrow> 'h option \<Rightarrow> 'h idt_state \<Rightarrow> 'h idt_state" where
  "irq_register irq h s =
     (if irq \<ge> 0 \<and> irq < 16 then s\<lparr>is_irq_handlers := (is_irq_handlers s)(nat irq := h)\<rparr> else s)"

definition irq_unregister :: "int \<Rightarrow> 'h idt_state \<Rightarrow> 'h idt_state" where
  "irq_unregister irq s =
     (if irq \<ge> 0 \<and> irq < 16 then s\<lparr>is_irq_handlers := (is_irq_handlers s)(nat irq := None)\<rparr> else s)"

text \<open>\<open>isr\<close> and \<open>irq\<close> give the addresses of the stubs, \<open>idt_addr\<close> that of the table.\<close>

definition idt_init ::
  "(nat \<Rightarrow> u32) \<Rightarrow> (nat \<Rightarrow> u32) \<Rightarrow> u32 \<Rightarrow> 'w ports \<Rightarrow> 'h idt_state \<times> 'w \<Rightarrow> 'h idt_state \<times> 'w" where
  "idt_init isr irq idt_addr io = (\<lambda>(s, w).
     (let s0 = s\<lparr>is_idt := (\<lambda>_. \<lparr>i_base_low = 0, i_selector = 0, i_zero = 0, i_flags = 0, i_base_high = 0\<rparr>),
                is_irq_handlers := (\<lambda>_. None)\<rparr>;
          s1 = fold (\<lambda>n. idt_set n (isr n) 0x08 0x8E) [0..<32] s0;
          w1 = pic_remap io w;
          s2 = fold (\<lambda>n. idt_set (32 + n) (irq n) 0x08 0x8E) [0..<16] s1
      in (s2\<lparr>is_ptr_limit := 8 * 256 - 1, is_ptr_base := idt_addr\<rparr>, w1)))"

section \<open>Dispatch\<close>

text \<open>What the entry stubs make of an interrupt: the handler that runs, or the panic screen.\<close>

datatype 'h dispatch = RunHandler 'h | Panic | NoHandler

definition isr_handler :: "registers_t \<Rightarrow> 'h idt_state \<Rightarrow> 'h dispatch" where
  "isr_handler r s =
     (if r_int_no r < 32 then (case is_exc_handlers s (unat (r_int_no r)) of
        Some h \<Rightarrow> RunHandler h | None \<Rightarrow> Panic) else Panic)"

definition irq_handler :: "'w ports \<Rightarrow> registers_t \<Rightarrow> 'h idt_state \<times> 'w \<Rightarrow> 'h dispatch \<times> 'w" where
  "irq_handler io r = (\<lambda>(s, w).
     (let irq = (ucast (r_int_no r - 32) :: u8);
          w1 = pic_eoi io irq w
      in (if irq < 16 then (case is_irq_handlers s (unat irq) of
            Some h \<Rightarrow> RunHandler h | None \<Rightarrow> NoHandler) else NoHandler, w1)))"

section \<open>The panic screen\<close>

definition exception_names :: "bytes list" where
  "exception_names = [lit ''Division By Zero'', lit ''Debug'', lit ''Non Maskable Interrupt'', lit ''Breakpoint'',
     lit ''Overflow'', lit ''Out of Bounds'', lit ''Invalid Opcode'', lit ''No FPU Coprocessor'',
     lit ''Double Fault'', lit ''Coprocessor Segment Overrun'', lit ''Bad TSS'', lit ''Segment Not Present'',
     lit ''Stack Fault'', lit ''General Protection Fault'', lit ''Page Fault'', lit ''Unknown Interrupt'',
     lit ''FPU Fault'', lit ''Alignment Check'', lit ''Machine Check'', lit ''SIMD Float Exception'']"

definition put_num :: "u32 \<Rightarrow> u32 \<Rightarrow> int \<Rightarrow> int \<Rightarrow> vga_color \<Rightarrow> bytes \<times> vga \<Rightarrow> (bytes \<times> vga) option" where
  "put_num val base x y fg = (\<lambda>(buf, v). do {
     buf' \<leftarrow> kitoa val buf base;
     v' \<leftarrow> vga_puts_at buf' x y fg VGA_RED v;
     Some (buf', v') })"

definition REGROW :: "bytes \<Rightarrow> u32 \<Rightarrow> int \<Rightarrow> int \<Rightarrow> bytes \<times> vga \<Rightarrow> (bytes \<times> vga) option" where
  "REGROW label val col row = (\<lambda>(buf, v). do {
     v1 \<leftarrow> vga_puts_at label col row VGA_WHITE VGA_RED v;
     put_num val 16 (col + 5) row VGA_YELLOW (buf, v1) })"

fun seq_opt :: "('s \<Rightarrow> 's option) list \<Rightarrow> 's \<Rightarrow> 's option" where
  "seq_opt [] s = Some s"
| "seq_opt (f # fs) s = do { s' \<leftarrow> f s; seq_opt fs s' }"

definition panic_regs :: "registers_t \<Rightarrow> (bytes \<times> vga \<Rightarrow> (bytes \<times> vga) option) list" where
  "panic_regs r =
     [REGROW (lit ''EAX='') (r_eax r) 5 8, REGROW (lit ''EBX='') (r_ebx r) 25 8,
      REGROW (lit ''ECX='') (r_ecx r) 45 8, REGROW (lit ''EDX='') (r_edx r) 65 8,
      REGROW (lit ''ESI='') (r_esi r) 5 9, REGROW (lit ''EDI='') (r_edi r) 25 9,
      REGROW (lit ''EBP='') (r_ebp r) 45 9, REGROW (lit ''ESP='') (r_esp r) 65 9,
      REGROW (lit ''EIP='') (r_eip r) 5 10, REGROW (lit ''EFL='') (r_eflags r) 25 10,
      REGROW (lit ''CS= '') (r_cs r) 45 10, REGROW (lit ''SS= '') (r_ss r) 65 10]"

definition label_at :: "bytes \<Rightarrow> int \<Rightarrow> int \<Rightarrow> vga_color \<Rightarrow> bytes \<times> vga \<Rightarrow> (bytes \<times> vga) option" where
  "label_at s x y fg = (\<lambda>(buf, v). map_option (Pair buf) (vga_puts_at s x y fg VGA_RED v))"

definition panic_fault :: "registers_t \<Rightarrow> u32 \<Rightarrow> (bytes \<times> vga \<Rightarrow> (bytes \<times> vga) option) list" where
  "panic_fault r cr2 =
     (if r_int_no r = 14 then
       [label_at (lit ''CR2 (fault addr):'') 5 12 VGA_WHITE, put_num cr2 16 23 12 VGA_YELLOW,
        label_at (lit ''Cause: '') 5 13 VGA_WHITE,
        label_at (if tst (r_err_code r) 1 then lit ''Protection violation'' else lit ''Page not present'')
          12 13 VGA_YELLOW,
        label_at (if tst (r_err_code r) 2 then lit '' on WRITE'' else lit '' on READ'') 32 13 VGA_YELLOW]
      else [])"

text \<open>
  The stack trace reads the frames from memory, \<open>rd\<close>. The loop ends because of
  \<^verbatim>\<open>frame < 5\<close>.
\<close>

fun stack_trace :: "(u32 \<Rightarrow> u32) \<Rightarrow> u32 \<Rightarrow> nat \<Rightarrow> bytes \<times> vga \<Rightarrow> (bytes \<times> vga) option" where
  "stack_trace rd ebp 0 s = Some s"
| "stack_trace rd ebp (Suc left) s =
     (let frame = 4 - left; row = 16 + int frame in
      if ebp = 0 \<or> \<not> row < 21 then Some s
      else
        (let ret = rd (ebp + 4) in
         if ret < 0x100000 \<or> ret > 0x800000 then Some s
         else do {
           s' \<leftarrow> seq_opt [label_at (lit ''#'') 5 row VGA_WHITE, put_num (of_nat frame) 10 7 row VGA_WHITE,
                  label_at (lit '' EIP=0x'') 9 row VGA_WHITE, put_num ret 16 16 row VGA_YELLOW] s;
           stack_trace rd (rd ebp) left s' }))"

definition draw_panic :: "registers_t \<Rightarrow> u32 \<Rightarrow> (u32 \<Rightarrow> u32) \<Rightarrow> bytes \<Rightarrow> vga \<Rightarrow> vga option" where
  "draw_panic r cr2 rd buf0 v0 = do {
     let v1 = vga_fill_rect 0 0 80 25 (of_char CHR '' '') VGA_WHITE VGA_RED v0;
     let name = (if r_int_no r < 20 then exception_names ! unat (r_int_no r) else lit ''Unknown Exception'');
     s1 \<leftarrow> seq_opt ([label_at (lit ''*** KumOS KERNEL PANIC ***'') 27 1 VGA_YELLOW,
             label_at (lit ''Exception: '') 5 3 VGA_WHITE, label_at name 16 3 VGA_YELLOW,
             label_at (lit ''INT:'') 5 4 VGA_WHITE, put_num (r_int_no r) 16 10 4 VGA_YELLOW,
             label_at (lit ''ERR:'') 20 4 VGA_WHITE, put_num (r_err_code r) 16 25 4 VGA_YELLOW,
             label_at (lit ''--- Register Dump ---'') 29 6 VGA_WHITE]
             @ panic_regs r @ panic_fault r cr2
             @ [label_at (lit ''--- Stack Trace ---'') 30 15 VGA_WHITE]) (buf0, v1);
     s2 \<leftarrow> stack_trace rd (r_ebp r) 5 s1;
     s3 \<leftarrow> seq_opt [label_at (lit ''System halted. Reset to continue.'') 23 22 VGA_WHITE,
             label_at (lit ''KumOS v1.1 | KumLabs'') 30 23 VGA_LIGHT_GREY] s2;
     Some (snd s3) }"

section \<open>Lemmas\<close>

definition entry_base :: "idt_entry_t \<Rightarrow> u32" where
  "entry_base e = ucast (i_base_low e) OR push_bit 16 (ucast (i_base_high e))"

lemma entry_base_set: "entry_base (is_idt (idt_set n b sel f s) n) = b"
proof (intro bit_word_eqI)
  fix k assume "k < LENGTH(32)"
  then consider "k < 16" | "16 \<le> k" "k < 32" by fastforce
  then show "bit (entry_base (is_idt (idt_set n b sel f s) n)) k = bit b k"
    unfolding entry_base_def idt_set_def and_masks by cases (simp_all add: bit_simps less_diff_conv2)
qed

lemma fold_idt_set:
  "inj_on g (set ns) \<Longrightarrow> distinct ns \<Longrightarrow>
     is_idt (fold (\<lambda>n. idt_set (g n) (a n) sel f) ns s) k =
       (if k \<in> g ` set ns then is_idt (idt_set k (a (the_inv_into (set ns) g k)) sel f s) k else is_idt s k)"
proof (induction ns rule: rev_induct)
  case (snoc n ns)
  have inj: "inj_on g (set ns)" using snoc.prems(1) by (rule inj_on_subset) auto
  have "the_inv_into (set (ns @ [n])) g (g m) = m" "m \<in> set ns \<Longrightarrow> the_inv_into (set ns) g (g m) = m"
    if "m \<in> set (ns @ [n])" for m
    using snoc.prems(1) inj that by (auto intro: the_inv_into_f_f)
  with snoc inj show ?case by (auto simp: idt_set_def)
qed simp

lemma puts_at_defined: "terminated s \<Longrightarrow> \<exists>v'. puts_at_loop s x y c v = Some v'"
  by (induction s x y c v rule: puts_at_loop.induct) auto

lemma put_num_defined:
  "2 \<le> base \<Longrightarrow> base \<le> 16 \<Longrightarrow> 33 \<le> length buf \<Longrightarrow>
     \<exists>buf' v'. put_num val base x y fg (buf, v) = Some (buf', v') \<and> length buf' = length buf"
proof -
  assume "2 \<le> base" "base \<le> 16" "33 \<le> length buf"
  then obtain b where b: "kitoa val buf base = Some b" "length b = length buf" "terminated b"
    using kitoa_spec by blast
  obtain v' where "puts_at_loop b x y (vga_color_make fg VGA_RED) v = Some v'"
    using puts_at_defined [OF b(3)] by blast
  with b show ?thesis by (simp add: put_num_def vga_puts_at_def)
qed

text \<open>A step of the panic screen: defined on every buffer of 64 bytes, which it keeps.\<close>

definition panic_step :: "(bytes \<times> vga \<Rightarrow> (bytes \<times> vga) option) \<Rightarrow> bool" where
  "panic_step f \<longleftrightarrow> (\<forall>buf v. length buf = 64 \<longrightarrow> (\<exists>buf' v'. f (buf, v) = Some (buf', v') \<and> length buf' = 64))"

lemma panic_stepI:
  "(\<And>buf v. length buf = 64 \<Longrightarrow> \<exists>buf' v'. f (buf, v) = Some (buf', v') \<and> length buf' = 64) \<Longrightarrow> panic_step f"
  by (simp add: panic_step_def)

lemma panic_stepE:
  assumes "panic_step f" "length buf = 64"
  obtains buf' v' where "f (buf, v) = Some (buf', v')" "length buf' = 64"
  using assms unfolding panic_step_def by blast

lemma panic_step_num: "2 \<le> base \<Longrightarrow> base \<le> 16 \<Longrightarrow> panic_step (put_num val base x y fg)"
proof (rule panic_stepI)
  fix buf :: bytes and v assume "2 \<le> base" "base \<le> 16" "length buf = 64"
  then show "\<exists>buf' v'. put_num val base x y fg (buf, v) = Some (buf', v') \<and> length buf' = 64"
    using put_num_defined [of base buf val x y fg v] by simp
qed

lemma panic_step_label:
  assumes "terminated s"
  shows "panic_step (label_at s x y fg)"
proof (rule panic_stepI)
  fix buf :: bytes and v assume "length buf = 64"
  then show "\<exists>buf' v'. label_at s x y fg (buf, v) = Some (buf', v') \<and> length buf' = 64"
    using puts_at_defined [OF assms, of x y "vga_color_make fg VGA_RED" v]
    by (auto simp: label_at_def vga_puts_at_def)
qed

lemma panic_step_regrow:
  assumes "terminated s"
  shows "panic_step (REGROW s val c r)"
proof (rule panic_stepI)
  fix buf :: bytes and v assume b: "length buf = 64"
  obtain v1 where v1: "puts_at_loop s c r (vga_color_make VGA_WHITE VGA_RED) v = Some v1"
    using puts_at_defined [OF assms] by blast
  show "\<exists>buf' v'. REGROW s val c r (buf, v) = Some (buf', v') \<and> length buf' = 64"
    using put_num_defined [of 16 buf val "c + 5" r VGA_YELLOW v1] b v1
    by (simp add: REGROW_def vga_puts_at_def)
qed

lemma seq_opt_defined: "list_all panic_step fs \<Longrightarrow> panic_step (seq_opt fs)"
proof (induction fs)
  case (Cons f fs)
  then have f: "panic_step f" and fs: "panic_step (seq_opt fs)" by simp_all
  show ?case
  proof (rule panic_stepI)
    fix buf :: bytes and v assume "length buf = 64"
    then obtain b1 v1 where 1: "f (buf, v) = Some (b1, v1)" "length b1 = 64" using f panic_stepE by blast
    obtain b2 v2 where "seq_opt fs (b1, v1) = Some (b2, v2)" "length b2 = 64" using panic_stepE [OF fs 1(2)] .
    with 1 show "\<exists>buf' v'. seq_opt (f # fs) (buf, v) = Some (buf', v') \<and> length buf' = 64" by simp
  qed
qed (simp add: panic_step_def)

lemma stack_trace_defined: "length (fst s) = 64 \<Longrightarrow> \<exists>buf v. stack_trace rd ebp n s = Some (buf, v) \<and> length buf = 64"
proof (induction n arbitrary: ebp s)
  case 0
  then show ?case by (cases s) simp
next
  case (Suc n)
  obtain buf v where s: "s = (buf, v)" by fastforce
  let ?fs = "[label_at (lit ''#'') 5 (16 + int (4 - n)) VGA_WHITE, put_num (of_nat (4 - n)) 10 7 (16 + int (4 - n)) VGA_WHITE,
      label_at (lit '' EIP=0x'') 9 (16 + int (4 - n)) VGA_WHITE, put_num (rd (ebp + 4)) 16 16 (16 + int (4 - n)) VGA_YELLOW]"
  have "panic_step (seq_opt ?fs)"
    by (rule seq_opt_defined) (simp add: panic_step_num panic_step_label)
  then obtain buf' v' where q: "seq_opt ?fs s = Some (buf', v')" "length buf' = 64"
    using Suc.prems unfolding s panic_step_def by fastforce
  show ?case using Suc q s by (simp add: Let_def del: seq_opt.simps)
qed

section \<open>Properties\<close>

text \<open>
  The panic screen never runs outside its buffer or a string, whatever the registers, the
  fault address and the memory the stack trace reads.
\<close>

theorem draw_panic_defined:
  assumes "length buf0 = 64"
  shows "\<exists>v. draw_panic r cr2 rd buf0 v0 = Some v"
proof -
  define name where "name = (if r_int_no r < 20 then exception_names ! unat (r_int_no r) else lit ''Unknown Exception'')"
  have "list_all terminated exception_names" by (simp add: exception_names_def)
  moreover have "length exception_names = 20" by (simp add: exception_names_def)
  ultimately have nm: "terminated name"
    by (auto simp: name_def list_all_length word_less_nat_alt)
  let ?fs = "[label_at (lit ''*** KumOS KERNEL PANIC ***'') 27 1 VGA_YELLOW,
             label_at (lit ''Exception: '') 5 3 VGA_WHITE, label_at name 16 3 VGA_YELLOW,
             label_at (lit ''INT:'') 5 4 VGA_WHITE, put_num (r_int_no r) 16 10 4 VGA_YELLOW,
             label_at (lit ''ERR:'') 20 4 VGA_WHITE, put_num (r_err_code r) 16 25 4 VGA_YELLOW,
             label_at (lit ''--- Register Dump ---'') 29 6 VGA_WHITE]
             @ panic_regs r @ panic_fault r cr2
             @ [label_at (lit ''--- Stack Trace ---'') 30 15 VGA_WHITE]"
  let ?gs = "[label_at (lit ''System halted. Reset to continue.'') 23 22 VGA_WHITE,
             label_at (lit ''KumOS v1.1 | KumLabs'') 30 23 VGA_LIGHT_GREY]"
  have fs: "panic_step (seq_opt ?fs)" and gs: "panic_step (seq_opt ?gs)"
    by (rule seq_opt_defined, simp add: panic_step_num panic_step_label panic_step_regrow nm
        panic_regs_def panic_fault_def)+
  obtain b1 v1 where 1: "seq_opt ?fs (buf0, vga_fill_rect 0 0 80 25 (of_char CHR '' '') VGA_WHITE VGA_RED v0) = Some (b1, v1)"
    "length b1 = 64" using fs assms unfolding panic_step_def by blast
  obtain b2 v2 where 2: "stack_trace rd (r_ebp r) 5 (b1, v1) = Some (b2, v2)" "length b2 = 64"
    using stack_trace_defined [of "(b1, v1)" rd "r_ebp r" 5] 1(2) by auto
  obtain b3 v3 where 3: "seq_opt ?gs (b2, v2) = Some (b3, v3)"
    using gs 2(2) unfolding panic_step_def by blast
  show ?thesis unfolding draw_panic_def Let_def name_def [symmetric] using 1 2 3 by (simp del: seq_opt.simps append.simps)
qed

lemma draw_panic_defined_witness:
  "\<exists>v. draw_panic \<lparr>r_ds = 0, r_edi = 0, r_esi = 0, r_ebp = 0x1000, r_esp_dummy = 0, r_ebx = 0, r_edx = 0, r_ecx = 0,
     r_eax = 0xFFFFFFFF, r_int_no = 14, r_err_code = 3, r_eip = 0, r_cs = 8, r_eflags = 0, r_esp = 0, r_ss = 0\<rparr>
     0xDEAD (\<lambda>_. 0x200000) (replicate 64 0) vga0 = Some v"
  by (rule draw_panic_defined) simp

text \<open>
  After \<^verbatim>\<open>idt_init\<close> the vectors 0 to 31 lead to the exception stubs and 32 to 47 to
  the IRQ stubs, all other vectors are empty, and the table's limit covers 256 entries.
\<close>

theorem idt_init_vectors:
  "let s' = fst (idt_init isr irq addr io (s, w)) in
     map (\<lambda>n. entry_base (is_idt s' n)) [0..<48] = map isr [0..<32] @ map irq [0..<16]
   \<and> map (\<lambda>n. i_flags (is_idt s' n)) [0..<256] = replicate 48 0x8E @ replicate 208 0
   \<and> is_irq_handlers s' = (\<lambda>_. None) \<and> is_ptr_limit s' = 2047"
proof -
  let ?z = "s\<lparr>is_idt := (\<lambda>_. \<lparr>i_base_low = 0, i_selector = 0, i_zero = 0, i_flags = 0, i_base_high = 0\<rparr>),
                is_irq_handlers := (\<lambda>_. None)\<rparr>"
  let ?s1 = "fold (\<lambda>n. idt_set n (isr n) 0x08 0x8E) [0..<32] ?z"
  let ?s2 = "fold (\<lambda>n. idt_set (32 + n) (irq n) 0x08 0x8E) [0..<16] ?s1"
  have s1: "is_idt ?s1 k = (if k < 32 then is_idt (idt_set k (isr k) 0x08 0x8E ?z) k else is_idt ?z k)" for k
    using fold_idt_set [of "\<lambda>n. n" "[0..<32]" isr "0x08" "0x8E" ?z k]
      the_inv_into_f_f [of "\<lambda>n. n" "{0..<32::nat}" k] by simp
  have im: "(\<lambda>n. 32 + n) ` {0..<16} = {32..<48::nat}" by (simp only: image_add_atLeastLessThan) simp
  have inv: "the_inv_into {0..<16} (\<lambda>n. 32 + n) k = k - 32" if "32 \<le> k" "k < 48" for k :: nat
    using the_inv_into_f_f [of "\<lambda>n. 32 + n" "{0..<16::nat}" "k - 32"] that by (simp add: inj_on_def)
  have s2: "is_idt ?s2 k = (if 32 \<le> k \<and> k < 48 then is_idt (idt_set k (irq (k - 32)) 0x08 0x8E ?s1) k
      else is_idt ?s1 k)" for k
    using fold_idt_set [of "\<lambda>n. 32 + n" "[0..<16]" irq "0x08" "0x8E" ?s1 k] inv [of k]
    by (simp only: set_upt im) (auto simp: inj_on_def)
  have h: "is_irq_handlers (fold (\<lambda>n. idt_set (g n) (a n) sel f) ns t) = is_irq_handlers t" for g a sel f ns t
    by (induction ns rule: rev_induct) (simp_all add: idt_set_def)
  have b: "entry_base (is_idt ?s2 n) = (if n < 32 then isr n else irq (n - 32))" if "n < 48" for n
    unfolding s2 s1 using that by (simp add: entry_base_set)
  have fl: "i_flags (is_idt ?s2 n) = (if n < 48 then 0x8E else 0)" for n
    unfolding s2 s1 by (simp add: idt_set_def)
  show ?thesis
    unfolding idt_init_def Let_def prod.case fst_conv
  proof (intro conjI)
    show "map (\<lambda>n. entry_base (is_idt (?s2\<lparr>is_ptr_limit := 8 * 256 - 1, is_ptr_base := addr\<rparr>) n)) [0..<48]
        = map isr [0..<32] @ map irq [0..<16]"
      by (rule nth_equalityI) (auto simp: b nth_append)
    show "map (\<lambda>n. i_flags (is_idt (?s2\<lparr>is_ptr_limit := 8 * 256 - 1, is_ptr_base := addr\<rparr>) n)) [0..<256]
        = replicate 48 0x8E @ replicate 208 0"
      by (rule nth_equalityI) (auto simp: fl nth_append)
  qed (simp_all add: h h [of "\<lambda>n. n"])
qed

end
