(* ===== verification/Sched.thy ===== *)
theory Sched
  imports KHeap Gdt Vga
begin

text \<open>
  The scheduler, \<^verbatim>\<open>src/sched.c\<close>. The state holds the task table, the words of the
  kernel stacks (\<open>sc_stk\<close>, by address) and the task state segment. The value of
  \<^verbatim>\<open>timer_ticks()\<close> is the argument \<open>now\<close>. \<^verbatim>\<open>switch_context\<close> (assembly) changes the
  running stack: \<open>sched_yield\<close> and \<open>sched_tick\<close> give the pair of the task that stops and
  the task that runs on, or nothing when the caller goes on itself. \<open>None\<close> is the division
  by zero of an uninitialised table.
\<close>

section \<open>State\<close>

datatype task_state_t = TASK_RUNNING | TASK_READY | TASK_SLEEPING | TASK_DEAD | TASK_ZOMBIE

definition SCHED_STACK_SIZE :: nat where "SCHED_STACK_SIZE = 4096"
definition SCHED_MAX_TASKS :: nat where "SCHED_MAX_TASKS = 16"
definition SCHED_QUANTUM :: u32 where "SCHED_QUANTUM = 10"

record task_t =
  t_esp :: nat
  t_stack :: nat
  t_stack_size :: nat
  t_state :: task_state_t
  t_pid :: int
  t_parent_pid :: int
  t_exit_code :: int
  t_name :: bytes
  t_ticks :: u32
  t_sleep_until :: u32
  t_kum_level :: int
  t_page_dir_phys :: u32
  t_cwd :: bytes
  t_argv :: "u32 list"
  t_argc :: int
  t_brk :: u32

record sched =
  sc_tasks :: "nat \<Rightarrow> task_t"
  sc_count :: nat
  sc_current :: nat
  sc_next_pid :: int
  sc_tick_accum :: u32
  sc_stk :: "nat \<Rightarrow> u32"
  sc_tss :: tss_entry_t

definition task_zero :: task_t where
  "task_zero = \<lparr>t_esp = 0, t_stack = 0, t_stack_size = 0, t_state = TASK_RUNNING, t_pid = 0, t_parent_pid = 0,
     t_exit_code = 0, t_name = replicate 32 0, t_ticks = 0, t_sleep_until = 0, t_kum_level = 0,
     t_page_dir_phys = 0, t_cwd = replicate 128 0, t_argv = replicate 16 0, t_argc = 0, t_brk = 0\<rparr>"

definition upd_task :: "nat \<Rightarrow> (task_t \<Rightarrow> task_t) \<Rightarrow> sched \<Rightarrow> sched" where
  "upd_task i f s = s\<lparr>sc_tasks := (sc_tasks s)(i := f (sc_tasks s i))\<rparr>"

abbreviation tstate :: "sched \<Rightarrow> nat \<Rightarrow> task_state_t" where
  "tstate s i \<equiv> t_state (sc_tasks s i)"

section \<open>Operations\<close>

text \<open>\<^verbatim>\<open>*--sp = v\<close> for a list of values, from the top of the stack down.\<close>

fun push_words :: "u32 list \<Rightarrow> nat \<Rightarrow> (nat \<Rightarrow> u32) \<Rightarrow> nat \<times> (nat \<Rightarrow> u32)" where
  "push_words [] sp m = (sp, m)"
| "push_words (v # vs) sp m = push_words vs (sub32 sp 4) (m(sub32 sp 4 := v))"

definition task_setup_stack :: "nat \<Rightarrow> u32 \<Rightarrow> sched \<Rightarrow> sched" where
  "task_setup_stack i entry s =
     (let t = sc_tasks s i;
          top = w32 (t_stack t + t_stack_size t);
          (sp1, m1) = push_words [0x10] top (sc_stk s);
          esp_val = w32 (sp1 + 20);
          (sp2, m2) = push_words ([of_nat esp_val, 0x202, 0x08, entry] @ replicate 8 0 @ [0x10]) sp1 m1
      in (upd_task i (\<lambda>x. x\<lparr>t_esp := sp2\<rparr>) s)\<lparr>sc_stk := m2\<rparr>)"

definition sched_init :: "u32 \<Rightarrow> sched \<times> kheap \<Rightarrow> (sched \<times> kheap) option" where
  "sched_init idle_entry = (\<lambda>(s, h). do {
     let s0 = s\<lparr>sc_tasks := (\<lambda>_. task_zero), sc_count := 0, sc_current := 0, sc_tick_accum := 0\<rparr>;
     nm \<leftarrow> kstrcpy (t_name task_zero) (lit ''kshell'');
     let s1 = (upd_task 0 (\<lambda>x. x\<lparr>t_pid := sc_next_pid s0, t_state := TASK_RUNNING, t_stack := 0,
                 t_kum_level := 1, t_stack_size := 0, t_parent_pid := 0, t_name := nm\<rparr>) s0)
                 \<lparr>sc_next_pid := sc_next_pid s0 + 1, sc_count := 1\<rparr>;
     (stk, h1) \<leftarrow> kmalloc SCHED_STACK_SIZE h;
     if stk = 0 then Some (s1, h1)
     else do {
       nm2 \<leftarrow> kstrcpy (t_name task_zero) (lit ''idle'');
       let s2 = (upd_task 1 (\<lambda>x. x\<lparr>t_pid := sc_next_pid s1, t_state := TASK_READY, t_stack := stk,
                 t_stack_size := SCHED_STACK_SIZE, t_kum_level := 1, t_parent_pid := 0, t_name := nm2\<rparr>) s1)
                 \<lparr>sc_next_pid := sc_next_pid s1 + 1\<rparr>;
       Some ((task_setup_stack 1 idle_entry s2)\<lparr>sc_count := 2\<rparr>, h1) } })"

definition free_slot :: "sched \<Rightarrow> nat \<Rightarrow> bool" where
  "free_slot s i \<longleftrightarrow> tstate s i = TASK_DEAD \<or> tstate s i = TASK_ZOMBIE \<or> t_pid (sc_tasks s i) = 0"

definition sched_spawn :: "bytes \<Rightarrow> u32 \<Rightarrow> int \<Rightarrow> sched \<times> kheap \<Rightarrow> (int \<times> sched \<times> kheap) option" where
  "sched_spawn name entry kum_level = (\<lambda>(s, h).
     (if sc_count s \<ge> SCHED_MAX_TASKS then Some (-1, s, h)
      else do {
        (stk, h1) \<leftarrow> kmalloc SCHED_STACK_SIZE h;
        if stk = 0 then Some (-1, s, h1)
        else do {
          let slot = (case first_idx (free_slot s) 0 SCHED_MAX_TASKS of None \<Rightarrow> sc_count s | Some i \<Rightarrow> i);
          if slot \<ge> SCHED_MAX_TASKS then Some (-1, s, kfree stk h1)
          else do {
            let parent = t_pid (sc_tasks s (sc_current s));
            nm \<leftarrow> kstrcpy (t_name (sc_tasks s slot)) name;
            let s1 = (upd_task slot (\<lambda>x. x\<lparr>t_pid := sc_next_pid s, t_state := TASK_READY, t_stack := stk,
                        t_stack_size := SCHED_STACK_SIZE, t_ticks := 0, t_exit_code := 0,
                        t_kum_level := kum_level, t_parent_pid := parent, t_name := nm\<rparr>) s)
                        \<lparr>sc_next_pid := sc_next_pid s + 1\<rparr>;
            let s2 = task_setup_stack slot entry s1;
            Some (t_pid (sc_tasks s2 slot),
                  if slot \<ge> sc_count s2 then s2\<lparr>sc_count := slot + 1\<rparr> else s2, h1) } } }))"

definition wake :: "u32 \<Rightarrow> nat \<Rightarrow> sched \<Rightarrow> sched" where
  "wake now i s =
     (if tstate s i = TASK_SLEEPING \<and> now \<ge> t_sleep_until (sc_tasks s i)
      then upd_task i (\<lambda>x. x\<lparr>t_state := TASK_READY\<rparr>) s else s)"

text \<open>The \<^verbatim>\<open>do ... while (i != start)\<close> loop visits each of the \<^verbatim>\<open>task_count\<close> slots once.\<close>

fun pick_loop :: "u32 \<Rightarrow> nat \<Rightarrow> nat \<Rightarrow> sched \<Rightarrow> nat \<times> sched" where
  "pick_loop now 0 i s = (0, s)"
| "pick_loop now (Suc n) i s =
     (let s1 = wake now i s
      in if tstate s1 i = TASK_READY \<or> tstate s1 i = TASK_RUNNING then (i, s1)
         else pick_loop now n ((i + 1) mod sc_count s1) s1)"

definition pick_next :: "u32 \<Rightarrow> sched \<Rightarrow> (nat \<times> sched) option" where
  "pick_next now s =
     (if sc_count s = 0 then None
      else Some (pick_loop now (sc_count s) ((sc_current s + 1) mod sc_count s) s))"

text \<open>The statements that make \<open>next\<close> the running task.\<close>

definition switch_to :: "nat \<Rightarrow> sched \<Rightarrow> sched" where
  "switch_to next s =
     (let prev = sc_current s;
          s1 = (if tstate s prev = TASK_RUNNING then upd_task prev (\<lambda>x. x\<lparr>t_state := TASK_READY\<rparr>) s else s);
          s2 = (upd_task next (\<lambda>x. x\<lparr>t_state := TASK_RUNNING\<rparr>) s1)\<lparr>sc_current := next\<rparr>
      in s2\<lparr>sc_tss := tss_set_kernel_stack
               (of_nat (w32 (t_stack (sc_tasks s2 next) + t_stack_size (sc_tasks s2 next)))) (sc_tss s2)\<rparr>)"

definition sched_yield :: "u32 \<Rightarrow> sched \<Rightarrow> (sched \<times> (nat \<times> nat) option) option" where
  "sched_yield now s = do {
     (next, s1) \<leftarrow> pick_next now s;
     if next = sc_current s1 then Some (s1, None)
     else Some (switch_to next s1, Some (sc_current s1, next)) }"

definition sched_exit_code ::
  "int \<Rightarrow> u32 \<Rightarrow> sched \<times> kheap \<Rightarrow> ((sched \<times> (nat \<times> nat) option) \<times> kheap) option" where
  "sched_exit_code code now = (\<lambda>(s, h). do {
     let c = sc_current s;
     let s1 = upd_task c (\<lambda>x. x\<lparr>t_exit_code := code\<rparr>) s;
     let has_parent = (first_idx (\<lambda>i. t_pid (sc_tasks s1 i) = t_parent_pid (sc_tasks s1 c)
            \<and> tstate s1 i \<noteq> TASK_DEAD \<and> tstate s1 i \<noteq> TASK_ZOMBIE) 0 (sc_count s1) \<noteq> None);
     let s2 = upd_task c (\<lambda>x. x\<lparr>t_state := if has_parent then TASK_ZOMBIE else TASK_DEAD\<rparr>) s1;
     let stk = t_stack (sc_tasks s2 c);
     let (s3, h1) = (if stk \<noteq> 0 then (upd_task c (\<lambda>x. x\<lparr>t_stack := 0\<rparr>) s2, kfree stk h) else (s2, h));
     r \<leftarrow> sched_yield now s3;
     Some (r, h1) })"

definition sched_exit :: "u32 \<Rightarrow> sched \<times> kheap \<Rightarrow> ((sched \<times> (nat \<times> nat) option) \<times> kheap) option" where
  "sched_exit now = sched_exit_code 0 now"

definition sched_sleep :: "u32 \<Rightarrow> u32 \<Rightarrow> sched \<Rightarrow> (sched \<times> (nat \<times> nat) option) option" where
  "sched_sleep ms now s =
     sched_yield now (upd_task (sc_current s)
       (\<lambda>x. x\<lparr>t_state := TASK_SLEEPING, t_sleep_until := now + (ms * 100 div 1000)\<rparr>) s)"

definition sched_tick :: "u32 \<Rightarrow> sched \<Rightarrow> (sched \<times> (nat \<times> nat) option) option" where
  "sched_tick now s =
     (let s1 = (upd_task (sc_current s) (\<lambda>x. x\<lparr>t_ticks := t_ticks x + 1\<rparr>) s)
                 \<lparr>sc_tick_accum := sc_tick_accum s + 1\<rparr>;
          s2 = fold (wake now) [0..<sc_count s1] s1
      in if sc_tick_accum s2 \<ge> SCHED_QUANTUM
         then do {
           (next, s3) \<leftarrow> pick_next now (s2\<lparr>sc_tick_accum := 0\<rparr>);
           if next \<noteq> sc_current s3 then Some (switch_to next s3, Some (sc_current s3, next))
           else Some (s3, None) }
         else Some (s2, None))"

definition sched_current :: "sched \<Rightarrow> nat" where
  "sched_current s = sc_current s"

definition sched_get_task :: "sched \<Rightarrow> int \<Rightarrow> nat option" where
  "sched_get_task s pid =
     first_idx (\<lambda>i. t_pid (sc_tasks s i) = pid \<and> tstate s i \<noteq> TASK_DEAD) 0 (sc_count s)"

text \<open>
  One pass through the body of the loops of \<^verbatim>\<open>sched_waitpid\<close> and \<^verbatim>\<open>sched_wait\<close>:
  a return, or \<^verbatim>\<open>sched_yield\<close> and another pass when the task runs again.
\<close>

datatype 'a wait_result = WaitRet 'a | WaitAgain "(nat \<times> nat) option"

definition wait_again :: "u32 \<Rightarrow> sched \<Rightarrow> (sched \<times> 'a wait_result) option" where
  "wait_again now s = map_option (\<lambda>(s', sw). (s', WaitAgain sw)) (sched_yield now s)"

definition sched_waitpid :: "int \<Rightarrow> u32 \<Rightarrow> sched \<Rightarrow> (sched \<times> int wait_result) option" where
  "sched_waitpid pid now s =
     (case first_idx (\<lambda>i. t_pid (sc_tasks s i) = pid) 0 (sc_count s) of
        None \<Rightarrow> Some (s, WaitRet 0)
      | Some i \<Rightarrow>
          if tstate s i = TASK_ZOMBIE \<or> tstate s i = TASK_DEAD
          then Some (upd_task i (\<lambda>x. x\<lparr>t_state := TASK_DEAD\<rparr>) s, WaitRet (t_exit_code (sc_tasks s i)))
          else wait_again now s)"

text \<open>The result of \<^verbatim>\<open>sched_wait\<close> is the pid and, when a child was found, its exit code.\<close>

definition sched_wait :: "u32 \<Rightarrow> sched \<Rightarrow> (sched \<times> (int \<times> int option) wait_result) option" where
  "sched_wait now s =
     (let my_pid = t_pid (sc_tasks s (sc_current s)) in
      case first_idx (\<lambda>i. t_parent_pid (sc_tasks s i) = my_pid
               \<and> (tstate s i = TASK_ZOMBIE \<or> tstate s i = TASK_DEAD)) 0 (sc_count s) of
        Some i \<Rightarrow> Some (upd_task i (\<lambda>x. x\<lparr>t_state := TASK_DEAD\<rparr>) s,
                      WaitRet (t_pid (sc_tasks s i), Some (t_exit_code (sc_tasks s i))))
      | None \<Rightarrow>
          if filter (\<lambda>i. t_parent_pid (sc_tasks s i) = my_pid \<and> tstate s i \<noteq> TASK_DEAD) [0..<sc_count s] = []
          then Some (s, WaitRet (-1, None))
          else wait_again now s)"

primrec tstate_str :: "task_state_t \<Rightarrow> bytes" where
  "tstate_str TASK_RUNNING = lit ''RUN  ''"
| "tstate_str TASK_READY = lit ''READY''"
| "tstate_str TASK_SLEEPING = lit ''SLEEP''"
| "tstate_str TASK_DEAD = lit ''DEAD ''"
| "tstate_str TASK_ZOMBIE = lit ''ZOMBI''"

definition sched_list_entry :: "sched \<Rightarrow> nat \<Rightarrow> vga \<Rightarrow> vga option" where
  "sched_list_entry s i v =
     (let t = sc_tasks s i in
      if t_state t = TASK_DEAD \<and> t_pid t = 0 then Some v
      else do {
        v1 \<leftarrow> vga_puts (lit ''  '') v;
        v2 \<leftarrow> vga_put_dec (of_int (t_pid t)) v1;
        v3 \<leftarrow> vga_puts (lit ''    '') v2;
        v4 \<leftarrow> vga_puts (tstate_str (t_state t)) v3;
        v5 \<leftarrow> vga_puts (lit ''  '') v4;
        v6 \<leftarrow> vga_put_dec (t_ticks t) v5;
        v7 \<leftarrow> vga_puts (lit ''    '') v6;
        v8 \<leftarrow> vga_puts (if t_kum_level t \<noteq> 0 then lit ''yes'' else lit ''no '') v7;
        v9 \<leftarrow> vga_puts (lit ''  '') v8;
        v10 \<leftarrow> (if i = sc_current s then do {
                 a \<leftarrow> vga_puts (t_name t) (vga_set_color VGA_GREEN VGA_BLACK v9);
                 b \<leftarrow> vga_puts (lit '' *'') a;
                 Some (vga_set_color VGA_WHITE VGA_BLACK b) }
               else vga_puts (t_name t) v9);
        Some (vga_putchar 10 v10) })"

fun sched_list_loop :: "sched \<Rightarrow> nat list \<Rightarrow> vga \<Rightarrow> vga option" where
  "sched_list_loop s [] v = Some v"
| "sched_list_loop s (i # is) v = do { v' \<leftarrow> sched_list_entry s i v; sched_list_loop s is v' }"

definition sched_list :: "sched \<Rightarrow> vga \<Rightarrow> vga option" where
  "sched_list s v = do {
     v1 \<leftarrow> vga_puts (lit_lines [''  PID  STATE  TICKS   KUM  NAME'']) (vga_set_color VGA_YELLOW VGA_BLACK v);
     v2 \<leftarrow> vga_puts (lit_lines [''  ---  -----  -----   ---  ----'']) v1;
     sched_list_loop s [0..<sc_count s] (vga_set_color VGA_WHITE VGA_BLACK v2) }"

section \<open>Picking the next task\<close>

definition runnable :: "u32 \<Rightarrow> sched \<Rightarrow> nat \<Rightarrow> bool" where
  "runnable now s i \<longleftrightarrow> tstate s i = TASK_READY \<or> tstate s i = TASK_RUNNING
     \<or> tstate s i = TASK_SLEEPING \<and> now \<ge> t_sleep_until (sc_tasks s i)"

lemma upd_task_simps [simp]:
  "sc_tasks (upd_task i f s) = (sc_tasks s)(i := f (sc_tasks s i))"
  "sc_count (upd_task i f s) = sc_count s" "sc_current (upd_task i f s) = sc_current s"
  "sc_next_pid (upd_task i f s) = sc_next_pid s" "sc_tick_accum (upd_task i f s) = sc_tick_accum s"
  "sc_stk (upd_task i f s) = sc_stk s" "sc_tss (upd_task i f s) = sc_tss s"
  by (simp_all add: upd_task_def)

lemma wake_runnable:
  "tstate (wake now i s) i = TASK_READY \<or> tstate (wake now i s) i = TASK_RUNNING \<longleftrightarrow> runnable now s i"
  by (auto simp: wake_def runnable_def)

lemma wake_idle: "\<not> runnable now s i \<Longrightarrow> wake now i s = s"
  by (auto simp: wake_def runnable_def)

lemma wake_frame [simp]:
  "sc_count (wake now i s) = sc_count s" "sc_current (wake now i s) = sc_current s"
  "sc_next_pid (wake now i s) = sc_next_pid s"
  by (simp_all add: wake_def)

text \<open>The first runnable task in cyclic order is picked, and only that one is woken.\<close>

lemma pick_loop_spec:
  assumes "k < n" "runnable now s ((i + k) mod sc_count s)" "\<And>m. m < k \<Longrightarrow> \<not> runnable now s ((i + m) mod sc_count s)"
    and "i < sc_count s"
  shows "pick_loop now n i s = ((i + k) mod sc_count s, wake now ((i + k) mod sc_count s) s)"
  using assms
proof (induction n arbitrary: i k)
  case (Suc n)
  show ?case
  proof (cases k)
    case 0
    then have "runnable now s i" using Suc.prems by simp
    then show ?thesis using 0 Suc.prems(4) wake_runnable [of now i s] by (simp add: Let_def)
  next
    case (Suc l)
    have nr: "\<not> runnable now s i" using Suc.prems(3) [of 0] Suc Suc.prems(4) by simp
    have sh: "((i + 1) mod sc_count s + m) mod sc_count s = (i + Suc m) mod sc_count s" for m
      by (simp add: mod_add_left_eq)
    have "pick_loop now n ((i + 1) mod sc_count s) s
        = ((i + Suc l) mod sc_count s, wake now ((i + Suc l) mod sc_count s) s)"
      using Suc.IH [of l "(i + 1) mod sc_count s"] Suc.prems Suc unfolding sh
      by (metis Suc_less_eq mod_less_divisor not_less_zero not_gr_zero)
    with nr Suc wake_idle [OF nr] wake_runnable [of now i s] show ?thesis by (simp add: Let_def)
  qed
qed simp

lemma pick_loop_none:
  "(\<And>m. m < n \<Longrightarrow> \<not> runnable now s ((i + m) mod sc_count s)) \<Longrightarrow> i < sc_count s \<Longrightarrow> pick_loop now n i s = (0, s)"
proof (induction n arbitrary: i)
  case (Suc n)
  have nr: "\<not> runnable now s i" using Suc.prems(1) [of 0] Suc.prems(2) by simp
  have "pick_loop now n ((i + 1) mod sc_count s) s = (0, s)"
  proof (rule Suc.IH)
    fix m assume "m < n"
    then show "\<not> runnable now s (((i + 1) mod sc_count s + m) mod sc_count s)"
      using Suc.prems(1) [of "Suc m"] by (simp add: mod_add_left_eq)
  qed (use Suc.prems(2) in auto)
  with nr wake_idle [OF nr] wake_runnable [of now i s] show ?case by (simp add: Let_def)
qed simp

end
