(* ===== verification/SchedProps.thy ===== *)
theory SchedProps
  imports Sched Ring
begin

text \<open>
  Correctness of the scheduler of theory \<open>Sched\<close>: the invariant of the task table, round-robin
  order and freedom from starvation, and the life cycle spawn, exit, wait.
\<close>

section \<open>The invariant\<close>

text \<open>
  The idle task (slot 1) can always run; only the current task has the state
  \<^verbatim>\<open>TASK_RUNNING\<close>; pids are positive, distinct and below the next one; the slots that were
  never used have pid 0.
\<close>

definition sched_inv :: "sched \<Rightarrow> bool" where
  "sched_inv s \<longleftrightarrow> 2 \<le> sc_count s \<and> sc_count s \<le> 16 \<and> sc_current s < sc_count s
     \<and> (\<forall>i < sc_count s. i \<noteq> sc_current s \<longrightarrow> tstate s i \<noteq> TASK_RUNNING)
     \<and> tstate s 1 \<in> {TASK_READY, TASK_RUNNING}
     \<and> (\<forall>i < sc_count s. 0 < t_pid (sc_tasks s i) \<and> t_pid (sc_tasks s i) < sc_next_pid s)
     \<and> inj_on (\<lambda>i. t_pid (sc_tasks s i)) {..<sc_count s}
     \<and> (\<forall>i. sc_count s \<le> i \<longrightarrow> t_pid (sc_tasks s i) = 0)
     \<and> (\<forall>i < 16. length (t_name (sc_tasks s i)) = 32)"

text \<open>The steps in cyclic order from the task after the current one to task \<open>j\<close>.\<close>

definition sched_dist :: "sched \<Rightarrow> nat \<Rightarrow> nat" where
  "sched_dist s j = (j + sc_count s - (sc_current s + 1) mod sc_count s) mod sc_count s"

lemma sched_dist_pos:
  "j < sc_count s \<Longrightarrow> ((sc_current s + 1) mod sc_count s + sched_dist s j) mod sc_count s = j"
  unfolding sched_dist_def by (rule ring_head_pos) auto

text \<open>A runnable task \<open>j\<close>: the pick is the first runnable one, at most as far away as \<open>j\<close>.\<close>

lemma pick_next_first:
  assumes "j < sc_count s" "runnable now s j"
  shows "\<exists>k n. k \<le> sched_dist s j \<and> n = ((sc_current s + 1) mod sc_count s + k) mod sc_count s
     \<and> runnable now s n \<and> n < sc_count s \<and> pick_next now s = Some (n, wake now n s)"
proof -
  let ?c = "sc_count s" and ?st = "(sc_current s + 1) mod sc_count s"
  define k where "k = (LEAST k. runnable now s ((?st + k) mod ?c))"
  have ex: "runnable now s ((?st + sched_dist s j) mod ?c)"
    using assms sched_dist_pos by simp
  have r: "runnable now s ((?st + k) mod ?c)" unfolding k_def by (rule LeastI [of _ "sched_dist s j"]) (rule ex)
  have le: "k \<le> sched_dist s j" unfolding k_def by (rule Least_le) (rule ex)
  have before: "\<And>m. m < k \<Longrightarrow> \<not> runnable now s ((?st + m) mod ?c)" unfolding k_def by (rule not_less_Least)
  have c: "0 < ?c" using assms(1) by simp
  then have "k < ?c" using le by (simp add: sched_dist_def order_le_less_trans)
  from pick_loop_spec [OF this r before] c
  have "pick_next now s = Some ((?st + k) mod ?c, wake now ((?st + k) mod ?c) s)"
    by (simp add: pick_next_def)
  with r le c show ?thesis by (intro exI [of _ k] exI [of _ "(?st + k) mod ?c"]) simp
qed

section \<open>Yielding\<close>

lemma switch_to_fields:
  "sc_count (switch_to n s) = sc_count s" "sc_current (switch_to n s) = n"
  "sc_next_pid (switch_to n s) = sc_next_pid s"
  "t_pid (sc_tasks (switch_to n s) i) = t_pid (sc_tasks s i)"
  "t_name (sc_tasks (switch_to n s) i) = t_name (sc_tasks s i)"
  "t_stack (sc_tasks (switch_to n s) i) = t_stack (sc_tasks s i)"
  "t_exit_code (sc_tasks (switch_to n s) i) = t_exit_code (sc_tasks s i)"
  "t_parent_pid (sc_tasks (switch_to n s) i) = t_parent_pid (sc_tasks s i)"
  "t_stack_size (sc_tasks (switch_to n s) i) = t_stack_size (sc_tasks s i)"
  "tstate (switch_to n s) i = (if i = n then TASK_RUNNING
     else if i = sc_current s \<and> tstate s i = TASK_RUNNING then TASK_READY else tstate s i)"
  by (auto simp: switch_to_def Let_def)

lemma switch_to_tss:
  "tss_esp0 (sc_tss (switch_to n s)) = of_nat (w32 (t_stack (sc_tasks s n) + t_stack_size (sc_tasks s n)))"
  by (simp add: switch_to_def Let_def tss_set_kernel_stack_def)

lemma wake_fields:
  "t_pid (sc_tasks (wake now n s) i) = t_pid (sc_tasks s i)"
  "t_name (sc_tasks (wake now n s) i) = t_name (sc_tasks s i)"
  "t_exit_code (sc_tasks (wake now n s) i) = t_exit_code (sc_tasks s i)"
  "t_parent_pid (sc_tasks (wake now n s) i) = t_parent_pid (sc_tasks s i)"
  "t_stack (sc_tasks (wake now n s) i) = t_stack (sc_tasks s i)"
  "tstate (wake now n s) i = (if i = n \<and> tstate s i = TASK_SLEEPING \<and> now \<ge> t_sleep_until (sc_tasks s i)
     then TASK_READY else tstate s i)"
  by (simp_all add: wake_def)

lemma sched_inv_wake: "sched_inv s \<Longrightarrow> sched_inv (wake now n s)"
  unfolding sched_inv_def by (simp add: wake_fields)

lemma sched_inv_switch: "sched_inv s \<Longrightarrow> n < sc_count s \<Longrightarrow> sched_inv (switch_to n s)"
  unfolding sched_inv_def by (auto simp: switch_to_fields)

lemma sched_yield_correct:
  assumes "sched_inv s" "j < sc_count s" "runnable now s j"
  shows "\<exists>s' sw. sched_yield now s = Some (s', sw) \<and> sched_inv s' \<and> runnable now s (sc_current s')
     \<and> sc_count s' = sc_count s \<and> sc_next_pid s' = sc_next_pid s
     \<and> sw = (if sc_current s' = sc_current s then None else Some (sc_current s, sc_current s'))
     \<and> (sw \<noteq> None \<longrightarrow> tstate s' (sc_current s') = TASK_RUNNING
          \<and> tss_esp0 (sc_tss s') = of_nat (w32 (t_stack (sc_tasks s' (sc_current s')) + t_stack_size (sc_tasks s' (sc_current s')))))
     \<and> (sc_current s' = j \<or> sched_dist s' j < sched_dist s j)
     \<and> (\<forall>i. t_pid (sc_tasks s' i) = t_pid (sc_tasks s i) \<and> t_exit_code (sc_tasks s' i) = t_exit_code (sc_tasks s i)
          \<and> t_parent_pid (sc_tasks s' i) = t_parent_pid (sc_tasks s i)
          \<and> (tstate s i \<in> {TASK_DEAD, TASK_ZOMBIE} \<and> i \<noteq> sc_current s' \<longrightarrow> tstate s' i = tstate s i))"
proof -
  let ?c = "sc_count s" and ?st = "(sc_current s + 1) mod sc_count s"
  obtain k n where k: "k \<le> sched_dist s j" "n = (?st + k) mod ?c" "runnable now s n" "n < ?c"
    and p: "pick_next now s = Some (n, wake now n s)"
    using pick_next_first [OF assms(2,3)] by blast
  define s' where "s' = (if n = sc_current s then wake now n s else switch_to n (wake now n s))"
  have y: "sched_yield now s = Some (s', if n = sc_current s then None else Some (sc_current s, n))"
    by (simp add: sched_yield_def p s'_def)
  have cur: "sc_current s' = n" "sc_count s' = ?c" "sc_next_pid s' = sc_next_pid s"
    by (simp_all add: s'_def switch_to_fields)
  have inv: "sched_inv s'"
    using assms(1) k(4) by (simp add: s'_def sched_inv_wake sched_inv_switch)
  have "n = j \<or> sched_dist s' j < sched_dist s j"
  proof (cases "k = sched_dist s j")
    case True
    then show ?thesis using k(2) sched_dist_pos [OF assms(2)] by simp
  next
    case False
    have c: "0 < ?c" using assms(2) by simp
    let ?d = "sched_dist s j"
    have st: "(n + 1) mod ?c = (?st + (k + 1)) mod ?c" unfolding k(2) by (metis add.assoc mod_add_left_eq)
    have d: "?d - (k + 1) < ?c" using c by (simp add: sched_dist_def less_imp_diff_less)
    have "?st + (k + 1) + (?d - (k + 1)) = ?st + ?d" using k(1) False by simp
    then have "((n + 1) mod ?c + (?d - (k + 1))) mod ?c = (?st + ?d) mod ?c"
      unfolding st by (metis mod_add_left_eq)
    then have "((n + 1) mod ?c + (?d - (k + 1))) mod ?c = j" using sched_dist_pos [OF assms(2)] by simp
    then have "sched_dist s' j = ?d - (k + 1)"
      using ring_used_unique [of "(n + 1) mod ?c" ?c "?d - (k + 1)"] c d by (simp add: sched_dist_def cur)
    then show ?thesis using k(1) False by simp
  qed
  with y cur inv k(3) show ?thesis
    by (intro exI [of _ s'] exI [of _ "if n = sc_current s then None else Some (sc_current s, n)"])
      (auto simp: s'_def switch_to_fields switch_to_tss wake_fields)
qed

section \<open>Spawning\<close>

lemma setup_stack_fields [simp]:
  "sc_count (task_setup_stack i e s) = sc_count s" "sc_current (task_setup_stack i e s) = sc_current s"
  "sc_next_pid (task_setup_stack i e s) = sc_next_pid s"
  by (simp_all add: task_setup_stack_def Let_def case_prod_unfold)

lemma setup_stack_tasks:
  "sc_tasks (task_setup_stack i e s) = (sc_tasks s)(i := (sc_tasks s i)\<lparr>t_esp := t_esp (sc_tasks (task_setup_stack i e s) i)\<rparr>)"
  by (simp add: task_setup_stack_def Let_def case_prod_unfold)

lemma sched_spawn_correct:
  assumes inv: "sched_inv s" and h: "heap_ok h" and nm: "terminated name" "length (cstr name) < 32"
  shows "\<exists>r s' h'. sched_spawn name entry kum (s, h) = Some (r, s', h') \<and> heap_ok h' \<and> sched_inv s' \<and>
     (r = -1 \<and> s' = s \<and> allocs h' = allocs h \<or>
      r = sc_next_pid s \<and> sc_next_pid s' = sc_next_pid s + 1 \<and>
      (\<exists>slot t k. slot < 16 \<and> free_slot s slot \<and> sc_tasks s' = (sc_tasks s)(slot := t)
         \<and> t_state t = TASK_READY \<and> t_pid t = r \<and> cstr (t_name t) = cstr name
         \<and> t_parent_pid t = t_pid (sc_tasks s (sc_current s)) \<and> t_stack_size t = 4096
         \<and> 4096 \<le> k \<and> allocs h (t_stack t) = None \<and> allocs h' = (allocs h)(t_stack t \<mapsto> k)))"
proof (cases "sc_count s \<ge> 16")
  case True
  then show ?thesis using inv h by (simp add: sched_spawn_def SCHED_MAX_TASKS_def)
next
  case False
  obtain stk h1 where m: "kmalloc SCHED_STACK_SIZE h = Some (stk, h1)" "heap_ok h1"
    and c: "if stk = 0 then allocs h1 = allocs h
            else \<exists>k. SCHED_STACK_SIZE \<le> k \<and> allocs h stk = None \<and> allocs h1 = (allocs h)(stk \<mapsto> k)"
  proof -
    have "0 < SCHED_STACK_SIZE" "SCHED_STACK_SIZE < 2 ^ 30" by (simp_all add: SCHED_STACK_SIZE_def)
    from kmalloc_correct [OF h this] show ?thesis by (elim exE conjE) (rule that)
  qed
  show ?thesis
  proof (cases "stk = 0")
    case True
    then show ?thesis using False m c inv by (simp add: sched_spawn_def SCHED_MAX_TASKS_def)
  next
    case stk: False
    then obtain k where k: "4096 \<le> k" "allocs h stk = None" "allocs h1 = (allocs h)(stk \<mapsto> k)"
      using c by (auto simp: SCHED_STACK_SIZE_def)
    have "free_slot s (sc_count s)" using inv by (simp add: free_slot_def sched_inv_def)
    then obtain slot where f: "first_idx (free_slot s) 0 16 = Some slot" "slot \<le> sc_count s"
      using first_idx_ex [of 0 "sc_count s" 16 "free_slot s"] False by auto
    note F = first_idx_SomeD [OF f(1)]
    have "length (t_name (sc_tasks s slot)) = 32" using inv F(2) by (simp add: sched_inv_def)
    then obtain b where b: "kstrcpy (t_name (sc_tasks s slot)) name = Some b" "cstr b = cstr name" "length b = 32"
      using kstrcpy_into [OF nm(1), of "t_name (sc_tasks s slot)"] nm(2) by auto
    define s1 where "s1 = (upd_task slot (\<lambda>x. x\<lparr>t_pid := sc_next_pid s, t_state := TASK_READY, t_stack := stk,
       t_stack_size := SCHED_STACK_SIZE, t_ticks := 0, t_exit_code := 0, t_kum_level := kum,
       t_parent_pid := t_pid (sc_tasks s (sc_current s)), t_name := b\<rparr>) s)\<lparr>sc_next_pid := sc_next_pid s + 1\<rparr>"
    define s2 where "s2 = task_setup_stack slot entry s1"
    define s' where "s' = (if slot \<ge> sc_count s2 then s2\<lparr>sc_count := slot + 1\<rparr> else s2)"
    have s2t: "sc_tasks s2 = (sc_tasks s1)(slot := sc_tasks s2 slot)"
      unfolding s2_def by (metis setup_stack_tasks fun_upd_same)
    have eq: "sc_tasks s' = (sc_tasks s)(slot := sc_tasks s2 slot)"
      using s2t by (simp add: s'_def s1_def)
    have t: "t_state (sc_tasks s2 slot) = TASK_READY" "t_pid (sc_tasks s2 slot) = sc_next_pid s"
      "t_name (sc_tasks s2 slot) = b" "t_parent_pid (sc_tasks s2 slot) = t_pid (sc_tasks s (sc_current s))"
      "t_stack_size (sc_tasks s2 slot) = 4096" "t_stack (sc_tasks s2 slot) = stk"
      unfolding s2_def by (subst setup_stack_tasks, simp add: s1_def SCHED_STACK_SIZE_def)+
    have cnt: "sc_count s' = max (sc_count s) (slot + 1)" "sc_current s' = sc_current s"
      "sc_next_pid s' = sc_next_pid s + 1"
      by (auto simp: s'_def s2_def s1_def)
    have c2: "sc_count s2 = sc_count s" by (simp add: s2_def s1_def)
    have sp: "sched_spawn name entry kum (s, h) = Some (sc_next_pid s, s', h1)"
      using False F stk m(1) f(1) b(1)
      by (simp add: sched_spawn_def SCHED_MAX_TASKS_def s1_def [symmetric] s2_def [symmetric] s'_def t(2) c2)
    have "0 < t_pid (sc_tasks s 1)" "tstate s 1 \<in> {TASK_READY, TASK_RUNNING}"
      using inv by (simp_all add: sched_inv_def)
    then have "slot \<noteq> 1" using F(3) by (auto simp: free_slot_def)
    have inv': "sched_inv s'"
    proof -
      have pid: "\<And>i. i < sc_count s \<Longrightarrow> t_pid (sc_tasks s i) < sc_next_pid s"
        and inj: "inj_on (\<lambda>i. t_pid (sc_tasks s i)) {..<sc_count s}" using inv by (auto simp: sched_inv_def)
      have "inj_on (\<lambda>i. t_pid (sc_tasks s' i)) {..<sc_count s'}"
      proof (rule inj_onI)
        fix x y assume "x \<in> {..<sc_count s'}" "y \<in> {..<sc_count s'}" "t_pid (sc_tasks s' x) = t_pid (sc_tasks s' y)"
        moreover have "z < sc_count s" if "z < sc_count s'" "z \<noteq> slot" for z
          using that f(2) cnt(1) by (simp add: max_def split: if_splits)
        ultimately show "x = y"
          using pid [of x] pid [of y] inj_onD [OF inj, of x y] f(2) by (auto simp: eq t(2) cnt split: if_splits)
      qed
      moreover have "0 < t_pid (sc_tasks s' i) \<and> t_pid (sc_tasks s' i) < sc_next_pid s'
          \<and> (i \<noteq> sc_current s' \<longrightarrow> tstate s' i \<noteq> TASK_RUNNING)" if "i < sc_count s'" for i
      proof (cases "i = slot")
        case True
        have "0 < sc_next_pid s" using inv unfolding sched_inv_def by fastforce
        with True show ?thesis by (simp add: eq t cnt)
      next
        case False
        then have "i < sc_count s" using that f(2) cnt(1) by (simp add: max_def split: if_splits)
        with False inv pid [of i] show ?thesis by (auto simp: eq cnt sched_inv_def)
      qed
      moreover have "2 \<le> sc_count s'" "sc_count s' \<le> 16" "sc_current s' < sc_count s'"
        "tstate s' 1 \<in> {TASK_READY, TASK_RUNNING}"
        using inv f(2) False \<open>slot \<noteq> 1\<close> by (auto simp: eq cnt sched_inv_def)
      moreover have "\<forall>i. sc_count s' \<le> i \<longrightarrow> t_pid (sc_tasks s' i) = 0" "\<forall>i < 16. length (t_name (sc_tasks s' i)) = 32"
        using inv b(3) by (auto simp: eq t cnt sched_inv_def)
      ultimately show ?thesis unfolding sched_inv_def by blast
    qed
    from sp m(2) inv' show ?thesis
      using F(2,3) eq t k b(2) cnt(3)
      by (intro exI [of _ "sc_next_pid s"] exI [of _ s'] exI [of _ h1] conjI disjI2 exI [of _ slot]
          exI [of _ "sc_tasks s2 slot"] exI [of _ k]) simp_all
  qed
qed

section \<open>Exit and wait\<close>

lemma sched_waitpid_dead:
  assumes "sched_inv s" "c < sc_count s" "tstate s c \<in> {TASK_ZOMBIE, TASK_DEAD}"
  shows "sched_waitpid (t_pid (sc_tasks s c)) now s =
     Some (upd_task c (\<lambda>x. x\<lparr>t_state := TASK_DEAD\<rparr>) s, WaitRet (t_exit_code (sc_tasks s c)))"
proof -
  have inj: "inj_on (\<lambda>i. t_pid (sc_tasks s i)) {..<sc_count s}" using assms(1) by (simp add: sched_inv_def)
  have "first_idx (\<lambda>i. t_pid (sc_tasks s i) = t_pid (sc_tasks s c)) 0 (sc_count s) = Some c"
  proof (rule first_idx_eqI)
    fix j assume "j < c"
    then show "t_pid (sc_tasks s j) \<noteq> t_pid (sc_tasks s c)"
      using inj_onD [OF inj, of j c] assms(2) by auto
  qed (use assms in auto)
  then show ?thesis using assms(3) by (auto simp: sched_waitpid_def)
qed

text \<open>The exit of the current task, up to its final yield.\<close>

definition exited :: "int \<Rightarrow> bool \<Rightarrow> sched \<Rightarrow> sched" where
  "exited code has_parent s = upd_task (sc_current s) (\<lambda>x. x\<lparr>t_exit_code := code,
     t_state := if has_parent then TASK_ZOMBIE else TASK_DEAD, t_stack := 0\<rparr>) s"

lemma exited_fields:
  "sc_count (exited code b s) = sc_count s" "sc_current (exited code b s) = sc_current s"
  "sc_next_pid (exited code b s) = sc_next_pid s"
  "t_pid (sc_tasks (exited code b s) i) = t_pid (sc_tasks s i)"
  "t_name (sc_tasks (exited code b s) i) = t_name (sc_tasks s i)"
  "tstate (exited code b s) i = (if i = sc_current s then if b then TASK_ZOMBIE else TASK_DEAD else tstate s i)"
  by (simp_all add: exited_def)

lemma exited_inv:
  "sched_inv s \<Longrightarrow> sc_current s \<noteq> 1 \<Longrightarrow> sched_inv (exited code b s)"
  unfolding sched_inv_def exited_fields by (elim conjE, intro conjI) auto

lemma stack_0_upd:
  "t_stack (x :: task_t) = 0 \<Longrightarrow> x\<lparr>t_exit_code := c, t_state := st, t_stack := 0\<rparr> = x\<lparr>t_exit_code := c, t_state := st\<rparr>"
  by (rule task_t.equality) simp_all

lemma sched_exit_correct:
  assumes inv: "sched_inv s" and c: "sc_current s \<noteq> 1" and h: "heap_ok h"
    and stk: "t_stack (sc_tasks s (sc_current s)) = 0 \<or> allocs h (t_stack (sc_tasks s (sc_current s))) \<noteq> None"
    and par: "p < sc_count s" "p \<noteq> sc_current s" "t_pid (sc_tasks s p) = t_parent_pid (sc_tasks s (sc_current s))"
      "tstate s p \<notin> {TASK_DEAD, TASK_ZOMBIE}"
  shows "\<exists>s' sw h'. sched_exit_code code now (s, h) = Some ((s', sw), h') \<and> sched_inv s' \<and> heap_ok h'
     \<and> allocs h' = (if t_stack (sc_tasks s (sc_current s)) = 0 then allocs h
                    else (allocs h)(t_stack (sc_tasks s (sc_current s)) := None))
     \<and> sc_current s' \<noteq> sc_current s \<and> sc_count s' = sc_count s
     \<and> tstate s' (sc_current s) = TASK_ZOMBIE \<and> t_exit_code (sc_tasks s' (sc_current s)) = code
     \<and> t_pid (sc_tasks s' (sc_current s)) = t_pid (sc_tasks s (sc_current s))"
proof -
  let ?c = "sc_current s" and ?e = "exited code True s"
  let ?stk = "t_stack (sc_tasks s (sc_current s))"
  define h' where "h' = (if ?stk = 0 then h else kfree ?stk h)"
  have hp: "first_idx (\<lambda>i. t_pid (((sc_tasks s)(?c := (sc_tasks s ?c)\<lparr>t_exit_code := code\<rparr>)) i) = t_parent_pid (sc_tasks s ?c)
      \<and> t_state (((sc_tasks s)(?c := (sc_tasks s ?c)\<lparr>t_exit_code := code\<rparr>)) i) \<noteq> TASK_DEAD
      \<and> t_state (((sc_tasks s)(?c := (sc_tasks s ?c)\<lparr>t_exit_code := code\<rparr>)) i) \<noteq> TASK_ZOMBIE) 0 (sc_count s) \<noteq> None"
    unfolding first_idx_None_iff not_all
    by (rule exI [of _ p]) (use par in auto)
  have einv: "sched_inv ?e" using exited_inv [OF inv c] .
  have run1: "runnable now ?e 1" "1 < sc_count ?e"
    using einv by (auto simp: sched_inv_def runnable_def)
  have zc: "tstate ?e ?c = TASK_ZOMBIE" "t_exit_code (sc_tasks ?e ?c) = code" "sc_current ?e = ?c"
    "t_pid (sc_tasks ?e ?c) = t_pid (sc_tasks s ?c)" "sc_count ?e = sc_count s"
    by (simp_all add: exited_def)
  obtain s' sw where y: "sched_yield now ?e = Some (s', sw)" "sched_inv s'" "runnable now ?e (sc_current s')"
    "sc_count s' = sc_count ?e"
    "\<And>i. t_pid (sc_tasks s' i) = t_pid (sc_tasks ?e i) \<and> t_exit_code (sc_tasks s' i) = t_exit_code (sc_tasks ?e i)
       \<and> (tstate ?e i \<in> {TASK_DEAD, TASK_ZOMBIE} \<and> i \<noteq> sc_current s' \<longrightarrow> tstate s' i = tstate ?e i)"
    using sched_yield_correct [OF einv run1(2,1)] by blast
  have ne: "sc_current s' \<noteq> ?c" using y(3) zc(1) by (auto simp: runnable_def)
  have "sched_exit_code code now (s, h) = Some ((s', sw), h')"
    using y(1) hp unfolding sched_exit_code_def exited_def h'_def
    by (cases "?stk = 0") (simp_all add: Let_def upd_task_def stack_0_upd)
  moreover have "heap_ok h'" "allocs h' = (if ?stk = 0 then allocs h else (allocs h)(?stk := None))"
    using h stk kfree_live [OF h, of ?stk] by (auto simp: h'_def)
  ultimately show ?thesis
    using y ne zc y(5) [of ?c] by (intro exI [of _ s'] exI [of _ sw] exI [of _ h']) simp
qed

section \<open>Properties\<close>

text \<open>
  C10. \<^verbatim>\<open>sched_yield\<close> always finds a task to run, and keeps the invariant of the task table:
  the task it switches to was runnable (ready, or its sleep was over), it is the only one in
  the state RUNNING, the outgoing task is not, and the kernel stack in the task state segment
  is the stack of the new task.
\<close>

theorem sched_yield_runs_ready_task:
  assumes "sched_inv s"
  shows "\<exists>s' sw. sched_yield now s = Some (s', sw) \<and> sched_inv s' \<and> runnable now s (sc_current s')
     \<and> sw = (if sc_current s' = sc_current s then None else Some (sc_current s, sc_current s'))
     \<and> (sw \<noteq> None \<longrightarrow> tstate s' (sc_current s') = TASK_RUNNING
          \<and> tss_esp0 (sc_tss s') = of_nat (w32 (t_stack (sc_tasks s' (sc_current s')) + t_stack_size (sc_tasks s' (sc_current s')))))"
proof -
  have "1 < sc_count s" "runnable now s 1" using assms by (auto simp: sched_inv_def runnable_def)
  from sched_yield_correct [OF assms this] show ?thesis by blast
qed

definition sched_demo :: sched where
  "sched_demo = \<lparr>sc_tasks = (\<lambda>i. if i = 0 then task_zero\<lparr>t_pid := 1, t_state := TASK_SLEEPING, t_sleep_until := 5\<rparr>
        else if i = 1 then task_zero\<lparr>t_pid := 2, t_state := TASK_RUNNING\<rparr> else task_zero),
     sc_count = 2, sc_current = 1, sc_next_pid = 3, sc_tick_accum = 0, sc_stk = (\<lambda>_. 0),
     sc_tss = \<lparr>tss_esp0 = 0, tss_ss0 = 0, tss_iomap_base = 0, tss_rest = []\<rparr>\<rparr>"

lemma sched_demo_inv: "sched_inv sched_demo"
  by (auto simp: sched_inv_def sched_demo_def task_zero_def inj_on_def)

lemma sched_demo_yield: "sched_yield 0 sched_demo = Some (sched_demo, None)"
proof -
  have c: "sc_count sched_demo = Suc (Suc 0)" "sc_current sched_demo = 1" by (simp_all add: sched_demo_def)
  have "pick_loop 0 (Suc (Suc 0)) 0 sched_demo = (1, sched_demo)"
    by (simp add: sched_demo_def wake_def Let_def)
  then show ?thesis by (simp add: sched_yield_def pick_next_def c)
qed

lemma sched_yield_runs_ready_task_witness:
  "\<exists>s' sw. sched_yield 9 sched_demo = Some (s', sw) \<and> sched_inv s'"
  using sched_yield_runs_ready_task [OF sched_demo_inv, of 9] by blast






definition sched_demo2 :: sched where
  "sched_demo2 = sched_demo\<lparr>sc_tasks := (\<lambda>i. if i = 0 then task_zero\<lparr>t_pid := 1, t_state := TASK_SLEEPING\<rparr>
        else if i = 1 then task_zero\<lparr>t_pid := 2, t_state := TASK_READY\<rparr>
        else if i = 2 then task_zero\<lparr>t_pid := 3, t_parent_pid := 1\<rparr> else task_zero),
     sc_count := 3, sc_current := 2, sc_next_pid := 4\<rparr>"

lemma sched_demo2_inv: "sched_inv sched_demo2"
  by (auto simp: sched_inv_def sched_demo2_def sched_demo_def task_zero_def inj_on_def less_Suc_eq numeral_3_eq_3)


text \<open>
  \<^verbatim>\<open>sched_wait\<close> never forgets a child: after it has returned a child's pid and code, the
  next call returns the same child again, because the search also accepts the state
  \<^verbatim>\<open>TASK_DEAD\<close> that the first call left. A loop that waits for all children does not end.
\<close>

theorem sched_wait_repeats:
  assumes "sched_wait now s = Some (s', WaitRet (pid, Some code))"
  shows "sched_wait now' s' = Some (s', WaitRet (pid, Some code))"
proof -
  let ?P = "\<lambda>s i. t_parent_pid (sc_tasks s i) = t_pid (sc_tasks s (sc_current s))
      \<and> (tstate s i = TASK_ZOMBIE \<or> tstate s i = TASK_DEAD)"
  obtain i where i: "first_idx (?P s) 0 (sc_count s) = Some i"
    and s': "s' = upd_task i (\<lambda>x. x\<lparr>t_state := TASK_DEAD\<rparr>) s"
    and r: "pid = t_pid (sc_tasks s i)" "code = t_exit_code (sc_tasks s i)"
    using assms by (auto simp: sched_wait_def wait_again_def Let_def split: option.splits if_splits)
  note F = first_idx_SomeD [OF i]
  have eq: "?P s' j \<longleftrightarrow> ?P s j" for j using F(3) by (auto simp: s')
  have "first_idx (?P s') 0 (sc_count s') = Some i" using i unfolding eq by (simp add: s')
  moreover have "upd_task i (\<lambda>x. x\<lparr>t_state := TASK_DEAD\<rparr>) s' = s'" by (simp add: s' upd_task_def)
  ultimately show ?thesis by (simp add: sched_wait_def Let_def r) (simp add: s')
qed

lemma sched_wait_repeats_witness:
  "\<exists>s'. sched_wait 0 (sched_demo2\<lparr>sc_tasks := (sc_tasks sched_demo2)(2 := task_zero\<lparr>t_pid := 3, t_parent_pid := 1,
        t_state := TASK_ZOMBIE\<rparr>), sc_current := 0\<rparr>) = Some (s', WaitRet (3, Some 0))
     \<and> sched_wait 1 s' = Some (s', WaitRet (3, Some 0))"
proof -
  have u: "[0..<3] = [0, 1, 2]" by code_simp
  let ?s = "sched_demo2\<lparr>sc_tasks := (sc_tasks sched_demo2)(2 := task_zero\<lparr>t_pid := 3, t_parent_pid := 1,
        t_state := TASK_ZOMBIE\<rparr>), sc_current := 0\<rparr>"
  obtain s' where "sched_wait 0 ?s = Some (s', WaitRet (3, Some 0))"
    by (simp add: sched_wait_def sched_demo2_def sched_demo_def task_zero_def first_idx_def u)
  with sched_wait_repeats [OF this, of 1] show ?thesis by blast
qed

end
