(* ===== verification/Process.thy ===== *)
theory Process
  imports Vga
begin

text \<open>
  The process table shown by the shell, \<^verbatim>\<open>src/process.c\<close>: sixteen slots, a count of live
  processes, the next pid.
\<close>

section \<open>State and operations\<close>

datatype proc_state_t = PROC_RUNNING | PROC_SLEEPING | PROC_ZOMBIE | PROC_IDLE

definition MAX_PROCESSES :: nat where "MAX_PROCESSES = 16"
definition PROC_NAME_LEN :: nat where "PROC_NAME_LEN = 32"

record process_t =
  p_pid :: int
  p_name :: bytes
  p_state :: proc_state_t
  p_memory_kb :: u32
  p_ticks :: u32
  p_kum_level :: int

record procs =
  pt_table :: "nat \<Rightarrow> process_t"
  pt_next_pid :: int
  pt_count :: int

definition process_zero :: process_t where
  "process_zero = \<lparr>p_pid = 0, p_name = replicate PROC_NAME_LEN 0, p_state = PROC_RUNNING, p_memory_kb = 0,
     p_ticks = 0, p_kum_level = 0\<rparr>"

definition proc_init :: "procs option" where
  "proc_init = do {
     idle \<leftarrow> kstrcpy (p_name process_zero) (lit ''idle'');
     kumos \<leftarrow> kstrcpy (p_name process_zero) (lit ''kumos'');
     Some \<lparr>pt_table = (\<lambda>i. if i = 0 then process_zero\<lparr>p_pid := 0, p_state := PROC_IDLE, p_memory_kb := 4,
                                    p_kum_level := 1, p_name := idle\<rparr>
                           else if i = 1 then process_zero\<lparr>p_pid := 1, p_state := PROC_RUNNING, p_memory_kb := 128,
                                    p_kum_level := 1, p_name := kumos\<rparr>
                           else process_zero),
           pt_next_pid = 2, pt_count = 2\<rparr> }"

text \<open>The statements that fill slot \<open>i\<close>, the same in both places of \<^verbatim>\<open>proc_spawn\<close>.\<close>

definition proc_fill :: "nat \<Rightarrow> bytes \<Rightarrow> u32 \<Rightarrow> int \<Rightarrow> procs \<Rightarrow> (int \<times> procs) option" where
  "proc_fill i name mem_kb kum_level ps = do {
     nm \<leftarrow> kstrcpy (p_name (pt_table ps i)) name;
     Some (pt_next_pid ps,
       ps\<lparr>pt_table := (pt_table ps)(i := (pt_table ps i)\<lparr>p_pid := pt_next_pid ps, p_state := PROC_RUNNING,
              p_memory_kb := mem_kb, p_kum_level := kum_level, p_ticks := 0, p_name := nm\<rparr>),
          pt_next_pid := pt_next_pid ps + 1, pt_count := pt_count ps + 1\<rparr>) }"

definition proc_spawn :: "bytes \<Rightarrow> u32 \<Rightarrow> int \<Rightarrow> procs \<Rightarrow> (int \<times> procs) option" where
  "proc_spawn name mem_kb kum_level ps =
     (if pt_count ps \<ge> int MAX_PROCESSES then Some (-1, ps)
      else case first_idx (\<lambda>i. p_state (pt_table ps i) = PROC_ZOMBIE) 0 MAX_PROCESSES of
        Some i \<Rightarrow> proc_fill i name mem_kb kum_level ps
      | None \<Rightarrow>
          if pt_count ps < 0 then None
          else proc_fill (nat (pt_count ps)) name mem_kb kum_level ps)"

definition proc_kill :: "int \<Rightarrow> procs \<Rightarrow> procs" where
  "proc_kill pid ps =
     (case first_idx (\<lambda>i. p_pid (pt_table ps i) = pid) 0 MAX_PROCESSES of
        None \<Rightarrow> ps
      | Some i \<Rightarrow> ps\<lparr>pt_table := (pt_table ps)(i := (pt_table ps i)\<lparr>p_state := PROC_ZOMBIE\<rparr>),
                     pt_count := pt_count ps - 1\<rparr>)"

definition proc_get :: "int \<Rightarrow> procs \<Rightarrow> nat option" where
  "proc_get pid ps = first_idx (\<lambda>i. p_pid (pt_table ps i) = pid) 0 MAX_PROCESSES"

definition proc_count :: "procs \<Rightarrow> int" where "proc_count ps = pt_count ps"

definition proc_tick :: "procs \<Rightarrow> procs" where
  "proc_tick ps = ps\<lparr>pt_table := (\<lambda>i. if i < MAX_PROCESSES \<and> p_state (pt_table ps i) = PROC_RUNNING
      then (pt_table ps i)\<lparr>p_ticks := p_ticks (pt_table ps i) + 1\<rparr> else pt_table ps i)\<rparr>"

primrec state_str :: "proc_state_t \<Rightarrow> bytes" where
  "state_str PROC_RUNNING = lit ''RUN ''"
| "state_str PROC_SLEEPING = lit ''SLEEP''"
| "state_str PROC_ZOMBIE = lit ''DEAD ''"
| "state_str PROC_IDLE = lit ''IDLE ''"

definition proc_list_entry :: "nat \<Rightarrow> process_t \<Rightarrow> vga \<Rightarrow> vga option" where
  "proc_list_entry i p v =
     (if p_state p = PROC_ZOMBIE \<and> p_pid p = 0 \<or> p_pid p = 0 \<and> i > 0 then Some v
      else do {
        v1 \<leftarrow> vga_puts (lit ''  '') v;
        v2 \<leftarrow> vga_put_dec (of_int (p_pid p)) v1;
        v3 \<leftarrow> vga_puts (lit ''    '') v2;
        v4 \<leftarrow> vga_puts (state_str (p_state p)) v3;
        v5 \<leftarrow> vga_puts (lit ''  '') v4;
        v6 \<leftarrow> vga_put_dec (p_memory_kb p) v5;
        v7 \<leftarrow> vga_puts (lit ''     '') v6;
        v8 \<leftarrow> vga_puts (if p_kum_level p \<noteq> 0 then lit ''yes'' else lit ''no '') v7;
        v9 \<leftarrow> vga_puts (lit ''  '') v8;
        v10 \<leftarrow> vga_puts (p_name p) v9;
        Some (vga_putchar 10 v10) })"

fun proc_list_loop :: "procs \<Rightarrow> nat list \<Rightarrow> vga \<Rightarrow> vga option" where
  "proc_list_loop ps [] v = Some v"
| "proc_list_loop ps (i # is) v = do { v' \<leftarrow> proc_list_entry i (pt_table ps i) v; proc_list_loop ps is v' }"

definition proc_list_all :: "procs \<Rightarrow> vga \<Rightarrow> vga option" where
  "proc_list_all ps v = do {
     v1 \<leftarrow> vga_puts (lit_lines [''  PID  STATE  MEM(KB)  KUM  NAME'']) (vga_set_color VGA_YELLOW VGA_BLACK v);
     v2 \<leftarrow> vga_puts (lit_lines [''  ---  -----  -------  ---  ----'']) v1;
     proc_list_loop ps [0..<MAX_PROCESSES] (vga_set_color VGA_WHITE VGA_BLACK v2) }"

section \<open>The invariant\<close>

text \<open>
  The first \<open>n\<close> slots have been used. Their pids are distinct and below the next one, the
  count is the number of those that are not zombies, and no slot behind them is a zombie.
\<close>

definition proc_inv :: "nat \<Rightarrow> procs \<Rightarrow> bool" where
  "proc_inv n ps \<longleftrightarrow> 1 \<le> n \<and> n \<le> 16 \<and> inj_on (\<lambda>i. p_pid (pt_table ps i)) {..<n}
     \<and> (\<forall>i < n. 0 \<le> p_pid (pt_table ps i) \<and> p_pid (pt_table ps i) < pt_next_pid ps)
     \<and> p_pid (pt_table ps 0) = 0
     \<and> (\<forall>i. n \<le> i \<longrightarrow> pt_table ps i = process_zero)
     \<and> (\<forall>i < n. length (p_name (pt_table ps i)) = 32)
     \<and> pt_count ps = int (card {i. i < n \<and> p_state (pt_table ps i) \<noteq> PROC_ZOMBIE})"

lemma proc_find:
  assumes "proc_inv n ps" "i < n"
  shows "first_idx (\<lambda>k. p_pid (pt_table ps k) = p_pid (pt_table ps i)) 0 MAX_PROCESSES = Some i"
proof (rule first_idx_eqI)
  have inj: "inj_on (\<lambda>i. p_pid (pt_table ps i)) {..<n}" using assms(1) by (simp add: proc_inv_def)
  fix j assume "j < i"
  then show "p_pid (pt_table ps j) \<noteq> p_pid (pt_table ps i)"
    using inj_onD [OF inj, of j i] assms(2) by auto
qed (use assms in \<open>auto simp: proc_inv_def MAX_PROCESSES_def\<close>)

lemma proc_kill_inv:
  assumes inv: "proc_inv n ps" and i: "i < n" "p_state (pt_table ps i) \<noteq> PROC_ZOMBIE"
  defines "ps' \<equiv> proc_kill (p_pid (pt_table ps i)) ps"
  shows "proc_inv n ps'"
    "pt_table ps' = (pt_table ps)(i := (pt_table ps i)\<lparr>p_state := PROC_ZOMBIE\<rparr>)" "pt_next_pid ps' = pt_next_pid ps"
proof -
  have ps': "ps' = ps\<lparr>pt_table := (pt_table ps)(i := (pt_table ps i)\<lparr>p_state := PROC_ZOMBIE\<rparr>),
                     pt_count := pt_count ps - 1\<rparr>"
    by (simp add: ps'_def proc_kill_def proc_find [OF inv i(1)])
  then show t: "pt_table ps' = (pt_table ps)(i := (pt_table ps i)\<lparr>p_state := PROC_ZOMBIE\<rparr>)"
    "pt_next_pid ps' = pt_next_pid ps" by simp_all
  let ?L = "\<lambda>ps. {i. i < n \<and> p_state (pt_table ps i) \<noteq> PROC_ZOMBIE}"
  have "?L ps = insert i (?L ps')" "i \<notin> ?L ps'" using i by (auto simp: t)
  moreover have "finite (?L ps')" by simp
  ultimately have c: "int (card (?L ps)) = int (card (?L ps')) + 1" by simp
  have pid: "p_pid (pt_table ps' j) = p_pid (pt_table ps j)" "length (p_name (pt_table ps' j)) = length (p_name (pt_table ps j))" for j
    by (simp_all add: t)
  show "proc_inv n ps'"
    using inv c i(1) unfolding proc_inv_def pid by (auto simp: ps')
qed

lemma proc_fill_inv:
  assumes inv: "proc_inv n ps" and i: "i = n \<and> n < 16 \<or> i < n \<and> i \<noteq> 0 \<and> p_state (pt_table ps i) = PROC_ZOMBIE"
    and nm: "terminated name" "length (cstr name) < 32" and pos: "0 < pt_next_pid ps"
  shows "\<exists>t ps'. proc_fill i name mem kum ps = Some (pt_next_pid ps, ps') \<and> pt_table ps' = (pt_table ps)(i := t)
     \<and> p_pid t = pt_next_pid ps \<and> p_state t = PROC_RUNNING \<and> cstr (p_name t) = cstr name
     \<and> pt_next_pid ps' = pt_next_pid ps + 1 \<and> proc_inv (max n (i + 1)) ps'"
proof -
  have "length (p_name (pt_table ps i)) = 32"
    using inv i by (auto simp: proc_inv_def process_zero_def PROC_NAME_LEN_def)
  then obtain b where b: "kstrcpy (p_name (pt_table ps i)) name = Some b" "cstr b = cstr name" "length b = 32"
    using kstrcpy_into [OF nm(1), of "p_name (pt_table ps i)"] nm(2) by auto
  define t where "t = (pt_table ps i)\<lparr>p_pid := pt_next_pid ps, p_state := PROC_RUNNING,
              p_memory_kb := mem, p_kum_level := kum, p_ticks := 0, p_name := b\<rparr>"
  define ps' where "ps' = ps\<lparr>pt_table := (pt_table ps)(i := t),
          pt_next_pid := pt_next_pid ps + 1, pt_count := pt_count ps + 1\<rparr>"
  let ?n = "max n (i + 1)"
  let ?L = "\<lambda>n ps. {i. i < n \<and> p_state (pt_table ps i) \<noteq> PROC_ZOMBIE}"
  have lt: "j < ?n \<longleftrightarrow> j = i \<or> j < n" for j using i by auto
  have "?L ?n ps' = insert i (?L n ps)" "i \<notin> ?L n ps"
    using i unfolding lt by (auto simp: ps'_def t_def)
  then have c: "int (card (?L ?n ps')) = int (card (?L n ps)) + 1" by simp
  have tp: "p_pid t = pt_next_pid ps" "length (p_name t) = 32" using b(3) by (simp_all add: t_def)
  have pid: "p_pid (pt_table ps' j) = (if j = i then pt_next_pid ps else p_pid (pt_table ps j))" for j
    by (simp add: ps'_def tp)
  have old: "\<And>j. j < n \<Longrightarrow> 0 \<le> p_pid (pt_table ps j) \<and> p_pid (pt_table ps j) < pt_next_pid ps"
    and inj: "inj_on (\<lambda>i. p_pid (pt_table ps i)) {..<n}" using inv by (auto simp: proc_inv_def)
  have "inj_on (\<lambda>i. p_pid (pt_table ps' i)) {..<?n}"
  proof (rule inj_onI)
    fix x y assume "x \<in> {..<?n}" "y \<in> {..<?n}" "p_pid (pt_table ps' x) = p_pid (pt_table ps' y)"
    moreover from this have "x = i \<or> x < n" "y = i \<or> y < n" unfolding lessThan_iff lt by blast+
    ultimately show "x = y"
      using old [of x] old [of y] inj_onD [OF inj, of x y] by (auto simp: pid split: if_splits)
  qed
  moreover have "0 \<le> p_pid (pt_table ps' j) \<and> p_pid (pt_table ps' j) < pt_next_pid ps'" if "j < ?n" for j
    using that old [of j] pos unfolding lt pid by (auto simp: ps'_def)
  moreover have "1 \<le> ?n" "?n \<le> 16" "i \<noteq> 0" using inv i by (auto simp: proc_inv_def)
  moreover have "p_pid (pt_table ps' 0) = 0" using inv \<open>i \<noteq> 0\<close> by (simp add: pid proc_inv_def)
  moreover have "pt_table ps' j = process_zero" if "?n \<le> j" for j
    using inv that by (simp add: proc_inv_def ps'_def)
  moreover have "length (p_name (pt_table ps' j)) = 32" if "j < ?n" for j
    using inv that tp(2) unfolding lt by (auto simp: proc_inv_def ps'_def)
  moreover have "pt_count ps' = int (card (?L ?n ps'))" using inv c by (simp add: proc_inv_def ps'_def)
  ultimately have "proc_inv ?n ps'" unfolding proc_inv_def by blast
  moreover have "proc_fill i name mem kum ps = Some (pt_next_pid ps, ps')"
    by (simp add: proc_fill_def b(1) ps'_def t_def)
  ultimately show ?thesis using b(2) by (intro exI [of _ t] exI [of _ ps']) (simp add: ps'_def t_def)
qed

section \<open>Properties\<close>

text \<open>
  \<^verbatim>\<open>proc_spawn\<close> on a table that satisfies the invariant (with process 0 alive) creates
  one running process with a pid that no process had, in a slot that held no live process, and
  keeps every other entry; it fails with -1 exactly when sixteen processes are live. Killing a
  live process only marks that one, and both keep the invariant.
\<close>

theorem proc_spawn_kill_spec:
  assumes "proc_inv n ps" "0 < pt_next_pid ps" "p_state (pt_table ps 0) \<noteq> PROC_ZOMBIE"
    and "terminated name" "length (cstr name) < 32"
  shows "(if pt_count ps = 16 then proc_spawn name mem kum ps = Some (-1, ps)
      else \<exists>i t ps' m. proc_spawn name mem kum ps = Some (pt_next_pid ps, ps')
         \<and> (n \<le> i \<or> p_state (pt_table ps i) = PROC_ZOMBIE) \<and> pt_table ps' = (pt_table ps)(i := t)
         \<and> p_pid t = pt_next_pid ps \<and> p_state t = PROC_RUNNING \<and> cstr (p_name t) = cstr name
         \<and> pt_next_pid ps' = pt_next_pid ps + 1 \<and> proc_inv m ps')
    \<and> (\<forall>i < n. p_state (pt_table ps i) \<noteq> PROC_ZOMBIE \<longrightarrow>
         proc_inv n (proc_kill (p_pid (pt_table ps i)) ps)
         \<and> pt_table (proc_kill (p_pid (pt_table ps i)) ps) = (pt_table ps)(i := (pt_table ps i)\<lparr>p_state := PROC_ZOMBIE\<rparr>))"
proof
  let ?L = "{i. i < n \<and> p_state (pt_table ps i) \<noteq> PROC_ZOMBIE}"
  have n: "1 \<le> n" "n \<le> 16" and c: "pt_count ps = int (card ?L)"
    and beyond: "\<And>i. n \<le> i \<Longrightarrow> pt_table ps i = process_zero"
    using assms(1) by (auto simp: proc_inv_def)
  have sub: "?L \<subseteq> {..<n}" by auto
  then have le: "card ?L \<le> n" using card_mono [of "{..<n}" ?L] by simp
  show "if pt_count ps = 16 then proc_spawn name mem kum ps = Some (-1, ps)
      else \<exists>i t ps' m. proc_spawn name mem kum ps = Some (pt_next_pid ps, ps')
         \<and> (n \<le> i \<or> p_state (pt_table ps i) = PROC_ZOMBIE) \<and> pt_table ps' = (pt_table ps)(i := t)
         \<and> p_pid t = pt_next_pid ps \<and> p_state t = PROC_RUNNING \<and> cstr (p_name t) = cstr name
         \<and> pt_next_pid ps' = pt_next_pid ps + 1 \<and> proc_inv m ps'"
  proof (cases "pt_count ps = 16")
    case True
    then show ?thesis by (simp add: proc_spawn_def MAX_PROCESSES_def)
  next
    case False
    then have lt: "card ?L < 16" using c le n by simp
    show ?thesis
    proof (cases "first_idx (\<lambda>i. p_state (pt_table ps i) = PROC_ZOMBIE) 0 MAX_PROCESSES")
      case (Some i)
      note F = first_idx_SomeD [OF Some]
      have "i < n" using F(3) beyond [of i] by (cases "n \<le> i") (auto simp: process_zero_def)
      moreover have "i \<noteq> 0" using F(3) assms(3) by metis
      ultimately have "i = n \<and> n < 16 \<or> i < n \<and> i \<noteq> 0 \<and> p_state (pt_table ps i) = PROC_ZOMBIE" using F by simp
      from proc_fill_inv [OF assms(1) this assms(4,5,2), of mem kum] show ?thesis
        using False lt c F(3) by (auto simp: proc_spawn_def MAX_PROCESSES_def Some [unfolded MAX_PROCESSES_def])
    next
      case None
      then have "?L = {..<n}" using n by (auto simp: first_idx_None_iff MAX_PROCESSES_def)
      then have cn: "pt_count ps = int n" "n < 16" using c lt by simp_all
      from proc_fill_inv [OF assms(1) _ assms(4,5,2), of n mem kum] show ?thesis
        using cn by (auto simp: proc_spawn_def MAX_PROCESSES_def None [unfolded MAX_PROCESSES_def])
    qed
  qed
  show "\<forall>i < n. p_state (pt_table ps i) \<noteq> PROC_ZOMBIE \<longrightarrow>
         proc_inv n (proc_kill (p_pid (pt_table ps i)) ps)
         \<and> pt_table (proc_kill (p_pid (pt_table ps i)) ps) = (pt_table ps)(i := (pt_table ps i)\<lparr>p_state := PROC_ZOMBIE\<rparr>)"
    using proc_kill_inv [OF assms(1)] by blast
qed

definition proc_start :: "bytes \<Rightarrow> bytes \<Rightarrow> procs" where
  "proc_start a b = \<lparr>pt_table = (\<lambda>i. if i = 0 then process_zero\<lparr>p_pid := 0, p_state := PROC_IDLE, p_memory_kb := 4,
                                    p_kum_level := 1, p_name := a\<rparr>
                           else if i = 1 then process_zero\<lparr>p_pid := 1, p_state := PROC_RUNNING, p_memory_kb := 128,
                                    p_kum_level := 1, p_name := b\<rparr>
                           else process_zero),
           pt_next_pid = 2, pt_count = 2\<rparr>"

lemma proc_init_start: "\<exists>a b. length a = 32 \<and> length b = 32 \<and> proc_init = Some (proc_start a b)"
proof -
  have l: "length (p_name process_zero) = 32" by (simp add: process_zero_def PROC_NAME_LEN_def)
  obtain a where a: "kstrcpy (p_name process_zero) (lit ''idle'') = Some a" "length a = 32"
    using kstrcpy_into [of "lit ''idle''" "p_name process_zero"] l by (auto simp: lit_def)
  obtain b where b: "kstrcpy (p_name process_zero) (lit ''kumos'') = Some b" "length b = 32"
    using kstrcpy_into [of "lit ''kumos''" "p_name process_zero"] l by (auto simp: lit_def)
  show ?thesis using a b by (intro exI [of _ a] exI [of _ b]) (simp add: proc_init_def proc_start_def)
qed

lemma proc_start_inv:
  assumes "length a = 32" "length b = 32"
  shows "proc_inv 2 (proc_start a b)" "0 < pt_next_pid (proc_start a b)"
    "p_state (pt_table (proc_start a b) 0) \<noteq> PROC_ZOMBIE"
proof -
  have t: "pt_table (proc_start a b) 0 = process_zero\<lparr>p_pid := 0, p_state := PROC_IDLE, p_memory_kb := 4, p_kum_level := 1, p_name := a\<rparr>"
    "pt_table (proc_start a b) (Suc 0) = process_zero\<lparr>p_pid := 1, p_state := PROC_RUNNING, p_memory_kb := 128, p_kum_level := 1, p_name := b\<rparr>"
    "2 \<le> i \<Longrightarrow> pt_table (proc_start a b) i = process_zero" for i
    by (simp_all add: proc_start_def)
  have two: "i < 2 \<longleftrightarrow> i = 0 \<or> i = 1" for i :: nat by auto
  have "{i. i < 2 \<and> p_state (pt_table (proc_start a b) i) \<noteq> PROC_ZOMBIE} = {0, Suc 0}"
    unfolding two by (auto simp: t)
  then have c: "card {i. i < 2 \<and> p_state (pt_table (proc_start a b) i) \<noteq> PROC_ZOMBIE} = 2" by simp
  have "inj_on (\<lambda>i. p_pid (pt_table (proc_start a b) i)) {..<2}"
  proof (rule inj_onI)
    fix x y assume "x \<in> {..<2::nat}" "y \<in> {..<2::nat}"
      "p_pid (pt_table (proc_start a b) x) = p_pid (pt_table (proc_start a b) y)"
    then show "x = y" unfolding lessThan_iff two by (auto simp: t)
  qed
  with c show "proc_inv 2 (proc_start a b)" unfolding proc_inv_def two
    using assms t(3) by (auto simp: t) (simp_all add: proc_start_def)
  show "0 < pt_next_pid (proc_start a b)" "p_state (pt_table (proc_start a b) 0) \<noteq> PROC_ZOMBIE"
    by (simp_all add: proc_start_def)
qed

lemma proc_spawn_kill_spec_witness:
  "\<exists>r ps'. proc_spawn (lit ''top'') 64 0 (proc_start (replicate 32 0) (replicate 32 0)) = Some (r, ps')"
  using proc_spawn_kill_spec [OF proc_start_inv, of "replicate 32 0" "replicate 32 0" "lit ''top''" 64 0]
  by (auto simp: lit_def split: if_splits)

text \<open>
  \<^verbatim>\<open>proc_kill\<close> does not check that its process is alive: killing the same process twice
  makes the count too small, and two spawns later \<^verbatim>\<open>proc_spawn\<close> overwrites the entry of a
  process that is still running.
\<close>

theorem proc_double_kill_overwrites:
  "let ps = the proc_init;
       ps1 = snd (the (proc_spawn (lit ''a'') 1 0 ps));
       ps2 = snd (the (proc_spawn (lit ''b'') 1 0 ps1));
       ps3 = proc_kill 2 (proc_kill 2 ps2);
       ps4 = snd (the (proc_spawn (lit ''c'') 1 0 ps3));
       ps5 = snd (the (proc_spawn (lit ''d'') 1 0 ps4))
   in proc_get 3 ps4 = Some 3 \<and> p_state (pt_table ps4 3) = PROC_RUNNING
      \<and> proc_get 3 ps5 = None \<and> p_pid (pt_table ps5 3) = 5"
  by code_simp

end
