(* ===== verification/Signal.thy ===== *)
theory Signal
  imports SchedProps
begin

text \<open>
  Signals, \<^verbatim>\<open>src/signal.c\<close>: per-slot sets of pending and blocked signals and handlers. A
  handler is its address; what a user handler does when it is called is the parameter
  \<open>run\<close> of \<open>signal_check\<close>.
\<close>

section \<open>State and operations\<close>

definition NSIG :: int where "NSIG = 32"
definition SIGINT :: int where "SIGINT = 2"
definition SIGKILL :: int where "SIGKILL = 9"
definition SIGTERM :: int where "SIGTERM = 15"
definition SIGCHLD :: int where "SIGCHLD = 17"
definition SIGCONT :: int where "SIGCONT = 18"
definition SIG_DFL :: u32 where "SIG_DFL = 0"
definition SIG_IGN :: u32 where "SIG_IGN = 1"

record sigset_t =
  sg_pending :: u32
  sg_blocked :: u32
  sg_handlers :: "nat \<Rightarrow> u32"

record sigsys =
  sy_signals :: "nat \<Rightarrow> sigset_t"
  sy_sched :: sched
  sy_heap :: kheap

text \<open>A call comes back with a value, or the calling task exits and another one runs.\<close>

datatype 'a sig_result = SigRet 'a | SigExit "(nat \<times> nat) option"

definition sigset_zero :: sigset_t where
  "sigset_zero = \<lparr>sg_pending = 0, sg_blocked = 0, sg_handlers = (\<lambda>_. 0)\<rparr>"

definition signal_init :: "sigsys \<Rightarrow> sigsys" where
  "signal_init y = y\<lparr>sy_signals := (\<lambda>_. sigset_zero)\<rparr>"

text \<open>
  The loop \<^verbatim>\<open>for (i...) { t = sched_get_task(i+1); if (t && t->pid == pid) { idx = i; break; } }\<close>
  that all the operations find the slot of a pid with; \<^verbatim>\<open>idx\<close> starts as 0.
\<close>

definition signal_slot :: "sched \<Rightarrow> int \<Rightarrow> nat" where
  "signal_slot s pid =
     (case first_idx (\<lambda>i. case sched_get_task s (int i + 1) of
          None \<Rightarrow> False | Some t \<Rightarrow> t_pid (sc_tasks s t) = pid) 0 SCHED_MAX_TASKS of
        None \<Rightarrow> 0 | Some i \<Rightarrow> i)"

definition sig_bit :: "int \<Rightarrow> u32" where
  "sig_bit sig = push_bit (nat sig) 1"

definition exit_now :: "int \<Rightarrow> u32 \<Rightarrow> sigsys \<Rightarrow> (sigsys \<times> 'a sig_result) option" where
  "exit_now code now y = do {
     ((s', sw), h') \<leftarrow> sched_exit_code code now (sy_sched y, sy_heap y);
     Some (y\<lparr>sy_sched := s', sy_heap := h'\<rparr>, SigExit sw) }"

definition signal_send :: "int \<Rightarrow> int \<Rightarrow> u32 \<Rightarrow> sigsys \<Rightarrow> (sigsys \<times> int sig_result) option" where
  "signal_send pid sig now y =
     (let s = sy_sched y in
      if sig \<le> 0 \<or> sig \<ge> NSIG then Some (y, SigRet (-1))
      else if sig = SIGKILL then
        (if sched_get_task s pid = None then Some (y, SigRet (-1)) else exit_now (-1) now y)
      else case sched_get_task s pid of
        None \<Rightarrow> Some (y, SigRet (-1))
      | Some t \<Rightarrow>
          (let idx = signal_slot s pid;
               y1 = y\<lparr>sy_signals := (sy_signals y)(idx :=
                      (sy_signals y idx)\<lparr>sg_pending := sg_pending (sy_signals y idx) OR sig_bit sig\<rparr>)\<rparr>;
               y2 = (if sig = SIGINT \<or> sig = SIGTERM \<or> sig = SIGKILL
                     then y1\<lparr>sy_sched := upd_task t (\<lambda>x. x\<lparr>t_state := TASK_ZOMBIE\<rparr>) s\<rparr> else y1)
           in Some (y2, SigRet 0)))"

definition current_slot :: "sigsys \<Rightarrow> nat" where
  "current_slot y = signal_slot (sy_sched y) (t_pid (sc_tasks (sy_sched y) (sc_current (sy_sched y))))"

definition signal_set_handler :: "int \<Rightarrow> u32 \<Rightarrow> sigsys \<Rightarrow> int \<times> sigsys" where
  "signal_set_handler sig handler y =
     (if sig \<le> 0 \<or> sig \<ge> NSIG then (-1, y)
      else (let idx = current_slot y in
            (0, y\<lparr>sy_signals := (sy_signals y)(idx := (sy_signals y idx)
                   \<lparr>sg_handlers := (sg_handlers (sy_signals y idx))(nat sig := handler)\<rparr>)\<rparr>)))"

fun check_loop ::
  "(u32 \<Rightarrow> int \<Rightarrow> sigsys \<Rightarrow> sigsys) \<Rightarrow> u32 \<Rightarrow> nat \<Rightarrow> u32 \<Rightarrow> int list \<Rightarrow> sigsys \<Rightarrow> (sigsys \<times> unit sig_result) option" where
  "check_loop run now idx pending [] y = Some (y, SigRet ())"
| "check_loop run now idx pending (sig # sigs) y =
     (if pending AND sig_bit sig = 0 then check_loop run now idx pending sigs y
      else
        (let y1 = y\<lparr>sy_signals := (sy_signals y)(idx :=
                    (sy_signals y idx)\<lparr>sg_pending := sg_pending (sy_signals y idx) AND NOT (sig_bit sig)\<rparr>)\<rparr>;
             h = sg_handlers (sy_signals y1 idx) (nat sig)
         in if h = SIG_IGN then check_loop run now idx pending sigs y1
            else if h = SIG_DFL then
              (if sig = SIGCHLD \<or> sig = SIGCONT then check_loop run now idx pending sigs y1
               else exit_now (128 + sig) now y1)
            else check_loop run now idx pending sigs (run h sig y1)))"

definition signal_check ::
  "(u32 \<Rightarrow> int \<Rightarrow> sigsys \<Rightarrow> sigsys) \<Rightarrow> u32 \<Rightarrow> sigsys \<Rightarrow> (sigsys \<times> unit sig_result) option" where
  "signal_check run now y =
     (let idx = current_slot y;
          pending = sg_pending (sy_signals y idx) AND NOT (sg_blocked (sy_signals y idx))
      in if pending = 0 then Some (y, SigRet ())
         else check_loop run now idx pending [1..NSIG - 1] y)"

definition signal_pending :: "sigsys \<Rightarrow> bool" where
  "signal_pending y =
     (let idx = current_slot y
      in sg_pending (sy_signals y idx) AND NOT (sg_blocked (sy_signals y idx)) \<noteq> 0)"

section \<open>Slots\<close>

lemma sched_get_task_pid: "sched_get_task s pid = Some i \<Longrightarrow> t_pid (sc_tasks s i) = pid"
  unfolding sched_get_task_def by (drule first_idx_SomeD(3)) simp

text \<open>Only the pids 1 to 16 have a slot of their own; every other pid gets slot 0.\<close>

lemma signal_slot_eq:
  "signal_slot s pid =
     (if 1 \<le> pid \<and> pid \<le> 16 \<and> sched_get_task s pid \<noteq> None then nat (pid - 1) else 0)"
proof -
  let ?P = "\<lambda>i. case sched_get_task s (int i + 1) of None \<Rightarrow> False | Some t \<Rightarrow> t_pid (sc_tasks s t) = pid"
  have P: "?P i \<longleftrightarrow> int i + 1 = pid \<and> sched_get_task s pid \<noteq> None" for i
    using sched_get_task_pid [of s "int i + 1"] by (auto split: option.splits)
  show ?thesis
  proof (cases "1 \<le> pid \<and> pid \<le> 16 \<and> sched_get_task s pid \<noteq> None")
    case True
    have "first_idx ?P 0 16 = Some (nat (pid - 1))"
    proof (rule first_idx_eqI)
      show "?P (nat (pid - 1))" unfolding P using True by simp
      show "\<not> ?P j" if "j < nat (pid - 1)" for j unfolding P using that True by auto
    qed (use True in auto)
    then show ?thesis using True by (simp add: signal_slot_def SCHED_MAX_TASKS_def)
  next
    case False
    have "first_idx ?P 0 16 = None" unfolding first_idx_None_iff P using False by auto
    then show ?thesis using False by (auto simp: signal_slot_def SCHED_MAX_TASKS_def)
  qed
qed

section \<open>Signals that are ignored\<close>

lemma and_sig_bit: "nat sig < 32 \<Longrightarrow> pending AND sig_bit sig = 0 \<longleftrightarrow> \<not> bit pending (nat sig)"
  by (simp add: sig_bit_def and_exp_eq_0_iff_not_bit)

lemma fold_clear:
  assumes "\<forall>sig \<in> set sigs. 0 < sig \<and> sig < 32" "n < 32"
  shows "bit (fold (\<lambda>sig p. if pending AND sig_bit sig = 0 then p else p AND NOT (sig_bit sig)) sigs p) n
     \<longleftrightarrow> bit p n \<and> \<not> (int n \<in> set sigs \<and> bit pending n)"
  using assms(1)
proof (induction sigs arbitrary: p)
  case (Cons sig sigs)
  then have s: "nat sig < 32" "0 < sig" by auto
  have b: "bit (sig_bit sig) n \<longleftrightarrow> n = nat sig" using assms(2) by (auto simp: sig_bit_def bit_simps)
  have e: "int n = sig \<longleftrightarrow> n = nat sig" using s(2) by auto
  show ?case using Cons assms(2) by (auto simp: and_sig_bit [OF s(1)] bit_simps b e)
qed simp

lemma check_loop_ignored:
  assumes "\<forall>sig \<in> set sigs. 0 < sig \<longrightarrow> pending AND sig_bit sig \<noteq> 0 \<longrightarrow>
      (sg_handlers (sy_signals y idx) (nat sig) = 1 \<or>
       sg_handlers (sy_signals y idx) (nat sig) = 0 \<and> sig \<in> {17, 18})" "\<forall>sig \<in> set sigs. 0 < sig"
  shows "check_loop run now idx pending sigs y =
     Some (y\<lparr>sy_signals := (sy_signals y)(idx := (sy_signals y idx)\<lparr>sg_pending :=
        fold (\<lambda>sig p. if pending AND sig_bit sig = 0 then p else p AND NOT (sig_bit sig)) sigs
          (sg_pending (sy_signals y idx))\<rparr>)\<rparr>, SigRet ())"
  using assms
proof (induction sigs arbitrary: y)
  case (Cons sig sigs)
  let ?y1 = "y\<lparr>sy_signals := (sy_signals y)(idx :=
     (sy_signals y idx)\<lparr>sg_pending := sg_pending (sy_signals y idx) AND NOT (sig_bit sig)\<rparr>)\<rparr>"
  have IH1: "check_loop run now idx pending sigs ?y1 = Some (?y1\<lparr>sy_signals := (sy_signals ?y1)(idx := (sy_signals ?y1 idx)\<lparr>sg_pending :=
        fold (\<lambda>sig p. if pending AND sig_bit sig = 0 then p else p AND NOT (sig_bit sig)) sigs
          (sg_pending (sy_signals ?y1 idx))\<rparr>)\<rparr>, SigRet ())"
    using Cons.prems by (intro Cons.IH) simp_all
  show ?case
  proof (cases "pending AND sig_bit sig = 0")
    case True
    with Cons show ?thesis by simp
  next
    case False
    with Cons.prems have "sg_handlers (sy_signals y idx) (nat sig) = 1 \<or>
       sg_handlers (sy_signals y idx) (nat sig) = 0 \<and> sig \<in> {17, 18}" by simp
    with False have "check_loop run now idx pending (sig # sigs) y = check_loop run now idx pending sigs ?y1"
      by (auto simp: Let_def SIG_IGN_def SIG_DFL_def SIGCHLD_def SIGCONT_def)
    then show ?thesis unfolding IH1 using False by simp (simp add: fun_upd_def)
  qed
qed simp

section \<open>Properties\<close>

text \<open>
  \<^verbatim>\<open>signal_send\<close> rejects signal numbers outside 1 to 31 and pids without a task with -1,
  changing nothing; any other signal but SIGKILL is recorded as pending in the slot of the pid,
  SIGINT and SIGTERM also make the target a zombie at once, and no other task or slot changes.
\<close>

theorem signal_send_spec:
  assumes "sig \<noteq> 9"
  shows "signal_send pid sig now y =
     (if sig \<le> 0 \<or> 32 \<le> sig then Some (y, SigRet (-1))
      else case sched_get_task (sy_sched y) pid of
        None \<Rightarrow> Some (y, SigRet (-1))
      | Some t \<Rightarrow>
          (let idx = (if 1 \<le> pid \<and> pid \<le> 16 then nat (pid - 1) else 0)
           in Some (\<lparr>sy_signals = (sy_signals y)(idx :=
                       (sy_signals y idx)\<lparr>sg_pending := sg_pending (sy_signals y idx) OR push_bit (nat sig) 1\<rparr>),
                     sy_sched = (if sig = 2 \<or> sig = 15 then upd_task t (\<lambda>x. x\<lparr>t_state := TASK_ZOMBIE\<rparr>) (sy_sched y)
                                 else sy_sched y),
                     sy_heap = sy_heap y\<rparr>, SigRet 0)))"
  using assms
  by (cases y)
    (simp add: signal_send_def signal_slot_eq NSIG_def SIGKILL_def SIGINT_def SIGTERM_def sig_bit_def Let_def
      split: option.splits)

definition sig_demo :: sigsys where
  "sig_demo = \<lparr>sy_signals = (\<lambda>_. sigset_zero), sy_sched = sched_demo, sy_heap = heap0\<rparr>"

lemma signal_send_spec_witness: "signal_send 2 40 0 sig_demo = Some (sig_demo, SigRet (-1))"
  using signal_send_spec [of 40 2 0 sig_demo] by simp

text \<open>
  C29. SIGKILL does not kill its target: for every pid that names a task, \<^verbatim>\<open>signal_send\<close>
  makes the calling task exit with code -1, whatever the pid.
\<close>

theorem sigkill_exits_caller:
  "signal_send pid 9 now y =
     (if sched_get_task (sy_sched y) pid = None then Some (y, SigRet (-1))
      else map_option (\<lambda>((s', sw), h'). (y\<lparr>sy_sched := s', sy_heap := h'\<rparr>, SigExit sw))
             (sched_exit_code (-1) now (sy_sched y, sy_heap y)))"
  by (auto simp: signal_send_def NSIG_def SIGKILL_def exit_now_def Let_def map_conv_bind_option
      intro!: bind_option_cong)

text \<open>
  The slots of the signal table are found by pid, not by task: two tasks with pids above 16
  share the slot of the first task, so a signal sent to one is pending for all of them.
\<close>

theorem signal_slots_collide:
  assumes "16 < pid"
  shows "signal_slot s pid = signal_slot s 1 \<and> signal_slot s pid = 0"
  using assms by (simp add: signal_slot_eq)

lemma signal_slots_collide_witness: "signal_slot sched_demo 17 = 0"
  using signal_slots_collide [of 17 sched_demo] by simp

text \<open>
  \<^verbatim>\<open>signal_check\<close> with signals pending whose action is ignored (set to be ignored, or
  SIGCHLD and SIGCONT with the default action) clears exactly those bits and returns, without
  running a handler or ending the task.
\<close>

theorem signal_check_ignores:
  assumes "\<forall>sig \<in> {1..31}. pend AND sig_bit sig \<noteq> 0 \<longrightarrow>
      (sg_handlers (sy_signals y (current_slot y)) (nat sig) = 1 \<or>
       sg_handlers (sy_signals y (current_slot y)) (nat sig) = 0 \<and> sig \<in> {17, 18})"
    and "pend = sg_pending (sy_signals y (current_slot y)) AND NOT (sg_blocked (sy_signals y (current_slot y)))"
  shows "signal_check run now y = Some (y\<lparr>sy_signals := (sy_signals y)(current_slot y :=
      (sy_signals y (current_slot y))\<lparr>sg_pending := sg_pending (sy_signals y (current_slot y)) AND NOT (pend AND NOT 1)\<rparr>)\<rparr>,
      SigRet ())"
proof (cases "pend = 0")
  case True
  then show ?thesis using assms(2) by (simp add: signal_check_def Let_def)
next
  case False
  let ?p = "sg_pending (sy_signals y (current_slot y))"
  have st: "set [1..NSIG - 1] = {1..31}" by (simp add: NSIG_def)
  have "fold (\<lambda>sig p. if pend AND sig_bit sig = 0 then p else p AND NOT (sig_bit sig)) [1..NSIG - 1] ?p
      = ?p AND NOT (pend AND NOT 1)"
  proof (rule bit_word_eqI)
    fix n assume n: "n < LENGTH(32)"
    then have "int n \<in> {1..31} \<longleftrightarrow> n \<noteq> 0" by auto
    then show "bit (fold (\<lambda>sig p. if pend AND sig_bit sig = 0 then p else p AND NOT (sig_bit sig)) [1..NSIG - 1] ?p) n
        = bit (?p AND NOT (pend AND NOT 1)) n"
      using n by (subst fold_clear) (auto simp: st bit_simps simp del: set_upto)
  qed
  moreover have "check_loop run now (current_slot y) pend [1..NSIG - 1] y =
     Some (y\<lparr>sy_signals := (sy_signals y)(current_slot y := (sy_signals y (current_slot y))\<lparr>sg_pending :=
        fold (\<lambda>sig p. if pend AND sig_bit sig = 0 then p else p AND NOT (sig_bit sig)) [1..NSIG - 1] ?p\<rparr>)\<rparr>, SigRet ())"
    by (rule check_loop_ignored) (use assms(1) in \<open>simp_all add: st del: set_upto\<close>)
  ultimately show ?thesis using False assms(2) by (simp add: signal_check_def Let_def)
qed

lemma signal_check_ignores_witness: "signal_check (\<lambda>_ _ y. y) 0 sig_demo =
   Some (sig_demo\<lparr>sy_signals := (sy_signals sig_demo)(current_slot sig_demo :=
      (sy_signals sig_demo (current_slot sig_demo))\<lparr>sg_pending := 0\<rparr>)\<rparr>, SigRet ())"
  using signal_check_ignores [of 0 sig_demo "\<lambda>_ _ y. y" 0] by (simp add: sig_demo_def sigset_zero_def)

end
