(* ===== verification/Timer.thy ===== *)
theory Timer
  imports Ports Process Signal
begin

text \<open>
  The timer, \<^verbatim>\<open>src/timer.c\<close>: programming the PIT, the tick interrupt, which drives the
  process table and the signals, and sleeping by halting until enough ticks have passed.
\<close>

section \<open>Operations\<close>

definition PIT_CHANNEL0 :: u16 where "PIT_CHANNEL0 = 0x40"
definition PIT_CMD :: u16 where "PIT_CMD = 0x43"
definition PIT_BASE_HZ :: u32 where "PIT_BASE_HZ = 1193180"

record timer =
  tm_count :: u32
  tm_hz :: u32

definition timer_callback ::
  "(u32 \<Rightarrow> int \<Rightarrow> sigsys \<Rightarrow> sigsys) \<Rightarrow> timer \<times> procs \<times> sigsys
   \<Rightarrow> ((timer \<times> procs \<times> sigsys) \<times> unit sig_result) option" where
  "timer_callback run = (\<lambda>(t, ps, y).
     (let t1 = t\<lparr>tm_count := tm_count t + 1\<rparr>;
          ps1 = proc_tick ps
      in if tm_count t1 mod 10 = 0
         then map_option (\<lambda>(y', r). ((t1, ps1, y'), r)) (signal_check run (tm_count t1) y)
         else Some ((t1, ps1, y), SigRet ())))"

definition timer_init :: "u32 \<Rightarrow> 'w ports \<Rightarrow> timer \<times> 'w \<Rightarrow> (timer \<times> 'w) option" where
  "timer_init hz io = (\<lambda>(t, w).
     (if hz = 0 then None
      else (let divisor = PIT_BASE_HZ div hz
            in Some (t\<lparr>tm_hz := hz, tm_count := 0\<rparr>,
                 outs io [(PIT_CMD, 0x36), (PIT_CHANNEL0, ucast (divisor AND 0xFF)),
                          (PIT_CHANNEL0, ucast (drop_bit 8 divisor AND 0xFF))] w))))"

definition timer_ticks :: "timer \<Rightarrow> u32" where "timer_ticks t = tm_count t"

definition timer_seconds :: "timer \<Rightarrow> u32 option" where
  "timer_seconds t = (if tm_hz t = 0 then None else Some (tm_count t div tm_hz t))"

text \<open>Each \<^verbatim>\<open>hlt\<close> ends with an interrupt; interrupt 0 is the tick.\<close>

partial_function (option) sleep_loop :: "'w ports \<Rightarrow> u32 \<Rightarrow> timer \<Rightarrow> 'w \<Rightarrow> (timer \<times> 'w) option" where
  "sleep_loop io target t w =
     (if tm_count t < target
      then (let (irq, w') = io_hlt io w
            in sleep_loop io target (if irq = 0 then t\<lparr>tm_count := tm_count t + 1\<rparr> else t) w')
      else Some (t, w))"

definition timer_sleep :: "u32 \<Rightarrow> 'w ports \<Rightarrow> timer \<times> 'w \<Rightarrow> (timer \<times> 'w) option" where
  "timer_sleep ms io = (\<lambda>(t, w). sleep_loop io (tm_count t + (ms * tm_hz t div 1000)) t w)"

section \<open>Properties\<close>

lemma sleep_loop_ticks:
  assumes "\<And>w. fst (io_hlt io w) = 0" "unat (tm_count t) + d = unat target"
  shows "\<exists>w'. sleep_loop io target t w = Some (t\<lparr>tm_count := target\<rparr>, w')"
  using assms(2)
proof (induction d arbitrary: t w)
  case 0
  then have "tm_count t = target" by (simp add: word_unat_eq_iff)
  then show ?case by (simp add: sleep_loop.simps [of io target t w])
next
  case (Suc d)
  obtain w1 where w1: "io_hlt io w = (0, w1)" using assms(1) [of w] by (metis prod.collapse)
  have lt: "tm_count t < target" using Suc.prems by (simp add: word_less_nat_alt)
  have "unat (tm_count t) + 1 < 2 ^ 32" using Suc.prems unat_u32_lt [of target] by simp
  then have "unat (tm_count t + 1) = unat (tm_count t) + 1" by (simp add: unat_word_ariths)
  with Suc.IH [of "t\<lparr>tm_count := tm_count t + 1\<rparr>" w1] Suc.prems lt w1 show ?case
    by (simp add: sleep_loop.simps [of io target t w])
qed



end
