(* ===== verification/Dmesg.thy ===== *)
theory Dmesg
  imports Vga
begin

text \<open>
  The kernel log, \<^verbatim>\<open>src/dmesg.c\<close>: a ring of 16384 characters that overwrites the oldest
  ones. \<open>ticks\<close> and \<open>sec\<close> are what \<^verbatim>\<open>timer_ticks()\<close> and \<^verbatim>\<open>timer_seconds()\<close> return.
\<close>

section \<open>State and operations\<close>

definition DMESG_BUF :: nat where "DMESG_BUF = 16384"

record dmesg =
  dm_buf :: "nat \<Rightarrow> u8"
  dm_head :: u32
  dm_count :: u32

definition dmesg_init :: dmesg where
  "dmesg_init = \<lparr>dm_buf = (\<lambda>_. 0), dm_head = 0, dm_count = 0\<rparr>"

definition dm_put :: "u8 \<Rightarrow> dmesg \<Rightarrow> dmesg" where
  "dm_put c d = d\<lparr>dm_buf := (dm_buf d)(unat (dm_head d mod 16384) := c), dm_head := dm_head d + 1,
                 dm_count := dm_count d + 1\<rparr>"

fun buf_append :: "bytes \<Rightarrow> dmesg \<Rightarrow> dmesg option" where
  "buf_append [] d = None"
| "buf_append (c # cs) d = (if c = 0 then Some d else buf_append cs (dm_put c d))"

text \<open>The digits go into \<^verbatim>\<open>tmp[6]\<close> and below, the NUL is \<^verbatim>\<open>tmp[7]\<close>: seven digits fit.\<close>

definition dmesg_log :: "u32 \<Rightarrow> u32 \<Rightarrow> bytes \<Rightarrow> dmesg \<Rightarrow> dmesg option" where
  "dmesg_log ticks sec msg d = do {
     let ms = (ticks mod 100) * 10;
     s \<leftarrow> put_dec 7 sec;
     d1 \<leftarrow> buf_append (lit ''['') d;
     d2 \<leftarrow> buf_append (s @ [0]) d1;
     d3 \<leftarrow> buf_append (lit ''.'') d2;
     d4 \<leftarrow> (if ms < 100 then buf_append (lit ''0'') d3 else Some d3);
     d5 \<leftarrow> (if ms < 10 then buf_append (lit ''0'') d4 else Some d4);
     m \<leftarrow> put_dec 7 ms;
     d6 \<leftarrow> buf_append (m @ [0]) d5;
     d7 \<leftarrow> buf_append (lit ''] '') d6;
     d8 \<leftarrow> buf_append msg d7;
     n \<leftarrow> kstrlen msg;
     if n = 0 then None
     else if msg ! (n - 1) \<noteq> 10 then buf_append [10, 0] d8 else Some d8 }"

text \<open>The arguments of the variadic \<^verbatim>\<open>dmesg_printf\<close>; a null string is \<open>FStr None\<close>.\<close>

datatype fmt_arg = FStr "bytes option" | FInt int | FUInt u32

definition emit :: "nat \<Rightarrow> bytes \<Rightarrow> bytes \<Rightarrow> bytes option" where
  "emit cap cs out = (if length out + length cs \<le> cap then Some (out @ cs) else None)"

fun fmt_str :: "bytes \<Rightarrow> bytes \<Rightarrow> bytes option" where
  "fmt_str [] out = None"
| "fmt_str (c # s) out = (if c \<noteq> 0 \<and> length out < 254 then fmt_str s (out @ [c]) else Some out)"

definition fmt_uint :: "(u32 \<Rightarrow> u8) \<Rightarrow> u32 \<Rightarrow> u32 \<Rightarrow> bytes \<Rightarrow> bytes option" where
  "fmt_uint dig base u out =
     (if u = 0 then emit 256 [48] out else do { ds \<leftarrow> put_digits dig base 11 u; emit 256 ds out })"

definition fmt_int :: "int \<Rightarrow> bytes \<Rightarrow> bytes option" where
  "fmt_int d out =
     (if d < 0
      then if d = - (2 ^ 31) then None
           else do { out' \<leftarrow> emit 256 [of_char CHR ''-''] out; fmt_uint dec_dig 10 (of_int (- d)) out' }
      else fmt_uint dec_dig 10 (of_int d) out)"

fun dmesg_fmt :: "bytes \<Rightarrow> fmt_arg list \<Rightarrow> bytes \<Rightarrow> bytes option" where
  "dmesg_fmt [] args out = None"
| "dmesg_fmt (c # fmt) args out =
     (if c = 0 \<or> \<not> length out < 254 then Some out
      else if c \<noteq> of_char CHR ''%'' then dmesg_fmt fmt args (out @ [c])
      else case fmt of
        [] \<Rightarrow> None
      | k # fmt' \<Rightarrow>
          if k = of_char CHR ''s'' then
            (case args of FStr s # as \<Rightarrow> do { o' \<leftarrow> fmt_str (case s of None \<Rightarrow> [0] | Some b \<Rightarrow> b) out; dmesg_fmt fmt' as o' }
             | _ \<Rightarrow> None)
          else if k = of_char CHR ''d'' then
            (case args of FInt d # as \<Rightarrow> do { o' \<leftarrow> fmt_int d out; dmesg_fmt fmt' as o' } | _ \<Rightarrow> None)
          else if k = of_char CHR ''u'' then
            (case args of FUInt u # as \<Rightarrow> do { o' \<leftarrow> fmt_uint dec_dig 10 u out; dmesg_fmt fmt' as o' } | _ \<Rightarrow> None)
          else if k = of_char CHR ''x'' then
            (case args of FUInt u # as \<Rightarrow> do { o' \<leftarrow> fmt_uint hexl_dig 16 u out; dmesg_fmt fmt' as o' } | _ \<Rightarrow> None)
          else if k = of_char CHR ''c'' then
            (case args of FInt i # as \<Rightarrow> do { o' \<leftarrow> emit 256 [of_int i] out; dmesg_fmt fmt' as o' } | _ \<Rightarrow> None)
          else dmesg_fmt fmt' args out)"

definition dmesg_printf :: "u32 \<Rightarrow> u32 \<Rightarrow> bytes \<Rightarrow> fmt_arg list \<Rightarrow> dmesg \<Rightarrow> dmesg option" where
  "dmesg_printf ticks sec fmt args d = do {
     out \<leftarrow> dmesg_fmt fmt args [];
     out' \<leftarrow> emit 256 [0] out;
     dmesg_log ticks sec out' d }"

definition dm_start :: "dmesg \<Rightarrow> u32" where
  "dm_start d = (if dm_count d > 16384 then dm_head d mod 16384 else 0)"

definition dm_total :: "dmesg \<Rightarrow> u32" where
  "dm_total d = (if dm_count d > 16384 then 16384 else dm_head d)"

definition dm_char :: "dmesg \<Rightarrow> nat \<Rightarrow> u8" where
  "dm_char d i = dm_buf d ((unat (dm_start d) + i) mod DMESG_BUF)"

definition dmesg_print_all :: "dmesg \<Rightarrow> vga \<Rightarrow> vga" where
  "dmesg_print_all d v =
     fold (\<lambda>i v. if dm_char d i \<noteq> 0 then vga_putchar (dm_char d i) v else v) [0..<unat (dm_total d)] v"

definition dmesg_read :: "bytes \<Rightarrow> u32 \<Rightarrow> dmesg \<Rightarrow> (int \<times> bytes) option" where
  "dmesg_read buf sz d =
     (let total = (if dm_total d \<ge> sz then sz - 1 else dm_total d)
      in do { buf' \<leftarrow> blit buf 0 (map (dm_char d) [0..<unat total] @ [0]); Some (sint total, buf') })"

section \<open>The log as a list\<close>

text \<open>\<open>dm_holds d log\<close>: the ring holds the last 16384 characters of \<open>log\<close>.\<close>

definition dm_holds :: "dmesg \<Rightarrow> bytes \<Rightarrow> bool" where
  "dm_holds d log \<longleftrightarrow> length log < 2 ^ 32 \<and> dm_head d = of_nat (length log) \<and> dm_count d = of_nat (length log)
     \<and> (\<forall>i < length log. length log \<le> i + 16384 \<longrightarrow> dm_buf d (i mod 16384) = log ! i)"

definition window :: "bytes \<Rightarrow> bytes" where
  "window log = drop (length log - 16384) log"

lemma mod_ring_inj:
  assumes "i mod n = j mod n" "i \<le> j" "j < i + n"
  shows "i = (j :: nat)"
proof -
  from assms(1,2) have "n dvd j - i" by (metis mod_eq_dvd_iff_nat)
  with assms(3) show ?thesis using assms(2) by (auto dest: dvd_imp_le)
qed

lemma dm_put_holds:
  assumes h: "dm_holds d log" and len: "Suc (length log) < 2 ^ 32"
  shows "dm_holds (dm_put c d) (log @ [c])"
proof -
  have at: "unat (dm_head d mod 16384) = length log mod 16384"
    using h len by (simp add: dm_holds_def unat_mod unat_of_nat take_bit_eq_mod)
  have "dm_buf (dm_put c d) (i mod 16384) = (log @ [c]) ! i"
    if i: "i < Suc (length log)" "Suc (length log) \<le> i + 16384" for i
  proof (cases "i = length log")
    case False
    then have "i mod 16384 \<noteq> length log mod 16384"
      using mod_ring_inj [of i 16384 "length log"] i by auto
    with False h i at show ?thesis by (auto simp: dm_put_def dm_holds_def nth_append)
  qed (simp add: dm_put_def at)
  with h len show ?thesis by (simp add: dm_holds_def dm_put_def add.commute)
qed

lemma buf_append_holds:
  assumes "dm_holds d log" "terminated s" "length log + length (cstr s) < 2 ^ 32"
  shows "\<exists>d'. buf_append s d = Some d' \<and> dm_holds d' (log @ cstr s)"
  using assms
proof (induction s arbitrary: d log)
  case (Cons c s)
  show ?case
  proof (cases "c = 0")
    case False
    with Cons.prems have t: "Suc (length log) < 2 ^ 32" "terminated s" by auto
    with Cons.IH [OF dm_put_holds [OF Cons.prems(1)] t(2), of c] Cons.prems False show ?thesis by simp
  qed (use Cons.prems in simp)
qed simp

text \<open>The line that \<^verbatim>\<open>dmesg_log\<close> writes: the seconds, three digits of milliseconds, the message.\<close>

definition log_line :: "bytes \<Rightarrow> bytes \<Rightarrow> bytes \<Rightarrow> bytes" where
  "log_line s m msg = map of_char ''['' @ s @ map of_char ''.'' @ m @ map of_char ''] '' @ msg
     @ (if last msg = 10 then [] else [10])"

lemma dm_total_holds: "dm_holds d log \<Longrightarrow> unat (dm_total d) = min (length log) 16384"
  by (auto simp: dm_total_def dm_holds_def word_less_nat_alt unat_of_nat take_bit_eq_mod min_def)

lemma dm_char_holds:
  assumes h: "dm_holds d log" and i: "i < min (length log) 16384"
  shows "dm_char d i = window log ! i"
proof (cases "length log > 16384")
  case False
  then have "dm_start d = 0" using h
    by (auto simp: dm_start_def dm_holds_def word_less_nat_alt unat_of_nat take_bit_eq_mod)
  with False h i show ?thesis by (auto simp: dm_char_def dm_holds_def window_def DMESG_BUF_def)
next
  case True
  then have s: "unat (dm_start d) = length log mod 16384" using h
    by (auto simp: dm_start_def dm_holds_def word_less_nat_alt unat_of_nat unat_mod take_bit_eq_mod)
  have "(length log mod 16384 + i) mod 16384 = (length log - 16384 + i) mod 16384"
  proof -
    obtain k where "length log = 16384 + k" using True by (metis less_imp_le le_Suc_ex)
    then show ?thesis by (simp add: mod_add_left_eq)
  qed
  moreover have "dm_buf d ((length log - 16384 + i) mod 16384) = log ! (length log - 16384 + i)"
    using h i True unfolding dm_holds_def by auto
  ultimately show ?thesis using s True i by (simp add: dm_char_def window_def DMESG_BUF_def)
qed

lemma dm_chars_holds:
  assumes "dm_holds d log" "n \<le> min (length log) 16384"
  shows "map (dm_char d) [0..<n] = take n (window log)"
proof (rule nth_equalityI)
  show "length (map (dm_char d) [0..<n]) = length (take n (window log))"
    using assms(2) by (auto simp: window_def)
qed (use assms dm_char_holds [OF assms(1)] in auto)

text \<open>The number of the millisecond digits: the two tests of the code pad to three.\<close>

definition pad_ms :: "u32 \<Rightarrow> bytes" where
  "pad_ms ms = (if ms < 100 then [48] else []) @ (if ms < 10 then [48] else [])"

lemma kstrlen_val: "terminated b \<Longrightarrow> kstrlen b = Some (length (cstr b))"
  by (simp add: kstr_simps)

lemma last_cstr: "terminated b \<Longrightarrow> cstr b \<noteq> [] \<Longrightarrow> b ! (length (cstr b) - 1) = last (cstr b)"
  by (induction b) (auto simp: nth_Cons' split: if_splits)

lemma no_zero_digits: "list_all (\<lambda>d. 48 \<le> unat d \<and> unat d \<le> 57) (ds :: bytes) \<Longrightarrow> 0 \<notin> set ds"
  by (auto simp: list_all_iff)

lemma dec_value_zero_pad: "dec_value (48 # ds) = dec_value ds"
  by (simp add: dec_value_def)

lemma pad_ms_digits:
  assumes ms: "unat ms < 1000"
  shows "\<exists>m. put_dec 7 ms = Some m \<and> dec_value (pad_ms ms @ m) = unat ms \<and> length (pad_ms ms @ m) = 3 \<and> 0 \<notin> set m"
proof -
  consider (a) "unat ms < 10" | (b) "10 \<le> unat ms" "unat ms < 100" | (c) "100 \<le> unat ms" by linarith
  then show ?thesis
  proof cases
    case a
    then show ?thesis using put_dec_exact [of ms 1 7] no_zero_digits
      by (auto simp: pad_ms_def word_less_nat_alt dec_value_zero_pad)
  next
    case b
    then show ?thesis using put_dec_exact [of ms 2 7] no_zero_digits
      by (auto simp: pad_ms_def word_less_nat_alt dec_value_zero_pad)
  next
    case c
    then show ?thesis using put_dec_exact [of ms 3 7] no_zero_digits ms
      by (auto simp: pad_ms_def word_less_nat_alt)
  qed
qed

lemma buf_append_pad:
  assumes "dm_holds d log" "length log < 2 ^ 32 - 2"
  shows "\<exists>d4 d'. (if ms < 100 then buf_append (lit ''0'') d else Some d) = Some d4
                  \<and> (if ms < 10 then buf_append (lit ''0'') d4 else Some d4) = Some d' \<and> dm_holds d' (log @ pad_ms ms)"
proof -
  have 1: "dm_holds (dm_put 48 d) (log @ [48])" using dm_put_holds [OF assms(1)] assms(2) by simp
  have 2: "dm_holds (dm_put 48 (dm_put 48 d)) (log @ [48, 48])"
    using dm_put_holds [OF 1, of 48] assms(2) by simp
  have le: "(ms :: u32) < 10 \<Longrightarrow> ms < 100" by (simp add: word_less_nat_alt)
  show ?thesis using 1 2 assms(1) le by (auto simp: pad_ms_def lit_def)
qed

lemma buf_append_digits:
  "dm_holds d log \<Longrightarrow> 0 \<notin> set s \<Longrightarrow> length log + length s < 2 ^ 32
     \<Longrightarrow> \<exists>d'. buf_append (s @ [0]) d = Some d' \<and> dm_holds d' (log @ s)"
  using buf_append_holds [of d log "s @ [0]"] by simp

lemma dmesg_log_holds:
  assumes h: "dm_holds d log" and msg: "terminated msg" "cstr msg \<noteq> []" and sec: "unat sec < 10 ^ 7"
    and len: "length log + length (cstr msg) + 20 < 2 ^ 32"
  shows "\<exists>d' s m. dmesg_log ticks sec msg d = Some d' \<and> dm_holds d' (log @ log_line s m (cstr msg))
           \<and> dec_value s = unat sec \<and> dec_value m = unat ticks mod 100 * 10 \<and> length m = 3"
proof -
  let ?ms = "(ticks mod 100) * 10"
  have "unat (ticks mod 100) = unat ticks mod 100" by (simp add: unat_mod)
  then have ms: "unat ?ms = unat ticks mod 100 * 10" by (simp add: unat_word_ariths)
  from put_dec_spec [of sec 7] sec obtain s where
    s: "put_dec 7 sec = Some s" "dec_value s = unat sec" "length s \<le> 7"
      "list_all (\<lambda>d. 48 \<le> unat d \<and> unat d \<le> 57) s" by auto
  from pad_ms_digits [of ?ms] ms obtain m where
    m: "put_dec 7 ?ms = Some m" "dec_value (pad_ms ?ms @ m) = unat ?ms" "length (pad_ms ?ms @ m) = 3" "0 \<notin> set m"
    by auto
  from buf_append_holds [OF h, of "lit ''[''"] len obtain d1 where
    d1: "buf_append (lit ''['') d = Some d1" "dm_holds d1 (log @ map of_char ''['')" by (auto simp: lit_def)
  from buf_append_digits [OF d1(2) no_zero_digits [OF s(4)]] len s(3) obtain d2 where
    d2: "buf_append (s @ [0]) d1 = Some d2" "dm_holds d2 ((log @ map of_char ''['') @ s)" by auto
  from buf_append_holds [OF d2(2), of "lit ''.''"] len s(3) obtain d3 where
    d3: "buf_append (lit ''.'') d2 = Some d3" "dm_holds d3 (((log @ map of_char ''['') @ s) @ map of_char ''.'')"
    by (auto simp: lit_def)
  from buf_append_pad [OF d3(2), of ?ms] len s(3) obtain d4 d5 where
    d45: "(if ?ms < 100 then buf_append (lit ''0'') d3 else Some d3) = Some d4"
      "(if ?ms < 10 then buf_append (lit ''0'') d4 else Some d4) = Some d5" and d5:
      "dm_holds d5 ((((log @ map of_char ''['') @ s) @ map of_char ''.'') @ pad_ms ?ms)" by auto
  from buf_append_digits [OF d5 m(4)] len s(3) m(3) obtain d6 where
    d6: "buf_append (m @ [0]) d5 = Some d6"
      "dm_holds d6 (((((log @ map of_char ''['') @ s) @ map of_char ''.'') @ pad_ms ?ms) @ m)" by auto
  from buf_append_holds [OF d6(2), of "lit ''] ''"] len s(3) m(3) obtain d7 where
    d7: "buf_append (lit ''] '') d6 = Some d7"
      "dm_holds d7 ((((((log @ map of_char ''['') @ s) @ map of_char ''.'') @ pad_ms ?ms) @ m) @ map of_char ''] '')"
    by (auto simp: lit_def)
  from buf_append_holds [OF d7(2) msg(1)] len s(3) m(3) obtain d8 where
    d8: "buf_append msg d7 = Some d8"
      "dm_holds d8 (((((((log @ map of_char ''['') @ s) @ map of_char ''.'') @ pad_ms ?ms) @ m) @ map of_char ''] '') @ cstr msg)"
    by auto
  have nl: "buf_append [10, 0] d8 = Some (dm_put 10 d8)" by simp
  note h9 = dm_put_holds [OF d8(2), of 10]
  have l: "msg ! (length (cstr msg) - 1) = last (cstr msg)" by (rule last_cstr [OF msg])
  have run: "dmesg_log ticks sec msg d = (if last (cstr msg) \<noteq> 10 then Some (dm_put 10 d8) else Some d8)"
    using msg(2) l unfolding dmesg_log_def Let_def s(1) m(1) d1(1) d2(1) d3(1) d45 bind.bind_lunit d6(1) d7(1) d8(1) nl kstrlen_val [OF msg(1)]
    by (simp only: bind.bind_lunit length_0_conv if_False)
  have "dm_holds (if last (cstr msg) \<noteq> 10 then dm_put 10 d8 else d8) (log @ log_line s (pad_ms ?ms @ m) (cstr msg))"
    using d8(2) h9 len s(3) m(3) by (auto simp: log_line_def)
  then show ?thesis using run s(2) m(2,3) ms by (intro exI conjI) auto
qed

lemma dmesg_read_holds:
  assumes h: "dm_holds d log" and sz: "0 < sz" "unat sz \<le> length buf"
  shows "\<exists>n buf'. dmesg_read buf sz d = Some (int n, buf') \<and> n = min (unat sz - 1) (min (length log) 16384)
           \<and> take (Suc n) buf' = take n (window log) @ [0]"
proof -
  define t where "t = (if dm_total d \<ge> sz then sz - 1 else dm_total d)"
  define n where "n = min (unat sz - 1) (min (length log) 16384)"
  have one: "1 \<le> sz" using sz(1) by (simp add: word_less_nat_alt word_le_nat_alt)
  have t: "unat t = n"
    using dm_total_holds [OF h] one sz(1) unfolding t_def n_def
    by (auto simp: word_le_nat_alt word_less_nat_alt unat_sub)
  have n: "n \<le> min (length log) 16384" "n < length buf"
    using sz unfolding n_def by (auto simp: word_less_nat_alt)
  have "sint t = int n"
    using c_int_small [of n] n(1) unfolding c_int_def t [symmetric] by simp
  moreover have "length (take n (window log)) = n" using n(1) by (auto simp: window_def)
  ultimately
  have "dmesg_read buf sz d = Some (int n, take n (window log) @ [0] @ drop (Suc n) buf)"
    using n t dm_chars_holds [OF h n(1)]
    unfolding dmesg_read_def Let_def t_def [symmetric] by (simp add: blit_def del: length_take)
  then show ?thesis using n(1) unfolding n_def [symmetric] by (auto simp: window_def)
qed

text \<open>
  On a log whose ring holds the characters written so far, \<^verbatim>\<open>dmesg_log\<close> appends exactly one line,
  \<^verbatim>\<open>[seconds.milliseconds] message\<close> ended by one newline, and \<^verbatim>\<open>dmesg_read\<close> then returns a
  NUL-terminated copy of the last 16384 characters of the log, cut to the caller's buffer.
\<close>

theorem dmesg_log_then_read:
  assumes "dm_holds d log" "terminated msg" "cstr msg \<noteq> []" "unat sec < 10 ^ 7"
    and "length log + length (cstr msg) + 20 < 2 ^ 32" "0 < sz" "unat sz \<le> length buf"
  shows "\<exists>d' s m n buf'. dmesg_log ticks sec msg d = Some d' \<and> dm_holds d' (log @ log_line s m (cstr msg))
     \<and> dec_value s = unat sec \<and> dec_value m = unat ticks mod 100 * 10 \<and> length m = 3
     \<and> dmesg_read buf sz d' = Some (int n, buf')
     \<and> n = min (unat sz - 1) (min (length (log @ log_line s m (cstr msg))) 16384)
     \<and> take (Suc n) buf' = take n (window (log @ log_line s m (cstr msg))) @ [0]"
proof -
  from dmesg_log_holds [OF assms(1-5), of ticks] obtain d' s m where
    d': "dmesg_log ticks sec msg d = Some d'" "dm_holds d' (log @ log_line s m (cstr msg))"
      "dec_value s = unat sec" "dec_value m = unat ticks mod 100 * 10" "length m = 3" by blast
  from dmesg_read_holds [OF d'(2) assms(6,7)] d' show ?thesis by blast
qed

lemma dmesg_log_then_read_witness:
  "\<exists>d' s m. dmesg_log 205 2 (lit ''hi'') dmesg_init = Some d' \<and> dm_holds d' (log_line s m (map of_char ''hi''))
     \<and> dec_value s = 2 \<and> dec_value m = 50 \<and> length m = 3"
  using dmesg_log_then_read [of dmesg_init "[]" "lit ''hi''" 2 1 "[0]" 205]
  by (auto simp: dmesg_init_def dm_holds_def lit_def)

text \<open>
  \<^verbatim>\<open>dmesg_printf\<close> checks the room in its 256-byte buffer only between conversions: a number
  that starts near the end runs past the buffer, here 253 letters and \<^verbatim>\<open>%u\<close> of a ten-digit value.
\<close>

theorem dmesg_printf_overflow:
  "dmesg_printf ticks sec (replicate 253 97 @ lit ''%u'') [FUInt 4294967295] d = None"
proof -
  have pre: "length out + n \<le> 254 \<Longrightarrow>
      dmesg_fmt (replicate n 97 @ r) as out = dmesg_fmt r as (out @ replicate n 97)" for n out r as
  proof (induction n arbitrary: out)
    case (Suc n)
    from Suc.IH [of "out @ [97]"] Suc.prems show ?case by simp
  qed simp
  obtain ds where ds: "put_digits dec_dig 10 11 4294967295 = Some ds" "length ds = 10"
    using put_dec_exact [of 4294967295 10 11] by (auto simp: put_dec_def)
  have "dmesg_fmt (lit ''%u'') [FUInt 4294967295] (replicate 253 97) = None"
    by (simp add: lit_def fmt_uint_def ds emit_def)
  then show ?thesis using pre [of "[]" 253 "lit ''%u''"] by (simp add: dmesg_printf_def)
qed

end
