(* ===== verification/Pmm.thy ===== *)
theory Pmm
  imports KumPrelude
begin

text \<open>
  The physical memory manager, the first part of \<^verbatim>\<open>src/paging.c\<close>: one reference count per
  4 KB frame of the first 256 MB. The record is extensible: the page tables of \<open>Paging\<close>
  extend it. A locale states what the clients rely on, a pool of frames with reference counts.
\<close>

section \<open>State and operations\<close>

definition PAGE_SIZE :: u32 where "PAGE_SIZE = 0x1000"
definition PAGE_ENTRIES :: nat where "PAGE_ENTRIES = 1024"
definition PMM_MAX_FRAMES :: u32 where "PMM_MAX_FRAMES = 65536"

lemmas page_consts = PAGE_SIZE_def PAGE_ENTRIES_def PMM_MAX_FRAMES_def

record pmm =
  pmm_refs :: "nat \<Rightarrow> u8"
  pmm_total_frames :: u32
  pmm_used_frames :: u32
  pmm_base_frame :: u32

definition frame_idx :: "u32 \<Rightarrow> u32" where
  "frame_idx phys = phys div PAGE_SIZE"

definition pmm_init :: "u32 \<Rightarrow> 'a pmm_scheme \<Rightarrow> 'a pmm_scheme" where
  "pmm_init mem_kb s =
     (let start = 0x00100000;
          end0 = mem_kb * 1024;
          end1 = (if end0 > PMM_MAX_FRAMES * PAGE_SIZE then PMM_MAX_FRAMES * PAGE_SIZE else end0);
          base = frame_idx start;
          total0 = (end1 - start) div PAGE_SIZE;
          total = (if total0 > PMM_MAX_FRAMES - base then PMM_MAX_FRAMES - base else total0);
          kern_end = frame_idx 0x00500000;
          refs = (\<lambda>i. if unat base \<le> i \<and> i < unat base + unat total then 0 else 0xFF);
          refs' = (\<lambda>i. if unat base \<le> i \<and> i < unat kern_end \<and> i < unat PMM_MAX_FRAMES then 1 else refs i)
      in s\<lparr>pmm_refs := refs', pmm_used_frames := of_nat (min (unat kern_end) (unat PMM_MAX_FRAMES) - unat base),
           pmm_base_frame := base, pmm_total_frames := total\<rparr>)"

definition pmm_alloc :: "'a pmm_scheme \<Rightarrow> u32 \<times> 'a pmm_scheme" where
  "pmm_alloc s =
     (case first_idx (\<lambda>i. pmm_refs s i = 0) (unat (pmm_base_frame s))
             (min (unat (pmm_base_frame s + pmm_total_frames s)) (unat PMM_MAX_FRAMES)) of
        Some i \<Rightarrow> (of_nat i * PAGE_SIZE,
                   s\<lparr>pmm_refs := (pmm_refs s)(i := 1), pmm_used_frames := pmm_used_frames s + 1\<rparr>)
      | None \<Rightarrow> (0, s))"

definition pmm_free :: "u32 \<Rightarrow> 'a pmm_scheme \<Rightarrow> 'a pmm_scheme" where
  "pmm_free addr s =
     (let idx = frame_idx addr; i = unat idx
      in if idx \<ge> PMM_MAX_FRAMES then s
         else if pmm_refs s i = 0 then s
         else let s1 = s\<lparr>pmm_refs := (pmm_refs s)(i := pmm_refs s i - 1)\<rparr>
              in if pmm_refs s1 i = 0 \<and> pmm_used_frames s1 \<noteq> 0
                 then s1\<lparr>pmm_used_frames := pmm_used_frames s1 - 1\<rparr> else s1)"

definition pmm_ref :: "u32 \<Rightarrow> 'a pmm_scheme \<Rightarrow> 'a pmm_scheme" where
  "pmm_ref addr s =
     (let idx = frame_idx addr; i = unat idx
      in if idx < PMM_MAX_FRAMES \<and> pmm_refs s i < 254
         then s\<lparr>pmm_refs := (pmm_refs s)(i := pmm_refs s i + 1)\<rparr> else s)"

definition pmm_refcount :: "u32 \<Rightarrow> 'a pmm_scheme \<Rightarrow> u32" where
  "pmm_refcount addr s =
     (let idx = frame_idx addr in if idx < PMM_MAX_FRAMES then ucast (pmm_refs s (unat idx)) else 0)"

definition pmm_used :: "'a pmm_scheme \<Rightarrow> u32" where "pmm_used s = pmm_used_frames s"
definition pmm_total :: "'a pmm_scheme \<Rightarrow> u32" where "pmm_total s = pmm_total_frames s"

section \<open>A pool of frames\<close>

text \<open>
  What the paging code, the ELF loader and the swapper rely on: \<open>owned s\<close> is the set of the
  managed frames in use, \<open>cnt s f\<close> how often frame \<open>f\<close> is referenced.
\<close>

locale frame_pool =
  fixes alloc :: "'s \<Rightarrow> u32 \<times> 's"
    and free :: "u32 \<Rightarrow> 's \<Rightarrow> 's"
    and share :: "u32 \<Rightarrow> 's \<Rightarrow> 's"
    and owned :: "'s \<Rightarrow> nat set"
    and cnt :: "'s \<Rightarrow> nat \<Rightarrow> nat"
    and inv :: "'s \<Rightarrow> bool"
  assumes alloc_fail: "inv s \<Longrightarrow> alloc s = (0, s') \<Longrightarrow> s' = s"
    and alloc_ok: "inv s \<Longrightarrow> alloc s = (a, s') \<Longrightarrow> a \<noteq> 0 \<Longrightarrow>
          inv s' \<and> (\<exists>f. a = of_nat f * 4096 \<and> f < 65536 \<and> f \<notin> owned s \<and> owned s' = insert f (owned s) \<and> cnt s' = (cnt s)(f := 1))"
    and owned_cnt: "inv s \<Longrightarrow> f \<in> owned s \<Longrightarrow> 0 < cnt s f"
    and free_ok: "inv s \<Longrightarrow> f \<in> owned s \<Longrightarrow> f < 65536 \<Longrightarrow>
          inv (free (of_nat f * 4096) s) \<and> cnt (free (of_nat f * 4096) s) = (cnt s)(f := cnt s f - 1)
          \<and> owned (free (of_nat f * 4096) s) = (if cnt s f = 1 then owned s - {f} else owned s)"
    and share_ok: "inv s \<Longrightarrow> f \<in> owned s \<Longrightarrow> f < 65536 \<Longrightarrow> cnt s f < 254 \<Longrightarrow>
          inv (share (of_nat f * 4096) s) \<and> cnt (share (of_nat f * 4096) s) = (cnt s)(f := cnt s f + 1)
          \<and> owned (share (of_nat f * 4096) s) = owned s"
begin

lemma alloc_free_restores:
  assumes "inv s" "alloc s = (a, s')" "a \<noteq> 0"
  shows "inv (free a s') \<and> owned (free a s') = owned s"
proof -
  from alloc_ok [OF assms] obtain f where
    f: "inv s'" "a = of_nat f * 4096" "f < 65536" "f \<notin> owned s" "owned s' = insert f (owned s)" "cnt s' = (cnt s)(f := 1)"
    by blast
  with free_ok [of s' f] show ?thesis by auto
qed

lemma two_allocs_differ:
  assumes "inv s" "alloc s = (a, s1)" "a \<noteq> 0" "alloc s1 = (b, s2)" "b \<noteq> 0"
  shows "a \<noteq> b"
proof -
  from alloc_ok [OF assms(1-3)] obtain f where
    f: "inv s1" "a = of_nat f * 4096" "f < 65536" "owned s1 = insert f (owned s)" by blast
  from alloc_ok [OF f(1) assms(4,5)] obtain g where g: "b = of_nat g * 4096" "g < 65536" "g \<notin> owned s1" by blast
  have "unat a = f * 4096" "unat b = g * 4096"
    using f(2,3) g(1,2) by (simp_all add: unat_word_ariths unat_of_nat take_bit_eq_mod)
  moreover have "f \<noteq> g" using f(4) g(3) by blast
  ultimately show ?thesis by (metis mult_cancel2 zero_neq_numeral)
qed

lemma share_free_keeps:
  assumes "inv s" "f \<in> owned s" "f < 65536" "cnt s f < 254"
  shows "owned (free (of_nat f * 4096) (share (of_nat f * 4096) s)) = owned s"
  using share_ok [OF assms] free_ok [of "share (of_nat f * 4096) s" f] assms owned_cnt [OF assms(1,2)] by auto

end

section \<open>The memory manager is such a pool\<close>

definition pmm_range :: "'a pmm_scheme \<Rightarrow> nat set" where
  "pmm_range s = {unat (pmm_base_frame s) ..< unat (pmm_base_frame s) + unat (pmm_total_frames s)}"

definition pmm_owned :: "'a pmm_scheme \<Rightarrow> nat set" where
  "pmm_owned s = {f \<in> pmm_range s. pmm_refs s f \<noteq> 0}"

definition pmm_cnt :: "'a pmm_scheme \<Rightarrow> nat \<Rightarrow> nat" where
  "pmm_cnt s f = unat (pmm_refs s f)"

definition pmm_ok :: "'a pmm_scheme \<Rightarrow> bool" where
  "pmm_ok s \<longleftrightarrow> 0 < pmm_base_frame s \<and> unat (pmm_base_frame s) + unat (pmm_total_frames s) \<le> 65536
     \<and> card (pmm_owned s) = unat (pmm_used_frames s)"

lemma frame_idx_of: "f < 65536 \<Longrightarrow> frame_idx (of_nat f * 4096) = of_nat f"
proof -
  assume f: "f < 65536"
  then have "unat (of_nat f * 4096 :: u32) = f * 4096"
    by (simp add: unat_word_ariths unat_of_nat take_bit_eq_mod)
  then show ?thesis using f unfolding frame_idx_def PAGE_SIZE_def
    by (intro word_unat_eq_iff [THEN iffD2]) (simp add: unat_div unat_of_nat take_bit_eq_mod)
qed

lemma pmm_range_finite [simp]: "finite (pmm_range s)" "finite (pmm_owned s)"
  by (simp_all add: pmm_range_def pmm_owned_def)

lemma pmm_alloc_cases:
  assumes "pmm_ok s"
  obtains (full) "pmm_alloc s = (0, s)" "pmm_owned s = pmm_range s"
  | (got) i where "i \<in> pmm_range s" "i < 65536" "i \<noteq> 0" "pmm_refs s i = 0"
      "pmm_alloc s = (of_nat i * 4096, s\<lparr>pmm_refs := (pmm_refs s)(i := 1), pmm_used_frames := pmm_used_frames s + 1\<rparr>)"
proof -
  let ?hi = "min (unat (pmm_base_frame s + pmm_total_frames s)) 65536"
  have hi: "?hi = unat (pmm_base_frame s) + unat (pmm_total_frames s)"
    using assms by (simp add: pmm_ok_def unat_word_ariths)
  show thesis
  proof (cases "first_idx (\<lambda>i. pmm_refs s i = 0) (unat (pmm_base_frame s)) ?hi")
    case None
    then have "pmm_alloc s = (0, s)" by (simp add: pmm_alloc_def page_consts)
    moreover have "pmm_owned s = pmm_range s"
      using None unfolding first_idx_None_iff hi by (auto simp: pmm_owned_def pmm_range_def)
    ultimately show thesis by (rule full)
  next
    case (Some i)
    note i = first_idx_SomeD [OF Some]
    have "i \<in> pmm_range s" "i < 65536" using i(1,2) assms unfolding hi by (auto simp: pmm_range_def pmm_ok_def)
    moreover have "i \<noteq> 0" using i(1) assms by (auto simp: pmm_ok_def word_less_nat_alt)
    ultimately show thesis using i(3) Some by (intro got) (simp_all add: pmm_alloc_def page_consts)
  qed
qed

lemma card_owned_lt: "pmm_ok s \<Longrightarrow> card (pmm_owned s) \<le> 65536"
proof -
  assume "pmm_ok s"
  then have "card (pmm_range s) \<le> 65536" by (simp add: pmm_range_def pmm_ok_def)
  moreover have "card (pmm_owned s) \<le> card (pmm_range s)" by (rule card_mono) (auto simp: pmm_owned_def)
  ultimately show ?thesis by simp
qed

lemma pmm_upd_owned:
  "pmm_owned (s\<lparr>pmm_refs := (pmm_refs s)(i := r), pmm_used_frames := u\<rparr>) =
     (if r = 0 then pmm_owned s - {i} else if i \<in> pmm_range s then insert i (pmm_owned s) else pmm_owned s)"
  "pmm_owned (s\<lparr>pmm_refs := (pmm_refs s)(i := r)\<rparr>) =
     (if r = 0 then pmm_owned s - {i} else if i \<in> pmm_range s then insert i (pmm_owned s) else pmm_owned s)"
  by (auto simp: pmm_owned_def pmm_range_def)

lemma pmm_alloc_ok:
  assumes "pmm_ok s" "pmm_alloc s = (a, s')" "a \<noteq> 0"
  shows "pmm_ok s' \<and> (\<exists>f. a = of_nat f * 4096 \<and> f < 65536 \<and> f \<notin> pmm_owned s
           \<and> pmm_owned s' = insert f (pmm_owned s) \<and> pmm_cnt s' = (pmm_cnt s)(f := 1))"
  using assms(1)
proof (cases rule: pmm_alloc_cases)
  case (got i)
  have fresh: "i \<notin> pmm_owned s" using got(4) by (simp add: pmm_owned_def)
  have s': "s' = s\<lparr>pmm_refs := (pmm_refs s)(i := 1), pmm_used_frames := pmm_used_frames s + 1\<rparr>" "a = of_nat i * 4096"
    using got(5) assms(2) by auto
  have o: "pmm_owned s' = insert i (pmm_owned s)" unfolding s' by (simp add: pmm_upd_owned got(1))
  have "unat (pmm_used_frames s + 1) = Suc (unat (pmm_used_frames s))"
    using card_owned_lt [OF assms(1)] assms(1) by (simp add: pmm_ok_def unat_word_ariths)
  then have "pmm_ok s'" using assms(1) o fresh by (simp add: pmm_ok_def s')
  moreover have "pmm_cnt s' = (pmm_cnt s)(i := 1)" by (auto simp: pmm_cnt_def s' fun_eq_iff)
  ultimately show ?thesis using s' o fresh got(2) by blast
qed (use assms in simp)

lemma pmm_free_ok:
  assumes "pmm_ok s" "f \<in> pmm_owned s" "f < 65536"
  shows "pmm_ok (pmm_free (of_nat f * 4096) s)
     \<and> pmm_cnt (pmm_free (of_nat f * 4096) s) = (pmm_cnt s)(f := pmm_cnt s f - 1)
     \<and> pmm_owned (pmm_free (of_nat f * 4096) s) = (if pmm_cnt s f = 1 then pmm_owned s - {f} else pmm_owned s)"
proof -
  have f: "pmm_refs s f \<noteq> 0" "f \<in> pmm_range s" using assms(2) by (auto simp: pmm_owned_def)
  have i: "unat (of_nat f :: u32) = f" "\<not> (of_nat f :: u32) \<ge> 65536"
    using assms(3) by (simp_all add: unat_of_nat take_bit_eq_mod word_le_nat_alt)
  have u: "unat (pmm_refs s f - 1) = unat (pmm_refs s f) - 1" using f(1) by (simp add: unat_minus_one)
  have pos: "0 < card (pmm_owned s)" using assms(2) by (auto simp: card_gt_0_iff)
  then have used: "pmm_used_frames s \<noteq> 0" using assms(1) by (auto simp: pmm_ok_def)
  have u2: "unat (pmm_used_frames s - 1) = card (pmm_owned s - {f})"
    using used assms(1,2) by (simp add: unat_minus_one pmm_ok_def)
  have one: "pmm_cnt s f = 1 \<longleftrightarrow> pmm_refs s f = 1" by (simp add: pmm_cnt_def word_unat_eq_iff)
  have eq: "pmm_free (of_nat f * 4096) s =
     (if pmm_cnt s f = 1 then s\<lparr>pmm_refs := (pmm_refs s)(f := 0), pmm_used_frames := pmm_used_frames s - 1\<rparr>
      else s\<lparr>pmm_refs := (pmm_refs s)(f := pmm_refs s f - 1)\<rparr>)"
    using f(1) used one by (auto simp: pmm_free_def frame_idx_of [OF assms(3)] i page_consts Let_def)
  show ?thesis
  proof (cases "pmm_cnt s f = 1")
    case True
    with eq u2 assms(1) show ?thesis
      by (auto simp: pmm_ok_def pmm_upd_owned pmm_cnt_def fun_eq_iff)
  next
    case False
    have "pmm_refs s f - 1 \<noteq> 0" using False f(1) u by (auto simp: pmm_cnt_def)
    with False eq u f(2) assms(1,2) show ?thesis
      by (auto simp: pmm_ok_def pmm_upd_owned pmm_cnt_def fun_eq_iff insert_absorb)
  qed
qed

lemma pmm_ref_ok:
  assumes "pmm_ok s" "f \<in> pmm_owned s" "f < 65536" "pmm_cnt s f < 254"
  shows "pmm_ok (pmm_ref (of_nat f * 4096) s)
     \<and> pmm_cnt (pmm_ref (of_nat f * 4096) s) = (pmm_cnt s)(f := pmm_cnt s f + 1)
     \<and> pmm_owned (pmm_ref (of_nat f * 4096) s) = pmm_owned s"
proof -
  have f: "f \<in> pmm_range s" using assms(2) by (auto simp: pmm_owned_def)
  have i: "unat (of_nat f :: u32) = f" "(of_nat f :: u32) < 65536"
    using assms(3) by (simp_all add: unat_of_nat take_bit_eq_mod word_less_nat_alt)
  note i(2) [unfolded word_less_nat_alt]
  have u: "unat (pmm_refs s f + 1) = unat (pmm_refs s f) + 1"
    using assms(4) by (simp add: unat_word_ariths pmm_cnt_def)
  then have nz: "pmm_refs s f + 1 \<noteq> 0" by auto
  have "pmm_ref (of_nat f * 4096) s = s\<lparr>pmm_refs := (pmm_refs s)(f := pmm_refs s f + 1)\<rparr>"
    using assms(4) i unfolding pmm_ref_def frame_idx_of [OF assms(3)] Let_def pmm_cnt_def PMM_MAX_FRAMES_def
    by (simp only: word_less_nat_alt [of "pmm_refs s f"]) simp
  with u nz f assms(1,2) show ?thesis
    by (auto simp: pmm_ok_def pmm_upd_owned pmm_cnt_def fun_eq_iff insert_absorb)
qed

interpretation phys: frame_pool pmm_alloc pmm_free pmm_ref pmm_owned pmm_cnt pmm_ok
proof
  show "pmm_ok s \<Longrightarrow> pmm_alloc s = (0, s') \<Longrightarrow> s' = s" for s s' :: "'a pmm_scheme"
  proof (erule pmm_alloc_cases)
    fix i assume "pmm_alloc s = (0, s')" and i: "i < 65536" "i \<noteq> 0"
      and "pmm_alloc s = (of_nat i * 4096, s\<lparr>pmm_refs := (pmm_refs s)(i := 1), pmm_used_frames := pmm_used_frames s + 1\<rparr>)"
    then have "(of_nat i * 4096 :: u32) = 0" by simp
    then have "unat (of_nat i * 4096 :: u32) = 0" by simp
    with i show "s' = s" by (simp add: unat_word_ariths unat_of_nat take_bit_eq_mod)
  qed simp
  show "pmm_ok s \<Longrightarrow> f \<in> pmm_owned s \<Longrightarrow> 0 < pmm_cnt s f" for s :: "'a pmm_scheme" and f
    by (auto simp: pmm_owned_def pmm_cnt_def unat_gt_0)
qed (fact pmm_alloc_ok pmm_free_ok pmm_ref_ok)+

section \<open>Properties\<close>

text \<open>
  \<^verbatim>\<open>pmm_alloc\<close> on a consistent manager: it returns 0 and changes nothing exactly when every
  frame is in use; otherwise it returns the page-aligned address of a managed frame that nobody
  held, which a second allocation cannot return again before \<^verbatim>\<open>pmm_free\<close>, and freeing it gives
  back the set of frames in use from before.
\<close>

theorem pmm_alloc_exclusive:
  assumes "pmm_ok s" "pmm_alloc s = (a, s1)" "pmm_alloc s1 = (b, s2)"
  shows "(a = 0 \<longleftrightarrow> pmm_owned s = pmm_range s) \<and> (a = 0 \<longrightarrow> s1 = s)
     \<and> (a \<noteq> 0 \<longrightarrow> pmm_ok s1 \<and> a mod 4096 = 0 \<and> unat (a div 4096) \<in> pmm_range s - pmm_owned s
          \<and> b \<noteq> a \<and> pmm_ok (pmm_free a s1) \<and> pmm_owned (pmm_free a s1) = pmm_owned s)"
  using assms(1)
proof (cases rule: pmm_alloc_cases)
  case full
  with assms(2) show ?thesis by simp
next
  case (got i)
  have a: "a = of_nat i * 4096" using got(5) assms(2) by simp
  then have u: "unat a = i * 4096" using got(2) by (simp add: unat_word_ariths unat_of_nat take_bit_eq_mod)
  then have nz: "a \<noteq> 0" using got(3) by auto
  have "i \<notin> pmm_owned s" using got(4) by (simp add: pmm_owned_def)
  moreover have "a mod 4096 = 0" using u by (intro word_unat_eq_iff [THEN iffD2]) (simp add: unat_mod)
  moreover have "unat (a div 4096) = i" using u by (simp add: unat_div)
  moreover have "b \<noteq> a" using phys.two_allocs_differ [OF assms(1,2) nz assms(3)] nz by (cases "b = 0") auto
  moreover note phys.alloc_free_restores [OF assms(1,2) nz] pmm_alloc_ok [OF assms(1,2) nz]
  ultimately show ?thesis using nz got(1) by auto
qed

lemma pmm_init_ok:
  assumes "5120 \<le> unat kb" "unat kb \<le> 262144"
  shows "pmm_ok (pmm_init kb s) \<and> pmm_owned (pmm_init kb s) = {256..<1280}
     \<and> pmm_range (pmm_init kb s) = {256..<256 + (unat kb - 1024) div 4}"
proof -
  have e: "unat (kb * 1024) = unat kb * 1024" using assms by (simp add: unat_word_ariths)
  have end1: "\<not> kb * 1024 > 65536 * 0x1000" using e assms by (simp add: word_less_nat_alt)
  have d: "unat (kb * 1024 - 0x100000) = unat kb * 1024 - 0x100000"
    using e assms by (subst unat_sub) (simp_all add: word_le_nat_alt)
  have t: "unat ((kb * 1024 - 0x100000) div 0x1000) = (unat kb - 1024) div 4"
    unfolding unat_div d by simp
  have t2: "\<not> (kb * 1024 - 0x100000) div 0x1000 > 65280" using t assms by (simp add: word_less_nat_alt)
  have p: "pmm_refs (pmm_init kb s) i = (if 256 \<le> i \<and> i < 1280 then 1
       else if 256 \<le> i \<and> i < 256 + (unat kb - 1024) div 4 then 0 else 0xFF)"
    "pmm_base_frame (pmm_init kb s) = 256" "unat (pmm_total_frames (pmm_init kb s)) = (unat kb - 1024) div 4"
    "pmm_used_frames (pmm_init kb s) = 1024" for i
    using end1 t t2 by (simp_all add: pmm_init_def Let_def page_consts frame_idx_def)
  have o: "pmm_owned (pmm_init kb s) = {256..<1280}"
    using assms by (auto simp: pmm_owned_def pmm_range_def p split: if_splits)
  moreover have "pmm_ok (pmm_init kb s)" using assms by (simp add: pmm_ok_def o p)
  ultimately show ?thesis by (simp add: pmm_range_def p)
qed

lemma pmm_alloc_exclusive_witness:
  "fst (pmm_alloc (pmm_init 8192 \<lparr>pmm_refs = (\<lambda>_. 0), pmm_total_frames = 0, pmm_used_frames = 0, pmm_base_frame = 0\<rparr>)) \<noteq> 0"
  (is "fst (pmm_alloc ?s) \<noteq> 0")
proof -
  have ok: "pmm_ok ?s" "pmm_owned ?s \<noteq> pmm_range ?s"
    using pmm_init_ok [of 8192 "\<lparr>pmm_refs = (\<lambda>_. 0), pmm_total_frames = 0, pmm_used_frames = 0, pmm_base_frame = 0\<rparr>"]
    by auto
  show ?thesis
    using pmm_alloc_exclusive [OF ok(1), of "fst (pmm_alloc ?s)" "snd (pmm_alloc ?s)"] ok(2) by (metis prod.collapse)
qed

text \<open>
  The counts stop at 254: with 254 references, a further \<^verbatim>\<open>pmm_ref\<close> is lost, so the frame is free again
  while one reference is left.
\<close>

lemma pmm_ref_saturates: "pmm_refs s (unat (frame_idx a)) = 254 \<Longrightarrow> pmm_ref a s = s"
  by (simp add: pmm_ref_def Let_def)

end
