(* ===== verification/Paging.thy ===== *)
theory Paging
  imports Pmm Vga
begin

text \<open>
  Page tables, \<^verbatim>\<open>src/paging.c\<close>: the two-level tables in physical memory, mapping and
  unmapping, the page-granular heap, \<^verbatim>\<open>vmalloc\<close> and the cloning of address spaces.

  Physical memory is \<open>frames f w\<close>, word \<open>w\<close> of frame \<open>f\<close>. The static arrays \<^verbatim>\<open>page_dir\<close>
  and \<^verbatim>\<open>kern_tables\<close> are frames of the kernel image; where the linker puts them is
  \<open>dir_base\<close> and \<open>tables_base\<close>. Once paging is on, an access through a computed pointer goes through
  the processor's walk of the tables from \<open>cr3\<close>; \<open>None\<close> is a page fault taken inside the
  routine. The tables are read afresh at each access: the code flushes the TLB entry after each change.
\<close>

section \<open>State\<close>

definition PAGE_PRESENT :: u32 where "PAGE_PRESENT = 1"
definition PAGE_WRITE :: u32 where "PAGE_WRITE = 2"
definition PAGE_USER :: u32 where "PAGE_USER = 4"
definition PAGE_COW :: u32 where "PAGE_COW = 512"
definition HEAP_VIRT_BASE :: u32 where "HEAP_VIRT_BASE = 0x00200000"
definition HEAP_VIRT_MAX :: u32 where "HEAP_VIRT_MAX = 0x01000000"
definition VMALLOC_BASE :: u32 where "VMALLOC_BASE = 0x01000000"
definition VMALLOC_END :: u32 where "VMALLOC_END = 0x02000000"
definition NUM_PREINIT_TABLES :: nat where "NUM_PREINIT_TABLES = 4"
definition HEAP_MAX_BLOCKS :: nat where "HEAP_MAX_BLOCKS = 512"
definition VMALLOC_MAX_REGIONS :: nat where "VMALLOC_MAX_REGIONS = 64"

lemmas paging_consts = page_consts PAGE_PRESENT_def PAGE_WRITE_def PAGE_USER_def PAGE_COW_def HEAP_VIRT_BASE_def
  HEAP_VIRT_MAX_def VMALLOC_BASE_def VMALLOC_END_def NUM_PREINIT_TABLES_def HEAP_MAX_BLOCKS_def VMALLOC_MAX_REGIONS_def

definition PAGE_ALIGN :: "u32 \<Rightarrow> u32" where
  "PAGE_ALIGN a = (a + PAGE_SIZE - 1) AND NOT (PAGE_SIZE - 1)"

definition PAGE_DIR_IDX :: "u32 \<Rightarrow> nat" where
  "PAGE_DIR_IDX a = unat (drop_bit 22 a)"

definition PAGE_TBL_IDX :: "u32 \<Rightarrow> nat" where
  "PAGE_TBL_IDX a = unat (drop_bit 12 a AND 0x3FF)"

record hblock_t =
  hb_addr :: u32
  hb_size :: u32
  hb_used :: bool

record vregion_t =
  virt_start :: u32
  vr_size :: u32
  active :: bool

record mm = pmm +
  frames :: "nat \<Rightarrow> nat \<Rightarrow> u32"
  dir_base :: u32
  tables_base :: u32
  cr3 :: u32
  paging_on :: bool
  hblocks :: "hblock_t list"
  heap_brk_ptr :: u32
  heap_bytes_used :: u32
  vregions :: "vregion_t list"
  vmalloc_ptr :: u32
  fault_count :: u32
  cow_count :: u32

definition pfn :: "u32 \<Rightarrow> nat" where
  "pfn a = unat (drop_bit 12 a)"

definition word_idx :: "u32 \<Rightarrow> nat" where
  "word_idx a = unat (drop_bit 2 a AND 0x3FF)"

definition present :: "u32 \<Rightarrow> bool" where
  "present e \<longleftrightarrow> e AND PAGE_PRESENT \<noteq> 0"

text \<open>The processor's walk, and the memory accesses it carries out.\<close>

definition walk :: "'a mm_scheme \<Rightarrow> u32 \<Rightarrow> u32 option" where
  "walk s v =
     (let pde = frames s (pfn (cr3 s)) (PAGE_DIR_IDX v)
      in if \<not> present pde then None
         else let pte = frames s (pfn pde) (PAGE_TBL_IDX v) in if present pte then Some pte else None)"

definition page_frame :: "'a mm_scheme \<Rightarrow> u32 \<Rightarrow> nat option" where
  "page_frame s v = (if paging_on s then map_option pfn (walk s v) else Some (pfn v))"

definition set_word :: "nat \<Rightarrow> nat \<Rightarrow> u32 \<Rightarrow> 'a mm_scheme \<Rightarrow> 'a mm_scheme" where
  "set_word f w x s = s\<lparr>frames := (frames s)(f := (frames s f)(w := x))\<rparr>"

definition rd32 :: "'a mm_scheme \<Rightarrow> u32 \<Rightarrow> u32 option" where
  "rd32 s a = map_option (\<lambda>f. frames s f (word_idx a)) (page_frame s a)"

definition wr32 :: "u32 \<Rightarrow> u32 \<Rightarrow> 'a mm_scheme \<Rightarrow> 'a mm_scheme option" where
  "wr32 a x s = map_option (\<lambda>f. set_word f (word_idx a) x s) (page_frame s a)"

text \<open>\<^verbatim>\<open>kmemset(p, 0, PAGE_SIZE)\<close> and \<^verbatim>\<open>kmemcpy(d, s, PAGE_SIZE)\<close> on pages.\<close>

definition zero_page :: "u32 \<Rightarrow> 'a mm_scheme \<Rightarrow> 'a mm_scheme option" where
  "zero_page a s = map_option (\<lambda>f. s\<lparr>frames := (frames s)(f := (\<lambda>_. 0))\<rparr>) (page_frame s a)"

definition copy_page :: "u32 \<Rightarrow> u32 \<Rightarrow> 'a mm_scheme \<Rightarrow> 'a mm_scheme option" where
  "copy_page d a s = do { fs \<leftarrow> page_frame s a; fd \<leftarrow> page_frame s d; Some (s\<lparr>frames := (frames s)(fd := frames s fs)\<rparr>) }"

definition page_dir :: "'a mm_scheme \<Rightarrow> nat \<Rightarrow> u32" where
  "page_dir s di = frames s (pfn (dir_base s)) di"

section \<open>Mapping\<close>

text \<open>\<open>Some None\<close> is the null pointer.\<close>

definition pte_ptr :: "u32 \<Rightarrow> bool \<Rightarrow> 'a mm_scheme \<Rightarrow> (u32 option \<times> 'a mm_scheme) option" where
  "pte_ptr virt al s =
     (let di = PAGE_DIR_IDX virt; ti = PAGE_TBL_IDX virt;
          entry = (\<lambda>s. (page_dir s di AND NOT 0xFFF) + of_nat ti * 4)
      in if present (page_dir s di) then Some (Some (entry s), s)
         else if \<not> al then Some (None, s)
         else case pmm_alloc s of (phys, s1) \<Rightarrow>
           if phys = 0 then Some (None, s1)
           else do {
             s2 \<leftarrow> zero_page phys s1;
             let s3 = set_word (pfn (dir_base s2)) di (phys OR PAGE_PRESENT OR PAGE_WRITE) s2;
             Some (Some (entry s3), s3) })"

definition paging_map :: "u32 \<Rightarrow> u32 \<Rightarrow> u32 \<Rightarrow> 'a mm_scheme \<Rightarrow> 'a mm_scheme option" where
  "paging_map virt phys flags s = do {
     (p, s1) \<leftarrow> pte_ptr virt True s;
     case p of None \<Rightarrow> Some s1
     | Some pte \<Rightarrow> wr32 pte ((phys AND NOT 0xFFF) OR PAGE_PRESENT OR flags) s1 }"

text \<open>The value of the entry when there is a table and the entry is present.\<close>

definition pte_val :: "u32 \<Rightarrow> 'a mm_scheme \<Rightarrow> (u32 \<times> u32) option option" where
  "pte_val virt s = do {
     (p, s1) \<leftarrow> pte_ptr virt False s;
     case p of None \<Rightarrow> Some None
     | Some pte \<Rightarrow> do { e \<leftarrow> rd32 s pte; Some (if present e then Some (pte, e) else None) } }"

definition paging_unmap :: "u32 \<Rightarrow> 'a mm_scheme \<Rightarrow> 'a mm_scheme option" where
  "paging_unmap virt s = do {
     r \<leftarrow> pte_val virt s;
     case r of None \<Rightarrow> Some s
     | Some (pte, e) \<Rightarrow> wr32 pte 0 (pmm_free (e AND NOT 0xFFF) s) }"

definition paging_virt_to_phys :: "u32 \<Rightarrow> 'a mm_scheme \<Rightarrow> u32 option" where
  "paging_virt_to_phys virt s = do {
     r \<leftarrow> pte_val virt s;
     Some (case r of None \<Rightarrow> 0 | Some (pte, e) \<Rightarrow> (e AND NOT 0xFFF) OR (virt AND 0xFFF)) }"

definition paging_is_mapped :: "u32 \<Rightarrow> 'a mm_scheme \<Rightarrow> bool option" where
  "paging_is_mapped virt s = do { r \<leftarrow> pte_val virt s; Some (r \<noteq> None) }"

definition dump_run :: "u32 \<Rightarrow> u32 \<Rightarrow> u32 \<Rightarrow> vga \<Rightarrow> vga option" where
  "dump_run addr run_start run_phys v = do {
     v1 \<leftarrow> vga_puts (lit ''    '') v; v2 \<leftarrow> vga_put_hex run_start v1;
     v3 \<leftarrow> vga_puts [32, 0xE2, 0x86, 0x92, 32, 0] v2; v4 \<leftarrow> vga_put_hex run_phys v3;
     v5 \<leftarrow> vga_puts (lit '' ('') v4; v6 \<leftarrow> vga_put_dec ((addr - run_start) div 1024) v5;
     vga_puts (lit_lines ['' KB)'']) v6 }"

partial_function (option) dump_loop ::
    "u32 \<Rightarrow> u32 \<Rightarrow> (u32 \<times> u32) option \<Rightarrow> 'a mm_scheme \<Rightarrow> vga \<Rightarrow> (u32 \<times> (u32 \<times> u32) option \<times> vga) option" where
  "dump_loop stop addr run s v =
     (if addr < stop then do {
        m \<leftarrow> paging_is_mapped addr s;
        if m then
          (case run of
             None \<Rightarrow> do { p \<leftarrow> paging_virt_to_phys addr s; dump_loop stop (addr + PAGE_SIZE) (Some (addr, p)) s v }
           | Some _ \<Rightarrow> dump_loop stop (addr + PAGE_SIZE) run s v)
        else
          (case run of
             None \<Rightarrow> dump_loop stop (addr + PAGE_SIZE) None s v
           | Some (rs, rp) \<Rightarrow> do { v' \<leftarrow> dump_run addr rs rp v; dump_loop stop (addr + PAGE_SIZE) None s v' }) }
      else Some (addr, run, v))"

definition paging_dump_range :: "u32 \<Rightarrow> u32 \<Rightarrow> 'a mm_scheme \<Rightarrow> vga \<Rightarrow> vga option" where
  "paging_dump_range start stop s v = do {
     (addr, run, v1) \<leftarrow> dump_loop stop (start AND NOT 0xFFF) None s v;
     case run of None \<Rightarrow> Some v1 | Some (rs, rp) \<Rightarrow> dump_run addr rs rp v1 }"

definition kern_pte :: "nat \<Rightarrow> nat \<Rightarrow> u32" where
  "kern_pte t p = (of_nat (t * PAGE_ENTRIES + p) * PAGE_SIZE) OR PAGE_PRESENT OR PAGE_WRITE"

definition kern_table :: "nat \<Rightarrow> 'a mm_scheme \<Rightarrow> u32" where
  "kern_table t s = tables_base s + of_nat t * PAGE_SIZE"

definition init_table :: "nat \<Rightarrow> 'a mm_scheme \<Rightarrow> 'a mm_scheme" where
  "init_table t s =
     (let s1 = s\<lparr>frames := (frames s)(pfn (kern_table t s) := (\<lambda>p. if p < PAGE_ENTRIES then kern_pte t p else 0))\<rparr>
      in set_word (pfn (dir_base s1)) t (kern_table t s1 OR PAGE_PRESENT OR PAGE_WRITE) s1)"

definition paging_init :: "u32 \<Rightarrow> 'a mm_scheme \<Rightarrow> 'a mm_scheme" where
  "paging_init mem_kb s =
     (let s1 = pmm_init mem_kb s;
          s2 = s1\<lparr>frames := (frames s1)(pfn (dir_base s1) := (\<lambda>_. 0))\<rparr>;
          s3 = fold init_table [0..<NUM_PREINIT_TABLES] s2
      in s3\<lparr>cr3 := dir_base s3, paging_on := True\<rparr>)"

section \<open>The page heap and vmalloc\<close>

definition heap_init :: "'a mm_scheme \<Rightarrow> 'a mm_scheme" where
  "heap_init s = s\<lparr>hblocks := [], heap_brk_ptr := HEAP_VIRT_BASE, heap_bytes_used := 0\<rparr>"

partial_function (option) grow_loop :: "u32 \<Rightarrow> u32 \<Rightarrow> 'a mm_scheme \<Rightarrow> (bool \<times> 'a mm_scheme) option" where
  "grow_loop new_brk addr s =
     (if addr < new_brk then do {
        m \<leftarrow> paging_is_mapped addr s;
        if m then grow_loop new_brk (addr + PAGE_SIZE) s
        else case pmm_alloc s of (phys, s1) \<Rightarrow>
          if phys = 0 then Some (False, s1)
          else do {
            s2 \<leftarrow> paging_map addr phys PAGE_WRITE s1;
            s3 \<leftarrow> zero_page addr s2;
            grow_loop new_brk (addr + PAGE_SIZE) s3 } }
      else Some (True, s))"

definition heap_grow :: "u32 \<Rightarrow> 'a mm_scheme \<Rightarrow> (bool \<times> 'a mm_scheme) option" where
  "heap_grow sz s =
     (let new_brk = PAGE_ALIGN (heap_brk_ptr s + sz)
      in if new_brk \<ge> HEAP_VIRT_MAX then Some (False, s)
         else do {
           (ok, s1) \<leftarrow> grow_loop new_brk (PAGE_ALIGN (heap_brk_ptr s)) s;
           Some (if ok then (True, s1\<lparr>heap_brk_ptr := new_brk\<rparr>) else (False, s1)) })"

definition heap_alloc :: "u32 \<Rightarrow> 'a mm_scheme \<Rightarrow> (u32 \<times> 'a mm_scheme) option" where
  "heap_alloc sz0 s =
     (if sz0 = 0 then Some (0, s)
      else let sz = (sz0 + 7) AND NOT 7 in
        case first_idx (\<lambda>i. \<not> hb_used (hblocks s ! i) \<and> hb_size (hblocks s ! i) \<ge> sz) 0 (length (hblocks s)) of
          Some i \<Rightarrow> Some (hb_addr (hblocks s ! i),
            s\<lparr>hblocks := (hblocks s)[i := (hblocks s ! i)\<lparr>hb_used := True\<rparr>],
              heap_bytes_used := heap_bytes_used s + hb_size (hblocks s ! i)\<rparr>)
        | None \<Rightarrow>
            if length (hblocks s) \<ge> HEAP_MAX_BLOCKS then Some (0, s)
            else let addr = heap_brk_ptr s in do {
              (ok, s1) \<leftarrow> heap_grow sz s;
              Some (if ok then (addr, s1\<lparr>hblocks := hblocks s1 @ [\<lparr>hb_addr = addr, hb_size = sz, hb_used = True\<rparr>],
                                        heap_bytes_used := heap_bytes_used s1 + sz\<rparr>)
                    else (0, s1)) })"

definition heap_free :: "u32 \<Rightarrow> 'a mm_scheme \<Rightarrow> 'a mm_scheme" where
  "heap_free addr s =
     (case first_idx (\<lambda>i. hb_addr (hblocks s ! i) = addr \<and> hb_used (hblocks s ! i)) 0 (length (hblocks s)) of
        None \<Rightarrow> s
      | Some i \<Rightarrow>
          let b = hblocks s ! i; s1 = s\<lparr>hblocks := (hblocks s)[i := b\<lparr>hb_used := False\<rparr>]\<rparr>
          in if heap_bytes_used s1 \<ge> hb_size b then s1\<lparr>heap_bytes_used := heap_bytes_used s1 - hb_size b\<rparr> else s1)"

definition heap_brk :: "'a mm_scheme \<Rightarrow> u32" where "heap_brk s = heap_brk_ptr s"
definition heap_used :: "'a mm_scheme \<Rightarrow> u32" where "heap_used s = heap_bytes_used s"
definition heap_capacity :: "'a mm_scheme \<Rightarrow> u32" where "heap_capacity s = heap_brk_ptr s - HEAP_VIRT_BASE"

text \<open>\<^verbatim>\<open>for (r = 0; r < off; r += PAGE_SIZE) paging_unmap(virt + r)\<close>.\<close>

partial_function (option) unmap_range :: "u32 \<Rightarrow> u32 \<Rightarrow> u32 \<Rightarrow> 'a mm_scheme \<Rightarrow> 'a mm_scheme option" where
  "unmap_range virt off r s =
     (if r < off then do { s1 \<leftarrow> paging_unmap (virt + r) s; unmap_range virt off (r + PAGE_SIZE) s1 } else Some s)"

partial_function (option) vmalloc_loop :: "u32 \<Rightarrow> u32 \<Rightarrow> u32 \<Rightarrow> 'a mm_scheme \<Rightarrow> (bool \<times> 'a mm_scheme) option" where
  "vmalloc_loop virt sz off s =
     (if off < sz then
        (case pmm_alloc s of (phys, s1) \<Rightarrow>
           if phys = 0 then do { s2 \<leftarrow> unmap_range virt off 0 s1; Some (False, s2) }
           else do {
             s2 \<leftarrow> paging_map (virt + off) phys PAGE_WRITE s1;
             s3 \<leftarrow> zero_page (virt + off) s2;
             vmalloc_loop virt sz (off + PAGE_SIZE) s3 })
      else Some (True, s))"

definition vmalloc :: "u32 \<Rightarrow> 'a mm_scheme \<Rightarrow> (u32 \<times> 'a mm_scheme) option" where
  "vmalloc sz0 s =
     (if sz0 = 0 \<or> length (vregions s) \<ge> VMALLOC_MAX_REGIONS then Some (0, s)
      else let sz = PAGE_ALIGN sz0; virt = vmalloc_ptr s
        in if virt + sz \<ge> VMALLOC_END then Some (0, s)
           else do {
             (ok, s1) \<leftarrow> vmalloc_loop virt sz 0 s;
             Some (if ok then (virt, s1\<lparr>vregions := vregions s1 @ [\<lparr>virt_start = virt, vr_size = sz, active = True\<rparr>],
                                       vmalloc_ptr := vmalloc_ptr s1 + sz\<rparr>)
                   else (0, s1)) })"

definition vmfree :: "u32 \<Rightarrow> 'a mm_scheme \<Rightarrow> 'a mm_scheme option" where
  "vmfree virt s =
     (case first_idx (\<lambda>i. active (vregions s ! i) \<and> virt_start (vregions s ! i) = virt) 0 (length (vregions s)) of
        None \<Rightarrow> Some s
      | Some i \<Rightarrow> do {
          s1 \<leftarrow> unmap_range virt (vr_size (vregions s ! i)) 0 s;
          Some (s1\<lparr>vregions := (vregions s1)[i := (vregions s1 ! i)\<lparr>active := False\<rparr>]\<rparr>) })"

definition vmalloc_copy_on_write :: "u32 \<Rightarrow> 'a mm_scheme \<Rightarrow> (bool \<times> 'a mm_scheme) option" where
  "vmalloc_copy_on_write virt s = do {
     r \<leftarrow> pte_val (virt AND NOT 0xFFF) s;
     case r of None \<Rightarrow> Some (False, s)
     | Some (pte, e) \<Rightarrow> do {
         s1 \<leftarrow> wr32 pte ((e AND NOT PAGE_WRITE) OR PAGE_COW) (pmm_ref (e AND NOT 0xFFF) s);
         Some (True, s1) } }"

section \<open>Address spaces\<close>

definition paging_current_dir :: "'a mm_scheme \<Rightarrow> u32" where "paging_current_dir s = cr3 s"

definition paging_switch :: "u32 \<Rightarrow> 'a mm_scheme \<Rightarrow> 'a mm_scheme" where
  "paging_switch dir s = s\<lparr>cr3 := dir\<rparr>"

fun clone_table :: "u32 \<Rightarrow> u32 \<Rightarrow> nat list \<Rightarrow> 'a mm_scheme \<Rightarrow> 'a mm_scheme option" where
  "clone_table src dst [] s = Some s"
| "clone_table src dst (j # js) s = do {
     e \<leftarrow> rd32 s (src + of_nat j * 4);
     if e = 0 then clone_table src dst js s
     else case pmm_alloc s of (new_phys, s1) \<Rightarrow>
       if new_phys = 0 then clone_table src dst js s1
       else do {
         s2 \<leftarrow> copy_page new_phys (e AND NOT 0xFFF) s1;
         s3 \<leftarrow> wr32 (dst + of_nat j * 4) (new_phys OR (e AND 0xFFF)) s2;
         clone_table src dst js s3 } }"

fun clone_entries :: "u32 \<Rightarrow> nat list \<Rightarrow> 'a mm_scheme \<Rightarrow> (u32 \<times> 'a mm_scheme) option" where
  "clone_entries new_dir [] s = Some (new_dir, s)"
| "clone_entries new_dir (i # is) s =
     (let e = page_dir s i in
      if e = 0 then clone_entries new_dir is s
      else if i < 256 then do { s1 \<leftarrow> wr32 (new_dir + of_nat i * 4) e s; clone_entries new_dir is s1 }
      else case pmm_alloc s of (new_tbl, s1) \<Rightarrow>
        if new_tbl = 0 then Some (0, pmm_free new_dir s1)
        else do {
          s2 \<leftarrow> zero_page new_tbl s1;
          s3 \<leftarrow> clone_table (e AND NOT 0xFFF) new_tbl [0..<PAGE_ENTRIES] s2;
          s4 \<leftarrow> wr32 (new_dir + of_nat i * 4) (new_tbl OR (page_dir s3 i AND 0xFFF)) s3;
          clone_entries new_dir is s4 })"

definition paging_clone_dir :: "'a mm_scheme \<Rightarrow> (u32 \<times> 'a mm_scheme) option" where
  "paging_clone_dir s =
     (case pmm_alloc s of (new_dir, s1) \<Rightarrow>
        if new_dir = 0 then Some (0, s1)
        else do { s2 \<leftarrow> zero_page new_dir s1; clone_entries new_dir [0..<PAGE_ENTRIES] s2 })"

fun free_table :: "u32 \<Rightarrow> nat list \<Rightarrow> 'a mm_scheme \<Rightarrow> 'a mm_scheme option" where
  "free_table tbl [] s = Some s"
| "free_table tbl (j # js) s = do {
     e \<leftarrow> rd32 s (tbl + of_nat j * 4);
     free_table tbl js (if e \<noteq> 0 then pmm_free (e AND NOT 0xFFF) s else s) }"

fun free_entries :: "u32 \<Rightarrow> nat list \<Rightarrow> 'a mm_scheme \<Rightarrow> 'a mm_scheme option" where
  "free_entries dir [] s = Some s"
| "free_entries dir (i # is) s = do {
     e \<leftarrow> rd32 s (dir + of_nat i * 4);
     if e = 0 then free_entries dir is s
     else do {
       s1 \<leftarrow> free_table (e AND NOT 0xFFF) [0..<PAGE_ENTRIES] s;
       free_entries dir is (pmm_free (e AND NOT 0xFFF) s1) } }"

definition paging_free_user :: "u32 \<Rightarrow> 'a mm_scheme \<Rightarrow> 'a mm_scheme option" where
  "paging_free_user dir s = map_option (pmm_free dir) (free_entries dir [256..<PAGE_ENTRIES] s)"

definition paging_copy_user_range :: "u32 \<Rightarrow> u32 \<Rightarrow> u32 \<Rightarrow> u32 \<Rightarrow> 'a mm_scheme \<Rightarrow> 'a mm_scheme" where
  "paging_copy_user_range src_dir dst_dir start stop s = s"

end
