(* ===== verification/PagingProps.thy ===== *)
theory PagingProps
  imports Paging
begin

text \<open>
  The page tables implement a finite map from page numbers to entries: \<open>pages\<close> is that map as
  the processor sees it, \<open>pt_ok\<close> the invariant under which the kernel's pointers into the tables
  are good, and a locale states the interface its clients use.
\<close>

section \<open>Addresses\<close>

lemma not_FFF: "NOT (0xFFF :: u32) = - 4096"
  by simp

lemma pfn_div: "pfn a = unat a div 4096"
  by (simp add: pfn_def drop_bit_eq_div unat_div)

lemma pfn_lt: "pfn a < 1048576"
  using unat_u32_lt [of a] by (simp add: pfn_div less_mult_imp_div_less)

lemma dir_idx_pfn: "PAGE_DIR_IDX v = pfn v div 1024"
  by (simp add: PAGE_DIR_IDX_def pfn_def drop_bit_eq_div unat_div div_mult2_eq [symmetric])

lemma and_3FF: "(w :: u32) AND 0x3FF = take_bit 10 w"
  by (simp add: take_bit_eq_mask mask_eq_exp_minus_1)

lemma tbl_idx_pfn: "PAGE_TBL_IDX v = pfn v mod 1024"
  by (simp add: PAGE_TBL_IDX_def pfn_def and_3FF unsigned_take_bit_eq) (simp add: take_bit_eq_mod)

lemma word_idx_div: "word_idx a = unat a div 4 mod 1024"
  by (simp add: word_idx_def and_3FF unsigned_take_bit_eq drop_bit_eq_div unat_div) (simp add: take_bit_eq_mod)

lemma page_mask: "(a :: u32) AND - 4096 = push_bit 12 (drop_bit 12 a)"
proof -
  have m: "(- 4096 :: u32) = NOT (mask 12)" by (simp add: mask_eq_exp_minus_1)
  show ?thesis unfolding m by (intro bit_word_eqI) (auto simp: bit_simps)
qed

lemma unat_page_mask: "unat (a AND - 4096) = pfn a * 4096"
proof -
  have "unat (push_bit 12 (drop_bit 12 a)) = unat (drop_bit 12 a) * 4096 mod 2 ^ 32"
    by (simp add: push_bit_eq_mult unat_word_ariths)
  also have "\<dots> = pfn a * 4096" using pfn_lt [of a] by (simp add: pfn_def)
  finally show ?thesis by (simp add: page_mask)
qed

lemma pfn_mask [simp]: "pfn (a AND - 4096) = pfn a"
  by (simp add: pfn_div [of "a AND - 4096"] unat_page_mask)

lemma unat_entry_addr: "ti < 1024 \<Longrightarrow> unat ((a AND - 4096) + of_nat ti * 4) = pfn a * 4096 + ti * 4"
  using pfn_lt [of a] by (simp add: unat_word_ariths unat_page_mask unat_of_nat take_bit_eq_mod)

lemma entry_addr [simp]:
  assumes "ti < 1024"
  shows "pfn ((a AND - 4096) + of_nat ti * 4) = pfn a" "word_idx ((a AND - 4096) + of_nat ti * 4) = ti"
  using assms by (simp_all add: pfn_div [of "_ + _"] word_idx_div unat_entry_addr)

lemma pfn_of_frame [simp]: "f < 1048576 \<Longrightarrow> pfn (of_nat f * 4096) = f"
  by (simp add: pfn_div unat_word_ariths unat_of_nat take_bit_eq_mod)

lemma frame_addr_mask [simp]: "f < 1048576 \<Longrightarrow> (of_nat f * 4096 :: u32) AND - 4096 = of_nat f * 4096"
  by (intro word_unat_eq_iff [THEN iffD2])
     (simp add: unat_page_mask unat_word_ariths unat_of_nat take_bit_eq_mod)

text \<open>Flags below bit 12 do not touch the frame number.\<close>

lemma pfn_or_flags: "unat fl < 4096 \<Longrightarrow> pfn (a OR fl) = pfn a"
proof -
  assume "unat fl < 4096"
  then have "drop_bit 12 fl = 0" by (simp add: word_unat_eq_iff drop_bit_eq_div unat_div)
  then have "drop_bit 12 (a OR fl) = drop_bit 12 a" by (simp add: drop_bit_or)
  then show ?thesis by (simp add: pfn_def)
qed

lemma present_iff: "present e \<longleftrightarrow> odd e"
  by (simp add: present_def PAGE_PRESENT_def and_one_eq odd_iff_mod_2_eq_one)

lemma present_or [simp]: "present (a OR PAGE_PRESENT OR b)" "present (a OR PAGE_PRESENT)"
  by (simp_all add: present_iff even_or_iff PAGE_PRESENT_def)

lemma present_0 [simp]: "\<not> present 0" by (simp add: present_def)

section \<open>The map that the tables stand for\<close>

definition pages :: "'a mm_scheme \<Rightarrow> nat \<Rightarrow> u32 option" where
  "pages s n =
     (let pde = frames s (pfn (cr3 s)) (n div 1024); pte = frames s (pfn pde) (n mod 1024)
      in if n < 1048576 \<and> present pde \<and> present pte then Some pte else None)"

definition tbl :: "'a mm_scheme \<Rightarrow> nat \<Rightarrow> nat" where
  "tbl s di = pfn (page_dir s di)"

definition has_tbl :: "'a mm_scheme \<Rightarrow> nat \<Rightarrow> bool" where
  "has_tbl s di \<longleftrightarrow> di < 1024 \<and> present (page_dir s di)"

definition pt_frames :: "'a mm_scheme \<Rightarrow> nat set" where
  "pt_frames s = insert (pfn (dir_base s)) (tbl s ` {di. has_tbl s di})"

definition pt_ok :: "'a mm_scheme \<Rightarrow> bool" where
  "pt_ok s \<longleftrightarrow> pmm_ok s \<and> paging_on s \<and> cr3 s = dir_base s \<and> pmm_range s \<subseteq> {..<4096}
     \<and> (\<forall>f<4096. \<exists>e. pages s f = Some e \<and> pfn e = f)
     \<and> (\<forall>di. has_tbl s di \<longrightarrow> tbl s di < 4096 \<and> tbl s di \<noteq> pfn (dir_base s))
     \<and> inj_on (tbl s) {di. has_tbl s di}
     \<and> pt_frames s \<inter> (pmm_range s - pmm_owned s) = {}"

lemma walk_pages: "walk s v = pages s (pfn v)"
  using pfn_lt [of v] by (simp add: walk_def pages_def Let_def dir_idx_pfn tbl_idx_pfn)

lemma pages_tbl:
  "cr3 s = dir_base s \<Longrightarrow> n < 1048576 \<Longrightarrow> pages s n =
     (if has_tbl s (n div 1024) \<and> present (frames s (tbl s (n div 1024)) (n mod 1024))
      then Some (frames s (tbl s (n div 1024)) (n mod 1024)) else None)"
  by (auto simp: pages_def Let_def has_tbl_def tbl_def page_dir_def)

lemma pt_okD:
  assumes "pt_ok s"
  shows "pmm_ok s" "paging_on s" "cr3 s = dir_base s" "pmm_range s \<subseteq> {..<4096}"
    "f < 4096 \<Longrightarrow> \<exists>e. pages s f = Some e \<and> pfn e = f"
    "has_tbl s di \<Longrightarrow> tbl s di < 4096" "has_tbl s di \<Longrightarrow> tbl s di \<noteq> pfn (dir_base s)"
    "has_tbl s di \<Longrightarrow> has_tbl s dj \<Longrightarrow> tbl s di = tbl s dj \<longleftrightarrow> di = dj"
    "f \<in> pmm_range s - pmm_owned s \<Longrightarrow> f \<notin> pt_frames s"
  using assms by (auto simp: pt_ok_def inj_on_def)

lemma page_frame_ident: "pt_ok s \<Longrightarrow> pfn a < 4096 \<Longrightarrow> page_frame s a = Some (pfn a)"
  using pt_okD(2) [of s] pt_okD(5) [of s "pfn a"] by (auto simp: page_frame_def walk_pages)

definition entry_at :: "'a mm_scheme \<Rightarrow> u32 \<Rightarrow> u32" where
  "entry_at s v = (page_dir s (PAGE_DIR_IDX v) AND NOT 0xFFF) + of_nat (PAGE_TBL_IDX v) * 4"

lemma entry_at_loc: "pfn (entry_at s v) = tbl s (pfn v div 1024)" "word_idx (entry_at s v) = pfn v mod 1024"
  unfolding entry_at_def dir_idx_pfn tbl_idx_pfn not_FFF by (simp_all add: tbl_def)

lemma pte_ptr_has: "has_tbl s (pfn v div 1024) \<Longrightarrow> pte_ptr v al s = Some (Some (entry_at s v), s)"
  unfolding pte_ptr_def entry_at_def Let_def by (simp add: has_tbl_def dir_idx_pfn)

lemma pte_ptr_no: "\<not> has_tbl s (pfn v div 1024) \<Longrightarrow> pte_ptr v False s = Some (None, s)"
  using pfn_lt [of v] unfolding pte_ptr_def Let_def by (simp add: has_tbl_def dir_idx_pfn)

lemma pte_val_pages:
  assumes "pt_ok s"
  shows "pte_val v s = Some (map_option (\<lambda>e. (entry_at s v, e)) (pages s (pfn v)))"
proof (cases "has_tbl s (pfn v div 1024)")
  case True
  have "page_frame s (entry_at s v) = Some (tbl s (pfn v div 1024))"
    using page_frame_ident [OF assms] pt_okD(6) [OF assms True] by (simp add: entry_at_loc)
  then have "rd32 s (entry_at s v) = Some (frames s (tbl s (pfn v div 1024)) (pfn v mod 1024))"
    by (simp add: rd32_def entry_at_loc)
  with True show ?thesis
    by (simp add: pte_val_def pte_ptr_has pages_tbl [OF pt_okD(3) [OF assms] pfn_lt])
next
  case False
  then show ?thesis by (simp add: pte_val_def pte_ptr_no pages_tbl [OF pt_okD(3) [OF assms] pfn_lt])
qed

text \<open>The projections that a change of memory leaves alone.\<close>

lemma set_word_simps [simp]:
  "pmm_refs (set_word f w x s) = pmm_refs s" "pmm_total_frames (set_word f w x s) = pmm_total_frames s"
  "pmm_used_frames (set_word f w x s) = pmm_used_frames s" "pmm_base_frame (set_word f w x s) = pmm_base_frame s"
  "dir_base (set_word f w x s) = dir_base s" "cr3 (set_word f w x s) = cr3 s" "paging_on (set_word f w x s) = paging_on s"
  "frames (set_word f w x s) g = (if g = f then (frames s f)(w := x) else frames s g)"
  "hblocks (set_word f w x s) = hblocks s" "vregions (set_word f w x s) = vregions s" "vmalloc_ptr (set_word f w x s) = vmalloc_ptr s"
  by (simp_all add: set_word_def)

text \<open>A state with the same tables and the same frames in use.\<close>

definition same_pmm :: "'a mm_scheme \<Rightarrow> 'a mm_scheme \<Rightarrow> bool" where
  "same_pmm s s' \<longleftrightarrow> pmm_refs s' = pmm_refs s \<and> pmm_total_frames s' = pmm_total_frames s
     \<and> pmm_used_frames s' = pmm_used_frames s \<and> pmm_base_frame s' = pmm_base_frame s"

lemma same_pmmD: "same_pmm s s' \<Longrightarrow> pmm_ok s' = pmm_ok s \<and> pmm_owned s' = pmm_owned s \<and> pmm_range s' = pmm_range s"
  by (simp add: same_pmm_def pmm_ok_def pmm_owned_def pmm_range_def)

lemma set_pte_pages:
  fixes s :: "'a mm_scheme" and x :: u32
  assumes ok: "pt_ok s" and n: "n < 1048576" "has_tbl s (n div 1024)"
  defines "s' \<equiv> set_word (tbl s (n div 1024)) (n mod 1024) x s"
  shows "pages s' = (pages s)(n := if present x then Some x else None)"
    and "has_tbl s' = has_tbl s" "tbl s' = tbl s"
proof -
  have d: "tbl s (n div 1024) \<noteq> pfn (dir_base s)" using pt_okD(7) [OF ok n(2)] .
  then have dir: "page_dir s' di = page_dir s di" for di by (simp add: page_dir_def s'_def)
  then show h: "has_tbl s' = has_tbl s" and t: "tbl s' = tbl s" by (auto simp: has_tbl_def tbl_def)
  have c: "cr3 s' = dir_base s'" using pt_okD(3) [OF ok] by (simp add: s'_def)
  show "pages s' = (pages s)(n := if present x then Some x else None)"
  proof
    fix m
    show "pages s' m = ((pages s)(n := if present x then Some x else None)) m"
    proof (cases "m < 1048576")
      case False
      then show ?thesis using n(1) by (simp add: pages_def)
    next
      case m: True
      show ?thesis
      proof (cases "m = n")
        case True
        then show ?thesis using n by (simp add: pages_tbl [OF c n(1)] h t) (simp add: s'_def)
      next
        case False
        have "frames s' (tbl s (m div 1024)) (m mod 1024) = frames s (tbl s (m div 1024)) (m mod 1024)"
          if "has_tbl s (m div 1024)"
        proof (cases "m div 1024 = n div 1024")
          case True
          with False have "m mod 1024 \<noteq> n mod 1024" by (metis div_mult_mod_eq)
          with True show ?thesis by (simp add: s'_def)
        next
          case False
          with pt_okD(8) [OF ok that n(2)] show ?thesis by (simp add: s'_def)
        qed
        with False show ?thesis by (auto simp: pages_tbl [OF c m] pages_tbl [OF pt_okD(3) [OF ok] m] h t)
      qed
    qed
  qed
qed

lemma set_pte_ok:
  assumes ok: "pt_ok s" and n: "n < 1048576" "has_tbl s (n div 1024)"
    and keep: "4096 \<le> n \<or> (present x \<and> pfn x = n)"
  shows "pt_ok (set_word (tbl s (n div 1024)) (n mod 1024) x s)" (is "pt_ok ?s")
proof -
  note p = set_pte_pages [OF ok n, of x]
  have "same_pmm s ?s" by (simp add: same_pmm_def)
  note pm = same_pmmD [OF this]
  have "\<exists>e. pages ?s f = Some e \<and> pfn e = f" if "f < 4096" for f
    using keep pt_okD(5) [OF ok that] that by (auto simp: p(1))
  moreover have "pt_frames ?s = pt_frames s" by (simp add: pt_frames_def p)
  ultimately show ?thesis using ok pm unfolding pt_ok_def by (simp add: p)
qed

text \<open>A fresh table: a free frame is zeroed through the identity mapping and entered in the directory.\<close>

lemma tbl_entry: "f < 1048576 \<Longrightarrow> pfn ((of_nat f * 4096) OR PAGE_PRESENT OR PAGE_WRITE) = f"
  by (simp add: pfn_or_flags PAGE_PRESENT_def PAGE_WRITE_def)

lemma new_table_ok:
  fixes s :: "'a mm_scheme"
  assumes ok: "pt_ok s" and al: "pmm_alloc s = (a, s1)" "a \<noteq> 0" and di: "di < 1024" "\<not> has_tbl s di"
  defines "f \<equiv> pfn a" and "s2 \<equiv> s1\<lparr>frames := (frames s1)(pfn a := (\<lambda>_. 0))\<rparr>"
  defines "s3 \<equiv> set_word (pfn (dir_base s2)) di (a OR PAGE_PRESENT OR PAGE_WRITE) s2"
  shows "zero_page a s1 = Some s2" "pt_ok s3" "pages s3 = pages s" "has_tbl s3 = (has_tbl s)(di := True)"
    "tbl s3 = (tbl s)(di := f)" "pmm_owned s3 = insert f (pmm_owned s)" "f \<in> pmm_range s - pmm_owned s"
    "pmm_range s3 = pmm_range s" "g \<notin> insert f (pt_frames s) \<Longrightarrow> frames s3 g = frames s g"
    "pt_frames s3 = insert f (pt_frames s)" "vregions s3 = vregions s" "vmalloc_ptr s3 = vmalloc_ptr s"
    "g \<noteq> f \<Longrightarrow> pmm_refs s3 g = pmm_refs s g"
proof -
  from pt_okD(1) [OF ok] obtain i where i: "i \<in> pmm_range s" "i < 65536" "pmm_refs s i = 0" "a = of_nat i * 4096"
      "s1 = s\<lparr>pmm_refs := (pmm_refs s)(i := 1), pmm_used_frames := pmm_used_frames s + 1\<rparr>"
    by (cases rule: pmm_alloc_cases) (use al in auto)
  have f: "f = i" using i(2,4) by (simp add: f_def)
  have lt: "i < 4096" using pt_okD(4) [OF ok] i(1) by auto
  have e: "pfn (a OR PAGE_PRESENT OR PAGE_WRITE) = i" unfolding i(4) by (rule tbl_entry) (use lt in simp)
  have fr: "i \<in> pmm_range s - pmm_owned s" using i(1,3) by (simp add: pmm_owned_def)
  then show "f \<in> pmm_range s - pmm_owned s" by (simp add: f)
  have np: "i \<notin> pt_frames s" by (rule pt_okD(9) [OF ok fr])
  then have nd: "i \<noteq> pfn (dir_base s)" by (auto simp: pt_frames_def)
  have p1: "pages s1 = pages s" by (auto simp: i(5) pages_def)
  have pa: "pfn a = i" using f f_def by simp
  have "paging_on s1" using pt_okD(2) [OF ok] by (simp add: i(5))
  then have "page_frame s1 a = Some i"
    using pt_okD(5) [OF ok lt] by (auto simp: page_frame_def walk_pages p1 pa)
  then show "zero_page a s1 = Some s2" using f by (simp add: zero_page_def s2_def f_def)
  have fr3: "frames s3 g = (if g = pfn (dir_base s) then (frames s g)(di := a OR PAGE_PRESENT OR PAGE_WRITE)
       else if g = i then (\<lambda>_. 0) else frames s g)" for g
    using nd f by (auto simp: s3_def s2_def i(5) f_def)
  have c3: "dir_base s3 = dir_base s" "cr3 s3 = dir_base s" "paging_on s3"
    using pt_okD(2,3) [OF ok] by (simp_all add: s3_def s2_def i(5))
  have dir: "page_dir s3 = (page_dir s)(di := a OR PAGE_PRESENT OR PAGE_WRITE)"
    by (auto simp: page_dir_def c3 fr3)
  show h: "has_tbl s3 = (has_tbl s)(di := True)" by (auto simp: has_tbl_def dir di fun_eq_iff)
  show t: "tbl s3 = (tbl s)(di := f)" using e f by (auto simp: tbl_def dir fun_eq_iff)
  show p: "pages s3 = pages s"
  proof
    fix n
    show "pages s3 n = pages s n"
    proof (cases "n < 1048576")
      case True
      have "frames s3 (tbl s (n div 1024)) = frames s (tbl s (n div 1024))" if "has_tbl s (n div 1024)"
        using np that pt_okD(7) [OF ok that] by (auto simp: fr3 pt_frames_def)
      moreover have "frames s3 i = (\<lambda>_. 0)" using nd by (simp add: fr3)
      ultimately show ?thesis using di f
        by (auto simp: pages_tbl [OF _ True] c3 pt_okD(3) [OF ok] h t)
    qed (simp add: pages_def)
  qed
  have pm: "same_pmm s1 s3" by (simp add: same_pmm_def s3_def s2_def)
  have o1: "pmm_owned s1 = insert i (pmm_owned s)" using i(1) unfolding i(5) by (simp add: pmm_upd_owned)
  with same_pmmD [OF pm] f show o: "pmm_owned s3 = insert f (pmm_owned s)" by simp
  have r1: "pmm_range s1 = pmm_range s" by (simp add: i(5) pmm_range_def)
  with same_pmmD [OF pm] show r: "pmm_range s3 = pmm_range s" by simp
  have pk: "pmm_ok s3" using pmm_alloc_ok [OF pt_okD(1) [OF ok] al] same_pmmD [OF pm] by simp
  show "g \<notin> insert f (pt_frames s) \<Longrightarrow> frames s3 g = frames s g" by (auto simp: fr3 f pt_frames_def)
  have pf: "pt_frames s3 = insert i (pt_frames s)" using di f by (auto simp: pt_frames_def h t c3)
  then show "pt_frames s3 = insert f (pt_frames s)" by (simp add: f)
  show "vregions s3 = vregions s" "vmalloc_ptr s3 = vmalloc_ptr s" by (simp_all add: s3_def s2_def i(5))
  show "g \<noteq> f \<Longrightarrow> pmm_refs s3 g = pmm_refs s g" by (simp add: s3_def s2_def i(5) f)
  have "inj_on (tbl s3) {dj. has_tbl s3 dj}"
    using ok np di f unfolding pt_ok_def inj_on_def pt_frames_def h t by auto
  moreover have "tbl s3 dj < 4096 \<and> tbl s3 dj \<noteq> pfn (dir_base s)" if "has_tbl s3 dj" for dj
    using that lt nd f pt_okD(6,7) [OF ok, of dj] by (auto simp: h t)
  moreover have "pt_frames s3 \<inter> (pmm_range s3 - pmm_owned s3) = {}"
    using ok unfolding pf o r f pt_ok_def by auto
  ultimately show "pt_ok s3" using pk c3 r pt_okD(4,5) [OF ok] unfolding pt_ok_def p by simp
qed

section \<open>Mapping and unmapping\<close>

definition can_map :: "'a mm_scheme \<Rightarrow> u32 \<Rightarrow> bool" where
  "can_map s v \<longleftrightarrow> has_tbl s (pfn v div 1024) \<or> pmm_owned s \<noteq> pmm_range s"

text \<open>What a call may do to physical memory besides the map: it takes at most one frame, for a table, and
  leaves every frame that was in use and is no table as it was.\<close>

definition data_kept :: "'a mm_scheme \<Rightarrow> 'a mm_scheme \<Rightarrow> bool" where
  "data_kept s s' \<longleftrightarrow> pmm_owned s \<subseteq> pmm_owned s' \<and> pmm_range s' = pmm_range s
     \<and> pt_frames s \<subseteq> pt_frames s' \<and> pt_frames s' \<subseteq> pt_frames s \<union> (pmm_owned s' - pmm_owned s)
     \<and> (\<forall>g. g \<notin> pt_frames s' \<longrightarrow> frames s' g = frames s g)
     \<and> (\<forall>g. g \<notin> pmm_owned s' - pmm_owned s \<longrightarrow> pmm_refs s' g = pmm_refs s g)
     \<and> vregions s' = vregions s \<and> vmalloc_ptr s' = vmalloc_ptr s"

lemma paging_map_has:
  assumes ok: "pt_ok s" and v: "has_tbl s (pfn v div 1024)" "4096 \<le> pfn v"
  shows "\<exists>s'. paging_map v p fl s = Some s' \<and> pt_ok s'
     \<and> pages s' = (pages s)(pfn v \<mapsto> (p AND NOT 0xFFF) OR PAGE_PRESENT OR fl) \<and> data_kept s s' \<and> pmm_owned s' = pmm_owned s"
proof -
  define x where "x = (p AND NOT 0xFFF) OR PAGE_PRESENT OR fl"
  define s' where "s' = set_word (tbl s (pfn v div 1024)) (pfn v mod 1024) x s"
  have "page_frame s (entry_at s v) = Some (tbl s (pfn v div 1024))"
    using page_frame_ident [OF ok] pt_okD(6) [OF ok v(1)] by (simp add: entry_at_loc)
  then have run: "paging_map v p fl s = Some s'"
    by (simp add: paging_map_def pte_ptr_has [OF v(1)] wr32_def entry_at_loc s'_def x_def del: not_FFF)
  have x: "present x" by (simp add: x_def)
  note p = set_pte_pages [OF ok pfn_lt v(1), of x, folded s'_def]
  have o: "pmm_owned s' = pmm_owned s" "pmm_range s' = pmm_range s"
    using same_pmmD [of s s'] by (simp_all add: same_pmm_def s'_def)
  have "pt_frames s' = pt_frames s" by (simp add: pt_frames_def p) (simp add: s'_def)
  moreover have "tbl s (pfn v div 1024) \<in> pt_frames s" using v(1) by (auto simp: pt_frames_def)
  ultimately have "data_kept s s'" using o by (auto simp: data_kept_def s'_def)
  moreover have "pt_ok s'" unfolding s'_def by (rule set_pte_ok [OF ok pfn_lt v(1)]) (use v in simp)
  ultimately show ?thesis using run x o p(1) unfolding x_def by auto
qed

lemma pte_ptr_new:
  assumes ok: "pt_ok s" and v: "\<not> has_tbl s (pfn v div 1024)" and free: "pmm_owned s \<noteq> pmm_range s"
  shows "\<exists>s3 f. pte_ptr v True s = Some (Some (entry_at s3 v), s3) \<and> pt_ok s3 \<and> pages s3 = pages s
     \<and> has_tbl s3 (pfn v div 1024) \<and> data_kept s s3 \<and> pmm_owned s3 = insert f (pmm_owned s)"
proof -
  obtain a s1 where al: "pmm_alloc s = (a, s1)" by (cases "pmm_alloc s")
  have nz: "a \<noteq> 0" using pmm_alloc_exclusive [OF pt_okD(1) [OF ok] al] free by (metis prod.collapse)
  have di: "pfn v div 1024 < 1024" using pfn_lt [of v] by (simp add: less_mult_imp_div_less)
  define s2 where "s2 = s1\<lparr>frames := (frames s1)(pfn a := (\<lambda>_. 0))\<rparr>"
  define s3 where "s3 = set_word (pfn (dir_base s2)) (pfn v div 1024) (a OR PAGE_PRESENT OR PAGE_WRITE) s2"
  note n = new_table_ok [OF ok al nz di v, folded s2_def, folded s3_def]
  have "\<not> present (page_dir s (PAGE_DIR_IDX v))" using v di by (simp add: has_tbl_def dir_idx_pfn)
  then have "pte_ptr v True s = Some (Some (entry_at s3 v), s3)"
    using al nz n(1) by (simp add: pte_ptr_def Let_def entry_at_def dir_idx_pfn [symmetric] s3_def)
  moreover have "\<forall>g. g \<notin> pmm_owned s3 - pmm_owned s \<longrightarrow> pmm_refs s3 g = pmm_refs s g"
    using n(6,7,13) by (metis DiffI DiffD2 insertI1)
  then have "data_kept s s3" using n by (auto simp: data_kept_def)
  ultimately show ?thesis using n by auto
qed

lemma data_kept_trans:
  "data_kept s s1 \<Longrightarrow> data_kept s1 s2 \<Longrightarrow> data_kept s s2"
  unfolding data_kept_def by auto

lemma paging_map_ok:
  assumes ok: "pt_ok s" and v: "can_map s v" "4096 \<le> pfn v"
  shows "\<exists>s'. paging_map v p fl s = Some s' \<and> pt_ok s'
     \<and> pages s' = (pages s)(pfn v \<mapsto> (p AND NOT 0xFFF) OR PAGE_PRESENT OR fl)
     \<and> data_kept s s' \<and> (\<exists>f. pmm_owned s' \<subseteq> insert f (pmm_owned s))"
proof (cases "has_tbl s (pfn v div 1024)")
  case True
  from paging_map_has [OF ok True v(2)] show ?thesis by fastforce
next
  case False
  with v(1) have "pmm_owned s \<noteq> pmm_range s" by (simp add: can_map_def)
  from pte_ptr_new [OF ok False this] obtain s3 f where
    s3: "pte_ptr v True s = Some (Some (entry_at s3 v), s3)" "pt_ok s3" "pages s3 = pages s"
      "has_tbl s3 (pfn v div 1024)" "data_kept s s3" "pmm_owned s3 = insert f (pmm_owned s)" by blast
  have "paging_map v p fl s = paging_map v p fl s3"
    by (simp add: paging_map_def s3(1) pte_ptr_has [OF s3(4)])
  with paging_map_has [OF s3(2,4) v(2), of p fl] s3 data_kept_trans [OF s3(5)] show ?thesis by fastforce
qed

lemma paging_map_full:
  assumes ok: "pt_ok s" and v: "\<not> can_map s v"
  shows "paging_map v p fl s = Some s"
proof -
  from v have n: "\<not> has_tbl s (pfn v div 1024)" and full: "pmm_owned s = pmm_range s" by (auto simp: can_map_def)
  obtain a s1 where al: "pmm_alloc s = (a, s1)" by (cases "pmm_alloc s")
  obtain b s2 where al2: "pmm_alloc s1 = (b, s2)" by (cases "pmm_alloc s1")
  from pmm_alloc_exclusive [OF pt_okD(1) [OF ok] al al2] full have "a = 0" "s1 = s" by auto
  moreover have "\<not> present (page_dir s (PAGE_DIR_IDX v))"
    using n pfn_lt [of v] by (simp add: has_tbl_def dir_idx_pfn less_mult_imp_div_less)
  ultimately show ?thesis using al by (simp add: paging_map_def pte_ptr_def Let_def)
qed

lemma pmm_free_same: "frames (pmm_free a s) = frames s" "dir_base (pmm_free a s) = dir_base s" "cr3 (pmm_free a s) = cr3 s"
  "paging_on (pmm_free a s) = paging_on s" "vregions (pmm_free a s) = vregions s" "vmalloc_ptr (pmm_free a s) = vmalloc_ptr s"
  "pmm_range (pmm_free a s) = pmm_range s"
  by (simp_all add: pmm_free_def Let_def pmm_range_def)

lemma pt_ok_free:
  assumes ok: "pt_ok s" and f: "f \<in> pmm_owned s" "f \<notin> pt_frames s"
  shows "pt_ok (pmm_free (of_nat f * 4096) s)" (is "pt_ok ?s")
    "pages (pmm_free (of_nat f * 4096) s) = pages s" "has_tbl (pmm_free (of_nat f * 4096) s) = has_tbl s"
    "tbl (pmm_free (of_nat f * 4096) s) = tbl s"
proof -
  have "f < 65536" using f(1) pt_okD(4) [OF ok] by (auto simp: pmm_owned_def)
  note fr = pmm_free_ok [OF pt_okD(1) [OF ok] f(1) this]
  have d: "page_dir ?s = page_dir s" by (simp add: page_dir_def pmm_free_same fun_eq_iff)
  show p: "pages ?s = pages s" by (simp add: pages_def pmm_free_same fun_eq_iff)
  show h: "has_tbl ?s = has_tbl s" and t: "tbl ?s = tbl s" by (simp_all add: has_tbl_def tbl_def d fun_eq_iff)
  have "pt_frames ?s = pt_frames s" by (simp add: pt_frames_def h t pmm_free_same)
  moreover have "pmm_owned s - {f} \<subseteq> pmm_owned ?s" using fr by (auto split: if_splits)
  ultimately have "pt_frames ?s \<inter> (pmm_range ?s - pmm_owned ?s) = {}"
    using ok f unfolding pt_ok_def pmm_free_same by auto
  then show "pt_ok ?s" using ok fr unfolding pt_ok_def by (simp add: p h t pmm_free_same)
qed

lemma mask_frame: "(e AND NOT 0xFFF) = of_nat (pfn e) * 4096"
  using pfn_lt [of e] unfolding not_FFF
  by (intro word_unat_eq_iff [THEN iffD2]) (simp add: unat_page_mask unat_word_ariths unat_of_nat take_bit_eq_mod)

lemma paging_unmap_ok:
  assumes ok: "pt_ok s" and v: "4096 \<le> pfn v" and e: "pages s (pfn v) = Some e" "pfn e \<in> pmm_owned s" "pfn e \<notin> pt_frames s"
  shows "\<exists>s'. paging_unmap v s = Some s' \<and> pt_ok s' \<and> pages s' = (pages s)(pfn v := None)
     \<and> pmm_cnt s' = (pmm_cnt s)(pfn e := pmm_cnt s (pfn e) - 1) \<and> pt_frames s' = pt_frames s
     \<and> (\<forall>g. g \<notin> pt_frames s \<longrightarrow> frames s' g = frames s g) \<and> has_tbl s' = has_tbl s \<and> pmm_range s' = pmm_range s
     \<and> pmm_owned s' = (if pmm_cnt s (pfn e) = 1 then pmm_owned s - {pfn e} else pmm_owned s)"
proof -
  define s1 where "s1 = pmm_free (e AND NOT 0xFFF) s"
  note f = pt_ok_free [OF ok e(2,3), folded mask_frame, folded s1_def]
  have lt: "pfn e < 65536" using e(2) pt_okD(4) [OF ok] by (auto simp: pmm_owned_def)
  have h: "has_tbl s (pfn v div 1024)"
    using e(1) by (simp add: pages_tbl [OF pt_okD(3) [OF ok] pfn_lt] split: if_splits)
  then have h1: "has_tbl s1 (pfn v div 1024)" by (simp add: f)
  define s' where "s' = set_word (tbl s (pfn v div 1024)) (pfn v mod 1024) 0 s1"
  have "page_frame s1 (entry_at s v) = Some (tbl s (pfn v div 1024))"
    using page_frame_ident [OF f(1)] pt_okD(6) [OF ok h] by (simp add: entry_at_loc)
  then have run: "paging_unmap v s = Some s'"
    by (simp add: paging_unmap_def pte_val_pages [OF ok] e(1) wr32_def entry_at_loc s'_def s1_def)
  note p = set_pte_pages [OF f(1) pfn_lt h1, of 0, unfolded f(2-4), folded s'_def]
  have "pt_ok s'" using set_pte_ok [OF f(1) pfn_lt h1, of 0] v unfolding f(4) s'_def by simp
  moreover have "pmm_cnt s' = (pmm_cnt s)(pfn e := pmm_cnt s (pfn e) - 1)"
    using pmm_free_ok [OF pt_okD(1) [OF ok] e(2) lt, folded mask_frame, folded s1_def]
    by (simp add: s'_def pmm_cnt_def [abs_def])
  moreover have "same_pmm s1 s'" by (simp add: same_pmm_def s'_def)
  then have "pmm_range s' = pmm_range s"
      "pmm_owned s' = (if pmm_cnt s (pfn e) = 1 then pmm_owned s - {pfn e} else pmm_owned s)"
    using pmm_free_ok [OF pt_okD(1) [OF ok] e(2) lt, folded mask_frame, folded s1_def] same_pmmD [of s1 s']
    by (simp_all add: s1_def pmm_free_same)
  moreover have pf: "pt_frames s' = pt_frames s" by (simp add: pt_frames_def p) (simp add: s'_def s1_def pmm_free_same)
  moreover have "tbl s (pfn v div 1024) \<in> pt_frames s" using h by (auto simp: pt_frames_def)
  then have "\<forall>g. g \<notin> pt_frames s \<longrightarrow> frames s' g = frames s g" by (auto simp: s'_def s1_def pmm_free_same)
  ultimately show ?thesis using run p(1,2) by auto
qed

section \<open>The interface of an address space\<close>

locale address_space =
  fixes view :: "'s \<Rightarrow> nat \<Rightarrow> u32 option"
    and map_page :: "u32 \<Rightarrow> u32 \<Rightarrow> u32 \<Rightarrow> 's \<Rightarrow> 's option"
    and unmap_page :: "u32 \<Rightarrow> 's \<Rightarrow> 's option"
    and translate :: "u32 \<Rightarrow> 's \<Rightarrow> u32 option"
    and inv :: "'s \<Rightarrow> bool"
    and room :: "'s \<Rightarrow> u32 \<Rightarrow> bool"
    and data :: "'s \<Rightarrow> nat set"
  assumes map_ok: "inv s \<Longrightarrow> room s v \<Longrightarrow> 4096 \<le> pfn v \<Longrightarrow>
      \<exists>s'. map_page v p fl s = Some s' \<and> inv s' \<and> view s' = (view s)(pfn v \<mapsto> (p AND NOT 0xFFF) OR PAGE_PRESENT OR fl)
         \<and> data s \<subseteq> data s'"
    and map_none: "inv s \<Longrightarrow> \<not> room s v \<Longrightarrow> map_page v p fl s = Some s"
    and unmap_ok: "inv s \<Longrightarrow> 4096 \<le> pfn v \<Longrightarrow> view s (pfn v) = Some e \<Longrightarrow> pfn e \<in> data s \<Longrightarrow>
      \<exists>s'. unmap_page v s = Some s' \<and> inv s' \<and> view s' = (view s)(pfn v := None)"
    and unmap_none: "inv s \<Longrightarrow> view s (pfn v) = None \<Longrightarrow> unmap_page v s = Some s"
    and translate_ok: "inv s \<Longrightarrow>
      translate v s = Some (case view s (pfn v) of None \<Rightarrow> 0 | Some e \<Rightarrow> (e AND NOT 0xFFF) OR (v AND 0xFFF))"
begin

lemma map_translate:
  assumes "inv s" "room s v" "4096 \<le> pfn v" "unat fl < 4096" "pfn u = pfn v"
  shows "\<exists>s'. map_page v p fl s = Some s' \<and> translate u s' = Some ((p AND NOT 0xFFF) OR (u AND 0xFFF))"
proof -
  from map_ok [OF assms(1-3)] obtain s' where
    s': "map_page v p fl s = Some s'" "inv s'" "view s' = (view s)(pfn v \<mapsto> (p AND NOT 0xFFF) OR PAGE_PRESENT OR fl)"
    by blast
  have "pfn (((p AND NOT 0xFFF) OR PAGE_PRESENT) OR fl) = pfn p"
    by (simp add: pfn_or_flags assms(4)) (simp add: pfn_or_flags PAGE_PRESENT_def)
  then have "(((p AND NOT 0xFFF) OR PAGE_PRESENT OR fl) AND NOT 0xFFF) = (p AND NOT 0xFFF)"
    by (simp only: mask_frame or.assoc)
  with s' translate_ok [OF s'(2), of u] assms(5) show ?thesis by simp
qed

lemma map_other:
  assumes "inv s" "4096 \<le> pfn v" "pfn u \<noteq> pfn v"
  shows "\<exists>s'. map_page v p fl s = Some s' \<and> translate u s' = translate u s"
proof (cases "room s v")
  case True
  from map_ok [OF assms(1) True assms(2)] obtain s' where
    s': "map_page v p fl s = Some s'" "inv s'" "view s' = (view s)(pfn v \<mapsto> (p AND NOT 0xFFF) OR PAGE_PRESENT OR fl)"
    by blast
  show ?thesis using translate_ok [OF s'(2), of u] translate_ok [OF assms(1), of u] s'(1,3) assms(3) by simp
next
  case False
  from map_none [OF assms(1) False] show ?thesis by simp
qed

lemma unmap_translate:
  assumes "inv s" "4096 \<le> pfn v" "view s (pfn v) = Some e" "pfn e \<in> data s"
  shows "\<exists>s'. unmap_page v s = Some s' \<and> translate v s' = Some 0"
proof -
  from unmap_ok [OF assms] obtain s' where
    s': "unmap_page v s = Some s'" "inv s'" "view s' = (view s)(pfn v := None)" by blast
  with translate_ok [OF s'(2), of v] show ?thesis by simp
qed

end

interpretation pt: address_space pages paging_map paging_unmap paging_virt_to_phys pt_ok can_map "\<lambda>s. pmm_owned s - pt_frames s"
proof (unfold_locales, goal_cases)
  case (1 s v p fl)
  from paging_map_ok [OF 1, of p fl] show ?case by (fastforce simp: data_kept_def)
next
  case (2 s v p fl)
  then show ?case by (rule paging_map_full)
next
  case (3 s v e)
  from paging_unmap_ok [OF 3(1,2,3)] 3(4) show ?case by blast
next
  case (4 s v)
  then show ?case by (simp add: paging_unmap_def pte_val_pages)
next
  case (5 s v)
  then show ?case by (simp add: paging_virt_to_phys_def pte_val_pages split: option.split)
qed


section \<open>Initialisation\<close>

text \<open>Where the linker may put the static tables: page-aligned, in the frames of the kernel image, apart.\<close>

definition kernel_layout :: "nat \<Rightarrow> nat \<Rightarrow> 'a mm_scheme \<Rightarrow> bool" where
  "kernel_layout D T s \<longleftrightarrow> dir_base s = of_nat D * 4096 \<and> tables_base s = of_nat T * 4096
     \<and> 256 \<le> D \<and> D < 1280 \<and> 256 \<le> T \<and> T + 4 \<le> 1280 \<and> (D < T \<or> T + 4 \<le> D)"

lemma pfn_or3: "pfn (a OR PAGE_PRESENT OR PAGE_WRITE) = pfn a"
  by (simp add: pfn_or_flags PAGE_PRESENT_def PAGE_WRITE_def)

lemma pfn_kern_pte: "t < 4 \<Longrightarrow> p < 1024 \<Longrightarrow> pfn (kern_pte t p) = t * 1024 + p"
  unfolding kern_pte_def pfn_or3 PAGE_SIZE_def PAGE_ENTRIES_def by (rule pfn_of_frame) simp

lemma present_kern_pte [simp]: "present (kern_pte t p)"
  by (simp add: kern_pte_def)

lemma init_tables_state:
  assumes "kernel_layout D T s" "frames s D = (\<lambda>_. 0)" "k \<le> 4"
  shows "(let s' = fold init_table [0..<k] s in
      same_pmm s s' \<and> dir_base s' = dir_base s \<and> tables_base s' = tables_base s
      \<and> frames s' D = (\<lambda>di. if di < k then of_nat (T + di) * 4096 OR PAGE_PRESENT OR PAGE_WRITE else 0)
      \<and> (\<forall>t<k. frames s' (T + t) = (\<lambda>p. if p < 1024 then kern_pte t p else 0)))"
  using assms(3)
proof (induction k)
  case 0
  with assms(2) show ?case by (simp add: same_pmm_def)
next
  case (Suc k)
  let ?s = "fold init_table [0..<k] s"
  from Suc have IH: "same_pmm s ?s" "dir_base ?s = dir_base s" "tables_base ?s = tables_base s"
    "frames ?s D = (\<lambda>di. if di < k then of_nat (T + di) * 4096 OR PAGE_PRESENT OR PAGE_WRITE else 0)"
    "\<forall>t<k. frames ?s (T + t) = (\<lambda>p. if p < 1024 then kern_pte t p else 0)" by (simp_all add: Let_def)
  have kt: "kern_table k ?s = of_nat (T + k) * 4096" "pfn (dir_base s) = D"
    using assms(1) by (simp_all add: kern_table_def IH kernel_layout_def PAGE_SIZE_def algebra_simps)
  then have pk: "pfn (kern_table k ?s) = T + k" using assms(1) Suc.prems unfolding kt(1)
    by (intro pfn_of_frame) (simp add: kernel_layout_def)
  have ne: "T + k \<noteq> D" using assms(1) Suc.prems by (auto simp: kernel_layout_def)
  let ?s' = "init_table k ?s"
  have fr: "frames ?s' = (frames ?s)(T + k := (\<lambda>p. if p < 1024 then kern_pte k p else 0),
       D := (frames ?s D)(k := of_nat (T + k) * 4096 OR PAGE_PRESENT OR PAGE_WRITE))"
    using ne pk kt by (auto simp: init_table_def set_word_def IH(2) PAGE_ENTRIES_def kern_table_def fun_eq_iff)
  have rest: "same_pmm s ?s'" "dir_base ?s' = dir_base s" "tables_base ?s' = tables_base s"
    using IH(1-3) by (simp_all add: init_table_def set_word_def same_pmm_def Let_def)
  have "\<forall>t<Suc k. frames ?s' (T + t) = (\<lambda>p. if p < 1024 then kern_pte t p else 0)"
    using IH(5) assms(1) Suc.prems by (auto simp: fr less_Suc_eq kernel_layout_def)
  moreover have "frames ?s' D = (\<lambda>di. if di < Suc k then of_nat (T + di) * 4096 OR PAGE_PRESENT OR PAGE_WRITE else 0)"
    by (auto simp: fr IH(4) fun_eq_iff less_Suc_eq)
  ultimately show ?case using rest by (simp add: Let_def)
qed

lemma paging_init_ok:
  assumes kl: "kernel_layout D T s" and kb: "5120 \<le> unat kb" "unat kb \<le> 16384"
  shows "pt_ok (paging_init kb s)" "pages (paging_init kb s) n = (if n < 4096 then Some (kern_pte (n div 1024) (n mod 1024)) else None)"
    "pmm_owned (paging_init kb s) = {256..<1280}" "pmm_range (paging_init kb s) = {256..<256 + (unat kb - 1024) div 4}"
proof -
  define s1 where "s1 = pmm_init kb s"
  define s2 where "s2 = s1\<lparr>frames := (frames s1)(D := (\<lambda>_. 0))\<rparr>"
  define s3 where "s3 = fold init_table [0..<4] s2"
  define s' where "s' = s3\<lparr>cr3 := dir_base s3, paging_on := True\<rparr>"
  have D: "pfn (dir_base s) = D" using kl by (simp add: kernel_layout_def)
  have "dir_base s1 = dir_base s" "tables_base s1 = tables_base s" by (simp_all add: s1_def pmm_init_def Let_def)
  then have kl2: "kernel_layout D T s2" using kl by (simp add: s2_def kernel_layout_def)
  have run: "paging_init kb s = s'"
    by (simp add: paging_init_def s'_def s3_def s2_def Let_def NUM_PREINIT_TABLES_def \<open>dir_base s1 = dir_base s\<close> D flip: s1_def)
  have "frames s2 D = (\<lambda>_. 0)" by (simp add: s2_def)
  from init_tables_state [OF kl2 this, of 4]
  have st: "same_pmm s2 s3" "dir_base s3 = dir_base s2"
    "frames s3 D = (\<lambda>di. if di < 4 then of_nat (T + di) * 4096 OR PAGE_PRESENT OR PAGE_WRITE else 0)"
    "\<And>t. t < 4 \<Longrightarrow> frames s3 (T + t) = (\<lambda>p. if p < 1024 then kern_pte t p else 0)"
    by (simp_all add: Let_def s3_def)
  have db: "pfn (dir_base s') = D" "cr3 s' = dir_base s'" "paging_on s'" "pfn (dir_base s3) = D"
    using D st(2) \<open>dir_base s1 = dir_base s\<close> by (simp_all add: s'_def s2_def)
  have dir: "page_dir s' di = (if di < 4 then of_nat (T + di) * 4096 OR PAGE_PRESENT OR PAGE_WRITE else 0)" for di
    using db st(3) by (simp add: page_dir_def s'_def)
  have h: "has_tbl s' di \<longleftrightarrow> di < 4" for di by (auto simp: has_tbl_def dir)
  have t: "tbl s' di = T + di" if "di < 4" for di
    using that kl unfolding tbl_def dir by (simp add: pfn_or3 kernel_layout_def del: of_nat_add)
  have pg: "pages s' n = (if n < 4096 then Some (kern_pte (n div 1024) (n mod 1024)) else None)" for n
  proof (cases "n < 1048576")
    case True
    have "n div 1024 < 4 \<longleftrightarrow> n < 4096" by (simp add: div_less_iff_less_mult)
    then show ?thesis using st(4) [of "n div 1024"]
      by (cases "n < 4096") (simp_all add: pages_tbl [OF db(2) True] h t, simp add: s'_def)
  qed (simp add: pages_def)
  then show "pages (paging_init kb s) n = (if n < 4096 then Some (kern_pte (n div 1024) (n mod 1024)) else None)"
    by (simp add: run)
  have "same_pmm s1 s'" using st(1) by (simp add: same_pmm_def s'_def s2_def)
  from same_pmmD [OF this] pmm_init_ok [OF kb(1), of s] kb(2)
  have pm: "pmm_ok s'" "pmm_owned s' = {256..<1280}" "pmm_range s' = {256..<256 + (unat kb - 1024) div 4}"
    by (simp_all add: s1_def)
  then show "pmm_owned (paging_init kb s) = {256..<1280}" "pmm_range (paging_init kb s) = {256..<256 + (unat kb - 1024) div 4}"
    by (simp_all add: run)
  have "pt_frames s' \<subseteq> {256..<1280}" using kl by (auto simp: pt_frames_def h t db kernel_layout_def)
  then have "pt_frames s' \<inter> (pmm_range s' - pmm_owned s') = {}" using pm(2) by auto
  moreover have "\<exists>e. pages s' f = Some e \<and> pfn e = f" if "f < 4096" for f
    using that pfn_kern_pte [of "f div 1024" "f mod 1024"] by (simp add: pg div_less_iff_less_mult)
  moreover have "tbl s' di < 4096 \<and> tbl s' di \<noteq> pfn (dir_base s')" if "has_tbl s' di" for di
    using that kl by (auto simp: h t db kernel_layout_def)
  moreover have "inj_on (tbl s') {di. has_tbl s' di}" by (auto simp: inj_on_def h t)
  moreover have "pmm_range s' \<subseteq> {..<4096}" using kb(2) pm(3) by auto
  ultimately show "pt_ok (paging_init kb s)" unfolding run pt_ok_def using pm(1) db by simp
qed

lemma init_tables_keep: "vmalloc_ptr (fold init_table ts s) = vmalloc_ptr s" "vregions (fold init_table ts s) = vregions s"
  "hblocks (fold init_table ts s) = hblocks s" "heap_brk_ptr (fold init_table ts s) = heap_brk_ptr s"
  by (induction ts arbitrary: s) (simp_all add: init_table_def set_word_def Let_def)

lemma paging_init_keeps:
  "vmalloc_ptr (paging_init kb s) = vmalloc_ptr s" "vregions (paging_init kb s) = vregions s"
  by (simp_all add: paging_init_def Let_def init_tables_keep) (simp_all add: pmm_init_def Let_def)

definition mm0 :: mm where
  "mm0 = \<lparr>pmm_refs = (\<lambda>_. 0), pmm_total_frames = 0, pmm_used_frames = 0, pmm_base_frame = 0, frames = (\<lambda>_ _. 0),
     dir_base = 300 * 4096, tables_base = 304 * 4096, cr3 = 0, paging_on = False, hblocks = [], heap_brk_ptr = HEAP_VIRT_BASE,
     heap_bytes_used = 0, vregions = [], vmalloc_ptr = VMALLOC_BASE, fault_count = 0, cow_count = 0\<rparr>"

lemma mm0_layout: "kernel_layout 300 304 mm0"
  by (simp add: kernel_layout_def mm0_def)


section \<open>Pages on demand\<close>

text \<open>The step that \<^verbatim>\<open>heap_grow\<close>, \<^verbatim>\<open>vmalloc\<close> and the page-fault handler share: take a frame, map it, clear it.\<close>

definition grows :: "'a mm_scheme \<Rightarrow> 'a mm_scheme \<Rightarrow> bool" where
  "grows s s' \<longleftrightarrow> pmm_owned s \<subseteq> pmm_owned s' \<and> pmm_range s' = pmm_range s
     \<and> pt_frames s \<subseteq> pt_frames s' \<and> pt_frames s' \<subseteq> pt_frames s \<union> (pmm_owned s' - pmm_owned s)
     \<and> (\<forall>g \<in> pmm_owned s - pt_frames s. frames s' g = frames s g)
     \<and> (\<forall>g. g \<notin> pmm_owned s' - pmm_owned s \<longrightarrow> pmm_refs s' g = pmm_refs s g)
     \<and> vregions s' = vregions s \<and> vmalloc_ptr s' = vmalloc_ptr s"

lemma grows_refl: "grows s s"
  by (simp add: grows_def)

lemma grows_trans:
  assumes "grows s s1" "grows s1 s2"
  shows "grows s s2"
proof -
  have "g \<in> pmm_owned s1 - pt_frames s1" if "g \<in> pmm_owned s - pt_frames s" for g
    using that assms(1) unfolding grows_def by blast
  then have "\<forall>g \<in> pmm_owned s - pt_frames s. frames s2 g = frames s g"
    using assms unfolding grows_def by simp
  moreover have "pt_frames s2 \<subseteq> pt_frames s \<union> (pmm_owned s2 - pmm_owned s)"
    using assms unfolding grows_def by blast
  ultimately show ?thesis using assms unfolding grows_def by auto
qed

lemma pt_ok_alloc:
  assumes ok: "pt_ok s" and free: "pmm_owned s \<noteq> pmm_range s"
  shows "\<exists>f s1. pmm_alloc s = (of_nat f * 4096, s1) \<and> f < 4096 \<and> f \<noteq> 0 \<and> f \<in> pmm_range s - pmm_owned s - pt_frames s \<and> pt_ok s1
     \<and> pages s1 = pages s \<and> pt_frames s1 = pt_frames s \<and> pmm_owned s1 = insert f (pmm_owned s) \<and> grows s s1 \<and> frames s1 = frames s
     \<and> has_tbl s1 = has_tbl s \<and> tbl s1 = tbl s \<and> pmm_cnt s1 = (pmm_cnt s)(f := 1)"
  using pt_okD(1) [OF ok]
proof (cases rule: pmm_alloc_cases)
  case (got f)
  define s1 where "s1 = s\<lparr>pmm_refs := (pmm_refs s)(f := 1), pmm_used_frames := pmm_used_frames s + 1\<rparr>"
  have lt: "f < 4096" using got(1) pt_okD(4) [OF ok] by auto
  have fr: "f \<in> pmm_range s - pmm_owned s" using got(1,4) by (simp add: pmm_owned_def)
  have nz: "(of_nat f * 4096 :: u32) \<noteq> 0"
    using lt got(3) by (simp add: word_unat_eq_iff unat_word_ariths unat_of_nat take_bit_eq_mod)
  have al: "pmm_alloc s = (of_nat f * 4096, s1)" using got(5) by (simp add: s1_def)
  have p: "pages s1 = pages s" "has_tbl s1 = has_tbl s" "tbl s1 = tbl s" "pt_frames s1 = pt_frames s" "pmm_range s1 = pmm_range s"
    by (auto simp: s1_def pages_def has_tbl_def tbl_def page_dir_def pt_frames_def pmm_range_def fun_eq_iff)
  have q: "dir_base s1 = dir_base s" "cr3 s1 = cr3 s" "paging_on s1 = paging_on s" "frames s1 = frames s"
      "vregions s1 = vregions s" "vmalloc_ptr s1 = vmalloc_ptr s" by (simp_all add: s1_def)
  have o: "pmm_owned s1 = insert f (pmm_owned s)" using got(1) by (simp add: s1_def pmm_upd_owned)
  have "pmm_ok s1" using pmm_alloc_ok [OF pt_okD(1) [OF ok] al nz] by simp
  then have "pt_ok s1" using ok o unfolding pt_ok_def p q o by auto
  moreover have "pmm_cnt s1 = (pmm_cnt s)(f := 1)" by (auto simp: s1_def pmm_cnt_def)
  moreover have "pmm_refs s1 g = pmm_refs s g" if "g \<notin> pmm_owned s1 - pmm_owned s" for g
    using that o fr by (auto simp: s1_def)
  then have "grows s s1" using o p q by (simp add: grows_def subset_insertI)
  ultimately show ?thesis using al lt got(3) fr pt_okD(9) [OF ok fr] p q o by auto
qed (use free in simp)

lemma set_frame_ok:
  fixes s :: "'a mm_scheme" and c :: "nat \<Rightarrow> u32"
  assumes ok: "pt_ok s" and f: "g \<notin> pt_frames s"
  defines "s' \<equiv> s\<lparr>frames := (frames s)(g := c)\<rparr>"
  shows "pt_ok s'" "pages s' = pages s" "pt_frames s' = pt_frames s" "pmm_owned s' = pmm_owned s" "pmm_range s' = pmm_range s"
    "has_tbl s' = has_tbl s" "tbl s' = tbl s"
proof -
  have nd: "pfn (dir_base s) \<noteq> g" "\<And>di. has_tbl s di \<Longrightarrow> tbl s di \<noteq> g"
    using f unfolding pt_frames_def by (metis insertI1, metis imageI insertI2 mem_Collect_eq)
  then have d: "page_dir s' = page_dir s" by (auto simp: page_dir_def s'_def fun_eq_iff)
  then show h: "has_tbl s' = has_tbl s" by (auto simp: has_tbl_def fun_eq_iff)
  from d show t: "tbl s' = tbl s" by (auto simp: tbl_def fun_eq_iff)
  have c: "cr3 s' = dir_base s'" using pt_okD(3) [OF ok] by (simp add: s'_def)
  show p: "pages s' = pages s"
  proof
    fix n show "pages s' n = pages s n"
    proof (cases "n < 1048576")
      case True
      then show ?thesis using nd by (auto simp: pages_tbl [OF c True] pages_tbl [OF pt_okD(3) [OF ok] True] h t) (auto simp: s'_def)
    qed (simp add: pages_def)
  qed
  have "same_pmm s s'" by (simp add: same_pmm_def s'_def)
  note sp = same_pmmD [OF this]
  show pf: "pt_frames s' = pt_frames s" by (simp add: pt_frames_def h t) (simp add: s'_def)
  show "pmm_owned s' = pmm_owned s" "pmm_range s' = pmm_range s" using sp by simp_all
  show "pt_ok s'" using ok sp unfolding pt_ok_def by (simp add: p h t pf) (simp add: s'_def)
qed

lemma zero_data_ok:
  assumes ok: "pt_ok s" and e: "pages s (pfn v) = Some e" and f: "pfn e \<notin> pt_frames s"
  shows "\<exists>s'. zero_page v s = Some s' \<and> pt_ok s' \<and> pages s' = pages s \<and> pt_frames s' = pt_frames s \<and> pmm_owned s' = pmm_owned s
     \<and> pmm_range s' = pmm_range s \<and> frames s' = (frames s)(pfn e := (\<lambda>_. 0)) \<and> vregions s' = vregions s \<and> vmalloc_ptr s' = vmalloc_ptr s
     \<and> pmm_refs s' = pmm_refs s"
proof -
  have "page_frame s v = Some (pfn e)" using pt_okD(2) [OF ok] e by (simp add: page_frame_def walk_pages)
  then show ?thesis using set_frame_ok [OF ok f, of "\<lambda>_. 0"] by (simp add: zero_page_def)
qed

definition free_frames :: "'a mm_scheme \<Rightarrow> nat" where
  "free_frames s = card (pmm_range s - pmm_owned s)"

text \<open>\<open>fresh_page s s' n\<close>: page \<open>n\<close> is now mapped to a frame of its own, all zero, that was free before.\<close>

definition fresh_page :: "'a mm_scheme \<Rightarrow> 'a mm_scheme \<Rightarrow> nat \<Rightarrow> bool" where
  "fresh_page s s' n \<longleftrightarrow> (\<exists>e. pages s' n = Some e \<and> pfn e \<in> pmm_owned s' - pmm_owned s - pt_frames s' \<and> frames s' (pfn e) = (\<lambda>_. 0)
     \<and> pmm_cnt s' (pfn e) = 1)"

lemma free_frames_pos: "0 < free_frames s \<Longrightarrow> pmm_owned s \<noteq> pmm_range s"
  by (auto simp: free_frames_def)

lemma pfn_entry: "f < 4096 \<Longrightarrow> pfn (((of_nat f * 4096) AND NOT 0xFFF) OR PAGE_PRESENT OR PAGE_WRITE) = f"
  by (simp add: pfn_or3)

lemma demand_page:
  assumes ok: "pt_ok s" and fr: "2 \<le> free_frames s" and v: "4096 \<le> pfn v"
  shows "\<exists>a s1 s2 s3 e. pmm_alloc s = (a, s1) \<and> a \<noteq> 0 \<and> paging_map v a PAGE_WRITE s1 = Some s2 \<and> zero_page v s2 = Some s3
     \<and> pt_ok s3 \<and> pages s3 = (pages s)(pfn v \<mapsto> e) \<and> fresh_page s s3 (pfn v) \<and> grows s s3
     \<and> free_frames s \<le> free_frames s3 + 2"
proof -
  from pt_ok_alloc [OF ok free_frames_pos] fr obtain f s1 where
    f: "pmm_alloc s = (of_nat f * 4096, s1)" "f < 4096" "f \<noteq> 0" "f \<in> pmm_range s - pmm_owned s - pt_frames s" "pt_ok s1"
      "pages s1 = pages s" "pt_frames s1 = pt_frames s" "pmm_owned s1 = insert f (pmm_owned s)" "grows s s1" "pmm_cnt s1 = (pmm_cnt s)(f := 1)" by auto
  have nz: "(of_nat f * 4096 :: u32) \<noteq> 0"
    using f(2,3) by (simp add: word_unat_eq_iff unat_word_ariths unat_of_nat take_bit_eq_mod)
  have r1: "pmm_range s1 = pmm_range s" using f(9) by (simp add: grows_def)
  have c1: "card (pmm_range s - pmm_owned s1) = free_frames s - 1"
  proof -
    have "pmm_range s - pmm_owned s1 = (pmm_range s - pmm_owned s) - {f}" unfolding f(8) by auto
    then show ?thesis using f(4) by (simp add: free_frames_def)
  qed
  then have "pmm_owned s1 \<noteq> pmm_range s1" using fr r1 by auto
  then have "can_map s1 v" by (simp add: can_map_def)
  from paging_map_ok [OF f(5) this v, of "of_nat f * 4096" PAGE_WRITE] obtain s2 h where
    s2: "paging_map v (of_nat f * 4096) PAGE_WRITE s1 = Some s2" "pt_ok s2"
      "pages s2 = (pages s)(pfn v \<mapsto> ((of_nat f * 4096) AND NOT 0xFFF) OR PAGE_PRESENT OR PAGE_WRITE)"
      "data_kept s1 s2" "pmm_owned s2 \<subseteq> insert h (pmm_owned s1)" unfolding f(6) by blast
  have np: "f \<notin> pt_frames s2" using s2(4) f(4,7,8) by (auto simp: data_kept_def)
  let ?e = "((of_nat f * 4096) AND NOT 0xFFF) OR PAGE_PRESENT OR PAGE_WRITE"
  have pe: "pfn ?e = f" by (rule pfn_entry [OF f(2)])
  have "pages s2 (pfn v) = Some ?e" using s2(3) by simp
  from zero_data_ok [OF s2(2) this] np pe obtain s3 where
    s3: "zero_page v s2 = Some s3" "pt_ok s3" "pages s3 = pages s2" "pt_frames s3 = pt_frames s2" "pmm_owned s3 = pmm_owned s2"
      "pmm_range s3 = pmm_range s2" "frames s3 = (frames s2)(f := (\<lambda>_. 0))" "vregions s3 = vregions s2" "vmalloc_ptr s3 = vmalloc_ptr s2"
      "pmm_refs s3 = pmm_refs s2" by auto
  have "frames s3 g = frames s1 g" if "g \<in> pmm_owned s - pt_frames s" for g
    using that f(4,7,8) s2(4) np by (auto simp: s3(7) data_kept_def)
  moreover have refs: "pmm_refs s3 g = pmm_refs s g" if g: "g \<notin> pmm_owned s3 - pmm_owned s" for g
  proof -
    have sub: "pmm_owned s1 \<subseteq> pmm_owned s2" using s2(4) by (simp add: data_kept_def)
    have "pmm_refs s2 g = pmm_refs s1 g" using s2(4) g sub f(8) unfolding data_kept_def s3(5) by blast
    moreover have "pmm_refs s1 g = pmm_refs s g" using f(9) g sub f(8) unfolding grows_def s3(5) by blast
    ultimately show ?thesis by (simp add: s3)
  qed
  ultimately have "grows s s3" using f(7,8,9) s2(4) by (simp add: grows_def data_kept_def s3) blast
  moreover have "pmm_refs s2 f = pmm_refs s1 f" using s2(4) f(8) by (auto simp: data_kept_def)
  then have "pmm_cnt s3 f = 1" using fun_cong [OF f(10), of f] by (simp add: pmm_cnt_def s3)
  then have "fresh_page s s3 (pfn v)"
    using f(4,8) s2(3,4) np pe by (auto simp: fresh_page_def s3 data_kept_def)
  moreover have "free_frames s \<le> free_frames s3 + 2"
  proof -
    have "pmm_range s - pmm_owned s1 - {h} \<subseteq> pmm_range s3 - pmm_owned s3"
      using s2(4,5) r1 by (auto simp: s3 data_kept_def)
    then have "card (pmm_range s - pmm_owned s1 - {h}) \<le> free_frames s3"
      unfolding free_frames_def by (intro card_mono) auto
    moreover have "card (pmm_range s - pmm_owned s1) - 1 \<le> card (pmm_range s - pmm_owned s1 - {h})"
      using card_Diff1_le [of "pmm_range s - pmm_owned s1" h] by (simp add: card_Diff_singleton_if)
    ultimately show ?thesis using c1 by simp
  qed
  ultimately show ?thesis using f(1) nz s2(1,3) s3(1-3) by metis
qed

lemma same_tables:
  assumes "frames s' = frames s" "dir_base s' = dir_base s" "cr3 s' = cr3 s" "paging_on s' = paging_on s" "same_pmm s s'"
  shows "pages s' = pages s" "has_tbl s' = has_tbl s" "tbl s' = tbl s" "pt_frames s' = pt_frames s"
    "pmm_owned s' = pmm_owned s" "pmm_range s' = pmm_range s" "pt_ok s' = pt_ok s"
proof -
  have d: "page_dir s' = page_dir s" using assms by (simp add: page_dir_def fun_eq_iff)
  show p: "pages s' = pages s" using assms by (simp add: pages_def fun_eq_iff)
  show h: "has_tbl s' = has_tbl s" and t: "tbl s' = tbl s" by (simp_all add: has_tbl_def tbl_def d fun_eq_iff)
  show f: "pt_frames s' = pt_frames s" using assms by (simp add: pt_frames_def h t)
  note sp = same_pmmD [OF assms(5)]
  then show "pmm_owned s' = pmm_owned s" "pmm_range s' = pmm_range s" by simp_all
  show "pt_ok s' = pt_ok s" unfolding pt_ok_def using assms sp by (simp add: p h t f)
qed

lemma fresh_page_later:
  assumes "fresh_page s s1 n" "grows s s1" "grows s1 s'" "pages s' n = pages s1 n"
  shows "fresh_page s s' n"
proof -
  from assms(1) obtain e where e: "pages s1 n = Some e" "pfn e \<in> pmm_owned s1 - pmm_owned s - pt_frames s1" "frames s1 (pfn e) = (\<lambda>_. 0)"
      "pmm_cnt s1 (pfn e) = 1"
    by (auto simp: fresh_page_def)
  moreover from e(2) assms(3) have "pmm_refs s' (pfn e) = pmm_refs s1 (pfn e)" unfolding grows_def by blast
  then have "pmm_cnt s' (pfn e) = 1" using e(4) by (simp add: pmm_cnt_def)
  moreover from e assms(3) have "frames s' (pfn e) = (\<lambda>_. 0)" "pfn e \<in> pmm_owned s' - pmm_owned s - pt_frames s'"
    unfolding grows_def by auto
  ultimately show ?thesis using assms(4) by (auto simp: fresh_page_def)
qed

lemma fresh_page_since: "fresh_page s1 s' n \<Longrightarrow> pmm_owned s \<subseteq> pmm_owned s1 \<Longrightarrow> fresh_page s s' n"
  unfolding fresh_page_def by blast

lemma page_addr: "n < 1048576 \<Longrightarrow> unat (of_nat n * 4096 :: u32) = n * 4096"
  by (simp add: unat_word_ariths unat_of_nat take_bit_eq_mod)

lemma vmalloc_loop_ok:
  assumes "pt_ok s" "2 * (N - k) \<le> free_frames s" "k \<le> N" "4096 \<le> P" "P + N < 1048576"
  shows "\<exists>s'. vmalloc_loop (of_nat P * 4096) (of_nat N * 4096) (of_nat k * 4096) s = Some (True, s') \<and> pt_ok s' \<and> grows s s'
     \<and> (\<forall>n. n \<notin> {P + k..<P + N} \<longrightarrow> pages s' n = pages s n) \<and> (\<forall>n \<in> {P + k..<P + N}. fresh_page s s' n)
     \<and> inj_on (\<lambda>n. pfn (the (pages s' n))) {P + k..<P + N}"
  using assms(1-3)
proof (induction "N - k" arbitrary: k s)
  case 0
  then have "k = N" by simp
  with 0 show ?case by (subst vmalloc_loop.simps) (simp add: grows_refl)
next
  case (Suc d)
  have lt: "(of_nat k * 4096 :: u32) < of_nat N * 4096"
    using Suc.hyps(2) assms(4,5) by (simp add: word_less_nat_alt page_addr)
  have v: "(of_nat P * 4096 + of_nat k * 4096 :: u32) = of_nat (P + k) * 4096" by (simp add: algebra_simps)
  have pv: "pfn (of_nat P * 4096 + of_nat k * 4096) = P + k"
    unfolding v using Suc.hyps(2) assms(5) by (intro pfn_of_frame) simp
  from demand_page [OF Suc.prems(1), of "of_nat P * 4096 + of_nat k * 4096"] Suc.prems(2) Suc.hyps(2) assms(4) pv
  obtain a s1 s2 s3 e where
    st: "pmm_alloc s = (a, s1)" "a \<noteq> 0" "paging_map (of_nat P * 4096 + of_nat k * 4096) a PAGE_WRITE s1 = Some s2"
      "zero_page (of_nat P * 4096 + of_nat k * 4096) s2 = Some s3" "pt_ok s3" "pages s3 = (pages s)(P + k \<mapsto> e)"
      "fresh_page s s3 (P + k)" "grows s s3" "free_frames s \<le> free_frames s3 + 2" by auto
  have "d = N - Suc k" "2 * (N - Suc k) \<le> free_frames s3" "Suc k \<le> N"
    using Suc.hyps(2) Suc.prems(2) st(9) by simp_all
  from Suc.hyps(1) [OF this(1) st(5) this(2,3)] obtain s' where
    s': "vmalloc_loop (of_nat P * 4096) (of_nat N * 4096) (of_nat (Suc k) * 4096) s3 = Some (True, s')" "pt_ok s'" "grows s3 s'"
      "\<And>n. n \<notin> {P + Suc k..<P + N} \<Longrightarrow> pages s' n = pages s3 n" "\<And>n. n \<in> {P + Suc k..<P + N} \<Longrightarrow> fresh_page s3 s' n"
      "inj_on (\<lambda>n. pfn (the (pages s' n))) {P + Suc k..<P + N}" by blast
  have next_off: "(of_nat k * 4096 + PAGE_SIZE :: u32) = of_nat (Suc k) * 4096" by (simp add: PAGE_SIZE_def algebra_simps)
  have run: "vmalloc_loop (of_nat P * 4096) (of_nat N * 4096) (of_nat k * 4096) s = Some (True, s')"
    using lt st(1-4) s'(1) by (subst vmalloc_loop.simps) (simp add: next_off)
  have split: "{P + k..<P + N} = insert (P + k) {P + Suc k..<P + N}" using Suc.hyps(2) by auto
  have pk: "pages s' (P + k) = pages s3 (P + k)" using s'(4) by simp
  have fresh: "fresh_page s s' n" if "n \<in> {P + k..<P + N}" for n
    using that fresh_page_later [OF st(7,8) s'(3) pk] fresh_page_since [OF s'(5)] st(8) unfolding split grows_def by blast
  have inj: "pfn (the (pages s' n)) \<noteq> pfn (the (pages s' (P + k)))" if "n \<in> {P + Suc k..<P + N}" for n
    using s'(5) [OF that] st(7) unfolding fresh_page_def pk by auto
  have "inj_on (\<lambda>n. pfn (the (pages s' n))) {P + k..<P + N}"
    unfolding split using s'(6) inj by (auto simp: inj_on_insert) (metis atLeastLessThan_iff inj)
  moreover have "\<forall>n. n \<notin> {P + k..<P + N} \<longrightarrow> pages s' n = pages s n"
    using s'(4) st(6) by (auto simp: split)
  ultimately show ?case using run s'(2) grows_trans [OF st(8) s'(3)] fresh by blast
qed

lemma PAGE_ALIGN_val:
  assumes "unat sz + 4095 < 2 ^ 32"
  shows "PAGE_ALIGN sz = of_nat ((unat sz + 4095) div 4096) * 4096"
proof -
  have "unat (sz + 4095) = unat sz + 4095" using assms by (simp add: unat_word_ariths)
  then have "pfn (sz + 4095) = (unat sz + 4095) div 4096" by (simp add: pfn_div)
  moreover have "PAGE_ALIGN sz = ((sz + 4095) AND NOT 0xFFF)" by (simp add: PAGE_ALIGN_def PAGE_SIZE_def add.commute)
  ultimately show ?thesis by (simp only: mask_frame)
qed

text \<open>
  \<^verbatim>\<open>vmalloc\<close> with enough free frames (one per page and one table for each, at most): it returns the
  next address of its region, every page of the block is mapped to a zeroed frame of its own that was free before,
  no other mapping changes, and the contents of all other frames in use are kept.
\<close>

theorem vmalloc_spec:
  assumes "pt_ok s" "vmalloc_ptr s = of_nat P * 4096" "4096 \<le> P" "sz \<noteq> 0" "unat sz + 4095 < 2 ^ 32"
    and N: "N = (unat sz + 4095) div 4096" and "P + N < 8192" "2 * N \<le> free_frames s" "length (vregions s) < 64"
  shows "\<exists>s'. vmalloc sz s = Some (vmalloc_ptr s, s') \<and> pt_ok s' \<and> vmalloc_ptr s' = of_nat (P + N) * 4096
     \<and> (\<forall>n \<in> {P..<P + N}. fresh_page s s' n) \<and> inj_on (\<lambda>n. pfn (the (pages s' n))) {P..<P + N}
     \<and> (\<forall>n. n \<notin> {P..<P + N} \<longrightarrow> pages s' n = pages s n)
     \<and> (\<forall>g \<in> pmm_owned s - pt_frames s. frames s' g = frames s g)"
proof -
  from vmalloc_loop_ok [of s N 0 P] assms obtain s1 where
    s1: "vmalloc_loop (of_nat P * 4096) (of_nat N * 4096) 0 s = Some (True, s1)" "pt_ok s1" "grows s s1"
      "\<forall>n. n \<notin> {P..<P + N} \<longrightarrow> pages s1 n = pages s n" "\<forall>n \<in> {P..<P + N}. fresh_page s s1 n"
      "inj_on (\<lambda>n. pfn (the (pages s1 n))) {P..<P + N}" by auto
  have al: "PAGE_ALIGN sz = of_nat N * 4096" using PAGE_ALIGN_val [OF assms(5)] N by simp
  have a: "(of_nat P * 4096 + of_nat N * 4096 :: u32) = of_nat (P + N) * 4096" by (simp add: algebra_simps)
  have "\<not> (of_nat P * 4096 + of_nat N * 4096 :: u32) \<ge> 0x02000000"
    unfolding a using assms(7) by (simp add: word_le_nat_alt page_addr del: of_nat_add)
  define s' where "s' = s1\<lparr>vregions := vregions s1 @ [\<lparr>virt_start = vmalloc_ptr s, vr_size = of_nat N * 4096, active = True\<rparr>],
     vmalloc_ptr := vmalloc_ptr s1 + of_nat N * 4096\<rparr>"
  with s1 assms(2,4,9) al \<open>\<not> _ \<ge> _\<close> have run: "vmalloc sz s = Some (vmalloc_ptr s, s')"
    by (simp add: vmalloc_def Let_def paging_consts)
  have same: "pages s' = pages s1" "frames s' = frames s1" "pt_frames s' = pt_frames s1" "pmm_owned s' = pmm_owned s1" "pt_ok s' = pt_ok s1" "pmm_cnt s' = pmm_cnt s1"
    using same_tables [of s' s1] by (simp_all add: s'_def same_pmm_def pmm_cnt_def [abs_def])
  have "vmalloc_ptr s' = of_nat (P + N) * 4096" using s1(3) assms(2) by (simp add: s'_def grows_def algebra_simps)
  with run s1 same show ?thesis by (auto simp: fresh_page_def grows_def)
qed

lemma vmalloc_spec_witness:
  "\<exists>s'. vmalloc 5000 (paging_init 8192 mm0) = Some (0x1000000, s') \<and> pt_ok s' \<and> vmalloc_ptr s' = 0x1002000"
proof -
  note i = paging_init_ok [OF mm0_layout, of 8192]
  have v: "vmalloc_ptr (paging_init 8192 mm0) = 0x1000000" "vregions (paging_init 8192 mm0) = []"
    by (simp_all add: paging_init_keeps) (simp_all add: mm0_def VMALLOC_BASE_def)
  have "free_frames (paging_init 8192 mm0) = 768"
  proof -
    have "{256..<2048} - {256..<1280} = {1280..<2048::nat}" by auto
    then show ?thesis by (simp add: free_frames_def i)
  qed
  then have fr: "2 * 2 \<le> free_frames (paging_init 8192 mm0)" by simp
  have vp: "vmalloc_ptr (paging_init 8192 mm0) = of_nat 4096 * 4096" "length (vregions (paging_init 8192 mm0)) < 64"
    "pt_ok (paging_init 8192 mm0)" using v i(1) by simp_all
  have n: "(5000 :: u32) \<noteq> 0" "unat (5000 :: u32) + 4095 < 2 ^ 32" "2 = (unat (5000 :: u32) + 4095) div 4096" by simp_all
  have p: "4096 \<le> (4096 :: nat)" "4096 + 2 < (8192 :: nat)" by simp_all
  from vmalloc_spec [OF vp(3,1) p(1) n p(2) fr vp(2)]
  obtain s' where "vmalloc 5000 (paging_init 8192 mm0) = Some (vmalloc_ptr (paging_init 8192 mm0), s')" "pt_ok s'"
      "vmalloc_ptr s' = of_nat (4096 + 2) * 4096" by blast
  then show ?thesis using v(1) by simp
qed

text \<open>
  A size above \<open>0xFFFFF000\<close> wraps to zero when it is rounded up: \<^verbatim>\<open>vmalloc\<close> then returns an address without mapping
  any page there.
\<close>

lemma vmalloc_wraps:
  assumes "0xFFFFF000 < sz" "length (vregions s) < 64" "vmalloc_ptr s < 0x02000000"
  shows "\<exists>s'. vmalloc sz s = Some (vmalloc_ptr s, s') \<and> pages s' = pages s \<and> vmalloc_ptr s' = vmalloc_ptr s"
proof -
  have "unat (sz + 4095) = (unat sz + 4095) mod 2 ^ 32" by (simp add: unat_word_ariths)
  also have "\<dots> = unat sz + 4095 - 2 ^ 32"
    using assms(1) unat_u32_lt [of sz] by (simp add: word_less_nat_alt mod_if)
  finally have "unat (sz + 4095) < 4096" using unat_u32_lt [of sz] by simp
  then have "pfn (sz + 4095) = 0" by (simp add: pfn_div)
  then have "((sz + 4095) AND NOT 0xFFF) = 0" by (simp only: mask_frame) simp
  moreover have "PAGE_ALIGN sz = ((sz + 4095) AND NOT 0xFFF)" by (simp add: PAGE_ALIGN_def PAGE_SIZE_def add.commute)
  ultimately have "PAGE_ALIGN sz = 0" by simp
  moreover have "sz \<noteq> 0" using assms(1) by auto
  moreover have "vmalloc_loop (vmalloc_ptr s) 0 0 s = Some (True, s)" by (subst vmalloc_loop.simps) simp
  ultimately have "vmalloc sz s = Some (vmalloc_ptr s,
      s\<lparr>vregions := vregions s @ [\<lparr>virt_start = vmalloc_ptr s, vr_size = 0, active = True\<rparr>]\<rparr>)"
    using assms(2) assms(3) [unfolded not_le [symmetric]] by (simp add: vmalloc_def Let_def paging_consts)
  then show ?thesis using same_tables(1) [of "s\<lparr>vregions := _\<rparr>" s] by (simp add: same_pmm_def)
qed

section \<open>The page heap\<close>

text \<open>The whole heap range lies in the 16 MB that are mapped one to one, so growing it never takes a frame.\<close>

lemma grow_loop_identity:
  assumes ok: "pt_ok s" and m: "m \<le> 4096"
  shows "k \<le> m \<Longrightarrow> grow_loop (of_nat m * 4096) (of_nat k * 4096) s = Some (True, s)"
proof (induction "m - k" arbitrary: k)
  case 0
  then show ?case by (subst grow_loop.simps) simp
next
  case (Suc d)
  then have lt: "k < m" by simp
  have p: "pfn (of_nat k * 4096) = k" using lt m by (intro pfn_of_frame) simp
  have mp: "paging_is_mapped (of_nat k * 4096) s = Some True"
    using pt_okD(5) [OF ok, of k] lt m by (auto simp: paging_is_mapped_def pte_val_pages [OF ok] p)
  have less: "(of_nat k * 4096 :: u32) < of_nat m * 4096" using lt m by (simp add: word_less_nat_alt page_addr)
  have nx: "(of_nat k * 4096 + PAGE_SIZE :: u32) = of_nat (Suc k) * 4096" by (simp add: PAGE_SIZE_def algebra_simps)
  have "grow_loop (of_nat m * 4096) (of_nat (Suc k) * 4096) s = Some (True, s)"
    using Suc.hyps(1) [of "Suc k"] Suc.hyps(2) lt by simp
  with mp less show ?case by (subst grow_loop.simps) (simp add: nx)
qed

text \<open>
  C16. The page heap hands out memory that the frame allocator also hands out: after boot a block of 4 MB starts at
  \<open>0x200000\<close> without a frame being taken, and the next \<^verbatim>\<open>pmm_alloc\<close> returns \<open>0x500000\<close>, inside the block.
\<close>

theorem heap_overlaps_frames:
  assumes kl: "kernel_layout D T s" and kb: "5124 \<le> unat kb" "unat kb \<le> 16384"
  defines "s0 \<equiv> heap_init (paging_init kb s)"
  shows "\<exists>s1. heap_alloc 0x400000 s0 = Some (0x200000, s1) \<and> pmm_owned s1 = pmm_owned s0 \<and> fst (pmm_alloc s1) = 0x500000"
proof -
  have kb': "5120 \<le> unat kb" using kb(1) by simp
  note i = paging_init_ok [OF kl kb' kb(2)]
  note st = same_tables [of s0 "paging_init kb s"]
  have ok: "pt_ok s0" and o: "pmm_owned s0 = {256..<1280}" and r: "pmm_range s0 = {256..<256 + (unat kb - 1024) div 4}"
    using st i by (simp_all add: s0_def heap_init_def same_pmm_def)
  have h: "hblocks s0 = []" "heap_brk_ptr s0 = 0x200000" by (simp_all add: s0_def heap_init_def HEAP_VIRT_BASE_def)
  have "grow_loop (of_nat 1536 * 4096) (of_nat 512 * 4096) s0 = Some (True, s0)"
    by (rule grow_loop_identity [OF ok]) simp_all
  moreover have "PAGE_ALIGN 0x600000 = 0x600000" "PAGE_ALIGN 0x200000 = 0x200000"
    by (simp_all add: PAGE_ALIGN_val)
  ultimately have g: "heap_grow 0x400000 s0 = Some (True, s0\<lparr>heap_brk_ptr := 0x600000\<rparr>)"
    by (simp add: heap_grow_def Let_def h HEAP_VIRT_MAX_def)
  define s1 where "s1 = s0\<lparr>heap_brk_ptr := 0x600000,
     hblocks := [\<lparr>hb_addr = 0x200000, hb_size = 0x400000, hb_used = True\<rparr>], heap_bytes_used := heap_bytes_used s0 + 0x400000\<rparr>"
  have run: "heap_alloc 0x400000 s0 = Some (0x200000, s1)"
    by (simp add: heap_alloc_def Let_def h g first_idx_def HEAP_MAX_BLOCKS_def s1_def)
  note st1 = same_tables [of s1 s0]
  have ok1: "pt_ok s1" and o1: "pmm_owned s1 = {256..<1280}" and r1: "pmm_range s1 = {256..<256 + (unat kb - 1024) div 4}"
    using st1 ok o r by (simp_all add: s1_def same_pmm_def)
  have base: "unat (pmm_base_frame s1) = 256" "unat (pmm_base_frame s1) + unat (pmm_total_frames s1) = 256 + (unat kb - 1024) div 4"
  proof -
    let ?a = "unat (pmm_base_frame s1)" and ?b = "unat (pmm_base_frame s1) + unat (pmm_total_frames s1)"
    have eq: "{?a..<?b} = {256..<256 + (unat kb - 1024) div 4}" using r1 by (simp add: pmm_range_def)
    moreover have ne: "256 < 256 + (unat kb - 1024) div 4" using kb(1) by simp
    ultimately have "?a < ?b" by (metis atLeastLessThan_empty atLeastLessThan_empty_iff2 not_less)
    from atLeastLessThan_inj [OF eq this ne] show "?a = 256" "?b = 256 + (unat kb - 1024) div 4" by simp_all
  qed
  have refs: "pmm_refs s1 n = 0 \<longleftrightarrow> 1280 \<le> n" if "256 \<le> n" "n < 256 + (unat kb - 1024) div 4" for n
  proof -
    have "n \<in> pmm_range s1" using that r1 by simp
    then have "n \<in> pmm_owned s1 \<longleftrightarrow> pmm_refs s1 n \<noteq> 0" by (simp add: pmm_owned_def)
    moreover have "n \<in> pmm_owned s1 \<longleftrightarrow> n < 1280" using that o1 by simp
    ultimately show ?thesis by linarith
  qed
  have hi: "min (unat (pmm_base_frame s1 + pmm_total_frames s1)) 65536 = 256 + (unat kb - 1024) div 4"
    using base kb(2) by (simp add: unat_word_ariths)
  have "first_idx (\<lambda>i. pmm_refs s1 i = 0) 256 (256 + (unat kb - 1024) div 4) = Some 1280"
    by (rule first_idx_eqI) (use refs kb in auto)
  then have "fst (pmm_alloc s1) = 0x500000"
    by (simp add: pmm_alloc_def page_consts hi base)
  with run o o1 show ?thesis by auto
qed

lemma heap_overlaps_frames_witness:
  "\<exists>s1. heap_alloc 0x400000 (heap_init (paging_init 8192 mm0)) = Some (0x200000, s1) \<and> fst (pmm_alloc s1) = 0x500000"
  using heap_overlaps_frames [OF mm0_layout, of 8192] by auto

end
