(* ===== verification/Serial.thy ===== *)
theory Serial
  imports Dmesg Ports
begin

text \<open>
  The serial line, \<^verbatim>\<open>src/serial.c\<close>: the UART driver, its formatted output, \<^verbatim>\<open>klog\<close>, which prints to
  the screen and the line, and the hex dump. The UART is behind the ports; the state of the driver is \<^verbatim>\<open>com1_ready\<close>.
\<close>

section \<open>The driver\<close>

definition COM1 :: u16 where "COM1 = 0x3F8"
definition UART_DATA :: u16 where "UART_DATA = 0"
definition UART_IER :: u16 where "UART_IER = 1"
definition UART_FCR :: u16 where "UART_FCR = 2"
definition UART_LCR :: u16 where "UART_LCR = 3"
definition UART_MCR :: u16 where "UART_MCR = 4"
definition UART_LSR :: u16 where "UART_LSR = 5"
definition LSR_DR :: u8 where "LSR_DR = 0x01"
definition LSR_THRE :: u8 where "LSR_THRE = 0x20"

lemmas uart_consts = COM1_def UART_DATA_def UART_IER_def UART_FCR_def UART_LCR_def UART_MCR_def UART_LSR_def LSR_DR_def LSR_THRE_def

fun wait_dr :: "nat \<Rightarrow> 'w ports \<Rightarrow> u16 \<Rightarrow> 'w \<Rightarrow> 'w" where
  "wait_dr 0 io port w = w"
| "wait_dr (Suc n) io port w =
     (case inb io (port + UART_LSR) w of (st, w1) \<Rightarrow> if tst st LSR_DR then w1 else wait_dr n io port w1)"

definition serial_init :: "'w ports \<Rightarrow> u16 \<Rightarrow> bool \<times> 'w \<Rightarrow> int \<times> bool \<times> 'w" where
  "serial_init io port = (\<lambda>(com1_ready, w).
     (let w1 = outs io [(port + UART_IER, 0x00), (port + UART_LCR, 0x80), (port + UART_DATA, 0x01), (port + UART_IER, 0x00),
                        (port + UART_LCR, 0x03 OR 0x00 OR 0x00), (port + UART_FCR, 0x01 OR 0x02 OR 0x04 OR 0xC0),
                        (port + UART_MCR, 0x0B), (port + UART_MCR, 0x1E), (port + UART_DATA, 0xAE)] w;
          w2 = wait_dr 10000 io port w1
      in case inb io (port + UART_DATA) w2 of (d, w3) \<Rightarrow>
           let w4 = outb io (port + UART_MCR) 0x0F w3
           in if d \<noteq> 0xAE then (-1, com1_ready, w4) else (0, com1_ready \<or> port = COM1, w4)))"

fun wait_thre :: "nat \<Rightarrow> 'w ports \<Rightarrow> u16 \<Rightarrow> 'w \<Rightarrow> 'w" where
  "wait_thre 0 io port w = w"
| "wait_thre (Suc n) io port w =
     (case inb io (port + UART_LSR) w of (st, w1) \<Rightarrow> if tst st LSR_THRE then w1 else wait_thre n io port w1)"

definition serial_putchar :: "'w ports \<Rightarrow> u16 \<Rightarrow> u8 \<Rightarrow> 'w \<Rightarrow> 'w" where
  "serial_putchar io port c w =
     (let w1 = wait_thre 100000 io port w;
          w2 = (if c = 10 then wait_thre 100000 io port (outb io (port + UART_DATA) 13 w1) else w1)
      in outb io (port + UART_DATA) c w2)"

fun serial_puts :: "'w ports \<Rightarrow> u16 \<Rightarrow> bytes \<Rightarrow> 'w \<Rightarrow> 'w option" where
  "serial_puts io port [] w = None"
| "serial_puts io port (c # s) w = (if c = 0 then Some w else serial_puts io port s (serial_putchar io port c w))"

definition serial_write :: "'w ports \<Rightarrow> u16 \<Rightarrow> bytes \<Rightarrow> u32 \<Rightarrow> 'w \<Rightarrow> 'w option" where
  "serial_write io port buf len w =
     (if unat len \<le> length buf then Some (fold (serial_putchar io port) (take (unat len) buf) w) else None)"

definition serial_has_data :: "'w ports \<Rightarrow> u16 \<Rightarrow> 'w \<Rightarrow> bool \<times> 'w" where
  "serial_has_data io port w = (case inb io (port + UART_LSR) w of (st, w1) \<Rightarrow> (tst st LSR_DR, w1))"

definition serial_getchar :: "'w ports \<Rightarrow> u16 \<Rightarrow> 'w \<Rightarrow> u8 \<times> 'w" where
  "serial_getchar io port w =
     (case serial_has_data io port w of (b, w1) \<Rightarrow> if b then inb io (port + UART_DATA) w1 else (0, w1))"

definition serial_ready :: "bool \<times> 'w \<Rightarrow> bool" where "serial_ready s = fst s"

section \<open>Formatted output\<close>

definition serial_put_dec :: "'w ports \<Rightarrow> u16 \<Rightarrow> u32 \<Rightarrow> 'w \<Rightarrow> 'w option" where
  "serial_put_dec io port n w =
     (if n = 0 then Some (serial_putchar io port 48 w)
      else do { ds \<leftarrow> put_digits dec_dig 10 11 n; serial_puts io port (ds @ [0]) w })"

definition hex8 :: "u32 \<Rightarrow> bytes" where
  "hex8 n = map (\<lambda>i. hexu_dig (drop_bit i n)) [28, 24, 20, 16, 12, 8, 4, 0]"

definition serial_put_hex :: "'w ports \<Rightarrow> u16 \<Rightarrow> u32 \<Rightarrow> 'w \<Rightarrow> 'w option" where
  "serial_put_hex io port n w = do {
     w1 \<leftarrow> serial_puts io port (lit ''0x'') w;
     Some (fold (serial_putchar io port) (hex8 n) w1) }"

text \<open>One conversion: the character after the percent sign, the arguments, and what is left of them.\<close>

definition printf_conv :: "'w ports \<Rightarrow> u8 \<Rightarrow> fmt_arg list \<Rightarrow> 'w \<Rightarrow> ('w \<times> fmt_arg list) option" where
  "printf_conv io k args w =
     (if k = of_char CHR ''s'' then
        (case args of FStr s # as \<Rightarrow>
           do { w1 \<leftarrow> serial_puts io COM1 (case s of None \<Rightarrow> lit ''(null)'' | Some b \<Rightarrow> b) w; Some (w1, as) }
         | _ \<Rightarrow> None)
      else if k = of_char CHR ''d'' then
        (case args of FInt d # as \<Rightarrow>
           if d = - (2 ^ 31) then None
           else do { w1 \<leftarrow> serial_put_dec io COM1 (of_int \<bar>d\<bar>)
                            (if d < 0 then serial_putchar io COM1 (of_char CHR ''-'') w else w);
                     Some (w1, as) }
         | _ \<Rightarrow> None)
      else if k = of_char CHR ''u'' then
        (case args of FUInt u # as \<Rightarrow> do { w1 \<leftarrow> serial_put_dec io COM1 u w; Some (w1, as) } | _ \<Rightarrow> None)
      else if k = of_char CHR ''x'' then
        (case args of FUInt u # as \<Rightarrow> do { w1 \<leftarrow> serial_put_hex io COM1 u w; Some (w1, as) } | _ \<Rightarrow> None)
      else if k = of_char CHR ''c'' then
        (case args of FInt i # as \<Rightarrow> Some (serial_putchar io COM1 (of_int i) w, as) | _ \<Rightarrow> None)
      else if k = of_char CHR ''%'' then Some (serial_putchar io COM1 (of_char CHR ''%'') w, args)
      else Some (w, args))"

fun printf_loop :: "'w ports \<Rightarrow> bytes \<Rightarrow> fmt_arg list \<Rightarrow> 'w \<Rightarrow> 'w option" where
  "printf_loop io [] args w = None"
| "printf_loop io [c] args w = (if c = 0 then Some w else None)"
| "printf_loop io (c # k # fmt) args w =
     (if c = 0 then Some w
      else if c \<noteq> of_char CHR ''%'' then printf_loop io (k # fmt) args (serial_putchar io COM1 c w)
      else do { (w1, as) \<leftarrow> printf_conv io k args w; printf_loop io fmt as w1 })"

definition serial_printf :: "'w ports \<Rightarrow> bytes \<Rightarrow> fmt_arg list \<Rightarrow> bool \<times> 'w \<Rightarrow> (bool \<times> 'w) option" where
  "serial_printf io fmt args = (\<lambda>(com1_ready, w).
     if \<not> com1_ready then Some (com1_ready, w) else map_option (Pair com1_ready) (printf_loop io fmt args w))"

text \<open>\<^verbatim>\<open>klog\<close> formats into \<^verbatim>\<open>buf[512]\<close>; its digits stop at 510, a string too.\<close>

fun klog_str :: "bytes \<Rightarrow> bytes \<Rightarrow> bytes option" where
  "klog_str [] out = None"
| "klog_str (c # s) out = (if c \<noteq> 0 \<and> length out < 510 then klog_str s (out @ [c]) else Some out)"

definition klog_uint :: "u32 \<Rightarrow> bytes \<Rightarrow> bytes option" where
  "klog_uint u out =
     (if u = 0 then emit 512 [48] out
      else do { ds \<leftarrow> put_digits dec_dig 10 11 u; emit 512 (take (510 - length out) ds) out })"

definition klog_conv :: "u8 \<Rightarrow> fmt_arg list \<Rightarrow> bytes \<Rightarrow> (bytes \<times> fmt_arg list) option" where
  "klog_conv k args out =
     (if k = of_char CHR ''s'' then
        (case args of FStr s # as \<Rightarrow>
           do { o' \<leftarrow> klog_str (case s of None \<Rightarrow> lit ''(null)'' | Some b \<Rightarrow> b) out; Some (o', as) }
         | _ \<Rightarrow> None)
      else if k = of_char CHR ''d'' then
        (case args of FInt d # as \<Rightarrow>
           if d = - (2 ^ 31) then None
           else do { o1 \<leftarrow> (if d < 0 then emit 512 [of_char CHR ''-''] out else Some out);
                     o' \<leftarrow> klog_uint (of_int \<bar>d\<bar>) o1; Some (o', as) }
         | _ \<Rightarrow> None)
      else if k = of_char CHR ''u'' then
        (case args of FUInt u # as \<Rightarrow> do { o' \<leftarrow> klog_uint u out; Some (o', as) } | _ \<Rightarrow> None)
      else if k = of_char CHR ''x'' then
        (case args of FUInt u # as \<Rightarrow>
           do { o' \<leftarrow> (if length out + 10 < 510 then emit 512 (map of_char ''0x'' @ hex8 u) out else Some out); Some (o', as) }
         | _ \<Rightarrow> None)
      else if k = of_char CHR ''c'' then
        (case args of FInt i # as \<Rightarrow> do { o' \<leftarrow> emit 512 [of_int i] out; Some (o', as) } | _ \<Rightarrow> None)
      else if k = of_char CHR ''%'' then do { o' \<leftarrow> emit 512 [of_char CHR ''%''] out; Some (o', args) }
      else Some (out, args))"

fun klog_fmt :: "bytes \<Rightarrow> fmt_arg list \<Rightarrow> bytes \<Rightarrow> bytes option" where
  "klog_fmt [] args out = None"
| "klog_fmt [c] args out = (if c = 0 \<or> \<not> length out < 510 then Some out else None)"
| "klog_fmt (c # k # fmt) args out =
     (if c = 0 \<or> \<not> length out < 510 then Some out
      else if c \<noteq> of_char CHR ''%'' then do { o' \<leftarrow> emit 512 [c] out; klog_fmt (k # fmt) args o' }
      else do { (o', as) \<leftarrow> klog_conv k args out; klog_fmt fmt as o' })"

definition klog :: "'w ports \<Rightarrow> bytes \<Rightarrow> fmt_arg list \<Rightarrow> (bool \<times> 'w) \<times> vga \<Rightarrow> ((bool \<times> 'w) \<times> vga) option" where
  "klog io fmt args = (\<lambda>((com1_ready, w), v). do {
     out \<leftarrow> klog_fmt fmt args [];
     buf \<leftarrow> emit 512 [0] out;
     v1 \<leftarrow> vga_puts buf v;
     w1 \<leftarrow> (if com1_ready then serial_write io COM1 buf (of_nat (length out)) w else Some w);
     Some ((com1_ready, w1), v1) })"

text \<open>One line of the dump of the bytes \<open>p\<close> of the buffer from offset \<open>off\<close>; \<open>len\<close> is the
  length of the whole dump. The line is built in \<^verbatim>\<open>line[80]\<close>.\<close>

definition dump_line :: "u32 \<Rightarrow> bytes \<Rightarrow> u32 \<Rightarrow> bytes option" where
  "dump_line off p len =
     (let n = unat len - unat off;
          hexes = concat (map (\<lambda>j. (if j < n then [hexu_dig (ucast (drop_bit 4 (p ! (unat off + j)))), hexu_dig (ucast (p ! (unat off + j)))]
                                    else [32, 32]) @ [32] @ (if j = 7 then [32] else [])) [0..<16]);
          text = map (\<lambda>j. let c = p ! (unat off + j) in if c \<ge> 32 \<and> c < 127 then c else of_char CHR ''.'') [0..<min 16 n]
      in if length p < unat len then None
         else do {
           l \<leftarrow> emit 80 (map of_char ''0x'' @ hex8 off @ map of_char '': '' @ hexes @ map of_char '' |'' @ text @ [of_char CHR ''|'', 10, 0]) [];
           Some (butlast l) })"

partial_function (option) hexdump_loop :: "'w ports \<Rightarrow> u16 \<Rightarrow> bytes \<Rightarrow> u32 \<Rightarrow> u32 \<Rightarrow> 'w \<Rightarrow> 'w option" where
  "hexdump_loop io port p len off w =
     (if off < len then do {
        l \<leftarrow> dump_line off p len;
        w1 \<leftarrow> serial_write io port l (of_nat (length l)) w;
        hexdump_loop io port p len (off + 16) w1 }
      else Some w)"

definition serial_hexdump :: "'w ports \<Rightarrow> u16 \<Rightarrow> bytes \<Rightarrow> u32 \<Rightarrow> 'w \<Rightarrow> 'w option" where
  "serial_hexdump io port p len w = hexdump_loop io port p len 0 w"

section \<open>The line\<close>

text \<open>
  \<open>uart io port sent ok\<close>: the status register of the device can be read without losing anything, says after finitely
  many reads that a byte can be sent, and a byte written to the data register is appended to what went out.
\<close>

definition line_bytes :: "u8 \<Rightarrow> bytes" where
  "line_bytes c = (if c = 10 then [13, 10] else [c])"

locale uart =
  fixes io :: "'w ports" and port :: u16 and sent :: "'w \<Rightarrow> bytes" and ok :: "'w \<Rightarrow> bool"
  assumes status: "ok w \<Longrightarrow> ok (snd (inb io (port + UART_LSR) w)) \<and> sent (snd (inb io (port + UART_LSR) w)) = sent w"
    and data: "ok w \<Longrightarrow> ok (outb io (port + UART_DATA) c w) \<and> sent (outb io (port + UART_DATA) c w) = sent w @ [c]"
begin

lemma wait_thre_keeps: "ok w \<Longrightarrow> ok (wait_thre n io port w) \<and> sent (wait_thre n io port w) = sent w"
proof (induction n arbitrary: w)
  case (Suc n)
  obtain st w1 where w1: "inb io (port + UART_LSR) w = (st, w1)" by (cases "inb io (port + UART_LSR) w")
  with status [OF Suc.prems] have "ok w1" "sent w1 = sent w" by simp_all
  with Suc.IH [of w1] w1 show ?case by simp
qed simp

lemma putchar_sends:
  assumes "ok w"
  shows "ok (serial_putchar io port c w) \<and> sent (serial_putchar io port c w) = sent w @ line_bytes c"
proof -
  define w1 where "w1 = wait_thre 100000 io port w"
  have w1: "ok w1" "sent w1 = sent w" using wait_thre_keeps [OF assms] by (simp_all add: w1_def)
  define w2 where "w2 = wait_thre 100000 io port (outb io (port + UART_DATA) 13 w1)"
  have w2: "ok w2" "sent w2 = sent w1 @ [13]" using wait_thre_keeps data [OF w1(1)] by (simp_all add: w2_def)
  have "serial_putchar io port c w = outb io (port + UART_DATA) c (if c = 10 then w2 else w1)"
    unfolding serial_putchar_def Let_def w1_def w2_def ..
  with data [OF w1(1), of c] data [OF w2(1), of c] w1 w2 show ?thesis by (cases "c = 10") (simp_all add: line_bytes_def)
qed

lemma fold_sends:
  "ok w \<Longrightarrow> ok (fold (serial_putchar io port) cs w) \<and> sent (fold (serial_putchar io port) cs w) = sent w @ concat (map line_bytes cs)"
  by (induction cs arbitrary: w) (auto simp: putchar_sends)

lemma puts_sends:
  "ok w \<Longrightarrow> terminated s \<Longrightarrow> \<exists>w'. serial_puts io port s w = Some w' \<and> ok w' \<and> sent w' = sent w @ concat (map line_bytes (cstr s))"
proof (induction s arbitrary: w)
  case (Cons c s)
  then show ?case
    using putchar_sends [OF Cons.prems(1), of c] Cons.IH [of "serial_putchar io port c w"] by (cases "c = 0") auto
qed simp

end

text \<open>A device that is always ready; its state is what it has sent.\<close>

definition ready_uart :: "bytes ports" where
  "ready_uart = \<lparr>io_in = (\<lambda>p w. (if p = 0x3FD then 0x20 else 0, w)), io_out = (\<lambda>p b w. if p = 0x3F8 then w @ [b] else w),
                 io_hlt = (\<lambda>w. (0, w))\<rparr>"

interpretation line: uart ready_uart COM1 "\<lambda>w. w" "\<lambda>_. True"
  by unfold_locales (simp_all add: ready_uart_def inb_def outb_def uart_consts)

section \<open>Bounds\<close>

text \<open>A format string that ends, does not stop after a percent sign, and whose arguments fit it.\<close>

definition conv_args :: "u8 \<Rightarrow> fmt_arg list \<Rightarrow> fmt_arg list option" where
  "conv_args k args =
     (if k = of_char CHR ''s'' then
        (case args of FStr s # as \<Rightarrow> if (case s of None \<Rightarrow> True | Some b \<Rightarrow> terminated b) then Some as else None | _ \<Rightarrow> None)
      else if k = of_char CHR ''d'' then
        (case args of FInt d # as \<Rightarrow> if - (2 ^ 31) < d \<and> d < 2 ^ 31 then Some as else None | _ \<Rightarrow> None)
      else if k = of_char CHR ''u'' \<or> k = of_char CHR ''x'' then (case args of FUInt u # as \<Rightarrow> Some as | _ \<Rightarrow> None)
      else if k = of_char CHR ''c'' then (case args of FInt d # as \<Rightarrow> Some as | _ \<Rightarrow> None)
      else Some args)"

fun fmt_ok :: "bytes \<Rightarrow> fmt_arg list \<Rightarrow> bool" where
  "fmt_ok [] args = False"
| "fmt_ok [c] args = (c = 0)"
| "fmt_ok (c # k # fmt) args =
     (if c = 0 then True
      else if c \<noteq> of_char CHR ''%'' then fmt_ok (k # fmt) args
      else case conv_args k args of None \<Rightarrow> False | Some as \<Rightarrow> fmt_ok fmt as)"

lemma klog_str_bound:
  "terminated s \<Longrightarrow> length out \<le> 510 \<Longrightarrow> \<exists>o'. klog_str s out = Some o' \<and> length o' \<le> 510"
  by (induction s arbitrary: out) auto

lemma klog_uint_bound:
  assumes "length out < 510 \<or> (u \<noteq> 0 \<and> length out \<le> 510)"
  shows "\<exists>o'. klog_uint u out = Some o' \<and> length o' \<le> 510"
proof (cases "u = 0")
  case False
  obtain ds where "put_digits dec_dig 10 11 u = Some ds"
    using put_digits_dec [of u 11] unat_u32_lt [of u] by auto
  with False assms show ?thesis by (auto simp: klog_uint_def emit_def)
qed (use assms in \<open>auto simp: klog_uint_def emit_def\<close>)

lemma length_hex8 [simp]: "length (hex8 n) = 8"
  by (simp add: hex8_def)

lemma of_int_abs_nz: "- (2 ^ 31) < d \<Longrightarrow> d < 2 ^ 31 \<Longrightarrow> d \<noteq> 0 \<Longrightarrow> (of_int \<bar>d\<bar> :: u32) \<noteq> 0"
  by (auto simp: word_of_int_eq_0_iff zdvd_not_zless)

lemma klog_conv_bound:
  assumes "conv_args k args = Some as" "length out < 510"
  shows "\<exists>o'. klog_conv k args out = Some (o', as) \<and> length o' \<le> 510"
proof -
  consider (s) s where "k = of_char CHR ''s''" "args = FStr s # as" "terminated (case s of None \<Rightarrow> lit ''(null)'' | Some b \<Rightarrow> b)"
    | (d) d where "k = of_char CHR ''d''" "args = FInt d # as" "- (2 ^ 31) < d" "d < 2 ^ 31"
    | (u) u where "k = of_char CHR ''u''" "args = FUInt u # as"
    | (x) u where "k = of_char CHR ''x''" "args = FUInt u # as"
    | (c) i where "k = of_char CHR ''c''" "args = FInt i # as"
    | (o) "k \<notin> {of_char CHR ''s'', of_char CHR ''d'', of_char CHR ''u'', of_char CHR ''x'', of_char CHR ''c''}" "args = as"
    using assms(1) unfolding conv_args_def
    by (simp split: if_splits list.splits fmt_arg.splits option.splits) auto
  then show ?thesis
  proof cases
    case s
    from klog_str_bound [OF s(3), of out] assms(2) s(1,2) show ?thesis by (auto simp: klog_conv_def)
  next
    case d
    define o1 where "o1 = (if d < 0 then out @ [of_char CHR ''-''] else out)"
    have e: "(if d < 0 then emit 512 [of_char CHR ''-''] out else Some out) = Some o1"
      using assms(2) by (auto simp: emit_def o1_def)
    have "length o1 < 510 \<or> ((of_int \<bar>d\<bar> :: u32) \<noteq> 0 \<and> length o1 \<le> 510)"
      using of_int_abs_nz [OF d(3,4)] assms(2) by (auto simp: o1_def)
    from klog_uint_bound [OF this] obtain o2 where "klog_uint (of_int \<bar>d\<bar>) o1 = Some o2" "length o2 \<le> 510" by auto
    with e d show ?thesis by (simp add: klog_conv_def)
  next
    case u
    with klog_uint_bound [of out u] assms(2) show ?thesis by (auto simp: klog_conv_def)
  next
    case x
    with assms(2) show ?thesis by (simp add: klog_conv_def emit_def)
  next
    case c
    with assms(2) show ?thesis by (simp add: klog_conv_def emit_def)
  next
    case o
    with assms(2) show ?thesis by (auto simp: klog_conv_def emit_def)
  qed
qed

lemma klog_fmt_bound:
  "fmt_ok fmt args \<Longrightarrow> length out \<le> 510 \<Longrightarrow> \<exists>o'. klog_fmt fmt args out = Some o' \<and> length o' \<le> 510"
proof (induction fmt args arbitrary: out rule: fmt_ok.induct)
  case (3 c k fmt args)
  show ?case
  proof (cases "c = 0 \<or> \<not> length out < 510")
    case True
    with 3 show ?thesis by auto
  next
    case room: False
    show ?thesis
    proof (cases "c = of_char CHR ''%''")
      case False
      with room 3 show ?thesis by (simp add: emit_def)
    next
      case True
      with room 3(3) obtain as where as: "conv_args k args = Some as" "fmt_ok fmt as" by (auto split: option.splits)
      from klog_conv_bound [OF as(1), of out] room obtain o' where "klog_conv k args out = Some (o', as)" "length o' \<le> 510" by auto
      with 3(2) [of as o'] as room True show ?thesis by auto
    qed
  qed
qed simp_all

lemma vga_puts_some: "terminated s \<Longrightarrow> \<exists>v'. vga_puts s v = Some v'"
  by (induction s arbitrary: v) auto

text \<open>
  \<^verbatim>\<open>klog\<close> never leaves its buffer of 512 bytes, whatever the format string and the fitting arguments: the
  text that it prints on the screen and, when the line is up, sends over it, has at most 510 characters.
\<close>

theorem klog_in_bounds:
  assumes "fmt_ok fmt args"
  shows "\<exists>out v' w'. klog_fmt fmt args [] = Some out \<and> length out \<le> 510 \<and> vga_puts (out @ [0]) v = Some v'
     \<and> w' = (if rdy then fold (serial_putchar io COM1) out w else w)
     \<and> klog io fmt args ((rdy, w), v) = Some ((rdy, w'), v')"
proof -
  from klog_fmt_bound [OF assms, of "[]"] obtain out where out: "klog_fmt fmt args [] = Some out" "length out \<le> 510" by auto
  obtain v' where v': "vga_puts (out @ [0]) v = Some v'" using vga_puts_some [of "out @ [0]"] by auto
  have "unat (of_nat (length out) :: u32) = length out" using out(2) by (simp add: unat_of_nat take_bit_eq_mod)
  then have "serial_write io COM1 (out @ [0]) (of_nat (length out)) w = Some (fold (serial_putchar io COM1) out w)"
    by (simp add: serial_write_def)
  moreover have "emit 512 [0] out = Some (out @ [0])" using out(2) by (simp add: emit_def)
  ultimately show ?thesis using out v' by (simp add: klog_def)
qed

lemma klog_in_bounds_witness:
  "\<exists>out. klog_fmt (lit ''fault %x %d'') [FUInt 4096, FInt (- 5)] [] = Some out \<and> length out \<le> 510"
proof -
  have "fmt_ok (lit ''fault %x %d'') [FUInt 4096, FInt (- 5)]" by (simp add: lit_def conv_args_def)
  from klog_in_bounds [OF this, of vga0 False ready_uart "[]"] show ?thesis by blast
qed

text \<open>
  \<^verbatim>\<open>serial_hexdump\<close> of 16 bytes or more always overruns its line buffer: a full line has 81 characters and a
  NUL, and the buffer has 80 bytes.
\<close>

theorem serial_hexdump_overflow:
  assumes "16 \<le> unat len" "unat len \<le> length p"
  shows "serial_hexdump io port p len w = None"
proof -
  have n: "min 16 (unat len - unat 0) = 16" "\<And>j. j < 16 \<Longrightarrow> j < unat len - unat (0 :: u32)" using assms(1) by simp_all
  have "dump_line 0 p len = None"
    using assms unfolding dump_line_def Let_def n(1) emit_def
    by (simp add: length_concat upt_rec)
  moreover have "0 < len" using assms(1) by (simp add: word_less_nat_alt)
  ultimately show ?thesis by (simp add: serial_hexdump_def hexdump_loop.simps [of io port p len 0])
qed

lemma serial_hexdump_overflow_witness: "serial_hexdump ready_uart COM1 (replicate 16 0) 16 [] = None"
  by (rule serial_hexdump_overflow) simp_all

text \<open>What goes over a line that accepts bytes: the text with a carriage return before each newline.\<close>

lemma serial_puts_sends:
  "terminated s \<Longrightarrow> serial_puts ready_uart COM1 s w = Some (w @ concat (map line_bytes (cstr s)))"
  using line.puts_sends [of s w] by auto

text \<open>Printing with fitting arguments is always defined.\<close>

lemma serial_puts_some: "terminated s \<Longrightarrow> \<exists>w'. serial_puts io port s w = Some w'"
  by (induction s arbitrary: w) auto

lemma serial_put_dec_some: "\<exists>w'. serial_put_dec io port n w = Some w'"
proof (cases "n = 0")
  case False
  obtain ds where "put_digits dec_dig 10 11 n = Some ds" using put_digits_dec [of n 11] unat_u32_lt [of n] by auto
  with False serial_puts_some [of "ds @ [0]"] show ?thesis by (simp add: serial_put_dec_def)
qed (simp add: serial_put_dec_def)

lemma serial_put_hex_some: "\<exists>w'. serial_put_hex io port n w = Some w'"
proof -
  obtain w1 where "serial_puts io port (lit ''0x'') w = Some w1" using serial_puts_some [of "lit ''0x''" io port w] by auto
  then show ?thesis by (simp add: serial_put_hex_def)
qed

lemma printf_conv_some:
  assumes "conv_args k args = Some as"
  shows "\<exists>w'. printf_conv io k args w = Some (w', as)"
proof -
  consider (s) s where "k = of_char CHR ''s''" "args = FStr s # as" "terminated (case s of None \<Rightarrow> lit ''(null)'' | Some b \<Rightarrow> b)"
    | (d) d where "k = of_char CHR ''d''" "args = FInt d # as" "- (2 ^ 31) < d"
    | (u) u where "k = of_char CHR ''u''" "args = FUInt u # as"
    | (x) u where "k = of_char CHR ''x''" "args = FUInt u # as"
    | (c) i where "k = of_char CHR ''c''" "args = FInt i # as"
    | (o) "k \<notin> {of_char CHR ''s'', of_char CHR ''d'', of_char CHR ''u'', of_char CHR ''x'', of_char CHR ''c''}" "args = as"
    using assms unfolding conv_args_def
    by (simp split: if_splits list.splits fmt_arg.splits option.splits) auto
  then show ?thesis
  proof cases
    case s
    with serial_puts_some [OF s(3), of io COM1 w] show ?thesis by (auto simp: printf_conv_def)
  next
    case d
    obtain w' where "serial_put_dec io COM1 (of_int \<bar>d\<bar>) (if d < 0 then serial_putchar io COM1 (of_char CHR ''-'') w else w) = Some w'"
      using serial_put_dec_some [where io = io] by blast
    with d show ?thesis by (simp add: printf_conv_def)
  next
    case u
    with serial_put_dec_some [of io COM1 u w] show ?thesis by (auto simp: printf_conv_def)
  next
    case x
    with serial_put_hex_some [of io COM1 u w] show ?thesis by (auto simp: printf_conv_def)
  qed (auto simp: printf_conv_def)
qed

lemma printf_loop_some: "fmt_ok fmt args \<Longrightarrow> \<exists>w'. printf_loop io fmt args w = Some w'"
proof (induction fmt args arbitrary: w rule: fmt_ok.induct)
  case (3 c k fmt args)
  show ?case
  proof (cases "c = of_char CHR ''%''")
    case True
    with 3(3) obtain as where as: "conv_args k args = Some as" "fmt_ok fmt as" by (auto split: option.splits)
    from printf_conv_some [OF as(1), of io w] obtain w1 where "printf_conv io k args w = Some (w1, as)" by blast
    with 3(2) [OF _ _ as(1,2)] True show ?thesis by simp
  qed (use 3 in auto)
qed auto

lemma serial_printf_some: "fmt_ok fmt args \<Longrightarrow> \<exists>ser'. serial_printf io fmt args ser = Some ser' \<and> fst ser' = fst ser"
  using printf_loop_some by (cases ser) (auto simp: serial_printf_def)

end
