(* ===== verification/Swap.thy ===== *)
theory Swap
  imports PagingProps Serial Idt
begin

text \<open>
  Swapping, \<^verbatim>\<open>src/swap.c\<close> (256 slots of one page in kernel memory), and the page-fault handler of
  \<^verbatim>\<open>src/paging.c\<close>, which calls it. The serial line that both report to is passed through.
\<close>

section \<open>Swapping\<close>

definition SWAP_SLOTS :: nat where "SWAP_SLOTS = 256"

record swap_entry_t =
  sw_virt :: u32
  sw_slot :: u32
  sw_used :: bool

record swap_t =
  swap_table :: "nat \<Rightarrow> swap_entry_t"
  swap_ready :: bool
  swap_used :: u32
  swap_buf :: "nat \<Rightarrow> nat \<Rightarrow> u32"

type_synonym 'w serial_t = "bool \<times> 'w"

text \<open>\<open>mounted\<close> is what \<^verbatim>\<open>fat12_mounted()\<close> answers.\<close>

definition swap_init :: "'w ports \<Rightarrow> bool \<Rightarrow> swap_t \<Rightarrow> 'w serial_t \<Rightarrow> (int \<times> swap_t \<times> 'w serial_t) option" where
  "swap_init io mounted sw ser =
     (if \<not> mounted then Some (-1, sw, ser)
      else do {
        ser1 \<leftarrow> serial_printf io (lit_lines [''[swap] ready: %u slots x 4KB = %uKB'' @ [CHR 0x0D]])
                  [FUInt (of_nat SWAP_SLOTS), FUInt (of_nat SWAP_SLOTS * 4)] ser;
        Some (0, \<lparr>swap_table = (\<lambda>_. \<lparr>sw_virt = 0, sw_slot = 0, sw_used = False\<rparr>), swap_ready = True,
                  swap_used = 0, swap_buf = (\<lambda>_ _. 0)\<rparr>, ser1) })"

definition alloc_slot :: "swap_t \<Rightarrow> nat option" where
  "alloc_slot sw = first_idx (\<lambda>i. \<not> sw_used (swap_table sw i)) 0 SWAP_SLOTS"

definition swap_find :: "u32 \<Rightarrow> swap_t \<Rightarrow> nat option" where
  "swap_find page sw = first_idx (\<lambda>i. sw_used (swap_table sw i) \<and> sw_virt (swap_table sw i) = page) 0 SWAP_SLOTS"

definition swap_out ::
  "'w ports \<Rightarrow> u32 \<Rightarrow> swap_t \<times> 'a mm_scheme \<times> 'w serial_t \<Rightarrow> (int \<times> swap_t \<times> 'a mm_scheme \<times> 'w serial_t) option" where
  "swap_out io virt_addr = (\<lambda>(sw, s, ser).
     (if \<not> swap_ready sw then Some (-1, sw, s, ser)
      else let va = virt_addr AND NOT 0xFFF in
        if swap_find va sw \<noteq> None then Some (0, sw, s, ser)
        else case alloc_slot sw of
          None \<Rightarrow> Some (-1, sw, s, ser)
        | Some slot \<Rightarrow> do {
            f \<leftarrow> page_frame s va;
            let sw1 = sw\<lparr>swap_buf := (swap_buf sw)(slot := frames s f)\<rparr>;
            s1 \<leftarrow> paging_unmap va s;
            p \<leftarrow> paging_virt_to_phys va s1;
            let s2 = pmm_free p s1;
            let sw2 = sw1\<lparr>swap_table := (swap_table sw1)(slot := \<lparr>sw_virt = va, sw_slot = of_nat slot, sw_used = True\<rparr>),
                          swap_used := swap_used sw1 + 1\<rparr>;
            ser1 \<leftarrow> serial_printf io (lit_lines [''[swap] paged out 0x%x -> slot %d'' @ [CHR 0x0D]]) [FUInt va, FInt (int slot)] ser;
            Some (0, sw2, s2, ser1) }))"

definition swap_in ::
  "'w ports \<Rightarrow> u32 \<Rightarrow> swap_t \<times> 'a mm_scheme \<times> 'w serial_t \<Rightarrow> (int \<times> swap_t \<times> 'a mm_scheme \<times> 'w serial_t) option" where
  "swap_in io virt_addr = (\<lambda>(sw, s, ser).
     (if \<not> swap_ready sw then Some (-1, sw, s, ser)
      else let va = virt_addr AND NOT 0xFFF in
        case swap_find va sw of
          None \<Rightarrow> Some (-1, sw, s, ser)
        | Some i \<Rightarrow>
            (case pmm_alloc s of (phys, s1) \<Rightarrow>
               if phys = 0 then Some (-1, sw, s1, ser)
               else do {
                 f \<leftarrow> page_frame s1 phys;
                 let s2 = s1\<lparr>frames := (frames s1)(f := swap_buf sw i)\<rparr>;
                 s3 \<leftarrow> paging_map va phys (PAGE_WRITE OR PAGE_USER) s2;
                 let sw1 = sw\<lparr>swap_table := (swap_table sw)(i := (swap_table sw i)\<lparr>sw_used := False\<rparr>), swap_used := swap_used sw - 1\<rparr>;
                 ser1 \<leftarrow> serial_printf io (lit_lines [''[swap] paged in 0x%x from slot %d'' @ [CHR 0x0D]]) [FUInt va, FInt (int i)] ser;
                 Some (0, sw1, s3, ser1) })))"

definition swap_is_swapped :: "u32 \<Rightarrow> swap_t \<Rightarrow> bool" where
  "swap_is_swapped virt_addr sw \<longleftrightarrow> swap_find (virt_addr AND NOT 0xFFF) sw \<noteq> None"

definition swap_used_slots :: "swap_t \<Rightarrow> u32" where "swap_used_slots sw = swap_used sw"

section \<open>The page-fault handler\<close>

datatype ('w, 'a) fault_result = Resume swap_t "'a mm_scheme" "'w serial_t" | Halt vga

text \<open>
  The three ways to repair a fault, each \<open>None\<close> inside when it does not apply: a new heap page, a
  private copy of a shared page, a page from the swap. \<open>fault_addr\<close> is \<^verbatim>\<open>CR2\<close>.
\<close>

definition fault_heap :: "u32 \<Rightarrow> bool \<Rightarrow> 'a mm_scheme \<Rightarrow> (bool \<times> 'a mm_scheme) option" where
  "fault_heap fault_addr pres s =
     (if \<not> pres \<and> fault_addr \<ge> HEAP_VIRT_BASE \<and> fault_addr < HEAP_VIRT_MAX then
        (case pmm_alloc s of (phys, s1) \<Rightarrow>
           if phys = 0 then Some (False, s1)
           else do {
             s2 \<leftarrow> paging_map (fault_addr AND NOT 0xFFF) phys PAGE_WRITE s1;
             s3 \<leftarrow> zero_page (fault_addr AND NOT 0xFFF) s2;
             Some (True, s3\<lparr>fault_count := fault_count s3 + 1\<rparr>) })
      else Some (False, s))"

definition fault_cow :: "u32 \<Rightarrow> bool \<Rightarrow> bool \<Rightarrow> 'a mm_scheme \<Rightarrow> (bool \<times> 'a mm_scheme) option" where
  "fault_cow fault_addr pres wr s =
     (if pres \<and> wr then
        (case pte_ptr (fault_addr AND NOT 0xFFF) False s of
           None \<Rightarrow> None
         | Some (None, _) \<Rightarrow> Some (False, s)
         | Some (Some pte, _) \<Rightarrow> do {
             e \<leftarrow> rd32 s pte;
             if e AND PAGE_COW = 0 then Some (False, s)
             else if pmm_refcount (e AND NOT 0xFFF) s > 1 then
               (case pmm_alloc s of (new_phys, s1) \<Rightarrow>
                  if new_phys = 0 then Some (False, s1)
                  else do {
                    s2 \<leftarrow> copy_page new_phys (e AND NOT 0xFFF) s1;
                    s3 \<leftarrow> wr32 pte (new_phys OR PAGE_PRESENT OR PAGE_WRITE) (pmm_free (e AND NOT 0xFFF) s2);
                    Some (True, s3\<lparr>cow_count := cow_count s3 + 1, fault_count := fault_count s3 + 1\<rparr>) })
             else do {
               s1 \<leftarrow> wr32 pte ((e AND NOT PAGE_COW) OR PAGE_WRITE) s;
               Some (True, s1\<lparr>cow_count := cow_count s1 + 1, fault_count := fault_count s1 + 1\<rparr>) } })
      else Some (False, s))"

definition fault_swap ::
  "'w ports \<Rightarrow> u32 \<Rightarrow> bool \<Rightarrow> swap_t \<times> 'a mm_scheme \<times> 'w serial_t \<Rightarrow> (bool \<times> swap_t \<times> 'a mm_scheme \<times> 'w serial_t) option" where
  "fault_swap io fault_addr pres = (\<lambda>(sw, s, ser).
     if \<not> pres \<and> swap_is_swapped (fault_addr AND NOT 0xFFF) sw then do {
       (r, sw1, s1, ser1) \<leftarrow> swap_in io (fault_addr AND NOT 0xFFF) (sw, s, ser);
       Some (if r = 0 then (True, sw1, s1\<lparr>fault_count := fault_count s1 + 1\<rparr>, ser1) else (False, sw1, s1, ser1)) }
     else Some (False, sw, s, ser))"

definition fault_screen :: "u32 \<Rightarrow> bool \<Rightarrow> bytes \<Rightarrow> vga \<Rightarrow> vga option" where
  "fault_screen fault_addr wr buf v = do {
     let v1 = vga_fill_rect 0 0 80 1 (of_char CHR '' '') VGA_WHITE VGA_RED v;
     v2 \<leftarrow> vga_puts_at (lit ''PAGE FAULT  CR2='') 0 0 VGA_YELLOW VGA_RED v1;
     buf' \<leftarrow> kitoa fault_addr buf 16;
     v3 \<leftarrow> vga_puts_at buf' 17 0 VGA_WHITE VGA_RED v2;
     vga_puts_at (if wr then lit '' WRITE'' else lit '' READ'') 28 0 VGA_WHITE VGA_RED v3 }"

definition page_fault_handler ::
  "'w ports \<Rightarrow> u32 \<Rightarrow> u32 \<Rightarrow> bytes \<Rightarrow> swap_t \<times> 'a mm_scheme \<times> 'w serial_t \<Rightarrow> vga
   \<Rightarrow> 'h idt_state \<Rightarrow> (('w, 'a) fault_result \<times> 'h idt_state) option" where
  "page_fault_handler io fault_addr err_code buf = (\<lambda>(sw, s, ser) v ids. do {
     let pres = tst err_code 0x1;
     let wr = tst err_code 0x2;
     (done1, s1) \<leftarrow> fault_heap fault_addr pres s;
     if done1 then Some (Resume sw s1 ser, ids)
     else do {
       (done2, s2) \<leftarrow> fault_cow fault_addr pres wr s1;
       if done2 then Some (Resume sw s2 ser, ids)
       else do {
         (done3, sw3, s3, ser3) \<leftarrow> fault_swap io fault_addr pres (sw, s2, ser);
         if done3 then Some (Resume sw3 s3 ser3, ids)
         else do {
           v1 \<leftarrow> fault_screen fault_addr wr buf v;
           Some (Halt v1, exc_register 14 None ids) } } } })"

definition demand_paging_init :: "'h \<Rightarrow> 'a mm_scheme \<times> 'h idt_state \<Rightarrow> 'a mm_scheme \<times> 'h idt_state" where
  "demand_paging_init handler = (\<lambda>(s, ids). (heap_init s, exc_register 14 (Some handler) ids))"

definition demand_fault_count :: "'a mm_scheme \<Rightarrow> u32" where "demand_fault_count s = fault_count s"
definition demand_cow_count :: "'a mm_scheme \<Rightarrow> u32" where "demand_cow_count s = cow_count s"

section \<open>Out and in again\<close>

lemma page_align_twice: "((v :: u32) AND NOT 0xFFF) AND NOT 0xFFF = (v AND NOT 0xFFF)"
  by (simp only: and.assoc and.idem)

lemma pmm_free_0:
  assumes ok: "pt_ok s" and z: "0 \<notin> pmm_range s" "pmm_refs s 0 \<noteq> 1"
  shows "pt_ok (pmm_free 0 s)" "pages (pmm_free 0 s) = pages s" "pmm_owned (pmm_free 0 s) = pmm_owned s"
    "pt_frames (pmm_free 0 s) = pt_frames s" "has_tbl (pmm_free 0 s) = has_tbl s"
proof -
  define s' where "s' = pmm_free 0 s"
  have eq: "s' = (if pmm_refs s 0 = 0 then s else s\<lparr>pmm_refs := (pmm_refs s)(0 := pmm_refs s 0 - 1)\<rparr>)"
    using z(2) by (simp add: s'_def pmm_free_def frame_idx_def page_consts Let_def)
  have o: "pmm_owned s' = pmm_owned s" using z(1) unfolding eq by (simp add: pmm_upd_owned) (simp add: pmm_owned_def)
  have r: "pmm_range s' = pmm_range s" by (simp add: s'_def pmm_free_same)
  have k: "pmm_ok s'" using pt_okD(1) [OF ok] o unfolding pmm_ok_def by (simp add: eq)
  have d: "page_dir s' = page_dir s" by (simp add: s'_def page_dir_def pmm_free_same fun_eq_iff)
  have p: "pages s' = pages s" by (simp add: s'_def pages_def pmm_free_same fun_eq_iff)
  have h: "has_tbl s' = has_tbl s" and t: "tbl s' = tbl s" by (simp_all add: has_tbl_def tbl_def d fun_eq_iff)
  have f: "pt_frames s' = pt_frames s" by (simp add: pt_frames_def h t) (simp add: s'_def pmm_free_same)
  have "pt_ok s'" using ok k unfolding pt_ok_def by (simp add: p h t f o r) (simp add: s'_def pmm_free_same)
  with p o f h show "pt_ok (pmm_free 0 s)" "pages (pmm_free 0 s) = pages s" "pmm_owned (pmm_free 0 s) = pmm_owned s"
    "pt_frames (pmm_free 0 s) = pt_frames s" "has_tbl (pmm_free 0 s) = has_tbl s" by (simp_all add: s'_def)
qed

lemma swap_out_ok:
  assumes ok: "pt_ok s" and v: "4096 \<le> pfn va" and e: "pages s (pfn va) = Some e" "pfn e \<in> pmm_owned s - pt_frames s"
    and z: "0 \<notin> pmm_range s" "pmm_refs s 0 \<noteq> 1" and rdy: "swap_ready sw" and new: "\<not> swap_is_swapped va sw"
    and slot: "alloc_slot sw = Some i"
  shows "\<exists>sw1 s1 ser1. swap_out io va (sw, s, ser) = Some (0, sw1, s1, ser1) \<and> pt_ok s1 \<and> pages s1 = (pages s)(pfn va := None)
     \<and> has_tbl s1 = has_tbl s \<and> pmm_range s1 = pmm_range s \<and> pmm_owned s - {pfn e} \<subseteq> pmm_owned s1
     \<and> pmm_owned s1 \<subseteq> (if pmm_cnt s (pfn e) = 1 then pmm_owned s - {pfn e} else pmm_owned s) \<and> pt_frames s1 = pt_frames s
     \<and> (\<forall>g. g \<notin> pt_frames s \<longrightarrow> frames s1 g = frames s g)
     \<and> sw1 = sw\<lparr>swap_buf := (swap_buf sw)(i := frames s (pfn e)),
              swap_table := (swap_table sw)(i := \<lparr>sw_virt = va AND NOT 0xFFF, sw_slot = of_nat i, sw_used = True\<rparr>),
              swap_used := swap_used sw + 1\<rparr>"
proof -
  define a where "a = (va AND NOT 0xFFF)"
  have pa: "pfn a = pfn va" by (simp add: a_def)
  have lt: "pfn e < 65536" using e(2) pt_okD(4) [OF ok] by (auto simp: pmm_owned_def)
  have pf: "page_frame s a = Some (pfn e)" using pt_okD(2) [OF ok] e(1) by (simp add: page_frame_def walk_pages pa)
  have h: "has_tbl s (pfn va div 1024)"
    using e(1) by (simp add: pages_tbl [OF pt_okD(3) [OF ok] pfn_lt] split: if_splits)
  from paging_unmap_ok [OF ok, of a e] v e pa obtain s1 where
    s1: "paging_unmap a s = Some s1" "pt_ok s1" "pages s1 = (pages s)(pfn va := None)"
      "pmm_cnt s1 = (pmm_cnt s)(pfn e := pmm_cnt s (pfn e) - 1)" "pt_frames s1 = pt_frames s"
      "\<forall>g. g \<notin> pt_frames s \<longrightarrow> frames s1 g = frames s g" "has_tbl s1 = has_tbl s" "pmm_range s1 = pmm_range s"
      "pmm_owned s1 = (if pmm_cnt s (pfn e) = 1 then pmm_owned s - {pfn e} else pmm_owned s)" by auto
  have "pfn e \<in> pmm_range s" using e(2) by (simp add: pmm_owned_def)
  then have "pfn e \<noteq> 0" using z(1) by metis
  then have "pmm_refs s1 0 \<noteq> 1" using z(2) fun_cong [OF s1(4), of 0] by (auto simp: pmm_cnt_def word_unat_eq_iff)
  note f0 = pmm_free_0 [OF s1(2) _ this]
  have tp: "paging_virt_to_phys a s1 = Some 0" using pt.translate_ok [OF s1(2), of a] s1(3) pa by simp
  obtain ser1 where ser1: "serial_printf io (lit_lines [''[swap] paged out 0x%x -> slot %d'' @ [CHR 0x0D]]) [FUInt a, FInt (int i)] ser = Some ser1"
    using serial_printf_some [of "lit_lines [''[swap] paged out 0x%x -> slot %d'' @ [CHR 0x0D]]" "[FUInt a, FInt (int i)]" io ser]
      first_idx_SomeD(2) [OF slot [unfolded alloc_slot_def]]
    by (auto simp: lit_lines_def conv_args_def SWAP_SLOTS_def)
  have run: "swap_out io va (sw, s, ser) = Some (0, sw\<lparr>swap_buf := (swap_buf sw)(i := frames s (pfn e)),
              swap_table := (swap_table sw)(i := \<lparr>sw_virt = va AND NOT 0xFFF, sw_slot = of_nat i, sw_used = True\<rparr>),
              swap_used := swap_used sw + 1\<rparr>, pmm_free 0 s1, ser1)"
    using rdy new slot pf s1(1) tp ser1 unfolding swap_out_def swap_is_swapped_def Let_def a_def [symmetric] by simp
  show ?thesis unfolding run using f0 z(1) s1 by (auto simp: pmm_free_same)
qed

lemma swap_in_ok:
  assumes ok: "pt_ok s" and v: "4096 \<le> pfn va" "has_tbl s (pfn va div 1024)" and free: "pmm_owned s \<noteq> pmm_range s"
    and rdy: "swap_ready sw" and slot: "swap_find (va AND NOT 0xFFF) sw = Some i"
  shows "\<exists>sw1 s1 ser1 x. swap_in io va (sw, s, ser) = Some (0, sw1, s1, ser1) \<and> pt_ok s1 \<and> pages s1 = (pages s)(pfn va \<mapsto> x)
     \<and> frames s1 (pfn x) = swap_buf sw i \<and> pfn x \<notin> pmm_owned s
     \<and> (\<forall>g \<in> pmm_owned s - pt_frames s. frames s1 g = frames s g)
     \<and> sw1 = sw\<lparr>swap_table := (swap_table sw)(i := (swap_table sw i)\<lparr>sw_used := False\<rparr>), swap_used := swap_used sw - 1\<rparr>"
proof -
  define a where "a = (va AND NOT 0xFFF)"
  have pa: "pfn a = pfn va" by (simp add: a_def)
  from pt_ok_alloc [OF ok free] obtain f s1 where
    f: "pmm_alloc s = (of_nat f * 4096, s1)" "f < 4096" "f \<noteq> 0" "f \<in> pmm_range s - pmm_owned s - pt_frames s" "pt_ok s1"
      "pages s1 = pages s" "pt_frames s1 = pt_frames s" "pmm_owned s1 = insert f (pmm_owned s)" "grows s s1" "frames s1 = frames s"
      "has_tbl s1 = has_tbl s" by blast
  have nz: "(of_nat f * 4096 :: u32) \<noteq> 0"
    using f(2,3) by (simp add: word_unat_eq_iff unat_word_ariths unat_of_nat take_bit_eq_mod)
  have pf: "page_frame s1 (of_nat f * 4096) = Some f" using page_frame_ident [OF f(5), of "of_nat f * 4096"] f(2) by simp
  define s2 where "s2 = s1\<lparr>frames := (frames s1)(f := swap_buf sw i)\<rparr>"
  have np: "f \<notin> pt_frames s1" using f(4,7) by simp
  note st2 = set_frame_ok [OF f(5) np, of "swap_buf sw i", folded s2_def]
  have h2: "has_tbl s2 (pfn a div 1024)" using v(2) by (simp add: st2 f(11) pa)
  have va: "4096 \<le> pfn a" using v(1) pa by simp
  define x where "x = ((of_nat f * 4096) AND NOT 0xFFF) OR PAGE_PRESENT OR (PAGE_WRITE OR PAGE_USER)"
  from paging_map_has [OF st2(1) h2 va, of "of_nat f * 4096" "PAGE_WRITE OR PAGE_USER"] obtain s3 where
    s3: "paging_map a (of_nat f * 4096) (PAGE_WRITE OR PAGE_USER) s2 = Some s3" "pt_ok s3" "pages s3 = (pages s)(pfn va \<mapsto> x)"
      "data_kept s2 s3" "pmm_owned s3 = pmm_owned s2" unfolding x_def pa st2(2) f(6) by blast
  have px: "pfn x = f"
  proof -
    have "x = (((of_nat f * 4096) AND NOT 0xFFF) OR PAGE_PRESENT) OR (PAGE_WRITE OR PAGE_USER)" by (simp add: x_def or.assoc)
    then show ?thesis using f(2) by (simp add: pfn_or_flags PAGE_WRITE_def PAGE_USER_def) (simp add: pfn_or_flags PAGE_PRESENT_def)
  qed
  have pt3: "pt_frames s3 = pt_frames s" using s3(4,5) f(7) st2(3) by (auto simp: data_kept_def)
  then have fr: "frames s3 g = frames s2 g" if "g \<notin> pt_frames s" for g using s3(4) that by (auto simp: data_kept_def)
  have c: "frames s3 (pfn x) = swap_buf sw i" using fr [of f] f(4) by (simp add: px s2_def)
  have keep: "\<forall>g \<in> pmm_owned s - pt_frames s. frames s3 g = frames s g"
    using fr f(4) by (auto simp: s2_def f(10))
  obtain ser1 where ser1: "serial_printf io (lit_lines [''[swap] paged in 0x%x from slot %d'' @ [CHR 0x0D]]) [FUInt a, FInt (int i)] ser = Some ser1"
    using serial_printf_some [of "lit_lines [''[swap] paged in 0x%x from slot %d'' @ [CHR 0x0D]]" "[FUInt a, FInt (int i)]" io ser]
      first_idx_SomeD(2) [OF slot [unfolded swap_find_def]]
    by (auto simp: lit_lines_def conv_args_def SWAP_SLOTS_def)
  have "swap_in io va (sw, s, ser) = Some (0, sw\<lparr>swap_table := (swap_table sw)(i := (swap_table sw i)\<lparr>sw_used := False\<rparr>),
      swap_used := swap_used sw - 1\<rparr>, s3, ser1)"
    using rdy slot f(1) nz pf s3(1) ser1 unfolding swap_in_def Let_def a_def [symmetric] by (simp add: s2_def)
  then show ?thesis using s3(2,3) c keep px f(4) by auto
qed


text \<open>A state to try it on: one page of \<^verbatim>\<open>vmalloc\<close>'s region, mapped by the demand step.\<close>

definition swap0 :: swap_t where
  "swap0 = \<lparr>swap_table = (\<lambda>_. \<lparr>sw_virt = 0, sw_slot = 0, sw_used = False\<rparr>), swap_ready = True, swap_used = 0, swap_buf = (\<lambda>_ _. 0)\<rparr>"

lemma init_tables_refs: "pmm_refs (fold init_table ts s) = pmm_refs s"
  by (induction ts arbitrary: s) (simp_all add: init_table_def set_word_def Let_def)

lemma paging_init_refs0: "pmm_refs (paging_init 8192 s) 0 = 0xFF"
  by (simp add: paging_init_def Let_def init_tables_refs) (simp add: pmm_init_def Let_def page_consts frame_idx_def)

lemma one_page_state:
  "\<exists>s :: mm. \<exists>e. pt_ok s \<and> pages s 4096 = Some e \<and> pfn e \<in> pmm_owned s - pt_frames s \<and> pmm_cnt s (pfn e) = 1
     \<and> 0 \<notin> pmm_range s \<and> pmm_refs s 0 = 0xFF \<and> pmm_owned s \<noteq> pmm_range s"
proof -
  let ?s = "paging_init 8192 mm0"
  note i = paging_init_ok [OF mm0_layout, of 8192]
  have pf: "pfn 0x1000000 = 4096" by (simp add: pfn_div)
  have "{256..<2048} - {256..<1280} = {1280..<2048::nat}" by auto
  then have fr: "free_frames ?s = 768" by (simp add: free_frames_def i)
  from demand_page [of ?s "0x1000000"] i(1) pf fr obtain s3 where
    s3: "pt_ok s3" "fresh_page ?s s3 4096" "grows ?s s3" "768 \<le> free_frames s3 + 2" by auto
  have "pmm_owned s3 \<noteq> pmm_range s3" using free_frames_pos [of s3] s3(4) by simp
  from s3(2) obtain e where e: "pages s3 4096 = Some e" "pfn e \<in> pmm_owned s3 - pmm_owned ?s - pt_frames s3" "pmm_cnt s3 (pfn e) = 1"
    unfolding fresh_page_def by blast
  have r: "pmm_range s3 = pmm_range ?s" using s3(3) by (simp add: grows_def)
  then have z: "0 \<notin> pmm_range s3" by (simp add: i)
  then have "0 \<notin> pmm_owned s3 - pmm_owned ?s" by (simp add: pmm_owned_def)
  then have "pmm_refs s3 0 = pmm_refs ?s 0" using s3(3) unfolding grows_def by blast
  with s3(1) e z \<open>pmm_owned s3 \<noteq> pmm_range s3\<close> show ?thesis using paging_init_refs0 [of mm0] by auto
qed


section \<open>Copy on write\<close>

lemma refcount_cnt: "f < 65536 \<Longrightarrow> pmm_refcount (of_nat f * 4096) s > 1 \<longleftrightarrow> 1 < pmm_cnt s f"
  using unat_u8_lt [of "pmm_refs s f"]
  by (simp add: pmm_refcount_def frame_idx_of Let_def PMM_MAX_FRAMES_def pmm_cnt_def word_less_nat_alt unat_of_nat take_bit_eq_mod
      unsigned_ucast_eq)

lemma fault_cow_copies:
  assumes ok: "pt_ok s" and v: "4096 \<le> pfn va" and e: "pages s (pfn va) = Some e" "e AND PAGE_COW \<noteq> 0"
    and f: "pfn e \<in> pmm_owned s - pt_frames s" "1 < pmm_cnt s (pfn e)" and free: "pmm_owned s \<noteq> pmm_range s"
  shows "\<exists>s' x. fault_cow va True True s = Some (True, s') \<and> pt_ok s' \<and> pages s' = (pages s)(pfn va \<mapsto> x)
     \<and> x AND PAGE_COW = 0 \<and> x AND PAGE_WRITE \<noteq> 0 \<and> frames s' (pfn x) = frames s (pfn e) \<and> pfn x \<notin> pmm_owned s
     \<and> pmm_cnt s' = (pmm_cnt s)(pfn x := 1, pfn e := pmm_cnt s (pfn e) - 1)
     \<and> (\<forall>g \<in> pmm_owned s - pt_frames s. frames s' g = frames s g)"
proof -
  define a where "a = (va AND NOT 0xFFF)"
  have pa: "pfn a = pfn va" by (simp add: a_def)
  have lt: "pfn e < 4096" using f(1) pt_okD(4) [OF ok] by (auto simp: pmm_owned_def)
  have h: "has_tbl s (pfn a div 1024)"
    using e(1) by (simp add: pa pages_tbl [OF pt_okD(3) [OF ok] pfn_lt] split: if_splits)
  have ptr: "pte_ptr a False s = Some (Some (entry_at s a), s)" by (rule pte_ptr_has [OF h])
  have rd: "rd32 s (entry_at s a) = Some e"
    using pte_val_pages [OF ok, of a] e(1) by (simp add: pte_val_def ptr pa split: Option.bind_splits if_splits)
  have em: "(e AND NOT 0xFFF) = of_nat (pfn e) * 4096" by (rule mask_frame)
  have cnt: "pmm_refcount (e AND NOT 0xFFF) s > 1" unfolding em using refcount_cnt [of "pfn e" s] lt f(2) by simp
  from pt_ok_alloc [OF ok free] obtain g s1 where
    g: "pmm_alloc s = (of_nat g * 4096, s1)" "g < 4096" "g \<noteq> 0" "g \<in> pmm_range s - pmm_owned s - pt_frames s" "pt_ok s1"
      "pages s1 = pages s" "pt_frames s1 = pt_frames s" "pmm_owned s1 = insert g (pmm_owned s)" "frames s1 = frames s"
      "has_tbl s1 = has_tbl s" "tbl s1 = tbl s" "pmm_cnt s1 = (pmm_cnt s)(g := 1)" by blast
  have nz: "(of_nat g * 4096 :: u32) \<noteq> 0"
    using g(2,3) by (simp add: word_unat_eq_iff unat_word_ariths unat_of_nat take_bit_eq_mod)
  define s2 where "s2 = s1\<lparr>frames := (frames s1)(g := frames s (pfn e))\<rparr>"
  have cp: "copy_page (of_nat g * 4096) (e AND NOT 0xFFF) s1 = Some s2"
    using page_frame_ident [OF g(5), of "of_nat g * 4096"] page_frame_ident [OF g(5), of "e AND NOT 0xFFF"] g(2,9) lt
    by (simp add: copy_page_def s2_def)
  have np: "g \<notin> pt_frames s1" using g(4,7) by simp
  note st2 = set_frame_ok [OF g(5) np, of "frames s (pfn e)", folded s2_def]
  have fe: "pfn e \<in> pmm_owned s2" "pfn e \<notin> pt_frames s2" using f(1) g(7,8) by (simp_all add: st2)
  define s3 where "s3 = pmm_free (e AND NOT 0xFFF) s2"
  note st3 = pt_ok_free [OF st2(1) fe, folded em, folded s3_def]
  have eg: "pfn e \<noteq> g" using f(1) g(4) by auto
  have c3: "pmm_cnt s3 = (pmm_cnt s)(g := 1, pfn e := pmm_cnt s (pfn e) - 1)"
  proof -
    have "pmm_cnt s2 = (pmm_cnt s)(g := 1)" using g(12) by (simp add: s2_def pmm_cnt_def [abs_def])
    moreover have "pfn e < 65536" using lt by simp
    ultimately show ?thesis using pmm_free_ok [OF pt_okD(1) [OF st2(1)] fe(1), folded em, folded s3_def] eg by simp
  qed
  define x where "x = (of_nat g * 4096 OR PAGE_PRESENT OR PAGE_WRITE :: u32)"
  have px: "pfn x = g" unfolding x_def by (rule tbl_entry) (use g(2) in simp)
  have h3: "has_tbl s3 (pfn a div 1024)" and t3: "tbl s3 = tbl s" using h by (simp_all add: st3 st2 g(10,11))
  define s4 where "s4 = set_word (tbl s (pfn a div 1024)) (pfn a mod 1024) x s3"
  have "page_frame s3 (entry_at s a) = Some (tbl s (pfn a div 1024))"
    using page_frame_ident [OF st3(1), of "entry_at s a"] pt_okD(6) [OF ok h] by (simp add: entry_at_loc)
  then have wr: "wr32 (entry_at s a) x s3 = Some s4" by (simp add: wr32_def entry_at_loc s4_def)
  have pr: "present x" unfolding x_def by (rule present_or)
  note p4 = set_pte_pages [OF st3(1) pfn_lt h3, of x, unfolded t3, folded s4_def]
  have ok4: "pt_ok s4" using set_pte_ok [OF st3(1) pfn_lt h3, of x] v pa unfolding t3 s4_def by simp
  define s5 where "s5 = s4\<lparr>cow_count := cow_count s4 + 1, fault_count := fault_count s4 + 1\<rparr>"
  have run: "fault_cow va True True s = Some (True, s5)"
    using ptr rd e(2) cnt g(1) nz cp wr unfolding fault_cow_def a_def [symmetric] by (simp add: s5_def s3_def x_def)
  note st5 = same_tables [of s5 s4]
  have s5: "pages s5 = pages s4" "pt_ok s5" "frames s5 = frames s4" "pmm_cnt s5 = pmm_cnt s3"
    using st5 ok4 by (simp_all add: s5_def same_pmm_def pmm_cnt_def [abs_def] s4_def)
  have pg: "pages s5 = (pages s)(pfn va \<mapsto> x)" using p4(1) pr by (simp add: s5 st3 st2 g(6) pa)
  have tf: "tbl s (pfn a div 1024) \<in> pt_frames s" using h by (auto simp: pt_frames_def)
  have fr: "frames s5 k = (if k = g then frames s (pfn e) else frames s k)" if "k \<notin> pt_frames s" for k
    using that tf by (auto simp: s5 s4_def s3_def pmm_free_same s2_def g(9))
  have xb: "x = push_bit 12 (of_nat g) OR 1 OR 2"
    by (simp add: x_def PAGE_PRESENT_def PAGE_WRITE_def push_bit_eq_mult mult.commute)
  have c9: "PAGE_COW = 2 ^ 9" "PAGE_WRITE = 2 ^ 1" by (simp_all add: PAGE_COW_def PAGE_WRITE_def)
  have "x AND PAGE_COW = 0" unfolding c9 and_exp_eq_0_iff_not_bit xb by (simp add: bit_simps)
  moreover have "x AND PAGE_WRITE \<noteq> 0" unfolding c9 and_exp_eq_0_iff_not_bit xb by (simp add: bit_simps)
  ultimately show ?thesis using run s5 pg px fr [of g] fr g(4) c3 f(1)
    by (intro exI [of _ s5] exI [of _ x]) auto
qed


text \<open>A shared page to try it on: \<^verbatim>\<open>vmalloc_copy_on_write\<close> on the page from above.\<close>

lemma cow_share_ok:
  assumes ok: "pt_ok s" and v: "4096 \<le> pfn va" and e: "pages s (pfn va) = Some e" "pfn e \<in> pmm_owned s - pt_frames s"
    and c: "pmm_cnt s (pfn e) < 254"
  shows "\<exists>s' x. vmalloc_copy_on_write va s = Some (True, s') \<and> pt_ok s' \<and> pages s' = (pages s)(pfn va \<mapsto> x)
     \<and> x AND PAGE_COW \<noteq> 0 \<and> pfn x = pfn e \<and> pmm_owned s' = pmm_owned s \<and> pt_frames s' = pt_frames s
     \<and> pmm_range s' = pmm_range s \<and> pmm_cnt s' = (pmm_cnt s)(pfn e := pmm_cnt s (pfn e) + 1)"
proof -
  define a where "a = (va AND NOT 0xFFF)"
  have pa: "pfn a = pfn va" by (simp add: a_def)
  have lt: "pfn e < 65536" using e(2) pt_okD(4) [OF ok] by (auto simp: pmm_owned_def)
  define s1 where "s1 = pmm_ref (e AND NOT 0xFFF) s"
  have em: "(e AND NOT 0xFFF) = of_nat (pfn e) * 4096" by (rule mask_frame)
  have r: "pmm_ok s1" "pmm_cnt s1 = (pmm_cnt s)(pfn e := pmm_cnt s (pfn e) + 1)" "pmm_owned s1 = pmm_owned s"
    using pmm_ref_ok [OF pt_okD(1) [OF ok] _ lt c] e(2) unfolding s1_def em by simp_all
  have q: "frames s1 = frames s" "dir_base s1 = dir_base s" "cr3 s1 = cr3 s" "paging_on s1 = paging_on s" "pmm_range s1 = pmm_range s"
    by (simp_all add: s1_def pmm_ref_def Let_def pmm_range_def)
  have d: "page_dir s1 = page_dir s" by (simp add: page_dir_def q fun_eq_iff)
  have p: "pages s1 = pages s" by (simp add: pages_def q fun_eq_iff)
  have h: "has_tbl s1 = has_tbl s" and t: "tbl s1 = tbl s" by (simp_all add: has_tbl_def tbl_def d fun_eq_iff)
  have pf: "pt_frames s1 = pt_frames s" by (simp add: pt_frames_def h t q)
  have ok1: "pt_ok s1" using ok r unfolding pt_ok_def by (simp add: p h t pf q)
  have hs: "has_tbl s (pfn a div 1024)"
    using e(1) by (simp add: pa pages_tbl [OF pt_okD(3) [OF ok] pfn_lt] split: if_splits)
  then have h1: "has_tbl s1 (pfn a div 1024)" by (simp add: h)
  define x where "x = ((e AND NOT PAGE_WRITE) OR PAGE_COW)"
  define s' where "s' = set_word (tbl s (pfn a div 1024)) (pfn a mod 1024) x s1"
  have "page_frame s1 (entry_at s a) = Some (tbl s (pfn a div 1024))"
    using page_frame_ident [OF ok1, of "entry_at s a"] pt_okD(6) [OF ok hs] by (simp add: entry_at_loc)
  then have run: "vmalloc_copy_on_write va s = Some (True, s')"
    using e(1) unfolding vmalloc_copy_on_write_def a_def [symmetric] pte_val_pages [OF ok] pa
    by (simp add: wr32_def entry_at_loc s'_def s1_def x_def pa)
  have pr: "present x"
  proof -
    have "bit e 0" using e(1) by (auto simp: pages_def Let_def present_iff bit_0 split: if_splits)
    then have "bit x 0" by (simp add: x_def PAGE_WRITE_def bit_simps)
    then show ?thesis by (simp add: present_iff bit_0)
  qed
  have c9: "PAGE_COW = 2 ^ 9" by (simp add: PAGE_COW_def)
  have "x AND PAGE_COW \<noteq> 0" unfolding c9 and_exp_eq_0_iff_not_bit by (simp add: x_def c9 bit_simps)
  moreover have "pfn x = pfn e"
  proof -
    have "e AND PAGE_WRITE \<le> PAGE_WRITE" by (rule word_and_le1)
    then have "unat (e AND PAGE_WRITE) < 4096" by (simp add: word_le_nat_alt PAGE_WRITE_def)
    moreover have "(e AND NOT PAGE_WRITE) OR (e AND PAGE_WRITE) = e"
      by (intro bit_word_eqI) (auto simp: bit_or_iff bit_and_iff bit_not_iff)
    ultimately have "pfn (e AND NOT PAGE_WRITE) = pfn e" by (metis pfn_or_flags)
    then show ?thesis by (simp add: x_def pfn_or_flags PAGE_COW_def)
  qed
  moreover note p4 = set_pte_pages [OF ok1 pfn_lt h1, of x, unfolded t p h, folded s'_def]
  moreover have "pt_ok s'" using set_pte_ok [OF ok1 pfn_lt h1, of x] v pa unfolding t s'_def by simp
  moreover have "same_pmm s1 s'" by (simp add: same_pmm_def s'_def)
  moreover have "pt_frames s' = pt_frames s" by (simp add: pt_frames_def p4) (simp add: s'_def q)
  ultimately show ?thesis using run pr r same_pmmD [of s1 s'] q pa
    by (intro exI [of _ s'] exI [of _ x]) (simp add: pmm_cnt_def [abs_def] same_pmm_def)
qed


end
