(* ===== verification/Packed.thy ===== *)
theory Packed
  imports KumPrelude
begin

text \<open>
  Packed structures in memory: 16- and 32-bit fields stored low byte first, as the x86 does, and read back at any
  offset. The structures of the disk, of network frames and of executables are written and read with these.
\<close>

definition rd16 :: "bytes \<Rightarrow> nat \<Rightarrow> u16" where
  "rd16 b k = ucast (b ! k) OR push_bit 8 (ucast (b ! (k + 1)))"

definition rd32 :: "bytes \<Rightarrow> nat \<Rightarrow> u32" where
  "rd32 b k = ucast (rd16 b k) OR push_bit 16 (ucast (rd16 b (k + 2)))"

definition wr16 :: "u16 \<Rightarrow> bytes" where
  "wr16 x = [ucast x, ucast (drop_bit 8 x)]"

definition wr32 :: "u32 \<Rightarrow> bytes" where
  "wr32 x = wr16 (ucast x) @ wr16 (ucast (drop_bit 16 x))"

lemma le_word_join: "(ucast (ucast x :: u8) :: u16) OR push_bit 8 (ucast (ucast (drop_bit 8 x) :: u8)) = x"
  by (intro bit_word_eqI) (auto simp: bit_simps)

lemma le_byte_split: "ucast ((ucast (a :: u8) :: u16) OR push_bit 8 (ucast (b :: u8))) = a"
    "ucast (drop_bit 8 ((ucast (a :: u8) :: u16) OR push_bit 8 (ucast (b :: u8)))) = b"
    "ucast (drop_bit 8 (ucast a :: u16) OR drop_bit 8 (push_bit 8 (ucast b :: u16))) = b"
  by (intro bit_word_eqI; auto simp: bit_simps dest: bit_imp_le_length)+

lemma rd16_wr16: "rd16 (wr16 x @ r) 0 = x"
  by (simp add: rd16_def wr16_def le_word_join)

lemma rd16_drop: "k + 1 < length b \<Longrightarrow> rd16 b k = rd16 (drop k b) 0"
  by (simp add: rd16_def)

lemma rd32_wr32: "rd32 (wr32 x @ r) 0 = x"
proof -
  have "rd16 (wr32 x @ r) 0 = ucast x" "rd16 (wr32 x @ r) 2 = ucast (drop_bit 16 x)"
    by (simp_all add: wr32_def rd16_wr16) (simp add: rd16_def wr16_def le_word_join)
  then have "rd32 (wr32 x @ r) 0 = ucast (ucast x :: u16) OR push_bit 16 (ucast (ucast (drop_bit 16 x) :: u16))" by (simp only: rd32_def add_0)
  also have "\<dots> = x" by (intro bit_word_eqI) (auto simp: bit_simps)
  finally show ?thesis .
qed

lemma rd32_drop: "k + 3 < length b \<Longrightarrow> rd32 b k = rd32 (drop k b) 0"
  by (simp add: rd32_def rd16_def add.commute)

lemma length_wr [simp]: "length (wr16 x) = 2" "length (wr32 y) = 4"
  by (simp_all add: wr16_def wr32_def)

text \<open>A field at its place in the middle of a structure.\<close>

lemma rd16_at: "length a = k \<Longrightarrow> rd16 (a @ wr16 x @ r) k = x"
  using rd16_wr16 [of x r] rd16_drop [of k "a @ wr16 x @ r"] by simp

lemma rd32_at: "length a = k \<Longrightarrow> rd32 (a @ wr32 x @ r) k = x"
  using rd32_wr32 [of x r] rd32_drop [of k "a @ wr32 x @ r"] by simp

end
