(* ===== verification/Ata.thy ===== *)
theory Ata
  imports Packed Vga Ports
begin

text \<open>
  The disk driver, \<^verbatim>\<open>src/ata.c\<close>: programmed I/O on the primary ATA channel. A locale states what the
  file systems rely on, a device of 512-byte sectors; the driver on a controller that follows the ATA protocol implements it.
\<close>

section \<open>State and ports\<close>

definition ATA_PRI_DATA :: u16 where "ATA_PRI_DATA = 0x1F0"
definition ATA_PRI_ERR :: u16 where "ATA_PRI_ERR = 0x1F1"
definition ATA_PRI_SECCOUNT :: u16 where "ATA_PRI_SECCOUNT = 0x1F2"
definition ATA_PRI_LBA_LO :: u16 where "ATA_PRI_LBA_LO = 0x1F3"
definition ATA_PRI_LBA_MID :: u16 where "ATA_PRI_LBA_MID = 0x1F4"
definition ATA_PRI_LBA_HI :: u16 where "ATA_PRI_LBA_HI = 0x1F5"
definition ATA_PRI_DRIVE :: u16 where "ATA_PRI_DRIVE = 0x1F6"
definition ATA_PRI_STATUS :: u16 where "ATA_PRI_STATUS = 0x1F7"
definition ATA_PRI_CMD :: u16 where "ATA_PRI_CMD = 0x1F7"
definition ATA_PRI_ALT_STATUS :: u16 where "ATA_PRI_ALT_STATUS = 0x3F6"
definition ATA_PRI_DEV_CTRL :: u16 where "ATA_PRI_DEV_CTRL = 0x3F6"
definition ATA_SR_BSY :: u8 where "ATA_SR_BSY = 0x80"
definition ATA_SR_DRQ :: u8 where "ATA_SR_DRQ = 0x08"
definition ATA_SR_ERR :: u8 where "ATA_SR_ERR = 0x01"
definition ATA_CMD_READ_PIO :: u8 where "ATA_CMD_READ_PIO = 0x20"
definition ATA_CMD_WRITE_PIO :: u8 where "ATA_CMD_WRITE_PIO = 0x30"
definition ATA_CMD_FLUSH :: u8 where "ATA_CMD_FLUSH = 0xE7"
definition ATA_CMD_IDENTIFY :: u8 where "ATA_CMD_IDENTIFY = 0xEC"
definition ATA_DRIVE_MASTER :: u8 where "ATA_DRIVE_MASTER = 0xE0"
definition ATA_DRIVE_SLAVE :: u8 where "ATA_DRIVE_SLAVE = 0xF0"

lemmas ata_consts = ATA_PRI_DATA_def ATA_PRI_ERR_def ATA_PRI_SECCOUNT_def ATA_PRI_LBA_LO_def ATA_PRI_LBA_MID_def ATA_PRI_LBA_HI_def
  ATA_PRI_DRIVE_def ATA_PRI_STATUS_def ATA_PRI_CMD_def ATA_PRI_ALT_STATUS_def ATA_PRI_DEV_CTRL_def ATA_SR_BSY_def ATA_SR_DRQ_def
  ATA_SR_ERR_def ATA_CMD_READ_PIO_def ATA_CMD_WRITE_PIO_def ATA_CMD_FLUSH_def ATA_CMD_IDENTIFY_def ATA_DRIVE_MASTER_def ATA_DRIVE_SLAVE_def

record ata_drive_t =
  dr_present :: bool
  dr_slave :: bool
  dr_sectors :: u32
  dr_model :: bytes
  dr_serial :: bytes

type_synonym drives = "nat \<Rightarrow> ata_drive_t"

text \<open>The 16-bit port instructions.\<close>

record 'w ata_ports = "'w ports" +
  io_inw :: "u16 \<Rightarrow> 'w \<Rightarrow> u16 \<times> 'w"
  io_outw :: "u16 \<Rightarrow> u16 \<Rightarrow> 'w \<Rightarrow> 'w"

definition ainb :: "'w ata_ports \<Rightarrow> u16 \<Rightarrow> 'w \<Rightarrow> u8 \<times> 'w" where "ainb io p w = io_in io p w"
definition aoutb :: "'w ata_ports \<Rightarrow> u16 \<Rightarrow> u8 \<Rightarrow> 'w \<Rightarrow> 'w" where "aoutb io p v w = io_out io p v w"
definition inw :: "'w ata_ports \<Rightarrow> u16 \<Rightarrow> 'w \<Rightarrow> u16 \<times> 'w" where "inw io p w = io_inw io p w"
definition outw :: "'w ata_ports \<Rightarrow> u16 \<Rightarrow> u16 \<Rightarrow> 'w \<Rightarrow> 'w" where "outw io p v w = io_outw io p v w"

fun aouts :: "'w ata_ports \<Rightarrow> (u16 \<times> u8) list \<Rightarrow> 'w \<Rightarrow> 'w" where
  "aouts io [] w = w"
| "aouts io ((p, v) # ps) w = aouts io ps (aoutb io p v w)"

section \<open>The driver\<close>

definition ata_delay :: "'w ata_ports \<Rightarrow> 'w \<Rightarrow> 'w" where
  "ata_delay io w = ((\<lambda>w. snd (ainb io ATA_PRI_ALT_STATUS w)) ^^ 4) w"

fun poll_loop :: "nat \<Rightarrow> 'w ata_ports \<Rightarrow> bool \<Rightarrow> 'w \<Rightarrow> u8 \<times> 'w" where
  "poll_loop 0 io check_drq w = (0xFF, w)"
| "poll_loop (Suc n) io check_drq w =
     (case ainb io ATA_PRI_STATUS w of (st, w1) \<Rightarrow>
        if tst st ATA_SR_ERR then (0xFF, w1)
        else if tst st ATA_SR_BSY then poll_loop n io check_drq w1
        else if check_drq \<and> \<not> tst st ATA_SR_DRQ then poll_loop n io check_drq w1
        else (st, w1))"

definition ata_poll :: "'w ata_ports \<Rightarrow> bool \<Rightarrow> 'w \<Rightarrow> u8 \<times> 'w" where
  "ata_poll io check_drq w = poll_loop 100000 io check_drq (ata_delay io w)"

text \<open>Waiting until a test of the status holds; \<open>False\<close> when it never did.\<close>

fun wait_status :: "nat \<Rightarrow> 'w ata_ports \<Rightarrow> (u8 \<Rightarrow> bool) \<Rightarrow> (u8 \<Rightarrow> bool) \<Rightarrow> 'w \<Rightarrow> bool \<times> 'w" where
  "wait_status 0 io bad good w = (False, w)"
| "wait_status (Suc n) io bad good w =
     (case ainb io ATA_PRI_STATUS w of (st, w1) \<Rightarrow>
        if bad st then (False, w1) else if good st then (True, w1) else wait_status n io bad good w1)"

definition ata_select :: "'w ata_ports \<Rightarrow> bool \<Rightarrow> 'w \<Rightarrow> bool \<times> 'w" where
  "ata_select io slave w =
     wait_status 100000 io (\<lambda>_. False) (\<lambda>st. \<not> tst st ATA_SR_BSY)
       (ata_delay io (aoutb io ATA_PRI_DRIVE (if slave then ATA_DRIVE_SLAVE else ATA_DRIVE_MASTER) w))"

text \<open>The strings of the identify block: bytes swapped, trailing blanks cut; \<^verbatim>\<open>dst\<close> has one byte more.\<close>

definition trim_blanks :: "bytes \<Rightarrow> bytes" where
  "trim_blanks b = rev (dropWhile (\<lambda>c. c = 32) (rev b))"

definition ata_fixstr :: "bytes \<Rightarrow> u16 list \<Rightarrow> bytes option" where
  "ata_fixstr dst src =
     (let cs = concat (map (\<lambda>x. [ucast (drop_bit 8 x), ucast (x AND 0xFF)]) src)
      in do { d1 \<leftarrow> blit dst 0 cs; blit d1 (length (trim_blanks cs)) [0] })"

fun inws :: "nat \<Rightarrow> 'w ata_ports \<Rightarrow> 'w \<Rightarrow> u16 list \<times> 'w" where
  "inws 0 io w = ([], w)"
| "inws (Suc n) io w = (case inw io ATA_PRI_DATA w of (x, w1) \<Rightarrow> case inws n io w1 of (xs, w2) \<Rightarrow> (x # xs, w2))"

definition drive_zero :: ata_drive_t where
  "drive_zero = \<lparr>dr_present = False, dr_slave = False, dr_sectors = 0, dr_model = replicate 41 0, dr_serial = replicate 21 0\<rparr>"

definition ata_identify :: "'w ata_ports \<Rightarrow> bool \<Rightarrow> 'w \<Rightarrow> (ata_drive_t \<times> 'w) option" where
  "ata_identify io slave w =
     (case ata_select io slave w of (ok, w1) \<Rightarrow>
        if \<not> ok then Some (drive_zero, w1)
        else
          (let w2 = ata_delay io (aouts io [(ATA_PRI_SECCOUNT, 0), (ATA_PRI_LBA_LO, 0), (ATA_PRI_LBA_MID, 0), (ATA_PRI_LBA_HI, 0),
                                            (ATA_PRI_CMD, ATA_CMD_IDENTIFY)] w1)
           in case ainb io ATA_PRI_STATUS w2 of (st, w3) \<Rightarrow>
             if st = 0 then Some (drive_zero, w3)
             else case wait_status 100000 io (\<lambda>_. False) (\<lambda>st. \<not> tst st ATA_SR_BSY) w3 of (idle, w4) \<Rightarrow>
               if \<not> idle then Some (drive_zero, w4)
               else case ainb io ATA_PRI_LBA_MID w4 of (mid, w5) \<Rightarrow>
                 if mid \<noteq> 0 then Some (drive_zero, w5)
                 else case ainb io ATA_PRI_LBA_HI w5 of (hi, w6) \<Rightarrow>
                   if hi \<noteq> 0 then Some (drive_zero, w6)
                   else case wait_status 100000 io (\<lambda>st. tst st ATA_SR_ERR) (\<lambda>st. tst st ATA_SR_DRQ) w6 of (drq, w7) \<Rightarrow>
                     if \<not> drq then Some (drive_zero, w7)
                     else case inws 256 io w7 of (idata, w8) \<Rightarrow> do {
                       ser \<leftarrow> ata_fixstr (replicate 21 0) (take 10 (drop 10 idata));
                       mdl \<leftarrow> ata_fixstr (replicate 41 0) (take 20 (drop 27 idata));
                       Some (\<lparr>dr_present = True, dr_slave = slave,
                              dr_sectors = push_bit 16 (ucast (idata ! 61)) OR ucast (idata ! 60), dr_model = mdl, dr_serial = ser\<rparr>, w8) }))"

definition ata_init :: "'w ata_ports \<Rightarrow> 'w \<Rightarrow> (drives \<times> 'w) option" where
  "ata_init io w = do {
     let w1 = ata_delay io (ata_delay io (aoutb io ATA_PRI_DEV_CTRL 0x04 w));
     let w2 = ata_delay io (ata_delay io (aoutb io ATA_PRI_DEV_CTRL 0x00 w1));
     (d0, w3) \<leftarrow> ata_identify io False w2;
     (d1, w4) \<leftarrow> ata_identify io True w3;
     Some ((\<lambda>i. if i = 0 then d0 else d1), w4) }"

definition ata_get :: "int \<Rightarrow> drives \<Rightarrow> ata_drive_t option" where
  "ata_get drive ds = (if drive < 0 \<or> drive > 1 then None else if dr_present (ds (nat drive)) then Some (ds (nat drive)) else None)"

definition ata_drive_count :: "drives \<Rightarrow> int" where
  "ata_drive_count ds = (if dr_present (ds 0) then 1 else 0) + (if dr_present (ds 1) then 1 else 0)"

text \<open>The six registers and the command, as both transfers write them.\<close>

definition ata_command :: "'w ata_ports \<Rightarrow> bool \<Rightarrow> u32 \<Rightarrow> u8 \<Rightarrow> u8 \<Rightarrow> 'w \<Rightarrow> 'w" where
  "ata_command io slave lba count cmd w =
     aouts io [(ATA_PRI_DRIVE, (if slave then 0xF0 else 0xE0) OR ucast (drop_bit 24 lba AND 0x0F)), (ATA_PRI_ERR, 0x00),
               (ATA_PRI_SECCOUNT, count), (ATA_PRI_LBA_LO, ucast (lba AND 0xFF)), (ATA_PRI_LBA_MID, ucast (drop_bit 8 lba AND 0xFF)),
               (ATA_PRI_LBA_HI, ucast (drop_bit 16 lba AND 0xFF)), (ATA_PRI_CMD, cmd)] w"

text \<open>Words in memory, low byte first.\<close>

definition le_bytes :: "u16 list \<Rightarrow> bytes" where
  "le_bytes ws = concat (map (\<lambda>x. [ucast x, ucast (drop_bit 8 x)]) ws)"

fun le_words :: "bytes \<Rightarrow> u16 list" where
  "le_words (a # b # r) = (ucast a OR push_bit 8 (ucast b)) # le_words r"
| "le_words _ = []"

fun read_sectors :: "nat \<Rightarrow> 'w ata_ports \<Rightarrow> bytes \<Rightarrow> nat \<Rightarrow> 'w \<Rightarrow> (int \<times> bytes \<times> 'w) option" where
  "read_sectors 0 io buf off w = Some (0, buf, w)"
| "read_sectors (Suc n) io buf off w =
     (case ata_poll io True w of (st, w1) \<Rightarrow>
        if st = 0xFF then Some (-1, buf, w1)
        else case inws 256 io w1 of (ws, w2) \<Rightarrow> do {
          buf1 \<leftarrow> blit buf off (le_bytes ws);
          read_sectors n io buf1 (off + 512) w2 })"

definition ata_read :: "'w ata_ports \<Rightarrow> int \<Rightarrow> u32 \<Rightarrow> u8 \<Rightarrow> bytes \<Rightarrow> drives \<times> 'w \<Rightarrow> (int \<times> bytes \<times> drives \<times> 'w) option" where
  "ata_read io drive lba count buf = (\<lambda>(ds, w).
     (if drive < 0 \<or> drive > 1 \<or> \<not> dr_present (ds (nat drive)) then Some (-1, buf, ds, w)
      else if count = 0 then Some (0, buf, ds, w)
      else let slave = dr_slave (ds (nat drive)) in
        case ata_select io slave w of (ok, w1) \<Rightarrow>
          if \<not> ok then Some (-1, buf, ds, w1)
          else do {
            (r, buf1, w2) \<leftarrow> read_sectors (unat count) io buf 0 (ata_command io slave lba count ATA_CMD_READ_PIO w1);
            Some (r, buf1, ds, w2) }))"

fun write_sectors :: "nat \<Rightarrow> 'w ata_ports \<Rightarrow> bytes \<Rightarrow> nat \<Rightarrow> 'w \<Rightarrow> (int \<times> 'w) option" where
  "write_sectors 0 io buf off w = Some (0, w)"
| "write_sectors (Suc n) io buf off w =
     (case ata_poll io True w of (st, w1) \<Rightarrow>
        if st = 0xFF then Some (-1, w1)
        else do {
          sec \<leftarrow> slice buf off 512;
          write_sectors n io buf (off + 512) (fold (outw io ATA_PRI_DATA) (le_words sec) w1) })"

definition ata_write :: "'w ata_ports \<Rightarrow> int \<Rightarrow> u32 \<Rightarrow> u8 \<Rightarrow> bytes \<Rightarrow> drives \<times> 'w \<Rightarrow> (int \<times> drives \<times> 'w) option" where
  "ata_write io drive lba count buf = (\<lambda>(ds, w).
     (if drive < 0 \<or> drive > 1 \<or> \<not> dr_present (ds (nat drive)) then Some (-1, ds, w)
      else if count = 0 then Some (0, ds, w)
      else let slave = dr_slave (ds (nat drive)) in
        case ata_select io slave w of (ok, w1) \<Rightarrow>
          if \<not> ok then Some (-1, ds, w1)
          else do {
            (r, w2) \<leftarrow> write_sectors (unat count) io buf 0 (ata_command io slave lba count ATA_CMD_WRITE_PIO w1);
            if r < 0 then Some (-1, ds, w2)
            else Some (0, ds, snd (ata_poll io False (aoutb io ATA_PRI_CMD ATA_CMD_FLUSH w2))) }))"

definition info_entry :: "nat \<Rightarrow> ata_drive_t \<Rightarrow> vga \<Rightarrow> vga option" where
  "info_entry i d v = do {
     v1 \<leftarrow> vga_puts (lit ''  Drive '') v; v2 \<leftarrow> vga_put_dec (of_nat i) v1;
     v3 \<leftarrow> vga_puts (if dr_slave d then lit '' (slave):  '' else lit '' (master): '') v2;
     v4 \<leftarrow> vga_puts (dr_model d) v3; v5 \<leftarrow> vga_puts (10 # lit ''    Serial: '') v4;
     v6 \<leftarrow> vga_puts (dr_serial d) v5; v7 \<leftarrow> vga_puts (lit ''  Sectors: '') v6; v8 \<leftarrow> vga_put_dec (dr_sectors d) v7;
     v9 \<leftarrow> vga_puts (lit '' ('') v8; v10 \<leftarrow> vga_put_dec (dr_sectors d div 2 div 1024) v9;
     vga_puts (lit_lines ['' MB)'']) v10 }"

definition ata_print_info :: "drives \<Rightarrow> vga \<Rightarrow> vga option" where
  "ata_print_info ds v = do {
     v1 \<leftarrow> vga_puts (10 # lit_lines [''  === ATA Drives ==='', '''']) (vga_set_color VGA_YELLOW VGA_BLACK v);
     let v2 = vga_set_color VGA_WHITE VGA_BLACK v1;
     v3 \<leftarrow> (if dr_present (ds 0) then info_entry 0 (ds 0) v2 else Some v2);
     v4 \<leftarrow> (if dr_present (ds 1) then info_entry 1 (ds 1) v3 else Some v3);
     v5 \<leftarrow> (if ata_drive_count ds = 0 then vga_puts (lit_lines [''  No ATA drives found.'']) v4 else Some v4);
     Some (vga_putchar 10 v5) }"

section \<open>Words and bytes\<close>

lemma length_le_bytes [simp]: "length (le_bytes ws) = 2 * length ws"
  by (induction ws) (simp_all add: le_bytes_def)

lemma le_words_bytes [simp]: "le_words (le_bytes ws) = ws"
  by (induction ws) (simp_all add: le_bytes_def le_word_join)

lemma le_bytes_words [simp]: "even (length b) \<Longrightarrow> le_bytes (le_words b) = b"
proof (induction b rule: le_words.induct)
  case (1 a b r)
  then show ?case by (simp add: le_bytes_def le_byte_split)
qed (simp_all add: le_bytes_def)

lemma length_le_words [simp]: "length (le_words b) = length b div 2"
  by (induction b rule: le_words.induct) simp_all

section \<open>A device of sectors\<close>

text \<open>
  What \<^verbatim>\<open>fat12.c\<close> and \<^verbatim>\<open>ext2.c\<close> use of the driver: one sector at a time, into and from 512-byte
  buffers. The inner \<open>None\<close> and \<open>False\<close> are the result -1.
\<close>

record 'd dev =
  dv_rd :: "int \<Rightarrow> u32 \<Rightarrow> 'd \<Rightarrow> (bytes option \<times> 'd) option"
  dv_wr :: "int \<Rightarrow> u32 \<Rightarrow> bytes \<Rightarrow> 'd \<Rightarrow> (bool \<times> 'd) option"

definition ata_dev :: "'w ata_ports \<Rightarrow> (drives \<times> 'w) dev" where
  "ata_dev io = \<lparr>dv_rd = (\<lambda>drive lba st. do {
                     (r, buf, st') \<leftarrow> ata_read io drive lba 1 (replicate 512 0) st;
                     Some (if r < 0 then None else Some buf, st') }),
                 dv_wr = (\<lambda>drive lba b st. do { (r, st') \<leftarrow> ata_write io drive lba 1 b st; Some (\<not> r < 0, st') })\<rparr>"

locale block_device =
  fixes dv :: "'d dev" and drive :: int and nsec :: nat and sec :: "'d \<Rightarrow> nat \<Rightarrow> bytes" and ok :: "'d \<Rightarrow> bool"
  assumes rd: "ok d \<Longrightarrow> unat lba < nsec \<Longrightarrow> \<exists>d'. dv_rd dv drive lba d = Some (Some (sec d (unat lba)), d') \<and> ok d' \<and> sec d' = sec d"
    and wr: "ok d \<Longrightarrow> unat lba < nsec \<Longrightarrow> length b = 512 \<Longrightarrow>
      \<exists>d'. dv_wr dv drive lba b d = Some (True, d') \<and> ok d' \<and> sec d' = (sec d)(unat lba := b)"
    and len: "ok d \<Longrightarrow> length (sec d n) = 512"
begin

lemma write_read:
  assumes "ok d" "unat lba < nsec" "length b = 512"
  shows "\<exists>d1 d2. dv_wr dv drive lba b d = Some (True, d1) \<and> dv_rd dv drive lba d1 = Some (Some b, d2) \<and> ok d2"
  using wr [OF assms] rd [OF _ assms(2)] by fastforce

end

section \<open>A controller\<close>

text \<open>
  A controller that follows the protocol and is always ready: a command latches the address from the registers, and each access to
  the data register moves one word and goes on to the next.
\<close>

record chip =
  c_disk :: "nat \<Rightarrow> nat \<Rightarrow> u16"
  c_reg :: "u16 \<Rightarrow> u8"
  c_lba :: nat
  c_pos :: nat

definition reg_lba :: "(u16 \<Rightarrow> u8) \<Rightarrow> nat" where
  "reg_lba r = unat (r 0x1F3) + 256 * unat (r 0x1F4) + 65536 * unat (r 0x1F5) + 16777216 * (unat (r 0x1F6) mod 16)"

definition chip_io :: "chip ata_ports" where
  "chip_io = \<lparr>io_in = (\<lambda>p w. (if p = 0x1F7 \<or> p = 0x3F6 then 0x48 else c_reg w p, w)),
     io_out = (\<lambda>p v w. let w1 = w\<lparr>c_reg := (c_reg w)(p := v)\<rparr> in
        if p = 0x1F7 \<and> (v = 0x20 \<or> v = 0x30) then w1\<lparr>c_lba := reg_lba (c_reg w1), c_pos := 0\<rparr> else w1),
     io_hlt = (\<lambda>w. (0, w)),
     io_inw = (\<lambda>p w. (c_disk w (c_lba w + c_pos w div 256) (c_pos w mod 256), w\<lparr>c_pos := c_pos w + 1\<rparr>)),
     io_outw = (\<lambda>p v w. let n = c_lba w + c_pos w div 256 in
        w\<lparr>c_disk := (c_disk w)(n := (c_disk w n)(c_pos w mod 256 := v)), c_pos := c_pos w + 1\<rparr>)\<rparr>"

lemma chip_status [simp]: "ainb chip_io ATA_PRI_STATUS w = (0x48, w)" "ainb chip_io ATA_PRI_ALT_STATUS w = (0x48, w)"
  by (simp_all add: chip_io_def ainb_def ata_consts)

lemma chip_delay [simp]: "ata_delay chip_io w = w"
  by (simp add: ata_delay_def eval_nat_numeral)

lemma chip_poll [simp]: "ata_poll chip_io drq w = (0x48, w)"
proof -
  have "poll_loop (Suc n) chip_io drq w = (0x48, w)" for n by (simp add: tst_def ata_consts(12-14))
  from this [of 99999] show ?thesis by (simp add: ata_poll_def)
qed

lemma chip_select: "\<exists>w1. ata_select chip_io slave w = (True, w1) \<and> c_disk w1 = c_disk w"
proof -
  have "wait_status (Suc n) chip_io (\<lambda>_. False) (\<lambda>st. \<not> tst st ATA_SR_BSY) v = (True, v)" for n v
    by (simp add: tst_def ata_consts(12-14))
  from this [of 99999] show ?thesis by (simp add: ata_select_def aoutb_def) (simp add: chip_io_def ata_consts Let_def)
qed

lemma lba_bytes:
  assumes "unat (lba :: u32) < 2 ^ 28"
  shows "unat (ucast (lba AND 0xFF) :: u8) + 256 * unat (ucast (drop_bit 8 lba AND 0xFF) :: u8)
     + 65536 * unat (ucast (drop_bit 16 lba AND 0xFF) :: u8)
     + 16777216 * (unat ((if sl then 0xF0 else 0xE0) OR (ucast (drop_bit 24 lba AND 0x0F) :: u8)) mod 16) = unat lba"
proof -
  have lt: "unat lba mod 4294967296 = unat lba" using unat_u32_lt [of lba] by simp
  have b: "unat (ucast (drop_bit k lba AND 0xFF) :: u8) = unat lba div 2 ^ k mod 256" for k
    by (simp add: and_masks unsigned_ucast_eq unsigned_take_bit_eq unsigned_drop_bit_eq take_bit_take_bit)
       (simp add: take_bit_eq_mod drop_bit_eq_div lt)
  have m: "unat (x :: u8) mod 16 = unat (x AND 0x0F)" for x by (simp add: and_masks take_bit_eq_mod unat_mod)
  have "(ucast (drop_bit 24 lba AND 0x0F) :: u8) AND 0x0F = ucast (drop_bit 24 lba AND 0x0F)"
    by (intro bit_word_eqI) (auto simp: bit_simps and_masks)
  then have "((if sl then 0xF0 else 0xE0) OR (ucast (drop_bit 24 lba AND 0x0F) :: u8)) AND 0x0F = ucast (drop_bit 24 lba AND 0x0F)"
    unfolding bit.conj_disj_distrib2 by simp
  then have h: "unat ((if sl then 0xF0 else 0xE0) OR (ucast (drop_bit 24 lba AND 0x0F) :: u8)) mod 16 = unat lba div 2 ^ 24 mod 16"
    unfolding m by (simp add: and_masks unsigned_ucast_eq unsigned_take_bit_eq unsigned_drop_bit_eq take_bit_take_bit)
       (simp add: take_bit_eq_mod drop_bit_eq_div lt)
  have sp: "x mod 256 + 256 * (x div 256 mod 256) + 65536 * (x div 65536 mod 256) + 16777216 * (x div 16777216) = x" for x :: nat
  proof -
    define y z where yz: "y = x div 256" "z = y div 256"
    have "x = 256 * y + x mod 256" "y = 256 * z + y mod 256" "z = 256 * (z div 256) + z mod 256" unfolding yz by simp_all
    moreover have d: "x div 65536 = z" "x div 16777216 = z div 256" unfolding yz by (simp_all flip: div_mult2_eq)
    ultimately show ?thesis unfolding yz(1) [symmetric] d by linarith
  qed
  have "unat lba div 2 ^ 24 mod 16 = unat lba div 16777216" using assms by simp
  then show ?thesis using b [of 0] b [of 8] b [of 16] h sp [of "unat lba"] by simp
qed

lemma chip_command:
  assumes "unat lba < 2 ^ 28" "cmd = 0x20 \<or> cmd = 0x30"
  shows "\<exists>w1. ata_command chip_io slave lba count cmd w = w1 \<and> c_disk w1 = c_disk w \<and> c_lba w1 = unat lba \<and> c_pos w1 = 0"
  using lba_bytes [OF assms(1), of slave] assms(2)
  by (auto simp: ata_command_def aoutb_def chip_io_def ata_consts reg_lba_def Let_def)

lemma chip_inws:
  "c_pos w mod 256 + n \<le> 256 \<Longrightarrow> inws n chip_io w =
     (map (c_disk w (c_lba w + c_pos w div 256)) [c_pos w mod 256..<c_pos w mod 256 + n], w\<lparr>c_pos := c_pos w + n\<rparr>)"
proof (induction n arbitrary: w)
  case (Suc n)
  define w1 where "w1 = w\<lparr>c_pos := c_pos w + 1\<rparr>"
  have in1: "inw chip_io ATA_PRI_DATA w = (c_disk w (c_lba w + c_pos w div 256) (c_pos w mod 256), w1)"
    by (simp add: inw_def chip_io_def w1_def)
  show ?case
  proof (cases n)
    case 0
    then show ?thesis using in1 by (simp add: w1_def)
  next
    case (Suc m)
    with Suc.prems have m: "c_pos w mod 256 < 255" by simp
    then have p: "Suc (c_pos w) mod 256 = Suc (c_pos w mod 256)" "Suc (c_pos w) div 256 = c_pos w div 256"
      by (simp_all add: mod_Suc div_Suc)
    have "inws n chip_io w1 = (map (c_disk w1 (c_lba w1 + c_pos w1 div 256)) [c_pos w1 mod 256..<c_pos w1 mod 256 + n], w1\<lparr>c_pos := c_pos w1 + n\<rparr>)"
      using Suc.IH [of w1] Suc.prems p by (simp add: w1_def)
    moreover have "[c_pos w mod 256..<c_pos w mod 256 + Suc n] = c_pos w mod 256 # [Suc (c_pos w mod 256)..<Suc (c_pos w mod 256) + n]"
      by (subst upt_conv_Cons) simp_all
    ultimately show ?thesis using in1 p by (simp add: w1_def del: upt_Suc)
  qed
qed simp

lemma chip_outw:
  "outw chip_io ATA_PRI_DATA v w = (let n = c_lba w + c_pos w div 256 in
     w\<lparr>c_disk := (c_disk w)(n := (c_disk w n)(c_pos w mod 256 := v)), c_pos := c_pos w + 1\<rparr>)"
  by (simp add: outw_def chip_io_def)

lemma chip_outws:
  "c_pos w + length ws \<le> 256 \<Longrightarrow> c_disk (fold (outw chip_io ATA_PRI_DATA) ws w) =
     (c_disk w)(c_lba w := (\<lambda>i. if c_pos w \<le> i \<and> i < c_pos w + length ws then ws ! (i - c_pos w) else c_disk w (c_lba w) i))"
proof (induction ws arbitrary: w)
  case (Cons v ws)
  define w1 where "w1 = outw chip_io ATA_PRI_DATA v w"
  have w1: "c_disk w1 = (c_disk w)(c_lba w := (c_disk w (c_lba w))(c_pos w := v))" "c_lba w1 = c_lba w" "c_pos w1 = c_pos w + 1"
    using Cons.prems by (simp_all add: w1_def chip_outw Let_def)
  have IH: "c_disk (fold (outw chip_io ATA_PRI_DATA) ws w1) = (c_disk w1)(c_lba w := (\<lambda>i. if c_pos w + 1 \<le> i \<and> i < c_pos w + 1 + length ws
      then ws ! (i - (c_pos w + 1)) else c_disk w1 (c_lba w) i))"
    using Cons.IH [of w1, unfolded w1(2,3)] Cons.prems by (simp add: fun_upd_def cong: if_cong)
  have f: "fold (outw chip_io ATA_PRI_DATA) (v # ws) w = fold (outw chip_io ATA_PRI_DATA) ws w1" by (simp add: w1_def)
  have e: "(if c_pos w + 1 \<le> i \<and> i < c_pos w + 1 + length ws then ws ! (i - (c_pos w + 1)) else c_disk w1 (c_lba w) i)
      = (if c_pos w \<le> i \<and> i < c_pos w + length (v # ws) then (v # ws) ! (i - c_pos w) else c_disk w (c_lba w) i)" for i
    by (cases "i = c_pos w") (auto simp: w1 nth_Cons')
  show ?case unfolding f IH e by (simp add: w1(1))
qed (auto simp: fun_eq_iff)

definition chip_sec :: "drives \<times> chip \<Rightarrow> nat \<Rightarrow> bytes" where
  "chip_sec st n = le_bytes (map (c_disk (snd st) n) [0..<256])"

lemma chip_sec_cong: "c_disk w' = c_disk w \<Longrightarrow> chip_sec (ds, w') = chip_sec (ds, w)"
  by (rule ext) (simp add: chip_sec_def)

definition chip_ok :: "drives \<times> chip \<Rightarrow> bool" where
  "chip_ok st \<longleftrightarrow> dr_present (fst st 0)"

lemma chip_read:
  assumes "dr_present (ds 0)" "unat lba < 2 ^ 28"
  shows "\<exists>w'. ata_read chip_io 0 lba 1 (replicate 512 0) (ds, w) = Some (0, chip_sec (ds, w) (unat lba), ds, w') \<and> c_disk w' = c_disk w"
proof -
  from chip_select [of "dr_slave (ds 0)" w] obtain w1 where w1: "ata_select chip_io (dr_slave (ds 0)) w = (True, w1)" "c_disk w1 = c_disk w"
    by blast
  from chip_command [OF assms(2), of "0x20" "dr_slave (ds 0)" 1 w1] obtain w2 where
    w2: "ata_command chip_io (dr_slave (ds 0)) lba 1 0x20 w1 = w2" "c_disk w2 = c_disk w" "c_lba w2 = unat lba" "c_pos w2 = 0"
    using w1(2) by auto
  have "inws 256 chip_io w2 = (map (c_disk w (unat lba)) [0..<256], w2\<lparr>c_pos := 256\<rparr>)"
    using chip_inws [of w2 256] w2 by simp
  then show ?thesis using assms(1) w1 w2
    by (simp add: ata_read_def ATA_CMD_READ_PIO_def blit_def chip_sec_def)
qed

lemma chip_write:
  assumes "dr_present (ds 0)" "unat lba < 2 ^ 28" "length b = 512"
  shows "\<exists>w'. ata_write chip_io 0 lba 1 b (ds, w) = Some (0, ds, w') \<and> chip_sec (ds, w') = (chip_sec (ds, w))(unat lba := b)"
proof -
  from chip_select [of "dr_slave (ds 0)" w] obtain w1 where w1: "ata_select chip_io (dr_slave (ds 0)) w = (True, w1)" "c_disk w1 = c_disk w"
    by blast
  from chip_command [OF assms(2), of "0x30" "dr_slave (ds 0)" 1 w1] obtain w2 where
    w2: "ata_command chip_io (dr_slave (ds 0)) lba 1 0x30 w1 = w2" "c_disk w2 = c_disk w" "c_lba w2 = unat lba" "c_pos w2 = 0"
    using w1(2) by auto
  define w3 where "w3 = fold (outw chip_io ATA_PRI_DATA) (le_words b) w2"
  have w3: "fold (outw chip_io ATA_PRI_DATA) (le_words b) w2 = w3"
      "c_disk w3 = (c_disk w)(unat lba := (\<lambda>i. if i < 256 then le_words b ! i else c_disk w (unat lba) i))"
    using chip_outws [of w2 "le_words b"] assms(3) unfolding w3_def w2(2-4) by (simp_all cong: if_cong)
  define w4 where "w4 = aoutb chip_io ATA_PRI_CMD ATA_CMD_FLUSH w3"
  have w4: "c_disk w4 = c_disk w3" by (simp add: w4_def aoutb_def chip_io_def ata_consts Let_def)
  have sl: "slice b 0 512 = Some b" using assms(3) by (simp add: slice_def)
  have run: "ata_write chip_io 0 lba 1 b (ds, w) = Some (0, ds, w4)"
    using assms(1) w1 w2 w3(1) sl by (simp add: ata_write_def ATA_CMD_WRITE_PIO_def w4_def)
  have "map (\<lambda>i. if i < 256 then le_words b ! i else c_disk w (unat lba) i) [0..<256] = le_words b"
    using assms(3) by (intro nth_equalityI) auto
  then have "chip_sec (ds, w4) = (chip_sec (ds, w))(unat lba := b)"
    using assms(3) by (auto simp: chip_sec_def w4 w3(2) fun_eq_iff)
  with run show ?thesis by blast
qed

interpretation disk: block_device "ata_dev chip_io" 0 "2 ^ 28" chip_sec chip_ok
proof (unfold_locales, goal_cases)
  case (1 d lba)
  obtain ds w where d: "d = (ds, w)" by (cases d)
  with chip_read [of ds lba w] 1 obtain w' where
    "ata_read chip_io 0 lba 1 (replicate 512 0) (ds, w) = Some (0, chip_sec (ds, w) (unat lba), ds, w')" "c_disk w' = c_disk w"
    by (auto simp: chip_ok_def)
  with 1 d chip_sec_cong [of w' w ds] show ?case by (simp add: ata_dev_def chip_ok_def)
next
  case (2 d lba b)
  obtain ds w where d: "d = (ds, w)" by (cases d)
  with chip_write [of ds lba b w] 2 show ?case by (auto simp: ata_dev_def chip_ok_def)
next
  case (3 d n)
  then show ?case by (simp add: chip_sec_def)
qed


definition drive0 :: drives where
  "drive0 = (\<lambda>_. drive_zero\<lparr>dr_present := True\<rparr>)"

definition chip0 :: chip where
  "chip0 = \<lparr>c_disk = (\<lambda>_ _. 0), c_reg = (\<lambda>_. 0), c_lba = 0, c_pos = 0\<rparr>"


end
