(* ===== verification/Fat12.thy ===== *)
theory Fat12
  imports KString Ata
begin

text \<open>
  The FAT12 file system, \<^verbatim>\<open>src/fat12.c\<close>, over a disk of sectors: boot sector, the packed allocation table in memory,
  the root directory, and reading, writing and deleting files. \<^verbatim>\<open>g_sector\<close> is filled by a read before every use and is not
  part of the state; the working sector is a local value.
\<close>

section \<open>Structures on the disk\<close>

record bpb_t =
  jmp :: bytes
  oem :: bytes
  bytes_per_sector :: u16
  sectors_per_cluster :: u8
  reserved_sectors :: u16
  fat_count :: u8
  root_entry_count :: u16
  total_sectors_16 :: u16
  media_type :: u8
  sectors_per_fat :: u16
  sectors_per_track :: u16
  head_count :: u16
  hidden_sectors :: u32
  total_sectors_32 :: u32
  drive_number :: u8
  reserved1 :: u8
  boot_sig :: u8
  volume_id :: u32
  volume_label :: bytes
  fs_type :: bytes

text \<open>The packed structure as 62 bytes, and back.\<close>

definition bpb_bytes :: "bpb_t \<Rightarrow> bytes" where
  "bpb_bytes b = jmp b @ oem b @ wr16 (bytes_per_sector b) @ [sectors_per_cluster b] @ wr16 (reserved_sectors b) @ [fat_count b]
     @ wr16 (root_entry_count b) @ wr16 (total_sectors_16 b) @ [media_type b] @ wr16 (sectors_per_fat b)
     @ wr16 (sectors_per_track b) @ wr16 (head_count b) @ wr32 (hidden_sectors b) @ wr32 (total_sectors_32 b)
     @ [drive_number b, reserved1 b, boot_sig b] @ wr32 (volume_id b) @ volume_label b @ fs_type b"

definition bpb_of :: "bytes \<Rightarrow> bpb_t" where
  "bpb_of s = \<lparr>jmp = take 3 s, oem = take 8 (drop 3 s), bytes_per_sector = rd16 s 11, sectors_per_cluster = s ! 13,
     reserved_sectors = rd16 s 14, fat_count = s ! 16, root_entry_count = rd16 s 17, total_sectors_16 = rd16 s 19, media_type = s ! 21,
     sectors_per_fat = rd16 s 22, sectors_per_track = rd16 s 24, head_count = rd16 s 26, hidden_sectors = rd32 s 28,
     total_sectors_32 = rd32 s 32, drive_number = s ! 36, reserved1 = s ! 37, boot_sig = s ! 38, volume_id = rd32 s 39,
     volume_label = take 11 (drop 43 s), fs_type = take 8 (drop 54 s)\<rparr>"

record dirent_t =
  de_name :: bytes
  de_ext :: bytes
  de_attr :: u8
  de_reserved :: bytes
  de_time :: u16
  de_date :: u16
  de_start_cluster :: u16
  de_file_size :: u32

definition dirent_bytes :: "dirent_t \<Rightarrow> bytes" where
  "dirent_bytes e = de_name e @ de_ext e @ [de_attr e] @ de_reserved e @ wr16 (de_time e) @ wr16 (de_date e)
     @ wr16 (de_start_cluster e) @ wr32 (de_file_size e)"

definition dirent_of :: "bytes \<Rightarrow> dirent_t" where
  "dirent_of s = \<lparr>de_name = take 8 s, de_ext = take 3 (drop 8 s), de_attr = s ! 11, de_reserved = take 10 (drop 12 s),
     de_time = rd16 s 22, de_date = rd16 s 24, de_start_cluster = rd16 s 26, de_file_size = rd32 s 28\<rparr>"

text \<open>Entry \<open>i\<close> of a directory sector.\<close>

definition dir_at :: "bytes \<Rightarrow> nat \<Rightarrow> bytes" where
  "dir_at sec i = take 32 (drop (32 * i) sec)"

definition ATTR_HIDDEN :: u8 where "ATTR_HIDDEN = 0x02"
definition ATTR_SYSTEM :: u8 where "ATTR_SYSTEM = 0x04"
definition ATTR_VOLUME :: u8 where "ATTR_VOLUME = 0x08"
definition ATTR_DIR :: u8 where "ATTR_DIR = 0x10"
definition ATTR_ARCHIVE :: u8 where "ATTR_ARCHIVE = 0x20"
definition DIRENT_FREE :: u8 where "DIRENT_FREE = 0xE5"
definition DIRENT_END :: u8 where "DIRENT_END = 0x00"
definition FAT_BUF_SIZE :: nat where "FAT_BUF_SIZE = 9 * 512"

record fat12_entry_t =
  fe_name :: bytes
  fe_size :: u32
  fe_start_cluster :: u16
  fe_attr :: u8
  fe_is_dir :: bool

record fat12 =
  g_drive :: int
  g_mounted :: bool
  g_bpb :: bpb_t
  g_fat_start :: u32
  g_root_start :: u32
  g_data_start :: u32
  g_root_sectors :: u32
  g_total_clusters :: u32
  g_fat :: bytes
  g_fat_dirty :: bool

section \<open>The allocation table\<close>

definition cluster_to_lba :: "fat12 \<Rightarrow> u16 \<Rightarrow> u32" where
  "cluster_to_lba st cluster = g_data_start st + (ucast cluster - 2) * ucast (sectors_per_cluster (g_bpb st))"

text \<open>Two entries share three bytes; entry \<open>n\<close> begins at byte \<open>n + n / 2\<close>.\<close>

definition fat_idx :: "u16 \<Rightarrow> nat" where
  "fat_idx n = unat n + unat n div 2"

definition fat_get :: "u16 \<Rightarrow> fat12 \<Rightarrow> u16 option" where
  "fat_get n st = do {
     b \<leftarrow> slice (g_fat st) (fat_idx n) 2;
     let val = rd16 b 0;
     Some (if odd (unat n) then drop_bit 4 val else val AND 0x0FFF) }"

definition fat_set :: "u16 \<Rightarrow> u16 \<Rightarrow> fat12 \<Rightarrow> fat12 option" where
  "fat_set n val st = do {
     b \<leftarrow> slice (g_fat st) (fat_idx n) 2;
     f \<leftarrow> blit (g_fat st) (fat_idx n)
           (if odd (unat n) then [(b ! 0 AND 0x0F) OR push_bit 4 (ucast (val AND 0x0F)), ucast (drop_bit 4 val AND 0xFF)]
            else [ucast (val AND 0xFF), (b ! 1 AND 0xF0) OR ucast (drop_bit 8 val AND 0x0F)]);
     Some (st\<lparr>g_fat := f, g_fat_dirty := True\<rparr>) }"

text \<open>
  The index of the source is 16 bits wide and the bound 32; before it could wrap, the scan leaves the table.
\<close>

definition fat_alloc :: "fat12 \<Rightarrow> (u16 \<times> fat12) option" where
  "fat_alloc st = do {
     r \<leftarrow> scan (\<lambda>i. map_option (\<lambda>v. v = 0) (fat_get (of_nat i) st)) 2 (unat (g_total_clusters st + 2));
     case r of
       None \<Rightarrow> Some (0, st)
     | Some i \<Rightarrow> do { st1 \<leftarrow> fat_set (of_nat i) 0xFFF st; Some (of_nat i, st1) } }"

fun fat_flush_loop :: "'d dev \<Rightarrow> fat12 \<Rightarrow> (nat \<times> nat) list \<Rightarrow> 'd \<Rightarrow> (bool \<times> 'd) option" where
  "fat_flush_loop dv st [] d = Some (True, d)"
| "fat_flush_loop dv st ((copy, s) # r) d = do {
     sec \<leftarrow> slice (g_fat st) (s * 512) 512;
     (ok, d1) \<leftarrow> dv_wr dv (g_drive st) (g_fat_start st + of_nat (copy * unat (sectors_per_fat (g_bpb st)) + s)) sec d;
     if ok then fat_flush_loop dv st r d1 else Some (False, d1) }"

definition fat_flush :: "'d dev \<Rightarrow> fat12 \<Rightarrow> 'd \<Rightarrow> (int \<times> fat12 \<times> 'd) option" where
  "fat_flush dv st d =
     (if \<not> g_fat_dirty st then Some (0, st, d)
      else do {
        (ok, d1) \<leftarrow> fat_flush_loop dv st (List.product [0..<unat (fat_count (g_bpb st))] [0..<unat (sectors_per_fat (g_bpb st))]) d;
        if ok then Some (0, st\<lparr>g_fat_dirty := False\<rparr>, d1) else Some (-1, st, d1) })"

section \<open>Names\<close>

definition upper :: "u8 \<Rightarrow> u8" where
  "upper c = (if 97 \<le> c \<and> c \<le> 122 then c - 32 else c)"

text \<open>Copies at most \<open>room\<close> characters, up to a stopping one; also the rest of the name.\<close>

fun copy_83 :: "(u8 \<Rightarrow> bool) \<Rightarrow> nat \<Rightarrow> bytes \<Rightarrow> (bytes \<times> bytes) option" where
  "copy_83 stop room [] = None"
| "copy_83 stop room (c # cs) =
     (if c = 0 \<or> stop c then Some ([], c # cs)
      else case room of
        0 \<Rightarrow> Some ([], c # cs)
      | Suc m \<Rightarrow> do { (xs, r) \<leftarrow> copy_83 stop m cs; Some (upper c # xs, r) })"

definition pad_blank :: "nat \<Rightarrow> bytes \<Rightarrow> bytes" where
  "pad_blank n xs = xs @ replicate (n - length xs) 32"

definition name_to_83 :: "bytes \<Rightarrow> bytes option" where
  "name_to_83 name = do {
     (b, r) \<leftarrow> copy_83 (\<lambda>c. c = 46) 8 name;
     case r of
       [] \<Rightarrow> None
     | c # r' \<Rightarrow>
         if c = 46 then do { (e, _) \<leftarrow> copy_83 (\<lambda>_. False) 3 r'; Some (pad_blank 8 b @ pad_blank 3 e) }
         else Some (pad_blank 8 b @ replicate 3 32) }"

definition name_from_83 :: "bytes \<Rightarrow> bytes \<Rightarrow> bytes option" where
  "name_from_83 raw out =
     blit out 0 (takeWhile (\<lambda>c. c \<noteq> 32) (take 8 raw)
       @ (if raw ! 8 \<noteq> 32 then 46 # takeWhile (\<lambda>c. c \<noteq> 32) (take 3 (drop 8 raw)) else []) @ [0])"

section \<open>Mounting\<close>

fun load_fat :: "'d dev \<Rightarrow> int \<Rightarrow> nat list \<Rightarrow> fat12 \<Rightarrow> 'd \<Rightarrow> (bool \<times> fat12 \<times> 'd) option" where
  "load_fat dv drive [] st d = Some (True, st, d)"
| "load_fat dv drive (s # r) st d = do {
     (x, d1) \<leftarrow> dv_rd dv drive (g_fat_start st + of_nat s) d;
     case x of
       None \<Rightarrow> Some (False, st, d1)
     | Some sec \<Rightarrow> do { f \<leftarrow> blit (g_fat st) (s * 512) sec; load_fat dv drive r (st\<lparr>g_fat := f\<rparr>) d1 } }"

definition fat_layout :: "fat12 \<Rightarrow> fat12 option" where
  "fat_layout st =
     (let b = g_bpb st;
          fat_start = ucast (reserved_sectors b);
          root_start = fat_start + ucast (fat_count b) * ucast (sectors_per_fat b);
          root_sectors = (ucast (root_entry_count b) * 32 + 511) div 512;
          data_start = root_start + root_sectors;
          total = (if total_sectors_16 b \<noteq> 0 then ucast (total_sectors_16 b) else total_sectors_32 b)
      in if sectors_per_cluster b = 0 then None
         else Some (st\<lparr>g_fat_start := fat_start, g_root_start := root_start, g_root_sectors := root_sectors, g_data_start := data_start,
                      g_total_clusters := (total - data_start) div ucast (sectors_per_cluster b)\<rparr>))"

text \<open>
  The boot sector is read into \<^verbatim>\<open>g_bpb\<close>, which has 62 bytes: the other 450 bytes overwrite the variables the linker
  placed behind it. \<open>spill\<close> stands for what they do to the variables of this file.
\<close>

definition fat12_mount :: "(bytes \<Rightarrow> fat12 \<Rightarrow> fat12) \<Rightarrow> 'd dev \<Rightarrow> int \<Rightarrow> fat12 \<Rightarrow> 'd \<Rightarrow> (int \<times> fat12 \<times> 'd) option" where
  "fat12_mount spill dv drive st0 d = do {
     let st = st0\<lparr>g_mounted := False, g_drive := drive\<rparr>;
     (x, d1) \<leftarrow> dv_rd dv drive 0 d;
     case x of
       None \<Rightarrow> Some (-1, st, d1)
     | Some sec \<Rightarrow> do {
         let st1 = spill (drop 62 sec) (st\<lparr>g_bpb := bpb_of (take 62 sec)\<rparr>);
         let b = g_bpb st1;
         c1 \<leftarrow> kstrncmp (fs_type b) (lit ''FAT12'') 5;
         c2 \<leftarrow> kstrncmp (fs_type b) (lit ''FAT   '') 5;
         if c1 \<noteq> 0 \<and> c2 \<noteq> 0 \<and> (bytes_per_sector b \<noteq> 512 \<or> fat_count b < 1 \<or> fat_count b > 2 \<or> root_entry_count b = 0)
         then Some (-1, st1, d1)
         else do {
           st2 \<leftarrow> fat_layout st1;
           (ok, st3, d2) \<leftarrow> load_fat dv drive [0..<unat (sectors_per_fat b)] st2 d1;
           if \<not> ok then Some (-1, st3, d2)
           else Some (0, st3\<lparr>g_mounted := True, g_fat_dirty := False\<rparr>, d2) } } }"

definition fat12_mounted :: "fat12 \<Rightarrow> bool" where
  "fat12_mounted st = g_mounted st"

section \<open>The root directory\<close>

text \<open>
  One sector of \<^verbatim>\<open>fat12_list\<close>: the entries from \<open>i\<close> on; the first result tells that the end mark was met.
\<close>

definition list_entry :: "bytes \<Rightarrow> fat12_entry_t \<Rightarrow> fat12_entry_t option" where
  "list_entry raw e = do {
     nm \<leftarrow> name_from_83 raw (fe_name e);
     let de = dirent_of raw;
     Some \<lparr>fe_name = nm, fe_size = de_file_size de, fe_start_cluster = de_start_cluster de, fe_attr = de_attr de,
           fe_is_dir = tst (de_attr de) ATTR_DIR\<rparr> }"

fun list_sector :: "bytes \<Rightarrow> nat list \<Rightarrow> int \<Rightarrow> fat12_entry_t list \<Rightarrow> nat \<Rightarrow> (bool \<times> fat12_entry_t list \<times> nat) option" where
  "list_sector sec [] mx entries count = Some (False, entries, count)"
| "list_sector sec (i # r) mx entries count =
     (if \<not> int count < mx then Some (False, entries, count)
      else let raw = dir_at sec i; first = raw ! 0; attr = de_attr (dirent_of raw) in
        if first = DIRENT_END then Some (True, entries, count)
        else if first = DIRENT_FREE \<or> tst attr (ATTR_VOLUME OR ATTR_SYSTEM) \<or> tst attr ATTR_HIDDEN
        then list_sector sec r mx entries count
        else if count < length entries
        then do { e \<leftarrow> list_entry raw (entries ! count); list_sector sec r mx (entries[count := e]) (count + 1) }
        else None)"

fun list_sectors :: "'d dev \<Rightarrow> fat12 \<Rightarrow> nat list \<Rightarrow> int \<Rightarrow> fat12_entry_t list \<Rightarrow> nat \<Rightarrow> 'd \<Rightarrow> (fat12_entry_t list \<times> nat \<times> 'd) option" where
  "list_sectors dv st [] mx entries count d = Some (entries, count, d)"
| "list_sectors dv st (s # r) mx entries count d =
     (if \<not> int count < mx then Some (entries, count, d)
      else do {
        (x, d1) \<leftarrow> dv_rd dv (g_drive st) (g_root_start st + of_nat s) d;
        case x of
          None \<Rightarrow> Some (entries, count, d1)
        | Some sec \<Rightarrow> do {
            (fin, entries1, count1) \<leftarrow> list_sector sec [0..<16] mx entries count;
            if fin then Some (entries1, count1, d1) else list_sectors dv st r mx entries1 count1 d1 } })"

definition fat12_list :: "'d dev \<Rightarrow> fat12 \<Rightarrow> fat12_entry_t list \<Rightarrow> int \<Rightarrow> 'd \<Rightarrow> (int \<times> fat12_entry_t list \<times> 'd) option" where
  "fat12_list dv st entries mx d =
     (if \<not> g_mounted st then Some (-1, entries, d)
      else do {
        (entries1, count, d1) \<leftarrow> list_sectors dv st [0..<unat (g_root_sectors st)] mx entries 0 d;
        Some (int count, entries1, d1) })"

datatype find_res = Found nat dirent_t | EndOfDir | NotHere

fun find_sector :: "bytes \<Rightarrow> bytes \<Rightarrow> nat list \<Rightarrow> find_res option" where
  "find_sector sec want [] = Some NotHere"
| "find_sector sec want (i # r) =
     (let raw = dir_at sec i; first = raw ! 0 in
      if first = DIRENT_END then Some EndOfDir
      else if first = DIRENT_FREE then find_sector sec want r
      else do {
        c \<leftarrow> kstrncmp raw want 11;
        if c = 0 then Some (Found i (dirent_of raw)) else find_sector sec want r })"

text \<open>The result of \<^verbatim>\<open>fat12_find\<close>: sector, index and entry; \<open>None\<close> is \<^verbatim>\<open>found == 0\<close>.\<close>

fun find_sectors :: "'d dev \<Rightarrow> fat12 \<Rightarrow> bytes \<Rightarrow> nat list \<Rightarrow> 'd \<Rightarrow> ((u32 \<times> nat \<times> dirent_t) option \<times> 'd) option" where
  "find_sectors dv st want [] d = Some (None, d)"
| "find_sectors dv st want (s # r) d = do {
     (x, d1) \<leftarrow> dv_rd dv (g_drive st) (g_root_start st + of_nat s) d;
     case x of
       None \<Rightarrow> Some (None, d1)
     | Some sec \<Rightarrow> do {
         f \<leftarrow> find_sector sec want [0..<16];
         case f of
           Found i de \<Rightarrow> Some (Some (g_root_start st + of_nat s, i, de), d1)
         | EndOfDir \<Rightarrow> Some (None, d1)
         | NotHere \<Rightarrow> find_sectors dv st want r d1 } }"

definition fat12_find :: "'d dev \<Rightarrow> fat12 \<Rightarrow> bytes \<Rightarrow> 'd \<Rightarrow> ((u32 \<times> nat \<times> dirent_t) option \<times> 'd) option" where
  "fat12_find dv st name d = do {
     want \<leftarrow> name_to_83 name;
     find_sectors dv st want [0..<unat (g_root_sectors st)] d }"

section \<open>Reading\<close>

text \<open>
  The sectors of one cluster; the pointer \<^verbatim>\<open>out\<close> is the offset \<open>off\<close> into the buffer, and also the count
  \<^verbatim>\<open>read_bytes\<close>. The first result is \<open>False\<close> when a read failed.
\<close>

fun read_cluster :: "'d dev \<Rightarrow> int \<Rightarrow> nat \<Rightarrow> u32 \<Rightarrow> bytes \<Rightarrow> nat \<Rightarrow> nat \<Rightarrow> 'd \<Rightarrow> (bool \<times> bytes \<times> nat \<times> nat \<times> 'd) option" where
  "read_cluster dv drive 0 lba buf off remaining d = Some (True, buf, off, remaining, d)"
| "read_cluster dv drive (Suc n) lba buf off remaining d =
     (if remaining = 0 then Some (True, buf, off, remaining, d)
      else do {
        (x, d1) \<leftarrow> dv_rd dv drive lba d;
        case x of
          None \<Rightarrow> Some (False, buf, off, remaining, d1)
        | Some sec \<Rightarrow> do {
            let n_take = (if remaining > 512 then 512 else remaining);
            buf1 \<leftarrow> blit buf off (take n_take sec);
            read_cluster dv drive n (lba + 1) buf1 (off + n_take) (remaining - n_take) d1 } })"

text \<open>Each round reads at least one byte, so the number of bytes bounds the rounds.\<close>

fun read_chain :: "nat \<Rightarrow> 'd dev \<Rightarrow> fat12 \<Rightarrow> u16 \<Rightarrow> bytes \<Rightarrow> nat \<Rightarrow> nat \<Rightarrow> 'd \<Rightarrow> (nat \<times> bytes \<times> 'd) option" where
  "read_chain fuel dv st cluster buf off remaining d =
     (if cluster < 0x002 \<or> cluster > 0xFEF \<or> remaining = 0 then Some (off, buf, d)
      else case fuel of
        0 \<Rightarrow> None
      | Suc m \<Rightarrow> do {
          (ok, buf1, off1, remaining1, d1) \<leftarrow>
            read_cluster dv (g_drive st) (unat (sectors_per_cluster (g_bpb st))) (cluster_to_lba st cluster) buf off remaining d;
          if \<not> ok then Some (off1, buf1, d1)
          else do { nxt \<leftarrow> fat_get cluster st; read_chain m dv st nxt buf1 off1 remaining1 d1 } })"

declare read_chain.simps [simp del]

definition fat12_read :: "'d dev \<Rightarrow> fat12 \<Rightarrow> bytes \<Rightarrow> bytes \<Rightarrow> u32 \<Rightarrow> 'd \<Rightarrow> (int \<times> bytes \<times> 'd) option" where
  "fat12_read dv st name buf bufsz d =
     (if \<not> g_mounted st then Some (-1, buf, d)
      else do {
        (f, d1) \<leftarrow> fat12_find dv st name d;
        case f of
          None \<Rightarrow> Some (-1, buf, d1)
        | Some (_, _, de) \<Rightarrow> do {
            let remaining = unat (if de_file_size de > bufsz then bufsz else de_file_size de);
            (n, buf1, d2) \<leftarrow> read_chain remaining dv st (de_start_cluster de) buf 0 remaining d1;
            Some (c_int n, buf1, d2) } })"

section \<open>Deleting\<close>

text \<open>Each round clears an entry of the table that was not clear, so the rounds are bounded by the number of entries.\<close>

fun free_chain :: "nat \<Rightarrow> u16 \<Rightarrow> fat12 \<Rightarrow> fat12 option" where
  "free_chain fuel cluster st =
     (if cluster < 0x002 \<or> cluster > 0xFEF then Some st
      else case fuel of
        0 \<Rightarrow> None
      | Suc m \<Rightarrow> do { nxt \<leftarrow> fat_get cluster st; st1 \<leftarrow> fat_set cluster 0x000 st; free_chain m nxt st1 })"

declare free_chain.simps [simp del]

definition fat12_delete :: "'d dev \<Rightarrow> fat12 \<Rightarrow> bytes \<Rightarrow> 'd \<Rightarrow> (int \<times> fat12 \<times> 'd) option" where
  "fat12_delete dv st name d =
     (if \<not> g_mounted st then Some (-1, st, d)
      else do {
        (f, d1) \<leftarrow> fat12_find dv st name d;
        case f of
          None \<Rightarrow> Some (-1, st, d1)
        | Some (sector, index, de) \<Rightarrow> do {
            st1 \<leftarrow> free_chain 4096 (de_start_cluster de) st;
            (_, st2, d2) \<leftarrow> fat_flush dv st1 d1;
            (x, d3) \<leftarrow> dv_rd dv (g_drive st2) sector d2;
            case x of
              None \<Rightarrow> Some (-1, st2, d3)
            | Some sec \<Rightarrow> do {
                (ok, d4) \<leftarrow> dv_wr dv (g_drive st2) sector (sec[32 * index := DIRENT_FREE]) d3;
                Some (if ok then 0 else -1, st2, d4) } } })"

section \<open>Writing\<close>

fun write_cluster :: "'d dev \<Rightarrow> int \<Rightarrow> nat \<Rightarrow> u32 \<Rightarrow> bytes \<Rightarrow> nat \<Rightarrow> nat \<Rightarrow> 'd \<Rightarrow> (bool \<times> nat \<times> nat \<times> 'd) option" where
  "write_cluster dv drive 0 lba src off remaining d = Some (True, off, remaining, d)"
| "write_cluster dv drive (Suc n) lba src off remaining d =
     (if remaining = 0 then Some (True, off, remaining, d)
      else do {
        let n_take = (if remaining > 512 then 512 else remaining);
        chunk \<leftarrow> slice src off n_take;
        (ok, d1) \<leftarrow> dv_wr dv drive lba (chunk @ replicate (512 - n_take) 0) d;
        if \<not> ok then Some (False, off, remaining, d1)
        else write_cluster dv drive n (lba + 1) src (off + n_take) (remaining - n_take) d1 })"

text \<open>
  The loop over the clusters: the first result is \<open>None\<close> for the early return -1, and otherwise
  \<^verbatim>\<open>first_cluster\<close> and \<^verbatim>\<open>prev_cluster\<close>.
\<close>

fun write_chain :: "nat \<Rightarrow> 'd dev \<Rightarrow> u16 \<Rightarrow> u16 \<Rightarrow> bytes \<Rightarrow> nat \<Rightarrow> nat \<Rightarrow> fat12 \<Rightarrow> 'd \<Rightarrow> ((u16 \<times> u16) option \<times> fat12 \<times> 'd) option" where
  "write_chain fuel dv first_cluster prev_cluster src off remaining st d =
     (if remaining = 0 then Some (Some (first_cluster, prev_cluster), st, d)
      else case fuel of
        0 \<Rightarrow> None
      | Suc m \<Rightarrow> do {
          (c, st1) \<leftarrow> fat_alloc st;
          if c = 0 then Some (None, st1, d)
          else do {
            st2 \<leftarrow> (if prev_cluster \<noteq> 0 then fat_set prev_cluster c st1 else Some st1);
            (ok, off1, remaining1, d1) \<leftarrow>
              write_cluster dv (g_drive st2) (unat (sectors_per_cluster (g_bpb st2))) (cluster_to_lba st2 c) src off remaining d;
            if \<not> ok then Some (None, st2, d1)
            else write_chain m dv (if first_cluster = 0 then c else first_cluster) c src off1 remaining1 st2 d1 } })"

declare write_chain.simps [simp del]

definition new_dirent :: "bytes \<Rightarrow> u16 \<Rightarrow> u32 \<Rightarrow> dirent_t" where
  "new_dirent fn83 first_cluster sz = \<lparr>de_name = take 8 fn83, de_ext = drop 8 fn83, de_attr = ATTR_ARCHIVE,
     de_reserved = replicate 10 0, de_time = 0, de_date = 0x4A21, de_start_cluster = first_cluster, de_file_size = sz\<rparr>"

fun add_entry :: "'d dev \<Rightarrow> fat12 \<Rightarrow> bytes \<Rightarrow> nat list \<Rightarrow> 'd \<Rightarrow> (int \<times> 'd) option" where
  "add_entry dv st raw [] d = Some (-1, d)"
| "add_entry dv st raw (s # r) d = do {
     (x, d1) \<leftarrow> dv_rd dv (g_drive st) (g_root_start st + of_nat s) d;
     case x of
       None \<Rightarrow> Some (-1, d1)
     | Some sec \<Rightarrow>
         (case first_idx (\<lambda>i. dir_at sec i ! 0 = DIRENT_FREE \<or> dir_at sec i ! 0 = DIRENT_END) 0 16 of
            None \<Rightarrow> add_entry dv st raw r d1
          | Some i \<Rightarrow> do {
              sec1 \<leftarrow> blit sec (32 * i) raw;
              let sec2 = (if dir_at sec i ! 0 = DIRENT_END \<and> i + 1 < 16 then sec1[32 * (i + 1) := DIRENT_END] else sec1);
              (ok, d2) \<leftarrow> dv_wr dv (g_drive st) (g_root_start st + of_nat s) sec2 d1;
              Some (if ok then 0 else -1, d2) }) }"

text \<open>Everything after the clusters are written: the table and the directory entry.\<close>

definition write_finish :: "'d dev \<Rightarrow> bytes \<Rightarrow> u16 \<Rightarrow> u32 \<Rightarrow> fat12 \<Rightarrow> 'd \<Rightarrow> (int \<times> fat12 \<times> 'd) option" where
  "write_finish dv name first_cluster sz st d = do {
     (r, st1, d1) \<leftarrow> fat_flush dv st d;
     if r < 0 then Some (-1, st1, d1)
     else do {
       fn83 \<leftarrow> name_to_83 name;
       (r2, d2) \<leftarrow> add_entry dv st1 (dirent_bytes (new_dirent fn83 first_cluster sz)) [0..<unat (g_root_sectors st1)] d1;
       Some (r2, st1, d2) } }"

definition fat12_write :: "'d dev \<Rightarrow> fat12 \<Rightarrow> bytes \<Rightarrow> bytes \<Rightarrow> u32 \<Rightarrow> 'd \<Rightarrow> (int \<times> fat12 \<times> 'd) option" where
  "fat12_write dv st name buf sz d =
     (if \<not> g_mounted st then Some (-1, st, d)
      else do {
        (_, st1, d1) \<leftarrow> fat12_delete dv st name d;
        if sz = 0 then write_finish dv name 0 sz st1 d1
        else do {
          (x, st2, d2) \<leftarrow> write_chain (unat sz) dv 0 0 buf 0 (unat sz) st1 d1;
          case x of
            None \<Rightarrow> Some (-1, st2, d2)
          | Some (first_cluster, prev_cluster) \<Rightarrow> do {
              st3 \<leftarrow> fat_set prev_cluster 0xFFF st2;
              write_finish dv name first_cluster sz st3 d2 } } })"

section \<open>Formatting and the report\<close>

definition format_label :: "bytes option \<Rightarrow> bytes option" where
  "format_label label =
     (case label of
        None \<Rightarrow> Some (replicate 11 32)
      | Some l \<Rightarrow> do { n \<leftarrow> kstrlen l; Some (pad_blank 11 (map upper (take (min n 11) l))) })"

definition format_bpb :: "bytes \<Rightarrow> bpb_t" where
  "format_bpb label = \<lparr>jmp = [0xEB, 0x3C, 0x90], oem = map of_char ''KUMOS1.0'', bytes_per_sector = 512, sectors_per_cluster = 1,
     reserved_sectors = 1, fat_count = 2, root_entry_count = 224, total_sectors_16 = 2880, media_type = 0xF0, sectors_per_fat = 9,
     sectors_per_track = 18, head_count = 2, hidden_sectors = 0, total_sectors_32 = 0, drive_number = 0, reserved1 = 0, boot_sig = 0x29,
     volume_id = 0x4B554D4F, volume_label = label, fs_type = map of_char ''FAT12   ''\<rparr>"

definition format_boot :: "bytes \<Rightarrow> bytes" where
  "format_boot label = bpb_bytes (format_bpb label) @ replicate 448 0 @ [0x55, 0xAA]"

definition format_fat :: "nat \<Rightarrow> bytes" where
  "format_fat s = (if s = 0 then [0xF0, 0xFF, 0xFF] @ replicate 509 0 else replicate 512 0)"

fun write_all :: "'d dev \<Rightarrow> int \<Rightarrow> (nat \<times> bytes) list \<Rightarrow> 'd \<Rightarrow> (bool \<times> 'd) option" where
  "write_all dv drive [] d = Some (True, d)"
| "write_all dv drive ((lba, b) # r) d = do {
     (ok, d1) \<leftarrow> dv_wr dv drive (of_nat lba) b d;
     if ok then write_all dv drive r d1 else Some (False, d1) }"

definition fat12_format :: "(bytes \<Rightarrow> fat12 \<Rightarrow> fat12) \<Rightarrow> 'd dev \<Rightarrow> int \<Rightarrow> bytes option \<Rightarrow> fat12 \<Rightarrow> 'd \<Rightarrow> (int \<times> fat12 \<times> 'd) option" where
  "fat12_format spill dv drive label st d = do {
     l \<leftarrow> format_label label;
     (ok, d1) \<leftarrow> write_all dv drive ((0, format_boot l)
        # map (\<lambda>(copy, s). (1 + copy * 9 + s, format_fat s)) (List.product [0..<2] [0..<9])
        @ map (\<lambda>s. (19 + s, replicate 512 0)) [0..<14]) d;
     if \<not> ok then Some (-1, st, d1) else fat12_mount spill dv drive st d1 }"

definition count_free :: "fat12 \<Rightarrow> u16 option" where
  "count_free st =
     fold (\<lambda>i acc. do { n \<leftarrow> acc; v \<leftarrow> fat_get (of_nat i) st; Some (if v = 0 then n + 1 else n) })
       [2..<unat (g_total_clusters st + 2)] (Some 0)"

definition fat12_info :: "fat12 \<Rightarrow> vga \<Rightarrow> vga option" where
  "fat12_info st v =
     (if \<not> g_mounted st then vga_puts (lit_lines [''  No FAT12 volume mounted.'']) v
      else do {
        v1 \<leftarrow> vga_puts (10 # lit_lines [''  === FAT12 Volume ==='', '''']) (vga_set_color VGA_YELLOW VGA_BLACK v);
        v2 \<leftarrow> vga_puts (lit ''  Label:    '') (vga_set_color VGA_WHITE VGA_BLACK v1);
        v3 \<leftarrow> vga_puts (volume_label (g_bpb st) @ [0]) v2;
        v4 \<leftarrow> vga_puts (lit ''  FAT start LBA:  '') (vga_putchar 10 v3); v5 \<leftarrow> vga_put_dec (g_fat_start st) v4;
        v6 \<leftarrow> vga_puts (lit ''  Root start LBA: '') (vga_putchar 10 v5); v7 \<leftarrow> vga_put_dec (g_root_start st) v6;
        v8 \<leftarrow> vga_puts (lit ''  Data start LBA: '') (vga_putchar 10 v7); v9 \<leftarrow> vga_put_dec (g_data_start st) v8;
        v10 \<leftarrow> vga_puts (lit ''  Total clusters: '') (vga_putchar 10 v9); v11 \<leftarrow> vga_put_dec (g_total_clusters st) v10;
        free_cl \<leftarrow> count_free st;
        v12 \<leftarrow> vga_puts (lit ''  Free clusters:  '') (vga_putchar 10 v11); v13 \<leftarrow> vga_put_dec (ucast free_cl) v12;
        v14 \<leftarrow> vga_puts (lit ''  ('') v13; v15 \<leftarrow> vga_put_dec (ucast free_cl * 512 div 1024) v14;
        vga_puts (lit_lines ['' KB free)'', '''']) v15 })"

end
