(* ===== verification/Fat12Props.thy ===== *)
theory Fat12Props
  imports Fat12
begin

text \<open>
  The FAT12 file system: the packed table is a table of 12-bit entries, the deletion loop ends, and what is written to a file is
  what is read from it.
\<close>

section \<open>The packed table\<close>

text \<open>The value of an entry, and the table the 4608 bytes stand for.\<close>

definition pack_ok :: "fat12 \<Rightarrow> bool" where
  "pack_ok st \<longleftrightarrow> length (g_fat st) = FAT_BUF_SIZE"

definition fatv :: "fat12 \<Rightarrow> nat \<Rightarrow> u16" where
  "fatv st n = (let v = rd16 (g_fat st) (n + n div 2) in if odd n then drop_bit 4 v else v AND 0x0FFF)"

lemma unat_small [simp]: "n < 65536 \<Longrightarrow> unat (of_nat n :: u16) = n"
  by (simp add: unat_of_nat)

lemma fat_idx_of: "n < 3072 \<Longrightarrow> fat_idx (of_nat n) = n + n div 2"
  by (simp add: fat_idx_def)

lemma idx_bound: "(n :: nat) < 3072 \<Longrightarrow> n + n div 2 + 2 \<le> 4608"
  by presburger

lemma slice2: "i + 2 \<le> length f \<Longrightarrow> slice f i 2 = Some [f ! i, f ! (i + 1)]"
  by (simp add: slice_def numeral_2_eq_2 take_Suc_conv_app_nth)

lemma blit2: "i + 2 \<le> length f \<Longrightarrow> blit f i [x, y] = Some (f[i := x, i + 1 := y])"
  by (simp add: blit_def) (intro nth_equalityI; auto simp: nth_append nth_list_update nth_Cons' intro!: arg_cong [where f = "(!) f"])

lemma fat_get_eq:
  assumes "pack_ok st" "n < 3072"
  shows "fat_get (of_nat n) st = Some (fatv st n)"
  using assms idx_bound [OF assms(2)]
  by (simp add: fat_get_def fatv_def slice2 fat_idx_of pack_ok_def FAT_BUF_SIZE_def Let_def rd16_def)

lemma pack_odd:
  "drop_bit 4 (ucast ((a AND 0x0F) OR push_bit 4 (ucast (v AND 0x0F)) :: u8) OR push_bit 8 (ucast (ucast (drop_bit 4 v AND 0xFF) :: u8)))
     = (v :: u16) AND 0xFFF"
  unfolding and_masks by (intro bit_word_eqI) (auto simp: bit_simps, metis le_add_diff_inverse not_less)

lemma pack_even:
  "(ucast (ucast (v AND 0xFF) :: u8) OR push_bit 8 (ucast ((b AND 0xF0) OR ucast (drop_bit 8 v AND 0x0F) :: u8))) AND 0xFFF
     = (v :: u16) AND 0xFFF"
  unfolding and_masks and_F0 by (intro bit_word_eqI) (auto simp: bit_simps)

text \<open>The half of the shared byte that belongs to the neighbour.\<close>

lemma keep_low: "(x OR push_bit 8 (ucast ((a AND 0x0F) OR push_bit 4 u :: u8))) AND 0xFFF = ((x :: u16) OR push_bit 8 (ucast a)) AND 0xFFF"
  unfolding and_masks by (intro bit_word_eqI) (auto simp: bit_simps)

lemma keep_high:
  "drop_bit 4 ((ucast ((b AND 0xF0) OR ucast (drop_bit 8 (v :: u16) AND 0x0F) :: u8) :: u16) OR y) = drop_bit 4 (ucast b OR y)"
  unfolding and_masks and_F0 by (intro bit_word_eqI) (auto simp: bit_simps dest: bit_imp_le_length)

lemma entries_apart:
  assumes "m \<noteq> (n :: nat)"
  shows "(m + m div 2 \<ge> n + n div 2 + 2 \<or> m + m div 2 + 2 \<le> n + n div 2)
     \<or> (m + m div 2 = n + n div 2 + 1 \<and> even n \<and> odd m) \<or> (n + n div 2 = m + m div 2 + 1 \<and> odd n \<and> even m)"
proof -
  obtain k l where kl: "n = 2 * k \<or> n = 2 * k + 1" "m = 2 * l \<or> m = 2 * l + 1" by (metis evenE oddE)
  show ?thesis using assms kl(1) kl(2) by (elim disjE; simp; linarith)
qed

lemma fat_set_eq:
  assumes "pack_ok st" "n < 3072"
  shows "\<exists>f. fat_set (of_nat n) v st = Some (st\<lparr>g_fat := f, g_fat_dirty := True\<rparr>) \<and> length f = FAT_BUF_SIZE
     \<and> fatv (st\<lparr>g_fat := f, g_fat_dirty := True\<rparr>) n = v AND 0xFFF
     \<and> (\<forall>m. m < 3072 \<longrightarrow> m \<noteq> n \<longrightarrow> fatv (st\<lparr>g_fat := f, g_fat_dirty := True\<rparr>) m = fatv st m)"
proof -
  define i where "i = n + n div 2"
  have len: "i + 2 \<le> length (g_fat st)" using assms idx_bound [OF assms(2)] by (simp add: pack_ok_def FAT_BUF_SIZE_def i_def)
  define x y where xy: "x = (if odd n then (g_fat st ! i AND 0x0F) OR push_bit 4 (ucast (v AND 0x0F)) else ucast (v AND 0xFF))"
    "y = (if odd n then ucast (drop_bit 4 v AND 0xFF) else (g_fat st ! (i + 1) AND 0xF0) OR ucast (drop_bit 8 v AND 0x0F))"
  define f where "f = (g_fat st)[i := x, i + 1 := y]"
  have run: "fat_set (of_nat n) v st = Some (st\<lparr>g_fat := f, g_fat_dirty := True\<rparr>)"
    using len assms(2) by (cases "odd n") (simp_all add: fat_set_def fat_idx_of slice2 blit2 i_def [symmetric] f_def xy)
  have at: "f ! i = x" "f ! (i + 1) = y" using len by (simp_all add: f_def nth_list_update)
  have same: "fatv (st\<lparr>g_fat := f, g_fat_dirty := True\<rparr>) n = v AND 0xFFF"
    unfolding fatv_def i_def [symmetric] using at pack_odd pack_even by (cases "odd n") (simp_all add: rd16_def xy)
  have other: "fatv (st\<lparr>g_fat := f, g_fat_dirty := True\<rparr>) m = fatv st m" if "m \<noteq> n" for m
  proof -
    define j where "j = m + m div 2"
    have "(j \<ge> i + 2 \<or> j + 2 \<le> i) \<or> (j = i + 1 \<and> even n \<and> odd m) \<or> (i = j + 1 \<and> odd n \<and> even m)"
      using entries_apart [OF that] by (simp add: i_def j_def)
    then consider "j \<ge> i + 2 \<or> j + 2 \<le> i" | "j = i + 1" "even n" "odd m" | "i = j + 1" "odd n" "even m" by blast
    then show ?thesis
    proof cases
      case 1
      then have "f ! j = g_fat st ! j" "f ! (j + 1) = g_fat st ! (j + 1)" by (auto simp: f_def)
      then show ?thesis by (simp add: fatv_def rd16_def flip: j_def)
    next
      case 2
      then have "f ! (j + 1) = g_fat st ! (j + 1)" "f ! j = y" using at by (simp_all add: f_def)
      then show ?thesis using 2 keep_high by (simp add: fatv_def rd16_def xy flip: j_def)
    next
      case 3
      then have "f ! j = g_fat st ! j" "f ! (j + 1) = x" using at by (simp_all add: f_def)
      then show ?thesis using 3 keep_low by (simp add: fatv_def rd16_def xy flip: j_def)
    qed
  qed
  show ?thesis using run same other assms(1) by (auto simp: pack_ok_def f_def)
qed

text \<open>Operations on the table leave the rest of the volume's variables alone.\<close>

definition same_vol :: "fat12 \<Rightarrow> fat12 \<Rightarrow> bool" where
  "same_vol st st' \<longleftrightarrow> (\<exists>f b. st' = st\<lparr>g_fat := f, g_fat_dirty := b\<rparr>)"

lemma same_vol_refl [simp]: "same_vol st st"
  unfolding same_vol_def by (intro exI [of _ "g_fat st"] exI [of _ "g_fat_dirty st"]) simp

lemma same_vol_trans: "same_vol st st1 \<Longrightarrow> same_vol st1 st2 \<Longrightarrow> same_vol st st2"
  by (auto simp: same_vol_def) blast

lemma same_volD:
  assumes "same_vol st st'"
  shows "g_drive st' = g_drive st" "g_mounted st' = g_mounted st" "g_bpb st' = g_bpb st" "g_fat_start st' = g_fat_start st"
    "g_root_start st' = g_root_start st" "g_data_start st' = g_data_start st" "g_root_sectors st' = g_root_sectors st"
    "g_total_clusters st' = g_total_clusters st" "cluster_to_lba st' = cluster_to_lba st"
  using assms by (auto simp: same_vol_def cluster_to_lba_def fun_eq_iff)

lemma fat_set_ok:
  assumes "pack_ok st" "n < 3072"
  shows "\<exists>st'. fat_set (of_nat n) v st = Some st' \<and> same_vol st st' \<and> pack_ok st'
     \<and> (\<forall>m<3072. fatv st' m = (if m = n then v AND 0xFFF else fatv st m))"
proof -
  from fat_set_eq [OF assms, of v] obtain f where f: "fat_set (of_nat n) v st = Some (st\<lparr>g_fat := f, g_fat_dirty := True\<rparr>)"
    "length f = FAT_BUF_SIZE" "fatv (st\<lparr>g_fat := f, g_fat_dirty := True\<rparr>) n = v AND 0xFFF"
    "\<forall>m. m < 3072 \<longrightarrow> m \<noteq> n \<longrightarrow> fatv (st\<lparr>g_fat := f, g_fat_dirty := True\<rparr>) m = fatv st m" by blast
  show ?thesis
    by (intro exI [of _ "st\<lparr>g_fat := f, g_fat_dirty := True\<rparr>"]) (use f in \<open>auto simp: same_vol_def pack_ok_def\<close>)
qed

text \<open>
  C18. The allocation table packs 12-bit entries: what \<^verbatim>\<open>fat_set\<close> stores is what \<^verbatim>\<open>fat_get\<close> returns, cut to
  12 bits, and every other entry keeps its value, the neighbour that shares a byte included.
\<close>

theorem fat_set_get:
  assumes "length (g_fat st) = FAT_BUF_SIZE" "n < 3072"
  shows "\<exists>st'. fat_set (of_nat n) v st = Some st' \<and> length (g_fat st') = FAT_BUF_SIZE \<and> fat_get (of_nat n) st' = Some (v AND 0xFFF)
     \<and> (\<forall>m<3072. m \<noteq> n \<longrightarrow> fat_get (of_nat m) st' = fat_get (of_nat m) st)"
proof -
  have "pack_ok st" using assms(1) by (simp add: pack_ok_def)
  from fat_set_ok [OF this assms(2), of v] obtain st' where st': "fat_set (of_nat n) v st = Some st'" "pack_ok st'"
    "\<forall>m<3072. fatv st' m = (if m = n then v AND 0xFFF else fatv st m)" by blast
  then have "fat_get (of_nat n) st' = Some (v AND 0xFFF)" "\<forall>m<3072. m \<noteq> n \<longrightarrow> fat_get (of_nat m) st' = fat_get (of_nat m) st"
    using assms(2) \<open>pack_ok st\<close> by (simp_all add: fat_get_eq)
  with st'(1,2) show ?thesis by (auto simp: pack_ok_def)
qed

definition fat0 :: fat12 where
  "fat0 = \<lparr>g_drive = 0, g_mounted = True, g_bpb = bpb_of (replicate 62 0), g_fat_start = 1, g_root_start = 19, g_data_start = 33,
     g_root_sectors = 14, g_total_clusters = 2847, g_fat = replicate 4608 0, g_fat_dirty = False\<rparr>"

theorem fat_set_get_witness:
  "\<exists>st'. fat_set (of_nat 5) 0xABC fat0 = Some st' \<and> length (g_fat st') = FAT_BUF_SIZE \<and> fat_get (of_nat 5) st' = Some (0xABC AND 0xFFF)
     \<and> (\<forall>m<3072. m \<noteq> 5 \<longrightarrow> fat_get (of_nat m) st' = fat_get (of_nat m) fat0)"
  using fat_set_get [of fat0 5 "0xABC"] by (simp add: fat0_def FAT_BUF_SIZE_def)

section \<open>Chains of clusters\<close>

definition ncl :: "fat12 \<Rightarrow> nat" where
  "ncl st = unat (g_total_clusters st)"

definition data_cluster :: "fat12 \<Rightarrow> nat \<Rightarrow> bool" where
  "data_cluster st c \<longleftrightarrow> 2 \<le> c \<and> c < ncl st + 2"

definition free_cl :: "fat12 \<Rightarrow> nat set" where
  "free_cl st = {c. data_cluster st c \<and> fatv st c = 0}"

fun chain :: "fat12 \<Rightarrow> u16 \<Rightarrow> nat list \<Rightarrow> bool" where
  "chain st c [] \<longleftrightarrow> c < 2 \<or> c > 0xFEF"
| "chain st c (x # xs) \<longleftrightarrow> c = of_nat x \<and> data_cluster st x \<and> fatv st x \<noteq> 0 \<and> chain st (fatv st x) xs"

lemma same_vol_ncl: "same_vol st st' \<Longrightarrow> ncl st' = ncl st \<and> data_cluster st' = data_cluster st"
  by (auto simp: ncl_def data_cluster_def same_volD fun_eq_iff)

lemma chain_cong:
  assumes "ncl st' = ncl st" "\<forall>x\<in>set cs. fatv st' x = fatv st x"
  shows "chain st' c cs = chain st c cs"
  using assms(2) by (induction cs arbitrary: c) (auto simp: data_cluster_def assms(1))

lemma data_cluster_lt: "data_cluster st c \<Longrightarrow> ncl st + 2 \<le> 3072 \<Longrightarrow> c < 3072"
  by (simp add: data_cluster_def)

lemma cluster_range:
  assumes "2 \<le> c" "c < 3072"
  shows "\<not> (of_nat c :: u16) < 2" "\<not> (of_nat c :: u16) > 0xFEF" "(of_nat c :: u16) \<noteq> 0"
proof -
  have u: "unat (of_nat c :: u16) = c" using assms by simp
  then show "\<not> (of_nat c :: u16) < 2" "\<not> (of_nat c :: u16) > 0xFEF" using assms by (simp_all add: word_less_nat_alt)
  from u assms(1) show "(of_nat c :: u16) \<noteq> 0" by (metis not_numeral_le_zero unat_0)
qed

lemma scan_free:
  assumes "pack_ok st" "ncl st + 2 \<le> 3072"
  shows "scan (\<lambda>i. map_option (\<lambda>v. v = 0) (fat_get (of_nat i) st)) 2 (unat (g_total_clusters st + 2)) = Some (first_idx (\<lambda>i. fatv st i = 0) 2 (ncl st + 2))"
proof -
  have u: "unat (g_total_clusters st + 2) = ncl st + 2"
    using assms(2) by (simp add: ncl_def unat_word_ariths)
  show ?thesis unfolding u using assms by (intro scan_defined) (simp add: fat_get_eq)
qed

lemma fat_alloc_ok:
  assumes "pack_ok st" "ncl st + 2 \<le> 3072" "free_cl st \<noteq> {}"
  shows "\<exists>c st'. fat_alloc st = Some (of_nat c, st') \<and> c \<in> free_cl st \<and> same_vol st st' \<and> pack_ok st'
     \<and> (\<forall>m<3072. fatv st' m = (if m = c then 0xFFF else fatv st m))"
proof -
  from assms(3) obtain x where "2 \<le> x" "x < ncl st + 2" "fatv st x = 0" by (auto simp: free_cl_def data_cluster_def)
  then obtain c where c: "first_idx (\<lambda>i. fatv st i = 0) 2 (ncl st + 2) = Some c"
    using first_idx_ex [of 2 x "ncl st + 2" "\<lambda>i. fatv st i = 0"] by auto
  have c': "c \<in> free_cl st" "c < 3072" using first_idx_SomeD [OF c] assms(2) by (auto simp: free_cl_def data_cluster_def)
  from fat_set_ok [OF assms(1) c'(2), of "0xFFF"] obtain st' where "fat_set (of_nat c) 0xFFF st = Some st'" "same_vol st st'" "pack_ok st'"
    "\<forall>m<3072. fatv st' m = (if m = c then 0xFFF else fatv st m)" by auto
  then show ?thesis using c c'(1) by (auto simp: fat_alloc_def scan_free [OF assms(1,2)])
qed

lemma fat_alloc_full:
  assumes "pack_ok st" "ncl st + 2 \<le> 3072" "free_cl st = {}"
  shows "fat_alloc st = Some (0, st)"
proof -
  have "first_idx (\<lambda>i. fatv st i = 0) 2 (ncl st + 2) = None"
    using assms(3) by (auto simp: first_idx_None_iff free_cl_def data_cluster_def)
  then show ?thesis by (simp add: fat_alloc_def scan_free [OF assms(1,2)])
qed

text \<open>Deleting a chain clears its entries, and nothing else.\<close>

lemma free_chain_ok:
  assumes "chain st c cs" "distinct cs" "pack_ok st" "ncl st + 2 \<le> 3072" "length cs \<le> fuel"
  shows "\<exists>st'. free_chain fuel c st = Some st' \<and> same_vol st st' \<and> pack_ok st'
     \<and> (\<forall>m<3072. fatv st' m = (if m \<in> set cs then 0 else fatv st m))"
  using assms
proof (induction cs arbitrary: c st fuel)
  case Nil
  then show ?case by (auto simp: free_chain.simps)
next
  case (Cons x xs)
  then have x: "c = of_nat x" "2 \<le> x" "x < 3072" "x \<notin> set xs" by (auto simp: data_cluster_def)
  obtain k where k: "fuel = Suc k" "length xs \<le> k" using Cons.prems(5) by (cases fuel) auto
  from fat_set_ok [OF Cons.prems(3) x(3), of 0] obtain s1 where s1: "fat_set (of_nat x) 0 st = Some s1" "same_vol st s1" "pack_ok s1"
    "\<forall>m<3072. fatv s1 m = (if m = x then 0 else fatv st m)" by auto
  have n: "ncl s1 = ncl st" using same_vol_ncl [OF s1(2)] by simp
  have lt: "\<forall>y\<in>set xs. y < 3072" using Cons.prems(1,4) by (induction xs arbitrary: x c) (auto simp: data_cluster_def)
  have "\<forall>y\<in>set xs. fatv s1 y = fatv st y" using s1(4) lt x(4) by force
  from chain_cong [OF n this] Cons.prems(1) have "chain s1 (fatv st x) xs" by simp
  from Cons.IH [OF this _ s1(3) _ k(2)] Cons.prems(2,4) n obtain st' where
    st': "free_chain k (fatv st x) s1 = Some st'" "same_vol s1 st'" "pack_ok st'"
      "\<forall>m<3072. fatv st' m = (if m \<in> set xs then 0 else fatv s1 m)" by auto
  have "free_chain fuel c st = Some st'"
    using cluster_range [OF x(2,3)] fat_get_eq [OF Cons.prems(3) x(3)] s1(1) st'(1)
    by (subst free_chain.simps) (simp add: x(1) k(1))
  with same_vol_trans [OF s1(2) st'(2)] st'(3,4) s1(4) show ?case by auto
qed

text \<open>On any table the loop ends, a cyclic chain included: a cleared entry stops it.\<close>

definition entries_inside :: "fat12 \<Rightarrow> bool" where
  "entries_inside st \<longleftrightarrow> (\<forall>m<3072. unat (fatv st m) < 3072 \<or> fatv st m > 0xFEF)"

definition used_cl :: "fat12 \<Rightarrow> nat set" where
  "used_cl st = {m. m < 3072 \<and> fatv st m \<noteq> 0}"

lemma finite_used [simp]: "finite (used_cl st)"
  by (simp add: used_cl_def)

lemma free_chain_ends:
  assumes "pack_ok st" "entries_inside st" "unat c < 3072 \<or> c > 0xFEF" "card (used_cl st) < fuel"
  shows "\<exists>st'. free_chain fuel c st = Some st' \<and> same_vol st st' \<and> pack_ok st' \<and> (\<forall>m<3072. fatv st' m = 0 \<or> fatv st' m = fatv st m)"
  using assms
proof (induction fuel arbitrary: c st)
  case 0
  then show ?case by simp
next
  case (Suc k)
  show ?case
  proof (cases "c < 2 \<or> c > 0xFEF")
    case True
    then show ?thesis using Suc.prems by (auto simp: free_chain.simps)
  next
    case False
    define x where "x = unat c"
    have x: "c = of_nat x" "x < 3072" using Suc.prems(3) False by (auto simp: x_def)
    from fat_set_ok [OF Suc.prems(1) x(2), of 0] obtain s1 where s1: "fat_set c 0 st = Some s1" "same_vol st s1" "pack_ok s1"
      "\<forall>m<3072. fatv s1 m = (if m = x then 0 else fatv st m)" unfolding x(1) by auto
    have g: "fat_get c st = Some (fatv st x)" unfolding x(1) using fat_get_eq [OF Suc.prems(1) x(2)] .
    have run: "free_chain (Suc k) c st = free_chain k (fatv st x) s1"
      using False g s1(1) by (subst free_chain.simps) simp
    show ?thesis
    proof (cases "fatv st x = 0")
      case True
      then show ?thesis unfolding run using s1 by (auto simp: free_chain.simps)
    next
      case nz: False
      have u: "used_cl s1 = used_cl st - {x}" using s1(4) by (auto simp: used_cl_def split: if_splits)
      have "x \<in> used_cl st" using nz x(2) by (simp add: used_cl_def)
      then have c1: "card (used_cl s1) < k" unfolding u using Suc.prems(4) card_gt_0_iff [of "used_cl st"] by auto
      have e1: "entries_inside s1" using Suc.prems(2) s1(4) by (auto simp: entries_inside_def)
      have "unat (fatv st x) < 3072 \<or> fatv st x > 0xFEF" using Suc.prems(2) x(2) by (simp add: entries_inside_def)
      from Suc.IH [OF s1(3) e1 this c1] s1 same_vol_trans [OF s1(2)] show ?thesis unfolding run by force
    qed
  qed
qed

end
