(* ===== verification/Fat12Files.thy ===== *)
theory Fat12Files
  imports Fat12Props
begin

text \<open>
  Files of a FAT12 volume. On any device that keeps the laws of \<open>block_device\<close> the volume implements a map from
  8.3 names to contents: reading looks up, writing binds, deleting removes.
\<close>

section \<open>Geometry\<close>

abbreviation spc :: "fat12 \<Rightarrow> nat" where
  "spc st \<equiv> unat (sectors_per_cluster (g_bpb st))"

definition geom :: "nat \<Rightarrow> int \<Rightarrow> fat12 \<Rightarrow> bool" where
  "geom nsec drive st \<longleftrightarrow> g_mounted st \<and> g_drive st = drive \<and> pack_ok st \<and> 0 < spc st \<and> unat (sectors_per_fat (g_bpb st)) \<le> 9
     \<and> unat (g_fat_start st) + unat (fat_count (g_bpb st)) * unat (sectors_per_fat (g_bpb st)) \<le> unat (g_root_start st)
     \<and> unat (g_root_start st) + unat (g_root_sectors st) \<le> unat (g_data_start st)
     \<and> unat (g_data_start st) + ncl st * spc st \<le> nsec \<and> nsec < 2 ^ 32 \<and> ncl st + 2 \<le> 3072"

lemma unat_add_of_nat:
  assumes "unat (a :: u32) + n < 2 ^ 32"
  shows "unat (a + of_nat n) = unat a + n"
proof -
  have "a + of_nat n = of_nat (unat a + n)" by simp
  then show ?thesis using assms unat_of_nat [of "unat a + n", where 'a = 32] by (simp del: of_nat_add)
qed

lemma geom_same: "geom nsec drive st \<Longrightarrow> same_vol st st' \<Longrightarrow> pack_ok st' \<Longrightarrow> geom nsec drive st'"
  by (simp add: geom_def same_volD same_vol_ncl)

text \<open>The sectors of a cluster, and its bytes.\<close>

definition base :: "fat12 \<Rightarrow> nat \<Rightarrow> nat" where
  "base st c = unat (g_data_start st) + (c - 2) * spc st"

definition area :: "fat12 \<Rightarrow> nat \<Rightarrow> nat set" where
  "area st c = {base st c..<base st c + spc st}"

definition secs :: "(nat \<Rightarrow> bytes) \<Rightarrow> nat \<Rightarrow> nat \<Rightarrow> bytes" where
  "secs sec k n = concat (map sec [k..<k + n])"

definition clus :: "fat12 \<Rightarrow> (nat \<Rightarrow> bytes) \<Rightarrow> nat \<Rightarrow> bytes" where
  "clus st sec c = secs sec (base st c) (spc st)"

lemma same_vol_area: "same_vol st st' \<Longrightarrow> base st' = base st \<and> area st' = area st \<and> clus st' = clus st"
  by (simp add: base_def area_def clus_def same_volD fun_eq_iff)

lemma secs_simps [simp]: "secs sec k 0 = []" "secs sec k (Suc n) = sec k @ secs sec (Suc k) n"
  by (simp_all add: secs_def upt_conv_Cons del: upt_Suc)

lemma secs_cong: "(\<And>i. k \<le> i \<Longrightarrow> i < k + n \<Longrightarrow> f i = g i) \<Longrightarrow> secs f k n = secs g k n"
  unfolding secs_def by (intro arg_cong [where f = concat]) auto

lemma base_bound:
  assumes "data_cluster st c"
  shows "base st c + spc st \<le> unat (g_data_start st) + ncl st * spc st"
proof -
  have "(c - 2) * spc st + spc st = (c - 1) * spc st"
    using assms by (metis One_nat_def Suc_diff_Suc add.commute data_cluster_def diff_Suc_1 mult_Suc numeral_2_eq_2 Suc_le_lessD)
  also have "\<dots> \<le> ncl st * spc st" using assms by (intro mult_le_mono1) (auto simp: data_cluster_def)
  finally show ?thesis by (simp add: base_def)
qed

lemma area_apart:
  assumes "2 \<le> c" "2 \<le> c'" "c \<noteq> c'"
  shows "area st c \<inter> area st c' = {}"
proof -
  have "base st a + spc st \<le> base st b" if "2 \<le> a" "a < b" for a b
  proof -
    have "(a - 2) * spc st + spc st = (a - 1) * spc st"
      using that by (metis One_nat_def Suc_diff_Suc add.commute diff_Suc_1 mult_Suc numeral_2_eq_2 Suc_le_lessD)
    also have "\<dots> \<le> (b - 2) * spc st" using that by (intro mult_le_mono1) simp
    finally show ?thesis by (simp add: base_def)
  qed
  from this [of c c'] this [of c' c] assms show ?thesis by (fastforce simp: area_def)
qed

lemma lba_eq:
  assumes "geom nsec drive st" "data_cluster st c"
  shows "unat (cluster_to_lba st (of_nat c)) = base st c"
proof -
  have c: "2 \<le> c" "c < 3072" using assms by (auto simp: data_cluster_def geom_def)
  have "cluster_to_lba st (of_nat c) = of_nat (base st c)"
    using c(1) by (simp add: cluster_to_lba_def base_def of_nat_diff unsigned_of_nat take_bit_nat_eq_self c(2) less_trans [OF c(2)])
  moreover have "base st c < 2 ^ 32" using base_bound [OF assms(2)] assms(1) by (simp add: geom_def)
  ultimately show ?thesis by (simp add: unat_of_nat)
qed

section \<open>Reading and writing sectors\<close>

lemma blit_blit: "blit buf off xs = Some b \<Longrightarrow> blit b (off + length xs) ys = blit buf off (xs @ ys)"
  by (auto simp: blit_def ac_simps split: if_splits)

lemma blit_nil: "off \<le> length buf \<Longrightarrow> blit buf off [] = Some buf"
  by (simp add: blit_def)

lemma blit_nilD: "blit buf off [] = Some b \<Longrightarrow> b = buf"
  by (simp add: blit_def split: if_splits)

context block_device
begin

lemma read_cluster_ok:
  assumes "ok d" "unat lba + n \<le> nsec" "nsec < 2 ^ 32" "blit buf off (take rem (secs (sec d) (unat lba) n)) = Some b"
  shows "\<exists>d'. read_cluster dv drive n lba buf off rem d = Some (True, b, off + min rem (512 * n), rem - 512 * n, d')
     \<and> ok d' \<and> sec d' = sec d"
  using assms
proof (induction n arbitrary: lba buf off rem d)
  case 0
  then show ?case by (auto dest: blit_nilD)
next
  case (Suc n)
  show ?case
  proof (cases "rem = 0")
    case True
    then show ?thesis using Suc.prems by (auto dest: blit_nilD)
  next
    case False
    from Suc.prems have "unat lba < nsec" by simp
    from rd [OF Suc.prems(1) this] obtain d1 where d1: "dv_rd dv drive lba d = Some (Some (sec d (unat lba)), d1)" "ok d1" "sec d1 = sec d"
      by blast
    define t where "t = min rem 512"
    have t: "(if 512 < rem then 512 else rem) = t" by (simp add: t_def)
    have l1: "unat (lba + 1) = Suc (unat lba)" using Suc.prems(2,3) by (simp add: unat_word_ariths)
    have lx: "length (take t (sec d (unat lba))) = t" using len [OF Suc.prems(1)] by (simp add: t_def)
    have sp: "take rem (secs (sec d) (unat lba) (Suc n)) = take t (sec d (unat lba)) @ take (rem - t) (secs (sec d) (Suc (unat lba)) n)"
      using len [OF Suc.prems(1)] by (simp add: t_def min_def)
    then obtain b1 where b1: "blit buf off (take t (sec d (unat lba))) = Some b1"
      using Suc.prems(4) lx by (auto simp: blit_def split: if_splits)
    have "blit b1 (off + t) (take (rem - t) (secs (sec d) (Suc (unat lba)) n)) = Some b"
      using blit_blit [OF b1, of "take (rem - t) (secs (sec d) (Suc (unat lba)) n)"] Suc.prems(4) unfolding sp lx by simp
    with Suc.IH [OF d1(2), of "lba + 1" b1 "off + t" "rem - t"] Suc.prems(2,3) d1(3) l1 obtain d' where
      d': "read_cluster dv drive n (lba + 1) b1 (off + t) (rem - t) d1 = Some (True, b, off + t + min (rem - t) (512 * n), rem - t - 512 * n, d')"
        "ok d'" "sec d' = sec d" by auto
    have "t + min (rem - t) (512 * n) = min rem (512 * Suc n)" "rem - t - 512 * n = rem - 512 * Suc n" by (auto simp: t_def)
    with False d1(1) b1 d' show ?thesis by (auto simp: t add.assoc)
  qed
qed

lemma write_cluster_ok:
  assumes "ok d" "unat lba + n \<le> nsec" "nsec < 2 ^ 32" "off + rem \<le> length src"
  shows "\<exists>d'. write_cluster dv drive n lba src off rem d = Some (True, off + min rem (512 * n), rem - 512 * n, d') \<and> ok d'
     \<and> take rem (secs (sec d') (unat lba) n) = take (min rem (512 * n)) (drop off src)
     \<and> (\<forall>k. k < unat lba \<or> unat lba + n \<le> k \<longrightarrow> sec d' k = sec d k)"
  using assms
proof (induction n arbitrary: lba off rem d)
  case 0
  then show ?case by auto
next
  case (Suc n)
  show ?case
  proof (cases "rem = 0")
    case True
    then show ?thesis using Suc.prems by auto
  next
    case False
    define t where "t = min rem 512"
    define chunk where "chunk = take t (drop off src)"
    have t: "(if 512 < rem then 512 else rem) = t" by (simp add: t_def)
    have sl: "slice src off t = Some chunk" using Suc.prems(4) by (simp add: slice_def chunk_def t_def)
    have lc: "length chunk = t" using Suc.prems(4) by (simp add: chunk_def t_def)
    from Suc.prems have "unat lba < nsec" by simp
    from wr [OF Suc.prems(1) this, of "chunk @ replicate (512 - t) 0"] lc obtain d1 where
      d1: "dv_wr dv drive lba (chunk @ replicate (512 - t) 0) d = Some (True, d1)" "ok d1"
        "sec d1 = (sec d)(unat lba := chunk @ replicate (512 - t) 0)" by (auto simp: t_def)
    have l1: "unat (lba + 1) = Suc (unat lba)" using Suc.prems(2,3) by (simp add: unat_word_ariths)
    from Suc.IH [OF d1(2), of "lba + 1" "off + t" "rem - t"] Suc.prems(2-4) l1 obtain d' where
      d': "write_cluster dv drive n (lba + 1) src (off + t) (rem - t) d1 = Some (True, off + t + min (rem - t) (512 * n), rem - t - 512 * n, d')"
        "ok d'" "take (rem - t) (secs (sec d') (Suc (unat lba)) n) = take (min (rem - t) (512 * n)) (drop (off + t) src)"
        "\<forall>k. k < Suc (unat lba) \<or> Suc (unat lba) + n \<le> k \<longrightarrow> sec d' k = sec d1 k" by (auto simp: t_def)
    have e: "t + min (rem - t) (512 * n) = min rem (512 * Suc n)" "rem - t - 512 * n = rem - 512 * Suc n" by (auto simp: t_def)
    have fst: "sec d' (unat lba) = chunk @ replicate (512 - t) 0" using d'(4) d1(3) by simp
    have "take rem (secs (sec d') (unat lba) (Suc n)) = chunk @ take (rem - t) (secs (sec d') (Suc (unat lba)) n)"
      using lc fst by (cases "rem \<le> 512") (simp_all add: t_def)
    also have "\<dots> = take (min rem (512 * Suc n)) (drop off src)"
      unfolding d'(3) e(1) [symmetric] take_add chunk_def by (simp add: add.commute)
    finally show ?thesis using False d1 d' sl e by (auto simp: t add.assoc)
  qed
qed

end

section \<open>Reading and writing chains\<close>

text \<open>The table on the disk is the table in memory, or is marked to be written.\<close>

definition fat_chunk :: "fat12 \<Rightarrow> nat \<Rightarrow> bytes" where
  "fat_chunk st s = take 512 (drop (s * 512) (g_fat st))"

definition fat_synced :: "fat12 \<Rightarrow> (nat \<Rightarrow> bytes) \<Rightarrow> bool" where
  "fat_synced st sec \<longleftrightarrow> (\<forall>s<unat (sectors_per_fat (g_bpb st)). sec (unat (g_fat_start st) + s) = fat_chunk st s)"

context block_device
begin

lemma length_secs: "ok d \<Longrightarrow> length (secs (sec d) k n) = 512 * n"
  by (induction n arbitrary: k) (simp_all add: len)

lemma length_clus: "ok d \<Longrightarrow> length (clus st (sec d) c) = 512 * spc st"
  by (simp add: clus_def length_secs)

lemma length_cluss: "ok d \<Longrightarrow> length (concat (map (clus st (sec d)) cs)) = length cs * (512 * spc st)"
  by (induction cs) (simp_all add: length_clus)

lemma read_chain_ok:
  assumes "ok d" "geom nsec drive st" "chain st c cs" "rem \<le> length cs * (512 * spc st)" "rem \<le> fuel"
    "blit buf off (take rem (concat (map (clus st (sec d)) cs))) = Some b"
  shows "\<exists>d'. read_chain fuel dv st c buf off rem d = Some (off + rem, b, d') \<and> ok d' \<and> sec d' = sec d"
  using assms
proof (induction cs arbitrary: c rem fuel buf off d)
  case Nil
  then show ?case by (auto simp: read_chain.simps dest: blit_nilD)
next
  case (Cons x xs)
  note g = Cons.prems(2) [unfolded geom_def]
  show ?case
  proof (cases "rem = 0")
    case True
    then show ?thesis using Cons.prems by (auto simp: read_chain.simps dest: blit_nilD)
  next
    case False
    define n where "n = 512 * spc st"
    have n: "0 < n" using g by (simp add: n_def)
    obtain m where m: "fuel = Suc m" using Cons.prems(5) False by (cases fuel) auto
    have x: "c = of_nat x" "data_cluster st x" "2 \<le> x" "x < 3072" "chain st (fatv st x) xs"
      using Cons.prems(3) g by (auto simp: data_cluster_def)
    have lb: "unat (cluster_to_lba st c) = base st x" "base st x + spc st \<le> nsec"
      using lba_eq [OF Cons.prems(2) x(2)] base_bound [OF x(2)] g x(1) by auto
    have lc: "length (clus st (sec d) x) = n" using length_clus [OF Cons.prems(1)] by (simp add: n_def)
    have sp: "take rem (concat (map (clus st (sec d)) (x # xs)))
        = take rem (clus st (sec d) x) @ take (rem - n) (concat (map (clus st (sec d)) xs))" using lc by simp
    then obtain b1 where b1: "blit buf off (take rem (clus st (sec d) x)) = Some b1"
      using Cons.prems(6) by (auto simp: blit_def split: if_splits)
    have lt: "length (take rem (clus st (sec d) x)) = min rem n" using lc by simp
    have b2: "blit b1 (off + min rem n) (take (rem - n) (concat (map (clus st (sec d)) xs))) = Some b"
      using blit_blit [OF b1, of "take (rem - n) (concat (map (clus st (sec d)) xs))"] Cons.prems(6) unfolding sp lt by simp
    from read_cluster_ok [of d "cluster_to_lba st c" "spc st" buf off rem b1] Cons.prems(1) b1 lb g obtain d1 where
      d1: "read_cluster dv drive (spc st) (cluster_to_lba st c) buf off rem d = Some (True, b1, off + min rem n, rem - n, d1)"
        "ok d1" "sec d1 = sec d" by (auto simp: clus_def n_def)
    have "rem - n \<le> length xs * (512 * spc st)" "rem - n \<le> m"
      using Cons.prems(4,5) n False by (auto simp: m n_def)
    from Cons.IH [OF d1(2) Cons.prems(2) x(5) this] b2 d1(3) obtain d' where
      d': "read_chain m dv st (fatv st x) b1 (off + min rem n) (rem - n) d1 = Some (off + min rem n + (rem - n), b, d')" "ok d'" "sec d' = sec d"
      by auto
    have "read_chain fuel dv st c buf off rem d = read_chain m dv st (fatv st x) b1 (off + min rem n) (rem - n) d1"
      using False cluster_range [OF x(3,4)] d1(1) g fat_get_eq [of st x] x(1,4)
      by (subst read_chain.simps) (simp add: m)
    with d' show ?thesis by (auto simp: add.assoc)
  qed
qed

lemma fat_flush_loop_ok:
  assumes "ok d" "geom nsec drive st" "\<forall>(c, s) \<in> set l. c < unat (fat_count (g_bpb st)) \<and> s < unat (sectors_per_fat (g_bpb st))"
  shows "\<exists>d'. fat_flush_loop dv st l d = Some (True, d') \<and> ok d' \<and> (\<forall>k\<ge>unat (g_root_start st). sec d' k = sec d k)
     \<and> (\<forall>s<unat (sectors_per_fat (g_bpb st)). sec d (unat (g_fat_start st) + s) = fat_chunk st s \<or> (0, s) \<in> set l \<longrightarrow>
          sec d' (unat (g_fat_start st) + s) = fat_chunk st s)
     \<and> (\<forall>k<unat (g_fat_start st). sec d' k = sec d k)"
  using assms
proof (induction l arbitrary: d)
  case (Cons p l)
  obtain c s where p: "p = (c, s)" by (cases p)
  define spf where "spf = unat (sectors_per_fat (g_bpb st))"
  note g = Cons.prems(2) [unfolded geom_def]
  from Cons.prems(3) p have cs: "c < unat (fat_count (g_bpb st))" "s < spf" by (auto simp: spf_def)
  have "Suc c * spf \<le> unat (fat_count (g_bpb st)) * spf" using cs(1) by (intro mult_le_mono1) simp
  then have lt: "unat (g_fat_start st) + (c * spf + s) < unat (g_root_start st)" using cs(2) g unfolding spf_def [symmetric] by simp
  define lba where "lba = g_fat_start st + of_nat (c * spf + s)"
  have u: "unat lba = unat (g_fat_start st) + (c * spf + s)"
    using lt unat_u32_lt [of "g_root_start st"] unfolding lba_def by (intro unat_add_of_nat) linarith
  have s9: "s \<le> 8" using cs(2) g unfolding spf_def by linarith
  have sl: "slice (g_fat st) (s * 512) 512 = Some (take 512 (drop (s * 512) (g_fat st)))" "length (take 512 (drop (s * 512) (g_fat st))) = 512"
    using s9 g by (simp_all add: slice_def pack_ok_def FAT_BUF_SIZE_def)
  have "unat lba < nsec" using u lt g by linarith
  from wr [OF Cons.prems(1) this sl(2)] obtain d1 where d1: "dv_wr dv drive lba (take 512 (drop (s * 512) (g_fat st))) d = Some (True, d1)" "ok d1"
    "sec d1 = (sec d)(unat lba := take 512 (drop (s * 512) (g_fat st)))" by blast
  from Cons.IH [OF d1(2) Cons.prems(2)] Cons.prems(3) obtain d' where
    d': "fat_flush_loop dv st l d1 = Some (True, d')" "ok d'" "\<forall>k\<ge>unat (g_root_start st). sec d' k = sec d1 k"
      "\<forall>s. s < spf \<longrightarrow> sec d1 (unat (g_fat_start st) + s) = fat_chunk st s \<or> (0, s) \<in> set l \<longrightarrow> sec d' (unat (g_fat_start st) + s) = fat_chunk st s"
      "\<forall>k<unat (g_fat_start st). sec d' k = sec d1 k" unfolding spf_def by auto
  have new: "sec d1 (unat (g_fat_start st) + t) = fat_chunk st t" if t: "t < spf" "sec d (unat (g_fat_start st) + t) = fat_chunk st t \<or> (c, s) = (0, t)" for t
  proof (cases "unat (g_fat_start st) + t = unat lba")
    case True
    then have e: "t = c * spf + s" using u by simp
    then have "c = 0" using t(1) by (cases c) auto
    with e show ?thesis using d1(3) True by (simp add: fat_chunk_def)
  next
    case False
    then have "(c, s) \<noteq> (0, t)" using u by auto
    with t(2) False show ?thesis using d1(3) by auto
  qed
  have "fat_flush_loop dv st (p # l) d = Some (True, d')" using sl(1) d1(1) d'(1) g by (simp add: p lba_def spf_def)
  moreover have "\<forall>t. t < spf \<longrightarrow> sec d (unat (g_fat_start st) + t) = fat_chunk st t \<or> (0, t) \<in> set (p # l) \<longrightarrow>
      sec d' (unat (g_fat_start st) + t) = fat_chunk st t"
    using new d'(4) p by (metis set_ConsD)
  ultimately show ?case using d'(2,3,5) d1(3) u lt unfolding spf_def by auto
qed auto

lemma fat_flush_ok:
  assumes "ok d" "geom nsec drive st"
  shows "\<exists>st' d'. fat_flush dv st d = Some (0, st', d') \<and> same_vol st st' \<and> g_fat st' = g_fat st \<and> ok d'
     \<and> (\<forall>k\<ge>unat (g_root_start st). sec d' k = sec d k)
     \<and> (\<forall>k<unat (g_fat_start st). sec d' k = sec d k)
     \<and> (g_fat_dirty st \<or> fat_synced st (sec d) \<longrightarrow> 0 < fat_count (g_bpb st) \<longrightarrow> \<not> g_fat_dirty st' \<and> fat_synced st' (sec d'))"
proof (cases "g_fat_dirty st")
  case True
  define l where "l = List.product [0..<unat (fat_count (g_bpb st))] [0..<unat (sectors_per_fat (g_bpb st))]"
  from fat_flush_loop_ok [OF assms, of l] obtain d' where
    d': "fat_flush_loop dv st l d = Some (True, d')" "ok d'" "\<forall>k\<ge>unat (g_root_start st). sec d' k = sec d k"
      "\<forall>s<unat (sectors_per_fat (g_bpb st)). (0, s) \<in> set l \<longrightarrow> sec d' (unat (g_fat_start st) + s) = fat_chunk st s"
      "\<forall>k<unat (g_fat_start st). sec d' k = sec d k" by (auto simp: l_def)
  have "same_vol st (st\<lparr>g_fat_dirty := False\<rparr>)"
    unfolding same_vol_def by (intro exI [of _ "g_fat st"] exI [of _ False]) simp
  moreover have "fat_synced (st\<lparr>g_fat_dirty := False\<rparr>) (sec d')" if "0 < fat_count (g_bpb st)"
    using that d'(4) by (simp add: fat_synced_def fat_chunk_def l_def word_less_nat_alt)
  ultimately show ?thesis using True d'(1-3,5) unfolding l_def by (simp add: fat_flush_def)
next
  case False
  then show ?thesis using assms by (simp add: fat_flush_def)
qed

end

text \<open>The number of clusters that a number of bytes takes.\<close>

definition need :: "fat12 \<Rightarrow> nat \<Rightarrow> nat" where
  "need st n = (n + (512 * spc st - 1)) div (512 * spc st)"

lemma need_step: "0 < n \<Longrightarrow> 0 < spc st \<Longrightarrow> need st n = Suc (need st (n - 512 * spc st))"
proof -
  assume a: "0 < n" "0 < spc st"
  define m where "m = 512 * spc st"
  have m: "0 < m" using a by (simp add: m_def)
  show ?thesis
  proof (cases "m \<le> n")
    case True
    then have e: "n + (m - 1) = (n - m + (m - 1)) + m" using m by simp
    show ?thesis unfolding need_def m_def [symmetric] using m by (subst e) (simp only: div_add_self2)
  next
    case False
    then have e: "n + (m - 1) = (n - 1) + m" and f: "n - 1 < m" "n - m = 0" using a(1) by auto
    show ?thesis unfolding need_def m_def [symmetric] using m f by (subst e) (simp only: div_add_self2, simp)
  qed
qed

lemma finite_free [simp]: "finite (free_cl st)"
  by (rule finite_subset [of _ "{..<ncl st + 2}"]) (auto simp: free_cl_def data_cluster_def)

lemma and_FFF: "c < 3072 \<Longrightarrow> (of_nat c :: u16) AND 0xFFF = of_nat c"
  unfolding and_masks by (simp add: word_unat_eq_iff unsigned_take_bit_eq take_bit_nat_eq_self)

text \<open>Taking a cluster and linking it to the previous one.\<close>

definition linked :: "fat12 \<Rightarrow> u16 \<Rightarrow> nat \<Rightarrow> fat12 \<Rightarrow> bool" where
  "linked st prev c st' \<longleftrightarrow> same_vol st st' \<and> pack_ok st'
     \<and> (\<forall>m<3072. fatv st' m = (if prev \<noteq> 0 \<and> m = unat prev then of_nat c else if m = c then 0xFFF else fatv st m))"

lemma link_ok:
  assumes "pack_ok st" "ncl st + 2 \<le> 3072" "free_cl st \<noteq> {}" "prev = 0 \<or> unat prev < 3072"
  shows "\<exists>c st1 st2. fat_alloc st = Some (of_nat c, st1) \<and> c \<in> free_cl st
     \<and> (if prev \<noteq> 0 then fat_set prev (of_nat c) st1 else Some st1) = Some st2 \<and> linked st prev c st2"
proof -
  from fat_alloc_ok [OF assms(1-3)] obtain c st1 where a: "fat_alloc st = Some (of_nat c, st1)" "c \<in> free_cl st" "same_vol st st1" "pack_ok st1"
    "\<forall>m<3072. fatv st1 m = (if m = c then 0xFFF else fatv st m)" by blast
  show ?thesis
  proof (cases "prev = 0")
    case True
    then show ?thesis using a by (auto simp: linked_def)
  next
    case False
    with assms(4) have p: "unat prev < 3072" "of_nat (unat prev) = prev" by auto
    have "c < 3072" using a(2) assms(2) by (auto simp: free_cl_def data_cluster_def)
    with fat_set_ok [OF a(4) p(1), of "of_nat c"] obtain st2 where
      "fat_set prev (of_nat c) st1 = Some st2" "same_vol st1 st2" "pack_ok st2"
      "\<forall>m<3072. fatv st2 m = (if m = unat prev then of_nat c else fatv st1 m)" unfolding p(2) by (auto simp: and_FFF)
    then show ?thesis using False a same_vol_trans [OF a(3)] by (auto simp: linked_def)
  qed
qed

context block_device
begin

text \<open>What a run of the writing loop leaves: a chain of fresh clusters with the data.\<close>

definition written :: "fat12 \<Rightarrow> 'd \<Rightarrow> u16 \<Rightarrow> bytes \<Rightarrow> nat list \<Rightarrow> fat12 \<Rightarrow> 'd \<Rightarrow> bool" where
  "written st d prev data cs st' d' \<longleftrightarrow> same_vol st st' \<and> pack_ok st' \<and> ok d' \<and> set cs \<subseteq> free_cl st \<and> distinct cs
     \<and> length data \<le> length cs * (512 * spc st) \<and> length cs = need st (length data)
     \<and> (\<forall>m<3072. m \<notin> set cs \<longrightarrow> fatv st' m = (if cs \<noteq> [] \<and> prev \<noteq> 0 \<and> m = unat prev then of_nat (hd cs) else fatv st m))
     \<and> (cs \<noteq> [] \<longrightarrow> chain st' (of_nat (hd cs)) cs \<and> fatv st' (last cs) = 0xFFF)
     \<and> take (length data) (concat (map (clus st (sec d')) cs)) = data
     \<and> (\<forall>k. (\<forall>c\<in>set cs. k \<notin> area st c) \<longrightarrow> sec d' k = sec d k)"

end

context block_device
begin

lemma linked_free:
  assumes "linked st prev c st2" "c \<in> free_cl st" "ncl st + 2 \<le> 3072" "prev = 0 \<or> data_cluster st (unat prev) \<and> fatv st (unat prev) \<noteq> 0"
  shows "free_cl st2 = free_cl st - {c}"
proof -
  have c: "2 \<le> c" "c < 3072" using assms(2,3) by (auto simp: free_cl_def data_cluster_def)
  have n: "ncl st2 = ncl st" "data_cluster st2 = data_cluster st" using assms(1) same_vol_ncl by (auto simp: linked_def)
  have "fatv st2 m = 0 \<longleftrightarrow> fatv st m = 0 \<and> m \<noteq> c" if "data_cluster st m" for m
  proof -
    have "m < 3072" using that assms(3) by (rule data_cluster_lt)
    then have e: "fatv st2 m = (if prev \<noteq> 0 \<and> m = unat prev then of_nat c else if m = c then 0xFFF else fatv st m)"
      using assms(1) by (simp add: linked_def)
    have "(of_nat c :: u16) \<noteq> 0" by (rule cluster_range(3) [OF c])
    moreover have "(0xFFF :: u16) \<noteq> 0" by simp
    ultimately show ?thesis unfolding e using assms(4) by auto
  qed
  then show ?thesis by (auto simp: free_cl_def n)
qed

lemma written_step:
  assumes "linked st prev c st2" "c \<in> free_cl st" "geom nsec drive st"
    and prev: "prev = 0 \<or> data_cluster st (unat prev) \<and> fatv st (unat prev) \<noteq> 0"
    and data: "data \<noteq> []" "take (length data) (clus st (sec d1) c) = take (512 * spc st) data"
    and frame: "\<And>k. k \<notin> area st c \<Longrightarrow> sec d1 k = sec d k"
    and w: "written st2 d1 (of_nat c) (drop (512 * spc st) data) cs st' d'" and "ok d1"
  shows "written st d prev data (c # cs) st' d'"
proof -
  define n where "n = 512 * spc st"
  have g: "ncl st + 2 \<le> 3072" "0 < spc st" using assms(3) by (auto simp: geom_def)
  have n0: "0 < n" using g by (simp add: n_def)
  have sv: "same_vol st st2" using assms(1) by (simp add: linked_def)
  note fr = linked_free [OF assms(1,2) g(1) prev]
  have c: "data_cluster st c" "2 \<le> c" "c < 3072" "fatv st c = 0" using assms(2) g by (auto simp: free_cl_def data_cluster_def)
  have uc: "unat (of_nat c :: u16) = c" "(of_nat c :: u16) \<noteq> 0" using c cluster_range(3) [OF c(2,3)] by simp_all
  note W = w [unfolded written_def]
  have sp: "spc st2 = spc st" "clus st2 = clus st" "area st2 = area st" "ncl st2 = ncl st"
    using same_vol_area [OF sv] same_vol_ncl [OF sv] same_volD(3) [OF sv] by auto
  have cs: "set cs \<subseteq> free_cl st - {c}" "distinct cs" using W fr by auto
  have pc: "unat prev \<noteq> c" if "prev \<noteq> 0" using that prev c(4) by auto
  have pcs: "unat prev \<notin> set cs" if "prev \<noteq> 0" using that prev cs by (auto simp: free_cl_def)
  have F: "fatv st' m = (if prev \<noteq> 0 \<and> m = unat prev then of_nat c else fatv st m)" if "m < 3072" "m \<notin> set (c # cs)" for m
    using W assms(1) that uc by (auto simp: linked_def)
  have Fc: "fatv st' c = (if cs = [] then 0xFFF else of_nat (hd cs))"
    using W cs(1) c(3) uc assms(1) pc by (auto simp: linked_def)
  have hdz: "(of_nat (hd cs) :: u16) \<noteq> 0" if "cs \<noteq> []"
  proof -
    have "hd cs \<in> free_cl st" using that cs(1) hd_in_set [OF that] by blast
    then show ?thesis using g(1) by (intro cluster_range(3)) (auto simp: free_cl_def data_cluster_def)
  qed
  have nst': "ncl st' = ncl st" using W same_vol_ncl sp(4) by auto
  have ch: "chain st' (of_nat c) (c # cs)"
    using Fc hdz W c(1) nst' by (cases "cs = []") (auto simp: data_cluster_def)
  have "clus st (sec d') c = clus st (sec d1) c"
    unfolding clus_def
  proof (rule secs_cong)
    fix i assume "base st c \<le> i" "i < base st c + spc st"
    then have i: "i \<in> area st c" by (simp add: area_def)
    have "i \<notin> area st x" if "x \<in> set cs" for x
    proof -
      from that cs(1) have "x \<noteq> c" "2 \<le> x" by (auto simp: free_cl_def data_cluster_def)
      with area_apart [of c x st] c(2) i show ?thesis by blast
    qed
    with W sp(3) show "sec d' i = sec d1 i" by simp
  qed
  then have "take (length data) (concat (map (clus st (sec d')) (c # cs))) = take n data @ take (length data - n) (concat (map (clus st (sec d')) cs))"
    using data(2) length_clus [OF \<open>ok d1\<close>] by (simp add: n_def)
  also have "\<dots> = data" using W by (simp add: sp n_def)
  finally have dat: "take (length data) (concat (map (clus st (sec d')) (c # cs))) = data" .
  have "need st (length data) = Suc (need st (length data - n))" unfolding n_def using data(1) g(2) by (intro need_step) auto
  then have len: "length (c # cs) = need st (length data)" using W by (simp add: need_def sp n_def)
  have "length (drop (512 * spc st) data) \<le> length cs * (512 * spc st2)" using W by blast
  then have "length data - n \<le> length cs * n" by (simp add: sp n_def)
  then have le: "length data \<le> length (c # cs) * n" by simp
  have fr2: "sec d' k = sec d k" if "\<forall>x\<in>set (c # cs). k \<notin> area st x" for k using that W frame [of k] sp(3) by simp
  have s: "same_vol st st'" "pack_ok st'" "ok d'" using W same_vol_trans [OF sv] by auto
  show ?thesis unfolding written_def
    using s cs assms(2) len le [unfolded n_def] F ch dat fr2 Fc W by (auto simp: last.simps)
qed

end

context block_device
begin

lemma written_nil: "geom nsec drive st \<Longrightarrow> ok d \<Longrightarrow> written st d prev [] [] st d"
  by (simp add: written_def geom_def need_def)

lemma write_chain_ok:
  assumes "ok d" "geom nsec drive st" "off + rem \<le> length src" "need st rem \<le> card (free_cl st)" "rem \<le> fuel"
    "prev = 0 \<or> data_cluster st (unat prev) \<and> fatv st (unat prev) \<noteq> 0"
  shows "\<exists>cs st' d'. write_chain fuel dv first prev src off rem st d
       = Some (Some (if first = 0 \<and> cs \<noteq> [] then of_nat (hd cs) else first, if cs = [] then prev else of_nat (last cs)), st', d')
     \<and> written st d prev (take rem (drop off src)) cs st' d'"
  using assms
proof (induction fuel arbitrary: first prev off rem st d)
  case 0
  then show ?case using written_nil [OF 0(2,1), of prev] by (auto simp: write_chain.simps)
next
  case (Suc m)
  show ?case
  proof (cases "rem = 0")
    case True
    then show ?thesis using written_nil [OF Suc.prems(2,1), of prev] by (intro exI [of _ "[]"]) (simp add: write_chain.simps)
  next
    case False
    note g = Suc.prems(2) [unfolded geom_def]
    define n where "n = 512 * spc st"
    define data where "data = take rem (drop off src)"
    have ld: "length data = rem" "data \<noteq> []" using Suc.prems(3) False by (auto simp: data_def)
    have ns: "need st rem = Suc (need st (rem - n))" unfolding n_def using False g by (intro need_step) auto
    then have "free_cl st \<noteq> {}" using Suc.prems(4) by auto
    moreover have "prev = 0 \<or> unat prev < 3072" using Suc.prems(6) g data_cluster_lt by blast
    ultimately obtain c st1 st2 where c: "fat_alloc st = Some (of_nat c, st1)" "c \<in> free_cl st"
      "(if prev \<noteq> 0 then fat_set prev (of_nat c) st1 else Some st1) = Some st2" "linked st prev c st2"
      using link_ok [of st prev] g by blast
    have cd: "data_cluster st c" "2 \<le> c" "c < 3072" using c(2) g by (auto simp: free_cl_def data_cluster_def)
    have sv: "same_vol st st2" and pk: "pack_ok st2" using c(4) by (auto simp: linked_def)
    have g2: "geom nsec drive st2" using geom_same [OF Suc.prems(2) sv pk] .
    have cd2: "data_cluster st2 c" using cd(1) same_vol_ncl [OF sv] by simp
    have lb: "unat (cluster_to_lba st2 (of_nat c)) = base st c" "base st c + spc st \<le> nsec"
      using lba_eq [OF g2 cd2] same_vol_area [OF sv] base_bound [OF cd(1)] g by auto
    have sp: "spc st2 = spc st" "g_drive st2 = drive" using same_volD [OF sv] g by auto
    from write_cluster_ok [OF Suc.prems(1), of "cluster_to_lba st2 (of_nat c)" "spc st" off rem src] lb g Suc.prems(3) obtain d1 where
      d1: "write_cluster dv drive (spc st) (cluster_to_lba st2 (of_nat c)) src off rem d = Some (True, off + min rem n, rem - n, d1)" "ok d1"
        "take rem (clus st (sec d1) c) = take (min rem n) (drop off src)"
        "\<And>k. k \<notin> area st c \<Longrightarrow> sec d1 k = sec d k" by (auto simp: clus_def area_def n_def not_less not_le)
    have fr: "free_cl st2 = free_cl st - {c}" using linked_free [OF c(4,2) _ Suc.prems(6)] g by blast
    have p1: "off + min rem n + (rem - n) \<le> length src" using Suc.prems(3) by (simp add: min_def)
    have p2: "need st2 (rem - n) \<le> card (free_cl st2)" using Suc.prems(4) ns c(2) by (simp add: fr need_def sp)
    have p3: "rem - n \<le> m" using Suc.prems(5) False g unfolding n_def by linarith
    have uc: "unat (of_nat c :: u16) = c" "(of_nat c :: u16) \<noteq> 0" using cd cluster_range(3) [OF cd(2,3)] by simp_all
    have p4: "of_nat c = (0 :: u16) \<or> data_cluster st2 (unat (of_nat c :: u16)) \<and> fatv st2 (unat (of_nat c :: u16)) \<noteq> 0"
      unfolding uc using cd2 c(4) cd(3) uc(2) by (simp add: linked_def)
    obtain cs st' d' where IH: "write_chain m dv (if first = 0 then of_nat c else first) (of_nat c) src (off + min rem n) (rem - n) st2 d1
       = Some (Some (if (if first = 0 then of_nat c else first) = 0 \<and> cs \<noteq> [] then of_nat (hd cs) else if first = 0 then of_nat c else first,
            if cs = [] then of_nat c else of_nat (last cs)), st', d')"
      "written st2 d1 (of_nat c) (take (rem - n) (drop (off + min rem n) src)) cs st' d'"
      using Suc.IH [OF d1(2) g2 p1 p2 p3 p4, of "if first = 0 then of_nat c else first"] by blast
    have dd: "take (rem - n) (drop (off + min rem n) src) = drop n data"
      by (cases "rem \<le> n") (simp_all add: data_def drop_take add.commute)
    have td: "take (length data) (clus st (sec d1) c) = take (512 * spc st) data"
      unfolding ld(1) d1(3) by (simp add: data_def n_def min.commute)
    have "written st d prev data (c # cs) st' d'"
      by (rule written_step [OF c(4,2) Suc.prems(2,6) ld(2) td d1(4) IH(2) [unfolded dd, unfolded n_def] d1(2)])
    moreover have "write_chain (Suc m) dv first prev src off rem st d
        = write_chain m dv (if first = 0 then of_nat c else first) (of_nat c) src (off + min rem n) (rem - n) st2 d1"
      using False c(1,3) uc(2) d1(1) sp by (subst write_chain.simps) simp
    ultimately show ?thesis unfolding IH(1) data_def using uc(2) by (intro exI [of _ "c # cs"] exI conjI) (auto simp: last.simps)
  qed
qed

end

end
