(* ===== verification/Fat12Dir.thy ===== *)
theory Fat12Dir
  imports Fat12Files
begin

text \<open>
  The root directory of a FAT12 volume as one array of 32-byte entries, and the refinement: the volume is a map from 8.3
  names to contents.
\<close>

section \<open>Names and entries\<close>

lemma copy_83_ok: "copy_83 stop room name = Some (xs, r) \<Longrightarrow> 0 \<notin> set xs \<and> length xs \<le> room"
proof (induction stop room name arbitrary: xs r rule: copy_83.induct)
  case (2 stop room c cs)
  have "upper c \<noteq> 0" if "c \<noteq> 0"
  proof
    assume z: "upper c = 0"
    show False
    proof (cases "97 \<le> c \<and> c \<le> 122")
      case True
      then have "c = 32" using z by (simp add: upper_def)
      with True show False by simp
    next
      case False
      with z that show False by (simp add: upper_def split: if_splits)
    qed
  qed
  with 2 show ?case by (cases room) (auto split: if_splits bind_splits)
qed simp

lemma name_to_83_ok: "name_to_83 name = Some want \<Longrightarrow> length want = 11 \<and> 0 \<notin> set want"
  by (auto simp: name_to_83_def pad_blank_def split: bind_splits list.splits if_splits dest!: copy_83_ok)

lemma kstrncmp_raw:
  "n \<le> length a \<Longrightarrow> n \<le> length b \<Longrightarrow> 0 \<notin> set (take n b) \<Longrightarrow> \<exists>r. kstrncmp a b n = Some r \<and> (r = 0 \<longleftrightarrow> take n a = take n b)"
  by (induction a b n rule: kstrncmp.induct) auto

lemma dirent_round:
  assumes "length fn = 11"
  shows "dirent_of (dirent_bytes (new_dirent fn c n)) = new_dirent fn c n" "length (dirent_bytes (new_dirent fn c n)) = 32"
    "take 11 (dirent_bytes (new_dirent fn c n)) = fn"
proof -
  let ?b = "dirent_bytes (new_dirent fn c n)"
  have b: "?b = fn @ [ATTR_ARCHIVE] @ replicate 10 0 @ wr16 0 @ wr16 0x4A21 @ wr16 c @ wr32 n"
    by (simp add: dirent_bytes_def new_dirent_def flip: append_assoc)
  show l: "length ?b = 32" unfolding b using assms by simp
  show "take 11 ?b = fn" unfolding b using assms by simp
  have "drop 22 ?b = wr16 0 @ wr16 0x4A21 @ wr16 c @ wr32 n" "drop 24 ?b = wr16 0x4A21 @ wr16 c @ wr32 n"
      "drop 26 ?b = wr16 c @ wr32 n" "drop 28 ?b = wr32 n @ []"
    unfolding b using assms by simp_all
  then have "rd16 ?b 22 = 0" "rd16 ?b 24 = 0x4A21" "rd16 ?b 26 = c" "rd32 ?b 28 = n"
    using l rd16_drop [of 22 ?b] rd16_drop [of 24 ?b] rd16_drop [of 26 ?b] rd32_drop [of 28 ?b] rd16_wr16 rd32_wr32 [of n "[]"] by auto
  moreover have "take 8 ?b = take 8 fn" "take 3 (drop 8 ?b) = drop 8 fn" "?b ! 11 = ATTR_ARCHIVE" "take 10 (drop 12 ?b) = replicate 10 0"
    unfolding b using assms by (simp_all add: nth_append)
  ultimately show "dirent_of ?b = new_dirent fn c n" by (simp add: dirent_of_def new_dirent_def)
qed

text \<open>Changing one entry of a sector.\<close>

lemma dir_at_length: "length sec = 512 \<Longrightarrow> i < 16 \<Longrightarrow> length (dir_at sec i) = 32"
  by (simp add: dir_at_def)

lemma dir_at_nth: "length sec = 512 \<Longrightarrow> i < 16 \<Longrightarrow> k < 32 \<Longrightarrow> dir_at sec i ! k = sec ! (32 * i + k)"
  by (simp add: dir_at_def)

lemma dir_at_blit:
  assumes "length sec = 512" "i < 16" "length raw = 32"
  shows "\<exists>s. blit sec (32 * i) raw = Some s \<and> length s = 512 \<and> (\<forall>k<16. dir_at s k = (if k = i then raw else dir_at sec k))"
proof -
  define s where "s = take (32 * i) sec @ raw @ drop (32 * i + 32) sec"
  have b: "blit sec (32 * i) raw = Some s" using assms by (simp add: blit_def s_def)
  then have l: "length s = 512" using assms length_blit by metis
  have n: "s ! j = (if 32 * i \<le> j \<and> j < 32 * i + 32 then raw ! (j - 32 * i) else sec ! j)" if "j < 512" for j
    using that assms by (auto simp: s_def nth_append)
  have "dir_at s k = (if k = i then raw else dir_at sec k)" if k: "k < 16" for k
  proof (rule nth_equalityI)
    show "length (dir_at s k) = length (if k = i then raw else dir_at sec k)"
      using l k assms dir_at_length by auto
    fix j assume "j < length (dir_at s k)"
    then have j: "j < 32" using l k dir_at_length by simp
    have "32 * k + j < 512" using j k by simp
    then have e: "dir_at s k ! j = (if 32 * i \<le> 32 * k + j \<and> 32 * k + j < 32 * i + 32 then raw ! (32 * k + j - 32 * i) else sec ! (32 * k + j))"
      using n [of "32 * k + j"] dir_at_nth [OF l k j] by simp
    show "dir_at s k ! j = (if k = i then raw else dir_at sec k) ! j"
    proof (cases "k = i")
      case True
      then show ?thesis unfolding e using j by simp
    next
      case False
      then have "\<not> (32 * i \<le> 32 * k + j \<and> 32 * k + j < 32 * i + 32)" using j by linarith
      then show ?thesis unfolding e using False dir_at_nth [OF assms(1) k j] by (simp only: if_False)
    qed
  qed
  with b l show ?thesis by blast
qed

lemma dir_at_first:
  assumes "length sec = 512" "i < 16" "k < 16"
  shows "dir_at (sec[32 * i := v]) k = (if k = i then (dir_at sec i)[0 := v] else dir_at sec k)"
proof (rule nth_equalityI)
  show "length (dir_at (sec[32 * i := v]) k) = length (if k = i then (dir_at sec i)[0 := v] else dir_at sec k)"
    using assms by (auto simp: dir_at_length)
  fix j assume "j < length (dir_at (sec[32 * i := v]) k)"
  then have j: "j < 32" using assms by (simp add: dir_at_length)
  have "32 * k + j = 32 * i \<longleftrightarrow> k = i \<and> j = 0" using j by (cases k i rule: linorder_cases) auto
  then show "dir_at (sec[32 * i := v]) k ! j = (if k = i then (dir_at sec i)[0 := v] else dir_at sec k) ! j"
    using j assms by (auto simp: dir_at_nth dir_at_length nth_list_update)
qed

section \<open>The directory as an array\<close>

definition ent :: "fat12 \<Rightarrow> (nat \<Rightarrow> bytes) \<Rightarrow> nat \<Rightarrow> bytes" where
  "ent st sec j = dir_at (sec (unat (g_root_start st) + j div 16)) (j mod 16)"

definition nent :: "fat12 \<Rightarrow> nat" where
  "nent st = 16 * unat (g_root_sectors st)"

definition live :: "bytes \<Rightarrow> bool" where
  "live b \<longleftrightarrow> b ! 0 \<noteq> DIRENT_END \<and> b ! 0 \<noteq> DIRENT_FREE"

definition dir_clean :: "fat12 \<Rightarrow> (nat \<Rightarrow> bytes) \<Rightarrow> bool" where
  "dir_clean st sec \<longleftrightarrow> (\<forall>i j. i \<le> j \<longrightarrow> j < nent st \<longrightarrow> ent st sec i ! 0 = DIRENT_END \<longrightarrow> ent st sec j ! 0 = DIRENT_END)"

definition entry_of :: "fat12 \<Rightarrow> (nat \<Rightarrow> bytes) \<Rightarrow> bytes \<Rightarrow> nat option" where
  "entry_of st sec want = first_idx (\<lambda>j. live (ent st sec j) \<and> take 11 (ent st sec j) = want) 0 (nent st)"

lemma same_vol_ent: "same_vol st st' \<Longrightarrow> ent st' = ent st \<and> nent st' = nent st"
  by (simp add: ent_def nent_def same_volD fun_eq_iff)

lemma first_idx_skip:
  assumes "k \<le> m" "\<And>i. k \<le> i \<Longrightarrow> i < m \<Longrightarrow> \<not> P i" "m \<le> n"
  shows "first_idx P k n = first_idx P m n"
proof (cases "first_idx P m n")
  case None
  then have "\<And>i. k \<le> i \<Longrightarrow> i < n \<Longrightarrow> \<not> P i" using assms(2) unfolding first_idx_None_iff by (metis not_le)
  then have "first_idx P k n = None" by (simp add: first_idx_None_iff)
  with None show ?thesis by simp
next
  case (Some i)
  note I = first_idx_SomeD [OF Some]
  have "first_idx P k n = Some i"
    by (rule first_idx_eqI) (use I assms in auto, metis not_le)
  with Some show ?thesis by simp
qed

lemma find_sector_eq:
  assumes "length s = 512" "length want = 11" "0 \<notin> set want" "\<forall>i\<in>set l. i < 16"
  shows "find_sector s want l =
     Some (case find (\<lambda>i. dir_at s i ! 0 = DIRENT_END \<or> live (dir_at s i) \<and> take 11 (dir_at s i) = want) l of
             None \<Rightarrow> NotHere
           | Some i \<Rightarrow> if dir_at s i ! 0 = DIRENT_END then EndOfDir else Found i (dirent_of (dir_at s i)))"
  using assms(4)
proof (induction l)
  case (Cons i l)
  have li: "length (dir_at s i) = 32" using Cons.prems assms(1) by (simp add: dir_at_length)
  from kstrncmp_raw [of 11 "dir_at s i" want] assms(2,3) li obtain r where
    "kstrncmp (dir_at s i) want 11 = Some r" "r = 0 \<longleftrightarrow> take 11 (dir_at s i) = want" by auto
  with Cons show ?case by (simp add: Let_def live_def)
qed simp

lemma ent_at: "i < 16 \<Longrightarrow> ent st sec (16 * s + i) = dir_at (sec (unat (g_root_start st) + s)) i"
  by (simp add: ent_def)

context block_device
begin

lemma root_read:
  assumes "ok d" "geom nsec drive st" "s < unat (g_root_sectors st)"
  shows "unat (g_root_start st + of_nat s) = unat (g_root_start st) + s"
    and "\<exists>d1. dv_rd dv drive (g_root_start st + of_nat s) d = Some (Some (sec d (unat (g_root_start st) + s)), d1) \<and> ok d1 \<and> sec d1 = sec d"
    and "unat (g_root_start st) + s < nsec"
proof -
  have lt: "unat (g_root_start st) + s < nsec" "nsec < 2 ^ 32" using assms(2,3) by (auto simp: geom_def)
  then show u: "unat (g_root_start st + of_nat s) = unat (g_root_start st) + s" by (intro unat_add_of_nat) simp
  show "unat (g_root_start st) + s < nsec" by (rule lt)
  from rd [OF assms(1), of "g_root_start st + of_nat s"] lt show
    "\<exists>d1. dv_rd dv drive (g_root_start st + of_nat s) d = Some (Some (sec d (unat (g_root_start st) + s)), d1) \<and> ok d1 \<and> sec d1 = sec d"
    unfolding u by blast
qed

lemma find_sectors_ok:
  assumes "geom nsec drive st" "length want = 11" "0 \<notin> set want" "ok d" "dir_clean st (sec d)" "s \<le> unat (g_root_sectors st)"
  shows "\<exists>d'. find_sectors dv st want [s..<unat (g_root_sectors st)] d
      = Some (map_option (\<lambda>j. (g_root_start st + of_nat (j div 16), j mod 16, dirent_of (ent st (sec d) j)))
          (first_idx (\<lambda>j. live (ent st (sec d) j) \<and> take 11 (ent st (sec d) j) = want) (16 * s) (nent st)), d')
     \<and> ok d' \<and> sec d' = sec d"
  using assms(4-6)
proof (induction "unat (g_root_sectors st) - s" arbitrary: s d)
  case 0
  then show ?case by (auto simp: nent_def first_idx_def)
next
  case (Suc k)
  define Q where "Q = (\<lambda>j. live (ent st (sec d) j) \<and> take 11 (ent st (sec d) j) = want)"
  define T where "T = sec d (unat (g_root_start st) + s)"
  from Suc have s: "s < unat (g_root_sectors st)" "s < Suc s" "k = unat (g_root_sectors st) - Suc s" by auto
  have up: "[s..<unat (g_root_sectors st)] = s # [Suc s..<unat (g_root_sectors st)]" using s(1) by (rule upt_conv_Cons)
  from root_read(2) [OF Suc.prems(1) assms(1) s(1)] obtain d1 where
    d1: "dv_rd dv drive (g_root_start st + of_nat s) d = Some (Some T, d1)" "ok d1" "sec d1 = sec d" by (auto simp: T_def)
  have lT: "length T = 512" using len Suc.prems(1) by (simp add: T_def)
  have e: "ent st (sec d) (16 * s + i) = dir_at T i" if "i < 16" for i using ent_at [OF that] by (simp add: T_def)
  have bnd: "16 * s + 16 \<le> nent st" using s(1) by (simp add: nent_def)
  have dr: "g_drive st = drive" using assms(1) by (simp add: geom_def)
  let ?P = "\<lambda>i. dir_at T i ! 0 = DIRENT_END \<or> live (dir_at T i) \<and> take 11 (dir_at T i) = want"
  have fs: "find_sector T want [0..<16] = Some (case first_idx ?P 0 16 of None \<Rightarrow> NotHere
      | Some i \<Rightarrow> if dir_at T i ! 0 = DIRENT_END then EndOfDir else Found i (dirent_of (dir_at T i)))"
    using find_sector_eq [OF lT assms(2,3), of "[0..<16]"] by (simp add: first_idx_def)
  have blk: "\<exists>i<16. j = 16 * s + i" if "16 * s \<le> j" "j < 16 * Suc s" for j using that by (intro exI [of _ "j - 16 * s"]) auto
  show ?case
  proof (cases "first_idx ?P 0 16")
    case None
    then have no: "\<not> Q j" if "16 * s \<le> j" "j < 16 * Suc s" for j
      using blk [OF that] e unfolding Q_def first_idx_None_iff by auto
    have "first_idx Q (16 * s) (nent st) = first_idx Q (16 * Suc s) (nent st)"
      by (rule first_idx_skip) (use no bnd in auto)
    with Suc.hyps(1) [OF s(3) d1(2)] Suc.prems(2) s(1) d1 fs None show ?thesis
      unfolding up Q_def by (simp add: dr)
  next
    case (Some i)
    note I = first_idx_SomeD [OF Some]
    have before: "\<not> Q j" if "16 * s \<le> j" "j < 16 * s + i" for j
    proof -
      from that I(2) have "j - 16 * s < i" "j = 16 * s + (j - 16 * s)" by auto
      with I(4) [of "j - 16 * s"] e [of "j - 16 * s"] I(2) show ?thesis by (simp add: Q_def)
    qed
    show ?thesis
    proof (cases "dir_at T i ! 0 = DIRENT_END")
      case True
      have "\<not> Q j" if "16 * s \<le> j" "j < nent st" for j
      proof (cases "j < 16 * s + i")
        case False
        then have "ent st (sec d) j ! 0 = DIRENT_END"
          using Suc.prems(2) that True e [OF I(2)] unfolding dir_clean_def by (metis not_less)
        then show ?thesis by (simp add: Q_def live_def)
      qed (use before that in blast)
      then have "first_idx Q (16 * s) (nent st) = None" by (simp add: first_idx_None_iff)
      with True fs Some d1 show ?thesis unfolding up Q_def by (simp add: dr)
    next
      case False
      then have "Q (16 * s + i)" using I(3) e [OF I(2)] by (simp add: Q_def)
      then have "first_idx Q (16 * s) (nent st) = Some (16 * s + i)"
        using before bnd I(2) by (intro first_idx_eqI) auto
      with False fs Some d1 e [OF I(2)] I(2) show ?thesis unfolding up Q_def by (simp add: dr)
    qed
  qed
qed

lemma find_ok:
  assumes "geom nsec drive st" "name_to_83 name = Some want" "ok d" "dir_clean st (sec d)"
  shows "\<exists>d'. fat12_find dv st name d
      = Some (map_option (\<lambda>j. (g_root_start st + of_nat (j div 16), j mod 16, dirent_of (ent st (sec d) j))) (entry_of st (sec d) want), d')
     \<and> ok d' \<and> sec d' = sec d"
  using find_sectors_ok [OF assms(1) _ _ assms(3,4), of want 0] name_to_83_ok [OF assms(2)] assms(2)
  by (simp add: fat12_find_def entry_of_def)

end

section \<open>The volume as a map\<close>

definition start_of :: "fat12 \<Rightarrow> (nat \<Rightarrow> bytes) \<Rightarrow> nat \<Rightarrow> u16" where
  "start_of st sec j = de_start_cluster (dirent_of (ent st sec j))"

definition size_of :: "fat12 \<Rightarrow> (nat \<Rightarrow> bytes) \<Rightarrow> nat \<Rightarrow> nat" where
  "size_of st sec j = unat (de_file_size (dirent_of (ent st sec j)))"

definition lives :: "fat12 \<Rightarrow> (nat \<Rightarrow> bytes) \<Rightarrow> nat set" where
  "lives st sec = {j. j < nent st \<and> live (ent st sec j)}"

text \<open>The chain of a file: inside the table, long enough for its size.\<close>

definition file_ok :: "fat12 \<Rightarrow> (nat \<Rightarrow> bytes) \<Rightarrow> nat \<Rightarrow> nat list \<Rightarrow> bool" where
  "file_ok st sec j cs \<longleftrightarrow> chain st (start_of st sec j) cs \<and> distinct cs \<and> size_of st sec j \<le> length cs * (512 * spc st)"

definition vol_ok :: "nat \<Rightarrow> int \<Rightarrow> fat12 \<Rightarrow> (nat \<Rightarrow> bytes) \<Rightarrow> (nat \<Rightarrow> nat list) \<Rightarrow> bool" where
  "vol_ok nsec drive st sec C \<longleftrightarrow> geom nsec drive st \<and> dir_clean st sec \<and> inj_on (\<lambda>j. take 11 (ent st sec j)) (lives st sec)
     \<and> (\<forall>j\<in>lives st sec. file_ok st sec j (C j))
     \<and> (\<forall>i\<in>lives st sec. \<forall>j\<in>lives st sec. i \<noteq> j \<longrightarrow> set (C i) \<inter> set (C j) = {})"

definition file_bytes :: "fat12 \<Rightarrow> (nat \<Rightarrow> bytes) \<Rightarrow> (nat \<Rightarrow> nat list) \<Rightarrow> nat \<Rightarrow> bytes" where
  "file_bytes st sec C j = take (size_of st sec j) (concat (map (clus st sec) (C j)))"

definition vol_map :: "fat12 \<Rightarrow> (nat \<Rightarrow> bytes) \<Rightarrow> (nat \<Rightarrow> nat list) \<Rightarrow> bytes \<rightharpoonup> bytes" where
  "vol_map st sec C n = map_option (file_bytes st sec C) (entry_of st sec n)"

definition fat_files :: "nat \<Rightarrow> int \<Rightarrow> fat12 \<Rightarrow> (nat \<Rightarrow> bytes) \<Rightarrow> (bytes \<rightharpoonup> bytes) \<Rightarrow> bool" where
  "fat_files nsec drive st sec A \<longleftrightarrow> (\<exists>C. vol_ok nsec drive st sec C \<and> A = vol_map st sec C)"

lemma entry_ofD: "entry_of st sec n = Some j \<Longrightarrow> j \<in> lives st sec \<and> take 11 (ent st sec j) = n"
  using first_idx_SomeD [of _ 0 "nent st" j] by (fastforce simp: entry_of_def lives_def)

lemma entry_of_None: "entry_of st sec n = None \<longleftrightarrow> (\<forall>j\<in>lives st sec. take 11 (ent st sec j) \<noteq> n)"
  by (auto simp: entry_of_def lives_def first_idx_None_iff)

lemma entry_of_eqI:
  assumes "inj_on (\<lambda>j. take 11 (ent st sec j)) (lives st sec)" "j \<in> lives st sec" "take 11 (ent st sec j) = n"
  shows "entry_of st sec n = Some j"
proof (cases "entry_of st sec n")
  case None
  then show ?thesis using assms(2,3) by (auto simp: entry_of_None)
next
  case (Some i)
  then show ?thesis using entry_ofD [OF Some] assms by (auto dest: inj_onD)
qed

lemma chain_data: "chain st c cs \<Longrightarrow> x \<in> set cs \<Longrightarrow> data_cluster st x \<and> fatv st x \<noteq> 0"
  by (induction cs arbitrary: c) auto

text \<open>
  A change of one directory entry, with a table and data that differ only outside the other files' chains.
\<close>

definition others_kept :: "fat12 \<Rightarrow> (nat \<Rightarrow> bytes) \<Rightarrow> (nat \<Rightarrow> nat list) \<Rightarrow> nat \<Rightarrow> fat12 \<Rightarrow> (nat \<Rightarrow> bytes) \<Rightarrow> bool" where
  "others_kept st sec C j0 st' sec' \<longleftrightarrow> same_vol st st' \<and> pack_ok st' \<and> (\<forall>j<nent st. j \<noteq> j0 \<longrightarrow> ent st sec' j = ent st sec j)
     \<and> (\<forall>j\<in>lives st sec - {j0}. \<forall>c\<in>set (C j). fatv st' c = fatv st c \<and> clus st sec' c = clus st sec c)"

lemma others_kept_file:
  assumes "others_kept st sec C j0 st' sec'" "j \<in> lives st sec" "j \<noteq> j0" "file_ok st sec j (C j)"
  shows "file_ok st' sec' j (C j)" "size_of st' sec' j = size_of st sec j"
    "concat (map (clus st' sec') (C j)) = concat (map (clus st sec) (C j))"
proof -
  have sv: "same_vol st st'" and e: "ent st sec' j = ent st sec j" and kept: "\<forall>c\<in>set (C j). fatv st' c = fatv st c \<and> clus st sec' c = clus st sec c"
    using assms(1-3) by (auto simp: others_kept_def lives_def)
  show sz: "size_of st' sec' j = size_of st sec j" using e same_vol_ent [OF sv] by (simp add: size_of_def)
  have "start_of st' sec' j = start_of st sec j" using e same_vol_ent [OF sv] by (simp add: start_of_def)
  then show "file_ok st' sec' j (C j)"
    using assms(4) sz chain_cong [of st' st "C j"] kept same_vol_ncl [OF sv] same_volD(3) [OF sv] by (simp add: file_ok_def)
  show "concat (map (clus st' sec') (C j)) = concat (map (clus st sec) (C j))"
    using kept same_vol_area [OF sv] by (intro arg_cong [where f = concat] map_cong) auto
qed

lemma vol_remove:
  assumes "vol_ok nsec drive st sec C" "others_kept st sec C j0 st' sec'" "j0 \<in> lives st sec"
    "ent st sec' j0 ! 0 = DIRENT_FREE"
  shows "vol_ok nsec drive st' sec' C" "vol_map st' sec' C = (vol_map st sec C)(take 11 (ent st sec j0) := None)"
    "lives st' sec' = lives st sec - {j0}"
proof -
  note V = assms(1) [unfolded vol_ok_def] and K = assms(2) [unfolded others_kept_def]
  have sv: "same_vol st st'" and E: "\<And>j. j < nent st \<Longrightarrow> j \<noteq> j0 \<Longrightarrow> ent st' sec' j = ent st sec j" and n: "nent st' = nent st"
    using K same_vol_ent by auto
  have E0: "ent st' sec' j0 ! 0 = DIRENT_FREE" using assms(4) same_vol_ent [OF sv] by simp
  show L: "lives st' sec' = lives st sec - {j0}"
  proof (intro set_eqI)
    fix x show "x \<in> lives st' sec' \<longleftrightarrow> x \<in> lives st sec - {j0}"
      using E [of x] E0 n by (cases "x = j0") (auto simp: lives_def live_def)
  qed
  have ne: "DIRENT_FREE \<noteq> DIRENT_END" by (simp add: DIRENT_FREE_def DIRENT_END_def)
  have cl: "dir_clean st' sec'"
    unfolding dir_clean_def n
  proof (intro allI impI)
    fix i j assume ij: "i \<le> j" "j < nent st" "ent st' sec' i ! 0 = DIRENT_END"
    then have i0: "i \<noteq> j0" using E0 ne by auto
    then have "ent st sec i ! 0 = DIRENT_END" using E [of i] ij by simp
    then have "ent st sec j ! 0 = DIRENT_END" using V ij by (auto simp: dir_clean_def)
    moreover from this have "j \<noteq> j0" using assms(3) by (auto simp: lives_def live_def)
    ultimately show "ent st' sec' j ! 0 = DIRENT_END" using E ij(2) by simp
  qed
  have nm: "take 11 (ent st' sec' j) = take 11 (ent st sec j)" if "j \<in> lives st sec - {j0}" for j
    using E that by (auto simp: lives_def)
  have inj: "inj_on (\<lambda>j. take 11 (ent st' sec' j)) (lives st' sec')"
    unfolding L using V nm by (auto simp: inj_on_def)
  show "vol_ok nsec drive st' sec' C"
    unfolding vol_ok_def L using geom_same [of nsec drive st st'] V K cl inj [unfolded L] others_kept_file(1) [OF assms(2)] by auto
  show "vol_map st' sec' C = (vol_map st sec C)(take 11 (ent st sec j0) := None)"
  proof
    fix m
    show "vol_map st' sec' C m = ((vol_map st sec C)(take 11 (ent st sec j0) := None)) m"
    proof (cases "entry_of st' sec' m")
      case None
      then have "entry_of st sec m = None \<or> m = take 11 (ent st sec j0)"
        unfolding entry_of_None L using nm by (metis Diff_iff singletonD)
      with None show ?thesis by (auto simp: vol_map_def)
    next
      case (Some j)
      then have j: "j \<in> lives st sec" "j \<noteq> j0" "take 11 (ent st sec j) = m" using entry_ofD [OF Some] nm unfolding L by auto
      then have e: "entry_of st sec m = Some j" using V entry_of_eqI by blast
      have "m \<noteq> take 11 (ent st sec j0)" using j V assms(3) by (auto dest: inj_onD)
      moreover have "file_ok st sec j (C j)" using V j(1) by blast
      then have "file_bytes st' sec' C j = file_bytes st sec C j"
        using others_kept_file(2,3) [OF assms(2) j(1,2)] by (simp add: file_bytes_def)
      ultimately show ?thesis using Some e by (simp add: vol_map_def)
    qed
  qed
qed

lemma vol_add:
  assumes "vol_ok nsec drive st sec C" "others_kept st sec C j0 st' sec'" "j0 < nent st" "\<forall>i<j0. live (ent st sec i)" "\<not> live (ent st sec j0)"
    "live (ent st sec' j0)" "entry_of st sec (take 11 (ent st sec' j0)) = None" "file_ok st' sec' j0 cs"
    "\<forall>j\<in>lives st sec. set cs \<inter> set (C j) = {}"
  shows "vol_ok nsec drive st' sec' (C(j0 := cs))"
    "vol_map st' sec' (C(j0 := cs)) = (vol_map st sec C)(take 11 (ent st sec' j0) \<mapsto> file_bytes st' sec' (C(j0 := cs)) j0)"
proof -
  define C' where "C' = C(j0 := cs)"
  note V = assms(1) [unfolded vol_ok_def] and K = assms(2) [unfolded others_kept_def]
  have sv: "same_vol st st'" and E: "\<And>j. j < nent st \<Longrightarrow> j \<noteq> j0 \<Longrightarrow> ent st' sec' j = ent st sec j" and n: "nent st' = nent st"
    using K same_vol_ent by auto
  have E0: "ent st' sec' j0 = ent st sec' j0" using same_vol_ent [OF sv] by simp
  have out: "j0 \<notin> lives st sec" using assms(5) by (simp add: lives_def)
  have L: "lives st' sec' = insert j0 (lives st sec)"
  proof (intro set_eqI)
    fix x show "x \<in> lives st' sec' \<longleftrightarrow> x \<in> insert j0 (lives st sec)"
      using E [of x] E0 n assms(3,6) by (cases "x = j0") (auto simp: lives_def live_def)
  qed
  have nm: "take 11 (ent st' sec' j) = take 11 (ent st sec j)" if "j \<in> lives st sec" for j
    using E [of j] that assms(5) by (cases "j = j0") (auto simp: lives_def)
  have fresh: "take 11 (ent st sec j) \<noteq> take 11 (ent st sec' j0)" if "j \<in> lives st sec" for j
    using assms(7) that unfolding entry_of_None by blast
  have cl: "dir_clean st' sec'"
    unfolding dir_clean_def n
  proof (intro allI impI)
    fix i j assume ij: "i \<le> j" "j < nent st" "ent st' sec' i ! 0 = DIRENT_END"
    then have i0: "i \<noteq> j0" using E0 assms(6) by (auto simp: live_def)
    then have e: "ent st sec i ! 0 = DIRENT_END" using E [of i] ij by simp
    then have "\<not> i < j0" using assms(4) by (auto simp: live_def)
    with i0 ij(1) have "j \<noteq> j0" by simp
    moreover have "ent st sec j ! 0 = DIRENT_END" using V ij e by (auto simp: dir_clean_def)
    ultimately show "ent st' sec' j ! 0 = DIRENT_END" using E ij(2) by simp
  qed
  have inj: "inj_on (\<lambda>j. take 11 (ent st' sec' j)) (lives st' sec')"
  proof -
    have "inj_on (\<lambda>j. take 11 (ent st' sec' j)) (lives st sec)" using V nm by (auto simp: inj_on_def)
    moreover have "take 11 (ent st' sec' j0) \<noteq> take 11 (ent st' sec' j)" if "j \<in> lives st sec" for j
      using nm [OF that] fresh [OF that] E0 by simp
    ultimately show ?thesis unfolding L inj_on_insert by blast
  qed
  have fo: "file_ok st' sec' j (C' j)" if "j \<in> lives st' sec'" for j
    using that others_kept_file(1) [OF assms(2), of j] V assms(8) out unfolding L C'_def by auto
  have dis: "set (C' i) \<inter> set (C' j) = {}" if "i \<in> lives st' sec'" "j \<in> lives st' sec'" "i \<noteq> j" for i j
  proof -
    have "set (C i) \<inter> set (C j) = {}" if "i \<in> lives st sec" "j \<in> lives st sec" using V that \<open>i \<noteq> j\<close> by blast
    with that assms(9) show ?thesis unfolding L C'_def by (cases "i = j0"; cases "j = j0") auto
  qed
  show vo: "vol_ok nsec drive st' sec' (C(j0 := cs))"
  proof -
    have "geom nsec drive st'" using geom_same [of nsec drive st st'] V K by blast
    then show ?thesis unfolding vol_ok_def C'_def [symmetric] using cl inj fo dis by (intro conjI ballI impI)
  qed
  show "vol_map st' sec' (C(j0 := cs)) = (vol_map st sec C)(take 11 (ent st sec' j0) \<mapsto> file_bytes st' sec' (C(j0 := cs)) j0)"
    unfolding C'_def [symmetric]
  proof
    fix m
    show "vol_map st' sec' C' m = ((vol_map st sec C)(take 11 (ent st sec' j0) \<mapsto> file_bytes st' sec' C' j0)) m"
    proof (cases "entry_of st' sec' m")
      case None
      then have "m \<noteq> take 11 (ent st sec' j0)" "entry_of st sec m = None"
        unfolding entry_of_None L using nm E0 by auto
      with None show ?thesis by (auto simp: vol_map_def)
    next
      case (Some j)
      show ?thesis
      proof (cases "j = j0")
        case True
        then show ?thesis using Some entry_ofD [OF Some] E0 by (simp add: vol_map_def)
      next
        case False
        then have j: "j \<in> lives st sec" "take 11 (ent st sec j) = m" using entry_ofD [OF Some] nm unfolding L by auto
        then have e: "entry_of st sec m = Some j" using V entry_of_eqI by blast
        have "m \<noteq> take 11 (ent st sec' j0)" using j fresh by auto
        moreover have "file_ok st sec j (C j)" using V j(1) by blast
        then have "file_bytes st' sec' C' j = file_bytes st sec C j"
          using others_kept_file(2,3) [OF assms(2) j(1) False] False by (simp add: file_bytes_def C'_def)
        ultimately show ?thesis using Some e by (simp add: vol_map_def)
      qed
    qed
  qed
qed

text \<open>The regions of the disk do not meet.\<close>

lemma clus_frame:
  assumes "\<And>k. k \<in> area st c \<Longrightarrow> sec' k = sec k"
  shows "clus st sec' c = clus st sec c"
  unfolding clus_def by (intro secs_cong assms) (simp add: area_def)

lemma area_data: "geom nsec drive st \<Longrightarrow> k \<in> area st c \<Longrightarrow> unat (g_root_start st) + unat (g_root_sectors st) \<le> k"
  by (simp add: geom_def area_def base_def)

lemma ent_frame:
  assumes "\<And>k. unat (g_root_start st) \<le> k \<Longrightarrow> k < unat (g_root_start st) + unat (g_root_sectors st) \<Longrightarrow> sec' k = sec k" "j < nent st"
  shows "ent st sec' j = ent st sec j"
proof -
  have "j div 16 < unat (g_root_sectors st)" using assms(2) by (simp add: nent_def less_mult_imp_div_less mult.commute)
  then show ?thesis unfolding ent_def using assms(1) by simp
qed

lemma ent_upd:
  assumes "\<forall>i<16. dir_at T i = (if i = j mod 16 then e else dir_at (sec (unat (g_root_start st) + j div 16)) i)"
  shows "ent st (sec(unat (g_root_start st) + j div 16 := T)) k = (if k = j then e else ent st sec k)"
proof (cases "k div 16 = j div 16")
  case True
  then have "k = j \<longleftrightarrow> k mod 16 = j mod 16" by (metis div_mult_mod_eq)
  then show ?thesis using True assms by (auto simp: ent_def)
next
  case False
  then show ?thesis by (auto simp: ent_def)
qed

end
