(* ===== verification/Fat12Vol.thy ===== *)
theory Fat12Vol
  imports Fat12Dir
begin

text \<open>
  The operations of a FAT12 volume on any disk of sectors, and the refinement theorem on the disk driver of
  \<^verbatim>\<open>ata.c\<close>.
\<close>

text \<open>The boot sector is the one that was mounted; and nothing is left to write back.\<close>

definition boot_synced :: "fat12 \<Rightarrow> (nat \<Rightarrow> bytes) \<Rightarrow> bool" where
  "boot_synced st sec \<longleftrightarrow> 0 < g_fat_start st \<and> bpb_of (take 62 (sec 0)) = g_bpb st"

lemma boot_synced_frame: "boot_synced st sec \<Longrightarrow> same_vol st st' \<Longrightarrow> sec' 0 = sec 0 \<Longrightarrow> boot_synced st' sec'"
  by (simp add: boot_synced_def same_volD)

definition tidy :: "fat12 \<Rightarrow> (nat \<Rightarrow> bytes) \<Rightarrow> bool" where
  "tidy st sec \<longleftrightarrow> 0 < fat_count (g_bpb st) \<and> \<not> g_fat_dirty st \<and> fat_synced st sec \<and> boot_synced st sec"

lemma fat_set_dirty: "fat_set n v st = Some st' \<Longrightarrow> g_fat_dirty st'"
  by (auto simp: fat_set_def split: bind_splits)

lemma free_chain_dirty: "free_chain fuel c st = Some st' \<Longrightarrow> st' = st \<or> g_fat_dirty st'"
proof (induction fuel arbitrary: c st)
  case 0
  then show ?case by (auto simp: free_chain.simps split: if_splits)
next
  case (Suc m)
  show ?case
  proof (cases "c < 2 \<or> c > 0xFEF")
    case True
    then show ?thesis using Suc.prems by (simp add: free_chain.simps)
  next
    case False
    with Suc.prems obtain nxt st1 where "fat_set c 0 st = Some st1" "free_chain m nxt st1 = Some st'"
      by (subst (asm) free_chain.simps) (auto split: bind_splits)
    then show ?thesis using Suc.IH fat_set_dirty by blast
  qed
qed

lemma fat_synced_frame:
  assumes "geom nsec drive st" "same_vol st st'" "0 < fat_count (g_bpb st)" "\<And>k. k < unat (g_root_start st) \<Longrightarrow> sec' k = sec k" "fat_synced st' sec"
  shows "fat_synced st' sec'"
proof -
  have "1 * unat (sectors_per_fat (g_bpb st)) \<le> unat (fat_count (g_bpb st)) * unat (sectors_per_fat (g_bpb st))"
    using assms(3) by (intro mult_le_mono1) (simp add: word_less_nat_alt)
  then have "unat (g_fat_start st) + s < unat (g_root_start st)" if "s < unat (sectors_per_fat (g_bpb st))" for s
    using that assms(1) unfolding geom_def by linarith
  then show ?thesis using assms(4,5) same_volD [OF assms(2)] by (simp add: fat_synced_def)
qed

context block_device
begin

lemma chain_short:
  assumes "geom nsec drive st" "chain st c cs" "distinct cs"
  shows "length cs \<le> 3070"
proof -
  have "set cs \<subseteq> {2..<ncl st + 2}" using chain_data [OF assms(2)] by (auto simp: data_cluster_def)
  then have "card (set cs) \<le> card {2..<ncl st + 2}" by (intro card_mono) auto
  then show ?thesis using assms(1,3) by (simp add: distinct_card geom_def)
qed

lemma read_missing:
  assumes "vol_ok nsec drive st (sec d) C" "ok d" "name_to_83 name = Some want" "entry_of st (sec d) want = None"
  shows "\<exists>d'. fat12_read dv st name buf bufsz d = Some (-1, buf, d') \<and> ok d' \<and> sec d' = sec d"
proof -
  from assms(1) have g: "geom nsec drive st" "dir_clean st (sec d)" by (auto simp: vol_ok_def)
  from find_ok [OF g(1) assms(3,2) g(2)] assms(4) obtain d' where "fat12_find dv st name d = Some (None, d')" "ok d'" "sec d' = sec d" by auto
  then show ?thesis using g(1) by (simp add: fat12_read_def geom_def)
qed

lemma read_ok:
  assumes "vol_ok nsec drive st (sec d) C" "ok d" "name_to_83 name = Some want" "vol_map st (sec d) C want = Some data"
    and n: "n = min (length data) (unat bufsz)" "n \<le> length buf"
  shows "\<exists>d'. fat12_read dv st name buf bufsz d = Some (int n, take n data @ drop n buf, d') \<and> ok d' \<and> sec d' = sec d"
proof -
  from assms(1) have g: "geom nsec drive st" "dir_clean st (sec d)" by (auto simp: vol_ok_def)
  from assms(4) obtain j where j: "entry_of st (sec d) want = Some j" "data = file_bytes st (sec d) C j" by (auto simp: vol_map_def)
  have fo: "file_ok st (sec d) j (C j)" using entry_ofD [OF j(1)] assms(1) by (auto simp: vol_ok_def)
  then have c: "chain st (start_of st (sec d) j) (C j)" "distinct (C j)" "size_of st (sec d) j \<le> length (C j) * (512 * spc st)"
    by (auto simp: file_ok_def)
  have ld: "length data = size_of st (sec d) j" using c(3) length_cluss [OF assms(2)] by (simp add: j(2) file_bytes_def)
  from find_ok [OF g(1) assms(3,2) g(2)] j(1) obtain d1 where d1: "fat12_find dv st name d
      = Some (Some (g_root_start st + of_nat (j div 16), j mod 16, dirent_of (ent st (sec d) j)), d1)" "ok d1" "sec d1 = sec d" by auto
  have rem: "unat (if de_file_size (dirent_of (ent st (sec d) j)) > bufsz then bufsz else de_file_size (dirent_of (ent st (sec d) j))) = n"
    unfolding n(1) ld size_of_def by (auto simp: word_less_nat_alt)
  have tn: "take n (concat (map (clus st (sec d1)) (C j))) = take n data"
    using n(1) ld d1(3) by (simp add: j(2) file_bytes_def min_def)
  have bl: "blit buf 0 (take n (concat (map (clus st (sec d1)) (C j)))) = Some (take n data @ drop n buf)"
    unfolding tn using n by (simp add: blit_def min_def)
  have nl: "n \<le> length (C j) * (512 * spc st)" using n(1) ld c(3) by linarith
  from read_chain_ok [OF d1(2) g(1) c(1) nl order_refl bl] obtain d2 where
    d2: "read_chain n dv st (start_of st (sec d) j) buf 0 n d1 = Some (n, take n data @ drop n buf, d2)" "ok d2" "sec d2 = sec d1" by auto
  have "length (C j) * (512 * spc st) \<le> 3070 * (512 * 255)"
    using chain_short [OF g(1) c(1,2)] unat_u8_lt [of "sectors_per_cluster (g_bpb st)"] by (intro mult_le_mono) auto
  then have "c_int n = int n" using n(1) ld c(3) by (intro c_int_small) simp
  then show ?thesis using d1 d2 rem g(1) by (simp add: fat12_read_def geom_def start_of_def Let_def)
qed

lemma delete_missing:
  assumes "vol_ok nsec drive st (sec d) C" "ok d" "name_to_83 name = Some want" "entry_of st (sec d) want = None"
  shows "\<exists>d'. fat12_delete dv st name d = Some (-1, st, d') \<and> ok d' \<and> sec d' = sec d"
proof -
  from assms(1) have g: "geom nsec drive st" "dir_clean st (sec d)" by (auto simp: vol_ok_def)
  from find_ok [OF g(1) assms(3,2) g(2)] assms(4) obtain d' where "fat12_find dv st name d = Some (None, d')" "ok d'" "sec d' = sec d" by auto
  then show ?thesis using g(1) by (simp add: fat12_delete_def geom_def)
qed

text \<open>The steps of a deletion: the chain, the table on the disk, the entry.\<close>

lemma delete_run:
  assumes "vol_ok nsec drive st (sec d) C" "ok d" "name_to_83 name = Some want" "entry_of st (sec d) want = Some j"
  shows "\<exists>st' d'. fat12_delete dv st name d = Some (0, st', d') \<and> ok d' \<and> same_vol st st' \<and> pack_ok st'
     \<and> (\<forall>m<3072. fatv st' m = (if m \<in> set (C j) then 0 else fatv st m))
     \<and> (\<forall>k. k \<noteq> j \<longrightarrow> ent st (sec d') k = ent st (sec d) k) \<and> ent st (sec d') j ! 0 = DIRENT_FREE
     \<and> (\<forall>k \<ge> unat (g_root_start st) + unat (g_root_sectors st). sec d' k = sec d k)
     \<and> (tidy st (sec d) \<longrightarrow> tidy st' (sec d'))"
proof -
  from assms(1) have g: "geom nsec drive st" "dir_clean st (sec d)" "ncl st + 2 \<le> 3072" "pack_ok st" by (auto simp: vol_ok_def geom_def)
  have jl: "j \<in> lives st (sec d)" using entry_ofD [OF assms(4)] by blast
  then have fo: "chain st (start_of st (sec d) j) (C j)" "distinct (C j)" using assms(1) by (auto simp: vol_ok_def file_ok_def)
  have j: "j div 16 < unat (g_root_sectors st)" using jl by (simp add: lives_def nent_def less_mult_imp_div_less mult.commute)
  from find_ok [OF g(1) assms(3,2) g(2)] assms(4) obtain d1 where d1: "fat12_find dv st name d
      = Some (Some (g_root_start st + of_nat (j div 16), j mod 16, dirent_of (ent st (sec d) j)), d1)" "ok d1" "sec d1 = sec d" by auto
  from free_chain_ok [OF fo g(4,3), of 4096] chain_short [OF g(1) fo] obtain st1 where
    st1: "free_chain 4096 (start_of st (sec d) j) st = Some st1" "same_vol st st1" "pack_ok st1"
      "\<forall>m<3072. fatv st1 m = (if m \<in> set (C j) then 0 else fatv st m)" by auto
  have g1: "geom nsec drive st1" using geom_same [OF g(1) st1(2,3)] .
  from fat_flush_ok [OF d1(2) g1] obtain st2 d2 where st2: "fat_flush dv st1 d1 = Some (0, st2, d2)" "same_vol st1 st2" "g_fat st2 = g_fat st1"
    "ok d2" "\<forall>k\<ge>unat (g_root_start st1). sec d2 k = sec d1 k"
    "g_fat_dirty st1 \<or> fat_synced st1 (sec d1) \<longrightarrow> 0 < fat_count (g_bpb st1) \<longrightarrow> \<not> g_fat_dirty st2 \<and> fat_synced st2 (sec d2)"
    "\<forall>k<unat (g_fat_start st1). sec d2 k = sec d1 k" by blast
  have sv: "same_vol st st2" using same_vol_trans [OF st1(2) st2(2)] .
  note S1 = same_volD [OF st1(2)] and S2 = same_volD [OF sv]
  have pk: "pack_ok st2" and fv: "fatv st2 = fatv st1" using st1(3) st2(3) by (simp_all add: pack_ok_def fatv_def fun_eq_iff)
  have g2: "geom nsec drive st2" using geom_same [OF g(1) sv pk] .
  define lba where "lba = g_root_start st + of_nat (j div 16)"
  define T where "T = sec d (unat (g_root_start st) + j div 16)"
  have u: "unat lba = unat (g_root_start st) + j div 16" "unat lba < nsec"
    using root_read(1,3) [OF assms(2) g(1) j] by (simp_all add: lba_def)
  have T2: "sec d2 (unat lba) = T" using st2(5) d1(3) S1 u by (simp add: T_def)
  from rd [OF st2(4) u(2)] T2 obtain d3 where d3: "dv_rd dv drive lba d2 = Some (Some T, d3)" "ok d3" "sec d3 = sec d2" by auto
  have lT: "length T = 512" using len [OF assms(2)] by (simp add: T_def)
  from wr [OF d3(2) u(2), of "T[32 * (j mod 16) := DIRENT_FREE]"] lT obtain d4 where
    d4: "dv_wr dv drive lba (T[32 * (j mod 16) := DIRENT_FREE]) d3 = Some (True, d4)" "ok d4"
      "sec d4 = (sec d3)(unat lba := T[32 * (j mod 16) := DIRENT_FREE])" by auto
  have run: "fat12_delete dv st name d = Some (0, st2, d4)"
    using d1(1) st1(1) st2(1) d3(1) d4(1) g(1) S2 by (simp add: fat12_delete_def start_of_def lba_def geom_def)
  have E4: "ent st (sec d4) k = (if k = j then (dir_at T (j mod 16))[0 := DIRENT_FREE] else ent st (sec d2) k)" for k
    unfolding d4(3) d3(3) u(1) using lT T2 u(1) by (intro ent_upd) (simp add: dir_at_first)
  have E2: "ent st (sec d2) k = ent st (sec d) k" for k
    using st2(5) d1(3) S1 by (simp add: ent_def)
  have "length (dir_at T (j mod 16)) = 32" using lT by (simp add: dir_at_length)
  then have "ent st (sec d4) j ! 0 = DIRENT_FREE" using E4 [of j] by simp
  moreover have "sec d4 k = sec d k" if "unat (g_root_start st) + unat (g_root_sectors st) \<le> k" for k
  proof -
    have "k \<noteq> unat lba" "unat (g_root_start st1) \<le> k" using that j u(1) S1 by auto
    then show ?thesis using d4(3) d3(3) st2(5) d1(3) by simp
  qed
  moreover have "tidy st2 (sec d4)" if t: "tidy st (sec d)"
  proof -
    have "g_fat_dirty st1 \<or> fat_synced st1 (sec d1)" using free_chain_dirty [OF st1(1)] t d1(3) by (auto simp: tidy_def)
    then have f: "\<not> g_fat_dirty st2" "fat_synced st2 (sec d2)" using st2(6) t S1 by (auto simp: tidy_def)
    have "fat_synced st2 (sec d4)"
      by (rule fat_synced_frame [OF g(1) sv _ _ f(2)]) (use t d4(3) d3(3) u(1) in \<open>auto simp: tidy_def\<close>)
    moreover have "0 < unat (g_fat_start st)" "unat (g_fat_start st) \<le> unat (g_root_start st)"
      using t g(1) by (auto simp: tidy_def boot_synced_def word_less_nat_alt geom_def)
    then have "sec d4 0 = sec d 0" using d4(3) d3(3) u(1) st2(7) d1(3) S1 by auto
    ultimately show ?thesis using f(1) t S2 boot_synced_frame [OF _ sv, of "sec d" "sec d4"] by (simp add: tidy_def)
  qed
  ultimately show ?thesis using run d4(2) sv pk fv st1(4) E4 E2 by auto
qed

end

context block_device
begin

lemma free_cl_eq: "same_vol st st' \<Longrightarrow> free_cl st' = {c. data_cluster st c \<and> fatv st' c = 0}"
  by (simp add: free_cl_def same_vol_ncl)

lemma delete_ok:
  assumes "vol_ok nsec drive st (sec d) C" "ok d" "name_to_83 name = Some want" "entry_of st (sec d) want = Some j"
  shows "\<exists>st' d'. fat12_delete dv st name d = Some (0, st', d') \<and> ok d' \<and> same_vol st st' \<and> vol_ok nsec drive st' (sec d') C
     \<and> vol_map st' (sec d') C = (vol_map st (sec d) C)(want := None) \<and> lives st' (sec d') = lives st (sec d) - {j}
     \<and> free_cl st \<subseteq> free_cl st' \<and> (tidy st (sec d) \<longrightarrow> tidy st' (sec d'))"
proof -
  from delete_run [OF assms] obtain st' d' where r: "fat12_delete dv st name d = Some (0, st', d')" "ok d'" "same_vol st st'" "pack_ok st'"
    "\<forall>m<3072. fatv st' m = (if m \<in> set (C j) then 0 else fatv st m)" "\<forall>k. k \<noteq> j \<longrightarrow> ent st (sec d') k = ent st (sec d) k"
    "ent st (sec d') j ! 0 = DIRENT_FREE" "\<forall>k \<ge> unat (g_root_start st) + unat (g_root_sectors st). sec d' k = sec d k"
    "tidy st (sec d) \<longrightarrow> tidy st' (sec d')" by blast
  note V = assms(1) [unfolded vol_ok_def]
  have g: "geom nsec drive st" "ncl st + 2 \<le> 3072" using V by (auto simp: geom_def)
  have j: "j \<in> lives st (sec d)" "take 11 (ent st (sec d) j) = want" using entry_ofD [OF assms(4)] by auto
  have "fatv st' c = fatv st c \<and> clus st (sec d') c = clus st (sec d) c" if i: "i \<in> lives st (sec d) - {j}" "c \<in> set (C i)" for i c
  proof -
    have "chain st (start_of st (sec d) i) (C i)" "set (C i) \<inter> set (C j) = {}" using V i j(1) by (auto simp: file_ok_def)
    then have "data_cluster st c" "c \<notin> set (C j)" using chain_data i(2) by blast+
    then show ?thesis using r(5) data_cluster_lt [OF _ g(2)] clus_frame [of st c "sec d'" "sec d"] area_data [OF g(1)] r(8) by auto
  qed
  then have K: "others_kept st (sec d) C j st' (sec d')" using r(3,4,6) by (auto simp: others_kept_def)
  have "fatv st' c = 0" if "c \<in> free_cl st" for c
    using that r(5) data_cluster_lt [OF _ g(2)] by (auto simp: free_cl_def)
  then have "free_cl st \<subseteq> free_cl st'" unfolding free_cl_eq [OF r(3)] by (auto simp: free_cl_def)
  with r(1-3,9) vol_remove [OF assms(1) K j(1) r(7)] j(2) show ?thesis by auto
qed

text \<open>Whether or not the file was there, after the deletion it is not.\<close>

lemma delete_any:
  assumes "vol_ok nsec drive st (sec d) C" "ok d" "name_to_83 name = Some want"
  shows "\<exists>r st' d'. fat12_delete dv st name d = Some (r, st', d') \<and> ok d' \<and> same_vol st st' \<and> vol_ok nsec drive st' (sec d') C
     \<and> vol_map st' (sec d') C = (vol_map st (sec d) C)(want := None) \<and> lives st' (sec d') \<subseteq> lives st (sec d) \<and> free_cl st \<subseteq> free_cl st'
     \<and> (tidy st (sec d) \<longrightarrow> tidy st' (sec d')) \<and> (entry_of st (sec d) want \<noteq> None \<longrightarrow> (\<exists>j<nent st. j \<notin> lives st' (sec d')))"
proof (cases "entry_of st (sec d) want")
  case None
  from delete_missing [OF assms None] obtain d' where "fat12_delete dv st name d = Some (-1, st, d')" "ok d'" "sec d' = sec d" by blast
  moreover have "(vol_map st (sec d) C)(want := None) = vol_map st (sec d) C" using None by (auto simp: vol_map_def fun_eq_iff)
  ultimately show ?thesis using assms(1) None by auto
next
  case (Some j)
  from delete_ok [OF assms Some] obtain st' d' where "fat12_delete dv st name d = Some (0, st', d')" "ok d'" "same_vol st st'"
    "vol_ok nsec drive st' (sec d') C" "vol_map st' (sec d') C = (vol_map st (sec d) C)(want := None)"
    "lives st' (sec d') = lives st (sec d) - {j}" "free_cl st \<subseteq> free_cl st'" "tidy st (sec d) \<longrightarrow> tidy st' (sec d')" by blast
  moreover have "j < nent st" using entry_ofD [OF Some] by (simp add: lives_def)
  ultimately show ?thesis by (intro exI [of _ 0] exI [of _ st'] exI [of _ d']) auto
qed

lemma add_entry_ok:
  assumes "geom nsec drive st" "length raw = 32" "ok d" "dir_clean st (sec d)" "s \<le> unat (g_root_sectors st)"
    "first_idx (\<lambda>j. \<not> live (ent st (sec d) j)) (16 * s) (nent st) = Some j"
  shows "\<exists>d'. add_entry dv st raw [s..<unat (g_root_sectors st)] d = Some (0, d') \<and> ok d'
     \<and> (\<forall>k<nent st. ent st (sec d') k = (if k = j then raw else ent st (sec d) k))
     \<and> (\<forall>k. k < unat (g_root_start st) \<or> unat (g_root_start st) + unat (g_root_sectors st) \<le> k \<longrightarrow> sec d' k = sec d k)"
  using assms(3-6)
proof (induction "unat (g_root_sectors st) - s" arbitrary: s d)
  case 0
  then have "nent st \<le> 16 * s" by (simp add: nent_def)
  with first_idx_SomeD(1,2) [OF "0.prems"(4)] show ?case by simp
next
  case (Suc k)
  define T where "T = sec d (unat (g_root_start st) + s)"
  from Suc have s: "s < unat (g_root_sectors st)" "k = unat (g_root_sectors st) - Suc s" by auto
  have up: "[s..<unat (g_root_sectors st)] = s # [Suc s..<unat (g_root_sectors st)]" using s(1) by (rule upt_conv_Cons)
  from root_read [OF Suc.prems(1) assms(1) s(1)] obtain d1 where
    u: "unat (g_root_start st + of_nat s) = unat (g_root_start st) + s" "unat (g_root_start st) + s < nsec"
    and d1: "dv_rd dv drive (g_root_start st + of_nat s) d = Some (Some T, d1)" "ok d1" "sec d1 = sec d" by (auto simp: T_def)
  have lT: "length T = 512" using len Suc.prems(1) by (simp add: T_def)
  have e: "ent st (sec d) (16 * s + i) = dir_at T i" if "i < 16" for i using ent_at [OF that] by (simp add: T_def)
  have dr: "g_drive st = drive" using assms(1) by (simp add: geom_def)
  note J = first_idx_SomeD [OF Suc.prems(4)]
  let ?P = "\<lambda>i. dir_at T i ! 0 = DIRENT_FREE \<or> dir_at T i ! 0 = DIRENT_END"
  have P: "?P i \<longleftrightarrow> \<not> live (ent st (sec d) (16 * s + i))" if "i < 16" for i using e [OF that] by (auto simp: live_def)
  show ?case
  proof (cases "j < 16 * Suc s")
    case False
    then have "first_idx ?P 0 16 = None" using J(4) P by (auto simp: first_idx_None_iff)
    then have step: "add_entry dv st raw [s..<unat (g_root_sectors st)] d = add_entry dv st raw [Suc s..<unat (g_root_sectors st)] d1"
      using d1(1) unfolding up by (simp add: dr)
    have "first_idx (\<lambda>j. \<not> live (ent st (sec d) j)) (16 * Suc s) (nent st) = Some j"
      using Suc.prems(4) first_idx_skip [of "16 * s" "16 * Suc s" "\<lambda>j. \<not> live (ent st (sec d) j)" "nent st"] J False s(1)
      by (simp add: nent_def)
    from Suc.hyps(1) [OF s(2) d1(2), unfolded d1(3), OF Suc.prems(2) Suc_leI [OF s(1)] this] show ?thesis unfolding step .
  next
    case True
    define i where "i = j - 16 * s"
    have ij: "i < 16" "j = 16 * s + i" using True J(1) by (auto simp: i_def)
    then have i: "i < 16" "j = 16 * s + i" "j div 16 = s" "j mod 16 = i" by simp_all
    have fi: "first_idx ?P 0 16 = Some i"
      using i J P by (intro first_idx_eqI) auto
    from dir_at_blit [OF lT i(1) assms(2)] obtain T1 where T1: "blit T (32 * i) raw = Some T1" "length T1 = 512"
      "\<forall>k<16. dir_at T1 k = (if k = i then raw else dir_at T k)" by blast
    define T2 where "T2 = (if dir_at T i ! 0 = DIRENT_END \<and> i + 1 < 16 then T1[32 * (i + 1) := DIRENT_END] else T1)"
    have lT2: "length T2 = 512" using T1(2) by (simp add: T2_def)
    have T2: "dir_at T2 k = (if k = i then raw else dir_at T k)" if "k < 16" for k
    proof (cases "dir_at T i ! 0 = DIRENT_END \<and> i + 1 < 16")
      case True
      have "16 * s + (i + 1) < nent st" using True s(1) by (simp add: nent_def)
      then have z: "dir_at T (i + 1) ! 0 = DIRENT_END"
        using Suc.prems(2) True e [of i] e [of "i + 1"] unfolding dir_clean_def by (metis Suc_eq_plus1 add_Suc_right i(1) le_add2 plus_1_eq_Suc)
      have "(dir_at T (i + 1))[0 := DIRENT_END] = dir_at T (i + 1)"
        using z by (metis list_update_id)
      with dir_at_first [OF T1(2), of "i + 1" k DIRENT_END] True that T1(3) show ?thesis by (auto simp: T2_def)
    next
      case False
      then show ?thesis using T1(3) that by (auto simp: T2_def)
    qed
    from wr [OF d1(2), of "g_root_start st + of_nat s" T2] u lT2 obtain d2 where
      d2: "dv_wr dv drive (g_root_start st + of_nat s) T2 d1 = Some (True, d2)" "ok d2"
        "sec d2 = (sec d)(unat (g_root_start st) + j div 16 := T2)" using d1(3) i(3) by auto
    have "ent st (sec d2) k = (if k = j then raw else ent st (sec d) k)" for k
      unfolding d2(3) using T2 i(3,4) by (intro ent_upd) (simp add: T_def)
    moreover have "add_entry dv st raw [s..<unat (g_root_sectors st)] d = Some (0, d2)"
      unfolding up using d1(1) fi T1(1) d2(1) by (simp add: dr Let_def T2_def)
    ultimately show ?thesis using d2(2,3) i(3) s(1) by auto
  qed
qed

end

context block_device
begin

text \<open>The data of a new file, before its directory entry is written.\<close>

definition stored :: "fat12 \<Rightarrow> 'd \<Rightarrow> bytes \<Rightarrow> nat list \<Rightarrow> u16 \<Rightarrow> fat12 \<Rightarrow> 'd \<Rightarrow> bool" where
  "stored st d data cs fc st' d' \<longleftrightarrow> same_vol st st' \<and> pack_ok st' \<and> ok d' \<and> set cs \<subseteq> free_cl st \<and> distinct cs \<and> chain st' fc cs
     \<and> length cs = need st (length data)
     \<and> length data \<le> length cs * (512 * spc st) \<and> (\<forall>m<3072. m \<notin> set cs \<longrightarrow> fatv st' m = fatv st m)
     \<and> take (length data) (concat (map (clus st (sec d')) cs)) = data
     \<and> (\<forall>k. (\<forall>c\<in>set cs. k \<notin> area st c) \<longrightarrow> sec d' k = sec d k)"

lemma store_data:
  assumes "geom nsec drive st" "ok d" "sz \<noteq> 0" "unat sz \<le> length buf" "need st (unat sz) \<le> card (free_cl st)"
  shows "\<exists>fc prev st2 st3 d' cs. write_chain (unat sz) dv 0 0 buf 0 (unat sz) st d = Some (Some (fc, prev), st2, d')
     \<and> fat_set prev 0xFFF st2 = Some st3 \<and> stored st d (take (unat sz) buf) cs fc st3 d'"
proof -
  note g = assms(1) [unfolded geom_def]
  have z: "0 < unat sz" using assms(3) by (simp add: unat_gt_0)
  obtain cs st2 d' where w: "write_chain (unat sz) dv 0 0 buf 0 (unat sz) st d
       = Some (Some (if (0::u16) = 0 \<and> cs \<noteq> [] then of_nat (hd cs) else 0, if cs = [] then 0 else of_nat (last cs)), st2, d')"
     "written st d 0 (take (unat sz) (drop 0 buf)) cs st2 d'"
    using write_chain_ok [OF assms(2,1), of 0 "unat sz" buf "unat sz" 0 0] assms(4,5) by auto
  note W = w(2) [unfolded written_def]
  have "length cs = need st (unat sz)" using W assms(4) by (simp add: min_absorb2)
  then have ne: "cs \<noteq> []" using need_step [OF z, of st] g by auto
  have "last cs \<in> free_cl st" using W ne last_in_set by blast
  then have l: "last cs < 3072" using g data_cluster_lt by (auto simp: free_cl_def)
  have pk2: "pack_ok st2" using W by blast
  obtain st3 where st3: "fat_set (of_nat (last cs)) 0xFFF st2 = Some st3" "same_vol st2 st3" "pack_ok st3"
    "\<forall>m<3072. fatv st3 m = (if m = last cs then 0xFFF AND 0xFFF else fatv st2 m)" using fat_set_ok [OF pk2 l, of "0xFFF"] by blast
  have F: "\<forall>m<3072. fatv st3 m = fatv st2 m" using st3(4) W ne by auto
  have lt: "\<forall>c\<in>set cs. c < 3072" using W g data_cluster_lt by (auto simp: free_cl_def)
  have "chain st3 (of_nat (hd cs)) cs"
    using chain_cong [of st3 st2 cs "of_nat (hd cs)"] F lt same_vol_ncl [OF st3(2)] W ne by auto
  then have "stored st d (take (unat sz) buf) cs (of_nat (hd cs)) st3 d'"
    unfolding stored_def using W F st3(3) same_vol_trans [OF _ st3(2), of st] by auto
  then show ?thesis using w(1) st3(1) ne by auto
qed

lemma finish_ok:
  assumes "vol_ok nsec drive st (sec d) C" "stored st d data cs fc st1 d1" "name_to_83 name = Some want" "want ! 0 \<noteq> DIRENT_FREE"
    "entry_of st (sec d) want = None" "unat sz = length data" "\<exists>j<nent st. \<not> live (ent st (sec d) j)"
  shows "\<exists>st' d' C'. write_finish dv name fc sz st1 d1 = Some (0, st', d') \<and> ok d' \<and> same_vol st st' \<and> vol_ok nsec drive st' (sec d') C'
     \<and> card (free_cl st) \<le> card (free_cl st') + length cs
     \<and> (0 < fat_count (g_bpb st) \<and> (g_fat_dirty st1 \<or> fat_synced st1 (sec d1)) \<and> boot_synced st (sec d) \<longrightarrow> tidy st' (sec d'))
     \<and> vol_map st' (sec d') C' = (vol_map st (sec d) C)(want \<mapsto> data)"
proof -
  note V = assms(1) [unfolded vol_ok_def] and S = assms(2) [unfolded stored_def]
  have g: "geom nsec drive st" "ncl st + 2 \<le> 3072" using V by (auto simp: geom_def)
  have sv: "same_vol st st1" "pack_ok st1" "ok d1" using S by auto
  have g1: "geom nsec drive st1" using geom_same [OF g(1) sv(1,2)] .
  from fat_flush_ok [OF sv(3) g1] obtain st2 d2 where f: "fat_flush dv st1 d1 = Some (0, st2, d2)" "same_vol st1 st2" "g_fat st2 = g_fat st1" "ok d2"
    "\<forall>k\<ge>unat (g_root_start st1). sec d2 k = sec d1 k"
    "g_fat_dirty st1 \<or> fat_synced st1 (sec d1) \<longrightarrow> 0 < fat_count (g_bpb st1) \<longrightarrow> \<not> g_fat_dirty st2 \<and> fat_synced st2 (sec d2)"
    "\<forall>k<unat (g_fat_start st1). sec d2 k = sec d1 k" by blast
  have sv2: "same_vol st st2" using same_vol_trans [OF sv(1) f(2)] .
  have pk: "pack_ok st2" and fv: "fatv st2 = fatv st1" using sv(2) f(3) by (simp_all add: pack_ok_def fatv_def fun_eq_iff)
  have g2: "geom nsec drive st2" using geom_same [OF g(1) sv2 pk] .
  note D = same_volD [OF sv2] same_volD [OF sv(1)] and A = same_vol_area [OF sv2] and N = same_vol_ent [OF sv2]
  define top where "top = unat (g_root_start st) + unat (g_root_sectors st)"
  have root: "sec d1 k = sec d k" if "k < top" for k
    using S area_data [OF g(1)] that unfolding top_def by (meson not_le)
  have E2: "ent st (sec d2) k = ent st (sec d) k" if "k < nent st" for k
    using that f(5) root D by (intro ent_frame) (auto simp: top_def)
  have cl: "dir_clean st2 (sec d2)" using V E2 N by (auto simp: dir_clean_def)
  define fr where "fr = (\<lambda>j. \<not> live (ent st2 (sec d2) j))"
  obtain j where j: "first_idx fr (16 * 0) (nent st2) = Some j"
    using assms(7) E2 N first_idx_ex [of 0 _ "nent st2" fr] by (auto simp: fr_def)
  have J: "j < nent st" "\<not> live (ent st (sec d) j)" "\<forall>i<j. live (ent st (sec d) i)"
    using first_idx_SomeD [OF j] E2 N by (auto simp: fr_def)
  define raw where "raw = dirent_bytes (new_dirent want fc sz)"
  have want: "length want = 11" "0 \<notin> set want" using name_to_83_ok [OF assms(3)] by auto
  note R = dirent_round [OF want(1), of fc sz, folded raw_def]
  obtain d3 where a: "add_entry dv st2 raw [0..<unat (g_root_sectors st2)] d2 = Some (0, d3)" "ok d3"
    "\<forall>k<nent st2. ent st2 (sec d3) k = (if k = j then raw else ent st2 (sec d2) k)"
    "\<forall>k. k < unat (g_root_start st2) \<or> unat (g_root_start st2) + unat (g_root_sectors st2) \<le> k \<longrightarrow> sec d3 k = sec d2 k"
    using add_entry_ok [OF g2 R(2) f(4) cl _ j [unfolded fr_def]] by auto
  have E3: "ent st (sec d3) k = (if k = j then raw else ent st (sec d) k)" if "k < nent st" for k
    using a(3) E2 N that by auto
  have dat: "sec d3 k = sec d1 k" if "top \<le> k" for k
    using a(4) f(5) that D by (simp add: top_def)
  have clus3: "clus st (sec d3) c = clus st (sec d1) c" for c
    using dat area_data [OF g(1)] by (intro clus_frame) (simp add: top_def)
  have kept: "fatv st2 c = fatv st c \<and> clus st (sec d3) c = clus st (sec d) c" "c \<notin> set cs" if i: "i \<in> lives st (sec d)" "c \<in> set (C i)" for i c
  proof -
    have "chain st (start_of st (sec d) i) (C i)" using V i by (auto simp: file_ok_def)
    then have c: "data_cluster st c" "fatv st c \<noteq> 0" using chain_data i(2) by blast+
    then show n: "c \<notin> set cs" using S by (auto simp: free_cl_def)
    have "k \<notin> area st x" if "k \<in> area st c" "x \<in> set cs" for k x
    proof -
      have "x \<noteq> c" "2 \<le> x" "2 \<le> c" using n that(2) S c(1) by (auto simp: free_cl_def data_cluster_def)
      with area_apart [of x c st] that(1) show ?thesis by blast
    qed
    then have "clus st (sec d1) c = clus st (sec d) c" using S by (intro clus_frame) blast
    then show "fatv st2 c = fatv st c \<and> clus st (sec d3) c = clus st (sec d) c"
      using clus3 S n fv data_cluster_lt [OF c(1) g(2)] by simp
  qed
  have K: "others_kept st (sec d) C j st2 (sec d3)"
    unfolding others_kept_def using sv2 pk E3 kept(1) by auto
  have "want ! 0 \<in> set want" using want(1) by simp
  then have "want ! 0 \<noteq> 0" using want(2) by metis
  moreover have "raw ! 0 = want ! 0" using R(3) by (metis nth_take zero_less_numeral)
  ultimately have lv: "live raw" using assms(4) by (auto simp: live_def DIRENT_END_def)
  have Ej: "ent st (sec d3) j = raw" "ent st2 (sec d3) j = raw" using E3 J(1) N by auto
  have "chain st2 fc cs" using S chain_cong [of st2 st1 cs fc] fv same_vol_ncl [OF f(2)] by simp
  moreover have "distinct cs" "length data \<le> length cs * (512 * spc st)" using S by blast+
  ultimately have fo: "file_ok st2 (sec d3) j cs"
    using Ej R(1) assms(6) D(3) by (simp add: file_ok_def start_of_def size_of_def new_dirent_def)
  have dis: "\<forall>i\<in>lives st (sec d). set cs \<inter> set (C i) = {}" using kept(2) by auto
  have nm: "entry_of st (sec d) (take 11 (ent st (sec d3) j)) = None" using assms(5) Ej R(3) by simp
  have "concat (map (clus st2 (sec d3)) cs) = concat (map (clus st (sec d1)) cs)" using clus3 A by (intro arg_cong [where f = concat] map_cong) auto
  then have fb: "file_bytes st2 (sec d3) (C(j := cs)) j = data"
    using S Ej R(1) assms(6) by (simp add: file_bytes_def size_of_def new_dirent_def)
  have run: "write_finish dv name fc sz st1 d1 = Some (0, st2, d3)"
    using f(1) assms(3) a(1) by (simp add: write_finish_def raw_def)
  have va: "vol_ok nsec drive st2 (sec d3) (C(j := cs))" "vol_map st2 (sec d3) (C(j := cs)) = (vol_map st (sec d) C)(want \<mapsto> data)"
    using vol_add [OF assms(1) K J(1,3,2) _ nm fo dis] lv Ej(1) R(3) fb by simp_all
  have "tidy st2 (sec d3)" if t: "0 < fat_count (g_bpb st)" "g_fat_dirty st1 \<or> fat_synced st1 (sec d1)" "boot_synced st (sec d)"
  proof -
    have s: "\<not> g_fat_dirty st2" "fat_synced st2 (sec d2)" using f(6) t D by auto
    have "fat_synced st2 (sec d3)"
      by (rule fat_synced_frame [OF g(1) sv2 t(1) _ s(2)]) (use a(4) D in auto)
    moreover have z: "0 < unat (g_fat_start st)" "unat (g_fat_start st) \<le> unat (g_root_start st)"
      using t(3) g(1) by (auto simp: boot_synced_def word_less_nat_alt geom_def)
    then have "sec d3 0 = sec d 0" using a(4) f(7) root [of 0] D by (simp add: top_def)
    ultimately show ?thesis using s(1) t(1) D boot_synced_frame [OF t(3) sv2] by (simp add: tidy_def)
  qed
  moreover have "card (free_cl st) \<le> card (free_cl st2) + length cs"
  proof -
    have "c \<in> free_cl st2" if "c \<in> free_cl st" "c \<notin> set cs" for c
    proof -
      have c: "data_cluster st c" "fatv st c = 0" using that(1) by (auto simp: free_cl_def)
      then have "fatv st2 c = 0" using S fv that(2) data_cluster_lt [OF _ g(2)] by simp
      with c(1) show ?thesis unfolding free_cl_eq [OF sv2] by simp
    qed
    then have "free_cl st \<subseteq> free_cl st2 \<union> set cs" by blast
    then have "card (free_cl st) \<le> card (free_cl st2 \<union> set cs)" by (intro card_mono) auto
    also have "\<dots> \<le> card (free_cl st2) + card (set cs)" by (rule card_Un_le)
    finally show ?thesis using S by (simp add: distinct_card)
  qed
  ultimately show ?thesis using va run a(2) sv2 by blast
qed

lemma write_ok:
  assumes "vol_ok nsec drive st (sec d) C" "ok d" "name_to_83 name = Some want" "want ! 0 \<noteq> DIRENT_FREE" "unat sz \<le> length buf"
    "need st (unat sz) \<le> card (free_cl st)" "entry_of st (sec d) want \<noteq> None \<or> (\<exists>j<nent st. \<not> live (ent st (sec d) j))"
  shows "\<exists>st' d' C'. fat12_write dv st name buf sz d = Some (0, st', d') \<and> ok d' \<and> same_vol st st' \<and> vol_ok nsec drive st' (sec d') C'
     \<and> (tidy st (sec d) \<longrightarrow> tidy st' (sec d')) \<and> card (free_cl st) \<le> card (free_cl st') + need st (unat sz)
     \<and> vol_map st' (sec d') C' = (vol_map st (sec d) C)(want \<mapsto> take (unat sz) buf)"
proof -
  from delete_any [OF assms(1-3)] obtain r st1 d1 where d: "fat12_delete dv st name d = Some (r, st1, d1)" "ok d1" "same_vol st st1"
    "vol_ok nsec drive st1 (sec d1) C" "vol_map st1 (sec d1) C = (vol_map st (sec d) C)(want := None)"
    "lives st1 (sec d1) \<subseteq> lives st (sec d)" "free_cl st \<subseteq> free_cl st1" "tidy st (sec d) \<longrightarrow> tidy st1 (sec d1)"
    "entry_of st (sec d) want \<noteq> None \<longrightarrow> (\<exists>j<nent st. j \<notin> lives st1 (sec d1))" by blast
  have g1: "geom nsec drive st1" using d(4) by (simp add: vol_ok_def)
  have m: "g_mounted st" using assms(1) by (simp add: vol_ok_def geom_def)
  have slot: "\<exists>j<nent st1. \<not> live (ent st1 (sec d1) j)"
    using assms(7) d(6,9) same_vol_ent [OF d(3)] by (auto simp: lives_def)
  have "vol_map st1 (sec d1) C want = None" using d(5) by simp
  then have none: "entry_of st1 (sec d1) want = None" by (simp add: vol_map_def)
  have cf: "card (free_cl st) \<le> card (free_cl st1)" using d(7) by (intro card_mono) simp_all
  then have need: "need st1 (unat sz) \<le> card (free_cl st1)" using assms(6) same_volD(3) [OF d(3)] by (simp add: need_def)
  show ?thesis
  proof (cases "sz = 0")
    case True
    have "stored st1 d1 [] [] 0 st1 d1" using g1 d(2) by (simp add: stored_def geom_def need_def)
    from finish_ok [OF d(4) this assms(3,4) none _ slot, of 0] obtain st' d' C' where
      f: "write_finish dv name 0 0 st1 d1 = Some (0, st', d')" "ok d'" "same_vol st1 st'" "vol_ok nsec drive st' (sec d') C'" "card (free_cl st1) \<le> card (free_cl st') + 0"
        "0 < fat_count (g_bpb st1) \<and> (g_fat_dirty st1 \<or> fat_synced st1 (sec d1)) \<and> boot_synced st1 (sec d1) \<longrightarrow> tidy st' (sec d')"
        "vol_map st' (sec d') C' = (vol_map st1 (sec d1) C)(want \<mapsto> [])" by auto
    have "tidy st (sec d) \<longrightarrow> tidy st' (sec d')" using d(8) f(6) by (auto simp: tidy_def)
    moreover have "card (free_cl st) \<le> card (free_cl st')" using cf f(5) by simp
    ultimately show ?thesis using f same_vol_trans [OF d(3) f(3)] d(1,5) m True by (auto simp: fat12_write_def fun_upd_upd)
  next
    case False
    from store_data [OF g1 d(2) False assms(5) need] obtain fc prev st2 st3 d2 cs where
      s: "write_chain (unat sz) dv 0 0 buf 0 (unat sz) st1 d1 = Some (Some (fc, prev), st2, d2)" "fat_set prev 0xFFF st2 = Some st3"
        "stored st1 d1 (take (unat sz) buf) cs fc st3 d2" by blast
    have "unat sz = length (take (unat sz) buf)" using assms(5) by simp
    from finish_ok [OF d(4) s(3) assms(3,4) none this slot] obtain st' d' C' where
      f: "write_finish dv name fc sz st3 d2 = Some (0, st', d')" "ok d'" "same_vol st1 st'" "vol_ok nsec drive st' (sec d') C'" "card (free_cl st1) \<le> card (free_cl st') + length cs"
        "0 < fat_count (g_bpb st1) \<and> (g_fat_dirty st3 \<or> fat_synced st3 (sec d2)) \<and> boot_synced st1 (sec d1) \<longrightarrow> tidy st' (sec d')"
        "vol_map st' (sec d') C' = (vol_map st1 (sec d1) C)(want \<mapsto> take (unat sz) buf)" by auto
    have "tidy st (sec d) \<longrightarrow> tidy st' (sec d')" using d(8) f(6) fat_set_dirty [OF s(2)] by (auto simp: tidy_def)
    moreover have "length cs = need st (unat sz)" using s(3) assms(5) same_volD(3) [OF d(3)] by (simp add: stored_def need_def min_absorb2)
    then have "card (free_cl st) \<le> card (free_cl st') + need st (unat sz)" using cf f(5) by simp
    ultimately show ?thesis using f same_vol_trans [OF d(3) f(3)] d(1,5) m False s(1,2) by (auto simp: fat12_write_def fun_upd_upd)
  qed
qed

end

end
