(* ===== verification/Fat12Mount.thy ===== *)
theory Fat12Mount
  imports Fat12Vol
begin

text \<open>
  Formatting and mounting: a formatted volume is the empty map, and the operations on the disk driver of
  \<^verbatim>\<open>ata.c\<close> implement the map.
\<close>

section \<open>The boot sector\<close>

definition bpb_wf :: "bpb_t \<Rightarrow> bool" where
  "bpb_wf b \<longleftrightarrow> length (jmp b) = 3 \<and> length (oem b) = 8 \<and> length (volume_label b) = 11 \<and> length (fs_type b) = 8"

lemma bpb_round:
  assumes "bpb_wf b"
  shows "bpb_of (bpb_bytes b) = b" "length (bpb_bytes b) = 62"
proof -
  note w = assms [unfolded bpb_wf_def]
  let ?s = "bpb_bytes b"
  show l: "length ?s = 62" using w by (simp add: bpb_bytes_def)
  have d: "drop 11 ?s = wr16 (bytes_per_sector b) @ drop 13 ?s" "drop 14 ?s = wr16 (reserved_sectors b) @ drop 16 ?s"
    "drop 17 ?s = wr16 (root_entry_count b) @ drop 19 ?s" "drop 19 ?s = wr16 (total_sectors_16 b) @ drop 21 ?s"
    "drop 22 ?s = wr16 (sectors_per_fat b) @ drop 24 ?s" "drop 24 ?s = wr16 (sectors_per_track b) @ drop 26 ?s"
    "drop 26 ?s = wr16 (head_count b) @ drop 28 ?s" "drop 28 ?s = wr32 (hidden_sectors b) @ drop 32 ?s"
    "drop 32 ?s = wr32 (total_sectors_32 b) @ drop 36 ?s" "drop 39 ?s = wr32 (volume_id b) @ drop 43 ?s"
    using w by (simp_all add: bpb_bytes_def)
  have r: "rd16 ?s 11 = bytes_per_sector b" "rd16 ?s 14 = reserved_sectors b" "rd16 ?s 17 = root_entry_count b" "rd16 ?s 19 = total_sectors_16 b"
    "rd16 ?s 22 = sectors_per_fat b" "rd16 ?s 24 = sectors_per_track b" "rd16 ?s 26 = head_count b" "rd32 ?s 28 = hidden_sectors b"
    "rd32 ?s 32 = total_sectors_32 b" "rd32 ?s 39 = volume_id b"
    using d l by (simp_all only: rd16_drop [of _ ?s] rd32_drop [of _ ?s] rd16_wr16 rd32_wr32)
  have n: "?s ! 13 = sectors_per_cluster b" "?s ! 16 = fat_count b" "?s ! 21 = media_type b" "?s ! 36 = drive_number b" "?s ! 37 = reserved1 b"
    "?s ! 38 = boot_sig b" using w by (simp_all add: bpb_bytes_def nth_append)
  have t: "take 3 ?s = jmp b" "take 8 (drop 3 ?s) = oem b" "take 11 (drop 43 ?s) = volume_label b" "take 8 (drop 54 ?s) = fs_type b"
    using w by (simp_all add: bpb_bytes_def)
  show "bpb_of ?s = b" unfolding bpb_of_def r n t by simp
qed

lemma format_label_ok: "format_label label = Some l \<Longrightarrow> length l = 11"
  by (auto simp: format_label_def pad_blank_def split: option.splits bind_splits)

lemma format_boot_ok:
  assumes "length l = 11"
  shows "length (format_boot l) = 512" "bpb_of (take 62 (format_boot l)) = format_bpb l"
proof -
  have "bpb_wf (format_bpb l)" using assms by (simp add: bpb_wf_def format_bpb_def)
  from bpb_round [OF this] show "length (format_boot l) = 512" "bpb_of (take 62 (format_boot l)) = format_bpb l"
    by (simp_all add: format_boot_def)
qed

section \<open>Formatting\<close>

text \<open>What the bytes written behind \<^verbatim>\<open>g_bpb\<close> may not touch for mounting to work.\<close>

definition spill_ok :: "(bytes \<Rightarrow> fat12 \<Rightarrow> fat12) \<Rightarrow> bool" where
  "spill_ok spill \<longleftrightarrow> (\<forall>x st. g_bpb (spill x st) = g_bpb st \<and> g_drive (spill x st) = g_drive st \<and> length (g_fat (spill x st)) = length (g_fat st))"

definition format_disk :: "bytes \<Rightarrow> (nat \<times> bytes) list" where
  "format_disk l = (0, format_boot l) # map (\<lambda>(copy, s). (1 + copy * 9 + s, format_fat s)) (List.product [0..<2] [0..<9])
        @ map (\<lambda>s. (19 + s, replicate 512 0)) [0..<14]"

lemma format_disk_at:
  assumes "length l = 11"
  shows "distinct (map fst (format_disk l))" "\<forall>(k, b)\<in>set (format_disk l). length b = 512 \<and> k < 2880"
    "map_of (format_disk l) 0 = Some (format_boot l)" "\<And>s. s < 9 \<Longrightarrow> map_of (format_disk l) (1 + s) = Some (format_fat s)"
    "\<And>s. s < 14 \<Longrightarrow> map_of (format_disk l) (19 + s) = Some (replicate 512 0)"
proof -
  have f: "map fst (format_disk l) = [0..<33]"
    by (simp add: format_disk_def comp_def case_prod_unfold upt_rec)
  then show d: "distinct (map fst (format_disk l))" by simp
  have "k < 33" if "(k, b) \<in> set (format_disk l)" for k b using that f by (metis atLeastLessThan_iff fst_conv image_eqI set_map set_upt)
  moreover have "length b = 512" if "(k, b) \<in> set (format_disk l)" for k b
    using that format_boot_ok(1) [OF assms] by (auto simp: format_disk_def format_fat_def split: if_splits)
  ultimately show "\<forall>(k, b)\<in>set (format_disk l). length b = 512 \<and> k < 2880" by fastforce
  show "map_of (format_disk l) 0 = Some (format_boot l)" by (simp add: format_disk_def)
  show "map_of (format_disk l) (1 + s) = Some (format_fat s)" if "s < 9" for s
  proof -
    have "(1 + 0 * 9 + s, format_fat s) \<in> set (format_disk l)" using that unfolding format_disk_def by (auto simp: image_iff) force
    then show ?thesis using d by (intro map_of_is_SomeI) auto
  qed
  show "map_of (format_disk l) (19 + s) = Some (replicate 512 0)" if "s < 14" for s
    using d that by (intro map_of_is_SomeI) (auto simp: format_disk_def)
qed

context block_device
begin

lemma write_all_ok:
  assumes "ok d" "\<forall>(k, b)\<in>set l. length b = 512 \<and> k < nsec" "nsec < 2 ^ 32" "distinct (map fst l)"
  shows "\<exists>d'. write_all dv drive l d = Some (True, d') \<and> ok d' \<and> sec d' = (\<lambda>k. case map_of l k of Some b \<Rightarrow> b | None \<Rightarrow> sec d k)"
  using assms
proof (induction l arbitrary: d)
  case (Cons x l)
  obtain k b where x: "x = (k, b)" by (cases x)
  have u: "unat (of_nat k :: u32) = k" using Cons.prems(2,3) x by (auto simp: unat_of_nat)
  from wr [OF Cons.prems(1), of "of_nat k" b] Cons.prems(2) x u obtain d1 where
    d1: "dv_wr dv drive (of_nat k) b d = Some (True, d1)" "ok d1" "sec d1 = (sec d)(k := b)" by auto
  from Cons.IH [OF d1(2)] Cons.prems obtain d' where
    d': "write_all dv drive l d1 = Some (True, d')" "ok d'" "sec d' = (\<lambda>k. case map_of l k of Some b \<Rightarrow> b | None \<Rightarrow> sec d1 k)" by auto
  have "k \<notin> fst ` set l" using Cons.prems(4) x by auto
  then have "map_of l k = None" by (simp add: map_of_eq_None_iff)
  then have "sec d' = (\<lambda>j. case map_of (x # l) j of Some b \<Rightarrow> b | None \<Rightarrow> sec d j)"
    unfolding d'(3) x by (auto simp: fun_eq_iff d1(3) split: option.split)
  with d1(1) d'(1,2) x show ?case by auto
qed auto

lemma load_fat_ok:
  assumes "ok d" "unat (g_fat_start st) + n \<le> nsec" "nsec < 2 ^ 32" "512 * n \<le> length (g_fat st)" "s \<le> n"
  shows "\<exists>f d'. load_fat dv drive [s..<n] st d = Some (True, st\<lparr>g_fat := f\<rparr>, d') \<and> ok d' \<and> sec d' = sec d
     \<and> f = take (512 * s) (g_fat st) @ secs (sec d) (unat (g_fat_start st) + s) (n - s) @ drop (512 * n) (g_fat st)"
  using assms
proof (induction "n - s" arbitrary: s st d)
  case 0
  then show ?case by (intro exI [of _ "g_fat st"] exI [of _ d]) simp
next
  case (Suc k)
  then have s: "s < n" "k = n - Suc s" "n - s = Suc (n - Suc s)" by auto
  have up: "[s..<n] = s # [Suc s..<n]" using s(1) by (rule upt_conv_Cons)
  have lt: "unat (g_fat_start st) + s < nsec" using Suc.prems(2) s(1) by simp
  with Suc.prems(3) have u: "unat (g_fat_start st + of_nat s) = unat (g_fat_start st) + s" by (intro unat_add_of_nat) simp
  from rd [OF Suc.prems(1), of "g_fat_start st + of_nat s"] u lt obtain d1 where
    d1: "dv_rd dv drive (g_fat_start st + of_nat s) d = Some (Some (sec d (unat (g_fat_start st) + s)), d1)" "ok d1" "sec d1 = sec d" by auto
  define T where "T = sec d (unat (g_fat_start st) + s)"
  have lT: "length T = 512" using len [OF Suc.prems(1)] by (simp add: T_def)
  define f1 where "f1 = take (s * 512) (g_fat st) @ T @ drop (s * 512 + 512) (g_fat st)"
  have b: "blit (g_fat st) (s * 512) T = Some f1" using lT s(1) Suc.prems(4) by (simp add: blit_def f1_def)
  have lf: "length f1 = length (g_fat st)" using length_blit [OF b] .
  from Suc.hyps(1) [OF s(2) d1(2), of "st\<lparr>g_fat := f1\<rparr>"] Suc.prems(2-4) s(1) lf obtain f d' where
    r: "load_fat dv drive [Suc s..<n] (st\<lparr>g_fat := f1\<rparr>) d1 = Some (True, st\<lparr>g_fat := f\<rparr>, d')" "ok d'" "sec d' = sec d"
      "f = take (512 * Suc s) f1 @ secs (sec d) (unat (g_fat_start st) + Suc s) (n - Suc s) @ drop (512 * n) f1" using d1(3) by auto
  have "take (512 * Suc s) f1 = take (512 * s) (g_fat st) @ T" "drop (512 * n) f1 = drop (512 * n) (g_fat st)"
    using lT s(1) Suc.prems(4) by (simp_all add: f1_def mult.commute)
  then have "f = take (512 * s) (g_fat st) @ secs (sec d) (unat (g_fat_start st) + s) (n - s) @ drop (512 * n) (g_fat st)"
    unfolding r(4) s(3) by (simp add: T_def)
  with d1(1) b r(1-3) show ?case unfolding up by (simp add: T_def)
qed

end

section \<open>Mounting\<close>

definition std_geom :: "bytes \<Rightarrow> fat12 \<Rightarrow> bool" where
  "std_geom l st \<longleftrightarrow> g_bpb st = format_bpb l \<and> g_fat_start st = 1 \<and> g_root_start st = 19 \<and> g_root_sectors st = 14 \<and> g_data_start st = 33
     \<and> g_total_clusters st = 2847"

lemma std_geom_geom:
  "std_geom l st \<Longrightarrow> pack_ok st \<Longrightarrow> g_mounted st \<Longrightarrow> g_drive st = drive \<Longrightarrow> 2880 \<le> nsec \<Longrightarrow> nsec < 2 ^ 32 \<Longrightarrow> geom nsec drive st"
  by (simp add: std_geom_def geom_def ncl_def format_bpb_def)

lemma std_geom_same: "std_geom l st \<Longrightarrow> same_vol st st' \<Longrightarrow> std_geom l st'"
  by (simp add: std_geom_def same_volD)

lemma std_layout:
  assumes "g_bpb st = format_bpb l"
  shows "fat_layout st = Some (st\<lparr>g_fat_start := 1, g_root_start := 19, g_root_sectors := 14, g_data_start := 33, g_total_clusters := 2847\<rparr>)"
  by (simp add: fat_layout_def assms format_bpb_def Let_def)

lemma fs_type_ok: "kstrncmp (fs_type (format_bpb l)) (lit ''FAT12'') 5 = Some 0"
  by (simp add: format_bpb_def lit_def eval_nat_numeral)

lemma fs_type_other: "\<exists>c. kstrncmp (fs_type (format_bpb l)) (lit ''FAT   '') 5 = Some c"
  by (simp add: format_bpb_def lit_def eval_nat_numeral)

context block_device
begin

lemma mount_ok:
  assumes "ok d" "2880 \<le> nsec" "nsec < 2 ^ 32" "spill_ok spill" "pack_ok st" "bpb_of (take 62 (sec d 0)) = format_bpb l"
  shows "\<exists>st' d'. fat12_mount spill dv drive st d = Some (0, st', d') \<and> ok d' \<and> sec d' = sec d \<and> std_geom l st' \<and> g_mounted st'
     \<and> g_drive st' = drive \<and> g_fat st' = secs (sec d) 1 9 \<and> \<not> g_fat_dirty st'"
proof -
  from rd [OF assms(1), of 0] assms(2) obtain d1 where d1: "dv_rd dv drive 0 d = Some (Some (sec d 0), d1)" "ok d1" "sec d1 = sec d" by auto
  define st1 where "st1 = spill (drop 62 (sec d 0)) (st\<lparr>g_mounted := False, g_drive := drive, g_bpb := format_bpb l\<rparr>)"
  have s1: "g_bpb st1 = format_bpb l" "g_drive st1 = drive" "length (g_fat st1) = 4608"
    using assms(4,5) by (simp_all add: st1_def spill_ok_def pack_ok_def FAT_BUF_SIZE_def)
  define st2 where "st2 = st1\<lparr>g_fat_start := 1, g_root_start := 19, g_root_sectors := 14, g_data_start := 33, g_total_clusters := 2847\<rparr>"
  have lay: "fat_layout st1 = Some st2" using std_layout [OF s1(1)] by (simp add: st2_def)
  have spf: "unat (sectors_per_fat (format_bpb l)) = 9" by (simp add: format_bpb_def)
  from load_fat_ok [OF d1(2), of st2 9 0] assms(2,3) s1(3) d1(3) obtain f d2 where
    ld: "load_fat dv drive [0..<9] st2 d1 = Some (True, st2\<lparr>g_fat := f\<rparr>, d2)" "ok d2" "sec d2 = sec d" "f = secs (sec d) 1 9"
    by (auto simp: st2_def)
  from fs_type_other [of l] obtain c where c: "kstrncmp (fs_type (format_bpb l)) (lit ''FAT   '') 5 = Some c" by blast
  have "fat12_mount spill dv drive st d = Some (0, st2\<lparr>g_fat := f, g_mounted := True, g_fat_dirty := False\<rparr>, d2)"
    using d1(1) s1(1) lay ld(1) fs_type_ok [of l] c spf assms(6)
    by (simp add: fat12_mount_def Let_def st1_def [symmetric])
  moreover have "std_geom l (st2\<lparr>g_fat := f, g_mounted := True, g_fat_dirty := False\<rparr>)" using s1(1) by (simp add: std_geom_def st2_def)
  ultimately show ?thesis using ld(2-4) s1(2) by (simp add: st2_def)
qed

text \<open>The table is what its nine sectors hold.\<close>

lemma synced_table:
  assumes "std_geom l st" "pack_ok st" "fat_synced st sc"
  shows "secs sc 1 9 = g_fat st"
proof -
  have s: "sc (1 + s) = take 512 (drop (s * 512) (g_fat st))" if "s < 9" for s
    using assms(1,3) that by (simp add: fat_synced_def fat_chunk_def std_geom_def format_bpb_def)
  have "secs sc (1 + k) (9 - k) = drop (k * 512) (g_fat st)" if "k \<le> 9" for k
    using that
  proof (induction "9 - k" arbitrary: k)
    case 0
    then show ?case using assms(2) by (simp add: pack_ok_def FAT_BUF_SIZE_def)
  next
    case (Suc m)
    then have k: "m = 9 - Suc k" "Suc k \<le> 9" "9 - k = Suc (9 - Suc k)" "k < 9" by auto
    have "secs sc (1 + k) (9 - k) = take 512 (drop (k * 512) (g_fat st)) @ drop (Suc k * 512) (g_fat st)"
      unfolding k(3) using Suc.hyps(1) [OF k(1,2)] s [OF k(4)] by simp
    also have "\<dots> = drop (k * 512) (g_fat st)" by (metis add.commute append_take_drop_id drop_drop mult_Suc)
    finally show ?case .
  qed
  from this [of 0] show ?thesis by simp
qed

text \<open>Mounting a volume again gives the state it was left in.\<close>

lemma remount_ok:
  assumes "ok d" "2880 \<le> nsec" "nsec < 2 ^ 32" "spill_ok spill" "pack_ok st0" "std_geom l st" "geom nsec drive st" "tidy st (sec d)"
  shows "\<exists>d'. fat12_mount spill dv drive st0 d = Some (0, st, d') \<and> ok d' \<and> sec d' = sec d"
proof -
  have "bpb_of (take 62 (sec d 0)) = format_bpb l" using assms(6,8) by (simp add: tidy_def boot_synced_def std_geom_def)
  from mount_ok [OF assms(1-5) this] obtain st' d' where m: "fat12_mount spill dv drive st0 d = Some (0, st', d')" "ok d'" "sec d' = sec d"
    "std_geom l st'" "g_mounted st'" "g_drive st' = drive" "g_fat st' = secs (sec d) 1 9" "\<not> g_fat_dirty st'" by blast
  have "g_fat st' = g_fat st" using synced_table [OF assms(6)] assms(7,8) m(7) by (simp add: tidy_def geom_def)
  then have "st' = st" using m(4-8) assms(6-8)
    by (intro fat12.equality) (simp_all add: std_geom_def geom_def tidy_def)
  with m(1-3) show ?thesis by simp
qed

end

context block_device
begin

lemma secs_const: "secs (\<lambda>_. replicate 512 z) k n = replicate (512 * n) z"
  by (induction n arbitrary: k) (simp_all flip: replicate_add)

lemma empty_root:
  assumes "geom nsec drive st" "\<And>s. s < unat (g_root_sectors st) \<Longrightarrow> sc (unat (g_root_start st) + s) = replicate 512 0"
  shows "vol_ok nsec drive st sc (\<lambda>_. [])" "vol_map st sc (\<lambda>_. []) = Map.empty" "lives st sc = {}"
proof -
  have z: "ent st sc j ! 0 = DIRENT_END" if "j < nent st" for j
  proof -
    have "j div 16 < unat (g_root_sectors st)" using that by (simp add: nent_def less_mult_imp_div_less mult.commute)
    then show ?thesis using assms(2) by (simp add: ent_def dir_at_nth DIRENT_END_def)
  qed
  then show l: "lives st sc = {}" by (auto simp: lives_def live_def)
  show "vol_ok nsec drive st sc (\<lambda>_. [])" using assms(1) z l by (simp add: vol_ok_def dir_clean_def)
  show "vol_map st sc (\<lambda>_. []) = Map.empty"
    using l entry_of_None [of st sc] by (auto simp: vol_map_def fun_eq_iff)
qed

lemma format_ok:
  assumes "ok d" "2880 \<le> nsec" "nsec < 2 ^ 32" "spill_ok spill" "pack_ok st" "format_label label = Some l"
  shows "\<exists>st' d'. fat12_format spill dv drive label st d = Some (0, st', d') \<and> ok d' \<and> std_geom l st' \<and> geom nsec drive st' \<and> tidy st' (sec d')
     \<and> vol_ok nsec drive st' (sec d') (\<lambda>_. []) \<and> vol_map st' (sec d') (\<lambda>_. []) = Map.empty \<and> free_cl st' = {2..<2849} \<and> lives st' (sec d') = {}"
proof -
  have l: "length l = 11" using format_label_ok [OF assms(6)] .
  note D = format_disk_at [OF l]
  have "\<forall>(k, b)\<in>set (format_disk l). length b = 512 \<and> k < nsec" using D(2) assms(2) by fastforce
  from write_all_ok [OF assms(1) this assms(3) D(1)] obtain d1 where
    d1: "write_all dv drive (format_disk l) d = Some (True, d1)" "ok d1"
      "sec d1 = (\<lambda>k. case map_of (format_disk l) k of Some b \<Rightarrow> b | None \<Rightarrow> sec d k)" by blast
  have sc: "sec d1 0 = format_boot l" "\<And>s. s < 9 \<Longrightarrow> sec d1 (1 + s) = format_fat s" "\<And>s. s < 14 \<Longrightarrow> sec d1 (19 + s) = replicate 512 0"
    unfolding d1(3) using D(3-5) by simp_all
  have b: "bpb_of (take 62 (sec d1 0)) = format_bpb l" using sc(1) format_boot_ok(2) [OF l] by simp
  from mount_ok [OF d1(2) assms(2-5) b] obtain st' d' where m: "fat12_mount spill dv drive st d1 = Some (0, st', d')" "ok d'" "sec d' = sec d1"
    "std_geom l st'" "g_mounted st'" "g_drive st' = drive" "g_fat st' = secs (sec d1) 1 9" "\<not> g_fat_dirty st'" by blast
  have "secs (sec d1) 1 9 = secs (\<lambda>k. format_fat (k - 1)) 1 9"
  proof (rule secs_cong)
    fix i :: nat assume "1 \<le> i" "i < 1 + 9"
    then show "sec d1 i = format_fat (i - 1)" using sc(2) [of "i - 1"] by simp
  qed
  also have "\<dots> = format_fat 0 @ secs (\<lambda>k. format_fat (k - 1)) 2 8"
    using secs_simps(2) [of "\<lambda>k. format_fat (k - 1)" 1 8] by (simp add: numeral_2_eq_2)
  also have "secs (\<lambda>k. format_fat (k - 1)) 2 8 = secs (\<lambda>_. replicate 512 0) 2 8"
    by (rule secs_cong) (simp add: format_fat_def)
  also have "\<dots> = replicate (512 * 8) 0" by (rule secs_const)
  also have "format_fat 0 @ replicate (512 * 8) 0 = [0xF0, 0xFF, 0xFF] @ replicate 4605 0"
    by (simp add: format_fat_def flip: replicate_add)
  finally have t: "g_fat st' = [0xF0, 0xFF, 0xFF] @ replicate 4605 0" using m(7) by simp
  have pk: "pack_ok st'" using t by (simp add: pack_ok_def FAT_BUF_SIZE_def)
  have z: "fatv st' n = 0" if "2 \<le> n" "n < 3072" for n
  proof -
    have "3 \<le> n + n div 2" "n + n div 2 + 1 < 4608" using that idx_bound [OF that(2)] by auto
    then have "g_fat st' ! (n + n div 2) = 0" "g_fat st' ! (n + n div 2 + 1) = 0" unfolding t by (simp_all add: nth_append)
    then show ?thesis by (simp add: fatv_def rd16_def)
  qed
  have fr: "free_cl st' = {2..<2849}" using z m(4) by (auto simp: free_cl_def data_cluster_def ncl_def std_geom_def)
  have g: "geom nsec drive st'" using std_geom_geom [OF m(4) pk m(5,6) assms(2,3)] .
  have ch: "fat_chunk st' s = format_fat s" if "s < 9" for s
  proof (cases "s = 0")
    case True
    then show ?thesis unfolding fat_chunk_def t format_fat_def by simp
  next
    case False
    then have "3 \<le> s * 512" "s * 512 + 512 \<le> 4608" using that by auto
    then have "drop (s * 512) (g_fat st') = replicate (4608 - s * 512) 0" unfolding t drop_append by simp
    then show ?thesis using \<open>s * 512 + 512 \<le> 4608\<close> False unfolding fat_chunk_def format_fat_def by simp
  qed
  have ty: "tidy st' (sec d')"
    using m(3,4,8) b sc(2) ch by (simp add: tidy_def boot_synced_def fat_synced_def std_geom_def format_bpb_def)
  have "sec d' (unat (g_root_start st') + s) = replicate 512 0" if "s < unat (g_root_sectors st')" for s
    using that m(3,4) sc(3) by (simp add: std_geom_def)
  from empty_root [of st' "sec d'", OF g this] have e: "vol_ok nsec drive st' (sec d') (\<lambda>_. [])" "vol_map st' (sec d') (\<lambda>_. []) = Map.empty" "lives st' (sec d') = {}"
    by auto
  have "fat12_format spill dv drive label st d = Some (0, st', d')"
    unfolding fat12_format_def assms(6) format_disk_def [symmetric] by (simp add: d1(1) m(1))
  with m(2,4) g ty e fr show ?thesis by blast
qed

end

section \<open>The file system on the disk driver\<close>

text \<open>The volume on the drive 0 of a ready controller.\<close>

abbreviation fat_disk :: "fat12 \<Rightarrow> drives \<times> chip \<Rightarrow> (bytes \<rightharpoonup> bytes) \<Rightarrow> bool" where
  "fat_disk st d A \<equiv> chip_ok d \<and> fat_files (2 ^ 28) 0 st (chip_sec d) A"

definition room_for :: "nat \<Rightarrow> fat12 \<Rightarrow> drives \<times> chip \<Rightarrow> bool" where
  "room_for n st d \<longleftrightarrow> need st n \<le> card (free_cl st) \<and> (\<exists>j<nent st. \<not> live (ent st (chip_sec d) j))"

lemma fat12_ops:
  assumes "fat_disk st d A" "name_to_83 name = Some want"
  shows "A want = None \<Longrightarrow> \<exists>d'. fat12_read (ata_dev chip_io) st name buf bufsz d = Some (-1, buf, d') \<and> fat_disk st d' A"
    and "A want = Some data \<Longrightarrow> min (length data) (unat bufsz) \<le> length buf \<Longrightarrow>
      \<exists>d'. fat12_read (ata_dev chip_io) st name buf bufsz d
        = Some (int (min (length data) (unat bufsz)), take (unat bufsz) data @ drop (min (length data) (unat bufsz)) buf, d') \<and> fat_disk st d' A"
    and "\<exists>r st' d'. fat12_delete (ata_dev chip_io) st name d = Some (r, st', d') \<and> (r = 0 \<longleftrightarrow> A want \<noteq> None) \<and> fat_disk st' d' (A(want := None))"
    and "want ! 0 \<noteq> DIRENT_FREE \<Longrightarrow> unat sz \<le> length buf \<Longrightarrow> room_for (unat sz) st d \<Longrightarrow>
      \<exists>st' d'. fat12_write (ata_dev chip_io) st name buf sz d = Some (0, st', d') \<and> fat_disk st' d' (A(want \<mapsto> take (unat sz) buf))"
proof -
  from assms(1) obtain C where v: "vol_ok (2 ^ 28) 0 st (chip_sec d) C" "A = vol_map st (chip_sec d) C" "chip_ok d" by (auto simp: fat_files_def)
  show "\<exists>d'. fat12_read (ata_dev chip_io) st name buf bufsz d = Some (-1, buf, d') \<and> fat_disk st d' A" if "A want = None"
    using disk.read_missing [OF v(1,3) assms(2), of buf bufsz] that v assms(1) by (fastforce simp: vol_map_def)
  show "\<exists>d'. fat12_read (ata_dev chip_io) st name buf bufsz d
        = Some (int (min (length data) (unat bufsz)), take (unat bufsz) data @ drop (min (length data) (unat bufsz)) buf, d') \<and> fat_disk st d' A"
    if "A want = Some data" "min (length data) (unat bufsz) \<le> length buf"
  proof -
    have t: "take (min (length data) (unat bufsz)) data = take (unat bufsz) data" by (simp add: min_def)
    from disk.read_ok [OF v(1,3) assms(2) _ refl that(2)] that(1) v(2) assms(1) show ?thesis unfolding t by fastforce
  qed
  show "\<exists>r st' d'. fat12_delete (ata_dev chip_io) st name d = Some (r, st', d') \<and> (r = 0 \<longleftrightarrow> A want \<noteq> None) \<and> fat_disk st' d' (A(want := None))"
  proof (cases "entry_of st (chip_sec d) want")
    case None
    then have "A want = None" "A(want := None) = A" by (auto simp: v(2) vol_map_def fun_eq_iff)
    with disk.delete_missing [OF v(1,3) assms(2) None] assms(1) show ?thesis by fastforce
  next
    case (Some j)
    then have "A want \<noteq> None" by (simp add: v(2) vol_map_def)
    moreover from disk.delete_ok [OF v(1,3) assms(2) Some] obtain st' d' where
      "fat12_delete (ata_dev chip_io) st name d = Some (0, st', d')" "chip_ok d'" "vol_ok (2 ^ 28) 0 st' (chip_sec d') C"
      "vol_map st' (chip_sec d') C = A(want := None)" unfolding v(2) by blast
    ultimately show ?thesis unfolding fat_files_def by (intro exI [of _ 0] exI [of _ st'] exI [of _ d']) auto
  qed
  show "\<exists>st' d'. fat12_write (ata_dev chip_io) st name buf sz d = Some (0, st', d') \<and> fat_disk st' d' (A(want \<mapsto> take (unat sz) buf))"
    if "want ! 0 \<noteq> DIRENT_FREE" "unat sz \<le> length buf" "room_for (unat sz) st d"
  proof -
    have "need st (unat sz) \<le> card (free_cl st)" "entry_of st (chip_sec d) want \<noteq> None \<or> (\<exists>j<nent st. \<not> live (ent st (chip_sec d) j))"
      using that(3) by (simp_all add: room_for_def)
    from disk.write_ok [OF v(1,3) assms(2) that(1,2) this] obtain st' d' C' where
      "fat12_write (ata_dev chip_io) st name buf sz d = Some (0, st', d')" "chip_ok d'" "vol_ok (2 ^ 28) 0 st' (chip_sec d') C'"
      "vol_map st' (chip_sec d') C' = A(want \<mapsto> take (unat sz) buf)" unfolding v(2) by blast
    then show ?thesis unfolding fat_files_def by metis
  qed
qed

text \<open>
  C2. On the disk driver a FAT12 volume implements a finite map from 8.3 names to contents. Reading a file returns its contents, as many
  bytes as the buffer takes, or -1 when there is none; deleting removes exactly the file; writing, with enough free clusters and a free
  directory entry, binds the name to the new contents and changes no other file.
\<close>

theorem fat12_refines_map:
  assumes "fat_disk st d A" "name_to_83 name = Some want"
  shows "(A want = None \<longrightarrow> (\<exists>d'. fat12_read (ata_dev chip_io) st name buf bufsz d = Some (-1, buf, d') \<and> fat_disk st d' A))
    \<and> (\<forall>data. A want = Some data \<longrightarrow> min (length data) (unat bufsz) \<le> length buf \<longrightarrow>
         (\<exists>d'. fat12_read (ata_dev chip_io) st name buf bufsz d
            = Some (int (min (length data) (unat bufsz)), take (unat bufsz) data @ drop (min (length data) (unat bufsz)) buf, d') \<and> fat_disk st d' A))
    \<and> (\<exists>r st' d'. fat12_delete (ata_dev chip_io) st name d = Some (r, st', d') \<and> (r = 0 \<longleftrightarrow> A want \<noteq> None) \<and> fat_disk st' d' (A(want := None)))
    \<and> (want ! 0 \<noteq> DIRENT_FREE \<longrightarrow> unat sz \<le> length buf \<longrightarrow> room_for (unat sz) st d \<longrightarrow>
         (\<exists>st' d'. fat12_write (ata_dev chip_io) st name buf sz d = Some (0, st', d') \<and> fat_disk st' d' (A(want \<mapsto> take (unat sz) buf))))"
  using fat12_ops [OF assms] by blast


text \<open>A concrete disk: one drive, all its sectors zero; the 450 bytes hit nothing that matters.\<close>

definition a_txt :: bytes where
  "a_txt = lit ''a.txt''"

lemma a_txt_83: "name_to_83 a_txt = Some [0x41, 32, 32, 32, 32, 32, 32, 32, 0x54, 0x58, 0x54]"
  by code_simp

lemma spill_none: "spill_ok (\<lambda>_ st. st)"
  by (simp add: spill_ok_def)

lemma chip0_ok: "chip_ok (drive0, chip0)"
  by (simp add: chip_ok_def drive0_def)


theorem fat12_refines_map_witness:
  "\<exists>st d. fat_disk st d Map.empty \<and> room_for 3 st d
     \<and> (\<exists>st' d'. fat12_write (ata_dev chip_io) st a_txt [1, 2, 3] 3 d = Some (0, st', d') \<and> fat_disk st' d' [[0x41, 32, 32, 32, 32, 32, 32, 32, 0x54, 0x58, 0x54] \<mapsto> [1, 2, 3]])"
proof -
  have n: "(2880 :: nat) \<le> 2 ^ 28" "(2 :: nat) ^ 28 < 2 ^ 32" by simp_all
  have pk: "pack_ok fat0" by (simp add: pack_ok_def fat0_def FAT_BUF_SIZE_def)
  have "format_label None = Some (replicate 11 32)" by (simp add: format_label_def)
  from disk.format_ok [OF chip0_ok n spill_none pk this] obtain st d where
    f: "chip_ok d" "std_geom (replicate 11 32) st" "vol_ok (2 ^ 28) 0 st (chip_sec d) (\<lambda>_. [])" "vol_map st (chip_sec d) (\<lambda>_. []) = Map.empty"
      "free_cl st = {2..<2849}" "lives st (chip_sec d) = {}" by blast
  have fd: "fat_disk st d Map.empty" using f(1,3,4) unfolding fat_files_def by metis
  have "nent st = 224" "spc st = 1" using f(2) by (simp_all add: std_geom_def format_bpb_def nent_def)
  then have rm: "room_for (unat (3 :: u32)) st d" using f(5,6) by (auto simp: room_for_def need_def lives_def intro!: exI [of _ 0])
  have "\<exists>st' d'. fat12_write (ata_dev chip_io) st a_txt [1, 2, 3] 3 d = Some (0, st', d')
      \<and> fat_disk st' d' [[0x41, 32, 32, 32, 32, 32, 32, 32, 0x54, 0x58, 0x54] \<mapsto> [1, 2, 3]]"
    using fat12_refines_map [OF fd a_txt_83, of "[1, 2, 3]" 3 3] rm by (simp add: DIRENT_FREE_def)
  moreover have "room_for 3 st d" using rm by simp
  ultimately show ?thesis using fd by blast
qed

end
