(* ===== verification/Vfs.thy ===== *)
theory Vfs
  imports Pipe RamFs Keyboard Fat12
begin

text \<open>
  The virtual file system, \<^verbatim>\<open>src/vfs.c\<close>: the descriptor table, the mount table with its operation tables,
  and the three file systems it defines itself: \<^verbatim>\<open>/mem\<close>, \<^verbatim>\<open>/disk\<close> and \<^verbatim>\<open>/dev\<close>.
\<close>

section \<open>Types\<close>

definition VFS_MAX_FD :: nat where "VFS_MAX_FD = 32"
definition VFS_MAX_PATH :: nat where "VFS_MAX_PATH = 128"
definition VFS_NAME_MAX :: nat where "VFS_NAME_MAX = 64"
definition VFS_FILE :: u8 where "VFS_FILE = 1"
definition VFS_DEV :: u8 where "VFS_DEV = 3"
definition VFS_PIPE :: u8 where "VFS_PIPE = 4"
definition O_RDONLY :: u32 where "O_RDONLY = 0x00"
definition O_WRONLY :: u32 where "O_WRONLY = 0x01"
definition O_RDWR :: u32 where "O_RDWR = 0x02"
definition O_CREAT :: u32 where "O_CREAT = 0x04"
definition O_TRUNC :: u32 where "O_TRUNC = 0x08"
definition O_APPEND :: u32 where "O_APPEND = 0x10"
definition VFS_MAX_MOUNTS :: nat where "VFS_MAX_MOUNTS = 8"
definition MEM_MAX_OPEN :: nat where "MEM_MAX_OPEN = 16"
definition DISK_BUF_SIZE :: nat where "DISK_BUF_SIZE = 4096"
definition DISK_MAX_OPEN :: nat where "DISK_MAX_OPEN = 8"

record vfs_stat_t =
  st_size :: u32
  st_type :: u8
  st_name :: bytes

text \<open>A table of operations over a state \<open>'s\<close> of the file systems; \<open>None\<close> is a null pointer.\<close>

record 's vfs_ops_t =
  op_open :: "(bytes \<Rightarrow> u32 \<Rightarrow> 's \<Rightarrow> (int \<times> 's) option) option"
  op_close :: "(int \<Rightarrow> 's \<Rightarrow> (int \<times> 's) option) option"
  op_read :: "(int \<Rightarrow> bytes \<Rightarrow> u32 \<Rightarrow> 's \<Rightarrow> (int \<times> bytes \<times> 's) option) option"
  op_write :: "(int \<Rightarrow> bytes \<Rightarrow> u32 \<Rightarrow> 's \<Rightarrow> (int \<times> 's) option) option"
  op_stat :: "(bytes \<Rightarrow> vfs_stat_t \<Rightarrow> 's \<Rightarrow> (int \<times> vfs_stat_t \<times> 's) option) option"
  op_readdir :: "(bytes \<Rightarrow> bytes \<Rightarrow> u32 \<Rightarrow> 's \<Rightarrow> (int \<times> bytes \<times> 's) option) option"
  op_unlink :: "(bytes \<Rightarrow> 's \<Rightarrow> (int \<times> 's) option) option"
  op_mkdir :: "(bytes \<Rightarrow> 's \<Rightarrow> (int \<times> 's) option) option"

record 's vfs_mount_t =
  m_prefix :: bytes
  m_ops :: "'s vfs_ops_t"
  m_active :: bool

record vfs_fd_t =
  fd_used :: bool
  fd_flags :: u32
  fd_pos :: u32
  fd_type :: u8
  fd_mount_idx :: int
  fd_data :: int
  fd_pipe_id :: int
  fd_pipe_end :: int

record 's vfs =
  fd_table :: "nat \<Rightarrow> vfs_fd_t"
  cwd :: bytes
  mounts :: "nat \<Rightarrow> 's vfs_mount_t"
  num_mounts :: nat
  pps :: pipes

section \<open>The mount table\<close>

definition strip_prefix :: "bytes \<Rightarrow> bytes \<Rightarrow> bytes option option" where
  "strip_prefix path pfx = do {
     plen \<leftarrow> kstrlen pfx;
     c \<leftarrow> kstrncmp path pfx plen;
     if c = 0 then (case drop plen path of [] \<Rightarrow> None | r # rs \<Rightarrow> Some (Some (if r = 47 then rs else r # rs)))
     else Some None }"

text \<open>The best match so far is an index and its length.\<close>

fun best_mount :: "'s vfs \<Rightarrow> bytes \<Rightarrow> nat list \<Rightarrow> (nat \<times> nat) option \<Rightarrow> (nat \<times> nat) option option" where
  "best_mount v path [] best = Some best"
| "best_mount v path (i # is) best =
     (if \<not> m_active (mounts v i) then best_mount v path is best
      else do {
        plen \<leftarrow> kstrlen (m_prefix (mounts v i));
        c \<leftarrow> kstrncmp path (m_prefix (mounts v i)) plen;
        best_mount v path is (if c = 0 \<and> plen > (case best of None \<Rightarrow> 0 | Some (_, l) \<Rightarrow> l) then Some (i, plen) else best) })"

definition find_mount :: "'s vfs \<Rightarrow> bytes \<Rightarrow> (nat \<times> bytes) option option" where
  "find_mount v path = do {
     best \<leftarrow> best_mount v path [0..<num_mounts v] None;
     case best of
       None \<Rightarrow> Some None
     | Some (i, l) \<Rightarrow> (case drop l path of [] \<Rightarrow> None | r # rs \<Rightarrow> Some (Some (i, if r = 47 then rs else r # rs))) }"

definition vfs_mount :: "bytes \<Rightarrow> 's vfs_ops_t \<Rightarrow> 's vfs \<Rightarrow> (int \<times> 's vfs) option" where
  "vfs_mount pfx ops v =
     (if num_mounts v \<ge> VFS_MAX_MOUNTS then Some (-1, v)
      else do {
        p \<leftarrow> kstrcpy (m_prefix (mounts v (num_mounts v))) pfx;
        Some (0, v\<lparr>mounts := (mounts v)(num_mounts v := \<lparr>m_prefix = p, m_ops = ops, m_active = True\<rparr>),
                   num_mounts := num_mounts v + 1\<rparr>) })"

section \<open>The file systems\<close>

record mem_open_t =
  mo_f :: nat
  mo_pos :: u32
  mo_used :: bool

record disk_open_t =
  do_name :: bytes
  do_buf :: bytes
  do_size :: u32
  do_pos :: u32
  do_writable :: bool
  do_used :: bool

text \<open>What the three file systems work on: the RAM files, the volume on its disk, and the console.\<close>

record ('d, 'w) backend =
  b_ram :: ramfs
  b_mem_open :: "nat \<Rightarrow> mem_open_t"
  b_fat :: fat12
  b_disk :: 'd
  b_disk_open :: "nat \<Rightarrow> disk_open_t"
  b_vga :: vga
  b_kb :: kb
  b_world :: 'w

subsection \<open>Files in memory\<close>

definition mem_vfs_open :: "bytes \<Rightarrow> u32 \<Rightarrow> ('d, 'w) backend \<Rightarrow> (int \<times> ('d, 'w) backend) option" where
  "mem_vfs_open path flags b = do {
     f0 \<leftarrow> fs_find (b_ram b) path;
     (f, b1) \<leftarrow> (case f0 of
         Some i \<Rightarrow> Some (Some i, b)
       | None \<Rightarrow>
           if tst flags O_CREAT
           then do {
             (r, fs1) \<leftarrow> fs_create path [0] 0 (b_ram b);
             if r < 0 then Some (None, b\<lparr>b_ram := fs1\<rparr>)
             else do { f1 \<leftarrow> fs_find fs1 path; Some (f1, b\<lparr>b_ram := fs1\<rparr>) } }
           else Some (None, b));
     case f of
       None \<Rightarrow> Some (-1, b1)
     | Some i \<Rightarrow> do {
         fs2 \<leftarrow> (if tst flags O_TRUNC then map_option snd (fs_write path [0] (b_ram b1)) else Some (b_ram b1));
         let b2 = b1\<lparr>b_ram := fs2\<rparr>;
         (case first_idx (\<lambda>k. \<not> mo_used (b_mem_open b2 k)) 0 MEM_MAX_OPEN of
            None \<Rightarrow> Some (-1, b2)
          | Some k \<Rightarrow> Some (int k, b2\<lparr>b_mem_open := (b_mem_open b2)(k :=
              \<lparr>mo_f = i, mo_pos = (if tst flags O_APPEND then of_nat (f_size (files fs2 i)) else 0), mo_used = True\<rparr>)\<rparr>)) } }"

definition mem_vfs_close :: "int \<Rightarrow> ('d, 'w) backend \<Rightarrow> (int \<times> ('d, 'w) backend) option" where
  "mem_vfs_close d b =
     Some (0, if d \<ge> 0 \<and> d < int MEM_MAX_OPEN
              then b\<lparr>b_mem_open := (b_mem_open b)(nat d := (b_mem_open b (nat d))\<lparr>mo_used := False\<rparr>)\<rparr> else b)"

definition mem_bad :: "int \<Rightarrow> ('d, 'w) backend \<Rightarrow> bool" where
  "mem_bad d b \<longleftrightarrow> d < 0 \<or> d \<ge> int MEM_MAX_OPEN \<or> \<not> mo_used (b_mem_open b (nat d))"

definition mem_vfs_read :: "int \<Rightarrow> bytes \<Rightarrow> u32 \<Rightarrow> ('d, 'w) backend \<Rightarrow> (int \<times> bytes \<times> ('d, 'w) backend) option" where
  "mem_vfs_read d buf len b =
     (if mem_bad d b then Some (-1, buf, b)
      else let m = b_mem_open b (nat d); f = files (b_ram b) (mo_f m); avail = of_nat (f_size f) - mo_pos m;
               len1 = (if len > avail then avail else len)
        in do {
          x \<leftarrow> slice (f_data f) (unat (mo_pos m)) (unat len1);
          buf1 \<leftarrow> blit buf 0 x;
          Some (sint len1, buf1, b\<lparr>b_mem_open := (b_mem_open b)(nat d := m\<lparr>mo_pos := mo_pos m + len1\<rparr>)\<rparr>) })"

definition mem_vfs_write :: "int \<Rightarrow> bytes \<Rightarrow> u32 \<Rightarrow> ('d, 'w) backend \<Rightarrow> (int \<times> ('d, 'w) backend) option" where
  "mem_vfs_write d buf len b =
     (if mem_bad d b then Some (-1, b)
      else let m = b_mem_open b (nat d); f = files (b_ram b) (mo_f m);
               keep = (if mo_pos m < of_nat (f_size f) then mo_pos m else of_nat (f_size f))
        in do {
          x \<leftarrow> slice (f_data f) 0 (unat keep);
          tmp \<leftarrow> blit (replicate 4096 0) 0 x;
          if keep + len < 4096 - 1
          then do {
            y \<leftarrow> slice buf 0 (unat len);
            tmp1 \<leftarrow> blit tmp (unat keep) y;
            tmp2 \<leftarrow> blit tmp1 (unat (keep + len)) [0];
            (_, fs1) \<leftarrow> fs_write (f_name f) tmp2 (b_ram b);
            Some (sint len, b\<lparr>b_ram := fs1, b_mem_open := (b_mem_open b)(nat d := m\<lparr>mo_pos := mo_pos m + len\<rparr>)\<rparr>) }
          else Some (sint len, b) })"

definition mem_vfs_stat :: "bytes \<Rightarrow> vfs_stat_t \<Rightarrow> ('d, 'w) backend \<Rightarrow> (int \<times> vfs_stat_t \<times> ('d, 'w) backend) option" where
  "mem_vfs_stat path st b = do {
     f \<leftarrow> fs_find (b_ram b) path;
     case f of
       None \<Rightarrow> Some (-1, st, b)
     | Some i \<Rightarrow> do {
         nm \<leftarrow> kstrcpy (st_name st) (f_name (files (b_ram b) i));
         Some (0, \<lparr>st_size = of_nat (f_size (files (b_ram b) i)), st_type = VFS_FILE, st_name = nm\<rparr>, b) } }"

definition mem_vfs_readdir :: "bytes \<Rightarrow> bytes \<Rightarrow> u32 \<Rightarrow> ('d, 'w) backend \<Rightarrow> (int \<times> bytes \<times> ('d, 'w) backend) option" where
  "mem_vfs_readdir path buf sz b = do { buf1 \<leftarrow> blit buf 0 [0]; Some (0, buf1, b) }"

definition mem_vfs_unlink :: "bytes \<Rightarrow> ('d, 'w) backend \<Rightarrow> (int \<times> ('d, 'w) backend) option" where
  "mem_vfs_unlink path b = do { (r, fs1) \<leftarrow> fs_delete path (b_ram b); Some (r, b\<lparr>b_ram := fs1\<rparr>) }"

definition mem_ops :: "('d, 'w) backend vfs_ops_t" where
  "mem_ops = \<lparr>op_open = Some mem_vfs_open, op_close = Some mem_vfs_close, op_read = Some mem_vfs_read, op_write = Some mem_vfs_write,
     op_stat = Some mem_vfs_stat, op_readdir = Some mem_vfs_readdir, op_unlink = Some mem_vfs_unlink, op_mkdir = None\<rparr>"

subsection \<open>Files on the disk\<close>

text \<open>The upper-case copy of a path, at most 63 characters.\<close>

definition disk_upper :: "bytes \<Rightarrow> bytes option" where
  "disk_upper path = do { (u, _) \<leftarrow> copy_83 (\<lambda>_. False) 63 path; Some (u @ [0]) }"

definition disk_slot :: "bytes \<Rightarrow> u32 \<Rightarrow> nat \<Rightarrow> int \<Rightarrow> bytes \<Rightarrow> ('d, 'w) backend \<Rightarrow> (int \<times> ('d, 'w) backend) option" where
  "disk_slot up flags s n buf b = do {
     let o0 = b_disk_open b s;
     nm \<leftarrow> kstrcpy (do_name o0) up;
     let size1 = (if tst flags O_TRUNC then 0 else of_int n);
     let pos1 = (if tst flags O_TRUNC then 0 else if tst flags O_APPEND then of_int n else 0);
     Some (int s, b\<lparr>b_disk_open := (b_disk_open b)(s := \<lparr>do_name = nm, do_buf = buf, do_size = size1, do_pos = pos1,
        do_writable = tst flags (O_WRONLY OR O_RDWR OR O_CREAT), do_used = True\<rparr>)\<rparr>) }"

definition disk_vfs_open :: "'d dev \<Rightarrow> bytes \<Rightarrow> u32 \<Rightarrow> ('d, 'w) backend \<Rightarrow> (int \<times> ('d, 'w) backend) option" where
  "disk_vfs_open dv path flags b =
     (if \<not> fat12_mounted (b_fat b) then Some (-1, b)
      else do {
        up \<leftarrow> disk_upper path;
        case first_idx (\<lambda>s. \<not> do_used (b_disk_open b s)) 0 DISK_MAX_OPEN of
          None \<Rightarrow> Some (-1, b)
        | Some s \<Rightarrow> do {
            (n, buf, d1) \<leftarrow> fat12_read dv (b_fat b) up (do_buf (b_disk_open b s)) (of_nat DISK_BUF_SIZE) (b_disk b);
            let b1 = b\<lparr>b_disk := d1, b_disk_open := (b_disk_open b)(s := (b_disk_open b s)\<lparr>do_buf := buf\<rparr>)\<rparr>;
            if n < 0
            then if tst flags O_CREAT
                 then do {
                   (_, fat1, d2) \<leftarrow> fat12_write dv (b_fat b1) up [0] 0 (b_disk b1);
                   disk_slot up flags s 0 buf (b1\<lparr>b_fat := fat1, b_disk := d2\<rparr>) }
                 else Some (-1, b1)
            else disk_slot up flags s n buf b1 } })"

definition disk_bad :: "int \<Rightarrow> ('d, 'w) backend \<Rightarrow> bool" where
  "disk_bad d b \<longleftrightarrow> d < 0 \<or> d \<ge> int DISK_MAX_OPEN \<or> \<not> do_used (b_disk_open b (nat d))"

definition disk_vfs_close :: "'d dev \<Rightarrow> int \<Rightarrow> ('d, 'w) backend \<Rightarrow> (int \<times> ('d, 'w) backend) option" where
  "disk_vfs_close dv d b =
     (if disk_bad d b then Some (-1, b)
      else do {
        let f = b_disk_open b (nat d);
        b1 \<leftarrow> (if do_writable f \<and> do_size f > 0
               then do {
                 (_, fat1, d1) \<leftarrow> fat12_write dv (b_fat b) (do_name f) (do_buf f) (do_size f) (b_disk b);
                 Some (b\<lparr>b_fat := fat1, b_disk := d1\<rparr>) }
               else Some b);
        Some (0, b1\<lparr>b_disk_open := (b_disk_open b1)(nat d := f\<lparr>do_used := False\<rparr>)\<rparr>) })"

definition disk_vfs_read :: "int \<Rightarrow> bytes \<Rightarrow> u32 \<Rightarrow> ('d, 'w) backend \<Rightarrow> (int \<times> bytes \<times> ('d, 'w) backend) option" where
  "disk_vfs_read d buf len b =
     (if disk_bad d b then Some (-1, buf, b)
      else let f = b_disk_open b (nat d); avail = do_size f - do_pos f; len1 = (if len > avail then avail else len)
        in do {
          x \<leftarrow> slice (do_buf f) (unat (do_pos f)) (unat len1);
          buf1 \<leftarrow> blit buf 0 x;
          Some (sint len1, buf1, b\<lparr>b_disk_open := (b_disk_open b)(nat d := f\<lparr>do_pos := do_pos f + len1\<rparr>)\<rparr>) })"

definition disk_vfs_write :: "int \<Rightarrow> bytes \<Rightarrow> u32 \<Rightarrow> ('d, 'w) backend \<Rightarrow> (int \<times> ('d, 'w) backend) option" where
  "disk_vfs_write d buf len b =
     (if disk_bad d b then Some (-1, b)
      else let f = b_disk_open b (nat d);
               len1 = (if do_pos f + len \<ge> of_nat DISK_BUF_SIZE then of_nat DISK_BUF_SIZE - do_pos f - 1 else len);
               pos1 = do_pos f + len1
        in do {
          x \<leftarrow> slice buf 0 (unat len1);
          buf1 \<leftarrow> blit (do_buf f) (unat (do_pos f)) x;
          Some (sint len1, b\<lparr>b_disk_open := (b_disk_open b)(nat d := f\<lparr>do_buf := buf1, do_pos := pos1,
             do_size := (if pos1 > do_size f then pos1 else do_size f)\<rparr>)\<rparr>) })"

definition entry_zero :: fat12_entry_t where
  "entry_zero = \<lparr>fe_name = replicate 13 0, fe_size = 0, fe_start_cluster = 0, fe_attr = 0, fe_is_dir = False\<rparr>"

definition disk_vfs_stat :: "'d dev \<Rightarrow> bytes \<Rightarrow> vfs_stat_t \<Rightarrow> ('d, 'w) backend \<Rightarrow> (int \<times> vfs_stat_t \<times> ('d, 'w) backend) option" where
  "disk_vfs_stat dv path st b =
     (if \<not> fat12_mounted (b_fat b) then Some (-1, st, b)
      else do {
        up \<leftarrow> disk_upper path;
        (n, es, d1) \<leftarrow> fat12_list dv (b_fat b) (replicate 64 entry_zero) 64 (b_disk b);
        let b1 = b\<lparr>b_disk := d1\<rparr>;
        j \<leftarrow> scan (\<lambda>j. map_option (\<lambda>r. r = 0) (kstrcmp (fe_name (es ! j)) up)) 0 (nat n);
        case j of
          None \<Rightarrow> Some (-1, st, b1)
        | Some j \<Rightarrow> do {
            nm \<leftarrow> kstrcpy (st_name st) (fe_name (es ! j));
            Some (0, \<lparr>st_size = fe_size (es ! j), st_type = VFS_FILE, st_name = nm\<rparr>, b1) } })"

fun readdir_loop :: "fat12_entry_t list \<Rightarrow> bytes \<Rightarrow> u32 \<Rightarrow> nat \<Rightarrow> (bytes \<times> nat) option" where
  "readdir_loop [] buf sz pos = Some (buf, pos)"
| "readdir_loop (e # es) buf sz pos =
     (if \<not> of_nat pos + 20 < sz then Some (buf, pos)
      else do {
        r \<leftarrow> kstrcpy (drop pos buf) (fe_name e);
        n \<leftarrow> kstrlen (fe_name e);
        buf1 \<leftarrow> blit (take pos buf @ r) (pos + n) [10];
        readdir_loop es buf1 sz (pos + n + 1) })"

definition disk_vfs_readdir :: "'d dev \<Rightarrow> bytes \<Rightarrow> bytes \<Rightarrow> u32 \<Rightarrow> ('d, 'w) backend \<Rightarrow> (int \<times> bytes \<times> ('d, 'w) backend) option" where
  "disk_vfs_readdir dv path buf sz b =
     (if \<not> fat12_mounted (b_fat b) then Some (0, buf, b)
      else do {
        (n, es, d1) \<leftarrow> fat12_list dv (b_fat b) (replicate 64 entry_zero) 64 (b_disk b);
        (buf1, pos) \<leftarrow> readdir_loop (take (nat n) es) buf sz 0;
        buf2 \<leftarrow> blit buf1 pos [0];
        Some (c_int pos, buf2, b\<lparr>b_disk := d1\<rparr>) })"

definition disk_vfs_unlink :: "'d dev \<Rightarrow> bytes \<Rightarrow> ('d, 'w) backend \<Rightarrow> (int \<times> ('d, 'w) backend) option" where
  "disk_vfs_unlink dv path b = do {
     up \<leftarrow> disk_upper path;
     (r, fat1, d1) \<leftarrow> fat12_delete dv (b_fat b) up (b_disk b);
     Some (r, b\<lparr>b_fat := fat1, b_disk := d1\<rparr>) }"

definition disk_ops :: "'d dev \<Rightarrow> ('d, 'w) backend vfs_ops_t" where
  "disk_ops dv = \<lparr>op_open = Some (disk_vfs_open dv), op_close = Some (disk_vfs_close dv), op_read = Some disk_vfs_read,
     op_write = Some disk_vfs_write, op_stat = Some (disk_vfs_stat dv), op_readdir = Some (disk_vfs_readdir dv),
     op_unlink = Some (disk_vfs_unlink dv), op_mkdir = None\<rparr>"

subsection \<open>Devices\<close>

fun dev_lookup :: "bytes \<Rightarrow> (string \<times> int) list \<Rightarrow> int option" where
  "dev_lookup path [] = Some (-1)"
| "dev_lookup path ((nm, d) # r) = do { c \<leftarrow> kstrcmp path (lit nm); if c = 0 then Some d else dev_lookup path r }"

definition dev_vfs_open :: "bytes \<Rightarrow> u32 \<Rightarrow> ('d, 'w) backend \<Rightarrow> (int \<times> ('d, 'w) backend) option" where
  "dev_vfs_open path flags b = do {
     d \<leftarrow> dev_lookup path [(''stdin'', 0), (''tty'', 0), (''stdout'', 1), (''stderr'', 2), (''null'', 3)];
     Some (d, b) }"

definition dev_vfs_close :: "int \<Rightarrow> ('d, 'w) backend \<Rightarrow> (int \<times> ('d, 'w) backend) option" where
  "dev_vfs_close d b = Some (0, b)"

definition dev_vfs_read :: "'w ports \<Rightarrow> int \<Rightarrow> bytes \<Rightarrow> u32 \<Rightarrow> ('d, 'w) backend \<Rightarrow> (int \<times> bytes \<times> ('d, 'w) backend) option" where
  "dev_vfs_read io d buf len b =
     (if d = 0 then do {
        (n, buf1, v1, k1, w1) \<leftarrow> keyboard_getline io buf (sint len) (b_vga b) (b_kb b, b_world b);
        Some (n, buf1, b\<lparr>b_vga := v1, b_kb := k1, b_world := w1\<rparr>) }
      else if d = 3 then Some (0, buf, b)
      else Some (-1, buf, b))"

definition dev_vfs_write :: "int \<Rightarrow> bytes \<Rightarrow> u32 \<Rightarrow> ('d, 'w) backend \<Rightarrow> (int \<times> ('d, 'w) backend) option" where
  "dev_vfs_write d buf len b =
     (if d = 1 \<or> d = 2 then do {
        s \<leftarrow> slice buf 0 (unat len);
        Some (sint len, b\<lparr>b_vga := fold vga_putchar s (b_vga b)\<rparr>) }
      else if d = 3 then Some (sint len, b)
      else Some (-1, b))"

definition dev_vfs_stat :: "bytes \<Rightarrow> vfs_stat_t \<Rightarrow> ('d, 'w) backend \<Rightarrow> (int \<times> vfs_stat_t \<times> ('d, 'w) backend) option" where
  "dev_vfs_stat path st b = do {
     nm \<leftarrow> kstrcpy (st_name st) path;
     Some (0, \<lparr>st_size = 0, st_type = VFS_DEV, st_name = nm\<rparr>, b) }"

definition dev_ops :: "'w ports \<Rightarrow> ('d, 'w) backend vfs_ops_t" where
  "dev_ops io = \<lparr>op_open = Some dev_vfs_open, op_close = Some dev_vfs_close, op_read = Some (dev_vfs_read io),
     op_write = Some dev_vfs_write, op_stat = Some dev_vfs_stat, op_readdir = None, op_unlink = None, op_mkdir = None\<rparr>"

section \<open>Initialisation\<close>

definition fd_zero :: vfs_fd_t where
  "fd_zero = \<lparr>fd_used = False, fd_flags = 0, fd_pos = 0, fd_type = 0, fd_mount_idx = 0, fd_data = 0, fd_pipe_id = 0, fd_pipe_end = 0\<rparr>"

definition ops_zero :: "'s vfs_ops_t" where
  "ops_zero = \<lparr>op_open = None, op_close = None, op_read = None, op_write = None, op_stat = None, op_readdir = None, op_unlink = None, op_mkdir = None\<rparr>"

definition mount_zero :: "'s vfs_mount_t" where
  "mount_zero = \<lparr>m_prefix = replicate 32 0, m_ops = ops_zero, m_active = False\<rparr>"

definition mem_zero :: mem_open_t where "mem_zero = \<lparr>mo_f = 0, mo_pos = 0, mo_used = False\<rparr>"

definition disk_zero :: disk_open_t where
  "disk_zero = \<lparr>do_name = replicate 64 0, do_buf = replicate DISK_BUF_SIZE 0, do_size = 0, do_pos = 0, do_writable = False, do_used = False\<rparr>"

definition vfs_init :: "'d dev \<Rightarrow> 'w ports \<Rightarrow> ('d, 'w) backend vfs \<Rightarrow> ('d, 'w) backend \<Rightarrow> (('d, 'w) backend vfs \<times> ('d, 'w) backend) option" where
  "vfs_init dv io v b = do {
     let v0 = v\<lparr>fd_table := (\<lambda>_. fd_zero), mounts := (\<lambda>_. mount_zero), num_mounts := 0, pps := pipe_init\<rparr>;
     (_, v1) \<leftarrow> vfs_mount (lit ''/mem'') mem_ops v0;
     (_, v2) \<leftarrow> vfs_mount (lit ''/disk'') (disk_ops dv) v1;
     (_, v3) \<leftarrow> vfs_mount (lit ''/dev'') (dev_ops io) v2;
     Some (v3, b\<lparr>b_mem_open := (\<lambda>_. mem_zero), b_disk_open := (\<lambda>_. disk_zero)\<rparr>) }"

definition mount_index :: "(nat \<times> bytes) option \<Rightarrow> int" where
  "mount_index m = (case m of None \<Rightarrow> -1 | Some (i, _) \<Rightarrow> int i)"

definition vfs_init_stdio :: "'s vfs \<Rightarrow> 's vfs option" where
  "vfs_init_stdio v = do {
     m \<leftarrow> find_mount v (lit ''/dev'');
     Some (v\<lparr>fd_table := (\<lambda>i. if i < 3 then (fd_table v i)\<lparr>fd_used := True, fd_type := VFS_DEV, fd_mount_idx := mount_index m,
         fd_data := int i, fd_flags := (if i = 0 then O_RDONLY else O_WRONLY)\<rparr> else fd_table v i)\<rparr>) }"

section \<open>Descriptors\<close>

definition alloc_fd :: "'s vfs \<Rightarrow> nat option" where
  "alloc_fd v = first_idx (\<lambda>i. \<not> fd_used (fd_table v i)) 3 VFS_MAX_FD"

text \<open>Absolute paths are copied, others are put under a directory.\<close>

definition resolve :: "bytes \<Rightarrow> bytes \<Rightarrow> bytes option" where
  "resolve dir path =
     (case path of
        [] \<Rightarrow> None
      | c # _ \<Rightarrow>
          if c = 47 then kstrcpy (replicate VFS_MAX_PATH 0) path
          else do { r \<leftarrow> kstrcpy (replicate VFS_MAX_PATH 0) dir; kstrcat r path })"

definition stat_zero :: vfs_stat_t where
  "stat_zero = \<lparr>st_size = 0, st_type = 0, st_name = replicate VFS_NAME_MAX 0\<rparr>"

text \<open>The probe of a mount: the result of \<^verbatim>\<open>stat\<close>, or \<open>None\<close> without one.\<close>

definition probe :: "'s vfs \<Rightarrow> nat \<times> bytes \<Rightarrow> 's \<Rightarrow> (int option \<times> 's) option" where
  "probe v m s =
     (case op_stat (m_ops (mounts v (fst m))) of
        None \<Rightarrow> Some (None, s)
      | Some f \<Rightarrow> do { (r, _, s1) \<leftarrow> f (snd m) stat_zero s; Some (Some r, s1) })"

text \<open>
  The search under \<^verbatim>\<open>/mem\<close>: it takes over when the file is there; when it is not, the old mount stays, but
  \<^verbatim>\<open>local\<close> has been overwritten.
\<close>

definition mem_fallback :: "'s vfs \<Rightarrow> bytes \<Rightarrow> (nat \<times> bytes) option \<Rightarrow> 's \<Rightarrow> ((nat \<times> bytes) option \<times> 's) option" where
  "mem_fallback v path m s = do {
     mp \<leftarrow> kstrcat (lit ''/mem/'' @ replicate (VFS_MAX_PATH - 6) 0) (if hd path = 47 then tl path else path);
     m2 \<leftarrow> find_mount v mp;
     case m2 of
       None \<Rightarrow> Some (m, s)
     | Some (i2, loc2) \<Rightarrow> do {
         (r, s1) \<leftarrow> probe v (i2, loc2) s;
         if r = Some 0 then Some (Some (i2, loc2), s1)
         else Some (map_option (\<lambda>(i, _). (i, loc2)) m, s1) } }"

definition vfs_lookup :: "'s vfs \<Rightarrow> bytes \<Rightarrow> u32 \<Rightarrow> 's \<Rightarrow> ((nat \<times> bytes) option \<times> 's) option" where
  "vfs_lookup v path flags s = do {
     resolved \<leftarrow> resolve (lit ''/disk/'') path;
     m \<leftarrow> find_mount v resolved;
     case m of
       None \<Rightarrow> mem_fallback v path None s
     | Some il \<Rightarrow> do {
         (r, s1) \<leftarrow> probe v il s;
         if (case r of None \<Rightarrow> False | Some n \<Rightarrow> n < 0) \<and> \<not> tst flags O_CREAT then mem_fallback v path m s1 else Some (m, s1) } }"

definition vfs_open :: "bytes \<Rightarrow> u32 \<Rightarrow> 's vfs \<Rightarrow> 's \<Rightarrow> (int \<times> 's vfs \<times> 's) option" where
  "vfs_open path flags v s = do {
     (m, s1) \<leftarrow> vfs_lookup v path flags s;
     case m of
       None \<Rightarrow> Some (-1, v, s1)
     | Some (midx, loc) \<Rightarrow>
         (case op_open (m_ops (mounts v midx)) of
            None \<Rightarrow> Some (-1, v, s1)
          | Some f \<Rightarrow> do {
              (data, s2) \<leftarrow> f loc flags s1;
              if data < 0 then Some (-1, v, s2)
              else case alloc_fd v of
                None \<Rightarrow> do { cl \<leftarrow> op_close (m_ops (mounts v midx)); (_, s3) \<leftarrow> cl data s2; Some (-1, v, s3) }
              | Some fd \<Rightarrow> Some (int fd, v\<lparr>fd_table := (fd_table v)(fd := (fd_table v fd)\<lparr>fd_used := True, fd_flags := flags, fd_pos := 0,
                    fd_type := VFS_FILE, fd_mount_idx := int midx, fd_data := data, fd_pipe_id := -1\<rparr>)\<rparr>, s2) }) }"

definition fd_bad :: "int \<Rightarrow> 's vfs \<Rightarrow> bool" where
  "fd_bad fd v \<longleftrightarrow> fd < 0 \<or> fd \<ge> int VFS_MAX_FD \<or> \<not> fd_used (fd_table v (nat fd))"

definition fd_clear :: "int \<Rightarrow> 's vfs \<Rightarrow> 's vfs" where
  "fd_clear fd v = v\<lparr>fd_table := (fd_table v)(nat fd := (fd_table v (nat fd))\<lparr>fd_used := False\<rparr>)\<rparr>"

definition vfs_close :: "int \<Rightarrow> 's vfs \<Rightarrow> 's \<Rightarrow> (int \<times> 's vfs \<times> 's) option" where
  "vfs_close fd v s =
     (if fd_bad fd v then Some (-1, v, s)
      else let e = fd_table v (nat fd) in
        if fd_type e = VFS_PIPE
        then Some (0, fd_clear fd (v\<lparr>pps := (if fd_pipe_end e = 0 then pipe_close_read (fd_pipe_id e) (pps v)
                                              else pipe_close_write (fd_pipe_id e) (pps v))\<rparr>), s)
        else case (if fd_mount_idx e \<ge> 0 then op_close (m_ops (mounts v (nat (fd_mount_idx e)))) else None) of
               None \<Rightarrow> Some (0, fd_clear fd v, s)
             | Some f \<Rightarrow> do { (_, s1) \<leftarrow> f (fd_data e) s; Some (0, fd_clear fd v, s1) })"

definition fd_advance :: "int \<Rightarrow> int \<Rightarrow> 's vfs \<Rightarrow> 's vfs" where
  "fd_advance fd n v = (if n > 0 then v\<lparr>fd_table := (fd_table v)(nat fd := (fd_table v (nat fd))\<lparr>fd_pos := fd_pos (fd_table v (nat fd)) + of_int n\<rparr>)\<rparr> else v)"

text \<open>A read or write of a pipe may have to wait: the result then is the one of the pipe.\<close>

definition vfs_read :: "int \<Rightarrow> bytes \<Rightarrow> u32 \<Rightarrow> 's vfs \<Rightarrow> 's \<Rightarrow> (rresult \<times> 's vfs \<times> 's) option" where
  "vfs_read fd buf len v s =
     (if fd_bad fd v then Some (RRet (-1) buf, v, s)
      else let e = fd_table v (nat fd) in
        if fd_type e = VFS_PIPE
        then (case pipe_read (pps v) (fd_pipe_id e) (unat len) of
                (ps, RRet n x) \<Rightarrow> do { buf1 \<leftarrow> blit buf 0 x; Some (RRet n buf1, v\<lparr>pps := ps\<rparr>, s) }
              | (ps, RYield n x) \<Rightarrow> do { buf1 \<leftarrow> blit buf 0 x; Some (RYield n buf1, v\<lparr>pps := ps\<rparr>, s) })
        else case (if fd_mount_idx e < 0 then None else op_read (m_ops (mounts v (nat (fd_mount_idx e))))) of
               None \<Rightarrow> Some (RRet (-1) buf, v, s)
             | Some f \<Rightarrow> do { (n, buf1, s1) \<leftarrow> f (fd_data e) buf len s; Some (RRet n buf1, fd_advance fd n v, s1) })"

definition vfs_write :: "int \<Rightarrow> bytes \<Rightarrow> u32 \<Rightarrow> 's vfs \<Rightarrow> 's \<Rightarrow> (wresult \<times> 's vfs \<times> 's) option" where
  "vfs_write fd buf len v s =
     (if fd_bad fd v then Some (WRet (-1), v, s)
      else let e = fd_table v (nat fd) in
        if fd_type e = VFS_PIPE
        then do {
          x \<leftarrow> slice buf 0 (unat len);
          (case pipe_write (pps v) (fd_pipe_id e) x of (ps, r) \<Rightarrow> Some (r, v\<lparr>pps := ps\<rparr>, s)) }
        else case (if fd_mount_idx e < 0 then None else op_write (m_ops (mounts v (nat (fd_mount_idx e))))) of
               None \<Rightarrow> Some (WRet (-1), v, s)
             | Some f \<Rightarrow> do { (n, s1) \<leftarrow> f (fd_data e) buf len s; Some (WRet n, fd_advance fd n v, s1) })"

definition vfs_stat :: "bytes \<Rightarrow> vfs_stat_t \<Rightarrow> 's vfs \<Rightarrow> 's \<Rightarrow> (int \<times> vfs_stat_t \<times> 's) option" where
  "vfs_stat path st v s = do {
     resolved \<leftarrow> resolve (lit ''/disk/'') path;
     m \<leftarrow> find_mount v resolved;
     case m of
       None \<Rightarrow> Some (-1, st, s)
     | Some (i, loc) \<Rightarrow> (case op_stat (m_ops (mounts v i)) of None \<Rightarrow> Some (-1, st, s) | Some f \<Rightarrow> f loc st s) }"

definition vfs_readdir :: "bytes \<Rightarrow> bytes \<Rightarrow> u32 \<Rightarrow> 's vfs \<Rightarrow> 's \<Rightarrow> (int \<times> bytes \<times> 's) option" where
  "vfs_readdir path buf sz v s = do {
     dir \<leftarrow> (if hd path = 47 then Some [0] else do { r \<leftarrow> kstrcpy (replicate VFS_MAX_PATH 0) (cwd v); kstrcat r (lit ''/'') });
     resolved \<leftarrow> resolve dir path;
     m \<leftarrow> find_mount v resolved;
     case (case m of None \<Rightarrow> None | Some (i, loc) \<Rightarrow> map_option (\<lambda>f. (f, loc)) (op_readdir (m_ops (mounts v i)))) of
       None \<Rightarrow> do { buf1 \<leftarrow> blit buf 0 [0]; Some (0, buf1, s) }
     | Some (f, loc) \<Rightarrow> f loc buf sz s }"

definition vfs_unlink :: "bytes \<Rightarrow> 's vfs \<Rightarrow> 's \<Rightarrow> (int \<times> 's) option" where
  "vfs_unlink path v s = do {
     resolved \<leftarrow> resolve (lit ''/disk/'') path;
     m \<leftarrow> find_mount v resolved;
     case m of
       None \<Rightarrow> Some (-1, s)
     | Some (i, loc) \<Rightarrow> (case op_unlink (m_ops (mounts v i)) of None \<Rightarrow> Some (-1, s) | Some f \<Rightarrow> f loc s) }"

definition vfs_getcwd :: "bytes \<Rightarrow> u32 \<Rightarrow> 's vfs \<Rightarrow> (int \<times> bytes) option" where
  "vfs_getcwd buf sz v = do {
     b1 \<leftarrow> kstrncpy buf (cwd v) (unat (sz - 1));
     b2 \<leftarrow> blit b1 (unat (sz - 1)) [0];
     n \<leftarrow> kstrlen b2;
     Some (c_int n, b2) }"

definition vfs_chdir :: "bytes \<Rightarrow> 's vfs \<Rightarrow> (int \<times> 's vfs) option" where
  "vfs_chdir path v =
     (case path of
        [] \<Rightarrow> None
      | c # _ \<Rightarrow> do {
          c1 \<leftarrow> (if c = 47 then kstrncpy (cwd v) path (VFS_MAX_PATH - 1) else do { r \<leftarrow> kstrcat (cwd v) (lit ''/''); kstrcat r path });
          Some (0, v\<lparr>cwd := c1\<rparr>) })"

definition pipe_fd :: "int \<Rightarrow> int \<Rightarrow> u32 \<Rightarrow> vfs_fd_t \<Rightarrow> vfs_fd_t" where
  "pipe_fd pid pend flags e =
     e\<lparr>fd_used := True, fd_type := VFS_PIPE, fd_pipe_id := pid, fd_pipe_end := pend, fd_mount_idx := -1, fd_flags := flags\<rparr>"

definition vfs_pipe :: "'s vfs \<Rightarrow> int \<times> (nat \<times> nat) option \<times> 's vfs" where
  "vfs_pipe v =
     (let (pid, ps) = pipe_create (pps v) in
      if pid < 0 then (-1, None, v\<lparr>pps := ps\<rparr>)
      else case alloc_fd v of
        None \<Rightarrow> (-1, None, v\<lparr>pps := pipe_close_write pid (pipe_close_read pid ps)\<rparr>)
      | Some r \<Rightarrow>
          (case alloc_fd v of
             None \<Rightarrow> (-1, None, fd_clear (int r) (v\<lparr>pps := pipe_close_write pid (pipe_close_read pid ps)\<rparr>))
           | Some w \<Rightarrow>
               let t1 = (fd_table v)(r := pipe_fd pid 0 O_RDONLY (fd_table v r));
                   t2 = t1(w := pipe_fd pid 1 O_WRONLY (t1 w))
               in (0, Some (r, w), v\<lparr>fd_table := t2, pps := ps\<rparr>)))"

definition vfs_dup2 :: "int \<Rightarrow> int \<Rightarrow> 's vfs \<Rightarrow> 's \<Rightarrow> (int \<times> 's vfs \<times> 's) option" where
  "vfs_dup2 oldfd newfd v s =
     (if fd_bad oldfd v \<or> newfd < 0 \<or> newfd \<ge> int VFS_MAX_FD then Some (-1, v, s)
      else do {
        (_, v1, s1) \<leftarrow> (if fd_used (fd_table v (nat newfd)) then vfs_close newfd v s else Some (0, v, s));
        Some (newfd, v1\<lparr>fd_table := (fd_table v1)(nat newfd := fd_table v1 (nat oldfd))\<rparr>, s1) })"

definition vfs_isatty :: "int \<Rightarrow> 's vfs \<Rightarrow> int" where
  "vfs_isatty fd v =
     (if fd_bad fd v then 0 else if fd_type (fd_table v (nat fd)) = VFS_DEV \<and> fd_data (fd_table v (nat fd)) < 3 then 1 else 0)"

definition vfs_get_fd :: "int \<Rightarrow> 's vfs \<Rightarrow> vfs_fd_t option" where
  "vfs_get_fd fd v = (if fd_bad fd v then None else Some (fd_table v (nat fd)))"

end
