(* ===== verification/VfsProps.thy ===== *)
theory VfsProps
  imports Vfs Fat12Mount
begin

text \<open>
  The virtual file system: descriptors, the choice of the mount, and the path of a write from
  \<^verbatim>\<open>vfs_write\<close> down to the sectors of the disk.
\<close>

section \<open>Descriptors\<close>

text \<open>
  C20. \<^verbatim>\<open>vfs_open\<close>, whatever the mounted file systems do: it either fails with -1 and leaves the descriptor table as it
  is, or returns the lowest free descriptor from 3 on, marks it used with the given flags, and changes no other descriptor.
\<close>

theorem vfs_open_spec:
  assumes "vfs_open path flags v s = Some (fd, v', s')"
  shows "(fd = -1 \<and> v' = v) \<or> (\<exists>i. fd = int i \<and> 3 \<le> i \<and> i < VFS_MAX_FD \<and> \<not> fd_used (fd_table v i)
     \<and> (\<forall>j. 3 \<le> j \<longrightarrow> j < i \<longrightarrow> fd_used (fd_table v j)) \<and> (\<forall>j. j \<noteq> i \<longrightarrow> fd_table v' j = fd_table v j)
     \<and> fd_used (fd_table v' i) \<and> fd_flags (fd_table v' i) = flags \<and> fd_type (fd_table v' i) = VFS_FILE
     \<and> mounts v' = mounts v \<and> pps v' = pps v \<and> cwd v' = cwd v)"
proof -
  have "(fd = -1 \<and> v' = v) \<or> (\<exists>i m d. alloc_fd v = Some i \<and> fd = int i \<and> v' = v\<lparr>fd_table := (fd_table v)(i := (fd_table v i)\<lparr>fd_used := True,
      fd_flags := flags, fd_pos := 0, fd_type := VFS_FILE, fd_mount_idx := m, fd_data := d, fd_pipe_id := -1\<rparr>)\<rparr>)"
    using assms by (auto simp: vfs_open_def split: bind_splits option.splits if_splits prod.splits)
  then show ?thesis
  proof (elim disjE exE conjE)
    fix i m d assume i: "alloc_fd v = Some i" and r: "fd = int i" "v' = v\<lparr>fd_table := (fd_table v)(i := (fd_table v i)\<lparr>fd_used := True,
      fd_flags := flags, fd_pos := 0, fd_type := VFS_FILE, fd_mount_idx := m, fd_data := d, fd_pipe_id := -1\<rparr>)\<rparr>"
    from first_idx_SomeD [OF i [unfolded alloc_fd_def]] r show ?thesis by auto
  qed simp
qed

section \<open>Pipes\<close>

text \<open>
  C21. \<^verbatim>\<open>vfs_pipe\<close> takes the descriptor of the read end without marking it, so both ends are one and the same descriptor, a
  write end. Closing it leaves the pipe in use: every successful call costs one of the pipes for good.
\<close>

theorem vfs_pipe_leaks:
  assumes "vfs_pipe v = (0, Some (r, w), v')"
  shows "r = w \<and> fd_pipe_end (fd_table v' r) = 1
    \<and> (\<exists>i v''. i < PIPE_MAX \<and> \<not> p_used (pps v i) \<and> fd_pipe_id (fd_table v' r) = int i
        \<and> vfs_close (int r) v' s = Some (0, v'', s) \<and> p_used (pps v'' i) \<and> fd_bad (int r) v'')"
proof -
  obtain pid ps where pc: "pipe_create (pps v) = (pid, ps)" by fastforce
  from assms pc obtain fd where fd: "pid \<ge> 0" "alloc_fd v = Some fd" "r = fd" "w = fd"
    "v' = v\<lparr>fd_table := (fd_table v)(fd := pipe_fd pid 1 O_WRONLY (pipe_fd pid 0 O_RDONLY (fd_table v fd))), pps := ps\<rparr>"
    by (auto simp: vfs_pipe_def Let_def split: if_splits option.splits)
  have lt: "fd < VFS_MAX_FD" using first_idx_SomeD(2) [OF fd(2) [unfolded alloc_fd_def]] .
  from pc fd(1) obtain i where i: "first_idx (\<lambda>i. \<not> p_used (pps v i)) 0 PIPE_MAX = Some i" "pid = int i"
    by (auto simp: pipe_create_def split: option.splits)
  note I = first_idx_SomeD [OF i(1)]
  have p: "p_used (close_write_end (ps i))" using pc i by (simp add: pipe_create_def close_write_end_def split: option.splits) auto
  have "vfs_close (int r) v' s = Some (0, fd_clear (int r) (v'\<lparr>pps := pipe_close_write pid ps\<rparr>), s)"
    using lt fd by (simp add: vfs_close_def fd_bad_def pipe_fd_def Let_def)
  moreover have "p_used (pipe_close_write pid ps i)" using p i I by (simp add: pipe_close_write_def)
  moreover have "fd_bad (int r) (fd_clear (int r) (v'\<lparr>pps := pipe_close_write pid ps\<rparr>))" by (simp add: fd_bad_def fd_clear_def)
  ultimately show ?thesis using fd i I by (intro conjI exI [of _ i] exI [of _ "fd_clear (int r) (v'\<lparr>pps := pipe_close_write pid ps\<rparr>)"])
     (simp_all add: pipe_fd_def fd_clear_def)
qed

text \<open>A file system table with the devices only.\<close>

definition backend0 :: "fat12 \<Rightarrow> 'd \<Rightarrow> ('d, unit) backend" where
  "backend0 st d = \<lparr>b_ram = \<lparr>files = (\<lambda>_. fs_file_zero), file_count = 0\<rparr>, b_mem_open = (\<lambda>_. mem_zero), b_fat = st, b_disk = d,
     b_disk_open = (\<lambda>_. disk_zero), b_vga = vga0, b_kb = kb_demo, b_world = ()\<rparr>"

definition vfs0 :: "'s vfs" where
  "vfs0 = \<lparr>fd_table = (\<lambda>_. fd_zero), cwd = lit ''/disk'' @ replicate 122 0, mounts = (\<lambda>_. mount_zero), num_mounts = 0, pps = pipe_init\<rparr>"

definition dev_vfs :: "(unit, unit) backend vfs" where
  "dev_vfs = vfs0\<lparr>mounts := (\<lambda>_. \<lparr>m_prefix = lit ''/dev'', m_ops = dev_ops silent, m_active = True\<rparr>), num_mounts := 1\<rparr>"

lemma open_null: "map_option fst (vfs_open (lit ''/dev/null'') 0 dev_vfs (backend0 fat0 ())) = Some 3"
  by code_simp

theorem vfs_open_spec_witness:
  "\<exists>v' s'. vfs_open (lit ''/dev/null'') 0 dev_vfs (backend0 fat0 ()) = Some (3, v', s') \<and> fd_used (fd_table v' 3)
     \<and> (\<forall>j. j \<noteq> 3 \<longrightarrow> fd_table v' j = fd_table dev_vfs j)"
proof -
  from open_null obtain v' s' where o: "vfs_open (lit ''/dev/null'') 0 dev_vfs (backend0 fat0 ()) = Some (3, v', s')" by auto
  with vfs_open_spec [OF o] show ?thesis by auto
qed

lemma pipe0: "fst (vfs_pipe (vfs0 :: unit vfs)) = 0" "fst (snd (vfs_pipe (vfs0 :: unit vfs))) = Some (3, 3)"
  by code_simp+

theorem vfs_pipe_leaks_witness:
  "\<exists>v' v''. vfs_pipe (vfs0 :: unit vfs) = (0, Some (3, 3), v') \<and> vfs_close 3 v' () = Some (0, v'', ()) \<and> (\<exists>i<PIPE_MAX. p_used (pps v'' i))"
proof -
  obtain v' where v: "vfs_pipe (vfs0 :: unit vfs) = (0, Some (3, 3), v')" using pipe0 by (cases "vfs_pipe (vfs0 :: unit vfs)") auto
  with vfs_pipe_leaks [OF v, of "()"] show ?thesis by auto
qed

section \<open>The mount of a path\<close>

definition mplen :: "'s vfs \<Rightarrow> nat \<Rightarrow> nat" where
  "mplen v i = length (cstr (m_prefix (mounts v i)))"

definition under :: "'s vfs \<Rightarrow> bytes \<Rightarrow> nat \<Rightarrow> bool" where
  "under v path i \<longleftrightarrow> m_active (mounts v i) \<and> take (mplen v i) (cstr path) = cstr (m_prefix (mounts v i))"

definition blen :: "(nat \<times> nat) option \<Rightarrow> nat" where
  "blen b = (case b of None \<Rightarrow> 0 | Some (_, l) \<Rightarrow> l)"

lemma best_mount_ok:
  assumes "terminated path" "\<forall>i\<in>set is. terminated (m_prefix (mounts v i))"
  shows "\<exists>b. best_mount v path is best = Some b \<and> blen best \<le> blen b \<and> (\<forall>i\<in>set is. under v path i \<longrightarrow> mplen v i \<le> blen b)
     \<and> (b = best \<or> (\<exists>i\<in>set is. under v path i \<and> 0 < mplen v i \<and> b = Some (i, mplen v i)))"
  using assms(2)
proof (induction "is" arbitrary: best)
  case (Cons i "is")
  define best1 where "best1 = (if under v path i \<and> blen best < mplen v i then Some (i, mplen v i) else best)"
  from kstrncmp_prefix [OF assms(1), of "m_prefix (mounts v i)"] Cons.prems obtain r where
    r: "kstrncmp path (m_prefix (mounts v i)) (mplen v i) = Some r" "r = 0 \<longleftrightarrow> take (mplen v i) (cstr path) = cstr (m_prefix (mounts v i))"
    by (auto simp: mplen_def)
  have k: "kstrlen (m_prefix (mounts v i)) = Some (mplen v i)" using Cons.prems by (simp add: kstrlen_eq mplen_def)
  have step: "best_mount v path (i # is) best = best_mount v path is best1"
    using r k by (auto simp: best1_def under_def blen_def)
  have le: "blen best \<le> blen best1" "under v path i \<Longrightarrow> mplen v i \<le> blen best1" by (auto simp: best1_def blen_def)
  from Cons.IH [of best1] Cons.prems obtain b where b: "best_mount v path is best1 = Some b" "blen best1 \<le> blen b"
    "\<forall>i\<in>set is. under v path i \<longrightarrow> mplen v i \<le> blen b" "b = best1 \<or> (\<exists>i\<in>set is. under v path i \<and> 0 < mplen v i \<and> b = Some (i, mplen v i))" by auto
  have "b = best \<or> (\<exists>j\<in>set (i # is). under v path j \<and> 0 < mplen v j \<and> b = Some (j, mplen v j))"
    using b(4) by (auto simp: best1_def split: if_splits)
  with b(1-3) le step show ?case by (intro exI [of _ b]) auto
qed simp

lemma find_mount_ok:
  assumes "terminated path" "\<forall>i<num_mounts v. terminated (m_prefix (mounts v i))"
  shows "\<exists>m. find_mount v path = Some m \<and> (case m of
       None \<Rightarrow> \<forall>i<num_mounts v. under v path i \<longrightarrow> mplen v i = 0
     | Some (i, loc) \<Rightarrow> i < num_mounts v \<and> under v path i \<and> 0 < mplen v i \<and> (\<forall>j<num_mounts v. under v path j \<longrightarrow> mplen v j \<le> mplen v i)
         \<and> terminated loc \<and> (cstr path = cstr (m_prefix (mounts v i)) @ cstr loc \<and> (cstr loc = [] \<or> hd (cstr loc) \<noteq> 47)
           \<or> cstr path = cstr (m_prefix (mounts v i)) @ 47 # cstr loc))"
proof -
  from best_mount_ok [OF assms(1), of "[0..<num_mounts v]" v None] assms(2) obtain b where
    b: "best_mount v path [0..<num_mounts v] None = Some b" "\<forall>i<num_mounts v. under v path i \<longrightarrow> mplen v i \<le> blen b"
      "b = None \<or> (\<exists>i<num_mounts v. under v path i \<and> 0 < mplen v i \<and> b = Some (i, mplen v i))" by auto
  show ?thesis
  proof (cases b)
    case None
    then show ?thesis using b(1,2) by (simp add: find_mount_def blen_def)
  next
    case (Some p)
    with b(3) obtain i where i: "i < num_mounts v" "under v path i" "0 < mplen v i" "b = Some (i, mplen v i)" by auto
    have pre: "cstr path = cstr (m_prefix (mounts v i)) @ drop (mplen v i) (cstr path)"
      using i(2) unfolding under_def by (metis append_take_drop_id)
    then have "mplen v i \<le> length (cstr path)" by (metis length_append le_add1 mplen_def)
    with terminated_split [OF assms(1)] have d: "drop (mplen v i) path = drop (mplen v i) (cstr path) @ 0 # drop (Suc (length (cstr path))) path"
      by (metis drop_append diff_is_0_eq drop0)
    define rest where "rest = drop (mplen v i) (cstr path)"
    have nz: "0 \<notin> set rest" using cstr_nonzero [of path] unfolding rest_def by (meson in_set_dropD)
    obtain loc where loc: "(case drop (mplen v i) path of [] \<Rightarrow> None | r # rs \<Rightarrow> Some (Some (i, if r = 47 then rs else r # rs))) = Some (Some (i, loc))"
      "terminated loc" "rest = cstr loc \<and> (cstr loc = [] \<or> hd (cstr loc) \<noteq> 47) \<or> rest = 47 # cstr loc"
    proof (cases rest)
      case Nil
      then show ?thesis using that d by (simp add: rest_def)
    next
      case (Cons c cs)
      then have "0 \<notin> set cs" "c \<noteq> 0" using nz by auto
      with Cons show ?thesis using that [of "if c = 47 then cs @ 0 # drop (Suc (length (cstr path))) path else c # cs @ 0 # drop (Suc (length (cstr path))) path"] d
        by (cases "c = 47") (simp_all add: rest_def [symmetric])
    qed
    have "find_mount v path = Some (Some (i, loc))" using b(1) i(4) loc(1) by (simp add: find_mount_def)
    with i(1-3) b(2) loc(2,3) pre i(4) show ?thesis unfolding rest_def [symmetric] by (auto simp: blen_def)
  qed
qed

text \<open>
  C19. A path belongs to the mount with the longest prefix of it among the active ones, if one matches at all; the file system gets the
  rest of the path, without the slash.
\<close>

theorem find_mount_longest:
  assumes "terminated path" "\<forall>i<num_mounts v. terminated (m_prefix (mounts v i))"
  shows "\<exists>m. find_mount v path = Some m \<and> (case m of
       None \<Rightarrow> \<forall>i<num_mounts v. under v path i \<longrightarrow> mplen v i = 0
     | Some (i, loc) \<Rightarrow> i < num_mounts v \<and> under v path i \<and> 0 < mplen v i \<and> (\<forall>j<num_mounts v. under v path j \<longrightarrow> mplen v j \<le> mplen v i)
         \<and> terminated loc \<and> (cstr path = cstr (m_prefix (mounts v i)) @ cstr loc \<and> (cstr loc = [] \<or> hd (cstr loc) \<noteq> 47)
           \<or> cstr path = cstr (m_prefix (mounts v i)) @ 47 # cstr loc))"
  using assms by (rule find_mount_ok)

section \<open>The mounts of the kernel\<close>

definition std_mounts :: "'d dev \<Rightarrow> 'w ports \<Rightarrow> ('d, 'w) backend vfs \<Rightarrow> bool" where
  "std_mounts dv io v \<longleftrightarrow> num_mounts v = 3 \<and> (\<forall>i<3. m_active (mounts v i) \<and> terminated (m_prefix (mounts v i)))
     \<and> cstr (m_prefix (mounts v 0)) = map of_char ''/mem'' \<and> m_ops (mounts v 0) = mem_ops
     \<and> cstr (m_prefix (mounts v 1)) = map of_char ''/disk'' \<and> m_ops (mounts v 1) = disk_ops dv
     \<and> cstr (m_prefix (mounts v 2)) = map of_char ''/dev'' \<and> m_ops (mounts v 2) = dev_ops io"

lemma mount_one:
  assumes "num_mounts v < VFS_MAX_MOUNTS" "mounts v (num_mounts v) = mount_zero" "terminated p" "length (cstr p) < 32"
  shows "\<exists>m. vfs_mount p ops v = Some (0, v\<lparr>mounts := (mounts v)(num_mounts v := m), num_mounts := num_mounts v + 1\<rparr>)
     \<and> m_active m \<and> terminated (m_prefix m) \<and> cstr (m_prefix m) = cstr p \<and> m_ops m = ops"
proof -
  from kstrcpy_into [OF assms(3), of "replicate 32 0"] assms(4) obtain b where
    "kstrcpy (replicate 32 0) p = Some b" "cstr b = cstr p" "terminated b" by auto
  then show ?thesis using assms(1,2)
    by (intro exI [of _ "\<lparr>m_prefix = b, m_ops = ops, m_active = True\<rparr>"]) (simp add: vfs_mount_def mount_zero_def)
qed

lemma vfs_init_std:
  "\<exists>v'. vfs_init dv io v b = Some (v', b\<lparr>b_mem_open := (\<lambda>_. mem_zero), b_disk_open := (\<lambda>_. disk_zero)\<rparr>) \<and> std_mounts dv io v'
     \<and> fd_table v' = (\<lambda>_. fd_zero) \<and> pps v' = pipe_init"
proof -
  define v0 where "v0 = v\<lparr>fd_table := (\<lambda>_. fd_zero), mounts := (\<lambda>_. mount_zero), num_mounts := 0, pps := pipe_init\<rparr>"
  have c: "cstr (lit ''/mem'') = map of_char ''/mem''" "cstr (lit ''/disk'') = map of_char ''/disk''" "cstr (lit ''/dev'') = map of_char ''/dev''"
    by (rule cstr_lit, simp)+
  from mount_one [of v0 "lit ''/mem''" mem_ops] obtain m0 where
    m0: "vfs_mount (lit ''/mem'') mem_ops v0 = Some (0, v0\<lparr>mounts := (mounts v0)(0 := m0), num_mounts := 1\<rparr>)"
      "m_active m0" "terminated (m_prefix m0)" "cstr (m_prefix m0) = map of_char ''/mem''" "m_ops m0 = mem_ops"
    by (auto simp: v0_def VFS_MAX_MOUNTS_def c)
  define v1 where "v1 = v0\<lparr>mounts := (mounts v0)(0 := m0), num_mounts := 1\<rparr>"
  from mount_one [of v1 "lit ''/disk''" "disk_ops dv"] obtain m1 where
    m1: "vfs_mount (lit ''/disk'') (disk_ops dv) v1 = Some (0, v1\<lparr>mounts := (mounts v1)(1 := m1), num_mounts := 2\<rparr>)"
      "m_active m1" "terminated (m_prefix m1)" "cstr (m_prefix m1) = map of_char ''/disk''" "m_ops m1 = disk_ops dv"
    by (auto simp: v1_def v0_def VFS_MAX_MOUNTS_def c numeral_2_eq_2)
  define v2 where "v2 = v1\<lparr>mounts := (mounts v1)(1 := m1), num_mounts := 2\<rparr>"
  from mount_one [of v2 "lit ''/dev''" "dev_ops io"] obtain m2 where
    m2: "vfs_mount (lit ''/dev'') (dev_ops io) v2 = Some (0, v2\<lparr>mounts := (mounts v2)(2 := m2), num_mounts := 3\<rparr>)"
      "m_active m2" "terminated (m_prefix m2)" "cstr (m_prefix m2) = map of_char ''/dev''" "m_ops m2 = dev_ops io"
    by (auto simp: v2_def v1_def v0_def VFS_MAX_MOUNTS_def c)
  have "vfs_init dv io v b = Some (v2\<lparr>mounts := (mounts v2)(2 := m2), num_mounts := 3\<rparr>, b\<lparr>b_mem_open := (\<lambda>_. mem_zero), b_disk_open := (\<lambda>_. disk_zero)\<rparr>)"
    using m0(1) m1(1) m2(1) unfolding vfs_init_def v0_def [symmetric] v1_def [symmetric] v2_def [symmetric] by (simp add: Let_def)
  moreover have "std_mounts dv io (v2\<lparr>mounts := (mounts v2)(2 := m2), num_mounts := 3\<rparr>)"
    using m0 m1 m2 by (auto simp: std_mounts_def v2_def v1_def less_Suc_eq numeral_3_eq_3)
  ultimately show ?thesis by (simp add: v2_def v1_def v0_def)
qed

lemma find_disk:
  assumes "std_mounts dv io v" "terminated p" "cstr p = map of_char ''/disk/'' @ nm"
  shows "\<exists>loc. find_mount v p = Some (Some (1, loc)) \<and> terminated loc \<and> cstr loc = nm"
proof -
  note S = assms(1) [unfolded std_mounts_def]
  have n: "\<not> under v p 0" "\<not> under v p 2" "under v p 1" "mplen v 1 = 5"
    using S assms(3) by (auto simp: under_def mplen_def)
  from find_mount_ok [OF assms(2), of v] S obtain m where m: "find_mount v p = Some m" and c: "case m of
       None \<Rightarrow> \<forall>i<num_mounts v. under v p i \<longrightarrow> mplen v i = 0
     | Some (i, loc) \<Rightarrow> i < num_mounts v \<and> under v p i \<and> 0 < mplen v i \<and> (\<forall>j<num_mounts v. under v p j \<longrightarrow> mplen v j \<le> mplen v i)
         \<and> terminated loc \<and> (cstr p = cstr (m_prefix (mounts v i)) @ cstr loc \<and> (cstr loc = [] \<or> hd (cstr loc) \<noteq> 47) \<or> cstr p = cstr (m_prefix (mounts v i)) @ 47 # cstr loc)"
    by auto
  show ?thesis
  proof (cases m)
    case None
    then have "mplen v 1 = 0" using c n(3) S by auto
    then show ?thesis using n(4) by simp
  next
    case (Some q)
    then obtain i loc where q: "m = Some (i, loc)" by (cases q) auto
    then have i: "i < 3" "under v p i" using c S by auto
    then have "i = 1" using n by (auto simp: less_Suc_eq numeral_3_eq_3 numeral_2_eq_2)
    then have "terminated loc" "cstr p = map of_char ''/disk'' @ cstr loc \<and> (cstr loc = [] \<or> hd (cstr loc) \<noteq> 47) \<or> cstr p = map of_char ''/disk'' @ 47 # cstr loc"
      using c q S by auto
    then show ?thesis using m q \<open>i = 1\<close> assms(3) by (cases "cstr loc") auto
  qed
qed

theorem find_mount_longest_witness:
  "\<exists>v :: (unit, unit) backend vfs. num_mounts v = 3 \<and> (\<exists>m. find_mount v (lit ''/disk/x'') = Some m \<and> (case m of
       None \<Rightarrow> \<forall>i<num_mounts v. under v (lit ''/disk/x'') i \<longrightarrow> mplen v i = 0
     | Some (i, loc) \<Rightarrow> i < num_mounts v \<and> under v (lit ''/disk/x'') i))"
proof -
  from vfs_init_std [of "\<lparr>dv_rd = (\<lambda>_ _ _. None), dv_wr = (\<lambda>_ _ _ _. None)\<rparr>" silent vfs0 "backend0 fat0 ()"] obtain v :: "(unit, unit) backend vfs" where
    v: "num_mounts v = 3" "\<forall>i<num_mounts v. terminated (m_prefix (mounts v i))" by (auto simp: std_mounts_def)
  define path where "path = lit ''/disk/x''"
  have "terminated path" by (simp add: path_def)
  from find_mount_longest [OF this v(2)] obtain m where m: "find_mount v path = Some m" and c: "case m of
       None \<Rightarrow> \<forall>i<num_mounts v. under v path i \<longrightarrow> mplen v i = 0
     | Some (i, loc) \<Rightarrow> i < num_mounts v \<and> under v path i \<and> 0 < mplen v i \<and> (\<forall>j<num_mounts v. under v path j \<longrightarrow> mplen v j \<le> mplen v i)
         \<and> terminated loc \<and> (cstr path = cstr (m_prefix (mounts v i)) @ cstr loc \<and> (cstr loc = [] \<or> hd (cstr loc) \<noteq> 47)
           \<or> cstr path = cstr (m_prefix (mounts v i)) @ 47 # cstr loc)" by blast
  have "case m of None \<Rightarrow> \<forall>i<num_mounts v. under v path i \<longrightarrow> mplen v i = 0 | Some (i, loc) \<Rightarrow> i < num_mounts v \<and> under v path i"
    using c by (cases m) auto
  with v(1) m show ?thesis unfolding path_def by blast
qed

end
