(* ===== verification/VfsDisk.thy ===== *)
theory VfsDisk
  imports VfsProps
begin

text \<open>
  From the descriptor down to the sectors: a file written through \<^verbatim>\<open>vfs_open\<close>, \<^verbatim>\<open>vfs_write\<close> and
  \<^verbatim>\<open>vfs_close\<close> under \<^verbatim>\<open>/disk\<close> is a file of the FAT12 volume on the disk.
\<close>

section \<open>Names\<close>

lemma copy_83_tail:
  "copy_83 stop room (u @ 0 # r) = map_option (\<lambda>(xs, q). (xs, q @ r)) (copy_83 stop room (u @ [0]))"
proof (induction u arbitrary: room)
  case (Cons c u)
  then show ?case by (cases room) (auto split: bind_splits)
qed simp

lemma copy_83_rest: "copy_83 stop room (u @ [0]) = Some (xs, q) \<Longrightarrow> q \<noteq> []"
proof (induction u arbitrary: room xs)
  case (Cons c u)
  then show ?case by (cases room) (auto split: if_splits bind_splits)
qed auto

lemma copy_83_suffix: "copy_83 stop room (u @ [0]) = Some (xs, q) \<Longrightarrow> \<exists>w. q = w @ [0] \<and> set w \<subseteq> set u"
proof (induction u arbitrary: room xs)
  case Nil
  then show ?case by auto
next
  case (Cons c u)
  then show ?case by (cases room) (fastforce split: if_splits bind_splits)+
qed

lemma name_to_83_tail: "name_to_83 (u @ 0 # r) = name_to_83 (u @ [0])"
proof (cases "copy_83 (\<lambda>c. c = 46) 8 (u @ [0])")
  case None
  then show ?thesis by (simp add: name_to_83_def copy_83_tail [of _ _ u r])
next
  case (Some p)
  then obtain xs q where p: "copy_83 (\<lambda>c. c = 46) 8 (u @ [0]) = Some (xs, q)" by (cases p) auto
  from copy_83_suffix [OF p] obtain w where w: "q = w @ [0]" by blast
  show ?thesis
  proof (cases w)
    case Nil
    then show ?thesis using p w by (simp add: name_to_83_def copy_83_tail [of _ _ u r])
  next
    case (Cons c w')
    then show ?thesis using p w by (simp add: name_to_83_def copy_83_tail [of _ _ u r] copy_83_tail [of _ _ w' r] case_prod_unfold bind_map_option comp_def
        map_option_case split: option.split)
  qed
qed

lemma name_to_83_cstr: "terminated p \<Longrightarrow> name_to_83 p = name_to_83 (cstr p @ [0])"
  by (metis name_to_83_tail terminated_split)

lemma disk_upper_cstr: "terminated p \<Longrightarrow> disk_upper p = disk_upper (cstr p @ [0])"
  using terminated_split [of p] copy_83_tail [of "\<lambda>_. False" 63 "cstr p" "drop (Suc (length (cstr p))) p"]
  by (auto simp: disk_upper_def case_prod_unfold map_option_case split: option.splits)

lemma disk_upper_ok: "disk_upper p = Some up \<Longrightarrow> terminated up \<and> length (cstr up) < 64"
  by (auto simp: disk_upper_def split: bind_splits dest!: copy_83_ok)

section \<open>Listing\<close>

lemma name_from_83_ok:
  assumes "length out = 13"
  shows "\<exists>nm. name_from_83 raw out = Some nm \<and> length nm = 13 \<and> terminated nm"
proof -
  define x where "x = takeWhile (\<lambda>c. c \<noteq> 32) (take 8 raw)
       @ (if raw ! 8 \<noteq> 32 then 46 # takeWhile (\<lambda>c. c \<noteq> 32) (take 3 (drop 8 raw)) else []) @ [0]"
  have "length (takeWhile (\<lambda>c. c \<noteq> 32) (take 8 raw)) \<le> 8" "length (takeWhile (\<lambda>c. c \<noteq> 32) (take 3 (drop 8 raw))) \<le> 3"
    using length_takeWhile_le [of "\<lambda>c. c \<noteq> 32" "take 8 raw"] length_takeWhile_le [of "\<lambda>c. c \<noteq> 32" "take 3 (drop 8 raw)"] by auto
  then have l: "length x \<le> 13" by (auto simp: x_def)
  then have "name_from_83 raw out = Some (x @ drop (length x) out)" using assms by (simp add: name_from_83_def x_def [symmetric] blit_def)
  moreover have "terminated (x @ drop (length x) out)" by (simp add: x_def)
  ultimately show ?thesis using l assms by simp
qed

definition entries_ok :: "fat12_entry_t list \<Rightarrow> nat \<Rightarrow> bool" where
  "entries_ok es n \<longleftrightarrow> (\<forall>e\<in>set es. length (fe_name e) = 13) \<and> (\<forall>j<n. terminated (fe_name (es ! j)))"

lemma list_sector_ok:
  assumes "entries_ok es n" "n \<le> 64" "length es = 64"
  shows "\<exists>fin es' n'. list_sector T l 64 es n = Some (fin, es', n') \<and> entries_ok es' n' \<and> n' \<le> 64 \<and> length es' = 64"
  using assms
proof (induction l arbitrary: es n)
  case (Cons i l)
  show ?case
  proof (cases "n < 64 \<and> dir_at T i ! 0 \<noteq> DIRENT_END")
    case False
    then show ?thesis using Cons.prems by (auto simp: Let_def)
  next
    case True
    define skip where "skip \<longleftrightarrow> dir_at T i ! 0 = DIRENT_FREE \<or> tst (de_attr (dirent_of (dir_at T i))) (ATTR_VOLUME OR ATTR_SYSTEM)
      \<or> tst (de_attr (dirent_of (dir_at T i))) ATTR_HIDDEN"
    show ?thesis
    proof (cases skip)
      case True
      then show ?thesis using Cons \<open>n < 64 \<and> dir_at T i ! 0 \<noteq> DIRENT_END\<close> by (simp add: Let_def skip_def)
    next
      case False
      have n: "n < length es" using True Cons.prems(3) by simp
      then have "length (fe_name (es ! n)) = 13" using Cons.prems(1) by (simp add: entries_ok_def)
      from name_from_83_ok [OF this, of "dir_at T i"] obtain nm where nm: "name_from_83 (dir_at T i) (fe_name (es ! n)) = Some nm" "length nm = 13" "terminated nm"
        by blast
      obtain e where e: "list_entry (dir_at T i) (es ! n) = Some e" "fe_name e = nm"
        using that nm(1) unfolding list_entry_def by (simp add: Let_def)
      have "entries_ok (es[n := e]) (n + 1)"
        using Cons.prems(1) e nm n by (auto simp: entries_ok_def less_Suc_eq dest!: set_update_subset_insert [THEN subsetD])
      from Cons.IH [OF this] True Cons.prems(2,3) e(1) n False \<open>n < 64 \<and> dir_at T i ! 0 \<noteq> DIRENT_END\<close> show ?thesis
        by (simp add: Let_def skip_def)
    qed
  qed
qed (simp, blast)

context block_device
begin

lemma list_sectors_ok:
  assumes "geom nsec drive st" "ok d" "\<forall>s\<in>set l. s < unat (g_root_sectors st)" "entries_ok es n" "n \<le> 64" "length es = 64"
  shows "\<exists>es' n' d'. list_sectors dv st l 64 es n d = Some (es', n', d') \<and> entries_ok es' n' \<and> n' \<le> 64 \<and> length es' = 64 \<and> ok d' \<and> sec d' = sec d"
  using assms(2-)
proof (induction l arbitrary: es n d)
  case (Cons s l)
  show ?case
  proof (cases "n < 64")
    case False
    then show ?thesis using Cons.prems by auto
  next
    case True
    have dr: "g_drive st = drive" using assms(1) by (simp add: geom_def)
    have "s < unat (g_root_sectors st)" using Cons.prems(2) by simp
    from root_read(2) [OF Cons.prems(1) assms(1) this] obtain d1 where
      d1: "dv_rd dv drive (g_root_start st + of_nat s) d = Some (Some (sec d (unat (g_root_start st) + s)), d1)" "ok d1" "sec d1 = sec d" by blast
    from list_sector_ok [OF Cons.prems(3-5), of "sec d (unat (g_root_start st) + s)" "[0..<16]"] obtain fin es1 n1 where
      l1: "list_sector (sec d (unat (g_root_start st) + s)) [0..<16] 64 es n = Some (fin, es1, n1)" "entries_ok es1 n1" "n1 \<le> 64" "length es1 = 64" by blast
    from Cons.IH [OF d1(2) _ l1(2-4)] Cons.prems(2) d1 l1 True dr show ?thesis by (cases fin) auto
  qed
qed auto

lemma list_ok:
  assumes "geom nsec drive st" "ok d"
  shows "\<exists>es n d'. fat12_list dv st (replicate 64 entry_zero) 64 d = Some (int n, es, d') \<and> entries_ok es n \<and> n \<le> 64 \<and> length es = 64
     \<and> ok d' \<and> sec d' = sec d"
proof -
  have "entries_ok (replicate 64 entry_zero) 0" by (simp add: entries_ok_def entry_zero_def)
  from list_sectors_ok [OF assms _ this, of "[0..<unat (g_root_sectors st)]"] assms(1) show ?thesis
    by (auto simp: fat12_list_def geom_def)
qed

lemma disk_stat_ok:
  assumes "geom nsec drive (b_fat b)" "ok (b_disk b)" "terminated p" "disk_upper p = Some up" "length (st_name s) = 64"
  shows "\<exists>r s' d'. disk_vfs_stat dv p s b = Some (r, s', b\<lparr>b_disk := d'\<rparr>) \<and> ok d' \<and> sec d' = sec (b_disk b)"
proof -
  from list_ok [OF assms(1,2)] obtain es n d' where l: "fat12_list dv (b_fat b) (replicate 64 entry_zero) 64 (b_disk b) = Some (int n, es, d')"
    "entries_ok es n" "n \<le> 64" "length es = 64" "ok d'" "sec d' = sec (b_disk b)" by blast
  have up: "terminated up" using disk_upper_ok [OF assms(4)] by simp
  have k: "\<exists>r. kstrcmp (fe_name (es ! j)) up = Some r" if "j < n" for j
    using kstrcmp_defined [of "fe_name (es ! j)" up] l(2) that up by (auto simp: entries_ok_def)
  have sc: "scan (\<lambda>j. map_option (\<lambda>r. r = 0) (kstrcmp (fe_name (es ! j)) up)) 0 n = Some (first_idx (\<lambda>j. kstrcmp (fe_name (es ! j)) up = Some 0) 0 n)"
    using k by (intro scan_defined) fastforce
  have "\<exists>nm. kstrcpy (st_name s) (fe_name (es ! j)) = Some nm" if "j < n" for j
  proof -
    have t: "terminated (fe_name (es ! j))" "length (fe_name (es ! j)) = 13" using l(2-4) that by (auto simp: entries_ok_def)
    then have "length (cstr (fe_name (es ! j))) < length (st_name s)" using cstr_length_le [of "fe_name (es ! j)"] assms(5) by simp
    with t(1) show ?thesis by (rule kstrcpy_defined)
  qed
  then have "\<exists>r s'. disk_vfs_stat dv p s b = Some (r, s', b\<lparr>b_disk := d'\<rparr>)"
    using l(1) sc assms(1,4) first_idx_SomeD(2) [of _ 0 n]
    by (cases "first_idx (\<lambda>j. kstrcmp (fe_name (es ! j)) up = Some 0) 0 n") (fastforce simp: disk_vfs_stat_def fat12_mounted_def geom_def Let_def)+
  with l(5,6) show ?thesis by blast
qed

end

section \<open>Files under /disk\<close>

lemma disk_write:
  assumes "fat_disk st d A" "name_to_83 name = Some want" "want ! 0 \<noteq> DIRENT_FREE" "unat sz \<le> length buf" "need st (unat sz) \<le> card (free_cl st)"
    "A want \<noteq> None \<or> (\<exists>j<nent st. \<not> live (ent st (chip_sec d) j))"
  shows "\<exists>st' d'. fat12_write (ata_dev chip_io) st name buf sz d = Some (0, st', d') \<and> fat_disk st' d' (A(want \<mapsto> take (unat sz) buf))
     \<and> same_vol st st' \<and> card (free_cl st) \<le> card (free_cl st') + need st (unat sz)"
proof -
  from assms(1) obtain C where v: "vol_ok (2 ^ 28) 0 st (chip_sec d) C" "A = vol_map st (chip_sec d) C" "chip_ok d" by (auto simp: fat_files_def)
  have "entry_of st (chip_sec d) want \<noteq> None \<or> (\<exists>j<nent st. \<not> live (ent st (chip_sec d) j))" using assms(6) by (simp add: v(2) vol_map_def)
  from disk.write_ok [OF v(1,3) assms(2-5) this] obtain st' d' C' where
    "fat12_write (ata_dev chip_io) st name buf sz d = Some (0, st', d')" "chip_ok d'" "same_vol st st'" "vol_ok (2 ^ 28) 0 st' (chip_sec d') C'"
    "vol_map st' (chip_sec d') C' = A(want \<mapsto> take (unat sz) buf)" "card (free_cl st) \<le> card (free_cl st') + need st (unat sz)" unfolding v(2) by blast
  then show ?thesis unfolding fat_files_def by metis
qed

lemma disk_read:
  assumes "fat_disk st d A" "name_to_83 name = Some want" "length buf = DISK_BUF_SIZE"
  shows "\<exists>n buf' d'. fat12_read (ata_dev chip_io) st name buf (of_nat DISK_BUF_SIZE) d = Some (n, buf', d') \<and> length buf' = DISK_BUF_SIZE
     \<and> chip_ok d' \<and> chip_sec d' = chip_sec d \<and> (n < 0 \<longleftrightarrow> A want = None)"
proof -
  from assms(1) obtain C where v: "vol_ok (2 ^ 28) 0 st (chip_sec d) C" "A = vol_map st (chip_sec d) C" "chip_ok d" by (auto simp: fat_files_def)
  show ?thesis
  proof (cases "A want")
    case None
    then have "entry_of st (chip_sec d) want = None" by (simp add: v(2) vol_map_def)
    from disk.read_missing [OF v(1,3) assms(2) this, of buf "of_nat DISK_BUF_SIZE"] None assms(3) show ?thesis by fastforce
  next
    case (Some data)
    define k where "k = min (length data) (unat (of_nat DISK_BUF_SIZE :: u32))"
    have k: "k \<le> length buf" using assms(3) by (simp add: k_def DISK_BUF_SIZE_def)
    from disk.read_ok [OF v(1,3) assms(2) _ k_def k] Some v(2) obtain d' where
      "fat12_read (ata_dev chip_io) st name buf (of_nat DISK_BUF_SIZE) d = Some (int k, take k data @ drop k buf, d')" "chip_ok d'" "chip_sec d' = chip_sec d" by auto
    moreover have "length (take k data @ drop k buf) = DISK_BUF_SIZE" using k assms(3) by (simp add: k_def min_def)
    ultimately show ?thesis using Some by fastforce
  qed
qed

lemma need_zero: "geom nsec drive st \<Longrightarrow> need st 0 = 0"
  by (simp add: need_def geom_def)

lemma fat_disk_geom: "fat_disk st d A \<Longrightarrow> geom (2 ^ 28) 0 st"
  by (auto simp: fat_files_def vol_ok_def)

definition bufs_ok :: "('d, 'w) backend \<Rightarrow> bool" where
  "bufs_ok b \<longleftrightarrow> (\<forall>s<DISK_MAX_OPEN. length (do_name (b_disk_open b s)) = 64 \<and> length (do_buf (b_disk_open b s)) = DISK_BUF_SIZE)"

text \<open>An open file of the disk: its table entry, and the volume as it is.\<close>

definition disk_file :: "(drives \<times> chip, 'w) backend \<Rightarrow> nat \<Rightarrow> bytes \<Rightarrow> u32 \<Rightarrow> bool" where
  "disk_file b s want n \<longleftrightarrow> (let f = b_disk_open b s in do_used f \<and> do_writable f \<and> do_pos f = 0 \<and> do_size f = n \<and> length (do_buf f) = DISK_BUF_SIZE
     \<and> terminated (do_name f) \<and> name_to_83 (do_name f) = Some want)"

lemma disk_open_ok:
  assumes "fat_disk (b_fat b) (b_disk b) A" "bufs_ok b" "first_idx (\<lambda>s. \<not> do_used (b_disk_open b s)) 0 DISK_MAX_OPEN = Some s"
    "terminated p" "disk_upper p = Some up" "name_to_83 up = Some want" "want ! 0 \<noteq> DIRENT_FREE" "tst flags O_CREAT" "tst flags O_TRUNC"
    "need (b_fat b) n \<le> card (free_cl (b_fat b))" "\<exists>j<nent (b_fat b). \<not> live (ent (b_fat b) (chip_sec (b_disk b)) j)"
  shows "\<exists>b' A'. disk_vfs_open (ata_dev chip_io) p flags b = Some (int s, b') \<and> fat_disk (b_fat b') (b_disk b') A' \<and> disk_file b' s want 0
     \<and> (\<forall>x. A'(want \<mapsto> x) = A(want \<mapsto> x)) \<and> need (b_fat b') n \<le> card (free_cl (b_fat b'))
     \<and> (A' want \<noteq> None \<or> (\<exists>j<nent (b_fat b'). \<not> live (ent (b_fat b') (chip_sec (b_disk b')) j)))"
proof -
  have s: "s < DISK_MAX_OPEN" using first_idx_SomeD(2) [OF assms(3)] .
  have m: "fat12_mounted (b_fat b)" using fat_disk_geom [OF assms(1)] by (simp add: fat12_mounted_def geom_def)
  have bl: "length (do_name (b_disk_open b s)) = 64" "length (do_buf (b_disk_open b s)) = 4096" using assms(2) s by (auto simp: bufs_ok_def DISK_BUF_SIZE_def)
  have up: "terminated up" "length (cstr up) < 64" using disk_upper_ok [OF assms(5)] by auto
  from kstrcpy_into [OF up(1), of "do_name (b_disk_open b s)"] up(2) bl(1) obtain nm where
    nm: "kstrcpy (do_name (b_disk_open b s)) up = Some nm" "cstr nm = cstr up" "terminated nm" by auto
  have n83: "name_to_83 nm = Some want" using name_to_83_cstr [OF nm(3)] name_to_83_cstr [OF up(1)] nm(2) assms(6) by simp
  have wrt: "tst flags (O_WRONLY OR O_RDWR OR O_CREAT)"
  proof -
    have "flags AND O_CREAT = (flags AND (O_WRONLY OR O_RDWR OR O_CREAT)) AND O_CREAT" by (simp add: and.assoc O_WRONLY_def O_RDWR_def O_CREAT_def)
    then show ?thesis using assms(8) by (auto simp: tst_def)
  qed
  define oo where "oo buf = \<lparr>do_name = nm, do_buf = buf, do_size = 0, do_pos = 0, do_writable = True, do_used = True\<rparr>" for buf
  have slot: "disk_slot up flags s k buf c = Some (int s, c\<lparr>b_disk_open := (b_disk_open c)(s := oo buf)\<rparr>)"
    if "do_name (b_disk_open c s) = do_name (b_disk_open b s)" for k buf and c :: "(drives \<times> chip, 'a) backend"
    using that nm(1) assms(9) wrt by (simp add: disk_slot_def oo_def)
  have df: "disk_file (c\<lparr>b_disk_open := t(s := oo buf)\<rparr>) s want 0" if "length buf = DISK_BUF_SIZE" for buf t and c :: "(drives \<times> chip, 'a) backend"
    using that nm(3) n83 by (simp add: disk_file_def oo_def)
  from disk_read [OF assms(1,6), of "do_buf (b_disk_open b s)"] bl(2) obtain k buf d1 where
    r: "fat12_read (ata_dev chip_io) (b_fat b) up (do_buf (b_disk_open b s)) (of_nat DISK_BUF_SIZE) (b_disk b) = Some (k, buf, d1)"
      "length buf = DISK_BUF_SIZE" "chip_ok d1" "chip_sec d1 = chip_sec (b_disk b)" "k < 0 \<longleftrightarrow> A want = None" by (auto simp: DISK_BUF_SIZE_def)
  have fd1: "fat_disk (b_fat b) d1 A" using assms(1) r(3,4) by simp
  define b1 where "b1 = b\<lparr>b_disk := d1, b_disk_open := (b_disk_open b)(s := (b_disk_open b s)\<lparr>do_buf := buf\<rparr>)\<rparr>"
  have nm1: "do_name (b_disk_open b1 s) = do_name (b_disk_open b s)" by (simp add: b1_def)
  show ?thesis
  proof (cases "A want")
    case None
    have "need (b_fat b) (unat (0 :: u32)) \<le> card (free_cl (b_fat b))" using need_zero [OF fat_disk_geom [OF assms(1)]] by simp
    from disk_write [OF fd1 assms(6,7) _ this, of "[0]"] assms(11) r(4) obtain st' d2 where
      w: "fat12_write (ata_dev chip_io) (b_fat b) up [0] 0 d1 = Some (0, st', d2)" "fat_disk st' d2 (A(want \<mapsto> []))" "same_vol (b_fat b) st'"
        "card (free_cl (b_fat b)) \<le> card (free_cl st')" using need_zero [OF fat_disk_geom [OF assms(1)]] by auto
    define b2 where "b2 = b1\<lparr>b_fat := st', b_disk := d2\<rparr>"
    have "disk_vfs_open (ata_dev chip_io) p flags b = Some (int s, b2\<lparr>b_disk_open := (b_disk_open b2)(s := oo buf)\<rparr>)"
      using m assms(3,5,8) r(1,5) None w(1) slot [of b2 0 buf] nm1
      by (simp add: disk_vfs_open_def b1_def [symmetric] b2_def Let_def) (simp add: b1_def)
    moreover have "need st' n \<le> card (free_cl st')" using w(3,4) assms(10) same_volD(3) [OF w(3)] by (simp add: need_def)
    ultimately show ?thesis using w(2) df [OF r(2), of "b_disk_open b2" b2]
      by (intro exI [of _ "b2\<lparr>b_disk_open := (b_disk_open b2)(s := oo buf)\<rparr>"] exI [of _ "A(want \<mapsto> [])"]) (simp add: b2_def)
  next
    case (Some data)
    have "disk_vfs_open (ata_dev chip_io) p flags b = Some (int s, b1\<lparr>b_disk_open := (b_disk_open b1)(s := oo buf)\<rparr>)"
      using m assms(3,5) r(1,5) Some slot [OF nm1, of k buf]
      by (simp add: disk_vfs_open_def b1_def [symmetric] Let_def)
    then show ?thesis using fd1 df [OF r(2), of "b_disk_open b1" b1] assms(10) Some
      by (intro exI [of _ "b1\<lparr>b_disk_open := (b_disk_open b1)(s := oo buf)\<rparr>"] exI [of _ A]) (simp add: b1_def)
  qed
qed

lemma disk_write_buffer:
  assumes "disk_file b s want 0" "s < DISK_MAX_OPEN" "0 < len" "len < 4096" "unat len \<le> length data"
  shows "\<exists>f. disk_vfs_write (int s) data len b = Some (int (unat len), b\<lparr>b_disk_open := (b_disk_open b)(s := f)\<rparr>)
     \<and> do_used f \<and> do_writable f \<and> do_size f = len \<and> name_to_83 (do_name f) = Some want \<and> take (unat len) (do_buf f) = take (unat len) data
     \<and> length (do_buf f) = DISK_BUF_SIZE"
proof -
  define f where "f = b_disk_open b s"
  have F: "do_used f" "do_writable f" "do_pos f = 0" "do_size f = 0" "length (do_buf f) = 4096" "name_to_83 (do_name f) = Some want"
    using assms(1) by (simp_all add: disk_file_def f_def Let_def DISK_BUF_SIZE_def)
  have u: "unat len < 4096" using assms(4) by (simp add: word_less_nat_alt)
  have ok: "\<not> disk_bad (int s) b" using assms(2) F(1) by (simp add: disk_bad_def f_def)
  have "(of_nat DISK_BUF_SIZE :: u32) = 4096" by (simp add: DISK_BUF_SIZE_def)
  then have nb: "\<not> (of_nat DISK_BUF_SIZE :: u32) \<le> do_pos f + len" using assms(4) F(3) by simp
  have sl: "slice data 0 (unat len) = Some (take (unat len) data)" using assms(5) by (simp add: slice_def)
  define buf where "buf = take (unat len) data @ drop (unat len) (do_buf f)"
  have bl: "blit (do_buf f) 0 (take (unat len) data) = Some buf" using assms(5) u F(5) by (simp add: blit_def buf_def min_absorb2)
  have si: "sint len = int (unat len)" using c_int_small [of "unat len"] u by (simp add: c_int_def)
  have "disk_vfs_write (int s) data len b = Some (int (unat len), b\<lparr>b_disk_open := (b_disk_open b)(s := f\<lparr>do_buf := buf, do_pos := len, do_size := len\<rparr>)\<rparr>)"
    using ok nb sl bl si assms(3) F(3,4) by (simp add: disk_vfs_write_def f_def [symmetric] Let_def)
  then show ?thesis using F assms(5) u
    by (intro exI [of _ "f\<lparr>do_buf := buf, do_pos := len, do_size := len\<rparr>"]) (simp add: buf_def DISK_BUF_SIZE_def min_absorb2)
qed

lemma open_disk_path:
  assumes "std_mounts dv io v" "terminated path" "cstr path = map of_char ''/disk/'' @ nm" "length (cstr path) < 128" "tst flags O_CREAT"
    and stat: "\<And>p. terminated p \<Longrightarrow> cstr p = nm \<Longrightarrow> \<exists>r s' b1. disk_vfs_stat dv p stat_zero b = Some (r, s', b1) \<and>
      (\<exists>b2. disk_vfs_open dv p flags b1 = Some (int k, b2) \<and> Q b2)"
    and "alloc_fd v = Some fd"
  shows "\<exists>b2. vfs_open path flags v b = Some (int fd, v\<lparr>fd_table := (fd_table v)(fd := (fd_table v fd)\<lparr>fd_used := True, fd_flags := flags, fd_pos := 0,
       fd_type := VFS_FILE, fd_mount_idx := 1, fd_data := int k, fd_pipe_id := -1\<rparr>)\<rparr>, b2) \<and> Q b2"
proof -
  obtain c cs where p: "path = c # cs" "c = 47" using assms(3) by (cases path) (auto split: if_splits)
  from kstrcpy_into [OF assms(2), of "replicate VFS_MAX_PATH 0"] assms(4) obtain r where
    r: "kstrcpy (replicate VFS_MAX_PATH 0) path = Some r" "cstr r = cstr path" "terminated r" by (auto simp: VFS_MAX_PATH_def)
  have res: "resolve (lit ''/disk/'') path = Some r" using p r(1) by (simp add: resolve_def)
  from find_disk [OF assms(1) r(3)] r(2) assms(3) obtain loc where l: "find_mount v r = Some (Some (1, loc))" "terminated loc" "cstr loc = nm" by auto
  from stat [OF l(2,3)] obtain x s' b1 b2 where s: "disk_vfs_stat dv loc stat_zero b = Some (x, s', b1)" "disk_vfs_open dv loc flags b1 = Some (int k, b2)" "Q b2"
    by blast
  have ops: "m_ops (mounts v 1) = disk_ops dv" using assms(1) by (simp add: std_mounts_def)
  have look: "vfs_lookup v path flags b = Some (Some (1, loc), b1)"
    using res l(1) s(1) ops assms(5) by (simp add: vfs_lookup_def probe_def disk_ops_def)
  show ?thesis using look ops s(2,3) assms(7) by (simp add: vfs_open_def disk_ops_def)
qed



end
