(* ===== verification/Net.thy ===== *)
theory Net
  imports Packed Ring Timer Vga
begin

text \<open>
  The network stack, \<^verbatim>\<open>src/net.c\<close> and \<^verbatim>\<open>src/net.h\<close>: the RTL8139 driver, the ARP cache, UDP with its
  queue of received frames, and TCP sockets. The card is a parameter: the port instructions and the memory it shares with
  the driver, \<^verbatim>\<open>tx_buf\<close> that it reads and \<^verbatim>\<open>rx_buf\<close> that it writes. A pointer into a received frame is the
  list of the bytes from there to the end of \<^verbatim>\<open>rx_buf\<close>.
\<close>

record 'w net_ports =
  np_io :: "'w ports"
  np_inw :: "u16 \<Rightarrow> 'w \<Rightarrow> u16 \<times> 'w"
  np_outw :: "u16 \<Rightarrow> u16 \<Rightarrow> 'w \<Rightarrow> 'w"
  np_inl :: "u16 \<Rightarrow> 'w \<Rightarrow> u32 \<times> 'w"
  np_outl :: "u16 \<Rightarrow> u32 \<Rightarrow> 'w \<Rightarrow> 'w"
  np_tx :: "nat \<Rightarrow> bytes \<Rightarrow> 'w \<Rightarrow> 'w"
  np_rx :: "'w \<Rightarrow> bytes"
  np_tx_addr :: "nat \<Rightarrow> u32"
  np_rx_addr :: u32

definition ninb :: "'w net_ports \<Rightarrow> u16 \<Rightarrow> 'w \<Rightarrow> u8 \<times> 'w" where
  "ninb io p w = inb (np_io io) p w"

definition noutb :: "'w net_ports \<Rightarrow> u16 \<Rightarrow> u8 \<Rightarrow> 'w \<Rightarrow> 'w" where
  "noutb io p v w = outb (np_io io) p v w"

section \<open>Constants and headers\<close>

definition PCI_ADDR :: u16 where "PCI_ADDR = 0xCF8"
definition PCI_DATA :: u16 where "PCI_DATA = 0xCFC"
definition RTL_VENDOR :: u16 where "RTL_VENDOR = 0x10EC"
definition RTL_DEVICE :: u16 where "RTL_DEVICE = 0x8139"
definition RTL_MAC0 :: u16 where "RTL_MAC0 = 0x00"
definition RTL_TSD0 :: u16 where "RTL_TSD0 = 0x10"
definition RTL_TSAD0 :: u16 where "RTL_TSAD0 = 0x20"
definition RTL_RBSTART :: u16 where "RTL_RBSTART = 0x30"
definition RTL_CMD :: u16 where "RTL_CMD = 0x37"
definition RTL_CAPR :: u16 where "RTL_CAPR = 0x38"
definition RTL_IMR :: u16 where "RTL_IMR = 0x3C"
definition RTL_ISR :: u16 where "RTL_ISR = 0x3E"
definition RTL_TCR :: u16 where "RTL_TCR = 0x40"
definition RTL_RCR :: u16 where "RTL_RCR = 0x44"
definition RTL_CONFIG1 :: u16 where "RTL_CONFIG1 = 0x52"

lemmas rtl_regs = RTL_MAC0_def RTL_TSD0_def RTL_TSAD0_def RTL_RBSTART_def RTL_CMD_def RTL_CAPR_def RTL_IMR_def RTL_ISR_def
  RTL_TCR_def RTL_RCR_def RTL_CONFIG1_def

definition TX_BUFS :: nat where "TX_BUFS = 4"
definition TX_BUF_SIZE :: nat where "TX_BUF_SIZE = 1536"
definition RX_BUF_SIZE :: nat where "RX_BUF_SIZE = 8192 + 16 + 1500"
definition RX_RING_SIZE :: nat where "RX_RING_SIZE = 4"
definition TCP_MAX_SOCKETS :: nat where "TCP_MAX_SOCKETS = 8"
definition TCP_BUF_SIZE :: nat where "TCP_BUF_SIZE = 4096"

lemmas net_sizes = TX_BUFS_def TX_BUF_SIZE_def RX_BUF_SIZE_def RX_RING_SIZE_def TCP_MAX_SOCKETS_def TCP_BUF_SIZE_def

definition ETH_ALEN :: nat where "ETH_ALEN = 6"
definition ETH_P_IP :: u16 where "ETH_P_IP = 0x0800"
definition ETH_P_ARP :: u16 where "ETH_P_ARP = 0x0806"
definition IPPROTO_UDP :: u8 where "IPPROTO_UDP = 17"
definition IPPROTO_TCP :: u8 where "IPPROTO_TCP = 6"

definition TCP_FIN :: u8 where "TCP_FIN = 0x01"
definition TCP_SYN :: u8 where "TCP_SYN = 0x02"
definition TCP_RST :: u8 where "TCP_RST = 0x04"
definition TCP_ACK :: u8 where "TCP_ACK = 0x10"

definition NET_IP :: "u32 \<Rightarrow> u32 \<Rightarrow> u32 \<Rightarrow> u32 \<Rightarrow> u32" where
  "NET_IP a b c d = push_bit 24 a OR push_bit 16 b OR push_bit 8 c OR d"

definition NET_HTONS :: "u16 \<Rightarrow> u16" where
  "NET_HTONS x = drop_bit 8 x OR push_bit 8 x"

definition NET_HTONL :: "u32 \<Rightarrow> u32" where
  "NET_HTONL x = drop_bit 24 x OR (drop_bit 8 x AND 0xFF00) OR (push_bit 8 x AND 0xFF0000) OR push_bit 24 x"

record eth_hdr_t =
  eth_dst :: bytes
  eth_src :: bytes
  eth_type :: u16

record ip_hdr_t =
  version_ihl :: u8
  tos :: u8
  total_len :: u16
  ip_id :: u16
  flags_frag :: u16
  ttl :: u8
  protocol :: u8
  ip_csum :: u16
  src_ip :: u32
  dst_ip :: u32

record udp_hdr_t =
  udp_src :: u16
  udp_dst :: u16
  udp_length :: u16
  udp_csum :: u16

record arp_pkt_t =
  hw_type :: bytes
  proto_type :: bytes
  hw_len :: u8
  proto_len :: u8
  operation :: u16
  sender_mac :: bytes
  sender_ip :: u32
  target_mac :: bytes
  target_ip :: u32

record tcp_hdr_t =
  th_src :: u16
  th_dst :: u16
  th_seq :: u32
  th_ack_seq :: u32
  data_offset :: u8
  th_flags :: u8
  window :: u16
  th_csum :: u16
  urg_ptr :: u16

text \<open>The packed structures as bytes, and a cast of a pointer to one of them.\<close>

definition eth_bytes :: "eth_hdr_t \<Rightarrow> bytes" where
  "eth_bytes h = eth_dst h @ eth_src h @ wr16 (eth_type h)"

definition eth_of :: "bytes \<Rightarrow> eth_hdr_t" where
  "eth_of b = \<lparr>eth_dst = take 6 b, eth_src = take 6 (drop 6 b), eth_type = rd16 b 12\<rparr>"

definition ip_bytes :: "ip_hdr_t \<Rightarrow> bytes" where
  "ip_bytes h = [version_ihl h, tos h] @ wr16 (total_len h) @ wr16 (ip_id h) @ wr16 (flags_frag h) @ [ttl h, protocol h]
     @ wr16 (ip_csum h) @ wr32 (src_ip h) @ wr32 (dst_ip h)"

definition ip_of :: "bytes \<Rightarrow> ip_hdr_t" where
  "ip_of b = \<lparr>version_ihl = b ! 0, tos = b ! 1, total_len = rd16 b 2, ip_id = rd16 b 4, flags_frag = rd16 b 6, ttl = b ! 8,
     protocol = b ! 9, ip_csum = rd16 b 10, src_ip = rd32 b 12, dst_ip = rd32 b 16\<rparr>"

definition udp_bytes :: "udp_hdr_t \<Rightarrow> bytes" where
  "udp_bytes h = wr16 (udp_src h) @ wr16 (udp_dst h) @ wr16 (udp_length h) @ wr16 (udp_csum h)"

definition udp_of :: "bytes \<Rightarrow> udp_hdr_t" where
  "udp_of b = \<lparr>udp_src = rd16 b 0, udp_dst = rd16 b 2, udp_length = rd16 b 4, udp_csum = rd16 b 6\<rparr>"

definition arp_bytes :: "arp_pkt_t \<Rightarrow> bytes" where
  "arp_bytes a = hw_type a @ proto_type a @ [hw_len a, proto_len a] @ wr16 (operation a) @ sender_mac a @ wr32 (sender_ip a)
     @ target_mac a @ wr32 (target_ip a)"

definition arp_of :: "bytes \<Rightarrow> arp_pkt_t" where
  "arp_of b = \<lparr>hw_type = take 2 b, proto_type = take 2 (drop 2 b), hw_len = b ! 4, proto_len = b ! 5, operation = rd16 b 6,
     sender_mac = take 6 (drop 8 b), sender_ip = rd32 b 14, target_mac = take 6 (drop 18 b), target_ip = rd32 b 24\<rparr>"

definition tcp_bytes :: "tcp_hdr_t \<Rightarrow> bytes" where
  "tcp_bytes h = wr16 (th_src h) @ wr16 (th_dst h) @ wr32 (th_seq h) @ wr32 (th_ack_seq h) @ [data_offset h, th_flags h]
     @ wr16 (window h) @ wr16 (th_csum h) @ wr16 (urg_ptr h)"

definition tcp_of :: "bytes \<Rightarrow> tcp_hdr_t" where
  "tcp_of b = \<lparr>th_src = rd16 b 0, th_dst = rd16 b 2, th_seq = rd32 b 4, th_ack_seq = rd32 b 8, data_offset = b ! 12,
     th_flags = b ! 13, window = rd16 b 14, th_csum = rd16 b 16, urg_ptr = rd16 b 18\<rparr>"

section \<open>State\<close>

datatype tcp_state_t = TCP_CLOSED | TCP_SYN_SENT | TCP_SYN_RECV | TCP_ESTABLISHED | TCP_FIN_WAIT1 | TCP_FIN_WAIT2
  | TCP_CLOSE_WAIT | TCP_LAST_ACK | TCP_TIME_WAIT

record tcp_socket_t =
  ts_state :: tcp_state_t
  local_ip :: u32
  remote_ip :: u32
  local_port :: u16
  remote_port :: u16
  ts_seq :: u32
  ts_ack :: u32
  rbuf :: "nat \<Rightarrow> u8"
  rbuf_head :: nat
  rbuf_tail :: nat
  ts_used :: bool

record rx_slot =
  rx_bytes :: bytes
  rx_len :: u16

text \<open>The static variables; the four bytes of an entry of \<^verbatim>\<open>arp_cache_ip\<close> are the address they are copied from.\<close>

record net =
  rtl_iobase :: u16
  tx_idx :: nat
  rtl_ready_flag :: bool
  my_mac :: bytes
  my_ip :: u32
  gw_ip :: u32
  net_mask :: u32
  arp_cache_ip :: "nat \<Rightarrow> u32"
  arp_cache_mac :: "nat \<Rightarrow> bytes"
  arp_count :: nat
  rx_ring :: "nat \<Rightarrow> rx_slot"
  rx_head :: nat
  rx_tail :: nat
  tcp_sockets :: "nat \<Rightarrow> tcp_socket_t"
  tcp_next_port :: u16

definition tcp_socket_zero :: tcp_socket_t where
  "tcp_socket_zero = \<lparr>ts_state = TCP_CLOSED, local_ip = 0, remote_ip = 0, local_port = 0, remote_port = 0, ts_seq = 0, ts_ack = 0,
     rbuf = (\<lambda>_. 0), rbuf_head = 0, rbuf_tail = 0, ts_used = False\<rparr>"

definition net0 :: net where
  "net0 = \<lparr>rtl_iobase = 0, tx_idx = 0, rtl_ready_flag = False, my_mac = replicate ETH_ALEN 0, my_ip = NET_IP 10 0 2 15,
     gw_ip = NET_IP 10 0 2 2, net_mask = NET_IP 255 255 255 0, arp_cache_ip = (\<lambda>_. 0), arp_cache_mac = (\<lambda>_. replicate ETH_ALEN 0),
     arp_count = 0, rx_ring = (\<lambda>_. \<lparr>rx_bytes = replicate 1600 0, rx_len = 0\<rparr>), rx_head = 0, rx_tail = 0,
     tcp_sockets = (\<lambda>_. tcp_socket_zero), tcp_next_port = 49152\<rparr>"

section \<open>The card\<close>

definition pci_addr :: "u8 \<Rightarrow> u8 \<Rightarrow> u8 \<Rightarrow> u8 \<Rightarrow> u32" where
  "pci_addr bus dev fn reg =
     0x80000000 OR push_bit 16 (ucast bus) OR push_bit 11 (ucast dev) OR push_bit 8 (ucast fn) OR ucast (reg AND 0xFC)"

definition pci_read :: "'w net_ports \<Rightarrow> u8 \<Rightarrow> u8 \<Rightarrow> u8 \<Rightarrow> u8 \<Rightarrow> 'w \<Rightarrow> u32 \<times> 'w" where
  "pci_read io bus dev fn reg w = np_inl io PCI_DATA (np_outl io PCI_ADDR (pci_addr bus dev fn reg) w)"

definition pci_write :: "'w net_ports \<Rightarrow> u8 \<Rightarrow> u8 \<Rightarrow> u8 \<Rightarrow> u8 \<Rightarrow> u32 \<Rightarrow> 'w \<Rightarrow> 'w" where
  "pci_write io bus dev fn reg val w = np_outl io PCI_DATA val (np_outl io PCI_ADDR (pci_addr bus dev fn reg) w)"

fun find_rtl_from :: "'w net_ports \<Rightarrow> (nat \<times> nat) list \<Rightarrow> 'w \<Rightarrow> (u8 \<times> u8) option \<times> 'w" where
  "find_rtl_from io [] w = (None, w)"
| "find_rtl_from io ((bus, dev) # r) w =
     (case pci_read io (of_nat bus) (of_nat dev) 0 0 w of (dev_id, w1) \<Rightarrow>
        if ucast (dev_id AND 0xFFFF) = RTL_VENDOR \<and> ucast (drop_bit 16 dev_id) = RTL_DEVICE
        then (Some (of_nat bus, of_nat dev), w1) else find_rtl_from io r w1)"

definition find_rtl8139 :: "'w net_ports \<Rightarrow> 'w \<Rightarrow> (u8 \<times> u8) option \<times> 'w" where
  "find_rtl8139 io w = find_rtl_from io (List.product [0..<8] [0..<32]) w"

text \<open>The wait for the end of the reset, which has no bound.\<close>

partial_function (option) wait_reset :: "'w net_ports \<Rightarrow> u16 \<Rightarrow> 'w \<Rightarrow> 'w option" where
  "wait_reset io base w =
     (case ninb io (base + RTL_CMD) w of (c, w1) \<Rightarrow> if tst c 0x10 then wait_reset io base w1 else Some w1)"

fun read_mac :: "'w net_ports \<Rightarrow> u16 \<Rightarrow> nat list \<Rightarrow> 'w \<Rightarrow> bytes \<times> 'w" where
  "read_mac io base [] w = ([], w)"
| "read_mac io base (i # r) w =
     (case ninb io (base + RTL_MAC0 + of_nat i) w of (b, w1) \<Rightarrow> case read_mac io base r w1 of (bs, w2) \<Rightarrow> (b # bs, w2))"

definition net_init :: "'w net_ports \<Rightarrow> net \<times> 'w \<Rightarrow> (int \<times> net \<times> 'w) option" where
  "net_init io = (\<lambda>(st, w).
     (case find_rtl8139 io w of
        (None, w1) \<Rightarrow> Some (-1, st, w1)
      | (Some (bus, dev_n), w1) \<Rightarrow>
          (case pci_read io bus dev_n 0 0x10 w1 of (bar0, w2) \<Rightarrow>
             if \<not> tst bar0 1 then Some (-1, st, w2)
             else let base = ucast (bar0 AND 0xFFFC) in
               case pci_read io bus dev_n 0 0x04 w2 of (cmd, w3) \<Rightarrow> do {
                 let w4 = pci_write io bus dev_n 0 0x04 (cmd OR 0x07) w3;
                 let w5 = noutb io (base + RTL_CMD) 0x10 (noutb io (base + RTL_CONFIG1) 0x00 w4);
                 w6 \<leftarrow> wait_reset io base w5;
                 let (mac, w7) = read_mac io base [0..<ETH_ALEN] w6;
                 let w8 = np_outl io (base + RTL_RBSTART) (np_rx_addr io) w7;
                 let w9 = np_outw io (base + RTL_IMR) 0x0005 w8;
                 let w10 = np_outl io (base + RTL_RCR) 0x0000000F w9;
                 let w11 = np_outl io (base + RTL_TCR) 0x03000700 w10;
                 let w12 = noutb io (base + RTL_CMD) 0x0C w11;
                 let w13 = fold (\<lambda>i. np_outl io (base + RTL_TSAD0 + of_nat (i * 4)) (np_tx_addr io i)) [0..<TX_BUFS] w12;
                 Some (0, st\<lparr>rtl_iobase := base, my_mac := mac, rtl_ready_flag := True\<rparr>, w13) })))"

definition net_ready :: "net \<Rightarrow> bool" where "net_ready st = rtl_ready_flag st"
definition net_get_mac :: "net \<Rightarrow> bytes" where "net_get_mac st = my_mac st"
definition net_get_ip :: "net \<Rightarrow> u32" where "net_get_ip st = my_ip st"

fun wait_sent :: "nat \<Rightarrow> 'w net_ports \<Rightarrow> u16 \<Rightarrow> 'w \<Rightarrow> 'w" where
  "wait_sent 0 io port w = w"
| "wait_sent (Suc tries) io port w =
     (case np_inl io port w of (v, w1) \<Rightarrow> if tst v 0x8000 then w1 else wait_sent tries io port w1)"

definition net_send_raw :: "'w net_ports \<Rightarrow> bytes \<Rightarrow> u16 \<Rightarrow> net \<times> 'w \<Rightarrow> (int \<times> net \<times> 'w) option" where
  "net_send_raw io frame len = (\<lambda>(st, w).
     (if \<not> rtl_ready_flag st \<or> unat len > TX_BUF_SIZE then Some (-1, st, w)
      else do {
        b \<leftarrow> slice frame 0 (unat len);
        let w1 = np_outl io (rtl_iobase st + RTL_TSD0 + of_nat (tx_idx st * 4)) (ucast len) (np_tx io (tx_idx st) b w);
        let st1 = st\<lparr>tx_idx := (tx_idx st + 1) mod TX_BUFS\<rparr>;
        Some (0, st1, wait_sent 10000 io (rtl_iobase st + RTL_TSD0 + of_nat ((tx_idx st1 + TX_BUFS - 1) mod TX_BUFS * 4)) w1) }))"

section \<open>The Internet checksum\<close>

fun csum_words :: "bytes \<Rightarrow> nat \<Rightarrow> u32 \<Rightarrow> u32 option" where
  "csum_words p len sm =
     (if len > 1 then (case p of a # b # r \<Rightarrow> csum_words r (len - 2) (sm + ucast (rd16 [a, b] 0)) | _ \<Rightarrow> None)
      else if len = 1 then (case p of a # r \<Rightarrow> Some (sm + ucast a) | _ \<Rightarrow> None)
      else Some sm)"

declare csum_words.simps [simp del]

lemma csum_fold_decreases:
  "drop_bit 16 sm \<noteq> 0 \<Longrightarrow> (sm AND 0xFFFF) + drop_bit 16 sm < (sm :: u32)"
proof -
  assume nz: "drop_bit 16 sm \<noteq> 0"
  let ?n = "unat sm"
  have d: "unat (drop_bit 16 sm) = ?n div 65536" by (simp add: drop_bit_eq_div unat_div)
  have m: "unat (sm AND 0xFFFF) = ?n mod 65536" by (simp add: and_masks take_bit_eq_mod unat_mod)
  have "?n div 65536 \<noteq> 0" using nz d by (metis unat_eq_zero)
  then have lt: "?n mod 65536 + ?n div 65536 < ?n" using mod_mult_div_eq [of ?n 65536] by linarith
  moreover have "?n < 2 ^ 32" by (rule unat_u32_lt)
  ultimately have "unat ((sm AND 0xFFFF) + drop_bit 16 sm) = ?n mod 65536 + ?n div 65536"
    by (simp add: unat_word_ariths d m)
  with lt show ?thesis by (simp add: word_less_nat_alt)
qed

function csum_fold :: "u32 \<Rightarrow> u32" where
  "csum_fold sm = (if drop_bit 16 sm \<noteq> 0 then csum_fold ((sm AND 0xFFFF) + drop_bit 16 sm) else sm)"
  by pat_completeness auto
termination
proof (relation "measure unat")
  fix sm :: u32
  assume "drop_bit 16 sm \<noteq> 0"
  from csum_fold_decreases [OF this]
  show "((sm AND 0xFFFF) + drop_bit 16 sm, sm) \<in> measure unat" by (simp add: word_less_nat_alt)
qed simp

declare csum_fold.simps [simp del]

definition ip_checksum :: "bytes \<Rightarrow> nat \<Rightarrow> u16 option" where
  "ip_checksum p len = do { sm \<leftarrow> csum_words p len 0; Some (ucast (NOT (csum_fold sm))) }"

section \<open>The address cache\<close>

definition arp_find :: "net \<Rightarrow> u32 \<Rightarrow> nat option" where
  "arp_find st ip = first_idx (\<lambda>i. arp_cache_ip st i = ip) 0 (arp_count st)"

definition arp_learn :: "u32 \<Rightarrow> bytes \<Rightarrow> net \<Rightarrow> net" where
  "arp_learn ip mac st =
     (case arp_find st ip of
        Some i \<Rightarrow> st\<lparr>arp_cache_mac := (arp_cache_mac st)(i := mac)\<rparr>
      | None \<Rightarrow>
          if arp_count st < 8
          then st\<lparr>arp_cache_ip := (arp_cache_ip st)(arp_count st := ip),
                  arp_cache_mac := (arp_cache_mac st)(arp_count st := mac), arp_count := arp_count st + 1\<rparr>
          else st)"

definition arp_lookup :: "u32 \<Rightarrow> net \<Rightarrow> bytes option" where
  "arp_lookup ip st = map_option (arp_cache_mac st) (arp_find st ip)"

definition arp_request_frame :: "u32 \<Rightarrow> net \<Rightarrow> bytes" where
  "arp_request_frame ip st =
     eth_bytes \<lparr>eth_dst = replicate ETH_ALEN 0xFF, eth_src = my_mac st, eth_type = NET_HTONS ETH_P_ARP\<rparr>
     @ arp_bytes \<lparr>hw_type = [0, 1], proto_type = [8, 0], hw_len = 6, proto_len = 4, operation = NET_HTONS 1,
         sender_mac = my_mac st, sender_ip = NET_HTONL (my_ip st), target_mac = replicate ETH_ALEN 0, target_ip = NET_HTONL ip\<rparr>"

definition send_arp_request :: "'w net_ports \<Rightarrow> u32 \<Rightarrow> net \<times> 'w \<Rightarrow> (net \<times> 'w) option" where
  "send_arp_request io ip = (\<lambda>(st, w). map_option snd (net_send_raw io (arp_request_frame ip st) 42 (st, w)))"

section \<open>Sending UDP\<close>

definition nexthop :: "u32 \<Rightarrow> net \<Rightarrow> u32" where
  "nexthop dst st =
     (if dst AND NET_HTONL (net_mask st) = my_ip st AND NET_HTONL (net_mask st) then dst else gw_ip st)"

text \<open>The destination's hardware address: from the cache, after a request and 50 milliseconds, or broadcast.\<close>

definition resolve_mac :: "'w net_ports \<Rightarrow> u32 \<Rightarrow> net \<times> timer \<times> 'w \<Rightarrow> (bytes \<times> net \<times> timer \<times> 'w) option" where
  "resolve_mac io hop = (\<lambda>(st, t, w).
     (case arp_lookup hop st of
        Some m \<Rightarrow> Some (m, st, t, w)
      | None \<Rightarrow> do {
          (st1, w1) \<leftarrow> send_arp_request io hop (st, w);
          (t1, w2) \<leftarrow> timer_sleep 50 (np_io io) (t, w1);
          Some (case arp_lookup hop st1 of Some m \<Rightarrow> m | None \<Rightarrow> replicate ETH_ALEN 0xFF, st1, t1, w2) }))"

definition ip_header :: "u16 \<Rightarrow> u16 \<Rightarrow> u8 \<Rightarrow> u32 \<Rightarrow> u32 \<Rightarrow> ip_hdr_t" where
  "ip_header len ident proto src dst =
     \<lparr>version_ihl = 0x45, tos = 0, total_len = NET_HTONS len, ip_id = ident, flags_frag = 0, ttl = 64, protocol = proto,
      ip_csum = 0, src_ip = NET_HTONL src, dst_ip = NET_HTONL dst\<rparr>"

definition add_checksum :: "ip_hdr_t \<Rightarrow> ip_hdr_t option" where
  "add_checksum h = do { c \<leftarrow> ip_checksum (ip_bytes h) 20; Some (h\<lparr>ip_csum := c\<rparr>) }"

text \<open>
  The contents of \<^verbatim>\<open>pkt\<close>, which has 1500 bytes: more data than fits is written behind it.
\<close>

definition udp_frame :: "net \<Rightarrow> bytes \<Rightarrow> u32 \<Rightarrow> u16 \<Rightarrow> u16 \<Rightarrow> bytes \<Rightarrow> u16 \<Rightarrow> bytes option" where
  "udp_frame st mac dst src_port dst_port data len = do {
     ip \<leftarrow> add_checksum (ip_header (20 + 8 + len) (NET_HTONS 1) IPPROTO_UDP (my_ip st) dst);
     d \<leftarrow> slice data 0 (unat len);
     if unat len + 42 > 1500 then None
     else Some (eth_bytes \<lparr>eth_dst = mac, eth_src = my_mac st, eth_type = NET_HTONS ETH_P_IP\<rparr> @ ip_bytes ip
       @ udp_bytes \<lparr>udp_src = NET_HTONS src_port, udp_dst = NET_HTONS dst_port, udp_length = NET_HTONS (8 + len), udp_csum = 0\<rparr>
       @ d) }"

definition net_send_udp ::
  "'w net_ports \<Rightarrow> u32 \<Rightarrow> u16 \<Rightarrow> u16 \<Rightarrow> bytes \<Rightarrow> u16 \<Rightarrow> net \<times> timer \<times> 'w \<Rightarrow> (int \<times> net \<times> timer \<times> 'w) option" where
  "net_send_udp io dst src_port dst_port data len = (\<lambda>(st, t, w).
     (if \<not> rtl_ready_flag st then Some (-1, st, t, w)
      else do {
        (mac, st1, t1, w1) \<leftarrow> resolve_mac io (nexthop dst st) (st, t, w);
        f \<leftarrow> udp_frame st1 mac dst src_port dst_port data len;
        (r, st2, w2) \<leftarrow> net_send_raw io f (14 + (20 + 8 + len)) (st1, w1);
        Some (r, st2, t1, w2) }))"

section \<open>TCP segments\<close>

definition sock_upd :: "nat \<Rightarrow> (tcp_socket_t \<Rightarrow> tcp_socket_t) \<Rightarrow> net \<Rightarrow> net" where
  "sock_upd i f st = st\<lparr>tcp_sockets := (tcp_sockets st)(i := f (tcp_sockets st i))\<rparr>"

definition tcp_frame :: "net \<Rightarrow> tcp_socket_t \<Rightarrow> u8 \<Rightarrow> bytes \<Rightarrow> u16 \<Rightarrow> bytes option" where
  "tcp_frame st s flags data dlen = do {
     ip \<leftarrow> add_checksum (ip_header (20 + (20 + dlen)) 0 IPPROTO_TCP (local_ip s) (remote_ip s));
     d \<leftarrow> (if dlen \<noteq> 0 then slice data 0 (unat dlen) else Some []);
     if unat dlen + 54 > 1500 then None
     else Some (eth_bytes \<lparr>eth_dst = (case arp_lookup (remote_ip s) st of Some m \<Rightarrow> m | None \<Rightarrow> replicate ETH_ALEN 0xFF),
                           eth_src = my_mac st, eth_type = NET_HTONS ETH_P_IP\<rparr> @ ip_bytes ip
       @ tcp_bytes \<lparr>th_src = NET_HTONS (local_port s), th_dst = NET_HTONS (remote_port s), th_seq = NET_HTONL (ts_seq s),
           th_ack_seq = (if tst flags TCP_ACK then NET_HTONL (ts_ack s) else 0), data_offset = 0x50, th_flags = flags,
           window = NET_HTONS 4096, th_csum = 0, urg_ptr = 0\<rparr> @ d) }"

definition tcp_send_raw :: "'w net_ports \<Rightarrow> nat \<Rightarrow> u8 \<Rightarrow> bytes \<Rightarrow> u16 \<Rightarrow> net \<times> 'w \<Rightarrow> (net \<times> 'w) option" where
  "tcp_send_raw io i flags data dlen = (\<lambda>(st, w). do {
     f \<leftarrow> tcp_frame st (tcp_sockets st i) flags data dlen;
     (_, st1, w1) \<leftarrow> net_send_raw io f (14 + (20 + (20 + dlen))) (st, w);
     Some (sock_upd i (\<lambda>s. s\<lparr>ts_seq := ts_seq s + (if tst flags (TCP_SYN OR TCP_FIN) then 1 else 0) + ucast dlen\<rparr>) st1, w1) })"

definition sock_put :: "u8 \<Rightarrow> tcp_socket_t \<Rightarrow> tcp_socket_t" where
  "sock_put c s = s\<lparr>rbuf := (rbuf s)(rbuf_head s := c), rbuf_head := (rbuf_head s + 1) mod TCP_BUF_SIZE\<rparr>"

definition tcp_match :: "net \<Rightarrow> ip_hdr_t \<Rightarrow> tcp_hdr_t \<Rightarrow> nat \<Rightarrow> bool" where
  "tcp_match st ip tcp i \<longleftrightarrow> ts_used (tcp_sockets st i) \<and> remote_ip (tcp_sockets st i) = NET_HTONL (src_ip ip)
     \<and> remote_port (tcp_sockets st i) = NET_HTONS (th_src tcp) \<and> local_port (tcp_sockets st i) = NET_HTONS (th_dst tcp)"

text \<open>What \<^verbatim>\<open>tcp_process\<close> does for an established socket: the data, then the FIN.\<close>

definition tcp_data ::
  "'w net_ports \<Rightarrow> nat \<Rightarrow> tcp_hdr_t \<Rightarrow> bytes \<Rightarrow> u16 \<Rightarrow> net \<times> 'w \<Rightarrow> (net \<times> 'w) option" where
  "tcp_data io i tcp frame len = (\<lambda>(st, w).
     (let doff = drop_bit 4 (data_offset tcp) * 4;
          data_len = len - 14 - 20 - ucast doff
      in if data_len = 0 then Some (st, w)
         else do {
           d \<leftarrow> slice frame (14 + 20 + unat doff) (unat data_len);
           tcp_send_raw io i TCP_ACK [] 0
             (sock_upd i (\<lambda>s. fold sock_put d (s\<lparr>ts_ack := NET_HTONL (th_seq tcp) + ucast data_len\<rparr>)) st, w) }))"

definition tcp_fin :: "'w net_ports \<Rightarrow> nat \<Rightarrow> tcp_hdr_t \<Rightarrow> net \<times> 'w \<Rightarrow> (net \<times> 'w) option" where
  "tcp_fin io i tcp = (\<lambda>(st, w).
     (if tst (th_flags tcp) TCP_FIN
      then do {
        (st1, w1) \<leftarrow> tcp_send_raw io i TCP_ACK [] 0 (sock_upd i (\<lambda>s. s\<lparr>ts_ack := ts_ack s + 1\<rparr>) st, w);
        (st2, w2) \<leftarrow> tcp_send_raw io i (TCP_FIN OR TCP_ACK) [] 0 (sock_upd i (\<lambda>s. s\<lparr>ts_state := TCP_CLOSE_WAIT\<rparr>) st1, w1);
        Some (sock_upd i (\<lambda>s. s\<lparr>ts_state := TCP_LAST_ACK\<rparr>) st2, w2) }
      else Some (st, w)))"

definition tcp_process :: "'w net_ports \<Rightarrow> bytes \<Rightarrow> u16 \<Rightarrow> net \<times> 'w \<Rightarrow> (net \<times> 'w) option" where
  "tcp_process io frame len = (\<lambda>(st, w).
     (if len < 14 + 20 + 20 then Some (st, w)
      else do {
        ipb \<leftarrow> slice frame 14 20;
        tcpb \<leftarrow> slice frame 34 20;
        let ip = ip_of ipb; let tcp = tcp_of tcpb;
        case first_idx (tcp_match st ip tcp) 0 TCP_MAX_SOCKETS of
          None \<Rightarrow> Some (st, w)
        | Some i \<Rightarrow>
            if ts_state (tcp_sockets st i) = TCP_SYN_SENT \<and> th_flags tcp AND (TCP_SYN OR TCP_ACK) = TCP_SYN OR TCP_ACK
            then tcp_send_raw io i TCP_ACK [] 0
                   (sock_upd i (\<lambda>s. s\<lparr>ts_ack := NET_HTONL (th_seq tcp) + 1, ts_seq := NET_HTONL (th_ack_seq tcp),
                                     ts_state := TCP_ESTABLISHED\<rparr>) st, w)
            else if ts_state (tcp_sockets st i) = TCP_ESTABLISHED
            then do { sw1 \<leftarrow> tcp_data io i tcp frame len (st, w); tcp_fin io i tcp sw1 }
            else Some (st, w) }))"

section \<open>Receiving\<close>

definition queue_frame :: "bytes \<Rightarrow> u16 \<Rightarrow> net \<Rightarrow> net option" where
  "queue_frame payload pkt_len st =
     (if (rx_head st + 1) mod RX_RING_SIZE = rx_tail st then Some st
      else do {
        d \<leftarrow> slice payload 0 (unat pkt_len);
        b \<leftarrow> blit (rx_bytes (rx_ring st (rx_head st))) 0 d;
        Some (st\<lparr>rx_ring := (rx_ring st)(rx_head st := \<lparr>rx_bytes = b, rx_len = pkt_len\<rparr>),
                 rx_head := (rx_head st + 1) mod RX_RING_SIZE\<rparr>) })"

text \<open>The dispatch on the type of a frame.\<close>

definition net_dispatch :: "'w net_ports \<Rightarrow> bytes \<Rightarrow> u16 \<Rightarrow> net \<times> 'w \<Rightarrow> (net \<times> 'w) option" where
  "net_dispatch io payload pkt_len = (\<lambda>(st, w). do {
     ethb \<leftarrow> slice payload 0 14;
     let etype = NET_HTONS (eth_type (eth_of ethb));
     if etype = ETH_P_ARP \<and> pkt_len \<ge> 14 + 28
     then do {
       a \<leftarrow> slice payload 14 28;
       Some (arp_learn (NET_HTONL (sender_ip (arp_of a))) (sender_mac (arp_of a)) st, w) }
     else if etype = ETH_P_IP \<and> pkt_len \<ge> 14 + 20
     then do {
       ipb \<leftarrow> slice payload 14 20;
       if protocol (ip_of ipb) = IPPROTO_UDP \<and> pkt_len \<ge> 14 + 20 + 8 then map_option (\<lambda>s. (s, w)) (queue_frame payload pkt_len st)
       else if protocol (ip_of ipb) = IPPROTO_TCP \<and> pkt_len \<ge> 14 + 20 + 20 then tcp_process io payload pkt_len (st, w)
       else Some (st, w) }
     else Some (st, w) })"

text \<open>The loop of \<^verbatim>\<open>net_poll\<close> ends with a \<^verbatim>\<open>break\<close>: at most one frame is taken.\<close>

definition net_poll :: "'w net_ports \<Rightarrow> net \<times> 'w \<Rightarrow> (net \<times> 'w) option" where
  "net_poll io = (\<lambda>(st, w).
     (if \<not> rtl_ready_flag st then Some (st, w)
      else case np_inw io (rtl_iobase st + RTL_ISR) w of (isr, w1) \<Rightarrow>
        if \<not> tst isr 0x01 then Some (st, w1)
        else case ninb io (rtl_iobase st + RTL_CMD) (np_outw io (rtl_iobase st + RTL_ISR) isr w1) of (cmd, w2) \<Rightarrow>
          if tst cmd 0x01 then Some (st, w2)
          else case np_inw io (rtl_iobase st + RTL_CAPR) w2 of (capr, w3) \<Rightarrow> do {
            let off = capr + 16;
            let p = drop (unat off mod (8192 + 16)) (np_rx io w3);
            hd4 \<leftarrow> slice p 0 4;
            let pkt_len = rd16 hd4 2;
            if pkt_len = 0 \<or> pkt_len > 1514 then Some (st, w3)
            else do {
              (st1, w4) \<leftarrow> net_dispatch io (drop 4 p) pkt_len (st, w3);
              let rx_ptr = (off + pkt_len + 4 + 3) AND NOT 3;
              Some (st1, np_outw io (rtl_iobase st1 + RTL_CAPR) (rx_ptr - 16) w4) } }))"

text \<open>The result: the length, the caller's buffer, and the sender where it is stored.\<close>

definition udp_take :: "u16 \<Rightarrow> bytes \<Rightarrow> u16 \<Rightarrow> net \<Rightarrow> (int \<times> bytes \<times> (u32 \<times> u16) option \<times> net) option" where
  "udp_take port buf bufsz st =
     (if rx_head st = rx_tail st then Some (0, buf, None, st)
      else let f = rx_bytes (rx_ring st (rx_tail st)); len = rx_len (rx_ring st (rx_tail st));
               st1 = st\<lparr>rx_tail := (rx_tail st + 1) mod RX_RING_SIZE\<rparr>
        in if len < 14 + 20 + 8 then Some (0, buf, None, st1)
           else do {
             ipb \<leftarrow> slice f 14 20;
             udpb \<leftarrow> slice f 34 8;
             let ip = ip_of ipb; let udp = udp_of udpb;
             if NET_HTONS (udp_dst udp) \<noteq> port then Some (0, buf, None, st1)
             else do {
               let n = NET_HTONS (udp_length udp) - 8;
               let data_len = (if n > bufsz then bufsz else n);
               d \<leftarrow> slice f 42 (unat data_len);
               buf1 \<leftarrow> blit buf 0 d;
               Some (uint data_len, buf1, Some (NET_HTONL (src_ip ip), NET_HTONS (udp_src udp)), st1) } })"

definition net_recv_udp ::
  "'w net_ports \<Rightarrow> u16 \<Rightarrow> bytes \<Rightarrow> u16 \<Rightarrow> net \<times> 'w \<Rightarrow> (int \<times> bytes \<times> (u32 \<times> u16) option \<times> net \<times> 'w) option" where
  "net_recv_udp io port buf bufsz sw = do {
     (st, w) \<leftarrow> net_poll io sw;
     (n, buf1, from, st1) \<leftarrow> udp_take port buf bufsz st;
     Some (n, buf1, from, st1, w) }"

definition mac_text :: "bytes \<Rightarrow> bytes" where
  "mac_text m = concat (map (\<lambda>i. let b = m ! i; h = (\<lambda>x. of_char (''0123456789ABCDEF'' ! unat (x :: u8))) in
     [h (drop_bit 4 b), h (b AND 0xF)] @ (if i < 5 then [of_char CHR '':''] else [])) [0..<ETH_ALEN])"

definition net_print_info :: "net \<Rightarrow> vga \<Rightarrow> vga option" where
  "net_print_info st v = do {
     v1 \<leftarrow> vga_puts (10 # lit_lines [''  === Network ==='', '''']) (vga_set_color VGA_YELLOW VGA_BLACK v);
     let v2 = vga_set_color VGA_WHITE VGA_BLACK v1;
     if \<not> rtl_ready_flag st then vga_puts (lit_lines [''  No NIC found.'', '''']) v2
     else do {
       v3 \<leftarrow> vga_puts (butlast (lit_lines [''  NIC:  RTL8139'']) @ lit ''  MAC:  '') v2;
       let v4 = vga_putchar 10 (fold vga_putchar (mac_text (my_mac st)) v3);
       v5 \<leftarrow> vga_puts (lit_lines [''  IP:   10.0.2.15'']) v4;
       v6 \<leftarrow> vga_puts (lit_lines [''  GW:   10.0.2.2'']) v5;
       vga_puts (lit_lines [''  QEMU: -nic user'', '''']) v6 } }"

section \<open>Sockets\<close>

fun connect_wait :: "nat \<Rightarrow> 'w net_ports \<Rightarrow> nat \<Rightarrow> net \<times> timer \<times> 'w \<Rightarrow> (int \<times> net \<times> timer \<times> 'w) option" where
  "connect_wait 0 io s (st, t, w) = Some (-1, sock_upd s (\<lambda>x. x\<lparr>ts_used := False\<rparr>) st, t, w)"
| "connect_wait (Suc n) io s (st, t, w) = do {
     (st1, w1) \<leftarrow> net_poll io (st, w);
     if ts_state (tcp_sockets st1 s) = TCP_ESTABLISHED then Some (int s, st1, t, w1)
     else do { (t1, w2) \<leftarrow> timer_sleep 10 (np_io io) (t, w1); connect_wait n io s (st1, t1, w2) } }"

definition tcp_open :: "u32 \<Rightarrow> u16 \<Rightarrow> nat \<Rightarrow> net \<Rightarrow> net" where
  "tcp_open dst dst_port s st =
     (sock_upd s (\<lambda>_. tcp_socket_zero\<lparr>ts_used := True, local_ip := my_ip st, remote_ip := dst, local_port := tcp_next_port st,
        remote_port := dst_port, ts_seq := 0x1000, ts_state := TCP_SYN_SENT\<rparr>) st)\<lparr>tcp_next_port := tcp_next_port st + 1\<rparr>"

definition tcp_connect :: "'w net_ports \<Rightarrow> u32 \<Rightarrow> u16 \<Rightarrow> net \<times> timer \<times> 'w \<Rightarrow> (int \<times> net \<times> timer \<times> 'w) option" where
  "tcp_connect io dst dst_port = (\<lambda>(st, t, w).
     (case first_idx (\<lambda>i. \<not> ts_used (tcp_sockets st i)) 0 TCP_MAX_SOCKETS of
        None \<Rightarrow> Some (-1, st, t, w)
      | Some s \<Rightarrow> do {
          (st1, w1) \<leftarrow> send_arp_request io dst (tcp_open dst dst_port s st, w);
          (t1, w2) \<leftarrow> timer_sleep 20 (np_io io) (t, w1);
          (st2, w3) \<leftarrow> tcp_send_raw io s TCP_SYN [] 0 (st1, w2);
          connect_wait 100 io s (st2, t1, w3) }))"

definition sock_bad :: "net \<Rightarrow> int \<Rightarrow> bool" where
  "sock_bad st s \<longleftrightarrow> s < 0 \<or> s \<ge> int TCP_MAX_SOCKETS \<or> \<not> ts_used (tcp_sockets st (nat s))"

definition tcp_send :: "'w net_ports \<Rightarrow> int \<Rightarrow> bytes \<Rightarrow> u16 \<Rightarrow> net \<times> 'w \<Rightarrow> (int \<times> net \<times> 'w) option" where
  "tcp_send io s data len = (\<lambda>(st, w).
     (if sock_bad st s \<or> ts_state (tcp_sockets st (nat s)) \<noteq> TCP_ESTABLISHED then Some (-1, st, w)
      else do { (st1, w1) \<leftarrow> tcp_send_raw io (nat s) TCP_ACK data len (st, w); Some (uint len, st1, w1) }))"

definition sock_avail :: "tcp_socket_t \<Rightarrow> nat" where
  "sock_avail s = (rbuf_head s + TCP_BUF_SIZE - rbuf_tail s) mod TCP_BUF_SIZE"

definition sock_get :: "tcp_socket_t \<Rightarrow> u8 \<times> tcp_socket_t" where
  "sock_get s = (rbuf s (rbuf_tail s), s\<lparr>rbuf_tail := (rbuf_tail s + 1) mod TCP_BUF_SIZE\<rparr>)"

definition tcp_recv :: "int \<Rightarrow> bytes \<Rightarrow> u16 \<Rightarrow> net \<Rightarrow> (int \<times> bytes \<times> net) option" where
  "tcp_recv s buf len st =
     (if sock_bad st s then Some (-1, buf, st)
      else let sock = tcp_sockets st (nat s); avail = sock_avail sock in
        if avail = 0 then Some (0, buf, st)
        else let n = (if unat len > avail then avail else unat len); (d, sock1) = get_n sock_get n sock
          in do { buf1 \<leftarrow> blit buf 0 d; Some (int n, buf1, sock_upd (nat s) (\<lambda>_. sock1) st) })"

definition tcp_close :: "'w net_ports \<Rightarrow> int \<Rightarrow> net \<times> timer \<times> 'w \<Rightarrow> (net \<times> timer \<times> 'w) option" where
  "tcp_close io s = (\<lambda>(st, t, w).
     (if sock_bad st s then Some (st, t, w)
      else do {
        (st1, w1) \<leftarrow> tcp_send_raw io (nat s) (TCP_FIN OR TCP_ACK) [] 0 (st, w);
        (t1, w2) \<leftarrow> timer_sleep 100 (np_io io) (t, w1);
        Some (sock_upd (nat s) (\<lambda>x. x\<lparr>ts_state := TCP_FIN_WAIT1, ts_used := False\<rparr>) st1, t1, w2) }))"

end
