(* ===== verification/NetProps.thy ===== *)
theory NetProps
  imports Net
begin

text \<open>
  Properties of the network stack: the checksum against the ones' complement sum, the packed headers, the address cache as
  a bounded map, and the routing decision.
\<close>

section \<open>The checksum\<close>

text \<open>The sum of the 16-bit words of a buffer, low byte first, and its ones' complement reduction.\<close>

fun word_sum :: "bytes \<Rightarrow> nat" where
  "word_sum (a # b # r) = unat a + 256 * unat b + word_sum r"
| "word_sum [a] = unat a"
| "word_sum [] = 0"

definition ones_complement :: "nat \<Rightarrow> nat" where
  "ones_complement n = (if n = 0 then 0 else (n - 1) mod 65535 + 1)"

definition ref_checksum :: "bytes \<Rightarrow> u16" where
  "ref_checksum b = of_nat (65535 - ones_complement (word_sum b))"

lemma word_sum_bound: "2 * word_sum b \<le> 65536 * (length b + 1)"
proof (induction b rule: word_sum.induct)
  case (1 a b r)
  have "unat a < 256" "unat b < 256" by (rule unat_u8_lt)+
  with 1 show ?case by simp
next
  case (2 a)
  have "unat a < 256" by (rule unat_u8_lt)
  then show ?case by simp
qed simp

lemma unat_rd16: "unat (rd16 [a, b] 0) = unat a + 256 * unat b"
proof -
  have d: "(ucast a AND push_bit 8 (ucast b) :: u16) = 0"
    by (intro bit_word_eqI) (auto simp: bit_simps dest: bit_imp_le_length)
  have b: "unat a < 256" "unat b < 256" by (rule unat_u8_lt)+
  have p: "unat (push_bit 8 (ucast b) :: u16) = 256 * unat b"
    using b by (simp add: push_bit_eq_mult unat_word_ariths unsigned_ucast_eq take_bit_nat_eq_self)
  have "unat (rd16 [a, b] 0) = unat ((ucast a :: u16) + push_bit 8 (ucast b))"
    using d by (simp add: rd16_def disjunctive_add_eq_or)
  also have "\<dots> = unat a + 256 * unat b"
    using b p by (simp add: unat_word_ariths unsigned_ucast_eq take_bit_nat_eq_self)
  finally show ?thesis .
qed

lemma csum_words_sum:
  "len \<le> length p \<Longrightarrow> csum_words p len s = Some (s + of_nat (word_sum (take len p)))"
proof (induction p len s rule: csum_words.induct)
  case (1 p len s)
  show ?case
  proof (cases "len > 1")
    case True
    then obtain a b r where p: "p = a # b # r" using 1(2) by (metis One_nat_def Suc_le_length_iff less_iff_Suc_add nat_less_le Suc_leI)
    have t: "take len p = a # b # take (len - 2) r" using True p by (cases len; cases "len - 1") auto
    have w: "(ucast (rd16 [a, b] 0) :: u32) = of_nat (unat a + 256 * unat b)"
      unfolding unat_rd16 [symmetric] by simp
    have "csum_words p len s = csum_words r (len - 2) (s + ucast (rd16 [a, b] 0))"
      using True p by (simp add: csum_words.simps [of "a # b # r" len s])
    also have "\<dots> = Some (s + ucast (rd16 [a, b] 0) + of_nat (word_sum (take (len - 2) r)))"
      using 1(1) [OF True p refl] 1(2) True p by simp
    finally show ?thesis unfolding t w by (simp add: algebra_simps)
  next
    case False
    with 1(2) show ?thesis by (cases p; cases len) (auto simp: csum_words.simps)
  qed
qed

lemma csum_step:
  fixes s :: u32
  assumes "drop_bit 16 s \<noteq> 0"
  shows "unat ((s AND 0xFFFF) + drop_bit 16 s) = unat s mod 65536 + unat s div 65536"
proof -
  have d: "unat (drop_bit 16 s) = unat s div 65536" by (simp add: drop_bit_eq_div unat_div)
  have m: "unat (s AND 0xFFFF) = unat s mod 65536" by (simp add: and_masks take_bit_eq_mod unat_mod)
  have "unat s div 65536 < 65536" using unat_u32_lt [of s] by (simp add: less_mult_imp_div_less)
  then show ?thesis by (simp add: unat_word_ariths d m)
qed

lemma ones_complement_step: "ones_complement (n mod 65536 + n div 65536) = ones_complement n"
proof (cases "n = 0")
  case False
  let ?m = "n mod 65536 + n div 65536"
  have e: "n = ?m + 65535 * (n div 65536)" using mod_mult_div_eq [of n 65536] by linarith
  have nz: "?m \<noteq> 0" using False e by linarith
  then have "(n - 1) mod 65535 = (?m - 1 + 65535 * (n div 65536)) mod 65535"
    using e by (metis Nat.add_diff_assoc2 One_nat_def Suc_leI neq0_conv)
  then have "(n - 1) mod 65535 = (?m - 1) mod 65535" by (simp only: mod_mult_self2)
  then show ?thesis using False nz by (simp only: ones_complement_def if_False)
qed (simp add: ones_complement_def)

lemma csum_fold_ones: "unat (csum_fold s) = ones_complement (unat s)"
proof (induction s rule: csum_fold.induct)
  case (1 s)
  show ?case
  proof (cases "drop_bit 16 s = 0")
    case True
    moreover have "unat (drop_bit 16 s) = unat s div 65536" by (simp add: drop_bit_eq_div unat_div)
    ultimately have "unat s < 65536" by (simp add: div_eq_0_iff)
    then show ?thesis using True by (cases "unat s = 0") (auto simp: csum_fold.simps [of s] ones_complement_def)
  next
    case False
    with 1 show ?thesis by (simp add: csum_fold.simps [of s] csum_step ones_complement_step)
  qed
qed

lemma ones_complement_le: "ones_complement n \<le> 65535"
proof -
  have "(n - 1) mod 65535 < 65535" by simp
  then have "(n - 1) mod 65535 + 1 \<le> 65535" by linarith
  then show ?thesis unfolding ones_complement_def by presburger
qed

lemma ip_checksum_ref:
  assumes "len \<le> length p" "len \<le> 65536"
  shows "ip_checksum p len = Some (ref_checksum (take len p))"
proof -
  let ?s = "of_nat (word_sum (take len p)) :: u32"
  have "2 * word_sum (take len p) \<le> 65536 * (len + 1)" using word_sum_bound [of "take len p"] assms by simp
  then have u: "unat ?s = word_sum (take len p)" using assms(2) by (simp add: unsigned_of_nat take_bit_nat_eq_self)
  have f: "unat (csum_fold ?s) = ones_complement (word_sum (take len p))" by (simp add: csum_fold_ones u)
  have "ucast (NOT (csum_fold ?s)) = (NOT (ucast (csum_fold ?s)) :: u16)"
    by (intro bit_word_eqI) (auto simp: bit_simps)
  also have "(ucast (csum_fold ?s) :: u16) = of_nat (ones_complement (word_sum (take len p)))"
    unfolding f [symmetric] by simp
  also have "NOT (of_nat (ones_complement (word_sum (take len p))) :: u16)
      = of_nat (65535 - ones_complement (word_sum (take len p)))"
    using ones_complement_le [of "word_sum (take len p)"] by (simp add: not_eq_complement of_nat_diff)
  finally show ?thesis using assms(1) by (simp add: ip_checksum_def csum_words_sum ref_checksum_def)
qed

text \<open>
  C25. \<^verbatim>\<open>ip_checksum\<close> computes the Internet checksum: for every buffer of at most 65536 bytes the loop with deferred
  carries gives the complement of the ones' complement sum of the 16-bit words, an odd last byte counting as a word.
\<close>

theorem ip_checksum_reference:
  "len \<le> length p \<Longrightarrow> len \<le> 65536 \<Longrightarrow> ip_checksum p len = Some (ref_checksum (take len p))"
  by (rule ip_checksum_ref)

lemma ip_checksum_reference_witness:
  "ip_checksum [0x45, 0x00, 0xFF, 0xFF, 0x01] 5 = Some (ref_checksum [0x45, 0x00, 0xFF, 0xFF, 0x01])
   \<and> ref_checksum [0x45, 0x00, 0xFF, 0xFF, 0x01] = 0xFFB9"
  using ip_checksum_reference [of 5 "[0x45, 0x00, 0xFF, 0xFF, 0x01]"]
  by (simp add: ref_checksum_def ones_complement_def)

lemma ones_complement_closes: "ones_complement (n + (65535 - ones_complement n)) = 65535"
proof (cases "n = 0")
  case False
  define q where "q = (n - 1) div 65535"
  have "(n - 1) mod 65535 + 65535 * q = n - 1" unfolding q_def by (rule mod_mult_div_eq)
  moreover have "(n - 1) mod 65535 < 65535" by simp
  moreover have "ones_complement n = (n - 1) mod 65535 + 1" using False by (simp only: ones_complement_def if_False)
  ultimately have e: "n + (65535 - ones_complement n) = 65535 * q + 65535" using False by linarith
  have m: "n + (65535 - ones_complement n) - 1 = 65534 + 65535 * q" unfolding e by simp
  have "(n + (65535 - ones_complement n) - 1) mod 65535 = 65534" unfolding m mod_mult_self2 by simp
  then show ?thesis using False by (simp add: ones_complement_def)
qed (simp add: ones_complement_def)

lemma word_sum_append: "even (length a) \<Longrightarrow> word_sum (a @ b) = word_sum a + word_sum b"
  by (induction a rule: word_sum.induct) auto

lemma word_sum_wr16: "word_sum (wr16 x) = unat x"
proof -
  have "rd16 (wr16 x) 0 = x" using rd16_wr16 [of x "[]"] by simp
  then show ?thesis by (simp add: wr16_def flip: unat_rd16)
qed

lemma length_ip_bytes [simp]: "length (ip_bytes h) = 20"
  by (simp add: ip_bytes_def)

lemma word_sum_ip: "word_sum (ip_bytes (h\<lparr>ip_csum := c\<rparr>)) = word_sum (ip_bytes (h\<lparr>ip_csum := 0\<rparr>)) + unat c"
  by (simp add: ip_bytes_def word_sum_append word_sum_wr16)

lemma add_checksum_ok:
  assumes "ip_csum h = 0"
  shows "\<exists>c. add_checksum h = Some (h\<lparr>ip_csum := c\<rparr>) \<and> ip_checksum (ip_bytes (h\<lparr>ip_csum := c\<rparr>)) 20 = Some 0"
proof -
  let ?c = "ref_checksum (ip_bytes h)"
  have h: "h\<lparr>ip_csum := 0\<rparr> = h" using assms by (cases h) simp
  have "unat ?c = 65535 - ones_complement (word_sum (ip_bytes h))"
    by (simp add: ref_checksum_def unsigned_of_nat take_bit_nat_eq_self)
  then have "word_sum (ip_bytes (h\<lparr>ip_csum := ?c\<rparr>))
      = word_sum (ip_bytes h) + (65535 - ones_complement (word_sum (ip_bytes h)))"
    by (simp only: word_sum_ip h)
  then have "ref_checksum (ip_bytes (h\<lparr>ip_csum := ?c\<rparr>)) = 0"
    by (simp only: ref_checksum_def ones_complement_closes) simp
  then show ?thesis by (auto simp: add_checksum_def ip_checksum_ref)
qed

text \<open>
  The headers the stack sends are valid: a header whose checksum field is filled by the code sums up, checksum
  included, to zero, which is what a receiver tests, and nothing else of the header has changed.
\<close>

theorem add_checksum_valid:
  "ip_csum h = 0 \<Longrightarrow>
     \<exists>c. add_checksum h = Some (h\<lparr>ip_csum := c\<rparr>) \<and> ip_checksum (ip_bytes (h\<lparr>ip_csum := c\<rparr>)) 20 = Some 0"
  by (rule add_checksum_ok)

lemma add_checksum_valid_witness:
  "\<exists>c. add_checksum (ip_header 33 0 IPPROTO_UDP 0x0A00020F 0x0A000202)
         = Some ((ip_header 33 0 IPPROTO_UDP 0x0A00020F 0x0A000202)\<lparr>ip_csum := c\<rparr>)
     \<and> ip_checksum (ip_bytes ((ip_header 33 0 IPPROTO_UDP 0x0A00020F 0x0A000202)\<lparr>ip_csum := c\<rparr>)) 20 = Some 0"
  by (rule add_checksum_valid) (simp add: ip_header_def)

section \<open>Headers\<close>

lemma bit_NET_HTONS: "bit (NET_HTONS x) n \<longleftrightarrow> n < 16 \<and> bit x (if n < 8 then n + 8 else n - 8)"
  unfolding NET_HTONS_def by (auto simp: bit_simps add.commute dest: bit_imp_le_length)

lemma NET_HTONS_inv [simp]: "NET_HTONS (NET_HTONS x) = x"
  by (intro bit_word_eqI) (auto simp: bit_NET_HTONS)

lemma bit_mask_bytes:
  "bit (0xFF00 :: u32) n \<longleftrightarrow> 8 \<le> n \<and> n < 16" "bit (0xFF0000 :: u32) n \<longleftrightarrow> 16 \<le> n \<and> n < 24"
proof -
  have e: "(0xFF00 :: u32) = push_bit 8 (mask 8)" "(0xFF0000 :: u32) = push_bit 16 (mask 8)" by (simp_all add: mask_eq_exp_minus_1)
  show "bit (0xFF00 :: u32) n \<longleftrightarrow> 8 \<le> n \<and> n < 16" "bit (0xFF0000 :: u32) n \<longleftrightarrow> 16 \<le> n \<and> n < 24"
    unfolding e by (auto simp only: bit_push_bit_iff bit_mask_iff) simp_all
qed

lemma bit_NET_HTONL: "bit (NET_HTONL x) n \<longleftrightarrow>
    n < 32 \<and> bit x (if n < 8 then n + 24 else if n < 16 then n + 8 else if n < 24 then n - 8 else n - 24)"
  unfolding NET_HTONL_def bit_or_iff bit_and_iff bit_mask_bytes bit_drop_bit_eq bit_push_bit_iff o_def
  by (auto simp: add.commute dest: bit_imp_le_length)

lemma NET_HTONL_inv [simp]: "NET_HTONL (NET_HTONL x) = x"
  by (intro bit_word_eqI) (auto simp: bit_NET_HTONL)

lemma eth_round:
  assumes "length (eth_dst h) = 6" "length (eth_src h) = 6"
  shows "eth_of (eth_bytes h) = h" "length (eth_bytes h) = 14"
  using assms rd16_at [of "eth_dst h @ eth_src h" 12 "eth_type h" "[]"] by (auto simp: eth_of_def eth_bytes_def)

text \<open>The bytes of a structure one by one; joining them again gives the fields.\<close>

lemma wr_bytes:
  "wr16 x = [ucast x, ucast (drop_bit 8 x)]"
  "wr32 y = [ucast (ucast y :: u16), ucast (drop_bit 8 (ucast y :: u16)),
             ucast (ucast (drop_bit 16 y) :: u16), ucast (drop_bit 8 (ucast (drop_bit 16 y) :: u16))]"
  by (simp_all add: wr16_def wr32_def)

lemma le_word_join32: "ucast (ucast x :: u16) OR push_bit 16 (ucast (ucast (drop_bit 16 x) :: u16)) = (x :: u32)"
  by (intro bit_word_eqI) (auto simp: bit_simps)

lemmas rd_wr = rd16_def rd32_def wr_bytes le_word_join le_word_join32

lemma ip_round [simp]: "ip_of (ip_bytes h) = h"
  by (cases h) (simp add: ip_of_def ip_bytes_def rd_wr)

lemma udp_round [simp]: "udp_of (udp_bytes h) = h" "length (udp_bytes h) = 8"
  by (cases h, simp add: udp_of_def udp_bytes_def rd_wr) (simp add: udp_bytes_def)

lemma tcp_round [simp]: "tcp_of (tcp_bytes h) = h" "length (tcp_bytes h) = 20"
  by (cases h, simp add: tcp_of_def tcp_bytes_def rd_wr) (simp add: tcp_bytes_def)

lemma arp_round:
  assumes "length (hw_type a) = 2" "length (proto_type a) = 2" "length (sender_mac a) = 6" "length (target_mac a) = 6"
  shows "arp_of (arp_bytes a) = a" "length (arp_bytes a) = 28"
proof -
  let ?p = "hw_type a @ proto_type a @ [hw_len a, proto_len a]"
  have "rd16 (arp_bytes a) 6 = operation a" using assms rd16_at [of ?p 6 "operation a"] by (simp add: arp_bytes_def)
  moreover have "rd32 (arp_bytes a) 14 = sender_ip a"
    using assms rd32_at [of "?p @ wr16 (operation a) @ sender_mac a" 14 "sender_ip a"] by (simp add: arp_bytes_def)
  moreover have "rd32 (arp_bytes a) 24 = target_ip a"
    using assms rd32_at [of "?p @ wr16 (operation a) @ sender_mac a @ wr32 (sender_ip a) @ target_mac a" 24 "target_ip a" "[]"]
    by (simp add: arp_bytes_def)
  moreover have "arp_bytes a ! 4 = hw_len a" "arp_bytes a ! 5 = proto_len a"
    using assms by (simp_all add: arp_bytes_def nth_append)
  ultimately show "arp_of (arp_bytes a) = a" using assms by (simp add: arp_of_def) (simp add: arp_bytes_def)
  show "length (arp_bytes a) = 28" using assms by (simp add: arp_bytes_def)
qed

section \<open>The address cache\<close>

definition arp_inv :: "net \<Rightarrow> bool" where
  "arp_inv st \<longleftrightarrow> arp_count st \<le> 8 \<and> inj_on (arp_cache_ip st) {..<arp_count st}"

lemma arp_find_iff:
  assumes "arp_inv st"
  shows "arp_find st ip = Some i \<longleftrightarrow> i < arp_count st \<and> arp_cache_ip st i = ip"
proof
  assume "arp_find st ip = Some i"
  then show "i < arp_count st \<and> arp_cache_ip st i = ip" unfolding arp_find_def by (auto dest: first_idx_SomeD)
next
  assume i: "i < arp_count st \<and> arp_cache_ip st i = ip"
  then obtain j where j: "arp_find st ip = Some j"
    unfolding arp_find_def using first_idx_None_iff [of "\<lambda>i. arp_cache_ip st i = ip" 0 "arp_count st"] by (metis le0 option.exhaust)
  then have "j < arp_count st" "arp_cache_ip st j = ip" unfolding arp_find_def by (auto dest: first_idx_SomeD)
  with i assms have "j = i" unfolding arp_inv_def by (metis inj_onD lessThan_iff)
  with j show "arp_find st ip = Some i" by simp
qed

lemma arp_find_None: "arp_find st ip = None \<longleftrightarrow> (\<forall>i < arp_count st. arp_cache_ip st i \<noteq> ip)"
  unfolding arp_find_def by (auto simp: first_idx_None_iff)

lemma arp_lookup_iff:
  "arp_inv st \<Longrightarrow> arp_lookup ip st = Some m \<longleftrightarrow> (\<exists>i < arp_count st. arp_cache_ip st i = ip \<and> arp_cache_mac st i = m)"
  by (auto simp: arp_lookup_def arp_find_iff)

lemma arp_lookup_None: "arp_lookup ip st = None \<longleftrightarrow> (\<forall>i < arp_count st. arp_cache_ip st i \<noteq> ip)"
  by (simp add: arp_lookup_def arp_find_None)

lemma arp_learn_known:
  assumes "arp_inv st" "arp_find st ip = Some i"
  shows "arp_inv (arp_learn ip mac st) \<and> arp_lookup x (arp_learn ip mac st) = (if x = ip then Some mac else arp_lookup x st)"
proof -
  let ?s = "arp_learn ip mac st"
  have s: "?s = st\<lparr>arp_cache_mac := (arp_cache_mac st)(i := mac)\<rparr>" using assms(2) by (simp add: arp_learn_def)
  have i: "i < arp_count st" "arp_cache_ip st i = ip" using assms by (auto simp: arp_find_iff)
  have f: "arp_find ?s x = arp_find st x" by (simp add: s arp_find_def)
  have inv: "arp_inv ?s" using assms(1) by (simp add: s arp_inv_def)
  have "arp_find st x = Some i \<longleftrightarrow> x = ip" using i arp_find_iff [OF assms(1)] by auto
  then have "arp_lookup x ?s = (if x = ip then Some mac else arp_lookup x st)"
    unfolding arp_lookup_def f by (cases "arp_find st x") (auto simp: s)
  with inv show ?thesis by simp
qed

lemma arp_learn_new:
  assumes "arp_inv st" "arp_find st ip = None" "arp_count st < 8"
  shows "arp_inv (arp_learn ip mac st) \<and> arp_lookup x (arp_learn ip mac st) = (if x = ip then Some mac else arp_lookup x st)"
proof -
  let ?n = "arp_count st" and ?s = "arp_learn ip mac st"
  have s: "?s = st\<lparr>arp_cache_ip := (arp_cache_ip st)(?n := ip), arp_cache_mac := (arp_cache_mac st)(?n := mac), arp_count := ?n + 1\<rparr>"
    using assms(2,3) by (simp add: arp_learn_def)
  have fresh: "\<forall>i < ?n. arp_cache_ip st i \<noteq> ip" using assms(2) by (simp add: arp_find_None)
  have "inj_on ((arp_cache_ip st)(?n := ip)) (insert ?n {..<?n})"
    using assms(1) fresh by (auto simp: arp_inv_def inj_on_def)
  then have inv: "arp_inv ?s" using assms(3) by (simp add: s arp_inv_def lessThan_Suc)
  have "arp_lookup x ?s = Some m \<longleftrightarrow> (if x = ip then Some mac else arp_lookup x st) = Some m" for m
  proof -
    have "arp_lookup x ?s = Some m \<longleftrightarrow> (\<exists>i < arp_count ?s. arp_cache_ip ?s i = x \<and> arp_cache_mac ?s i = m)"
      by (rule arp_lookup_iff [OF inv])
    then show ?thesis using fresh by (auto simp: arp_lookup_iff [OF assms(1)] s less_Suc_eq) (metis less_irrefl_nat)
  qed
  then have "arp_lookup x ?s = (if x = ip then Some mac else arp_lookup x st)"
    by (metis not_Some_eq)
  with inv show ?thesis by simp
qed

text \<open>
  The ARP cache is a map of at most eight addresses: learning an address that is known or for which there is room
  binds it and changes no other; otherwise nothing changes. No address is ever listed twice.
\<close>

theorem arp_learn_lookup:
  assumes "arp_inv st"
  shows "arp_inv (arp_learn ip mac st)
       \<and> arp_lookup x (arp_learn ip mac st)
           = (if x = ip \<and> (arp_lookup ip st \<noteq> None \<or> arp_count st < 8) then Some mac else arp_lookup x st)"
proof (cases "arp_find st ip")
  case (Some i)
  with arp_learn_known [OF assms Some] show ?thesis by (simp add: arp_lookup_def)
next
  case None
  show ?thesis
  proof (cases "arp_count st < 8")
    case True
    with arp_learn_new [OF assms None True] show ?thesis by simp
  next
    case False
    with None assms show ?thesis by (simp add: arp_learn_def arp_lookup_def)
  qed
qed

lemma net0_arp_inv: "arp_inv net0"
  by (simp add: arp_inv_def net0_def)

lemma arp_learn_lookup_witness:
  "arp_inv net0 \<and> arp_lookup 0x0A000202 (arp_learn 0x0A000202 [1, 2, 3, 4, 5, 6] net0) = Some [1, 2, 3, 4, 5, 6]"
  using arp_learn_lookup [OF net0_arp_inv, of "0x0A000202" "[1, 2, 3, 4, 5, 6]" "0x0A000202"] net0_arp_inv
  by (simp add: net0_def)

section \<open>Routing\<close>

text \<open>
  The routing test compares the wrong bits: the mask is byte-swapped while the addresses are in host order, so with the
  built-in addresses a destination counts as local exactly when its last three bytes are those of this host. Every other
  host of 10.0.2.0/24 is sent to the gateway, and x.0.2.15 of any network x is taken as local.
\<close>

theorem nexthop_wrong_mask:
  "nexthop (NET_IP a b c d) net0 = (if NET_IP 0 b c d AND 0xFFFFFF = NET_IP 0 0 2 15 then NET_IP a b c d else NET_IP 10 0 2 2)"
proof -
  have m: "NET_HTONL (net_mask net0) = 0xFFFFFF" by (simp add: net0_def NET_IP_def NET_HTONL_def)
  have "(0xFFFFFF :: u32) = mask 24" by (simp add: mask_eq_exp_minus_1)
  then have "push_bit 24 a AND 0xFFFFFF = 0" by (metis take_bit_eq_mask take_bit_push_bit diff_self_eq_0 take_bit_0 push_bit_of_0)
  then have "NET_IP a b c d AND 0xFFFFFF = NET_IP 0 b c d AND 0xFFFFFF" by (simp add: NET_IP_def and.commute bit.conj_disj_distrib)
  then show ?thesis unfolding nexthop_def m by (simp add: net0_def NET_IP_def)
qed

section \<open>UDP frames\<close>

lemma slice_mid: "length a = k \<Longrightarrow> length b = n \<Longrightarrow> slice (a @ b @ c) k n = Some b"
  by (auto simp: slice_def)

text \<open>A frame with its three headers.\<close>

definition is_udp :: "bytes \<Rightarrow> u32 \<Rightarrow> u16 \<Rightarrow> u16 \<Rightarrow> bytes \<Rightarrow> bool" where
  "is_udp f src src_port dst_port data \<longleftrightarrow> (\<exists>e i u. f = e @ i @ u @ data \<and> length e = 14 \<and> length i = 20 \<and> length u = 8
     \<and> NET_HTONS (eth_type (eth_of e)) = ETH_P_IP \<and> protocol (ip_of i) = IPPROTO_UDP \<and> NET_HTONL (src_ip (ip_of i)) = src
     \<and> NET_HTONS (udp_src (udp_of u)) = src_port \<and> NET_HTONS (udp_dst (udp_of u)) = dst_port
     \<and> NET_HTONS (udp_length (udp_of u)) = of_nat (length data + 8))"

lemma is_udp_length: "is_udp f src sp dp data \<Longrightarrow> length f = 42 + length data"
  by (auto simp: is_udp_def)

lemma udp_frame_ok:
  assumes "length mac = 6" "length (my_mac st) = 6" "length data \<le> 1458"
  shows "\<exists>f. udp_frame st mac dst sp dp data (of_nat (length data)) = Some f \<and> is_udp f (my_ip st) sp dp data"
proof -
  let ?n = "of_nat (length data) :: u16"
  let ?h = "ip_header (20 + 8 + ?n) (NET_HTONS 1) IPPROTO_UDP (my_ip st) dst"
  let ?e = "\<lparr>eth_dst = mac, eth_src = my_mac st, eth_type = NET_HTONS ETH_P_IP\<rparr>"
  let ?u = "\<lparr>udp_src = NET_HTONS sp, udp_dst = NET_HTONS dp, udp_length = NET_HTONS (8 + ?n), udp_csum = 0\<rparr>"
  have n: "unat ?n = length data" using assms(3) by (simp add: unsigned_of_nat take_bit_nat_eq_self)
  obtain c where c: "add_checksum ?h = Some (?h\<lparr>ip_csum := c\<rparr>)"
    using add_checksum_ok [of ?h] by (auto simp: ip_header_def)
  have e: "eth_of (eth_bytes ?e) = ?e" "length (eth_bytes ?e) = 14" using eth_round [of ?e] assms by simp_all
  have "is_udp (eth_bytes ?e @ ip_bytes (?h\<lparr>ip_csum := c\<rparr>) @ udp_bytes ?u @ data) (my_ip st) sp dp data"
    unfolding is_udp_def
    by (intro exI [of _ "eth_bytes ?e"] exI [of _ "ip_bytes (?h\<lparr>ip_csum := c\<rparr>)"] exI [of _ "udp_bytes ?u"])
      (simp add: e ip_header_def add.commute)
  moreover have "udp_frame st mac dst sp dp data ?n = Some (eth_bytes ?e @ ip_bytes (?h\<lparr>ip_csum := c\<rparr>) @ udp_bytes ?u @ data)"
    using assms(3) unfolding udp_frame_def c by (simp add: n slice_def)
  ultimately show ?thesis by blast
qed

section \<open>The queue of received frames\<close>

definition rx_frames :: "net \<Rightarrow> rx_slot list" where
  "rx_frames st = ring_list RX_RING_SIZE (rx_ring st) (rx_head st) (rx_tail st)"

definition rx_put :: "rx_slot \<Rightarrow> net \<Rightarrow> net" where
  "rx_put s st = st\<lparr>rx_ring := (rx_ring st)(rx_head st := s), rx_head := (rx_head st + 1) mod RX_RING_SIZE\<rparr>"

definition rx_get :: "net \<Rightarrow> rx_slot \<times> net" where
  "rx_get st = (rx_ring st (rx_tail st), st\<lparr>rx_tail := (rx_tail st + 1) mod RX_RING_SIZE\<rparr>)"

definition rx_wf :: "net \<Rightarrow> bool" where
  "rx_wf st \<longleftrightarrow> rx_head st < RX_RING_SIZE \<and> rx_tail st < RX_RING_SIZE"

definition rx_inv :: "net \<Rightarrow> bool" where
  "rx_inv st \<longleftrightarrow> rx_wf st \<and> (\<forall>i. length (rx_bytes (rx_ring st i)) = 1600)"

interpretation rxq: fifo rx_frames rx_wf 3 "\<lambda>st. rx_head st = rx_tail st" "\<lambda>st. (rx_head st + 1) mod RX_RING_SIZE = rx_tail st"
  rx_put rx_get
proof unfold_locales
  fix q assume q: "rx_wf q"
  then have b: "rx_head q < 4" "rx_tail q < 4" by (simp_all add: rx_wf_def RX_RING_SIZE_def)
  show "(rx_head q = rx_tail q) = (rx_frames q = [])"
    using b by (simp add: rx_frames_def RX_RING_SIZE_def ring_list_Nil_iff)
  show "((rx_head q + 1) mod RX_RING_SIZE = rx_tail q) = (length (rx_frames q) = 3)"
    using b by (auto simp: rx_frames_def RX_RING_SIZE_def ring_used_cases ring_succ_cases)
  have "length (rx_frames q) < 4" by (simp add: rx_frames_def RX_RING_SIZE_def)
  then show "length (rx_frames q) \<le> 3" by simp
  show "rx_frames q = fst (rx_get q) # rx_frames (snd (rx_get q))" if "rx_head q \<noteq> rx_tail q"
    using ring_list_get [OF b that, of "rx_ring q"] by (simp add: rx_frames_def rx_get_def RX_RING_SIZE_def)
  show "rx_wf (snd (rx_get q))" if "rx_head q \<noteq> rx_tail q"
    using b by (simp add: rx_wf_def rx_get_def RX_RING_SIZE_def)
  fix a assume nf: "(rx_head q + 1) mod RX_RING_SIZE \<noteq> rx_tail q"
  show "rx_frames (rx_put a q) = rx_frames q @ [a]"
    using ring_list_put [OF b, of "(rx_ring q)(rx_head q := a)"] nf b
    by (simp add: rx_frames_def rx_put_def RX_RING_SIZE_def ring_list_store)
  show "rx_wf (rx_put a q)" using b by (simp add: rx_wf_def rx_put_def RX_RING_SIZE_def)
qed

lemma is_udp_slices:
  assumes "is_udp f src sp dp data"
  obtains e i u where "slice (f @ r) 0 14 = Some e" "slice (f @ r) 14 20 = Some i" "slice (f @ r) 34 8 = Some u"
    "\<And>n. n \<le> length data \<Longrightarrow> slice (f @ r) 42 n = Some (take n data)"
    "NET_HTONS (eth_type (eth_of e)) = ETH_P_IP" "protocol (ip_of i) = IPPROTO_UDP" "NET_HTONL (src_ip (ip_of i)) = src"
    "NET_HTONS (udp_src (udp_of u)) = sp" "NET_HTONS (udp_dst (udp_of u)) = dp"
    "NET_HTONS (udp_length (udp_of u)) = of_nat (length data + 8)"
proof -
  obtain e i u where f: "f = e @ i @ u @ data" and l: "length e = 14" "length i = 20" "length u = 8"
    and p: "NET_HTONS (eth_type (eth_of e)) = ETH_P_IP" "protocol (ip_of i) = IPPROTO_UDP" "NET_HTONL (src_ip (ip_of i)) = src"
      "NET_HTONS (udp_src (udp_of u)) = sp" "NET_HTONS (udp_dst (udp_of u)) = dp"
      "NET_HTONS (udp_length (udp_of u)) = of_nat (length data + 8)"
    using assms unfolding is_udp_def by blast
  have s: "slice (f @ r) 0 14 = Some e" "slice (f @ r) 14 20 = Some i" "slice (f @ r) 34 8 = Some u"
    using slice_mid [of "[]" 0 e 14] slice_mid [of e 14 i 20] slice_mid [of "e @ i" 34 u 8] l by (simp_all add: f)
  have d: "slice (f @ r) 42 n = Some (take n data)" if "n \<le> length data" for n
    using that l by (simp add: slice_def f)
  show thesis by (rule that [OF s d p])
qed

lemma unat_u16_of_nat: "n < 65536 \<Longrightarrow> unat (of_nat n :: u16) = n"
  by (simp add: unsigned_of_nat take_bit_nat_eq_self)

lemma dispatch_udp:
  assumes "is_udp f src sp dp data" "length f \<le> 1496" "length fcs = 4" "rx_inv st" "(rx_head st + 1) mod RX_RING_SIZE \<noteq> rx_tail st"
  shows "\<exists>r. length (f @ r) = 1600 \<and> net_dispatch io (f @ fcs @ rest) (of_nat (length f + 4)) (st, w)
           = Some (rx_put \<lparr>rx_bytes = f @ r, rx_len = of_nat (length f + 4)\<rparr> st, w)"
proof -
  obtain e i u where s: "slice (f @ fcs @ rest) 0 14 = Some e" "slice (f @ fcs @ rest) 14 20 = Some i"
    and t: "NET_HTONS (eth_type (eth_of e)) = ETH_P_IP" "protocol (ip_of i) = IPPROTO_UDP"
    using is_udp_slices [OF assms(1), of "fcs @ rest"] by metis
  let ?len = "of_nat (length f + 4) :: u16"
  have l: "unat ?len = length f + 4" using assms(2) by (intro unat_u16_of_nat) simp
  then have ge: "?len \<ge> 14 + 20 + 8" "?len \<ge> 14 + 20" using is_udp_length [OF assms(1)] by (simp_all add: word_le_nat_alt del: of_nat_add)
  let ?r = "fcs @ drop (length f + 4) (rx_bytes (rx_ring st (rx_head st)))"
  have b: "length (rx_bytes (rx_ring st (rx_head st))) = 1600" using assms(4) by (simp add: rx_inv_def)
  have "slice (f @ fcs @ rest) 0 (unat ?len) = Some (f @ fcs)" unfolding l using assms(3) by (simp add: slice_def)
  moreover have "blit (rx_bytes (rx_ring st (rx_head st))) 0 (f @ fcs) = Some (f @ ?r)" using assms(2,3) b by (simp add: blit_def)
  ultimately have "queue_frame (f @ fcs @ rest) ?len st = Some (rx_put \<lparr>rx_bytes = f @ ?r, rx_len = ?len\<rparr> st)"
    using assms(5) unfolding queue_frame_def by (simp add: rx_put_def del: of_nat_add)
  then have "net_dispatch io (f @ fcs @ rest) ?len (st, w) = Some (rx_put \<lparr>rx_bytes = f @ ?r, rx_len = ?len\<rparr> st, w)"
    unfolding net_dispatch_def using s t ge by (simp add: ETH_P_ARP_def ETH_P_IP_def Let_def del: of_nat_add)
  moreover have "length (f @ ?r) = 1600" using assms(2,3) b by simp
  ultimately show ?thesis by blast
qed

lemma udp_take_ok:
  assumes "rx_head st \<noteq> rx_tail st" "rx_ring st (rx_tail st) = \<lparr>rx_bytes = f @ r, rx_len = len\<rparr>"
    "is_udp f src sp dp data" "length data \<le> 1458" "len \<ge> 42" "unat bufsz \<le> length buf"
    and n: "n = min (length data) (unat bufsz)"
  shows "udp_take dp buf bufsz st = Some (int n, take n data @ drop n buf, Some (src, sp), snd (rx_get st))"
proof -
  obtain e i u where s: "slice (f @ r) 14 20 = Some i" "slice (f @ r) 34 8 = Some u"
    and d: "\<And>n. n \<le> length data \<Longrightarrow> slice (f @ r) 42 n = Some (take n data)"
    and t: "NET_HTONL (src_ip (ip_of i)) = src" "NET_HTONS (udp_src (udp_of u)) = sp" "NET_HTONS (udp_dst (udp_of u)) = dp"
      "NET_HTONS (udp_length (udp_of u)) = of_nat (length data + 8)"
    using is_udp_slices [OF assms(3), of r] by metis
  let ?m = "if of_nat (length data) > bufsz then bufsz else of_nat (length data) :: u16"
  have k: "unat (of_nat (length data) :: u16) = length data" using assms(4) by (intro unat_u16_of_nat) simp
  have m: "unat ?m = n" unfolding n using k by (auto simp: word_less_nat_alt min_def)
  have m': "uint ?m = int n" using m by (metis uint_nat)
  have "slice (f @ r) 42 (unat ?m) = Some (take n data)" unfolding m using d [of n] n by simp
  moreover have "blit buf 0 (take n data) = Some (take n data @ drop n buf)" using n assms(6) by (auto simp: blit_def)
  moreover have "NET_HTONS (udp_length (udp_of u)) - 8 = of_nat (length data)" unfolding t by simp
  moreover have "\<not> len < 14 + 20 + 8" using assms(5) by simp
  ultimately show ?thesis using assms(1,2) s t(1-3) m' unfolding udp_take_def rx_get_def by (simp add: Let_def)
qed

end
