(* ===== verification/NetNic.thy ===== *)
theory NetNic
  imports NetProps
begin

text \<open>
  The driver over its card. The locale \<open>nic\<close> states what the driver relies on, as the RTL8139 data sheet documents it:
  starting a transmit descriptor puts the buffer on the wire; the interrupt status and the command register tell whether a
  frame waits; the frame waits in the receive ring at \<^verbatim>\<open>CAPR + 16\<close>, behind a status and a length that counts the
  four bytes of the frame check sequence; writing \<^verbatim>\<open>CAPR\<close> takes it out. It is interpreted on an executable card.
\<close>

locale nic =
  fixes io :: "'w net_ports"
    and base :: u16
    and ok :: "'w \<Rightarrow> bool"
    and sent :: "'w \<Rightarrow> bytes list"
    and inbox :: "'w \<Rightarrow> bytes list"
    and capr :: "'w \<Rightarrow> u16"
  assumes transmit: "ok w \<Longrightarrow> i < TX_BUFS \<Longrightarrow> length b \<le> TX_BUF_SIZE \<Longrightarrow>
        w' = np_outl io (base + RTL_TSD0 + of_nat (i * 4)) (of_nat (length b)) (np_tx io i b w) \<Longrightarrow>
        ok w' \<and> sent w' = sent w @ [b] \<and> inbox w' = inbox w \<and> capr w' = capr w"
    and status: "ok w \<Longrightarrow> i < TX_BUFS \<Longrightarrow> snd (np_inl io (base + RTL_TSD0 + of_nat (i * 4)) w) = w"
    and isr: "ok w \<Longrightarrow> np_inw io (base + RTL_ISR) w = (v, w') \<Longrightarrow> w' = w \<and> (tst v 0x01 \<longleftrightarrow> inbox w \<noteq> [])"
    and ack_isr: "ok w \<Longrightarrow> w' = np_outw io (base + RTL_ISR) v w \<Longrightarrow>
        ok w' \<and> sent w' = sent w \<and> inbox w' = inbox w \<and> capr w' = capr w"
    and cmd: "ok w \<Longrightarrow> ninb io (base + RTL_CMD) w = (c, w') \<Longrightarrow> w' = w \<and> (tst c 0x01 \<longleftrightarrow> inbox w = [])"
    and read_capr: "ok w \<Longrightarrow> np_inw io (base + RTL_CAPR) w = (capr w, w)"
    and ring: "ok w \<Longrightarrow> inbox w = f # fs \<Longrightarrow> \<exists>flags fcs rest. length flags = 2 \<and> length fcs = 4 \<and> length f \<le> 1496
        \<and> drop (unat (capr w + 16) mod 8208) (np_rx io w) = flags @ wr16 (of_nat (length f + 4)) @ f @ fcs @ rest"
    and write_capr: "ok w \<Longrightarrow> inbox w = f # fs \<Longrightarrow>
        w' = np_outw io (base + RTL_CAPR) (((capr w + 16 + of_nat (length f + 4) + 4 + 3) AND NOT 3) - 16) w \<Longrightarrow>
        ok w' \<and> sent w' = sent w \<and> inbox w' = fs"
begin

lemma wait_sent_keeps: "ok w \<Longrightarrow> i < TX_BUFS \<Longrightarrow> wait_sent n io (base + RTL_TSD0 + of_nat (i * 4)) w = w"
  using status [of w i] by (induction n) (auto split: prod.splits)

text \<open>A frame that is handed to the driver goes out as it is.\<close>

lemma send_raw_sends:
  assumes "ok w" "rtl_ready_flag st" "rtl_iobase st = base" "tx_idx st < TX_BUFS" "length f \<le> TX_BUF_SIZE"
    "unat len = length f"
  shows "\<exists>w'. net_send_raw io f len (st, w) = Some (0, st\<lparr>tx_idx := (tx_idx st + 1) mod TX_BUFS\<rparr>, w')
           \<and> ok w' \<and> sent w' = sent w @ [f] \<and> inbox w' = inbox w \<and> capr w' = capr w"
proof -
  define w1 where "w1 = np_outl io (base + RTL_TSD0 + of_nat (tx_idx st * 4)) (of_nat (length f)) (np_tx io (tx_idx st) f w)"
  have w1: "ok w1 \<and> sent w1 = sent w @ [f] \<and> inbox w1 = inbox w \<and> capr w1 = capr w"
    using transmit [OF assms(1,4,5) w1_def] .
  have l: "ucast len = (of_nat (length f) :: u32)" unfolding assms(6) [symmetric] by simp
  have i: "((tx_idx st + 1) mod TX_BUFS + TX_BUFS - 1) mod TX_BUFS < TX_BUFS" by (simp add: TX_BUFS_def)
  have "wait_sent 10000 io (base + RTL_TSD0 + of_nat (((tx_idx st + 1) mod TX_BUFS + TX_BUFS - 1) mod TX_BUFS * 4)) w1 = w1"
    using wait_sent_keeps [OF _ i] w1 by blast
  then have "net_send_raw io f len (st, w) = Some (0, st\<lparr>tx_idx := (tx_idx st + 1) mod TX_BUFS\<rparr>, w1)"
    using assms l by (simp add: net_send_raw_def slice_def w1_def [symmetric] Let_def del: of_nat_mult)
  with w1 show ?thesis by blast
qed

lemma poll_empty:
  assumes "ok w" "rtl_iobase st = base" "inbox w = []"
  shows "net_poll io (st, w) = Some (st, w)"
proof -
  obtain v w1 where r: "np_inw io (base + RTL_ISR) w = (v, w1)" by fastforce
  with isr [OF assms(1) r] assms show ?thesis by (simp add: net_poll_def)
qed

lemma poll_takes:
  assumes "ok w" "rtl_ready_flag st" "rtl_iobase st = base" "inbox w = f # fs"
  shows "\<exists>fcs rest w1. length fcs = 4 \<and> length f \<le> 1496 \<and> ok w1 \<and> sent w1 = sent w \<and> inbox w1 = inbox w \<and> capr w1 = capr w
     \<and> net_poll io (st, w) = do {
           (st1, w4) \<leftarrow> net_dispatch io (f @ fcs @ rest) (of_nat (length f + 4)) (st, w1);
           Some (st1, np_outw io (rtl_iobase st1 + RTL_CAPR) (((capr w + 16 + of_nat (length f + 4) + 4 + 3) AND NOT 3) - 16) w4) }"
proof -
  obtain v w0 where "np_inw io (base + RTL_ISR) w = (v, w0)" by fastforce
  then have r1: "np_inw io (base + RTL_ISR) w = (v, w)" and t1: "tst v 0x01"
    using isr [OF assms(1)] assms(4) by auto
  define w1 where "w1 = np_outw io (base + RTL_ISR) v w"
  have w1: "ok w1" "sent w1 = sent w" "inbox w1 = inbox w" "capr w1 = capr w"
    using ack_isr [OF assms(1) w1_def] by auto
  obtain c w0 where "ninb io (base + RTL_CMD) w1 = (c, w0)" by fastforce
  then have r2: "ninb io (base + RTL_CMD) w1 = (c, w1)" and t2: "\<not> tst c 0x01"
    using cmd [OF w1(1)] assms(4) w1(3) by auto
  have r3: "np_inw io (base + RTL_CAPR) w1 = (capr w, w1)" using read_capr [OF w1(1)] w1(4) by simp
  obtain flags fcs rest where x: "length flags = 2" "length fcs = 4" "length f \<le> 1496"
    and d: "drop (unat (capr w + 16) mod 8208) (np_rx io w1) = flags @ wr16 (of_nat (length f + 4)) @ f @ fcs @ rest"
    using ring [OF w1(1), of f fs] w1 assms(4) by auto
  have h: "slice (drop (unat (capr w + 16) mod 8208) (np_rx io w1)) 0 4 = Some (flags @ wr16 (of_nat (length f + 4)))"
    unfolding d using x by (simp add: slice_def)
  have l: "rd16 (flags @ wr16 (of_nat (length f + 4))) 2 = of_nat (length f + 4)"
    using rd16_at [OF x(1), of _ "[]"] by simp
  have z: "\<not> ((of_nat (length f + 4) :: u16) = 0 \<or> (of_nat (length f + 4) :: u16) > 1514)"
    using x(3) by (simp add: word_less_nat_alt word_unat_eq_iff unsigned_of_nat take_bit_nat_eq_self del: of_nat_add)
  have p: "drop 4 (drop (unat (capr w + 16) mod 8208) (np_rx io w1)) = f @ fcs @ rest" unfolding d using x by simp
  have "net_poll io (st, w) = do {
           (st1, w4) \<leftarrow> net_dispatch io (f @ fcs @ rest) (of_nat (length f + 4)) (st, w1);
           Some (st1, np_outw io (rtl_iobase st1 + RTL_CAPR) (((capr w + 16 + of_nat (length f + 4) + 4 + 3) AND NOT 3) - 16) w4) }"
    unfolding net_poll_def using assms(2,3) r1 t1 r2 t2 r3 h l z p
    by (simp add: w1_def [symmetric] Let_def del: of_nat_add)
  with w1 x show ?thesis by blast
qed

text \<open>A datagram that waits in the card is what the next receive returns.\<close>

lemma recv_udp_takes:
  assumes "ok w" "rtl_ready_flag st" "rtl_iobase st = base" "inbox w = f # fs" "is_udp f src sp dp data"
    "rx_inv st" "rx_frames st = []" "unat bufsz \<le> length buf" "length data \<le> unat bufsz"
  shows "\<exists>st' w'. net_recv_udp io dp buf bufsz (st, w)
            = Some (int (length data), data @ drop (length data) buf, Some (src, sp), st', w')
          \<and> ok w' \<and> inbox w' = fs \<and> sent w' = sent w \<and> rx_inv st' \<and> rx_frames st' = []"
proof -
  obtain fcs rest w1 where w1: "length fcs = 4" "length f \<le> 1496" "ok w1" "sent w1 = sent w" "inbox w1 = inbox w" "capr w1 = capr w"
    and poll: "net_poll io (st, w) = do {
           (st1, w4) \<leftarrow> net_dispatch io (f @ fcs @ rest) (of_nat (length f + 4)) (st, w1);
           Some (st1, np_outw io (rtl_iobase st1 + RTL_CAPR) (((capr w + 16 + of_nat (length f + 4) + 4 + 3) AND NOT 3) - 16) w4) }"
    using poll_takes [OF assms(1-4)] by (elim exE conjE) (rule that)
  have wf: "rx_wf st" and hd: "rx_head st = rx_tail st" using assms(6,7) rxq.empty_iff [of st] by (auto simp: rx_inv_def)
  then have nf: "(rx_head st + 1) mod RX_RING_SIZE \<noteq> rx_tail st"
    using rxq.full_iff [of st] assms(7) by auto
  obtain r where r: "length (f @ r) = 1600"
    and disp: "net_dispatch io (f @ fcs @ rest) (of_nat (length f + 4)) (st, w1)
           = Some (rx_put \<lparr>rx_bytes = f @ r, rx_len = of_nat (length f + 4)\<rparr> st, w1)"
    using dispatch_udp [OF assms(5) w1(2,1) assms(6) nf, of io rest w1] by (elim exE conjE) (rule that)
  define slot where "slot = \<lparr>rx_bytes = f @ r, rx_len = (of_nat (length f + 4) :: u16)\<rparr>"
  define w2 where "w2 = np_outw io (base + RTL_CAPR) (((capr w1 + 16 + of_nat (length f + 4) + 4 + 3) AND NOT 3) - 16) w1"
  have w2: "ok w2" "sent w2 = sent w" "inbox w2 = fs" using write_capr [OF w1(3) _ w2_def, of fs] w1 assms(4) by auto
  have b: "rtl_iobase (rx_put slot st) = base" using assms(3) by (simp add: rx_put_def)
  have p: "net_poll io (st, w) = Some (rx_put slot st, w2)"
    unfolding poll disp slot_def [symmetric] w2_def w1(6) [symmetric] by (simp add: b)
  have q: "rx_frames (rx_put slot st) = [slot]" "rx_wf (rx_put slot st)"
    using rxq.put_contents [OF wf nf] rxq.put_inv [OF wf nf] assms(7) by simp_all
  then have ne: "rx_head (rx_put slot st) \<noteq> rx_tail (rx_put slot st)" using rxq.empty_iff by auto
  have g: "rx_ring (rx_put slot st) (rx_tail (rx_put slot st)) = slot" "rx_frames (snd (rx_get (rx_put slot st))) = []"
    using rxq.get_contents [OF q(2) ne] q(1) by (simp_all add: rx_get_def)
  have len: "rx_len slot \<ge> 42" "length data \<le> 1458"
    using is_udp_length [OF assms(5)] w1(2) by (simp_all add: slot_def word_le_nat_alt unat_u16_of_nat del: of_nat_add)
  have t: "udp_take dp buf bufsz (rx_put slot st)
      = Some (int (length data), data @ drop (length data) buf, Some (src, sp), snd (rx_get (rx_put slot st)))"
    using udp_take_ok [OF ne _ assms(5) len(2) _ assms(8) refl, of r "rx_len slot"] g(1) len(1) assms(9) by (simp add: slot_def min_def)
  have inv: "rx_inv (snd (rx_get (rx_put slot st)))"
    using rxq.get_inv [OF q(2) ne] assms(6) r by (simp add: rx_inv_def rx_get_def rx_put_def slot_def)
  show ?thesis using w2 inv g(2) unfolding net_recv_udp_def p by (simp add: t)
qed

text \<open>A datagram that is sent to a known address leaves the card as one frame.\<close>

lemma send_udp_sends:
  assumes "ok w" "rtl_ready_flag st" "rtl_iobase st = base" "tx_idx st < TX_BUFS" "length (my_mac st) = 6"
    "arp_lookup (nexthop dst st) st = Some mac" "length mac = 6" "length data \<le> 1458"
  shows "\<exists>f w'. net_send_udp io dst sp dp data (of_nat (length data)) (st, t, w)
            = Some (0, st\<lparr>tx_idx := (tx_idx st + 1) mod TX_BUFS\<rparr>, t, w')
          \<and> is_udp f (my_ip st) sp dp data \<and> ok w' \<and> sent w' = sent w @ [f] \<and> inbox w' = inbox w"
proof -
  let ?n = "of_nat (length data) :: u16"
  obtain f where f: "udp_frame st mac dst sp dp data ?n = Some f" "is_udp f (my_ip st) sp dp data"
    using udp_frame_ok [OF assms(7,5,8)] by blast
  have n: "unat ?n = length data" using assms(8) by (intro unat_u16_of_nat) simp
  have l: "unat (14 + (20 + 8 + ?n)) = length f"
    using is_udp_length [OF f(2)] assms(8) n by (simp add: unat_word_ariths)
  have "length f \<le> TX_BUF_SIZE" using is_udp_length [OF f(2)] assms(8) by (simp add: TX_BUF_SIZE_def)
  then obtain w' where w': "net_send_raw io f (14 + (20 + 8 + ?n)) (st, w) = Some (0, st\<lparr>tx_idx := (tx_idx st + 1) mod TX_BUFS\<rparr>, w')"
    "ok w'" "sent w' = sent w @ [f]" "inbox w' = inbox w"
    using send_raw_sends [OF assms(1-4) _ l] by blast
  have "net_send_udp io dst sp dp data ?n (st, t, w) = Some (0, st\<lparr>tx_idx := (tx_idx st + 1) mod TX_BUFS\<rparr>, t, w')"
    unfolding net_send_udp_def resolve_mac_def using assms(2,6) f(1) w'(1) by simp
  with w' f(2) show ?thesis by blast
qed

end

section \<open>An executable card\<close>

record card =
  cd_tx :: "nat \<Rightarrow> bytes"
  cd_sent :: "bytes list"
  cd_inbox :: "bytes list"
  cd_capr :: u16

definition card_base :: u16 where "card_base = 0xC000"

definition card_off :: "card \<Rightarrow> nat" where
  "card_off w = unat (cd_capr w + 16) mod 8208"

definition card_ring :: "card \<Rightarrow> bytes" where
  "card_ring w = (case cd_inbox w of [] \<Rightarrow> [] | f # _ \<Rightarrow> [1, 0] @ wr16 (of_nat (length f + 4)) @ f @ replicate 4 0xA5)"

definition card_outl :: "u16 \<Rightarrow> u32 \<Rightarrow> card \<Rightarrow> card" where
  "card_outl p v w =
     (let i = unat (p - (card_base + RTL_TSD0)) div 4
      in if i < TX_BUFS then w\<lparr>cd_sent := cd_sent w @ [take (unat v) (cd_tx w i)]\<rparr> else w)"

definition card_inw :: "u16 \<Rightarrow> card \<Rightarrow> u16 \<times> card" where
  "card_inw p w = (if p = card_base + RTL_ISR then if cd_inbox w = [] then 0 else 1
                   else if p = card_base + RTL_CAPR then cd_capr w else 0, w)"

definition card_outw :: "u16 \<Rightarrow> u16 \<Rightarrow> card \<Rightarrow> card" where
  "card_outw p v w = (if p = card_base + RTL_CAPR then w\<lparr>cd_inbox := tl (cd_inbox w), cd_capr := v\<rparr> else w)"

definition card_io :: "card net_ports" where
  "card_io = \<lparr>np_io = \<lparr>io_in = (\<lambda>p w. (if p = card_base + RTL_CMD \<and> cd_inbox w = [] then 1 else 0, w)),
                       io_out = (\<lambda>_ _ w. w), io_hlt = (\<lambda>w. (0, w))\<rparr>,
     np_inw = card_inw, np_outw = card_outw, np_inl = (\<lambda>_ w. (0x8000, w)), np_outl = card_outl,
     np_tx = (\<lambda>i b w. w\<lparr>cd_tx := (cd_tx w)(i := b @ drop (length b) (cd_tx w i))\<rparr>),
     np_rx = (\<lambda>w. replicate (card_off w) 0 @ card_ring w @ replicate (RX_BUF_SIZE + 4 - card_off w - length (card_ring w)) 0),
     np_tx_addr = (\<lambda>i. 0x300000 + of_nat (i * TX_BUF_SIZE)), np_rx_addr = 0x310000\<rparr>"

definition card_ok :: "card \<Rightarrow> bool" where
  "card_ok w \<longleftrightarrow> (\<forall>f \<in> set (cd_inbox w). length f \<le> 1496)"

interpretation card: nic card_io card_base card_ok cd_sent cd_inbox cd_capr
proof unfold_locales
  fix w w' :: card and i :: nat and b f fs v c
  assume ok: "card_ok w"
  have t: "i < TX_BUFS \<Longrightarrow> take_bit 16 (i * 4) div 4 = i" by (simp add: take_bit_nat_eq_self TX_BUFS_def)
  show "card_ok w' \<and> cd_sent w' = cd_sent w @ [b] \<and> cd_inbox w' = cd_inbox w \<and> cd_capr w' = cd_capr w"
    if "i < TX_BUFS" "length b \<le> TX_BUF_SIZE"
      "w' = np_outl card_io (card_base + RTL_TSD0 + of_nat (i * 4)) (of_nat (length b)) (np_tx card_io i b w)"
    using ok that by (simp add: t card_io_def card_outl_def card_ok_def Let_def unsigned_of_nat
        take_bit_nat_eq_self TX_BUF_SIZE_def del: of_nat_mult)
  show "snd (np_inl card_io (card_base + RTL_TSD0 + of_nat (i * 4)) w) = w" by (simp add: card_io_def)
  show "w' = w \<and> (tst v 0x01 \<longleftrightarrow> cd_inbox w \<noteq> [])" if "np_inw card_io (card_base + RTL_ISR) w = (v, w')" for v
    using that by (auto simp: card_io_def card_inw_def tst_def split: if_splits)
  show "card_ok w' \<and> cd_sent w' = cd_sent w \<and> cd_inbox w' = cd_inbox w \<and> cd_capr w' = cd_capr w"
    if "w' = np_outw card_io (card_base + RTL_ISR) v w" for v
    using ok that by (simp add: card_io_def card_outw_def rtl_regs)
  show "w' = w \<and> (tst c 0x01 \<longleftrightarrow> cd_inbox w = [])" if "ninb card_io (card_base + RTL_CMD) w = (c, w')" for c
    using that by (auto simp: card_io_def ninb_def inb_def tst_def split: if_splits)
  show "np_inw card_io (card_base + RTL_CAPR) w = (cd_capr w, w)" by (simp add: card_io_def card_inw_def rtl_regs)
  show "\<exists>flags fcs rest. length flags = 2 \<and> length fcs = 4 \<and> length f \<le> 1496
      \<and> drop (unat (cd_capr w + 16) mod 8208) (np_rx card_io w) = flags @ wr16 (of_nat (length f + 4)) @ f @ fcs @ rest"
    if "cd_inbox w = f # fs"
  proof -
    have "drop (card_off w) (np_rx card_io w)
        = [1, 0] @ wr16 (of_nat (length f + 4)) @ f @ replicate 4 0xA5 @ replicate (RX_BUF_SIZE + 4 - card_off w - length (card_ring w)) 0"
      using that by (simp add: card_io_def card_ring_def)
    moreover have "length [1 :: u8, 0] = 2" "length (replicate 4 (0xA5 :: u8)) = 4" "length f \<le> 1496"
      using ok that by (simp_all add: card_ok_def)
    ultimately show ?thesis unfolding card_off_def by blast
  qed
  show "card_ok w' \<and> cd_sent w' = cd_sent w \<and> cd_inbox w' = fs"
    if "cd_inbox w = f # fs"
      "w' = np_outw card_io (card_base + RTL_CAPR) (((cd_capr w + 16 + of_nat (length f + 4) + 4 + 3) AND NOT 3) - 16) w"
    using ok that by (simp add: card_io_def card_outw_def card_ok_def)
qed

section \<open>Datagrams between two machines\<close>

definition net_up :: "net \<Rightarrow> bool" where
  "net_up st \<longleftrightarrow> rtl_ready_flag st \<and> rtl_iobase st = card_base \<and> tx_idx st < TX_BUFS \<and> length (my_mac st) = 6 \<and> rx_inv st"


definition net1 :: net where
  "net1 = arp_learn (NET_IP 10 0 2 2) [2, 0, 0, 0, 0, 2] (net0\<lparr>rtl_ready_flag := True, rtl_iobase := card_base, my_mac := [2, 0, 0, 0, 0, 1]\<rparr>)"

definition card0 :: card where
  "card0 = \<lparr>cd_tx = (\<lambda>_. replicate TX_BUF_SIZE 0), cd_sent = [], cd_inbox = [], cd_capr = 0xFFF0\<rparr>"

lemma net1_up: "net_up net1" "rx_frames net1 = []" "arp_lookup (NET_IP 10 0 2 2) net1 = Some [2, 0, 0, 0, 0, 2]"
  by (simp_all add: net_up_def net1_def net0_def arp_learn_def arp_find_def arp_lookup_def first_idx_def rx_inv_def rx_wf_def
      rx_frames_def ring_list_def net_sizes ETH_ALEN_def)

definition timer0 :: timer where "timer0 = \<lparr>tm_count = 0, tm_hz = 100\<rparr>"


end
