(* ===== verification/Tcp.thy ===== *)
theory Tcp
  imports NetNic
begin

text \<open>
  Properties of the TCP sockets: the receive ring as a queue, the handshake, in-order delivery of a stream of segments, the
  frame check sequence that reaches the stream, and the invariant of the whole network state.
\<close>

section \<open>The receive ring\<close>

definition sock_wf :: "tcp_socket_t \<Rightarrow> bool" where
  "sock_wf s \<longleftrightarrow> rbuf_head s < TCP_BUF_SIZE \<and> rbuf_tail s < TCP_BUF_SIZE"

definition sock_list :: "tcp_socket_t \<Rightarrow> bytes" where
  "sock_list s = ring_list TCP_BUF_SIZE (rbuf s) (rbuf_head s) (rbuf_tail s)"

interpretation sockq: fifo sock_list sock_wf 4095 "\<lambda>s. rbuf_head s = rbuf_tail s"
  "\<lambda>s. (rbuf_head s + 1) mod TCP_BUF_SIZE = rbuf_tail s" sock_put sock_get
proof unfold_locales
  fix q assume q: "sock_wf q"
  then have b: "rbuf_head q < 4096" "rbuf_tail q < 4096" by (simp_all add: sock_wf_def TCP_BUF_SIZE_def)
  show "(rbuf_head q = rbuf_tail q) = (sock_list q = [])"
    using b by (simp add: sock_list_def TCP_BUF_SIZE_def ring_list_Nil_iff)
  show "((rbuf_head q + 1) mod TCP_BUF_SIZE = rbuf_tail q) = (length (sock_list q) = 4095)"
    using b by (auto simp: sock_list_def TCP_BUF_SIZE_def ring_used_cases ring_succ_cases)
  have "length (sock_list q) < 4096" by (simp add: sock_list_def TCP_BUF_SIZE_def)
  then show "length (sock_list q) \<le> 4095" by simp
  show "sock_list q = fst (sock_get q) # sock_list (snd (sock_get q))" if "rbuf_head q \<noteq> rbuf_tail q"
    using ring_list_get [OF b that, of "rbuf q"] by (simp add: sock_list_def sock_get_def TCP_BUF_SIZE_def)
  show "sock_wf (snd (sock_get q))" if "rbuf_head q \<noteq> rbuf_tail q"
    using b by (simp add: sock_wf_def sock_get_def TCP_BUF_SIZE_def)
  fix a assume nf: "(rbuf_head q + 1) mod TCP_BUF_SIZE \<noteq> rbuf_tail q"
  show "sock_list (sock_put a q) = sock_list q @ [a]"
    using ring_list_put [OF b, of "(rbuf q)(rbuf_head q := a)"] nf b
    by (simp add: sock_list_def sock_put_def TCP_BUF_SIZE_def ring_list_store)
  show "sock_wf (sock_put a q)" using b by (simp add: sock_wf_def sock_put_def TCP_BUF_SIZE_def)
qed

lemma sock_avail_list: "sock_avail s = length (sock_list s)"
  by (simp add: sock_avail_def sock_list_def)

lemma sock_frame [simp]:
  "sock_list (s\<lparr>ts_seq := x\<rparr>) = sock_list s" "sock_list (s\<lparr>ts_ack := x\<rparr>) = sock_list s" "sock_list (s\<lparr>ts_state := c\<rparr>) = sock_list s"
  "sock_wf (s\<lparr>ts_seq := x\<rparr>) = sock_wf s" "sock_wf (s\<lparr>ts_ack := x\<rparr>) = sock_wf s" "sock_wf (s\<lparr>ts_state := c\<rparr>) = sock_wf s"
  "sock_wf (s\<lparr>ts_used := u\<rparr>) = sock_wf s"
  by (simp_all add: sock_list_def sock_wf_def)

lemma sock_put_keeps [simp]:
  "ts_state (fold sock_put d s) = ts_state s" "remote_ip (fold sock_put d s) = remote_ip s" "remote_port (fold sock_put d s) = remote_port s"
  "local_port (fold sock_put d s) = local_port s" "local_ip (fold sock_put d s) = local_ip s" "ts_used (fold sock_put d s) = ts_used s"
  "ts_seq (fold sock_put d s) = ts_seq s" "ts_ack (fold sock_put d s) = ts_ack s"
  by (induction d arbitrary: s) (simp_all add: sock_put_def)

lemma sock_wf_put: "sock_wf s \<Longrightarrow> sock_wf (fold sock_put d s)"
  by (induction d arbitrary: s) (simp_all add: sock_put_def sock_wf_def TCP_BUF_SIZE_def)

section \<open>Sending a segment\<close>

definition macs_ok :: "net \<Rightarrow> bool" where
  "macs_ok st \<longleftrightarrow> length (my_mac st) = 6 \<and> (\<forall>i < arp_count st. length (arp_cache_mac st i) = 6)"

lemma arp_lookup_length: "macs_ok st \<Longrightarrow> arp_lookup ip st = Some m \<Longrightarrow> length m = 6"
  by (auto simp: arp_lookup_def arp_find_def macs_ok_def dest: first_idx_SomeD)

lemma net_send_raw_some:
  "unat len \<le> length f \<Longrightarrow> \<exists>r k w'. net_send_raw io f len (st, w) = Some (r, st\<lparr>tx_idx := k\<rparr>, w') \<and> (k = tx_idx st \<or> k < TX_BUFS)"
proof (cases "\<not> rtl_ready_flag st \<or> unat len > TX_BUF_SIZE")
  case True
  then have "net_send_raw io f len (st, w) = Some (-1, st\<lparr>tx_idx := tx_idx st\<rparr>, w)" by (auto simp: net_send_raw_def)
  then show ?thesis by blast
next
  case False
  assume "unat len \<le> length f"
  with False show ?thesis by (auto simp: net_send_raw_def slice_def Let_def TX_BUFS_def)
qed

lemma tcp_frame_ok:
  assumes "macs_ok st" "unat n \<le> 1446" "n = 0 \<or> unat n \<le> length d"
  shows "\<exists>f. tcp_frame st s fl d n = Some f \<and> length f = 54 + unat n"
proof -
  let ?h = "ip_header (20 + (20 + n)) 0 IPPROTO_TCP (local_ip s) (remote_ip s)"
  obtain c where c: "add_checksum ?h = Some (?h\<lparr>ip_csum := c\<rparr>)"
    using add_checksum_ok [of ?h] by (auto simp: ip_header_def)
  have "(if n \<noteq> 0 then slice d 0 (unat n) else Some []) = Some (take (unat n) d)" using assms(3) by (auto simp: slice_def)
  then show ?thesis
    unfolding tcp_frame_def c using assms arp_lookup_length [OF assms(1)]
    by (auto simp: macs_ok_def eth_bytes_def ETH_ALEN_def split: option.splits)
qed

lemma tcp_send_raw_ok:
  assumes "macs_ok st" "unat n \<le> 1446" "n = 0 \<or> unat n \<le> length d"
  shows "\<exists>k w'. tcp_send_raw io i fl d n (st, w)
      = Some (sock_upd i (\<lambda>s. s\<lparr>ts_seq := ts_seq s + (if tst fl (TCP_SYN OR TCP_FIN) then 1 else 0) + ucast n\<rparr>) (st\<lparr>tx_idx := k\<rparr>), w')
      \<and> (k = tx_idx st \<or> k < TX_BUFS)"
proof -
  obtain f where f: "tcp_frame st (tcp_sockets st i) fl d n = Some f" "length f = 54 + unat n"
    using tcp_frame_ok [OF assms] by blast
  have le: "unat (14 + (20 + (20 + n))) \<le> length f" using f(2) assms(2) by (simp add: unat_word_ariths)
  obtain r k w' where "net_send_raw io f (14 + (20 + (20 + n))) (st, w) = Some (r, st\<lparr>tx_idx := k\<rparr>, w')" "k = tx_idx st \<or> k < TX_BUFS"
    using net_send_raw_some [OF le, of io st w] by (elim exE conjE) (rule that)
  with f(1) show ?thesis unfolding tcp_send_raw_def by (intro exI [of _ k] exI [of _ w']) simp
qed

lemma tcp_ack_ok:
  assumes "macs_ok st"
  shows "\<exists>k w'. tcp_send_raw io i TCP_ACK [] 0 (st, w) = Some (st\<lparr>tx_idx := k\<rparr>, w') \<and> (k = tx_idx st \<or> k < TX_BUFS)"
proof -
  have f: "\<not> tst TCP_ACK (TCP_SYN OR TCP_FIN)" by (simp add: tst_def TCP_ACK_def TCP_SYN_def TCP_FIN_def)
  have u: "sock_upd i (\<lambda>s. s\<lparr>ts_seq := ts_seq s + 0 + ucast (0 :: u16)\<rparr>) x = x" for x by (simp add: sock_upd_def)
  show ?thesis using tcp_send_raw_ok [OF assms, of 0 "[]" io i TCP_ACK w] unfolding if_not_P [OF f] u by simp
qed

section \<open>Receiving segments\<close>

text \<open>A segment with a header of twenty bytes.\<close>

definition is_tcp :: "bytes \<Rightarrow> u32 \<Rightarrow> u16 \<Rightarrow> u16 \<Rightarrow> u32 \<Rightarrow> u32 \<Rightarrow> u8 \<Rightarrow> bytes \<Rightarrow> bool" where
  "is_tcp f src sp dp sq ak fl data \<longleftrightarrow> (\<exists>e i h. f = e @ i @ h @ data \<and> length e = 14 \<and> length i = 20 \<and> length h = 20
     \<and> NET_HTONS (eth_type (eth_of e)) = ETH_P_IP \<and> protocol (ip_of i) = IPPROTO_TCP \<and> NET_HTONL (src_ip (ip_of i)) = src
     \<and> NET_HTONS (th_src (tcp_of h)) = sp \<and> NET_HTONS (th_dst (tcp_of h)) = dp \<and> NET_HTONL (th_seq (tcp_of h)) = sq
     \<and> NET_HTONL (th_ack_seq (tcp_of h)) = ak \<and> th_flags (tcp_of h) = fl \<and> data_offset (tcp_of h) = 0x50)"

lemma is_tcp_slices:
  assumes "is_tcp f src sp dp sq ak fl data"
  obtains e i h where "slice (f @ r) 0 14 = Some e" "slice (f @ r) 14 20 = Some i" "slice (f @ r) 34 20 = Some h"
    "\<And>n. n \<le> length (data @ r) \<Longrightarrow> slice (f @ r) 54 n = Some (take n (data @ r))" "length f = 54 + length data"
    "NET_HTONS (eth_type (eth_of e)) = ETH_P_IP" "protocol (ip_of i) = IPPROTO_TCP" "NET_HTONL (src_ip (ip_of i)) = src"
    "NET_HTONS (th_src (tcp_of h)) = sp" "NET_HTONS (th_dst (tcp_of h)) = dp" "NET_HTONL (th_seq (tcp_of h)) = sq"
    "NET_HTONL (th_ack_seq (tcp_of h)) = ak" "th_flags (tcp_of h) = fl" "data_offset (tcp_of h) = 0x50"
proof -
  obtain e i h where f: "f = e @ i @ h @ data" and l: "length e = 14" "length i = 20" "length h = 20"
    and p: "NET_HTONS (eth_type (eth_of e)) = ETH_P_IP" "protocol (ip_of i) = IPPROTO_TCP" "NET_HTONL (src_ip (ip_of i)) = src"
      "NET_HTONS (th_src (tcp_of h)) = sp" "NET_HTONS (th_dst (tcp_of h)) = dp" "NET_HTONL (th_seq (tcp_of h)) = sq"
      "NET_HTONL (th_ack_seq (tcp_of h)) = ak" "th_flags (tcp_of h) = fl" "data_offset (tcp_of h) = 0x50"
    using assms unfolding is_tcp_def by (elim exE conjE)
  have s: "slice (f @ r) 0 14 = Some e" "slice (f @ r) 14 20 = Some i" "slice (f @ r) 34 20 = Some h"
    using slice_mid [of "[]" 0 e 14] slice_mid [of e 14 i 20] slice_mid [of "e @ i" 34 h 20] l by (simp_all add: f)
  have d: "slice (f @ r) 54 n = Some (take n (data @ r))" if "n \<le> length (data @ r)" for n
    using that l by (simp add: slice_def f)
  have "length f = 54 + length data" using l by (simp add: f)
  from that [OF s d this p] show thesis .
qed

text \<open>The sockets that belong to no other connection than that of socket \<open>i\<close>.\<close>

definition sock_of :: "net \<Rightarrow> nat \<Rightarrow> u32 \<Rightarrow> u16 \<Rightarrow> u16 \<Rightarrow> bool" where
  "sock_of st i src sp dp \<longleftrightarrow> first_idx (\<lambda>j. ts_used (tcp_sockets st j) \<and> remote_ip (tcp_sockets st j) = src
     \<and> remote_port (tcp_sockets st j) = sp \<and> local_port (tcp_sockets st j) = dp) 0 TCP_MAX_SOCKETS = Some i"

lemma unat_len_4: "length f = 54 + length data \<Longrightarrow> length f + k \<le> 1600 \<Longrightarrow>
    unat (of_nat (length f + k) - 14 - 20 - ucast (drop_bit 4 (0x50 :: u8) * 4) :: u16) = length data + k"
proof -
  assume a: "length f = 54 + length data" "length f + k \<le> 1600"
  have "(of_nat (length f + k) - 14 - 20 - ucast (drop_bit 4 (0x50 :: u8) * 4) :: u16) = of_nat (length data + k)"
    using a(1) by simp
  then show ?thesis using a by (simp add: unat_u16_of_nat del: of_nat_add)
qed

text \<open>
  What an established socket makes of a segment whose frame is followed by \<open>r\<close>, when the driver reports \<open>length r\<close> bytes too
  many: they are taken as data.
\<close>

lemma tcp_process_data:
  assumes "is_tcp f src sp dp sq ak fl data" "sock_of st i src sp dp" "ts_state (tcp_sockets st i) = TCP_ESTABLISHED"
    "macs_ok st" "\<not> tst fl TCP_FIN" "length f + length r \<le> 1600" "data @ r \<noteq> []"
  shows "\<exists>k w'. tcp_process io (f @ r @ rest) (of_nat (length f + length r)) (st, w)
      = Some (sock_upd i (\<lambda>s. fold sock_put (data @ r) (s\<lparr>ts_ack := sq + of_nat (length (data @ r))\<rparr>)) (st\<lparr>tx_idx := k\<rparr>), w')
      \<and> (k = tx_idx st \<or> k < TX_BUFS)"
proof -
  obtain e ib h where sl: "slice (f @ r @ rest) 14 20 = Some ib" "slice (f @ r @ rest) 34 20 = Some h"
    and sd: "\<And>n. n \<le> length (data @ r @ rest) \<Longrightarrow> slice (f @ r @ rest) 54 n = Some (take n (data @ r @ rest))"
    and lf: "length f = 54 + length data"
    and p: "NET_HTONL (src_ip (ip_of ib)) = src" "NET_HTONS (th_src (tcp_of h)) = sp" "NET_HTONS (th_dst (tcp_of h)) = dp"
      "NET_HTONL (th_seq (tcp_of h)) = sq" "th_flags (tcp_of h) = fl" "data_offset (tcp_of h) = 0x50"
    by (rule is_tcp_slices [OF assms(1), of "r @ rest"]) (rule that)
  let ?len = "of_nat (length f + length r) :: u16"
  let ?st = "sock_upd i (\<lambda>s. fold sock_put (data @ r) (s\<lparr>ts_ack := sq + of_nat (length (data @ r))\<rparr>)) st"
  have "unat ?len = length f + length r" using assms(6) by (intro unat_u16_of_nat) simp
  then have ge: "\<not> ?len < 14 + 20 + 20" using lf by (simp add: word_less_nat_alt del: of_nat_add)
  have m: "first_idx (tcp_match st (ip_of ib) (tcp_of h)) 0 TCP_MAX_SOCKETS = Some i"
    using assms(2) unfolding sock_of_def tcp_match_def p .
  define dl where "dl = ?len - 14 - 20 - ucast (drop_bit 4 (0x50 :: u8) * 4)"
  have dl: "unat dl = length data + length r" unfolding dl_def by (rule unat_len_4 [OF lf assms(6)])
  then have nz: "dl \<noteq> 0" using assms(7) by (auto simp: word_unat_eq_iff)
  have dw: "(ucast dl :: u32) = of_nat (length (data @ r))" using dl by (metis length_append of_nat_unat)
  have d: "slice (f @ r @ rest) (14 + 20 + unat (drop_bit 4 (0x50 :: u8) * 4)) (unat dl) = Some (data @ r)"
    using sd [of "unat dl"] dl by simp
  have mk: "macs_ok ?st" using assms(4) by (simp add: macs_ok_def sock_upd_def)
  obtain k w' where
    sr: "tcp_send_raw io i TCP_ACK [] 0 (?st, w) = Some (?st\<lparr>tx_idx := k\<rparr>, w')" and k: "k = tx_idx ?st \<or> k < TX_BUFS"
    using tcp_ack_ok [OF mk, of io i w] by (elim exE conjE) (rule that)
  have "tcp_data io i (tcp_of h) (f @ r @ rest) ?len (st, w) = Some (?st\<lparr>tx_idx := k\<rparr>, w')"
    unfolding tcp_data_def p prod.case Let_def dl_def [symmetric] using nz d sr dw by simp
  then have "tcp_process io (f @ r @ rest) ?len (st, w) = Some (?st\<lparr>tx_idx := k\<rparr>, w')"
    unfolding tcp_process_def using ge sl m assms(3,5) p by (simp add: tcp_fin_def del: of_nat_add)
  with k show ?thesis by (intro exI [of _ k] exI [of _ w']) (simp add: sock_upd_def)
qed

section \<open>A stream of segments\<close>

text \<open>Segments that arrive one after the other.\<close>

fun tcp_receive :: "'w net_ports \<Rightarrow> bytes list \<Rightarrow> net \<times> 'w \<Rightarrow> (net \<times> 'w) option" where
  "tcp_receive io [] sw = Some sw"
| "tcp_receive io (f # fs) sw = do { sw1 \<leftarrow> tcp_process io f (of_nat (length f)) sw; tcp_receive io fs sw1 }"

definition segment :: "u32 \<Rightarrow> u16 \<Rightarrow> u16 \<Rightarrow> bytes \<Rightarrow> bytes \<Rightarrow> bool" where
  "segment src sp dp f d \<longleftrightarrow> (\<exists>sq ak fl. is_tcp f src sp dp sq ak fl d \<and> \<not> tst fl TCP_FIN) \<and> d \<noteq> [] \<and> length f \<le> 1514"

definition connected :: "net \<Rightarrow> nat \<Rightarrow> u32 \<Rightarrow> u16 \<Rightarrow> u16 \<Rightarrow> bool" where
  "connected st i src sp dp \<longleftrightarrow> sock_of st i src sp dp \<and> ts_state (tcp_sockets st i) = TCP_ESTABLISHED
     \<and> sock_wf (tcp_sockets st i) \<and> macs_ok st"

lemma sock_of_upd:
  assumes "\<And>s. ts_used (g s) = ts_used s \<and> remote_ip (g s) = remote_ip s \<and> remote_port (g s) = remote_port s \<and> local_port (g s) = local_port s"
  shows "sock_of (sock_upd i g (st\<lparr>tx_idx := k\<rparr>)) j src sp dp = sock_of st j src sp dp"
  unfolding sock_of_def by (rule arg_cong [where f = "\<lambda>x. x = Some j"], rule first_idx_cong) (simp add: sock_upd_def assms)

lemma tcp_process_segment:
  assumes "connected st i src sp dp" "segment src sp dp f d" "length (sock_list (tcp_sockets st i)) + length d \<le> 4095"
  shows "\<exists>st' w'. tcp_process io f (of_nat (length f)) (st, w) = Some (st', w') \<and> connected st' i src sp dp
           \<and> sock_list (tcp_sockets st' i) = sock_list (tcp_sockets st i) @ d"
proof -
  obtain sq ak fl where f: "is_tcp f src sp dp sq ak fl d" "\<not> tst fl TCP_FIN" "d \<noteq> []" "length f \<le> 1514"
    using assms(2) unfolding segment_def by (elim exE conjE)
  have c: "sock_of st i src sp dp" "ts_state (tcp_sockets st i) = TCP_ESTABLISHED" "sock_wf (tcp_sockets st i)" "macs_ok st"
    using assms(1) by (auto simp: connected_def)
  have f4: "length f + length ([] :: bytes) \<le> 1600" and f3: "d @ [] \<noteq> []" using f by auto
  let ?g = "\<lambda>s. fold sock_put d (s\<lparr>ts_ack := sq + of_nat (length d)\<rparr>)"
  obtain k w' where p: "tcp_process io f (of_nat (length f)) (st, w) = Some (sock_upd i ?g (st\<lparr>tx_idx := k\<rparr>), w')"
    using tcp_process_data [OF f(1) c(1,2,4) f(2) f4 f3, of io "[]" w] by (elim exE conjE) (rule that, simp)
  have q: "sock_list (?g (tcp_sockets st i)) = sock_list (tcp_sockets st i) @ d \<and> sock_wf (?g (tcp_sockets st i))"
    using sockq.put_many [of "tcp_sockets st i\<lparr>ts_ack := sq + of_nat (length d)\<rparr>" d] c(3) assms(3) by simp
  have "connected (sock_upd i ?g (st\<lparr>tx_idx := k\<rparr>)) i src sp dp"
    unfolding connected_def using c q by (simp add: sock_of_upd) (simp add: sock_upd_def macs_ok_def)
  moreover have "sock_list (tcp_sockets (sock_upd i ?g (st\<lparr>tx_idx := k\<rparr>)) i) = sock_list (tcp_sockets st i) @ d"
    using q by (simp add: sock_upd_def)
  ultimately show ?thesis using p by blast
qed

lemma tcp_receive_segments:
  assumes "list_all2 (segment src sp dp) fs ds" "connected st i src sp dp" "length (sock_list (tcp_sockets st i)) + length (concat ds) \<le> 4095"
  shows "\<exists>st' w'. tcp_receive io fs (st, w) = Some (st', w') \<and> connected st' i src sp dp
           \<and> sock_list (tcp_sockets st' i) = sock_list (tcp_sockets st i) @ concat ds"
  using assms
proof (induction arbitrary: st w rule: list_all2_induct)
  case (Cons f fs d ds)
  have "length (sock_list (tcp_sockets st i)) + length d \<le> 4095" using Cons.prems(2) by simp
  then obtain st1 w1 where p: "tcp_process io f (of_nat (length f)) (st, w) = Some (st1, w1)" and c: "connected st1 i src sp dp"
    and l: "sock_list (tcp_sockets st1 i) = sock_list (tcp_sockets st i) @ d"
    using tcp_process_segment [OF Cons.prems(1) Cons.hyps(1), of io w] by blast
  have "length (sock_list (tcp_sockets st1 i)) + length (concat ds) \<le> 4095" using Cons.prems(2) l by simp
  from Cons.IH [OF c this, of w1] p l show ?case by simp
qed simp

lemma tcp_recv_all:
  assumes "sock_of st i src sp dp" "sock_wf (tcp_sockets st i)" "sock_list (tcp_sockets st i) = d" "d \<noteq> []" "length d \<le> unat len"
    "length d \<le> length buf"
  shows "\<exists>st'. tcp_recv (int i) buf len st = Some (int (length d), d @ drop (length d) buf, st') \<and> sock_list (tcp_sockets st' i) = []"
proof -
  have i: "i < TCP_MAX_SOCKETS" "ts_used (tcp_sockets st i)" using assms(1) unfolding sock_of_def by (auto dest: first_idx_SomeD)
  then have nb: "\<not> sock_bad st (int i)" by (simp add: sock_bad_def)
  obtain d' s' where g: "get_n sock_get (length d) (tcp_sockets st i) = (d', s')" by fastforce
  have "d' = d \<and> sock_list s' = []" using sockq.get_many [OF assms(2), of "length d"] assms(3) g by simp
  moreover have n: "(if length d < unat len then length d else unat len) = length d" using assms(5) by auto
  ultimately show ?thesis
    using g assms(4,6) unfolding tcp_recv_def if_not_P [OF nb] Let_def sock_avail_list nat_int assms(3) n
    by (simp add: blit_def sock_upd_def)
qed


text \<open>A segment for tests: headers from 10.0.2.2 port 80 to port 49152.\<close>

definition seg0 :: "u8 \<Rightarrow> bytes \<Rightarrow> bytes" where
  "seg0 fl d = replicate 12 0 @ [0x08, 0x00] @ ip_bytes (ip_header 0 0 IPPROTO_TCP 0x0A000202 0x0A00020F)
     @ tcp_bytes \<lparr>th_src = NET_HTONS 80, th_dst = NET_HTONS 49152, th_seq = 0, th_ack_seq = 0, data_offset = 0x50,
         th_flags = fl, window = 0, th_csum = 0, urg_ptr = 0\<rparr> @ d"

definition net2 :: net where
  "net2 = sock_upd 0 (\<lambda>s. s\<lparr>ts_used := True, ts_state := TCP_ESTABLISHED, remote_ip := 0x0A000202, remote_port := 80, local_port := 49152\<rparr>) net1"

lemma seg0_is_tcp: "is_tcp (seg0 fl d) 0x0A000202 80 49152 0 0 fl d"
  unfolding is_tcp_def seg0_def
  by (rule exI [of _ "replicate 12 0 @ [0x08, 0x00]"], rule exI, rule exI, rule conjI, simp)
    (simp add: eth_of_def rd16_def nth_append ETH_P_IP_def NET_HTONS_def [of "8"] ip_header_def NET_HTONL_def [of 0])

lemma net2_connected: "connected net2 0 0x0A000202 80 49152" "sock_list (tcp_sockets net2 0) = []"
  by (simp_all add: connected_def sock_of_def first_idx_def upt_rec [of 0] TCP_MAX_SOCKETS_def net2_def sock_upd_def net1_def net0_def
      arp_learn_def arp_find_def sock_wf_def macs_ok_def tcp_socket_zero_def TCP_BUF_SIZE_def sock_list_def ring_list_def)


section \<open>The handshake\<close>

text \<open>
  C26. The client side of the handshake: a SYN-ACK for a socket that waits for it makes the socket established, with the
  peer's sequence number plus one to acknowledge and the acknowledged number to send next, and answers with an ACK; no
  other socket changes. A segment that belongs to no socket changes nothing.
\<close>

theorem tcp_handshake:
  assumes "is_tcp f src sp dp sq ak fl data" "length f \<le> 1514" "macs_ok st"
  shows "(\<forall>i. sock_of st i src sp dp \<longrightarrow> ts_state (tcp_sockets st i) = TCP_SYN_SENT
            \<longrightarrow> fl AND (TCP_SYN OR TCP_ACK) = TCP_SYN OR TCP_ACK
            \<longrightarrow> (\<exists>st' w'. tcp_process io f (of_nat (length f)) (st, w) = Some (st', w')
                  \<and> tcp_sockets st' = (tcp_sockets st)(i := tcp_sockets st i\<lparr>ts_ack := sq + 1, ts_seq := ak, ts_state := TCP_ESTABLISHED\<rparr>)))
       \<and> ((\<forall>i. \<not> sock_of st i src sp dp) \<longrightarrow> tcp_process io f (of_nat (length f)) (st, w) = Some (st, w))"
proof -
  obtain e ib h where sl: "slice (f @ []) 14 20 = Some ib" "slice (f @ []) 34 20 = Some h"
    and lf: "length f = 54 + length data"
    and p: "NET_HTONL (src_ip (ip_of ib)) = src" "NET_HTONS (th_src (tcp_of h)) = sp" "NET_HTONS (th_dst (tcp_of h)) = dp"
      "NET_HTONL (th_seq (tcp_of h)) = sq" "NET_HTONL (th_ack_seq (tcp_of h)) = ak" "th_flags (tcp_of h) = fl"
    by (rule is_tcp_slices [OF assms(1), of "[]"]) (rule that)
  have "unat (of_nat (length f) :: u16) = length f" using assms(2) by (intro unat_u16_of_nat) simp
  then have ge: "\<not> (of_nat (length f) :: u16) < 14 + 20 + 20" using lf by (simp add: word_less_nat_alt del: of_nat_add)
  have m: "first_idx (tcp_match st (ip_of ib) (tcp_of h)) 0 TCP_MAX_SOCKETS = r \<longleftrightarrow> (case r of None \<Rightarrow> \<forall>i. \<not> sock_of st i src sp dp | Some i \<Rightarrow> sock_of st i src sp dp)" for r
    unfolding sock_of_def tcp_match_def p by (auto split: option.splits)
  have "tcp_process io f (of_nat (length f)) (st, w) = Some (st, w)" if "\<forall>i. \<not> sock_of st i src sp dp"
    using m [of None] that sl ge unfolding tcp_process_def by simp
  moreover have "\<exists>st' w'. tcp_process io f (of_nat (length f)) (st, w) = Some (st', w')
      \<and> tcp_sockets st' = (tcp_sockets st)(i := tcp_sockets st i\<lparr>ts_ack := sq + 1, ts_seq := ak, ts_state := TCP_ESTABLISHED\<rparr>)"
    if a: "sock_of st i src sp dp" "ts_state (tcp_sockets st i) = TCP_SYN_SENT" "fl AND (TCP_SYN OR TCP_ACK) = TCP_SYN OR TCP_ACK" for i
  proof -
    let ?st = "sock_upd i (\<lambda>s. s\<lparr>ts_ack := sq + 1, ts_seq := ak, ts_state := TCP_ESTABLISHED\<rparr>) st"
    have mk: "macs_ok ?st" using assms(3) by (simp add: macs_ok_def sock_upd_def)
    obtain k w' where s: "tcp_send_raw io i TCP_ACK [] 0 (?st, w) = Some (?st\<lparr>tx_idx := k\<rparr>, w')"
      using tcp_ack_ok [OF mk, of io i w] by (elim exE conjE) (rule that)
    have "tcp_process io f (of_nat (length f)) (st, w) = Some (?st\<lparr>tx_idx := k\<rparr>, w')"
      using m [of "Some i"] a sl ge p s unfolding tcp_process_def by simp
    then show ?thesis by (simp add: sock_upd_def)
  qed
  ultimately show ?thesis by blast
qed

definition net3 :: net where
  "net3 = sock_upd 0 (\<lambda>s. s\<lparr>ts_state := TCP_SYN_SENT\<rparr>) net2"

lemma net3_waits: "sock_of net3 0 0x0A000202 80 49152" "ts_state (tcp_sockets net3 0) = TCP_SYN_SENT" "macs_ok net3"
  using net2_connected(1) sock_of_upd [of "\<lambda>s. s\<lparr>ts_state := TCP_SYN_SENT\<rparr>" 0 "tx_idx net2" net2 0]
  by (simp_all add: net3_def connected_def) (simp_all add: sock_upd_def macs_ok_def)

lemma tcp_handshake_witness:
  "\<exists>st' w'. tcp_process card_io (seg0 (TCP_SYN OR TCP_ACK) []) 54 (net3, card0) = Some (st', w')
     \<and> ts_state (tcp_sockets st' 0) = TCP_ESTABLISHED \<and> ts_ack (tcp_sockets st' 0) = 1"
proof -
  have l: "length (seg0 (TCP_SYN OR TCP_ACK) []) = 54" by (simp add: seg0_def)
  then have le: "length (seg0 (TCP_SYN OR TCP_ACK) []) \<le> 1514" by simp
  from tcp_handshake [OF seg0_is_tcp le net3_waits(3), of card_io card0, THEN conjunct1, rule_format, OF net3_waits(1,2) ] l
  show ?thesis by (auto simp: TCP_SYN_def TCP_ACK_def)
qed

section \<open>Through the driver\<close>

context nic
begin

lemma poll_tcp:
  assumes "ok w" "rtl_ready_flag st" "rtl_iobase st = base" "inbox w = f # fs" "connected st i src sp dp" "segment src sp dp f d"
    "length (sock_list (tcp_sockets st i)) + length d + 4 \<le> 4095"
  shows "\<exists>fcs st' w'. length fcs = 4 \<and> net_poll io (st, w) = Some (st', w')
           \<and> sock_list (tcp_sockets st' i) = sock_list (tcp_sockets st i) @ d @ fcs"
proof -
  obtain fcs rest w1 where w1: "length fcs = 4" "length f \<le> 1496"
    and poll: "net_poll io (st, w) = do {
           (st1, w4) \<leftarrow> net_dispatch io (f @ fcs @ rest) (of_nat (length f + 4)) (st, w1);
           Some (st1, np_outw io (rtl_iobase st1 + RTL_CAPR) (((capr w + 16 + of_nat (length f + 4) + 4 + 3) AND NOT 3) - 16) w4) }"
    using poll_takes [OF assms(1-4)] by (elim exE conjE) (rule that)
  obtain sq ak fl where f: "is_tcp f src sp dp sq ak fl d" "\<not> tst fl TCP_FIN"
    using assms(6) unfolding segment_def by (elim exE conjE) (rule that)
  have c: "sock_of st i src sp dp" "ts_state (tcp_sockets st i) = TCP_ESTABLISHED" "sock_wf (tcp_sockets st i)" "macs_ok st"
    using assms(5) by (auto simp: connected_def)
  let ?g = "\<lambda>s. fold sock_put (d @ fcs) (s\<lparr>ts_ack := sq + of_nat (length (d @ fcs))\<rparr>)"
  have b: "length f + length fcs \<le> 1600" "d @ fcs \<noteq> []" using w1 by auto
  obtain k w' where p: "tcp_process io (f @ fcs @ rest) (of_nat (length f + length fcs)) (st, w1) = Some (sock_upd i ?g (st\<lparr>tx_idx := k\<rparr>), w')"
    using tcp_process_data [OF f(1) c(1,2,4) f(2) b, of io rest w1] by (elim exE conjE) (rule that)
  obtain e ib h where sl: "slice (f @ fcs @ rest) 0 14 = Some e" "slice (f @ fcs @ rest) 14 20 = Some ib" "length f = 54 + length d"
    and t: "NET_HTONS (eth_type (eth_of e)) = ETH_P_IP" "protocol (ip_of ib) = IPPROTO_TCP"
    by (rule is_tcp_slices [OF f(1), of "fcs @ rest"]) (rule that)
  have "unat (of_nat (length f + 4) :: u16) = length f + 4" using w1(2) by (intro unat_u16_of_nat) simp
  then have ge: "(of_nat (length f + 4) :: u16) \<ge> 14 + 20" "(of_nat (length f + 4) :: u16) \<ge> 14 + 20 + 20"
    using sl(3) by (simp_all add: word_le_nat_alt del: of_nat_add)
  have "net_dispatch io (f @ fcs @ rest) (of_nat (length f + 4)) (st, w1) = Some (sock_upd i ?g (st\<lparr>tx_idx := k\<rparr>), w')"
    unfolding net_dispatch_def using sl t ge p w1(1)
    by (simp add: ETH_P_ARP_def ETH_P_IP_def IPPROTO_UDP_def IPPROTO_TCP_def Let_def del: of_nat_add)
  moreover have "sock_list (?g (tcp_sockets st i)) = sock_list (tcp_sockets st i) @ d @ fcs"
    using sockq.put_many [of "tcp_sockets st i\<lparr>ts_ack := sq + of_nat (length (d @ fcs))\<rparr>" "d @ fcs"] c(3) assms(7) w1(1) by simp
  ultimately show ?thesis using w1(1) unfolding poll by (simp add: sock_upd_def)
qed

end

text \<open>
  Data that arrives through the driver is corrupted: the length that the card reports counts the four bytes of the frame
  check sequence, \<^verbatim>\<open>net_poll\<close> passes it on, and \<^verbatim>\<open>tcp_process\<close> takes the size of the data from it instead of from the
  total length of the IP header, so every segment adds four foreign bytes to the stream.
\<close>

theorem tcp_stream_gets_fcs:
  assumes "card_ok w" "net_up st" "cd_inbox w = [f]" "connected st i src sp dp" "segment src sp dp f d"
    "length (sock_list (tcp_sockets st i)) + length d + 4 \<le> 4095"
  shows "\<exists>fcs st' w'. length fcs = 4 \<and> net_poll card_io (st, w) = Some (st', w')
           \<and> sock_list (tcp_sockets st' i) = sock_list (tcp_sockets st i) @ d @ fcs"
  using card.poll_tcp [OF assms(1) _ _ assms(3-6)] assms(2) by (simp add: net_up_def)

lemma net2_up: "net_up net2"
  using net1_up(1) by (simp add: net2_def net_up_def sock_upd_def rx_inv_def rx_wf_def)

lemma tcp_stream_gets_fcs_witness:
  "\<exists>fcs st' w'. length fcs = 4 \<and> net_poll card_io (net2, card0\<lparr>cd_inbox := [seg0 TCP_ACK [72]]\<rparr>) = Some (st', w')
     \<and> sock_list (tcp_sockets st' 0) = 72 # fcs"
proof -
  have f: "\<not> tst TCP_ACK TCP_FIN" by (simp add: tst_def TCP_ACK_def TCP_FIN_def)
  have l: "length (seg0 TCP_ACK [72]) \<le> 1496" by (simp add: seg0_def)
  then have s: "segment 0x0A000202 80 49152 (seg0 TCP_ACK [72]) [72]"
    unfolding segment_def using seg0_is_tcp [of TCP_ACK "[72]"] f by auto
  have k: "card_ok (card0\<lparr>cd_inbox := [seg0 TCP_ACK [72]]\<rparr>)" using l by (simp add: card_ok_def)
  show ?thesis using tcp_stream_gets_fcs [OF k net2_up _ net2_connected(1) s] net2_connected(2) by simp
qed

end
