(* ===== verification/NetWf.thy ===== *)
theory NetWf
  imports Tcp
begin

text \<open>
  The invariant of the network state and that every operation of the stack keeps it: the indices of the rings and of the
  transmit descriptors are in range, the frame buffers keep their size, hardware addresses have six bytes, and the address
  cache lists no address twice.
\<close>

definition net_wf :: "net \<Rightarrow> bool" where
  "net_wf st \<longleftrightarrow> arp_inv st \<and> rx_inv st \<and> tx_idx st < TX_BUFS \<and> macs_ok st \<and> (\<forall>i. sock_wf (tcp_sockets st i))"

lemma net_wf_parts [simp]:
  "net_wf st \<Longrightarrow> k < TX_BUFS \<Longrightarrow> net_wf (st\<lparr>tx_idx := k\<rparr>)"
  "net_wf (st\<lparr>tcp_next_port := p\<rparr>) \<longleftrightarrow> net_wf st"
  by (simp_all add: net_wf_def arp_inv_def rx_inv_def rx_wf_def macs_ok_def)

lemma net_wf_sock: "net_wf st \<Longrightarrow> (sock_wf (tcp_sockets st i) \<Longrightarrow> sock_wf (g (tcp_sockets st i))) \<Longrightarrow> net_wf (sock_upd i g st)"
  by (simp add: net_wf_def arp_inv_def rx_inv_def rx_wf_def macs_ok_def sock_upd_def)

lemma net_send_raw_wf: "net_send_raw io f len (st, w) = Some (r, st', w') \<Longrightarrow> net_wf st \<Longrightarrow> net_wf st'"
  by (auto simp: net_send_raw_def Let_def TX_BUFS_def split: bind_splits if_splits)

lemma send_arp_request_wf: "send_arp_request io ip (st, w) = Some (st', w') \<Longrightarrow> net_wf st \<Longrightarrow> net_wf st'"
  by (auto simp: send_arp_request_def dest: net_send_raw_wf)

lemma resolve_mac_wf: "resolve_mac io hop (st, t, w) = Some (m, st', t', w') \<Longrightarrow> net_wf st \<Longrightarrow> net_wf st'"
  by (auto simp: resolve_mac_def split: option.splits bind_splits dest: send_arp_request_wf)

lemma net_send_udp_wf: "net_send_udp io dst sp dp d n (st, t, w) = Some (r, st', t', w') \<Longrightarrow> net_wf st \<Longrightarrow> net_wf st'"
  by (auto simp: net_send_udp_def split: if_splits bind_splits dest!: resolve_mac_wf net_send_raw_wf)

lemma tcp_send_raw_wf: "tcp_send_raw io i fl d n (st, w) = Some (st', w') \<Longrightarrow> net_wf st \<Longrightarrow> net_wf st'"
  by (auto simp: tcp_send_raw_def split: bind_splits dest!: net_send_raw_wf intro!: net_wf_sock)

lemma tcp_data_wf: "tcp_data io i tcp f len (st, w) = Some (st', w') \<Longrightarrow> net_wf st \<Longrightarrow> net_wf st'"
  by (auto simp: tcp_data_def Let_def split: if_splits bind_splits elim!: tcp_send_raw_wf intro!: net_wf_sock sock_wf_put)

lemma tcp_fin_wf: "tcp_fin io i tcp (st, w) = Some (st', w') \<Longrightarrow> net_wf st \<Longrightarrow> net_wf st'"
  by (auto simp: tcp_fin_def split: if_splits bind_splits intro!: net_wf_sock elim!: tcp_send_raw_wf)

lemma tcp_process_wf: "tcp_process io f len (st, w) = Some (st', w') \<Longrightarrow> net_wf st \<Longrightarrow> net_wf st'"
  by (auto simp: tcp_process_def Let_def split: if_splits bind_splits option.splits
      intro!: net_wf_sock elim!: tcp_send_raw_wf tcp_fin_wf tcp_data_wf)

lemma queue_frame_wf: "queue_frame p len st = Some st' \<Longrightarrow> net_wf st \<Longrightarrow> net_wf st'"
  by (auto simp: queue_frame_def net_wf_def arp_inv_def rx_inv_def rx_wf_def macs_ok_def RX_RING_SIZE_def length_blit
      split: if_splits bind_splits)

lemma arp_learn_wf: "net_wf st \<Longrightarrow> length mac = 6 \<Longrightarrow> net_wf (arp_learn ip mac st)"
proof -
  assume a: "net_wf st" "length mac = 6"
  then have "arp_inv st" "macs_ok st" by (simp_all add: net_wf_def)
  have "arp_inv (arp_learn ip mac st)"
    using arp_learn_known [OF \<open>arp_inv st\<close>] arp_learn_new [OF \<open>arp_inv st\<close>] \<open>arp_inv st\<close>
    by (cases "arp_find st ip"; cases "arp_count st < 8") (auto simp: arp_learn_def)
  moreover have "macs_ok (arp_learn ip mac st)" using \<open>macs_ok st\<close> a(2) by (auto simp: arp_learn_def macs_ok_def less_Suc_eq split: option.splits)
  ultimately show ?thesis using a(1) by (auto simp: net_wf_def arp_learn_def rx_inv_def rx_wf_def split: option.splits)
qed

lemma net_dispatch_wf: "net_dispatch io p len (st, w) = Some (st', w') \<Longrightarrow> net_wf st \<Longrightarrow> net_wf st'"
  by (auto simp: net_dispatch_def Let_def slice_def arp_of_def split: if_splits bind_splits
      intro!: arp_learn_wf elim!: queue_frame_wf tcp_process_wf)

lemma net_poll_wf: "net_poll io (st, w) = Some (st', w') \<Longrightarrow> net_wf st \<Longrightarrow> net_wf st'"
  by (auto simp: net_poll_def Let_def split: if_splits bind_splits prod.splits elim!: net_dispatch_wf)

lemma udp_take_wf: "udp_take port buf n st = Some (r, buf', from, st') \<Longrightarrow> net_wf st \<Longrightarrow> net_wf st'"
  by (auto simp: udp_take_def Let_def net_wf_def arp_inv_def rx_inv_def rx_wf_def macs_ok_def RX_RING_SIZE_def
      split: if_splits bind_splits)

lemma net_recv_udp_wf: "net_recv_udp io port buf n (st, w) = Some (r, buf', from, st', w') \<Longrightarrow> net_wf st \<Longrightarrow> net_wf st'"
  by (auto simp: net_recv_udp_def split: bind_splits elim!: udp_take_wf net_poll_wf)

lemma connect_wait_wf: "connect_wait n io s (st, t, w) = Some (r, st', t', w') \<Longrightarrow> net_wf st \<Longrightarrow> net_wf st'"
proof (induction n arbitrary: st t w)
  case (Suc n)
  from Suc.prems obtain st1 w1 where p: "net_poll io (st, w) = Some (st1, w1)" by (auto split: bind_splits)
  then have wf: "net_wf st1" using Suc.prems(2) by (rule net_poll_wf)
  show ?case
  proof (cases "ts_state (tcp_sockets st1 s) = TCP_ESTABLISHED")
    case True
    then show ?thesis using Suc.prems(1) p wf by simp
  next
    case False
    then obtain t2 w2 where "connect_wait n io s (st1, t2, w2) = Some (r, st', t', w')"
      using Suc.prems(1) p by (auto split: bind_splits)
    then show ?thesis using wf by (rule Suc.IH)
  qed
qed (auto intro!: net_wf_sock)

lemma sock_zero_wf: "sock_wf (tcp_socket_zero\<lparr>ts_used := u, local_ip := a, remote_ip := b, local_port := c, remote_port := d, ts_seq := e, ts_state := g\<rparr>)"
  by (simp add: sock_wf_def tcp_socket_zero_def TCP_BUF_SIZE_def)

lemma tcp_connect_wf: "tcp_connect io dst dp (st, t, w) = Some (r, st', t', w') \<Longrightarrow> net_wf st \<Longrightarrow> net_wf st'"
  by (auto simp: tcp_connect_def tcp_open_def split: option.splits bind_splits
      intro!: net_wf_sock sock_zero_wf dest!: connect_wait_wf elim!: tcp_send_raw_wf send_arp_request_wf)

lemma tcp_send_wf: "tcp_send io s d n (st, w) = Some (r, st', w') \<Longrightarrow> net_wf st \<Longrightarrow> net_wf st'"
  by (auto simp: tcp_send_def split: if_splits bind_splits elim!: tcp_send_raw_wf)

lemma get_n_wf: "sock_wf s \<Longrightarrow> sock_wf (snd (get_n sock_get n s))"
proof (induction n arbitrary: s)
  case (Suc n)
  have "sock_wf (snd (sock_get s))" using Suc.prems by (simp add: sock_get_def sock_wf_def TCP_BUF_SIZE_def)
  from Suc.IH [OF this] show ?case by (simp add: case_prod_beta)
qed simp

lemma tcp_recv_wf: "tcp_recv s buf n st = Some (r, buf', st') \<Longrightarrow> net_wf st \<Longrightarrow> net_wf st'"
  by (auto simp: tcp_recv_def Let_def split: if_splits bind_splits prod.splits intro!: net_wf_sock)
    (metis get_n_wf snd_conv)+

lemma tcp_close_wf: "tcp_close io s (st, t, w) = Some (st', t', w') \<Longrightarrow> net_wf st \<Longrightarrow> net_wf st'"
  by (auto simp: tcp_close_def split: if_splits bind_splits intro!: net_wf_sock elim!: tcp_send_raw_wf)

lemma length_read_mac: "length (fst (read_mac io base is w)) = length is"
  by (induction "is" arbitrary: w) (simp_all add: case_prod_beta)

lemma net_init_wf: "net_init io (st, w) = Some (r, st', w') \<Longrightarrow> net_wf st \<Longrightarrow> net_wf st'"
  using length_read_mac [of io _ "[0..<ETH_ALEN]"]
  by (auto simp: net_init_def Let_def net_wf_def arp_inv_def rx_inv_def rx_wf_def macs_ok_def ETH_ALEN_def
      split: option.splits prod.splits if_splits bind_splits) (metis fst_conv)+

text \<open>
  The operations of the stack as steps: what the kernel may do with the network state, over any card.
\<close>

inductive net_step :: "'w net_ports \<Rightarrow> net \<times> timer \<times> 'w \<Rightarrow> net \<times> timer \<times> 'w \<Rightarrow> bool" for io where
  init: "net_init io (st, w) = Some (r, st', w') \<Longrightarrow> net_step io (st, t, w) (st', t, w')"
| poll: "net_poll io (st, w) = Some (st', w') \<Longrightarrow> net_step io (st, t, w) (st', t, w')"
| send_udp: "net_send_udp io dst sp dp d n (st, t, w) = Some (r, st', t', w') \<Longrightarrow> net_step io (st, t, w) (st', t', w')"
| recv_udp: "net_recv_udp io port buf n (st, w) = Some (r, buf', from, st', w') \<Longrightarrow> net_step io (st, t, w) (st', t, w')"
| connect: "tcp_connect io dst dp (st, t, w) = Some (r, st', t', w') \<Longrightarrow> net_step io (st, t, w) (st', t', w')"
| send: "tcp_send io s d n (st, w) = Some (r, st', w') \<Longrightarrow> net_step io (st, t, w) (st', t, w')"
| recv: "tcp_recv s buf n st = Some (r, buf', st') \<Longrightarrow> net_step io (st, t, w) (st', t, w)"
| close: "tcp_close io s (st, t, w) = Some (st', t', w') \<Longrightarrow> net_step io (st, t, w) (st', t', w')"
| device: "net_step io (st, t, w) (st, t', w')"

inductive_cases net_step_E: "net_step io (st, t, w) (st', t', w')"

lemma net_step_wf: "net_step io (st, t, w) (st', t', w') \<Longrightarrow> net_wf st \<Longrightarrow> net_wf st'"
  by (erule net_step_E)
    (blast intro: net_init_wf net_poll_wf net_send_udp_wf net_recv_udp_wf tcp_connect_wf tcp_send_wf tcp_recv_wf tcp_close_wf)+

lemma net0_wf: "net_wf net0"
  using net0_arp_inv by (simp add: net_wf_def arp_inv_def rx_inv_def rx_wf_def macs_ok_def sock_wf_def net0_def tcp_socket_zero_def net_sizes ETH_ALEN_def)

text \<open>
  C23. The network state stays well formed: whatever sequence of calls the kernel makes from the initial state, and whatever
  the card and the timer do in between, the ring indices and the transmit descriptor stay in range, the frame buffers keep
  their 1600 bytes, hardware addresses have six bytes, and no address is cached twice.
\<close>

theorem net_state_well_formed:
  "(net_step io)\<^sup>*\<^sup>* (net0, t, w) (st, t', w') \<Longrightarrow> net_wf st"
proof (induction "(st, t', w')" arbitrary: st t' w' rule: rtranclp_induct)
  case base
  then show ?case by (simp add: net0_wf)
next
  case (step y)
  obtain st1 t1 w1 where y: "y = (st1, t1, w1)" by (cases y)
  show ?case by (rule net_step_wf [OF step.hyps(2) [unfolded y] step.hyps(3) [OF y]])
qed

lemma net_state_well_formed_witness:
  "net_wf net0 \<and> (net_step card_io)\<^sup>*\<^sup>* (net0, timer0, card0) (net0, timer0, card0\<lparr>cd_inbox := [seg0 TCP_ACK []]\<rparr>)"
proof -
  have "(net_step card_io)\<^sup>*\<^sup>* (net0, timer0, card0) (net0, timer0, card0\<lparr>cd_inbox := [seg0 TCP_ACK []]\<rparr>)"
    by (rule r_into_rtranclp) (rule net_step.device)
  with net_state_well_formed [OF this] show ?thesis by simp
qed

end
