(* ===== verification/Libc.thy ===== *)
theory Libc
  imports KString Digits Serial
begin

text \<open>
  The C library of the userland, \<^verbatim>\<open>user/kumos_libc.h\<close>: strings and memory, character classes, number conversion,
  sorting, tokens, formatted output and input, and the allocator on \<^verbatim>\<open>sbrk\<close>. Signed overflow, which C leaves
  undefined, is \<open>None\<close>. A returned pointer is an offset; the null pointer is \<open>None\<close> inside.
\<close>

section \<open>Strings\<close>

fun strlen :: "bytes \<Rightarrow> nat option" where
  "strlen [] = None"
| "strlen (c # s) = (if c = 0 then Some 0 else map_option Suc (strlen s))"

fun strcmp :: "bytes \<Rightarrow> bytes \<Rightarrow> int option" where
  "strcmp (a # as) (b # bs) = (if a \<noteq> 0 \<and> a = b then strcmp as bs else Some (uint a - uint b))"
| "strcmp [] _ = None"
| "strcmp _ [] = None"

fun strncmp :: "bytes \<Rightarrow> bytes \<Rightarrow> nat \<Rightarrow> int option" where
  "strncmp _ _ 0 = Some 0"
| "strncmp (a # as) (b # bs) (Suc n) = (if a \<noteq> 0 \<and> a = b then strncmp as bs n else Some (uint a - uint b))"
| "strncmp [] _ (Suc n) = None"
| "strncmp _ [] (Suc n) = None"

fun strcpy :: "bytes \<Rightarrow> bytes \<Rightarrow> bytes option" where
  "strcpy (d # ds) (c # cs) = (if c = 0 then Some (0 # ds) else map_option ((#) c) (strcpy ds cs))"
| "strcpy [] _ = None"
| "strcpy _ [] = None"

fun memset :: "bytes \<Rightarrow> u8 \<Rightarrow> nat \<Rightarrow> bytes option" where
  "memset ds c 0 = Some ds"
| "memset (d # ds) c (Suc n) = map_option ((#) c) (memset ds c n)"
| "memset [] c (Suc n) = None"

text \<open>
  \<^verbatim>\<open>strncpy\<close>: behind a terminator that was copied, the second loop counts \<^verbatim>\<open>n\<close> down past zero to the largest number, so it
  runs once more than \<^verbatim>\<open>n\<close> says; when the first loop ends at the limit, \<^verbatim>\<open>n\<close> is there already and nothing is filled.
\<close>

fun strncpy :: "bytes \<Rightarrow> bytes \<Rightarrow> nat \<Rightarrow> bytes option" where
  "strncpy ds cs 0 = Some ds"
| "strncpy (d # ds) (c # cs) (Suc n) = map_option ((#) c) (if c \<noteq> 0 then strncpy ds cs n else memset ds 0 (Suc n))"
| "strncpy [] _ (Suc n) = None"
| "strncpy _ [] (Suc n) = None"

fun strcat :: "bytes \<Rightarrow> bytes \<Rightarrow> bytes option" where
  "strcat [] src = None"
| "strcat (d # ds) src = (if d \<noteq> 0 then map_option ((#) d) (strcat ds src) else strcpy (d # ds) src)"

fun strchr :: "bytes \<Rightarrow> u8 \<Rightarrow> nat option option" where
  "strchr [] c = None"
| "strchr (a # s) c = (if a = 0 then Some None else if a = c then Some (Some 0) else map_option (map_option Suc) (strchr s c))"

fun memcpy :: "bytes \<Rightarrow> bytes \<Rightarrow> nat \<Rightarrow> bytes option" where
  "memcpy ds cs 0 = Some ds"
| "memcpy (d # ds) (c # cs) (Suc n) = map_option ((#) c) (memcpy ds cs n)"
| "memcpy [] _ (Suc n) = None"
| "memcpy _ [] (Suc n) = None"

fun memcmp :: "bytes \<Rightarrow> bytes \<Rightarrow> nat \<Rightarrow> int option" where
  "memcmp _ _ 0 = Some 0"
| "memcmp (a # as) (b # bs) (Suc n) = (if a \<noteq> b then Some (uint a - uint b) else memcmp as bs n)"
| "memcmp [] _ (Suc n) = None"
| "memcmp _ [] (Suc n) = None"

text \<open>
  \<^verbatim>\<open>memmove\<close> within one buffer: the two directions of the byte by byte copy, chosen by the order of the pointers.
\<close>

fun move_up :: "bytes \<Rightarrow> nat \<Rightarrow> nat \<Rightarrow> nat \<Rightarrow> bytes option" where
  "move_up m d s 0 = Some m"
| "move_up m d s (Suc n) = (if d < length m \<and> s < length m then move_up (m[d := m ! s]) (d + 1) (s + 1) n else None)"

fun move_down :: "bytes \<Rightarrow> nat \<Rightarrow> nat \<Rightarrow> nat \<Rightarrow> bytes option" where
  "move_down m d s 0 = Some m"
| "move_down m d s (Suc n) =
     (if d + n < length m \<and> s + n < length m then move_down (m[d + n := m ! (s + n)]) d s n else None)"

definition memmove :: "bytes \<Rightarrow> nat \<Rightarrow> nat \<Rightarrow> nat \<Rightarrow> bytes option" where
  "memmove m dst src n = (if dst < src \<or> dst \<ge> src + n then move_up m dst src n else move_down m dst src n)"

text \<open>
  \<^verbatim>\<open>strncat\<close>: the terminator of the source is copied like any other character, and another one is stored behind it.
\<close>

fun strncat_copy :: "bytes \<Rightarrow> bytes \<Rightarrow> nat \<Rightarrow> bytes option" where
  "strncat_copy [] src n = None"
| "strncat_copy (d # ds) src 0 = Some (0 # ds)"
| "strncat_copy (d # ds) [] (Suc n) = None"
| "strncat_copy (d # ds) (c # cs) (Suc n) =
     (if c \<noteq> 0 then map_option ((#) c) (strncat_copy ds cs n)
      else case ds of [] \<Rightarrow> None | _ # r \<Rightarrow> Some (0 # 0 # r))"

fun strncat :: "bytes \<Rightarrow> bytes \<Rightarrow> nat \<Rightarrow> bytes option" where
  "strncat [] src n = None"
| "strncat (d # ds) src n = (if d \<noteq> 0 then map_option ((#) d) (strncat ds src n) else strncat_copy (d # ds) src n)"

fun str_prefix :: "bytes \<Rightarrow> bytes \<Rightarrow> bool option" where
  "str_prefix h [] = None"
| "str_prefix [] (n # ns) = None"
| "str_prefix (h # hs) (n # ns) =
     (if n = 0 then Some True else if h \<noteq> 0 \<and> h = n then str_prefix hs ns else Some False)"

fun strstr_loop :: "bytes \<Rightarrow> bytes \<Rightarrow> nat option option" where
  "strstr_loop [] needle = None"
| "strstr_loop (h # hs) needle =
     (if h = 0 then Some None
      else do { p \<leftarrow> str_prefix (h # hs) needle; if p then Some (Some 0) else map_option (map_option Suc) (strstr_loop hs needle) })"

definition strstr :: "bytes \<Rightarrow> bytes \<Rightarrow> nat option option" where
  "strstr hay needle = (case needle of [] \<Rightarrow> None | n # _ \<Rightarrow> if n = 0 then Some (Some 0) else strstr_loop hay needle)"

section \<open>Character classes\<close>

definition isdigit :: "int \<Rightarrow> bool" where "isdigit c \<longleftrightarrow> 48 \<le> c \<and> c \<le> 57"
definition isalpha :: "int \<Rightarrow> bool" where "isalpha c \<longleftrightarrow> 97 \<le> c \<and> c \<le> 122 \<or> 65 \<le> c \<and> c \<le> 90"
definition isalnum :: "int \<Rightarrow> bool" where "isalnum c \<longleftrightarrow> isdigit c \<or> isalpha c"
definition isspace :: "int \<Rightarrow> bool" where "isspace c \<longleftrightarrow> c = 32 \<or> c = 9 \<or> c = 10 \<or> c = 13"
definition toupper :: "int \<Rightarrow> int" where "toupper c = (if 97 \<le> c \<and> c \<le> 122 then c - 32 else c)"
definition tolower :: "int \<Rightarrow> int" where "tolower c = (if 65 \<le> c \<and> c \<le> 90 then c + 32 else c)"

text \<open>A signed 32-bit result; outside the range is undefined.\<close>

definition int32 :: "int \<Rightarrow> int option" where
  "int32 x = (if - (2 ^ 31) \<le> x \<and> x < 2 ^ 31 then Some x else None)"

definition abs_c :: "int \<Rightarrow> int option" where
  "abs_c n = (if n < 0 then int32 (- n) else Some n)"

section \<open>Numbers\<close>

text \<open>A string is read up to a character that stops it; reading past the object is \<open>None\<close>.\<close>

fun skip_blanks :: "bytes \<Rightarrow> bytes option" where
  "skip_blanks [] = None"
| "skip_blanks (c # s) = (if c = 32 then skip_blanks s else Some (c # s))"

fun atoi_digits :: "bytes \<Rightarrow> int \<Rightarrow> int option" where
  "atoi_digits [] n = None"
| "atoi_digits (c # s) n =
     (if 48 \<le> c \<and> c \<le> 57 then do { m \<leftarrow> int32 (n * 10); k \<leftarrow> int32 (m + (uint c - 48)); atoi_digits s k } else Some n)"

definition atoi :: "bytes \<Rightarrow> int option" where
  "atoi s = do {
     t \<leftarrow> skip_blanks s;
     case t of [] \<Rightarrow> None
     | c # r \<Rightarrow> if c = 45 then map_option uminus (atoi_digits r 0) else atoi_digits (if c = 43 then r else t) 0 }"

text \<open>
  \<^verbatim>\<open>itoa\<close>: the digits of the unsigned value and a minus sign for negative decimal numbers, collected in \<^verbatim>\<open>tmp[34]\<close>. The
  digit loop is the one of \<^verbatim>\<open>kitoa\<close>.
\<close>

definition itoa :: "int \<Rightarrow> bytes \<Rightarrow> u32 \<Rightarrow> bytes option" where
  "itoa val buf base =
     (if val = 0 then blit buf 0 [48, 0]
      else do {
        let neg = (base = 10 \<and> val < 0);
        v \<leftarrow> (if neg then int32 (- val) else Some val);
        tmp \<leftarrow> kitoa_tmp 34 (of_int v) base;
        let tmp1 = (if neg then tmp @ [45] else tmp);
        if length tmp1 > 34 then None else blit buf 0 (rev tmp1 @ [0]) })"

definition utoa :: "u32 \<Rightarrow> bytes \<Rightarrow> u32 \<Rightarrow> bytes option" where
  "utoa val buf base = itoa (sint val) buf base"

text \<open>The digits of \<^verbatim>\<open>strtol\<close>; the result is the value and what is left of the string.\<close>

definition strtol_digit :: "u8 \<Rightarrow> int option" where
  "strtol_digit c = (if 48 \<le> c \<and> c \<le> 57 then Some (uint c - 48) else if 97 \<le> c \<and> c \<le> 122 then Some (uint c - 97 + 10)
     else if 65 \<le> c \<and> c \<le> 90 then Some (uint c - 65 + 10) else None)"

fun strtol_loop :: "bytes \<Rightarrow> int \<Rightarrow> int \<Rightarrow> (int \<times> bytes) option" where
  "strtol_loop [] base n = None"
| "strtol_loop (c # s) base n =
     (if c = 0 then Some (n, c # s)
      else case strtol_digit c of
        None \<Rightarrow> Some (n, c # s)
      | Some d \<Rightarrow> if d \<ge> base then Some (n, c # s)
                  else do { m \<leftarrow> int32 (n * base); k \<leftarrow> int32 (m + d); strtol_loop s base k })"

definition hex_prefix :: "bytes \<Rightarrow> bool option" where
  "hex_prefix t = (case t of [] \<Rightarrow> None | [c] \<Rightarrow> if c = 48 then None else Some False
     | c # x # _ \<Rightarrow> Some (c = 48 \<and> (x = 120 \<or> x = 88)))"

definition strtol :: "bytes \<Rightarrow> int \<Rightarrow> (int \<times> bytes) option" where
  "strtol s base0 = do {
     t \<leftarrow> skip_blanks s;
     let neg = (hd t = 45);
     let t1 = (if hd t = 45 \<or> hd t = 43 then tl t else t);
     (base, t2) \<leftarrow>
       (if base0 = 0 then do {
          h \<leftarrow> hex_prefix t1;
          Some (if h then (16, drop 2 t1) else if hd t1 = 48 then (8, tl t1) else (10, t1)) }
        else if base0 = 16 then do { h \<leftarrow> hex_prefix t1; Some (16, if h then drop 2 t1 else t1) }
        else Some (base0, t1));
     (n, r) \<leftarrow> strtol_loop t2 base 0;
     Some (if neg then - n else n, r) }"

section \<open>Sorting\<close>

text \<open>
  \<^verbatim>\<open>qsort\<close>, an insertion sort; the elements of \<^verbatim>\<open>sz\<close> bytes are the elements of the list, and \<^verbatim>\<open>tmp\<close> has room for
  256 bytes.
\<close>

fun qsort_insert :: "('a \<Rightarrow> 'a \<Rightarrow> int) \<Rightarrow> 'a \<Rightarrow> nat \<Rightarrow> 'a list \<Rightarrow> 'a list" where
  "qsort_insert cmp tmp 0 arr = arr[0 := tmp]"
| "qsort_insert cmp tmp (Suc j) arr =
     (if cmp (arr ! j) tmp > 0 then qsort_insert cmp tmp j (arr[Suc j := arr ! j]) else arr[Suc j := tmp])"

definition qsort :: "('a \<Rightarrow> 'a \<Rightarrow> int) \<Rightarrow> nat \<Rightarrow> 'a list \<Rightarrow> 'a list option" where
  "qsort cmp sz arr =
     (if length arr < 2 then Some arr
      else if sz > 256 then None
      else Some (fold (\<lambda>i a. qsort_insert cmp (a ! i) i a) [1..<length arr] arr))"

section \<open>Tokens\<close>

text \<open>How far a loop runs while the characters are not zero and have a property.\<close>

fun scan :: "(u8 \<Rightarrow> bool) \<Rightarrow> bytes \<Rightarrow> nat option" where
  "scan P [] = None"
| "scan P (c # s) = (if c \<noteq> 0 \<and> P c then map_option Suc (scan P s) else Some 0)"

definition in_delim :: "bytes \<Rightarrow> u8 \<Rightarrow> bool" where
  "in_delim delim c = (case strchr delim c of Some (Some i) \<Rightarrow> True | _ \<Rightarrow> False)"

text \<open>
  \<^verbatim>\<open>strtok_r\<close> on the buffer that the saved pointer points into: the token and the new saved pointer as offsets.
\<close>

definition strtok_r :: "nat option \<Rightarrow> bytes \<Rightarrow> nat option \<times> bytes \<Rightarrow> (nat option \<times> nat option \<times> bytes) option" where
  "strtok_r str delim = (\<lambda>(save, buf).
     (case (if str \<noteq> None then str else save) of
        None \<Rightarrow> Some (None, None, buf)
      | Some p \<Rightarrow> do {
          a \<leftarrow> scan (in_delim delim) (drop p buf);
          let tok = p + a;
          if buf ! tok = 0 then Some (None, Some tok, buf)
          else do {
            b \<leftarrow> scan (\<lambda>c. \<not> in_delim delim c) (drop tok buf);
            let q = tok + b;
            Some (if buf ! q \<noteq> 0 then (Some tok, Some (q + 1), buf[q := 0]) else (Some tok, Some q, buf)) } }))"

definition strtok :: "nat option \<Rightarrow> bytes \<Rightarrow> nat option \<times> bytes \<Rightarrow> (nat option \<times> nat option \<times> bytes) option" where
  "strtok str delim s = strtok_r str delim s"

section \<open>The allocator\<close>

text \<open>The system call that moves the break is a parameter.\<close>

definition malloc :: "(u32 \<Rightarrow> 'w \<Rightarrow> u32 \<times> 'w) \<Rightarrow> u32 \<Rightarrow> u32 \<times> 'w \<Rightarrow> u32 \<times> u32 \<times> 'w" where
  "malloc sbrk sz = (\<lambda>(heap_ptr, w).
     (if sz = 0 then (0, heap_ptr, w)
      else let n = (sz + 7) AND NOT 7;
               (hp, w1) = (if heap_ptr = 0 then sbrk 0 w else (heap_ptr, w))
        in if heap_ptr = 0 \<and> (hp = 0 \<or> hp = -1) then (0, hp, w1)
           else case sbrk n w1 of (r, w2) \<Rightarrow> if r = -1 then (0, hp, w2) else (hp, hp + n, w2)))"

definition free_u :: "u32 \<Rightarrow> u32 \<times> 'w \<Rightarrow> u32 \<times> 'w" where
  "free_u ptr s = s"

section \<open>Formatted output\<close>

fun fmt_width :: "bytes \<Rightarrow> int \<Rightarrow> (int \<times> bytes) option" where
  "fmt_width [] w = None"
| "fmt_width (c # s) w =
     (if 48 \<le> c \<and> c \<le> 57 then do { m \<leftarrow> int32 (w * 10); k \<leftarrow> int32 (m + (uint c - 48)); fmt_width s k } else Some (w, c # s))"

text \<open>After the percent sign: zero padding, width, the conversion character, and the rest of the format.\<close>

definition fmt_spec :: "bytes \<Rightarrow> (bool \<times> int \<times> u8 \<times> bytes) option" where
  "fmt_spec s = (case s of [] \<Rightarrow> None
     | c # r \<Rightarrow> do {
         (w, t) \<leftarrow> fmt_width (if c = 48 then r else s) 0;
         case t of [] \<Rightarrow> None | k # r2 \<Rightarrow> Some (c = 48, w, k, r2) })"

lemma fmt_width_shorter: "fmt_width s w = Some (w', t) \<Longrightarrow> length t \<le> length s"
  by (induction s w rule: fmt_width.induct) (force split: if_splits bind_splits)+

lemma fmt_spec_shorter: "fmt_spec s = Some (z, w, k, r) \<Longrightarrow> length r < length s"
  by (auto simp: fmt_spec_def split: list.splits bind_splits if_splits dest!: fmt_width_shorter)

text \<open>A loop \<^verbatim>\<open>while (... && pos < 1022) buf[pos++] = ...\<close> over the output so far.\<close>

definition emit :: "bytes \<Rightarrow> bytes \<Rightarrow> bytes" where
  "emit out xs = out @ take (1022 - length out) xs"

definition fmt_num :: "bool \<Rightarrow> int \<Rightarrow> bytes \<Rightarrow> bytes \<Rightarrow> bytes" where
  "fmt_num zero_pad width ds out =
     emit (emit out (replicate (nat (width - int (length ds))) (if zero_pad then 48 else 32))) ds"

definition fmt_dec :: "int \<Rightarrow> bytes option" where
  "fmt_dec d = do {
     v \<leftarrow> (if d < 0 then int32 (- d) else Some d);
     ds \<leftarrow> put_dec 16 (of_int v);
     Some (if d < 0 then 45 # ds else ds) }"

definition fmt_hex :: "(u32 \<Rightarrow> u8) \<Rightarrow> u32 \<Rightarrow> bytes option" where
  "fmt_hex dig u = (if u = 0 then Some [48] else put_digits dig 16 16 u)"

text \<open>
  The conversions other than strings, which \<^verbatim>\<open>printf\<close> and \<^verbatim>\<open>sprintf\<close> have in common.
\<close>

definition fmt_conv :: "bool \<Rightarrow> int \<Rightarrow> u8 \<Rightarrow> fmt_arg list \<Rightarrow> bytes \<Rightarrow> (bytes \<times> fmt_arg list) option" where
  "fmt_conv z w k args out =
     (if k = 100 \<or> k = 105 then (case args of FInt d # as \<Rightarrow> do { ds \<leftarrow> fmt_dec d; Some (fmt_num z w ds out, as) } | _ \<Rightarrow> None)
      else if k = 117 then (case args of FUInt u # as \<Rightarrow> do { ds \<leftarrow> put_dec 16 u; Some (fmt_num z w ds out, as) } | _ \<Rightarrow> None)
      else if k = 120 \<or> k = 88 then
        (case args of FUInt u # as \<Rightarrow> do { ds \<leftarrow> fmt_hex (if k = 120 then hexl_dig else hexu_dig) u; Some (fmt_num z w ds out, as) } | _ \<Rightarrow> None)
      else if k = 99 then (case args of FInt d # as \<Rightarrow> Some (out @ [of_int d], as) | _ \<Rightarrow> None)
      else if k = 37 then Some (out @ [37], args)
      else Some (out, args))"

definition str_arg :: "bytes option \<Rightarrow> bytes" where
  "str_arg s = (case s of None \<Rightarrow> lit ''(null)'' | Some b \<Rightarrow> b)"

text \<open>\<^verbatim>\<open>printf\<close> pads a string without looking at the 1024 bytes of its buffer.\<close>

definition printf_conv_u :: "bool \<Rightarrow> int \<Rightarrow> u8 \<Rightarrow> fmt_arg list \<Rightarrow> bytes \<Rightarrow> (bytes \<times> fmt_arg list) option" where
  "printf_conv_u z w k args out =
     (if k = 115
      then (case args of FStr s # as \<Rightarrow> do {
              n \<leftarrow> strlen (str_arg s);
              let out1 = out @ replicate (nat (w - int n)) 32;
              if length out1 > 1024 then None else Some (emit out1 (take n (str_arg s)), as) }
            | _ \<Rightarrow> None)
      else fmt_conv z w k args out)"

definition sprintf_conv :: "bool \<Rightarrow> int \<Rightarrow> u8 \<Rightarrow> fmt_arg list \<Rightarrow> bytes \<Rightarrow> (bytes \<times> fmt_arg list) option" where
  "sprintf_conv z w k args out =
     (if k = 115
      then (case args of FStr s # as \<Rightarrow> do {
              n \<leftarrow> strlen (str_arg s);
              Some (emit (emit out (replicate (nat (w - int n)) 32)) (take n (str_arg s)), as) }
            | _ \<Rightarrow> None)
      else fmt_conv z w k args out)"

function fmt_loop ::
  "(bool \<Rightarrow> int \<Rightarrow> u8 \<Rightarrow> fmt_arg list \<Rightarrow> bytes \<Rightarrow> (bytes \<times> fmt_arg list) option) \<Rightarrow> bytes \<Rightarrow> fmt_arg list \<Rightarrow> bytes \<Rightarrow> bytes option" where
  "fmt_loop conv fmt args out =
     (case fmt of [] \<Rightarrow> None
      | c # s \<Rightarrow>
          if c = 0 \<or> length out \<ge> 1022 then Some out
          else if c \<noteq> 37 then fmt_loop conv s args (out @ [c])
          else case fmt_spec s of
            None \<Rightarrow> None
          | Some (z, w, k, r) \<Rightarrow>
              (case conv z w k args out of None \<Rightarrow> None | Some (out1, as) \<Rightarrow> fmt_loop conv r as out1))"
  by pat_completeness auto
termination
  by (relation "measure (\<lambda>(_, fmt, _, _). length fmt)") (auto dest: fmt_spec_shorter)

declare fmt_loop.simps [simp del]

text \<open>The system call that writes is a parameter; the results are the number of characters and the world.\<close>

definition printf :: "(bytes \<Rightarrow> 'w \<Rightarrow> 'w) \<Rightarrow> bytes \<Rightarrow> fmt_arg list \<Rightarrow> 'w \<Rightarrow> (nat \<times> 'w) option" where
  "printf wr fmt args w = do {
     out \<leftarrow> fmt_loop printf_conv_u fmt args [];
     if length out > 1023 then None else Some (length out, wr out w) }"

definition sprintf :: "bytes \<Rightarrow> bytes \<Rightarrow> fmt_arg list \<Rightarrow> (nat \<times> bytes) option" where
  "sprintf buf fmt args = do {
     out \<leftarrow> fmt_loop sprintf_conv fmt args [];
     b \<leftarrow> blit buf 0 (out @ [0]);
     Some (length out, b) }"

text \<open>\<^verbatim>\<open>snprintf\<close> knows no width and formats into \<^verbatim>\<open>tmp[1024]\<close>, whose end its numbers do not look at.\<close>

definition snprintf_conv :: "u8 \<Rightarrow> fmt_arg list \<Rightarrow> bytes \<Rightarrow> (bytes \<times> fmt_arg list) option" where
  "snprintf_conv k args out =
     (if k = 115
      then (case args of FStr s # as \<Rightarrow> do {
              let b = (case s of None \<Rightarrow> [0] | Some b \<Rightarrow> b);
              n \<leftarrow> strlen b;
              Some (emit out (take n b), as) }
            | _ \<Rightarrow> None)
      else if k = 100 then (case args of FInt d # as \<Rightarrow> do { ds \<leftarrow> fmt_dec d; Some (out @ ds, as) } | _ \<Rightarrow> None)
      else if k = 117 then (case args of FUInt u # as \<Rightarrow> do { ds \<leftarrow> put_dec 11 u; Some (out @ ds, as) } | _ \<Rightarrow> None)
      else if k = 99 then (case args of FInt d # as \<Rightarrow> Some (out @ [of_int d], as) | _ \<Rightarrow> None)
      else if k = 37 then Some (out @ [37], args)
      else Some (out, args))"

fun snprintf_loop :: "bytes \<Rightarrow> fmt_arg list \<Rightarrow> bytes \<Rightarrow> bytes option" where
  "snprintf_loop [] args out = None"
| "snprintf_loop [c] args out = (if c = 0 \<or> length out \<ge> 1022 then Some out else None)"
| "snprintf_loop (c # k # fmt) args out =
     (if c = 0 \<or> length out \<ge> 1022 then Some out
      else if c \<noteq> 37 then snprintf_loop (k # fmt) args (out @ [c])
      else do { (out1, as) \<leftarrow> snprintf_conv k args out; if length out1 > 1024 then None else snprintf_loop fmt as out1 })"

definition snprintf :: "bytes \<Rightarrow> u32 \<Rightarrow> bytes \<Rightarrow> fmt_arg list \<Rightarrow> (nat \<times> bytes) option" where
  "snprintf buf sz fmt args = do {
     out \<leftarrow> snprintf_loop fmt args [];
     let n = length out;
     if n > 1023 then None
     else do {
       let copy = (if int n < sint sz - 1 then n else unat (sz - 1));
       d \<leftarrow> slice (out @ [0]) 0 copy;
       b \<leftarrow> blit buf 0 (d @ [0]);
       Some (n, b) } }"

section \<open>Formatted input\<close>

datatype scan_val = SInt int | SStr bytes | SUInt u32

fun scan_int :: "bytes \<Rightarrow> int \<Rightarrow> (int \<times> bytes) option" where
  "scan_int [] n = None"
| "scan_int (c # s) n =
     (if 48 \<le> c \<and> c \<le> 57 then do { m \<leftarrow> int32 (n * 10); k \<leftarrow> int32 (m + (uint c - 48)); scan_int s k } else Some (n, c # s))"

fun scan_uint :: "bytes \<Rightarrow> u32 \<Rightarrow> (u32 \<times> bytes) option" where
  "scan_uint [] n = None"
| "scan_uint (c # s) n = (if 48 \<le> c \<and> c \<le> 57 then scan_uint s (n * 10 + (ucast c - 48)) else Some (n, c # s))"

text \<open>The values in the order they are stored; a string is stored up to a blank, whatever the room behind its pointer.\<close>

definition sscanf_conv :: "u8 \<Rightarrow> bytes \<Rightarrow> (scan_val list \<times> bytes) option" where
  "sscanf_conv k str =
     (if k = 100 \<or> k = 105 then do {
        t \<leftarrow> skip_blanks str;
        let neg = (hd t = 45);
        (n, r) \<leftarrow> scan_int (if neg then tl t else t) 0;
        Some ([SInt (if neg then - n else n)], r) }
      else if k = 115 then do { n \<leftarrow> scan (\<lambda>c. c \<noteq> 32) str; Some ([SStr (take n str)], drop n str) }
      else if k = 117 then do { t \<leftarrow> skip_blanks str; (n, r) \<leftarrow> scan_uint t 0; Some ([SUInt n], r) }
      else Some ([], str))"

fun sscanf :: "bytes \<Rightarrow> bytes \<Rightarrow> scan_val list option" where
  "sscanf str [] = None"
| "sscanf str (f # fmt) =
     (if f = 0 then Some []
      else case str of [] \<Rightarrow> None
      | c # s \<Rightarrow>
          if c = 0 then Some []
          else if f = 37
          then (case fmt of [] \<Rightarrow> None
                | k # r \<Rightarrow> do { (vs, t) \<leftarrow> sscanf_conv k str; us \<leftarrow> sscanf t r; Some (vs @ us) })
          else if f = c then sscanf s fmt else Some [])"

end
