(* ===== verification/LibcProps.thy ===== *)
theory LibcProps
  imports Libc "HOL-Library.Multiset"
begin

text \<open>
  Properties of the userland library: its strings agree with the kernel's, \<^verbatim>\<open>qsort\<close> sorts stably for every comparison that
  is a preorder, numbers survive printing and parsing, overlapping moves, and where formatted output leaves its buffer.
\<close>

section \<open>Sorting\<close>

text \<open>What a comparison function promises on the elements it is used for.\<close>

locale comparison =
  fixes ok :: "'a \<Rightarrow> bool" and cmp :: "'a \<Rightarrow> 'a \<Rightarrow> int"
  assumes total: "ok a \<Longrightarrow> ok b \<Longrightarrow> cmp a b > 0 \<Longrightarrow> cmp b a \<le> 0"
    and trans: "ok a \<Longrightarrow> ok b \<Longrightarrow> ok c \<Longrightarrow> cmp a b \<le> 0 \<Longrightarrow> cmp b c \<le> 0 \<Longrightarrow> cmp a c \<le> 0"

text \<open>Insertion into the sorted part, read from its end.\<close>

fun ins_rev :: "('a \<Rightarrow> 'a \<Rightarrow> int) \<Rightarrow> 'a \<Rightarrow> 'a list \<Rightarrow> 'a list" where
  "ins_rev cmp x [] = [x]"
| "ins_rev cmp x (z # zs) = (if cmp z x > 0 then z # ins_rev cmp x zs else x # z # zs)"

lemma length_ins_rev [simp]: "length (ins_rev cmp x zs) = Suc (length zs)"
  by (induction zs) auto

lemma mset_ins_rev [simp]: "mset (ins_rev cmp x zs) = add_mset x (mset zs)"
  by (induction zs) auto

lemma set_ins_rev [simp]: "set (ins_rev cmp x zs) = insert x (set zs)"
  by (induction zs) auto

lemma qsort_insert_rev:
  "qsort_insert cmp x (length q) (rev q @ y # r) = rev (ins_rev cmp x q) @ r"
proof (induction q arbitrary: y r)
  case (Cons z q)
  have n: "(rev q @ z # y # r) ! length q = z" by (simp add: nth_append)
  have u: "(rev q @ z # y # r)[Suc (length q) := v] = rev q @ z # v # r" for v by (simp add: list_update_append)
  show ?case using Cons.IH [of z "z # r"] by (simp add: n u)
qed simp

lemma qsort_rev:
  assumes "k \<le> length arr"
  shows "fold (\<lambda>i a. qsort_insert cmp (a ! i) i a) [0..<k] arr = rev (fold (ins_rev cmp) (take k arr) []) @ drop k arr"
  using assms
proof (induction k)
  case (Suc k)
  let ?q = "fold (ins_rev cmp) (take k arr) []"
  have len: "length (fold (ins_rev cmp) xs zs) = length xs + length zs" for xs zs by (induction xs arbitrary: zs) auto
  have l: "length ?q = k" using Suc.prems len [of "take k arr" "[]"] by simp
  have d: "drop k arr = arr ! k # drop (Suc k) arr" using Suc.prems by (simp add: Cons_nth_drop_Suc)
  have t: "take (Suc k) arr = take k arr @ [arr ! k]" using Suc.prems by (simp add: take_Suc_conv_app_nth)
  have n: "(rev ?q @ arr ! k # drop (Suc k) arr) ! k = arr ! k" using l by (simp add: nth_append)
  have "fold (\<lambda>i a. qsort_insert cmp (a ! i) i a) [0..<Suc k] arr
      = qsort_insert cmp (arr ! k) (length ?q) (rev ?q @ arr ! k # drop (Suc k) arr)"
    using Suc d n l by simp
  also have "\<dots> = rev (ins_rev cmp (arr ! k) ?q) @ drop (Suc k) arr" by (rule qsort_insert_rev)
  finally show ?case by (simp add: t)
qed simp

lemma qsort_fold:
  assumes "length arr < 2 \<or> sz \<le> 256"
  shows "qsort cmp sz arr = Some (rev (fold (ins_rev cmp) arr []))"
proof (cases "length arr < 2")
  case True
  then consider "arr = []" | x where "arr = [x]" by (cases arr; cases "tl arr") auto
  then show ?thesis by cases (simp_all add: qsort_def)
next
  case False
  then have "[0..<length arr] = 0 # [1..<length arr]" using upt_conv_Cons [of 0 "length arr"] by (cases arr) auto
  moreover have "qsort_insert cmp (arr ! 0) 0 arr = arr" using False by (cases arr) auto
  ultimately have "fold (\<lambda>i a. qsort_insert cmp (a ! i) i a) [1..<length arr] arr = rev (fold (ins_rev cmp) arr [])"
    using qsort_rev [of "length arr" arr cmp] by simp
  with False assms show ?thesis by (simp add: qsort_def)
qed

context comparison
begin

lemma ins_rev_sorted:
  "ok x \<Longrightarrow> \<forall>z \<in> set zs. ok z \<Longrightarrow> sorted_wrt (\<lambda>a b. cmp b a \<le> 0) zs \<Longrightarrow> sorted_wrt (\<lambda>a b. cmp b a \<le> 0) (ins_rev cmp x zs)"
proof (induction zs)
  case (Cons z zs)
  show ?case
  proof (cases "cmp z x > 0")
    case True
    then have "cmp x z \<le> 0" using Cons.prems total [of z x] by simp
    with True Cons show ?thesis by simp
  next
    case False
    then have "\<forall>y \<in> set zs. cmp y x \<le> 0" using Cons.prems trans [of _ z x] by (auto simp: not_less)
    with False Cons.prems show ?thesis by auto
  qed
qed simp

lemma ins_rev_class:
  assumes "ok x" "ok k" "\<forall>z \<in> set zs. ok z"
  shows "filter (\<lambda>y. cmp k y \<le> 0 \<and> cmp y k \<le> 0) (ins_rev cmp x zs) = filter (\<lambda>y. cmp k y \<le> 0 \<and> cmp y k \<le> 0) (x # zs)"
  using assms(3)
proof (induction zs)
  case (Cons z zs)
  show ?case
  proof (cases "cmp z x > 0")
    case True
    then have "\<not> ((cmp k z \<le> 0 \<and> cmp z k \<le> 0) \<and> cmp k x \<le> 0 \<and> cmp x k \<le> 0)"
      using trans [of z k x] Cons.prems assms by auto
    with True Cons show ?thesis by auto
  qed simp
qed simp

lemma fold_ins_rev:
  assumes "\<forall>x \<in> set xs. ok x" "\<forall>z \<in> set zs. ok z" "sorted_wrt (\<lambda>a b. cmp b a \<le> 0) zs" "ok k"
  shows "sorted_wrt (\<lambda>a b. cmp b a \<le> 0) (fold (ins_rev cmp) xs zs) \<and> mset (fold (ins_rev cmp) xs zs) = mset xs + mset zs
     \<and> filter (\<lambda>y. cmp k y \<le> 0 \<and> cmp y k \<le> 0) (fold (ins_rev cmp) xs zs)
         = filter (\<lambda>y. cmp k y \<le> 0 \<and> cmp y k \<le> 0) (rev xs @ zs)"
  using assms
proof (induction xs arbitrary: zs)
  case (Cons x xs)
  have "\<forall>z \<in> set (ins_rev cmp x zs). ok z" using Cons.prems by simp
  moreover have "sorted_wrt (\<lambda>a b. cmp b a \<le> 0) (ins_rev cmp x zs)" using Cons.prems ins_rev_sorted by simp
  ultimately have "sorted_wrt (\<lambda>a b. cmp b a \<le> 0) (fold (ins_rev cmp) xs (ins_rev cmp x zs))
     \<and> mset (fold (ins_rev cmp) xs (ins_rev cmp x zs)) = mset xs + mset (ins_rev cmp x zs)
     \<and> filter (\<lambda>y. cmp k y \<le> 0 \<and> cmp y k \<le> 0) (fold (ins_rev cmp) xs (ins_rev cmp x zs))
         = filter (\<lambda>y. cmp k y \<le> 0 \<and> cmp y k \<le> 0) (rev xs @ ins_rev cmp x zs)"
    using Cons.IH Cons.prems by simp
  then show ?case using ins_rev_class [of x k zs] Cons.prems by simp
qed simp

lemma qsort_correct:
  assumes "\<forall>x \<in> set arr. ok x" "length arr < 2 \<or> sz \<le> 256"
  shows "\<exists>r. qsort cmp sz arr = Some r \<and> mset r = mset arr \<and> sorted_wrt (\<lambda>a b. cmp a b \<le> 0) r
     \<and> (\<forall>k. ok k \<longrightarrow> filter (\<lambda>y. cmp k y \<le> 0 \<and> cmp y k \<le> 0) r = filter (\<lambda>y. cmp k y \<le> 0 \<and> cmp y k \<le> 0) arr)"
proof (intro exI conjI)
  let ?f = "fold (ins_rev cmp) arr []"
  show "qsort cmp sz arr = Some (rev ?f)" by (rule qsort_fold [OF assms(2)])
  show "\<forall>k. ok k \<longrightarrow> filter (\<lambda>y. cmp k y \<le> 0 \<and> cmp y k \<le> 0) (rev ?f) = filter (\<lambda>y. cmp k y \<le> 0 \<and> cmp y k \<le> 0) arr"
  proof (intro allI impI)
    fix k assume k: "ok k"
    have "filter (\<lambda>y. cmp k y \<le> 0 \<and> cmp y k \<le> 0) ?f = filter (\<lambda>y. cmp k y \<le> 0 \<and> cmp y k \<le> 0) (rev arr)"
      using fold_ins_rev [of arr "[]" k] assms(1) k by simp
    then show "filter (\<lambda>y. cmp k y \<le> 0 \<and> cmp y k \<le> 0) (rev ?f) = filter (\<lambda>y. cmp k y \<le> 0 \<and> cmp y k \<le> 0) arr"
      by (metis rev_filter rev_rev_ident)
  qed
  show "mset (rev ?f) = mset arr" "sorted_wrt (\<lambda>a b. cmp a b \<le> 0) (rev ?f)"
    using fold_ins_rev [of arr "[]" "hd arr"] assms(1) by (cases arr; simp add: sorted_wrt_rev)+
qed

end

text \<open>
  \<^verbatim>\<open>qsort\<close> sorts: for every comparison that is total and transitive on the elements, and elements of at most 256 bytes, it
  returns a permutation of the array that is sorted by the comparison, and elements that compare equal keep their order.
\<close>

theorem qsort_sorts:
  assumes "\<And>a b. ok a \<Longrightarrow> ok b \<Longrightarrow> cmp a b > 0 \<Longrightarrow> cmp b a \<le> 0"
    and "\<And>a b c. ok a \<Longrightarrow> ok b \<Longrightarrow> ok c \<Longrightarrow> cmp a b \<le> 0 \<Longrightarrow> cmp b c \<le> 0 \<Longrightarrow> cmp a c \<le> 0"
    and "\<forall>x \<in> set arr. ok x" "sz \<le> 256"
  shows "\<exists>r. qsort cmp sz arr = Some r \<and> mset r = mset arr \<and> sorted_wrt (\<lambda>a b. cmp a b \<le> 0) r
     \<and> (\<forall>k. ok k \<longrightarrow> filter (\<lambda>y. cmp k y \<le> 0 \<and> cmp y k \<le> 0) r = filter (\<lambda>y. cmp k y \<le> 0 \<and> cmp y k \<le> 0) arr)"
proof -
  have "comparison ok cmp" by unfold_locales (fact assms(1), fact assms(2))
  from comparison.qsort_correct [OF this assms(3)] assms(4) show ?thesis by simp
qed

lemma qsort_sorts_witness:
  "\<exists>r. qsort (\<lambda>a b :: int. a - b) 4 [3, 1, 2] = Some r \<and> mset r = {#1, 2, 3#} \<and> sorted_wrt (\<lambda>a b. a - b \<le> 0) r"
  using qsort_sorts [of "\<lambda>_. True" "\<lambda>a b :: int. a - b" "[3, 1, 2]" 4] by (auto simp: add_mset_commute)

section \<open>Strings\<close>

text \<open>The library's string routines are those of the kernel.\<close>

lemma libc_kernel [kstr_simps]:
  "strlen s = kstrlen s" "strcmp a b = kstrcmp a b" "strncmp a b n = kstrncmp a b n" "strcpy d s = kstrcpy d s"
  "memset d c n = kmemset d c n" "memcpy d s n = kmemcpy d s n" "strcat d s = kstrcat d s"
proof -
  show "strlen s = kstrlen s" by (induction s) auto
  show "strcmp a b = kstrcmp a b" by (induction a b rule: strcmp.induct) auto
  show "strncmp a b n = kstrncmp a b n" by (induction a b n rule: strncmp.induct) auto
  show cpy: "strcpy d s = kstrcpy d s" for d s by (induction d s rule: strcpy.induct) auto
  show "memset d c n = kmemset d c n" by (induction d c n rule: memset.induct) auto
  show "memcpy d s n = kmemcpy d s n" by (induction d s n rule: memcpy.induct) auto
  show "strcat d s = kstrcat d s" by (induction d) (auto simp: cpy)
qed

text \<open>The sign of \<^verbatim>\<open>strcmp\<close> is the lexicographic order of the strings, by unsigned characters.\<close>

lemma strcmp_order:
  assumes "terminated a" "terminated b"
  shows "\<exists>r. strcmp a b = Some r \<and> (r \<le> 0 \<longleftrightarrow> lexordp_eq (cstr a) (cstr b)) \<and> (r = 0 \<longleftrightarrow> cstr a = cstr b)"
  using assms
proof (induction a b rule: strcmp.induct)
  case (1 a as b bs)
  show ?case
  proof (cases "a \<noteq> 0 \<and> a = b")
    case True
    with 1 show ?thesis by auto
  next
    case False
    have "uint a - uint b \<le> 0 \<longleftrightarrow> a \<le> b" by (simp add: word_le_def)
    with False show ?thesis by (auto simp: word_less_def word_le_def uint_0_iff)
  qed
qed auto

section \<open>Numbers\<close>

definition dec_digit :: "u8 \<Rightarrow> bool" where
  "dec_digit c \<longleftrightarrow> 48 \<le> c \<and> c \<le> 57"

lemma kitoa_digits_dec: "n < 10 \<Longrightarrow> dec_digit (kitoa_digits ! n) \<and> digit_val (kitoa_digits ! n) = n"
proof -
  have "list_all (\<lambda>n. dec_digit (kitoa_digits ! n)) [0..<10]" by code_simp
  moreover assume "n < 10"
  ultimately show ?thesis using kitoa_digits_val [of n] by (simp add: list_all_iff)
qed

lemma kitoa_tmp_dec:
  "unat val < 10 ^ room \<Longrightarrow> \<exists>t. kitoa_tmp room val 10 = Some t \<and> digits_val 10 (rev t) = unat val
     \<and> (\<forall>c \<in> set t. dec_digit c) \<and> length t \<le> room"
proof (induction room arbitrary: val)
  case 0
  then have "val = 0" by (simp add: unat_eq_zero)
  then show ?case by (simp add: kitoa_tmp.simps digits_val_def)
next
  case (Suc room)
  have "unat (val div 10) < 10 ^ room" using Suc.prems by (simp add: unat_div less_mult_imp_div_less)
  from Suc.IH [OF this] obtain t where t: "kitoa_tmp room (val div 10) 10 = Some t" "digits_val 10 (rev t) = unat val div 10"
    "\<forall>c \<in> set t. dec_digit c" "length t \<le> room" by (auto simp: unat_div)
  have m: "unat (val mod 10) < 10" "unat (val mod 10) = unat val mod 10" by (simp_all add: unat_mod)
  show ?case
  proof (cases "val = 0")
    case True
    then show ?thesis by (simp add: kitoa_tmp.simps digits_val_def)
  next
    case False
    with t(1) m(1) have "kitoa_tmp (Suc room) val 10 = Some (kitoa_digits ! unat (val mod 10) # t)"
      by (subst kitoa_tmp.simps) simp
    with t m kitoa_digits_dec [OF m(1)] show ?thesis by (simp add: digits_val_append)
  qed
qed

lemma kitoa_tmp_room: "kitoa_tmp room val base = Some t \<Longrightarrow> kitoa_tmp (room + k) val base = Some t"
  by (induction k) (auto dest: kitoa_tmp_mono)

lemma foldl_ge: "n \<le> foldl (\<lambda>v c. v * 10 + digit_val c) n ds"
proof (induction ds arbitrary: n)
  case (Cons c ds)
  have "n \<le> n * 10 + digit_val c" by simp
  also have "\<dots> \<le> foldl (\<lambda>v c. v * 10 + digit_val c) (n * 10 + digit_val c) ds" by (rule Cons.IH)
  finally show ?case by simp
qed simp

lemma atoi_digits_run:
  assumes "\<forall>c \<in> set ds. dec_digit c" "\<not> dec_digit x" "foldl (\<lambda>v c. v * 10 + digit_val c) n ds < 2 ^ 31"
  shows "atoi_digits (ds @ x # r) (int n) = Some (int (foldl (\<lambda>v c. v * 10 + digit_val c) n ds))"
  using assms
proof (induction ds arbitrary: n)
  case (Cons c ds)
  have c: "48 \<le> c" "c \<le> 57" using Cons.prems(1) by (simp_all add: dec_digit_def)
  then have "48 \<le> unat c" "c < 65" by (simp_all add: word_le_nat_alt word_less_nat_alt)
  then have "uint c - 48 = int (digit_val c)" by (simp add: digit_val_def of_nat_diff)
  moreover have "n * 10 + digit_val c < 2 ^ 31"
    using foldl_ge [of "n * 10 + digit_val c" ds] Cons.prems(3) by simp
  ultimately have s: "int32 (int n * 10) = Some (int (n * 10))" "int32 (int (n * 10) + (uint c - 48)) = Some (int (n * 10 + digit_val c))"
    by (simp_all add: int32_def)
  have "atoi_digits ((c # ds) @ x # r) (int n) = atoi_digits (ds @ x # r) (int (n * 10 + digit_val c))"
    using c s by simp
  then show ?case using Cons.IH [of "n * 10 + digit_val c"] Cons.prems by simp
qed (auto simp: dec_digit_def)

lemma dec_text:
  assumes "0 < v" "v < 2 ^ 31"
  shows "\<exists>t. kitoa_tmp 34 (of_int v) 10 = Some t \<and> t \<noteq> [] \<and> length t \<le> 10 \<and> (\<forall>c \<in> set t. dec_digit c)
           \<and> (\<forall>r. atoi_digits (rev t @ 0 # r) 0 = Some v)"
proof -
  let ?u = "of_int v :: u32"
  have u: "unat ?u = nat v" using assms by (simp add: unsigned_of_int take_bit_int_eq_self nat_take_bit_eq take_bit_nat_eq_self)
  then have "unat ?u < 10 ^ 10" using assms by simp
  from kitoa_tmp_dec [OF this] obtain t where t: "kitoa_tmp 10 ?u 10 = Some t" "digits_val 10 (rev t) = nat v"
    "\<forall>c \<in> set t. dec_digit c" "length t \<le> 10" using u by auto
  have "?u \<noteq> 0" using u assms by (auto simp: unat_eq_zero [symmetric])
  then have ne: "t \<noteq> []" using kitoa_tmp_nonempty t(1) by blast
  have "atoi_digits (rev t @ 0 # r) (int 0) = Some (int (nat v))" for r
    using atoi_digits_run [of "rev t" 0 0 r] t(2,3) assms by (simp add: dec_digit_def digits_val_def)
  then show ?thesis using kitoa_tmp_room [OF t(1), of 24] ne t(3,4) assms by auto
qed

lemma itoa_atoi_ok:
  assumes "- (2 ^ 31) < v" "v < 2 ^ 31" "12 \<le> length buf"
  shows "\<exists>b. itoa v buf 10 = Some b \<and> atoi b = Some v"
proof (cases v "0 :: int" rule: linorder_cases)
  case equal
  with assms(3) show ?thesis by (simp add: itoa_def blit_def atoi_def int32_def)
next
  case greater
  from dec_text [OF this assms(2)] obtain t where t: "kitoa_tmp 34 (of_int v) 10 = Some t" "t \<noteq> []" "length t \<le> 10"
    "\<forall>c \<in> set t. dec_digit c" "\<And>r. atoi_digits (rev t @ 0 # r) 0 = Some v" by blast
  obtain c s where c: "rev t = c # s" using t(2) by (cases "rev t") auto
  then have "dec_digit c" using t(4) by (metis list.set_intros(1) set_rev)
  then have "c \<noteq> 32" "c \<noteq> 45" "c \<noteq> 43" by (auto simp: dec_digit_def)
  moreover have "itoa v buf 10 = Some (rev t @ 0 # drop (length t + 1) buf)"
    using greater t(1,3) assms(3) by (simp add: itoa_def blit_def)
  ultimately show ?thesis using t(5) c by (simp add: atoi_def)
next
  case less
  have "0 < - v" "- v < 2 ^ 31" using less assms(1) by auto
  from dec_text [OF this] obtain t where t: "kitoa_tmp 34 (of_int (- v)) 10 = Some t" "t \<noteq> []" "length t \<le> 10"
    "\<forall>c \<in> set t. dec_digit c" "\<And>r. atoi_digits (rev t @ 0 # r) 0 = Some (- v)" by blast
  have "itoa v buf 10 = Some (45 # rev t @ 0 # drop (length t + 2) buf)"
    using less t(1,3) assms by (simp add: itoa_def blit_def int32_def)
  then show ?thesis using t(5) by (simp add: atoi_def)
qed

text \<open>
  Printing and parsing agree: \<^verbatim>\<open>atoi\<close> reads back what \<^verbatim>\<open>itoa\<close> writes in base 10, for every \<^verbatim>\<open>int\<close> but the smallest, whose
  negation overflows, and a buffer of twelve bytes is enough.
\<close>

theorem itoa_atoi:
  "- (2 ^ 31) < v \<Longrightarrow> v < 2 ^ 31 \<Longrightarrow> 12 \<le> length buf \<Longrightarrow> \<exists>b. itoa v buf 10 = Some b \<and> atoi b = Some v"
  by (rule itoa_atoi_ok)

lemma itoa_atoi_witness: "\<exists>b. itoa (-120) (replicate 12 0) 10 = Some b \<and> atoi b = Some (-120)"
  by (rule itoa_atoi) simp_all

text \<open>
  \<^verbatim>\<open>utoa\<close> is wrong for large numbers: it hands an unsigned value to \<^verbatim>\<open>itoa\<close>, so in base 10 every value above the largest
  \<^verbatim>\<open>int\<close> is printed as a negative number.
\<close>

theorem utoa_negative:
  assumes "2 ^ 31 < unat v" "12 \<le> length buf"
  shows "\<exists>b. utoa v buf 10 = Some b \<and> atoi b = Some (int (unat v) - 2 ^ 32)"
proof -
  have u: "uint v = int (unat v)" by simp
  have "int (2 ^ 31) < uint v" "uint v < int (2 ^ 32)"
    unfolding u using assms(1) unat_u32_lt [of v] by (simp_all only: of_nat_less_iff)
  then have b: "2 ^ 31 < uint v" "uint v < 2 ^ 32" by simp_all
  have "(uint v + 2 ^ 31 - 2 ^ 32) mod 2 ^ 32 = uint v + 2 ^ 31 - 2 ^ 32" using b by (intro mod_pos_pos_trivial) auto
  then have "take_bit 32 (uint v + 2 ^ 31) = uint v + 2 ^ 31 - 2 ^ 32" unfolding take_bit_eq_mod by (metis minus_mod_self2)
  moreover have "sint v = take_bit 32 (uint v + 2 ^ 31) - 2 ^ 31"
    by (simp add: sint_uint signed_take_bit_eq_take_bit_shift)
  ultimately have e: "sint v = uint v - 2 ^ 32" by linarith
  have "\<exists>b. itoa (uint v - 2 ^ 32) buf 10 = Some b \<and> atoi b = Some (uint v - 2 ^ 32)"
    using b assms(2) by (intro itoa_atoi_ok) auto
  then show ?thesis unfolding utoa_def e by simp
qed

lemma utoa_negative_witness: "\<exists>b. utoa 3000000000 (replicate 12 0) 10 = Some b \<and> atoi b = Some (3000000000 - 2 ^ 32)"
  using utoa_negative [of 3000000000 "replicate 12 0"] by simp

section \<open>Moving and appending\<close>

lemma move_up_ok:
  "d + n \<le> length m \<Longrightarrow> s + n \<le> length m \<Longrightarrow> d < s \<or> s + n \<le> d \<Longrightarrow>
     \<exists>r. move_up m d s n = Some r \<and> length r = length m \<and> (\<forall>i < length m. r ! i = (if d \<le> i \<and> i < d + n then m ! (s + i - d) else m ! i))"
proof (induction n arbitrary: m d s)
  case (Suc n)
  let ?m = "m[d := m ! s]"
  have c: "d < length m" "s < length m" using Suc.prems by auto
  obtain r where r: "move_up ?m (d + 1) (s + 1) n = Some r" "length r = length m"
    "\<forall>i < length m. r ! i = (if d + 1 \<le> i \<and> i < d + 1 + n then ?m ! (s + 1 + i - (d + 1)) else ?m ! i)"
    using Suc.IH [of "d + 1" ?m "s + 1"] Suc.prems by auto
  have "r ! i = (if d \<le> i \<and> i < d + Suc n then m ! (s + i - d) else m ! i)" if "i < length m" for i
    using r(3) that Suc.prems by (cases "i = d") (auto simp: nth_list_update)
  with r c show ?case by simp
qed auto

lemma move_down_ok:
  "d + n \<le> length m \<Longrightarrow> s + n \<le> length m \<Longrightarrow> s \<le> d \<Longrightarrow>
     \<exists>r. move_down m d s n = Some r \<and> length r = length m \<and> (\<forall>i < length m. r ! i = (if d \<le> i \<and> i < d + n then m ! (s + i - d) else m ! i))"
proof (induction n arbitrary: m)
  case (Suc n)
  let ?m = "m[d + n := m ! (s + n)]"
  have c: "d + n < length m" "s + n < length m" using Suc.prems by auto
  obtain r where r: "move_down ?m d s n = Some r" "length r = length m"
    "\<forall>i < length m. r ! i = (if d \<le> i \<and> i < d + n then ?m ! (s + i - d) else ?m ! i)"
    using Suc.IH [of ?m] Suc.prems by auto
  have "r ! i = (if d \<le> i \<and> i < d + Suc n then m ! (s + i - d) else m ! i)" if "i < length m" for i
    using r(3) that Suc.prems by (cases "i = d + n") (auto simp: nth_list_update)
  with r c show ?case by simp
qed auto

text \<open>
  \<^verbatim>\<open>memmove\<close> is right for every overlap: the destination gets the bytes that the source had before the call, and nothing
  else changes.
\<close>

theorem memmove_overlap:
  assumes "d + n \<le> length m" "s + n \<le> length m"
  shows "memmove m d s n = Some (take d m @ take n (drop s m) @ drop (d + n) m)"
proof -
  obtain r where r: "memmove m d s n = Some r" "length r = length m"
    "\<forall>i < length m. r ! i = (if d \<le> i \<and> i < d + n then m ! (s + i - d) else m ! i)"
    using move_up_ok [OF assms] move_down_ok [OF assms] unfolding memmove_def by (cases "d < s \<or> s + n \<le> d") auto
  have "r = take d m @ take n (drop s m) @ drop (d + n) m"
    by (rule nth_equalityI) (use r assms in \<open>auto simp: nth_append\<close>)
  with r show ?thesis by simp
qed

lemma memmove_overlap_witness: "memmove [1, 2, 3, 4, 5] 1 0 3 = Some [1, 1, 2, 3, 5]"
  using memmove_overlap [of 1 3 "[1, 2, 3, 4, 5]" 0] by simp

lemma strncat_copy_short:
  "terminated s \<Longrightarrow> length (cstr s) < n \<Longrightarrow>
     strncat_copy d s n = (if length (cstr s) + 1 < length d then Some (cstr s @ 0 # 0 # drop (length (cstr s) + 2) d) else None)"
  by (induction d s n rule: strncat_copy.induct) (auto split: list.splits)

lemma strncat_short:
  "terminated d \<Longrightarrow> terminated s \<Longrightarrow> length (cstr s) < n \<Longrightarrow> length d = length (cstr d) + length (cstr s) + 1 \<Longrightarrow> strncat d s n = None"
proof (induction d)
  case (Cons c d)
  then show ?case using strncat_copy_short [of s n "c # d"] by auto
qed simp

lemma memset_ok: "n \<le> length d \<Longrightarrow> memset d c n = Some (replicate n c @ drop n d)"
  by (induction d c n rule: memset.induct) auto

lemma memset_room: "memset d c n \<noteq> None \<longleftrightarrow> n \<le> length d"
  by (induction d c n rule: memset.induct) auto

lemma strncpy_short:
  assumes "terminated s" "length (cstr s) < n" "n < length d"
  shows "strncpy d s n = Some (cstr s @ replicate (n + 1 - length (cstr s)) 0 @ drop (n + 1) d)"
  using assms
proof (induction d s n rule: strncpy.induct)
  case (2 d ds c cs n)
  then show ?case by (cases "c = 0") (auto simp: memset_ok)
qed auto

lemma strncpy_full:
  assumes "terminated s" "n \<le> length (cstr s)" "n \<le> length d"
  shows "strncpy d s n = Some (take n (cstr s) @ drop n d)"
  using assms by (induction d s n rule: strncpy.induct) (auto split: if_splits)

lemma strncpy_room:
  assumes "terminated s" "length (cstr s) < n" "length d \<le> n"
  shows "strncpy d s n = None"
  using assms
proof (induction d s n rule: strncpy.induct)
  case (2 d ds c cs n)
  then show ?case using memset_room [of ds 0 "Suc n"] by (cases "c = 0") auto
qed auto

text \<open>
  C29. \<^verbatim>\<open>strncpy\<close> and \<^verbatim>\<open>strncat\<close> write one byte more than they may when the source ends before the limit. A copy of at most
  \<^verbatim>\<open>n\<close> characters into a buffer of \<^verbatim>\<open>n\<close> bytes always overruns it (with one more byte of room it stores the string and only zeros
  behind it), and an append into a buffer that is exactly large enough for the result, which \<^verbatim>\<open>strcat\<close> fills correctly,
  overruns it as well.
\<close>

theorem bounded_copies_overrun:
  assumes "terminated d" "terminated s" "length (cstr s) < n" "length d = length (cstr d) + length (cstr s) + 1"
    and "length e = n"
  shows "strncpy e s n = None \<and> (\<exists>b. strncpy (e @ [x]) s n = Some b \<and> cstr b = cstr s \<and> length b = n + 1)
     \<and> strncat d s n = None \<and> (\<exists>b. strcat d s = Some b \<and> cstr b = cstr d @ cstr s)"
proof (intro conjI)
  show "strncpy e s n = None" using strncpy_room [of s n e] assms by simp
  show "\<exists>b. strncpy (e @ [x]) s n = Some b \<and> cstr b = cstr s \<and> length b = n + 1"
    using strncpy_short [of s n "e @ [x]"] assms by (simp add: Suc_diff_le cstr_append_zero cstr_nonzero)
  show "strncat d s n = None" by (rule strncat_short [OF assms(1,2,3,4)])
  obtain b where "strcat d s = Some b" using assms by (simp add: libc_kernel kstrcat_eq)
  then show "\<exists>b. strcat d s = Some b \<and> cstr b = cstr d @ cstr s"
    using kstrcat_cstr [of d s b] by (simp add: libc_kernel)
qed

lemma bounded_copies_overrun_witness:
  "strncpy [1, 2, 3] [98, 0] 3 = None \<and> strncat [97, 0, 7] [98, 0] 3 = None
     \<and> (\<exists>b. strcat [97, 0, 7] [98, 0] = Some b \<and> cstr b = [97, 98])"
  using bounded_copies_overrun [of "[97, 0, 7]" "[98, 0]" 3 "[1, 2, 3]"] by simp

section \<open>Formatted output\<close>

lemma emit_bound: "length out \<le> 1022 \<Longrightarrow> length (emit out xs) \<le> 1022"
  by (simp add: emit_def)

lemma fmt_conv_bound: "fmt_conv z w k args out = Some (out1, as) \<Longrightarrow> length out < 1022 \<Longrightarrow> length out1 \<le> 1022"
  by (auto simp: fmt_conv_def fmt_num_def emit_bound split: if_splits list.splits fmt_arg.splits bind_splits)

lemma sprintf_conv_bound: "sprintf_conv z w k args out = Some (out1, as) \<Longrightarrow> length out < 1022 \<Longrightarrow> length out1 \<le> 1022"
  by (auto simp: sprintf_conv_def emit_bound split: if_splits list.splits fmt_arg.splits bind_splits dest: fmt_conv_bound)

lemma fmt_loop_bound:
  assumes "\<And>z w k args out out1 as. conv z w k args out = Some (out1, as) \<Longrightarrow> length out < 1022 \<Longrightarrow> length out1 \<le> 1022"
  shows "fmt_loop conv fmt args out = Some r \<Longrightarrow> length out \<le> 1022 \<Longrightarrow> length r \<le> 1022"
proof (induction "length fmt" arbitrary: fmt args out rule: less_induct)
  case less
  show ?case
  proof (cases fmt)
    case Nil
    with less.prems show ?thesis by (simp add: fmt_loop.simps [of conv "[]"])
  next
    case (Cons c s)
    consider "c = 0 \<or> length out \<ge> 1022" | "c \<noteq> 0" "length out < 1022" "c \<noteq> 37"
      | "c \<noteq> 0" "length out < 1022" "c = 37" by linarith
    then show ?thesis
    proof cases
      case 1
      with less.prems Cons show ?thesis by (simp add: fmt_loop.simps [of conv "c # s"])
    next
      case 2
      with less.prems(1) Cons have "fmt_loop conv s args (out @ [c]) = Some r" by (simp add: fmt_loop.simps [of conv "c # s"])
      then show ?thesis using less.hyps [of s args "out @ [c]"] Cons 2 by simp
    next
      case 3
      with less.prems(1) Cons obtain z w k t out1 as where "fmt_spec s = Some (z, w, k, t)" "conv z w k args out = Some (out1, as)"
        "fmt_loop conv t as out1 = Some r" by (auto simp: fmt_loop.simps [of conv "37 # s"] split: option.splits)
      moreover from this have "length t < length fmt" "length out1 \<le> 1022" using fmt_spec_shorter Cons 3 assms by fastforce+
      ultimately show ?thesis using less.hyps by blast
    qed
  qed
qed

text \<open>
  \<^verbatim>\<open>sprintf\<close> writes at most 1023 bytes, terminator included, whatever the format and the arguments; \<^verbatim>\<open>printf\<close> has no such
  bound: it pads a string to its width without looking at the end of its buffer of 1024 bytes and runs over it.
\<close>

theorem sprintf_bounded:
  "(sprintf buf fmt args = Some (n, b) \<longrightarrow> n \<le> 1022 \<and> length b = length buf \<and> drop (n + 1) b = drop (n + 1) buf)
   \<and> printf wr (lit ''%2000s'') [FStr (Some (lit ''x''))] w = None"
proof -
  have "n \<le> 1022 \<and> length b = length buf \<and> drop (n + 1) b = drop (n + 1) buf" if "sprintf buf fmt args = Some (n, b)"
    using that fmt_loop_bound [of sprintf_conv fmt args "[]"] sprintf_conv_bound
    by (auto simp: sprintf_def blit_def split: bind_splits if_splits)
  moreover have "fmt_loop printf_conv_u (lit ''%2000s'') [FStr (Some (lit ''x''))] [] = None"
    by (simp add: fmt_loop.simps lit_def fmt_spec_def int32_def printf_conv_u_def str_arg_def)
  ultimately show ?thesis by (simp add: printf_def)
qed

lemma sprintf_bounded_witness:
  "\<exists>n b. sprintf [0, 0, 0, 0, 0, 0, 0, 0] (lit ''%d'') [FInt 7] = Some (n, b) \<and> n \<le> 1022 \<and> length b = 8
     \<and> printf (\<lambda>_ u :: unit. u) (lit ''%2000s'') [FStr (Some (lit ''x''))] () = None"
proof -
  have "sprintf [0, 0, 0, 0, 0, 0, 0, 0] (lit ''%d'') [FInt 7] = Some (1, [55, 0, 0, 0, 0, 0, 0, 0])"
    by (simp add: sprintf_def fmt_loop.simps lit_def fmt_spec_def sprintf_conv_def fmt_conv_def fmt_dec_def fmt_num_def emit_def
        put_dec_def put_digits.simps dec_dig_def blit_def)
  then show ?thesis using sprintf_bounded [of "[0, 0, 0, 0, 0, 0, 0, 0]" "lit ''%d''" "[FInt 7]" 1 "[55, 0, 0, 0, 0, 0, 0, 0]" "\<lambda>_ u :: unit. u" "()"] by auto
qed

end
