(* ===== verification/UserTools.thy ===== *)
theory UserTools
  imports LibcProps "HOL-Library.Sublist"
begin

text \<open>
  The text tools of the userland: \<^verbatim>\<open>user/sort.c\<close>, \<^verbatim>\<open>user/uniq.c\<close>, \<^verbatim>\<open>user/wc.c\<close> and \<^verbatim>\<open>user/grep.c\<close>, over the system calls as
  parameters. A read that returns nothing or an error is the empty list. Arrays on the stack that are not initialised are
  parameters too.
\<close>

record 'w sys =
  sys_read :: "nat \<Rightarrow> 'w \<Rightarrow> bytes \<times> 'w"
  sys_fread :: "int \<Rightarrow> nat \<Rightarrow> 'w \<Rightarrow> bytes \<times> 'w"
  sys_open :: "bytes \<Rightarrow> 'w \<Rightarrow> int \<times> 'w"
  sys_close :: "int \<Rightarrow> 'w \<Rightarrow> 'w"
  sys_write :: "bytes \<Rightarrow> 'w \<Rightarrow> 'w"

definition fputs :: "'w sys \<Rightarrow> bytes \<Rightarrow> 'w \<Rightarrow> 'w option" where
  "fputs sy s w = do { n \<leftarrow> strlen s; Some (sys_write sy (take n s) w) }"

definition puts :: "'w sys \<Rightarrow> bytes \<Rightarrow> 'w \<Rightarrow> 'w option" where
  "puts sy s w = do { w1 \<leftarrow> fputs sy s w; Some (sys_write sy [10] w1) }"

section \<open>Arguments and input\<close>

text \<open>The line read into \<^verbatim>\<open>args\<close>, cut after the last character that is neither a newline nor a blank.\<close>

definition trim_end :: "bytes \<Rightarrow> bytes" where
  "trim_end s = rev (dropWhile (\<lambda>c. c = 10 \<or> c = 32) (rev s))"

definition read_args :: "'w sys \<Rightarrow> bytes \<Rightarrow> 'w \<Rightarrow> (bytes \<times> 'w) option" where
  "read_args sy args w =
     (case sys_read sy (length args - 1) w of (x, w1) \<Rightarrow>
        if x = [] then Some (args, w1)
        else do { a \<leftarrow> blit args 0 (trim_end x @ replicate (length x - length (trim_end x)) 0 @ [0]); Some (a, w1) })"

fun split_args :: "nat \<Rightarrow> bytes \<Rightarrow> bytes list option" where
  "split_args 0 p = Some []"
| "split_args (Suc n) p = do {
     t \<leftarrow> skip_blanks p;
     if hd t = 0 then Some []
     else do {
       k \<leftarrow> scan (\<lambda>c. c \<noteq> 32) t;
       r \<leftarrow> split_args n (if t ! k \<noteq> 0 then drop (k + 1) t else drop k t);
       Some ((take k t @ [0]) # r) } }"

text \<open>Everything that can be read, into a buffer of \<open>cap + 1\<close> bytes.\<close>

partial_function (option) read_all :: "'w sys \<Rightarrow> nat \<Rightarrow> bytes \<Rightarrow> 'w \<Rightarrow> (bytes \<times> 'w) option" where
  "read_all sy cap acc w =
     (case sys_read sy (cap - length acc) w of (x, w1) \<Rightarrow>
        if x = [] then Some (acc, w1)
        else if length acc + length x > cap then None
        else read_all sy cap (acc @ x) w1)"

text \<open>The lines of a buffer, each ended by a zero in the place of its newline.\<close>

fun get_lines :: "nat \<Rightarrow> bytes \<Rightarrow> bytes list option" where
  "get_lines 0 p = (if p = [] then None else Some [])"
| "get_lines (Suc lim) p =
     (if p = [] then None
      else if hd p = 0 then Some []
      else do {
        nl \<leftarrow> strchr p 10;
        case nl of
          None \<Rightarrow> do { n \<leftarrow> strlen p; r \<leftarrow> get_lines lim (drop n p); Some ((take n p @ [0]) # r) }
        | Some i \<Rightarrow> do { r \<leftarrow> get_lines lim (drop (i + 1) p); Some ((take i p @ [0]) # r) } })"

section \<open>sort\<close>

definition cmp_str :: "bytes \<Rightarrow> bytes \<Rightarrow> int" where
  "cmp_str a b = (case strcmp a b of Some r \<Rightarrow> r | None \<Rightarrow> 0)"

definition cmp_str_r :: "bytes \<Rightarrow> bytes \<Rightarrow> int" where
  "cmp_str_r a b = (case strcmp b a of Some r \<Rightarrow> r | None \<Rightarrow> 0)"

fun put_lines :: "'w sys \<Rightarrow> bytes list \<Rightarrow> 'w \<Rightarrow> 'w option" where
  "put_lines sy [] w = Some w"
| "put_lines sy (l # ls) w = do { w1 \<leftarrow> puts sy l w; put_lines sy ls w1 }"

definition sort_main :: "'w sys \<Rightarrow> bytes \<Rightarrow> 'w \<Rightarrow> (int \<times> 'w) option" where
  "sort_main sy args w = do {
     (a, w1) \<leftarrow> read_args sy args w;
     c \<leftarrow> strcmp a (lit ''-r'');
     (d, w2) \<leftarrow> read_all sy 32767 [] w1;
     ls \<leftarrow> get_lines 1024 (d @ [0]);
     r \<leftarrow> qsort (if c = 0 then cmp_str_r else cmp_str) 4 ls;
     w3 \<leftarrow> put_lines sy r w2;
     Some (0, w3) }"

section \<open>uniq\<close>

fun uniq_lines :: "'w sys \<Rightarrow> bytes list \<Rightarrow> bytes \<Rightarrow> 'w \<Rightarrow> 'w option" where
  "uniq_lines sy [] prev w = Some w"
| "uniq_lines sy (l # ls) prev w = do {
     c \<leftarrow> strcmp l prev;
     if c \<noteq> 0 then do { w1 \<leftarrow> puts sy l w; prev1 \<leftarrow> strncpy prev l 511; uniq_lines sy ls prev1 w1 }
     else uniq_lines sy ls prev w }"

text \<open>The loop over the buffer has no limit: it runs over at most as many lines as there are bytes.\<close>

definition uniq_main :: "'w sys \<Rightarrow> bytes \<Rightarrow> 'w \<Rightarrow> (int \<times> 'w) option" where
  "uniq_main sy junk w = do {
     (d, w1) \<leftarrow> read_all sy 32767 [] w;
     ls \<leftarrow> get_lines (length d + 1) (d @ [0]);
     prev \<leftarrow> blit junk 0 [0];
     w2 \<leftarrow> uniq_lines sy ls prev w1;
     Some (0, w2) }"

section \<open>wc\<close>

record wc_state =
  wc_lines :: u32
  wc_words :: u32
  wc_bytes :: u32
  wc_in_word :: bool

definition wc_char :: "u8 \<Rightarrow> wc_state \<Rightarrow> wc_state" where
  "wc_char c s =
     (let s1 = (if c = 10 then s\<lparr>wc_lines := wc_lines s + 1\<rparr> else s)
      in if c = 32 \<or> c = 9 \<or> c = 10 then s1\<lparr>wc_in_word := False\<rparr>
         else if \<not> wc_in_word s1 then s1\<lparr>wc_in_word := True, wc_words := wc_words s1 + 1\<rparr> else s1)"

partial_function (option) wc_loop :: "'w sys \<Rightarrow> int \<Rightarrow> wc_state \<Rightarrow> 'w \<Rightarrow> (wc_state \<times> 'w) option" where
  "wc_loop sy fd s w =
     (case sys_fread sy fd 512 w of (x, w1) \<Rightarrow>
        if x = [] then Some (s, w1)
        else if length x > 512 then None
        else wc_loop sy fd (fold wc_char x (s\<lparr>wc_bytes := wc_bytes s + of_nat (length x)\<rparr>)) w1)"

definition count_fd ::
  "'w sys \<Rightarrow> int \<Rightarrow> bytes \<Rightarrow> bool \<Rightarrow> u32 \<times> u32 \<times> u32 \<Rightarrow> 'w \<Rightarrow> ((u32 \<times> u32 \<times> u32) \<times> 'w) option" where
  "count_fd sy fd name show_name = (\<lambda>(tl, tw, tb) w. do {
     (s, w1) \<leftarrow> wc_loop sy fd \<lparr>wc_lines = 0, wc_words = 0, wc_bytes = 0, wc_in_word = False\<rparr> w;
     (_, w2) \<leftarrow> (if show_name
        then printf (sys_write sy) (lit_lines [''%6u %6u %6u %s'']) [FUInt (wc_lines s), FUInt (wc_words s), FUInt (wc_bytes s), FStr (Some name)] w1
        else printf (sys_write sy) (lit_lines [''%6u %6u %6u'']) [FUInt (wc_lines s), FUInt (wc_words s), FUInt (wc_bytes s)] w1);
     Some ((tl + wc_lines s, tw + wc_words s, tb + wc_bytes s), w2) })"

fun wc_files :: "'w sys \<Rightarrow> bool \<Rightarrow> bytes list \<Rightarrow> u32 \<times> u32 \<times> u32 \<Rightarrow> 'w \<Rightarrow> ((u32 \<times> u32 \<times> u32) \<times> 'w) option" where
  "wc_files sy many [] tot w = Some (tot, w)"
| "wc_files sy many (f # fs) tot w =
     (case sys_open sy f w of (fd, w1) \<Rightarrow>
        if fd < 0 then do { (_, w2) \<leftarrow> printf (sys_write sy) (lit_lines [''wc: %s: not found'']) [FStr (Some f)] w1; wc_files sy many fs tot w2 }
        else do { (tot1, w2) \<leftarrow> count_fd sy fd f many tot w1; wc_files sy many fs tot1 (sys_close sy fd w2) })"

definition wc_main :: "'w sys \<Rightarrow> bytes \<Rightarrow> 'w \<Rightarrow> (int \<times> 'w) option" where
  "wc_main sy args w = do {
     (a, w1) \<leftarrow> read_args sy args w;
     argv \<leftarrow> split_args 15 a;
     if argv = [] then do { (_, w2) \<leftarrow> count_fd sy 0 (lit '''') False (0, 0, 0) w1; Some (0, w2) }
     else do {
       ((tl, tw, tb), w2) \<leftarrow> wc_files sy (length argv > 1) argv (0, 0, 0) w1;
       if length argv > 1
       then do { (_, w3) \<leftarrow> printf (sys_write sy) (lit_lines [''%6u %6u %6u total'']) [FUInt tl, FUInt tw, FUInt tb] w2; Some (0, w3) }
       else Some (0, w2) } }"

section \<open>grep\<close>

text \<open>\<^verbatim>\<open>match\<close>, the wildcard matcher of \<^verbatim>\<open>grep.c\<close>; the loop behind a star tries every suffix up to the terminator.\<close>

function glob_match :: "bytes \<Rightarrow> bytes \<Rightarrow> bool option" where
  "glob_match pat str =
     (case pat of [] \<Rightarrow> None
      | p # ps \<Rightarrow>
          if p = 0 then Some True
          else case str of [] \<Rightarrow> None
          | c # cs \<Rightarrow>
              if p = 42 then
                (case glob_match ps (c # cs) of
                   None \<Rightarrow> None
                 | Some True \<Rightarrow> Some True
                 | Some False \<Rightarrow> if c = 0 then Some False else glob_match (p # ps) cs)
              else if p = 63 \<or> p = c then if c \<noteq> 0 then glob_match ps cs else Some False
              else Some False)"
  by pat_completeness auto
termination by (relation "measure (\<lambda>(pat, str). length pat + length str)") auto

declare glob_match.simps [simp del]

definition contains :: "bytes \<Rightarrow> bytes \<Rightarrow> bool option" where
  "contains line pat = do {
     plen \<leftarrow> strlen pat;
     llen \<leftarrow> strlen line;
     Some (plen \<le> llen \<and> list_ex (\<lambda>i. list_all (\<lambda>j. line ! (i + j) = pat ! j) [0..<plen]) [0..<llen - plen + 1]) }"

text \<open>Lower case up to the terminator, in place.\<close>

fun lower :: "bytes \<Rightarrow> bytes option" where
  "lower [] = None"
| "lower (c # s) = (if c = 0 then Some (c # s) else map_option ((#) (if 65 \<le> c \<and> c \<le> 90 then c + 32 else c)) (lower s))"

record grep_bufs =
  gb_line :: bytes
  gb_cmp_line :: bytes
  gb_cmp_pat :: bytes

definition grep_hit :: "bytes \<Rightarrow> bool \<Rightarrow> bool \<Rightarrow> bytes \<Rightarrow> grep_bufs \<Rightarrow> (bool \<times> grep_bufs) option" where
  "grep_hit pat invert ignore_case p g = do {
     line \<leftarrow> strncpy (gb_line g) p 255;
     cl \<leftarrow> strncpy (gb_cmp_line g) line 255;
     cp \<leftarrow> strncpy (gb_cmp_pat g) pat 127;
     cl1 \<leftarrow> (if ignore_case then lower cl else Some cl);
     cp1 \<leftarrow> (if ignore_case then lower cp else Some cp);
     h \<leftarrow> contains cl1 cp1;
     Some (if invert then \<not> h else h, \<lparr>gb_line = line, gb_cmp_line = cl1, gb_cmp_pat = cp1\<rparr>) }"

fun grep_lines ::
  "'w sys \<Rightarrow> bytes \<Rightarrow> bytes \<Rightarrow> bool \<Rightarrow> bool \<Rightarrow> bool \<Rightarrow> bytes list \<Rightarrow> nat \<Rightarrow> grep_bufs \<Rightarrow> 'w \<Rightarrow> (nat \<times> grep_bufs \<times> 'w) option" where
  "grep_lines sy pat fname show_name invert ignore_case [] linenum g w = Some (linenum, g, w)"
| "grep_lines sy pat fname show_name invert ignore_case (p # ps) linenum g w = do {
     (hit, g1) \<leftarrow> grep_hit pat invert ignore_case p g;
     w1 \<leftarrow> (if hit
            then map_option snd (if show_name
              then printf (sys_write sy) (lit_lines [''%s:%d: %s'']) [FStr (Some fname), FInt (int linenum + 1), FStr (Some (gb_line g1))] w
              else printf (sys_write sy) (lit_lines [''%s'']) [FStr (Some (gb_line g1))] w)
            else Some w);
     grep_lines sy pat fname show_name invert ignore_case ps (linenum + 1) g1 w1 }"

text \<open>The file in pieces of at most 4095 bytes; a piece is searched line by line.\<close>

partial_function (option) grep_stream ::
  "'w sys \<Rightarrow> bytes \<Rightarrow> int \<Rightarrow> bytes \<Rightarrow> bool \<Rightarrow> bool \<Rightarrow> bool \<Rightarrow> nat \<Rightarrow> grep_bufs \<Rightarrow> 'w \<Rightarrow> 'w option" where
  "grep_stream sy pat fd fname show_name invert ignore_case linenum g w =
     (case sys_fread sy fd 4095 w of (x, w1) \<Rightarrow>
        if x = [] then Some w1
        else if length x > 4095 then None
        else do {
          ls \<leftarrow> get_lines (length x + 1) (x @ [0]);
          (n, g1, w2) \<leftarrow> grep_lines sy pat fname show_name invert ignore_case ls linenum g w1;
          grep_stream sy pat fd fname show_name invert ignore_case n g1 w2 })"

text \<open>The options in front: letters of arguments that begin with a minus sign.\<close>

fun grep_flags :: "bytes list \<Rightarrow> bool \<times> bool \<Rightarrow> bytes list \<times> bool \<times> bool" where
  "grep_flags [] f = ([], f)"
| "grep_flags (a # as) (iv, ic) =
     (if hd a = 45 then grep_flags as (iv \<or> 118 \<in> set (cstr (tl a)), ic \<or> 105 \<in> set (cstr (tl a))) else (a # as, iv, ic))"

fun grep_files :: "'w sys \<Rightarrow> bytes \<Rightarrow> bool \<Rightarrow> bool \<Rightarrow> bool \<Rightarrow> grep_bufs \<Rightarrow> bytes list \<Rightarrow> 'w \<Rightarrow> 'w option" where
  "grep_files sy pat multi invert ic g [] w = Some w"
| "grep_files sy pat multi invert ic g (f # fs) w =
     (case sys_open sy f w of (fd, w1) \<Rightarrow>
        if fd < 0 then do { (_, w2) \<leftarrow> printf (sys_write sy) (lit_lines [''grep: %s: not found'']) [FStr (Some f)] w1; grep_files sy pat multi invert ic g fs w2 }
        else do { w2 \<leftarrow> grep_stream sy pat fd f multi invert ic 0 g w1; grep_files sy pat multi invert ic g fs (sys_close sy fd w2) })"

definition grep_main :: "'w sys \<Rightarrow> grep_bufs \<Rightarrow> bytes \<Rightarrow> 'w \<Rightarrow> (int \<times> 'w) option" where
  "grep_main sy g args w = do {
     (a, w1) \<leftarrow> read_args sy args w;
     if hd a = 0 then do {
       w2 \<leftarrow> puts sy (lit ''Usage: grep [-i] [-v] <pattern> [file...]'') w1;
       w3 \<leftarrow> puts sy (lit ''  -i  ignore case'') w2;
       w4 \<leftarrow> puts sy (lit ''  -v  invert match'') w3;
       Some (1, w4) }
     else do {
       argv \<leftarrow> split_args 15 a;
       case grep_flags argv (False, False) of
         ([], _) \<Rightarrow> do { w2 \<leftarrow> puts sy (lit ''grep: need pattern'') w1; Some (1, w2) }
       | (pat # fs, iv, ic) \<Rightarrow>
           if fs = [] then do { w2 \<leftarrow> grep_stream sy pat 0 (lit ''(stdin)'') False iv ic 0 g w1; Some (0, w2) }
           else do { w2 \<leftarrow> grep_files sy pat (length fs > 1) iv ic g fs w1; Some (0, w2) } } }"

section \<open>Lines\<close>

text \<open>The lines of a text: the pieces between its newlines, without an empty piece behind the last one.\<close>

function text_lines :: "bytes \<Rightarrow> bytes list" where
  "text_lines t = (if t = [] then [] else takeWhile (\<lambda>c. c \<noteq> 10) t # text_lines (drop (length (takeWhile (\<lambda>c. c \<noteq> 10) t) + 1) t))"
  by pat_completeness auto
termination by (relation "measure length") auto

declare text_lines.simps [simp del]

abbreviation unlines :: "bytes list \<Rightarrow> bytes" where
  "unlines ls \<equiv> concat (map (\<lambda>l. l @ [10]) ls)"

lemma strchr_text: "0 \<notin> set t \<Longrightarrow> strchr (t @ [0]) 10 = Some (if 10 \<in> set t then Some (length (takeWhile (\<lambda>c. c \<noteq> 10) t)) else None)"
  by (induction t) auto

lemma take_takeWhile: "take (length (takeWhile P t)) t = takeWhile P t"
  by (induction t) auto

lemma takeWhile_shorter: "c \<in> set t \<Longrightarrow> length (takeWhile (\<lambda>x. x \<noteq> c) t) < length t"
  by (induction t) auto

lemma take_cstr: "take (length (cstr b)) b = cstr b"
  by (induction b) auto

lemma set_drop_0: "0 \<notin> set t \<Longrightarrow> 0 \<notin> set (drop n (t :: bytes))"
  by (meson in_set_dropD)

text \<open>The loop over a buffer cuts it into the lines of the text, each behind a terminator of its own.\<close>

lemma get_lines_text:
  "0 \<notin> set t \<Longrightarrow> length (text_lines t) \<le> lim \<Longrightarrow> get_lines lim (t @ [0]) = Some (map (\<lambda>l. l @ [0]) (text_lines t))"
proof (induction lim arbitrary: t)
  case 0
  then show ?case by (subst text_lines.simps) (simp add: text_lines.simps [of t] split: if_splits)
next
  case (Suc lim)
  show ?case
  proof (cases "t = []")
    case False
    let ?k = "length (takeWhile (\<lambda>c. c \<noteq> 10) t)"
    have lines: "text_lines t = takeWhile (\<lambda>c. c \<noteq> 10) t # text_lines (drop (?k + 1) t)"
      using False by (simp add: text_lines.simps [of t])
    have nz: "hd (t @ [0]) \<noteq> 0" using False Suc.prems(1) by (cases t) auto
    have IH: "get_lines lim (drop (?k + 1) t @ [0]) = Some (map (\<lambda>l. l @ [0]) (text_lines (drop (?k + 1) t)))"
      using Suc.IH [OF set_drop_0 [OF Suc.prems(1)]] Suc.prems(2) unfolding lines by simp
    show ?thesis
    proof (cases "10 \<in> set t")
      case True
      then have "?k < length t" by (rule takeWhile_shorter)
      then show ?thesis using IH nz True False Suc.prems(1) by (simp add: strchr_text lines take_takeWhile)
    next
      case no: False
      then have tw: "takeWhile (\<lambda>c. c \<noteq> 10) t = t" by (simp add: takeWhile_eq_all_conv) metis
      have "strlen (t @ [0]) = Some (length t)" using Suc.prems(1) by (simp add: libc_kernel kstrlen_eq cstr_append_zero)
      then show ?thesis using IH nz no False Suc.prems(1)
        by (simp add: strchr_text lines tw)
    qed
  qed (simp add: text_lines.simps)
qed

lemma text_lines_nonzero: "0 \<notin> set t \<Longrightarrow> l \<in> set (text_lines t) \<Longrightarrow> 0 \<notin> set l"
proof (induction t rule: text_lines.induct)
  case (1 t)
  show ?case using 1 1(3) [unfolded text_lines.simps [of t]]
    by (auto dest: set_takeWhileD in_set_dropD split: if_splits)
qed

lemma length_text_lines: "length (text_lines t) \<le> length t"
proof (induction t rule: text_lines.induct)
  case (1 t)
  show ?case
  proof (cases "t = []")
    case False
    have "length (text_lines (drop (length (takeWhile (\<lambda>c. c \<noteq> 10) t) + 1) t)) \<le> length t - 1"
      using 1 [OF False] by simp
    then show ?thesis using False by (subst text_lines.simps) (cases t, simp_all)
  qed (simp add: text_lines.simps)
qed

text \<open>
  The contract of the standard input and output of a program: a read takes a prefix of what is left of the input, not more than
  asked for and nothing only at the end or when nothing is asked for, and a write appends to the output.
\<close>

definition stream_read :: "(nat \<Rightarrow> 'w \<Rightarrow> bytes \<times> 'w) \<Rightarrow> ('w \<Rightarrow> bytes) \<Rightarrow> ('w \<Rightarrow> bytes) \<Rightarrow> bool" where
  "stream_read rd inp out \<longleftrightarrow> (\<forall>n w. case rd n w of (x, w1) \<Rightarrow>
     inp w = x @ inp w1 \<and> length x \<le> n \<and> (x = [] \<longrightarrow> n = 0 \<or> inp w = []) \<and> out w1 = out w)"

definition stream_write :: "'w sys \<Rightarrow> ('w \<Rightarrow> bytes) \<Rightarrow> bool" where
  "stream_write sy out \<longleftrightarrow> (\<forall>b w. out (sys_write sy b w) = out w @ b)"

lemma stream_readD:
  "stream_read rd inp out \<Longrightarrow> rd n w = (x, w1) \<Longrightarrow>
     inp w = x @ inp w1 \<and> length x \<le> n \<and> (x = [] \<longrightarrow> n = 0 \<or> inp w = []) \<and> out w1 = out w"
  unfolding stream_read_def by (metis (mono_tags, lifting) case_prod_conv)

lemma read_all_stream:
  assumes "stream_read (sys_read sy) inp out" "length acc + length (inp w) \<le> cap"
  shows "\<exists>w1. read_all sy cap acc w = Some (acc @ inp w, w1) \<and> out w1 = out w"
  using assms(2)
proof (induction "length (inp w)" arbitrary: acc w rule: less_induct)
  case less
  obtain x w1 where r: "sys_read sy (cap - length acc) w = (x, w1)" by (cases "sys_read sy (cap - length acc) w")
  have c: "inp w = x @ inp w1" "length x \<le> cap - length acc" "x = [] \<Longrightarrow> cap - length acc = 0 \<or> inp w = []" "out w1 = out w"
    using stream_readD [OF assms(1) r] by auto
  show ?case
  proof (cases "x = []")
    case True
    then have "length (inp w) = 0" using c(3) less.prems by (cases "inp w") auto
    then show ?thesis using r True c(4) by (subst read_all.simps) simp
  next
    case False
    then have "\<exists>w2. read_all sy cap (acc @ x) w1 = Some ((acc @ x) @ inp w1, w2) \<and> out w2 = out w1"
      using less.hyps [of w1 "acc @ x"] less.prems c(1) by simp
    then show ?thesis using r False c less.prems by (subst read_all.simps) auto
  qed
qed

lemma puts_stream:
  "stream_write sy out \<Longrightarrow> terminated l \<Longrightarrow> \<exists>w1. puts sy l w = Some w1 \<and> out w1 = out w @ cstr l @ [10]"
  by (simp add: puts_def fputs_def libc_kernel kstrlen_eq stream_write_def take_cstr)

lemma put_lines_stream:
  "stream_write sy out \<Longrightarrow> \<forall>l \<in> set ls. terminated l \<Longrightarrow> \<exists>w1. put_lines sy ls w = Some w1 \<and> out w1 = out w @ unlines (map cstr ls)"
proof (induction ls arbitrary: w)
  case (Cons l ls)
  obtain w1 where w1: "puts sy l w = Some w1" "out w1 = out w @ cstr l @ [10]"
    using puts_stream [OF Cons.prems(1), of l w] Cons.prems(2) by auto
  show ?case using Cons.IH [of w1] Cons.prems w1 by auto
qed simp

section \<open>What sort writes\<close>

lemma cmp_str_order:
  assumes "terminated a" "terminated b"
  shows "cmp_str a b \<le> 0 \<longleftrightarrow> lexordp_eq (cstr a) (cstr b)" "cmp_str_r a b \<le> 0 \<longleftrightarrow> lexordp_eq (cstr b) (cstr a)"
proof -
  show "cmp_str a b \<le> 0 \<longleftrightarrow> lexordp_eq (cstr a) (cstr b)"
    using strcmp_order [OF assms] by (elim exE conjE) (simp add: cmp_str_def)
  show "cmp_str_r a b \<le> 0 \<longleftrightarrow> lexordp_eq (cstr b) (cstr a)"
    using strcmp_order [OF assms(2,1)] by (elim exE conjE) (simp add: cmp_str_r_def)
qed

interpretation up: comparison terminated cmp_str
proof
  show "cmp_str b a \<le> 0" if "terminated a" "terminated b" "0 < cmp_str a b" for a b
    using that lexordp_eq_linear [of "cstr a" "cstr b"] cmp_str_order(1) [of a b] cmp_str_order(1) [of b a] by auto
  show "cmp_str a c \<le> 0" if "terminated a" "terminated b" "terminated c" "cmp_str a b \<le> 0" "cmp_str b c \<le> 0" for a b c
    using that lexordp_eq_trans [of "cstr a" "cstr b" "cstr c"] by (simp add: cmp_str_order)
qed

interpretation down: comparison terminated cmp_str_r
proof
  show "cmp_str_r b a \<le> 0" if "terminated a" "terminated b" "0 < cmp_str_r a b" for a b
    using that lexordp_eq_linear [of "cstr a" "cstr b"] cmp_str_order(2) [of a b] cmp_str_order(2) [of b a] by auto
  show "cmp_str_r a c \<le> 0" if "terminated a" "terminated b" "terminated c" "cmp_str_r a b \<le> 0" "cmp_str_r b c \<le> 0" for a b c
    using that lexordp_eq_trans [of "cstr c" "cstr b" "cstr a"] by (simp add: cmp_str_order)
qed

text \<open>Either order, chosen by the option.\<close>

definition line_le :: "bool \<Rightarrow> bytes \<Rightarrow> bytes \<Rightarrow> bool" where
  "line_le rv a b \<longleftrightarrow> (if rv then lexordp_eq b a else lexordp_eq a b)"

lemma qsort_lines:
  assumes "\<forall>l \<in> set ls. terminated l"
  shows "\<exists>r. qsort (if rv then cmp_str_r else cmp_str) 4 ls = Some r \<and> mset r = mset ls
           \<and> sorted_wrt (\<lambda>a b. line_le rv (cstr a) (cstr b)) r"
proof -
  have "\<exists>r. qsort (if rv then cmp_str_r else cmp_str) 4 ls = Some r \<and> mset r = mset ls
      \<and> sorted_wrt (\<lambda>a b. (if rv then cmp_str_r else cmp_str) a b \<le> 0) r"
    using up.qsort_correct [OF assms, of 4] down.qsort_correct [OF assms, of 4] by (cases rv) auto
  then obtain r where r: "qsort (if rv then cmp_str_r else cmp_str) 4 ls = Some r" "mset r = mset ls"
    "sorted_wrt (\<lambda>a b. (if rv then cmp_str_r else cmp_str) a b \<le> 0) r" by auto
  have "\<forall>l \<in> set r. terminated l" using assms r(2) by (metis set_mset_mset)
  then have "sorted_wrt (\<lambda>a b. line_le rv (cstr a) (cstr b)) r"
    by (intro sorted_wrt_mono_rel [OF _ r(3)]) (auto simp: line_le_def cmp_str_order)
  then show ?thesis using r by auto
qed

lemma sort_main_stream:
  assumes "stream_read (sys_read sy) inp out" "stream_write sy out"
    and "read_args sy args w = Some (a, w1)" "terminated a"
    and "0 \<notin> set (inp w1)" "length (inp w1) < 32768" "length (text_lines (inp w1)) \<le> 1024"
  shows "\<exists>ls w2. sort_main sy args w = Some (0, w2) \<and> out w2 = out w1 @ unlines ls \<and> mset ls = mset (text_lines (inp w1))
           \<and> sorted_wrt (line_le (cstr a = cstr (lit ''-r''))) ls"
proof -
  obtain w2 where w2: "read_all sy 32767 [] w1 = Some (inp w1, w2)" "out w2 = out w1"
    using read_all_stream [OF assms(1), of "[]" w1 32767] assms(6) by auto
  have nz: "\<forall>l \<in> set (text_lines (inp w1)). 0 \<notin> set l" using text_lines_nonzero [OF assms(5)] by blast
  let ?ls = "map (\<lambda>l. l @ [0]) (text_lines (inp w1))"
  have g: "get_lines 1024 (inp w1 @ [0]) = Some ?ls" using get_lines_text assms(5,7) by simp
  obtain c where c: "strcmp a (lit ''-r'') = Some c" "c = 0 \<longleftrightarrow> cstr a = cstr (lit ''-r'')"
    using strcmp_order [OF assms(4), of "lit ''-r''"] by auto
  obtain r where r: "qsort (if c = 0 then cmp_str_r else cmp_str) 4 ?ls = Some r" "mset r = mset ?ls"
    "sorted_wrt (\<lambda>a b. line_le (c = 0) (cstr a) (cstr b)) r"
    using qsort_lines [of ?ls "c = 0"] by auto
  have t: "\<forall>l \<in> set r. terminated l" using r(2) by (metis (no_types, lifting) imageE list.set_map set_mset_mset terminated_append terminated_simps(2))
  obtain w3 where w3: "put_lines sy r w2 = Some w3" "out w3 = out w2 @ unlines (map cstr r)"
    using put_lines_stream [OF assms(2) t] by blast
  have "mset (map cstr r) = mset (map cstr ?ls)" using r(2) by (metis mset_map)
  also have "map cstr ?ls = text_lines (inp w1)" using nz by (simp add: map_idI)
  finally have m: "mset (map cstr r) = mset (text_lines (inp w1))" .
  have "sort_main sy args w = Some (0, w3)" unfolding sort_main_def using assms(3) c(1) w2(1) g r(1) w3(1) by simp
  moreover have "sorted_wrt (line_le (cstr a = cstr (lit ''-r''))) (map cstr r)" using r(3) c(2) by (simp add: sorted_wrt_map)
  moreover have "out w3 = out w1 @ unlines (map cstr r)" using w3(2) w2(2) by simp
  ultimately show ?thesis using m by blast
qed


text \<open>Input that comes in pieces, as from a terminal or a pipe, and output that is collected.\<close>

definition chunk_read :: "nat \<Rightarrow> bytes list \<times> bytes \<Rightarrow> bytes \<times> bytes list \<times> bytes" where
  "chunk_read n s = (case dropWhile (\<lambda>c. c = []) (fst s) of [] \<Rightarrow> ([], [], snd s) | c # r \<Rightarrow> (take n c, drop n c # r, snd s))"

definition chunk_sys :: "(bytes list \<times> bytes) sys" where
  "chunk_sys = \<lparr>sys_read = chunk_read, sys_fread = (\<lambda>_. chunk_read), sys_open = (\<lambda>_ s. (3, s)), sys_close = (\<lambda>_ s. s),
     sys_write = (\<lambda>b (i, o1). (i, o1 @ b))\<rparr>"

lemma concat_dropWhile: "concat (dropWhile (\<lambda>c. c = []) cs) = concat cs"
  by (induction cs) auto

lemma chunk_stream: "stream_read chunk_read (\<lambda>s. concat (fst s)) snd"
proof -
  have "case chunk_read n s of (x, s1) \<Rightarrow> concat (fst s) = x @ concat (fst s1) \<and> length x \<le> n
      \<and> (x = [] \<longrightarrow> n = 0 \<or> concat (fst s) = []) \<and> snd s1 = snd s" for n s
  proof (cases "dropWhile (\<lambda>c. c = []) (fst s)")
    case Nil
    have "concat (fst s) = []" using concat_dropWhile [of "fst s"] unfolding Nil by simp
    then show ?thesis unfolding chunk_read_def Nil by simp
  next
    case (Cons c r)
    have "c \<noteq> []" using hd_dropWhile [of "\<lambda>c. c = []" "fst s"] unfolding Cons by simp
    moreover have "concat (fst s) = c @ concat r" using concat_dropWhile [of "fst s"] unfolding Cons by simp
    ultimately show ?thesis unfolding chunk_read_def Cons by simp
  qed
  then show ?thesis by (simp add: stream_read_def)
qed

lemma chunk_sys_streams:
  "stream_read (sys_read chunk_sys) (\<lambda>s. concat (fst s)) snd" "stream_write chunk_sys snd"
  "stream_read (sys_fread chunk_sys fd) (\<lambda>s. concat (fst s)) snd"
  using chunk_stream by (auto simp: chunk_sys_def stream_write_def)


section \<open>What uniq writes\<close>

text \<open>
  The lines that differ from the line before; the first one is compared with the empty line.
\<close>

lemma uniq_lines_stream:
  assumes "stream_write sy out"
  shows "\<forall>l \<in> set ls. 0 \<notin> set l \<and> length l < 511 \<Longrightarrow> length prev = 512 \<Longrightarrow> terminated prev \<Longrightarrow>
    \<exists>w1. uniq_lines sy (map (\<lambda>l. l @ [0]) ls) prev w = Some w1 \<and> out w1 = out w @ unlines (tl (remdups_adj (cstr prev # ls)))"
proof (induction ls arbitrary: prev w)
  case (Cons l ls)
  then have l: "0 \<notin> set l" "length l < 511" by auto
  then obtain c where c: "strcmp (l @ [0]) prev = Some c" "c = 0 \<longleftrightarrow> l = cstr prev"
    using strcmp_order [of "l @ [0]" prev] Cons.prems by auto
  show ?case
  proof (cases "l = cstr prev")
    case True
    then show ?thesis using Cons.IH [of prev w] Cons.prems c by simp
  next
    case False
    obtain w1 where w1: "puts sy (l @ [0]) w = Some w1" "out w1 = out w @ l @ [10]"
      using puts_stream [OF assms, of "l @ [0]" w] l by auto
    define p where "p = l @ 0 # replicate (511 - length l) 0"
    have "512 - length l = Suc (511 - length l)" using l by simp
    then have p: "strncpy prev (l @ [0]) 511 = Some p" "length p = 512" "cstr p = l" "terminated p"
      using strncpy_short [of "l @ [0]" 511 prev] l Cons.prems by (simp_all add: p_def)
    obtain w2 where w2: "uniq_lines sy (map (\<lambda>l. l @ [0]) ls) p w1 = Some w2"
      "out w2 = out w1 @ unlines (tl (remdups_adj (l # ls)))"
      using Cons.IH [of p w1] Cons.prems p by auto
    have e: "tl (remdups_adj (cstr prev # l # ls)) = l # tl (remdups_adj (l # ls))" using False by simp
    have "out w2 = out w @ unlines (tl (remdups_adj (cstr prev # l # ls)))" unfolding e w2(2) w1(2) by (simp only: list.map concat.simps append_assoc)
    moreover have "uniq_lines sy (map (\<lambda>l. l @ [0]) (l # ls)) prev w = Some w2" using c False w1(1) w2(1) p(1) by simp
    ultimately show ?thesis by blast
  qed
qed simp

text \<open>
  \<^verbatim>\<open>uniq\<close> writes each line that differs from the line before it: the result is the input without adjacent repetitions, except
  that the first line is compared with an empty line, so empty lines at the beginning are not written at all. This holds for inputs
  of up to 32767 bytes with lines shorter than 511 bytes, whatever the sizes of the single reads.
\<close>

theorem uniq_removes_repetitions:
  assumes "stream_read (sys_read sy) inp out" "stream_write sy out" "length junk = 512"
    and "0 \<notin> set (inp w)" "length (inp w) < 32768" "\<forall>l \<in> set (text_lines (inp w)). length l < 511"
  shows "\<exists>w1. uniq_main sy junk w = Some (0, w1) \<and> out w1 = out w @ unlines (tl (remdups_adj ([] # text_lines (inp w))))"
proof -
  obtain w1 where w1: "read_all sy 32767 [] w = Some (inp w, w1)" "out w1 = out w"
    using read_all_stream [OF assms(1), of "[]" w 32767] assms(5) by auto
  have g: "get_lines (length (inp w) + 1) (inp w @ [0]) = Some (map (\<lambda>l. l @ [0]) (text_lines (inp w)))"
    by (rule get_lines_text [OF assms(4)]) (use length_text_lines [of "inp w"] in simp)
  obtain x xs where j: "junk = x # xs" using assms(3) by (cases junk) auto
  have b: "blit junk 0 [0] = Some (0 # xs)" by (simp add: j blit_def)
  have "\<exists>w2. uniq_lines sy (map (\<lambda>l. l @ [0]) (text_lines (inp w))) (0 # xs) w1 = Some w2
      \<and> out w2 = out w1 @ unlines (tl (remdups_adj (cstr (0 # xs) # text_lines (inp w))))"
    using assms(3,6) text_lines_nonzero [OF assms(4)] j by (intro uniq_lines_stream [OF assms(2)]) auto
  then show ?thesis unfolding uniq_main_def using w1 g b by (elim exE conjE) simp
qed

lemma uniq_removes_repetitions_witness:
  "\<exists>w1. uniq_main chunk_sys (replicate 512 7) ([[10, 97, 10, 97], [10, 98, 10, 97, 10]], []) = Some (0, w1)
     \<and> snd w1 = unlines [[97], [98], [97]]"
proof -
  have t: "text_lines [10, 97, 10, 97, 10, 98, 10, 97, 10] = [[], [97], [97], [98], [97]]" by code_simp
  show ?thesis
    using uniq_removes_repetitions [OF chunk_sys_streams(1,2), of "replicate 512 7" "([[10, 97, 10, 97], [10, 98, 10, 97, 10]], [])"] t
    by simp
qed

section \<open>What wc counts\<close>

abbreviation blank :: "u8 \<Rightarrow> bool" where
  "blank c \<equiv> c = 32 \<or> c = 9 \<or> c = 10"

lemma wc_char_bytes: "wc_bytes (wc_char c t) = wc_bytes t" "wc_char c (t\<lparr>wc_bytes := n\<rparr>) = (wc_char c t)\<lparr>wc_bytes := n\<rparr>"
  by (cases t; simp add: wc_char_def Let_def)+

lemma wc_loop_stream:
  assumes "stream_read (sys_fread sy fd) inp out"
  shows "\<exists>w1. wc_loop sy fd s w = Some (fold wc_char (inp w) (s\<lparr>wc_bytes := wc_bytes s + of_nat (length (inp w))\<rparr>), w1)"
proof (induction "length (inp w)" arbitrary: s w rule: less_induct)
  case less
  obtain x w1 where r: "sys_fread sy fd 512 w = (x, w1)" by (cases "sys_fread sy fd 512 w")
  have c: "inp w = x @ inp w1" "length x \<le> 512" "x = [] \<Longrightarrow> inp w = []" using stream_readD [OF assms r] by auto
  have b: "wc_bytes (fold wc_char y t) = wc_bytes t
      \<and> fold wc_char y (t\<lparr>wc_bytes := n\<rparr>) = (fold wc_char y t)\<lparr>wc_bytes := n\<rparr>" for y t n
    by (induction y arbitrary: t) (auto simp: wc_char_bytes)
  show ?case
  proof (cases "x = []")
    case True
    then show ?thesis using r c(3) by (subst wc_loop.simps) simp
  next
    case False
    then obtain w2 where "wc_loop sy fd (fold wc_char x (s\<lparr>wc_bytes := wc_bytes s + of_nat (length x)\<rparr>)) w1
       = Some (fold wc_char (inp w) (s\<lparr>wc_bytes := wc_bytes s + of_nat (length (inp w))\<rparr>), w2)"
      using less.hyps [of w1 "fold wc_char x (s\<lparr>wc_bytes := wc_bytes s + of_nat (length x)\<rparr>)"] c(1)
      by (auto simp: b add.assoc)
    then show ?thesis using r False c(2) by (subst wc_loop.simps) simp
  qed
qed

text \<open>The places where a word begins.\<close>

definition word_starts :: "bytes \<Rightarrow> nat set" where
  "word_starts t = {i. i < length t \<and> \<not> blank (t ! i) \<and> (i = 0 \<or> blank (t ! (i - 1)))}"

lemma word_starts_snoc:
  "word_starts (t @ [c]) = (if \<not> blank c \<and> (t = [] \<or> blank (last t)) then insert (length t) (word_starts t) else word_starts t)"
proof (rule set_eqI)
  fix i
  consider "i < length t" | "i = length t" | "length t < i" by linarith
  then show "i \<in> word_starts (t @ [c]) \<longleftrightarrow>
      i \<in> (if \<not> blank c \<and> (t = [] \<or> blank (last t)) then insert (length t) (word_starts t) else word_starts t)"
  proof cases
    case 1
    then have "i - 1 < length t" by simp
    with 1 show ?thesis by (simp add: word_starts_def nth_append)
  next
    case 2
    then show ?thesis by (cases "t = []") (simp_all add: word_starts_def nth_append last_conv_nth)
  qed (simp_all add: word_starts_def nth_append)
qed

lemma word_starts_Nil: "word_starts [] = {}"
  by (simp add: word_starts_def)

lemma wc_fold:
  assumes "\<not> wc_in_word s"
  shows "wc_lines (fold wc_char t s) = wc_lines s + of_nat (count_list t 10)
     \<and> wc_words (fold wc_char t s) = wc_words s + of_nat (card (word_starts t))
     \<and> wc_in_word (fold wc_char t s) = (t \<noteq> [] \<and> \<not> blank (last t)) \<and> wc_bytes (fold wc_char t s) = wc_bytes s"
proof (induction t rule: rev_induct)
  case Nil
  then show ?case using assms by (simp add: word_starts_def)
next
  case (snoc c t)
  have "finite (word_starts t)" "length t \<notin> word_starts t" by (simp_all add: word_starts_def)
  then show ?case using snoc word_starts_snoc [of "[]" c]
    by (cases "t = []") (auto simp: wc_char_def Let_def word_starts_snoc word_starts_Nil)
qed

text \<open>
  \<^verbatim>\<open>wc\<close> counts newlines, words and bytes of the whole input, whatever pieces of at most 512 bytes the reads return: a word
  begins at each character that is not a blank, a tabulator or a newline and has one of them, or nothing, before it, so a word that
  is cut by the end of a piece is counted once. The counters are numbers of 32 bits.
\<close>

theorem wc_counts:
  assumes "stream_read (sys_fread sy fd) inp out"
  shows "\<exists>s w1. wc_loop sy fd \<lparr>wc_lines = 0, wc_words = 0, wc_bytes = 0, wc_in_word = False\<rparr> w = Some (s, w1)
     \<and> wc_lines s = of_nat (count_list (inp w) 10) \<and> wc_words s = of_nat (card (word_starts (inp w)))
     \<and> wc_bytes s = of_nat (length (inp w))"
proof -
  let ?s = "\<lparr>wc_lines = 0, wc_words = 0, wc_bytes = of_nat (length (inp w)), wc_in_word = False\<rparr>"
  have "\<exists>w1. wc_loop sy fd \<lparr>wc_lines = 0, wc_words = 0, wc_bytes = 0, wc_in_word = False\<rparr> w = Some (fold wc_char (inp w) ?s, w1)"
    using wc_loop_stream [OF assms, of "\<lparr>wc_lines = 0, wc_words = 0, wc_bytes = 0, wc_in_word = False\<rparr>" w] by simp
  then show ?thesis using wc_fold [of ?s "inp w"] by (elim exE) simp
qed

lemma wc_counts_witness:
  "\<exists>s w1. wc_loop chunk_sys 3 \<lparr>wc_lines = 0, wc_words = 0, wc_bytes = 0, wc_in_word = False\<rparr> ([[97, 98], [99, 32, 97, 10]], []) = Some (s, w1)
     \<and> wc_lines s = 1 \<and> wc_bytes s = 6"
  using wc_counts [OF chunk_sys_streams(3), of 3 "([[97, 98], [99, 32, 97, 10]], [])"] by auto

section \<open>What grep selects\<close>

lemma list_all_upt: "list_all P [0..<n] \<longleftrightarrow> (\<forall>i < n. P i)"
  by (auto simp: list_all_iff)

lemma list_ex_upt: "list_ex P [0..<n] \<longleftrightarrow> (\<exists>i < n. P i)"
  by (auto simp: list_ex_iff)

text \<open>The two loops of \<^verbatim>\<open>contains\<close> search a contiguous part.\<close>

lemma sublist_index: "sublist xs ys \<longleftrightarrow> (\<exists>i. i + length xs \<le> length ys \<and> (\<forall>j < length xs. ys ! (i + j) = xs ! j))"
proof
  assume "sublist xs ys"
  then obtain ps ss where "ys = ps @ xs @ ss" by (auto simp: sublist_def)
  then show "\<exists>i. i + length xs \<le> length ys \<and> (\<forall>j < length xs. ys ! (i + j) = xs ! j)"
    by (intro exI [of _ "length ps"]) (simp add: nth_append)
next
  assume "\<exists>i. i + length xs \<le> length ys \<and> (\<forall>j < length xs. ys ! (i + j) = xs ! j)"
  then obtain i where i: "i + length xs \<le> length ys" "\<forall>j < length xs. ys ! (i + j) = xs ! j" by blast
  have "xs = take (length xs) (drop i ys)" by (rule nth_equalityI) (use i in auto)
  then have "ys = take i ys @ xs @ drop (length xs) (drop i ys)" by (metis append_take_drop_id)
  then show "sublist xs ys" unfolding sublist_def by blast
qed

lemma nth_cstr: "i < length (cstr b) \<Longrightarrow> b ! i = cstr b ! i"
proof (induction b arbitrary: i)
  case (Cons c b)
  then show ?case by (cases "c = 0"; cases i) auto
qed simp

lemma contains_sublist:
  assumes "terminated line" "terminated pat"
  shows "contains line pat = Some (sublist (cstr pat) (cstr line))"
proof -
  let ?p = "cstr pat" and ?l = "cstr line"
  have "(length ?p \<le> length ?l \<and> (\<exists>i < length ?l - length ?p + 1. \<forall>j < length ?p. line ! (i + j) = pat ! j))
     \<longleftrightarrow> (\<exists>i. i + length ?p \<le> length ?l \<and> (\<forall>j < length ?p. ?l ! (i + j) = ?p ! j))" (is "?a \<longleftrightarrow> ?b")
  proof
    assume ?a
    then obtain i where "length ?p \<le> length ?l" "i < length ?l - length ?p + 1" "\<forall>j < length ?p. line ! (i + j) = pat ! j" by auto
    then show ?b by (intro exI [of _ i]) (auto simp: nth_cstr [symmetric])
  next
    assume ?b
    then obtain i where i: "i + length ?p \<le> length ?l" "\<forall>j < length ?p. ?l ! (i + j) = ?p ! j" by blast
    then have "i < length ?l - length ?p + 1" "\<forall>j < length ?p. line ! (i + j) = pat ! j" by (auto simp: nth_cstr)
    then show ?a using i(1) by auto
  qed
  then show ?thesis using assms
    by (simp add: contains_def libc_kernel kstrlen_eq list_all_upt list_ex_upt sublist_index del: upt_Suc)
qed

abbreviation lower_char :: "u8 \<Rightarrow> u8" where
  "lower_char c \<equiv> if 65 \<le> c \<and> c \<le> 90 then c + 32 else c"

lemma lower_char_nonzero: "c \<noteq> 0 \<Longrightarrow> lower_char c \<noteq> 0"
proof -
  assume "c \<noteq> 0"
  moreover have "c + 32 \<noteq> 0" if "c \<le> 90"
  proof
    assume "c + 32 = 0"
    then have "c = - 32" by (simp add: eq_neg_iff_add_eq_0)
    then show False using that by simp
  qed
  ultimately show ?thesis by simp
qed

lemma lower_ok: "terminated s \<Longrightarrow> \<exists>t. lower s = Some t \<and> terminated t \<and> cstr t = map lower_char (cstr s) \<and> length t = length s"
proof (induction s)
  case (Cons c s)
  show ?case
  proof (cases "c = 0")
    case False
    then obtain t where t: "lower s = Some t" "terminated t" "cstr t = map lower_char (cstr s)" "length t = length s"
      using Cons by auto
    then show ?thesis using False lower_char_nonzero [OF False] by simp
  qed simp
qed simp

lemma strncpy_string:
  assumes "terminated s" "length (cstr s) < n" "length d = n + 1"
  shows "\<exists>b. strncpy d s n = Some b \<and> cstr b = cstr s \<and> terminated b \<and> length b = n + 1"
proof -
  have "n + 1 - length (cstr s) = Suc (n - length (cstr s))" using assms by simp
  then have "strncpy d s n = Some (cstr s @ 0 # replicate (n - length (cstr s)) 0)"
    using strncpy_short [of s n d] assms by simp
  then show ?thesis using assms(2) by (simp add: cstr_nonzero)
qed

text \<open>
  C28. \<^verbatim>\<open>grep\<close> decides a line by containment: for a line shorter than 255 bytes and a pattern shorter than 127, whatever the
  buffers held before, the line is selected exactly when the pattern occurs in it as a contiguous part (after both were put in
  lower case, with \<^verbatim>\<open>-i\<close>), or exactly when it does not occur, with \<^verbatim>\<open>-v\<close>; and the copy that is printed is the line as it was
  read.
\<close>

theorem grep_selects:
  assumes "terminated p" "length (cstr p) < 255" "terminated pat" "length (cstr pat) < 127"
    and "length (gb_line g) = 256" "length (gb_cmp_line g) = 256" "length (gb_cmp_pat g) = 128"
  shows "\<exists>h g1. grep_hit pat invert ic p g = Some (h, g1) \<and> cstr (gb_line g1) = cstr p
     \<and> (h \<longleftrightarrow> sublist (map (if ic then lower_char else id) (cstr pat)) (map (if ic then lower_char else id) (cstr p)) \<noteq> invert)
     \<and> length (gb_line g1) = 256 \<and> length (gb_cmp_line g1) = 256 \<and> length (gb_cmp_pat g1) = 128"
proof -
  obtain l where l: "strncpy (gb_line g) p 255 = Some l" "cstr l = cstr p" "terminated l" "length l = 256"
    using strncpy_string [of p 255 "gb_line g"] assms by auto
  obtain cl where cl: "strncpy (gb_cmp_line g) l 255 = Some cl" "cstr cl = cstr p" "terminated cl" "length cl = 256"
    using strncpy_string [of l 255 "gb_cmp_line g"] assms l by auto
  obtain cp where cp: "strncpy (gb_cmp_pat g) pat 127 = Some cp" "cstr cp = cstr pat" "terminated cp" "length cp = 128"
    using strncpy_string [of pat 127 "gb_cmp_pat g"] assms by auto
  obtain l1 p1 where lo: "(if ic then lower cl else Some cl) = Some l1" "terminated l1" "length l1 = 256"
    "cstr l1 = map (if ic then lower_char else id) (cstr p)" "(if ic then lower cp else Some cp) = Some p1" "terminated p1"
    "length p1 = 128" "cstr p1 = map (if ic then lower_char else id) (cstr pat)"
    using lower_ok [OF cl(3)] lower_ok [OF cp(3)] cl cp by (cases ic) auto
  show ?thesis
    unfolding grep_hit_def using l cl(1) cp(1) lo contains_sublist [OF lo(2,6)] by auto
qed

lemma grep_selects_witness:
  "\<exists>h g1. grep_hit [97, 0] False True [66, 65, 0] \<lparr>gb_line = replicate 256 7, gb_cmp_line = replicate 256 7, gb_cmp_pat = replicate 128 7\<rparr>
     = Some (h, g1) \<and> h \<and> cstr (gb_line g1) = [66, 65]"
  using grep_selects [of "[66, 65, 0]" "[97, 0]"
      "\<lparr>gb_line = replicate 256 7, gb_cmp_line = replicate 256 7, gb_cmp_pat = replicate 128 7\<rparr>" False True]
  by (auto simp: sublist_Cons_right)

end
