(* ===== verification/Elf.thy ===== *)
theory Elf
  imports PagingProps Packed Fat12 RamFs Sched Idt
begin

text \<open>
  The ELF loader, \<^verbatim>\<open>src/elf.c\<close>: it checks the header of an image, maps and fills the pages of its segments, and makes a task
  whose kernel stack returns to user mode at the entry point. It works on the page tables of \<open>Paging\<close>; the bytes of user memory are
  the bytes of the words of the frames. Wrapped sums of offsets are kept as the code computes them; an access outside the image or to
  an unmapped page is \<open>None\<close>.
\<close>

section \<open>Headers\<close>

definition ELF_MAGIC :: u32 where "ELF_MAGIC = 0x464C457F"
definition ET_EXEC :: u16 where "ET_EXEC = 2"
definition EM_386 :: u16 where "EM_386 = 3"
definition PT_LOAD :: u32 where "PT_LOAD = 1"
definition PF_X :: u32 where "PF_X = 1"
definition PF_W :: u32 where "PF_W = 2"
definition PF_R :: u32 where "PF_R = 4"
definition USER_CS :: u32 where "USER_CS = 0x1B"
definition USER_DS :: u32 where "USER_DS = 0x23"
definition ELF_USER_STACK_SIZE :: u32 where "ELF_USER_STACK_SIZE = 16384"
definition ELF_USER_STACK_TOP :: u32 where "ELF_USER_STACK_TOP = 0x40000000"
definition ELF_MAX_SIZE :: nat where "ELF_MAX_SIZE = 128 * 1024"

lemmas elf_consts = ELF_MAGIC_def ET_EXEC_def EM_386_def PT_LOAD_def PF_X_def PF_W_def PF_R_def USER_CS_def USER_DS_def
  ELF_USER_STACK_SIZE_def ELF_USER_STACK_TOP_def ELF_MAX_SIZE_def

record elf32_hdr_t =
  eh_magic :: u32
  eh_class :: u8
  eh_data :: u8
  eh_version :: u8
  eh_os_abi :: u8
  eh_pad :: bytes
  eh_type :: u16
  eh_machine :: u16
  eh_version2 :: u32
  eh_entry :: u32
  eh_phoff :: u32
  eh_shoff :: u32
  eh_flags :: u32
  eh_ehsize :: u16
  eh_phentsize :: u16
  eh_phnum :: u16
  eh_shentsize :: u16
  eh_shnum :: u16
  eh_shstrndx :: u16

record elf32_phdr_t =
  ph_type :: u32
  ph_offset :: u32
  ph_vaddr :: u32
  ph_paddr :: u32
  ph_filesz :: u32
  ph_memsz :: u32
  ph_flags :: u32
  ph_align :: u32

record elf_load_result_t =
  er_entry :: u32
  er_load_base :: u32
  er_load_end :: u32
  er_error :: int

text \<open>The packed structures, 52 and 32 bytes.\<close>

definition hdr_of :: "bytes \<Rightarrow> elf32_hdr_t" where
  "hdr_of b = \<lparr>eh_magic = Packed.rd32 b 0, eh_class = b ! 4, eh_data = b ! 5, eh_version = b ! 6, eh_os_abi = b ! 7,
     eh_pad = take 8 (drop 8 b), eh_type = rd16 b 16, eh_machine = rd16 b 18, eh_version2 = Packed.rd32 b 20,
     eh_entry = Packed.rd32 b 24, eh_phoff = Packed.rd32 b 28, eh_shoff = Packed.rd32 b 32, eh_flags = Packed.rd32 b 36,
     eh_ehsize = rd16 b 40, eh_phentsize = rd16 b 42, eh_phnum = rd16 b 44, eh_shentsize = rd16 b 46, eh_shnum = rd16 b 48,
     eh_shstrndx = rd16 b 50\<rparr>"

definition phdr_of :: "bytes \<Rightarrow> elf32_phdr_t" where
  "phdr_of b = \<lparr>ph_type = Packed.rd32 b 0, ph_offset = Packed.rd32 b 4, ph_vaddr = Packed.rd32 b 8, ph_paddr = Packed.rd32 b 12,
     ph_filesz = Packed.rd32 b 16, ph_memsz = Packed.rd32 b 20, ph_flags = Packed.rd32 b 24, ph_align = Packed.rd32 b 28\<rparr>"

definition elf_validate :: "elf32_hdr_t \<Rightarrow> int" where
  "elf_validate hdr =
     (if eh_magic hdr \<noteq> ELF_MAGIC then -1
      else if eh_class hdr \<noteq> 1 then -2
      else if eh_machine hdr \<noteq> EM_386 then -2
      else if eh_type hdr \<noteq> ET_EXEC then -2
      else if eh_phnum hdr = 0 then -2
      else 0)"

section \<open>User memory\<close>

definition get_byte :: "nat \<Rightarrow> u32 \<Rightarrow> u8" where
  "get_byte i w = ucast (drop_bit (8 * i) w)"

definition set_byte :: "nat \<Rightarrow> u8 \<Rightarrow> u32 \<Rightarrow> u32" where
  "set_byte i x w = (w AND NOT (push_bit (8 * i) 0xFF)) OR push_bit (8 * i) (ucast x)"

definition rd8 :: "'a mm_scheme \<Rightarrow> u32 \<Rightarrow> u8 option" where
  "rd8 s a = map_option (\<lambda>f. get_byte (unat (a AND 3)) (frames s f (word_idx a))) (page_frame s a)"

definition wr8 :: "u32 \<Rightarrow> u8 \<Rightarrow> 'a mm_scheme \<Rightarrow> 'a mm_scheme option" where
  "wr8 a x s = map_option (\<lambda>f. set_word f (word_idx a) (set_byte (unat (a AND 3)) x (frames s f (word_idx a))) s) (page_frame s a)"

text \<open>\<^verbatim>\<open>kmemcpy\<close> and \<^verbatim>\<open>kmemset\<close> to a virtual address.\<close>

fun copy_out :: "u32 \<Rightarrow> bytes \<Rightarrow> 'a mm_scheme \<Rightarrow> 'a mm_scheme option" where
  "copy_out a [] s = Some s"
| "copy_out a (x # xs) s = do { s1 \<leftarrow> wr8 a x s; copy_out (a + 1) xs s1 }"

text \<open>The loop that maps what is not mapped yet; the first result is \<open>False\<close> when no frame is left.\<close>

partial_function (option) map_user :: "u32 \<Rightarrow> u32 \<Rightarrow> 'a mm_scheme \<Rightarrow> (bool \<times> 'a mm_scheme) option" where
  "map_user vend va s =
     (if va < vend then do {
        m \<leftarrow> paging_is_mapped va s;
        if m then map_user vend (va + PAGE_SIZE) s
        else case pmm_alloc s of (phys, s1) \<Rightarrow>
          if phys = 0 then Some (False, s1)
          else do {
            s2 \<leftarrow> zero_page phys s1;
            s3 \<leftarrow> paging_map va phys (PAGE_USER OR PAGE_WRITE) s2;
            map_user vend (va + PAGE_SIZE) s3 } }
      else Some (True, s))"

section \<open>Loading\<close>

text \<open>Copying the file part of a segment and clearing the rest.\<close>

definition fill_segment :: "bytes \<Rightarrow> u32 \<Rightarrow> elf32_phdr_t \<Rightarrow> 'a mm_scheme \<Rightarrow> 'a mm_scheme option" where
  "fill_segment data bufsz ph s = do {
     s1 \<leftarrow> (if ph_filesz ph > 0
            then do {
              let src_off = ph_offset ph;
              let copy = (if src_off + ph_filesz ph > bufsz then bufsz - src_off else ph_filesz ph);
              b \<leftarrow> slice data (unat src_off) (unat copy);
              copy_out (ph_vaddr ph) b s }
            else Some s);
     if ph_memsz ph > ph_filesz ph
     then copy_out (ph_vaddr ph + ph_filesz ph) (replicate (unat (ph_memsz ph - ph_filesz ph)) 0) s1
     else Some s1 }"

text \<open>The body of the loop over the program headers; the first result is \<open>False\<close> when the function returns.\<close>

definition load_segment ::
  "bytes \<Rightarrow> u32 \<Rightarrow> elf32_phdr_t \<Rightarrow> elf_load_result_t \<times> 'a mm_scheme \<Rightarrow> (bool \<times> elf_load_result_t \<times> 'a mm_scheme) option" where
  "load_segment data bufsz ph = (\<lambda>(res, s).
     (if ph_type ph \<noteq> PT_LOAD then Some (True, res, s)
      else if ph_memsz ph = 0 then Some (True, res, s)
      else if ph_vaddr ph < 0x100000 then Some (True, res, s)
      else if ph_vaddr ph \<ge> 0xC0000000 then Some (True, res, s)
      else if ph_vaddr ph \<ge> 0x100000 \<and> ph_vaddr ph < 0x500000 then Some (False, res\<lparr>er_error := -2\<rparr>, s)
      else do {
        (ok, s1) \<leftarrow> map_user (PAGE_ALIGN (ph_vaddr ph + ph_memsz ph)) (ph_vaddr ph AND NOT 0xFFF) s;
        if \<not> ok then Some (False, res\<lparr>er_error := -3\<rparr>, s1)
        else do {
          s2 \<leftarrow> fill_segment data bufsz ph s1;
          let res1 = (if ph_vaddr ph < er_load_base res then res\<lparr>er_load_base := ph_vaddr ph\<rparr> else res);
          let res2 = (if ph_vaddr ph + ph_memsz ph > er_load_end res1
                      then res1\<lparr>er_load_end := ph_vaddr ph + ph_memsz ph\<rparr> else res1);
          Some (True, res2, s2) } }))"

text \<open>The address of a program header; the product is a signed one.\<close>

definition ph_addr :: "elf32_hdr_t \<Rightarrow> nat \<Rightarrow> u32 option" where
  "ph_addr hdr i = (if i * unat (eh_phentsize hdr) < 2 ^ 31 then Some (eh_phoff hdr + of_nat (i * unat (eh_phentsize hdr))) else None)"

fun load_loop ::
  "bytes \<Rightarrow> u32 \<Rightarrow> elf32_hdr_t \<Rightarrow> nat list \<Rightarrow> elf_load_result_t \<times> 'a mm_scheme \<Rightarrow> (bool \<times> elf_load_result_t \<times> 'a mm_scheme) option" where
  "load_loop data bufsz hdr [] rs = Some (True, rs)"
| "load_loop data bufsz hdr (i # is) rs = do {
     phoff \<leftarrow> ph_addr hdr i;
     if phoff + 32 > bufsz then load_loop data bufsz hdr is rs
     else do {
       b \<leftarrow> slice data (unat phoff) 32;
       (go, rs1) \<leftarrow> load_segment data bufsz (phdr_of b) rs;
       if go then load_loop data bufsz hdr is rs1 else Some (False, rs1) } }"

definition elf_load_mem :: "bytes \<Rightarrow> u32 \<Rightarrow> 'a mm_scheme \<Rightarrow> (elf_load_result_t \<times> 'a mm_scheme) option" where
  "elf_load_mem data bufsz s =
     (let res = \<lparr>er_entry = 0, er_load_base = 0, er_load_end = 0, er_error = 0\<rparr> in
      if bufsz < 52 then Some (res\<lparr>er_error := -1\<rparr>, s)
      else do {
        b \<leftarrow> slice data 0 52;
        let hdr = hdr_of b;
        if elf_validate hdr < 0 then Some (res\<lparr>er_error := -2\<rparr>, s)
        else do {
          (go, res1, s1) \<leftarrow> load_loop data bufsz hdr [0..<unat (eh_phnum hdr)]
             (res\<lparr>er_entry := eh_entry hdr, er_load_base := 0xFFFFFFFF, er_load_end := 0\<rparr>, s);
          Some (if go \<and> er_load_base res1 = 0xFFFFFFFF then res1\<lparr>er_error := -2\<rparr> else res1, s1) } })"

text \<open>From the volume, or from the memory file system when the volume has no such file; the image stays in the static buffer.\<close>

definition elf_load_disk ::
  "'d dev \<Rightarrow> fat12 \<Rightarrow> ramfs \<Rightarrow> bytes \<Rightarrow> bytes \<times> 'd \<times> 'a mm_scheme \<Rightarrow> (elf_load_result_t \<times> bytes \<times> 'd \<times> 'a mm_scheme) option" where
  "elf_load_disk dv st fs name = (\<lambda>(elf_load_buf, d, s).
     (let res = \<lparr>er_entry = 0, er_load_base = 0, er_load_end = 0, er_error = -4\<rparr> in
      if \<not> fat12_mounted st then Some (res, elf_load_buf, d, s)
      else do {
        (n, buf1, d1) \<leftarrow> fat12_read dv st name elf_load_buf (of_nat ELF_MAX_SIZE) d;
        if n \<le> 0 then do {
          f \<leftarrow> fs_find fs name;
          case f of
            None \<Rightarrow> Some (res, buf1, d1, s)
          | Some i \<Rightarrow> do {
              let n = min (f_size (files fs i)) ELF_MAX_SIZE;
              buf2 \<leftarrow> kmemcpy buf1 (f_data (files fs i)) n;
              (r, s1) \<leftarrow> elf_load_mem buf2 (of_nat n) s;
              Some (r, buf2, d1, s1) } }
        else do {
          (r, s1) \<leftarrow> elf_load_mem buf1 (of_int n) s;
          Some (r, buf1, d1, s1) } }))"

section \<open>Spawning\<close>

text \<open>
  The frame that \<^verbatim>\<open>iret\<close> takes to user mode, below it the saved registers, and the two words that the interrupt stub drops. The
  result of \<^verbatim>\<open>elf_spawn\<close> is the pid; \<open>placeholder\<close> is the address of the function the task is spawned with.
\<close>

definition user_frame :: "u32 \<Rightarrow> u32 list" where
  "user_frame entry = [USER_DS, ELF_USER_STACK_TOP - 4, 0x202, USER_CS, entry] @ replicate 8 0 @ [USER_DS, 0, 0]"

definition elf_spawn ::
  "u32 \<Rightarrow> bytes \<Rightarrow> elf_load_result_t option \<Rightarrow> 'a mm_scheme \<times> sched \<times> kheap \<Rightarrow> (int \<times> 'a mm_scheme \<times> sched \<times> kheap) option" where
  "elf_spawn placeholder name res = (\<lambda>(m, s, h).
     (case res of None \<Rightarrow> Some (-1, m, s, h)
      | Some r \<Rightarrow>
          if er_error r \<noteq> 0 then Some (-1, m, s, h)
          else do {
            (ok, m1) \<leftarrow> map_user ELF_USER_STACK_TOP (ELF_USER_STACK_TOP - ELF_USER_STACK_SIZE) m;
            if \<not> ok then Some (-1, m1, s, h)
            else do {
              (kstack, h1) \<leftarrow> kmalloc 8192 h;
              if kstack = 0 then Some (-1, m1, s, h1)
              else do {
                let (sp, stk) = push_words (user_frame (er_entry r)) (w32 (kstack + 8192)) (sc_stk s);
                (pid, s1, h2) \<leftarrow> sched_spawn name placeholder 0 (s\<lparr>sc_stk := stk\<rparr>, h1);
                if pid < 0 then Some (-1, m1, s1, kfree kstack h2)
                else case sched_get_task s1 pid of
                  None \<Rightarrow> Some (pid, m1, s1, h2)
                | Some i \<Rightarrow>
                    let h3 = (if t_stack (sc_tasks s1 i) \<noteq> 0 then kfree (t_stack (sc_tasks s1 i)) h2 else h2)
                    in Some (pid, m1, upd_task i (\<lambda>x. x\<lparr>t_stack := kstack, t_stack_size := 8192, t_esp := sp\<rparr>) s1, h3) } } }))"

section \<open>Printing\<close>

definition put_flag :: "u32 \<Rightarrow> u32 \<Rightarrow> u8 \<Rightarrow> vga \<Rightarrow> vga option" where
  "put_flag fl f c v = (if fl AND f \<noteq> 0 then Some (vga_putchar c v) else Some v)"

definition print_segment :: "elf32_phdr_t \<Rightarrow> vga \<Rightarrow> vga option" where
  "print_segment ph = seq_opt
     [vga_puts (lit ''  LOAD  vaddr=0x''), vga_put_hex (ph_vaddr ph), vga_puts (lit ''  filesz=''), vga_put_dec (ph_filesz ph),
      vga_puts (lit ''  memsz=''), vga_put_dec (ph_memsz ph), vga_puts (lit ''  flags=''),
      put_flag (ph_flags ph) PF_R 82, put_flag (ph_flags ph) PF_W 87, put_flag (ph_flags ph) PF_X 88, (\<lambda>v. Some (vga_putchar 10 v))]"

fun print_segments :: "bytes \<Rightarrow> u32 \<Rightarrow> elf32_hdr_t \<Rightarrow> nat list \<Rightarrow> vga \<Rightarrow> vga option" where
  "print_segments data bufsz hdr [] v = Some v"
| "print_segments data bufsz hdr (i # is) v = do {
     off \<leftarrow> ph_addr hdr i;
     if off + 32 > bufsz then Some v
     else do {
       b \<leftarrow> slice data (unat off) 32;
       v1 \<leftarrow> (if ph_type (phdr_of b) \<noteq> PT_LOAD then Some v else print_segment (phdr_of b) v);
       print_segments data bufsz hdr is v1 } }"

definition elf_print_info :: "bytes \<Rightarrow> u32 \<Rightarrow> vga \<Rightarrow> vga option" where
  "elf_print_info data bufsz v =
     (if bufsz < 52 then vga_puts (lit_lines [''  Buffer too small for ELF header'']) v
      else do {
        b \<leftarrow> slice data 0 52;
        let hdr = hdr_of b;
        if elf_validate hdr < 0 then vga_puts (lit_lines [''  Not a valid x86 ELF32 executable'']) v
        else seq_opt
          [\<lambda>v. Some (vga_set_color VGA_YELLOW VGA_BLACK v), vga_puts (10 # lit_lines [''  === ELF Info ==='', '''']),
           \<lambda>v. Some (vga_set_color VGA_WHITE VGA_BLACK v), vga_puts (lit_lines [''  Type:     ELF32 x86 Executable'']),
           vga_puts (lit ''  Entry:    0x''), vga_put_hex (eh_entry hdr), (\<lambda>v. Some (vga_putchar 10 v)),
           vga_puts (lit ''  Segments: ''), vga_put_dec (ucast (eh_phnum hdr)), (\<lambda>v. Some (vga_putchar 10 v)),
           print_segments data bufsz hdr [0..<unat (eh_phnum hdr)], (\<lambda>v. Some (vga_putchar 10 v))] v })"

end
