(* ===== verification/ElfProps.thy ===== *)
theory ElfProps
  imports Elf
begin

text \<open>
  What the loader achieves: the user pages of a state, bytes of user memory under a write and under the mapping of new pages, one
  segment, and a whole image.
\<close>

section \<open>Bytes of user memory\<close>

lemma bit_byte: "bit (0xFF :: int) n \<longleftrightarrow> n < 8"
proof -
  have "(0xFF :: int) = mask 8" by (simp add: mask_eq_exp_minus_1)
  then show ?thesis by (simp only: bit_mask_iff possible_bit_int simp_thms)
qed

lemma get_set_byte: "i < 4 \<Longrightarrow> get_byte i (set_byte i x w) = x"
  by (intro bit_word_eqI) (auto simp: get_byte_def set_byte_def bit_simps bit_byte dest: bit_imp_le_length)

lemma get_set_byte_other: "i < 4 \<Longrightarrow> j < 4 \<Longrightarrow> i \<noteq> j \<Longrightarrow> get_byte i (set_byte j x w) = get_byte i w"
proof (intro bit_word_eqI)
  fix n assume a: "i < 4" "j < 4" "i \<noteq> j" and "n < LENGTH(8)"
  then have n: "n < 8" by simp
  have "bit (push_bit (8 * j) (0xFF :: u32)) (8 * i + n) = False" "bit (push_bit (8 * j) (ucast x :: u32)) (8 * i + n) = False"
  proof -
    have "\<not> (8 * j \<le> 8 * i + n \<and> 8 * i + n < 8 * j + 8)" using a n by presburger
    then show "bit (push_bit (8 * j) (0xFF :: u32)) (8 * i + n) = False" "bit (push_bit (8 * j) (ucast x :: u32)) (8 * i + n) = False"
      by (auto simp: bit_simps bit_byte dest: bit_imp_le_length)
  qed
  then show "bit (get_byte i (set_byte j x w)) n = bit (get_byte i w) n"
    using a n by (auto simp: get_byte_def set_byte_def bit_simps)
qed

lemma byte_pos: "unat (a AND 3 :: u32) = unat a mod 4"
proof -
  have "(a AND 3 :: u32) = take_bit 2 a" by (simp add: take_bit_eq_mask mask_eq_exp_minus_1)
  then show ?thesis by (simp add: unsigned_take_bit_eq) (simp add: take_bit_eq_mod)
qed

lemma byte_parts: "n = n div 4096 * 4096 + n div 4 mod 1024 * 4 + n mod (4 :: nat)"
proof -
  have "n div 4 = n div 4096 * 1024 + n div 4 mod 1024"
    using div_mult_mod_eq [of "n div 4" 1024] by (simp add: div_mult2_eq [symmetric])
  moreover have "n = n div 4 * 4 + n mod 4" by simp
  ultimately show ?thesis by linarith
qed

lemma same_byte: "pfn a = pfn b \<Longrightarrow> word_idx a = word_idx b \<Longrightarrow> unat (a AND 3) = unat (b AND 3) \<Longrightarrow> a = b"
proof -
  assume "pfn a = pfn b" "word_idx a = word_idx b" "unat (a AND 3) = unat (b AND 3)"
  then have "unat a div 4096 = unat b div 4096" "unat a div 4 mod 1024 = unat b div 4 mod 1024" "unat a mod 4 = unat b mod 4"
    by (simp_all add: pfn_div word_idx_div byte_pos)
  then have "unat a = unat b" using byte_parts [of "unat a"] byte_parts [of "unat b"] by simp
  then show "a = b" by (simp add: word_unat_eq_iff)
qed

text \<open>The user pages: from 16 MB on every mapped page has a frame of its own, in use and no table.\<close>

definition user_ok :: "'a mm_scheme \<Rightarrow> bool" where
  "user_ok s \<longleftrightarrow> pt_ok s \<and> (\<forall>n \<ge> 4096. \<forall>e. pages s n = Some e \<longrightarrow> pfn e \<in> pmm_owned s - pt_frames s)
     \<and> (\<forall>n \<ge> 4096. \<forall>m \<ge> 4096. \<forall>e e'. pages s n = Some e \<longrightarrow> pages s m = Some e' \<longrightarrow> pfn e = pfn e' \<longrightarrow> n = m)"

lemma user_okD:
  assumes "user_ok s"
  shows "pt_ok s" "4096 \<le> n \<Longrightarrow> pages s n = Some e \<Longrightarrow> pfn e \<in> pmm_owned s - pt_frames s"
    "4096 \<le> n \<Longrightarrow> 4096 \<le> m \<Longrightarrow> pages s n = Some e \<Longrightarrow> pages s m = Some e' \<Longrightarrow> pfn e = pfn e' \<Longrightarrow> n = m"
  using assms unfolding user_ok_def by blast+

lemma page_frame_pages: "pt_ok s \<Longrightarrow> page_frame s v = map_option pfn (pages s (pfn v))"
  using pt_okD(2) [of s] by (simp add: page_frame_def walk_pages)

lemma rd8_pages:
  "pt_ok s \<Longrightarrow> rd8 s a = map_option (\<lambda>e. get_byte (unat (a AND 3)) (frames s (pfn e) (word_idx a))) (pages s (pfn a))"
  by (simp add: rd8_def page_frame_pages option.map_comp comp_def)

lemma wr8_ok:
  assumes ok: "user_ok s" and a: "4096 \<le> pfn a" "pages s (pfn a) \<noteq> None"
  shows "\<exists>s'. wr8 a x s = Some s' \<and> user_ok s' \<and> pages s' = pages s \<and> pmm_owned s' = pmm_owned s \<and> pmm_range s' = pmm_range s
     \<and> (\<forall>b. 4096 \<le> pfn b \<longrightarrow> rd8 s' b = (if b = a then Some x else rd8 s b))"
proof -
  from a(2) obtain e where e: "pages s (pfn a) = Some e" by auto
  note p = user_okD(1) [OF ok]
  have f: "pfn e \<notin> pt_frames s" using user_okD(2) [OF ok a(1) e] by simp
  let ?i = "unat (a AND 3)"
  define c where "c = (frames s (pfn e))(word_idx a := set_byte ?i x (frames s (pfn e) (word_idx a)))"
  define s' where "s' = s\<lparr>frames := (frames s)(pfn e := c)\<rparr>"
  note k = set_frame_ok [OF p f, of c, folded s'_def]
  have w: "wr8 a x s = Some s'" using page_frame_pages [OF p, of a] e by (simp add: wr8_def s'_def c_def set_word_def)
  have fs: "frames s' g = (if g = pfn e then c else frames s g)" for g by (simp add: s'_def)
  have u: "user_ok s'" using ok k unfolding user_ok_def by simp
  have "rd8 s' b = (if b = a then Some x else rd8 s b)" if b: "4096 \<le> pfn b" for b
  proof (cases "pages s (pfn b)")
    case None
    then show ?thesis using a(2) by (auto simp: rd8_pages [OF k(1)] rd8_pages [OF p] k(2))
  next
    case (Some e')
    show ?thesis
    proof (cases "pfn e' = pfn e \<and> word_idx b = word_idx a")
      case True
      then have "pfn b = pfn a" using user_okD(3) [OF ok b a(1) Some e] by simp
      moreover have lt: "unat (a AND 3) < 4" "unat (b AND 3) < 4" by (simp_all add: byte_pos)
      moreover have "unat (b AND 3) \<noteq> unat (a AND 3)" if "b \<noteq> a"
        using that same_byte [of b a] True calculation(1) by blast
      ultimately show ?thesis using Some True e
        by (auto simp: rd8_pages [OF k(1)] rd8_pages [OF p] k(2) fs c_def get_set_byte get_set_byte_other)
    next
      case False
      then have "b \<noteq> a" using Some e by auto
      then show ?thesis using Some False by (auto simp: rd8_pages [OF k(1)] rd8_pages [OF p] k(2) fs c_def)
    qed
  qed
  then show ?thesis using w u k(2,4,5) by blast
qed

text \<open>A range of addresses that does not wrap.\<close>

lemma copy_out_ok:
  assumes "user_ok s" "unat a + length xs \<le> 2 ^ 32" "0x1000000 \<le> unat a"
    and "\<And>b. unat a \<le> unat b \<Longrightarrow> unat b < unat a + length xs \<Longrightarrow> pages s (pfn b) \<noteq> None"
  shows "\<exists>s'. copy_out a xs s = Some s' \<and> user_ok s' \<and> pages s' = pages s \<and> pmm_owned s' = pmm_owned s \<and> pmm_range s' = pmm_range s
     \<and> (\<forall>b. 4096 \<le> pfn b \<longrightarrow> rd8 s' b = (if unat a \<le> unat b \<and> unat b < unat a + length xs then Some (xs ! (unat b - unat a)) else rd8 s b))"
  using assms
proof (induction xs arbitrary: a s)
  case (Cons x xs)
  have pa: "4096 \<le> pfn a" using Cons.prems(3) by (simp add: pfn_div)
  obtain s1 where s1: "wr8 a x s = Some s1" "user_ok s1" "pages s1 = pages s" "pmm_owned s1 = pmm_owned s" "pmm_range s1 = pmm_range s"
    "\<And>b. 4096 \<le> pfn b \<Longrightarrow> rd8 s1 b = (if b = a then Some x else rd8 s b)"
    using wr8_ok [OF Cons.prems(1) pa, of x] Cons.prems(4) [of a] by auto
  show ?case
  proof (cases "xs = []")
    case True
    have "rd8 s1 b = (if unat a \<le> unat b \<and> unat b < unat a + length (x # xs) then Some ((x # xs) ! (unat b - unat a)) else rd8 s b)"
      if "4096 \<le> pfn b" for b
    proof (cases "b = a")
      case False
      then have "unat b \<noteq> unat a" by (simp add: word_unat_eq_iff)
      then show ?thesis using s1(6) [OF that] False True by auto
    qed (use s1(6) [OF that] in simp)
    then show ?thesis using s1 True by auto
  next
    case False
    have n: "unat (a + 1) = unat a + 1" using Cons.prems(2) False by (cases xs) (simp_all add: unat_word_ariths)
    have "\<exists>s'. copy_out (a + 1) xs s1 = Some s' \<and> user_ok s' \<and> pages s' = pages s1 \<and> pmm_owned s' = pmm_owned s1 \<and> pmm_range s' = pmm_range s1
       \<and> (\<forall>b. 4096 \<le> pfn b \<longrightarrow> rd8 s' b = (if unat (a + 1) \<le> unat b \<and> unat b < unat (a + 1) + length xs then Some (xs ! (unat b - unat (a + 1))) else rd8 s1 b))"
      by (rule Cons.IH [OF s1(2)]) (use Cons.prems n s1(3) in auto)
    from this [unfolded n s1(3,4,5)] obtain s' where s': "copy_out (a + 1) xs s1 = Some s'" "user_ok s'" "pages s' = pages s" "pmm_owned s' = pmm_owned s" "pmm_range s' = pmm_range s"
      "\<And>b. 4096 \<le> pfn b \<Longrightarrow> rd8 s' b = (if unat a + 1 \<le> unat b \<and> unat b < unat a + 1 + length xs then Some (xs ! (unat b - (unat a + 1))) else rd8 s1 b)"
      by blast
    have "rd8 s' b = (if unat a \<le> unat b \<and> unat b < unat a + length (x # xs) then Some ((x # xs) ! (unat b - unat a)) else rd8 s b)"
      if b: "4096 \<le> pfn b" for b
    proof (cases "b = a")
      case False
      then have "unat b \<noteq> unat a" by (simp add: word_unat_eq_iff)
      moreover have "(x # xs) ! (unat b - unat a) = xs ! (unat b - (unat a + 1))" if "unat a + 1 \<le> unat b"
        using that by (simp add: nth_Cons' )
      ultimately show ?thesis using s'(6) [OF b] s1(6) [OF b] False by auto
    qed (use s'(6) [OF b] s1(6) [OF b] in simp)
    then show ?thesis using s1(1) s' by auto
  qed
qed auto

section \<open>New pages\<close>

lemma finite_range: "finite (pmm_range s - X)"
  by (simp add: pmm_range_def)

text \<open>What may happen to user memory while pages are added: what was mapped keeps its bytes.\<close>

definition extends :: "'a mm_scheme \<Rightarrow> 'a mm_scheme \<Rightarrow> bool" where
  "extends s s' \<longleftrightarrow> (\<forall>n. pages s n \<noteq> None \<longrightarrow> pages s' n \<noteq> None)
     \<and> (\<forall>b. 4096 \<le> pfn b \<longrightarrow> pages s (pfn b) \<noteq> None \<longrightarrow> rd8 s' b = rd8 s b)"

lemma extends_refl: "extends s s"
  by (simp add: extends_def)

lemma extends_trans: "extends s s1 \<Longrightarrow> extends s1 s2 \<Longrightarrow> extends s s2"
  by (simp add: extends_def)

lemma get_byte_0: "get_byte i 0 = 0"
  by (simp add: get_byte_def)

lemma pfn_user_entry: "f < 4096 \<Longrightarrow> pfn (((of_nat f * 4096) AND NOT 0xFFF) OR PAGE_PRESENT OR PAGE_USER OR PAGE_WRITE) = f"
  unfolding not_FFF by (simp add: pfn_or_flags PAGE_PRESENT_def PAGE_WRITE_def PAGE_USER_def)

lemma user_page:
  assumes ok: "user_ok s" and fr: "2 \<le> free_frames s" and v: "4096 \<le> pfn v" "pages s (pfn v) = None"
  shows "\<exists>a s1 s2 s3. pmm_alloc s = (a, s1) \<and> a \<noteq> 0 \<and> zero_page a s1 = Some s2
     \<and> paging_map v a (PAGE_USER OR PAGE_WRITE) s2 = Some s3 \<and> user_ok s3 \<and> extends s s3
     \<and> (\<forall>n. pages s3 n \<noteq> None \<longleftrightarrow> pages s n \<noteq> None \<or> n = pfn v)
     \<and> (\<forall>b. pfn b = pfn v \<longrightarrow> rd8 s3 b = Some 0) \<and> free_frames s \<le> free_frames s3 + 2"
proof -
  note p = user_okD(1) [OF ok]
  obtain f s1 where f: "pmm_alloc s = (of_nat f * 4096, s1)" "f < 4096" "f \<noteq> 0" "f \<in> pmm_range s - pmm_owned s - pt_frames s" "pt_ok s1"
      "pages s1 = pages s" "pt_frames s1 = pt_frames s" "pmm_owned s1 = insert f (pmm_owned s)" "pmm_range s1 = pmm_range s" "frames s1 = frames s"
    using pt_ok_alloc [OF p free_frames_pos [of s]] fr by (auto simp: grows_def)
  have nz: "(of_nat f * 4096 :: u32) \<noteq> 0"
    using f(2,3) by (simp add: word_unat_eq_iff page_addr)
  obtain e where e: "pages s1 f = Some e" "pfn e = f" using pt_okD(5) [OF f(5,2)] by blast
  have pf: "pfn (of_nat f * 4096 :: u32) = f" using f(2) by simp
  have "f \<notin> pt_frames s1" using f(4,7) by simp
  from zero_data_ok [OF f(5), of "of_nat f * 4096" e] this e pf obtain s2 where
    s2: "zero_page (of_nat f * 4096) s1 = Some s2" "pt_ok s2" "pages s2 = pages s1" "pt_frames s2 = pt_frames s1" "pmm_owned s2 = pmm_owned s1"
      "pmm_range s2 = pmm_range s1" "frames s2 = (frames s1)(f := (\<lambda>_. 0))" by auto
  have c1: "card (pmm_range s - pmm_owned s1) = free_frames s - 1"
  proof -
    have "pmm_range s - pmm_owned s1 = (pmm_range s - pmm_owned s) - {f}" unfolding f(8) by auto
    then show ?thesis using f(4) by (simp add: free_frames_def)
  qed
  then have "pmm_owned s2 \<noteq> pmm_range s2" using fr f(9) s2(5,6) by auto
  then have "can_map s2 v" by (simp add: can_map_def)
  let ?fl = "PAGE_USER OR PAGE_WRITE"
  let ?e = "((of_nat f * 4096) AND NOT 0xFFF) OR PAGE_PRESENT OR ?fl"
  from paging_map_ok [OF s2(2) \<open>can_map s2 v\<close> v(1), of "of_nat f * 4096" ?fl] obtain s3 h where
    s3: "paging_map v (of_nat f * 4096) ?fl s2 = Some s3" "pt_ok s3" "pages s3 = (pages s2)(pfn v \<mapsto> ?e)" "data_kept s2 s3"
      "pmm_owned s3 \<subseteq> insert h (pmm_owned s2)" by blast
  have pe: "pfn ?e = f" by (rule pfn_user_entry [OF f(2)])
  have own: "pmm_owned s2 \<subseteq> pmm_owned s3" "pt_frames s3 \<subseteq> pt_frames s2 \<union> (pmm_owned s3 - pmm_owned s2)" "pmm_range s3 = pmm_range s2"
    and fr3: "\<And>g. g \<notin> pt_frames s3 \<Longrightarrow> frames s3 g = frames s2 g" using s3(4) by (auto simp: data_kept_def)
  have old: "g \<in> pmm_owned s3 - pt_frames s3 \<and> g \<noteq> f \<and> frames s3 g = frames s g" if "g \<in> pmm_owned s - pt_frames s" for g
  proof -
    have "g \<in> pmm_owned s3" "g \<notin> pt_frames s3" "g \<noteq> f" using that own(1,2) f(4,7,8) s2(4,5) by auto
    then show ?thesis using fr3 [of g] by (simp add: s2(7) f(10))
  qed
  have new: "f \<in> pmm_owned s3 - pt_frames s3" "frames s3 f = (\<lambda>_. 0)"
    using own f(4,7,8) s2(4,5) fr3 [of f] by (auto simp: s2(7))
  have pg: "pages s3 = (pages s)(pfn v \<mapsto> ?e)" using s3(3) s2(3) f(6) by simp
  have "user_ok s3"
    unfolding user_ok_def
  proof (intro conjI allI impI)
    show "pfn e \<in> pmm_owned s3 - pt_frames s3" if "4096 \<le> n" "pages s3 n = Some e" for n e
      using that old [of "pfn e"] new(1) user_okD(2) [OF ok that(1)] pe unfolding pg by (auto split: if_splits)
    show "n = m" if nm: "4096 \<le> n" "4096 \<le> m" "pages s3 n = Some x" "pages s3 m = Some y" "pfn x = pfn y" for n m x y
    proof -
      have pv: "pages s3 (pfn v) = Some ?e" by (simp add: pg)
      have old_page: "pages s z = Some u" if "pages s3 z = Some u" "z \<noteq> pfn v" for z u using that by (simp add: pg)
      have only: "z = pfn v" if z: "4096 \<le> z" "pages s3 z = Some u" "pfn u = f" for z u
      proof (rule ccontr)
        assume "z \<noteq> pfn v"
        then have "f \<in> pmm_owned s" using user_okD(2) [OF ok z(1) old_page [OF z(2)]] z(3) by simp
        then show False using f(4) by simp
      qed
      show ?thesis
      proof (cases "n = pfn v \<or> m = pfn v")
        case True
        then have "pfn x = f" "pfn y = f" using nm(3,4,5) pv pe by auto
        then show ?thesis using only [OF nm(1,3)] only [OF nm(2,4)] by simp
      next
        case False
        then show ?thesis using user_okD(3) [OF ok nm(1,2) old_page [OF nm(3)] old_page [OF nm(4)] nm(5)] by simp
      qed
    qed
  qed (fact s3(2))
  moreover have "extends s s3"
    unfolding extends_def
  proof (intro conjI allI impI)
    show "pages s3 n \<noteq> None" if "pages s n \<noteq> None" for n using that by (simp add: pg)
    show "rd8 s3 b = rd8 s b" if b: "4096 \<le> pfn b" "pages s (pfn b) \<noteq> None" for b
    proof -
      from b(2) obtain u where u: "pages s (pfn b) = Some u" by auto
      then have "pages s3 (pfn b) = Some u" using v(2) by (auto simp: pg)
      then show ?thesis using u old [of "pfn u"] user_okD(2) [OF ok b(1) u] by (simp add: rd8_pages [OF s3(2)] rd8_pages [OF p])
    qed
  qed
  moreover have "rd8 s3 b = Some 0" if "pfn b = pfn v" for b
    using that new(2) pe by (simp add: rd8_pages [OF s3(2)] pg get_byte_0)
  moreover have "free_frames s \<le> free_frames s3 + 2"
  proof -
    have "pmm_range s - pmm_owned s1 - {h} \<subseteq> pmm_range s3 - pmm_owned s3" using s3(5) own(3) s2(5,6) f(9) by auto
    then have "card (pmm_range s - pmm_owned s1 - {h}) \<le> free_frames s3"
      unfolding free_frames_def by (intro card_mono finite_range)
    moreover have "card (pmm_range s - pmm_owned s1) - 1 \<le> card (pmm_range s - pmm_owned s1 - {h})"
      by (simp add: card_Diff_singleton_if)
    ultimately show ?thesis using c1 by simp
  qed
  ultimately show ?thesis using f(1) nz s2(1) s3(1) by (auto simp: pg)
qed

lemma map_user_ok:
  assumes "user_ok s" "2 * (N - k) \<le> free_frames s" "k \<le> N" "4096 \<le> k" "N < 1048576"
  shows "\<exists>s'. map_user (of_nat N * 4096) (of_nat k * 4096) s = Some (True, s') \<and> user_ok s' \<and> extends s s'
     \<and> (\<forall>n. pages s' n \<noteq> None \<longleftrightarrow> pages s n \<noteq> None \<or> k \<le> n \<and> n < N)
     \<and> (\<forall>b. k \<le> pfn b \<longrightarrow> pfn b < N \<longrightarrow> pages s (pfn b) = None \<longrightarrow> rd8 s' b = Some 0)
     \<and> free_frames s \<le> free_frames s' + 2 * (N - k)"
  using assms(1-4)
proof (induction "N - k" arbitrary: k s)
  case 0
  then have "k = N" by simp
  with 0 show ?case by (subst map_user.simps) (auto simp: extends_refl)
next
  case (Suc d)
  have lt: "(of_nat k * 4096 :: u32) < of_nat N * 4096" using Suc.hyps(2) assms(5) by (simp add: word_less_nat_alt page_addr)
  have pk: "pfn (of_nat k * 4096 :: u32) = k" using Suc.hyps(2) assms(5) by (intro pfn_of_frame) simp
  have nxt: "(of_nat k * 4096 + PAGE_SIZE :: u32) = of_nat (Suc k) * 4096" by (simp add: PAGE_SIZE_def algebra_simps)
  have m: "paging_is_mapped (of_nat k * 4096) s = Some (pages s k \<noteq> None)"
    using pte_val_pages [OF user_okD(1) [OF Suc.prems(1)], of "of_nat k * 4096"] pk by (simp add: paging_is_mapped_def)
  have d: "d = N - Suc k" "Suc k \<le> N" "4096 \<le> Suc k" using Suc.hyps(2) Suc.prems by simp_all
  show ?case
  proof (cases "pages s k = None")
    case False
    have "2 * (N - Suc k) \<le> free_frames s" using Suc.prems(2) by simp
    from Suc.hyps(1) [OF d(1) Suc.prems(1) this d(2,3)] obtain s' where
      s': "map_user (of_nat N * 4096) (of_nat (Suc k) * 4096) s = Some (True, s')" "user_ok s'" "extends s s'"
        "\<And>n. pages s' n \<noteq> None \<longleftrightarrow> pages s n \<noteq> None \<or> Suc k \<le> n \<and> n < N"
        "\<And>b. Suc k \<le> pfn b \<Longrightarrow> pfn b < N \<Longrightarrow> pages s (pfn b) = None \<Longrightarrow> rd8 s' b = Some 0"
        "free_frames s \<le> free_frames s' + 2 * (N - Suc k)" by blast
    have "map_user (of_nat N * 4096) (of_nat k * 4096) s = Some (True, s')"
      using lt m False s'(1) by (subst map_user.simps) (simp add: nxt)
    moreover have "pages s' n \<noteq> None \<longleftrightarrow> pages s n \<noteq> None \<or> k \<le> n \<and> n < N" for n using s'(4) [of n] False d(2) by (cases "n = k") auto
    moreover have "rd8 s' b = Some 0" if "k \<le> pfn b" "pfn b < N" "pages s (pfn b) = None" for b
      using s'(5) [of b] that False by (cases "pfn b = k") auto
    ultimately show ?thesis using s'(2,3,6) by auto
  next
    case True
    obtain a s1 s2 s3 where st: "pmm_alloc s = (a, s1)" "a \<noteq> 0" "zero_page a s1 = Some s2"
        "paging_map (of_nat k * 4096) a (PAGE_USER OR PAGE_WRITE) s2 = Some s3" "user_ok s3" "extends s s3"
        "\<And>n. pages s3 n \<noteq> None \<longleftrightarrow> pages s n \<noteq> None \<or> n = k" "\<And>b. pfn b = k \<Longrightarrow> rd8 s3 b = Some 0" "free_frames s \<le> free_frames s3 + 2"
      using user_page [OF Suc.prems(1), of "of_nat k * 4096"] Suc.prems(2,4) Suc.hyps(2) True unfolding pk by auto
    have "2 * (N - Suc k) \<le> free_frames s3" using Suc.prems(2) st(9) Suc.hyps(2) by simp
    from Suc.hyps(1) [OF d(1) st(5) this d(2,3)] obtain s' where
      s': "map_user (of_nat N * 4096) (of_nat (Suc k) * 4096) s3 = Some (True, s')" "user_ok s'" "extends s3 s'"
        "\<And>n. pages s' n \<noteq> None \<longleftrightarrow> pages s3 n \<noteq> None \<or> Suc k \<le> n \<and> n < N"
        "\<And>b. Suc k \<le> pfn b \<Longrightarrow> pfn b < N \<Longrightarrow> pages s3 (pfn b) = None \<Longrightarrow> rd8 s' b = Some 0"
        "free_frames s3 \<le> free_frames s' + 2 * (N - Suc k)" by blast
    have "map_user (of_nat N * 4096) (of_nat k * 4096) s = Some (True, s')"
      using lt m True st(1-4) s'(1) by (subst map_user.simps) (simp add: nxt)
    moreover have "pages s' n \<noteq> None \<longleftrightarrow> pages s n \<noteq> None \<or> k \<le> n \<and> n < N" for n using s'(4) [of n] st(7) [of n] d(2) by auto
    moreover have "rd8 s' b = Some 0" if b: "k \<le> pfn b" "pfn b < N" "pages s (pfn b) = None" for b
    proof (cases "pfn b = k")
      case True
      then show ?thesis using s'(3) st(7) [of k] st(8) [of b] Suc.prems(4) unfolding extends_def by auto
    next
      case False
      then show ?thesis using s'(5) [of b] st(7) [of "pfn b"] b by auto
    qed
    moreover have "free_frames s \<le> free_frames s' + 2 * (N - k)" using s'(6) st(9) Suc.hyps(2) by simp
    ultimately show ?thesis using s'(2) extends_trans [OF st(6) s'(3)] by auto
  qed
qed

section \<open>One segment\<close>

text \<open>A segment above 16 MB that lies in the user area and in the file.\<close>

definition good_seg :: "bytes \<Rightarrow> u32 \<Rightarrow> elf32_phdr_t \<Rightarrow> bool" where
  "good_seg data bufsz ph \<longleftrightarrow> ph_type ph = PT_LOAD \<and> 0 < unat (ph_memsz ph) \<and> 0x1000000 \<le> unat (ph_vaddr ph)
     \<and> unat (ph_vaddr ph) + unat (ph_memsz ph) \<le> 0xC0000000 \<and> ph_filesz ph \<le> ph_memsz ph
     \<and> unat (ph_offset ph) + unat (ph_filesz ph) \<le> unat bufsz \<and> unat bufsz \<le> length data"

definition in_seg :: "elf32_phdr_t \<Rightarrow> u32 \<Rightarrow> bool" where
  "in_seg ph b \<longleftrightarrow> unat (ph_vaddr ph) \<le> unat b \<and> unat b < unat (ph_vaddr ph) + unat (ph_memsz ph)"

text \<open>The byte that a segment defines at an address: from the file, and zero behind the file part.\<close>

definition seg_byte :: "bytes \<Rightarrow> elf32_phdr_t \<Rightarrow> u32 \<Rightarrow> u8" where
  "seg_byte data ph b =
     (let i = unat b - unat (ph_vaddr ph) in if i < unat (ph_filesz ph) then data ! (unat (ph_offset ph) + i) else 0)"

definition seg_pages :: "elf32_phdr_t \<Rightarrow> nat" where
  "seg_pages ph = (unat (ph_vaddr ph) + unat (ph_memsz ph) + 4095) div 4096 - pfn (ph_vaddr ph)"

lemma unat_add_small: "unat (a :: u32) + unat b < 2 ^ 32 \<Longrightarrow> unat (a + b) = unat a + unat b"
  by (simp add: unat_word_ariths)

lemma fill_segment_ok:
  assumes ok: "user_ok s" and g: "good_seg data bufsz ph" and mp: "\<And>b. in_seg ph b \<Longrightarrow> pages s (pfn b) \<noteq> None"
  shows "\<exists>s'. fill_segment data bufsz ph s = Some s' \<and> user_ok s' \<and> pages s' = pages s \<and> pmm_owned s' = pmm_owned s \<and> pmm_range s' = pmm_range s
     \<and> (\<forall>b. 4096 \<le> pfn b \<longrightarrow> rd8 s' b = (if in_seg ph b then Some (seg_byte data ph b) else rd8 s b))"
proof -
  let ?v = "unat (ph_vaddr ph)" and ?f = "unat (ph_filesz ph)" and ?m = "unat (ph_memsz ph)" and ?o = "unat (ph_offset ph)"
  have l: "?v + ?m \<le> 0xC0000000" "?f \<le> ?m" "?o + ?f \<le> length data" "0x1000000 \<le> ?v" "?o + ?f < 2 ^ 32"
    using g unat_u32_lt [of bufsz] by (auto simp: good_seg_def word_le_nat_alt)
  have "\<not> ph_offset ph + ph_filesz ph > bufsz"
    using g l(5) unat_add_small [of "ph_offset ph" "ph_filesz ph"] by (simp add: good_seg_def word_less_nat_alt)
  moreover have "slice data ?o ?f = Some (take ?f (drop ?o data))" using l(3) by (simp add: slice_def)
  ultimately have copy: "(if ph_filesz ph > 0 then do {
        let src_off = ph_offset ph;
        let copy = (if src_off + ph_filesz ph > bufsz then bufsz - src_off else ph_filesz ph);
        b \<leftarrow> slice data (unat src_off) (unat copy);
        copy_out (ph_vaddr ph) b s } else Some s) = copy_out (ph_vaddr ph) (take ?f (drop ?o data)) s"
    by (auto simp: Let_def word_gt_0 unat_eq_zero)
  have len: "length (take ?f (drop ?o data)) = ?f" using l(3) by simp
  have "\<exists>s1. copy_out (ph_vaddr ph) (take ?f (drop ?o data)) s = Some s1 \<and> user_ok s1 \<and> pages s1 = pages s \<and> pmm_owned s1 = pmm_owned s
      \<and> pmm_range s1 = pmm_range s \<and> (\<forall>b. 4096 \<le> pfn b \<longrightarrow> rd8 s1 b = (if ?v \<le> unat b \<and> unat b < ?v + length (take ?f (drop ?o data))
           then Some (take ?f (drop ?o data) ! (unat b - ?v)) else rd8 s b))"
    by (rule copy_out_ok [OF ok]) (use l mp in \<open>auto simp: len in_seg_def\<close>)
  from this [unfolded len] obtain s1 where s1: "copy_out (ph_vaddr ph) (take ?f (drop ?o data)) s = Some s1" "user_ok s1" "pages s1 = pages s"
      "pmm_owned s1 = pmm_owned s" "pmm_range s1 = pmm_range s"
      "\<And>b. 4096 \<le> pfn b \<Longrightarrow> rd8 s1 b = (if ?v \<le> unat b \<and> unat b < ?v + ?f then Some (take ?f (drop ?o data) ! (unat b - ?v)) else rd8 s b)"
    by blast
  have vf: "unat (ph_vaddr ph + ph_filesz ph) = ?v + ?f" using l by (intro unat_add_small) simp
  have mf: "unat (ph_memsz ph - ph_filesz ph) = ?m - ?f" using l(2) by (simp add: unat_sub word_le_nat_alt)
  let ?z = "replicate (?m - ?f) (0 :: u8)"
  have "\<exists>s2. copy_out (ph_vaddr ph + ph_filesz ph) ?z s1 = Some s2 \<and> user_ok s2 \<and> pages s2 = pages s1 \<and> pmm_owned s2 = pmm_owned s1
      \<and> pmm_range s2 = pmm_range s1 \<and> (\<forall>b. 4096 \<le> pfn b \<longrightarrow> rd8 s2 b = (if unat (ph_vaddr ph + ph_filesz ph) \<le> unat b
           \<and> unat b < unat (ph_vaddr ph + ph_filesz ph) + length ?z then Some (?z ! (unat b - unat (ph_vaddr ph + ph_filesz ph))) else rd8 s1 b))"
    by (rule copy_out_ok [OF s1(2)]) (use l mp s1(3) in \<open>auto simp: vf in_seg_def\<close>)
  from this [unfolded vf length_replicate s1(3,4,5)] obtain s2 where s2: "copy_out (ph_vaddr ph + ph_filesz ph) ?z s1 = Some s2" "user_ok s2"
      "pages s2 = pages s" "pmm_owned s2 = pmm_owned s" "pmm_range s2 = pmm_range s"
      "\<And>b. 4096 \<le> pfn b \<Longrightarrow> rd8 s2 b = (if ?v + ?f \<le> unat b \<and> unat b < ?v + ?f + (?m - ?f) then Some (?z ! (unat b - (?v + ?f))) else rd8 s1 b)"
    by blast
  have "fill_segment data bufsz ph s = Some s2"
  proof (cases "ph_memsz ph > ph_filesz ph")
    case True
    then show ?thesis unfolding fill_segment_def copy using s1(1) s2(1) mf by simp
  next
    case False
    then have "?m - ?f = 0" using l(2) by (simp add: word_less_nat_alt)
    then have "s2 = s1" using s2(1) by simp
    then show ?thesis unfolding fill_segment_def copy using s1(1) False by simp
  qed
  moreover have "rd8 s2 b = (if in_seg ph b then Some (seg_byte data ph b) else rd8 s b)" if b: "4096 \<le> pfn b" for b
  proof -
    consider "unat b < ?v \<or> ?v + ?m \<le> unat b" | "?v \<le> unat b" "unat b < ?v + ?f" | "?v + ?f \<le> unat b" "unat b < ?v + ?m" by linarith
    then show ?thesis
    proof cases
      case 1
      then show ?thesis using s2(6) [OF b] s1(6) [OF b] l(2) by (auto simp: in_seg_def)
    next
      case 2
      then have "take ?f (drop ?o data) ! (unat b - ?v) = data ! (?o + (unat b - ?v))" using l(3) by simp
      then show ?thesis using 2 s2(6) [OF b] s1(6) [OF b] l(2) by (auto simp: in_seg_def seg_byte_def Let_def)
    next
      case 3
      then show ?thesis using s2(6) [OF b] by (auto simp: in_seg_def seg_byte_def Let_def)
    qed
  qed
  ultimately show ?thesis using s2 by auto
qed

text \<open>What loading a segment does to the result and to memory.\<close>

definition note_seg :: "elf32_phdr_t \<Rightarrow> elf_load_result_t \<Rightarrow> elf_load_result_t" where
  "note_seg ph res = res\<lparr>er_load_base := min (er_load_base res) (ph_vaddr ph), er_load_end := max (er_load_end res) (ph_vaddr ph + ph_memsz ph)\<rparr>"

definition holds_seg :: "bytes \<Rightarrow> 'a mm_scheme \<Rightarrow> elf32_phdr_t \<Rightarrow> bool" where
  "holds_seg data s ph \<longleftrightarrow> (\<forall>b. in_seg ph b \<longrightarrow> rd8 s b = Some (seg_byte data ph b))"

definition keeps :: "(u32 \<Rightarrow> bool) \<Rightarrow> 'a mm_scheme \<Rightarrow> 'a mm_scheme \<Rightarrow> bool" where
  "keeps X s s' \<longleftrightarrow> (\<forall>n. pages s n \<noteq> None \<longrightarrow> pages s' n \<noteq> None)
     \<and> (\<forall>b. 4096 \<le> pfn b \<longrightarrow> pages s (pfn b) \<noteq> None \<longrightarrow> \<not> X b \<longrightarrow> rd8 s' b = rd8 s b)"

lemma load_segment_ok:
  assumes ok: "user_ok s" and g: "good_seg data bufsz ph" and fr: "2 * seg_pages ph \<le> free_frames s"
  shows "\<exists>s'. load_segment data bufsz ph (res, s) = Some (True, note_seg ph res, s') \<and> user_ok s' \<and> holds_seg data s' ph
     \<and> keeps (in_seg ph) s s' \<and> free_frames s \<le> free_frames s' + 2 * seg_pages ph"
proof -
  let ?v = "unat (ph_vaddr ph)" and ?m = "unat (ph_memsz ph)"
  have l: "?v + ?m \<le> 0xC0000000" "0x1000000 \<le> ?v" "0 < ?m" using g by (auto simp: good_seg_def)
  let ?N = "(?v + ?m + 4095) div 4096" and ?k = "pfn (ph_vaddr ph)"
  have vm: "unat (ph_vaddr ph + ph_memsz ph) = ?v + ?m" using l by (intro unat_add_small) simp
  have al: "PAGE_ALIGN (ph_vaddr ph + ph_memsz ph) = of_nat ?N * 4096" using PAGE_ALIGN_val [of "ph_vaddr ph + ph_memsz ph"] l(1) vm by simp
  have N: "?N < 1048576" "?k \<le> ?N" "4096 \<le> ?k" using l by (auto simp: pfn_div intro: div_le_mono)
  from map_user_ok [OF ok, of ?N ?k] N fr obtain s1 where
    s1: "map_user (of_nat ?N * 4096) (of_nat ?k * 4096) s = Some (True, s1)" "user_ok s1" "extends s s1"
      "\<And>n. pages s1 n \<noteq> None \<longleftrightarrow> pages s n \<noteq> None \<or> ?k \<le> n \<and> n < ?N" "free_frames s \<le> free_frames s1 + 2 * (?N - ?k)"
    unfolding seg_pages_def by auto
  have inr: "?k \<le> pfn b \<and> pfn b < ?N" if "in_seg ph b" for b
    using that unfolding in_seg_def pfn_div by (auto intro: div_le_mono)
  from fill_segment_ok [OF s1(2) g] s1(4) inr obtain s2 where
    s2: "fill_segment data bufsz ph s1 = Some s2" "user_ok s2" "pages s2 = pages s1" "pmm_owned s2 = pmm_owned s1" "pmm_range s2 = pmm_range s1"
      "\<And>b. 4096 \<le> pfn b \<Longrightarrow> rd8 s2 b = (if in_seg ph b then Some (seg_byte data ph b) else rd8 s1 b)" by auto
  have guards: "ph_type ph = PT_LOAD" "ph_memsz ph \<noteq> 0" "\<not> ph_vaddr ph < 0x100000" "\<not> ph_vaddr ph \<ge> 0xC0000000" "\<not> ph_vaddr ph < 0x500000"
    using g l by (auto simp: good_seg_def word_less_nat_alt word_le_nat_alt)
  have "load_segment data bufsz ph (res, s) = Some (True, note_seg ph res, s2)"
    unfolding load_segment_def mask_frame al using guards s1(1) s2(1)
    by (auto simp: Let_def note_seg_def min_def max_def)
  moreover have "holds_seg data s2 ph"
    unfolding holds_seg_def
  proof (intro allI impI)
    fix b assume b: "in_seg ph b"
    then have "4096 \<le> pfn b" using inr N(3) le_trans by blast
    then show "rd8 s2 b = Some (seg_byte data ph b)" using s2(6) b by simp
  qed
  moreover have "keeps (in_seg ph) s s2" using s1(3) s2(3,6) by (simp add: keeps_def extends_def)
  moreover have "free_frames s \<le> free_frames s2 + 2 * seg_pages ph" using s1(5) s2(4,5) by (simp add: free_frames_def seg_pages_def)
  ultimately show ?thesis using s2(2) by blast
qed

section \<open>A whole image\<close>

definition seg_at :: "bytes \<Rightarrow> elf32_hdr_t \<Rightarrow> nat \<Rightarrow> elf32_phdr_t" where
  "seg_at data hdr i = phdr_of (take 32 (drop (unat (eh_phoff hdr) + i * unat (eh_phentsize hdr)) data))"

definition loads :: "bytes \<Rightarrow> elf32_hdr_t \<Rightarrow> nat list \<Rightarrow> elf32_phdr_t list" where
  "loads data hdr is = filter (\<lambda>ph. ph_type ph = PT_LOAD) (map (seg_at data hdr) is)"

definition apart :: "elf32_phdr_t \<Rightarrow> elf32_phdr_t \<Rightarrow> bool" where
  "apart p q \<longleftrightarrow> (\<forall>b. \<not> (in_seg p b \<and> in_seg q b))"

lemma keeps_trans: "keeps X s s1 \<Longrightarrow> keeps Y s1 s2 \<Longrightarrow> keeps (\<lambda>b. X b \<or> Y b) s s2"
  by (simp add: keeps_def)

lemma keeps_refl: "keeps X s s"
  by (simp add: keeps_def)

lemma holds_seg_keeps:
  assumes "user_ok s" "holds_seg data s ph" "good_seg data bufsz ph" "keeps X s s'" "\<And>b. in_seg ph b \<Longrightarrow> \<not> X b"
  shows "holds_seg data s' ph"
  unfolding holds_seg_def
proof (intro allI impI)
  fix b assume b: "in_seg ph b"
  then have r: "rd8 s b = Some (seg_byte data ph b)" using assms(2) by (simp add: holds_seg_def)
  then have "pages s (pfn b) \<noteq> None" using user_okD(1) [OF assms(1)] by (auto simp: rd8_pages)
  moreover have "0x1000000 \<le> unat b" using b assms(3) by (simp add: in_seg_def good_seg_def)
  then have "4096 \<le> pfn b" by (simp add: pfn_div)
  ultimately show "rd8 s' b = Some (seg_byte data ph b)" using assms(4,5) b r by (simp add: keeps_def)
qed

lemma load_loop_step:
  assumes "unat bufsz \<le> length data" "unat bufsz < 2 ^ 31" "unat (eh_phoff hdr) + i * unat (eh_phentsize hdr) + 32 \<le> unat bufsz"
  shows "load_loop data bufsz hdr (i # is) rs =
    do { (go, rs1) \<leftarrow> load_segment data bufsz (seg_at data hdr i) rs; if go then load_loop data bufsz hdr is rs1 else Some (False, rs1) }"
proof -
  let ?off = "unat (eh_phoff hdr) + i * unat (eh_phentsize hdr)"
  have "unat (of_nat (i * unat (eh_phentsize hdr)) :: u32) = i * unat (eh_phentsize hdr)"
    using assms(2,3) by (simp add: unat_of_nat take_bit_eq_mod del: of_nat_mult)
  then have off: "unat (eh_phoff hdr + of_nat (i * unat (eh_phentsize hdr))) = ?off"
    using unat_add_small [of "eh_phoff hdr" "of_nat (i * unat (eh_phentsize hdr))"] assms(2,3) by (simp del: of_nat_mult)
  define a where "a = eh_phoff hdr + (of_nat (i * unat (eh_phentsize hdr)) :: u32)"
  have a: "ph_addr hdr i = Some a" "unat a = ?off" using assms(2,3) off by (simp_all add: ph_addr_def a_def del: of_nat_mult)
  have "unat (a + 32) = ?off + 32" using a(2) assms(2,3) unat_add_small [of a 32] by simp
  then have "\<not> a + 32 > bufsz" "slice data (unat a) 32 = Some (take 32 (drop ?off data))"
    using a assms(1,3) by (simp_all add: word_less_nat_alt slice_def)
  then show ?thesis using a(1) by (simp add: seg_at_def)
qed

lemma load_loop_ok:
  assumes "user_ok s" and "unat bufsz \<le> length data" "unat bufsz < 2 ^ 31"
    and "\<forall>i \<in> set is. unat (eh_phoff hdr) + i * unat (eh_phentsize hdr) + 32 \<le> unat bufsz"
    and "\<forall>ph \<in> set (loads data hdr is). good_seg data bufsz ph" "sorted_wrt apart (loads data hdr is)"
    and "2 * sum_list (map seg_pages (loads data hdr is)) \<le> free_frames s"
  shows "\<exists>s'. load_loop data bufsz hdr is (res, s) = Some (True, fold note_seg (loads data hdr is) res, s') \<and> user_ok s'
     \<and> (\<forall>ph \<in> set (loads data hdr is). holds_seg data s' ph) \<and> keeps (\<lambda>b. \<exists>ph \<in> set (loads data hdr is). in_seg ph b) s s'"
  using assms
proof (induction "is" arbitrary: res s)
  case Nil
  then show ?case by (simp add: loads_def keeps_refl)
next
  case (Cons i "is")
  let ?ph = "seg_at data hdr i"
  note step = load_loop_step [OF Cons.prems(2,3), of hdr i "is"]
  have b: "unat (eh_phoff hdr) + i * unat (eh_phentsize hdr) + 32 \<le> unat bufsz" using Cons.prems(4) by simp
  show ?case
  proof (cases "ph_type ?ph = PT_LOAD")
    case False
    then have l: "loads data hdr (i # is) = loads data hdr is" by (simp add: loads_def)
    have "load_segment data bufsz ?ph (res, s) = Some (True, res, s)" using False by (simp add: load_segment_def)
    then show ?thesis using Cons.IH [OF Cons.prems(1,2,3), of res] Cons.prems(4-7) unfolding l step [OF b] by simp
  next
    case True
    then have l: "loads data hdr (i # is) = ?ph # loads data hdr is" by (simp add: loads_def)
    have g: "good_seg data bufsz ?ph" using Cons.prems(5) l by simp
    obtain s1 where s1: "load_segment data bufsz ?ph (res, s) = Some (True, note_seg ?ph res, s1)" "user_ok s1" "holds_seg data s1 ?ph"
        "keeps (in_seg ?ph) s s1" "free_frames s \<le> free_frames s1 + 2 * seg_pages ?ph"
      using load_segment_ok [OF Cons.prems(1) g, of res] Cons.prems(7) l by auto
    have "\<exists>s'. load_loop data bufsz hdr is (note_seg ?ph res, s1) = Some (True, fold note_seg (loads data hdr is) (note_seg ?ph res), s')
        \<and> user_ok s' \<and> (\<forall>ph \<in> set (loads data hdr is). holds_seg data s' ph) \<and> keeps (\<lambda>b. \<exists>ph \<in> set (loads data hdr is). in_seg ph b) s1 s'"
      by (rule Cons.IH [OF s1(2) Cons.prems(2,3)]) (use Cons.prems(4-7) s1(5) l in auto)
    then obtain s' where s': "load_loop data bufsz hdr is (note_seg ?ph res, s1) = Some (True, fold note_seg (loads data hdr is) (note_seg ?ph res), s')"
        "user_ok s'" "\<forall>ph \<in> set (loads data hdr is). holds_seg data s' ph" "keeps (\<lambda>b. \<exists>ph \<in> set (loads data hdr is). in_seg ph b) s1 s'"
      by blast
    have "\<not> (\<exists>ph \<in> set (loads data hdr is). in_seg ph b)" if "in_seg ?ph b" for b
      using that Cons.prems(6) l by (auto simp: apart_def)
    then have "holds_seg data s' ?ph" by (rule holds_seg_keeps [OF s1(2,3) g s'(4)])
    moreover have "keeps (\<lambda>b. in_seg ?ph b \<or> (\<exists>ph \<in> set (loads data hdr is). in_seg ph b)) s s'" by (rule keeps_trans [OF s1(4) s'(4)])
    ultimately show ?thesis using s1(1) s' unfolding l step [OF b] by simp
  qed
qed

lemma fold_note_seg:
  "er_error (fold note_seg L r) = er_error r \<and> er_entry (fold note_seg L r) = er_entry r
     \<and> er_load_base (fold note_seg L r) \<le> er_load_base r \<and> er_load_end r \<le> er_load_end (fold note_seg L r)
     \<and> (\<forall>ph \<in> set L. er_load_base (fold note_seg L r) \<le> ph_vaddr ph \<and> ph_vaddr ph + ph_memsz ph \<le> er_load_end (fold note_seg L r))"
proof (induction L arbitrary: r)
  case (Cons ph L)
  let ?r = "note_seg ph r"
  have r: "er_error ?r = er_error r" "er_entry ?r = er_entry r" "er_load_base ?r \<le> er_load_base r" "er_load_base ?r \<le> ph_vaddr ph"
    "er_load_end r \<le> er_load_end ?r" "ph_vaddr ph + ph_memsz ph \<le> er_load_end ?r" by (simp_all add: note_seg_def)
  show ?case using Cons [of ?r] r by (auto intro: order_trans)
qed simp


text \<open>A program of two segments, the second with a zeroed part.\<close>

definition demo_elf :: bytes where
  "demo_elf = [0x7F, 0x45, 0x4C, 0x46, 1, 1, 1, 0] @ replicate 8 0 @ wr16 2 @ wr16 3 @ Packed.wr32 1 @ Packed.wr32 0x2000000 @ Packed.wr32 52
     @ Packed.wr32 0 @ Packed.wr32 0 @ wr16 52 @ wr16 32 @ wr16 2 @ wr16 0 @ wr16 0 @ wr16 0
     @ Packed.wr32 1 @ Packed.wr32 116 @ Packed.wr32 0x2000000 @ Packed.wr32 0 @ Packed.wr32 3 @ Packed.wr32 3 @ Packed.wr32 5 @ Packed.wr32 4096
     @ Packed.wr32 1 @ Packed.wr32 119 @ Packed.wr32 0x2000003 @ Packed.wr32 0 @ Packed.wr32 1 @ Packed.wr32 5000 @ Packed.wr32 6 @ Packed.wr32 4096
     @ [0xEB, 0xFE, 0x90, 7]"

definition demo_hdr :: elf32_hdr_t where
  "demo_hdr = \<lparr>eh_magic = ELF_MAGIC, eh_class = 1, eh_data = 1, eh_version = 1, eh_os_abi = 0, eh_pad = replicate 8 0, eh_type = 2,
     eh_machine = 3, eh_version2 = 1, eh_entry = 0x2000000, eh_phoff = 52, eh_shoff = 0, eh_flags = 0, eh_ehsize = 52,
     eh_phentsize = 32, eh_phnum = 2, eh_shentsize = 0, eh_shnum = 0, eh_shstrndx = 0\<rparr>"

definition demo_seg1 :: elf32_phdr_t where
  "demo_seg1 = \<lparr>ph_type = 1, ph_offset = 116, ph_vaddr = 0x2000000, ph_paddr = 0, ph_filesz = 3, ph_memsz = 3, ph_flags = 5, ph_align = 4096\<rparr>"

definition demo_seg2 :: elf32_phdr_t where
  "demo_seg2 = \<lparr>ph_type = 1, ph_offset = 119, ph_vaddr = 0x2000003, ph_paddr = 0, ph_filesz = 1, ph_memsz = 5000, ph_flags = 6, ph_align = 4096\<rparr>"

lemma demo_image:
  "hdr_of (take 52 demo_elf) = demo_hdr" "elf_validate demo_hdr = 0" "length demo_elf = 120"
  "loads demo_elf demo_hdr [0..<2] = [demo_seg1, demo_seg2]"
  by code_simp+

lemma demo_bytes: "demo_elf ! 117 = 0xFE" "demo_elf ! 119 = 7"
  by code_simp+

lemma init_user_ok: "user_ok (paging_init 8192 mm0)" "free_frames (paging_init 8192 mm0) = 768"
proof -
  note i = paging_init_ok [OF mm0_layout, of 8192]
  show "user_ok (paging_init 8192 mm0)" using i(1) i(2) by (simp add: user_ok_def)
  have "pmm_range (paging_init 8192 mm0) - pmm_owned (paging_init 8192 mm0) = {1280..<2048}" using i(3,4) by auto
  then show "free_frames (paging_init 8192 mm0) = 768" by (simp add: free_frames_def)
qed


section \<open>Where the loader fails\<close>

lemma load_loop_skip:
  assumes "unat bufsz \<le> length data" "unat bufsz < 2 ^ 31"
  shows "\<forall>j \<in> set is. unat (eh_phoff hdr) + j * unat (eh_phentsize hdr) + 32 \<le> unat bufsz \<and> ph_type (seg_at data hdr j) \<noteq> PT_LOAD \<Longrightarrow>
    load_loop data bufsz hdr (is @ js) (res, s) = load_loop data bufsz hdr js (res, s)"
proof (induction "is")
  case (Cons i "is")
  then have b: "unat (eh_phoff hdr) + i * unat (eh_phentsize hdr) + 32 \<le> unat bufsz" "ph_type (seg_at data hdr i) \<noteq> PT_LOAD" by simp_all
  then have "load_segment data bufsz (seg_at data hdr i) (res, s) = Some (True, res, s)" by (simp add: load_segment_def)
  then show ?case using Cons unfolding append_Cons load_loop_step [OF assms b(1)] by simp
qed simp

text \<open>
  The loader refuses the programs of this system: an image whose first loadable segment begins between 1 MB and 5 MB, where the
  build links every user program (\<^verbatim>\<open>-Ttext=0x400000\<close>), is rejected with -2, and memory is unchanged.
\<close>

theorem elf_rejects_low_programs:
  assumes "52 \<le> unat bufsz" "unat bufsz \<le> length data" "unat bufsz < 2 ^ 31"
    and "hdr_of (take 52 data) = hdr" "elf_validate hdr = 0" "i < unat (eh_phnum hdr)"
    and "\<forall>j \<le> i. unat (eh_phoff hdr) + j * unat (eh_phentsize hdr) + 32 \<le> unat bufsz"
    and "\<forall>j < i. ph_type (seg_at data hdr j) \<noteq> PT_LOAD" "seg_at data hdr i = ph"
    and "ph_type ph = PT_LOAD" "ph_memsz ph \<noteq> 0" "0x100000 \<le> ph_vaddr ph" "ph_vaddr ph < 0x500000"
  shows "\<exists>r. elf_load_mem data bufsz s = Some (r, s) \<and> er_error r = -2"
proof -
  let ?start = "\<lparr>er_entry = eh_entry hdr, er_load_base = 0xFFFFFFFF, er_load_end = 0, er_error = 0\<rparr>"
  have u: "[0..<unat (eh_phnum hdr)] = [0..<i] @ i # [Suc i..<unat (eh_phnum hdr)]"
    using upt_add_eq_append [of 0 i "unat (eh_phnum hdr) - i"] assms(6) by (simp add: upt_conv_Cons)
  have b: "unat (eh_phoff hdr) + i * unat (eh_phentsize hdr) + 32 \<le> unat bufsz" using assms(7) by simp
  have "\<not> ph_vaddr ph < 0x100000" "\<not> 0xC0000000 \<le> ph_vaddr ph" using assms(12,13) by (auto simp: word_le_nat_alt word_less_nat_alt)
  then have "load_segment data bufsz ph (?start, s) = Some (False, ?start\<lparr>er_error := -2\<rparr>, s)"
    using assms(10-13) by (simp add: load_segment_def)
  then have "load_loop data bufsz hdr [0..<unat (eh_phnum hdr)] (?start, s) = Some (False, ?start\<lparr>er_error := -2\<rparr>, s)"
    using load_loop_skip [OF assms(2,3), of "[0..<i]" hdr "i # [Suc i..<unat (eh_phnum hdr)]" ?start s] assms(7-9)
    unfolding u load_loop_step [OF assms(2,3) b] by simp
  moreover have "slice data 0 52 = Some (take 52 data)" "\<not> bufsz < 52" using assms(1,2) by (simp_all add: slice_def word_less_nat_alt)
  ultimately show ?thesis using assms(4,5) by (simp add: elf_load_mem_def)
qed

text \<open>The demonstration program, linked at 4 MB.\<close>

definition low_elf :: bytes where
  "low_elf = take 52 demo_elf @ Packed.wr32 1 @ Packed.wr32 84 @ Packed.wr32 0x400000 @ Packed.wr32 0 @ Packed.wr32 3 @ Packed.wr32 3
     @ Packed.wr32 5 @ Packed.wr32 4096 @ [0xEB, 0xFE, 0x90]"

lemma low_image:
  "hdr_of (take 52 low_elf) = demo_hdr" "length low_elf = 87" "ph_type (seg_at low_elf demo_hdr 0) = PT_LOAD"
  "ph_memsz (seg_at low_elf demo_hdr 0) \<noteq> 0" "0x100000 \<le> ph_vaddr (seg_at low_elf demo_hdr 0)" "ph_vaddr (seg_at low_elf demo_hdr 0) < 0x500000"
  by code_simp+

lemma elf_rejects_low_programs_witness: "\<exists>r. elf_load_mem low_elf 87 mm0 = Some (r, mm0) \<and> er_error r = -2"
  by (rule elf_rejects_low_programs [OF _ _ _ low_image(1) demo_image(2) _ _ _ refl low_image(3-6)]) (simp_all add: low_image(2) demo_hdr_def)

section \<open>User mode\<close>

text \<open>A page is accessible in ring 3 when both levels of the tables say so.\<close>

definition user_access :: "'a mm_scheme \<Rightarrow> u32 \<Rightarrow> bool" where
  "user_access s v \<longleftrightarrow>
     (let pde = frames s (pfn (cr3 s)) (PAGE_DIR_IDX v); pte = frames s (pfn pde) (PAGE_TBL_IDX v)
      in present pde \<and> present pte \<and> pde AND PAGE_USER \<noteq> 0 \<and> pte AND PAGE_USER \<noteq> 0)"

definition kernel_dirs :: "'a mm_scheme \<Rightarrow> bool" where
  "kernel_dirs s \<longleftrightarrow> (\<forall>di. page_dir s di AND PAGE_USER = 0)"

lemma kernel_dirs_no_user: "pt_ok s \<Longrightarrow> kernel_dirs s \<Longrightarrow> \<not> user_access s v"
  using pt_okD(3) [of s] by (simp add: user_access_def kernel_dirs_def page_dir_def Let_def)

lemma table_entry_no_user: "(of_nat f * 4096 OR PAGE_PRESENT OR PAGE_WRITE) AND PAGE_USER = 0"
proof -
  have "(of_nat f * 4096 :: u32) = push_bit 12 (of_nat f)" by (simp add: push_bit_eq_mult)
  then have "\<not> bit (of_nat f * 4096 OR PAGE_PRESENT OR PAGE_WRITE) 2"
    by (simp only: bit_or_iff bit_push_bit_iff PAGE_PRESENT_def PAGE_WRITE_def) simp
  moreover have "PAGE_USER = 2 ^ 2" by (simp add: PAGE_USER_def)
  ultimately show ?thesis using and_exp_eq_0_iff_not_bit [of "of_nat f * 4096 OR PAGE_PRESENT OR PAGE_WRITE" 2] by metis
qed

lemma wr32_table_dirs:
  assumes "pt_ok s" "has_tbl s (pfn v div 1024)" "Paging.wr32 (entry_at s v) x s = Some s'" "kernel_dirs s"
  shows "kernel_dirs s'"
proof -
  have "page_frame s (entry_at s v) = Some (tbl s (pfn v div 1024))"
    using page_frame_ident [OF assms(1)] pt_okD(6) [OF assms(1,2)] by (simp add: entry_at_loc)
  then have "s' = set_word (tbl s (pfn v div 1024)) (word_idx (entry_at s v)) x s" using assms(3) by (simp add: Paging.wr32_def)
  then have "page_dir s' = page_dir s" using pt_okD(7) [OF assms(1,2)] by (auto simp: page_dir_def fun_eq_iff)
  then show ?thesis using assms(4) by (simp add: kernel_dirs_def)
qed

lemma paging_map_dirs:
  assumes "pt_ok s" "kernel_dirs s" "paging_map v p fl s = Some s'"
  shows "kernel_dirs s'"
proof (cases "has_tbl s (pfn v div 1024)")
  case True
  then show ?thesis using assms wr32_table_dirs [OF assms(1) True, of _ s'] by (simp add: paging_map_def pte_ptr_has)
next
  case no: False
  show ?thesis
  proof (cases "pmm_owned s = pmm_range s")
    case True
    then have "s' = s" using paging_map_full [OF assms(1), of v p fl] no assms(3) by (simp add: can_map_def)
    then show ?thesis using assms(2) by simp
  next
    case False
    obtain f s1 where f: "pmm_alloc s = (of_nat f * 4096, s1)" "f < 4096" "f \<noteq> 0" "f \<notin> pt_frames s" "pt_ok s1" "frames s1 = frames s" "dir_base s1 = dir_base s"
      using pt_ok_alloc [OF assms(1) False] by (auto simp: pmm_alloc_def split: option.splits)
    obtain s3 g where s3: "pte_ptr v True s = Some (Some (entry_at s3 v), s3)" "pt_ok s3" "has_tbl s3 (pfn v div 1024)"
      using pte_ptr_new [OF assms(1) no False] by blast
    have nz: "(of_nat f * 4096 :: u32) \<noteq> 0" using f(2,3) by (simp add: word_unat_eq_iff page_addr)
    have z: "page_frame s1 (of_nat f * 4096) = Some f" using page_frame_ident [OF f(5), of "of_nat f * 4096"] f(2) by simp
    have np: "\<not> present (page_dir s (PAGE_DIR_IDX v))" using no pfn_lt [of v] by (simp add: has_tbl_def dir_idx_pfn)
    have ne: "pfn (dir_base s) \<noteq> f" using f(4) by (auto simp: pt_frames_def)
    have "s3 = set_word (pfn (dir_base s)) (PAGE_DIR_IDX v) (of_nat f * 4096 OR PAGE_PRESENT OR PAGE_WRITE) (s1\<lparr>frames := (frames s1)(f := (\<lambda>_. 0))\<rparr>)"
      using s3(1) np f(1,7) nz z by (simp add: pte_ptr_def Let_def zero_page_def)
    then have "page_dir s3 di = (if di = PAGE_DIR_IDX v then of_nat f * 4096 OR PAGE_PRESENT OR PAGE_WRITE else page_dir s di)" for di
      using ne f(6,7) by (simp add: page_dir_def)
    then have "kernel_dirs s3" using assms(2) table_entry_no_user [of f] by (simp add: kernel_dirs_def)
    then show ?thesis using assms(3) s3 wr32_table_dirs [OF s3(2,3), of _ s'] by (simp add: paging_map_def)
  qed
qed

lemma paging_init_page_dir:
  assumes kl: "kernel_layout D T s"
  shows "page_dir (paging_init kb s) di = (if di < 4 then of_nat (T + di) * 4096 OR PAGE_PRESENT OR PAGE_WRITE else 0)"
proof -
  define s1 where "s1 = pmm_init kb s"
  define s2 where "s2 = s1\<lparr>frames := (frames s1)(D := (\<lambda>_. 0))\<rparr>"
  define s3 where "s3 = fold init_table [0..<4] s2"
  have D: "pfn (dir_base s) = D" using kl by (simp add: kernel_layout_def)
  have b: "dir_base s1 = dir_base s" "tables_base s1 = tables_base s" by (simp_all add: s1_def pmm_init_def Let_def)
  then have "kernel_layout D T s2" using kl by (simp add: s2_def kernel_layout_def)
  from init_tables_state [OF this, of 4] have st: "dir_base s3 = dir_base s"
    "frames s3 D = (\<lambda>di. if di < 4 then of_nat (T + di) * 4096 OR PAGE_PRESENT OR PAGE_WRITE else 0)"
    by (simp_all add: Let_def s3_def s2_def b)
  have "paging_init kb s = s3\<lparr>cr3 := dir_base s3, paging_on := True\<rparr>"
    by (simp add: paging_init_def s3_def s2_def Let_def NUM_PREINIT_TABLES_def b D flip: s1_def)
  then show ?thesis using st D by (simp add: page_dir_def)
qed

lemma paging_init_dirs: "kernel_layout D T s \<Longrightarrow> kernel_dirs (paging_init kb s)"
  using table_entry_no_user by (simp add: kernel_dirs_def paging_init_page_dir del: of_nat_add)

text \<open>Any sequence of calls of \<^verbatim>\<open>paging_map\<close>.\<close>

fun map_all :: "(u32 \<times> u32 \<times> u32) list \<Rightarrow> 'a mm_scheme \<Rightarrow> 'a mm_scheme option" where
  "map_all [] s = Some s"
| "map_all ((v, p, fl) # ms) s = do { s1 \<leftarrow> paging_map v p fl s; map_all ms s1 }"

lemma map_all_dirs:
  "pt_ok s \<Longrightarrow> kernel_dirs s \<Longrightarrow> \<forall>(v, p, fl) \<in> set ms. 4096 \<le> pfn v \<Longrightarrow> map_all ms s = Some s' \<Longrightarrow> pt_ok s' \<and> kernel_dirs s'"
proof (induction ms arbitrary: s)
  case (Cons m ms)
  obtain v p fl where m: "m = (v, p, fl)" by (cases m)
  from Cons.prems(4) m obtain s1 where s1: "paging_map v p fl s = Some s1" "map_all ms s1 = Some s'"
    by (auto split: bind_splits)
  have "pt_ok s1"
  proof (cases "can_map s v")
    case True
    then show ?thesis using paging_map_ok [OF Cons.prems(1) True, of p fl] Cons.prems(3) m s1(1) by auto
  next
    case False
    then show ?thesis using paging_map_full [OF Cons.prems(1) False, of p fl] s1(1) Cons.prems(1) by simp
  qed
  then show ?case using Cons.IH [of s1] paging_map_dirs [OF Cons.prems(1,2) s1(1)] Cons.prems(3) s1(2) by simp
qed simp

text \<open>
  C31. No page is accessible in user mode: after \<^verbatim>\<open>paging_init\<close> and any calls of \<^verbatim>\<open>paging_map\<close> for addresses above 16 MB, with whatever
  flags, the processor denies ring 3 every address, because \<^verbatim>\<open>pte_ptr\<close> enters its tables into the directory without the user flag.
  A program that the loader places cannot fetch its first instruction.
\<close>

theorem user_pages_unreachable:
  assumes "kernel_layout D T s" "5120 \<le> unat kb" "unat kb \<le> 16384"
    and "\<forall>(v, p, fl) \<in> set ms. 4096 \<le> pfn v" "map_all ms (paging_init kb s) = Some s'"
  shows "\<not> user_access s' u"
proof -
  have "pt_ok s' \<and> kernel_dirs s'"
    by (rule map_all_dirs [OF paging_init_ok(1) [OF assms(1-3)] paging_init_dirs [OF assms(1)] assms(4,5)])
  then show ?thesis using kernel_dirs_no_user by blast
qed

lemma user_pages_unreachable_witness:
  "\<exists>s'. map_all [(0x2000000, 0x500000, PAGE_USER OR PAGE_WRITE)] (paging_init 8192 mm0) = Some s' \<and> \<not> user_access s' 0x2000000"
proof -
  have "1500 \<in> pmm_range (paging_init 8192 mm0)" "1500 \<notin> pmm_owned (paging_init 8192 mm0)"
    by (simp_all add: paging_init_ok [OF mm0_layout, of 8192])
  then have c: "can_map (paging_init 8192 mm0) 0x2000000" unfolding can_map_def by metis
  have v: "4096 \<le> pfn 0x2000000" by (simp add: pfn_div)
  obtain s' where "paging_map 0x2000000 0x500000 (PAGE_USER OR PAGE_WRITE) (paging_init 8192 mm0) = Some s'"
    using paging_map_ok [OF init_user_ok(1) [THEN user_okD(1)] c v] by blast
  then have m: "map_all [(0x2000000, 0x500000, PAGE_USER OR PAGE_WRITE)] (paging_init 8192 mm0) = Some s'" by simp
  have "\<not> user_access s' 0x2000000"
    by (rule user_pages_unreachable [OF mm0_layout _ _ _ m]) (simp_all add: v)
  with m show ?thesis by blast
qed

end
