(* ===== verification/Dns.thy ===== *)
theory Dns
  imports Net
begin

text \<open>
  The resolver, \<^verbatim>\<open>src/dns.c\<close>: a query for one host name over UDP, and the search of the reply for an address record.
  The receive buffer on the stack is a parameter; reading outside of it is \<open>None\<close>.
\<close>

record dns =
  dns_server :: u32
  dns_id :: u16

definition dns_init :: "u32 \<Rightarrow> dns \<Rightarrow> dns" where
  "dns_init server_ip d = d\<lparr>dns_server := server_ip\<rparr>"

definition byte_at :: "bytes \<Rightarrow> nat \<Rightarrow> u8 option" where
  "byte_at b i = (if i < length b then Some (b ! i) else None)"

section \<open>Queries\<close>

text \<open>How far \<^verbatim>\<open>dot\<close> runs: to the next dot or the end of the string.\<close>

fun label_len :: "bytes \<Rightarrow> nat option" where
  "label_len [] = None"
| "label_len (c # s) = (if c \<noteq> 0 \<and> c \<noteq> 46 then map_option Suc (label_len s) else Some 0)"

lemma label_len_less: "label_len s = Some k \<Longrightarrow> k < length s \<and> (hd s \<noteq> 0 \<longrightarrow> hd s \<noteq> 46 \<longrightarrow> 0 < k)"
  by (induction s arbitrary: k) (fastforce split: if_splits)+

function encode_name :: "bytes \<Rightarrow> bytes option" where
  "encode_name p =
     (case p of [] \<Rightarrow> None
      | c # _ \<Rightarrow>
          if c = 0 then Some [0]
          else case label_len p of
            None \<Rightarrow> None
          | Some k \<Rightarrow> map_option (\<lambda>r. of_nat k # take k p @ r) (encode_name (if p ! k \<noteq> 0 then drop (k + 1) p else drop k p)))"
  by pat_completeness auto
termination
proof (relation "measure length")
  fix p c cs k assume p: "p = c # cs" "c \<noteq> 0" "label_len p = Some k"
  then have "k < length p" "c \<noteq> 46 \<Longrightarrow> 0 < k" using label_len_less [of p k] by auto
  moreover have "k = 0 \<Longrightarrow> p ! k = c" using p(1) by simp
  ultimately show "(if p ! k \<noteq> 0 then drop (k + 1) p else drop k p, p) \<in> measure length"
    using p(2) by (cases "k = 0") auto
qed simp

declare encode_name.simps [simp del]

text \<open>The packet of 512 bytes and the length of the query in it.\<close>

definition dns_query :: "u16 \<Rightarrow> bytes \<Rightarrow> (bytes \<times> nat) option" where
  "dns_query qid hostname = do {
     nm \<leftarrow> encode_name hostname;
     let q = [ucast (drop_bit 8 qid), ucast (qid AND 0xFF), 1, 0, 0, 1, 0, 0, 0, 0, 0, 0] @ nm @ [0, 1, 0, 1];
     pkt \<leftarrow> blit (replicate 512 0) 0 q;
     Some (pkt, length q) }"

section \<open>Replies\<close>

definition be16 :: "bytes \<Rightarrow> nat \<Rightarrow> u16 option" where
  "be16 b i = do { h \<leftarrow> byte_at b i; l \<leftarrow> byte_at b (i + 1); Some (push_bit 8 (ucast h) OR ucast l) }"

definition be32 :: "bytes \<Rightarrow> nat \<Rightarrow> u32 option" where
  "be32 b i = do { x0 \<leftarrow> byte_at b i; x1 \<leftarrow> byte_at b (i + 1); x2 \<leftarrow> byte_at b (i + 2); x3 \<leftarrow> byte_at b (i + 3);
     Some (push_bit 24 (ucast x0) OR push_bit 16 (ucast x1) OR push_bit 8 (ucast x2) OR ucast x3) }"

text \<open>Over the name of the question: to its zero byte, or behind a compression pointer.\<close>

function skip_question :: "nat \<Rightarrow> bytes \<Rightarrow> nat \<Rightarrow> nat option" where
  "skip_question n resp rpos =
     (if rpos < n then
        (case byte_at resp rpos of None \<Rightarrow> None
         | Some b \<Rightarrow> if b = 0 then Some rpos
                     else if b AND 0xC0 = 0xC0 then Some (rpos + 2)
                     else skip_question n resp (rpos + unat b + 1))
      else Some rpos)"
  by pat_completeness auto
termination by (relation "measure (\<lambda>(n, _, rpos). n - rpos)") auto

function skip_labels :: "nat \<Rightarrow> bytes \<Rightarrow> nat \<Rightarrow> nat option" where
  "skip_labels n resp rpos =
     (if rpos < n then
        (case byte_at resp rpos of None \<Rightarrow> None
         | Some b \<Rightarrow> if b = 0 then Some rpos else skip_labels n resp (rpos + unat b + 1))
      else Some rpos)"
  by pat_completeness auto
termination by (relation "measure (\<lambda>(n, _, rpos). n - rpos)") auto

declare skip_question.simps [simp del] skip_labels.simps [simp del]

text \<open>The records of the answer section; \<open>Some None\<close> is the end of the loop.\<close>

fun dns_answers :: "nat \<Rightarrow> nat \<Rightarrow> bytes \<Rightarrow> nat \<Rightarrow> u32 option option" where
  "dns_answers 0 n resp rpos = Some None"
| "dns_answers (Suc k) n resp rpos =
     (if rpos + 12 > n then Some None
      else do {
        b \<leftarrow> byte_at resp rpos;
        rpos1 \<leftarrow> (if b AND 0xC0 = 0xC0 then Some (rpos + 2) else map_option Suc (skip_labels n resp rpos));
        rtype \<leftarrow> be16 resp rpos1;
        rdlen \<leftarrow> be16 resp (rpos1 + 8);
        if rtype = 1 \<and> rdlen = 4 \<and> rpos1 + 14 \<le> n then map_option Some (be32 resp (rpos1 + 10))
        else dns_answers k n resp (rpos1 + 10 + unat rdlen) })"

text \<open>One received datagram: \<open>None\<close> inside is \<^verbatim>\<open>continue\<close>, a value is returned.\<close>

definition dns_reply :: "u16 \<Rightarrow> nat \<Rightarrow> bytes \<Rightarrow> u32 option option" where
  "dns_reply qid n resp =
     (if n < 12 then Some None
      else do {
        rid \<leftarrow> be16 resp 0;
        if rid \<noteq> qid then Some None
        else do {
          ancount \<leftarrow> be16 resp 6;
          if ancount = 0 then Some (Some 0)
          else do {
            rpos \<leftarrow> skip_question n resp 12;
            if rpos \<ge> n then Some None
            else do {
              b \<leftarrow> byte_at resp rpos;
              dns_answers (unat ancount) n resp ((if b = 0 then rpos + 1 else rpos) + 4) } } } })"

fun dns_wait :: "nat \<Rightarrow> 'w net_ports \<Rightarrow> u16 \<Rightarrow> bytes \<Rightarrow> net \<times> timer \<times> 'w \<Rightarrow> (u32 \<times> net \<times> timer \<times> 'w) option" where
  "dns_wait 0 io qid resp (st, t, w) = Some (0, st, t, w)"
| "dns_wait (Suc k) io qid resp (st, t, w) = do {
     (t1, w1) \<leftarrow> timer_sleep 20 (np_io io) (t, w);
     (st1, w2) \<leftarrow> net_poll io (st, w1);
     (n, resp1, _, st2, w3) \<leftarrow> net_recv_udp io 1053 resp 512 (st1, w2);
     r \<leftarrow> dns_reply qid (nat n) resp1;
     case r of Some ip \<Rightarrow> Some (ip, st2, t1, w3) | None \<Rightarrow> dns_wait k io qid resp1 (st2, t1, w3) }"

definition dns_resolve ::
  "'w net_ports \<Rightarrow> bytes \<Rightarrow> bytes \<Rightarrow> dns \<times> net \<times> timer \<times> 'w \<Rightarrow> (u32 \<times> dns \<times> net \<times> timer \<times> 'w) option" where
  "dns_resolve io resp hostname = (\<lambda>(d, st, t, w).
     (if dns_server d = 0 \<or> \<not> net_ready st then Some (0, d, st, t, w)
      else do {
        let qid = dns_id d;
        let d1 = d\<lparr>dns_id := qid + 1\<rparr>;
        (pkt, pos) \<leftarrow> dns_query qid hostname;
        (_, st1, t1, w1) \<leftarrow> net_send_udp io (dns_server d) 1053 53 pkt (of_nat pos) (st, t, w);
        (ip, st2, t2, w2) \<leftarrow> dns_wait 50 io qid resp (st1, t1, w1);
        Some (ip, d1, st2, t2, w2) }))"

section \<open>Names\<close>

text \<open>A host name as the list of its labels, written with dots, and as the protocol wants it.\<close>

definition label :: "bytes \<Rightarrow> bool" where
  "label l \<longleftrightarrow> l \<noteq> [] \<and> length l < 64 \<and> 0 \<notin> set l \<and> 46 \<notin> set l"

fun dotted :: "bytes list \<Rightarrow> bytes" where
  "dotted [] = [0]"
| "dotted (l # ls) = l @ (if ls = [] then [0] else 46 # dotted ls)"

abbreviation wire :: "bytes list \<Rightarrow> bytes" where
  "wire ls \<equiv> concat (map (\<lambda>l. of_nat (length l) # l) ls)"

lemma label_len_label: "0 \<notin> set l \<Longrightarrow> 46 \<notin> set l \<Longrightarrow> c = 0 \<or> c = 46 \<Longrightarrow> label_len (l @ c # r) = Some (length l)"
  by (induction l) auto

lemma encode_step:
  "q \<noteq> [] \<Longrightarrow> hd q \<noteq> 0 \<Longrightarrow> label_len q = Some k \<Longrightarrow>
     encode_name q = map_option (\<lambda>r. of_nat k # take k q @ r) (encode_name (if q ! k \<noteq> 0 then drop (k + 1) q else drop k q))"
  by (subst encode_name.simps) (cases q; simp del: label_len.simps)

lemma encode_name_wire: "\<forall>l \<in> set ls. label l \<Longrightarrow> encode_name (dotted ls) = Some (wire ls @ [0])"
proof (induction ls)
  case (Cons l ls)
  then have l: "label l" and IH: "encode_name (dotted ls) = Some (wire ls @ [0])" by simp_all
  obtain c cs where c: "l = c # cs" "c \<noteq> 0" using l by (cases l) (auto simp: label_def)
  define r where "r = (if ls = [] then [0] else 46 # dotted ls)"
  have k: "label_len (l @ r) = Some (length l)"
    using l label_len_label [of l "hd r" "tl r"] by (auto simp: label_def r_def)
  have "encode_name (if (l @ r) ! length l \<noteq> 0 then drop (length l + 1) (l @ r) else drop (length l) (l @ r)) = Some (wire ls @ [0])"
    using IH by (auto simp: r_def nth_append)
  then have "encode_name (l @ r) = Some ((of_nat (length l) # l) @ wire ls @ [0])"
    using encode_step [OF _ _ k] c by simp
  then show ?case by (simp add: r_def)
qed (simp add: encode_name.simps)

lemma short_label_byte: "k < 64 \<Longrightarrow> (of_nat k :: u8) AND 0xC0 \<noteq> 0xC0"
proof
  assume k: "k < 64" and "(of_nat k :: u8) AND 0xC0 = 0xC0"
  then have "(0xC0 :: u8) \<le> of_nat k" using word_and_le2 [of "of_nat k :: u8" "0xC0"] by simp
  then show False using k by (simp add: word_le_nat_alt unat_of_nat take_bit_eq_mod)
qed

lemma byte_at_append: "byte_at (a @ b) (length a + i) = byte_at b i"
  by (simp add: byte_at_def nth_append)

lemma skip_question_wire:
  "\<forall>l \<in> set ls. label l \<Longrightarrow> length pre + length (wire ls) < n \<Longrightarrow>
     skip_question n (pre @ wire ls @ 0 # rest) (length pre) = Some (length pre + length (wire ls))"
proof (induction ls arbitrary: pre)
  case Nil
  then show ?case using byte_at_append [of pre "0 # rest" 0] by (subst skip_question.simps) (simp add: byte_at_def)
next
  case (Cons l ls)
  then have l: "label l" by simp
  let ?b = "of_nat (length l) :: u8"
  have u: "unat ?b = length l" using l by (simp add: label_def unat_of_nat take_bit_eq_mod)
  then have nz: "?b \<noteq> 0" using l by (auto simp: label_def)
  have c: "?b AND 0xC0 \<noteq> 0xC0" using l short_label_byte by (simp add: label_def)
  have at: "byte_at (pre @ wire (l # ls) @ 0 # rest) (length pre) = Some ?b"
    using byte_at_append [of pre "wire (l # ls) @ 0 # rest" 0] by (simp add: byte_at_def)
  have "skip_question n ((pre @ ?b # l) @ wire ls @ 0 # rest) (length (pre @ ?b # l)) = Some (length (pre @ ?b # l) + length (wire ls))"
    by (rule Cons.IH) (use Cons.prems in auto)
  then have "skip_question n (pre @ wire (l # ls) @ 0 # rest) (length pre + length l + 1) = Some (length pre + length (wire (l # ls)))"
    by (simp add: add.assoc)
  then show ?case using Cons.prems(2) at nz c u by (subst skip_question.simps) simp
qed

lemma be16_append: "be16 (a @ b) (length a + i) = be16 b i"
  unfolding be16_def by (simp only: add.assoc byte_at_append)

lemma be32_append: "be32 (a @ b) (length a + i) = be32 b i"
  unfolding be32_def by (simp only: add.assoc byte_at_append)

lemma be16_front: "i + 1 < length a \<Longrightarrow> be16 (a @ b) i = be16 a i"
  by (simp add: be16_def byte_at_def nth_append)

text \<open>An answer that refers to the question with a compression pointer, and holds one address.\<close>

definition a_record :: "u8 \<Rightarrow> bytes \<Rightarrow> u8 \<Rightarrow> u8 \<Rightarrow> u8 \<Rightarrow> u8 \<Rightarrow> bytes" where
  "a_record x m a b c d = [0xC0, x, 0, 1] @ m @ [0, 4, a, b, c, d]"

lemma dns_answers_record:
  assumes "length m = 6" "length pre + 16 \<le> n" "0 < k"
  shows "dns_answers k n (pre @ a_record x m a b c d @ rest) (length pre) = Some (Some (NET_IP (ucast a) (ucast b) (ucast c) (ucast d)))"
proof -
  let ?r = "a_record x m a b c d @ rest"
  have f: "byte_at ?r 0 = Some 0xC0" "be16 ?r 2 = Some 1" by (simp_all add: byte_at_def be16_def a_record_def)
  have tail: "?r = ([0xC0, x, 0, 1] @ m) @ [0, 4, a, b, c, d] @ rest" by (simp add: a_record_def)
  have g: "be16 ?r 10 = Some 4" "be32 ?r 12 = Some (NET_IP (ucast a) (ucast b) (ucast c) (ucast d))"
    unfolding tail using assms(1) be16_append [of "[0xC0, x, 0, 1] @ m" "[0, 4, a, b, c, d] @ rest" 0]
      be32_append [of "[0xC0, x, 0, 1] @ m" "[0, 4, a, b, c, d] @ rest" 2]
    by (simp_all add: be16_def be32_def byte_at_def NET_IP_def)
  obtain j where "k = Suc j" using assms(3) by (cases k) auto
  then show ?thesis
    using assms(2) f g byte_at_append [of pre ?r 0] be16_append [of pre ?r 2] be16_append [of pre ?r 10] be32_append [of pre ?r 12]
    by (simp add: add.assoc del: add_2_eq_Suc add_2_eq_Suc')
qed

text \<open>
  C32. Resolving works against a server that answers: the query for a name of labels shorter than 64 characters carries the labels with
  their lengths, and a reply with the identifier of the query, its question, and an address record behind it, followed by anything,
  makes the resolver return the address.
\<close>

theorem dns_query_answered:
  assumes "\<forall>l \<in> set ls. label l" "length (wire ls) \<le> 495"
    and "length h = 12" "be16 h 0 = Some qid" "be16 h 6 = Some an" "an \<noteq> 0" "length q = 4" "length m = 6"
    and "33 + length (wire ls) \<le> n"
  shows "(\<exists>pkt. dns_query qid (dotted ls) = Some (pkt, 17 + length (wire ls)) \<and> length pkt = 512
       \<and> take (17 + length (wire ls)) pkt
           = [ucast (drop_bit 8 qid), ucast (qid AND 0xFF), 1, 0, 0, 1, 0, 0, 0, 0, 0, 0] @ wire ls @ [0, 0, 1, 0, 1])
     \<and> dns_reply qid n (h @ wire ls @ [0] @ q @ a_record x m a b c d @ rest) = Some (Some (NET_IP (ucast a) (ucast b) (ucast c) (ucast d)))"
proof
  define u where "u = [ucast (drop_bit 8 qid), ucast (qid AND 0xFF), 1, 0, 0, 1, 0, 0, 0, 0, 0, 0] @ (wire ls @ [0]) @ [0, 1, 0, 1]"
  define v where "v = drop (length u) (replicate 512 (0 :: u8))"
  have e: "length u = 17 + length (wire ls)" by (simp add: u_def)
  have "blit (replicate 512 0) 0 u = Some (u @ v)" using assms(2) e by (simp add: blit_def v_def)
  then have "dns_query qid (dotted ls) = Some (u @ v, 17 + length (wire ls))"
    unfolding dns_query_def encode_name_wire [OF assms(1)] by (simp only: Let_def bind.bind_lunit e flip: u_def)
  moreover have "length (u @ v) = 512" using assms(2) e by (simp add: v_def)
  moreover have "take (17 + length (wire ls)) (u @ v) = [ucast (drop_bit 8 qid), ucast (qid AND 0xFF), 1, 0, 0, 1, 0, 0, 0, 0, 0, 0] @ wire ls @ [0, 0, 1, 0, 1]"
    by (simp flip: e) (simp add: u_def)
  ultimately show "\<exists>pkt. dns_query qid (dotted ls) = Some (pkt, 17 + length (wire ls)) \<and> length pkt = 512
       \<and> take (17 + length (wire ls)) pkt
           = [ucast (drop_bit 8 qid), ucast (qid AND 0xFF), 1, 0, 0, 1, 0, 0, 0, 0, 0, 0] @ wire ls @ [0, 0, 1, 0, 1]"
    by blast
next
  let ?r = "h @ wire ls @ [0] @ q @ a_record x m a b c d @ rest"
  let ?pre = "h @ wire ls @ [0] @ q"
  have hd2: "be16 ?r 0 = Some qid" "be16 ?r 6 = Some an"
    using assms(3-5) be16_front [of 0 h] be16_front [of 6 h] by simp_all
  have sk: "skip_question n ?r 12 = Some (12 + length (wire ls))"
    using skip_question_wire [OF assms(1), of h n "q @ a_record x m a b c d @ rest"] assms(3,9) by simp
  have at: "byte_at ?r (12 + length (wire ls)) = Some 0"
    using byte_at_append [of "h @ wire ls" "[0] @ q @ a_record x m a b c d @ rest" 0] assms(3) by (simp add: byte_at_def)
  have l: "length ?pre = 17 + length (wire ls)" using assms(3,7) by simp
  have "dns_answers (unat an) n (?pre @ a_record x m a b c d @ rest) (length ?pre) = Some (Some (NET_IP (ucast a) (ucast b) (ucast c) (ucast d)))"
    by (rule dns_answers_record) (use assms(6,8,9) l in \<open>auto simp: unat_gt_0\<close>)
  from this [unfolded l] show "dns_reply qid n ?r = Some (Some (NET_IP (ucast a) (ucast b) (ucast c) (ucast d)))"
    using hd2 sk at assms(6,9) by (simp add: dns_reply_def)
qed

lemma dns_query_answered_witness:
  "dns_reply 7 42 ([0, 7, 0x81, 0x80, 0, 1, 0, 1, 0, 0, 0, 0] @ wire [[107], [111, 115]] @ [0] @ [0, 1, 0, 1]
     @ a_record 12 [0, 1, 0, 0, 0, 60] 10 0 2 15 @ []) = Some (Some (NET_IP 10 0 2 15))"
  using dns_query_answered [of "[[107], [111, 115]]" "[0, 7, 0x81, 0x80, 0, 1, 0, 1, 0, 0, 0, 0]" 7 1 "[0, 1, 0, 1]" "[0, 1, 0, 0, 0, 60]" 42 12 10 0 2 15 "[]"]
  by (simp add: label_def be16_def byte_at_def)

end
