(* ===== verification/Dhcp.thy ===== *)
theory Dhcp
  imports Dns Serial
begin

text \<open>
  The DHCP client, \<^verbatim>\<open>src/dhcp.c\<close>: the discover and request messages, the options of an offer or acknowledgement, and the exchange
  over UDP broadcasts. A message is the bytes of the packed structure, 548 of them; the receive buffer has eight more.
\<close>

definition DHCP_DISCOVER :: u8 where "DHCP_DISCOVER = 1"
definition DHCP_OFFER :: u8 where "DHCP_OFFER = 2"
definition DHCP_REQUEST :: u8 where "DHCP_REQUEST = 3"
definition DHCP_ACK :: u8 where "DHCP_ACK = 5"
definition DHCP_PORT_CLI :: u16 where "DHCP_PORT_CLI = 68"
definition DHCP_PORT_SRV :: u16 where "DHCP_PORT_SRV = 67"
definition DHCP_MAGIC :: u32 where "DHCP_MAGIC = 0x63825363"

lemmas dhcp_consts = DHCP_DISCOVER_def DHCP_OFFER_def DHCP_REQUEST_def DHCP_ACK_def DHCP_PORT_CLI_def DHCP_PORT_SRV_def DHCP_MAGIC_def

record dhcp_pkt_t =
  dp_op :: u8
  dp_htype :: u8
  dp_hlen :: u8
  dp_hops :: u8
  dp_xid :: u32
  dp_secs :: u16
  dp_flags :: u16
  dp_ciaddr :: u32
  dp_yiaddr :: u32
  dp_siaddr :: u32
  dp_giaddr :: u32
  dp_chaddr :: bytes
  dp_sname :: bytes
  dp_file :: bytes
  dp_magic :: u32
  dp_options :: bytes

definition dhcp_bytes :: "dhcp_pkt_t \<Rightarrow> bytes" where
  "dhcp_bytes p = [dp_op p, dp_htype p, dp_hlen p, dp_hops p] @ Packed.wr32 (dp_xid p) @ wr16 (dp_secs p) @ wr16 (dp_flags p)
     @ Packed.wr32 (dp_ciaddr p) @ Packed.wr32 (dp_yiaddr p) @ Packed.wr32 (dp_siaddr p) @ Packed.wr32 (dp_giaddr p)
     @ dp_chaddr p @ dp_sname p @ dp_file p @ Packed.wr32 (dp_magic p) @ dp_options p"

record dhcp =
  offered_ip :: u32
  offered_gw :: u32
  offered_dns :: u32

section \<open>Messages\<close>

text \<open>What the two messages have in common.\<close>

definition dhcp_message :: "u32 \<Rightarrow> bytes \<Rightarrow> bytes \<Rightarrow> dhcp_pkt_t option" where
  "dhcp_message xid mac opts = do {
     ch \<leftarrow> kmemcpy (replicate 16 0) mac 6;
     os \<leftarrow> blit (replicate 308 0) 0 opts;
     Some \<lparr>dp_op = 1, dp_htype = 1, dp_hlen = 6, dp_hops = 0, dp_xid = xid, dp_secs = 0, dp_flags = NET_HTONS 0x8000, dp_ciaddr = 0,
       dp_yiaddr = 0, dp_siaddr = 0, dp_giaddr = 0, dp_chaddr = ch, dp_sname = replicate 64 0, dp_file = replicate 128 0,
       dp_magic = NET_HTONL DHCP_MAGIC, dp_options = os\<rparr> }"

definition build_discover :: "u32 \<Rightarrow> bytes \<Rightarrow> dhcp_pkt_t option" where
  "build_discover xid mac = dhcp_message xid mac ([53, 1, DHCP_DISCOVER, 61, 7, 1] @ take 6 mac @ [55, 3, 1, 3, 6, 255])"

definition ip_octets :: "u32 \<Rightarrow> bytes" where
  "ip_octets a = [ucast (drop_bit 24 a), ucast (drop_bit 16 a), ucast (drop_bit 8 a), ucast a]"

definition build_request :: "u32 \<Rightarrow> bytes \<Rightarrow> u32 \<Rightarrow> u32 \<Rightarrow> dhcp_pkt_t option" where
  "build_request xid mac offer_ip srv_ip =
     dhcp_message xid mac ([53, 1, DHCP_REQUEST, 50, 4] @ ip_octets offer_ip @ [54, 4] @ ip_octets srv_ip @ [255])"

section \<open>Options\<close>

definition parse_ip :: "bytes \<Rightarrow> nat \<Rightarrow> u32 option" where
  "parse_ip b i = be32 b i"

record offer =
  of_msg_type :: u8
  of_srv :: u32
  of_dhcp :: dhcp

definition parse_option :: "u8 \<Rightarrow> u8 \<Rightarrow> bytes \<Rightarrow> nat \<Rightarrow> offer \<Rightarrow> offer option" where
  "parse_option tag len b o1 s =
     (if tag = 53 then do { m \<leftarrow> byte_at b o1; Some (s\<lparr>of_msg_type := m\<rparr>) }
      else if tag = 54 \<and> len = 4 then do { a \<leftarrow> parse_ip b o1; Some (s\<lparr>of_srv := a\<rparr>) }
      else if tag = 3 \<and> len \<ge> 4 then do { a \<leftarrow> parse_ip b o1; Some (s\<lparr>of_dhcp := (of_dhcp s)\<lparr>offered_gw := a\<rparr>\<rparr>) }
      else if tag = 6 \<and> len \<ge> 4 then do { a \<leftarrow> parse_ip b o1; Some (s\<lparr>of_dhcp := (of_dhcp s)\<lparr>offered_dns := a\<rparr>\<rparr>) }
      else Some s)"

text \<open>The bytes are those from the options to the end of the receive buffer; the loop looks at a byte before it tests the limit.\<close>

function parse_options :: "bytes \<Rightarrow> nat \<Rightarrow> offer \<Rightarrow> offer option" where
  "parse_options b o1 s =
     (case byte_at b o1 of None \<Rightarrow> None
      | Some tag \<Rightarrow>
          if tag = 255 \<or> o1 \<ge> 308 then Some s
          else if tag = 0 then parse_options b (o1 + 1) s
          else case byte_at b (o1 + 1) of None \<Rightarrow> None
          | Some len \<Rightarrow>
              (case parse_option tag len b (o1 + 2) s of None \<Rightarrow> None | Some s1 \<Rightarrow> parse_options b (o1 + 2 + unat len) s1))"
  by pat_completeness auto
termination by (relation "measure (\<lambda>(_, o1, _). 308 - o1)") auto

declare parse_options.simps [simp del]

definition parse_offer :: "bytes \<Rightarrow> u32 \<Rightarrow> dhcp \<Rightarrow> (u8 \<times> u32 \<times> dhcp) option" where
  "parse_offer buf srv_ip d =
     (if NET_HTONL (Packed.rd32 buf 236) \<noteq> DHCP_MAGIC then Some (0, srv_ip, d)
      else do {
        s \<leftarrow> parse_options (drop 240 buf) 0 \<lparr>of_msg_type = 0, of_srv = 0, of_dhcp = d\<rparr>;
        Some (if of_msg_type s = DHCP_OFFER \<or> of_msg_type s = DHCP_ACK
              then (of_msg_type s, of_srv s, (of_dhcp s)\<lparr>offered_ip := NET_HTONL (Packed.rd32 buf 16)\<rparr>)
              else (0, of_srv s, of_dhcp s)) })"

section \<open>The exchange\<close>

definition ip_args :: "u32 \<Rightarrow> fmt_arg list" where
  "ip_args a = [FUInt (drop_bit 24 a AND 0xFF), FUInt (drop_bit 16 a AND 0xFF), FUInt (drop_bit 8 a AND 0xFF), FUInt (a AND 0xFF)]"

definition send_message :: "'w net_ports \<Rightarrow> dhcp_pkt_t \<Rightarrow> net \<times> timer \<times> 'w \<Rightarrow> (int \<times> net \<times> timer \<times> 'w) option" where
  "send_message io p = net_send_udp io 0xFFFFFFFF DHCP_PORT_CLI DHCP_PORT_SRV (dhcp_bytes p) 548"

fun dhcp_wait ::
  "nat \<Rightarrow> 'w net_ports \<Rightarrow> u32 \<Rightarrow> bytes \<Rightarrow> bytes \<Rightarrow> u32 \<Rightarrow> dhcp \<times> bool \<times> net \<times> timer \<times> 'w \<Rightarrow> (int \<times> dhcp \<times> bool \<times> net \<times> timer \<times> 'w) option" where
  "dhcp_wait 0 io xid mac buf srv_ip (d, com, st, t, w) = Some (-1, d, com, st, t, w)"
| "dhcp_wait (Suc k) io xid mac buf srv_ip (d, com, st, t, w) = do {
     (t1, w1) \<leftarrow> timer_sleep 20 (np_io io) (t, w);
     (st1, w2) \<leftarrow> net_poll io (st, w1);
     (n, buf1, _, st2, w3) \<leftarrow> net_recv_udp io DHCP_PORT_CLI buf 556 (st1, w2);
     if n < 548 then dhcp_wait k io xid mac buf1 srv_ip (d, com, st2, t1, w3)
     else do {
       (ty, srv1, d1) \<leftarrow> parse_offer buf1 srv_ip d;
       if ty = DHCP_OFFER then do {
         (com1, w4) \<leftarrow> serial_printf (np_io io) (map of_char ''[dhcp] OFFER received: %u.%u.%u.%u'' @ [13, 10, 0]) (ip_args (offered_ip d1)) (com, w3);
         p \<leftarrow> build_request xid mac (offered_ip d1) srv1;
         (_, st3, t2, w5) \<leftarrow> send_message io p (st2, t1, w4);
         dhcp_wait k io xid mac buf1 srv1 (d1, com1, st3, t2, w5) }
       else if ty = DHCP_ACK then do {
         (com1, w4) \<leftarrow> serial_printf (np_io io) (map of_char ''[dhcp] ACK: IP=%u.%u.%u.%u GW=%u.%u.%u.%u'' @ [13, 10, 0])
            (ip_args (offered_ip d1) @ ip_args (offered_gw d1)) (com, w3);
         Some (0, d1, com1, st2, t1, w4) }
       else dhcp_wait k io xid mac buf1 srv1 (d1, com, st2, t1, w3) } }"

definition dhcp_request ::
  "'w net_ports \<Rightarrow> bytes \<Rightarrow> dhcp \<times> bool \<times> net \<times> timer \<times> 'w \<Rightarrow> (int \<times> dhcp \<times> bool \<times> net \<times> timer \<times> 'w) option" where
  "dhcp_request io buf = (\<lambda>(d, com, st, t, w).
     (if \<not> net_ready st then Some (-1, d, com, st, t, w)
      else do {
        let mac = net_get_mac st;
        let xid = 0xDEAD0042;
        p \<leftarrow> build_discover xid mac;
        (_, st1, t1, w1) \<leftarrow> send_message io p (st, t, w);
        (com1, w2) \<leftarrow> serial_printf (np_io io) (map of_char ''[dhcp] DISCOVER sent'' @ [13, 10, 0]) [] (com, w1);
        dhcp_wait 100 io xid mac buf 0 (d, com1, st1, t1, w2) }))"

definition dhcp_get_ip :: "dhcp \<Rightarrow> u32" where "dhcp_get_ip d = offered_ip d"
definition dhcp_get_gateway :: "dhcp \<Rightarrow> u32" where "dhcp_get_gateway d = offered_gw d"
definition dhcp_get_dns :: "dhcp \<Rightarrow> u32" where "dhcp_get_dns d = offered_dns d"

section \<open>Decoding\<close>

text \<open>The options as data: a tag with its value, or a padding byte (tag 0), and what the client takes from each.\<close>

fun tlv :: "u8 \<times> bytes \<Rightarrow> bytes" where
  "tlv (t, v) = (if t = 0 then [0] else t # of_nat (length v) # v)"

fun opt_ok :: "u8 \<times> bytes \<Rightarrow> bool" where
  "opt_ok (t, v) \<longleftrightarrow> t \<noteq> 255 \<and> length v < 256 \<and> (t = 53 \<longrightarrow> v \<noteq> [])"

definition octets_ip :: "bytes \<Rightarrow> u32" where
  "octets_ip v = NET_IP (ucast (v ! 0)) (ucast (v ! 1)) (ucast (v ! 2)) (ucast (v ! 3))"

fun apply_opt :: "u8 \<times> bytes \<Rightarrow> offer \<Rightarrow> offer" where
  "apply_opt (t, v) s =
     (if t = 53 then s\<lparr>of_msg_type := hd v\<rparr>
      else if t = 54 \<and> length v = 4 then s\<lparr>of_srv := octets_ip v\<rparr>
      else if t = 3 \<and> 4 \<le> length v then s\<lparr>of_dhcp := (of_dhcp s)\<lparr>offered_gw := octets_ip v\<rparr>\<rparr>
      else if t = 6 \<and> 4 \<le> length v then s\<lparr>of_dhcp := (of_dhcp s)\<lparr>offered_dns := octets_ip v\<rparr>\<rparr>
      else s)"

lemma be32_octets: "4 \<le> length v \<Longrightarrow> be32 (v @ r) 0 = Some (octets_ip v)"
  by (cases v) (auto simp: be32_def byte_at_def nth_append octets_ip_def NET_IP_def)

lemma parse_option_apply:
  assumes "opt_ok (t, v)"
  shows "parse_option t (of_nat (length v)) (pre @ v @ r) (length pre) s = Some (apply_opt (t, v) s)"
proof -
  have l: "unat (of_nat (length v) :: u8) = length v" using assms by (simp add: unat_of_nat take_bit_eq_mod)
  have four: "(of_nat (length v) :: u8) = 4 \<longleftrightarrow> length v = 4" "(4 :: u8) \<le> of_nat (length v) \<longleftrightarrow> 4 \<le> length v"
    using l by (simp_all add: word_unat_eq_iff word_le_nat_alt)
  have b: "byte_at (pre @ v @ r) (length pre) = Some (hd v)" if "v \<noteq> []"
    using that byte_at_append [of pre "v @ r" 0] by (cases v) (simp_all add: byte_at_def)
  have i: "be32 (pre @ v @ r) (length pre) = Some (octets_ip v)" if "4 \<le> length v"
    using be32_append [of pre "v @ r" 0] be32_octets [OF that] by simp
  show ?thesis using assms b i by (auto simp: parse_option_def parse_ip_def four)
qed

lemma parse_options_tlv:
  "\<forall>x \<in> set opts. opt_ok x \<Longrightarrow> length pre + length (concat (map tlv opts)) < 308 \<Longrightarrow>
     parse_options (pre @ concat (map tlv opts) @ 255 # rest) (length pre) s = Some (fold apply_opt opts s)"
proof (induction opts arbitrary: pre s)
  case Nil
  then show ?case using byte_at_append [of pre "255 # rest" 0] by (subst parse_options.simps) (simp add: byte_at_def)
next
  case (Cons x opts)
  obtain t v where x: "x = (t, v)" by (cases x)
  let ?more = "concat (map tlv opts) @ 255 # rest"
  have ok: "opt_ok (t, v)" "\<forall>x \<in> set opts. opt_ok x" using Cons.prems(1) x by simp_all
  have IH: "parse_options ((pre @ tlv x) @ ?more) (length (pre @ tlv x)) s1 = Some (fold apply_opt opts s1)" for s1
    by (rule Cons.IH) (use Cons.prems ok in auto)
  show ?case
  proof (cases "t = 0")
    case True
    have "byte_at (pre @ tlv x @ ?more) (length pre) = Some 0" using byte_at_append [of pre "tlv x @ ?more" 0] True x by (simp add: byte_at_def)
    then show ?thesis using IH [of s] True x Cons.prems(2) by (subst parse_options.simps) simp
  next
    case False
    let ?n = "of_nat (length v) :: u8"
    have u: "unat ?n = length v" using ok by (simp add: unat_of_nat take_bit_eq_mod)
    have tag: "byte_at (pre @ tlv x @ ?more) (length pre) = Some t" "byte_at (pre @ tlv x @ ?more) (length pre + 1) = Some ?n"
      using byte_at_append [of pre "tlv x @ ?more" 0] byte_at_append [of pre "tlv x @ ?more" 1] False x by (simp_all add: byte_at_def)
    have val: "parse_option t ?n (pre @ tlv x @ ?more) (length pre + 2) s = Some (apply_opt (t, v) s)"
      using parse_option_apply [OF ok(1), of "pre @ [t, ?n]" ?more s] False x by simp
    show ?thesis using IH [of "apply_opt (t, v) s"] tag val u False x ok Cons.prems(2)
      by (subst parse_options.simps) (simp add: add.assoc)
  qed
qed

text \<open>
  C33. The client reads the options of a message as the protocol defines them: for any list of options and padding bytes that fits into
  the 308 bytes, closed by the end mark and followed by anything, the loop returns what the options, taken one after the other, say
  about the message type, the server, the gateway and the name server; every other option is skipped.
\<close>

theorem dhcp_options_decode:
  assumes "\<forall>x \<in> set opts. opt_ok x" "length (concat (map tlv opts)) < 308"
  shows "parse_options (concat (map tlv opts) @ 255 # rest) 0 s = Some (fold apply_opt opts s)"
  using parse_options_tlv [of opts "[]" rest s] assms by simp

lemma dhcp_options_decode_witness:
  "parse_options ([53, 1, 2, 0, 51, 4, 0, 0, 14, 16, 54, 4, 10, 0, 2, 2, 3, 4, 10, 0, 2, 1] @ 255 # []) 0
       \<lparr>of_msg_type = 0, of_srv = 0, of_dhcp = \<lparr>offered_ip = 0, offered_gw = 0, offered_dns = 0\<rparr>\<rparr>
     = Some \<lparr>of_msg_type = 2, of_srv = NET_IP 10 0 2 2, of_dhcp = \<lparr>offered_ip = 0, offered_gw = NET_IP 10 0 2 1, offered_dns = 0\<rparr>\<rparr>"
  using dhcp_options_decode [of "[(53, [2]), (0, []), (51, [0, 0, 14, 16]), (54, [10, 0, 2, 2]), (3, [10, 0, 2, 1])]" "[]"
     "\<lparr>of_msg_type = 0, of_srv = 0, of_dhcp = \<lparr>offered_ip = 0, offered_gw = 0, offered_dns = 0\<rparr>\<rparr>"]
  by (simp add: octets_ip_def)

end
