(* ===== verification/Ext2.thy ===== *)
theory Ext2
  imports Ata Packed KString Vfs
begin

text \<open>
  The reader for ext2 volumes, \<^verbatim>\<open>src/ext2.c\<close>: super block, inodes with direct and singly indirect blocks, directories, paths, and
  the operations it gives to the VFS. The disk is the block device of \<open>Ata\<close>; a read that fails leaves the buffer. The
  uninitialised buffers of 4096 bytes on the stack are a parameter.
\<close>

section \<open>Structures\<close>

definition EXT2_MAGIC :: u16 where "EXT2_MAGIC = 0xEF53"
definition EXT2_ROOT_INO :: u32 where "EXT2_ROOT_INO = 2"

record ext2_super_t =
  s_inodes_count :: u32
  s_blocks_count :: u32
  s_r_blocks_count :: u32
  s_free_blocks_count :: u32
  s_free_inodes_count :: u32
  s_first_data_block :: u32
  s_log_block_size :: u32
  s_log_frag_size :: u32
  s_blocks_per_group :: u32
  s_frags_per_group :: u32
  s_inodes_per_group :: u32
  s_mtime :: u32
  s_wtime :: u32
  s_mnt_count :: u16
  s_max_mnt_count :: u16
  s_magic :: u16
  s_state :: u16
  s_errors :: u16
  s_minor_rev_level :: u16
  s_lastcheck :: u32
  s_checkinterval :: u32
  s_creator_os :: u32
  s_rev_level :: u32
  s_def_resuid :: u16
  s_def_resgid :: u16
  s_first_ino :: u32
  s_inode_size :: u16
  s_pad :: bytes

record ext2_bgd_t =
  bg_block_bitmap :: u32
  bg_inode_bitmap :: u32
  bg_inode_table :: u32
  bg_free_blocks_count :: u16
  bg_free_inodes_count :: u16
  bg_used_dirs_count :: u16
  bg_pad :: u16
  bg_reserved :: bytes

record ext2_inode_t =
  i_mode :: u16
  i_uid :: u16
  i_size :: u32
  i_times :: "u32 list"
  i_gid :: u16
  i_links_count :: u16
  i_blocks :: u32
  i_flags :: u32
  i_osd1 :: u32
  i_block :: "u32 list"
  i_rest :: bytes

definition super_of :: "bytes \<Rightarrow> ext2_super_t" where
  "super_of b = \<lparr>s_inodes_count = Packed.rd32 b 0, s_blocks_count = Packed.rd32 b 4, s_r_blocks_count = Packed.rd32 b 8,
     s_free_blocks_count = Packed.rd32 b 12, s_free_inodes_count = Packed.rd32 b 16, s_first_data_block = Packed.rd32 b 20,
     s_log_block_size = Packed.rd32 b 24, s_log_frag_size = Packed.rd32 b 28, s_blocks_per_group = Packed.rd32 b 32,
     s_frags_per_group = Packed.rd32 b 36, s_inodes_per_group = Packed.rd32 b 40, s_mtime = Packed.rd32 b 44, s_wtime = Packed.rd32 b 48,
     s_mnt_count = rd16 b 52, s_max_mnt_count = rd16 b 54, s_magic = rd16 b 56, s_state = rd16 b 58, s_errors = rd16 b 60,
     s_minor_rev_level = rd16 b 62, s_lastcheck = Packed.rd32 b 64, s_checkinterval = Packed.rd32 b 68, s_creator_os = Packed.rd32 b 72,
     s_rev_level = Packed.rd32 b 76, s_def_resuid = rd16 b 80, s_def_resgid = rd16 b 82, s_first_ino = Packed.rd32 b 84,
     s_inode_size = rd16 b 88, s_pad = drop 90 b\<rparr>"

definition bgd_of :: "bytes \<Rightarrow> ext2_bgd_t" where
  "bgd_of b = \<lparr>bg_block_bitmap = Packed.rd32 b 0, bg_inode_bitmap = Packed.rd32 b 4, bg_inode_table = Packed.rd32 b 8,
     bg_free_blocks_count = rd16 b 12, bg_free_inodes_count = rd16 b 14, bg_used_dirs_count = rd16 b 16, bg_pad = rd16 b 18,
     bg_reserved = drop 20 b\<rparr>"

definition inode_of :: "bytes \<Rightarrow> ext2_inode_t" where
  "inode_of b = \<lparr>i_mode = rd16 b 0, i_uid = rd16 b 2, i_size = Packed.rd32 b 4, i_times = map (\<lambda>k. Packed.rd32 b (8 + 4 * k)) [0..<4],
     i_gid = rd16 b 24, i_links_count = rd16 b 26, i_blocks = Packed.rd32 b 28, i_flags = Packed.rd32 b 32, i_osd1 = Packed.rd32 b 36,
     i_block = map (\<lambda>k. Packed.rd32 b (40 + 4 * k)) [0..<15], i_rest = drop 100 b\<rparr>"

record ext2 =
  e2_sb :: ext2_super_t
  e2_bgd :: ext2_bgd_t
  block_size :: u32
  lba_base :: u32
  e2_mounted :: bool

section \<open>Blocks and inodes\<close>

fun read_secs :: "nat \<Rightarrow> 'd dev \<Rightarrow> u32 \<Rightarrow> nat \<Rightarrow> bytes \<Rightarrow> 'd \<Rightarrow> (bytes \<times> 'd) option" where
  "read_secs 0 dv lba off buf d = Some (buf, d)"
| "read_secs (Suc n) dv lba off buf d = do {
     (x, d1) \<leftarrow> dv_rd dv 0 lba d;
     buf1 \<leftarrow> (case x of None \<Rightarrow> Some buf | Some s \<Rightarrow> blit buf off s);
     read_secs n dv (lba + 1) (off + 512) buf1 d1 }"

definition read_block :: "'d dev \<Rightarrow> ext2 \<Rightarrow> u32 \<Rightarrow> bytes \<Rightarrow> 'd \<Rightarrow> (bytes \<times> 'd) option" where
  "read_block dv st blk buf d =
     (let sectors_per_block = block_size st div 512
      in read_secs (unat sectors_per_block) dv (lba_base st + blk * sectors_per_block) 0 buf d)"

definition read_inode :: "'d dev \<Rightarrow> ext2 \<Rightarrow> bytes \<Rightarrow> u32 \<Rightarrow> 'd \<Rightarrow> (ext2_inode_t \<times> 'd) option" where
  "read_inode dv st junk ino d =
     (let isz = ucast (s_inode_size (e2_sb st)); ipg = s_inodes_per_group (e2_sb st); ipb = block_size st div isz
      in if isz = 0 \<or> ipg = 0 \<or> ipb = 0 then None
         else do {
           let idx = (ino - 1) mod ipg;
           (buf, d1) \<leftarrow> read_block dv st (bg_inode_table (e2_bgd st) + idx div ipb) junk d;
           b \<leftarrow> slice buf (unat ((idx mod ipb) * isz)) 128;
           Some (inode_of b, d1) })"

definition get_block :: "'d dev \<Rightarrow> ext2 \<Rightarrow> bytes \<Rightarrow> ext2_inode_t \<Rightarrow> u32 \<Rightarrow> 'd \<Rightarrow> (u32 \<times> 'd) option" where
  "get_block dv st junk ino n d =
     (if n < 12 then Some (i_block ino ! unat n, d)
      else if n < 12 + block_size st div 4 then do {
        (b, d1) \<leftarrow> read_block dv st (i_block ino ! 12) junk d;
        e \<leftarrow> slice b (4 * unat (n - 12)) 4;
        Some (Packed.rd32 e 0, d1) }
      else Some (0, d))"

section \<open>Directories\<close>

lemma step_less: "(w :: 'b :: len word) \<noteq> 0 \<Longrightarrow> off < bsz \<Longrightarrow> bsz - (off + unat w) < bsz - off"
  using unat_gt_0 [of w] by linarith

text \<open>One block of a directory, from \<^verbatim>\<open>off\<close> on: the inode of the first entry with the name.\<close>

function scan_dir :: "bytes \<Rightarrow> bytes \<Rightarrow> nat \<Rightarrow> nat \<Rightarrow> nat \<Rightarrow> u32 option option" where
  "scan_dir blk name nlen bsz off =
     (if off < bsz then
        (case slice blk off 8 of None \<Rightarrow> None
         | Some h \<Rightarrow>
             if rd16 h 4 = 0 then Some None
             else case (if Packed.rd32 h 0 \<noteq> 0 \<and> unat (h ! 6) = nlen
                        then map_option (\<lambda>r. r = 0) (kstrncmp (drop (off + 8) blk) name nlen) else Some False) of
               None \<Rightarrow> None
             | Some True \<Rightarrow> Some (Some (Packed.rd32 h 0))
             | Some False \<Rightarrow> scan_dir blk name nlen bsz (off + unat (rd16 h 4)))
      else Some None)"
  by pat_completeness auto
termination
  by (relation "measure (\<lambda>(_, _, _, bsz, off). bsz - off)") (auto intro: step_less)

declare scan_dir.simps [simp del]

partial_function (option) lookup_loop ::
  "'d dev \<Rightarrow> ext2 \<Rightarrow> bytes \<Rightarrow> ext2_inode_t \<Rightarrow> bytes \<Rightarrow> nat \<Rightarrow> bytes \<Rightarrow> u32 \<Rightarrow> u32 \<Rightarrow> 'd \<Rightarrow> (u32 \<times> 'd) option" where
  "lookup_loop dv st junk inode name nlen blk b rd d =
     (if rd < i_size inode then do {
        (bno, d1) \<leftarrow> get_block dv st junk inode b d;
        if bno = 0 then Some (0, d1)
        else do {
          (blk1, d2) \<leftarrow> read_block dv st bno blk d1;
          let bsz = (if i_size inode - rd > block_size st then block_size st else i_size inode - rd);
          r \<leftarrow> scan_dir blk1 name nlen (unat bsz) 0;
          case r of Some ino \<Rightarrow> Some (ino, d2)
          | None \<Rightarrow> lookup_loop dv st junk inode name nlen blk1 (b + 1) (rd + block_size st) d2 } }
      else Some (0, d))"

definition lookup_dir :: "'d dev \<Rightarrow> ext2 \<Rightarrow> bytes \<Rightarrow> u32 \<Rightarrow> bytes \<Rightarrow> 'd \<Rightarrow> (u32 \<times> 'd) option" where
  "lookup_dir dv st junk dir_ino name d = do {
     (inode, d1) \<leftarrow> read_inode dv st junk dir_ino d;
     nlen \<leftarrow> kstrlen name;
     lookup_loop dv st junk inode name nlen junk 0 0 d1 }"

text \<open>How far \<^verbatim>\<open>slash\<close> runs.\<close>

fun part_len :: "bytes \<Rightarrow> nat option" where
  "part_len [] = None"
| "part_len (c # s) = (if c \<noteq> 0 \<and> c \<noteq> 47 then map_option Suc (part_len s) else Some 0)"

lemma part_len_less: "part_len s = Some k \<Longrightarrow> k < length s \<and> (hd s \<noteq> 0 \<longrightarrow> hd s \<noteq> 47 \<longrightarrow> 0 < k)"
  by (induction s arbitrary: k) (fastforce split: if_splits)+

function path_loop :: "'d dev \<Rightarrow> ext2 \<Rightarrow> bytes \<Rightarrow> bytes \<Rightarrow> u32 \<Rightarrow> 'd \<Rightarrow> (u32 \<times> 'd) option" where
  "path_loop dv st junk p ino d =
     (case p of [] \<Rightarrow> None
      | c # _ \<Rightarrow>
          if c = 0 then Some (ino, d)
          else case part_len p of None \<Rightarrow> None
          | Some len \<Rightarrow>
              if len > 255 then None
              else case lookup_dir dv st junk ino (take len p @ [0]) d of None \<Rightarrow> None
              | Some (ino1, d1) \<Rightarrow>
                  if ino1 = 0 then Some (0, d1)
                  else path_loop dv st junk (if p ! len \<noteq> 0 then drop (len + 1) p else drop len p) ino1 d1)"
  by pat_completeness auto
termination
proof (relation "measure (\<lambda>(_, _, _, p, _, _). length p)")
  fix dv :: "'d dev" and st junk d p c cs len ino y ino1 d1
  assume p: "p = c # cs" "c \<noteq> 0" "part_len p = Some len"
  then have "len < length p" "c \<noteq> 47 \<Longrightarrow> 0 < len" using part_len_less [of p len] by auto
  moreover have "len = 0 \<Longrightarrow> p ! len = c" using p(1) by simp
  ultimately show "((dv, st, junk, if p ! len \<noteq> 0 then drop (len + 1) p else drop len p, ino1, d1), dv, st, junk, p, ino, d)
      \<in> measure (\<lambda>(_, _, _, p, _, _). length p)"
    using p(2) by (cases "len = 0") auto
qed simp

declare path_loop.simps [simp del]

definition path_to_ino :: "'d dev \<Rightarrow> ext2 \<Rightarrow> bytes \<Rightarrow> bytes \<Rightarrow> 'd \<Rightarrow> (u32 \<times> 'd) option" where
  "path_to_ino dv st junk path d =
     (case path of [] \<Rightarrow> None
      | c # r \<Rightarrow>
          if c = 0 then Some (EXT2_ROOT_INO, d)
          else if c = 47 then (case r of [] \<Rightarrow> None
            | e # _ \<Rightarrow> if e = 0 then Some (EXT2_ROOT_INO, d) else path_loop dv st junk r EXT2_ROOT_INO d)
          else path_loop dv st junk path EXT2_ROOT_INO d)"

section \<open>Operations\<close>

text \<open>
  \<^verbatim>\<open>sb\<close> has 1030 bytes and is copied from \<^verbatim>\<open>tmp[1024]\<close>: \<open>behind\<close> is what lies behind \<^verbatim>\<open>tmp\<close> on the stack. The buffers of the two
  reads are \<open>tmp\<close> and \<open>bgd_buf\<close>.
\<close>

definition ext2_init :: "'d dev \<Rightarrow> bytes \<Rightarrow> bytes \<Rightarrow> bytes \<Rightarrow> u32 \<Rightarrow> ext2 \<times> 'd \<Rightarrow> (int \<times> ext2 \<times> 'd) option" where
  "ext2_init dv tmp behind bgd_buf lba_start = (\<lambda>(st, d). do {
     (tmp1, d1) \<leftarrow> read_secs 2 dv (lba_start + 2) 0 tmp d;
     b \<leftarrow> slice (tmp1 @ behind) 0 1030;
     let st1 = st\<lparr>lba_base := lba_start, e2_sb := super_of b\<rparr>;
     if s_magic (e2_sb st1) \<noteq> EXT2_MAGIC then Some (-1, st1, d1)
     else if s_log_block_size (e2_sb st1) \<ge> 32 then None
     else do {
       let bs = push_bit (unat (s_log_block_size (e2_sb st1))) 1024;
       (g, d2) \<leftarrow> read_secs 1 dv (lba_start + (if bs = 1024 then 4 else bs div 512)) 0 bgd_buf d1;
       gb \<leftarrow> slice g 0 32;
       Some (0, st1\<lparr>block_size := bs, e2_bgd := bgd_of gb, e2_mounted := True\<rparr>, d2) } })"

definition ext2_mounted :: "ext2 \<Rightarrow> bool" where
  "ext2_mounted st = e2_mounted st"

text \<open>The loop that copies a file, the same in \<^verbatim>\<open>ext2_read_file\<close> and \<^verbatim>\<open>e2_read\<close>.\<close>

partial_function (option) file_loop ::
  "'d dev \<Rightarrow> ext2 \<Rightarrow> bytes \<Rightarrow> ext2_inode_t \<Rightarrow> u32 \<Rightarrow> bytes \<Rightarrow> bytes \<Rightarrow> u32 \<Rightarrow> u32 \<Rightarrow> 'd \<Rightarrow> (u32 \<times> bytes \<times> 'd) option" where
  "file_loop dv st junk inode tot buf blk b done1 d =
     (if done1 < tot then do {
        (bno, d1) \<leftarrow> get_block dv st junk inode b d;
        if bno = 0 then Some (done1, buf, d1)
        else do {
          (blk1, d2) \<leftarrow> read_block dv st bno blk d1;
          let chunk = (if tot - done1 > block_size st then block_size st else tot - done1);
          x \<leftarrow> slice blk1 0 (unat chunk);
          buf1 \<leftarrow> blit buf (unat done1) x;
          file_loop dv st junk inode tot buf1 blk1 (b + 1) (done1 + chunk) d2 } }
      else Some (done1, buf, d))"

definition e2_read :: "'d dev \<Rightarrow> bytes \<Rightarrow> int \<Rightarrow> bytes \<Rightarrow> u32 \<Rightarrow> ext2 \<times> 'd \<Rightarrow> (int \<times> bytes \<times> ext2 \<times> 'd) option" where
  "e2_read dv junk fd buf len = (\<lambda>(st, d). do {
     (inode, d1) \<leftarrow> read_inode dv st junk (of_int fd) d;
     (n, buf1, d2) \<leftarrow> file_loop dv st junk inode (if i_size inode < len then i_size inode else len) buf junk 0 0 d1;
     Some (sint n, buf1, st, d2) })"

definition ext2_read_file :: "'d dev \<Rightarrow> bytes \<Rightarrow> bytes \<Rightarrow> bytes \<Rightarrow> u32 \<Rightarrow> ext2 \<times> 'd \<Rightarrow> (int \<times> bytes \<times> ext2 \<times> 'd) option" where
  "ext2_read_file dv junk path buf sz = (\<lambda>(st, d).
     (if \<not> e2_mounted st then Some (-1, buf, st, d)
      else do {
        (ino, d1) \<leftarrow> path_to_ino dv st junk path d;
        if ino = 0 then Some (-1, buf, st, d1)
        else do {
          (inode, d2) \<leftarrow> read_inode dv st junk ino d1;
          (n, buf1, d3) \<leftarrow> file_loop dv st junk inode (if i_size inode < sz then i_size inode else sz) buf junk 0 0 d2;
          Some (sint n, buf1, st, d3) } }))"

text \<open>One block of a listing; entries of names other than the two dots, each on a line, as long as there is room.\<close>

definition list_name :: "bytes \<Rightarrow> nat \<Rightarrow> bool" where
  "list_name nm len \<longleftrightarrow> len \<noteq> 0 \<and> \<not> (len = 1 \<and> nm ! 0 = 46) \<and> \<not> (len = 2 \<and> nm ! 0 = 46 \<and> nm ! 1 = 46)"

function list_block :: "bytes \<Rightarrow> nat \<Rightarrow> u32 \<Rightarrow> nat \<Rightarrow> bytes \<Rightarrow> u32 \<Rightarrow> (bytes \<times> u32) option" where
  "list_block blk bs sz off buf pos =
     (if off < bs then
        (case slice blk off 8 of None \<Rightarrow> None
         | Some h \<Rightarrow>
             if rd16 h 4 = 0 then Some (buf, pos)
             else let len = unat (h ! 6) in
               case (if Packed.rd32 h 0 \<noteq> 0 \<and> len \<noteq> 0
                     then do {
                       nm \<leftarrow> slice blk (off + 8) len;
                       if list_name nm len \<and> pos + of_nat len + 2 < sz
                       then map_option (\<lambda>b. (b, pos + of_nat len + 1)) (blit buf (unat pos) (nm @ [10]))
                       else Some (buf, pos) }
                     else Some (buf, pos)) of
                 None \<Rightarrow> None
               | Some (buf1, pos1) \<Rightarrow> list_block blk bs sz (off + unat (rd16 h 4)) buf1 pos1)
      else Some (buf, pos))"
  by pat_completeness auto
termination
  by (relation "measure (\<lambda>(_, bs, _, off, _, _). bs - off)") (auto intro: step_less)

declare list_block.simps [simp del]

partial_function (option) list_loop ::
  "'d dev \<Rightarrow> ext2 \<Rightarrow> bytes \<Rightarrow> ext2_inode_t \<Rightarrow> u32 \<Rightarrow> bytes \<Rightarrow> u32 \<Rightarrow> u32 \<Rightarrow> bytes \<Rightarrow> u32 \<Rightarrow> 'd \<Rightarrow> (bytes \<times> u32 \<times> 'd) option" where
  "list_loop dv st junk inode sz blk b rd buf pos d =
     (if rd < i_size inode then do {
        (bno, d1) \<leftarrow> get_block dv st junk inode b d;
        if bno = 0 then Some (buf, pos, d1)
        else do {
          (blk1, d2) \<leftarrow> read_block dv st bno blk d1;
          (buf1, pos1) \<leftarrow> list_block blk1 (unat (block_size st)) sz 0 buf pos;
          list_loop dv st junk inode sz blk1 (b + 1) (rd + block_size st) buf1 pos1 d2 } }
      else Some (buf, pos, d))"

definition ext2_list_dir :: "'d dev \<Rightarrow> bytes \<Rightarrow> bytes \<Rightarrow> bytes \<Rightarrow> u32 \<Rightarrow> ext2 \<times> 'd \<Rightarrow> (int \<times> bytes \<times> ext2 \<times> 'd) option" where
  "ext2_list_dir dv junk path buf sz = (\<lambda>(st, d).
     (if \<not> e2_mounted st then Some (-1, buf, st, d)
      else do {
        (ino, d1) \<leftarrow> path_to_ino dv st junk path d;
        if ino = 0 then Some (-1, buf, st, d1)
        else do {
          (inode, d2) \<leftarrow> read_inode dv st junk ino d1;
          (buf1, pos, d3) \<leftarrow> list_loop dv st junk inode sz junk 0 0 buf 0 d2;
          buf2 \<leftarrow> blit buf1 (unat pos) [0];
          Some (sint pos, buf2, st, d3) } }))"

definition ext2_stat :: "'d dev \<Rightarrow> bytes \<Rightarrow> bytes \<Rightarrow> u32 \<Rightarrow> ext2 \<times> 'd \<Rightarrow> (int \<times> u32 \<times> ext2 \<times> 'd) option" where
  "ext2_stat dv junk path size0 = (\<lambda>(st, d).
     (if \<not> e2_mounted st then Some (-1, size0, st, d)
      else do {
        (ino, d1) \<leftarrow> path_to_ino dv st junk path d;
        if ino = 0 then Some (-1, size0, st, d1)
        else do { (inode, d2) \<leftarrow> read_inode dv st junk ino d1; Some (0, i_size inode, st, d2) } }))"

definition e2_open :: "'d dev \<Rightarrow> bytes \<Rightarrow> bytes \<Rightarrow> u32 \<Rightarrow> ext2 \<times> 'd \<Rightarrow> (int \<times> ext2 \<times> 'd) option" where
  "e2_open dv junk path flags = (\<lambda>(st, d). do {
     (ino, d1) \<leftarrow> path_to_ino dv st junk path d;
     Some (if ino \<noteq> 0 then sint ino else -1, st, d1) })"

definition e2_close :: "int \<Rightarrow> ext2 \<times> 'd \<Rightarrow> (int \<times> ext2 \<times> 'd) option" where
  "e2_close fd s = Some (0, s)"

definition e2_write :: "int \<Rightarrow> bytes \<Rightarrow> u32 \<Rightarrow> ext2 \<times> 'd \<Rightarrow> (int \<times> ext2 \<times> 'd) option" where
  "e2_write fd buf len s = Some (-1, s)"

definition e2_stat :: "'d dev \<Rightarrow> bytes \<Rightarrow> bytes \<Rightarrow> vfs_stat_t \<Rightarrow> ext2 \<times> 'd \<Rightarrow> (int \<times> vfs_stat_t \<times> ext2 \<times> 'd) option" where
  "e2_stat dv junk path st0 s = do {
     (r, size, s1) \<leftarrow> ext2_stat dv junk path 0 s;
     if r < 0 then Some (-1, st0, s1)
     else do { nm \<leftarrow> kstrcpy (st_name st0) path; Some (0, \<lparr>st_size = size, st_type = VFS_FILE, st_name = nm\<rparr>, s1) } }"

definition e2_readdir :: "'d dev \<Rightarrow> bytes \<Rightarrow> bytes \<Rightarrow> bytes \<Rightarrow> u32 \<Rightarrow> ext2 \<times> 'd \<Rightarrow> (int \<times> bytes \<times> ext2 \<times> 'd) option" where
  "e2_readdir dv junk path buf sz s = ext2_list_dir dv junk path buf sz s"

definition ext2_vfs_ops :: "'d dev \<Rightarrow> bytes \<Rightarrow> (ext2 \<times> 'd) vfs_ops_t" where
  "ext2_vfs_ops dv junk = \<lparr>op_open = Some (e2_open dv junk), op_close = Some e2_close, op_read = Some (e2_read dv junk), op_write = Some e2_write,
     op_stat = Some (e2_stat dv junk), op_readdir = Some (e2_readdir dv junk), op_unlink = None, op_mkdir = None\<rparr>"

end
