(* ===== verification/Ext2Props.thy ===== *)
theory Ext2Props
  imports Ext2
begin

text \<open>
  Files of an ext2 volume on a block device: the blocks an inode stands for, and that reading returns their bytes.
\<close>

section \<open>Blocks of a volume\<close>

definition bsz :: "ext2 \<Rightarrow> nat" where
  "bsz st = unat (block_size st)"

definition spb :: "ext2 \<Rightarrow> nat" where
  "spb st = bsz st div 512"

definition vol_shape :: "nat \<Rightarrow> ext2 \<Rightarrow> bool" where
  "vol_shape nsec st \<longleftrightarrow> (block_size st = 1024 \<or> block_size st = 2048 \<or> block_size st = 4096) \<and> nsec < 2 ^ 32"

text \<open>The block lies on the disk, and the bytes it holds.\<close>

definition block_on :: "nat \<Rightarrow> ext2 \<Rightarrow> u32 \<Rightarrow> bool" where
  "block_on nsec st n \<longleftrightarrow> unat (lba_base st) + (unat n + 1) * spb st \<le> nsec"

definition block_bytes :: "ext2 \<Rightarrow> (nat \<Rightarrow> bytes) \<Rightarrow> u32 \<Rightarrow> bytes" where
  "block_bytes st sec n = concat (map (\<lambda>i. sec (unat (lba_base st) + unat n * spb st + i)) [0..<spb st])"

lemma vol_shapeD:
  assumes "vol_shape nsec st"
  shows "bsz st = 512 * spb st" "0 < spb st" "bsz st \<le> 4096" "unat (block_size st div 512) = spb st" "4 dvd bsz st" "0 < bsz st" "spb st \<le> 8"
  using assms by (auto simp: vol_shape_def bsz_def spb_def)

lemma length_concat_const: "(\<And>i. length (f i) = k) \<Longrightarrow> length (concat (map f [0..<n])) = n * k"
  by (induction n) auto

text \<open>Where the inode is stored, the number of the n-th block of a file, and the contents of the file.\<close>

definition inode_at :: "ext2 \<Rightarrow> (nat \<Rightarrow> bytes) \<Rightarrow> u32 \<Rightarrow> ext2_inode_t" where
  "inode_at st sec ino =
     (let isz = ucast (s_inode_size (e2_sb st)); idx = (ino - 1) mod s_inodes_per_group (e2_sb st); ipb = block_size st div isz
      in inode_of (take 128 (drop (unat ((idx mod ipb) * isz)) (block_bytes st sec (bg_inode_table (e2_bgd st) + idx div ipb)))))"

definition inode_ok :: "nat \<Rightarrow> ext2 \<Rightarrow> u32 \<Rightarrow> bool" where
  "inode_ok nsec st ino \<longleftrightarrow>
     (let isz = ucast (s_inode_size (e2_sb st)); ipg = s_inodes_per_group (e2_sb st); idx = (ino - 1) mod ipg; ipb = block_size st div isz
      in isz \<noteq> 0 \<and> ipg \<noteq> 0 \<and> ipb \<noteq> 0 \<and> block_on nsec st (bg_inode_table (e2_bgd st) + idx div ipb)
         \<and> unat ((idx mod ipb) * isz) + 128 \<le> bsz st)"

definition file_block :: "ext2 \<Rightarrow> (nat \<Rightarrow> bytes) \<Rightarrow> ext2_inode_t \<Rightarrow> nat \<Rightarrow> u32" where
  "file_block st sec inode n =
     (if n < 12 then i_block inode ! n else Packed.rd32 (take 4 (drop (4 * (n - 12)) (block_bytes st sec (i_block inode ! 12)))) 0)"

definition file_bytes :: "ext2 \<Rightarrow> (nat \<Rightarrow> bytes) \<Rightarrow> ext2_inode_t \<Rightarrow> nat \<Rightarrow> bytes" where
  "file_bytes st sec inode nb = concat (map (\<lambda>n. block_bytes st sec (file_block st sec inode n)) [0..<nb])"

definition file_ok :: "nat \<Rightarrow> ext2 \<Rightarrow> (nat \<Rightarrow> bytes) \<Rightarrow> ext2_inode_t \<Rightarrow> nat \<Rightarrow> bool" where
  "file_ok nsec st sec inode nb \<longleftrightarrow> nb \<le> 12 + bsz st div 4 \<and> (12 < nb \<longrightarrow> block_on nsec st (i_block inode ! 12))
     \<and> (\<forall>n < nb. file_block st sec inode n \<noteq> 0 \<and> block_on nsec st (file_block st sec inode n))"

section \<open>Reading on a block device\<close>

context block_device
begin

lemma read_secs_ok:
  assumes "drive = 0" "nsec < 2 ^ 32"
  shows "ok d \<Longrightarrow> unat lba + n \<le> nsec \<Longrightarrow> off + 512 * n \<le> length buf \<Longrightarrow>
    \<exists>d'. read_secs n dv lba off buf d
      = Some (take off buf @ concat (map (\<lambda>i. sec d (unat lba + i)) [0..<n]) @ drop (off + 512 * n) buf, d') \<and> ok d' \<and> sec d' = sec d"
proof (induction n arbitrary: lba off buf d)
  case (Suc n)
  obtain d1 where d1: "dv_rd dv 0 lba d = Some (Some (sec d (unat lba)), d1)" "ok d1" "sec d1 = sec d"
    using rd [OF Suc.prems(1), of lba] Suc.prems(2) assms(1) by auto
  have l: "length (sec d (unat lba)) = 512" using len [OF Suc.prems(1)] .
  define b1 where "b1 = take off buf @ sec d (unat lba) @ drop (off + 512) buf"
  have b1: "blit buf off (sec d (unat lba)) = Some b1" "length b1 = length buf" using Suc.prems(3) l by (auto simp: blit_def b1_def)
  have tk: "take (off + 512) b1 = take off buf @ sec d (unat lba)" "drop (off + 512 + 512 * n) b1 = drop (off + 512 * Suc n) buf"
    using Suc.prems(3) l by (simp_all add: b1_def ac_simps)
  have cc: "concat (map (\<lambda>i. sec d (unat lba + i)) [0..<Suc n]) = sec d (unat lba) @ concat (map (\<lambda>i. sec d (unat lba + 1 + i)) [0..<n])"
    by (simp add: upt_conv_Cons map_Suc_upt [symmetric] comp_def del: upt_Suc)
  show ?case
  proof (cases "n = 0")
    case True
    then show ?thesis using d1 b1(1) by (auto simp: b1_def)
  next
    case False
    have u: "unat (lba + 1) = unat lba + 1" using Suc.prems(2) assms(2) False by (simp add: unat_word_ariths)
    obtain d2 where "read_secs n dv (lba + 1) (off + 512) b1 d1
        = Some (take (off + 512) b1 @ concat (map (\<lambda>i. sec d1 (unat (lba + 1) + i)) [0..<n]) @ drop (off + 512 + 512 * n) b1, d2)"
        "ok d2" "sec d2 = sec d1"
      using Suc.IH [OF d1(2), of "lba + 1" "off + 512" b1] Suc.prems(2,3) u b1(2) by auto
    then show ?thesis using d1 b1(1) cc by (simp add: u tk del: upt_Suc)
  qed
qed simp

lemma block_length: "ok d \<Longrightarrow> vol_shape nsec st \<Longrightarrow> length (block_bytes st (sec d) n) = bsz st"
  using length_concat_const [of "\<lambda>i. sec d (unat (lba_base st) + unat n * spb st + i)" 512 "spb st"] len [of d] vol_shapeD(1) [of nsec st]
  by (simp add: block_bytes_def)

lemma read_block_ok:
  assumes "drive = 0" "ok d" "vol_shape nsec st" "block_on nsec st n" "length buf = 4096"
  shows "\<exists>d'. read_block dv st n buf d = Some (block_bytes st (sec d) n @ drop (bsz st) buf, d') \<and> ok d' \<and> sec d' = sec d"
proof -
  note s = vol_shapeD [OF assms(3)]
  have m: "unat n * spb st + spb st + unat (lba_base st) < 2 ^ 32"
    using assms(3,4) by (simp add: vol_shape_def block_on_def algebra_simps)
  have w: "unat (n * (block_size st div 512)) = unat n * spb st" using m s(4) by (simp add: unat_word_ariths)
  then have u: "unat (lba_base st + n * (block_size st div 512)) = unat (lba_base st) + unat n * spb st" using m by (simp add: unat_word_ariths)
  have "\<exists>d'. read_secs (spb st) dv (lba_base st + n * (block_size st div 512)) 0 buf d
      = Some (take 0 buf @ concat (map (\<lambda>i. sec d (unat (lba_base st + n * (block_size st div 512)) + i)) [0..<spb st]) @ drop (0 + 512 * spb st) buf, d')
      \<and> ok d' \<and> sec d' = sec d"
    by (rule read_secs_ok [OF assms(1) _ assms(2)]) (use assms(3,4,5) s u in \<open>auto simp: vol_shape_def block_on_def algebra_simps\<close>)
  then show ?thesis unfolding read_block_def Let_def s(4) u by (simp add: block_bytes_def s(1))
qed

lemma get_block_ok:
  assumes "drive = 0" "ok d" "vol_shape nsec st" "length junk = 4096" "n < 12 + bsz st div 4" "12 \<le> n \<Longrightarrow> block_on nsec st (i_block inode ! 12)"
  shows "\<exists>d'. get_block dv st junk inode (of_nat n) d = Some (file_block st (sec d) inode n, d') \<and> ok d' \<and> sec d' = sec d"
proof -
  note s = vol_shapeD [OF assms(3)]
  have u: "unat (of_nat n :: u32) = n" using assms(5) s(3) by (simp add: unat_of_nat take_bit_eq_mod)
  show ?thesis
  proof (cases "n < 12")
    case True
    then have "(of_nat n :: u32) < 12" using u by (simp add: word_less_nat_alt)
    then show ?thesis using True u assms(2) by (simp add: get_block_def file_block_def)
  next
    case False
    have nl: "\<not> (of_nat n :: u32) < 12" using u False by (simp add: word_less_nat_alt)
    have d4: "unat (block_size st div 4) = bsz st div 4" by (simp add: bsz_def unat_div)
    have "unat (12 + block_size st div 4) = 12 + bsz st div 4" using s(3) d4 by (simp add: unat_word_ariths)
    then have lt: "(of_nat n :: u32) < 12 + block_size st div 4" using u assms(5) by (simp add: word_less_nat_alt)
    have sub: "unat (of_nat n - 12 :: u32) = n - 12" using u False by (simp add: unat_sub word_le_nat_alt)
    obtain d1 where d1: "read_block dv st (i_block inode ! 12) junk d
        = Some (block_bytes st (sec d) (i_block inode ! 12) @ drop (bsz st) junk, d1)" "ok d1" "sec d1 = sec d"
      using read_block_ok [OF assms(1-3) _ assms(4)] assms(6) False by auto
    have l: "4 * (n - 12) + 4 \<le> bsz st" using assms(5) False s(5) by auto
    have "slice (block_bytes st (sec d) (i_block inode ! 12) @ drop (bsz st) junk) (4 * (n - 12)) 4
        = Some (take 4 (drop (4 * (n - 12)) (block_bytes st (sec d) (i_block inode ! 12))))"
      using l block_length [OF assms(2,3)] by (simp add: slice_def)
    then show ?thesis using nl lt sub d1 False by (simp add: get_block_def file_block_def)
  qed
qed

lemma read_inode_ok:
  assumes "drive = 0" "ok d" "vol_shape nsec st" "length junk = 4096" "inode_ok nsec st ino"
  shows "\<exists>d'. read_inode dv st junk ino d = Some (inode_at st (sec d) ino, d') \<and> ok d' \<and> sec d' = sec d"
proof -
  define isz where "isz = (ucast (s_inode_size (e2_sb st)) :: u32)"
  define idx where "idx = (ino - 1) mod s_inodes_per_group (e2_sb st)"
  define ipb where "ipb = block_size st div isz"
  have i: "isz \<noteq> 0" "s_inodes_per_group (e2_sb st) \<noteq> 0" "ipb \<noteq> 0" "block_on nsec st (bg_inode_table (e2_bgd st) + idx div ipb)"
    "unat ((idx mod ipb) * isz) + 128 \<le> bsz st"
    using assms(5) by (simp_all add: inode_ok_def isz_def idx_def ipb_def Let_def)
  let ?b = "block_bytes st (sec d) (bg_inode_table (e2_bgd st) + idx div ipb)"
  obtain d1 where d1: "read_block dv st (bg_inode_table (e2_bgd st) + idx div ipb) junk d = Some (?b @ drop (bsz st) junk, d1)" "ok d1" "sec d1 = sec d"
    using read_block_ok [OF assms(1-3) i(4) assms(4)] by auto
  have "slice (?b @ drop (bsz st) junk) (unat ((idx mod ipb) * isz)) 128 = Some (take 128 (drop (unat ((idx mod ipb) * isz)) ?b))"
    using i(5) block_length [OF assms(2,3)] by (simp add: slice_def)
  then have "read_inode dv st junk ino d = Some (inode_at st (sec d) ino, d1)"
    unfolding read_inode_def inode_at_def Let_def using i d1(1) by (simp add: isz_def idx_def ipb_def)
  then show ?thesis using d1 by auto
qed

text \<open>The loop from its \<open>k\<close>-th round on.\<close>

lemma file_loop_ok:
  assumes dr: "drive = 0" and vs: "vol_shape nsec st" and jk: "length junk = 4096" and fo: "file_ok nsec st (sec d0) inode nb"
    and nb: "unat tot \<le> nb * bsz st" "(nb - 1) * bsz st < unat tot \<or> nb = 0"
  shows "ok d \<Longrightarrow> sec d = sec d0 \<Longrightarrow> k \<le> nb \<Longrightarrow> unat tot \<le> length buf \<Longrightarrow> length blk = 4096 \<Longrightarrow>
    \<exists>d'. file_loop dv st junk inode tot buf blk (of_nat k) (of_nat (min (k * bsz st) (unat tot))) d
      = Some (tot, take (min (k * bsz st) (unat tot)) buf
           @ take (unat tot - k * bsz st) (concat (map (\<lambda>n. block_bytes st (sec d0) (file_block st (sec d0) inode n)) [k..<nb]))
           @ drop (unat tot) buf, d')
      \<and> ok d' \<and> sec d' = sec d0"
proof (induction "nb - k" arbitrary: k buf blk d)
  case 0
  then have "nb = k" by simp
  then have "min (k * bsz st) (unat tot) = unat tot" using nb(1) by simp
  then show ?case using 0 \<open>nb = k\<close> by (subst file_loop.simps) simp
next
  case (Suc m)
  note s = vol_shapeD [OF vs]
  define B where "B n = block_bytes st (sec d0) (file_block st (sec d0) inode n)" for n
  have kn: "k < nb" using Suc.hyps(2) by simp
  have "k * bsz st \<le> (nb - 1) * bsz st" using kn by (intro mult_le_mono1) simp
  then have lt: "k * bsz st < unat tot" using nb(2) kn by linarith
  have t32: "unat tot < 2 ^ 32" by (rule unat_u32_lt)
  have dn: "unat (of_nat (k * bsz st) :: u32) = k * bsz st" using lt t32 by (simp add: unat_of_nat take_bit_eq_mod del: of_nat_mult)
  have mn: "min (k * bsz st) (unat tot) = k * bsz st" using lt by simp
  have go: "(of_nat (k * bsz st) :: u32) < tot" using dn lt by (simp add: word_less_nat_alt del: of_nat_mult)
  have fk: "file_block st (sec d0) inode k \<noteq> 0" "block_on nsec st (file_block st (sec d0) inode k)" "k < 12 + bsz st div 4"
    "12 \<le> k \<Longrightarrow> block_on nsec st (i_block inode ! 12)" using fo kn by (auto simp: file_ok_def)
  obtain d1 where d1: "get_block dv st junk inode (of_nat k) d = Some (file_block st (sec d0) inode k, d1)" "ok d1" "sec d1 = sec d0"
    using get_block_ok [OF dr Suc.prems(1) vs jk fk(3,4)] Suc.prems(2) by auto
  obtain d2 where d2: "read_block dv st (file_block st (sec d0) inode k) blk d1 = Some (B k @ drop (bsz st) blk, d2)" "ok d2" "sec d2 = sec d0"
    using read_block_ok [OF dr d1(2) vs fk(2) Suc.prems(5)] d1(3) by (auto simp: B_def)
  have lB: "length (B n) = bsz st" for n using block_length [OF d1(2) vs] d1(3) by (simp add: B_def)
  define c where "c = min (bsz st) (unat tot - k * bsz st)"
  define chunk where "chunk = (if tot - of_nat (k * bsz st) > block_size st then block_size st else tot - of_nat (k * bsz st))"
  have "unat (tot - of_nat (k * bsz st)) = unat tot - k * bsz st" using dn lt by (simp add: unat_sub word_le_nat_alt del: of_nat_mult)
  then have uc: "unat chunk = c" by (auto simp: chunk_def c_def bsz_def word_less_nat_alt)
  have sl: "slice (B k @ drop (bsz st) blk) 0 c = Some (take c (B k))" using lB by (simp add: slice_def c_def)
  define buf1 where "buf1 = take (k * bsz st) buf @ take c (B k) @ drop (k * bsz st + c) buf"
  have b1: "blit buf (k * bsz st) (take c (B k)) = Some buf1" "length buf1 = length buf"
    using Suc.prems(4) lt lB by (auto simp: blit_def buf1_def c_def)
  have nx: "min (Suc k * bsz st) (unat tot) = k * bsz st + c" using lt by (auto simp: c_def)
  have "k * bsz st + c \<le> unat tot" using lt by (auto simp: c_def)
  then have done1: "(of_nat (k * bsz st) + chunk :: u32) = of_nat (min (Suc k * bsz st) (unat tot))"
    unfolding nx using dn uc t32 by (intro word_unat_eq_iff [THEN iffD2]) (simp add: unat_word_ariths unat_of_nat take_bit_eq_mod)
  have m: "m = nb - Suc k" "Suc k \<le> nb" using Suc.hyps(2) kn by simp_all
  have lb: "length (B k @ drop (bsz st) blk) = 4096" using lB Suc.prems(5) s(3) by simp
  have len1: "unat tot \<le> length buf1" using b1(2) Suc.prems(4) by simp
  obtain d' where d': "file_loop dv st junk inode tot buf1 (B k @ drop (bsz st) blk) (of_nat (Suc k)) (of_nat (min (Suc k * bsz st) (unat tot))) d2
      = Some (tot, take (min (Suc k * bsz st) (unat tot)) buf1 @ take (unat tot - Suc k * bsz st) (concat (map B [Suc k..<nb])) @ drop (unat tot) buf1, d')"
      "ok d'" "sec d' = sec d0"
    using Suc.hyps(1) [OF m(1) d2(2,3) m(2) len1 lb] unfolding B_def by blast
  have "take (k * bsz st + c) buf1 = take (k * bsz st) buf @ take c (B k)" "drop (unat tot) buf1 = drop (unat tot) buf"
    using Suc.prems(4) lt lB \<open>k * bsz st + c \<le> unat tot\<close> by (simp_all add: buf1_def min_def c_def)
  moreover have "take (unat tot - k * bsz st) (concat (map B [k..<nb])) = take c (B k) @ take (unat tot - Suc k * bsz st) (concat (map B [Suc k..<nb]))"
    using kn lB by (simp add: upt_conv_Cons c_def min_def add.commute)
  ultimately have "file_loop dv st junk inode tot buf1 (B k @ drop (bsz st) blk) (of_nat k + 1) (of_nat (k * bsz st) + chunk) d2
      = Some (tot, take (k * bsz st) buf @ take (unat tot - k * bsz st) (concat (map B [k..<nb])) @ drop (unat tot) buf, d')"
    using d'(1) unfolding done1 nx by (simp add: add.commute)
  then have "file_loop dv st junk inode tot buf blk (of_nat k) (of_nat (k * bsz st)) d
      = Some (tot, take (k * bsz st) buf @ take (unat tot - k * bsz st) (concat (map B [k..<nb])) @ drop (unat tot) buf, d')"
    using go d1(1) fk(1) d2(1) sl b1(1) dn uc
    by (subst file_loop.simps) (simp add: chunk_def [symmetric] Let_def del: of_nat_mult)
  then show ?case using d' unfolding mn B_def by blast
qed

lemma read_ok:
  assumes dr: "drive = 0" and d: "ok d" and vs: "vol_shape nsec st" and jk: "length junk = 4096" and io: "inode_ok nsec st (of_int fd)"
    and inode: "inode = inode_at st (sec d) (of_int fd)" and n: "n = min (unat (i_size inode)) (unat len)" and nb: "nb = (n + bsz st - 1) div bsz st"
    and fo: "file_ok nsec st (sec d) inode nb" and b: "n \<le> length buf" "n < 2 ^ 31"
  shows "\<exists>d'. e2_read dv junk fd buf len (st, d) = Some (int n, take n (file_bytes st (sec d) inode nb) @ drop n buf, st, d') \<and> ok d' \<and> sec d' = sec d"
proof -
  note s = vol_shapeD [OF vs]
  define tot where "tot = (if i_size inode < len then i_size inode else len)"
  have t: "unat tot = n" by (auto simp: tot_def n word_less_nat_alt)
  have "n + bsz st - 1 < (nb + 1) * bsz st" "nb * bsz st \<le> n + bsz st - 1"
    using s(6) unfolding nb by (simp_all add: dividend_less_div_times)
  then have nb1: "unat tot \<le> nb * bsz st" "(nb - 1) * bsz st < unat tot \<or> nb = 0" using t s(6) by (cases nb; simp)+
  obtain d1 where d1: "read_inode dv st junk (of_int fd) d = Some (inode, d1)" "ok d1" "sec d1 = sec d"
    using read_inode_ok [OF dr d vs jk io] inode by auto
  have "unat tot \<le> length buf" using b t by simp
  from file_loop_ok [OF dr vs jk fo nb1 d1(2,3) le0 this jk] t obtain d2 where
    d2: "file_loop dv st junk inode tot buf junk 0 0 d1 = Some (tot, take n (file_bytes st (sec d) inode nb) @ drop n buf, d2)" "ok d2" "sec d2 = sec d"
    by (auto simp: file_bytes_def)
  have "sint tot = int n" using c_int_small [of n] t b(2) by (auto simp: c_int_def)
  with d1 d2 show ?thesis by (simp add: e2_read_def tot_def)
qed

end

section \<open>Reading on the disk\<close>


definition st0 :: ext2 where
  "st0 = \<lparr>e2_sb = (super_of (replicate 1030 0))\<lparr>s_inodes_per_group := 8, s_inode_size := 128\<rparr>,
     e2_bgd = (bgd_of (replicate 32 0))\<lparr>bg_inode_table := 5\<rparr>, block_size = 1024, lba_base = 0, e2_mounted = True\<rparr>"

definition chip1 :: chip where
  "chip1 = chip0\<lparr>c_disk := \<lambda>_ j. if j = 2 then 5 else if j = 20 then 6 else 0\<rparr>"

lemma st0_fields: "block_size st0 = 1024" "lba_base st0 = 0" "bsz st0 = 1024" "spb st0 = 2" "s_inodes_per_group (e2_sb st0) = 8" "s_inode_size (e2_sb st0) = 128"
    "bg_inode_table (e2_bgd st0) = 5"
  by (simp_all add: st0_def bsz_def spb_def)

lemma chip1_inode: "i_size (inode_at st0 (chip_sec (drive0, chip1)) 1) = 5" "i_block (inode_at st0 (chip_sec (drive0, chip1)) 1) ! 0 = 6"
  by code_simp+

lemma chip1_block: "take 5 (block_bytes st0 (chip_sec (drive0, chip1)) 6) = [0, 0, 0, 0, 5]"
  by code_simp


text \<open>The inodes of the second and later groups are looked up in the table of the first.\<close>

lemma read_inode_ignores_group:
  assumes "s_inodes_per_group (e2_sb st) \<noteq> 0" "1 \<le> unat ino" "unat ino + unat (s_inodes_per_group (e2_sb st)) < 2 ^ 32"
  shows "read_inode dv st junk (ino + s_inodes_per_group (e2_sb st)) d = read_inode dv st junk ino d"
proof -
  have m: "Suc 0 \<le> a \<Longrightarrow> (a + g - Suc 0) mod g = (a - Suc 0) mod g" for a g :: nat by (cases a) auto
  have "(ino + s_inodes_per_group (e2_sb st) - 1) mod s_inodes_per_group (e2_sb st) = (ino - 1) mod s_inodes_per_group (e2_sb st)"
    by (rule word_unat_eq_iff [THEN iffD2])
      (use assms in \<open>simp add: unat_mod unat_sub word_le_nat_alt unat_word_ariths m\<close>)
  then show ?thesis by (simp add: read_inode_def Let_def)
qed

end
