(* ===== verification/Mouse.thy ===== *)
theory Mouse
  imports Ports Idt "HOL-Library.Signed_Division"
begin

text \<open>
  The PS/2 mouse, \<^verbatim>\<open>src/mouse.c\<close>: the set-up of the controller and the device, the interrupt that collects packets of three bytes, and the
  position it keeps inside the bounds. A sum of C \<^verbatim>\<open>int\<close>s that overflows is the value \<open>None\<close>.
\<close>

section \<open>State and controller access\<close>

definition PS2_DATA :: u16 where "PS2_DATA = 0x60"
definition PS2_STATUS :: u16 where "PS2_STATUS = 0x64"
definition PS2_CMD :: u16 where "PS2_CMD = 0x64"
definition PIC2_DATA :: u16 where "PIC2_DATA = 0xA1"
definition PIC1_DATA :: u16 where "PIC1_DATA = 0x21"

record mouse_state_t =
  ms_x :: int
  ms_y :: int
  ms_dx :: int
  ms_dy :: int
  ms_buttons :: u8
  ms_left :: bool
  ms_right :: bool
  ms_middle :: bool

record mouse =
  mo_state :: mouse_state_t
  mo_detected :: bool
  mo_max_x :: int
  mo_max_y :: int
  mo_pkt :: bytes
  mo_pkt_idx :: nat

definition mouse_start :: mouse where
  "mouse_start = \<lparr>mo_state = \<lparr>ms_x = 0, ms_y = 0, ms_dx = 0, ms_dy = 0, ms_buttons = 0, ms_left = False, ms_right = False, ms_middle = False\<rparr>,
     mo_detected = False, mo_max_x = 79, mo_max_y = 24, mo_pkt = [0, 0, 0], mo_pkt_idx = 0\<rparr>"

definition io_wait :: "'w ports \<Rightarrow> 'w \<Rightarrow> 'w" where
  "io_wait io w = outb io 0x80 0 w"

fun wait_loop :: "(u8 \<Rightarrow> bool) \<Rightarrow> nat \<Rightarrow> 'w ports \<Rightarrow> 'w \<Rightarrow> 'w" where
  "wait_loop busy 0 io w = w"
| "wait_loop busy (Suc t) io w = (let (s, w1) = inb io PS2_STATUS w in if busy s then wait_loop busy t io w1 else w1)"

definition ps2_wait_write :: "'w ports \<Rightarrow> 'w \<Rightarrow> 'w" where
  "ps2_wait_write = wait_loop (\<lambda>s. tst s 0x02) 100000"

definition ps2_wait_read :: "'w ports \<Rightarrow> 'w \<Rightarrow> 'w" where
  "ps2_wait_read = wait_loop (\<lambda>s. \<not> tst s 0x01) 100000"

definition mouse_write :: "'w ports \<Rightarrow> u8 \<Rightarrow> 'w \<Rightarrow> 'w" where
  "mouse_write io val w = outb io PS2_DATA val (ps2_wait_write io (outb io PS2_CMD 0xD4 (ps2_wait_write io w)))"

definition mouse_read :: "'w ports \<Rightarrow> 'w \<Rightarrow> u8 \<times> 'w" where
  "mouse_read io w = inb io PS2_DATA (ps2_wait_read io w)"

section \<open>The interrupt\<close>

definition int_add :: "int \<Rightarrow> int \<Rightarrow> int option" where
  "int_add a b = (if - (2 ^ 31) \<le> a + b \<and> a + b < 2 ^ 31 then Some (a + b) else None)"

definition clamp :: "int \<Rightarrow> int \<Rightarrow> int" where
  "clamp mx v = (let v1 = (if v < 0 then 0 else v) in if v1 > mx then mx else v1)"

text \<open>
  A complete packet. The two statements on the sign bits 0x10 and 0x20 or a zero into the movement; a packet with an overflow bit is dropped.
\<close>

definition mouse_packet :: "mouse \<Rightarrow> mouse option" where
  "mouse_packet m =
     (let flags = mo_pkt m ! 0; rel_x = sint (mo_pkt m ! 1); rel_y = sint (mo_pkt m ! 2); st = mo_state m in
      if tst flags 0x40 \<or> tst flags 0x80 then Some m
      else do {
        x \<leftarrow> int_add (ms_x st) rel_x;
        y \<leftarrow> int_add (ms_y st) (- rel_y);
        Some (m\<lparr>mo_state := \<lparr>ms_x = clamp (mo_max_x m) x, ms_y = clamp (mo_max_y m) y, ms_dx = rel_x, ms_dy = - rel_y,
          ms_buttons = flags AND 0x07, ms_left = tst flags 0x01, ms_right = tst flags 0x02, ms_middle = tst flags 0x04\<rparr>\<rparr>) })"

definition mouse_byte :: "u8 \<Rightarrow> mouse \<Rightarrow> mouse option" where
  "mouse_byte b m =
     (if mo_pkt_idx m = 0 \<and> \<not> tst b 0x08 then Some m
      else if mo_pkt_idx m < length (mo_pkt m) then
        (let m1 = m\<lparr>mo_pkt := (mo_pkt m)[mo_pkt_idx m := b], mo_pkt_idx := mo_pkt_idx m + 1\<rparr>
         in if mo_pkt_idx m1 < 3 then Some m1 else mouse_packet (m1\<lparr>mo_pkt_idx := 0\<rparr>))
      else None)"

definition mouse_irq :: "'w ports \<Rightarrow> mouse \<times> 'w \<Rightarrow> (mouse \<times> 'w) option" where
  "mouse_irq io = (\<lambda>(m, w).
     (let (s, w1) = inb io PS2_STATUS w in
      if \<not> tst s 0x01 then Some (m, w1)
      else (let (b, w2) = inb io PS2_DATA w1 in map_option (\<lambda>m1. (m1, w2)) (mouse_byte b m))))"

section \<open>Set-up\<close>

definition mouse_set_bounds :: "int \<Rightarrow> int \<Rightarrow> mouse \<Rightarrow> mouse" where
  "mouse_set_bounds mx my m = m\<lparr>mo_max_x := mx, mo_max_y := my\<rparr>"

definition mouse_reset :: "mouse \<Rightarrow> mouse" where
  "mouse_reset m = m\<lparr>mo_state := (mo_state m)\<lparr>ms_x := mo_max_x m sdiv 2, ms_y := mo_max_y m sdiv 2, ms_buttons := 0\<rparr>,
     mo_pkt_idx := 0, mo_detected := False\<rparr>"

text \<open>The second port switched on, its interrupt and clock enabled in the configuration byte.\<close>

definition enable_port :: "'w ports \<Rightarrow> 'w \<Rightarrow> 'w" where
  "enable_port io w =
     (let w1 = io_wait io (outb io PS2_CMD 0xA8 (ps2_wait_write io w));
          (cfg, w2) = inb io PS2_DATA (ps2_wait_read io (outb io PS2_CMD 0x20 (ps2_wait_write io w1)));
          w3 = outb io PS2_CMD 0x60 (ps2_wait_write io w2)
      in io_wait io (outb io PS2_DATA ((cfg OR 0x02) AND NOT 0x20) (ps2_wait_write io w3)))"

definition unmask :: "'w ports \<Rightarrow> u16 \<Rightarrow> u8 \<Rightarrow> 'w \<Rightarrow> 'w" where
  "unmask io p bits w = (let (mask, w1) = inb io p w in outb io p (mask AND NOT bits) w1)"

text \<open>\<open>h\<close> is the handler \<open>mouse_irq\<close> as the interrupt table holds it.\<close>

definition mouse_init :: "'w ports \<Rightarrow> 'h \<Rightarrow> mouse \<times> 'h idt_state \<times> 'w \<Rightarrow> mouse \<times> 'h idt_state \<times> 'w" where
  "mouse_init io h = (\<lambda>(m, idt, w).
     (let m1 = mouse_reset m; (ack, w1) = mouse_read io (mouse_write io 0xFF (enable_port io w)) in
      if ack \<noteq> 0xFA then (m1, idt, w1)
      else
        (let w2 = snd (mouse_read io (snd (mouse_read io w1)));
             w3 = snd (mouse_read io (mouse_write io 0xF6 w2));
             (ack2, w4) = mouse_read io (mouse_write io 0xF4 w3)
         in if ack2 \<noteq> 0xFA then (m1, idt, w4)
            else (m1\<lparr>mo_detected := True\<rparr>, irq_register 12 (Some h) idt, io_wait io (unmask io PIC1_DATA 0x04 (unmask io PIC2_DATA 0x10 w4))))))"

definition mouse_get :: "mouse \<Rightarrow> mouse_state_t" where "mouse_get m = mo_state m"
definition mouse_ready :: "mouse \<Rightarrow> bool" where "mouse_ready m = mo_detected m"

section \<open>Bounds\<close>

definition mouse_ok :: "mouse \<Rightarrow> bool" where
  "mouse_ok m \<longleftrightarrow> length (mo_pkt m) = 3 \<and> mo_pkt_idx m < 3 \<and> 0 \<le> ms_x (mo_state m) \<and> ms_x (mo_state m) \<le> mo_max_x m
     \<and> 0 \<le> ms_y (mo_state m) \<and> ms_y (mo_state m) \<le> mo_max_y m \<and> mo_max_x m < 2 ^ 31 - 128 \<and> mo_max_y m < 2 ^ 31 - 128"

lemma sint_u8: "- 128 \<le> sint (b :: u8)" "sint (b :: u8) \<le> 127"
  using sint_range_size [of b] by (simp_all add: word_size)

lemma clamp_in: "0 \<le> mx \<Longrightarrow> 0 \<le> clamp mx v \<and> clamp mx v \<le> mx"
  by (simp add: clamp_def Let_def)

lemma clamp_id: "0 \<le> v \<Longrightarrow> v \<le> mx \<Longrightarrow> clamp mx v = v"
  by (simp add: clamp_def)

lemma mouse_packet_ok:
  assumes "mouse_ok m"
  shows "\<exists>m1. mouse_packet m = Some m1 \<and> mouse_ok m1 \<and> mo_max_x m1 = mo_max_x m \<and> mo_max_y m1 = mo_max_y m"
  using assms sint_u8 [of "mo_pkt m ! 1"] sint_u8 [of "mo_pkt m ! 2"] clamp_in [of "mo_max_x m"] clamp_in [of "mo_max_y m"]
  by (auto simp: mouse_packet_def mouse_ok_def int_add_def Let_def)

lemma mouse_byte_ok:
  assumes "mouse_ok m"
  shows "\<exists>m1. mouse_byte b m = Some m1 \<and> mouse_ok m1 \<and> mo_max_x m1 = mo_max_x m \<and> mo_max_y m1 = mo_max_y m"
proof -
  define m0 where "m0 = m\<lparr>mo_pkt := (mo_pkt m)[mo_pkt_idx m := b], mo_pkt_idx := 0\<rparr>"
  have "mouse_ok m0" using assms by (simp add: mouse_ok_def m0_def)
  from mouse_packet_ok [OF this] show ?thesis using assms by (auto simp: mouse_byte_def mouse_ok_def Let_def m0_def)
qed

lemma mouse_reset_ok: "length (mo_pkt m) = 3 \<Longrightarrow> 0 \<le> mo_max_x m \<Longrightarrow> 0 \<le> mo_max_y m \<Longrightarrow> mo_max_x m < 2 ^ 31 - 128 \<Longrightarrow> mo_max_y m < 2 ^ 31 - 128 \<Longrightarrow>
    mouse_ok (mouse_reset m)"
  by (auto simp: mouse_ok_def mouse_reset_def signed_divide_int_def sgn_if)

text \<open>The states of the mouse with the controller \<open>io\<close>: after the set-up, and after any interrupts while the rest of the system changes the world.\<close>

inductive mouse_run :: "'w ports \<Rightarrow> 'h \<Rightarrow> mouse \<times> 'h idt_state \<times> 'w \<Rightarrow> mouse \<times> 'w \<Rightarrow> bool" for io h s0 where
  start: "mouse_init io h s0 = (m, idt, w) \<Longrightarrow> mouse_run io h s0 (m, w)"
| irq: "mouse_run io h s0 (m, w) \<Longrightarrow> mouse_irq io (m, w1) = Some (m', w') \<Longrightarrow> mouse_run io h s0 (m', w')"

lemma mouse_init_state: "mouse_init io h (m0, idt0, w0) = (m, idt, w) \<Longrightarrow> \<exists>b. m = (mouse_reset m0)\<lparr>mo_detected := b\<rparr>"
  by (auto simp: mouse_init_def Let_def split: prod.splits if_splits)
    (metis mouse.surjective mouse.update_convs(2))+

lemma mouse_irq_ok:
  assumes "mouse_ok m"
  shows "\<exists>m1 w1. mouse_irq io (m, w) = Some (m1, w1) \<and> mouse_ok m1 \<and> mo_max_x m1 = mo_max_x m \<and> mo_max_y m1 = mo_max_y m"
  using mouse_byte_ok [OF assms] assms by (fastforce simp: mouse_irq_def Let_def split: prod.splits)

text \<open>
  C35. Whatever the controller delivers, after the set-up with bounds that are not negative and leave room for one movement, every interrupt
  is free of integer overflow and writes inside the packet, and the position stays between 0 and the bounds.
\<close>

theorem mouse_stays_in_bounds:
  assumes "mouse_run io h (m0, idt0, w0) (m, w)" "length (mo_pkt m0) = 3"
    and "0 \<le> mo_max_x m0" "mo_max_x m0 < 2 ^ 31 - 128" "0 \<le> mo_max_y m0" "mo_max_y m0 < 2 ^ 31 - 128"
  shows "0 \<le> ms_x (mo_state m) \<and> ms_x (mo_state m) \<le> mo_max_x m0 \<and> 0 \<le> ms_y (mo_state m) \<and> ms_y (mo_state m) \<le> mo_max_y m0
     \<and> mo_pkt_idx m < 3 \<and> mouse_irq io (m, w1) \<noteq> None"
proof -
  have "mouse_ok m \<and> mo_max_x m = mo_max_x m0 \<and> mo_max_y m = mo_max_y m0"
    using assms(1)
  proof (induction "(m, w)" arbitrary: m w rule: mouse_run.induct)
    case (start m idt w)
    then show ?case using mouse_init_state [OF start] mouse_reset_ok [OF assms(2,3,5,4,6)] by (auto simp: mouse_ok_def mouse_reset_def)
  next
    case (irq m w w1 m' w')
    then show ?case using mouse_irq_ok [of m io w1] by auto
  qed
  then show ?thesis using mouse_irq_ok [of m io w1] by (auto simp: mouse_ok_def)
qed

section \<open>Packets\<close>

text \<open>
  The packet of a movement as the PS/2 protocol has it: buttons, bit 3 set, the signs of the two movements as the ninth bits, then their low bytes.
\<close>

definition first_byte :: "u8 \<Rightarrow> bool \<Rightarrow> bool \<Rightarrow> u8" where
  "first_byte buttons sx sy = (buttons AND 0x07) OR 0x08 OR (if sx then 0x10 else 0) OR (if sy then 0x20 else 0)"

definition ps2_packet :: "u8 \<Rightarrow> int \<Rightarrow> int \<Rightarrow> bytes" where
  "ps2_packet buttons dx dy = [first_byte buttons (dx < 0) (dy < 0), of_int dx, of_int dy]"

fun mouse_bytes :: "bytes \<Rightarrow> mouse \<Rightarrow> mouse option" where
  "mouse_bytes [] m = Some m"
| "mouse_bytes (b # bs) m = do { m1 \<leftarrow> mouse_byte b m; mouse_bytes bs m1 }"

lemma first_byte_bits:
  "tst (first_byte u a b) 0x08" "\<not> tst (first_byte u a b) 0x40" "\<not> tst (first_byte u a b) 0x80" "first_byte u a b AND 0x07 = u AND 0x07"
  "tst (first_byte u a b) 1 = tst u 1" "tst (first_byte u a b) 2 = tst u 2" "tst (first_byte u a b) 4 = tst u 4"
  by (cases a; cases b; simp add: tst_def first_byte_def bit.conj_disj_distrib2 and.assoc)+

lemma sint_of_int_u8:
  "- 128 \<le> k \<Longrightarrow> k \<le> 127 \<Longrightarrow> sint (of_int k :: u8) = k"
  "128 \<le> k \<Longrightarrow> k \<le> 255 \<Longrightarrow> sint (of_int k :: u8) = k - 256"
proof -
  have "128 \<le> k \<Longrightarrow> k \<le> 255 \<Longrightarrow> (k + 128) mod 256 = k - 128" using mod_add_self2 [of "k - 128" 256] by (simp add: add.commute)
  then show "128 \<le> k \<Longrightarrow> k \<le> 255 \<Longrightarrow> sint (of_int k :: u8) = k - 256"
    by (simp add: signed_of_int signed_take_bit_eq_take_bit_shift take_bit_eq_mod)
qed (simp add: signed_of_int signed_take_bit_int_eq_self)

text \<open>What a packet does to a mouse that waits for one, with the movements as the code reads them.\<close>

lemma bind_mouse_bytes_Nil [simp]: "(x \<bind> mouse_bytes []) = x"
  by (cases x) simp_all

lemma mouse_bytes_packet:
  assumes "length (mo_pkt m) = 3" "mo_pkt_idx m = 0" "tst a 0x08"
  shows "mouse_bytes [a, b, c] m = mouse_packet (m\<lparr>mo_pkt := [a, b, c]\<rparr>)"
proof -
  obtain p0 p1 p2 where "mo_pkt m = [p0, p1, p2]" using assms(1) by (auto simp: length_Suc_conv eval_nat_numeral)
  then have "mouse_bytes [a, b, c] m = mouse_packet (m\<lparr>mo_pkt := [a, b, c], mo_pkt_idx := 0\<rparr>)" using assms by (simp add: mouse_byte_def Let_def)
  also have "m\<lparr>mo_pkt := [a, b, c], mo_pkt_idx := 0\<rparr> = m\<lparr>mo_pkt := [a, b, c]\<rparr>" using assms(2) by (cases m) simp
  finally show ?thesis .
qed

lemma mouse_bytes_move:
  assumes "mouse_ok m" "mo_pkt_idx m = 0" "rx = sint (of_int dx :: u8)" "ry = sint (of_int dy :: u8)"
  shows "mouse_bytes (ps2_packet u dx dy) m = Some (m\<lparr>mo_pkt := ps2_packet u dx dy, mo_state :=
      \<lparr>ms_x = clamp (mo_max_x m) (ms_x (mo_state m) + rx), ms_y = clamp (mo_max_y m) (ms_y (mo_state m) - ry), ms_dx = rx, ms_dy = - ry,
       ms_buttons = u AND 7, ms_left = tst u 1, ms_right = tst u 2, ms_middle = tst u 4\<rparr>\<rparr>)"
proof -
  have "int_add (ms_x (mo_state m)) rx = Some (ms_x (mo_state m) + rx)" "int_add (ms_y (mo_state m)) (- ry) = Some (ms_y (mo_state m) - ry)"
    using assms(1) sint_u8 [of "of_int dx"] sint_u8 [of "of_int dy"] by (simp_all add: int_add_def mouse_ok_def assms(3,4))
  then have "mouse_packet (m\<lparr>mo_pkt := ps2_packet u dx dy\<rparr>) = Some (m\<lparr>mo_pkt := ps2_packet u dx dy, mo_state :=
      \<lparr>ms_x = clamp (mo_max_x m) (ms_x (mo_state m) + rx), ms_y = clamp (mo_max_y m) (ms_y (mo_state m) - ry), ms_dx = rx, ms_dy = - ry,
       ms_buttons = u AND 7, ms_left = tst u 1, ms_right = tst u 2, ms_middle = tst u 4\<rparr>\<rparr>)"
    using first_byte_bits by (simp add: mouse_packet_def Let_def ps2_packet_def assms(3,4))
  then show ?thesis using mouse_bytes_packet assms(1,2) first_byte_bits(1) unfolding ps2_packet_def mouse_ok_def by auto
qed

text \<open>
  A movement between -128 and 127 in both directions, sent as a PS/2 packet to a mouse that waits for a packet, moves the position by it, the vertical direction
  inverted, cut to the bounds, and sets the buttons.
\<close>

theorem mouse_moves:
  assumes "mouse_ok m" "mo_pkt_idx m = 0" "- 128 \<le> dx" "dx \<le> 127" "- 128 \<le> dy" "dy \<le> 127"
  shows "mouse_bytes (ps2_packet u dx dy) m = Some (m\<lparr>mo_pkt := ps2_packet u dx dy, mo_state :=
      \<lparr>ms_x = clamp (mo_max_x m) (ms_x (mo_state m) + dx), ms_y = clamp (mo_max_y m) (ms_y (mo_state m) - dy), ms_dx = dx, ms_dy = - dy,
       ms_buttons = u AND 7, ms_left = tst u 1, ms_right = tst u 2, ms_middle = tst u 4\<rparr>\<rparr>)"
  using mouse_bytes_move [OF assms(1,2) refl refl, of u dx dy] sint_of_int_u8(1) assms by simp

text \<open>
  A movement to the right by 128 or more, which the device sends with a clear sign bit and no overflow bit, is taken as one to the left: the sign
  bit of the packet is not used.
\<close>

theorem mouse_large_move_reversed:
  assumes "mouse_ok m" "mo_pkt_idx m = 0" "128 \<le> dx" "dx \<le> 255"
  shows "map_option (\<lambda>m1. ms_x (mo_state m1)) (mouse_bytes (ps2_packet u dx 0) m) = Some (clamp (mo_max_x m) (ms_x (mo_state m) - (256 - dx)))"
  using mouse_bytes_move [OF assms(1,2) refl refl, of u dx 0] sint_of_int_u8(2) [OF assms(3,4)] by (simp add: algebra_simps)

section \<open>Examples\<close>

text \<open>A controller whose output buffer is always full and whose data are all 0xFA, the acknowledgement.\<close>

definition fa_ports :: "unit ports" where
  "fa_ports = \<lparr>io_in = (\<lambda>p w. (if p = PS2_STATUS then 1 else 0xFA, w)), io_out = (\<lambda>p v w. w), io_hlt = (\<lambda>w. (0, w))\<rparr>"

definition mouse1 :: mouse where
  "mouse1 = (mouse_reset mouse_start)\<lparr>mo_detected := True\<rparr>"

lemma mouse1_ok: "mouse_ok mouse1" "mo_pkt_idx mouse1 = 0"
  by (simp_all add: mouse1_def mouse_ok_def mouse_reset_def mouse_start_def signed_divide_int_def)

lemma fa_wait: "0 < n \<Longrightarrow> wait_loop (\<lambda>s. tst s 2) n fa_ports () = ()" "0 < n \<Longrightarrow> wait_loop (\<lambda>s. \<not> tst s 1) n fa_ports () = ()"
  by simp_all

lemma fa_run: "mouse_run fa_ports () (mouse_start, idt, ()) (mouse1, ())"
  by (rule mouse_run.start [where idt = "irq_register 12 (Some ()) idt"])
    (simp add: mouse_init_def mouse_read_def inb_def fa_ports_def PS2_DATA_def PS2_STATUS_def mouse1_def Let_def)

theorem mouse_stays_in_bounds_witness: "ms_x (mo_state mouse1) \<le> 79"
  using mouse_stays_in_bounds [OF fa_run] by (simp add: mouse_start_def)

theorem mouse_moves_witness: "map_option (\<lambda>m. (ms_x (mo_state m), ms_y (mo_state m))) (mouse_bytes (ps2_packet 1 5 (- 100)) mouse1) = Some (44, 24)"
  using mouse_moves [OF mouse1_ok, of 5 "- 100" 1]
  by (simp add: mouse1_def mouse_reset_def mouse_start_def signed_divide_int_def clamp_def)

theorem mouse_large_move_reversed_witness: "map_option (\<lambda>m. ms_x (mo_state m)) (mouse_bytes (ps2_packet 0 255 0) mouse1) = Some 38"
  using mouse_large_move_reversed [OF mouse1_ok, of 255 0]
  by (simp add: mouse1_def mouse_reset_def mouse_start_def signed_divide_int_def clamp_def)

end
