(* ===== verification/Syscall.thy ===== *)
theory Syscall
  imports Elf Vfs Signal Timer Rtc Serial Net
begin

text \<open>
  The system calls, \<^verbatim>\<open>src/syscall.c\<close> and \<^verbatim>\<open>src/syscall.h\<close>: the handlers behind \<^verbatim>\<open>int 0x80\<close>, the table of them and the dispatcher, over one
  record that holds the states of the components the handlers call. Pointers of a program are addresses of the paged memory: a string is read up to
  its terminator, a buffer as far as it is mapped, and touching an address that is not mapped is \<open>None\<close>.
\<close>

section \<open>State\<close>

record ufd_t =
  u_name :: bytes
  u_open :: bool
  u_pos :: u32

record ('d, 'w) kernel =
  kr_mm :: mm
  kr_sig :: sigsys
  kr_vfs :: "('d, 'w) backend vfs"
  kr_be :: "('d, 'w) backend"
  kr_timer :: timer
  kr_net :: net
  kr_serial_ok :: bool
  kr_ufd :: "nat \<Rightarrow> ufd_t"
  kr_elf_buf :: bytes
  kr_tbuf :: bytes

text \<open>The hardware, and the byte of padding in a structure on the stack.\<close>

record ('d, 'w) hw =
  hw_net :: "'w net_ports"
  hw_dev :: "'d dev"
  hw_pad :: u8

abbreviation hw_io :: "('d, 'w) hw \<Rightarrow> 'w ports" where "hw_io e \<equiv> np_io (hw_net e)"
abbreviation kr_sched :: "('d, 'w) kernel \<Rightarrow> sched" where "kr_sched k \<equiv> sy_sched (kr_sig k)"
abbreviation kr_heap :: "('d, 'w) kernel \<Rightarrow> kheap" where "kr_heap k \<equiv> sy_heap (kr_sig k)"
abbreviation kr_now :: "('d, 'w) kernel \<Rightarrow> u32" where "kr_now k \<equiv> timer_ticks (kr_timer k)"

definition set_sched :: "sched \<Rightarrow> ('d, 'w) kernel \<Rightarrow> ('d, 'w) kernel" where
  "set_sched s k = k\<lparr>kr_sig := (kr_sig k)\<lparr>sy_sched := s\<rparr>\<rparr>"

definition set_heap :: "kheap \<Rightarrow> ('d, 'w) kernel \<Rightarrow> ('d, 'w) kernel" where
  "set_heap h k = k\<lparr>kr_sig := (kr_sig k)\<lparr>sy_heap := h\<rparr>\<rparr>"

definition set_world :: "'w \<Rightarrow> ('d, 'w) kernel \<Rightarrow> ('d, 'w) kernel" where
  "set_world w k = k\<lparr>kr_be := (kr_be k)\<lparr>b_world := w\<rparr>\<rparr>"

text \<open>
  How a call leaves the handler: with a value, by the end of the calling task, or inside a loop that has given the processor away and goes on later:
  with the same arguments, or to return a value, or in a pipe with some bytes done, or in \<^verbatim>\<open>select\<close> with its deadline. The pair is the task that stops and the one that runs.
\<close>

datatype pending = PendCall | PendRet u32 | PendPipe nat | PendSelect u32

datatype sc_result = Ret u32 | Ended "(nat \<times> nat) option" | Again pending "(nat \<times> nat) option"

type_synonym ('d, 'w) syscall_fn = "('d, 'w) hw \<Rightarrow> u32 \<Rightarrow> u32 \<Rightarrow> u32 \<Rightarrow> ('d, 'w) kernel \<Rightarrow> (sc_result \<times> ('d, 'w) kernel) option"

definition ret_int :: "int \<Rightarrow> sc_result" where "ret_int n = Ret (of_int n)"

text \<open>\<^verbatim>\<open>sched_yield()\<close> in the middle of a call.\<close>

definition yield_in :: "pending \<Rightarrow> ('d, 'w) kernel \<Rightarrow> (sc_result \<times> ('d, 'w) kernel) option" where
  "yield_in p k = do { (s, sw) \<leftarrow> sched_yield (kr_now k) (kr_sched k); Some (Again p sw, set_sched s k) }"

section \<open>Memory of the caller\<close>

fun user_buf :: "nat \<Rightarrow> u32 \<Rightarrow> 'a mm_scheme \<Rightarrow> bytes" where
  "user_buf 0 a m = []"
| "user_buf (Suc n) a m = (case rd8 m a of None \<Rightarrow> [] | Some b \<Rightarrow> b # user_buf n (a + 1) m)"

fun user_str_upto :: "nat \<Rightarrow> u32 \<Rightarrow> 'a mm_scheme \<Rightarrow> bytes option" where
  "user_str_upto 0 a m = None"
| "user_str_upto (Suc n) a m = do {
     b \<leftarrow> rd8 m a;
     if b = 0 then Some [0] else map_option (Cons b) (user_str_upto n (a + 1) m) }"

text \<open>A string cannot be longer than the address space.\<close>

definition user_str :: "u32 \<Rightarrow> 'a mm_scheme \<Rightarrow> bytes option" where
  "user_str a m = user_str_upto (2 ^ 32) a m"

definition user_word :: "u32 \<Rightarrow> 'a mm_scheme \<Rightarrow> u32 option" where
  "user_word a m = (let b = user_buf 4 a m in if length b = 4 then Some (Packed.rd32 b 0) else None)"

definition word_bytes :: "u32 \<Rightarrow> bytes" where
  "word_bytes w = map (\<lambda>i. get_byte i w) [0..<4]"

definition put_user :: "u32 \<Rightarrow> bytes \<Rightarrow> ('d, 'w) kernel \<Rightarrow> ('d, 'w) kernel option" where
  "put_user a b k = map_option (\<lambda>m. k\<lparr>kr_mm := m\<rparr>) (copy_out a b (kr_mm k))"

section \<open>Tasks and time\<close>

definition sc_exit :: "('d, 'w) syscall_fn" where
  "sc_exit e code b c k = do {
     ((s, sw), h) \<leftarrow> sched_exit (kr_now k) (kr_sched k, kr_heap k);
     Some (Ended sw, set_heap h (set_sched s k)) }"

definition sc_getpid :: "('d, 'w) syscall_fn" where
  "sc_getpid e a b c k = Some (ret_int (t_pid (sc_tasks (kr_sched k) (sched_current (kr_sched k)))), k)"

definition sc_getppid :: "('d, 'w) syscall_fn" where
  "sc_getppid e a b c k = Some (ret_int (t_parent_pid (sc_tasks (kr_sched k) (sched_current (kr_sched k)))), k)"

definition sc_sleep :: "('d, 'w) syscall_fn" where
  "sc_sleep e ms b c k = do {
     (t, w) \<leftarrow> timer_sleep ms (hw_io e) (kr_timer k, b_world (kr_be k));
     Some (Ret 0, set_world w (k\<lparr>kr_timer := t\<rparr>)) }"

definition sc_yield :: "('d, 'w) syscall_fn" where
  "sc_yield e a b c k = yield_in (PendRet 0) k"

definition sc_sbrk :: "('d, 'w) syscall_fn" where
  "sc_sbrk e inc b c k =
     (if inc = 0 then Some (Ret (heap_brk (kr_mm k)), k)
      else do { (p, m) \<leftarrow> vmalloc inc (kr_mm k); Some (Ret (if p \<noteq> 0 then p else -1), k\<lparr>kr_mm := m\<rparr>) })"

definition sc_uptime :: "('d, 'w) syscall_fn" where
  "sc_uptime e a b c k = do { n \<leftarrow> timer_seconds (kr_timer k); Some (Ret n, k) }"

definition sc_waitpid :: "('d, 'w) syscall_fn" where
  "sc_waitpid e pid b c k = do {
     (s, r) \<leftarrow> sched_waitpid (sint pid) (kr_now k) (kr_sched k);
     Some (case r of WaitRet n \<Rightarrow> ret_int n | WaitAgain sw \<Rightarrow> Again PendCall sw, set_sched s k) }"

definition sc_wait :: "('d, 'w) syscall_fn" where
  "sc_wait e code_ptr b c k = do {
     (s, r) \<leftarrow> sched_wait (kr_now k) (kr_sched k);
     (case r of
        WaitAgain sw \<Rightarrow> Some (Again PendCall sw, set_sched s k)
      | WaitRet (pid, code) \<Rightarrow>
          (case code of
             Some n \<Rightarrow>
               if code_ptr \<noteq> 0 then map_option (Pair (ret_int pid)) (put_user code_ptr (word_bytes (of_int n)) (set_sched s k))
               else Some (ret_int pid, set_sched s k)
           | None \<Rightarrow> Some (ret_int pid, set_sched s k))) }"

definition time_bytes :: "u8 \<Rightarrow> rtc_time_t \<Rightarrow> bytes" where
  "time_bytes pad t = [t_second t, t_minute t, t_hour t, t_day t, t_month t, pad, ucast (t_year t), ucast (drop_bit 8 (t_year t))]"

definition sc_gettime :: "('d, 'w) syscall_fn" where
  "sc_gettime e buf_addr b c k =
     (if buf_addr = 0 then Some (Ret (-1), k)
      else do {
        (t, w) \<leftarrow> rtc_read (hw_io e) (b_world (kr_be k));
        k1 \<leftarrow> put_user buf_addr (time_bytes (hw_pad e) t) (set_world w k);
        Some (Ret 0, k1) })"

definition sc_kill :: "('d, 'w) syscall_fn" where
  "sc_kill e pid sig c k = do {
     (y, r) \<leftarrow> signal_send (sint pid) (sint sig) (kr_now k) (kr_sig k);
     Some (case r of SigRet n \<Rightarrow> ret_int n | SigExit sw \<Rightarrow> Ended sw, k\<lparr>kr_sig := y\<rparr>) }"

definition sc_signal_set :: "('d, 'w) syscall_fn" where
  "sc_signal_set e sig handler c k =
     (case signal_set_handler (sint sig) handler (kr_sig k) of (r, y) \<Rightarrow> Some (ret_int r, k\<lparr>kr_sig := y\<rparr>))"

section \<open>Console\<close>

definition sc_write :: "('d, 'w) syscall_fn" where
  "sc_write e buf_addr len0 c k =
     (if buf_addr = 0 \<or> buf_addr > 0x20000000 then Some (Ret (-1), k)
      else do {
        let len = (if len0 > 4096 then 4096 else len0);
        s \<leftarrow> slice (user_buf (unat len) buf_addr (kr_mm k)) 0 (unat len);
        Some (Ret len, k\<lparr>kr_be := (kr_be k)\<lparr>b_vga := fold vga_putchar s (b_vga (kr_be k))\<rparr>\<rparr>) })"

definition sc_read :: "('d, 'w) syscall_fn" where
  "sc_read e buf_addr len0 c k =
     (if buf_addr = 0 \<or> len0 = 0 then Some (Ret 0, k)
      else do {
        let len = (if len0 > 256 then 256 else len0);
        (n, buf, v, kb, w) \<leftarrow> keyboard_getline (hw_io e) (user_buf (unat len) buf_addr (kr_mm k)) (sint len) (b_vga (kr_be k))
           (b_kb (kr_be k), b_world (kr_be k));
        k1 \<leftarrow> put_user buf_addr buf (k\<lparr>kr_be := (kr_be k)\<lparr>b_vga := v, b_kb := kb, b_world := w\<rparr>\<rparr>);
        Some (ret_int n, k1) })"

definition sc_getkey :: "('d, 'w) syscall_fn" where
  "sc_getkey e a b c k = do {
     (x, kb, w) \<leftarrow> keyboard_getchar_blocking (hw_io e) (b_kb (kr_be k), b_world (kr_be k));
     Some (Ret (scast x), k\<lparr>kr_be := (kr_be k)\<lparr>b_kb := kb, b_world := w\<rparr>\<rparr>) }"

definition sc_putchar :: "('d, 'w) syscall_fn" where
  "sc_putchar e ch b c k = Some (Ret 0, k\<lparr>kr_be := (kr_be k)\<lparr>b_vga := vga_putchar (ucast ch) (b_vga (kr_be k))\<rparr>\<rparr>)"

definition sc_serial_write :: "('d, 'w) syscall_fn" where
  "sc_serial_write e buf len c k =
     (if buf = 0 \<or> len > 4096 then Some (Ret (-1), k)
      else if kr_serial_ok k then do {
        w \<leftarrow> serial_write (hw_io e) COM1 (user_buf (unat len) buf (kr_mm k)) len (b_world (kr_be k));
        Some (Ret len, set_world w k) }
      else Some (Ret len, k))"

section \<open>The first file interface\<close>

text \<open>Handlers that the table no longer names.\<close>

definition MAX_USER_FD :: nat where "MAX_USER_FD = 8"

definition set_ufd :: "nat \<Rightarrow> ufd_t \<Rightarrow> ('d, 'w) kernel \<Rightarrow> ('d, 'w) kernel" where
  "set_ufd i u k = k\<lparr>kr_ufd := (kr_ufd k)(i := u)\<rparr>"

definition sc_open :: "('d, 'w) syscall_fn" where
  "sc_open e name_addr b c k =
     (if name_addr = 0 then Some (Ret (-1), k)
      else case first_idx (\<lambda>i. \<not> u_open (kr_ufd k i)) 0 MAX_USER_FD of
        None \<Rightarrow> Some (Ret (-1), k)
      | Some i \<Rightarrow> do {
          name \<leftarrow> user_str name_addr (kr_mm k);
          mf \<leftarrow> fs_find (b_ram (kr_be k)) name;
          if mf = None \<and> \<not> fat12_mounted (b_fat (kr_be k)) then Some (Ret (-1), k)
          else do {
            nm \<leftarrow> kstrcpy (u_name (kr_ufd k i)) name;
            Some (Ret (of_nat i), set_ufd i \<lparr>u_name = nm, u_open = True, u_pos = 0\<rparr> k) } })"

definition sc_close :: "('d, 'w) syscall_fn" where
  "sc_close e fd b c k =
     (if unat fd \<ge> MAX_USER_FD then Some (Ret (-1), k) else Some (Ret 0, set_ufd (unat fd) ((kr_ufd k (unat fd))\<lparr>u_open := False\<rparr>) k))"

text \<open>What both kinds of files share: \<^verbatim>\<open>sz\<close> cut to what is left behind the position, copied, and the position moved.\<close>

definition ufd_copy :: "nat \<Rightarrow> u32 \<Rightarrow> u32 \<Rightarrow> bytes \<Rightarrow> u32 \<Rightarrow> ('d, 'w) kernel \<Rightarrow> (sc_result \<times> ('d, 'w) kernel) option" where
  "ufd_copy i buf_addr sz0 src fsize k =
     (let u = kr_ufd k i; avail = fsize - u_pos u; sz = (if sz0 > avail then avail else sz0) in do {
        b \<leftarrow> slice src (unat (u_pos u)) (unat sz);
        k1 \<leftarrow> put_user buf_addr b k;
        Some (Ret sz, set_ufd i (u\<lparr>u_pos := u_pos u + sz\<rparr>) k1) })"

definition sc_fread :: "('d, 'w) syscall_fn" where
  "sc_fread e fd buf_addr sz k =
     (if unat fd \<ge> MAX_USER_FD \<or> \<not> u_open (kr_ufd k (unat fd)) then Some (Ret (-1), k)
      else if buf_addr = 0 \<or> sz = 0 then Some (Ret 0, k)
      else do {
        mf \<leftarrow> fs_find (b_ram (kr_be k)) (u_name (kr_ufd k (unat fd)));
        case mf of
          Some i \<Rightarrow> ufd_copy (unat fd) buf_addr sz (f_data (files (b_ram (kr_be k)) i)) (of_nat (f_size (files (b_ram (kr_be k)) i))) k
        | None \<Rightarrow>
            if fat12_mounted (b_fat (kr_be k)) then do {
              (n, tbuf, d) \<leftarrow> fat12_read (hw_dev e) (b_fat (kr_be k)) (u_name (kr_ufd k (unat fd))) (kr_tbuf k) 4096 (b_disk (kr_be k));
              let k1 = k\<lparr>kr_tbuf := tbuf, kr_be := (kr_be k)\<lparr>b_disk := d\<rparr>\<rparr>;
              if n < 0 then Some (Ret (-1), k1) else ufd_copy (unat fd) buf_addr sz tbuf (of_int n) k1 }
            else Some (Ret (-1), k) })"

definition sc_fwrite :: "('d, 'w) syscall_fn" where
  "sc_fwrite e fd buf_addr sz k =
     (if unat fd \<ge> MAX_USER_FD \<or> \<not> u_open (kr_ufd k (unat fd)) then Some (Ret (-1), k)
      else if buf_addr = 0 \<or> sz = 0 then Some (Ret 0, k)
      else do {
        let name = u_name (kr_ufd k (unat fd));
        mf \<leftarrow> fs_find (b_ram (kr_be k)) name;
        if mf \<noteq> None then do {
          s \<leftarrow> user_str buf_addr (kr_mm k);
          (_, fs) \<leftarrow> fs_write name s (b_ram (kr_be k));
          Some (Ret sz, k\<lparr>kr_be := (kr_be k)\<lparr>b_ram := fs\<rparr>\<rparr>) }
        else if fat12_mounted (b_fat (kr_be k)) then do {
          (r, fat, d) \<leftarrow> fat12_write (hw_dev e) (b_fat (kr_be k)) name (user_buf (unat sz) buf_addr (kr_mm k)) sz (b_disk (kr_be k));
          Some (Ret (if r = 0 then sz else -1), k\<lparr>kr_be := (kr_be k)\<lparr>b_fat := fat, b_disk := d\<rparr>\<rparr>) }
        else Some (Ret (-1), k) })"

fun put_names :: "nat \<Rightarrow> bytes list \<Rightarrow> bytes \<Rightarrow> nat \<Rightarrow> (bytes \<times> nat) option" where
  "put_names sz [] buf pos = Some (buf, pos)"
| "put_names sz (nm # nms) buf pos =
     (if pos + 16 < sz then do {
        n \<leftarrow> kstrlen nm;
        b1 \<leftarrow> blit buf pos (take (n + 1) nm);
        b2 \<leftarrow> blit b1 (pos + n) [10];
        put_names sz nms b2 (pos + n + 1) }
      else Some (buf, pos))"

text \<open>\<open>junk\<close> is the array of 32 entries on the stack.\<close>

definition sc_listdir :: "fat12_entry_t list \<Rightarrow> ('d, 'w) syscall_fn" where
  "sc_listdir junk e buf_addr sz c k =
     (if buf_addr = 0 \<or> sz < 64 then Some (Ret 0, k)
      else do {
        (names, d) \<leftarrow> (if fat12_mounted (b_fat (kr_be k)) then do {
            (n, es, d) \<leftarrow> fat12_list (hw_dev e) (b_fat (kr_be k)) junk 32 (b_disk (kr_be k));
            Some (map fe_name (take (nat n) es), d) }
          else Some ([], b_disk (kr_be k)));
        (buf, pos) \<leftarrow> put_names (unat sz) names (user_buf (unat sz) buf_addr (kr_mm k)) 0;
        b1 \<leftarrow> blit buf pos [0];
        k1 \<leftarrow> put_user buf_addr b1 (k\<lparr>kr_be := (kr_be k)\<lparr>b_disk := d\<rparr>\<rparr>);
        Some (Ret (of_nat pos), k1) })"

section \<open>The virtual file system\<close>

definition set_vfs :: "('d, 'w) backend vfs \<Rightarrow> ('d, 'w) backend \<Rightarrow> ('d, 'w) kernel \<Rightarrow> ('d, 'w) kernel" where
  "set_vfs v b k = k\<lparr>kr_vfs := v, kr_be := b\<rparr>"

definition sc_vfs_open :: "('d, 'w) syscall_fn" where
  "sc_vfs_open e path flags c k =
     (if path = 0 then Some (Ret (-1), k)
      else do {
        p \<leftarrow> user_str path (kr_mm k);
        (r, v, b) \<leftarrow> vfs_open p flags (kr_vfs k) (kr_be k);
        Some (ret_int r, set_vfs v b k) })"

definition sc_vfs_close :: "('d, 'w) syscall_fn" where
  "sc_vfs_close e fd b c k = do {
     (r, v, be) \<leftarrow> vfs_close (sint fd) (kr_vfs k) (kr_be k);
     Some (ret_int r, set_vfs v be k) }"

definition sc_vfs_read :: "('d, 'w) syscall_fn" where
  "sc_vfs_read e fd buf len k =
     (if buf = 0 then Some (Ret (-1), k)
      else do {
        (r, v, b) \<leftarrow> vfs_read (sint fd) (user_buf (unat len) buf (kr_mm k)) len (kr_vfs k) (kr_be k);
        (case r of
           RRet n x \<Rightarrow> do { k1 \<leftarrow> put_user buf x (set_vfs v b k); Some (ret_int n, k1) }
         | RYield n x \<Rightarrow> do { k1 \<leftarrow> put_user buf x (set_vfs v b k); yield_in (PendPipe n) k1 }) })"

definition sc_vfs_write :: "('d, 'w) syscall_fn" where
  "sc_vfs_write e fd buf len k =
     (if buf = 0 then Some (Ret (-1), k)
      else do {
        (r, v, b) \<leftarrow> vfs_write (sint fd) (user_buf (unat len) buf (kr_mm k)) len (kr_vfs k) (kr_be k);
        (case r of
           WRet n \<Rightarrow> Some (ret_int n, set_vfs v b k)
         | WYield rest n \<Rightarrow> yield_in (PendPipe n) (set_vfs v b k)) })"

definition sc_vfs_readdir :: "('d, 'w) syscall_fn" where
  "sc_vfs_readdir e path buf sz k =
     (if path = 0 \<or> buf = 0 then Some (Ret 0, k)
      else do {
        p \<leftarrow> user_str path (kr_mm k);
        (r, x, b) \<leftarrow> vfs_readdir p (user_buf (unat sz) buf (kr_mm k)) sz (kr_vfs k) (kr_be k);
        k1 \<leftarrow> put_user buf x (k\<lparr>kr_be := b\<rparr>);
        Some (ret_int r, k1) })"

definition stat_bytes :: "vfs_stat_t \<Rightarrow> bytes" where
  "stat_bytes st = word_bytes (st_size st) @ [st_type st] @ st_name st"

definition stat_of :: "bytes \<Rightarrow> vfs_stat_t" where
  "stat_of b = \<lparr>st_size = Packed.rd32 b 0, st_type = b ! 4, st_name = drop 5 b\<rparr>"

definition sc_vfs_stat :: "('d, 'w) syscall_fn" where
  "sc_vfs_stat e path st c k =
     (if path = 0 \<or> st = 0 then Some (Ret (-1), k)
      else do {
        p \<leftarrow> user_str path (kr_mm k);
        b0 \<leftarrow> slice (user_buf 69 st (kr_mm k)) 0 69;
        (r, x, b) \<leftarrow> vfs_stat p (stat_of b0) (kr_vfs k) (kr_be k);
        k1 \<leftarrow> put_user st (stat_bytes x) (k\<lparr>kr_be := b\<rparr>);
        Some (ret_int r, k1) })"

definition sc_vfs_unlink :: "('d, 'w) syscall_fn" where
  "sc_vfs_unlink e path b c k =
     (if path = 0 then Some (Ret (-1), k)
      else do {
        p \<leftarrow> user_str path (kr_mm k);
        (r, be) \<leftarrow> vfs_unlink p (kr_vfs k) (kr_be k);
        Some (ret_int r, k\<lparr>kr_be := be\<rparr>) })"

definition sc_vfs_pipe :: "('d, 'w) syscall_fn" where
  "sc_vfs_pipe e fds b c k =
     (if fds = 0 then Some (Ret (-1), k)
      else case vfs_pipe (kr_vfs k) of (r, ends, v) \<Rightarrow>
        (case ends of
           None \<Rightarrow> Some (ret_int r, k\<lparr>kr_vfs := v\<rparr>)
         | Some (rd, wr) \<Rightarrow> map_option (Pair (ret_int r)) (put_user fds (word_bytes (of_nat rd) @ word_bytes (of_nat wr)) (k\<lparr>kr_vfs := v\<rparr>))))"

definition sc_vfs_dup2 :: "('d, 'w) syscall_fn" where
  "sc_vfs_dup2 e old nw c k = do {
     (r, v, b) \<leftarrow> vfs_dup2 (sint old) (sint nw) (kr_vfs k) (kr_be k);
     Some (ret_int r, set_vfs v b k) }"

text \<open>For a size of 0 the last byte written lies at the end of the address space.\<close>

definition sc_vfs_getcwd :: "('d, 'w) syscall_fn" where
  "sc_vfs_getcwd e buf sz c k =
     (if buf = 0 then Some (Ret (-1), k)
      else do {
        (r, x) \<leftarrow> vfs_getcwd (user_buf (unat (sz - 1) + 1) buf (kr_mm k)) sz (kr_vfs k);
        k1 \<leftarrow> put_user buf x k;
        Some (ret_int r, k1) })"

definition sc_vfs_chdir :: "('d, 'w) syscall_fn" where
  "sc_vfs_chdir e path b c k =
     (if path = 0 then Some (Ret (-1), k)
      else do {
        p \<leftarrow> user_str path (kr_mm k);
        (r, v) \<leftarrow> vfs_chdir p (kr_vfs k);
        Some (ret_int r, k\<lparr>kr_vfs := v\<rparr>) })"

definition sc_isatty :: "('d, 'w) syscall_fn" where
  "sc_isatty e fd b c k = Some (ret_int (vfs_isatty (sint fd) (kr_vfs k)), k)"

section \<open>Programs\<close>

text \<open>The name in upper case, at most 63 characters, in an array of 64 bytes with the contents \<open>junk\<close>, and the extension when there is no dot.\<close>

definition upper_name :: "bytes \<Rightarrow> bytes \<Rightarrow> bytes option" where
  "upper_name junk path = do {
     n \<leftarrow> kstrlen path;
     u \<leftarrow> blit junk 0 (map (\<lambda>ch. if 97 \<le> ch \<and> ch \<le> 122 then ch - 32 else ch) (take (min n 63) path) @ [0]);
     d \<leftarrow> kstrchr u 46;
     if d = None then kstrcat u (lit ''.ELF'') else Some u }"

definition cur_task :: "(task_t \<Rightarrow> task_t) \<Rightarrow> ('d, 'w) kernel \<Rightarrow> ('d, 'w) kernel" where
  "cur_task f k = set_sched (upd_task (sched_current (kr_sched k)) f (kr_sched k)) k"

abbreviation the_task :: "('d, 'w) kernel \<Rightarrow> task_t" where
  "the_task k \<equiv> sc_tasks (kr_sched k) (sched_current (kr_sched k))"

definition load_program :: "('d, 'w) hw \<Rightarrow> bytes \<Rightarrow> ('d, 'w) kernel \<Rightarrow> (elf_load_result_t \<times> ('d, 'w) kernel) option" where
  "load_program e name k = do {
     (r, buf, d, m) \<leftarrow> elf_load_disk (hw_dev e) (b_fat (kr_be k)) (b_ram (kr_be k)) name (kr_elf_buf k, b_disk (kr_be k), kr_mm k);
     Some (r, k\<lparr>kr_elf_buf := buf, kr_mm := m, kr_be := (kr_be k)\<lparr>b_disk := d\<rparr>\<rparr>) }"

text \<open>The loop that takes over the arguments; the list has 16 entries.\<close>

fun copy_argv :: "nat \<Rightarrow> u32 \<Rightarrow> 'a mm_scheme \<Rightarrow> nat \<Rightarrow> u32 list \<Rightarrow> (nat \<times> u32 list) option" where
  "copy_argv 0 a m i argv = do { _ \<leftarrow> user_word (a + 4 * of_nat i) m; Some (i, argv) }"
| "copy_argv (Suc n) a m i argv = do {
     p \<leftarrow> user_word (a + 4 * of_nat i) m;
     if p \<noteq> 0 then copy_argv n a m (i + 1) (argv[i := p]) else Some (i, argv) }"

text \<open>The pages of the user stack; a page that cannot be had is left out.\<close>

fun map_stack :: "u32 list \<Rightarrow> 'a mm_scheme \<Rightarrow> 'a mm_scheme option" where
  "map_stack [] m = Some m"
| "map_stack (va # vas) m = do {
     is \<leftarrow> paging_is_mapped va m;
     m1 \<leftarrow> (if is then Some m
            else case pmm_alloc m of (phys, m1) \<Rightarrow>
              if phys = 0 then Some m1 else do { m2 \<leftarrow> zero_page phys m1; paging_map va phys (PAGE_WRITE OR PAGE_USER) m2 });
     map_stack vas m1 }"

definition sc_execve :: "bytes \<Rightarrow> ('d, 'w) syscall_fn" where
  "sc_execve junk e path_addr argv_addr envp k =
     (if path_addr = 0 then Some (Ret (-1), k)
      else do {
        path \<leftarrow> user_str path_addr (kr_mm k);
        upper \<leftarrow> upper_name junk path;
        (r, k1) \<leftarrow> load_program e upper k;
        if er_error r \<noteq> 0 then Some (Ret (-1), k1)
        else do {
          k2 \<leftarrow> (if t_page_dir_phys (the_task k1) \<noteq> 0 then do {
                   m \<leftarrow> paging_free_user (t_page_dir_phys (the_task k1)) (kr_mm k1);
                   Some (cur_task (\<lambda>x. x\<lparr>t_page_dir_phys := 0\<rparr>) (k1\<lparr>kr_mm := m\<rparr>)) }
                 else Some k1);
          (new_dir, m3) \<leftarrow> paging_clone_dir (kr_mm k2);
          let k3 = k2\<lparr>kr_mm := m3\<rparr>;
          if new_dir = 0 then Some (Ret (-1), k3)
          else do {
            let k4 = cur_task (\<lambda>x. x\<lparr>t_page_dir_phys := new_dir\<rparr>) (k3\<lparr>kr_mm := paging_switch new_dir (kr_mm k3)\<rparr>);
            (r2, k5) \<leftarrow> load_program e upper k4;
            if er_error r2 \<noteq> 0 then Some (Ret (-1), k5\<lparr>kr_mm := paging_switch 0 (kr_mm k5)\<rparr>)
            else do {
              nm \<leftarrow> kstrcpy (t_name (the_task k5)) upper;
              (argc, argv) \<leftarrow> (if argv_addr \<noteq> 0 then copy_argv 15 argv_addr (kr_mm k5) 0 (t_argv (the_task k5)) else Some (0, t_argv (the_task k5)));
              m6 \<leftarrow> map_stack (map (\<lambda>i. 0x40000000 - 16384 + of_nat i * PAGE_SIZE) [0..<4]) (kr_mm k5);
              let t = the_task k5;
              let (ksp, stk) = push_words (user_frame (er_entry r2)) (w32 (t_stack t + t_stack_size t)) (sc_stk (kr_sched k5));
              let k6 = cur_task (\<lambda>x. x\<lparr>t_name := nm, t_argc := int argc, t_argv := argv[argc := 0], t_esp := ksp\<rparr>) (k5\<lparr>kr_mm := m6\<rparr>);
              Some (Ret 0, set_sched ((kr_sched k6)\<lparr>sc_stk := stk\<rparr>) k6) } } } })"

definition sc_exec :: "bytes \<Rightarrow> ('d, 'w) syscall_fn" where
  "sc_exec junk e path b c k = sc_execve junk e path b c k"

text \<open>The frame of a child of \<^verbatim>\<open>fork\<close>.\<close>

definition fork_frame :: "u32 \<Rightarrow> u32 list" where
  "fork_frame esp = [0x23, esp, 0x202, 0x1B, 0] @ replicate 8 0 @ [0x23, 0, 0]"

definition inherit :: "task_t \<Rightarrow> u32 \<Rightarrow> task_t \<Rightarrow> task_t option" where
  "inherit parent dir child = do {
     c \<leftarrow> kstrcpy (t_cwd child) (t_cwd parent);
     let n = nat (min (t_argc parent) 15);
     Some (child\<lparr>t_parent_pid := t_pid parent, t_page_dir_phys := dir, t_cwd := c, t_argc := t_argc parent,
       t_argv := take n (t_argv parent) @ drop n (t_argv child)\<rparr>) }"

definition sc_fork :: "('d, 'w) syscall_fn" where
  "sc_fork e a b c k = do {
     let pi = sched_current (kr_sched k);
     (child_dir, m1) \<leftarrow> paging_clone_dir (kr_mm k);
     if child_dir = 0 then Some (Ret (-1), k\<lparr>kr_mm := m1\<rparr>)
     else do {
       (kstack, h1) \<leftarrow> kmalloc SCHED_STACK_SIZE (kr_heap k);
       if kstack = 0 then do { m2 \<leftarrow> paging_free_user child_dir m1; Some (Ret (-1), set_heap h1 (k\<lparr>kr_mm := m2\<rparr>)) }
       else do {
         (child_pid, s1, h2) \<leftarrow> sched_spawn (t_name (the_task k)) 0 (t_kum_level (the_task k)) (kr_sched k, h1);
         if child_pid < 0 then do {
           m2 \<leftarrow> paging_free_user child_dir m1;
           Some (Ret (-1), set_heap (kfree kstack h2) (set_sched s1 (k\<lparr>kr_mm := m2\<rparr>))) }
         else case sched_get_task s1 child_pid of
           None \<Rightarrow> Some (Ret (-1), set_heap h2 (set_sched s1 (k\<lparr>kr_mm := m1\<rparr>)))
         | Some ci \<Rightarrow> do {
             t \<leftarrow> inherit (sc_tasks s1 pi) child_dir (sc_tasks s1 ci);
             let h3 = (if t_stack t \<noteq> 0 then kfree (t_stack t) h2 else h2);
             let (sp, stk) = push_words (fork_frame (of_nat (t_esp (sc_tasks s1 pi)))) (w32 (kstack + SCHED_STACK_SIZE)) (sc_stk s1);
             let s2 = upd_task ci (\<lambda>_. t\<lparr>t_stack := kstack, t_stack_size := SCHED_STACK_SIZE, t_esp := sp\<rparr>) s1;
             Some (ret_int child_pid, set_heap h3 (set_sched (s2\<lparr>sc_stk := stk\<rparr>) (k\<lparr>kr_mm := m1\<rparr>))) } } } }"

section \<open>Sockets and waiting for input\<close>

definition sc_tcp_connect :: "('d, 'w) syscall_fn" where
  "sc_tcp_connect e ip port x k = do {
     (r, n, t, w) \<leftarrow> tcp_connect (hw_net e) ip (ucast port) (kr_net k, kr_timer k, b_world (kr_be k));
     Some (ret_int r, set_world w (k\<lparr>kr_net := n, kr_timer := t\<rparr>)) }"

definition sc_tcp_send :: "('d, 'w) syscall_fn" where
  "sc_tcp_send e s buf len k = do {
     (r, n, w) \<leftarrow> tcp_send (hw_net e) (sint s) (user_buf (unat (ucast len :: u16)) buf (kr_mm k)) (ucast len) (kr_net k, b_world (kr_be k));
     Some (ret_int r, set_world w (k\<lparr>kr_net := n\<rparr>)) }"

definition sc_tcp_recv :: "('d, 'w) syscall_fn" where
  "sc_tcp_recv e s buf len k = do {
     (r, x, n) \<leftarrow> tcp_recv (sint s) (user_buf (unat (ucast len :: u16)) buf (kr_mm k)) (ucast len) (kr_net k);
     k1 \<leftarrow> put_user buf x (k\<lparr>kr_net := n\<rparr>);
     Some (ret_int r, k1) }"

definition sc_tcp_close :: "('d, 'w) syscall_fn" where
  "sc_tcp_close e s b x k = do {
     (n, t, w) \<leftarrow> tcp_close (hw_net e) (sint s) (kr_net k, kr_timer k, b_world (kr_be k));
     Some (Ret 0, set_world w (k\<lparr>kr_net := n, kr_timer := t\<rparr>)) }"

text \<open>Whether a descriptor counts: a pipe with data, or the terminal with a key.\<close>

definition fd_ready :: "('d, 'w) kernel \<Rightarrow> nat \<Rightarrow> bool" where
  "fd_ready k fd =
     (case vfs_get_fd (int fd) (kr_vfs k) of
        None \<Rightarrow> False
      | Some f \<Rightarrow> (fd_type f = VFS_PIPE \<and> pipe_has_data (pps (kr_vfs k)) (fd_pipe_id f))
          \<or> (fd_type f = VFS_DEV \<and> fd_data f = 0 \<and> keyboard_has_input (b_kb (kr_be k))))"

definition ready_count :: "u32 \<Rightarrow> u32 \<Rightarrow> ('d, 'w) kernel \<Rightarrow> nat option" where
  "ready_count nfds rfds k =
     (if nfds = 0 \<or> rfds = 0 then Some 0
      else do {
        s \<leftarrow> user_word rfds (kr_mm k);
        Some (length (filter (\<lambda>fd. bit s fd \<and> fd_ready k fd) [0..<min (unat nfds) 32])) })"

text \<open>One round of the loop.\<close>

definition select_pass :: "u32 \<Rightarrow> u32 \<Rightarrow> u32 \<Rightarrow> ('d, 'w) kernel \<Rightarrow> (sc_result \<times> ('d, 'w) kernel) option" where
  "select_pass deadline nfds rfds k =
     (if kr_now k < deadline then do {
        n \<leftarrow> ready_count nfds rfds k;
        if n \<noteq> 0 then Some (Ret (of_nat n), k) else yield_in (PendSelect deadline) k }
      else Some (Ret 0, k))"

definition sc_select :: "('d, 'w) syscall_fn" where
  "sc_select e nfds rfds wfds k = select_pass (kr_now k + 5000 div 10) nfds rfds k"

definition sc_poll :: "('d, 'w) syscall_fn" where
  "sc_poll e fds nfds timeout k = sc_select e nfds fds 0 k"

section \<open>Dispatch\<close>

definition SYSCALL_MAX :: nat where "SYSCALL_MAX = 47"

text \<open>The table by number; \<open>junk\<close> is what the array of \<^verbatim>\<open>execve\<close> holds.\<close>

definition syscall_list :: "bytes \<Rightarrow> (nat \<times> ('d, 'w) syscall_fn) list" where
  "syscall_list junk =
     [(0, sc_exit), (1, sc_vfs_write), (2, sc_vfs_read), (3, sc_getpid), (4, sc_sleep), (5, sc_yield), (6, sc_sbrk), (7, sc_uptime), (8, sc_getkey),
      (9, sc_putchar), (10, sc_vfs_open), (11, sc_vfs_close), (12, sc_vfs_read), (13, sc_vfs_write), (14, sc_vfs_readdir), (15, sc_waitpid),
      (16, sc_wait), (17, sc_gettime), (18, sc_serial_write), (19, sc_exec junk), (20, sc_fork), (21, sc_vfs_pipe), (22, sc_vfs_dup2),
      (23, sc_vfs_getcwd), (24, sc_vfs_chdir), (25, sc_vfs_stat), (26, sc_vfs_unlink), (28, sc_getppid), (29, sc_isatty), (30, sc_kill),
      (31, sc_signal_set), (40, sc_tcp_connect), (41, sc_tcp_send), (42, sc_tcp_recv), (43, sc_tcp_close), (44, sc_execve junk), (45, sc_select),
      (46, sc_poll)]"

definition syscall_table :: "bytes \<Rightarrow> nat \<Rightarrow> ('d, 'w) syscall_fn option" where
  "syscall_table junk = map_of (syscall_list junk)"

definition syscall_dispatch :: "bytes \<Rightarrow> ('d, 'w) hw \<Rightarrow> u32 \<Rightarrow> u32 \<Rightarrow> u32 \<Rightarrow> u32 \<Rightarrow> ('d, 'w) kernel \<Rightarrow> (sc_result \<times> ('d, 'w) kernel) option" where
  "syscall_dispatch junk e num a b c k =
     (if unat num \<ge> SYSCALL_MAX then Some (Ret (-1), k)
      else case syscall_table junk (unat num) of None \<Rightarrow> Some (Ret (-1), k) | Some f \<Rightarrow> f e a b c k)"

definition syscall_init :: "u32 \<Rightarrow> ('d, 'w) kernel \<times> 'h idt_state \<Rightarrow> ('d, 'w) kernel \<times> 'h idt_state" where
  "syscall_init isr128 = (\<lambda>(k, idt). (k\<lparr>kr_ufd := (\<lambda>_. \<lparr>u_name = replicate 32 0, u_open = False, u_pos = 0\<rparr>)\<rparr>, idt_set_raw 0x80 isr128 0x08 0xEE idt))"

end
