(* ===== verification/SyscallProps.thy ===== *)
theory SyscallProps
  imports Syscall ElfProps SchedProps VfsDisk
begin

text \<open>
  What the system calls do for a program: the table and its holes, output through the terminal, the calls of the C library that do not fit the
  handlers, and \<^verbatim>\<open>fork\<close>.
\<close>

section \<open>The table\<close>

lemma syscall_table_simps [simp]:
  "syscall_table junk 1 = Some sc_vfs_write" "syscall_table junk (Suc 0) = Some sc_vfs_write" "syscall_table junk 2 = Some sc_vfs_read"
  "syscall_table junk 13 = Some sc_vfs_write" "syscall_table junk 20 = Some sc_fork"
  by (simp_all add: syscall_table_def syscall_list_def)

text \<open>
  A call number without a handler returns -1 and changes nothing: every number from 47 up, 27, and 32 to 39.
\<close>

theorem syscall_unknown:
  assumes "unat num \<ge> 47 \<or> unat num = 27 \<or> unat num \<in> {32..39}"
  shows "syscall_dispatch junk e num a b c k = Some (Ret (-1), k)"
proof (cases "unat num \<ge> 47")
  case False
  then have "unat num = 27 \<or> unat num \<in> {32..39}" using assms by blast
  then show ?thesis by (auto simp: syscall_dispatch_def syscall_table_def syscall_list_def)
qed (simp add: syscall_dispatch_def SYSCALL_MAX_def)

section \<open>The C library\<close>

text \<open>\<^verbatim>\<open>write\<close> and \<^verbatim>\<open>read\<close> of \<^verbatim>\<open>user/kumos_libc.h\<close>: the buffer and its size in the first two arguments.\<close>

definition libc_write :: "bytes \<Rightarrow> ('d, 'w) hw \<Rightarrow> u32 \<Rightarrow> u32 \<Rightarrow> ('d, 'w) kernel \<Rightarrow> (sc_result \<times> ('d, 'w) kernel) option" where
  "libc_write junk e buf len k = syscall_dispatch junk e 1 buf len 0 k"

definition libc_read :: "bytes \<Rightarrow> ('d, 'w) hw \<Rightarrow> u32 \<Rightarrow> u32 \<Rightarrow> ('d, 'w) kernel \<Rightarrow> (sc_result \<times> ('d, 'w) kernel) option" where
  "libc_read junk e buf len k = syscall_dispatch junk e 2 buf len 0 k"

lemma fd_bad_address:
  assumes "32 \<le> unat (a :: u32)"
  shows "fd_bad (sint a) v"
proof -
  have "sint a < 0 \<or> 32 \<le> sint a"
  proof (cases "unat a < 2 ^ 31")
    case True
    then have "sint a = int (unat a)" using c_int_small [of "unat a"] by (simp add: c_int_def)
    then show ?thesis using assms by linarith
  next
    case False
    have e: "uint a = int (unat a)" by simp
    have "int (2 ^ 31) \<le> uint a" "uint a < int (2 ^ 32)" unfolding e using False unat_u32_lt [of a] by (simp_all only: of_nat_less_iff of_nat_le_iff not_less)
    then have u: "2 ^ 31 \<le> uint a" "uint a < 2 ^ 32" by simp_all
    have "(uint a + 2 ^ 31 - 2 ^ 32) mod 2 ^ 32 = uint a + 2 ^ 31 - 2 ^ 32" using u by (intro mod_pos_pos_trivial) auto
    then have "take_bit 32 (uint a + 2 ^ 31) = uint a + 2 ^ 31 - 2 ^ 32" unfolding take_bit_eq_mod by (metis minus_mod_self2)
    moreover have "sint a = take_bit 32 (uint a + 2 ^ 31) - 2 ^ 31" by (simp add: sint_uint signed_take_bit_eq_take_bit_shift)
    ultimately show ?thesis using u by linarith
  qed
  then show ?thesis by (auto simp: fd_bad_def VFS_MAX_FD_def)
qed

text \<open>
  C36. The library's \<^verbatim>\<open>write\<close> and \<^verbatim>\<open>read\<close> never reach a file: the handlers take the address of the buffer for a descriptor, so that for every buffer that does
  not lie in the first 32 bytes of memory both return -1 and nothing is written, printed or read.
\<close>

theorem libc_write_fails:
  assumes "32 \<le> unat buf"
  shows "libc_write junk e buf len k = Some (Ret (-1), k) \<and> libc_read junk e buf len k = Some (Ret (-1), k)"
  using fd_bad_address [OF assms, of "kr_vfs k"]
  by (simp add: libc_write_def libc_read_def syscall_dispatch_def SYSCALL_MAX_def sc_vfs_write_def sc_vfs_read_def vfs_write_def vfs_read_def
      set_vfs_def ret_int_def put_user_def)

theorem libc_write_fails_witness:
  "\<forall>e k. libc_write [] e 0x500000 12 k = Some (Ret (-1), k)"
  by (intro allI libc_write_fails [THEN conjunct1]) simp

theorem syscall_unknown_witness:
  "\<forall>e k. syscall_dispatch [] e 27 1 2 3 k = Some (Ret (-1), k)"
  by (intro allI syscall_unknown) simp

section \<open>Output\<close>

text \<open>The descriptor stands for the terminal.\<close>

definition fd_console :: "'w ports \<Rightarrow> ('d, 'w) backend vfs \<Rightarrow> nat \<Rightarrow> bool" where
  "fd_console io v fd \<longleftrightarrow> fd < 32 \<and> (let f = fd_table v fd in fd_used f \<and> fd_type f = VFS_DEV \<and> 0 \<le> fd_mount_idx f
     \<and> m_ops (mounts v (nat (fd_mount_idx f))) = dev_ops io \<and> (fd_data f = 1 \<or> fd_data f = 2))"

lemma vfs_write_console:
  assumes "fd_console io v fd" "length buf = unat len" "unat len < 2 ^ 31"
  shows "vfs_write (int fd) buf len v b = Some (WRet (int (unat len)), fd_advance (int fd) (int (unat len)) v, b\<lparr>b_vga := fold vga_putchar buf (b_vga b)\<rparr>)"
proof -
  have "sint len = int (unat len)" using c_int_small [OF assms(3)] by (simp add: c_int_def)
  then show ?thesis using assms
    by (auto simp: vfs_write_def fd_console_def fd_bad_def VFS_MAX_FD_def VFS_DEV_def VFS_PIPE_def dev_ops_def dev_vfs_write_def slice_def Let_def)
qed

text \<open>
  C37. Call 13 on a descriptor of the terminal prints: for a buffer of the program that is mapped, the bytes at its addresses appear on the
  screen in order, the call returns their number, and neither memory nor the tasks change.
\<close>

theorem fwrite_prints:
  assumes "fd_console (hw_io e) (kr_vfs k) fd" "buf \<noteq> 0" "length (user_buf (unat len) buf (kr_mm k)) = unat len" "unat len < 2 ^ 31"
  shows "\<exists>k'. syscall_dispatch junk e 13 (of_nat fd) buf len k = Some (Ret len, k')
     \<and> b_vga (kr_be k') = fold vga_putchar (user_buf (unat len) buf (kr_mm k)) (b_vga (kr_be k)) \<and> kr_mm k' = kr_mm k \<and> kr_sig k' = kr_sig k"
proof -
  have "sint (of_nat fd :: u32) = int fd" using c_int_small [of fd] assms(1) by (simp add: c_int_def fd_console_def)
  then show ?thesis
    using vfs_write_console [OF assms(1,3,4), of "kr_be k"] assms(2)
    by (simp add: syscall_dispatch_def SYSCALL_MAX_def sc_vfs_write_def set_vfs_def ret_int_def)
qed

section \<open>Cloning a directory\<close>

lemma new_entry_addr:
  assumes "f < 4096" "i < 1024"
  shows "pfn (of_nat f * 4096 + of_nat i * 4) = f" "word_idx (of_nat f * 4096 + of_nat i * 4) = i"
  using entry_addr [OF assms(2), of "of_nat f * 4096"] assms(1) by simp_all

lemma clone_entries_low:
  assumes "f < 4096" "set is \<subseteq> {..<1024}"
  shows "pt_ok s \<Longrightarrow> f \<notin> pt_frames s \<Longrightarrow> (\<And>i. i \<in> set is \<Longrightarrow> 256 \<le> i \<Longrightarrow> page_dir s i = 0) \<Longrightarrow>
    clone_entries (of_nat f * 4096) is s = Some (of_nat f * 4096,
      s\<lparr>frames := (frames s)(f := (\<lambda>i. if i \<in> set is \<and> page_dir s i \<noteq> 0 then page_dir s i else frames s f i))\<rparr>)"
  using assms(2)
proof (induction "is" arbitrary: s)
  case (Cons i "is")
  show ?case
  proof (cases "page_dir s i = 0")
    case True
    then show ?thesis using Cons by (auto simp: fun_eq_iff intro!: arg_cong2 [where f = "\<lambda>a b. s\<lparr>frames := (frames s)(a := b)\<rparr>"])
  next
    case False
    define s1 where "s1 = s\<lparr>frames := (frames s)(f := (frames s f)(i := page_dir s i))\<rparr>"
    have i: "i < 1024" "i < 256" using Cons.prems(3,4) False by (auto simp: not_le [symmetric])
    have w: "Paging.wr32 (of_nat f * 4096 + of_nat i * 4) (page_dir s i) s = Some s1"
      using page_frame_ident [OF Cons.prems(1)] new_entry_addr [OF assms(1) i(1)] assms(1) by (simp add: Paging.wr32_def set_word_def s1_def)
    note o = set_frame_ok [OF Cons.prems(1,2), of "(frames s f)(i := page_dir s i)", folded s1_def]
    have d: "page_dir s1 = page_dir s" using Cons.prems(2) by (auto simp: page_dir_def s1_def pt_frames_def fun_eq_iff)
    have "clone_entries (of_nat f * 4096) is s1 = Some (of_nat f * 4096,
      s1\<lparr>frames := (frames s1)(f := (\<lambda>i. if i \<in> set is \<and> page_dir s1 i \<noteq> 0 then page_dir s1 i else frames s1 f i))\<rparr>)"
      by (rule Cons.IH [OF o(1)]) (use o(3) Cons.prems d in auto)
    moreover have "s1\<lparr>frames := (frames s1)(f := (\<lambda>j. if j \<in> set is \<and> page_dir s1 j \<noteq> 0 then page_dir s1 j else frames s1 f j))\<rparr>
      = s\<lparr>frames := (frames s)(f := (\<lambda>j. if j \<in> set (i # is) \<and> page_dir s j \<noteq> 0 then page_dir s j else frames s f j))\<rparr>"
      unfolding d using False by (auto simp: s1_def fun_eq_iff)
    ultimately show ?thesis using False i w by (simp add: Let_def fun_upd_def)
  qed
qed (simp add: fun_upd_idem)

lemma pmm_alloc_keeps: "pmm_alloc s = (a, s1) \<Longrightarrow> dir_base s1 = dir_base s \<and> cr3 s1 = cr3 s \<and> paging_on s1 = paging_on s"
  by (auto simp: pmm_alloc_def Let_def split: option.splits if_splits)

text \<open>Every address means the same frame under the new directory as under the old one.\<close>

lemma clone_dir_shares:
  assumes ok: "pt_ok s" and free: "pmm_owned s \<noteq> pmm_range s" and low: "\<And>i. 256 \<le> i \<Longrightarrow> i < 1024 \<Longrightarrow> page_dir s i = 0"
  shows "\<exists>f s'. paging_clone_dir s = Some (of_nat f * 4096, s') \<and> f < 4096 \<and> (of_nat f * 4096 :: u32) \<noteq> 0 \<and> pt_ok s' \<and> f \<notin> pt_frames s'
     \<and> (\<forall>i. 256 \<le> i \<longrightarrow> i < 1024 \<longrightarrow> frames s' f i = 0)
     \<and> (\<forall>v. page_frame (paging_switch (of_nat f * 4096) s') v = page_frame s v)"
proof -
  obtain f s1 where a: "pmm_alloc s = (of_nat f * 4096, s1)" "f < 4096" "f \<noteq> 0" "f \<in> pmm_range s - pmm_owned s - pt_frames s" "pt_ok s1"
    "pages s1 = pages s" "pt_frames s1 = pt_frames s" "frames s1 = frames s" "has_tbl s1 = has_tbl s" "tbl s1 = tbl s"
    using pt_ok_alloc [OF ok free] by blast
  have nz: "(of_nat f * 4096 :: u32) \<noteq> 0" using a(2,3) by (simp add: word_unat_eq_iff unat_word_ariths unat_of_nat take_bit_eq_mod)
  define s2 where "s2 = s1\<lparr>frames := (frames s1)(f := (\<lambda>_. 0))\<rparr>"
  have nf: "f \<notin> pt_frames s1" using a(4,7) by simp
  have z: "zero_page (of_nat f * 4096) s1 = Some s2" using page_frame_ident [OF a(5), of "of_nat f * 4096"] a(2) by (simp add: zero_page_def s2_def)
  note o = set_frame_ok [OF a(5) nf, of "\<lambda>_. 0", folded s2_def]
  have db: "dir_base s1 = dir_base s" "cr3 s1 = cr3 s" "paging_on s1 = paging_on s" using pmm_alloc_keeps [OF a(1)] by simp_all
  have pd: "page_dir s2 = page_dir s" using nf a(8) db by (auto simp: page_dir_def s2_def pt_frames_def fun_eq_iff)
  define s3 where "s3 = s2\<lparr>frames := (frames s2)(f := (\<lambda>i. if i \<in> set [0..<PAGE_ENTRIES] \<and> page_dir s2 i \<noteq> 0 then page_dir s2 i else frames s2 f i))\<rparr>"
  have ce: "clone_entries (of_nat f * 4096) [0..<PAGE_ENTRIES] s2 = Some (of_nat f * 4096, s3)"
    unfolding s3_def by (rule clone_entries_low [OF a(2)]) (use o(1,3) nf low pd in \<open>auto simp: PAGE_ENTRIES_def\<close>)
  have c: "paging_clone_dir s = Some (of_nat f * 4096, s3)"
    using ce nz z a(1) by (simp add: paging_clone_dir_def)
  have f2: "f \<notin> pt_frames s2" using nf o(3) by simp
  note o3 = set_frame_ok [OF o(1) f2, of "\<lambda>i. if i \<in> set [0..<PAGE_ENTRIES] \<and> page_dir s2 i \<noteq> 0 then page_dir s2 i else frames s2 f i", folded s3_def]
  have d: "frames s3 f i = page_dir s i" if "i < 1024" for i using that by (simp add: s3_def pd PAGE_ENTRIES_def) (simp add: s2_def)
  have fr: "frames s3 g = frames s g" if "g \<noteq> f" for g using that a(8) by (simp add: s3_def s2_def)
  have "Paging.walk (paging_switch (of_nat f * 4096) s3) v = Paging.walk s v" for v
  proof -
    have i: "PAGE_DIR_IDX v < 1024" using pfn_lt [of v] by (simp add: dir_idx_pfn)
    have "frames s (pfn (page_dir s (PAGE_DIR_IDX v))) = frames s3 (pfn (page_dir s (PAGE_DIR_IDX v)))" if "present (page_dir s (PAGE_DIR_IDX v))"
    proof -
      have "tbl s (PAGE_DIR_IDX v) \<in> pt_frames s" using that i by (auto simp: pt_frames_def has_tbl_def)
      then have "pfn (page_dir s (PAGE_DIR_IDX v)) \<noteq> f" using a(4) by (auto simp: tbl_def)
      then show ?thesis using fr by simp
    qed
    then show ?thesis using d [OF i] a(2) pt_okD(3) [OF ok] by (simp add: Paging.walk_def paging_switch_def page_dir_def Let_def)
  qed
  then have "page_frame (paging_switch (of_nat f * 4096) s3) v = page_frame s v" for v
    using db(3) by (simp add: page_frame_def paging_switch_def) (simp add: s3_def s2_def)
  moreover have "frames s3 f i = 0" if "256 \<le> i" "i < 1024" for i using d low that by simp
  ultimately show ?thesis using c a(2) nz o3(1,3) f2 by blast
qed

section \<open>fork\<close>

text \<open>Words pushed on a stack that does not wrap around.\<close>

lemma push_words_at:
  "4 * length vs \<le> sp \<Longrightarrow> sp < 2 ^ 32 \<Longrightarrow> fst (push_words vs sp m) = sp - 4 * length vs
     \<and> (\<forall>i < length vs. snd (push_words vs sp m) (sp - 4 * (i + 1)) = vs ! i) \<and> (\<forall>a \<ge> sp. snd (push_words vs sp m) a = m a)"
proof (induction vs arbitrary: sp m)
  case (Cons v vs)
  have s: "sub32 sp 4 = sp - 4" using Cons.prems by (intro sub32_id) auto
  have p: "4 * length vs \<le> sp - 4" "sp - 4 < 2 ^ 32" using Cons.prems by simp_all
  note IH = Cons.IH [OF p, of "m(sp - 4 := v)", THEN conjunct1] Cons.IH [OF p, of "m(sp - 4 := v)", THEN conjunct2, THEN conjunct1, rule_format]
    Cons.IH [OF p, of "m(sp - 4 := v)", THEN conjunct2, THEN conjunct2, rule_format]
  have "snd (push_words vs (sp - 4) (m(sp - 4 := v))) (sp - 4 * (i + 1)) = (v # vs) ! i" if "i < length (v # vs)" for i
    using that IH(2) [of "i - 1"] IH(3) [of "sp - 4"] by (cases i) (simp_all add: algebra_simps)
  moreover have "snd (push_words vs (sp - 4) (m(sp - 4 := v))) a = m a" if "sp \<le> a" for a using IH(3) [of a] that Cons.prems by auto
  ultimately show ?case using IH(1) by (simp add: s fun_upd_def)
qed simp

text \<open>What a spawned task keeps of its slot.\<close>

lemma sched_spawn_keeps:
  assumes "sched_spawn name entry kum (s, h) = Some (r, s', h')"
  shows "sc_current s' = sc_current s \<and> (\<forall>i. t_cwd (sc_tasks s' i) = t_cwd (sc_tasks s i) \<and> t_argv (sc_tasks s' i) = t_argv (sc_tasks s i))"
proof -
  have "t_cwd (sc_tasks (task_setup_stack j en u) i) = t_cwd (sc_tasks u i) \<and> t_argv (sc_tasks (task_setup_stack j en u) i) = t_argv (sc_tasks u i)" for i j en u
    by (subst (1 2) setup_stack_tasks) simp
  then show ?thesis using assms
    by (auto simp: sched_spawn_def Let_def upd_task_def split: if_splits option.splits bind_splits)
qed

text \<open>A directory without user tables of its own is freed without a fault.\<close>

lemma free_user_ok:
  assumes "pt_ok s" "f < 4096" "\<And>i. 256 \<le> i \<Longrightarrow> i < 1024 \<Longrightarrow> frames s f i = 0"
  shows "paging_free_user (of_nat f * 4096) s = Some (pmm_free (of_nat f * 4096) s)"
proof -
  have "free_entries (of_nat f * 4096) is s = Some s" if "set is \<subseteq> {256..<1024}" for "is"
    using that
  proof (induction "is")
    case (Cons i "is")
    then have "Paging.rd32 s (of_nat f * 4096 + of_nat i * 4) = Some 0"
      using page_frame_ident [OF assms(1), of "of_nat f * 4096 + of_nat i * 4"] new_entry_addr [OF assms(2), of i] assms(2,3)
      by (simp add: Paging.rd32_def)
    then show ?case using Cons by simp
  qed simp
  then have "free_entries (of_nat f * 4096) [256..<PAGE_ENTRIES] s = Some s" by (simp only: set_upt PAGE_ENTRIES_def)
  then show ?thesis by (simp add: paging_free_user_def)
qed

text \<open>The tasks have their arrays, and the strings of the current one end inside them.\<close>

definition fork_ready :: "('d, 'w) kernel \<Rightarrow> bool" where
  "fork_ready k \<longleftrightarrow> sched_inv (kr_sched k) \<and> t_state (the_task k) = TASK_RUNNING \<and> heap_ok (kr_heap k) \<and> terminated (t_name (the_task k)) \<and> length (cstr (t_name (the_task k))) < 32
     \<and> terminated (t_cwd (the_task k)) \<and> (\<forall>i. length (t_cwd (sc_tasks (kr_sched k) i)) = 128)
     \<and> pt_ok (kr_mm k) \<and> pmm_owned (kr_mm k) \<noteq> pmm_range (kr_mm k) \<and> (\<forall>i. 256 \<le> i \<longrightarrow> i < 1024 \<longrightarrow> page_dir (kr_mm k) i = 0)"

text \<open>The child of a \<^verbatim>\<open>fork\<close> of the current task of \<open>k\<close>, as the state \<open>k'\<close> has it.\<close>

definition fork_child :: "('d, 'w) kernel \<Rightarrow> task_t \<Rightarrow> ('d, 'w) kernel \<Rightarrow> bool" where
  "fork_child k t k' \<longleftrightarrow> t_state t = TASK_READY \<and> t_parent_pid t = t_pid (the_task k) \<and> cstr (t_cwd t) = cstr (t_cwd (the_task k))
     \<and> t_esp t = t_stack t + 4096 - 64 \<and> sc_stk (kr_sched k') (t_esp t + 44) = 0 \<and> sc_stk (kr_sched k') (t_esp t + 48) = 0x1B
     \<and> (\<forall>v. page_frame (paging_switch (t_page_dir_phys t) (kr_mm k')) v = page_frame (kr_mm k) v)"

lemma fork_correct:
  assumes r: "fork_ready k"
  shows "\<exists>res k'. sc_fork e a b c k = Some (res, k') \<and> (res = Ret (-1) \<or>
     (\<exists>ci. res = ret_int (sc_next_pid (kr_sched k)) \<and> free_slot (kr_sched k) ci \<and> t_pid (sc_tasks (kr_sched k') ci) = sc_next_pid (kr_sched k)
        \<and> fork_child k (sc_tasks (kr_sched k') ci) k'))"
proof -
  let ?s = "kr_sched k" and ?p = "the_task k"
  obtain f m1 where m: "paging_clone_dir (kr_mm k) = Some (of_nat f * 4096, m1)" "f < 4096" "(of_nat f * 4096 :: u32) \<noteq> 0" "pt_ok m1"
      "\<And>i. 256 \<le> i \<Longrightarrow> i < 1024 \<Longrightarrow> frames m1 f i = 0" "\<And>v. page_frame (paging_switch (of_nat f * 4096) m1) v = page_frame (kr_mm k) v"
    using clone_dir_shares [of "kr_mm k"] r unfolding fork_ready_def by (elim conjE) metis
  have fu: "paging_free_user (of_nat f * 4096) m1 = Some (pmm_free (of_nat f * 4096) m1)" using free_user_ok [OF m(4,2,5)] .
  have "0 < SCHED_STACK_SIZE" "SCHED_STACK_SIZE < 2 ^ 30" by (simp_all add: SCHED_STACK_SIZE_def)
  moreover have "heap_ok (kr_heap k)" using r by (simp add: fork_ready_def)
  ultimately obtain kst h1 where h: "kmalloc SCHED_STACK_SIZE (kr_heap k) = Some (kst, h1)" "heap_ok h1"
    and c: "if kst = 0 then allocs h1 = allocs (kr_heap k)
            else \<exists>n. SCHED_STACK_SIZE \<le> n \<and> allocs (kr_heap k) kst = None \<and> allocs h1 = (allocs (kr_heap k))(kst \<mapsto> n)"
    using kmalloc_correct [of "kr_heap k" SCHED_STACK_SIZE] by blast
  show ?thesis
  proof (cases "kst = 0")
    case True
    then show ?thesis using m h fu by (simp add: sc_fork_def Let_def)
  next
    case False
    then obtain n where n: "4096 \<le> n" "allocs h1 kst = Some n" using c by (auto simp: SCHED_STACK_SIZE_def)
    have "heap_bounds h1" using h(2) by (auto simp: heap_ok_def heap_wf_def)
    then have top: "kst + 4096 < 2 ^ 32" using allocs_inside [OF h(2) n(2)] n(1) by (simp add: heap_bounds_def)
    have inv: "sched_inv ?s" "terminated (t_name ?p)" "length (cstr (t_name ?p)) < 32" using r by (simp_all add: fork_ready_def)
    obtain pid s1 h2 where sp: "sched_spawn (t_name ?p) 0 (t_kum_level ?p) (?s, h1) = Some (pid, s1, h2)" "heap_ok h2" "sched_inv s1"
      and d: "pid = -1 \<and> s1 = ?s \<and> allocs h2 = allocs h1 \<or> pid = sc_next_pid ?s \<and> sc_next_pid s1 = sc_next_pid ?s + 1 \<and>
        (\<exists>slot t l. slot < 16 \<and> free_slot ?s slot \<and> sc_tasks s1 = (sc_tasks ?s)(slot := t) \<and> t_state t = TASK_READY \<and> t_pid t = pid
         \<and> cstr (t_name t) = cstr (t_name ?p) \<and> t_parent_pid t = t_pid (sc_tasks ?s (sc_current ?s)) \<and> t_stack_size t = 4096
         \<and> 4096 \<le> l \<and> allocs h1 (t_stack t) = None \<and> allocs h2 = (allocs h1)(t_stack t \<mapsto> l))"
      using sched_spawn_correct [OF inv(1) h(2) inv(2,3), of 0 "t_kum_level ?p"] by blast
    show ?thesis
    proof (cases "pid = -1")
      case True
      then show ?thesis using m h fu False sp(1) by (simp add: sc_fork_def Let_def)
    next
      case np: False
      then obtain slot t where t: "slot < 16" "free_slot ?s slot" "sc_tasks s1 = (sc_tasks ?s)(slot := t)" "t_state t = TASK_READY"
          "t_pid t = sc_next_pid ?s" "pid = sc_next_pid ?s" using d by blast
      have pos: "0 < t_pid (sc_tasks ?s (sc_current ?s))" "t_pid (sc_tasks ?s (sc_current ?s)) < pid" using inv(1) t(6) by (simp_all add: sched_inv_def)
      have cc: "sc_current s1 = sc_current ?s" "\<And>i. t_cwd (sc_tasks s1 i) = t_cwd (sc_tasks ?s i)" using sched_spawn_keeps [OF sp(1)] by simp_all
      have "slot < sc_count s1"
        using sp(3) t(3,5,6) pos by (cases "slot < sc_count s1") (auto simp: sched_inv_def not_less)
      moreover have "inj_on (\<lambda>i. t_pid (sc_tasks s1 i)) {..<sc_count s1}" using sp(3) by (simp add: sched_inv_def)
      ultimately have u: "t_pid (sc_tasks s1 j) \<noteq> pid" if "j < slot" for j
        using that t(3,5,6) inj_onD [of "\<lambda>i. t_pid (sc_tasks s1 i)" "{..<sc_count s1}" j slot] by auto
      then have g: "sched_get_task s1 pid = Some slot" unfolding sched_get_task_def
        using t(3-6) \<open>slot < sc_count s1\<close> by (intro first_idx_eqI) auto
      have "slot \<noteq> sc_current ?s" using t(2) r pos(1) by (auto simp: fork_ready_def free_slot_def sched_current_def)
      then have par: "sc_tasks s1 (sc_current ?s) = ?p" using t(3) by (simp add: sched_current_def)
      obtain cw where cw: "kstrcpy (t_cwd t) (t_cwd ?p) = Some cw" "cstr cw = cstr (t_cwd ?p)"
      proof -
        have "terminated (t_cwd ?p)" "length (t_cwd ?p) = 128" "length (t_cwd t) = 128" using r cc(2) [of slot] t(3) by (simp_all add: fork_ready_def)
        then show ?thesis using kstrcpy_into [of "t_cwd ?p" "t_cwd t"] that by (auto simp: terminated_iff_length)
      qed
      define fr where "fr = fork_frame (of_nat (t_esp ?p))"
      have lf: "length fr = 16" "fr ! 4 = 0" "fr ! 3 = 0x1B" by (simp_all add: fr_def fork_frame_def nth_append)
      obtain sp1 stk where pw: "push_words fr (kst + 4096) (sc_stk s1) = (sp1, stk)" by (cases "push_words fr (kst + 4096) (sc_stk s1)")
      have pa: "sp1 = kst + 4096 - 64" "\<And>i. i < 16 \<Longrightarrow> stk (kst + 4096 - 4 * (i + 1)) = fr ! i"
        using push_words_at [of fr "kst + 4096" "sc_stk s1"] lf(1) top unfolding pw by auto
      have ps: "sp1 = kst + 4032" "stk (kst + 4076) = 0" "stk (kst + 4080) = 0x1B" using pa(1) pa(2) [of 4] pa(2) [of 3] lf(2,3) by (simp_all add: add.commute)
      define t1 where "t1 = t\<lparr>t_parent_pid := t_pid ?p, t_page_dir_phys := of_nat f * 4096, t_cwd := cw, t_argc := t_argc ?p,
        t_argv := take (nat (min (t_argc ?p) 15)) (t_argv ?p) @ drop (nat (min (t_argc ?p) 15)) (t_argv t)\<rparr>"
      have ih: "inherit (sc_tasks s1 (sc_current ?s)) (of_nat f * 4096) (sc_tasks s1 slot) = Some t1"
        using cw(1) par t(3) by (simp add: inherit_def t1_def Let_def)
      define k' where "k' = set_heap (if t_stack t1 \<noteq> 0 then kfree (t_stack t1) h2 else h2)
        (set_sched ((upd_task slot (\<lambda>_. t1\<lparr>t_stack := kst, t_stack_size := SCHED_STACK_SIZE, t_esp := sp1\<rparr>) s1)\<lparr>sc_stk := stk\<rparr>) (k\<lparr>kr_mm := m1\<rparr>))"
      have w: "w32 (kst + SCHED_STACK_SIZE) = kst + 4096" using top by (simp add: w32_id SCHED_STACK_SIZE_def)
      have "sc_fork e a b c k = Some (ret_int pid, k')"
        unfolding sc_fork_def using m(1,3) h(1) False sp(1) pos g ih pw par
        by (simp add: Let_def w fr_def k'_def sched_current_def)
      moreover have "fork_child k (sc_tasks (kr_sched k') slot) k'"
        using t(4) cw(2) ps m(6) unfolding fork_child_def by (simp add: k'_def set_heap_def set_sched_def upd_task_def t1_def add.commute)
      moreover have "t_pid (sc_tasks (kr_sched k') slot) = sc_next_pid ?s"
        using t(5) by (simp add: k'_def set_heap_def set_sched_def upd_task_def t1_def)
      ultimately show ?thesis using t(2,6) by blast
    qed
  qed
qed


section \<open>Examples\<close>

text \<open>A kernel after the start: the idle task runs, and descriptor 1 is the terminal.\<close>

definition hw0 :: "(unit, unit) hw" where
  "hw0 = \<lparr>hw_net = \<lparr>np_io = silent, np_inw = (\<lambda>_ w. (0, w)), np_outw = (\<lambda>_ _ w. w), np_inl = (\<lambda>_ w. (0, w)), np_outl = (\<lambda>_ _ w. w), np_tx = (\<lambda>_ _ w. w),
       np_rx = (\<lambda>_. []), np_tx_addr = (\<lambda>_. 0), np_rx_addr = 0\<rparr>,
     hw_dev = \<lparr>dv_rd = (\<lambda>_ _ d. None), dv_wr = (\<lambda>_ _ _ d. None)\<rparr>, hw_pad = 0\<rparr>"

definition kernel0 :: "(unit, unit) kernel" where
  "kernel0 = \<lparr>kr_mm = paging_init 8192 mm0, kr_sig = \<lparr>sy_signals = (\<lambda>_. sigset_zero), sy_sched = sched_demo, sy_heap = heap0\<rparr>,
     kr_vfs = dev_vfs\<lparr>fd_table := (\<lambda>_. fd_zero)(1 := fd_zero\<lparr>fd_used := True, fd_type := VFS_DEV, fd_data := 1\<rparr>)\<rparr>, kr_be = backend0 fat0 (),
     kr_timer = \<lparr>tm_count = 0, tm_hz = 100\<rparr>, kr_net = net0, kr_serial_ok = False, kr_ufd = (\<lambda>_. \<lparr>u_name = replicate 32 0, u_open = False, u_pos = 0\<rparr>),
     kr_elf_buf = replicate ELF_MAX_SIZE 0, kr_tbuf = replicate 4096 0\<rparr>"

lemma kernel0_ready: "fork_ready kernel0"
proof -
  note i = paging_init_ok [OF mm0_layout, of 8192]
  have "1500 \<in> pmm_range (paging_init 8192 mm0)" "1500 \<notin> pmm_owned (paging_init 8192 mm0)" by (simp_all add: i)
  then have "pmm_owned (paging_init 8192 mm0) \<noteq> pmm_range (paging_init 8192 mm0)" by metis
  moreover have "the_task kernel0 = task_zero\<lparr>t_pid := 2, t_state := TASK_RUNNING\<rparr>" by (simp add: kernel0_def sched_demo_def sched_current_def)
  moreover have "length (t_cwd (sc_tasks sched_demo j)) = 128" for j by (simp add: sched_demo_def task_zero_def)
  ultimately show ?thesis using i(1) sched_demo_inv heap0_ok(1) paging_init_page_dir [OF mm0_layout]
    by (simp add: fork_ready_def) (simp add: kernel0_def task_zero_def terminated_def cstr_def)
qed


lemma kernel0_console: "fd_console (hw_io hw0) (kr_vfs kernel0) 1"
  by (simp add: fd_console_def kernel0_def hw0_def dev_vfs_def vfs0_def fd_zero_def)

lemma kernel0_buf: "length (user_buf 3 0x1000 (kr_mm kernel0)) = 3"
proof -
  note i = paging_init_ok [OF mm0_layout, of 8192]
  have "rd8 (kr_mm kernel0) a \<noteq> None" if "pfn a = 1" for a using that by (simp add: rd8_pages i kernel0_def)
  moreover have "pfn 0x1000 = 1" "pfn 0x1001 = 1" "pfn 0x1002 = 1" by (simp_all add: pfn_div)
  ultimately show ?thesis by (auto simp: numeral_3_eq_3 split: option.splits)
qed

theorem fwrite_prints_witness:
  "\<exists>k'. syscall_dispatch [] hw0 13 1 0x1000 3 kernel0 = Some (Ret 3, k') \<and> b_vga (kr_be k') = fold vga_putchar (user_buf 3 0x1000 (kr_mm kernel0)) vga0"
proof -
  have "b_vga (kr_be kernel0) = vga0" by (simp add: kernel0_def backend0_def)
  then show ?thesis using fwrite_prints [OF kernel0_console, of "0x1000" 3 "[]"] kernel0_buf by auto
qed

end
