(* ===== verification/Procfs.thy ===== *)
theory Procfs
  imports Syscall Dmesg Digits Keyboard PagingProps SchedProps
begin

text \<open>
  The file system of kernel states, \<^verbatim>\<open>src/procfs.c\<close>: opening a file writes a report on a component into one static buffer, reads copy from the buffer at
  one static position. The state holds both with the components that are reported on. The local arrays that are not initialised are \<open>junk\<close>.
\<close>

section \<open>State\<close>

record 'w procfs =
  pf_buf :: bytes
  pf_pos :: u32
  pf_total_mem_kb :: u32
  pf_mm :: mm
  pf_heap :: kheap
  pf_timer :: timer
  pf_sched :: sched
  pf_net :: net
  pf_dmesg :: dmesg
  pf_world :: 'w

section \<open>Reports\<close>

definition uint_to_str :: "u32 \<Rightarrow> bytes \<Rightarrow> bytes option" where
  "uint_to_str n buf = do { ds \<leftarrow> put_dec 11 n; kstrcpy buf (ds @ [0]) }"

text \<open>A report is a first string that is copied and others that are appended.\<close>

fun cat_all :: "bytes \<Rightarrow> bytes list \<Rightarrow> bytes option" where
  "cat_all buf [] = Some buf"
| "cat_all buf (s # ss) = do { b \<leftarrow> kstrcat buf s; cat_all b ss }"

definition report :: "bytes \<Rightarrow> bytes \<Rightarrow> bytes list \<Rightarrow> bytes option" where
  "report buf s ss = do { b \<leftarrow> kstrcpy buf s; cat_all b ss }"

definition build_meminfo :: "bytes \<Rightarrow> 'w procfs \<Rightarrow> 'w procfs option" where
  "build_meminfo junk p = do {
     n1 \<leftarrow> uint_to_str (pf_total_mem_kb p) junk;
     n2 \<leftarrow> uint_to_str (pmm_used (pf_mm p) * 4) n1;
     n3 \<leftarrow> uint_to_str ((pmm_total (pf_mm p) - pmm_used (pf_mm p)) * 4) n2;
     used \<leftarrow> kmalloc_used (pf_heap p);
     n4 \<leftarrow> uint_to_str (of_nat used) n3;
     b \<leftarrow> report (pf_buf p) (lit ''MemTotal:  '')
        [n1, lit_lines ['' KB''], lit ''MemUsed:   '', n2, lit_lines ['' KB''], lit ''MemFree:   '', n3, lit_lines ['' KB''],
         lit ''HeapUsed:  '', n4, lit_lines ['' B''], lit_lines [''Paging:    enabled'']];
     Some (p\<lparr>pf_buf := b\<rparr>) }"

definition build_uptime :: "bytes \<Rightarrow> 'w procfs \<Rightarrow> 'w procfs option" where
  "build_uptime junk p = do {
     s \<leftarrow> timer_seconds (pf_timer p);
     n \<leftarrow> uint_to_str s junk;
     b \<leftarrow> report (pf_buf p) n [lit_lines ['' seconds'']];
     Some (p\<lparr>pf_buf := b\<rparr>) }"

definition build_version :: "'w procfs \<Rightarrow> 'w procfs option" where
  "build_version p = do { b \<leftarrow> kstrcpy (pf_buf p) (lit_lines [''KumOS 1.8 x86'']); Some (p\<lparr>pf_buf := b\<rparr>) }"

definition state_str :: "task_state_t \<Rightarrow> bytes" where
  "state_str st = (case st of TASK_RUNNING \<Rightarrow> lit ''RUN'' | TASK_READY \<Rightarrow> lit ''RDY'' | TASK_SLEEPING \<Rightarrow> lit ''SLP'' | TASK_ZOMBIE \<Rightarrow> lit ''ZOM'' | _ \<Rightarrow> lit ''???'')"

fun ps_lines :: "bytes \<Rightarrow> sched \<Rightarrow> int list \<Rightarrow> bytes \<Rightarrow> bytes option" where
  "ps_lines junk s [] buf = Some buf"
| "ps_lines junk s (i # is) buf =
     (case sched_get_task s i of
        None \<Rightarrow> ps_lines junk s is buf
      | Some j \<Rightarrow>
          if tstate s j = TASK_DEAD then ps_lines junk s is buf
          else do {
            n \<leftarrow> uint_to_str (of_int (t_pid (sc_tasks s j))) junk;
            b \<leftarrow> cat_all buf [n, lit ''    '', state_str (tstate s j), lit ''  '', t_name (sc_tasks s j), lit_lines ['''']];
            ps_lines junk s is b })"

definition build_ps :: "bytes \<Rightarrow> 'w procfs \<Rightarrow> 'w procfs option" where
  "build_ps junk p = do {
     b \<leftarrow> kstrcpy (pf_buf p) (lit_lines [''PID  STATE  NAME'']);
     b1 \<leftarrow> ps_lines junk (pf_sched p) [1..int SCHED_MAX_TASKS] b;
     Some (p\<lparr>pf_buf := b1\<rparr>) }"

definition mac_strings :: "bytes \<Rightarrow> bytes list" where
  "mac_strings mac = concat (map (\<lambda>i. [[hexu_dig (drop_bit 4 (ucast (mac ! i))), hexu_dig (ucast (mac ! i) AND 0xF), 0]] @ (if i < 5 then [lit '':''] else [])) [0..<6])"

definition build_net :: "'w procfs \<Rightarrow> 'w procfs option" where
  "build_net p =
     (if \<not> net_ready (pf_net p) then do { b \<leftarrow> kstrcpy (pf_buf p) (lit_lines [''no network'']); Some (p\<lparr>pf_buf := b\<rparr>) }
      else do {
        b \<leftarrow> report (pf_buf p) (lit ''mac: '') (mac_strings (net_get_mac (pf_net p)) @ [10 # lit_lines [''ip:  10.0.2.15'']]);
        Some (p\<lparr>pf_buf := b\<rparr>) })"

text \<open>Two digits and a separator.\<close>

definition two :: "bytes \<Rightarrow> u8 \<Rightarrow> bytes \<Rightarrow> bytes list option" where
  "two n v sep = do { m \<leftarrow> uint_to_str (ucast v) n; Some ((if v < 10 then [lit ''0''] else []) @ [m, sep]) }"

definition build_date :: "'w ports \<Rightarrow> bytes \<Rightarrow> bytes \<Rightarrow> 'w procfs \<Rightarrow> 'w procfs option" where
  "build_date io junk n p = do {
     (t, w) \<leftarrow> rtc_read io (pf_world p);
     y \<leftarrow> uint_to_str (ucast (t_year t)) n;
     mo \<leftarrow> two n (t_month t) (lit ''-'');
     dd \<leftarrow> two n (t_day t) (lit '' '');
     hh \<leftarrow> two n (t_hour t) (lit '':'');
     mi \<leftarrow> two n (t_minute t) (lit '':'');
     ss \<leftarrow> two n (t_second t) (lit_lines ['''']);
     buf \<leftarrow> report junk y (lit ''-'' # mo @ dd @ hh @ mi @ ss);
     b \<leftarrow> kstrcpy (pf_buf p) buf;
     Some (p\<lparr>pf_buf := b, pf_world := w\<rparr>) }"

section \<open>Operations\<close>

text \<open>The local arrays have 16, 16, 12, 32 and 8 bytes.\<close>

record pf_junk =
  j_meminfo :: bytes
  j_uptime :: bytes
  j_ps :: bytes
  j_date :: bytes
  j_num :: bytes

definition build :: "'w ports \<Rightarrow> pf_junk \<Rightarrow> (string \<times> ('w procfs \<Rightarrow> 'w procfs option)) list" where
  "build io j = [(''meminfo'', build_meminfo (j_meminfo j)), (''uptime'', build_uptime (j_uptime j)), (''version'', build_version),
     (''ps'', build_ps (j_ps j)), (''net'', build_net), (''date'', build_date io (j_date j) (j_num j)),
     (''dmesg'', \<lambda>p. do { (_, b) \<leftarrow> dmesg_read (pf_buf p) 2048 (pf_dmesg p); Some (p\<lparr>pf_buf := b\<rparr>) })]"

fun open_entry :: "bytes \<Rightarrow> (string \<times> ('w procfs \<Rightarrow> 'w procfs option)) list \<Rightarrow> int \<Rightarrow> 'w procfs \<Rightarrow> (int \<times> 'w procfs) option" where
  "open_entry path [] n p = Some (-1, p)"
| "open_entry path ((nm, f) # r) n p = do {
     c \<leftarrow> kstrcmp path (lit nm);
     if c = 0 then do { p1 \<leftarrow> f p; Some (n, p1) } else open_entry path r (n + 1) p }"

definition proc_open :: "'w ports \<Rightarrow> pf_junk \<Rightarrow> bytes \<Rightarrow> u32 \<Rightarrow> 'w procfs \<Rightarrow> (int \<times> 'w procfs) option" where
  "proc_open io j path flags p = open_entry path (build io j) 1 p"

definition proc_close :: "int \<Rightarrow> 'w procfs \<Rightarrow> (int \<times> 'w procfs) option" where
  "proc_close d p = Some (0, p\<lparr>pf_pos := 0\<rparr>)"

definition proc_read :: "int \<Rightarrow> bytes \<Rightarrow> u32 \<Rightarrow> 'w procfs \<Rightarrow> (int \<times> bytes \<times> 'w procfs) option" where
  "proc_read d buf len0 p = do {
     n \<leftarrow> kstrlen (pf_buf p);
     let avail = of_nat n - pf_pos p;
     let len = (if len0 > avail then avail else len0);
     if len = 0 then Some (0, buf, p)
     else do {
       x \<leftarrow> slice (pf_buf p) (unat (pf_pos p)) (unat len);
       buf1 \<leftarrow> blit buf 0 x;
       Some (sint len, buf1, p\<lparr>pf_pos := pf_pos p + len\<rparr>) } }"

definition proc_write :: "int \<Rightarrow> bytes \<Rightarrow> u32 \<Rightarrow> 'w procfs \<Rightarrow> (int \<times> 'w procfs) option" where
  "proc_write d buf len p = Some (-1, p)"

definition proc_stat :: "bytes \<Rightarrow> vfs_stat_t \<Rightarrow> 'w procfs \<Rightarrow> (int \<times> vfs_stat_t \<times> 'w procfs) option" where
  "proc_stat path st p = do { nm \<leftarrow> kstrcpy (st_name st) path; Some (0, \<lparr>st_size = 0, st_type = VFS_FILE, st_name = nm\<rparr>, p) }"

definition proc_readdir :: "bytes \<Rightarrow> bytes \<Rightarrow> u32 \<Rightarrow> 'w procfs \<Rightarrow> (int \<times> bytes \<times> 'w procfs) option" where
  "proc_readdir path buf sz p = do {
     b \<leftarrow> kstrcpy buf (lit_lines [''meminfo'', ''uptime'', ''version'', ''ps'', ''net'', ''date'', ''dmesg'']);
     n \<leftarrow> kstrlen b;
     Some (c_int n, b, p) }"

definition proc_ops :: "'w ports \<Rightarrow> pf_junk \<Rightarrow> 'w procfs vfs_ops_t" where
  "proc_ops io j = \<lparr>op_open = Some (proc_open io j), op_close = Some proc_close, op_read = Some proc_read, op_write = Some proc_write,
     op_stat = Some proc_stat, op_readdir = Some proc_readdir, op_unlink = None, op_mkdir = None\<rparr>"

definition proc_fs_init :: "'w ports \<Rightarrow> pf_junk \<Rightarrow> 'w procfs vfs \<Rightarrow> (int \<times> 'w procfs vfs) option" where
  "proc_fs_init io j v = vfs_mount (lit ''/proc'') (proc_ops io j) v"

section \<open>Reading a report\<close>

lemma kstrlen_cstr: "terminated b \<Longrightarrow> kstrlen b = Some (length (cstr b))"
  by (simp add: kstr_simps)

lemma proc_read_spec:
  assumes "terminated (pf_buf p)" "length (pf_buf p) = 2048" "unat (pf_pos p) \<le> length (cstr (pf_buf p))" "unat len \<le> length buf"
    and n: "n = min (unat len) (length (cstr (pf_buf p)) - unat (pf_pos p))"
  shows "proc_read d buf len p = Some (int n, take n (drop (unat (pf_pos p)) (cstr (pf_buf p))) @ drop n buf, p\<lparr>pf_pos := pf_pos p + of_nat n\<rparr>)"
proof -
  let ?L = "length (cstr (pf_buf p))"
  have L: "?L < 2048" using assms(1,2) by (simp add: terminated_iff_length)
  define avail where "avail = (of_nat ?L - pf_pos p :: u32)"
  have "unat (of_nat ?L :: u32) = ?L" using L by (simp add: unat_of_nat take_bit_eq_mod)
  then have av: "unat avail = ?L - unat (pf_pos p)" using assms(3) by (simp add: avail_def unat_sub word_le_nat_alt)
  define l where "l = (if len > avail then avail else len)"
  have ul: "unat l = n" by (auto simp: l_def n av word_less_nat_alt)
  have l0: "l = of_nat n" using ul by auto
  have pre: "take n (drop (unat (pf_pos p)) (pf_buf p)) = take n (drop (unat (pf_pos p)) (cstr (pf_buf p)))"
    by (subst terminated_split [OF assms(1)]) (use n assms(3) in simp)
  have pr: "proc_read d buf len p = (if l = 0 then Some (0, buf, p)
      else do { x \<leftarrow> slice (pf_buf p) (unat (pf_pos p)) (unat l); buf1 \<leftarrow> blit buf 0 x; Some (sint l, buf1, p\<lparr>pf_pos := pf_pos p + l\<rparr>) })"
    unfolding proc_read_def Let_def kstrlen_cstr [OF assms(1)] l_def avail_def by simp
  show ?thesis
  proof (cases "n = 0")
    case False
    have "sint l = int n" using c_int_small [of n] L n by (simp add: l0 c_int_def)
    moreover have "slice (pf_buf p) (unat (pf_pos p)) n = Some (take n (drop (unat (pf_pos p)) (cstr (pf_buf p))))"
      using pre n assms(2,3) L by (simp add: slice_def)
    moreover have "blit buf 0 (take n (drop (unat (pf_pos p)) (cstr (pf_buf p)))) = Some (take n (drop (unat (pf_pos p)) (cstr (pf_buf p))) @ drop n buf)"
      using n assms(4) by (simp add: blit_def min_def)
    moreover have "l \<noteq> 0" using ul False by auto
    ultimately show ?thesis unfolding pr ul by (simp add: l0)
  qed (use l0 pr in simp)
qed

text \<open>The report on the time, as the file system delivers it.\<close>

lemma open_uptime:
  assumes "length (pf_buf p) = 2048" "length (j_uptime j) = 16" "tm_hz (pf_timer p) \<noteq> 0"
  shows "\<exists>ds p1. proc_open io j (lit ''uptime'') 0 p = Some (2, p1) \<and> dec_value ds = unat (tm_count (pf_timer p) div tm_hz (pf_timer p))
     \<and> length (pf_buf p1) = 2048 \<and> terminated (pf_buf p1) \<and> cstr (pf_buf p1) = ds @ map of_char '' seconds'' @ [10] \<and> length ds \<le> 11 \<and> pf_pos p1 = pf_pos p"
proof -
  let ?s = "tm_count (pf_timer p) div tm_hz (pf_timer p)"
  obtain ds where ds: "put_dec 11 ?s = Some ds" "dec_value ds = unat ?s" "length ds \<le> 11" "list_all (\<lambda>d. 48 \<le> unat d \<and> unat d \<le> 57) ds"
    using put_dec_u32 [of 11 ?s] by auto
  then have "0 \<notin> set ds" by (auto simp: list_all_iff)
  then obtain n where n: "uint_to_str ?s (j_uptime j) = Some n" "cstr n = ds" "terminated n"
    using kstrcpy_into [of "ds @ [0]" "j_uptime j"] ds assms(2) by (auto simp: uint_to_str_def)
  obtain b where b: "kstrcpy (pf_buf p) n = Some b" "cstr b = ds" "length b = 2048" "terminated b"
    using kstrcpy_into [OF n(3), of "pf_buf p"] n(2) assms(1) ds(3) by auto
  have sl: "terminated (lit_lines ['' seconds''])" "cstr (lit_lines ['' seconds'']) = map of_char '' seconds'' @ [10]" by (simp_all add: lit_lines_def)
  then obtain b1 where b1: "kstrcat b (lit_lines ['' seconds'']) = Some b1" using b ds(3) by (auto simp: kstrcat_eq)
  have bu: "build_uptime (j_uptime j) p = Some (p\<lparr>pf_buf := b1\<rparr>)"
    using assms(3) n(1) b(1) b1 by (simp add: build_uptime_def timer_seconds_def report_def)
  have "kstrcmp (lit ''uptime'') (lit ''meminfo'') = Some 8" "kstrcmp (lit ''uptime'') (lit ''uptime'') = Some 0" by (simp_all add: lit_def)
  then have "proc_open io j (lit ''uptime'') 0 p = Some (2, p\<lparr>pf_buf := b1\<rparr>)" using bu by (auto simp: proc_open_def build_def)
  then show ?thesis using kstrcat_cstr [OF b1] b(2,3) ds(2,3) sl(2) by (intro exI [of _ ds] exI [of _ "p\<lparr>pf_buf := b1\<rparr>"]) simp
qed

text \<open>
  Reading \<^verbatim>\<open>/proc/uptime\<close>: opening it at position 0 and reading with a buffer of 32 bytes or more gives the seconds since the start in
  decimal and the word for them, and closing it puts the position back to 0 for the next file.
\<close>

theorem proc_uptime:
  assumes "length (pf_buf p) = 2048" "length (j_uptime j) = 16" "tm_hz (pf_timer p) \<noteq> 0" "pf_pos p = 0" "32 \<le> unat len" "unat len \<le> length buf"
  shows "\<exists>ds rp p1 p2 p3. proc_open io j (lit ''uptime'') 0 p = Some (2, p1) \<and> dec_value ds = unat (tm_count (pf_timer p) div tm_hz (pf_timer p))
     \<and> rp = ds @ map of_char '' seconds'' @ [10] \<and> proc_read 2 buf len p1 = Some (int (length rp), rp @ drop (length rp) buf, p2)
     \<and> proc_close 2 p2 = Some (0, p3) \<and> pf_pos p3 = 0"
proof -
  obtain ds p1 where op: "proc_open io j (lit ''uptime'') 0 p = Some (2, p1)" "dec_value ds = unat (tm_count (pf_timer p) div tm_hz (pf_timer p))"
     "length (pf_buf p1) = 2048" "terminated (pf_buf p1)" "cstr (pf_buf p1) = ds @ map of_char '' seconds'' @ [10]" "length ds \<le> 11" "pf_pos p1 = 0"
    using open_uptime [OF assms(1-3)] assms(4) by metis
  define rp where "rp = ds @ map of_char '' seconds'' @ [10 :: u8]"
  have "length rp \<le> unat len" "cstr (pf_buf p1) = rp" using op(5,6) assms(5) by (simp_all add: rp_def)
  then have "proc_read 2 buf len p1 = Some (int (length rp), rp @ drop (length rp) buf, p1\<lparr>pf_pos := of_nat (length rp)\<rparr>)"
    using proc_read_spec [OF op(4,3) _ assms(6) refl, of 2] op(7) by (simp add: min_def)
  moreover have "\<exists>p3. proc_close 2 q = Some (0, p3) \<and> pf_pos p3 = 0" for q :: "'a procfs" by (simp add: proc_close_def)
  ultimately show ?thesis using op(1,2) rp_def by blast
qed

text \<open>
  The position belongs to no file: a report opened after another one has been read and not closed is read from the old position. When it is
  shorter than that, what is left wraps around and the read delivers old bytes from behind the report.
\<close>

lemma proc_read_stale:
  assumes "terminated (pf_buf p)" "length (pf_buf p) = 2048" "length (cstr (pf_buf p)) < unat (pf_pos p)" "unat (pf_pos p) + unat len \<le> 2048"
    and "0 < unat len" "unat len \<le> length buf"
  shows "\<exists>p1. proc_read d buf len p = Some (int (unat len), take (unat len) (drop (unat (pf_pos p)) (pf_buf p)) @ drop (unat len) buf, p1)"
proof -
  let ?L = "length (cstr (pf_buf p))"
  define avail where "avail = (of_nat ?L - pf_pos p :: u32)"
  have L: "unat (of_nat ?L :: u32) = ?L" using assms(3,4) by (simp add: unat_of_nat take_bit_eq_mod)
  have "unat avail = ?L + 2 ^ 32 - unat (pf_pos p)" using assms(3,4) L by (simp add: avail_def unat_sub_if')
  then have "\<not> len > avail" using assms(3,4) by (simp add: word_less_nat_alt)
  moreover have "len \<noteq> 0" using assms(5) by auto
  moreover have "sint len = int (unat len)" using c_int_small [of "unat len"] assms(4) by (simp add: c_int_def)
  moreover have "unat len \<le> 2048 - unat (pf_pos p)" using assms(4) by simp
  moreover have "slice (pf_buf p) (unat (pf_pos p)) (unat len) = Some (take (unat len) (drop (unat (pf_pos p)) (pf_buf p)))"
    using assms(2,4) by (simp add: slice_def)
  moreover have "blit buf 0 (take (unat len) (drop (unat (pf_pos p)) (pf_buf p))) = Some (take (unat len) (drop (unat (pf_pos p)) (pf_buf p)) @ drop (unat len) buf)"
    using assms(2,4,6) \<open>unat len \<le> 2048 - unat (pf_pos p)\<close> by (simp add: blit_def min.absorb2)
  ultimately show ?thesis unfolding proc_read_def Let_def kstrlen_cstr [OF assms(1)] avail_def by simp
qed

section \<open>Example\<close>

definition proc0 :: "unit procfs" where
  "proc0 = \<lparr>pf_buf = replicate 2048 0, pf_pos = 0, pf_total_mem_kb = 8192, pf_mm = paging_init 8192 mm0, pf_heap = heap0, pf_timer = \<lparr>tm_count = 4200, tm_hz = 100\<rparr>,
     pf_sched = sched_demo, pf_net = net0, pf_dmesg = \<lparr>dm_buf = (\<lambda>_. 0), dm_head = 0, dm_count = 0\<rparr>, pf_world = ()\<rparr>"

definition pf_junk0 :: pf_junk where
  "pf_junk0 = \<lparr>j_meminfo = replicate 16 0, j_uptime = replicate 16 0, j_ps = replicate 12 0, j_date = replicate 32 0, j_num = replicate 8 0\<rparr>"

theorem proc_uptime_witness:
  "\<exists>ds p1 p2. proc_open silent pf_junk0 (lit ''uptime'') 0 proc0 = Some (2, p1) \<and> dec_value ds = 42
     \<and> proc_read 2 (replicate 64 0) 64 p1 = Some (int (length ds) + 9, ds @ map of_char '' seconds'' @ [10] @ replicate (55 - length ds) 0, p2)"
proof -
  have "unat (tm_count (pf_timer proc0) div tm_hz (pf_timer proc0)) = 42" by (simp add: proc0_def)
  moreover have "length (pf_buf proc0) = 2048" "length (j_uptime pf_junk0) = 16" "tm_hz (pf_timer proc0) \<noteq> 0" "pf_pos proc0 = 0" by (simp_all add: proc0_def pf_junk0_def)
  ultimately show ?thesis using proc_uptime [of proc0 pf_junk0 64 "replicate 64 0" silent] by auto
qed

end
