(* ===== verification/Userspace.thy ===== *)
theory Userspace
  imports Syscall SchedProps
begin

text \<open>
  Starting a built-in program in ring 3, \<^verbatim>\<open>user_spawn\<close> of \<^verbatim>\<open>src/userspace.c\<close>. An entry point is its address.
\<close>

definition USER_STACK_SIZE :: u32 where "USER_STACK_SIZE = 8192"

definition spawn_frame :: "u32 \<Rightarrow> u32 \<Rightarrow> u32 list" where
  "spawn_frame entry user_esp = [USER_DS, user_esp, 0x202, USER_CS, entry] @ replicate 8 0 @ [USER_DS, 0, 0]"

definition user_task_setup :: "nat \<Rightarrow> u32 \<Rightarrow> u32 \<Rightarrow> sched \<Rightarrow> sched" where
  "user_task_setup i entry user_esp s =
     (let t = sc_tasks s i; (sp, stk) = push_words (spawn_frame entry user_esp) (w32 (t_stack t + t_stack_size t)) (sc_stk s)
      in (upd_task i (\<lambda>x. x\<lparr>t_esp := sp\<rparr>) s)\<lparr>sc_stk := stk\<rparr>)"

text \<open>The pages of the new stack mapped again, for the user.\<close>

fun remap :: "u32 list \<Rightarrow> 'a mm_scheme \<Rightarrow> 'a mm_scheme option" where
  "remap [] m = Some m"
| "remap (virt # vs) m = do {
     phys \<leftarrow> paging_virt_to_phys virt m;
     m1 \<leftarrow> (if phys \<noteq> 0 then paging_map virt phys (PAGE_WRITE OR PAGE_USER) m else Some m);
     remap vs m1 }"

definition user_spawn :: "bytes \<Rightarrow> u32 \<Rightarrow> 'a mm_scheme \<times> sched \<times> kheap \<Rightarrow> (int \<times> 'a mm_scheme \<times> sched \<times> kheap) option" where
  "user_spawn name entry = (\<lambda>(m, s, h). do {
     (kstack, h1) \<leftarrow> kmalloc SCHED_STACK_SIZE h;
     if kstack = 0 then Some (-1, m, s, h1)
     else do {
       (ustack, m1) \<leftarrow> vmalloc USER_STACK_SIZE m;
       if ustack = 0 then Some (-1, m1, s, kfree kstack h1)
       else do {
         m2 \<leftarrow> remap [ustack, ustack + PAGE_SIZE] m1;
         (pid, s1, h2) \<leftarrow> sched_spawn name entry 0 (s, h1);
         if pid < 0 then do { m3 \<leftarrow> vmfree ustack m2; Some (-1, m3, s1, kfree kstack h2) }
         else case sched_get_task s1 pid of
           None \<Rightarrow> Some (pid, m2, s1, h2)
         | Some i \<Rightarrow> Some (pid, m2, user_task_setup i entry (ustack + USER_STACK_SIZE - 4) s1, h2) } } })"

text \<open>
  The first allocation is lost: after a successful call the heap holds a block of at least 4096 bytes that it did not hold before and that is the stack of
  no task, in addition to the stack of the new one.
\<close>

lemma user_task_setup_stack: "t_stack (sc_tasks (user_task_setup i entry e s) j) = t_stack (sc_tasks s j)"
  by (simp add: user_task_setup_def Let_def case_prod_unfold upd_task_def)

lemma user_spawn_leaks:
  assumes "sched_inv s" "heap_ok h" "terminated name" "length (cstr name) < 32" "\<And>i. t_stack (sc_tasks s i) = 0 \<or> allocs h (t_stack (sc_tasks s i)) \<noteq> None"
    and r: "user_spawn name entry (m, s, h) = Some (pid, m', s', h')" "0 \<le> pid"
  shows "\<exists>p k. 4096 \<le> k \<and> allocs h p = None \<and> allocs h' p = Some k \<and> (\<forall>i. t_stack (sc_tasks s' i) \<noteq> p)"
proof -
  have "0 < SCHED_STACK_SIZE" "SCHED_STACK_SIZE < 2 ^ 30" by (simp_all add: SCHED_STACK_SIZE_def)
  from kmalloc_correct [OF assms(2) this] obtain kst h1 where h: "kmalloc SCHED_STACK_SIZE h = Some (kst, h1)" "heap_ok h1"
    and c: "if kst = 0 then allocs h1 = allocs h else \<exists>n. SCHED_STACK_SIZE \<le> n \<and> allocs h kst = None \<and> allocs h1 = (allocs h)(kst \<mapsto> n)" by blast
  have nz: "kst \<noteq> 0" using r h(1) by (cases "kst = 0") (auto simp: user_spawn_def)
  then obtain n where n: "4096 \<le> n" "allocs h kst = None" "allocs h1 = (allocs h)(kst \<mapsto> n)" using c by (auto simp: SCHED_STACK_SIZE_def)
  obtain s1 h2 where sp: "sched_spawn name entry 0 (s, h1) = Some (pid, s1, h2)" "h' = h2" "\<And>i. t_stack (sc_tasks s' i) = t_stack (sc_tasks s1 i)"
    using r h(1) nz
    by (auto simp: user_spawn_def user_task_setup_stack split: if_splits option.splits bind_splits)
  obtain slot t k where t: "sc_tasks s1 = (sc_tasks s)(slot := t)" "allocs h1 (t_stack t) = None" "allocs h2 = (allocs h1)(t_stack t \<mapsto> k)"
    using sched_spawn_correct [OF assms(1) h(2) assms(3,4), of entry 0] sp(1) r(2) by auto
  have "t_stack t \<noteq> kst" using t(2) n(3) by auto
  moreover have "t_stack (sc_tasks s i) \<noteq> kst" for i using assms(5) [of i] n(2) nz by metis
  ultimately show ?thesis using n t sp(2,3) by (intro exI [of _ kst] exI [of _ n]) auto
qed

end
