(* ===== verification/Ed.thy ===== *)
theory Ed
  imports UserTools Vfs
begin

text \<open>
  The line editor, \<^verbatim>\<open>user/ed.c\<close>: 256 lines of 256 bytes, the editing commands, loading and saving, over the system calls as parameters. The commands
  refine operations on a list of strings, and what is saved is what is loaded again.
\<close>

section \<open>State and system calls\<close>

definition MAX_LINES :: nat where "MAX_LINES = 256"
definition LINE_LEN :: nat where "LINE_LEN = 256"

record ed =
  ed_lines :: "nat \<Rightarrow> bytes"
  ed_nlines :: nat
  ed_filename :: bytes
  ed_modified :: bool

record 'w esys =
  es_sys :: "'w sys"
  es_open :: "bytes \<Rightarrow> u32 \<Rightarrow> 'w \<Rightarrow> int \<times> 'w"
  es_fwrite :: "int \<Rightarrow> bytes \<Rightarrow> 'w \<Rightarrow> 'w"

definition say :: "'w esys \<Rightarrow> string \<Rightarrow> 'w \<Rightarrow> 'w option" where
  "say sy s w = puts (es_sys sy) (lit s) w"

definition sayf :: "'w esys \<Rightarrow> string \<Rightarrow> fmt_arg list \<Rightarrow> 'w \<Rightarrow> 'w option" where
  "sayf sy s as w = map_option snd (printf (sys_write (es_sys sy)) (lit_lines [s]) as w)"

section \<open>Lines\<close>

text \<open>\<^verbatim>\<open>strncpy(lines[i], s, LINE_LEN-1)\<close>\<close>

definition set_row :: "nat \<Rightarrow> bytes \<Rightarrow> ed \<Rightarrow> ed option" where
  "set_row i s st = do { r \<leftarrow> strncpy (ed_lines st i) s (LINE_LEN - 1); Some (st\<lparr>ed_lines := (ed_lines st)(i := r)\<rparr>) }"

text \<open>\<^verbatim>\<open>memcpy(lines[i], lines[j], LINE_LEN)\<close>\<close>

definition copy_row :: "nat \<Rightarrow> nat \<Rightarrow> ed \<Rightarrow> ed option" where
  "copy_row i j st = do { r \<leftarrow> memcpy (ed_lines st i) (ed_lines st j) LINE_LEN; Some (st\<lparr>ed_lines := (ed_lines st)(i := r)\<rparr>) }"

fun copy_rows :: "(nat \<times> nat) list \<Rightarrow> ed \<Rightarrow> ed option" where
  "copy_rows [] st = Some st"
| "copy_rows ((i, j) # r) st = do { st1 \<leftarrow> copy_row i j st; copy_rows r st1 }"

definition ed_append :: "bytes \<Rightarrow> ed \<Rightarrow> ed option" where
  "ed_append x st = map_option (\<lambda>s. s\<lparr>ed_nlines := ed_nlines st + 1, ed_modified := True\<rparr>) (set_row (ed_nlines st) x st)"

definition ed_insert :: "nat \<Rightarrow> bytes \<Rightarrow> ed \<Rightarrow> ed option" where
  "ed_insert lno x st = do {
     st1 \<leftarrow> copy_rows (map (\<lambda>i. (i, i - 1)) (rev [lno + 1..<ed_nlines st + 1])) st;
     st2 \<leftarrow> set_row lno x st1;
     Some (st2\<lparr>ed_nlines := ed_nlines st + 1, ed_modified := True\<rparr>) }"

definition ed_delete :: "nat \<Rightarrow> ed \<Rightarrow> ed option" where
  "ed_delete lno st = do {
     st1 \<leftarrow> copy_rows (map (\<lambda>i. (i, i + 1)) [lno..<ed_nlines st - 1]) st;
     r \<leftarrow> blit (ed_lines st1 (ed_nlines st - 1)) 0 [0];
     Some (st1\<lparr>ed_lines := (ed_lines st1)(ed_nlines st - 1 := r), ed_nlines := ed_nlines st - 1, ed_modified := True\<rparr>) }"

definition ed_change :: "nat \<Rightarrow> bytes \<Rightarrow> ed \<Rightarrow> ed option" where
  "ed_change lno x st = map_option (\<lambda>s. s\<lparr>ed_modified := True\<rparr>) (set_row lno x st)"

text \<open>\<open>Some None\<close>: the pattern is not found. \<open>junk\<close> is what the array for the new line holds.\<close>

definition ed_subst :: "bytes \<Rightarrow> nat \<Rightarrow> bytes \<Rightarrow> bytes \<Rightarrow> ed \<Rightarrow> ed option option" where
  "ed_subst junk lno pat rep st = do {
     pos \<leftarrow> strstr (ed_lines st lno) pat;
     case pos of
       None \<Rightarrow> Some None
     | Some pre \<Rightarrow> do {
         n1 \<leftarrow> memcpy junk (ed_lines st lno) pre;
         n2 \<leftarrow> blit n1 pre [0];
         n3 \<leftarrow> strcat n2 rep;
         k \<leftarrow> strlen pat;
         n4 \<leftarrow> strcat n3 (drop (pre + k) (ed_lines st lno));
         st1 \<leftarrow> set_row lno n4 st;
         Some (Some (st1\<lparr>ed_modified := True\<rparr>)) } }"

section \<open>Files\<close>

fun fill_rows :: "nat \<Rightarrow> bytes list \<Rightarrow> ed \<Rightarrow> ed option" where
  "fill_rows i [] st = Some (st\<lparr>ed_nlines := i\<rparr>)"
| "fill_rows i (l # ls) st = do { st1 \<leftarrow> set_row i l st; fill_rows (i + 1) ls st1 }"

definition load_text :: "bytes \<Rightarrow> ed \<Rightarrow> ed option" where
  "load_text x st = do { ls \<leftarrow> get_lines MAX_LINES (x @ [0]); fill_rows 0 ls st }"

definition ed_load :: "'w esys \<Rightarrow> bytes \<Rightarrow> ed \<Rightarrow> 'w \<Rightarrow> (ed \<times> 'w) option" where
  "ed_load sy fnm st w =
     (case sys_open (es_sys sy) fnm w of (fd, w1) \<Rightarrow>
        if fd < 0 then map_option (Pair st) (sayf sy ''New file: %s'' [FStr (Some fnm)] w1)
        else case sys_fread (es_sys sy) fd 4095 w1 of (x, w2) \<Rightarrow>
          (let w3 = sys_close (es_sys sy) fd w2 in
           if x = [] then Some (st, w3)
           else if length x > 4095 then None
           else do {
             st1 \<leftarrow> load_text x st;
             w4 \<leftarrow> sayf sy ''Loaded %d lines from %s'' [FInt (int (ed_nlines st1)), FStr (Some fnm)] w3;
             Some (st1, w4) }))"

fun put_rows :: "bytes list \<Rightarrow> bytes option" where
  "put_rows [] = Some []"
| "put_rows (r # rs) = do { n \<leftarrow> strlen r; x \<leftarrow> put_rows rs; Some (take n r @ [10] @ x) }"

text \<open>The text and the zero behind it have to fit into the array.\<close>

definition save_text :: "ed \<Rightarrow> bytes option" where
  "save_text st = do {
     x \<leftarrow> put_rows (map (ed_lines st) [0..<ed_nlines st]);
     if length x < MAX_LINES * LINE_LEN then Some x else None }"

definition ed_save :: "'w esys \<Rightarrow> ed \<Rightarrow> 'w \<Rightarrow> (ed \<times> 'w) option" where
  "ed_save sy st w = do {
     x \<leftarrow> save_text st;
     case es_open sy (ed_filename st) (O_WRONLY OR O_CREAT OR O_TRUNC) w of (fd, w1) \<Rightarrow>
       if fd < 0 then map_option (Pair st) (sayf sy ''Error: can't save %s'' [FStr (Some (ed_filename st))] w1)
       else do {
         let w2 = sys_close (es_sys sy) fd (es_fwrite sy fd x w1);
         w3 \<leftarrow> sayf sy ''Saved %d lines to %s'' [FInt (int (ed_nlines st)), FStr (Some (ed_filename st))] w2;
         Some (st\<lparr>ed_modified := False\<rparr>, w3) } }"

section \<open>Commands\<close>

fun list_rows :: "'w esys \<Rightarrow> ed \<Rightarrow> nat list \<Rightarrow> 'w \<Rightarrow> 'w option" where
  "list_rows sy st [] w = Some w"
| "list_rows sy st (i # is) w = do { w1 \<leftarrow> sayf sy ''%3d | %s'' [FInt (int i + 1), FStr (Some (ed_lines st i))] w; list_rows sy st is w1 }"

definition ed_list :: "'w esys \<Rightarrow> ed \<Rightarrow> int \<Rightarrow> int \<Rightarrow> 'w \<Rightarrow> 'w option" where
  "ed_list sy st from to w =
     (let f = (if from < 0 then 0 else from); t = (if to \<ge> int (ed_nlines st) then int (ed_nlines st) - 1 else to)
      in list_rows sy st [nat f..<nat (t + 1)] w)"

fun says :: "'w esys \<Rightarrow> string list \<Rightarrow> 'w \<Rightarrow> 'w option" where
  "says sy [] w = Some w"
| "says sy (s # ss) w = do { w1 \<leftarrow> say sy s w; says sy ss w1 }"

text \<open>The first and the last line of the help have a newline more than \<^verbatim>\<open>puts\<close> adds; the dash is written in UTF-8.\<close>

definition ed_help :: "'w esys \<Rightarrow> 'w \<Rightarrow> 'w option" where
  "ed_help sy w = do {
     w1 \<leftarrow> puts (es_sys sy) (10 # map of_char ''  ed '' @ [0xE2, 0x80, 0x94] @ lit '' KumOS line editor'') w;
     w2 \<leftarrow> says sy [''  Commands:'', ''    l [from] [to]  - list lines'', ''    a <text>       - append line'', ''    i <n> <text>   - insert at line n'',
       ''    d <n>          - delete line n'', ''    c <n> <text>   - change line n'', ''    s <n> <from> <to> - substitute in line n'',
       ''    p              - print all'', ''    w              - save'', ''    q              - quit''] w1;
     puts (es_sys sy) (lit_lines [''    wq             - save and quit'']) w2 }"

text \<open>The result of a command: whether the editor goes on.\<close>

type_synonym 'w ed_result = "(bool \<times> ed \<times> 'w) option"

definition stay :: "ed \<Rightarrow> 'w option \<Rightarrow> 'w ed_result" where
  "stay st w = map_option (\<lambda>w. (True, st, w)) w"

definition cmd_list :: "'w esys \<Rightarrow> bytes \<Rightarrow> ed \<Rightarrow> 'w \<Rightarrow> 'w ed_result" where
  "cmd_list sy arg st w = do {
     vs \<leftarrow> sscanf arg (lit ''%d %d'');
     let from = (case vs of SInt n # _ \<Rightarrow> n | _ \<Rightarrow> 0) - 1;
     let to = (case vs of [SInt _, SInt n] \<Rightarrow> n | _ \<Rightarrow> int (ed_nlines st) - 1) - 1;
     stay st (ed_list sy st (if from < 0 then 0 else from) (if to < 0 then int (ed_nlines st) - 1 else to) w) }"

definition cmd_insert :: "'w esys \<Rightarrow> bytes \<Rightarrow> ed \<Rightarrow> 'w \<Rightarrow> 'w ed_result" where
  "cmd_insert sy arg st w = do {
     n \<leftarrow> atoi arg;
     let lno = n - 1;
     text \<leftarrow> strchr arg 32;
     case text of
       None \<Rightarrow> stay st (say sy ''Bad line number.'' w)
     | Some k \<Rightarrow>
         if lno < 0 \<or> lno > int (ed_nlines st) then stay st (say sy ''Bad line number.'' w)
         else if ed_nlines st < MAX_LINES then do {
           st1 \<leftarrow> ed_insert (nat lno) (drop (k + 1) arg) st;
           stay st1 (sayf sy ''Inserted at line %d'' [FInt (lno + 1)] w) }
         else stay st (Some w) }"

definition cmd_delete :: "'w esys \<Rightarrow> bytes \<Rightarrow> ed \<Rightarrow> 'w \<Rightarrow> 'w ed_result" where
  "cmd_delete sy arg st w = do {
     n \<leftarrow> atoi arg;
     let lno = n - 1;
     if lno < 0 \<or> lno \<ge> int (ed_nlines st) then stay st (say sy ''Bad line number.'' w)
     else do { st1 \<leftarrow> ed_delete (nat lno) st; stay st1 (sayf sy ''Deleted line %d'' [FInt (lno + 1)] w) } }"

definition cmd_change :: "'w esys \<Rightarrow> bytes \<Rightarrow> ed \<Rightarrow> 'w \<Rightarrow> 'w ed_result" where
  "cmd_change sy arg st w = do {
     n \<leftarrow> atoi arg;
     let lno = n - 1;
     text \<leftarrow> strchr arg 32;
     case text of
       None \<Rightarrow> stay st (say sy ''Bad line number.'' w)
     | Some k \<Rightarrow>
         if lno < 0 \<or> lno \<ge> int (ed_nlines st) then stay st (say sy ''Bad line number.'' w)
         else do { st1 \<leftarrow> ed_change (nat lno) (drop (k + 1) arg) st; stay st1 (sayf sy ''Changed line %d'' [FInt (lno + 1)] w) } }"

definition cmd_subst :: "'w esys \<Rightarrow> bytes \<Rightarrow> bytes \<Rightarrow> ed \<Rightarrow> 'w \<Rightarrow> 'w ed_result" where
  "cmd_subst sy junk arg st w = do {
     n \<leftarrow> atoi arg;
     let lno = n - 1;
     if lno < 0 \<or> lno \<ge> int (ed_nlines st) then stay st (say sy ''Bad line number.'' w)
     else do {
       a \<leftarrow> strchr arg 32;
       case a of
         None \<Rightarrow> stay st (Some w)
       | Some k \<Rightarrow> do {
           let p = drop (k + 1) arg;
           b \<leftarrow> strchr p 32;
           case b of
             None \<Rightarrow> stay st (Some w)
           | Some j \<Rightarrow> do {
               r \<leftarrow> ed_subst junk (nat lno) (take j p @ [0]) (drop (j + 1) p) st;
               case r of
                 None \<Rightarrow> stay st (say sy ''Pattern not found.'' w)
               | Some st1 \<Rightarrow> stay st1 (sayf sy ''Substituted on line %d'' [FInt (lno + 1)] w) } } } }"

definition cmd_append :: "'w esys \<Rightarrow> bytes \<Rightarrow> ed \<Rightarrow> 'w \<Rightarrow> 'w ed_result" where
  "cmd_append sy arg st w =
     (if ed_nlines st < MAX_LINES
      then do { st1 \<leftarrow> ed_append arg st; stay st1 (sayf sy ''Appended line %d'' [FInt (int (ed_nlines st1))] w) }
      else stay st (say sy ''Max lines reached.'' w))"

text \<open>
  The chain of conditions of the loop. The second branch for \<^verbatim>\<open>q\<close> with an exclamation mark stands behind the first one and is never reached.
\<close>

definition ed_command :: "'w esys \<Rightarrow> bytes \<Rightarrow> bytes \<Rightarrow> ed \<Rightarrow> 'w \<Rightarrow> 'w ed_result" where
  "ed_command sy junk line st w =
     (let cmd = line ! 0; arg = (if line ! 1 = 32 then drop 2 line else drop 1 line) in
      if cmd = of_char CHR ''q'' then
        (if ed_modified st then stay st (say sy ''Unsaved changes. Use 'wq' to save and quit or 'q!' to force.'' w) else Some (False, st, w))
      else if cmd = of_char CHR ''q'' \<and> line ! 1 = of_char CHR ''!'' then Some (False, st, w)
      else if cmd = of_char CHR ''w'' then
        map_option (\<lambda>(st1, w1). (line ! 1 \<noteq> of_char CHR ''q'', st1, w1)) (ed_save sy st w)
      else if cmd = of_char CHR ''p'' then stay st (ed_list sy st 0 (int (ed_nlines st) - 1) w)
      else if cmd = of_char CHR ''l'' then cmd_list sy arg st w
      else if cmd = of_char CHR ''a'' then cmd_append sy arg st w
      else if cmd = of_char CHR ''i'' then cmd_insert sy arg st w
      else if cmd = of_char CHR ''d'' then cmd_delete sy arg st w
      else if cmd = of_char CHR ''c'' then cmd_change sy arg st w
      else if cmd = of_char CHR ''s'' then cmd_subst sy junk arg st w
      else if cmd = of_char CHR ''?'' \<or> cmd = of_char CHR ''h'' then stay st (ed_help sy w)
      else stay st (sayf sy ''Unknown command '%c'. Type '?' for help.'' [FInt (sint cmd)] w))"

partial_function (option) ed_loop :: "'w esys \<Rightarrow> bytes \<Rightarrow> bytes \<Rightarrow> ed \<Rightarrow> 'w \<Rightarrow> (ed \<times> 'w) option" where
  "ed_loop sy junk line st w = do {
     w1 \<leftarrow> fputs (es_sys sy) (lit ''ed> '') w;
     case sys_read (es_sys sy) (LINE_LEN - 1) w1 of (x, w2) \<Rightarrow>
       if x = [] then ed_loop sy junk line st w2
       else do {
         l1 \<leftarrow> blit line 0 (trim_end x @ replicate (length x - length (trim_end x)) 0 @ [0]);
         if hd l1 = 0 then ed_loop sy junk l1 st w2
         else do {
           (go, st1, w3) \<leftarrow> ed_command sy junk l1 st w2;
           if go then ed_loop sy junk l1 st1 w3 else Some (st1, w3) } } }"

definition ed_main :: "'w esys \<Rightarrow> bytes \<Rightarrow> bytes \<Rightarrow> bytes \<Rightarrow> ed \<Rightarrow> 'w \<Rightarrow> (int \<times> 'w) option" where
  "ed_main sy args line junk st w = do {
     (a, w1) \<leftarrow> read_args (es_sys sy) args w;
     if hd a = 0 then map_option (Pair 1) (say sy ''Usage: ed <filename>'' w1)
     else do {
       nm \<leftarrow> strncpy (ed_filename st) a 63;
       (st1, w2) \<leftarrow> ed_load sy nm (st\<lparr>ed_filename := nm\<rparr>) w1;
       w3 \<leftarrow> ed_help sy w2;
       (_, w4) \<leftarrow> ed_loop sy junk line st1 w3;
       Some (0, w4) } }"

section \<open>The text as a list\<close>

text \<open>Every line has its array and ends inside it; the abstraction of the table of lines is the list of their strings.\<close>

definition ed_ok :: "ed \<Rightarrow> bool" where
  "ed_ok st \<longleftrightarrow> ed_nlines st \<le> 256 \<and> (\<forall>i < 256. length (ed_lines st i) = 256 \<and> ed_lines st i ! 255 = 0)"

definition ed_text :: "ed \<Rightarrow> bytes list" where
  "ed_text st = map (\<lambda>i. cstr (ed_lines st i)) [0..<ed_nlines st]"

lemma ed_text_simps [simp]:
  "length (ed_text st) = ed_nlines st" "i < ed_nlines st \<Longrightarrow> ed_text st ! i = cstr (ed_lines st i)"
  by (simp_all add: ed_text_def)

lemma row_end: "length r = 256 \<Longrightarrow> r ! 255 = 0 \<Longrightarrow> terminated r \<and> drop 255 r = [0]"
  by (auto simp: terminated_def in_set_conv_nth Cons_nth_drop_Suc [symmetric] intro!: exI [of _ 255])

lemma cstr_pad: "0 \<notin> set s \<Longrightarrow> 0 < n \<Longrightarrow> cstr (s @ replicate n 0) = s"
  by (cases n) (simp_all add: cstr_append_zero)

lemma set_row_ok:
  assumes "ed_ok st" "i < 256" "terminated s"
  shows "\<exists>r. set_row i s st = Some (st\<lparr>ed_lines := (ed_lines st)(i := r)\<rparr>) \<and> length r = 256 \<and> r ! 255 = 0 \<and> cstr r = take 255 (cstr s)"
proof -
  have l: "length (ed_lines st i) = 256" "ed_lines st i ! 255 = 0" using assms(1,2) by (simp_all add: ed_ok_def)
  note e = row_end [OF l]
  have z: "0 \<notin> set (cstr s)" by (auto simp: cstr_def dest: set_takeWhileD)
  show ?thesis
  proof (cases "length (cstr s) < 255")
    case True
    then have "strncpy (ed_lines st i) s 255 = Some (cstr s @ replicate (256 - length (cstr s)) 0)"
      using strncpy_short [OF assms(3), of 255 "ed_lines st i"] l by simp
    moreover have "cstr (cstr s @ replicate (256 - length (cstr s)) 0) = cstr s"
      using z True by (simp add: cstr_pad)
    ultimately show ?thesis using True
      by (intro exI [of _ "cstr s @ replicate (256 - length (cstr s)) 0"]) (simp add: set_row_def LINE_LEN_def nth_append)
  next
    case False
    then have "strncpy (ed_lines st i) s 255 = Some (take 255 (cstr s) @ [0])"
      using strncpy_full [OF assms(3), of 255 "ed_lines st i"] l e by simp
    moreover have "cstr (take 255 (cstr s) @ [0]) = take 255 (cstr s)"
      using z by (intro cstr_append_zero) (meson in_set_takeD)
    ultimately show ?thesis using False
      by (intro exI [of _ "take 255 (cstr s) @ [0]"]) (simp add: set_row_def LINE_LEN_def nth_append)
  qed
qed

lemma copy_row_ok:
  assumes "ed_ok st" "i < 256" "j < 256"
  shows "copy_row i j st = Some (st\<lparr>ed_lines := (ed_lines st)(i := ed_lines st j)\<rparr>)"
proof -
  have "length (ed_lines st i) = 256" "length (ed_lines st j) = 256" using assms by (simp_all add: ed_ok_def)
  then have "memcpy (ed_lines st i) (ed_lines st j) LINE_LEN = Some (ed_lines st j)" by (simp add: kstr_simps LINE_LEN_def)
  then show ?thesis by (simp add: copy_row_def)
qed

lemma copy_row_keeps: "ed_ok st \<Longrightarrow> j < 256 \<Longrightarrow> ed_ok (st\<lparr>ed_lines := (ed_lines st)(i := ed_lines st j)\<rparr>)"
  by (simp add: ed_ok_def)

text \<open>The two loops that move lines, up to make room and down to close a gap.\<close>

lemma copy_up:
  "ed_ok st \<Longrightarrow> 0 < a \<Longrightarrow> b \<le> 256 \<Longrightarrow> copy_rows (map (\<lambda>i. (i, i - 1)) (rev [a..<b])) st
     = Some (st\<lparr>ed_lines := (\<lambda>k. if a \<le> k \<and> k < b then ed_lines st (k - 1) else ed_lines st k)\<rparr>)"
proof (induction b arbitrary: st)
  case (Suc b)
  show ?case
  proof (cases "a \<le> b")
    case True
    let ?s = "st\<lparr>ed_lines := (ed_lines st)(b := ed_lines st (b - 1))\<rparr>"
    have c: "copy_row b (b - 1) st = Some ?s" using Suc.prems by (intro copy_row_ok) auto
    have "ed_ok ?s" using Suc.prems by (intro copy_row_keeps) auto
    from Suc.IH [OF this Suc.prems(2)] Suc.prems(3) have "copy_rows (map (\<lambda>i. (i, i - 1)) (rev [a..<b])) ?s
       = Some (?s\<lparr>ed_lines := (\<lambda>k. if a \<le> k \<and> k < b then ed_lines ?s (k - 1) else ed_lines ?s k)\<rparr>)" by linarith
    then have "copy_rows (map (\<lambda>i. (i, i - 1)) (rev [a..<Suc b])) st
       = Some (?s\<lparr>ed_lines := (\<lambda>k. if a \<le> k \<and> k < b then ed_lines ?s (k - 1) else ed_lines ?s k)\<rparr>)" using True c by simp
    also have "\<dots> = Some (st\<lparr>ed_lines := (\<lambda>k. if a \<le> k \<and> k < Suc b then ed_lines st (k - 1) else ed_lines st k)\<rparr>)"
      using True Suc.prems(2) by (intro arg_cong [where f = Some] ed.equality) (auto simp: fun_eq_iff less_Suc_eq)
    finally show ?thesis .
  qed (auto intro!: ed.equality simp: fun_eq_iff)
qed (auto intro!: ed.equality simp: fun_eq_iff)

lemma copy_down:
  "ed_ok st \<Longrightarrow> b < 256 \<Longrightarrow> copy_rows (map (\<lambda>i. (i, i + 1)) [a..<b]) st
     = Some (st\<lparr>ed_lines := (\<lambda>k. if a \<le> k \<and> k < b then ed_lines st (k + 1) else ed_lines st k)\<rparr>)"
proof (induction "b - a" arbitrary: a st)
  case (Suc n)
  let ?s = "st\<lparr>ed_lines := (ed_lines st)(a := ed_lines st (a + 1))\<rparr>"
  have ab: "a < b" "n = b - Suc a" using Suc.hyps(2) by simp_all
  have c: "copy_row a (a + 1) st = Some ?s" using Suc.prems ab by (intro copy_row_ok) auto
  have "ed_ok ?s" using Suc.prems ab by (intro copy_row_keeps) auto
  from Suc.hyps(1) [OF ab(2) this Suc.prems(2)] have "copy_rows (map (\<lambda>i. (i, i + 1)) [Suc a..<b]) ?s
     = Some (?s\<lparr>ed_lines := (\<lambda>k. if Suc a \<le> k \<and> k < b then ed_lines ?s (k + 1) else ed_lines ?s k)\<rparr>)" .
  then have "copy_rows (map (\<lambda>i. (i, i + 1)) [a..<b]) st
     = Some (?s\<lparr>ed_lines := (\<lambda>k. if Suc a \<le> k \<and> k < b then ed_lines ?s (k + 1) else ed_lines ?s k)\<rparr>)"
    using ab(1) c by (simp add: upt_conv_Cons)
  also have "\<dots> = Some (st\<lparr>ed_lines := (\<lambda>k. if a \<le> k \<and> k < b then ed_lines st (k + 1) else ed_lines st k)\<rparr>)"
    using ab(1) by (intro arg_cong [where f = Some] ed.equality) (auto simp: fun_eq_iff)
  finally show ?case .
qed (auto intro!: ed.equality simp: fun_eq_iff)

lemma blit_first: "length r = 256 \<Longrightarrow> r ! 255 = 0 \<Longrightarrow> \<exists>r'. blit r 0 [0] = Some r' \<and> length r' = 256 \<and> r' ! 255 = 0"
  by (cases r) (auto simp: blit_def nth_Cons')

lemma ed_append_ok:
  assumes "ed_ok st" "terminated x" "ed_nlines st < 256"
  shows "\<exists>st'. ed_append x st = Some st' \<and> ed_ok st' \<and> ed_modified st' \<and> ed_text st' = ed_text st @ [take 255 (cstr x)]"
proof -
  obtain r where "set_row (ed_nlines st) x st = Some (st\<lparr>ed_lines := (ed_lines st)(ed_nlines st := r)\<rparr>)"
    and r: "length r = 256" "r ! 255 = 0" "cstr r = take 255 (cstr x)"
    using set_row_ok [OF assms(1,3,2)] by blast
  then have "ed_append x st = Some (st\<lparr>ed_lines := (ed_lines st)(ed_nlines st := r), ed_nlines := ed_nlines st + 1, ed_modified := True\<rparr>)"
    by (simp add: ed_append_def)
  then show ?thesis using assms(1,3) r by (simp add: ed_ok_def ed_text_def)
qed

lemma ed_insert_ok:
  assumes ok: "ed_ok st" and x: "terminated x" and n: "n \<le> ed_nlines st" "ed_nlines st < 256"
  shows "\<exists>st'. ed_insert n x st = Some st' \<and> ed_ok st' \<and> ed_modified st'
    \<and> ed_text st' = take n (ed_text st) @ [take 255 (cstr x)] @ drop n (ed_text st)"
proof -
  let ?f = "\<lambda>k. if n + 1 \<le> k \<and> k < ed_nlines st + 1 then ed_lines st (k - 1) else ed_lines st k"
  let ?s = "st\<lparr>ed_lines := ?f\<rparr>"
  have c: "copy_rows (map (\<lambda>i. (i, i - 1)) (rev [n + 1..<ed_nlines st + 1])) st = Some ?s"
    using ok n by (intro copy_up) auto
  have s: "ed_ok ?s" using ok by (auto simp: ed_ok_def)
  obtain r where "set_row n x ?s = Some (?s\<lparr>ed_lines := ?f(n := r)\<rparr>)"
    and r: "length r = 256" "r ! 255 = 0" "cstr r = take 255 (cstr x)"
    using set_row_ok [OF s _ x, of n] n by auto
  then have "ed_insert n x st = Some (st\<lparr>ed_lines := ?f(n := r), ed_nlines := ed_nlines st + 1, ed_modified := True\<rparr>)" (is "_ = Some ?t")
    using c by (simp add: ed_insert_def)
  moreover have "ed_ok ?t" using s r n by (simp add: ed_ok_def)
  moreover have "ed_text ?t = take n (ed_text st) @ [take 255 (cstr x)] @ drop n (ed_text st)"
    using n r(3) by (intro nth_equalityI) (auto simp: nth_append nth_Cons' less_Suc_eq_le not_less)
  ultimately show ?thesis by auto
qed

lemma ed_delete_ok:
  assumes ok: "ed_ok st" and n: "n < ed_nlines st"
  shows "\<exists>st'. ed_delete n st = Some st' \<and> ed_ok st' \<and> ed_modified st' \<and> ed_text st' = take n (ed_text st) @ drop (n + 1) (ed_text st)"
proof -
  let ?m = "ed_nlines st - 1"
  let ?f = "\<lambda>k. if n \<le> k \<and> k < ?m then ed_lines st (k + 1) else ed_lines st k"
  have m: "?m < 256" "ed_nlines st = Suc ?m" using ok n by (auto simp: ed_ok_def)
  have c: "copy_rows (map (\<lambda>i. (i, i + 1)) [n..<?m]) st = Some (st\<lparr>ed_lines := ?f\<rparr>)" using ok m by (intro copy_down) auto
  obtain r where "blit (?f ?m) 0 [0] = Some r" and r: "length r = 256" "r ! 255 = 0"
    using blit_first [of "ed_lines st ?m"] ok m by (auto simp: ed_ok_def)
  then have "ed_delete n st = Some (st\<lparr>ed_lines := ?f(?m := r), ed_nlines := ?m, ed_modified := True\<rparr>)" (is "_ = Some ?t")
    using c by (simp add: ed_delete_def)
  moreover have "ed_ok ?t" using ok r m n by (auto simp: ed_ok_def)
  moreover have "ed_text ?t = take n (ed_text st) @ drop (n + 1) (ed_text st)"
    using n by (intro nth_equalityI) (auto simp: nth_append not_less)
  ultimately show ?thesis by auto
qed

lemma ed_change_ok:
  assumes "ed_ok st" "terminated x" "n < ed_nlines st"
  shows "\<exists>st'. ed_change n x st = Some st' \<and> ed_ok st' \<and> ed_modified st' \<and> ed_text st' = (ed_text st)[n := take 255 (cstr x)]"
proof -
  have n: "n < 256" using assms by (simp add: ed_ok_def)
  obtain r where "set_row n x st = Some (st\<lparr>ed_lines := (ed_lines st)(n := r)\<rparr>)"
    and r: "length r = 256" "r ! 255 = 0" "cstr r = take 255 (cstr x)"
    using set_row_ok [OF assms(1) n assms(2)] by blast
  then have "ed_change n x st = Some (st\<lparr>ed_lines := (ed_lines st)(n := r), ed_modified := True\<rparr>)" (is "_ = Some ?t")
    by (simp add: ed_change_def)
  moreover have "ed_ok ?t" using assms(1) r by (simp add: ed_ok_def)
  moreover have "ed_text ?t = (ed_text st)[n := take 255 (cstr x)]"
    using r(3) assms(3) by (intro nth_equalityI) (auto simp: nth_list_update)
  ultimately show ?thesis by auto
qed

section \<open>Saving and loading\<close>

lemma text_lines_unlines: "\<forall>l \<in> set ls. 10 \<notin> set l \<Longrightarrow> text_lines (unlines ls) = ls"
proof (induction ls)
  case (Cons l ls)
  have t: "takeWhile (\<lambda>c. c \<noteq> 10) (l @ 10 # unlines ls) = l" using Cons.prems by (intro takeWhile_tail [THEN trans] takeWhile_eq_all_conv [THEN iffD2]) auto
  have "text_lines (l @ 10 # unlines ls) = l # text_lines (unlines ls)" by (subst text_lines.simps) (simp only: t, simp)
  then show ?case using Cons by simp
qed (simp add: text_lines.simps)

lemma put_rows_eq: "\<forall>r \<in> set rs. terminated r \<Longrightarrow> put_rows rs = Some (unlines (map cstr rs))"
  by (induction rs) (simp_all add: libc_kernel kstrlen_eq take_cstr)

lemma save_text_eq:
  assumes "ed_ok st"
  shows "save_text st = (if length (unlines (ed_text st)) < 65536 then Some (unlines (ed_text st)) else None)"
proof -
  have "\<forall>r \<in> set (map (ed_lines st) [0..<ed_nlines st]). terminated r"
    using assms row_end by (auto simp: ed_ok_def)
  then have "put_rows (map (ed_lines st) [0..<ed_nlines st]) = Some (unlines (map cstr (map (ed_lines st) [0..<ed_nlines st])))"
    by (rule put_rows_eq)
  also have "map cstr (map (ed_lines st) [0..<ed_nlines st]) = ed_text st" by (simp add: ed_text_def)
  finally show ?thesis by (simp add: save_text_def MAX_LINES_def LINE_LEN_def)
qed

lemma fill_rows_ok:
  "ed_ok st \<Longrightarrow> \<forall>l \<in> set ls. terminated l \<Longrightarrow> i + length ls \<le> 256 \<Longrightarrow>
    \<exists>st'. fill_rows i ls st = Some st' \<and> ed_ok st' \<and> ed_nlines st' = i + length ls \<and> (\<forall>k < i. ed_lines st' k = ed_lines st k)
      \<and> (\<forall>k < length ls. cstr (ed_lines st' (i + k)) = take 255 (cstr (ls ! k)))"
proof (induction ls arbitrary: i st)
  case Nil
  then show ?case by (simp add: ed_ok_def)
next
  case (Cons l ls)
  obtain r where s: "set_row i l st = Some (st\<lparr>ed_lines := (ed_lines st)(i := r)\<rparr>)"
    and r: "length r = 256" "r ! 255 = 0" "cstr r = take 255 (cstr l)"
    using set_row_ok [OF Cons.prems(1), of i l] Cons.prems(2,3) by auto
  let ?s = "st\<lparr>ed_lines := (ed_lines st)(i := r)\<rparr>"
  have "ed_ok ?s" using Cons.prems(1) r by (simp add: ed_ok_def)
  from Cons.IH [OF this, of "i + 1"] Cons.prems(2,3) obtain st' where
    st': "fill_rows (i + 1) ls ?s = Some st'" "ed_ok st'" "ed_nlines st' = i + 1 + length ls" "\<forall>k < i + 1. ed_lines st' k = ed_lines ?s k"
      "\<forall>k < length ls. cstr (ed_lines st' (i + 1 + k)) = take 255 (cstr (ls ! k))" by auto
  have "cstr (ed_lines st' (i + k)) = take 255 (cstr ((l # ls) ! k))" if "k < length (l # ls)" for k
    using that st'(4,5) r(3) by (cases k) auto
  then show ?case using s st'(1-4) by auto
qed

lemma load_text_ok:
  assumes "ed_ok st" "0 \<notin> set x" "length (text_lines x) \<le> 256"
  shows "\<exists>st'. load_text x st = Some st' \<and> ed_ok st' \<and> ed_text st' = map (take 255) (text_lines x)"
proof -
  let ?ls = "map (\<lambda>l. l @ [0]) (text_lines x)"
  have g: "get_lines MAX_LINES (x @ [0]) = Some ?ls" using assms(2,3) by (simp add: get_lines_text MAX_LINES_def)
  have "\<forall>l \<in> set ?ls. terminated l" by (auto simp: terminated_def)
  from fill_rows_ok [OF assms(1) this, of 0] assms(3) obtain st' where
    st': "fill_rows 0 ?ls st = Some st'" "ed_ok st'" "ed_nlines st' = length ?ls"
      "\<forall>k < length ?ls. cstr (ed_lines st' k) = take 255 (cstr (?ls ! k))" by auto
  have "cstr (?ls ! k) = text_lines x ! k" if "k < length (text_lines x)" for k
    using text_lines_nonzero [OF assms(2) nth_mem [OF that]] that by simp
  then have "ed_text st' = map (take 255) (text_lines x)" using st'(3,4) by (intro nth_equalityI) simp_all
  then show ?thesis using g st'(1,2) by (simp add: load_text_def)
qed

lemma ed_text_row: "ed_ok st \<Longrightarrow> l \<in> set (ed_text st) \<Longrightarrow> length l \<le> 255 \<and> 0 \<notin> set l"
proof -
  assume ok: "ed_ok st" and "l \<in> set (ed_text st)"
  then obtain i where "i < ed_nlines st" "l = cstr (ed_lines st i)" by (auto simp: ed_text_def)
  then have i: "i < 256" "l = cstr (ed_lines st i)" using ok by (auto simp: ed_ok_def)
  then have "length l < length (ed_lines st i)" using row_end [of "ed_lines st i"] ok by (auto simp: ed_ok_def terminated_iff_length)
  then show ?thesis using ok i cstr_nonzero by (auto simp: ed_ok_def)
qed

section \<open>Commands and the state\<close>

lemma strncpy_keeps:
  "strncpy d s n = Some r \<Longrightarrow> length r = length d \<and> (n < length d \<longrightarrow> r ! n = 0 \<or> r ! n = d ! n)"
proof (induction d s n arbitrary: r rule: strncpy.induct)
  case (2 d ds c cs n)
  show ?case
  proof (cases "c = 0")
    case True
    then show ?thesis using 2 by (auto simp: libc_kernel kmemset_eq nth_append nth_Cons' split: if_splits)
  qed (use 2 in auto)
qed auto

lemma set_row_keeps: "set_row i s st = Some st' \<Longrightarrow> ed_ok st \<Longrightarrow> i < 256 \<Longrightarrow> ed_ok st'"
  by (auto simp: set_row_def LINE_LEN_def ed_ok_def bind_eq_Some_conv dest!: strncpy_keeps)

lemma stay_eq: "stay st v = Some (go, st', w') \<longleftrightarrow> go \<and> st' = st \<and> v = Some w'"
  by (auto simp: stay_def)

lemma case_eq_Some:
  "(case v of None \<Rightarrow> a | Some y \<Rightarrow> f y) = Some z \<longleftrightarrow> v = None \<and> a = Some z \<or> (\<exists>y. v = Some y \<and> f y = Some z)"
  "(if b then p else q) = Some z \<longleftrightarrow> (if b then p = Some z else q = Some z)"
  by (simp_all split: option.splits)

lemma nlines_step: "ed_ok st \<Longrightarrow> n \<le> 256 \<Longrightarrow> ed_ok (st\<lparr>ed_nlines := n, ed_modified := True\<rparr>)"
  by (simp add: ed_ok_def)

lemma ed_insert_keeps:
  assumes "ed_insert n x st = Some st'" "ed_ok st" "n \<le> ed_nlines st" "ed_nlines st < 256"
  shows "ed_ok st'"
proof -
  let ?f = "\<lambda>k. if n + 1 \<le> k \<and> k < ed_nlines st + 1 then ed_lines st (k - 1) else ed_lines st k"
  have c: "copy_rows (map (\<lambda>i. (i, i - 1)) (rev [n + 1..<ed_nlines st + 1])) st = Some (st\<lparr>ed_lines := ?f\<rparr>)"
    using assms by (intro copy_up) auto
  have s: "ed_ok (st\<lparr>ed_lines := ?f\<rparr>)" using assms(2) by (auto simp: ed_ok_def)
  obtain st2 where "set_row n x (st\<lparr>ed_lines := ?f\<rparr>) = Some st2" "st' = st2\<lparr>ed_nlines := ed_nlines st + 1, ed_modified := True\<rparr>"
    using assms(1) unfolding ed_insert_def c by (auto simp: bind_eq_Some_conv)
  then show ?thesis using set_row_keeps [OF _ s] assms(3,4) by (auto intro: nlines_step)
qed

lemma ed_delete_keeps: "ed_delete n st = Some st' \<Longrightarrow> ed_ok st \<Longrightarrow> n < ed_nlines st \<Longrightarrow> ed_ok st'"
  using ed_delete_ok [of st n] by auto

lemma row_write_keeps:
  "ed_append x st = Some st' \<Longrightarrow> ed_ok st \<Longrightarrow> ed_nlines st < 256 \<Longrightarrow> ed_ok st'"
  "ed_change n x st = Some st' \<Longrightarrow> ed_ok st \<Longrightarrow> n < ed_nlines st \<Longrightarrow> ed_ok st'"
  "ed_subst junk n p r st = Some (Some st') \<Longrightarrow> ed_ok st \<Longrightarrow> n < ed_nlines st \<Longrightarrow> ed_ok st'"
proof -
  have m: "ed_ok t \<Longrightarrow> ed_ok (t\<lparr>ed_modified := True\<rparr>)" for t by (simp add: ed_ok_def)
  have n: "ed_ok st \<Longrightarrow> n < ed_nlines st \<Longrightarrow> n < 256" by (simp add: ed_ok_def)
  show "ed_append x st = Some st' \<Longrightarrow> ed_ok st \<Longrightarrow> ed_nlines st < 256 \<Longrightarrow> ed_ok st'"
    using set_row_keeps [of "ed_nlines st" x st] by (auto simp: ed_append_def intro: nlines_step)
  show "ed_change n x st = Some st' \<Longrightarrow> ed_ok st \<Longrightarrow> n < ed_nlines st \<Longrightarrow> ed_ok st'"
    using set_row_keeps [of n x st] n by (auto simp: ed_change_def intro: m)
  show "ed_subst junk n p r st = Some (Some st') \<Longrightarrow> ed_ok st \<Longrightarrow> n < ed_nlines st \<Longrightarrow> ed_ok st'"
    using n by (auto simp: ed_subst_def bind_eq_Some_conv case_eq_Some intro!: m dest: set_row_keeps)
qed

text \<open>What every command but the two that end the editor gives: the editor goes on, with its tables in order.\<close>

lemma cmd_keeps:
  "cmd_append sy arg st w = Some (go, st', w') \<Longrightarrow> ed_ok st \<Longrightarrow> go \<and> ed_ok st'"
  "cmd_insert sy arg st w = Some (go, st', w') \<Longrightarrow> ed_ok st \<Longrightarrow> go \<and> ed_ok st'"
  "cmd_delete sy arg st w = Some (go, st', w') \<Longrightarrow> ed_ok st \<Longrightarrow> go \<and> ed_ok st'"
  "cmd_change sy arg st w = Some (go, st', w') \<Longrightarrow> ed_ok st \<Longrightarrow> go \<and> ed_ok st'"
  "cmd_subst sy junk arg st w = Some (go, st', w') \<Longrightarrow> ed_ok st \<Longrightarrow> go \<and> ed_ok st'"
  "cmd_list sy arg st w = Some (go, st', w') \<Longrightarrow> ed_ok st \<Longrightarrow> go \<and> ed_ok st'"
proof -
  note s = bind_eq_Some_conv stay_eq Let_def MAX_LINES_def case_eq_Some
  show "cmd_append sy arg st w = Some (go, st', w') \<Longrightarrow> ed_ok st \<Longrightarrow> go \<and> ed_ok st'"
    by (auto simp: cmd_append_def s dest: row_write_keeps(1) split: if_splits)
  show "cmd_insert sy arg st w = Some (go, st', w') \<Longrightarrow> ed_ok st \<Longrightarrow> go \<and> ed_ok st'"
    by (auto simp: cmd_insert_def s dest: ed_insert_keeps split: if_splits)
  show "cmd_delete sy arg st w = Some (go, st', w') \<Longrightarrow> ed_ok st \<Longrightarrow> go \<and> ed_ok st'"
    by (auto simp: cmd_delete_def s dest: ed_delete_keeps split: if_splits)
  show "cmd_change sy arg st w = Some (go, st', w') \<Longrightarrow> ed_ok st \<Longrightarrow> go \<and> ed_ok st'"
    by (auto simp: cmd_change_def s dest: row_write_keeps(2) split: if_splits)
  show "cmd_subst sy junk arg st w = Some (go, st', w') \<Longrightarrow> ed_ok st \<Longrightarrow> go \<and> ed_ok st'"
    by (auto simp: cmd_subst_def s dest: row_write_keeps(3) split: if_splits)
  show "cmd_list sy arg st w = Some (go, st', w') \<Longrightarrow> ed_ok st \<Longrightarrow> go \<and> ed_ok st'"
    by (auto simp: cmd_list_def s)
qed

lemma ed_save_keeps:
  assumes "ed_save sy st w = Some (st', w')"
  shows "ed_text st' = ed_text st \<and> ed_ok st' = ed_ok st"
proof -
  obtain x fd w1 where "save_text st = Some x" "es_open sy (ed_filename st) (O_WRONLY OR O_CREAT OR O_TRUNC) w = (fd, w1)"
    using assms by (cases "es_open sy (ed_filename st) (O_WRONLY OR O_CREAT OR O_TRUNC) w") (auto simp: ed_save_def bind_eq_Some_conv)
  with assms have "st' = st \<or> st' = st\<lparr>ed_modified := False\<rparr>" by (auto simp: ed_save_def bind_eq_Some_conv Let_def split: if_splits)
  then show ?thesis by (auto simp: ed_text_def ed_ok_def)
qed

text \<open>Every command keeps the tables in order. The editor ends without a save only when nothing is modified; \<^verbatim>\<open>wq\<close> ends it even when the save failed.\<close>

lemma ed_command_safe:
  assumes "ed_command sy junk line st w = Some (go, st', w')" "ed_ok st"
  shows "ed_ok st' \<and> (go \<or> (line ! 0 = of_char CHR ''q'' \<and> \<not> ed_modified st \<and> st' = st)
    \<or> (line ! 0 = of_char CHR ''w'' \<and> line ! 1 = of_char CHR ''q'' \<and> ed_save sy st w = Some (st', w')))"
  using assms by (auto simp: ed_command_def stay_eq Let_def ed_save_keeps dest: cmd_keeps split: if_splits)

text \<open>A modified text cannot be given up: \<^verbatim>\<open>q!\<close> is answered like \<^verbatim>\<open>q\<close>, by the message that recommends it.\<close>

lemma ed_force_quit_refused: "ed_modified st \<Longrightarrow> \<exists>w1. ed_command sy junk (lit ''q!'') st w = Some (True, st, w1)"
  by (simp add: ed_command_def lit_def stay_def say_def puts_def fputs_def libc_kernel kstr_simps)

section \<open>Properties\<close>

definition ed_sample :: ed where
  "ed_sample = \<lparr>ed_lines = (\<lambda>_. 97 # replicate 255 0), ed_nlines = 2, ed_filename = replicate 64 0, ed_modified = False\<rparr>"

lemma ed_sample_ok: "ed_ok ed_sample" "ed_text ed_sample = [[97], [97]]" "ed_nlines ed_sample = 2"
  by (simp_all add: ed_ok_def ed_text_def ed_sample_def cstr_def upt_rec)

text \<open>C39. The editor commands refine the list of lines: append adds the text, cut to 255 bytes, behind the last line, insert puts it before line \<open>n\<close>, delete removes line
  \<open>n\<close> and change replaces it. Each succeeds, keeps the table of lines in order and marks the text as modified.\<close>

theorem ed_edits_refine:
  assumes "ed_ok st" "terminated x"
  shows "(ed_nlines st < MAX_LINES \<longrightarrow>
       (\<exists>st'. ed_append x st = Some st' \<and> ed_ok st' \<and> ed_modified st' \<and> ed_text st' = ed_text st @ [take 255 (cstr x)]))
    \<and> (n \<le> ed_nlines st \<and> ed_nlines st < MAX_LINES \<longrightarrow>
       (\<exists>st'. ed_insert n x st = Some st' \<and> ed_ok st' \<and> ed_modified st'
          \<and> ed_text st' = take n (ed_text st) @ [take 255 (cstr x)] @ drop n (ed_text st)))
    \<and> (n < ed_nlines st \<longrightarrow>
       (\<exists>st'. ed_delete n st = Some st' \<and> ed_ok st' \<and> ed_modified st' \<and> ed_text st' = take n (ed_text st) @ drop (n + 1) (ed_text st))
     \<and> (\<exists>st'. ed_change n x st = Some st' \<and> ed_ok st' \<and> ed_modified st' \<and> ed_text st' = (ed_text st)[n := take 255 (cstr x)]))"
  using ed_append_ok [OF assms] ed_insert_ok [OF assms, of n] ed_delete_ok [OF assms(1), of n] ed_change_ok [OF assms, of n]
  unfolding MAX_LINES_def by blast

theorem ed_edits_refine_witness:
  "\<exists>a b c d. ed_append [98, 0] ed_sample = Some a \<and> ed_text a = [[97], [97], [98]] \<and> ed_insert 1 [98, 0] ed_sample = Some b \<and> ed_text b = [[97], [98], [97]]
     \<and> ed_delete 1 ed_sample = Some c \<and> ed_text c = [[97]] \<and> ed_change 1 [98, 0] ed_sample = Some d \<and> ed_text d = [[97], [98]]"
proof -
  have "terminated [98, 0 :: u8]" by (simp add: terminated_def)
  from ed_edits_refine [OF ed_sample_ok(1) this, of 1] show ?thesis
    by (auto simp: ed_sample_ok(2,3) MAX_LINES_def cstr_def)
qed

text \<open>C40. Saving writes every line followed by a newline and loading cuts the text at its newlines: for lines without newlines, in a text of at most 4095 bytes, the
  editor loads the lines that were saved, whatever the table held before.\<close>

theorem ed_save_load:
  assumes "ed_ok st" "ed_ok st0" "\<forall>l \<in> set (ed_text st). 10 \<notin> set l" "length (unlines (ed_text st)) \<le> 4095"
  shows "\<exists>x st1. save_text st = Some x \<and> length x \<le> 4095 \<and> load_text x st0 = Some st1 \<and> ed_ok st1 \<and> ed_text st1 = ed_text st"
proof -
  let ?x = "unlines (ed_text st)"
  have rows: "\<forall>l \<in> set (ed_text st). length l \<le> 255 \<and> 0 \<notin> set l" using ed_text_row [OF assms(1)] by blast
  have t: "text_lines ?x = ed_text st" using assms(3) by (rule text_lines_unlines)
  have "0 \<notin> set ?x" using rows by auto
  moreover have "length (text_lines ?x) \<le> 256" using assms(1) by (simp add: t ed_ok_def)
  ultimately obtain st1 where st1: "load_text ?x st0 = Some st1" "ed_ok st1" "ed_text st1 = map (take 255) (ed_text st)"
    using load_text_ok [OF assms(2), of ?x] by (auto simp: t)
  have "map (take 255) (ed_text st) = ed_text st" using rows by (intro map_idI) auto
  then show ?thesis using st1 assms(4) by (simp add: save_text_eq [OF assms(1)])
qed

theorem ed_save_load_witness:
  "\<exists>x st1. save_text ed_sample = Some x \<and> length x \<le> 4095 \<and> load_text x ed_sample = Some st1 \<and> ed_text st1 = [[97], [97]]"
proof -
  have "\<forall>l \<in> set (ed_text ed_sample). 10 \<notin> set l" "length (unlines (ed_text ed_sample)) \<le> 4095" by (simp_all add: ed_sample_ok(2))
  from ed_save_load [OF ed_sample_ok(1,1) this] show ?thesis unfolding ed_sample_ok(2) by blast
qed

end
