(* ===== verification/Spec2Isabelle.thy ===== *)
theory Spec2Isabelle
  imports KumPrelude KString Ring HandleTable Pipe PipeConc KMalloc KHeap Digits Vga RamFs Users
    Ports Rtc Keyboard Gdt Idt Sched SchedProps Process Signal Timer Dmesg
    Pmm Paging PagingProps Serial Swap Ata Packed Fat12 Fat12Props Fat12Files Fat12Dir Fat12Vol Fat12Mount
    Vfs VfsProps VfsDisk Net NetProps NetNic Tcp NetWf
 Libc LibcProps UserTools Elf ElfProps Dns Dhcp Ext2 Ext2Props Mouse Syscall SyscallProps Procfs Userspace Ed
begin

text \<open>
  A verification library of KumOS, a small operating system for the x86 in C (\<^verbatim>\<open>src/\<close>) with a userland
  (\<^verbatim>\<open>user/\<close>). The theories model the C sources as executable HOL functions on explicit states and prove what makes each
  part correct; file and function names below are those of the repository.

  \<^bold>\<open>How the parts fit.\<close> At the bottom are strings (\<^verbatim>\<open>kstring.c\<close>), the port instructions and the heap (\<^verbatim>\<open>kmalloc.c\<close>).
  The drivers (VGA, keyboard, serial line, clock, disk, network card) sit on the ports. Physical frames and page tables
  (\<^verbatim>\<open>paging.c\<close>) carry the swap file; the scheduler, the process table and the signals run on the timer. The FAT12 and
  RAM file systems, the devices and the pipes are reached through the descriptors of \<^verbatim>\<open>vfs.c\<close>. The network stack polls its
  card and sleeps on the timer.

  \<^bold>\<open>Conventions.\<close> \<open>u8\<close>, \<open>u16\<close>, \<open>u32\<close> are words and wrap around as in C. A result \<open>None\<close> is undefined behaviour of the C
  code (an access outside an object, a division by zero) or, for \<open>partial_function (option)\<close>, a loop that does not end; error
  codes are values. A pointer into a buffer is the list of bytes from there to the end of the object. Static arrays are
  functions on indices, with the bounds of the code's own checks. Devices are parameters: records of the instructions the
  driver executes, over a state of the outside world; where a theorem relies on a device, its documented behaviour is a locale
  (\<open>block_device\<close>, \<open>uart\<close>, \<open>cmos\<close>, \<open>nic\<close>) that is interpreted on an executable device.

  \<^bold>\<open>Theories.\<close>
  \<^item> \<open>KumPrelude\<close>: types, buffers, scanning loops, shared lemmas. \<open>Packed\<close>: fields of packed structures. \<open>Ring\<close>: the contract
    \<open>fifo\<close> of ring buffers, interpreted for pipes, the keyboard, the UDP queue and TCP sockets. \<open>HandleTable\<close>: the contract of
    tables of slots. \<open>Digits\<close>: decimal and hexadecimal output. \<open>Ports\<close>: port instructions.
  \<^item> \<open>KString\<close> (\<^verbatim>\<open>kstring.c\<close>): string routines and number conversion, with the round trip of \<^verbatim>\<open>kitoa\<close>.
  \<^item> \<open>KMalloc\<close>, \<open>KHeap\<close> (\<^verbatim>\<open>kmalloc.c\<close>): the free-list allocator; the heap invariant, exclusive blocks, coalescing, and the locale
    \<open>allocator\<close>.
  \<^item> \<open>Pipe\<close>, \<open>PipeConc\<close> (\<^verbatim>\<open>pipe.c\<close>): ring, blocking reads and writes, and the interleaving of a writer with a reader as a step
    relation, whose runs deliver the written bytes in order.
  \<^item> \<open>Vga\<close>, \<open>Keyboard\<close>, \<open>Serial\<close>, \<open>Rtc\<close>, \<open>Ata\<close>: the drivers. \<open>Gdt\<close>, \<open>Idt\<close>: descriptor tables, interrupts, panic screen.
  \<^item> \<open>Pmm\<close>, \<open>Paging\<close>, \<open>PagingProps\<close>, \<open>Swap\<close> (\<^verbatim>\<open>paging.c\<close>, \<^verbatim>\<open>swap.c\<close>): frames and two-level tables in a modelled physical
    memory; mapping refines a map from pages to frames; page faults, copy on write and the swap round trip.
  \<^item> \<open>Sched\<close>, \<open>SchedProps\<close>, \<open>Process\<close>, \<open>Signal\<close>, \<open>Timer\<close>, \<open>Dmesg\<close>: tasks and round robin without starvation, exit and wait,
    signals, ticks and sleeping, the kernel log.
  \<^item> \<open>RamFs\<close> (\<^verbatim>\<open>fs.c\<close>), \<open>Users\<close>: the memory file system as a finite map; accounts.
  \<^item> \<open>Fat12\<close>, \<open>Fat12Props\<close>, \<open>Fat12Files\<close>, \<open>Fat12Dir\<close>, \<open>Fat12Vol\<close>, \<open>Fat12Mount\<close> (\<^verbatim>\<open>fat12.c\<close>): the packed table, cluster chains,
    the root directory and the volume; a mounted volume on the disk driver refines a finite map from 8.3 names to contents and
    survives a remount.
  \<^item> \<open>Vfs\<close>, \<open>VfsProps\<close>, \<open>VfsDisk\<close> (\<^verbatim>\<open>vfs.c\<close>): mounts and descriptors; what is written through a descriptor under
    \<^verbatim>\<open>/disk\<close> reaches the volume.
  \<^item> \<open>Net\<close>, \<open>NetProps\<close>, \<open>NetNic\<close>, \<open>Tcp\<close>, \<open>NetWf\<close> (\<^verbatim>\<open>net.c\<close>): the card, ARP, UDP and TCP; the checksum against its definition,
    datagrams between two machines, the TCP stream, and the invariant over all sequences of calls.
  \<^item> \<open>Libc\<close>, \<open>LibcProps\<close> (\<^verbatim>\<open>user/kumos_libc.h\<close>): the library every program includes; the sort, moves, numerals, and where the bounded
    copies and conversions fail.
  \<^item> \<open>UserTools\<close> (\<^verbatim>\<open>user/sort.c\<close>, \<^verbatim>\<open>user/uniq.c\<close>, \<^verbatim>\<open>user/wc.c\<close>, \<^verbatim>\<open>user/grep.c\<close>): whole programs over the system calls as parameters; what
    they write for an input, however the reads cut it.
  \<^item> \<open>Elf\<close>, \<open>ElfProps\<close> (\<^verbatim>\<open>src/elf.c\<close>): the program loader over paging; where the bytes of an image end up, and why no program of the repository
    can run in ring 3.
  \<^item> \<open>Dns\<close>, \<open>Dhcp\<close> (\<^verbatim>\<open>src/dns.c\<close>, \<^verbatim>\<open>src/dhcp.c\<close>): the two clients over the UDP operations of \<open>Net\<close>; what their parsers make of encoded messages.
  \<^item> \<open>Ext2\<close>, \<open>Ext2Props\<close> (\<^verbatim>\<open>src/ext2.c\<close>): the ext2 reader over the block device interface; reading gives the bytes of the blocks.
  \<^item> \<open>Mouse\<close> (\<^verbatim>\<open>src/mouse.c\<close>): the packet interrupt as a step relation; the position stays in the bounds, and which movements are misread.
  \<^item> \<open>Syscall\<close>, \<open>SyscallProps\<close> (\<^verbatim>\<open>src/syscall.c\<close>): every handler and the dispatcher over one record of the states of all components, with the memory of the
    caller behind its pointers; printing through the file system, why the library's \<^verbatim>\<open>write\<close> fails, and what \<^verbatim>\<open>fork\<close> shares.
  \<^item> \<open>Procfs\<close>, \<open>Userspace\<close> (\<^verbatim>\<open>src/procfs.c\<close>, \<^verbatim>\<open>src/userspace.c\<close>): the reports under \<^verbatim>\<open>/proc\<close>; starting a task in ring 3, and the memory it loses.
  \<^item> \<open>Ed\<close> (\<^verbatim>\<open>user/ed.c\<close>): the line editor; its commands refine operations on a list of lines, and what is saved is loaded again.
  \<^bold>\<open>Fuel and bounds.\<close> A recursion of the model takes fuel only where the C loop runs over data that could be cyclic: the walk of
  a FAT chain takes the number of table entries, which a chain without repetition cannot exceed, and \<open>kitoa\<close> takes 33 digits, one
  more than a 32-bit number has in base 2; running out is \<open>None\<close>, and the theorems show a result. Bounded waits of the drivers
  have the bounds of the code.

  \<^bold>\<open>Not modelled.\<close> The assembly of \<^verbatim>\<open>boot/\<close> (entry, interrupt stubs, the register part of the task switch) is below the C
  level; its effect on the scheduler's state is in \<open>Sched\<close>. The mode 13h desktop (\<^verbatim>\<open>gui.c\<close> with its font) draws pixels without a contract beyond the
  picture. The shell of \<^verbatim>\<open>kernel.c\<close> prints the results of modelled operations. The demonstration programs in \<^verbatim>\<open>userspace.c\<close> and the user programs other than
  the four filters and the line editor (the shell, the screen editor, \<^verbatim>\<open>awk\<close>, \<^verbatim>\<open>tar\<close> and others) are clients of the modelled library and system calls.
\<close>

end
